(* ===== verification/Prelude.thy ===== *)
theory Prelude
  imports
    Main
    "HOL-Library.AList"
    "HOL-Library.Char_ord"
    "HOL-Library.List_Lexorder"
begin

text \<open>
  What the components share: clock readings and durations, the saturating arithmetic of Rust's
  integer and \<open>Duration\<close> types, the two map types of the standard library behind one interface,
  and the string functions of the standard library that the sources call.

  Clock readings (\<open>Instant\<close>) and durations (\<open>Duration\<close>) are counted in nanoseconds. A call that
  reads the clock takes the reading as an argument, so a run is a sequence of operations with their
  readings. A \<open>Mutex\<close> makes an operation atomic: an operation that holds one lock for its whole body
  is one function from the old state to the new state.

  A Rust \<open>str\<close> is the list of its UTF-8 bytes, a \<^typ>\<open>string\<close>.
\<close>

named_theorems sat_simps \<open>saturating arithmetic unfolded to linear arithmetic\<close>
named_theorems kv_simps \<open>lookup after update for the association-list maps\<close>

section \<open>Time and saturating arithmetic\<close>

type_synonym duration = nat
type_synonym instant = nat

definition nanos_per_sec :: nat where
  "nanos_per_sec = 1000000000"

definition u32_max :: nat where
  "u32_max = 2 ^ 32 - 1"

definition u64_max :: nat where
  "u64_max = 2 ^ 64 - 1"

definition u128_max :: nat where
  "u128_max = 2 ^ 128 - 1"

definition duration_max :: duration where
  "duration_max = u64_max * nanos_per_sec + (nanos_per_sec - 1)"

definition sat_add :: "nat \<Rightarrow> nat \<Rightarrow> nat \<Rightarrow> nat" where
  "sat_add m a b = min m (a + b)"

definition sat_mul :: "nat \<Rightarrow> nat \<Rightarrow> nat \<Rightarrow> nat" where
  "sat_mul m a b = min m (a * b)"

lemma sat_add_le [sat_simps]: "sat_add m a b \<le> m"
  by (simp add: sat_add_def)

lemma sat_add_exact [sat_simps]: "a + b \<le> m \<Longrightarrow> sat_add m a b = a + b"
  by (simp add: sat_add_def)

lemma sat_mul_le [sat_simps]: "sat_mul m a b \<le> m"
  by (simp add: sat_mul_def)

lemma sat_add_mono: "a \<le> a' \<Longrightarrow> b \<le> b' \<Longrightarrow> sat_add m a b \<le> sat_add m a' b'"
  by (simp add: sat_add_def)

text \<open>Milliseconds as a \<open>Duration\<close>, for counts that were clamped to 64 bits before.\<close>

definition duration_from_millis :: "nat \<Rightarrow> duration" where
  "duration_from_millis ms = ms * 1000000"

definition as_millis :: "duration \<Rightarrow> nat" where
  "as_millis d = d div 1000000"

definition as_secs :: "duration \<Rightarrow> nat" where
  "as_secs d = d div nanos_per_sec"

lemma as_millis_from_millis [simp]: "as_millis (duration_from_millis ms) = ms"
  by (simp add: as_millis_def duration_from_millis_def)

section \<open>Lists\<close>

text \<open>Starting anywhere, a round over \<open>n\<close> positions modulo \<open>n\<close> visits each of them.\<close>

lemma rotation_onto:
  assumes "0 < n"
  shows "(\<lambda>k. (start + k) mod n) ` {0..<n} = {0..<n :: nat}"
proof -
  have "\<exists>k < n. i = (start + k) mod n" if "i < n" for i
  proof -
    have "(start + (i + n - start mod n) mod n) mod n = (start + (i + n - start mod n)) mod n"
      by (simp add: mod_add_right_eq)
    also have "start + (i + n - start mod n) = i + n * (start div n) + n"
      using that mult_div_mod_eq [of n start] mod_less_divisor [OF assms, of start] by linarith
    also have "(i + n * (start div n) + n) mod n = i" using that by simp
    finally show ?thesis using assms by (metis mod_less_divisor)
  qed
  then have "{0..<n} \<subseteq> (\<lambda>k. (start + k) mod n) ` {0..<n}" by fastforce
  then show ?thesis using assms by auto
qed

lemma length_filter_neq_distinct:
  "distinct xs \<Longrightarrow> x \<in> set xs \<Longrightarrow> Suc (length (filter (\<lambda>y. y \<noteq> x) xs)) = length xs"
proof (induction xs)
  case Nil
  then show ?case by simp
next
  case (Cons y ys)
  have "filter (\<lambda>z. z \<noteq> y) ys = ys" if "y \<notin> set ys"
    using that by (auto intro: filter_True)
  with Cons show ?case by auto
qed

lemma remove1_filter_distinct: "distinct xs \<Longrightarrow> remove1 x xs = filter (\<lambda>y. y \<noteq> x) xs"
  by (induction xs) (auto intro: filter_True [symmetric])

lemma length_drop_excess:
  "length bs \<le> n \<Longrightarrow> k < n \<Longrightarrow> bs \<noteq> [] \<Longrightarrow>
   length (drop (length bs + k - n) (bs @ replicate k d)) = min n (length bs + k)"
  by auto

section \<open>Finite maps behind one interface\<close>

text \<open>
  The sources use two maps, \<open>HashMap\<close> and \<open>BTreeMap\<close>. Both promise the laws below; they differ in
  the order in which they list their keys (\<open>BTreeMap\<close>: ascending; \<open>HashMap\<close>: none).
\<close>

locale kv_map =
  fixes empty :: 'm
    and lookup :: "'m \<Rightarrow> 'k \<Rightarrow> 'v option"
    and put :: "'k \<Rightarrow> 'v \<Rightarrow> 'm \<Rightarrow> 'm"
    and del :: "'k \<Rightarrow> 'm \<Rightarrow> 'm"
    and keys :: "'m \<Rightarrow> 'k list"
    and ok :: "'m \<Rightarrow> bool"
  assumes lookup_empty: "lookup empty k = None"
    and lookup_put: "ok m \<Longrightarrow> lookup (put k v m) k' = (if k' = k then Some v else lookup m k')"
    and lookup_del: "ok m \<Longrightarrow> lookup (del k m) k' = (if k' = k then None else lookup m k')"
    and set_keys: "ok m \<Longrightarrow> set (keys m) = {k. lookup m k \<noteq> None}"
    and distinct_keys: "ok m \<Longrightarrow> distinct (keys m)"
    and ok_empty: "ok empty"
    and ok_put: "ok m \<Longrightarrow> ok (put k v m)"
    and ok_del: "ok m \<Longrightarrow> ok (del k m)"
begin

lemma length_keys_card: "ok m \<Longrightarrow> length (keys m) = card {k. lookup m k \<noteq> None}"
  by (metis distinct_card distinct_keys set_keys)

lemma finite_dom: "ok m \<Longrightarrow> finite {k. lookup m k \<noteq> None}"
  by (metis List.finite_set set_keys)

lemma keys_empty: "keys empty = []"
  using set_keys [OF ok_empty] by (simp add: lookup_empty)

lemma size_put:
  assumes "ok m"
  shows "length (keys (put k v m)) =
    (if lookup m k = None then Suc (length (keys m)) else length (keys m))"
proof -
  have "{x. lookup (put k v m) x \<noteq> None} = insert k {x. lookup m x \<noteq> None}"
    using assms by (auto simp: lookup_put)
  then show ?thesis
    using assms finite_dom [OF assms]
    by (simp add: length_keys_card ok_put card_insert_if)
qed

lemma size_del:
  assumes "ok m"
  shows "length (keys (del k m)) =
    (if lookup m k = None then length (keys m) else length (keys m) - 1)"
proof -
  have "{x. lookup (del k m) x \<noteq> None} = {x. lookup m x \<noteq> None} - {k}"
    using assms by (auto simp: lookup_del)
  then show ?thesis
    using assms finite_dom [OF assms]
    by (simp add: length_keys_card ok_del card_Diff_singleton_if)
qed

lemma size_del_le: "ok m \<Longrightarrow> length (keys (del k m)) \<le> length (keys m)"
  by (simp add: size_del)

end

text \<open>\<open>HashMap\<close> as an association list with distinct keys.\<close>

type_synonym ('k, 'v) hmap = "('k \<times> 'v) list"

definition hm_ok :: "('k, 'v) hmap \<Rightarrow> bool" where
  "hm_ok m \<longleftrightarrow> distinct (map fst m)"

abbreviation hm_keys :: "('k, 'v) hmap \<Rightarrow> 'k list" where
  "hm_keys \<equiv> map fst"

interpretation hm: kv_map "[] :: ('k, 'v) hmap" map_of AList.update AList.delete hm_keys hm_ok
proof unfold_locales
  fix m :: "('k, 'v) hmap" and k k' :: 'k and v :: 'v
  show "map_of [] k = (None :: 'v option)" by simp
  show "map_of (AList.update k v m) k' = (if k' = k then Some v else map_of m k')"
    by (simp add: update_conv)
  show "map_of (AList.delete k m) k' = (if k' = k then None else map_of m k')"
    by (simp add: delete_conv')
  show "set (hm_keys m) = {k. map_of m k \<noteq> None}"
    by (metis Collect_cong dom_def dom_map_of_conv_image_fst list.set_map)
  show "hm_ok m \<Longrightarrow> distinct (hm_keys m)" by (simp add: hm_ok_def)
  show "hm_ok ([] :: ('k, 'v) hmap)" by (simp add: hm_ok_def)
  show "hm_ok m \<Longrightarrow> hm_ok (AList.update k v m)" by (simp add: hm_ok_def distinct_update)
  show "hm_ok m \<Longrightarrow> hm_ok (AList.delete k m)" by (simp add: hm_ok_def distinct_delete)
qed

lemmas [kv_simps] = hm.lookup_put hm.lookup_del hm.ok_put hm.ok_del hm.ok_empty

lemma hm_ok_filter: "hm_ok m \<Longrightarrow> hm_ok (filter P m)"
  by (simp add: hm_ok_def distinct_map_filter)

lemma map_of_filter_pred:
  "hm_ok m \<Longrightarrow>
   map_of (filter P m) k =
     (case map_of m k of None \<Rightarrow> None | Some v \<Rightarrow> if P (k, v) then Some v else None)"
proof (induction m)
  case Nil
  then show ?case by simp
next
  case (Cons kv m)
  have notin: "map_of m k' = None" if "k' = fst kv" for k'
    using Cons.prems that by (auto simp: hm_ok_def map_of_eq_None_iff)
  show ?case
    using Cons notin [of k] by (cases kv) (auto simp: hm_ok_def)
qed

text \<open>\<open>BTreeMap\<close> as an association list in strictly ascending key order.\<close>

type_synonym ('k, 'v) bmap = "('k \<times> 'v) list"

fun bt_put :: "'k::linorder \<Rightarrow> 'v \<Rightarrow> ('k, 'v) bmap \<Rightarrow> ('k, 'v) bmap" where
  "bt_put k v [] = [(k, v)]"
| "bt_put k v ((k', v') # m) =
     (if k < k' then (k, v) # (k', v') # m
      else if k = k' then (k, v) # m
      else (k', v') # bt_put k v m)"

definition bt_del :: "'k::linorder \<Rightarrow> ('k, 'v) bmap \<Rightarrow> ('k, 'v) bmap" where
  "bt_del k m = filter (\<lambda>(k', _). k' \<noteq> k) m"

definition bt_ok :: "('k::linorder, 'v) bmap \<Rightarrow> bool" where
  "bt_ok m \<longleftrightarrow> sorted_wrt (<) (map fst m)"

lemma set_bt_put: "set (map fst (bt_put k v m)) = insert k (set (map fst m))"
  by (induction k v m rule: bt_put.induct) auto

lemma sorted_bt_put: "sorted_wrt (<) (map fst m) \<Longrightarrow> sorted_wrt (<) (map fst (bt_put k v m))"
proof (induction k v m rule: bt_put.induct)
  case (1 k v)
  then show ?case by simp
next
  case (2 k v k' v' m)
  show ?case
  proof (cases "k < k' \<or> k = k'")
    case True
    with "2.prems" show ?thesis by fastforce
  next
    case False
    then have gt: "k' < k" by auto
    from False "2.IH" "2.prems" have "sorted_wrt (<) (map fst (bt_put k v m))" by simp
    moreover have "\<forall>x \<in> set (map fst (bt_put k v m)). k' < x"
      using "2.prems" gt unfolding set_bt_put by simp
    ultimately show ?thesis using False by simp
  qed
qed

lemma bt_ok_distinct: "bt_ok m \<Longrightarrow> distinct (map fst m)"
  unfolding bt_ok_def by (simp add: strict_sorted_iff)

lemma map_of_bt_put:
  "map_of (bt_put k v m) k' = (if k' = k then Some v else map_of m k')"
  by (induction k v m rule: bt_put.induct) auto

lemma map_of_bt_del: "map_of (bt_del k m) k' = (if k' = k then None else map_of m k')"
  by (induction m) (auto simp: bt_del_def)

interpretation bt: kv_map "[] :: ('k::linorder, 'v) bmap" map_of bt_put bt_del "map fst" bt_ok
proof unfold_locales
  fix m :: "('k, 'v) bmap" and k k' :: 'k and v :: 'v
  show "map_of [] k = (None :: 'v option)" by simp
  show "map_of (bt_put k v m) k' = (if k' = k then Some v else map_of m k')"
    by (rule map_of_bt_put)
  show "map_of (bt_del k m) k' = (if k' = k then None else map_of m k')"
    by (rule map_of_bt_del)
  show "set (map fst m) = {k. map_of m k \<noteq> None}"
    by (metis Collect_cong dom_def dom_map_of_conv_image_fst list.set_map)
  show "bt_ok m \<Longrightarrow> distinct (map fst m)" by (rule bt_ok_distinct)
  show "bt_ok ([] :: ('k, 'v) bmap)" by (simp add: bt_ok_def)
  show "bt_ok m \<Longrightarrow> bt_ok (bt_put k v m)" unfolding bt_ok_def by (rule sorted_bt_put)
  show "bt_ok m \<Longrightarrow> bt_ok (bt_del k m)"
    unfolding bt_ok_def bt_del_def
    by (induction m) auto
qed

lemmas [kv_simps] = bt.lookup_put bt.lookup_del bt.ok_put bt.ok_del bt.ok_empty

section \<open>Checks that stop at the first error\<close>

fun and_then :: "'e + 'a \<Rightarrow> ('a \<Rightarrow> 'e + 'b) \<Rightarrow> 'e + 'b" where
  "and_then (Inl e) f = Inl e"
| "and_then (Inr a) f = f a"

definition check :: "bool \<Rightarrow> 'e \<Rightarrow> 'e + unit" where
  "check bad e = (if bad then Inl e else Inr ())"

fun check_all :: "('a \<Rightarrow> 'e + unit) \<Rightarrow> 'a list \<Rightarrow> 'e + unit" where
  "check_all f [] = Inr ()"
| "check_all f (x # xs) = and_then (f x) (\<lambda>_. check_all f xs)"

fun in_order :: "('e + unit) list \<Rightarrow> 'e + unit" where
  "in_order [] = Inr ()"
| "in_order (c # cs) = and_then c (\<lambda>_. in_order cs)"

lemma and_then_Inr: "and_then a f = Inr b \<longleftrightarrow> (\<exists>x. a = Inr x \<and> f x = Inr b)"
  by (cases a) auto

lemma check_Inr [simp]: "check bad e = Inr u \<longleftrightarrow> \<not> bad"
  by (simp add: check_def)

lemma in_order_Inr: "in_order cs = Inr u \<longleftrightarrow> (\<forall>c \<in> set cs. c = Inr ())"
  by (induction cs) (auto simp: and_then_Inr)

lemma check_all_Inr: "check_all f xs = Inr u \<longleftrightarrow> (\<forall>x \<in> set xs. f x = Inr ())"
  by (induction xs) (auto simp: and_then_Inr)

section \<open>Strings\<close>

text \<open>
  \<open>is_blank s\<close> is Rust's \<open>s.trim().is_empty()\<close>: every code point of \<open>s\<close> has the Unicode property
  White_Space. The code points beyond ASCII are matched by their UTF-8 encodings.
\<close>

definition ascii_ws :: "nat \<Rightarrow> bool" where
  "ascii_ws b \<longleftrightarrow> 9 \<le> b \<and> b \<le> 13 \<or> b = 32"

fun blank_bytes :: "nat list \<Rightarrow> bool" where
  "blank_bytes [] = True"
| "blank_bytes (a # bs) =
     (if ascii_ws a then blank_bytes bs
      else case bs of
        [] \<Rightarrow> False
      | b # cs \<Rightarrow>
          if a = 194 \<and> (b = 133 \<or> b = 160) then blank_bytes cs
          else case cs of
            [] \<Rightarrow> False
          | c # ds \<Rightarrow>
              if a = 225 \<and> b = 154 \<and> c = 128
               \<or> a = 226 \<and> b = 128 \<and> (128 \<le> c \<and> c \<le> 138 \<or> c = 168 \<or> c = 169 \<or> c = 175)
               \<or> a = 226 \<and> b = 129 \<and> c = 159
               \<or> a = 227 \<and> b = 128 \<and> c = 128
              then blank_bytes ds else False)"

definition is_blank :: "string \<Rightarrow> bool" where
  "is_blank s = blank_bytes (map of_char s)"

lemma is_blank_Nil [simp]: "is_blank []"
  by (simp add: is_blank_def)

text \<open>\<open>trim_matches\<close>, and the test of \<open>str::from_utf8\<close>.\<close>

definition trim_matches :: "char \<Rightarrow> string \<Rightarrow> string" where
  "trim_matches c s = rev (dropWhile (\<lambda>x. x = c) (rev (dropWhile (\<lambda>x. x = c) s)))"

fun utf8 :: "nat list \<Rightarrow> bool" where
  "utf8 [] = True"
| "utf8 (a # bs) =
     (if a < 128 then utf8 bs
      else case bs of
        [] \<Rightarrow> False
      | b # cs \<Rightarrow>
          if 194 \<le> a \<and> a \<le> 223 then 128 \<le> b \<and> b \<le> 191 \<and> utf8 cs
          else case cs of
            [] \<Rightarrow> False
          | c # ds \<Rightarrow>
              if 224 \<le> a \<and> a \<le> 239
              then (if a = 224 then 160 else 128) \<le> b \<and> b \<le> (if a = 237 then 159 else 191) \<and>
                128 \<le> c \<and> c \<le> 191 \<and> utf8 ds
              else case ds of
                [] \<Rightarrow> False
              | d # es \<Rightarrow>
                  240 \<le> a \<and> a \<le> 244 \<and> (if a = 240 then 144 else 128) \<le> b \<and> b \<le> (if a = 244 then 143 else 191) \<and>
                  128 \<le> c \<and> c \<le> 191 \<and> 128 \<le> d \<and> d \<le> 191 \<and> utf8 es)"

text \<open>\<open>s.split(c)\<close>, and the join that undoes it.\<close>

fun split_on :: "'a \<Rightarrow> 'a list \<Rightarrow> 'a list list" where
  "split_on c [] = [[]]"
| "split_on c (x # xs) =
     (if x = c then [] # split_on c xs
      else case split_on c xs of [] \<Rightarrow> [[x]] | p # ps \<Rightarrow> (x # p) # ps)"

fun join_with :: "'a list \<Rightarrow> 'a list list \<Rightarrow> 'a list" where
  "join_with sep [] = []"
| "join_with sep [p] = p"
| "join_with sep (p # q # ps) = p @ sep @ join_with sep (q # ps)"

lemma split_on_not_Nil [simp]: "split_on c xs \<noteq> []"
  by (induction xs) (auto split: list.splits)

lemma split_on_no_sep: "c \<notin> set p \<Longrightarrow> split_on c p = [p]"
  by (induction p) auto

lemma split_on_append: "c \<notin> set p \<Longrightarrow> split_on c (p @ c # xs) = p # split_on c xs"
  by (induction p) auto

lemma split_on_parts: "p \<in> set (split_on c xs) \<Longrightarrow> c \<notin> set p"
proof (induction xs arbitrary: p)
  case Nil
  then show ?case by simp
next
  case (Cons x xs)
  then show ?case by (auto split: if_splits list.splits)
qed

lemma join_with_Cons: "ps \<noteq> [] \<Longrightarrow> join_with sep (p # ps) = p @ sep @ join_with sep ps"
  by (cases ps) auto

lemma join_split: "join_with [c] (split_on c xs) = xs"
proof (induction xs)
  case Nil
  then show ?case by simp
next
  case (Cons x xs)
  obtain p ps where ps: "split_on c xs = p # ps"
    by (cases "split_on c xs") auto
  show ?case
  proof (cases "x = c")
    case True
    with Cons show ?thesis by (simp add: join_with_Cons)
  next
    case False
    with Cons ps show ?thesis by (cases ps) auto
  qed
qed

lemma split_join:
  "ps \<noteq> [] \<Longrightarrow> \<forall>p \<in> set ps. c \<notin> set p \<Longrightarrow> split_on c (join_with [c] ps) = ps"
proof (induction ps)
  case Nil
  then show ?case by simp
next
  case (Cons p ps)
  then show ?case
    by (cases ps) (auto simp: split_on_no_sep split_on_append)
qed

text \<open>Decimal rendering of an unsigned integer (\<open>to_string\<close>).\<close>

definition digit_char :: "nat \<Rightarrow> char" where
  "digit_char d = char_of (48 + d)"

fun show_nat :: "nat \<Rightarrow> string" where
  "show_nat n = (if n < 10 then [digit_char n] else show_nat (n div 10) @ [digit_char (n mod 10)])"

declare show_nat.simps [simp del]

lemma digit_char_inj: "a < 10 \<Longrightarrow> b < 10 \<Longrightarrow> digit_char a = digit_char b \<Longrightarrow> a = b"
  unfolding digit_char_def
  by (drule arg_cong [where f = "of_char :: char \<Rightarrow> nat"]) simp

lemma show_nat_not_Nil [simp]: "show_nat n \<noteq> []"
  by (subst show_nat.simps) simp

lemma show_nat_inj: "show_nat a = show_nat b \<Longrightarrow> a = b"
proof (induction a arbitrary: b rule: less_induct)
  case (less a)
  show ?case
  proof (cases "a < 10")
    case a: True
    have "b < 10"
    proof (rule ccontr)
      assume "\<not> b < 10"
      then have "show_nat a = show_nat (b div 10) @ [digit_char (b mod 10)]"
        using less.prems by (subst (asm) (2) show_nat.simps) simp
      with a have "[] = show_nat (b div 10)" by (subst (asm) show_nat.simps) simp
      then show False using show_nat_not_Nil [of "b div 10"] by simp
    qed
    with a less.prems show ?thesis
      by (simp add: show_nat.simps [of a] show_nat.simps [of b] digit_char_inj)
  next
    case a: False
    have "\<not> b < 10"
    proof
      assume b: "b < 10"
      then have "show_nat a = [digit_char b]"
        using less.prems by (simp add: show_nat.simps [of b])
      with a show False by (subst (asm) show_nat.simps) simp
    qed
    with a less.prems have eqs: "show_nat (a div 10) = show_nat (b div 10)"
      "digit_char (a mod 10) = digit_char (b mod 10)"
      by (simp_all add: show_nat.simps [of a] show_nat.simps [of b])
    from a eqs(1) have "a div 10 = b div 10"
      using less.IH [of "a div 10"] by simp
    moreover from eqs(2) have "a mod 10 = b mod 10"
      by (rule digit_char_inj [rotated 2]) simp_all
    ultimately show ?thesis by (metis div_mult_mod_eq)
  qed
qed

lemma show_nat_digits: "ch \<in> set (show_nat n) \<Longrightarrow> \<exists>d < 10. ch = digit_char d"
proof (induction n rule: less_induct)
  case (less n)
  show ?case
  proof (cases "n < 10")
    case True
    with less.prems show ?thesis by (auto simp: show_nat.simps [of n])
  next
    case False
    then have "n div 10 < n" by simp
    moreover from False less.prems
    have "ch \<in> set (show_nat (n div 10)) \<or> ch = digit_char (n mod 10)"
      by (auto simp: show_nat.simps [of n])
    ultimately show ?thesis
      using less.IH by (auto intro: exI [of _ "n mod 10"])
  qed
qed

definition show_int :: "int \<Rightarrow> string" where
  "show_int i = (if i < 0 then CHR ''-'' # show_nat (nat (- i)) else show_nat (nat i))"

text \<open>\<open>strip_prefix\<close> of strings.\<close>

definition strip_prefix :: "string \<Rightarrow> string \<Rightarrow> string option" where
  "strip_prefix p s = (if take (length p) s = p then Some (drop (length p) s) else None)"

lemma strip_prefix_eq: "strip_prefix p s = Some t \<longleftrightarrow> s = p @ t"
  by (auto simp: strip_prefix_def) (metis append_take_drop_id)

lemma strip_prefix_None: "strip_prefix p s = None \<longleftrightarrow> (\<nexists>t. s = p @ t)"
  using strip_prefix_eq [of p s] by (metis not_Some_eq)

end
