(* ===== verification/Bucket_Ring.thy ===== *)
theory Bucket_Ring
  imports Prelude
begin

text \<open>
  The contract of the time-bucketed rings. \<open>RollingWindow\<close> (\<open>core/src/rolling.rs\<close>) and
  \<open>RollingBreaker\<close> (\<open>core/src/breaker.rs\<close>) keep a deque of buckets of fixed width, the last one
  open, and rotate it when the clock is read. The locale \<open>bucket_ring\<close> states what a rotation does;
  \<open>bucket_counter\<close> adds an operation that increases a count in the open bucket. The result proved
  here once is that the counts of a ring are those of a sliding window: everything recorded in the
  last \<open>(cap - 1) * width\<close> is counted, and nothing recorded \<open>cap * width\<close> ago or earlier is.
\<close>

text \<open>
  The loop both implementations run: push a fresh bucket, pop the oldest one when the deque has
  grown past its capacity, \<open>k\<close> times.
\<close>

fun push_rounds :: "nat \<Rightarrow> 'b \<Rightarrow> nat \<Rightarrow> 'b list \<Rightarrow> 'b list" where
  "push_rounds n b 0 bs = bs"
| "push_rounds n b (Suc k) bs =
     push_rounds n b k (let bs' = bs @ [b] in if n < length bs' then tl bs' else bs')"

lemma push_rounds_eq:
  "0 < n \<Longrightarrow> length bs \<le> n \<Longrightarrow>
   push_rounds n b k bs = drop (length bs + k - n) (bs @ replicate k b)"
proof (induction k arbitrary: bs)
  case (Suc k)
  show ?case
  proof (cases "length bs = n")
    case True
    then have ne: "bs \<noteq> []" using Suc.prems by auto
    with True Suc.prems have "push_rounds n b (Suc k) bs = drop k (tl bs @ b # replicate k b)"
      using Suc.IH [of "tl bs @ [b]"] by (simp add: Let_def)
    also have "\<dots> = drop (Suc k) (bs @ replicate (Suc k) b)"
      using ne by (cases bs) simp_all
    finally show ?thesis using True by simp
  next
    case False
    then show ?thesis
      using Suc.IH [of "bs @ [b]"] Suc.prems by (simp add: Let_def)
  qed
qed simp

lemma set_push_rounds: "set (push_rounds n b k bs) \<subseteq> insert b (set bs)"
proof (induction k arbitrary: bs)
  case (Suc k)
  let ?bs = "let bs' = bs @ [b] in if n < length bs' then tl bs' else bs'"
  have "set ?bs \<subseteq> insert b (set bs)"
    by (cases bs) (auto simp: Let_def)
  then show ?case using Suc [of ?bs] by auto
qed auto

text \<open>An update of the open bucket, the last one (\<open>back_mut\<close>).\<close>

definition update_last :: "('a \<Rightarrow> 'a) \<Rightarrow> 'a list \<Rightarrow> 'a list" where
  "update_last f xs = (if xs = [] then [] else butlast xs @ [f (last xs)])"

lemma update_last_simps [simp]:
  "update_last f xs = [] \<longleftrightarrow> xs = []"
  "xs \<noteq> [] \<Longrightarrow> butlast (update_last f xs) = butlast xs"
  "xs \<noteq> [] \<Longrightarrow> last (update_last f xs) = f (last xs)"
  "length (update_last f xs) = length xs"
  by (auto simp: update_last_def)

locale bucket_ring =
  fixes cap :: "'c \<Rightarrow> nat"
    and width :: "'c \<Rightarrow> nat"
    and good :: "'c \<Rightarrow> bool"
    and started :: "'s \<Rightarrow> instant"
    and buckets :: "'s \<Rightarrow> 'b list"
    and rotate :: "'c \<Rightarrow> instant \<Rightarrow> 's \<Rightarrow> 's"
    and blank :: 'b
  assumes good_pos: "good c \<Longrightarrow> 0 < cap c \<and> 0 < width c"
    and rotate_same: "good c \<Longrightarrow> (now - started s) div width c = 0 \<Longrightarrow> rotate c now s = s"
    and rotate_expire: "good c \<Longrightarrow> cap c \<le> (now - started s) div width c \<Longrightarrow>
      buckets (rotate c now s) = [blank] \<and> started (rotate c now s) = now"
    and rotate_shift: "good c \<Longrightarrow> k = (now - started s) div width c \<Longrightarrow> 0 < k \<Longrightarrow> k < cap c \<Longrightarrow>
      length (buckets s) \<le> cap c \<Longrightarrow>
      buckets (rotate c now s) = drop (length (buckets s) + k - cap c) (buckets s @ replicate k blank)
      \<and> started (rotate c now s) = started s + k * width c"
begin

definition ring_ok :: "'c \<Rightarrow> 's \<Rightarrow> bool" where
  "ring_ok c s \<longleftrightarrow> buckets s \<noteq> [] \<and> length (buckets s) \<le> cap c"

lemma rotate_cases:
  assumes "good c"
  obtains (same) "(now - started s) div width c = 0" "rotate c now s = s"
  | (expire) "cap c \<le> (now - started s) div width c" "buckets (rotate c now s) = [blank]"
      "started (rotate c now s) = now"
  | (shift) "0 < (now - started s) div width c" "(now - started s) div width c < cap c"
  using rotate_same [OF assms] rotate_expire [OF assms]
  by (metis gr0I linorder_not_less)

lemma length_rotate:
  assumes "good c" "ring_ok c s"
  shows "length (buckets (rotate c now s)) =
    (let k = (now - started s) div width c in
     if cap c \<le> k then 1 else min (cap c) (length (buckets s) + k))"
proof -
  have pos: "0 < cap c" using good_pos [OF assms(1)] by simp
  show ?thesis
    using assms(1)
  proof (cases rule: rotate_cases [of c now s])
    case same
    then show ?thesis using assms pos by (auto simp: ring_ok_def Let_def)
  next
    case expire
    then show ?thesis by simp
  next
    case shift
    then show ?thesis
      using rotate_shift [OF assms(1) refl shift] assms(2)
      by (auto simp: ring_ok_def Let_def)
  qed
qed

lemma ring_ok_rotate: "good c \<Longrightarrow> ring_ok c s \<Longrightarrow> ring_ok c (rotate c now s)"
proof -
  assume g: "good c" and ok: "ring_ok c s"
  have pos: "0 < cap c" using good_pos [OF g] by simp
  have "0 < length (buckets (rotate c now s))" "length (buckets (rotate c now s)) \<le> cap c"
    using length_rotate [OF g ok, of now] ok pos by (auto simp: ring_ok_def Let_def)
  then show ?thesis by (auto simp: ring_ok_def)
qed

lemma started_rotate:
  assumes g: "good c" and ok: "ring_ok c s" and le: "started s \<le> now"
  shows "started s \<le> started (rotate c now s)" "started (rotate c now s) \<le> now"
    "now < started (rotate c now s) + width c"
proof -
  let ?k = "(now - started s) div width c"
  have w: "0 < width c" using good_pos [OF g] by simp
  have dm: "now - started s = ?k * width c + (now - started s) mod width c"
    by (rule div_mult_mod_eq [symmetric])
  have m: "(now - started s) mod width c < width c" using w by simp
  have le2: "?k * width c \<le> now - started s" by (rule div_times_less_eq_dividend)
  show "started s \<le> started (rotate c now s)"
    using g
  proof (cases rule: rotate_cases [of c now s])
    case shift
    then show ?thesis using ok rotate_shift [OF g refl shift] by (simp add: ring_ok_def)
  qed (use le in simp_all)
  show "started (rotate c now s) \<le> now"
    using g
  proof (cases rule: rotate_cases [of c now s])
    case shift
    have "started s + ?k * width c \<le> now" using le2 le by linarith
    then show ?thesis using ok rotate_shift [OF g refl shift] by (simp add: ring_ok_def)
  qed (use le in simp_all)
  show "now < started (rotate c now s) + width c"
    using g
  proof (cases rule: rotate_cases [of c now s])
    case same
    then have "now - started s < width c" using w m dm by simp
    then show ?thesis using same by simp
  next
    case expire
    then show ?thesis using w by simp
  next
    case shift
    then have eq: "started (rotate c now s) = started s + ?k * width c"
      using ok rotate_shift [OF g refl shift] by (simp add: ring_ok_def)
    have "now = started s + ?k * width c + (now - started s) mod width c" using dm le by linarith
    then show ?thesis using eq m by linarith
  qed
qed

end

text \<open>
  A log is the list of what was recorded, with the clock readings. \<open>slot w t j r\<close>: the reading \<open>r\<close>
  falls into the \<open>j\<close>-th bucket from the end of a ring whose open bucket started at \<open>t\<close>.
\<close>

definition slot :: "nat \<Rightarrow> instant \<Rightarrow> nat \<Rightarrow> instant \<Rightarrow> bool" where
  "slot w t j r \<longleftrightarrow> (if j = 0 then t \<le> r else t \<le> r + j * w \<and> r + (j - 1) * w < t)"

definition log_sum :: "(instant \<Rightarrow> bool) \<Rightarrow> (instant \<times> nat) list \<Rightarrow> nat" where
  "log_sum P log = sum_list (map snd (filter (P \<circ> fst) log))"

lemma log_sum_simps [simp]:
  "log_sum P [] = 0"
  "log_sum P (e # log) = (if P (fst e) then snd e else 0) + log_sum P log"
  "log_sum P (log @ log') = log_sum P log + log_sum P log'"
  by (simp_all add: log_sum_def)

lemma log_sum_cong: "\<forall>e \<in> set log. P (fst e) = Q (fst e) \<Longrightarrow> log_sum P log = log_sum Q log"
  by (induction log) auto

lemma log_sum_mono: "\<forall>e \<in> set log. P (fst e) \<longrightarrow> Q (fst e) \<Longrightarrow> log_sum P log \<le> log_sum Q log"
  by (induction log) auto

lemma log_sum_none: "\<forall>e \<in> set log. \<not> P (fst e) \<Longrightarrow> log_sum P log = 0"
  by (induction log) auto

lemma log_sum_disjoint:
  "(\<And>r. \<not> (P r \<and> Q r)) \<Longrightarrow> log_sum (\<lambda>r. P r \<or> Q r) log = log_sum P log + log_sum Q log"
  by (induction log) auto

lemma slot_0 [simp]: "slot w t 0 r \<longleftrightarrow> t \<le> r"
  by (simp add: slot_def)

lemma slot_union:
  "log_sum (\<lambda>r. t \<le> r + (n - 1) * w) log = (\<Sum>j < n. log_sum (slot w t j) log)" if "0 < n"
  using that
proof (induction n)
  case (Suc n)
  show ?case
  proof (cases "n = 0")
    case True
    then show ?thesis by (simp add: slot_def)
  next
    case False
    have eq: "(\<lambda>r. t \<le> r + n * w) = (\<lambda>r. t \<le> r + (n - 1) * w \<or> slot w t n r)"
    proof
      fix r
      have "r + (n - 1) * w \<le> r + n * w" by simp
      then show "(t \<le> r + n * w) = (t \<le> r + (n - 1) * w \<or> slot w t n r)"
        using False unfolding slot_def by (metis linorder_not_le order_trans)
    qed
    have "log_sum (\<lambda>r. t \<le> r + n * w) log
        = log_sum (\<lambda>r. t \<le> r + (n - 1) * w) log + log_sum (slot w t n) log"
      unfolding eq by (rule log_sum_disjoint) (use False in \<open>auto simp: slot_def\<close>)
    with Suc False show ?thesis by simp
  qed
qed simp

lemma slot_shift:
  assumes "k \<le> j" "r < t + w"
  shows "slot w (t + k * w) j r = slot w t (j - k) r"
proof (cases "j = k")
  case True
  have "k = 0 \<or> k * w = w + (k - 1) * w" by (cases k) simp_all
  then show ?thesis
    using True assms(2) by (auto simp: slot_def)
next
  case False
  define i where "i = j - k - 1"
  have j: "j = k + Suc i" using False assms by (simp add: i_def)
  then show ?thesis by (auto simp: slot_def algebra_simps)
qed

lemma slot_new:
  assumes "j < k" "r < t + w"
  shows "\<not> slot w (t + k * w) j r"
proof -
  define i where "i = k - j - 1"
  have k: "k = j + Suc i" using assms by (simp add: i_def)
  show ?thesis using assms(2) by (auto simp: slot_def k algebra_simps)
qed

locale bucket_counter =
  bucket_ring cap width good started buckets rotate blank
  for cap :: "'c \<Rightarrow> nat"
    and width :: "'c \<Rightarrow> nat"
    and good :: "'c \<Rightarrow> bool"
    and started :: "'s \<Rightarrow> instant"
    and buckets :: "'s \<Rightarrow> 'b list"
    and rotate :: "'c \<Rightarrow> instant \<Rightarrow> 's \<Rightarrow> 's"
    and blank :: 'b +
  fixes mass :: "'b \<Rightarrow> nat"
    and weight :: "'v \<Rightarrow> nat"
    and add :: "'v \<Rightarrow> 's \<Rightarrow> 's"
    and limit :: nat
  assumes mass_blank: "mass blank = 0"
    and started_add: "started (add v s) = started s"
    and butlast_add: "buckets s \<noteq> [] \<Longrightarrow> butlast (buckets (add v s)) = butlast (buckets s)"
    and add_not_Nil: "buckets s \<noteq> [] \<Longrightarrow> buckets (add v s) \<noteq> []"
    and mass_add: "buckets s \<noteq> [] \<Longrightarrow> mass (last (buckets s)) + weight v \<le> limit \<Longrightarrow>
      mass (last (buckets (add v s))) = mass (last (buckets s)) + weight v"
begin

text \<open>The bucket that is \<open>j\<close>-th from the end.\<close>

definition from_end :: "'s \<Rightarrow> nat \<Rightarrow> 'b" where
  "from_end s j = rev (buckets s) ! j"

definition total :: "'s \<Rightarrow> nat" where
  "total s = sum_list (map mass (buckets s))"

text \<open>
  The refinement relation between a ring and the log: every bucket holds the log entries of its
  slot, no entry is younger than the open bucket's end, and an entry that no bucket holds any more
  is more than \<open>(cap - 1) * width\<close> older than the start of the open bucket.
\<close>

definition ring_log :: "'c \<Rightarrow> (instant \<times> nat) list \<Rightarrow> 's \<Rightarrow> bool" where
  "ring_log c log s \<longleftrightarrow>
     ring_ok c s \<and>
     (\<forall>e \<in> set log. fst e < started s + width c) \<and>
     (\<forall>j < length (buckets s). mass (from_end s j) = log_sum (slot (width c) (started s) j) log) \<and>
     (\<forall>e \<in> set log. fst e + (length (buckets s) - 1) * width c < started s \<longrightarrow>
        fst e + (cap c - 1) * width c < started s)"

lemma length_add: "buckets s \<noteq> [] \<Longrightarrow> length (buckets (add v s)) = length (buckets s)"
  by (metis add_not_Nil butlast_add length_append_singleton snoc_eq_iff_butlast)

lemma from_end_add:
  "buckets s \<noteq> [] \<Longrightarrow> 0 < j \<Longrightarrow> from_end (add v s) j = from_end s j"
proof -
  assume ne: "buckets s \<noteq> []" and j: "0 < j"
  obtain b b' where "buckets s = butlast (buckets s) @ [b]"
    "buckets (add v s) = butlast (buckets s) @ [b']"
    using ne add_not_Nil [OF ne, of v] butlast_add [OF ne, of v] by (metis append_butlast_last_id)
  then have "rev (buckets s) = b # rev (butlast (buckets s))"
    "rev (buckets (add v s)) = b' # rev (butlast (buckets s))"
    by (metis rev_eq_Cons_iff rev_rev_ident)+
  then show ?thesis using j unfolding from_end_def by (metis gr0_conv_Suc nth_Cons_Suc)
qed

lemma from_end_0: "buckets s \<noteq> [] \<Longrightarrow> from_end s 0 = last (buckets s)"
  by (simp add: from_end_def rev_nth last_conv_nth)

lemma ring_log_init: "good c \<Longrightarrow> buckets s = [blank] \<Longrightarrow> ring_log c [] s"
  using good_pos [of c] by (auto simp: ring_log_def ring_ok_def from_end_def mass_blank)

lemma ring_log_young: "ring_log c log s \<Longrightarrow> e \<in> set log \<Longrightarrow> fst e < started s + width c"
  by (simp add: ring_log_def)

text \<open>A rotation past the whole ring: nothing of the log is left in it.\<close>

lemma ring_log_expire:
  assumes g: "good c" and R: "ring_log c log s" and now: "started s \<le> now"
    and k: "cap c \<le> (now - started s) div width c"
    and fresh: "buckets (rotate c now s) = [blank]" "started (rotate c now s) = now"
  shows "ring_log c log (rotate c now s)"
proof -
  have w: "0 < width c" and cp: "0 < cap c" using good_pos [OF g] by simp_all
  let ?k = "(now - started s) div width c"
  have kw: "?k * width c \<le> now - started s" by simp
  have "0 < ?k" using k cp by linarith
  then have "cap c * width c \<le> now - started s" "width c \<le> ?k * width c"
    using k kw by (auto intro: order_trans [OF mult_le_mono1])
  moreover have "cap c * width c = width c + (cap c - 1) * width c"
    using cp by (simp add: mult_eq_if)
  ultimately have old: "fst e < now" "fst e + (cap c - 1) * width c < now" if "e \<in> set log" for e
    using ring_log_young [OF R that] now kw by linarith+
  then have "log_sum ((\<le>) now) log = 0" by (intro log_sum_none ballI) (simp add: not_le)
  moreover have "slot (width c) now 0 = (\<le>) now" by (rule ext) simp
  moreover have "ring_ok c (rotate c now s)" using g R by (simp add: ring_ok_rotate ring_log_def)
  ultimately show ?thesis
    unfolding ring_log_def using fresh w old by (auto simp: from_end_def mass_blank trans_less_add1)
qed

text \<open>A rotation by \<open>k\<close> buckets: the last \<open>k\<close> are new, the others have moved by \<open>k\<close>.\<close>

lemma from_end_shift:
  assumes g: "good c" and ok: "ring_ok c s"
    and k: "k = (now - started s) div width c" "0 < k" "k < cap c"
    and j: "j < length (buckets (rotate c now s))"
  shows "from_end (rotate c now s) j = (if j < k then blank else from_end s (j - k))"
proof -
  let ?n = "length (buckets s)"
  have bs: "buckets (rotate c now s) = drop (?n + k - cap c) (buckets s @ replicate k blank)"
    using rotate_shift [OF g k] ok by (simp add: ring_ok_def)
  have len: "length (buckets (rotate c now s)) = min (cap c) (?n + k)"
    using length_rotate [OF g ok, of now] k by (simp add: Let_def)
  have rv: "rev (buckets (rotate c now s)) = take (min (cap c) (?n + k)) (replicate k blank @ rev (buckets s))"
    using k(3) by (simp add: bs rev_drop min_def)
  have "from_end (rotate c now s) j = (replicate k blank @ rev (buckets s)) ! j"
    using j unfolding from_end_def rv len by (rule nth_take)
  then show ?thesis by (simp add: from_end_def nth_append)
qed

lemma mass_shift:
  assumes g: "good c" and R: "ring_log c log s"
    and k: "k = (now - started s) div width c" "0 < k" "k < cap c"
    and j: "j < length (buckets (rotate c now s))"
  shows "mass (from_end (rotate c now s) j) = log_sum (slot (width c) (started s + k * width c) j) log"
proof -
  have ok: "ring_ok c s" using R by (simp add: ring_log_def)
  note fe = from_end_shift [OF g ok k j]
  show ?thesis
  proof (cases "j < k")
    case True
    have "log_sum (slot (width c) (started s + k * width c) j) log = 0"
      by (intro log_sum_none ballI slot_new [OF True] ring_log_young [OF R])
    with True show ?thesis by (simp add: fe mass_blank)
  next
    case False
    have "length (buckets (rotate c now s)) \<le> length (buckets s) + k"
      using length_rotate [OF g ok, of now] k by (simp add: Let_def)
    with False j have "j - k < length (buckets s)" by linarith
    then have "mass (from_end s (j - k)) = log_sum (slot (width c) (started s) (j - k)) log"
      using R by (simp add: ring_log_def)
    also have "\<dots> = log_sum (slot (width c) (started s + k * width c) j) log"
      using False ring_log_young [OF R] by (intro log_sum_cong) (simp add: slot_shift)
    finally show ?thesis using False by (simp add: fe)
  qed
qed

lemma ring_log_shift:
  assumes g: "good c" and R: "ring_log c log s"
    and k: "k = (now - started s) div width c" "0 < k" "k < cap c"
  shows "ring_log c log (rotate c now s)"
proof -
  have ok: "ring_ok c s" using R by (simp add: ring_log_def)
  define n where "n = length (buckets s)"
  define n' where "n' = length (buckets (rotate c now s))"
  have n: "0 < n" "n \<le> cap c" using ok by (auto simp: n_def ring_ok_def)
  have st: "started (rotate c now s) = started s + k * width c"
    using rotate_shift [OF g k] n by (simp add: n_def)
  have n': "n' = min (cap c) (n + k)"
    using length_rotate [OF g ok, of now] k by (simp add: n'_def n_def Let_def)
  have lost: "fst e + (cap c - 1) * width c < started s + k * width c"
    if "e \<in> set log" "fst e + (n' - 1) * width c < started s + k * width c" for e
  proof (cases "n + k \<le> cap c")
    case True
    then have "(n' - 1) * width c = (n - 1) * width c + k * width c"
      using n n' by (simp add: add_mult_distrib [symmetric])
    with that(2) have "fst e + (n - 1) * width c < started s" by simp
    then have "fst e + (cap c - 1) * width c < started s"
      using R that(1) by (auto simp: ring_log_def n_def)
    then show ?thesis by simp
  next
    case False
    with that(2) n' show ?thesis by simp
  qed
  have "fst e < started s + k * width c + width c" if "e \<in> set log" for e
    using ring_log_young [OF R that] by linarith
  then show ?thesis
    unfolding ring_log_def st n'_def [symmetric]
    using ring_ok_rotate [OF g ok] mass_shift [OF g R k] lost by (simp add: n'_def)
qed

lemma ring_log_rotate:
  assumes "good c" "ring_log c log s" "started s \<le> now"
  shows "ring_log c log (rotate c now s)"
  using assms(1)
proof (cases rule: rotate_cases [of c now s])
  case same
  then show ?thesis using assms by simp
next
  case expire
  then show ?thesis by (rule ring_log_expire [OF assms])
next
  case shift
  then show ?thesis by (rule ring_log_shift [OF assms(1,2) refl])
qed

lemma ring_log_add:
  assumes R: "ring_log c log s"
    and r: "started s \<le> r" "r < started s + width c"
    and lim: "log_sum (\<lambda>_. True) log + weight v \<le> limit"
  shows "ring_log c (log @ [(r, weight v)]) (add v s)"
proof -
  have ne: "buckets s \<noteq> []" using R by (simp add: ring_log_def ring_ok_def)
  have m0: "mass (from_end s 0) = log_sum (slot (width c) (started s) 0) log"
    using R ne by (simp add: ring_log_def)
  have "log_sum (slot (width c) (started s) 0) log \<le> log_sum (\<lambda>_. True) log"
    by (rule log_sum_mono) simp
  then have "mass (last (buckets s)) + weight v \<le> limit"
    using m0 lim ne by (simp add: from_end_0)
  then have "mass (from_end (add v s) 0) = mass (from_end s 0) + weight v"
    using ne mass_add by (simp add: from_end_0 add_not_Nil)
  moreover have "\<not> slot (width c) (started s) j r" if "0 < j" for j
    using that r(1) by (cases j) (auto simp: slot_def)
  ultimately have "mass (from_end (add v s) j)
      = log_sum (slot (width c) (started s) j) (log @ [(r, weight v)])"
    if "j < length (buckets s)" for j
    using that R m0 r by (cases "j = 0") (auto simp: ring_log_def from_end_add ne)
  then show ?thesis
    using R r ne by (auto simp: ring_log_def ring_ok_def started_add length_add add_not_Nil)
qed

lemma total_rev: "total s = (\<Sum>j < length (buckets s). mass (from_end s j))"
proof -
  have "total s = sum_list (map mass (rev (buckets s)))"
    by (simp add: total_def rev_map [symmetric])
  also have "\<dots> = (\<Sum>j = 0..<length (buckets s). map mass (rev (buckets s)) ! j)"
    by (simp add: sum_list_sum_nth)
  also have "\<dots> = (\<Sum>j < length (buckets s). mass (from_end s j))"
    by (simp add: from_end_def atLeast0LessThan)
  finally show ?thesis .
qed

lemma ring_log_total:
  "ring_log c log s \<Longrightarrow>
   total s = log_sum (\<lambda>r. started s \<le> r + (length (buckets s) - 1) * width c) log"
  using slot_union [of "length (buckets s)" "started s" "width c" log]
  by (simp add: total_rev ring_log_def ring_ok_def)

text \<open>The sliding-window law.\<close>

lemma window_law:
  assumes g: "good c" and R: "ring_log c log s" and now: "started s \<le> now"
  shows "log_sum (\<lambda>r. now \<le> r + (cap c - 1) * width c) log \<le> total (rotate c now s)"
    and "total (rotate c now s) \<le> log_sum (\<lambda>r. now < r + cap c * width c) log"
proof -
  let ?s = "rotate c now s"
  let ?n = "length (buckets ?s)"
  have R': "ring_log c log ?s" using g R now by (rule ring_log_rotate)
  have ok: "ring_ok c s" using R by (simp add: ring_log_def)
  have st: "started ?s \<le> now" "now < started ?s + width c"
    using started_rotate [OF g ok now] by simp_all
  have eq: "total ?s = log_sum (\<lambda>r. started ?s \<le> r + (?n - 1) * width c) log"
    using R' by (rule ring_log_total)
  show "log_sum (\<lambda>r. now \<le> r + (cap c - 1) * width c) log \<le> total ?s"
    unfolding eq
  proof (intro log_sum_mono ballI impI)
    fix e
    assume e: "e \<in> set log" and le: "now \<le> fst e + (cap c - 1) * width c"
    show "started ?s \<le> fst e + (?n - 1) * width c"
    proof (rule ccontr)
      assume "\<not> ?thesis"
      then have "fst e + (cap c - 1) * width c < started ?s"
        using R' e by (auto simp: ring_log_def)
      then show False using le st by linarith
    qed
  qed
  show "total ?s \<le> log_sum (\<lambda>r. now < r + cap c * width c) log"
    unfolding eq
  proof (intro log_sum_mono ballI impI)
    fix e
    assume le: "started ?s \<le> fst e + (?n - 1) * width c"
    have "?n - 1 \<le> cap c - 1" "0 < cap c"
      using R' good_pos [OF g] by (auto simp: ring_log_def ring_ok_def)
    moreover from this have "(?n - 1) * width c \<le> (cap c - 1) * width c"
      by (intro mult_le_mono1)
    ultimately have "(?n - 1) * width c \<le> (cap c - 1) * width c"
      "cap c * width c = width c + (cap c - 1) * width c"
      by (simp_all only: mult_eq_if [of "cap c"] if_False not_gr_zero [symmetric] simp_thms)
    then show "now < fst e + cap c * width c" using le st by linarith
  qed
qed

text \<open>Recording a sequence of values, each after a rotation to its own clock reading.\<close>

definition record_all :: "'c \<Rightarrow> (instant \<times> 'v) list \<Rightarrow> 's \<Rightarrow> 's" where
  "record_all c evs s = fold (\<lambda>(t, v) s. add v (rotate c t s)) evs s"

definition weigh :: "(instant \<times> 'v) list \<Rightarrow> (instant \<times> nat) list" where
  "weigh evs = map (\<lambda>(t, v). (t, weight v)) evs"

lemma ring_log_record_all:
  assumes g: "good c"
    and "ring_log c log s" "sorted (map fst evs)" "\<forall>e \<in> set evs. started s \<le> fst e"
    and "log_sum (\<lambda>_. True) (log @ weigh evs) \<le> limit"
  shows "ring_log c (log @ weigh evs) (record_all c evs s)"
    and "started (record_all c evs s) \<le> (if evs = [] then started s else fst (last evs))"
proof -
  have "ring_log c (log @ weigh evs) (record_all c evs s) \<and>
    started (record_all c evs s) \<le> (if evs = [] then started s else fst (last evs))"
    using assms(2-)
  proof (induction evs arbitrary: log s)
    case Nil
    then show ?case by (simp add: record_all_def weigh_def)
  next
    case (Cons e evs)
    obtain t v where e: "e = (t, v)" by (cases e)
    have le: "started s \<le> t" using Cons.prems e by auto
    have ok: "ring_ok c s" using Cons.prems by (simp add: ring_log_def)
    let ?s = "add v (rotate c t s)"
    have lim: "log_sum (\<lambda>_. True) log + weight v \<le> limit"
      using Cons.prems by (simp add: weigh_def e)
    have R: "ring_log c (log @ [(t, weight v)]) ?s"
      using ring_log_rotate [OF g Cons.prems(1) le] started_rotate [OF g ok le] lim
      by (intro ring_log_add) auto
    have st: "started ?s \<le> t"
      using started_rotate [OF g ok le] by (simp add: started_add)
    have "ring_log c ((log @ [(t, weight v)]) @ weigh evs) (record_all c evs ?s) \<and>
      started (record_all c evs ?s) \<le> (if evs = [] then started ?s else fst (last evs))"
      using Cons.prems e st R by (intro Cons.IH) (auto simp: weigh_def intro: order_trans)
    then show ?case
      using st by (auto simp: e record_all_def weigh_def)
  qed
  then show "ring_log c (log @ weigh evs) (record_all c evs s)"
    "started (record_all c evs s) \<le> (if evs = [] then started s else fst (last evs))" by simp_all
qed

lemma window_counts:
  assumes g: "good c" and init: "buckets s = [blank]"
    and ev: "sorted (map fst evs)" "\<forall>e \<in> set evs. started s \<le> fst e \<and> fst e \<le> now"
    and st: "started s \<le> now"
    and lim: "sum_list (map (weight \<circ> snd) evs) \<le> limit"
  shows "log_sum (\<lambda>r. now \<le> r + (cap c - 1) * width c) (weigh evs)
      \<le> total (rotate c now (record_all c evs s))"
    and "total (rotate c now (record_all c evs s))
      \<le> log_sum (\<lambda>r. now < r + cap c * width c) (weigh evs)"
proof -
  have w: "log_sum (\<lambda>_. True) ([] @ weigh evs) \<le> limit"
    using lim by (simp add: log_sum_def weigh_def comp_def case_prod_beta)
  have ge: "\<forall>e \<in> set evs. started s \<le> fst e" using ev(2) by simp
  note run = ring_log_record_all [OF g ring_log_init [OF g init] ev(1) ge w]
  have R: "ring_log c (weigh evs) (record_all c evs s)" using run(1) by simp
  have "(if evs = [] then started s else fst (last evs)) \<le> now"
    using st ev(2) by simp
  with run(2) have "started (record_all c evs s) \<le> now" by (rule order_trans)
  then show "log_sum (\<lambda>r. now \<le> r + (cap c - 1) * width c) (weigh evs)
      \<le> total (rotate c now (record_all c evs s))"
    and "total (rotate c now (record_all c evs s))
      \<le> log_sum (\<lambda>r. now < r + cap c * width c) (weigh evs)"
    using window_law [OF g R] by simp_all
qed

end

end
