(* ===== verification/Binary64.thy ===== *)
theory Binary64
  imports Complex_Main Prelude "HOL-Library.Log_Nat"
begin

text \<open>
  Rust's \<open>f64\<close>: IEEE 754 binary64 with round-to-nearest, ties to even. A finite value is the
  rational number it denotes (the two zeros are one value: none of the modelled code divides by a
  zero or reads a sign bit). \<open>fl\<close> is the rounding of an exact result to 53 significant bits with
  gradual underflow; \<open>mk\<close> adds the overflow to an infinity. The theorems about \<open>fl\<close> are the ones
  the components need: it is monotone, it fixes the values with at most 53 significant bits, and it
  therefore keeps a result inside any bounds that are such values.
\<close>

section \<open>Rounding\<close>

definition rne :: "rat \<Rightarrow> int" where
  "rne q = (let f = \<lfloor>q\<rfloor>; r = q - of_int f in
     if r < 1 / 2 then f else if 1 / 2 < r then f + 1 else if even f then f else f + 1)"

text \<open>The binary exponent \<open>\<lfloor>log\<^sub>2 x\<rfloor>\<close> of a positive \<open>x\<close>.\<close>

definition bexp :: "rat \<Rightarrow> int" where
  "bexp x = (if 1 \<le> x then bitlen \<lfloor>x\<rfloor> - 1 else - bitlen (\<lceil>1 / x\<rceil> - 1))"

definition fl_exp :: "rat \<Rightarrow> int" where
  "fl_exp x = max (bexp \<bar>x\<bar>) (-1022)"

definition ulp :: "int \<Rightarrow> rat" where
  "ulp e = 2 powi (e - 52)"

definition fl :: "rat \<Rightarrow> rat" where
  "fl x = (if x = 0 then 0 else of_int (rne (x / ulp (fl_exp x))) * ulp (fl_exp x))"

section \<open>Round to nearest even on an integer grid\<close>

lemma rne_bounds: "of_int (rne q) \<le> q + 1 / 2" "q - 1 / 2 \<le> of_int (rne q)"
proof -
  have f: "of_int \<lfloor>q\<rfloor> \<le> q" "q < of_int \<lfloor>q\<rfloor> + 1"
    by linarith+
  show "of_int (rne q) \<le> q + 1 / 2"
    using f unfolding rne_def Let_def by (simp split: if_splits) linarith+
  show "q - 1 / 2 \<le> of_int (rne q)"
    using f unfolding rne_def Let_def by (simp split: if_splits)
qed

lemma rne_of_int [simp]: "rne (of_int n) = n"
  by (simp add: rne_def)

lemma rne_floor: "\<lfloor>q\<rfloor> \<le> rne q" "rne q \<le> \<lfloor>q\<rfloor> + 1"
  by (auto simp: rne_def Let_def)

lemma rne_mono: "p \<le> q \<Longrightarrow> rne p \<le> rne q"
proof (cases "\<lfloor>p\<rfloor> = \<lfloor>q\<rfloor>")
  case True
  assume "p \<le> q"
  with True show ?thesis by (auto simp: rne_def Let_def)
next
  case False
  assume "p \<le> q"
  with False have "\<lfloor>p\<rfloor> + 1 \<le> \<lfloor>q\<rfloor>"
    by (metis add1_zle_eq floor_mono order_le_less)
  with rne_floor [of p] rne_floor [of q] show ?thesis by linarith
qed

lemma rne_le_int: "q \<le> of_int n \<Longrightarrow> rne q \<le> n"
  using rne_mono [of q "of_int n"] by simp

lemma rne_ge_int: "of_int n \<le> q \<Longrightarrow> n \<le> rne q"
  using rne_mono [of "of_int n" q] by simp

lemma rne_minus: "rne (- q) = - rne q"
proof (cases "q = of_int \<lfloor>q\<rfloor>")
  case True
  then show ?thesis by (metis of_int_minus rne_of_int)
next
  case False
  then have f: "\<lfloor>- q\<rfloor> = - \<lfloor>q\<rfloor> - 1"
    by (simp add: floor_minus ceiling_altdef)
  then have "even \<lfloor>- q\<rfloor> \<longleftrightarrow> odd \<lfloor>q\<rfloor>" by simp
  with f show ?thesis unfolding rne_def Let_def by auto
qed

section \<open>The binary exponent\<close>

lemma two_powi_mono: "a \<le> b \<Longrightarrow> (2::rat) powi a \<le> 2 powi b"
  by (rule power_int_increasing) simp_all

lemma two_powi_pos [simp]: "(0::rat) < 2 powi a"
  by simp

lemma ulp_pos [simp]: "0 < ulp e"
  by (simp add: ulp_def)

lemma bexp_bounds:
  assumes "0 < x"
  shows "2 powi (bexp x) \<le> x" "x < 2 powi (bexp x + 1)"
proof -
  have "2 powi (bexp x) \<le> x \<and> x < 2 powi (bexp x + 1)"
  proof (cases "1 \<le> x")
    case True
    then have pos: "0 < \<lfloor>x\<rfloor>" by simp
    define n where "n = nat (bitlen \<lfloor>x\<rfloor> - 1)"
    have bl: "1 \<le> bitlen \<lfloor>x\<rfloor>"
      using pos by (metis bitlen_eq_zero_iff bitlen_nonneg int_one_le_iff_zero_less le_less not_less)
    then have n: "bitlen \<lfloor>x\<rfloor> = int n + 1" by (simp add: n_def)
    from bitlen_bounds [OF pos] n have b: "2 ^ n \<le> \<lfloor>x\<rfloor>" "\<lfloor>x\<rfloor> < 2 ^ (n + 1)"
      by (simp_all add: nat_add_distrib)
    from b(1) have "of_int (2 ^ n) \<le> x" by (simp add: le_floor_iff)
    moreover from b(2) have "x < of_int (2 ^ (n + 1))" by (simp add: floor_less_iff)
    ultimately show ?thesis
      using True n by (simp add: bexp_def power_int_add)
  next
    case False
    define y where "y = 1 / x"
    have y: "1 < y" "x = 1 / y" using False assms by (simp_all add: y_def)
    define m where "m = \<lceil>y\<rceil> - 1"
    have m: "0 < m" using y by (simp add: m_def)
    from m have bl: "0 \<le> bitlen m" by (simp add: bitlen_nonneg)
    define n where "n = nat (bitlen m)"
    have n: "bitlen m = int n" using bl by (simp add: n_def)
    have n1: "0 < n"
      using m n by (metis bitlen_eq_zero_iff gr0I not_less of_nat_0)
    have "nat (int n - 1) = n - 1" using n1 by simp
    with bitlen_bounds [OF m] n have b: "2 ^ (n - 1) \<le> m" "m < 2 ^ n"
      by simp_all
    from b(2) have "\<lceil>y\<rceil> \<le> 2 ^ n" by (simp add: m_def)
    then have up: "y \<le> 2 ^ n" by (simp add: ceiling_le_iff)
    from b(1) have "2 ^ (n - 1) < \<lceil>y\<rceil>" by (simp add: m_def)
    then have lo: "2 ^ (n - 1) < y" by (simp add: less_ceiling_iff)
    have e: "bexp x = - int n"
      using False n by (simp add: bexp_def m_def y_def)
    have "2 powi (bexp x) = (1 / 2 ^ n :: rat)" by (simp add: e power_int_minus_divide)
    moreover have "2 powi (bexp x + 1) = 1 / (2 ^ (n - 1) :: rat)"
    proof -
      have "- int n + 1 = - int (n - 1)" using n1 by simp
      then show ?thesis by (simp only: e power_int_minus_divide power_int_of_nat)
    qed
    moreover have "1 / 2 ^ n \<le> x" using up y by (simp add: frac_le)
    moreover have "x < 1 / 2 ^ (n - 1)" using lo y by (simp add: frac_less2)
    ultimately show ?thesis by simp
  qed
  then show "2 powi (bexp x) \<le> x" "x < 2 powi (bexp x + 1)" by simp_all
qed

lemma powi_less_cancel: "(2::rat) powi a < 2 powi b \<Longrightarrow> a < b"
  by (meson not_less two_powi_mono)

lemma bexp_mono: "0 < x \<Longrightarrow> x \<le> y \<Longrightarrow> bexp x \<le> bexp y"
proof -
  assume "0 < x" "x \<le> y"
  then have "2 powi (bexp x) < (2::rat) powi (bexp y + 1)"
    using bexp_bounds [of x] bexp_bounds [of y] by linarith
  then show ?thesis using powi_less_cancel by fastforce
qed

lemma bexp_less: "0 < x \<Longrightarrow> x < 2 powi k \<Longrightarrow> bexp x < k"
proof -
  assume "0 < x" "x < 2 powi k"
  then have "2 powi (bexp x) < (2::rat) powi k"
    using bexp_bounds(1) [of x] by linarith
  then show ?thesis by (rule powi_less_cancel)
qed

lemma bexp_le: "0 < x \<Longrightarrow> 2 powi k \<le> x \<Longrightarrow> k \<le> bexp x"
proof -
  assume "0 < x" "2 powi k \<le> x"
  then have "2 powi k < (2::rat) powi (bexp x + 1)"
    using bexp_bounds(2) [of x] by linarith
  then show ?thesis using powi_less_cancel by fastforce
qed

section \<open>Properties of the rounding\<close>

lemma fl_0 [simp]: "fl 0 = 0"
  by (simp add: fl_def)

lemma fl_minus: "fl (- x) = - fl x"
  by (simp add: fl_def fl_exp_def rne_minus)

lemma fl_nonneg: "0 \<le> x \<Longrightarrow> 0 \<le> fl x"
proof -
  assume "0 \<le> x"
  then have "0 \<le> x / ulp (fl_exp x)" by (simp add: order_less_imp_le)
  then have "0 \<le> rne (x / ulp (fl_exp x))" using rne_ge_int [of 0] by simp
  then show ?thesis by (simp add: fl_def order_less_imp_le)
qed

text \<open>A multiple of the spacing in its binade is left alone.\<close>

lemma fl_on_grid:
  assumes "x = of_int n * ulp (fl_exp x)"
  shows "fl x = x"
proof (cases "x = 0")
  case False
  have "x / ulp (fl_exp x) = of_int n"
    by (subst assms) (simp add: less_imp_neq [OF ulp_pos, symmetric])
  with False assms show ?thesis by (simp add: fl_def)
qed simp

lemma fl_exp_le:
  assumes "\<bar>x\<bar> < 2 powi (53 + k)" "x \<noteq> 0" "-1074 \<le> k"
  shows "fl_exp x - 52 \<le> k"
  using bexp_less [of "\<bar>x\<bar>" "53 + k"] assms by (simp add: fl_exp_def)

lemma fl_exact:
  assumes x: "x = of_int m * 2 powi k" and m: "\<bar>m\<bar> < 2 ^ 53" and k: "-1074 \<le> k"
  shows "fl x = x"
proof (cases "x = 0")
  case False
  have "\<bar>x\<bar> = of_int \<bar>m\<bar> * 2 powi k"
    by (simp add: x abs_mult order_less_imp_le)
  also have "\<dots> < of_int (2 ^ 53) * 2 powi k"
    using m by (intro mult_strict_right_mono) (simp_all only: of_int_less_iff two_powi_pos)
  also have "\<dots> = 2 powi (53 + k)"
    by (simp add: power_int_add)
  finally have e: "fl_exp x - 52 \<le> k"
    using False k by (rule fl_exp_le)
  define j where "j = nat (k - (fl_exp x - 52))"
  have "k = (fl_exp x - 52) + int j" using e by (simp add: j_def)
  then have "(2::rat) powi k = 2 ^ j * ulp (fl_exp x)"
    by (metis add.commute power_int_add power_int_of_nat ulp_def zero_neq_numeral)
  then have "x = of_int (m * 2 ^ j) * ulp (fl_exp x)"
    by (simp add: x)
  then show ?thesis by (rule fl_on_grid)
qed simp

lemma fl_of_int: "\<bar>n\<bar> < 2 ^ 53 \<Longrightarrow> fl (of_int n) = of_int n"
  using fl_exact [of "of_int n" n 0] by simp

lemma fl_of_nat: "n < 2 ^ 53 \<Longrightarrow> fl (of_nat n) = of_nat n"
  using fl_of_int [of "int n"] by simp

lemma fl_powi: "-1074 \<le> k \<Longrightarrow> fl (2 powi k) = 2 powi k"
  using fl_exact [of "2 powi k" 1 k] by simp

lemma fl_mono_pos:
  assumes "0 < x" "x \<le> y"
  shows "fl x \<le> fl y"
proof -
  have y: "0 < y" using assms by simp
  have le: "fl_exp x \<le> fl_exp y"
    using bexp_mono [OF assms] assms by (simp add: fl_exp_def)
  show ?thesis
  proof (cases "fl_exp x = fl_exp y")
    case True
    have "x / ulp (fl_exp y) \<le> y / ulp (fl_exp y)"
      using assms by (intro divide_right_mono) (simp_all add: order_less_imp_le)
    then have "rne (x / ulp (fl_exp y)) \<le> rne (y / ulp (fl_exp y))" by (rule rne_mono)
    with True assms y show ?thesis by (simp add: fl_def)
  next
    case False
    with le have lt: "fl_exp x < fl_exp y" by simp
    have xs: "x < 2 powi (fl_exp x + 1)"
      using bexp_bounds(2) [OF assms(1)] two_powi_mono [of "bexp x + 1" "fl_exp x + 1"] assms(1)
      by (simp add: fl_exp_def)
    have "2 powi (fl_exp x + 1) = of_int (2 ^ 53) * ulp (fl_exp x)"
      using power_int_add [of "2::rat" 53 "fl_exp x - 52"] by (simp add: ulp_def algebra_simps)
    with xs have "x / ulp (fl_exp x) \<le> of_int (2 ^ 53)"
      by (simp add: pos_divide_le_eq)
    then have "rne (x / ulp (fl_exp x)) \<le> 2 ^ 53" by (rule rne_le_int)
    then have "of_int (rne (x / ulp (fl_exp x))) \<le> (of_int (2 ^ 53) :: rat)"
      by (simp only: of_int_le_iff)
    then have "fl x \<le> of_int (2 ^ 53) * ulp (fl_exp x)"
      using assms(1) unfolding fl_def by (simp add: mult_right_mono order_less_imp_le)
    also have "\<dots> = 2 powi (fl_exp x + 1)"
      using power_int_add [of "2::rat" 53 "fl_exp x - 52"] by (simp add: ulp_def algebra_simps)
    also have "\<dots> \<le> 2 powi (fl_exp y)" using lt by (intro two_powi_mono) simp
    also have "\<dots> \<le> fl y"
    proof -
      have b: "fl_exp y = bexp y"
        using lt y by (simp add: fl_exp_def max_def split: if_splits)
      have "2 powi (fl_exp y) = of_int (2 ^ 52) * ulp (fl_exp y)"
        using power_int_add [of "2::rat" 52 "fl_exp y - 52"] by (simp add: ulp_def algebra_simps)
      moreover from bexp_bounds(1) [OF y] b have "2 powi (fl_exp y) \<le> y" by simp
      ultimately have "of_int (2 ^ 52) \<le> y / ulp (fl_exp y)"
        by (simp add: pos_le_divide_eq)
      then have "2 ^ 52 \<le> rne (y / ulp (fl_exp y))" by (rule rne_ge_int)
      then have "of_int (2 ^ 52) \<le> (of_int (rne (y / ulp (fl_exp y))) :: rat)"
        by (simp only: of_int_le_iff)
      then have "of_int (2 ^ 52) * ulp (fl_exp y) \<le> fl y"
        using y unfolding fl_def by (simp add: mult_right_mono order_less_imp_le)
      with \<open>2 powi (fl_exp y) = of_int (2 ^ 52) * ulp (fl_exp y)\<close> show ?thesis by simp
    qed
    finally show ?thesis .
  qed
qed

theorem fl_mono: "x \<le> y \<Longrightarrow> fl x \<le> fl y"
proof -
  assume le: "x \<le> y"
  consider "0 < x" | "x \<le> 0" "0 \<le> y" | "y < 0" by linarith
  then show ?thesis
  proof cases
    case 1
    then show ?thesis using le by (rule fl_mono_pos)
  next
    case 2
    have "fl x \<le> 0" using fl_nonneg [of "- x"] 2 by (simp add: fl_minus)
    moreover have "0 \<le> fl y" using 2 by (simp add: fl_nonneg)
    ultimately show ?thesis by simp
  next
    case 3
    then have "fl (- y) \<le> fl (- x)" using le by (intro fl_mono_pos) simp_all
    then show ?thesis by (simp add: fl_minus)
  qed
qed

lemma fl_le_exact: "fl y = y \<Longrightarrow> x \<le> y \<Longrightarrow> fl x \<le> y"
  using fl_mono [of x y] by simp

lemma fl_ge_exact: "fl y = y \<Longrightarrow> y \<le> x \<Longrightarrow> y \<le> fl x"
  using fl_mono [of y x] by simp

text \<open>Rounding is idempotent: a rounded value is representable.\<close>

lemma fl_idem [simp]: "fl (fl x) = fl x"
proof -
  have pos: "fl (fl x) = fl x" if x: "0 < x" for x
  proof -
    let ?e = "fl_exp x"
    let ?m = "rne (x / ulp ?e)"
    have flx: "fl x = of_int ?m * ulp ?e" using x by (simp add: fl_def)
    have xs: "x < 2 powi (?e + 1)"
      using bexp_bounds(2) [OF x] two_powi_mono [of "bexp x + 1" "?e + 1"] x
      by (simp add: fl_exp_def)
    have eq: "2 powi (?e + 1) = of_int (2 ^ 53) * ulp ?e"
      using power_int_add [of "2::rat" 53 "?e - 52"] by (simp add: ulp_def algebra_simps)
    from xs eq have "x / ulp ?e \<le> of_int (2 ^ 53)" by (simp add: pos_divide_le_eq)
    then have m: "?m \<le> 2 ^ 53" by (rule rne_le_int)
    have m0: "0 \<le> ?m"
      using rne_ge_int [of 0 "x / ulp ?e"] x by (simp add: order_less_imp_le)
    have k: "-1074 \<le> ?e - 52" by (simp add: fl_exp_def)
    show ?thesis
    proof (cases "?m = 2 ^ 53")
      case True
      with flx eq have "fl x = 2 powi (?e + 1)" by simp
      then show ?thesis using k by (simp add: fl_powi)
    next
      case False
      with m m0 have "\<bar>?m\<bar> < 2 ^ 53" by linarith
      then show ?thesis using fl_exact [OF _ _ k, of "fl x" ?m] flx by (simp add: ulp_def)
    qed
  qed
  consider "0 < x" | "x = 0" | "x < 0" by linarith
  then show ?thesis
  proof cases
    case 3
    then have "fl (fl (- x)) = fl (- x)" by (intro pos) simp
    then show ?thesis by (simp add: fl_minus)
  qed (simp_all add: pos)
qed

section \<open>Values with infinities and NaN, and the operations\<close>

datatype f64 = Fin rat | Inf bool | NaN

text \<open>\<open>Inf True\<close> is \<open>-\<infinity>\<close>.\<close>

definition mk :: "rat \<Rightarrow> f64" where
  "mk x = (if \<bar>fl x\<bar> < 2 ^ 1024 then Fin (fl x) else Inf (x < 0))"

text \<open>For evaluation the comparison with \<open>2^1024\<close> is one of binary exponents.\<close>

lemma mk_code [code]:
  "mk x = (let y = fl x in if y = 0 \<or> bexp \<bar>y\<bar> < 1024 then Fin y else Inf (x < 0))"
proof -
  have "\<bar>y\<bar> < 2 ^ 1024 \<longleftrightarrow> y = 0 \<or> bexp \<bar>y\<bar> < 1024" for y
    using bexp_less [of "\<bar>y\<bar>" 1024] bexp_le [of "\<bar>y\<bar>" 1024] by fastforce
  then show ?thesis by (simp add: mk_def Let_def)
qed

definition f_nat :: "nat \<Rightarrow> f64" where
  "f_nat n = mk (of_nat n)"

fun f_add :: "f64 \<Rightarrow> f64 \<Rightarrow> f64" where
  "f_add (Fin a) (Fin b) = mk (a + b)"
| "f_add (Inf s) (Inf t) = (if s = t then Inf s else NaN)"
| "f_add (Inf s) (Fin _) = Inf s"
| "f_add (Fin _) (Inf s) = Inf s"
| "f_add _ _ = NaN"

fun f_neg :: "f64 \<Rightarrow> f64" where
  "f_neg (Fin a) = Fin (- a)"
| "f_neg (Inf s) = Inf (\<not> s)"
| "f_neg NaN = NaN"

definition f_sub :: "f64 \<Rightarrow> f64 \<Rightarrow> f64" where
  "f_sub a b = f_add a (f_neg b)"

fun f_mul :: "f64 \<Rightarrow> f64 \<Rightarrow> f64" where
  "f_mul (Fin a) (Fin b) = mk (a * b)"
| "f_mul (Fin a) (Inf s) = (if a = 0 then NaN else Inf ((a < 0) \<noteq> s))"
| "f_mul (Inf s) (Fin a) = (if a = 0 then NaN else Inf ((a < 0) \<noteq> s))"
| "f_mul (Inf s) (Inf t) = Inf (s \<noteq> t)"
| "f_mul _ _ = NaN"

fun f_div :: "f64 \<Rightarrow> f64 \<Rightarrow> f64" where
  "f_div (Fin a) (Fin b) = (if b = 0 then (if a = 0 then NaN else Inf (a < 0)) else mk (a / b))"
| "f_div (Fin a) (Inf s) = Fin 0"
| "f_div (Inf s) (Fin b) = Inf ((b < 0) \<noteq> s)"
| "f_div _ _ = NaN"

fun f_lt :: "f64 \<Rightarrow> f64 \<Rightarrow> bool" where
  "f_lt (Fin a) (Fin b) = (a < b)"
| "f_lt (Inf s) (Inf t) = (s \<and> \<not> t)"
| "f_lt (Inf s) (Fin _) = s"
| "f_lt (Fin _) (Inf s) = (\<not> s)"
| "f_lt _ _ = False"

definition f_le :: "f64 \<Rightarrow> f64 \<Rightarrow> bool" where
  "f_le a b \<longleftrightarrow> f_lt a b \<or> (a = b \<and> a \<noteq> NaN)"

text \<open>\<open>f64::min\<close> and \<open>f64::max\<close> return the other operand when one is NaN.\<close>

definition f_min :: "f64 \<Rightarrow> f64 \<Rightarrow> f64" where
  "f_min a b = (if a = NaN then b else if b = NaN then a else if f_lt b a then b else a)"

definition f_max :: "f64 \<Rightarrow> f64 \<Rightarrow> f64" where
  "f_max a b = (if a = NaN then b else if b = NaN then a else if f_lt a b then b else a)"

definition f_finite :: "f64 \<Rightarrow> bool" where
  "f_finite a = (case a of Fin _ \<Rightarrow> True | _ \<Rightarrow> False)"

text \<open>\<open>Duration::as_secs_f64\<close> adds the whole seconds and the fraction.\<close>

definition as_secs_f64 :: "duration \<Rightarrow> f64" where
  "as_secs_f64 d =
     f_add (f_nat (d div nanos_per_sec))
           (f_div (f_nat (d mod nanos_per_sec)) (f_nat nanos_per_sec))"

text \<open>
  \<open>Duration::from_secs_f64\<close> rounds to the nearest nanosecond and panics on a negative argument, on
  NaN and on what does not fit.
\<close>

definition from_secs_f64 :: "f64 \<Rightarrow> duration option" where
  "from_secs_f64 x =
     (case x of
        Fin r \<Rightarrow>
          let n = nat (rne (r * of_nat nanos_per_sec)) in
          if r < 0 \<or> duration_max < n then None else Some n
      | _ \<Rightarrow> None)"

text \<open>\<open>f64::ceil\<close> and the saturating cast \<open>as usize\<close>.\<close>

fun f_ceil :: "f64 \<Rightarrow> f64" where
  "f_ceil (Fin r) = Fin (of_int \<lceil>r\<rceil>)"
| "f_ceil x = x"

fun f_to_usize :: "f64 \<Rightarrow> nat" where
  "f_to_usize (Fin r) = min u64_max (nat \<lfloor>r\<rfloor>)"
| "f_to_usize (Inf s) = (if s then 0 else u64_max)"
| "f_to_usize NaN = 0"

definition f_clamp :: "f64 \<Rightarrow> f64 \<Rightarrow> f64 \<Rightarrow> f64" where
  "f_clamp lo hi x = (if f_lt x lo then lo else if f_lt hi x then hi else x)"

lemma fl_bound: "\<bar>x\<bar> \<le> 2 powi k \<Longrightarrow> -1074 \<le> k \<Longrightarrow> \<bar>fl x\<bar> \<le> 2 powi k"
  using fl_le_exact [OF fl_powi, of k x] fl_le_exact [OF fl_powi, of k "- x"]
  by (simp add: fl_minus abs_le_iff)

text \<open>Within \<open>2^1000\<close> nothing overflows.\<close>

lemma mk_fin: "\<bar>x\<bar> \<le> 2 ^ 1000 \<Longrightarrow> mk x = Fin (fl x)"
proof -
  assume "\<bar>x\<bar> \<le> 2 ^ 1000"
  then have "\<bar>fl x\<bar> \<le> 2 ^ 1000" using fl_bound [of x 1000] by simp
  also have "(2::rat) ^ 1000 < 2 ^ 1024" by (rule power_strict_increasing) simp_all
  finally show ?thesis by (simp add: mk_def)
qed

lemma pow_1000_ge: "n \<le> 1000 \<Longrightarrow> x \<le> 2 ^ n \<Longrightarrow> x \<le> (2::rat) ^ 1000"
  by (erule order_trans) (rule power_increasing, simp_all)

lemma mk_fin_pow: "n \<le> 1000 \<Longrightarrow> \<bar>x\<bar> \<le> 2 ^ n \<Longrightarrow> mk x = Fin (fl x)"
  by (rule mk_fin) (rule pow_1000_ge)

lemma f_nat_exact: "n < 2 ^ 53 \<Longrightarrow> f_nat n = Fin (of_nat n)"
proof -
  assume n: "n < 2 ^ 53"
  then have "(of_nat n :: rat) \<le> of_nat (2 ^ 53)" by (simp only: of_nat_le_iff order_less_imp_le)
  then have "mk (of_nat n) = Fin (fl (of_nat n))" by (intro mk_fin_pow [of 53]) simp_all
  then show ?thesis using n by (simp add: f_nat_def fl_of_nat)
qed

lemma f_nat_bounds:
  assumes "n \<le> 2 ^ k" "k \<le> 1000"
  shows "\<exists>r. f_nat n = Fin r \<and> 0 \<le> r \<and> r \<le> 2 ^ k \<and> fl r = r"
proof -
  have le: "(of_nat n :: rat) \<le> 2 ^ k"
    using assms(1) by (metis of_nat_le_iff of_nat_numeral of_nat_power)
  then have "f_nat n = Fin (fl (of_nat n))"
    using assms(2) by (simp add: f_nat_def mk_fin_pow)
  moreover have "fl (of_nat n) \<le> 2 ^ k"
    using fl_le_exact [OF fl_powi, of "int k" "of_nat n"] le by simp
  ultimately show ?thesis by (auto simp: fl_nonneg)
qed

lemma as_secs_f64_bounds:
  assumes "d \<le> duration_max"
  shows "\<exists>r. as_secs_f64 d = Fin r \<and> 0 \<le> r \<and> r \<le> 2 ^ 65"
proof -
  have "d div nanos_per_sec \<le> 2 ^ 64"
    using assms by (simp add: duration_max_def nanos_per_sec_def u64_max_def)
  then obtain s where s: "f_nat (d div nanos_per_sec) = Fin s" "0 \<le> s" "s \<le> 2 ^ 64"
    using f_nat_bounds [of "d div nanos_per_sec" 64] by auto
  have r: "d mod nanos_per_sec < nanos_per_sec" by (simp add: nanos_per_sec_def)
  have ex: "f_nat (d mod nanos_per_sec) = Fin (of_nat (d mod nanos_per_sec))"
    "f_nat nanos_per_sec = Fin (of_nat nanos_per_sec)"
    by (rule f_nat_exact, use r in \<open>simp add: nanos_per_sec_def\<close>)+
  have q: "0 \<le> (of_nat (d mod nanos_per_sec) / of_nat nanos_per_sec :: rat)"
    "(of_nat (d mod nanos_per_sec) / of_nat nanos_per_sec :: rat) \<le> 1"
    using r by (simp_all add: nanos_per_sec_def)
  define f where "f = fl (of_nat (d mod nanos_per_sec) / of_nat nanos_per_sec)"
  have fb: "0 \<le> f" "f \<le> 1"
    using q fl_nonneg fl_le_exact [OF fl_of_int [of 1, simplified]] by (simp_all add: f_def)
  have fdiv: "f_div (f_nat (d mod nanos_per_sec)) (f_nat nanos_per_sec) = Fin f"
    using q mk_fin_pow [of 0 "of_nat (d mod nanos_per_sec) / of_nat nanos_per_sec"]
    unfolding ex by (simp add: f_def nanos_per_sec_def)
  have sum: "\<bar>s + f\<bar> \<le> 2 ^ 65" using s fb by simp
  then have "mk (s + f) = Fin (fl (s + f))" by (intro mk_fin_pow [of 65]) simp_all
  then have "as_secs_f64 d = Fin (fl (s + f))"
    by (simp add: as_secs_f64_def s(1) fdiv)
  moreover have "0 \<le> fl (s + f)" using s fb by (simp add: fl_nonneg)
  moreover have "fl (s + f) \<le> 2 ^ 65" using fl_bound [of "s + f" 65] sum by simp
  ultimately show ?thesis by blast
qed

section \<open>Rounding errors\<close>

lemma fl_error:
  assumes "0 \<le> x"
  shows "fl x \<le> x * (1 + 1 / 2 ^ 53) + 1 / 2 ^ 53"
proof (cases "x = 0")
  case False
  with assms have x: "0 < x" by simp
  let ?u = "ulp (fl_exp x)"
  have "of_int (rne (x / ?u)) * ?u \<le> (x / ?u + 1 / 2) * ?u"
    by (intro mult_right_mono rne_bounds) (simp add: order_less_imp_le)
  also have "\<dots> = x + ?u / 2"
    by (simp add: distrib_right less_imp_neq [OF ulp_pos, symmetric])
  finally have 1: "fl x \<le> x + ?u / 2" using x by (simp add: fl_def)
  have "?u / 2 \<le> x / 2 ^ 53 + 1 / 2 ^ 53"
  proof (cases "-1022 \<le> bexp x")
    case True
    then have "?u = 2 powi (bexp x) / 2 ^ 52"
      using x by (simp add: ulp_def fl_exp_def power_int_diff)
    then show ?thesis using bexp_bounds(1) [OF x] by simp
  next
    case False
    then have "?u = 2 powi (-1074)" using x by (simp add: ulp_def fl_exp_def)
    also have "\<dots> \<le> 2 powi (-52)" by (rule two_powi_mono) simp
    also have "\<dots> = 1 / 2 ^ 52" by (simp add: power_int_minus_divide)
    finally show ?thesis using x by (simp add: field_simps)
  qed
  with 1 show ?thesis by (simp add: distrib_left)
qed simp

text \<open>Subtracting a whole number that is not larger leaves nothing to round.\<close>

lemma fl_sub_exact:
  assumes a: "fl a = a" "a \<le> 2 ^ 52" and p: "of_nat p \<le> a"
  shows "fl (a - of_nat p) = a - of_nat p"
proof (cases "a = 0")
  case True
  with p show ?thesis by simp
next
  case False
  have pos: "0 < a" using p False by (metis of_nat_0_le_iff order_le_less order_trans)
  define e where "e = fl_exp a"
  define n where "n = rne (a / ulp e)"
  have an: "a = of_int n * ulp e"
    using a(1) False by (simp add: fl_def e_def n_def)
  have e: "-1022 \<le> e" "bexp a \<le> e" using pos by (simp_all add: e_def fl_exp_def)
  have "a < 2 powi 53" using a(2) by (rule order_le_less_trans) simp
  then have e2: "e \<le> 52"
    using bexp_less [OF pos, of 53] pos by (simp add: e_def fl_exp_def)
  define j where "j = nat (52 - e)"
  have "a < 2 powi (e + 1)"
    using bexp_bounds(2) [OF pos] two_powi_mono [of "bexp a + 1" "e + 1"] e(2) by linarith
  also have "\<dots> = of_int (2 ^ 53) * ulp e" by (simp add: ulp_def power_int_diff power_int_add)
  finally have "of_int n * ulp e < of_int (2 ^ 53) * ulp e" using an by simp
  then have n53: "n < 2 ^ 53" by (simp only: mult_less_cancel_right_pos [OF ulp_pos] of_int_less_iff)
  have "ulp e = 1 / 2 ^ j"
  proof -
    have "e - 52 = - int j" using e2 by (simp add: j_def)
    then show ?thesis by (simp add: ulp_def power_int_minus_divide)
  qed
  then have "of_nat p = of_int (int p * 2 ^ j) * ulp e" by simp
  then have eq: "a - of_nat p = of_int (n - int p * 2 ^ j) * ulp e"
    using an by (simp only: of_int_diff left_diff_distrib)
  have "0 \<le> a - of_nat p" using p by simp
  then have "0 \<le> n - int p * 2 ^ j"
    unfolding eq using ulp_pos [of e] by (simp only: zero_le_mult_iff of_int_0_le_iff) linarith
  moreover have "n - int p * 2 ^ j \<le> n" by simp
  ultimately have "\<bar>n - int p * 2 ^ j\<bar> < 2 ^ 53" using n53 by linarith
  with eq show ?thesis
    by (intro fl_exact [of _ "n - int p * 2 ^ j" "e - 52"]) (use e in \<open>simp_all add: ulp_def\<close>)
qed

end
