(* ===== verification/Rolling.thy ===== *)
theory Rolling
  imports Bucket_Ring Binary64
begin

text \<open>
  \<open>core/src/rolling.rs\<close>: \<open>RollingWindow\<close>, numeric observations in a ring of time buckets. The
  configuration and the state under the mutex are two records; every operation takes the clock
  reading it makes. A violated \<open>assert!\<close> is the result \<^term>\<open>None\<close>.
\<close>

section \<open>State and operations\<close>

record rolling_bucket =
  rb_count :: nat
  rb_sum :: f64
  rb_minimum :: "f64 option"
  rb_maximum :: "f64 option"

definition rolling_bucket_default :: rolling_bucket where
  "rolling_bucket_default = \<lparr>rb_count = 0, rb_sum = Fin 0, rb_minimum = None, rb_maximum = None\<rparr>"

record rolling_cfg =
  rw_bucket_count :: nat
  rw_bucket_width :: duration

record window_state =
  ws_current_started :: instant
  ws_buckets :: "rolling_bucket list"

record rolling_snapshot =
  rs_count :: nat
  rs_sum :: f64
  rs_minimum :: "f64 option"
  rs_maximum :: "f64 option"

definition rolling_new :: "nat \<Rightarrow> duration \<Rightarrow> instant \<Rightarrow> (rolling_cfg \<times> window_state) option" where
  "rolling_new count width now =
     (if count = 0 \<or> width = 0 then None
      else Some (\<lparr>rw_bucket_count = count, rw_bucket_width = width\<rparr>,
                 \<lparr>ws_current_started = now, ws_buckets = [rolling_bucket_default]\<rparr>))"

definition bucket_record :: "f64 \<Rightarrow> rolling_bucket \<Rightarrow> rolling_bucket" where
  "bucket_record v b = b\<lparr>
     rb_count := rb_count b + 1,
     rb_sum := f_add (rb_sum b) v,
     rb_minimum := Some (case rb_minimum b of None \<Rightarrow> v | Some m \<Rightarrow> f_min m v),
     rb_maximum := Some (case rb_maximum b of None \<Rightarrow> v | Some m \<Rightarrow> f_max m v)\<rparr>"

text \<open>
  \<open>usize::try_from\<close> fails at \<open>2^64\<close> and falls back to the bucket count; \<open>as u32\<close> truncates.
\<close>

definition rolling_rotate :: "rolling_cfg \<Rightarrow> instant \<Rightarrow> window_state \<Rightarrow> window_state" where
  "rolling_rotate c now s =
     (let q = (now - ws_current_started s) div rw_bucket_width c;
          k = (if q < 2 ^ 64 then q else rw_bucket_count c) in
      if k = 0 then s
      else if rw_bucket_count c \<le> k
      then s\<lparr>ws_buckets := [rolling_bucket_default], ws_current_started := now\<rparr>
      else s\<lparr>ws_buckets := push_rounds (rw_bucket_count c) rolling_bucket_default k (ws_buckets s),
             ws_current_started := ws_current_started s + rw_bucket_width c * (k mod 2 ^ 32)\<rparr>)"

definition rolling_record :: "rolling_cfg \<Rightarrow> f64 \<Rightarrow> instant \<Rightarrow> window_state \<Rightarrow> window_state option" where
  "rolling_record c v now s =
     (if \<not> f_finite v then None
      else let s' = rolling_rotate c now s in
        if ws_buckets s' = [] then None
        else Some (s'\<lparr>ws_buckets := update_last (bucket_record v) (ws_buckets s')\<rparr>))"

definition rolling_merge :: "rolling_snapshot \<Rightarrow> rolling_bucket \<Rightarrow> rolling_snapshot" where
  "rolling_merge r b = r\<lparr>
     rs_count := rs_count r + rb_count b,
     rs_sum := f_add (rs_sum r) (rb_sum b),
     rs_minimum := (case rb_minimum b of None \<Rightarrow> rs_minimum r
        | Some m \<Rightarrow> Some (case rs_minimum r of None \<Rightarrow> m | Some v \<Rightarrow> f_min v m)),
     rs_maximum := (case rb_maximum b of None \<Rightarrow> rs_maximum r
        | Some m \<Rightarrow> Some (case rs_maximum r of None \<Rightarrow> m | Some v \<Rightarrow> f_max v m))\<rparr>"

definition rolling_snapshot_of :: "rolling_cfg \<Rightarrow> instant \<Rightarrow> window_state \<Rightarrow> rolling_snapshot \<times> window_state" where
  "rolling_snapshot_of c now s =
     (let s' = rolling_rotate c now s in
      (foldl rolling_merge \<lparr>rs_count = 0, rs_sum = Fin 0, rs_minimum = None, rs_maximum = None\<rparr>
         (ws_buckets s'), s'))"

definition rolling_reset :: "instant \<Rightarrow> window_state \<Rightarrow> window_state" where
  "rolling_reset now s = s\<lparr>ws_current_started := now, ws_buckets := [rolling_bucket_default]\<rparr>"

definition rolling_average :: "rolling_snapshot \<Rightarrow> f64 option" where
  "rolling_average r = (if 0 < rs_count r then Some (f_div (rs_sum r) (f_nat (rs_count r))) else None)"

section \<open>The window is a bucket ring\<close>

definition rolling_good :: "rolling_cfg \<Rightarrow> bool" where
  "rolling_good c \<longleftrightarrow> 0 < rw_bucket_count c \<and> rw_bucket_count c \<le> 2 ^ 32 \<and> 0 < rw_bucket_width c"

definition window_add :: "f64 \<Rightarrow> window_state \<Rightarrow> window_state" where
  "window_add v s = s\<lparr>ws_buckets := update_last (bucket_record v) (ws_buckets s)\<rparr>"

definition window_weight :: "f64 \<Rightarrow> nat" where
  "window_weight v = 1"

interpretation rw: bucket_counter rw_bucket_count rw_bucket_width rolling_good
  ws_current_started ws_buckets rolling_rotate rolling_bucket_default
  rb_count window_weight window_add u64_max
proof unfold_locales
  fix c :: rolling_cfg and s :: window_state and now k :: nat
  show "rolling_good c \<Longrightarrow> 0 < rw_bucket_count c \<and> 0 < rw_bucket_width c"
    by (simp add: rolling_good_def)
  show "(now - ws_current_started s) div rw_bucket_width c = 0 \<Longrightarrow> rolling_rotate c now s = s"
    by (simp add: rolling_rotate_def)
  show "rolling_good c \<Longrightarrow> rw_bucket_count c \<le> (now - ws_current_started s) div rw_bucket_width c \<Longrightarrow>
    ws_buckets (rolling_rotate c now s) = [rolling_bucket_default] \<and>
    ws_current_started (rolling_rotate c now s) = now"
    by (auto simp: rolling_rotate_def rolling_good_def Let_def)
  assume g: "rolling_good c" and k: "k = (now - ws_current_started s) div rw_bucket_width c"
    "0 < k" "k < rw_bucket_count c" and len: "length (ws_buckets s) \<le> rw_bucket_count c"
  have small: "k < 2 ^ 32" "k < 2 ^ 64" using g k(3) by (simp_all add: rolling_good_def)
  then show "ws_buckets (rolling_rotate c now s) =
      drop (length (ws_buckets s) + k - rw_bucket_count c)
        (ws_buckets s @ replicate k rolling_bucket_default) \<and>
    ws_current_started (rolling_rotate c now s) = ws_current_started s + k * rw_bucket_width c"
    using g k len
    by (auto simp: rolling_rotate_def push_rounds_eq Let_def rolling_good_def)
next
  fix s :: window_state and v :: f64
  show "rb_count rolling_bucket_default = 0" by (simp add: rolling_bucket_default_def)
  show "ws_current_started (window_add v s) = ws_current_started s" by (simp add: window_add_def)
  assume ne: "ws_buckets s \<noteq> []"
  then show "butlast (ws_buckets (window_add v s)) = butlast (ws_buckets s)"
    "ws_buckets (window_add v s) \<noteq> []"
    by (simp_all add: window_add_def)
  show "rb_count (last (ws_buckets (window_add v s))) = rb_count (last (ws_buckets s)) + window_weight v"
    using ne by (simp add: window_add_def bucket_record_def window_weight_def)
qed

lemma rolling_record_eq:
  "rw.ring_ok c s \<Longrightarrow> rolling_good c \<Longrightarrow> f_finite v \<Longrightarrow>
   rolling_record c v now s = Some (window_add v (rolling_rotate c now s))"
  using rw.ring_ok_rotate [of c s now]
  by (simp add: rolling_record_def window_add_def Let_def rw.ring_ok_def)

lemma foldl_merge_count:
  "rs_count (foldl rolling_merge r bs) = rs_count r + sum_list (map rb_count bs)"
  by (induction bs arbitrary: r) (auto simp: rolling_merge_def)

lemma snapshot_count:
  "rs_count (fst (rolling_snapshot_of c now s)) = rw.total (rolling_rotate c now s)"
  by (simp add: rolling_snapshot_of_def Let_def foldl_merge_count rw.total_def)

text \<open>Recording a whole sequence of observations.\<close>

fun rolling_record_all :: "rolling_cfg \<Rightarrow> (instant \<times> f64) list \<Rightarrow> window_state \<Rightarrow> window_state option" where
  "rolling_record_all c [] s = Some s"
| "rolling_record_all c ((t, v) # evs) s =
     (case rolling_record c v t s of None \<Rightarrow> None | Some s' \<Rightarrow> rolling_record_all c evs s')"

lemma ring_ok_window_add: "rw.ring_ok c s \<Longrightarrow> rw.ring_ok c (window_add v s)"
  by (simp add: rw.ring_ok_def window_add_def)

lemma rolling_record_all_eq:
  "rolling_good c \<Longrightarrow> rw.ring_ok c s \<Longrightarrow> \<forall>e \<in> set evs. f_finite (snd e) \<Longrightarrow>
   rolling_record_all c evs s = Some (rw.record_all c evs s)"
proof (induction c evs s rule: rolling_record_all.induct)
  case (2 c t v evs s)
  then show ?case
    by (simp add: rolling_record_eq rw.record_all_def ring_ok_window_add rw.ring_ok_rotate)
qed (simp add: rw.record_all_def)

section \<open>Minimum and maximum\<close>

text \<open>
  A bucket is consistent when it is empty, or holds finite extremes with minimum at most maximum.
\<close>

definition extremes_ok :: "nat \<Rightarrow> f64 option \<Rightarrow> f64 option \<Rightarrow> bool" where
  "extremes_ok n lo hi \<longleftrightarrow>
     (if n = 0 then lo = None \<and> hi = None
      else \<exists>a b. lo = Some (Fin a) \<and> hi = Some (Fin b) \<and> a \<le> b)"

definition window_inv :: "rolling_cfg \<Rightarrow> window_state \<Rightarrow> bool" where
  "window_inv c s \<longleftrightarrow> rw.ring_ok c s \<and>
     (\<forall>b \<in> set (ws_buckets s). extremes_ok (rb_count b) (rb_minimum b) (rb_maximum b))"

lemma extremes_ok_record:
  "extremes_ok (rb_count b) (rb_minimum b) (rb_maximum b) \<Longrightarrow> f_finite v \<Longrightarrow>
   extremes_ok (rb_count (bucket_record v b)) (rb_minimum (bucket_record v b))
     (rb_maximum (bucket_record v b))"
  by (cases v) (auto simp: extremes_ok_def bucket_record_def f_finite_def f_min_def f_max_def
      split: if_splits option.splits)

lemma extremes_ok_merge:
  "extremes_ok (rs_count r) (rs_minimum r) (rs_maximum r) \<Longrightarrow>
   extremes_ok (rb_count b) (rb_minimum b) (rb_maximum b) \<Longrightarrow>
   extremes_ok (rs_count (rolling_merge r b)) (rs_minimum (rolling_merge r b))
     (rs_maximum (rolling_merge r b))"
  by (auto simp: extremes_ok_def rolling_merge_def f_min_def f_max_def split: if_splits)

lemma set_rolling_rotate:
  "set (ws_buckets (rolling_rotate c now s)) \<subseteq> insert rolling_bucket_default (set (ws_buckets s))"
  by (auto simp: rolling_rotate_def Let_def dest: subsetD [OF set_push_rounds])

lemma extremes_ok_default:
  "extremes_ok (rb_count rolling_bucket_default) (rb_minimum rolling_bucket_default)
     (rb_maximum rolling_bucket_default)"
  by (simp add: extremes_ok_def rolling_bucket_default_def)

lemma window_inv_rotate: "rolling_good c \<Longrightarrow> window_inv c s \<Longrightarrow> window_inv c (rolling_rotate c now s)"
  using set_rolling_rotate [of c now s] rw.ring_ok_rotate [of c s now] extremes_ok_default
  by (auto simp: window_inv_def dest!: subsetD)

lemma set_update_last: "set (update_last f xs) \<subseteq> set xs \<union> (if xs = [] then {} else {f (last xs)})"
  by (auto simp: update_last_def dest: in_set_butlastD)

lemma window_inv_record:
  assumes "rolling_good c" "window_inv c s" "rolling_record c v now s = Some s'"
  shows "window_inv c s'"
proof -
  let ?r = "rolling_rotate c now s"
  have inv: "window_inv c ?r" using assms(1,2) by (rule window_inv_rotate)
  from assms(3) have v: "f_finite v" and ne: "ws_buckets ?r \<noteq> []" and s': "s' = window_add v ?r"
    by (auto simp: rolling_record_def Let_def window_add_def split: if_splits)
  have "extremes_ok (rb_count b) (rb_minimum b) (rb_maximum b)" if "b \<in> set (ws_buckets s')" for b
  proof -
    from that have "b \<in> set (ws_buckets ?r) \<or> b = bucket_record v (last (ws_buckets ?r))"
      using set_update_last [of "bucket_record v" "ws_buckets ?r"] ne by (auto simp: s' window_add_def)
    then show ?thesis
      using inv ne v extremes_ok_record last_in_set by (auto simp: window_inv_def)
  qed
  then show ?thesis using inv s' by (simp add: window_inv_def ring_ok_window_add)
qed

lemma extremes_ok_foldl:
  "extremes_ok (rs_count r) (rs_minimum r) (rs_maximum r) \<Longrightarrow>
   \<forall>b \<in> set bs. extremes_ok (rb_count b) (rb_minimum b) (rb_maximum b) \<Longrightarrow>
   extremes_ok (rs_count (foldl rolling_merge r bs)) (rs_minimum (foldl rolling_merge r bs))
     (rs_maximum (foldl rolling_merge r bs))"
  by (induction bs arbitrary: r) (auto intro: extremes_ok_merge)

section \<open>Properties\<close>

text \<open>
  The count a snapshot reports is that of a sliding window. From a new window, after recording
  any sequence of finite observations at non-decreasing clock readings, a snapshot at \<open>now\<close> counts
  every observation made in the last \<open>(bucket_count - 1) * bucket_width\<close> and none made
  \<open>bucket_count * bucket_width\<close> ago or earlier.
\<close>

theorem rolling_window_counts:
  assumes new: "rolling_new n w t0 = Some (c, s)" and n: "n \<le> 2 ^ 32"
    and evs: "sorted (map fst evs)" "\<forall>e \<in> set evs. t0 \<le> fst e \<and> fst e \<le> now \<and> f_finite (snd e)"
    and t0: "t0 \<le> now" and len: "length evs \<le> u64_max"
  shows "\<exists>s'. rolling_record_all c evs s = Some s' \<and>
     length (filter (\<lambda>e. now \<le> fst e + (n - 1) * w) evs)
       \<le> rs_count (fst (rolling_snapshot_of c now s')) \<and>
     rs_count (fst (rolling_snapshot_of c now s'))
       \<le> length (filter (\<lambda>e. now < fst e + n * w) evs)"
proof -
  from new have c: "rw_bucket_count c = n" "rw_bucket_width c = w" "rolling_good c"
    and s: "ws_buckets s = [rolling_bucket_default]" "ws_current_started s = t0"
    and ok: "rw.ring_ok c s"
    using n by (auto simp: rolling_new_def rolling_good_def rw.ring_ok_def split: if_splits)
  have all: "rolling_record_all c evs s = Some (rw.record_all c evs s)"
    using rolling_record_all_eq [OF c(3) ok] evs(2) by simp
  have ones: "log_sum P (rw.weigh evs) = length (filter (P \<circ> fst) evs)" for P
    unfolding rw.weigh_def by (induction evs) (auto simp: window_weight_def)
  have "sum_list (map (window_weight \<circ> snd) evs) \<le> u64_max"
    using len by (simp add: comp_def window_weight_def sum_list_triv)
  note counts = rw.window_counts [OF c(3) s(1) evs(1) _ _ this, of now]
  have "\<forall>e \<in> set evs. ws_current_started s \<le> fst e \<and> fst e \<le> now" using evs(2) s by simp
  note counts = counts [OF this]
  show ?thesis
    using counts t0 s all by (simp add: snapshot_count c ones comp_def)
qed

theorem rolling_window_counts_witness:
  "\<exists>s'. rolling_record_all \<lparr>rw_bucket_count = 2, rw_bucket_width = 10\<rparr>
       [(3, Fin 1), (12, Fin 2)] \<lparr>ws_current_started = 0, ws_buckets = [rolling_bucket_default]\<rparr> = Some s' \<and>
     0 < rs_count (fst (rolling_snapshot_of \<lparr>rw_bucket_count = 2, rw_bucket_width = 10\<rparr> 21 s')) \<and>
     rs_count (fst (rolling_snapshot_of \<lparr>rw_bucket_count = 2, rw_bucket_width = 10\<rparr> 21 s')) < 3"
proof -
  let ?c = "\<lparr>rw_bucket_count = 2, rw_bucket_width = 10\<rparr>"
  let ?s = "\<lparr>ws_current_started = 0, ws_buckets = [rolling_bucket_default]\<rparr>"
  let ?evs = "[(3, Fin 1), (12, Fin 2)] :: (nat \<times> f64) list"
  have "rolling_new 2 10 0 = Some (?c, ?s)" "(2::nat) \<le> 2 ^ 32" "sorted (map fst ?evs)"
    "\<forall>e \<in> set ?evs. 0 \<le> fst e \<and> fst e \<le> 21 \<and> f_finite (snd e)" "(0::nat) \<le> 21"
    "length ?evs \<le> u64_max"
    by (simp_all add: rolling_new_def f_finite_def u64_max_def)
  from rolling_window_counts [OF this] obtain s' where
    "rolling_record_all ?c ?evs ?s = Some s'"
    "1 \<le> rs_count (fst (rolling_snapshot_of ?c 21 s'))"
    "rs_count (fst (rolling_snapshot_of ?c 21 s')) \<le> 2"
    by (auto simp del: rolling_record_all.simps)
  then show ?thesis by (intro exI [of _ s']) linarith
qed

text \<open>
  Every operation keeps the window well formed: between one and \<open>bucket_count\<close> buckets, and in
  each of them, as in every snapshot, the minimum and maximum are both absent when nothing was
  counted and otherwise finite with minimum at most maximum.
\<close>

theorem rolling_window_invariant:
  assumes "rolling_good c" "window_inv c s"
  shows "window_inv c (rolling_reset now s) \<and>
    (\<forall>v. f_finite v \<longrightarrow> (\<exists>s'. rolling_record c v now s = Some s' \<and> window_inv c s')) \<and>
    (case rolling_snapshot_of c now s of (r, s') \<Rightarrow>
       window_inv c s' \<and> extremes_ok (rs_count r) (rs_minimum r) (rs_maximum r))"
proof (intro conjI allI impI)
  show "window_inv c (rolling_reset now s)"
    using assms(1) extremes_ok_default
    by (simp add: window_inv_def rolling_reset_def rw.ring_ok_def rolling_good_def Suc_le_eq)
  fix v
  assume "f_finite v"
  then have "rolling_record c v now s = Some (window_add v (rolling_rotate c now s))"
    using assms by (simp add: window_inv_def rolling_record_eq)
  then show "\<exists>s'. rolling_record c v now s = Some s' \<and> window_inv c s'"
    using window_inv_record [OF assms] by blast
next
  have inv: "window_inv c (rolling_rotate c now s)" using assms by (rule window_inv_rotate)
  let ?r = "foldl rolling_merge \<lparr>rs_count = 0, rs_sum = Fin 0, rs_minimum = None, rs_maximum = None\<rparr>
      (ws_buckets (rolling_rotate c now s))"
  have "extremes_ok (rs_count ?r) (rs_minimum ?r) (rs_maximum ?r)"
    using inv by (intro extremes_ok_foldl) (simp add: extremes_ok_def, simp add: window_inv_def)
  with inv show "case rolling_snapshot_of c now s of (r, s') \<Rightarrow>
       window_inv c s' \<and> extremes_ok (rs_count r) (rs_minimum r) (rs_maximum r)"
    by (simp add: rolling_snapshot_of_def Let_def)
qed

theorem rolling_window_invariant_witness:
  "window_inv \<lparr>rw_bucket_count = 2, rw_bucket_width = 10\<rparr>
    (rolling_reset 5 \<lparr>ws_current_started = 0, ws_buckets = [rolling_bucket_default]\<rparr>)"
  using rolling_window_invariant [of "\<lparr>rw_bucket_count = 2, rw_bucket_width = 10\<rparr>"
      "\<lparr>ws_current_started = 0, ws_buckets = [rolling_bucket_default]\<rparr>" 5]
  by (simp add: rolling_good_def window_inv_def rw.ring_ok_def extremes_ok_default)

end
