(* ===== verification/Breaker.thy ===== *)
theory Breaker
  imports Bucket_Ring Binary64 "HOL-Library.Word"
begin

unbundle bit_operations_syntax

text \<open>
  \<open>core/src/breaker.rs\<close>: the circuit breaker with its two policies. \<open>Consecutive\<close> is a state machine
  that opens after a number of consecutive failures and closes again through bounded half-open
  probes; \<open>Rolling\<close> keeps a ring of outcome counts and rejects calls with a probability computed in
  \<open>f64\<close>. Every operation takes the clock reading it makes; a violated \<open>assert!\<close> is \<^term>\<open>None\<close>.
  The atomic counters and the generator state are 64-bit words.
\<close>

section \<open>Configuration\<close>

record rolling_breaker_config =
  rc_window :: duration
  rc_buckets :: nat
  rc_sensitivity :: f64
  rc_minimum_requests :: nat
  rc_probe_interval :: nat
  rc_random_seed :: "64 word"

datatype breaker_policy = Consecutive | Rolling rolling_breaker_config

record breaker_config =
  bc_max_failures :: nat
  bc_reset_timeout :: duration
  bc_half_open_max_calls :: nat
  bc_policy :: breaker_policy

definition breaker_config_new :: "nat \<Rightarrow> duration \<Rightarrow> breaker_config option" where
  "breaker_config_new max_failures reset_timeout =
     (if max_failures = 0 \<or> reset_timeout = 0 then None
      else Some \<lparr>bc_max_failures = max_failures, bc_reset_timeout = reset_timeout,
                 bc_half_open_max_calls = 1, bc_policy = Consecutive\<rparr>)"

definition breaker_config_rolling :: "rolling_breaker_config \<Rightarrow> breaker_config" where
  "breaker_config_rolling rc =
     \<lparr>bc_max_failures = 5, bc_reset_timeout = 30 * nanos_per_sec,
      bc_half_open_max_calls = 1, bc_policy = Rolling rc\<rparr>"

definition with_half_open_max_calls :: "nat \<Rightarrow> breaker_config \<Rightarrow> breaker_config option" where
  "with_half_open_max_calls calls c =
     (if calls = 0 then None else Some (c\<lparr>bc_half_open_max_calls := calls\<rparr>))"

definition with_policy :: "breaker_policy \<Rightarrow> breaker_config \<Rightarrow> breaker_config" where
  "with_policy p c = c\<lparr>bc_policy := p\<rparr>"

definition rolling_config_new :: rolling_breaker_config where
  "rolling_config_new =
     \<lparr>rc_window = 5 * nanos_per_sec, rc_buckets = 40, rc_sensitivity = Fin (3 / 2),
      rc_minimum_requests = 5, rc_probe_interval = 100, rc_random_seed = 0\<rparr>"

definition rolling_with_window :: "duration \<Rightarrow> nat \<Rightarrow> rolling_breaker_config \<Rightarrow> rolling_breaker_config option" where
  "rolling_with_window window buckets c =
     (if window = 0 \<or> buckets = 0 \<or> window < buckets then None
      else Some (c\<lparr>rc_window := window, rc_buckets := buckets\<rparr>))"

definition rolling_with_sensitivity :: "f64 \<Rightarrow> rolling_breaker_config \<Rightarrow> rolling_breaker_config option" where
  "rolling_with_sensitivity x c =
     (if f_finite x \<and> f_lt (Fin 0) x then Some (c\<lparr>rc_sensitivity := x\<rparr>) else None)"

definition rolling_with_minimum_requests :: "nat \<Rightarrow> rolling_breaker_config \<Rightarrow> rolling_breaker_config" where
  "rolling_with_minimum_requests requests c = c\<lparr>rc_minimum_requests := requests\<rparr>"

definition rolling_with_probe_interval :: "nat \<Rightarrow> rolling_breaker_config \<Rightarrow> rolling_breaker_config option" where
  "rolling_with_probe_interval requests c =
     (if requests = 0 then None else Some (c\<lparr>rc_probe_interval := requests\<rparr>))"

definition rolling_with_random_seed :: "64 word \<Rightarrow> rolling_breaker_config \<Rightarrow> rolling_breaker_config" where
  "rolling_with_random_seed seed c = c\<lparr>rc_random_seed := max seed 1\<rparr>"

definition rolling_validate :: "rolling_breaker_config \<Rightarrow> bool" where
  "rolling_validate c \<longleftrightarrow>
     rc_window c \<noteq> 0 \<and> 0 < rc_buckets c \<and> rc_buckets c \<le> rc_window c \<and>
     f_finite (rc_sensitivity c) \<and> f_lt (Fin 0) (rc_sensitivity c) \<and>
     0 < rc_probe_interval c"

section \<open>State\<close>

datatype breaker_state = Closed | Open | HalfOpen

datatype circuit_outcome = Success | Failure | Cancellation

datatype consecutive_state =
  CClosed (consecutive_failures: nat)
| COpen (opened_at: instant)
| CHalfOpen (attempts: nat) (successes: nat)

record outcome_bucket =
  ob_accepted :: nat
  ob_total :: nat

record rolling_state =
  rs_current_started :: instant
  rs_buckets :: "outcome_bucket list"

record rolling_breaker =
  rk_config :: rolling_breaker_config
  rk_bucket_width :: duration
  rk_state :: rolling_state
  rk_random :: "64 word"
  rk_drop_sequence :: "64 word"

datatype breaker_mode = MConsecutive consecutive_state | MRolling rolling_breaker

record outcome_counters =
  oc_successes :: "64 word"
  oc_failures :: "64 word"
  oc_rejections :: "64 word"
  oc_cancellations :: "64 word"

record circuit_breaker =
  cb_config :: breaker_config
  cb_mode :: breaker_mode
  cb_counters :: outcome_counters

record breaker_snapshot =
  bs_accepted :: nat
  bs_total :: nat
  bs_drop_ratio :: f64
  bs_counters :: outcome_counters

fun consecutive_status :: "consecutive_state \<Rightarrow> breaker_state" where
  "consecutive_status (CClosed _) = Closed"
| "consecutive_status (COpen _) = Open"
| "consecutive_status (CHalfOpen _ _) = HalfOpen"

section \<open>The rolling policy\<close>

definition outcome_bucket_default :: outcome_bucket where
  "outcome_bucket_default = \<lparr>ob_accepted = 0, ob_total = 0\<rparr>"

text \<open>
  \<open>NEXT_SEED\<close> is a static: its value is passed in and the new value is returned.
\<close>

definition rolling_breaker_new ::
  "rolling_breaker_config \<Rightarrow> 64 word \<Rightarrow> instant \<Rightarrow> rolling_breaker \<times> 64 word" where
  "rolling_breaker_new c next_seed now =
     (\<lparr>rk_config = c,
       rk_bucket_width = max 1 (min u64_max (rc_window c div rc_buckets c)),
       rk_state = \<lparr>rs_current_started = now, rs_buckets = [outcome_bucket_default]\<rparr>,
       rk_random = (if rc_random_seed c = 0 then next_seed else rc_random_seed c),
       rk_drop_sequence = 0\<rparr>,
      if rc_random_seed c = 0 then next_seed + 0x9e3779b97f4a7c15 else next_seed)"

definition breaker_rotate ::
  "rolling_breaker_config \<times> duration \<Rightarrow> instant \<Rightarrow> rolling_state \<Rightarrow> rolling_state" where
  "breaker_rotate cw now s =
     (let n = rc_buckets (fst cw);
          q = (now - rs_current_started s) div snd cw;
          k = (if q < 2 ^ 64 then q else n) in
      if k = 0 then s
      else if n \<le> k
      then s\<lparr>rs_buckets := [outcome_bucket_default], rs_current_started := now\<rparr>
      else s\<lparr>rs_buckets := push_rounds n outcome_bucket_default k (rs_buckets s),
             rs_current_started := rs_current_started s + snd cw * (k mod 2 ^ 32)\<rparr>)"

definition bucket_outcome :: "circuit_outcome \<Rightarrow> outcome_bucket \<Rightarrow> outcome_bucket" where
  "bucket_outcome out b = b\<lparr>
     ob_total := sat_add u64_max (ob_total b) 1,
     ob_accepted := (if out = Success then sat_add u64_max (ob_accepted b) 1 else ob_accepted b)\<rparr>"

abbreviation rk_ring :: "rolling_breaker \<Rightarrow> rolling_breaker_config \<times> duration" where
  "rk_ring r \<equiv> (rk_config r, rk_bucket_width r)"

definition rolling_breaker_record :: "circuit_outcome \<Rightarrow> instant \<Rightarrow> rolling_breaker \<Rightarrow> rolling_breaker" where
  "rolling_breaker_record out now r =
     (if out = Cancellation then r
      else let s = breaker_rotate (rk_ring r) now (rk_state r) in
        r\<lparr>rk_state := s\<lparr>rs_buckets := update_last (bucket_outcome out) (rs_buckets s)\<rparr>\<rparr>)"

definition history_ratio :: "rolling_breaker_config \<Rightarrow> nat \<Rightarrow> nat \<Rightarrow> f64" where
  "history_ratio c accepted tot =
     (let unprotected = f_nat (tot - rc_minimum_requests c);
          weighted_accepted = f_mul (rc_sensitivity c) (f_nat accepted) in
      f_max (f_div (f_sub unprotected weighted_accepted) (f_add (f_nat tot) (Fin 1))) (Fin 0))"

definition history_totals :: "outcome_bucket list \<Rightarrow> nat \<times> nat" where
  "history_totals bs =
     foldl (\<lambda>sum b. (sat_add u64_max (fst sum) (ob_accepted b), sat_add u64_max (snd sum) (ob_total b)))
       (0, 0) bs"

definition rolling_history :: "instant \<Rightarrow> rolling_breaker \<Rightarrow> (nat \<times> nat \<times> f64) \<times> rolling_breaker" where
  "rolling_history now r =
     (let s = breaker_rotate (rk_ring r) now (rk_state r);
          (accepted, tot) = history_totals (rs_buckets s) in
      ((accepted, tot, history_ratio (rk_config r) accepted tot), r\<lparr>rk_state := s\<rparr>))"

text \<open>The successful iteration of the compare-and-exchange loop; a failed one changes nothing.\<close>

definition xorshift :: "64 word \<Rightarrow> 64 word" where
  "xorshift current =
     (let a = current XOR push_bit 13 current;
          b = a XOR drop_bit 7 a;
          c = b XOR push_bit 17 b in
      max c 1)"

definition random_unit :: "rolling_breaker \<Rightarrow> f64 \<times> rolling_breaker" where
  "random_unit r =
     (let next = xorshift (rk_random r) in
      (f_mul (f_nat (unat (drop_bit 11 next))) (f_div (Fin 1) (Fin 9007199254740992)),
       r\<lparr>rk_random := next\<rparr>))"

definition should_drop :: "instant \<Rightarrow> rolling_breaker \<Rightarrow> bool \<times> rolling_breaker" where
  "should_drop now r =
     (let ((_, _, ratio), r1) = rolling_history now r in
      if f_le ratio (Fin 0) then (False, r1)
      else
        let sequence = rk_drop_sequence r1 + 1;
            r2 = r1\<lparr>rk_drop_sequence := sequence\<rparr> in
        if unat sequence mod rc_probe_interval (rk_config r2) = 0 then (False, r2)
        else let (u, r3) = random_unit r2 in (f_lt u ratio, r3))"

section \<open>The breaker\<close>

definition outcome_counters_default :: outcome_counters where
  "outcome_counters_default =
     \<lparr>oc_successes = 0, oc_failures = 0, oc_rejections = 0, oc_cancellations = 0\<rparr>"

definition circuit_breaker_new ::
  "breaker_config \<Rightarrow> 64 word \<Rightarrow> instant \<Rightarrow> (circuit_breaker \<times> 64 word) option" where
  "circuit_breaker_new c next_seed now =
     (case bc_policy c of
        Consecutive \<Rightarrow>
          Some (\<lparr>cb_config = c, cb_mode = MConsecutive (CClosed 0),
                 cb_counters = outcome_counters_default\<rparr>, next_seed)
      | Rolling rc \<Rightarrow>
          if rolling_validate rc
          then let (r, seed) = rolling_breaker_new rc next_seed now in
            Some (\<lparr>cb_config = c, cb_mode = MRolling r, cb_counters = outcome_counters_default\<rparr>, seed)
          else None)"

definition breaker_state_of :: "instant \<Rightarrow> circuit_breaker \<Rightarrow> breaker_state \<times> circuit_breaker" where
  "breaker_state_of now b =
     (case cb_mode b of
        MConsecutive s \<Rightarrow> (consecutive_status s, b)
      | MRolling r \<Rightarrow>
          let ((_, _, ratio), r') = rolling_history now r in
          (if f_lt (Fin 0) ratio then Open else Closed, b\<lparr>cb_mode := MRolling r'\<rparr>))"

definition breaker_snapshot_of :: "instant \<Rightarrow> circuit_breaker \<Rightarrow> breaker_snapshot \<times> circuit_breaker" where
  "breaker_snapshot_of now b =
     (let ((accepted, tot, ratio), b') =
        (case cb_mode b of
           MConsecutive _ \<Rightarrow> ((0, 0, Fin 0), b)
         | MRolling r \<Rightarrow> let (h, r') = rolling_history now r in (h, b\<lparr>cb_mode := MRolling r'\<rparr>)) in
      (\<lparr>bs_accepted = accepted, bs_total = tot, bs_drop_ratio = ratio, bs_counters = cb_counters b\<rparr>, b'))"

definition before_consecutive :: "breaker_config \<Rightarrow> instant \<Rightarrow> consecutive_state \<Rightarrow> bool \<times> consecutive_state" where
  "before_consecutive c now s =
     (let probe = (\<lambda>s. case s of
         CHalfOpen a k \<Rightarrow> if bc_half_open_max_calls c \<le> a then (False, s) else (True, CHalfOpen (a + 1) k)
       | _ \<Rightarrow> (True, s)) in
      case s of
        COpen t0 \<Rightarrow> if now - t0 < bc_reset_timeout c then (False, s) else probe (CHalfOpen 0 0)
      | _ \<Rightarrow> probe s)"

definition before_call :: "instant \<Rightarrow> circuit_breaker \<Rightarrow> bool \<times> circuit_breaker" where
  "before_call now b =
     (let (admitted, b1) =
        (case cb_mode b of
           MConsecutive s \<Rightarrow>
             let (ok, s') = before_consecutive (cb_config b) now s in (ok, b\<lparr>cb_mode := MConsecutive s'\<rparr>)
         | MRolling r \<Rightarrow>
             let (drop, r') = should_drop now r in (\<not> drop, b\<lparr>cb_mode := MRolling r'\<rparr>)) in
      if admitted then (True, b1)
      else (False, b1\<lparr>cb_counters :=
        (cb_counters b1)\<lparr>oc_rejections := oc_rejections (cb_counters b1) + 1\<rparr>\<rparr>))"

definition record_consecutive ::
  "breaker_config \<Rightarrow> instant \<Rightarrow> circuit_outcome \<Rightarrow> consecutive_state \<Rightarrow> consecutive_state" where
  "record_consecutive c now out s =
     (case out of
        Success \<Rightarrow>
          (case s of
             CClosed _ \<Rightarrow> CClosed 0
           | COpen t0 \<Rightarrow> s
           | CHalfOpen a k \<Rightarrow>
               if k + 1 = bc_half_open_max_calls c then CClosed 0 else CHalfOpen a (k + 1))
      | Failure \<Rightarrow>
          (case s of
             CClosed f \<Rightarrow> if bc_max_failures c \<le> f + 1 then COpen now else CClosed (f + 1)
           | COpen t0 \<Rightarrow> s
           | CHalfOpen _ _ \<Rightarrow> COpen now)
      | Cancellation \<Rightarrow>
          (case s of
             CHalfOpen a k \<Rightarrow> CHalfOpen (a - 1) k
           | _ \<Rightarrow> s))"

definition count_outcome :: "circuit_outcome \<Rightarrow> outcome_counters \<Rightarrow> outcome_counters" where
  "count_outcome out k =
     (case out of
        Success \<Rightarrow> k\<lparr>oc_successes := oc_successes k + 1\<rparr>
      | Failure \<Rightarrow> k\<lparr>oc_failures := oc_failures k + 1\<rparr>
      | Cancellation \<Rightarrow> k\<lparr>oc_cancellations := oc_cancellations k + 1\<rparr>)"

definition record_outcome :: "instant \<Rightarrow> circuit_outcome \<Rightarrow> circuit_breaker \<Rightarrow> circuit_breaker" where
  "record_outcome now out b =
     b\<lparr>cb_counters := count_outcome out (cb_counters b),
       cb_mode := (case cb_mode b of
          MConsecutive s \<Rightarrow> MConsecutive (record_consecutive (cb_config b) now out s)
        | MRolling r \<Rightarrow> MRolling (rolling_breaker_record out now r))\<rparr>"

text \<open>
  \<open>CompletionGuard\<close> and \<open>CircuitBreakerPermit\<close> hold the flag \<open>finished\<close>; both record the outcome in
  \<open>finish\<close> and a cancellation in \<open>drop\<close> when the flag is still false.
\<close>

type_synonym guard = bool

definition guard_new :: guard where
  "guard_new = False"

definition guard_finish :: "instant \<Rightarrow> circuit_outcome \<Rightarrow> guard \<times> circuit_breaker \<Rightarrow> guard \<times> circuit_breaker" where
  "guard_finish now out gb = (True, record_outcome now out (snd gb))"

definition guard_drop :: "instant \<Rightarrow> guard \<times> circuit_breaker \<Rightarrow> circuit_breaker" where
  "guard_drop now gb = (if fst gb then snd gb else record_outcome now Cancellation (snd gb))"

definition acquire :: "instant \<Rightarrow> circuit_breaker \<Rightarrow> guard option \<times> circuit_breaker" where
  "acquire now b =
     (let (ok, b') = before_call now b in if ok then (Some guard_new, b') else (None, b'))"

definition permit_finish :: "instant \<Rightarrow> bool \<Rightarrow> guard \<times> circuit_breaker \<Rightarrow> circuit_breaker" where
  "permit_finish now acceptable gb =
     guard_drop now (guard_finish now (if acceptable then Success else Failure) gb)"

datatype 'e breaker_error = BreakerOpen | Operation 'e

text \<open>
  \<open>execute_with_outcome\<close> with the operation's behaviour as an argument: \<^term>\<open>Some r\<close> when it
  returns \<open>r\<close>, \<^term>\<open>None\<close> when it panics or its future is dropped, so that only the guard's
  \<open>drop\<close> runs and no result is returned. \<open>other\<close> is what other callers do to the breaker while the
  operation runs.
\<close>

definition execute_with_outcome ::
  "instant \<Rightarrow> instant \<Rightarrow> (circuit_breaker \<Rightarrow> circuit_breaker) \<Rightarrow> ('e + 't) option \<Rightarrow>
   ('e + 't \<Rightarrow> circuit_outcome) \<Rightarrow> circuit_breaker \<Rightarrow>
   ('e breaker_error + 't) option \<times> circuit_breaker" where
  "execute_with_outcome t1 t2 other result outcome b =
     (let (ok, b1) = before_call t1 b in
      if \<not> ok then (Some (Inl BreakerOpen), b1)
      else
        let b2 = other b1 in
        case result of
          None \<Rightarrow> (None, guard_drop t2 (guard_new, b2))
        | Some r \<Rightarrow>
            (Some (case r of Inl e \<Rightarrow> Inl (Operation e) | Inr v \<Rightarrow> Inr v),
             guard_drop t2 (guard_finish t2 (outcome r) (guard_new, b2))))"

definition execute_with_accept ::
  "instant \<Rightarrow> instant \<Rightarrow> (circuit_breaker \<Rightarrow> circuit_breaker) \<Rightarrow> ('e + 't) option \<Rightarrow>
   ('e + 't \<Rightarrow> bool) \<Rightarrow> circuit_breaker \<Rightarrow> ('e breaker_error + 't) option \<times> circuit_breaker" where
  "execute_with_accept t1 t2 other result acceptable b =
     execute_with_outcome t1 t2 other result (\<lambda>r. if acceptable r then Success else Failure) b"

definition execute ::
  "instant \<Rightarrow> instant \<Rightarrow> (circuit_breaker \<Rightarrow> circuit_breaker) \<Rightarrow> ('e + 't) option \<Rightarrow>
   circuit_breaker \<Rightarrow> ('e breaker_error + 't) option \<times> circuit_breaker" where
  "execute t1 t2 other result b =
     execute_with_accept t1 t2 other result (\<lambda>r. case r of Inl _ \<Rightarrow> False | Inr _ \<Rightarrow> True) b"

section \<open>Runs of the consecutive policy\<close>

lemmas consecutive_defs = before_consecutive_def record_consecutive_def

text \<open>
  Runs with the number of calls in flight: a call that was admitted completes once, at any later
  time, with any outcome.
\<close>

inductive breaker_run :: "breaker_config \<Rightarrow> circuit_breaker \<Rightarrow> nat \<Rightarrow> bool" for c where
  start: "circuit_breaker_new c seed now = Some (b, seed') \<Longrightarrow> breaker_run c b 0"
| admit: "breaker_run c b n \<Longrightarrow> before_call now b = (True, b') \<Longrightarrow> breaker_run c b' (Suc n)"
| reject: "breaker_run c b n \<Longrightarrow> before_call now b = (False, b') \<Longrightarrow> breaker_run c b' n"
| complete: "breaker_run c b (Suc n) \<Longrightarrow> breaker_run c (record_outcome now out b) n"

text \<open>
  Half-open bookkeeping: the counted attempts are covered by calls in flight and successes, and the
  successes stay below the number that closes the circuit. The failure count stays below the
  threshold, so none of the 32-bit counters overflows.
\<close>

definition consecutive_inv :: "breaker_config \<Rightarrow> consecutive_state \<Rightarrow> nat \<Rightarrow> bool" where
  "consecutive_inv c s n \<longleftrightarrow>
     (case s of
        CClosed f \<Rightarrow> f < max 1 (bc_max_failures c)
      | COpen _ \<Rightarrow> True
      | CHalfOpen a k \<Rightarrow> a \<le> n + k \<and> a \<le> bc_half_open_max_calls c \<and> k < bc_half_open_max_calls c)"

lemma consecutive_inv_before:
  "consecutive_inv c s n \<Longrightarrow> 0 < bc_half_open_max_calls c \<Longrightarrow> before_consecutive c now s = (ok, s') \<Longrightarrow>
   consecutive_inv c s' (if ok then Suc n else n)"
  by (auto simp: consecutive_inv_def before_consecutive_def Let_def
      split: consecutive_state.splits if_splits)

lemma consecutive_inv_record:
  "consecutive_inv c s (Suc n) \<Longrightarrow> consecutive_inv c (record_consecutive c now out s) n"
  by (auto simp: consecutive_inv_def record_consecutive_def
      split: consecutive_state.splits circuit_outcome.splits if_splits)

definition breaker_inv :: "breaker_config \<Rightarrow> circuit_breaker \<Rightarrow> nat \<Rightarrow> bool" where
  "breaker_inv c b n \<longleftrightarrow> cb_config b = c \<and>
     (case bc_policy c of
        Consecutive \<Rightarrow> (\<exists>s. cb_mode b = MConsecutive s \<and> consecutive_inv c s n)
      | Rolling rc \<Rightarrow> (\<exists>r. cb_mode b = MRolling r \<and> rk_config r = rc))"

lemma rk_config_history: "rk_config (snd (rolling_history now r)) = rk_config r"
  by (simp add: rolling_history_def Let_def case_prod_beta)

lemma rk_config_should_drop: "rk_config (snd (should_drop now r)) = rk_config r"
  using rk_config_history [of now r]
  by (auto simp: should_drop_def random_unit_def Let_def case_prod_beta split: prod.splits)

lemma rk_config_record: "rk_config (rolling_breaker_record out now r) = rk_config r"
  by (simp add: rolling_breaker_record_def Let_def)

lemma before_call_simps:
  "cb_config (snd (before_call now b)) = cb_config b"
  "cb_mode b = MConsecutive s \<Longrightarrow> fst (before_call now b) = fst (before_consecutive (cb_config b) now s)"
  "cb_mode b = MConsecutive s \<Longrightarrow>
   cb_mode (snd (before_call now b)) = MConsecutive (snd (before_consecutive (cb_config b) now s))"
  "cb_mode b = MRolling r \<Longrightarrow> fst (before_call now b) = (\<not> fst (should_drop now r))"
  "cb_mode b = MRolling r \<Longrightarrow> cb_mode (snd (before_call now b)) = MRolling (snd (should_drop now r))"
  by (auto simp: before_call_def Let_def case_prod_beta split: breaker_mode.splits)

lemma breaker_inv_before:
  assumes inv: "breaker_inv c b n" and h: "0 < bc_half_open_max_calls c"
    and call: "before_call now b = (ok, b')"
  shows "breaker_inv c b' (if ok then Suc n else n)"
proof -
  have b': "ok = fst (before_call now b)" "b' = snd (before_call now b)" using call by simp_all
  show ?thesis
  proof (cases "bc_policy c")
    case Consecutive
    with inv obtain s where s: "cb_mode b = MConsecutive s" "consecutive_inv c s n" "cb_config b = c"
      by (auto simp: breaker_inv_def)
    then show ?thesis
      using Consecutive consecutive_inv_before [OF s(2) h surjective_pairing]
      by (simp add: breaker_inv_def b' before_call_simps)
  next
    case (Rolling rc)
    with inv show ?thesis
      by (auto simp: breaker_inv_def b' before_call_simps rk_config_should_drop)
  qed
qed

lemma breaker_inv_record:
  "breaker_inv c b (Suc n) \<Longrightarrow> breaker_inv c (record_outcome now out b) n"
  by (auto simp: breaker_inv_def record_outcome_def consecutive_inv_record rk_config_record
      split: breaker_policy.splits)

lemma breaker_inv_start: "circuit_breaker_new c seed now = Some (b, seed') \<Longrightarrow> breaker_inv c b 0"
  by (auto simp: circuit_breaker_new_def breaker_inv_def consecutive_inv_def rolling_breaker_new_def
      Let_def split: breaker_policy.splits if_splits)

lemma breaker_run_inv:
  "breaker_run c b n \<Longrightarrow> 0 < bc_half_open_max_calls c \<Longrightarrow> breaker_inv c b n"
proof (induction rule: breaker_run.induct)
  case (start seed now b seed')
  then show ?case by (simp add: breaker_inv_start)
next
  case (admit b n now b')
  then show ?case using breaker_inv_before [of c b n now True b'] by simp
next
  case (reject b n now b')
  then show ?case using breaker_inv_before [of c b n now False b'] by simp
next
  case (complete b n now out)
  then show ?case by (simp add: breaker_inv_record)
qed

text \<open>
  C1. The breaker does not get stuck. In every reachable state of a breaker with the consecutive
  policy in which no call is in flight, a call is admitted as soon as \<open>reset_timeout\<close> has passed
  since the circuit opened (at any time, when it is not open): cancelled and finished probes always
  give their half-open slots back.
\<close>

theorem breaker_never_stuck:
  assumes "breaker_run c b 0" and "bc_policy c = Consecutive" and "0 < bc_half_open_max_calls c"
  shows "\<exists>s. cb_mode b = MConsecutive s \<and>
    (fst (before_call now b) \<longleftrightarrow>
     (case s of COpen t0 \<Rightarrow> bc_reset_timeout c \<le> now - t0 | _ \<Rightarrow> True))"
proof -
  obtain s where s: "cb_mode b = MConsecutive s" "cb_config b = c" "consecutive_inv c s 0"
    using breaker_run_inv [OF assms(1,3)] assms(2) by (auto simp: breaker_inv_def)
  then have "fst (before_consecutive c now s) \<longleftrightarrow>
    (case s of COpen t0 \<Rightarrow> bc_reset_timeout c \<le> now - t0 | _ \<Rightarrow> True)"
    using assms(3)
    by (auto simp: before_consecutive_def consecutive_inv_def Let_def not_le split: consecutive_state.splits)
  with s show ?thesis by (auto simp: before_call_simps)
qed

theorem breaker_never_stuck_witness:
  "\<exists>b. breaker_run \<lparr>bc_max_failures = 1, bc_reset_timeout = 10, bc_half_open_max_calls = 1,
      bc_policy = Consecutive\<rparr> b 0 \<and> cb_mode b = MConsecutive (COpen 1) \<and>
    \<not> fst (before_call 10 b) \<and> fst (before_call 11 b)"
proof -
  let ?c = "\<lparr>bc_max_failures = 1, bc_reset_timeout = 10, bc_half_open_max_calls = 1,
      bc_policy = Consecutive\<rparr>"
  let ?start = "\<lparr>cb_config = ?c, cb_mode = MConsecutive (CClosed 0), cb_counters = outcome_counters_default\<rparr>"
  let ?b = "record_outcome 1 Failure ?start"
  have "circuit_breaker_new ?c 0 0 = Some (?start, 0)" by (simp add: circuit_breaker_new_def)
  then have "breaker_run ?c ?start 0" by (rule breaker_run.start)
  moreover have "before_call 0 ?start = (True, ?start)"
    by (simp add: before_call_def before_consecutive_def)
  ultimately have "breaker_run ?c ?start (Suc 0)" by (rule breaker_run.admit)
  then have run: "breaker_run ?c ?b 0" by (rule breaker_run.complete)
  have mode: "cb_mode ?b = MConsecutive (COpen 1)"
    by (simp add: record_outcome_def record_consecutive_def)
  show ?thesis
    using run mode breaker_never_stuck [OF run, of 10] breaker_never_stuck [OF run, of 11]
    by (intro exI [of _ ?b]) simp
qed

section \<open>When the circuit opens\<close>

definition record_sequence :: "breaker_config \<Rightarrow> (instant \<times> circuit_outcome) list \<Rightarrow> consecutive_state \<Rightarrow> consecutive_state" where
  "record_sequence c evs s = fold (\<lambda>(t, out). record_consecutive c t out) evs s"

lemma record_sequence_simps [simp]:
  "record_sequence c [] s = s"
  "record_sequence c ((t, out) # evs) s = record_sequence c evs (record_consecutive c t out s)"
  by (simp_all add: record_sequence_def)

lemma record_consecutive_open [simp]: "record_consecutive c now out (COpen t) = COpen t"
  by (simp add: record_consecutive_def split: circuit_outcome.splits)

lemma record_sequence_open: "record_sequence c evs (COpen t) = COpen t"
  by (induction evs) auto

lemma run_after_success:
  assumes "f < n"
  shows "(\<exists>ps qs. replicate f Failure @ Success # xs = ps @ replicate n Failure @ qs) \<longleftrightarrow>
    (\<exists>ps qs. xs = ps @ replicate n Failure @ qs)"
proof
  assume "\<exists>ps qs. replicate f Failure @ Success # xs = ps @ replicate n Failure @ qs"
  then obtain ps qs where eq: "replicate f Failure @ Success # xs = ps @ replicate n Failure @ qs"
    by blast
  have "f < length ps"
  proof (rule ccontr)
    assume short: "\<not> f < length ps"
    have "(replicate f Failure @ Success # xs) ! f = Success" by (simp add: nth_append)
    moreover have "(ps @ replicate n Failure @ qs) ! f = Failure"
      using short assms by (simp add: nth_append less_imp_diff_less)
    ultimately show False by (simp only: eq circuit_outcome.distinct)
  qed
  then have "drop (Suc f) (ps @ replicate n Failure @ qs) = drop (Suc f) ps @ replicate n Failure @ qs"
    by simp
  moreover have "drop (Suc f) (replicate f Failure @ Success # xs) = xs" by simp
  ultimately have "xs = drop (Suc f) ps @ replicate n Failure @ qs" by (simp only: eq)
  then show "\<exists>ps qs. xs = ps @ replicate n Failure @ qs" by blast
next
  assume "\<exists>ps qs. xs = ps @ replicate n Failure @ qs"
  then obtain ps qs where "xs = ps @ replicate n Failure @ qs" by blast
  then have "replicate f Failure @ Success # xs
      = (replicate f Failure @ Success # ps) @ replicate n Failure @ qs" by simp
  then show "\<exists>ps qs. replicate f Failure @ Success # xs = ps @ replicate n Failure @ qs" by blast
qed

lemma opens_iff_run:
  "f < n \<Longrightarrow> n = bc_max_failures c \<Longrightarrow>
   (consecutive_status (record_sequence c evs (CClosed f)) = Open) \<longleftrightarrow>
   (\<exists>ps qs. replicate f Failure @ filter (\<lambda>out. out \<noteq> Cancellation) (map snd evs)
      = ps @ replicate n Failure @ qs)"
proof (induction evs arbitrary: f)
  case Nil
  have "replicate f Failure \<noteq> ps @ replicate n Failure @ qs" for ps qs
    using Nil by (auto dest: arg_cong [where f = length])
  then show ?case by simp
next
  case (Cons e evs)
  obtain t out where e: "e = (t, out)" by (cases e)
  show ?case
  proof (cases out)
    case Success
    have "consecutive_status (record_sequence c (e # evs) (CClosed f)) = Open \<longleftrightarrow>
      (\<exists>ps qs. filter (\<lambda>out. out \<noteq> Cancellation) (map snd evs) = ps @ replicate n Failure @ qs)"
      using Cons.IH [of 0] Cons.prems by (simp add: e Success record_consecutive_def)
    with Success show ?thesis using run_after_success [OF Cons.prems(1)] by (simp add: e)
  next
    case Failure
    have shift: "replicate f Failure @ Failure # xs = replicate (Suc f) Failure @ xs" for xs
      by (simp add: replicate_app_Cons_same)
    show ?thesis
    proof (cases "n \<le> f + 1")
      case True
      then have n: "n = Suc f" using Cons.prems by simp
      have "\<exists>ps qs. replicate (Suc f) Failure @ xs = ps @ replicate n Failure @ qs" for xs
        by (rule exI [of _ "[]"], rule exI [of _ xs]) (simp add: n)
      with True Failure Cons.prems show ?thesis
        by (simp add: e record_consecutive_def record_sequence_open shift del: replicate_Suc)
    next
      case False
      then show ?thesis
        using Cons.IH [of "Suc f"] Cons.prems Failure
        by (simp add: e record_consecutive_def shift del: replicate_Suc)
    qed
  next
    case Cancellation
    then show ?thesis using Cons by (simp add: e record_consecutive_def)
  qed
qed

text \<open>
  From a closed circuit with no failures counted, a sequence of completions opens the circuit
  if and only if it contains \<open>max_failures\<close> failures in a row, cancellations not counted and not
  interrupting the row.
\<close>

theorem breaker_opens_iff:
  assumes "0 < bc_max_failures c"
  shows "consecutive_status (record_sequence c evs (CClosed 0)) = Open \<longleftrightarrow>
    (\<exists>ps qs. filter (\<lambda>out. out \<noteq> Cancellation) (map snd evs)
       = ps @ replicate (bc_max_failures c) Failure @ qs)"
  using opens_iff_run [OF assms refl, of evs] by simp

theorem breaker_opens_iff_witness:
  "\<exists>c. breaker_config_new 2 10 = Some c \<and>
     consecutive_status (record_sequence c [(1, Failure), (2, Cancellation), (3, Failure)] (CClosed 0)) = Open \<and>
     consecutive_status (record_sequence c [(1, Failure), (2, Success), (3, Failure)] (CClosed 0)) \<noteq> Open"
proof -
  define c where "c = \<lparr>bc_max_failures = 2, bc_reset_timeout = 10, bc_half_open_max_calls = 1,
      bc_policy = Consecutive\<rparr>"
  have pos: "0 < bc_max_failures c" by (simp add: c_def)
  have 1: "\<exists>ps qs. [Failure, Failure] = ps @ replicate 2 Failure @ qs"
    by (intro exI [of _ "[]"]) (simp add: numeral_2_eq_2)
  have 2: "\<not> (\<exists>ps qs. [Failure, Success, Failure] = ps @ replicate 2 Failure @ qs)"
    by (auto simp: numeral_2_eq_2 Cons_eq_append_conv)
  show ?thesis
    using breaker_opens_iff [OF pos, of "[(1, Failure), (2, Cancellation), (3, Failure)]"] 1
      breaker_opens_iff [OF pos, of "[(1, Failure), (2, Success), (3, Failure)]"] 2
    by (intro exI [of _ c]) (simp add: breaker_config_new_def c_def)
qed

section \<open>Sequences of calls and completions\<close>

datatype breaker_event = Call instant | Done instant circuit_outcome

fun breaker_drive :: "breaker_event list \<Rightarrow> circuit_breaker \<Rightarrow> bool list \<times> circuit_breaker" where
  "breaker_drive [] b = ([], b)"
| "breaker_drive (Call t # evs) b =
     (let (ok, b1) = before_call t b; (oks, b2) = breaker_drive evs b1 in (ok # oks, b2))"
| "breaker_drive (Done t out # evs) b = breaker_drive evs (record_outcome t out b)"

fun event_time :: "breaker_event \<Rightarrow> instant" where
  "event_time (Call t) = t"
| "event_time (Done t _) = t"

text \<open>
  While the circuit is open, every call made before \<open>opened_at + reset_timeout\<close> is rejected and
  the circuit stays open with the same \<open>opened_at\<close>, whatever calls complete meanwhile.
\<close>

theorem breaker_open_rejects:
  assumes "cb_mode b = MConsecutive (COpen t0)"
    and "\<forall>e \<in> set evs. event_time e < t0 + bc_reset_timeout (cb_config b)"
    and "0 < bc_reset_timeout (cb_config b)"
  shows "True \<notin> set (fst (breaker_drive evs b)) \<and>
    cb_mode (snd (breaker_drive evs b)) = MConsecutive (COpen t0)"
  using assms
proof (induction evs b rule: breaker_drive.induct)
  case (2 t evs b)
  let ?b = "snd (before_call t b)"
  have rej: "fst (before_call t b) = False"
    and same: "cb_mode ?b = MConsecutive (COpen t0)" "cb_config ?b = cb_config b"
    using "2.prems" by (auto simp: before_call_simps before_consecutive_def)
  have "True \<notin> set (fst (breaker_drive evs ?b)) \<and>
    cb_mode (snd (breaker_drive evs ?b)) = MConsecutive (COpen t0)"
    using "2.IH" [of "(False, ?b)" False ?b] "2.prems" same rej by (simp add: prod_eq_iff)
  with rej show ?case by (simp add: Let_def case_prod_beta)
next
  case (3 t out evs b)
  then show ?case by (simp add: record_outcome_def)
qed simp

theorem breaker_open_rejects_witness:
  "True \<notin> set (fst (breaker_drive [Call 5, Done 6 Success, Call 14]
    \<lparr>cb_config = \<lparr>bc_max_failures = 1, bc_reset_timeout = 10, bc_half_open_max_calls = 1, bc_policy = Consecutive\<rparr>,
     cb_mode = MConsecutive (COpen 5), cb_counters = outcome_counters_default\<rparr>))"
  using breaker_open_rejects [of "\<lparr>cb_config = \<lparr>bc_max_failures = 1, bc_reset_timeout = 10,
      bc_half_open_max_calls = 1, bc_policy = Consecutive\<rparr>,
     cb_mode = MConsecutive (COpen 5), cb_counters = outcome_counters_default\<rparr>" 5
     "[Call 5, Done 6 Success, Call 14]"]
  by simp

text \<open>
  A completion is not tied to the state its call was admitted in: with one half-open call
  allowed, the cancellation of a call that was admitted while the circuit was closed frees the slot
  of a probe that is still running, so two probes are in flight; its success closes the circuit
  before any probe has finished.
\<close>

theorem breaker_stale_completion:
  "\<exists>c b. breaker_config_new 1 10 = Some c \<and> bc_half_open_max_calls c = 1 \<and>
    circuit_breaker_new c 7 0 = Some (b, 7) \<and>
    (let prefix = [Call 0, Call 0, Done 1 Failure, Call 11];
         (oks, b1) = breaker_drive (prefix @ [Done 12 Cancellation, Call 12]) b;
         (_, b2) = breaker_drive (prefix @ [Done 12 Success]) b in
     oks = [True, True, True, True] \<and> cb_mode b1 = MConsecutive (CHalfOpen 1 0) \<and>
     cb_mode b2 = MConsecutive (CClosed 0))"
  by (simp add: breaker_config_new_def circuit_breaker_new_def before_call_def consecutive_defs
      record_outcome_def Let_def)

text \<open>
  Every admitted call reports exactly one outcome, after the operation has run: the
  classification of its result when it returns, a cancellation when it panics or its future is
  dropped; a rejected call does not run the operation, returns \<open>Open\<close> and counts one rejection.
\<close>

theorem execute_reports_once:
  "execute_with_outcome t1 t2 other result outcome b =
     (if fst (before_call t1 b)
      then (map_option (map_sum Operation id) result,
            record_outcome t2 (case result of None \<Rightarrow> Cancellation | Some r \<Rightarrow> outcome r)
              (other (snd (before_call t1 b))))
      else (Some (Inl BreakerOpen), snd (before_call t1 b))) \<and>
   oc_rejections (cb_counters (snd (before_call t1 b))) =
     oc_rejections (cb_counters b) + (if fst (before_call t1 b) then 0 else 1)"
  by (auto simp: execute_with_outcome_def guard_drop_def guard_finish_def guard_new_def before_call_def
      Let_def case_prod_beta split: option.splits sum.splits breaker_mode.splits)

section \<open>The rolling policy is a bucket ring\<close>

definition ring_good :: "rolling_breaker_config \<times> duration \<Rightarrow> bool" where
  "ring_good cw \<longleftrightarrow> 0 < rc_buckets (fst cw) \<and> rc_buckets (fst cw) \<le> 2 ^ 32 \<and> 0 < snd cw"

definition ring_add :: "circuit_outcome \<Rightarrow> rolling_state \<Rightarrow> rolling_state" where
  "ring_add out s = s\<lparr>rs_buckets := update_last (bucket_outcome out) (rs_buckets s)\<rparr>"

definition total_weight :: "circuit_outcome \<Rightarrow> nat" where
  "total_weight out = 1"

definition accepted_weight :: "circuit_outcome \<Rightarrow> nat" where
  "accepted_weight out = (if out = Success then 1 else 0)"

interpretation br: bucket_ring "rc_buckets \<circ> fst" snd ring_good
  rs_current_started rs_buckets breaker_rotate outcome_bucket_default
proof unfold_locales
  fix c :: "rolling_breaker_config \<times> duration" and s :: rolling_state and now k :: nat
  show "ring_good c \<Longrightarrow> 0 < (rc_buckets \<circ> fst) c \<and> 0 < snd c"
    by (simp add: ring_good_def)
  show "(now - rs_current_started s) div snd c = 0 \<Longrightarrow> breaker_rotate c now s = s"
    by (simp add: breaker_rotate_def)
  show "ring_good c \<Longrightarrow> (rc_buckets \<circ> fst) c \<le> (now - rs_current_started s) div snd c \<Longrightarrow>
    rs_buckets (breaker_rotate c now s) = [outcome_bucket_default] \<and>
    rs_current_started (breaker_rotate c now s) = now"
    by (auto simp: breaker_rotate_def ring_good_def Let_def)
  assume g: "ring_good c" and k: "k = (now - rs_current_started s) div snd c"
    "0 < k" "k < (rc_buckets \<circ> fst) c" and len: "length (rs_buckets s) \<le> (rc_buckets \<circ> fst) c"
  have small: "k < 2 ^ 32" "k < 2 ^ 64" using g k(3) by (simp_all add: ring_good_def)
  then show "rs_buckets (breaker_rotate c now s) =
      drop (length (rs_buckets s) + k - (rc_buckets \<circ> fst) c)
        (rs_buckets s @ replicate k outcome_bucket_default) \<and>
    rs_current_started (breaker_rotate c now s) = rs_current_started s + k * snd c"
    using g k len by (auto simp: breaker_rotate_def push_rounds_eq Let_def ring_good_def)
qed

lemma ring_add_simps [simp]:
  "rs_current_started (ring_add out s) = rs_current_started s"
  "rs_buckets (ring_add out s) = update_last (bucket_outcome out) (rs_buckets s)"
  by (simp_all add: ring_add_def)

interpretation brt: bucket_counter "rc_buckets \<circ> fst" snd ring_good
  rs_current_started rs_buckets breaker_rotate outcome_bucket_default
  ob_total total_weight ring_add u64_max
  by unfold_locales
    (auto simp: outcome_bucket_default_def bucket_outcome_def total_weight_def sat_simps)

interpretation bra: bucket_counter "rc_buckets \<circ> fst" snd ring_good
  rs_current_started rs_buckets breaker_rotate outcome_bucket_default
  ob_accepted accepted_weight ring_add u64_max
  by unfold_locales
    (auto simp: outcome_bucket_default_def bucket_outcome_def accepted_weight_def sat_simps)

lemma foldl_history:
  "a + sum_list (map ob_accepted bs) \<le> u64_max \<Longrightarrow> t + sum_list (map ob_total bs) \<le> u64_max \<Longrightarrow>
   foldl (\<lambda>sum b. (sat_add u64_max (fst sum) (ob_accepted b), sat_add u64_max (snd sum) (ob_total b)))
     (a, t) bs = (a + sum_list (map ob_accepted bs), t + sum_list (map ob_total bs))"
  by (induction bs arbitrary: a t) (simp_all add: sat_simps)

lemma history_totals_exact:
  "bra.total s \<le> u64_max \<Longrightarrow> brt.total s \<le> u64_max \<Longrightarrow>
   history_totals (rs_buckets s) = (bra.total s, brt.total s)"
  by (simp add: history_totals_def foldl_history bra.total_def brt.total_def)

text \<open>Recording a sequence of completions in the rolling policy.\<close>

definition rolling_record_sequence ::
  "(instant \<times> circuit_outcome) list \<Rightarrow> rolling_breaker \<Rightarrow> rolling_breaker" where
  "rolling_record_sequence evs r = fold (\<lambda>(t, out). rolling_breaker_record out t) evs r"

definition observed :: "(instant \<times> circuit_outcome) list \<Rightarrow> (instant \<times> circuit_outcome) list" where
  "observed evs = filter (\<lambda>e. snd e \<noteq> Cancellation) evs"

lemma rolling_breaker_record_eq:
  "rolling_breaker_record out t r =
   (if out = Cancellation then r
    else r\<lparr>rk_state := ring_add out (breaker_rotate (rk_ring r) t (rk_state r))\<rparr>)"
  by (simp add: rolling_breaker_record_def ring_add_def Let_def)

lemma rolling_record_sequence_eq:
  "rolling_record_sequence evs r =
   r\<lparr>rk_state := brt.record_all (rk_ring r) (observed evs) (rk_state r)\<rparr>"
proof (induction evs arbitrary: r)
  case (Cons e evs)
  then show ?case
    by (cases e) (simp add: rolling_record_sequence_def rolling_breaker_record_eq brt.record_all_def
        observed_def)
qed (simp add: rolling_record_sequence_def brt.record_all_def observed_def)

lemma log_sum_weigh:
  "log_sum P (brt.weigh evs) = length (filter (\<lambda>e. P (fst e)) evs)"
  "log_sum P (bra.weigh evs) = length (filter (\<lambda>e. P (fst e) \<and> snd e = Success) evs)"
  unfolding brt.weigh_def bra.weigh_def
  by (induction evs) (auto simp: total_weight_def accepted_weight_def)

lemma weights_le:
  "sum_list (map (total_weight \<circ> snd) evs) = length evs"
  "sum_list (map (accepted_weight \<circ> snd) evs) \<le> length evs"
  by (induction evs) (auto simp: total_weight_def accepted_weight_def)


section \<open>The drop ratio and the generator\<close>

lemma mk_cases:
  obtains (fin) "mk x = Fin (fl x)" | (inf) "mk x = Inf (x < 0)" "2 ^ 1000 < \<bar>x\<bar>"
proof (cases "\<bar>x\<bar> \<le> 2 ^ 1000")
  case True
  then show thesis by (rule fin [OF mk_fin])
next
  case False
  then show thesis using fin inf unfolding mk_def not_le by (metis (full_types))
qed

lemma f_max_zero:
  "f_max (mk x) (Fin 0) = (if x \<le> 0 then Fin 0 else f_max (mk x) (Fin 0))"
  by (cases x rule: mk_cases) (auto simp: f_max_def dest: fl_mono [of x 0])

lemma div_ratio:
  assumes u: "fl u = u" "0 \<le> u" "u \<le> d" and d: "1 \<le> d" "d \<le> 2 ^ 65" and x: "x \<le> u"
  shows "\<exists>r. f_max (f_div (mk x) (Fin d)) (Fin 0) = Fin r \<and> 0 \<le> r \<and> r \<le> 1 \<and> (x \<le> 0 \<longrightarrow> r = 0)"
proof (cases x rule: mk_cases)
  case fin
  have y: "fl x \<le> u" using u(1) x by (rule fl_le_exact)
  then have le: "fl x / d \<le> 1" using u d by simp
  have fl1: "fl 1 = 1" using fl_of_int [of 1] by simp
  show ?thesis
  proof (cases "x \<le> 0")
    case True
    then have "fl x / d \<le> 0" using fl_mono [of x 0] d by (simp add: divide_le_0_iff)
    then show ?thesis
      using d f_max_zero [of "fl x / d"] by (simp add: fin)
  next
    case False
    then have "0 \<le> fl x" by (simp add: fl_nonneg)
    then have "0 \<le> fl x / d" using d by simp
    moreover from this le have "mk (fl x / d) = Fin (fl (fl x / d))"
      by (intro mk_fin_pow [of 0]) simp_all
    moreover have "fl (fl x / d) \<le> 1" using fl1 le by (rule fl_le_exact)
    ultimately show ?thesis
      using d False fl_nonneg [of "fl x / d"] by (auto simp: fin f_max_def)
  qed
next
  case inf
  have "x < 0"
  proof (rule ccontr)
    assume "\<not> x < 0"
    then have "\<bar>x\<bar> \<le> 2 ^ 65" using x u d by simp
    also have "(2::rat) ^ 65 \<le> 2 ^ 1000" by (rule power_increasing) simp_all
    finally show False using inf by simp
  qed
  with inf d show ?thesis by (simp add: f_max_def)
qed

lemma f_nat_u64:
  assumes "n \<le> u64_max"
  shows "f_nat n = Fin (fl (of_nat n)) \<and> 0 \<le> fl (of_nat n :: rat) \<and> fl (of_nat n :: rat) \<le> 2 ^ 64"
proof -
  have "n \<le> 2 ^ 64" using assms by (simp add: u64_max_def)
  from f_nat_bounds [OF this] show ?thesis
    by (auto simp: f_nat_def mk_def split: if_splits)
qed

lemma history_ratio_bounds:
  assumes c: "rolling_validate c" and le: "accepted \<le> u64_max" "tot \<le> u64_max"
  shows "\<exists>x. history_ratio c accepted tot = Fin x \<and> 0 \<le> x \<and> x \<le> 1 \<and>
    (tot \<le> rc_minimum_requests c \<longrightarrow> x = 0) \<and>
    (f_le (Fin 1) (rc_sensitivity c) \<and> tot - rc_minimum_requests c \<le> accepted \<longrightarrow> x = 0)"
proof -
  define u :: rat where "u = fl (of_nat (tot - rc_minimum_requests c))"
  define t :: rat where "t = fl (of_nat tot)"
  define a :: rat where "a = fl (of_nat accepted)"
  obtain s where s: "rc_sensitivity c = Fin s" "0 < s"
    using c by (cases "rc_sensitivity c") (auto simp: rolling_validate_def f_finite_def)
  have u: "f_nat (tot - rc_minimum_requests c) = Fin u" "0 \<le> u" "u \<le> 2 ^ 64" "fl u = u"
    using f_nat_u64 [of "tot - rc_minimum_requests c"] le by (simp_all add: u_def)
  have t: "f_nat tot = Fin t" "0 \<le> t" "t \<le> 2 ^ 64" "fl t = t"
    using f_nat_u64 [of tot] le by (simp_all add: t_def)
  have a: "f_nat accepted = Fin a" "0 \<le> a" "fl a = a"
    using f_nat_u64 [of accepted] le by (simp_all add: a_def)
  have ut: "u \<le> t" unfolding u_def t_def by (intro fl_mono) simp
  have fl1: "fl 1 = 1" using fl_of_int [of 1] by simp
  define d where "d = fl (t + 1)"
  have t1: "\<bar>t + 1\<bar> \<le> 2 ^ 65" using t by simp
  have d: "f_add (f_nat tot) (Fin 1) = Fin d" "t \<le> d" "1 \<le> d" "d \<le> 2 ^ 65"
    using mk_fin_pow [OF _ t1] fl_ge_exact [OF t(4), of "t + 1"] fl_ge_exact [OF fl1, of "t + 1"] t
      fl_bound [of "t + 1" 65] t1
    by (simp_all add: d_def)
  have res: "history_ratio c accepted tot = f_max (f_div (f_sub (Fin u) (f_mul (Fin s) (Fin a))) (Fin d)) (Fin 0)"
    using d u a s by (simp add: history_ratio_def Let_def)
  show ?thesis
  proof (cases "s * a" rule: mk_cases)
    case fin
    define w where "w = fl (s * a)"
    have w: "0 \<le> w" using s a by (simp add: w_def fl_nonneg)
    have res': "history_ratio c accepted tot = f_max (f_div (mk (u - w)) (Fin d)) (Fin 0)"
      using fin by (simp add: res f_sub_def w_def)
    have "u \<le> d" using ut d by simp
    from div_ratio [OF u(4,2) this d(3,4), of "u - w"] w
    obtain x where x: "history_ratio c accepted tot = Fin x" "0 \<le> x" "x \<le> 1" "u - w \<le> 0 \<longrightarrow> x = 0"
      using res' by auto
    moreover have "u - w \<le> 0" if "tot \<le> rc_minimum_requests c"
      using that w by (simp add: u_def)
    moreover have "u - w \<le> 0"
      if "f_le (Fin 1) (rc_sensitivity c) \<and> tot - rc_minimum_requests c \<le> accepted"
    proof -
      have "1 \<le> s" using that s by (auto simp: f_le_def)
      then have "a \<le> s * a" using a by (simp add: mult_le_cancel_right1)
      then have "a \<le> w" unfolding w_def by (intro fl_ge_exact a)
      moreover have "u \<le> a" using that unfolding u_def a_def by (intro fl_mono) simp
      ultimately show ?thesis by simp
    qed
    ultimately show ?thesis by auto
  next
    case inf
    then have "mk (s * a) = Inf False" using s a by (simp add: not_less)
    then show ?thesis using d by (auto simp: res f_sub_def f_max_def)
  qed
qed

lemma history_totals_le:
  "fst (history_totals bs) \<le> u64_max" "snd (history_totals bs) \<le> u64_max"
proof -
  have "fst (foldl (\<lambda>sum b. (sat_add u64_max (fst sum) (ob_accepted b), sat_add u64_max (snd sum) (ob_total b)))
      (x, y) bs) \<le> u64_max \<and> snd (foldl (\<lambda>sum b. (sat_add u64_max (fst sum) (ob_accepted b),
      sat_add u64_max (snd sum) (ob_total b))) (x, y) bs) \<le> u64_max"
    if "x \<le> u64_max" "y \<le> u64_max" for x y
    using that by (induction bs arbitrary: x y) (auto simp: sat_simps)
  from this [of 0 0] show "fst (history_totals bs) \<le> u64_max" "snd (history_totals bs) \<le> u64_max"
    by (simp_all add: history_totals_def)
qed

text \<open>
  The drop ratio, computed in \<open>f64\<close>, is a number between 0 and 1 whatever was recorded, with no
  overflow and no NaN; it is 0, so that no call is rejected, as long as at most \<open>minimum_requests\<close>
  completions are in the window, and also when the sensitivity is at least 1 and at most
  \<open>minimum_requests\<close> of the completions in the window failed.
\<close>

theorem rolling_drop_ratio:
  assumes "rolling_validate (rk_config r)"
  shows "case fst (rolling_history now r) of (accepted, tot, ratio) \<Rightarrow>
     (\<exists>x. ratio = Fin x \<and> 0 \<le> x \<and> x \<le> 1) \<and>
     (tot \<le> rc_minimum_requests (rk_config r) \<or>
      f_le (Fin 1) (rc_sensitivity (rk_config r)) \<and> tot - accepted \<le> rc_minimum_requests (rk_config r)
      \<longrightarrow> ratio = Fin 0 \<and> \<not> fst (should_drop now r))"
proof -
  let ?h = "history_totals (rs_buckets (breaker_rotate (rk_ring r) now (rk_state r)))"
  obtain x where x: "history_ratio (rk_config r) (fst ?h) (snd ?h) = Fin x" "0 \<le> x" "x \<le> 1"
    "snd ?h \<le> rc_minimum_requests (rk_config r) \<longrightarrow> x = 0"
    "f_le (Fin 1) (rc_sensitivity (rk_config r)) \<and>
     snd ?h - rc_minimum_requests (rk_config r) \<le> fst ?h \<longrightarrow> x = 0"
    using history_ratio_bounds [OF assms history_totals_le, of "rs_buckets (breaker_rotate (rk_ring r) now (rk_state r))"
        "rs_buckets (breaker_rotate (rk_ring r) now (rk_state r))"]
    by blast
  have hist: "rolling_history now r = ((fst ?h, snd ?h, Fin x),
      r\<lparr>rk_state := breaker_rotate (rk_ring r) now (rk_state r)\<rparr>)"
    using x(1) by (simp add: rolling_history_def Let_def case_prod_beta)
  have "\<not> fst (should_drop now r)" if "x = 0"
    using that hist by (simp add: should_drop_def f_le_def)
  moreover have "x = 0" if "f_le (Fin 1) (rc_sensitivity (rk_config r))"
    "snd ?h - fst ?h \<le> rc_minimum_requests (rk_config r)"
    using x(5) that by (simp add: le_diff_conv add.commute)
  ultimately show ?thesis using x(2-4) hist by auto
qed

lemma random_unit_bounds:
  "\<exists>x. fst (random_unit r) = Fin x \<and> 0 \<le> x \<and> x < 1 \<and> rk_random (snd (random_unit r)) \<noteq> 0"
proof -
  let ?w = "xorshift (rk_random r)"
  define n where "n = unat (drop_bit 11 ?w)"
  have n: "n < 2 ^ 53"
  proof -
    have "n = unat ?w div 2 ^ 11"
      by (simp only: n_def unat_drop_bit_eq drop_bit_eq_div [of 11 "unat _"])
    also have "\<dots> < 2 ^ 53"
      using unsigned_less [of ?w, where 'a = nat] by (intro less_mult_imp_div_less) simp
    finally show ?thesis .
  qed
  have unit: "f_div (Fin 1) (Fin 9007199254740992) = Fin (1 / 9007199254740992)"
    using mk_fin_pow [of 0 "1 / 9007199254740992"] fl_exact [of "1 / 9007199254740992" 1 "-53"]
    by (simp add: power_int_minus inverse_eq_divide)
  let ?x = "of_nat n * (1 / 9007199254740992) :: rat"
  have "(of_nat n :: rat) < of_nat (2 ^ 53)" using n by (simp only: of_nat_less_iff)
  then have lt: "?x < 1" by simp
  have "int n < 2 ^ 53" using n by simp
  then have "fl ?x = ?x"
    using fl_exact [of ?x "int n" "-53"] by (simp add: power_int_minus inverse_eq_divide)
  moreover have "mk ?x = Fin (fl ?x)" using lt by (intro mk_fin_pow [of 0]) simp_all
  ultimately have "f_mul (Fin (of_nat n)) (Fin (1 / 9007199254740992)) = Fin ?x"
    by (simp only: f_mul.simps)
  then have "fst (random_unit r) = Fin ?x"
    by (simp only: random_unit_def Let_def fst_conv n_def [symmetric] f_nat_exact [OF n] unit)
  moreover have "max c 1 \<noteq> (0 :: 64 word)" for c by (auto simp: max_def)
  then have "?w \<noteq> 0" by (simp only: xorshift_def Let_def not_False_eq_True)
  then have "rk_random (snd (random_unit r)) \<noteq> 0" by (simp add: random_unit_def Let_def)
  moreover have "0 \<le> ?x" by simp
  ultimately show ?thesis using lt by blast
qed

section \<open>Probe traffic\<close>

lemma rejected_call:
  assumes "cb_mode b = MRolling r" "\<not> fst (before_call t b)"
  shows "\<exists>r'. cb_mode (snd (before_call t b)) = MRolling r' \<and> rk_config r' = rk_config r \<and>
    rk_drop_sequence r' = rk_drop_sequence r + 1 \<and>
    unat (rk_drop_sequence r + 1) mod rc_probe_interval (rk_config r) \<noteq> 0"
proof -
  have rej: "fst (should_drop t r)" using assms by (simp add: before_call_simps)
  have keep: "rk_drop_sequence (snd (rolling_history t r)) = rk_drop_sequence r"
    "rk_config (snd (rolling_history t r)) = rk_config r"
    by (simp_all add: rolling_history_def Let_def case_prod_beta)
  have "rk_drop_sequence (snd (should_drop t r)) = rk_drop_sequence r + 1 \<and>
    unat (rk_drop_sequence r + 1) mod rc_probe_interval (rk_config r) \<noteq> 0"
    using rej keep
    by (auto simp: should_drop_def random_unit_def Let_def case_prod_beta split: if_splits)
  then show ?thesis using assms(1) by (simp add: before_call_simps rk_config_should_drop)
qed

text \<open>A run without an admitted call counts every call in \<open>drop_sequence\<close>.\<close>

lemma rejected_run:
  "cb_mode b = MRolling r \<Longrightarrow> True \<notin> set (fst (breaker_drive evs b)) \<Longrightarrow> 0 < k \<Longrightarrow>
   k \<le> length (fst (breaker_drive evs b)) \<Longrightarrow>
   unat (rk_drop_sequence r + of_nat k) mod rc_probe_interval (rk_config r) \<noteq> 0"
proof (induction evs b arbitrary: r k rule: breaker_drive.induct)
  case (2 t evs b)
  let ?b = "snd (before_call t b)"
  have split: "fst (breaker_drive (Call t # evs) b) = fst (before_call t b) # fst (breaker_drive evs ?b)"
    by (simp add: Let_def case_prod_beta)
  from "2.prems"(2) have "\<not> fst (before_call t b)" and rest: "True \<notin> set (fst (breaker_drive evs ?b))"
    unfolding split by auto
  from rejected_call [OF "2.prems"(1) this(1)] obtain r' where
    r': "cb_mode ?b = MRolling r'" "rk_config r' = rk_config r"
      "rk_drop_sequence r' = rk_drop_sequence r + 1"
      "unat (rk_drop_sequence r + 1) mod rc_probe_interval (rk_config r) \<noteq> 0" by blast
  show ?case
  proof (cases "k = 1")
    case True
    with r' show ?thesis by simp
  next
    case False
    then obtain j where k: "k = Suc j" "0 < j" using "2.prems"(3) by (cases k) auto
    have "j \<le> length (fst (breaker_drive evs ?b))" using "2.prems"(4) unfolding split k(1) by simp
    then have "unat (rk_drop_sequence r' + of_nat j) mod rc_probe_interval (rk_config r') \<noteq> 0"
      using "2.IH" [of "(fst (before_call t b), ?b)" "fst (before_call t b)" ?b r' j] r'(1) rest k(2) by simp
    then show ?thesis using r' by (simp add: k add.assoc)
  qed
next
  case (3 t out evs b)
  let ?b = "record_outcome t out b"
  have "cb_mode ?b = MRolling (rolling_breaker_record out t r)"
    using "3.prems"(1) by (simp add: record_outcome_def)
  from "3.IH" [OF this, of k] show ?case
    using "3.prems" by (simp add: rolling_breaker_record_def Let_def split: if_splits)
qed simp

text \<open>Among \<open>p\<close> successive values of a wrapping counter one is a multiple of \<open>p\<close>.\<close>

lemma multiple_within:
  fixes w :: "64 word"
  assumes "0 < p" "p \<le> u64_max"
  shows "\<exists>k. 0 < k \<and> k \<le> p \<and> unat (w + of_nat k) mod p = 0"
proof (cases "unat w + p < 2 ^ 64")
  case True
  define k where "k = p - unat w mod p"
  have m: "unat w mod p < p" using assms by simp
  have k: "0 < k" "k \<le> p" using m by (simp_all add: k_def)
  have "unat (of_nat k :: 64 word) = k"
    using k True by (simp add: unat_of_nat)
  then have "unat (w + of_nat k) = unat w + k"
    using True k by (simp add: unat_word_ariths)
  also have "\<dots> = unat w div p * p + p"
    using m div_mult_mod_eq [of "unat w" p] unfolding k_def by linarith
  finally have "unat (w + of_nat k) mod p = 0" by simp
  with k show ?thesis by (intro exI [of _ k] conjI)
next
  case False
  let ?k = "2 ^ 64 - unat w"
  have lt: "unat w < 2 ^ 64" using unsigned_less [of w, where 'a = nat] by simp
  have "w + of_nat ?k = 0"
    using lt by (simp add: of_nat_diff)
  with False lt show ?thesis by (intro exI [of _ ?k]) auto
qed

text \<open>
  Recovery always receives probe traffic: whatever completions arrive in between, of any
  \<open>probe_interval\<close> successive calls at least one is admitted, also when the 64-bit sequence number
  wraps around.
\<close>

theorem rolling_probe_interval:
  assumes "cb_mode b = MRolling r" and "rolling_validate (rk_config r)"
    and "rc_probe_interval (rk_config r) \<le> u64_max"
    and "rc_probe_interval (rk_config r) \<le> length (fst (breaker_drive evs b))"
  shows "True \<in> set (fst (breaker_drive evs b))"
proof (rule ccontr)
  assume none: "True \<notin> set (fst (breaker_drive evs b))"
  have "0 < rc_probe_interval (rk_config r)" using assms(2) by (simp add: rolling_validate_def)
  from multiple_within [OF this assms(3), of "rk_drop_sequence r"] obtain k where
    k: "0 < k" "k \<le> rc_probe_interval (rk_config r)"
      "unat (rk_drop_sequence r + of_nat k) mod rc_probe_interval (rk_config r) = 0"
    by (elim exE conjE)
  have "k \<le> length (fst (breaker_drive evs b))" using k(2) assms(4) by (rule order_trans)
  from rejected_run [OF assms(1) none k(1) this] k(3) show False by simp
qed

lemma drive_length: "length (fst (breaker_drive evs b)) = length (filter (\<lambda>e. \<exists>t. e = Call t) evs)"
  by (induction evs b rule: breaker_drive.induct) (auto simp: Let_def split: prod.splits)

theorem rolling_probe_interval_witness:
  "True \<in> set (fst (breaker_drive [Call 1, Done 2 Failure, Call 3]
     \<lparr>cb_config = breaker_config_rolling (rolling_config_new\<lparr>rc_probe_interval := 2\<rparr>),
      cb_mode = MRolling (fst (rolling_breaker_new (rolling_config_new\<lparr>rc_probe_interval := 2\<rparr>) 9 0)),
      cb_counters = outcome_counters_default\<rparr>))"
  by (rule rolling_probe_interval [OF _ _ _, of _ "fst (rolling_breaker_new (rolling_config_new\<lparr>rc_probe_interval := 2\<rparr>) 9 0)"])
    (simp_all add: rolling_breaker_new_def rolling_config_new_def rolling_validate_def f_finite_def
      nanos_per_sec_def u64_max_def drive_length del: breaker_drive.simps)

theorem rolling_drop_ratio_witness:
  "\<not> fst (should_drop 3 (fst (rolling_breaker_new rolling_config_new 9 0)))"
  using rolling_drop_ratio [of "fst (rolling_breaker_new rolling_config_new 9 0)" 3]
  by (simp add: rolling_breaker_new_def rolling_config_new_def rolling_validate_def f_finite_def
      nanos_per_sec_def u64_max_def rolling_history_def breaker_rotate_def history_totals_def
      outcome_bucket_default_def sat_add_def)


end
