(* ===== verification/Limit.thy ===== *)
theory Limit
  imports Binary64 "HOL-Library.Word"
begin

text \<open>
  \<open>core/src/limit.rs\<close>: the token bucket, the keyed fixed-window limiter, and their Redis-backed
  variants with the process-local rescue path. The token bucket computes in \<open>f64\<close>; the windows count
  Unix milliseconds. \<open>RedisStore::eval\<close> and SHA-256 are parameters of the operations that call them.
  A panic is \<^term>\<open>None\<close>.
\<close>

section \<open>Token bucket\<close>

datatype limit_decision = Allowed | HitQuota | OverQuota (retry_after: duration)

fun is_allowed :: "limit_decision \<Rightarrow> bool" where
  "is_allowed (OverQuota _) = False"
| "is_allowed _ = True"

record token_limiter =
  tl_rate_per_second :: f64
  tl_burst :: nat
  tl_available :: f64
  tl_last_refill :: instant

definition token_limiter_new :: "nat \<Rightarrow> nat \<Rightarrow> instant \<Rightarrow> token_limiter option" where
  "token_limiter_new rate burst now =
     (if rate = 0 \<or> burst = 0 then None
      else Some \<lparr>tl_rate_per_second = f_nat rate, tl_burst = burst,
                 tl_available = f_nat burst, tl_last_refill = now\<rparr>)"

definition token_refill :: "instant \<Rightarrow> token_limiter \<Rightarrow> token_limiter" where
  "token_refill now l =
     l\<lparr>tl_available := f_min (f_add (tl_available l)
          (f_mul (as_secs_f64 (now - tl_last_refill l)) (tl_rate_per_second l))) (f_nat (tl_burst l)),
       tl_last_refill := now\<rparr>"

definition token_take :: "nat \<Rightarrow> instant \<Rightarrow> token_limiter \<Rightarrow> (limit_decision \<times> token_limiter) option" where
  "token_take permits now l =
     (if permits = 0 then None
      else if tl_burst l < permits then Some (OverQuota duration_max, l)
      else
        let l1 = token_refill now l in
        if f_le (f_nat permits) (tl_available l1)
        then let l2 = l1\<lparr>tl_available := f_sub (tl_available l1) (f_nat permits)\<rparr> in
          Some (if f_lt (tl_available l2) (Fin 1) then HitQuota else Allowed, l2)
        else
          map_option (\<lambda>d. (OverQuota d, l1))
            (from_secs_f64 (f_div (f_sub (f_nat permits) (tl_available l1)) (tl_rate_per_second l1))))"

definition token_allow :: "instant \<Rightarrow> token_limiter \<Rightarrow> (bool \<times> token_limiter) option" where
  "token_allow now l = map_option (map_prod is_allowed id) (token_take 1 now l)"

section \<open>Fixed windows\<close>

text \<open>\<open>PeriodWindow\<close> is the pair of the used count and the window number.\<close>

record period_window =
  pw_used :: nat
  pw_window :: nat

record 'k period_limiter =
  pl_period :: duration
  pl_quota :: nat
  pl_windows :: "('k, period_window) hmap"

definition period_limiter_new :: "duration \<Rightarrow> nat \<Rightarrow> 'k period_limiter option" where
  "period_limiter_new period quota =
     (if period = 0 \<or> quota = 0 then None
      else Some \<lparr>pl_period = period, pl_quota = quota, pl_windows = []\<rparr>)"

definition duration_from_millis_saturating :: "nat \<Rightarrow> duration" where
  "duration_from_millis_saturating ms = duration_from_millis (min u64_max ms)"

definition period_retry_after :: "nat \<Rightarrow> nat \<Rightarrow> duration" where
  "period_retry_after period now =
     duration_from_millis_saturating (sat_mul u128_max (now div period + 1) period - now)"

text \<open>The part both limiters share: \<open>entry(..).or_insert(..)\<close>, the reset, the count.\<close>

definition window_take ::
  "nat \<Rightarrow> duration \<Rightarrow> nat \<Rightarrow> 'k \<Rightarrow> ('k, period_window) hmap \<Rightarrow> limit_decision \<times> ('k, period_window) hmap" where
  "window_take quota retry current key ws =
     (let e = (case map_of ws key of None \<Rightarrow> \<lparr>pw_used = 0, pw_window = current\<rparr> | Some e \<Rightarrow> e);
          w = (if pw_window e \<noteq> current then \<lparr>pw_used = 0, pw_window = current\<rparr> else e) in
      if quota \<le> pw_used w then (OverQuota retry, AList.update key w ws)
      else
        let w' = w\<lparr>pw_used := pw_used w + 1\<rparr> in
        (if pw_used w' = quota then HitQuota else Allowed, AList.update key w' ws))"

text \<open>\<open>now\<close> is the reading of \<open>unix_millis\<close>. A period below one millisecond divides by zero.\<close>

definition period_take :: "'k \<Rightarrow> nat \<Rightarrow> 'k period_limiter \<Rightarrow> (limit_decision \<times> 'k period_limiter) option" where
  "period_take key now l =
     (let period = as_millis (pl_period l) in
      if period = 0 then None
      else let (d, ws) = window_take (pl_quota l) (period_retry_after period now) (now div period) key (pl_windows l) in
        Some (d, l\<lparr>pl_windows := ws\<rparr>))"

definition period_clear :: "'k \<Rightarrow> 'k period_limiter \<Rightarrow> 'k period_limiter" where
  "period_clear key l = l\<lparr>pl_windows := AList.delete key (pl_windows l)\<rparr>"

record bounded_limiter =
  bl_period :: duration
  bl_quota :: nat
  bl_max_keys :: nat
  bl_windows :: "(string, period_window) hmap"

definition bounded_take :: "string \<Rightarrow> nat \<Rightarrow> bounded_limiter \<Rightarrow> (limit_decision \<times> bounded_limiter) option" where
  "bounded_take key now l =
     (let period = as_millis (bl_period l); current = now div period; retry = period_retry_after period now in
      if period = 0 then None
      else if map_of (bl_windows l) key = None \<and> bl_max_keys l \<le> length (bl_windows l)
      then let kept = filter (\<lambda>(_, w). pw_window w = current) (bl_windows l) in
        if bl_max_keys l \<le> length kept then Some (OverQuota retry, l\<lparr>bl_windows := kept\<rparr>)
        else let (d, ws) = window_take (bl_quota l) retry current key kept in
          Some (d, l\<lparr>bl_windows := ws\<rparr>)
      else let (d, ws) = window_take (bl_quota l) retry current key (bl_windows l) in
        Some (d, l\<lparr>bl_windows := ws\<rparr>))"

section \<open>Redis-backed limiters\<close>

text \<open>
  \<open>RedisLimiterMonitor\<close>: \<open>backend_state\<close> is 0 (not observed), 1 (available), 2 (unavailable) or 3
  (recovery probe in flight). Clock readings are Unix milliseconds.
\<close>

record decision_counts =
  dc_allowed :: "64 word"
  dc_hit_quota :: "64 word"
  dc_over_quota :: "64 word"

record redis_monitor =
  rm_backend_state :: nat
  rm_next_probe_at_ms :: nat
  rm_backend_failures :: "64 word"
  rm_backend_recoveries :: "64 word"
  rm_redis :: decision_counts
  rm_rescue :: decision_counts

definition counts_zero :: decision_counts where
  "counts_zero = \<lparr>dc_allowed = 0, dc_hit_quota = 0, dc_over_quota = 0\<rparr>"

definition monitor_default :: redis_monitor where
  "monitor_default =
     \<lparr>rm_backend_state = 0, rm_next_probe_at_ms = 0, rm_backend_failures = 0, rm_backend_recoveries = 0,
      rm_redis = counts_zero, rm_rescue = counts_zero\<rparr>"

fun decision_counter :: "limit_decision \<Rightarrow> decision_counts \<Rightarrow> decision_counts" where
  "decision_counter Allowed c = c\<lparr>dc_allowed := dc_allowed c + 1\<rparr>"
| "decision_counter HitQuota c = c\<lparr>dc_hit_quota := dc_hit_quota c + 1\<rparr>"
| "decision_counter (OverQuota _) c = c\<lparr>dc_over_quota := dc_over_quota c + 1\<rparr>"

definition unix_millis_u64 :: "nat \<Rightarrow> nat" where
  "unix_millis_u64 ms = min u64_max ms"

definition should_attempt_redis :: "nat \<Rightarrow> redis_monitor \<Rightarrow> bool \<times> redis_monitor" where
  "should_attempt_redis ms m =
     (if rm_backend_state m = 0 \<or> rm_backend_state m = 1 then (True, m)
      else if rm_backend_state m = 2
      then if rm_next_probe_at_ms m \<le> unix_millis_u64 ms then (True, m\<lparr>rm_backend_state := 3\<rparr>) else (False, m)
      else (False, m))"

definition redis_success :: "limit_decision \<Rightarrow> redis_monitor \<Rightarrow> redis_monitor" where
  "redis_success d m =
     (let m1 = (if rm_backend_state m = 2 \<or> rm_backend_state m = 3
                then m\<lparr>rm_backend_recoveries := rm_backend_recoveries m + 1\<rparr> else m) in
      m1\<lparr>rm_backend_state := 1, rm_redis := decision_counter d (rm_redis m1)\<rparr>)"

definition redis_failure :: "nat \<Rightarrow> nat \<Rightarrow> redis_monitor \<Rightarrow> redis_monitor" where
  "redis_failure probe_interval_ms ms m =
     m\<lparr>rm_next_probe_at_ms := sat_add u64_max (unix_millis_u64 ms) probe_interval_ms,
       rm_backend_state := 2, rm_backend_failures := rm_backend_failures m + 1\<rparr>"

definition monitor_rescue :: "limit_decision \<Rightarrow> redis_monitor \<Rightarrow> redis_monitor" where
  "monitor_rescue d m = m\<lparr>rm_rescue := decision_counter d (rm_rescue m)\<rparr>"

definition monitor_available :: "redis_monitor \<Rightarrow> bool" where
  "monitor_available m \<longleftrightarrow> rm_backend_state m = 1"

fun parse_redis_decision :: "int list \<Rightarrow> limit_decision option" where
  "parse_redis_decision [outcome, retry] =
     (if outcome = 0 then Some Allowed
      else if outcome = 1 then Some HitQuota
      else if outcome = 2 \<and> 0 \<le> retry then Some (OverQuota (duration_from_millis (nat retry)))
      else None)"
| "parse_redis_decision _ = None"

text \<open>
  The sequential \<open>take\<close> of both Redis limiters. \<open>eval keys args\<close> is the answer of the store to the
  script, \<^term>\<open>None\<close> when the command fails or times out; \<open>ms\<close> and \<open>now\<close> are the clock readings.
\<close>

record redis_token_limiter =
  rt_key :: string
  rt_rate :: nat
  rt_burst :: nat
  rt_rescue :: token_limiter
  rt_probe_ms :: nat
  rt_monitor :: redis_monitor

definition redis_token_new :: "string \<Rightarrow> nat \<Rightarrow> nat \<Rightarrow> instant \<Rightarrow> redis_token_limiter option" where
  "redis_token_new key rate burst now =
     (if rate = 0 \<or> burst = 0 \<or> key = [] then None
      else map_option (\<lambda>l. \<lparr>rt_key = key, rt_rate = rate, rt_burst = burst, rt_rescue = l,
             rt_probe_ms = 1000, rt_monitor = monitor_default\<rparr>) (token_limiter_new rate burst now))"

definition redis_token_with_probe :: "duration \<Rightarrow> redis_token_limiter \<Rightarrow> redis_token_limiter option" where
  "redis_token_with_probe interval l =
     (if interval = 0 \<or> u64_max < as_millis interval then None
      else Some (l\<lparr>rt_probe_ms := as_millis interval\<rparr>))"

definition token_rescue :: "nat \<Rightarrow> instant \<Rightarrow> redis_token_limiter \<Rightarrow> (limit_decision \<times> redis_token_limiter) option" where
  "token_rescue permits now l =
     map_option (\<lambda>(d, r). (d, l\<lparr>rt_rescue := r, rt_monitor := monitor_rescue d (rt_monitor l)\<rparr>))
       (token_take permits now (rt_rescue l))"

definition redis_token_take ::
  "(string list \<Rightarrow> string list \<Rightarrow> int list option) \<Rightarrow> nat \<Rightarrow> nat \<Rightarrow> instant \<Rightarrow>
   redis_token_limiter \<Rightarrow> (limit_decision \<times> redis_token_limiter) option" where
  "redis_token_take eval permits ms now l =
     (if permits = 0 then None
      else if rt_burst l < permits then Some (OverQuota duration_max, l)
      else
        let (attempt, m) = should_attempt_redis ms (rt_monitor l); l1 = l\<lparr>rt_monitor := m\<rparr> in
        if \<not> attempt then token_rescue permits now l1
        else case Option.bind (eval [rt_key l] [show_nat (rt_rate l), show_nat (rt_burst l), show_nat permits])
            parse_redis_decision of
          Some d \<Rightarrow> Some (d, l1\<lparr>rt_monitor := redis_success d m\<rparr>)
        | None \<Rightarrow> token_rescue permits now (l1\<lparr>rt_monitor := redis_failure (rt_probe_ms l) ms m\<rparr>))"

record redis_period_limiter =
  rp_namespace :: string
  rp_period :: duration
  rp_quota :: nat
  rp_rescue :: bounded_limiter
  rp_probe_ms :: nat
  rp_monitor :: redis_monitor

definition redis_period_new :: "string \<Rightarrow> duration \<Rightarrow> nat \<Rightarrow> nat \<Rightarrow> redis_period_limiter option" where
  "redis_period_new ns period quota max_keys =
     (if period = 0 \<or> u64_max < as_millis period \<or> quota = 0 \<or> max_keys = 0 \<or> ns = [] then None
      else Some \<lparr>rp_namespace = ns, rp_period = period, rp_quota = quota,
        rp_rescue = \<lparr>bl_period = period, bl_quota = quota, bl_max_keys = max_keys, bl_windows = []\<rparr>,
        rp_probe_ms = 1000, rp_monitor = monitor_default\<rparr>)"

definition hex_nibble :: "nat \<Rightarrow> char" where
  "hex_nibble d = (if d < 10 then char_of (48 + d) else char_of (87 + d))"

definition hex_digest :: "(string \<Rightarrow> nat list) \<Rightarrow> string \<Rightarrow> string" where
  "hex_digest sha256 v = concat (map (\<lambda>b. [hex_nibble (b div 16), hex_nibble (b mod 16)]) (sha256 v))"

definition period_rescue :: "string \<Rightarrow> nat \<Rightarrow> redis_period_limiter \<Rightarrow> (limit_decision \<times> redis_period_limiter) option" where
  "period_rescue key ms l =
     map_option (\<lambda>(d, r). (d, l\<lparr>rp_rescue := r, rp_monitor := monitor_rescue d (rp_monitor l)\<rparr>))
       (bounded_take key ms (rp_rescue l))"

definition redis_period_take ::
  "(string list \<Rightarrow> string list \<Rightarrow> int list option) \<Rightarrow> (string \<Rightarrow> nat list) \<Rightarrow> string \<Rightarrow> nat \<Rightarrow>
   redis_period_limiter \<Rightarrow> (limit_decision \<times> redis_period_limiter) option" where
  "redis_period_take eval sha256 key ms l =
     (let (attempt, m) = should_attempt_redis ms (rp_monitor l); l1 = l\<lparr>rp_monitor := m\<rparr> in
      if \<not> attempt then period_rescue (hex_digest sha256 key) ms l1
      else case Option.bind (eval [rp_namespace l @ '':'' @ hex_digest sha256 key]
             [show_nat (as_millis (rp_period l)), show_nat (rp_quota l)]) parse_redis_decision of
        Some d \<Rightarrow> Some (d, l1\<lparr>rp_monitor := redis_success d m\<rparr>)
      | None \<Rightarrow> period_rescue (hex_digest sha256 key) ms (l1\<lparr>rp_monitor := redis_failure (rp_probe_ms l) ms m\<rparr>))"

section \<open>The token bucket never grants more than its rate\<close>

definition token_inv :: "nat \<Rightarrow> token_limiter \<Rightarrow> bool" where
  "token_inv rate l \<longleftrightarrow>
     0 < rate \<and> rate \<le> u32_max \<and> tl_rate_per_second l = Fin (of_nat rate) \<and>
     tl_burst l \<le> u32_max \<and>
     (\<exists>a. tl_available l = Fin a \<and> fl a = a \<and> 0 \<le> a \<and> a \<le> of_nat (tl_burst l))"

text \<open>The tokens in the bucket as a rational number.\<close>

fun tokens :: "f64 \<Rightarrow> rat" where
  "tokens (Fin a) = a"
| "tokens _ = 0"

lemma u32_nat: "n \<le> u32_max \<Longrightarrow> f_nat n = Fin (of_nat n)"
  by (rule f_nat_exact) (simp add: u32_max_def)

lemma u32_rat: "n \<le> u32_max \<Longrightarrow> (of_nat n :: rat) \<le> 2 ^ 32"
proof -
  assume "n \<le> u32_max"
  then have "n \<le> 2 ^ 32" by (simp add: u32_max_def)
  then have "(of_nat n :: rat) \<le> of_nat (2 ^ 32)" by (simp only: of_nat_le_iff)
  then show ?thesis by simp
qed

lemma u32_fl: "n \<le> u32_max \<Longrightarrow> fl (of_nat n) = of_nat n"
  by (rule fl_of_nat) (simp add: u32_max_def)

lemma as_secs_f64_error:
  assumes "d \<le> duration_max"
  shows "\<exists>s. as_secs_f64 d = Fin s \<and> fl s = s \<and> 0 \<le> s \<and> s \<le> 2 ^ 65 \<and>
    s \<le> of_nat d / of_nat nanos_per_sec * (1 + 1 / 2 ^ 51) + 4 / 2 ^ 53"
proof -
  define q where "q = (of_nat (d mod nanos_per_sec) / of_nat nanos_per_sec :: rat)"
  define k where "k = (of_nat (d div nanos_per_sec) :: rat)"
  have np: "0 < nanos_per_sec" by (simp add: nanos_per_sec_def)
  have T: "of_nat d / of_nat nanos_per_sec = k + q"
  proof -
    have "(of_nat d :: rat) = k * of_nat nanos_per_sec + of_nat (d mod nanos_per_sec)"
      by (simp only: k_def of_nat_mult [symmetric] of_nat_add [symmetric] div_mult_mod_eq)
    then show ?thesis using np by (simp add: q_def add_divide_distrib)
  qed
  have k0: "0 \<le> k" and q0: "0 \<le> q" by (simp_all add: k_def q_def)
  obtain s where s: "as_secs_f64 d = Fin s" "0 \<le> s" "s \<le> 2 ^ 65"
    using as_secs_f64_bounds [OF assms] by auto
  have mm: "d mod nanos_per_sec < nanos_per_sec" using np by simp
  have small: "f_nat (d mod nanos_per_sec) = Fin (of_nat (d mod nanos_per_sec))"
    "f_nat nanos_per_sec = Fin (of_nat nanos_per_sec)"
    using mm by (intro f_nat_exact; simp add: nanos_per_sec_def)+
  have "d div nanos_per_sec \<le> u64_max"
    using assms by (auto simp: duration_max_def nanos_per_sec_def intro: order_trans [OF div_le_mono])
  then have "d div nanos_per_sec \<le> 2 ^ 64" by (simp add: u64_max_def)
  then obtain r where "f_nat (d div nanos_per_sec) = Fin r" using f_nat_bounds [of _ 64] by auto
  then have secs: "f_nat (d div nanos_per_sec) = Fin (fl k)"
    by (auto simp: f_nat_def mk_def k_def split: if_splits)
  have "q \<le> 1" unfolding q_def using mm np by simp
  then have "mk q = Fin (fl q)" using q0 by (intro mk_fin_pow [of 0]) simp_all
  then have "as_secs_f64 d = mk (fl k + fl q)"
    using np by (simp add: as_secs_f64_def small secs q_def)
  then have sfl: "s = fl (fl k + fl q)" using s(1) by (simp add: mk_def split: if_splits)
  have "s \<le> (fl k + fl q) * (1 + 1 / 2 ^ 53) + 1 / 2 ^ 53"
    unfolding sfl using k0 q0 by (intro fl_error) (simp add: fl_nonneg)
  moreover have "fl k \<le> k * (1 + 1 / 2 ^ 53) + 1 / 2 ^ 53" "fl q \<le> q * (1 + 1 / 2 ^ 53) + 1 / 2 ^ 53"
    using k0 q0 by (simp_all only: fl_error)
  ultimately have "s \<le> (k + q) * (1 + 1 / 2 ^ 51) + 4 / 2 ^ 53"
    using k0 q0 by (simp add: field_simps)
  then show ?thesis using s sfl by (simp add: T)
qed

text \<open>The refill and its rounding error.\<close>

lemma token_refill:
  assumes inv: "token_inv rate l" and d: "now - tl_last_refill l \<le> duration_max"
  shows "token_inv rate (token_refill now l) \<and>
    tokens (tl_available (token_refill now l)) \<le> tokens (tl_available l) +
      of_nat (now - tl_last_refill l) / of_nat nanos_per_sec * of_nat rate * (1 + 1 / 2 ^ 50) + 1 / 2 ^ 18"
proof -
  obtain a where a: "tl_available l = Fin a" "fl a = a" "0 \<le> a" "a \<le> of_nat (tl_burst l)"
    and r: "tl_rate_per_second l = Fin (of_nat rate)" "0 < rate" "rate \<le> u32_max"
    and b: "tl_burst l \<le> u32_max"
    using inv by (auto simp: token_inv_def)
  let ?R = "of_nat rate :: rat"
  define T where "T = (of_nat (now - tl_last_refill l) / of_nat nanos_per_sec :: rat)"
  obtain s where s: "as_secs_f64 (now - tl_last_refill l) = Fin s" "0 \<le> s" "s \<le> 2 ^ 65"
    "s \<le> T * (1 + 1 / 2 ^ 51) + 4 / 2 ^ 53"
    using as_secs_f64_error [OF d] by (auto simp: T_def)
  have R: "0 < ?R" "?R \<le> 2 ^ 32" using r u32_rat [of rate] by simp_all
  have b32: "(of_nat (tl_burst l) :: rat) \<le> 2 ^ 32" using b by (rule u32_rat)
  have "s * ?R \<le> 2 ^ 65 * 2 ^ 32" using s R by (intro mult_mono) simp_all
  then have sR: "0 \<le> s * ?R" "s * ?R \<le> 2 ^ 97" using s R by simp_all
  define g where "g = fl (s * ?R)"
  have mul: "mk (s * ?R) = Fin g"
    using mk_fin_pow [of 97 "s * ?R"] sR by (simp add: g_def)
  have g: "0 \<le> g" "g \<le> 2 ^ 97"
    using sR fl_bound [of "s * ?R" 97] by (simp_all add: g_def fl_nonneg)
  define x where "x = fl (a + g)"
  have add: "mk (a + g) = Fin x"
    using mk_fin_pow [of 98 "a + g"] a g b32 by (simp add: x_def)
  have x0: "0 \<le> x" using a g by (simp add: x_def fl_nonneg)
  let ?B = "of_nat (tl_burst l) :: rat"
  have avail: "tl_available (token_refill now l) = Fin (min x ?B)"
    using b by (simp add: token_refill_def a r s mul add u32_nat f_min_def)
  have "token_inv rate (token_refill now l)"
    unfolding token_inv_def avail
    using r b x0 u32_fl [OF b] by (simp add: token_refill_def x_def min_def)
  moreover have "min x ?B \<le> a + T * ?R * (1 + 1 / 2 ^ 50) + 1 / 2 ^ 18"
  proof -
    have "s * ?R \<le> (T * (1 + 1 / 2 ^ 51) + 4 / 2 ^ 53) * ?R"
      using s(4) R by (intro mult_right_mono) simp_all
    then have 1: "s * ?R \<le> T * ?R * (1 + 1 / 2 ^ 51) + 4 / 2 ^ 53 * ?R"
      by (simp add: algebra_simps)
    have 2: "g \<le> s * ?R * (1 + 1 / 2 ^ 53) + 1 / 2 ^ 53" unfolding g_def using sR(1) by (rule fl_error)
    have 3: "x \<le> (a + g) * (1 + 1 / 2 ^ 53) + 1 / 2 ^ 53" unfolding x_def using a g by (intro fl_error) simp
    have "0 \<le> T * ?R" using R by (simp add: T_def)
    then have "x \<le> a + T * ?R * (1 + 1 / 2 ^ 50) + 1 / 2 ^ 18"
      using 1 2 3 R(2) a(4) b32 by (simp add: field_simps)
    then show ?thesis by simp
  qed
  ultimately show ?thesis by (simp add: avail a T_def)
qed

text \<open>The wait reported with a refusal is a duration: no step of its computation leaves the range.\<close>

lemma retry_after_fits:
  assumes a: "0 \<le> a" "a < of_nat p" and p: "p \<le> u32_max" and rate: "0 < rate"
  shows "\<exists>w y z. f_sub (Fin (of_nat p)) (Fin a) = Fin y \<and> f_div (Fin y) (Fin (of_nat rate)) = Fin z \<and> from_secs_f64 (Fin z) = Some w"
proof -
  have p32: "(of_nat p :: rat) \<le> 2 ^ 32" using p by (rule u32_rat)
  define y where "y = fl (of_nat p - a)"
  have pa: "0 \<le> of_nat p - a" "of_nat p - a \<le> 2 ^ 32" using a p32 by simp_all
  then have y: "0 \<le> y" "y \<le> 2 ^ 32" using fl_bound [of "of_nat p - a" 32] by (simp_all add: y_def fl_nonneg)
  have sub: "f_sub (Fin (of_nat p)) (Fin a) = Fin y"
    using mk_fin_pow [of 32 "of_nat p - a"] pa by (simp add: f_sub_def y_def)
  define z where "z = fl (y / of_nat rate)"
  have "y / of_nat rate \<le> 2 ^ 32" using y rate by (simp add: divide_le_eq order_trans [OF y(2)])
  moreover have "0 \<le> y / of_nat rate" using y by simp
  ultimately have z: "mk (y / of_nat rate) = Fin z" "0 \<le> z" "z \<le> 2 ^ 32"
    using fl_bound [of "y / of_nat rate" 32] mk_fin_pow [of 32 "y / of_nat rate"]
    by (simp_all add: z_def fl_nonneg)
  have "rne (z * of_nat nanos_per_sec) \<le> 2 ^ 32 * 1000000000"
    using z(3) by (intro rne_le_int) (simp add: nanos_per_sec_def)
  then have "nat (rne (z * of_nat nanos_per_sec)) \<le> duration_max"
    by (simp add: duration_max_def u64_max_def nanos_per_sec_def nat_le_iff)
  then have "\<exists>w. from_secs_f64 (Fin z) = Some w" using z(2) by (simp add: from_secs_f64_def Let_def)
  moreover have "f_div (Fin y) (Fin (of_nat rate)) = Fin z" using rate z(1) by simp
  ultimately show ?thesis using sub by blast
qed

lemma token_take_step:
  assumes inv: "token_inv rate l" and p: "0 < p" "p \<le> u32_max"
    and d: "now - tl_last_refill l \<le> duration_max" and mono: "tl_last_refill l \<le> now"
  shows "\<exists>dec l'. token_take p now l = Some (dec, l') \<and> token_inv rate l' \<and> tl_burst l' = tl_burst l \<and>
    tl_last_refill l \<le> tl_last_refill l' \<and> tl_last_refill l' \<le> now \<and>
    tokens (tl_available l') + (if is_allowed dec then of_nat p else 0) \<le> tokens (tl_available l) +
      of_nat (tl_last_refill l' - tl_last_refill l) / of_nat nanos_per_sec * of_nat rate * (1 + 1 / 2 ^ 50) + 1 / 2 ^ 18"
proof (cases "tl_burst l < p")
  case True
  with inv p mono show ?thesis by (simp add: token_take_def)
next
  case small: False
  let ?l1 = "token_refill now l"
  note fill = token_refill [OF inv d]
  from fill obtain a where a: "tl_available ?l1 = Fin a" "fl a = a" "0 \<le> a" "a \<le> of_nat (tl_burst ?l1)"
    and r: "tl_rate_per_second ?l1 = Fin (of_nat rate)" "0 < rate" "rate \<le> u32_max"
    and b: "tl_burst ?l1 \<le> u32_max"
    by (auto simp: token_inv_def)
  have b32: "a \<le> 2 ^ 32" using a(4) u32_rat [OF b] by simp
  have l1: "tl_burst ?l1 = tl_burst l" "tl_last_refill ?l1 = now" by (simp_all add: token_refill_def)
  show ?thesis
  proof (cases "of_nat p \<le> a")
    case True
    have a52: "a \<le> 2 ^ 52" using b32 by simp
    have ex: "fl (a - of_nat p) = a - of_nat p" using a(2) a52 True by (rule fl_sub_exact)
    have "\<bar>a - of_nat p\<bar> \<le> 2 ^ 32" using True b32 by simp
    then have sub: "f_sub (Fin a) (Fin (of_nat p)) = Fin (a - of_nat p)"
      using mk_fin_pow [of 32 "a - of_nat p"] ex by (simp add: f_sub_def)
    let ?l2 = "?l1\<lparr>tl_available := Fin (a - of_nat p)\<rparr>"
    have "token_take p now l = Some (if a - of_nat p < 1 then HitQuota else Allowed, ?l2)"
      using small p True by (simp add: token_take_def Let_def a u32_nat sub f_le_def order_le_less)
    then obtain dec where tk: "token_take p now l = Some (dec, ?l2)" "is_allowed dec"
      by (auto split: if_splits)
    have "token_inv rate ?l2"
      using fill a(4) ex True of_nat_0_le_iff [of p, where 'a = rat] unfolding token_inv_def by auto
    moreover have "tokens (tl_available ?l2) + of_nat p = tokens (tl_available ?l1)" by (simp add: a)
    ultimately show ?thesis
      using fill mono tk by (intro exI [of _ dec] exI [of _ ?l2]) (simp add: l1)
  next
    case False
    then obtain w y z where "f_sub (Fin (of_nat p)) (Fin a) = Fin y" "f_div (Fin y) (Fin (of_nat rate)) = Fin z"
        "from_secs_f64 (Fin z) = Some w"
      using retry_after_fits [OF a(3) _ p(2) r(2)] by auto
    then have "token_take p now l = Some (OverQuota w, ?l1)"
      using small p False by (auto simp: token_take_def Let_def a u32_nat f_le_def r)
    then show ?thesis using fill mono by (auto simp: l1)
  qed
qed

text \<open>A run of requests (permit count, clock reading), with the number of permits granted.\<close>

fun token_run :: "(nat \<times> instant) list \<Rightarrow> token_limiter \<Rightarrow> (nat \<times> token_limiter) option" where
  "token_run [] l = Some (0, l)"
| "token_run ((p, now) # reqs) l =
     (case token_take p now l of
        None \<Rightarrow> None
      | Some (d, l') \<Rightarrow>
          map_option (\<lambda>(g, l''). ((if is_allowed d then p else 0) + g, l'')) (token_run reqs l'))"

lemma token_run_bound:
  "token_inv rate l \<Longrightarrow> \<forall>(p, now) \<in> set reqs. 0 < p \<and> p \<le> u32_max \<and> tl_last_refill l \<le> now \<and> now \<le> tl_last_refill l + duration_max \<and> now \<le> t \<Longrightarrow>
   tl_last_refill l \<le> t \<Longrightarrow> sorted (map snd reqs) \<Longrightarrow>
   \<exists>g l'. token_run reqs l = Some (g, l') \<and> token_inv rate l' \<and> tl_burst l' = tl_burst l \<and>
     tokens (tl_available l') + of_nat g \<le> tokens (tl_available l) +
      of_nat (t - tl_last_refill l) / of_nat nanos_per_sec * of_nat rate * (1 + 1 / 2 ^ 50) +
      of_nat (length reqs) / 2 ^ 18"
proof (induction reqs arbitrary: l)
  case Nil
  then show ?case by simp
next
  case (Cons req reqs)
  obtain p now where req: "req = (p, now)" by (cases req)
  have pn: "0 < p" "p \<le> u32_max" "tl_last_refill l \<le> now" "now \<le> tl_last_refill l + duration_max" "now \<le> t"
    using Cons.prems(2) by (auto simp: req)
  have "now - tl_last_refill l \<le> duration_max" using pn by simp
  from token_take_step [OF Cons.prems(1) pn(1,2) this pn(3)] obtain dec l1 where
    tk: "token_take p now l = Some (dec, l1)" "token_inv rate l1" "tl_burst l1 = tl_burst l"
      "tl_last_refill l \<le> tl_last_refill l1" "tl_last_refill l1 \<le> now"
    and le: "tokens (tl_available l1) + (if is_allowed dec then of_nat p else 0) \<le> tokens (tl_available l) +
      of_nat (tl_last_refill l1 - tl_last_refill l) / of_nat nanos_per_sec * of_nat rate * (1 + 1 / 2 ^ 50) + 1 / 2 ^ 18"
    by blast
  have "\<forall>(p', now') \<in> set reqs. 0 < p' \<and> p' \<le> u32_max \<and> tl_last_refill l1 \<le> now' \<and>
      now' \<le> tl_last_refill l1 + duration_max \<and> now' \<le> t"
    using Cons.prems(2,4) tk(4,5) by (fastforce simp: req)
  moreover have t1: "tl_last_refill l1 \<le> t" "sorted (map snd reqs)" using tk(5) pn(5) Cons.prems(4) by (simp_all add: req)
  ultimately obtain g l' where run: "token_run reqs l1 = Some (g, l')" "token_inv rate l'" "tl_burst l' = tl_burst l1"
    and le2: "tokens (tl_available l') + of_nat g \<le> tokens (tl_available l1) +
      of_nat (t - tl_last_refill l1) / of_nat nanos_per_sec * of_nat rate * (1 + 1 / 2 ^ 50) +
      of_nat (length reqs) / 2 ^ 18"
    using Cons.IH [OF tk(2)] by blast
  have "t - tl_last_refill l = (tl_last_refill l1 - tl_last_refill l) + (t - tl_last_refill l1)"
    using tk(4) t1(1) by simp
  then have split: "of_nat (t - tl_last_refill l) / of_nat nanos_per_sec * of_nat rate * (1 + 1 / 2 ^ 50) =
      of_nat (tl_last_refill l1 - tl_last_refill l) / of_nat nanos_per_sec * of_nat rate * (1 + 1 / 2 ^ 50) +
      of_nat (t - tl_last_refill l1) / of_nat nanos_per_sec * of_nat rate * (1 + 1 / 2 ^ 50 :: rat)"
    by (simp only: of_nat_add add_divide_distrib distrib_right)
  have "tokens (tl_available l') + of_nat ((if is_allowed dec then p else 0) + g) \<le> tokens (tl_available l) +
      of_nat (t - tl_last_refill l) / of_nat nanos_per_sec * of_nat rate * (1 + 1 / 2 ^ 50) +
      of_nat (length (req # reqs)) / 2 ^ 18"
    using le le2 unfolding split by (simp add: add_divide_distrib split: if_splits)
  then show ?case using tk(1,3) run by (simp add: req)
qed

text \<open>
  C2. The token bucket keeps its rate. Over any sequence of requests made between the creation of
  the limiter and the time \<open>t\<close>, no request panics and the permits granted in total are at most
  \<open>burst + rate * (t - t0)\<close>, up to the rounding of \<open>f64\<close>, which is bounded here: a relative error of
  \<open>2^-50\<close> on the refill and \<open>2^-18\<close> of a permit for each request. The bucket is never negative and
  never above \<open>burst\<close>.
\<close>

theorem token_limiter_rate:
  assumes new: "token_limiter_new rate burst t0 = Some l" and "rate \<le> u32_max" "burst \<le> u32_max"
    and reqs: "\<forall>(p, now) \<in> set reqs. 0 < p \<and> p \<le> u32_max \<and> t0 \<le> now \<and> now \<le> t0 + duration_max \<and> now \<le> t"
      "sorted (map snd reqs)" and t: "t0 \<le> t"
  shows "\<exists>g l'. token_run reqs l = Some (g, l') \<and>
    0 \<le> tokens (tl_available l') \<and> tokens (tl_available l') \<le> of_nat burst \<and>
    of_nat g \<le> of_nat burst + of_nat rate * (of_nat (t - t0) / of_nat nanos_per_sec) * (1 + 1 / 2 ^ 50) +
      of_nat (length reqs) / (2 ^ 18 :: rat)"
proof -
  have l: "l = \<lparr>tl_rate_per_second = f_nat rate, tl_burst = burst, tl_available = f_nat burst, tl_last_refill = t0\<rparr>"
    and pos: "0 < rate" "0 < burst"
    using new by (auto simp: token_limiter_new_def split: if_splits)
  have inv: "token_inv rate l" using assms(2,3) pos by (simp add: l token_inv_def u32_nat u32_fl)
  have "\<forall>(p, now) \<in> set reqs. 0 < p \<and> p \<le> u32_max \<and> tl_last_refill l \<le> now \<and>
      now \<le> tl_last_refill l + duration_max \<and> now \<le> t" "tl_last_refill l \<le> t"
    using reqs(1) t by (simp_all add: l)
  from token_run_bound [OF inv this reqs(2)] obtain g l' where
    run: "token_run reqs l = Some (g, l')" "token_inv rate l'" "tl_burst l' = burst"
    and le: "tokens (tl_available l') + of_nat g \<le> of_nat burst +
      of_nat (t - t0) / of_nat nanos_per_sec * of_nat rate * (1 + 1 / 2 ^ 50) + of_nat (length reqs) / 2 ^ 18"
    using assms(3) by (auto simp: l u32_nat)
  have "0 \<le> tokens (tl_available l')" "tokens (tl_available l') \<le> of_nat burst"
    using run(2,3) by (auto simp: token_inv_def)
  with run(1) le show ?thesis by (auto simp: mult.commute)
qed

theorem token_limiter_rate_witness:
  "\<exists>l g l'. token_limiter_new 10 2 0 = Some l \<and>
     token_run [(1, 5), (1, 5), (1, 5)] l = Some (g, l') \<and> g \<le> 2"
proof -
  let ?l = "\<lparr>tl_rate_per_second = f_nat 10, tl_burst = 2, tl_available = f_nat 2, tl_last_refill = 0\<rparr>"
  let ?reqs = "[(1, 5), (1, 5), (1, 5)] :: (nat \<times> nat) list"
  have "token_limiter_new 10 2 0 = Some ?l" "10 \<le> u32_max" "2 \<le> u32_max"
    "\<forall>(p, now) \<in> set ?reqs. 0 < p \<and> p \<le> u32_max \<and> 0 \<le> now \<and> now \<le> 0 + duration_max \<and> now \<le> 5"
    "sorted (map snd ?reqs)" "(0::nat) \<le> 5"
    by (simp_all add: token_limiter_new_def u32_max_def duration_max_def nanos_per_sec_def u64_max_def)
  from token_limiter_rate [OF this] obtain g l' where run: "token_run ?reqs ?l = Some (g, l')"
    and le: "of_nat g \<le> of_nat 2 + of_nat 10 * (of_nat (5 - 0) / of_nat nanos_per_sec) * (1 + 1 / 2 ^ 50) +
      of_nat (length ?reqs) / (2 ^ 18 :: rat)" by blast
  have "(of_nat g :: rat) < 3" using le by (simp add: nanos_per_sec_def)
  then have "g < 3" by simp
  with run show ?thesis by (auto simp: token_limiter_new_def simp del: token_run.simps)
qed

section \<open>Quotas of a fixed window\<close>

text \<open>
  What a keyed fixed-window limiter promises. \<open>used s k w\<close> is the number of grants of the key \<open>k\<close>
  counted for the window \<open>w\<close>; \<open>request\<close> takes the window number of its clock reading.
\<close>

locale fixed_window =
  fixes quota :: "'s \<Rightarrow> nat"
    and valid :: "'s \<Rightarrow> bool"
    and used :: "'s \<Rightarrow> 'k \<Rightarrow> nat \<Rightarrow> nat"
    and request :: "'k \<Rightarrow> nat \<Rightarrow> 's \<Rightarrow> bool \<times> 's"
  assumes valid_request: "valid s \<Longrightarrow> valid (snd (request k w s))"
    and quota_request: "quota (snd (request k w s)) = quota s"
    and used_request: "valid s \<Longrightarrow>
      used (snd (request k w s)) k w = used s k w + (if fst (request k w s) then 1 else 0)"
    and used_other: "valid s \<Longrightarrow> k' \<noteq> k \<Longrightarrow> used (snd (request k w s)) k' w = used s k' w"
    and used_later: "valid s \<Longrightarrow> w < w' \<Longrightarrow> used s k' w' = 0 \<Longrightarrow> used (snd (request k w s)) k' w' = 0"
    and granted_below: "valid s \<Longrightarrow> fst (request k w s) \<Longrightarrow> used s k w < quota s"
begin

fun requests :: "('k \<times> nat) list \<Rightarrow> 's \<Rightarrow> bool list \<times> 's" where
  "requests [] s = ([], s)"
| "requests ((k, w) # rs) s =
     (let (ok, s1) = request k w s; (oks, s2) = requests rs s1 in (ok # oks, s2))"

declare requests.simps(2) [simp del]

definition granted :: "'k \<Rightarrow> nat \<Rightarrow> ('k \<times> nat) list \<Rightarrow> bool list \<Rightarrow> nat" where
  "granted k w rs oks = length (filter (\<lambda>(r, ok). ok \<and> r = (k, w)) (zip rs oks))"

lemma requests_Cons [simp]:
  "fst (requests ((k, w) # rs) s) = fst (request k w s) # fst (requests rs (snd (request k w s)))"
  by (simp add: requests.simps Let_def case_prod_beta)

lemma granted_Cons [simp]:
  "granted k w (r # rs) (ok # oks) = (if ok \<and> r = (k, w) then 1 else 0) + granted k w rs oks"
  by (simp add: granted_def)

lemma granted_none: "(k, w) \<notin> set rs \<Longrightarrow> granted k w rs oks = 0"
  by (auto simp: granted_def filter_empty_conv dest: set_zip_leftD)

text \<open>The window \<open>w\<close> is not counted yet when the first reading is before it.\<close>

definition fresh :: "'k \<Rightarrow> nat \<Rightarrow> ('k \<times> nat) list \<Rightarrow> 's \<Rightarrow> bool" where
  "fresh k w rs s \<longleftrightarrow> (\<exists>r \<in> set rs. snd r < w) \<longrightarrow> used s k w = 0"

text \<open>One request, seen from the key \<open>k\<close> and the window \<open>w\<close>.\<close>

lemma request_cases:
  assumes v: "valid s" and srt: "sorted (map snd ((k', w') # rs))" and f: "fresh k w ((k', w') # rs) s"
  obtains (mine) "(k', w') = (k, w)" "fresh k w rs (snd (request k' w' s))"
      "used (snd (request k' w' s)) k w = used s k w + (if fst (request k' w' s) then 1 else 0)"
  | (other) "(k', w') \<noteq> (k, w)" "fresh k w rs (snd (request k' w' s))" "used (snd (request k' w' s)) k w = used s k w"
  | (past) "(k, w) \<notin> set ((k', w') # rs)"
proof -
  consider "w' = w" "k' = k" | "w' = w" "k' \<noteq> k" | "w' < w" | "w < w'" by linarith
  then show thesis
  proof cases
    case 1
    then have "fresh k w rs (snd (request k' w' s))"
      using srt by (auto simp: fresh_def dest: leD)
    with 1 v show thesis by (intro mine) (simp_all add: used_request)
  next
    case 2
    then have "fresh k w rs (snd (request k' w' s))"
      using srt by (auto simp: fresh_def dest: leD)
    moreover have "used (snd (request k' w' s)) k w = used s k w"
      using 2 v by (metis used_other)
    ultimately show thesis using 2 by (intro other) simp_all
  next
    case 3
    then have "used s k w = 0" using f by (simp add: fresh_def)
    moreover from this have "used (snd (request k' w' s)) k w = 0" using v 3 by (intro used_later)
    ultimately show thesis using 3 by (intro other) (simp_all add: fresh_def)
  next
    case 4
    then show thesis using srt by (intro past) fastforce
  qed
qed

lemma granted_quota:
  assumes "valid s" "sorted (map snd rs)" "used s k w \<le> quota s" "fresh k w rs s"
  shows "used s k w + granted k w rs (fst (requests rs s)) \<le> quota s"
  using assms
proof (induction rs arbitrary: s)
  case Nil
  then show ?case by (simp add: granted_def)
next
  case (Cons r rs)
  obtain k' w' where r: "r = (k', w')" by (cases r)
  let ?s = "snd (request k' w' s)"
  have ok: "valid ?s" "sorted (map snd rs)" using Cons.prems by (simp_all add: r valid_request)
  note IH = Cons.IH [OF ok, unfolded quota_request]
  from Cons.prems(1,2,4) [unfolded r] show ?case
  proof (cases rule: request_cases [where k' = k' and w' = w' and rs = rs])
    case mine
    moreover have "used ?s k w \<le> quota s"
      using mine granted_below [OF Cons.prems(1), of k w] Cons.prems(3) by auto
    ultimately show ?thesis using IH by (simp add: r split: if_splits)
  next
    case other
    then show ?thesis using IH Cons.prems(3) by (auto simp: r)
  next
    case past
    then show ?thesis using Cons.prems(3) granted_none [OF past] by (simp only: r add_0_right)
  qed
qed

end

text \<open>A limiter that grants whenever the quota is not used up grants exactly the first ones.\<close>

locale exact_window = fixed_window quota valid used request
  for quota :: "'s \<Rightarrow> nat" and valid :: "'s \<Rightarrow> bool" and used :: "'s \<Rightarrow> 'k \<Rightarrow> nat \<Rightarrow> nat"
    and request :: "'k \<Rightarrow> nat \<Rightarrow> 's \<Rightarrow> bool \<times> 's" +
  assumes granted_iff: "valid s \<Longrightarrow> fst (request k w s) \<longleftrightarrow> used s k w < quota s"
begin

lemma granted_exact:
  assumes "valid s" "sorted (map snd rs)" "used s k w \<le> quota s" "fresh k w rs s"
  shows "granted k w rs (fst (requests rs s)) =
    min (quota s - used s k w) (length (filter (\<lambda>r. r = (k, w)) rs))"
  using assms
proof (induction rs arbitrary: s)
  case Nil
  then show ?case by (simp add: granted_def)
next
  case (Cons r rs)
  obtain k' w' where r: "r = (k', w')" by (cases r)
  let ?s = "snd (request k' w' s)"
  have ok: "valid ?s" "sorted (map snd rs)" using Cons.prems by (simp_all add: r valid_request)
  note IH = Cons.IH [OF ok, unfolded quota_request]
  from Cons.prems(1,2,4) [unfolded r] show ?case
  proof (cases rule: request_cases [where k' = k' and w' = w' and rs = rs])
    case mine
    moreover have "used ?s k w \<le> quota s"
      using mine granted_below [OF Cons.prems(1), of k w] Cons.prems(3) by auto
    moreover have "fst (request k w s) \<longleftrightarrow> used s k w < quota s" using Cons.prems(1) by (rule granted_iff)
    ultimately show ?thesis using IH by (auto simp: r split: if_splits)
  next
    case other
    then show ?thesis using IH Cons.prems(3) by (auto simp: r)
  next
    case past
    then have "filter (\<lambda>r. r = (k, w)) ((k', w') # rs) = []" by (auto simp: filter_empty_conv)
    with granted_none [OF past] show ?thesis by (simp only: r) simp
  qed
qed

end

text \<open>The two limiters as such counters.\<close>

definition window_used :: "('k, period_window) hmap \<Rightarrow> 'k \<Rightarrow> nat \<Rightarrow> nat" where
  "window_used ws k w =
     (case map_of ws k of None \<Rightarrow> 0 | Some e \<Rightarrow> if pw_window e = w then pw_used e else 0)"

lemma window_take_used:
  "window_used (snd (window_take quota d w k ws)) k' w' =
     (if k' = k then if w' = w then window_used ws k w + (if is_allowed (fst (window_take quota d w k ws)) then 1 else 0) else 0
      else window_used ws k' w')"
  by (auto simp: window_take_def window_used_def Let_def update_conv split: option.splits)

lemma window_take_allowed:
  "is_allowed (fst (window_take quota d w k ws)) \<longleftrightarrow> window_used ws k w < quota"
  by (auto simp: window_take_def window_used_def Let_def split: option.splits)

lemma window_take_ok: "hm_ok ws \<Longrightarrow> hm_ok (snd (window_take quota d w k ws))"
  by (simp add: window_take_def Let_def hm.ok_put)

definition period_request :: "'k \<Rightarrow> nat \<Rightarrow> 'k period_limiter \<Rightarrow> bool \<times> 'k period_limiter" where
  "period_request k w l =
     (let (d, ws) = window_take (pl_quota l) 0 w k (pl_windows l) in (is_allowed d, l\<lparr>pl_windows := ws\<rparr>))"

lemma period_request_simps [simp]:
  "fst (period_request k w l) \<longleftrightarrow> window_used (pl_windows l) k w < pl_quota l"
  "pl_windows (snd (period_request k w l)) = snd (window_take (pl_quota l) 0 w k (pl_windows l))"
  "pl_quota (snd (period_request k w l)) = pl_quota l" "pl_period (snd (period_request k w l)) = pl_period l"
  by (simp_all add: period_request_def Let_def case_prod_beta window_take_allowed)

interpretation pl: exact_window pl_quota "\<lambda>l. True" "\<lambda>l. window_used (pl_windows l)" period_request
  by unfold_locales (auto simp: window_take_used window_take_allowed)

lemma window_take_retry: "snd (window_take q d w k ws) = snd (window_take q 0 w k ws)"
  by (simp add: window_take_def Let_def)

lemma period_take_eq:
  "0 < as_millis (pl_period l) \<Longrightarrow>
   \<exists>d. period_take k now l = Some (d, snd (period_request k (now div as_millis (pl_period l)) l)) \<and>
     is_allowed d = fst (period_request k (now div as_millis (pl_period l)) l)"
  by (auto simp: period_take_def period_request_def Let_def case_prod_beta window_take_allowed
      window_take_retry [of _ "period_retry_after _ _"])

fun period_run :: "('k \<times> nat) list \<Rightarrow> 'k period_limiter \<Rightarrow> (bool list \<times> 'k period_limiter) option" where
  "period_run [] l = Some ([], l)"
| "period_run ((k, now) # reqs) l =
     (case period_take k now l of
        None \<Rightarrow> None
      | Some (d, l') \<Rightarrow> map_option (\<lambda>(ds, l''). (is_allowed d # ds, l'')) (period_run reqs l'))"

lemma period_run_requests:
  "0 < as_millis (pl_period l) \<Longrightarrow>
   \<exists>l'. period_run reqs l =
     Some (fst (pl.requests (map (\<lambda>(k, now). (k, now div as_millis (pl_period l))) reqs) l), l')"
proof (induction reqs arbitrary: l)
  case (Cons r reqs)
  obtain k now where r: "r = (k, now)" by (cases r)
  from period_take_eq [OF Cons.prems, of k now] Cons.IH [of "snd (period_request k (now div as_millis (pl_period l)) l)"]
  show ?case using Cons.prems by (auto simp: r)
qed simp



text \<open>
  A period that is not zero but shorter than a millisecond is accepted by \<open>PeriodLimiter::new\<close> and
  by \<open>RedisPeriodLimiter::new\<close>, and every later request panics with a division by zero.
\<close>

lemma period_submillisecond_panics:
  "\<exists>l r. period_limiter_new 999999 5 = Some l \<and> redis_period_new ''ns'' 999999 5 10 = Some r \<and>
     (\<forall>k ms. period_take k ms l = None \<and> bounded_take k ms (rp_rescue r) = None)"
  by (simp add: period_limiter_new_def redis_period_new_def period_take_def bounded_take_def as_millis_def
      u64_max_def)

section \<open>The bounded rescue map\<close>

definition bounded_request :: "string \<Rightarrow> nat \<Rightarrow> bounded_limiter \<Rightarrow> bool \<times> bounded_limiter" where
  "bounded_request k w l =
     (case bounded_take k (w * as_millis (bl_period l)) l of
        None \<Rightarrow> (False, l)
      | Some (d, l') \<Rightarrow> (is_allowed d, l'))"

definition bounded_valid :: "bounded_limiter \<Rightarrow> bool" where
  "bounded_valid l \<longleftrightarrow> 0 < as_millis (bl_period l) \<and> hm_ok (bl_windows l) \<and>
     0 < bl_max_keys l \<and> length (bl_windows l) \<le> bl_max_keys l"

lemma window_take_length:
  assumes "hm_ok ws"
  shows "length (snd (window_take q d w k ws)) = (if map_of ws k = None then Suc (length ws) else length ws)"
  using hm.size_put [OF assms, of k] by (simp add: window_take_def Let_def)

lemma window_used_retain:
  "hm_ok ws \<Longrightarrow> window_used (filter (\<lambda>(_, e). pw_window e = w) ws) k w' = (if w' = w then window_used ws k w else 0)"
  by (auto simp: window_used_def map_of_filter_pred split: option.splits)

text \<open>
  A request first makes room: with a full map and a new key it keeps only the entries of the current
  window; it fails when that does not help.
\<close>

lemma bounded_take_cases:
  assumes v: "bounded_valid l" and w: "w = now div as_millis (bl_period l)"
  obtains (full) kept where "kept = filter (\<lambda>(_, e). pw_window e = w) (bl_windows l)"
      "map_of (bl_windows l) k = None" "bl_max_keys l \<le> length kept"
      "bounded_take k now l = Some (OverQuota (period_retry_after (as_millis (bl_period l)) now), l\<lparr>bl_windows := kept\<rparr>)"
  | (room) ws d where "ws = bl_windows l \<or> ws = filter (\<lambda>(_, e). pw_window e = w) (bl_windows l)"
      "map_of ws k \<noteq> None \<or> length ws < bl_max_keys l" "hm_ok ws" "length ws \<le> bl_max_keys l"
      "d = fst (window_take (bl_quota l) (period_retry_after (as_millis (bl_period l)) now) w k ws)"
      "bounded_take k now l = Some (d, l\<lparr>bl_windows := snd (window_take (bl_quota l) 0 w k ws)\<rparr>)"
proof -
  let ?kept = "filter (\<lambda>(_, e). pw_window e = w) (bl_windows l)"
  have pos: "0 < as_millis (bl_period l)" and hm: "hm_ok (bl_windows l)"
    and len: "length (bl_windows l) \<le> bl_max_keys l" using v by (simp_all add: bounded_valid_def)
  have klen: "length ?kept \<le> bl_max_keys l" using len length_filter_le order_trans by blast
  note take = bounded_take_def [of k now l] window_take_retry [of _ "period_retry_after _ _"]
  consider (a) "map_of (bl_windows l) k = None" "bl_max_keys l \<le> length (bl_windows l)" "bl_max_keys l \<le> length ?kept"
    | (b) "map_of (bl_windows l) k = None" "bl_max_keys l \<le> length (bl_windows l)" "length ?kept < bl_max_keys l"
    | (c) "map_of (bl_windows l) k \<noteq> None \<or> length (bl_windows l) < bl_max_keys l" by linarith
  then show thesis
  proof cases
    case a
    then show thesis using pos by (intro full [of ?kept]) (simp_all add: take Let_def w)
  next
    case b
    then show thesis
      using pos hm klen by (intro room [of ?kept]) (simp_all add: take Let_def w case_prod_beta hm_ok_filter)
  next
    case c
    then show thesis
      using pos hm len by (intro room [of "bl_windows l"]) (auto simp: take Let_def w case_prod_beta)
  qed
qed

lemma bounded_take_valid:
  assumes v: "bounded_valid l" and tk: "bounded_take k now l = Some (d, l')"
  shows "bounded_valid l' \<and> bl_quota l' = bl_quota l \<and> bl_period l' = bl_period l \<and> bl_max_keys l' = bl_max_keys l"
  using v refl [of "now div as_millis (bl_period l)"]
proof (cases rule: bounded_take_cases [where k = k])
  case (full kept)
  have "length kept \<le> length (bl_windows l)" "hm_ok kept"
    using full(1) v by (simp_all add: bounded_valid_def hm_ok_filter)
  moreover have "l' = l\<lparr>bl_windows := kept\<rparr>" using full(4) tk by simp
  ultimately show ?thesis using v by (simp add: bounded_valid_def)
next
  case (room ws d')
  have l': "l' = l\<lparr>bl_windows := snd (window_take (bl_quota l) 0 (now div as_millis (bl_period l)) k ws)\<rparr>"
    using room(6) tk by simp
  show ?thesis
    using room(2,3,4) v
    by (auto simp: l' bounded_valid_def window_take_ok window_take_length)
qed

lemma bounded_take_used:
  assumes v: "bounded_valid l" and tk: "bounded_take k now l = Some (d, l')" and w: "w = now div as_millis (bl_period l)"
  shows "window_used (bl_windows l') k w = window_used (bl_windows l) k w + (if is_allowed d then 1 else 0)"
    "k' \<noteq> k \<Longrightarrow> window_used (bl_windows l') k' w = window_used (bl_windows l) k' w"
    "w < w' \<Longrightarrow> window_used (bl_windows l) k' w' = 0 \<Longrightarrow> window_used (bl_windows l') k' w' = 0"
    "is_allowed d \<Longrightarrow> window_used (bl_windows l) k w < bl_quota l"
proof -
  have hm: "hm_ok (bl_windows l)" using v by (simp add: bounded_valid_def)
  have "window_used (bl_windows l') k w = window_used (bl_windows l) k w + (if is_allowed d then 1 else 0) \<and>
    (k' \<noteq> k \<longrightarrow> window_used (bl_windows l') k' w = window_used (bl_windows l) k' w) \<and>
    (w < w' \<longrightarrow> window_used (bl_windows l) k' w' = 0 \<longrightarrow> window_used (bl_windows l') k' w' = 0) \<and>
    (is_allowed d \<longrightarrow> window_used (bl_windows l) k w < bl_quota l)"
    using v w
  proof (cases rule: bounded_take_cases [where k = k])
    case (full kept)
    then show ?thesis using tk hm by (auto simp: window_used_retain)
  next
    case (room ws d')
    have ws: "window_used ws x w = window_used (bl_windows l) x w"
      "window_used (bl_windows l) x y = 0 \<Longrightarrow> window_used ws x y = 0" for x y
      using room(1) hm by (auto simp: window_used_retain)
    have d: "d = d'" and l': "l' = l\<lparr>bl_windows := snd (window_take (bl_quota l) 0 w k ws)\<rparr>"
      using room(6) tk by simp_all
    show ?thesis
      using room(5) ws by (auto simp: l' d window_take_used window_take_allowed)
  qed
  then show "window_used (bl_windows l') k w = window_used (bl_windows l) k w + (if is_allowed d then 1 else 0)"
    "k' \<noteq> k \<Longrightarrow> window_used (bl_windows l') k' w = window_used (bl_windows l) k' w"
    "w < w' \<Longrightarrow> window_used (bl_windows l) k' w' = 0 \<Longrightarrow> window_used (bl_windows l') k' w' = 0"
    "is_allowed d \<Longrightarrow> window_used (bl_windows l) k w < bl_quota l"
    by blast+
qed

lemma bounded_take_total: "bounded_valid l \<Longrightarrow> \<exists>d l'. bounded_take k now l = Some (d, l')"
  by (rule bounded_take_cases [where k = k, OF _ refl]) auto

lemma bounded_request_eq:
  assumes "bounded_valid l"
  obtains d l' where "bounded_take k (w * as_millis (bl_period l)) l = Some (d, l')"
    "bounded_request k w l = (is_allowed d, l')" "w = w * as_millis (bl_period l) div as_millis (bl_period l)"
proof -
  obtain d l' where t: "bounded_take k (w * as_millis (bl_period l)) l = Some (d, l')"
    using bounded_take_total [OF assms] by blast
  then have "bounded_request k w l = (is_allowed d, l')" by (simp add: bounded_request_def)
  moreover have "w = w * as_millis (bl_period l) div as_millis (bl_period l)"
    using assms by (simp add: bounded_valid_def)
  ultimately show thesis using t that by blast
qed

interpretation bl: fixed_window bl_quota bounded_valid "\<lambda>l. window_used (bl_windows l)" bounded_request
proof
  fix l :: bounded_limiter and k k' :: string and w w' :: nat
  have keep: "bounded_take k n l = Some (d, l') \<Longrightarrow> bl_quota l' = bl_quota l" for n d l'
    by (auto simp: bounded_take_def Let_def split: if_splits prod.splits)
  show "bl_quota (snd (bounded_request k w l)) = bl_quota l"
    by (auto simp: bounded_request_def keep split: option.splits)
  assume v: "bounded_valid l"
  obtain d l' where t: "bounded_take k (w * as_millis (bl_period l)) l = Some (d, l')"
    and r: "bounded_request k w l = (is_allowed d, l')"
    and w: "w = w * as_millis (bl_period l) div as_millis (bl_period l)"
    using v by (rule bounded_request_eq)
  note used = bounded_take_used [OF v t w]
  show "bounded_valid (snd (bounded_request k w l))" using bounded_take_valid [OF v t] by (simp add: r)
  show "window_used (bl_windows (snd (bounded_request k w l))) k w
      = window_used (bl_windows l) k w + (if fst (bounded_request k w l) then 1 else 0)"
    using used(1) by (simp add: r)
  show "k' \<noteq> k \<Longrightarrow> window_used (bl_windows (snd (bounded_request k w l))) k' w = window_used (bl_windows l) k' w"
    using used(2) by (simp add: r)
  show "w < w' \<Longrightarrow> window_used (bl_windows l) k' w' = 0 \<Longrightarrow>
      window_used (bl_windows (snd (bounded_request k w l))) k' w' = 0"
    using used(3) by (simp add: r)
  show "fst (bounded_request k w l) \<Longrightarrow> window_used (bl_windows l) k w < bl_quota l"
    using used(4) by (simp add: r)
qed

fun bounded_run :: "(string \<times> nat) list \<Rightarrow> bounded_limiter \<Rightarrow> (bool list \<times> bounded_limiter) option" where
  "bounded_run [] l = Some ([], l)"
| "bounded_run ((k, now) # reqs) l =
     (case bounded_take k now l of
        None \<Rightarrow> None
      | Some (d, l') \<Rightarrow> map_option (\<lambda>(ds, l''). (is_allowed d # ds, l'')) (bounded_run reqs l'))"

lemma bounded_take_same_window:
  assumes "bounded_valid l"
  shows "map_option (\<lambda>(d, l'). (is_allowed d, l')) (bounded_take k now l) =
    Some (bounded_request k (now div as_millis (bl_period l)) l)"
proof -
  let ?p = "as_millis (bl_period l)" and ?w = "now div as_millis (bl_period l)"
  have "0 < ?p" using assms by (simp add: bounded_valid_def)
  then have "is_allowed (fst (window_take (bl_quota l) (period_retry_after ?p now) ?w k ws)) =
      is_allowed (fst (window_take (bl_quota l) (period_retry_after ?p (?w * ?p)) ?w k ws))" for ws
    by (simp add: window_take_allowed)
  with \<open>0 < ?p\<close> show ?thesis
    by (simp add: bounded_request_def bounded_take_def Let_def case_prod_beta
        window_take_retry [of _ "period_retry_after _ _"])
qed

lemma bounded_run_requests:
  "bounded_valid l \<Longrightarrow>
   \<exists>l'. bounded_run reqs l =
     Some (fst (bl.requests (map (\<lambda>(k, now). (k, now div as_millis (bl_period l))) reqs) l), l') \<and>
     bounded_valid l' \<and> bl_max_keys l' = bl_max_keys l"
proof (induction reqs arbitrary: l)
  case (Cons r reqs)
  obtain k now where r: "r = (k, now)" by (cases r)
  obtain d l1 where t: "bounded_take k now l = Some (d, l1)" using bounded_take_total [OF Cons.prems] by blast
  have q: "bounded_request k (now div as_millis (bl_period l)) l = (is_allowed d, l1)"
    using bounded_take_same_window [OF Cons.prems, of k now] t by simp
  note keep = bounded_take_valid [OF Cons.prems t]
  obtain l' where "bounded_run reqs l1 =
     Some (fst (bl.requests (map (\<lambda>(k, now). (k, now div as_millis (bl_period l1))) reqs) l1), l')"
     "bounded_valid l'" "bl_max_keys l' = bl_max_keys l1"
    using Cons.IH [of l1] keep by blast
  then show ?case using keep t q by (simp add: r)
qed simp

text \<open>
  The rescue map of the Redis period limiter enforces the quotas in bounded memory: for a clock
  that does not run backwards no request fails, no key is granted more than \<open>quota\<close> requests in a
  window, and the map never holds more than \<open>max_keys\<close> keys: room for a new key is made without
  forgetting a count of the current window.
\<close>

theorem bounded_limiter_quota:
  assumes new: "redis_period_new ns period quota max_keys = Some r" and pos: "0 < as_millis period"
    and srt: "sorted (map snd reqs)"
  shows "\<exists>oks l'. bounded_run reqs (rp_rescue r) = Some (oks, l') \<and> length (bl_windows l') \<le> max_keys \<and>
    length (filter (\<lambda>((k', now), ok). ok \<and> k' = k \<and> now div as_millis period = w) (zip reqs oks)) \<le> quota"
proof -
  let ?l = "rp_rescue r"
  have l: "?l = \<lparr>bl_period = period, bl_quota = quota, bl_max_keys = max_keys, bl_windows = []\<rparr>" "0 < max_keys"
    using new by (auto simp: redis_period_new_def split: if_splits)
  have v: "bounded_valid ?l" using l pos by (simp add: bounded_valid_def hm.ok_empty)
  let ?rs = "map (\<lambda>(k, now). (k, now div as_millis period)) reqs"
  have srt': "sorted (map snd ?rs)"
    using srt by (simp add: comp_def case_prod_beta sorted_map)
      (auto intro: sorted_wrt_mono_rel [rotated] div_le_mono)
  obtain l' where run: "bounded_run reqs ?l = Some (fst (bl.requests ?rs ?l), l')"
    "bounded_valid l'" "bl_max_keys l' = max_keys"
    using bounded_run_requests [OF v, of reqs] by (auto simp: l)
  have "bl.granted k w ?rs (fst (bl.requests ?rs ?l)) \<le> quota"
    using bl.granted_quota [OF v srt', of k w] by (simp add: l window_used_def bl.fresh_def)
  moreover have "bl.granted k w ?rs oks =
      length (filter (\<lambda>((k', now), ok). ok \<and> k' = k \<and> now div as_millis period = w) (zip reqs oks))" for oks
    by (auto simp: bl.granted_def zip_map1 filter_map comp_def intro!: arg_cong [where f = length] filter_cong)
  ultimately show ?thesis using run by (auto simp: bounded_valid_def)
qed

theorem bounded_limiter_quota_witness:
  "\<exists>r oks l'. redis_period_new ''ns'' 5000000 1 1 = Some r \<and>
    bounded_run [(''a'', 12), (''a'', 13), (''b'', 14), (''b'', 16)] (rp_rescue r) = Some (oks, l') \<and>
    length (bl_windows l') \<le> 1"
proof -
  obtain r where r: "redis_period_new ''ns'' 5000000 1 1 = Some r"
    by (auto simp: redis_period_new_def as_millis_def u64_max_def)
  have "0 < as_millis 5000000" "sorted (map snd [(''a'', 12), (''a'', 13), (''b'', 14), (''b'', 16::nat)])"
    by (simp_all add: as_millis_def)
  from bounded_limiter_quota [OF r this, of "''a''" 2] r show ?thesis by blast
qed

section \<open>The Redis monitor\<close>

text \<open>
  Runs of the monitor with the number of callers waiting for Redis. \<open>cancel\<close> is a caller whose future
  is dropped while it waits; the flag says whether the run has such callers.
\<close>

inductive monitor_run :: "bool \<Rightarrow> redis_monitor \<Rightarrow> nat \<Rightarrow> bool" for cancels where
  start: "monitor_run cancels monitor_default 0"
| attempt: "monitor_run cancels m n \<Longrightarrow> should_attempt_redis ms m = (True, m') \<Longrightarrow> monitor_run cancels m' (Suc n)"
| refuse: "monitor_run cancels m n \<Longrightarrow> should_attempt_redis ms m = (False, m') \<Longrightarrow>
    monitor_run cancels (monitor_rescue d m') n"
| success: "monitor_run cancels m (Suc n) \<Longrightarrow> monitor_run cancels (redis_success d m) n"
| failure: "monitor_run cancels m (Suc n) \<Longrightarrow>
    monitor_run cancels (monitor_rescue d (redis_failure interval ms m)) n"
| cancel: "cancels \<Longrightarrow> monitor_run cancels m (Suc n) \<Longrightarrow> monitor_run cancels m n"

lemma monitor_run_inv:
  "monitor_run cancels m n \<Longrightarrow> \<not> cancels \<Longrightarrow> rm_backend_state m \<le> 3 \<and> (rm_backend_state m = 3 \<longrightarrow> 0 < n)"
  by (induction rule: monitor_run.induct)
    (auto simp: monitor_default_def should_attempt_redis_def redis_success_def redis_failure_def
      monitor_rescue_def Let_def split: if_splits)

text \<open>
  Recovery: when no caller is waiting for Redis, and no waiting caller was ever dropped, the next
  caller tries Redis again as soon as the probe time has come.
\<close>

theorem monitor_recovers:
  assumes "monitor_run False m 0" and "rm_next_probe_at_ms m \<le> unix_millis_u64 ms"
  shows "fst (should_attempt_redis ms m)"
proof -
  have "rm_backend_state m \<le> 2" using monitor_run_inv [OF assms(1)] by simp
  then have "rm_backend_state m = 0 \<or> rm_backend_state m = 1 \<or> rm_backend_state m = 2" by linarith
  with assms(2) show ?thesis by (auto simp: should_attempt_redis_def)
qed

theorem monitor_recovers_witness:
  "fst (should_attempt_redis 2000 (monitor_rescue Allowed (redis_failure 1000 500 monitor_default)))"
proof -
  have "should_attempt_redis 400 monitor_default = (True, monitor_default)"
    by (simp add: should_attempt_redis_def monitor_default_def)
  from monitor_run.attempt [OF monitor_run.start this]
  have "monitor_run False (monitor_rescue Allowed (redis_failure 1000 500 monitor_default)) 0"
    by (rule monitor_run.failure)
  then show ?thesis
    by (rule monitor_recovers)
      (simp add: monitor_rescue_def redis_failure_def sat_add_def unix_millis_u64_def u64_max_def)
qed

text \<open>
  A recovery probe whose future is dropped leaves \<open>backend_state\<close> at 3, and no caller ever tries
  Redis again: the rest of the process's life is served by the rescue limiter.
\<close>

theorem monitor_cancelled_probe:
  "\<exists>m. monitor_run True m 0 \<and> rm_backend_state m = 3 \<and>
    (\<forall>ms. should_attempt_redis ms m = (False, m)) \<and>
    (\<forall>ms d. rm_backend_state (monitor_rescue d (snd (should_attempt_redis ms m))) = 3)"
proof -
  let ?failed = "monitor_rescue Allowed (redis_failure 1000 500 monitor_default)"
  let ?stuck = "?failed\<lparr>rm_backend_state := 3\<rparr>"
  have "should_attempt_redis 400 monitor_default = (True, monitor_default)"
    by (simp add: should_attempt_redis_def monitor_default_def)
  from monitor_run.attempt [OF monitor_run.start this] have "monitor_run True ?failed 0"
    by (rule monitor_run.failure)
  moreover have "should_attempt_redis 2000 ?failed = (True, ?stuck)"
    by (simp add: should_attempt_redis_def monitor_rescue_def redis_failure_def sat_add_def
        unix_millis_u64_def u64_max_def)
  ultimately have "monitor_run True ?stuck (Suc 0)" by (rule monitor_run.attempt)
  then have "monitor_run True ?stuck 0" by (rule monitor_run.cancel [OF TrueI])
  then show ?thesis by (intro exI [of _ ?stuck]) (simp add: should_attempt_redis_def monitor_rescue_def)
qed

end
