(* ===== verification/Load.thy ===== *)
theory Load
  imports Binary64
begin

text \<open>
  \<open>core/src/load.rs\<close>: the adaptive load shedder. Admission reads \<open>in_flight\<close>, decides under the state
  lock and then publishes its reservation with a compare-and-exchange, so the decision and the
  reservation are separate atomic steps; \<open>shed_step\<close> is the interleaving of those steps. The CPU
  reading of \<open>CpuSource::usage\<close> is an argument of the decision.
\<close>

section \<open>Configuration and state\<close>

datatype shedder_mode = Latency | CpuThroughput

record shedder_config =
  sc_max_concurrency :: nat
  sc_target_latency :: duration
  sc_sample_window :: nat
  sc_mode :: shedder_mode
  sc_cpu_threshold :: f64
  sc_bucket_duration :: duration
  sc_bucket_count :: nat
  sc_cooldown :: duration
  sc_in_flight_smoothing :: f64

definition shedder_config_new :: "nat \<Rightarrow> duration \<Rightarrow> shedder_config option" where
  "shedder_config_new max_concurrency target_latency =
     (if max_concurrency = 0 \<or> target_latency = 0 then None
      else Some \<lparr>sc_max_concurrency = max_concurrency, sc_target_latency = target_latency,
        sc_sample_window = 32, sc_mode = Latency, sc_cpu_threshold = mk (9 / 10),
        sc_bucket_duration = nanos_per_sec, sc_bucket_count = 10, sc_cooldown = nanos_per_sec,
        sc_in_flight_smoothing = Fin (1 / 2)\<rparr>)"

definition with_mode :: "shedder_mode \<Rightarrow> shedder_config \<Rightarrow> shedder_config" where
  "with_mode m c = c\<lparr>sc_mode := m\<rparr>"

definition shedder_config_production :: "nat \<Rightarrow> shedder_config option" where
  "shedder_config_production max_concurrency =
     map_option (with_mode CpuThroughput) (shedder_config_new max_concurrency (duration_from_millis 1))"

definition with_sample_window :: "nat \<Rightarrow> shedder_config \<Rightarrow> shedder_config option" where
  "with_sample_window n c = (if n = 0 then None else Some (c\<lparr>sc_sample_window := n\<rparr>))"

definition in_unit :: "f64 \<Rightarrow> bool" where
  "in_unit x \<longleftrightarrow> f_le (Fin 0) x \<and> f_le x (Fin 1) \<and> f_lt (Fin 0) x"

definition with_cpu_threshold :: "f64 \<Rightarrow> shedder_config \<Rightarrow> shedder_config option" where
  "with_cpu_threshold x c = (if in_unit x then Some (c\<lparr>sc_cpu_threshold := x\<rparr>) else None)"

definition with_rolling_window :: "duration \<Rightarrow> nat \<Rightarrow> shedder_config \<Rightarrow> shedder_config option" where
  "with_rolling_window d n c =
     (if d = 0 \<or> n = 0 then None else Some (c\<lparr>sc_bucket_duration := d, sc_bucket_count := n\<rparr>))"

definition with_cooldown :: "duration \<Rightarrow> shedder_config \<Rightarrow> shedder_config option" where
  "with_cooldown d c = (if d = 0 then None else Some (c\<lparr>sc_cooldown := d\<rparr>))"

definition with_in_flight_smoothing :: "f64 \<Rightarrow> shedder_config \<Rightarrow> shedder_config option" where
  "with_in_flight_smoothing x c = (if in_unit x then Some (c\<lparr>sc_in_flight_smoothing := x\<rparr>) else None)"

record shed_bucket =
  sb_started_at :: instant
  sb_completed :: nat
  sb_minimum_latency :: "duration option"

record shedder_state =
  ss_current_limit :: nat
  ss_sample_count :: nat
  ss_total_latency :: duration
  ss_buckets :: "shed_bucket list"
  ss_smoothed_in_flight :: f64
  ss_cooldown_until :: "instant option"

record shedder =
  sh_config :: shedder_config
  sh_in_flight :: nat
  sh_state :: shedder_state

definition fresh_bucket :: "instant \<Rightarrow> shed_bucket" where
  "fresh_bucket t = \<lparr>sb_started_at = t, sb_completed = 0, sb_minimum_latency = None\<rparr>"

definition shedder_new :: "shedder_config \<Rightarrow> instant \<Rightarrow> shedder" where
  "shedder_new c now =
     \<lparr>sh_config = c, sh_in_flight = 0,
      sh_state = \<lparr>ss_current_limit = sc_max_concurrency c, ss_sample_count = 0, ss_total_latency = 0,
        ss_buckets = [fresh_bucket now], ss_smoothed_in_flight = Fin 0, ss_cooldown_until = None\<rparr>\<rparr>"

section \<open>The bucket history\<close>

text \<open>The constructors leave \<open>bucket_duration\<close> positive; a zero would divide by zero.\<close>

definition rotate_buckets :: "shedder_config \<Rightarrow> instant \<Rightarrow> shedder_state \<Rightarrow> shedder_state" where
  "rotate_buckets c now s =
     (let latest = sb_started_at (last (ss_buckets s));
          steps = (now - latest) div sc_bucket_duration c mod 2 ^ 64;
          pushed = ss_buckets s @
            map (\<lambda>step. fresh_bucket (latest + sc_bucket_duration c * ((step mod 2 ^ 32 + 1) mod 2 ^ 32)))
              [0..<min steps (sc_bucket_count c)];
          kept = drop (length pushed - sc_bucket_count c) pushed in
      s\<lparr>ss_buckets := (if sc_bucket_count c \<le> steps then [fresh_bucket now] else kept)\<rparr>)"

definition rolling_capacity :: "shedder_config \<Rightarrow> shedder_state \<Rightarrow> f64 \<times> duration option" where
  "rolling_capacity c s =
     (let maximum = foldl max 0 (map sb_completed (ss_buckets s));
          latencies = List.map_filter sb_minimum_latency (ss_buckets s) in
      (f_div (f_nat maximum) (as_secs_f64 (sc_bucket_duration c)),
       if latencies = [] then None else Some (foldl min (hd latencies) latencies)))"

definition production_limit :: "shedder_config \<Rightarrow> shedder_state \<Rightarrow> nat" where
  "production_limit c s =
     (case rolling_capacity c s of
        (_, None) \<Rightarrow> sc_max_concurrency c
      | (throughput, Some latency) \<Rightarrow>
          min (f_to_usize (f_max (f_ceil (f_mul throughput (as_secs_f64 latency))) (Fin 1)))
            (sc_max_concurrency c))"

section \<open>Admission and completion\<close>

text \<open>
  One iteration of the loop in \<open>try_acquire\<close>, up to the compare-and-exchange: \<open>active\<close> is the value
  of \<open>in_flight\<close> that was read, the result is whether the iteration goes on to the exchange.
\<close>

definition shed_decide :: "nat \<Rightarrow> f64 \<Rightarrow> instant \<Rightarrow> shedder_config \<Rightarrow> shedder_state \<Rightarrow> bool \<times> shedder_state" where
  "shed_decide active usage now c s =
     (let s1 = rotate_buckets c now s;
          limit = (case sc_mode c of Latency \<Rightarrow> ss_current_limit s1 | CpuThroughput \<Rightarrow> production_limit c s1);
          s2 = s1\<lparr>ss_current_limit := limit\<rparr>;
          cooling_down = (case ss_cooldown_until s2 of None \<Rightarrow> False | Some until \<Rightarrow> now < until);
          cpu_overloaded = f_le (sc_cpu_threshold c) usage;
          fixed_capacity_exhausted = (sc_max_concurrency c \<le> active);
          dynamically_overloaded = (sc_mode c = CpuThroughput \<and> (cpu_overloaded \<or> cooling_down) \<and>
            limit \<le> active \<and> f_le (f_nat limit) (ss_smoothed_in_flight s2)) in
      if fixed_capacity_exhausted \<or> (sc_mode c = Latency \<and> limit \<le> active) \<or> dynamically_overloaded
      then (False, if cpu_overloaded then s2\<lparr>ss_cooldown_until := Some (now + sc_cooldown c)\<rparr> else s2)
      else (True, s2))"

definition smooth :: "shedder_config \<Rightarrow> nat \<Rightarrow> f64 \<Rightarrow> f64" where
  "smooth c active old =
     (let alpha = sc_in_flight_smoothing c in
      f_add (f_mul alpha (f_nat active)) (f_mul (f_sub (Fin 1) alpha) old))"

text \<open>The update of the smoothed value after a successful exchange.\<close>

definition shed_admitted :: "nat \<Rightarrow> shedder_config \<Rightarrow> shedder_state \<Rightarrow> shedder_state" where
  "shed_admitted active c s =
     s\<lparr>ss_smoothed_in_flight :=
         (if ss_smoothed_in_flight s = Fin 0 then f_nat (active + 1)
          else smooth c (active + 1) (ss_smoothed_in_flight s))\<rparr>"

text \<open>The sequential \<open>try_acquire\<close>: the exchange succeeds in the first iteration.\<close>

definition try_acquire :: "f64 \<Rightarrow> instant \<Rightarrow> shedder \<Rightarrow> instant option \<times> shedder" where
  "try_acquire usage now sh =
     (let active = sh_in_flight sh; (ok, s) = shed_decide active usage now (sh_config sh) (sh_state sh) in
      if ok
      then (Some now, sh\<lparr>sh_in_flight := active + 1, sh_state := shed_admitted active (sh_config sh) s\<rparr>)
      else (None, sh\<lparr>sh_state := s\<rparr>))"

text \<open>
  The part of \<open>ShedPermit::drop\<close> under the state lock; \<open>active\<close> is the count after the decrement and
  \<open>elapsed\<close> the latency of the call. Integer arithmetic on \<open>usize\<close> wraps at 64 bits.
\<close>

definition record_throughput :: "nat \<Rightarrow> duration \<Rightarrow> instant \<Rightarrow> shedder_config \<Rightarrow> shedder_state \<Rightarrow> shedder_state" where
  "record_throughput active elapsed now c s =
     (let s1 = rotate_buckets c now s;
          b = last (ss_buckets s1);
          b' = b\<lparr>sb_completed := sat_add u64_max (sb_completed b) 1,
                 sb_minimum_latency := Some (case sb_minimum_latency b of None \<Rightarrow> elapsed | Some old \<Rightarrow> min old elapsed)\<rparr>;
          s2 = s1\<lparr>ss_buckets := butlast (ss_buckets s1) @ [b'],
                  ss_smoothed_in_flight := smooth c active (ss_smoothed_in_flight s1)\<rparr> in
      s2\<lparr>ss_current_limit := production_limit c s2\<rparr>)"

definition record_latency :: "duration \<Rightarrow> shedder_config \<Rightarrow> shedder_state \<Rightarrow> shedder_state" where
  "record_latency elapsed c s =
     (let s1 = s\<lparr>ss_sample_count := ss_sample_count s + 1, ss_total_latency := ss_total_latency s + elapsed\<rparr> in
      if ss_sample_count s1 < sc_sample_window c then s1
      else
        let average = ss_total_latency s1 div (ss_sample_count s1 mod 2 ^ 32);
            limit = (if sc_target_latency c < average
                     then max 1 (ss_current_limit s1 * 9 mod 2 ^ 64 div 10)
                     else min ((ss_current_limit s1 + 1) mod 2 ^ 64) (sc_max_concurrency c)) in
        s1\<lparr>ss_current_limit := limit, ss_sample_count := 0, ss_total_latency := 0\<rparr>)"

definition shed_record :: "nat \<Rightarrow> duration \<Rightarrow> instant \<Rightarrow> shedder_config \<Rightarrow> shedder_state \<Rightarrow> shedder_state" where
  "shed_record active elapsed now c s =
     (if sc_mode c = CpuThroughput then record_throughput active elapsed now c s
      else record_latency elapsed c s)"

definition permit_drop :: "instant \<Rightarrow> instant \<Rightarrow> shedder \<Rightarrow> shedder" where
  "permit_drop started_at now sh =
     (let active = sh_in_flight sh - 1 in
      sh\<lparr>sh_in_flight := active,
         sh_state := shed_record active (now - started_at) now (sh_config sh) (sh_state sh)\<rparr>)"

section \<open>The CPU sampler\<close>

record cpu_state =
  cpu_wall :: instant
  cpu_time :: duration
  cpu_usage :: f64

definition cpu_source_new :: "instant \<Rightarrow> duration \<Rightarrow> cpu_state" where
  "cpu_source_new now process_cpu_time = \<lparr>cpu_wall = now, cpu_time = process_cpu_time, cpu_usage = Fin 0\<rparr>"

definition cpu_source_usage :: "instant \<Rightarrow> duration \<Rightarrow> nat \<Rightarrow> cpu_state \<Rightarrow> f64 \<times> cpu_state" where
  "cpu_source_usage now process_cpu_time cores s =
     (let wall = now - cpu_wall s in
      if wall < duration_from_millis 100 then (cpu_usage s, s)
      else
        let used = as_secs_f64 (process_cpu_time - cpu_time s);
            u = f_clamp (Fin 0) (Fin 1) (f_div (f_div used (as_secs_f64 wall)) (f_nat cores)) in
        (u, \<lparr>cpu_wall = now, cpu_time = process_cpu_time, cpu_usage = u\<rparr>))"

section \<open>Interleaved admission\<close>

text \<open>
  The shared shedder with the callers that were approved and have yet to exchange (with the value they
  read), the permits held, and the permits that were released from \<open>in_flight\<close> and have yet to take
  the state lock.
\<close>

record shed_system =
  sy_shedder :: shedder
  sy_approved :: "(nat \<times> instant) list"
  sy_permits :: "instant list"
  sy_releasing :: "(nat \<times> instant) list"

inductive shed_step :: "shed_system \<Rightarrow> shed_system \<Rightarrow> bool" where
  approve: "shed_decide active usage now (sh_config sh) (sh_state sh) = (True, s) \<Longrightarrow>
    shed_step \<lparr>sy_shedder = sh, sy_approved = as, sy_permits = ps, sy_releasing = rs\<rparr>
      \<lparr>sy_shedder = sh\<lparr>sh_state := s\<rparr>, sy_approved = (active, now) # as, sy_permits = ps, sy_releasing = rs\<rparr>"
| shed: "shed_decide active usage now (sh_config sh) (sh_state sh) = (False, s) \<Longrightarrow>
    shed_step \<lparr>sy_shedder = sh, sy_approved = as, sy_permits = ps, sy_releasing = rs\<rparr>
      \<lparr>sy_shedder = sh\<lparr>sh_state := s\<rparr>, sy_approved = as, sy_permits = ps, sy_releasing = rs\<rparr>"
| exchange: "(active, t) \<in> set as \<Longrightarrow> sh_in_flight sh = active \<Longrightarrow>
    shed_step \<lparr>sy_shedder = sh, sy_approved = as, sy_permits = ps, sy_releasing = rs\<rparr>
      \<lparr>sy_shedder = sh\<lparr>sh_in_flight := active + 1\<rparr>, sy_approved = remove1 (active, t) as,
       sy_permits = t # ps, sy_releasing = rs\<rparr>"
| retry: "(active, t) \<in> set as \<Longrightarrow>
    shed_step \<lparr>sy_shedder = sh, sy_approved = as, sy_permits = ps, sy_releasing = rs\<rparr>
      \<lparr>sy_shedder = sh, sy_approved = remove1 (active, t) as, sy_permits = ps, sy_releasing = rs\<rparr>"
| smoothing:
    "shed_step \<lparr>sy_shedder = sh, sy_approved = as, sy_permits = ps, sy_releasing = rs\<rparr>
      \<lparr>sy_shedder = sh\<lparr>sh_state := shed_admitted active (sh_config sh) (sh_state sh)\<rparr>,
       sy_approved = as, sy_permits = ps, sy_releasing = rs\<rparr>"
| release: "t \<in> set ps \<Longrightarrow>
    shed_step \<lparr>sy_shedder = sh, sy_approved = as, sy_permits = ps, sy_releasing = rs\<rparr>
      \<lparr>sy_shedder = sh\<lparr>sh_in_flight := sh_in_flight sh - 1\<rparr>, sy_approved = as, sy_permits = remove1 t ps,
       sy_releasing = (sh_in_flight sh - 1, t) # rs\<rparr>"
| measure: "(active, t) \<in> set rs \<Longrightarrow>
    shed_step \<lparr>sy_shedder = sh, sy_approved = as, sy_permits = ps, sy_releasing = rs\<rparr>
      \<lparr>sy_shedder = sh\<lparr>sh_state := shed_record active (now - t) now (sh_config sh) (sh_state sh)\<rparr>,
       sy_approved = as, sy_permits = ps, sy_releasing = remove1 (active, t) rs\<rparr>"

definition shed_start :: "shedder_config \<Rightarrow> instant \<Rightarrow> shed_system" where
  "shed_start c now = \<lparr>sy_shedder = shedder_new c now, sy_approved = [], sy_permits = [], sy_releasing = []\<rparr>"

definition limit_ok :: "shedder_config \<Rightarrow> shedder_state \<Rightarrow> bool" where
  "limit_ok c s \<longleftrightarrow> 1 \<le> ss_current_limit s \<and> ss_current_limit s \<le> sc_max_concurrency c"

definition shed_inv :: "shedder_config \<Rightarrow> shed_system \<Rightarrow> bool" where
  "shed_inv c y \<longleftrightarrow>
     sh_config (sy_shedder y) = c \<and>
     sh_in_flight (sy_shedder y) = length (sy_permits y) \<and>
     sh_in_flight (sy_shedder y) \<le> sc_max_concurrency c \<and>
     (\<forall>(active, _) \<in> set (sy_approved y). active < sc_max_concurrency c) \<and>
     limit_ok c (sh_state (sy_shedder y))"

lemma f_max_one: "1 \<le> f_to_usize (f_max x (Fin 1))"
  by (cases x) (auto simp: f_max_def u64_max_def Suc_le_eq)

lemma production_limit_ok:
  "0 < sc_max_concurrency c \<Longrightarrow> 1 \<le> production_limit c s \<and> production_limit c s \<le> sc_max_concurrency c"
  using f_max_one by (auto simp: production_limit_def Suc_le_eq split: prod.splits option.splits)

lemma limit_ok_rotate: "limit_ok c (rotate_buckets c' now s) = limit_ok c s"
  by (simp add: limit_ok_def rotate_buckets_def Let_def)

lemma shed_decide_ok:
  assumes "0 < sc_max_concurrency c" "limit_ok c s" "shed_decide active usage now c s = (ok, s')"
  shows "limit_ok c s' \<and> (ok \<longrightarrow> active < sc_max_concurrency c)"
proof -
  let ?s = "rotate_buckets c now s"
  have r: "1 \<le> ss_current_limit ?s" "ss_current_limit ?s \<le> sc_max_concurrency c"
    using assms(2) limit_ok_rotate [of c c now s] by (simp_all add: limit_ok_def)
  have p: "1 \<le> production_limit c ?s" "production_limit c ?s \<le> sc_max_concurrency c"
    using production_limit_ok [OF assms(1)] by simp_all
  from assms(3) r p show ?thesis
    by (auto simp: shed_decide_def limit_ok_def Let_def split: if_splits shedder_mode.splits)
qed

lemma limit_ok_record:
  assumes "0 < sc_max_concurrency c" "sc_max_concurrency c < u64_max" "limit_ok c s"
  shows "limit_ok c (shed_record active elapsed now c s)"
proof (cases "sc_mode c = CpuThroughput")
  case True
  then show ?thesis
    using production_limit_ok [OF assms(1)]
    by (simp add: shed_record_def record_throughput_def limit_ok_def Let_def)
next
  case False
  have le: "1 \<le> ss_current_limit s" "ss_current_limit s \<le> sc_max_concurrency c"
    using assms(3) by (simp_all add: limit_ok_def)
  have "ss_current_limit s * 9 mod 2 ^ 64 \<le> ss_current_limit s * 9" by (rule mod_less_eq_dividend)
  then have "ss_current_limit s * 9 mod 2 ^ 64 div 10 \<le> ss_current_limit s * 9 div 10" by (rule div_le_mono)
  also have "\<dots> \<le> ss_current_limit s" by simp
  finally have "ss_current_limit s * 9 mod 2 ^ 64 div 10 \<le> sc_max_concurrency c" using le by simp
  moreover have "(ss_current_limit s + 1) mod 2 ^ 64 = ss_current_limit s + 1"
    using le assms(2) by (intro mod_less) (simp add: u64_max_def)
  ultimately show ?thesis
    using False le assms(1) by (simp add: shed_record_def record_latency_def limit_ok_def Let_def)
qed

lemma shed_inv_step:
  assumes pos: "0 < sc_max_concurrency c" "sc_max_concurrency c < u64_max"
  shows "shed_step y y' \<Longrightarrow> shed_inv c y \<Longrightarrow> shed_inv c y'"
proof (induction rule: shed_step.induct)
  case (approve active usage now sh s as ps rs)
  then show ?case using shed_decide_ok [OF pos(1)] by (auto simp: shed_inv_def)
next
  case (shed active usage now sh s as ps rs)
  then show ?case using shed_decide_ok [OF pos(1)] by (auto simp: shed_inv_def)
next
  case (exchange active t as sh ps rs)
  then show ?case
    by (auto simp: shed_inv_def dest: subsetD [OF set_remove1_subset])
next
  case (retry active t as sh ps rs)
  then show ?case by (auto simp: shed_inv_def dest: subsetD [OF set_remove1_subset])
next
  case (smoothing sh as ps rs active)
  then show ?case by (auto simp: shed_inv_def shed_admitted_def limit_ok_def)
next
  case (release t ps sh as rs)
  then show ?case by (auto simp: shed_inv_def length_remove1)
next
  case (measure active t rs sh as ps now)
  then show ?case using limit_ok_record [OF pos] by (auto simp: shed_inv_def)
qed

text \<open>
  C24. The shedder never admits more than \<open>max_concurrency\<close> calls at a time. In every state reachable
  by interleaved admissions, exchanges and releases of any number of callers, the calls in flight are
  exactly the permits held and at most \<open>max_concurrency\<close>, and the adaptive limit stays between 1 and
  \<open>max_concurrency\<close>.
\<close>

theorem shedder_capacity:
  assumes "shed_step\<^sup>*\<^sup>* (shed_start c now) y" and "0 < sc_max_concurrency c" and "sc_max_concurrency c < u64_max"
  shows "sh_in_flight (sy_shedder y) = length (sy_permits y) \<and>
    length (sy_permits y) \<le> sc_max_concurrency c \<and>
    1 \<le> ss_current_limit (sh_state (sy_shedder y)) \<and>
    ss_current_limit (sh_state (sy_shedder y)) \<le> sc_max_concurrency c"
proof -
  have "shed_inv c (shed_start c now)"
    using assms(2) by (simp add: shed_inv_def shed_start_def shedder_new_def limit_ok_def)
  with assms(1) have "shed_inv c y"
    by (induction rule: rtranclp_induct) (auto intro: shed_inv_step [OF assms(2,3)])
  then show ?thesis by (simp add: shed_inv_def limit_ok_def)
qed

lemma try_acquire_steps:
  "try_acquire usage now sh = (Some t, sh') \<Longrightarrow>
   shed_step\<^sup>*\<^sup>* \<lparr>sy_shedder = sh, sy_approved = [], sy_permits = ps, sy_releasing = rs\<rparr>
     \<lparr>sy_shedder = sh', sy_approved = [], sy_permits = t # ps, sy_releasing = rs\<rparr>"
proof -
  assume a: "try_acquire usage now sh = (Some t, sh')"
  obtain s where d: "shed_decide (sh_in_flight sh) usage now (sh_config sh) (sh_state sh) = (True, s)"
    and t: "t = now"
    and sh': "sh' = sh\<lparr>sh_in_flight := sh_in_flight sh + 1,
      sh_state := shed_admitted (sh_in_flight sh) (sh_config sh) s\<rparr>"
    using a by (auto simp: try_acquire_def Let_def split: prod.splits if_splits)
  let ?n = "sh_in_flight sh"
  have 1: "shed_step \<lparr>sy_shedder = sh, sy_approved = [], sy_permits = ps, sy_releasing = rs\<rparr>
      \<lparr>sy_shedder = sh\<lparr>sh_state := s\<rparr>, sy_approved = [(?n, now)], sy_permits = ps, sy_releasing = rs\<rparr>"
    using d by (rule shed_step.approve)
  have 2: "shed_step
      \<lparr>sy_shedder = sh\<lparr>sh_state := s\<rparr>, sy_approved = [(?n, now)], sy_permits = ps, sy_releasing = rs\<rparr>
      \<lparr>sy_shedder = sh\<lparr>sh_state := s, sh_in_flight := ?n + 1\<rparr>, sy_approved = [],
      sy_permits = now # ps, sy_releasing = rs\<rparr>"
    using shed_step.exchange [of ?n now "[(?n, now)]" "sh\<lparr>sh_state := s\<rparr>" ps rs] by simp
  have 3: "shed_step
      \<lparr>sy_shedder = sh\<lparr>sh_state := s, sh_in_flight := ?n + 1\<rparr>, sy_approved = [],
       sy_permits = now # ps, sy_releasing = rs\<rparr>
      \<lparr>sy_shedder = sh', sy_approved = [], sy_permits = now # ps, sy_releasing = rs\<rparr>"
    using shed_step.smoothing [of "sh\<lparr>sh_state := s, sh_in_flight := ?n + 1\<rparr>" "[]" "now # ps" rs ?n]
    by (simp add: sh')
  show ?thesis
    unfolding t using r_into_rtranclp [where r = shed_step, OF 1] r_into_rtranclp [where r = shed_step, OF 2]
      r_into_rtranclp [where r = shed_step, OF 3] by (meson rtranclp_trans)
qed

theorem shedder_capacity_witness:
  "\<exists>c y. shedder_config_new 2 1000 = Some c \<and> shed_step\<^sup>*\<^sup>* (shed_start c 0) y \<and> sy_permits y = [5] \<and>
    sh_in_flight (sy_shedder y) = 1"
proof -
  obtain c where c: "shedder_config_new 2 1000 = Some c" "sc_max_concurrency c = 2" "sc_mode c = Latency"
    by (auto simp: shedder_config_new_def)
  have "\<exists>sh'. try_acquire (Fin 0) 5 (shedder_new c 0) = (Some 5, sh')"
    using c by (simp add: try_acquire_def shed_decide_def shedder_new_def rotate_buckets_def Let_def)
  then obtain sh' where "try_acquire (Fin 0) 5 (shedder_new c 0) = (Some 5, sh')" by blast
  from try_acquire_steps [OF this, of "[]" "[]"] have
    run: "shed_step\<^sup>*\<^sup>* (shed_start c 0) \<lparr>sy_shedder = sh', sy_approved = [], sy_permits = [5], sy_releasing = []\<rparr>"
    by (simp add: shed_start_def)
  from shedder_capacity [OF this] c(2) have "sh_in_flight sh' = 1" by (simp add: u64_max_def)
  with run c(1) show ?thesis by (auto intro!: exI [of _ c])
qed

end
