(* ===== verification/Bloom.thy ===== *)
theory Bloom
  imports Binary64 "HOL-Library.Word"
begin

unbundle bit_operations_syntax

text \<open>
  \<open>core/src/bloom.rs\<close>: the in-memory Bloom filter, with its two FNV hashes and its bit array of
  64-bit words. The logarithm and the power function of the platform are parameters of \<open>with_rate\<close>.
\<close>

section \<open>Model\<close>

datatype bloom_error = ZeroBits | ZeroHashFunctions | ZeroExpectedItems | InvalidFalsePositiveRate f64

record bloom =
  bf_bits :: "64 word list"
  bf_bit_count :: nat
  bf_hash_functions :: nat
  bf_insertions :: "64 word"

definition bloom_new :: "nat \<Rightarrow> nat \<Rightarrow> bloom_error + bloom" where
  "bloom_new bit_count hash_functions =
     (if bit_count = 0 then Inl ZeroBits
      else if hash_functions = 0 then Inl ZeroHashFunctions
      else Inr \<lparr>bf_bits = replicate ((bit_count + 63) div 64) 0, bf_bit_count = bit_count,
                bf_hash_functions = hash_functions, bf_insertions = 0\<rparr>)"

text \<open>\<open>f64::round\<close> rounds half away from zero; \<open>as u32\<close> saturates.\<close>

fun f_round :: "f64 \<Rightarrow> f64" where
  "f_round (Fin r) = Fin (if 0 \<le> r then of_int \<lfloor>r + 1 / 2\<rfloor> else - of_int \<lfloor>- r + 1 / 2\<rfloor>)"
| "f_round x = x"

definition ln_2 :: f64 where
  "ln_2 = Fin (6243314768165359 / 9007199254740992)"

definition with_rate_bits :: "(f64 \<Rightarrow> f64) \<Rightarrow> (f64 \<Rightarrow> f64) \<Rightarrow> nat \<Rightarrow> f64 \<Rightarrow> nat" where
  "with_rate_bits ln_f square_f items rate =
     f_to_usize (f_ceil (f_div (f_neg (f_mul (f_nat items) (ln_f rate))) (square_f ln_2)))"

definition bloom_with_rate :: "(f64 \<Rightarrow> f64) \<Rightarrow> (f64 \<Rightarrow> f64) \<Rightarrow> nat \<Rightarrow> f64 \<Rightarrow> bloom_error + bloom" where
  "bloom_with_rate ln_f square_f items rate =
     (if items = 0 then Inl ZeroExpectedItems
      else if \<not> (f_le (Fin 0) rate \<and> f_lt rate (Fin 1)) then Inl (InvalidFalsePositiveRate rate)
      else
        let bit_count = with_rate_bits ln_f square_f items rate;
            hash_functions = min u32_max (f_to_usize (f_max (f_round
              (f_mul (f_div (f_nat bit_count) (f_nat items)) ln_2)) (Fin 1))) in
        bloom_new bit_count hash_functions)"

definition fnv_step :: "64 word \<Rightarrow> char \<Rightarrow> 64 word" where
  "fnv_step hash byte = (hash XOR of_nat (of_char byte)) * 0x100000001b3"

definition hashes :: "string \<Rightarrow> 64 word \<times> 64 word" where
  "hashes bytes =
     (foldl fnv_step 0xcbf29ce484222325 bytes,
      foldl fnv_step (0xcbf29ce484222325 XOR 0x9e3779b97f4a7c15) (rev bytes) OR 1)"

definition indices :: "bloom \<Rightarrow> 64 word \<Rightarrow> 64 word \<Rightarrow> nat list" where
  "indices b first second =
     map (\<lambda>iteration. unat (first + of_nat iteration * second) mod bf_bit_count b) [0..<bf_hash_functions b]"

definition bit_mask :: "nat \<Rightarrow> 64 word" where
  "bit_mask index = push_bit (index mod 64) 1"

definition set_index :: "nat \<Rightarrow> bool \<times> 64 word list \<Rightarrow> bool \<times> 64 word list" where
  "set_index index cb =
     (let word = index div 64; mask = bit_mask index in
      (fst cb \<or> snd cb ! word AND mask = 0, (snd cb)[word := snd cb ! word OR mask]))"

definition bloom_insert :: "string \<Rightarrow> bloom \<Rightarrow> bool \<times> bloom" where
  "bloom_insert v b =
     (let (first, second) = hashes v;
          (changed, bits) = fold set_index (indices b first second) (False, bf_bits b) in
      (changed, b\<lparr>bf_bits := bits, bf_insertions := bf_insertions b + (if changed then 1 else 0)\<rparr>))"

definition bloom_contains :: "string \<Rightarrow> bloom \<Rightarrow> bool" where
  "bloom_contains v b =
     (let (first, second) = hashes v in
      list_all (\<lambda>index. bf_bits b ! (index div 64) AND bit_mask index \<noteq> 0) (indices b first second))"

definition bloom_clear :: "bloom \<Rightarrow> bloom" where
  "bloom_clear b = b\<lparr>bf_bits := replicate (length (bf_bits b)) 0, bf_insertions := 0\<rparr>"

section \<open>The bit array as a set\<close>

definition bloom_ok :: "bloom \<Rightarrow> bool" where
  "bloom_ok b \<longleftrightarrow> 0 < bf_bit_count b \<and> 0 < bf_hash_functions b \<and> bf_bit_count b \<le> 64 * length (bf_bits b)"

definition bits_set :: "64 word list \<Rightarrow> nat set" where
  "bits_set bits = {i. i div 64 < length bits \<and> bit (bits ! (i div 64)) (i mod 64)}"

definition item_bits :: "bloom \<Rightarrow> string \<Rightarrow> nat set" where
  "item_bits b v = set (indices b (fst (hashes v)) (snd (hashes v)))"

lemma bit_mask_iff: "bit (bit_mask i) n \<longleftrightarrow> n = i mod 64"
  by (auto simp: bit_simps bit_mask_def)

lemma mask_test: "w AND bit_mask i \<noteq> 0 \<longleftrightarrow> bit w (i mod 64)"
proof
  assume "w AND bit_mask i \<noteq> 0"
  then obtain n where "bit (w AND bit_mask i) n" by (metis bit_0_eq bit_eqI bot_apply bot_bool_def)
  then show "bit w (i mod 64)" by (auto simp: bit_and_iff bit_mask_iff)
next
  assume "bit w (i mod 64)"
  then have "bit (w AND bit_mask i) (i mod 64)" by (simp add: bit_and_iff bit_mask_iff)
  then show "w AND bit_mask i \<noteq> 0" by (metis bit_0_eq bot_apply bot_bool_def)
qed

lemma mask_set: "bit (w OR bit_mask i) n \<longleftrightarrow> bit w n \<or> n = i mod 64"
  by (simp add: bit_or_iff bit_mask_iff)

lemma bits_set_update:
  assumes "i div 64 < length bits"
  shows "bits_set (bits[i div 64 := bits ! (i div 64) OR bit_mask i]) = insert i (bits_set bits)"
proof -
  have eq: "j div 64 = i div 64 \<and> j mod 64 = i mod 64 \<longleftrightarrow> j = i" for j
    by (metis div_mult_mod_eq)
  have "j \<in> bits_set (bits[i div 64 := bits ! (i div 64) OR bit_mask i]) \<longleftrightarrow> j \<in> insert i (bits_set bits)" for j
    using assms eq [of j] by (cases "j div 64 = i div 64") (auto simp: bits_set_def mask_set)
  then show ?thesis by blast
qed

lemma fold_set_index:
  "\<forall>i \<in> set is. i div 64 < length bits \<Longrightarrow>
   length (snd (fold set_index is (c, bits))) = length bits \<and>
   bits_set (snd (fold set_index is (c, bits))) = bits_set bits \<union> set is \<and>
   fst (fold set_index is (c, bits)) = (c \<or> \<not> set is \<subseteq> bits_set bits)"
proof (induction "is" arbitrary: c bits)
  case (Cons i "is")
  let ?bits = "bits[i div 64 := bits ! (i div 64) OR bit_mask i]"
  have i: "i div 64 < length bits" using Cons.prems by simp
  have "bits ! (i div 64) AND bit_mask i = 0 \<longleftrightarrow> i \<notin> bits_set bits"
    using mask_test [of "bits ! (i div 64)" i] i by (auto simp: bits_set_def)
  then have step: "fold set_index (i # is) (c, bits) = fold set_index is (c \<or> i \<notin> bits_set bits, ?bits)"
    by (simp add: set_index_def Let_def)
  have "\<forall>i \<in> set is. i div 64 < length ?bits" using Cons.prems by simp
  from Cons.IH [OF this, of "c \<or> i \<notin> bits_set bits"] show ?case
    unfolding step bits_set_update [OF i] by auto
qed simp

lemma indices_range:
  assumes "bloom_ok b" "i \<in> set (indices b x y)"
  shows "i div 64 < length (bf_bits b)"
proof -
  have "i < bf_bit_count b" using assms by (auto simp: indices_def bloom_ok_def)
  then show ?thesis using assms(1) by (auto simp: bloom_ok_def intro: less_mult_imp_div_less)
qed

lemma bloom_contains_iff:
  assumes "bloom_ok b"
  shows "bloom_contains v b \<longleftrightarrow> item_bits b v \<subseteq> bits_set (bf_bits b)"
  using indices_range [OF assms, of _ "fst (hashes v)" "snd (hashes v)"]
  by (auto simp: bloom_contains_def item_bits_def bits_set_def mask_test case_prod_beta list_all_iff Let_def)

lemma bloom_insert_spec:
  assumes "bloom_ok b"
  shows "bloom_ok (snd (bloom_insert v b)) \<and> item_bits (snd (bloom_insert v b)) = item_bits b \<and>
    bits_set (bf_bits (snd (bloom_insert v b))) = bits_set (bf_bits b) \<union> item_bits b v \<and>
    (fst (bloom_insert v b) \<longleftrightarrow> \<not> bloom_contains v b)"
proof -
  have "\<forall>i \<in> set (indices b (fst (hashes v)) (snd (hashes v))). i div 64 < length (bf_bits b)"
    using indices_range [OF assms] by blast
  note f = fold_set_index [OF this, of False]
  show ?thesis
    using f assms
    by (auto simp: bloom_insert_def bloom_contains_iff Let_def case_prod_beta item_bits_def indices_def bloom_ok_def
        fun_eq_iff)
qed

lemma bloom_new_ok: "bloom_new n k = Inr b \<Longrightarrow> bloom_ok b \<and> bits_set (bf_bits b) = {}"
  by (auto simp: bloom_new_def bloom_ok_def bits_set_def split: if_splits)

definition bloom_insert_all :: "string list \<Rightarrow> bloom \<Rightarrow> bloom" where
  "bloom_insert_all vs b = fold (\<lambda>v b. snd (bloom_insert v b)) vs b"

lemma bloom_insert_all_spec:
  "bloom_ok b \<Longrightarrow> bloom_ok (bloom_insert_all vs b) \<and> item_bits (bloom_insert_all vs b) = item_bits b \<and>
   bits_set (bf_bits (bloom_insert_all vs b)) = bits_set (bf_bits b) \<union> (\<Union>v \<in> set vs. item_bits b v)"
proof (induction vs arbitrary: b)
  case (Cons v vs)
  note s = bloom_insert_spec [OF Cons.prems, of v]
  from Cons.IH [of "snd (bloom_insert v b)"] s show ?case
    by (simp add: bloom_insert_all_def Un_assoc)
qed (simp add: bloom_insert_all_def)

text \<open>
  The filter has no false negatives, and \<open>insert\<close> and \<open>contains\<close> agree: after any sequence of
  insertions every inserted item is reported, an insertion reports a change exactly when the item was
  not reported before, and a new or cleared filter reports nothing. No index is out of range.
\<close>

theorem bloom_no_false_negatives:
  assumes "bloom_new n k = Inr b0"
  shows "let b = bloom_insert_all vs b0 in
    (\<forall>v \<in> set vs. bloom_contains v b) \<and>
    (\<forall>v. fst (bloom_insert v b) \<longleftrightarrow> \<not> bloom_contains v b) \<and>
    (\<forall>v. \<not> bloom_contains v b0 \<and> \<not> bloom_contains v (bloom_clear b)) \<and>
    (\<forall>v. \<forall>i \<in> set (indices b (fst (hashes v)) (snd (hashes v))). i div 64 < length (bf_bits b))"
proof -
  let ?b = "bloom_insert_all vs b0"
  have ok0: "bloom_ok b0" and empty: "bits_set (bf_bits b0) = {}" using bloom_new_ok [OF assms] by simp_all
  note all = bloom_insert_all_spec [OF ok0, of vs]
  have ok: "bloom_ok ?b" using all by simp
  have ne: "item_bits b v \<noteq> {}" if "bloom_ok b" for b v
    using that by (simp add: item_bits_def indices_def bloom_ok_def)
  have okc: "bloom_ok (bloom_clear ?b)" using ok by (simp add: bloom_ok_def bloom_clear_def)
  have "bits_set (bf_bits (bloom_clear ?b)) = {}" by (auto simp: bits_set_def bloom_clear_def)
  then show ?thesis
    using all ok ne [OF ok0] ne [OF okc] empty bloom_insert_spec [OF ok] indices_range [OF ok]
    by (auto simp: Let_def bloom_contains_iff ok ok0 okc)
qed

theorem bloom_no_false_negatives_witness:
  "\<exists>b0. bloom_new 100 3 = Inr b0 \<and> bloom_contains ''abc'' (bloom_insert_all [''x'', ''abc''] b0)"
proof -
  obtain b0 where b0: "bloom_new 100 3 = Inr b0" by (simp add: bloom_new_def)
  from bloom_no_false_negatives [OF b0, of "[''x'', ''abc'']"] b0 show ?thesis
    by (auto simp: Let_def)
qed

text \<open>
  A false-positive rate of zero passes the range check and asks for \<open>2^64 - 1\<close> bits, with a
  logarithm that is minus infinity at zero and a positive square of \<open>LN_2\<close>, as IEEE prescribes.
\<close>

lemma bloom_zero_rate:
  assumes "ln_f (Fin 0) = Inf True" and "square_f ln_2 = Fin s" and "0 < s" and "0 < items" "items \<le> u32_max"
  shows "with_rate_bits ln_f square_f items (Fin 0) = u64_max \<and>
    (\<exists>b. bloom_with_rate ln_f square_f items (Fin 0) = Inr b \<and> bf_bit_count b = u64_max)"
proof -
  have items: "f_nat items = Fin (of_nat items)"
    using assms(5) by (intro f_nat_exact) (simp add: u32_max_def)
  have bits: "with_rate_bits ln_f square_f items (Fin 0) = u64_max"
    using assms by (simp add: with_rate_bits_def items)
  have "1 \<le> f_to_usize (f_max x (Fin 1))" for x
    by (cases x) (auto simp: f_max_def u64_max_def Suc_le_eq)
  then show ?thesis
    using assms(4) by (auto simp: bloom_with_rate_def Let_def bits bloom_new_def f_le_def u64_max_def u32_max_def
        not_less_eq_eq Suc_le_eq)
qed

lemma bloom_zero_rate_witness:
  "with_rate_bits (\<lambda>x. if x = Fin 0 then Inf True else x) (\<lambda>_. Fin (1 / 2)) 10 (Fin 0) = u64_max"
  using bloom_zero_rate [of "\<lambda>x. if x = Fin 0 then Inf True else x" "\<lambda>_. Fin (1 / 2)" "1 / 2" 10]
  by (simp add: u32_max_def)

end
