(* ===== verification/Hash_Ring.thy ===== *)
theory Hash_Ring
  imports Prelude "HOL-Library.Word"
begin

unbundle bit_operations_syntax

text \<open>
  \<open>core/src/hash.rs\<close>: the consistent-hash ring with virtual replicas. The ring is a \<open>BTreeMap\<close> from
  points to the nodes that have a replica there, in the order in which they were added; a key belongs
  to the first node of the next point, clockwise.
\<close>

section \<open>Model\<close>

record consistent_hash =
  ch_replicas :: nat
  ch_nodes :: "string list"
  ch_ring :: "(64 word, string list) bmap"

definition consistent_hash_new :: "nat \<Rightarrow> consistent_hash option" where
  "consistent_hash_new replicas =
     (if replicas = 0 then None else Some \<lparr>ch_replicas = replicas, ch_nodes = [], ch_ring = []\<rparr>)"

definition hash_bytes :: "string \<Rightarrow> 64 word" where
  "hash_bytes bytes =
     (let h0 = foldl (\<lambda>hash byte. (hash XOR of_nat (of_char byte)) * 0x100000001b3) 0xcbf29ce484222325 bytes;
          h1 = (h0 XOR drop_bit 30 h0) * 0xbf58476d1ce4e5b9;
          h2 = (h1 XOR drop_bit 27 h1) * 0x94d049bb133111eb in
      h2 XOR drop_bit 31 h2)"

definition ring_point :: "string \<Rightarrow> nat \<Rightarrow> 64 word" where
  "ring_point node replica = hash_bytes (node @ ''#'' @ show_nat replica)"

definition push_point :: "string \<Rightarrow> 64 word \<Rightarrow> (64 word, string list) bmap \<Rightarrow> (64 word, string list) bmap" where
  "push_point node p ring =
     bt_put p ((case map_of ring p of None \<Rightarrow> [] | Some ns \<Rightarrow> ns) @ [node]) ring"

definition retain_point :: "string \<Rightarrow> 64 word \<Rightarrow> (64 word, string list) bmap \<Rightarrow> (64 word, string list) bmap" where
  "retain_point node p ring =
     (case map_of ring p of
        None \<Rightarrow> ring
      | Some ns \<Rightarrow>
          let ns' = filter (\<lambda>c. c \<noteq> node) ns in
          if ns' = [] then bt_del p ring else bt_put p ns' ring)"

definition ch_add :: "string \<Rightarrow> consistent_hash \<Rightarrow> bool \<times> consistent_hash" where
  "ch_add node c =
     (if node \<in> set (ch_nodes c) then (False, c)
      else (True, c\<lparr>ch_nodes := ch_nodes c @ [node],
        ch_ring := fold (push_point node \<circ> ring_point node) [0..<ch_replicas c] (ch_ring c)\<rparr>))"

definition ch_remove :: "string \<Rightarrow> consistent_hash \<Rightarrow> bool \<times> consistent_hash" where
  "ch_remove node c =
     (if node \<notin> set (ch_nodes c) then (False, c)
      else (True, c\<lparr>ch_nodes := remove1 node (ch_nodes c),
        ch_ring := fold (retain_point node \<circ> ring_point node) [0..<ch_replicas c] (ch_ring c)\<rparr>))"

definition successor :: "64 word \<Rightarrow> (64 word, string list) bmap \<Rightarrow> (64 word \<times> string list) option" where
  "successor hash ring =
     (case find (\<lambda>(k, _). hash \<le> k) ring of
        Some e \<Rightarrow> Some e
      | None \<Rightarrow> (case ring of [] \<Rightarrow> None | e # _ \<Rightarrow> Some e))"

definition first_node :: "string list \<Rightarrow> string option" where
  "first_node ns = (case ns of [] \<Rightarrow> None | n # _ \<Rightarrow> Some n)"

definition ch_get :: "string \<Rightarrow> consistent_hash \<Rightarrow> string option" where
  "ch_get key c = Option.bind (successor (hash_bytes key) (ch_ring c)) (first_node \<circ> snd)"

definition ch_len :: "consistent_hash \<Rightarrow> nat" where
  "ch_len c = length (ch_nodes c)"

section \<open>One point at a time\<close>

text \<open>The successor is the entry of the clockwise next point: the map decides, not its layout.\<close>

definition next_point :: "64 word \<Rightarrow> 64 word set \<Rightarrow> 64 word \<Rightarrow> bool" where
  "next_point hash P p \<longleftrightarrow> p \<in> P \<and>
     (if \<exists>q \<in> P. hash \<le> q then hash \<le> p \<and> (\<forall>q \<in> P. hash \<le> q \<longrightarrow> p \<le> q) else (\<forall>q \<in> P. p \<le> q))"

lemma next_point_unique: "next_point h P p \<Longrightarrow> next_point h P q \<Longrightarrow> p = q"
  by (auto simp: next_point_def split: if_splits intro: order_antisym)

lemma successor_some:
  assumes "bt_ok ring" "ring \<noteq> []"
  shows "\<exists>p ns. successor h ring = Some (p, ns) \<and> map_of ring p = Some ns \<and> next_point h (fst ` set ring) p"
proof (cases "find (\<lambda>(k, _). h \<le> k) ring")
  case None
  then have none: "\<forall>q \<in> fst ` set ring. \<not> h \<le> q" by (auto simp: find_None_iff)
  obtain p ns r where r: "ring = (p, ns) # r" using assms(2) by (cases ring) auto
  have "\<forall>q \<in> fst ` set ring. p \<le> q" using assms(1) by (auto simp: bt_ok_def r)
  with none show ?thesis using None by (auto simp: successor_def next_point_def r)
next
  case (Some e)
  obtain p ns where e: "e = (p, ns)" by (cases e)
  from Some obtain i where "i < length ring" "h \<le> fst (ring ! i)" "e = ring ! i"
    "\<forall>j < i. \<not> h \<le> fst (ring ! j)"
    unfolding find_Some_iff case_prod_beta by blast
  then have i: "i < length ring" "h \<le> p" "ring ! i = (p, ns)" "\<forall>j < i. \<not> h \<le> fst (ring ! j)"
    using e by (simp_all, metis fst_conv)
  have mem: "(p, ns) \<in> set ring" using i by (metis nth_mem)
  have dist: "distinct (map fst ring)" using assms(1) by (rule bt_ok_distinct)
  have "p \<le> q" if "q \<in> fst ` set ring" "h \<le> q" for q
  proof -
    from that obtain j where j: "j < length ring" "q = fst (ring ! j)" by (auto simp: in_set_conv_nth)
    then have "i \<le> j" using that(2) i(4) by (meson not_le)
    moreover have "sorted (map fst ring)" using assms(1) by (simp add: bt_ok_def strict_sorted_imp_sorted)
    ultimately have "map fst ring ! i \<le> map fst ring ! j" using j(1) by (intro sorted_nth_mono) simp_all
    then show ?thesis using i(1,3) j by simp
  qed
  then have "next_point h (fst ` set ring) p"
    using mem i(2) by (force simp: next_point_def)
  with Some e mem dist show ?thesis by (auto simp: successor_def)
qed

text \<open>The owner of a hash value, as a function of the map alone.\<close>

definition owner :: "64 word \<Rightarrow> (64 word, string list) bmap \<Rightarrow> string option" where
  "owner h ring = Option.bind (successor h ring) (first_node \<circ> snd)"

definition ring_inv :: "(64 word, string list) bmap \<Rightarrow> bool" where
  "ring_inv ring \<longleftrightarrow> bt_ok ring \<and> (\<forall>p ns. map_of ring p = Some ns \<longrightarrow> ns \<noteq> [])"

lemma owner_unfold:
  assumes "ring_inv ring" "ring \<noteq> []"
  obtains p ns where "next_point h (dom (map_of ring)) p" "map_of ring p = Some ns" "ns \<noteq> []"
    "owner h ring = Some (hd ns)"
proof -
  obtain p ns where s: "successor h ring = Some (p, ns)" "map_of ring p = Some ns"
    "next_point h (fst ` set ring) p"
    using successor_some [of ring h] assms by (auto simp: ring_inv_def)
  have ne: "ns \<noteq> []" using s(2) assms(1) by (auto simp: ring_inv_def)
  then have "owner h ring = Some (hd ns)" using s(1) by (auto simp: owner_def first_node_def split: list.splits)
  with s ne show thesis by (auto simp: dom_map_of_conv_image_fst intro: that)
qed

lemma owner_Nil: "owner h [] = None"
  by (simp add: owner_def successor_def)

lemma owner_eqI:
  assumes "ring_inv ring" "next_point h (dom (map_of ring)) p" "map_of ring p = Some ns"
  shows "owner h ring = Some (hd ns)"
proof -
  have "ring \<noteq> []" using assms(3) by auto
  from owner_unfold [OF assms(1) this] next_point_unique assms show ?thesis by (metis option.inject)
qed

lemma push_point_inv: "ring_inv ring \<Longrightarrow> ring_inv (push_point node p ring)"
  by (auto simp: ring_inv_def push_point_def bt.ok_put bt.lookup_put split: if_splits)

lemma push_point_lookup:
  "map_of (push_point node p ring) q =
     (if q = p then Some ((case map_of ring p of None \<Rightarrow> [] | Some ns \<Rightarrow> ns) @ [node]) else map_of ring q)"
  by (simp add: push_point_def map_of_bt_put)

lemma push_point_owner:
  assumes inv: "ring_inv ring"
  shows "owner h (push_point node p ring) = owner h ring \<or> owner h (push_point node p ring) = Some node"
proof (cases "ring = []")
  case True
  then have "push_point node p ring = [(p, [node])]" by (simp add: push_point_def)
  then show ?thesis by (simp add: owner_def successor_def first_node_def)
next
  case False
  let ?r = "push_point node p ring"
  have dom: "dom (map_of ?r) = insert p (dom (map_of ring))"
    by (auto simp: push_point_lookup dom_def split: if_splits)
  have "?r \<noteq> []" using dom by auto
  with push_point_inv [OF inv] obtain q ns where q: "next_point h (dom (map_of ?r)) q" "map_of ?r q = Some ns"
    "ns \<noteq> []" "owner h ?r = Some (hd ns)" by (rule owner_unfold)
  show ?thesis
  proof (cases "q \<in> dom (map_of ring)")
    case True
    then have "next_point h (dom (map_of ring)) q"
      using q(1) unfolding dom by (auto simp: next_point_def split: if_splits)
    moreover obtain ns' where ns': "map_of ring q = Some ns'" using True by auto
    ultimately have "owner h ring = Some (hd ns')" using inv by (intro owner_eqI)
    moreover have "hd ns = hd ns'"
      using q(2) ns' inv by (auto simp: push_point_lookup ring_inv_def split: if_splits)
    ultimately show ?thesis using q(4) by simp
  next
    case False
    then have "q = p" "ns = [node]" using q(2) by (auto simp: push_point_lookup dom_def split: if_splits)
    then show ?thesis using q(4) by simp
  qed
qed

lemma retain_point_lookup:
  "map_of (retain_point node p ring) q =
     (if q = p then
        (case map_of ring p of
           None \<Rightarrow> None
         | Some ns \<Rightarrow> if filter (\<lambda>c. c \<noteq> node) ns = [] then None else Some (filter (\<lambda>c. c \<noteq> node) ns))
      else map_of ring q)"
  by (auto simp: retain_point_def Let_def map_of_bt_put map_of_bt_del split: option.splits)

lemma retain_point_inv: "ring_inv ring \<Longrightarrow> ring_inv (retain_point node p ring)"
  unfolding ring_inv_def
  by (auto simp: retain_point_def Let_def bt.ok_put bt.ok_del map_of_bt_put map_of_bt_del
      split: option.splits if_splits)

lemma hd_filter: "xs \<noteq> [] \<Longrightarrow> P (hd xs) \<Longrightarrow> filter P xs \<noteq> [] \<and> hd (filter P xs) = hd xs"
  by (cases xs) auto

lemma retain_point_owner:
  assumes inv: "ring_inv ring" and own: "owner h ring = Some m" "m \<noteq> node"
  shows "owner h (retain_point node p ring) = Some m"
proof -
  let ?r = "retain_point node p ring"
  have "ring \<noteq> []" using own(1) by (auto simp: owner_Nil)
  with inv obtain q ns where q: "next_point h (dom (map_of ring)) q" "map_of ring q = Some ns" "ns \<noteq> []"
    "owner h ring = Some (hd ns)" by (rule owner_unfold)
  have m: "hd ns = m" using q(4) own(1) by simp
  obtain ns' where ns': "map_of ?r q = Some ns'" "hd ns' = m"
    using q(2,3) m own(2) hd_filter [of ns "\<lambda>c. c \<noteq> node"]
    by (cases "q = p") (auto simp: retain_point_lookup)
  have sub: "dom (map_of ?r) \<subseteq> dom (map_of ring)"
    by (auto simp: retain_point_lookup split: if_splits option.splits)
  have "next_point h (dom (map_of ?r)) q"
    using q(1) ns'(1) sub unfolding next_point_def by (auto split: if_splits)
  from owner_eqI [OF retain_point_inv [OF inv] this ns'(1)] ns'(2) show ?thesis by simp
qed

section \<open>Adding and removing a node\<close>

lemma fold_push:
  "ring_inv ring \<Longrightarrow> ring_inv (fold (push_point node \<circ> f) rs ring) \<and>
   (owner h (fold (push_point node \<circ> f) rs ring) = owner h ring \<or>
    owner h (fold (push_point node \<circ> f) rs ring) = Some node)"
proof (induction rs arbitrary: ring)
  case (Cons r rs)
  from push_point_owner [OF Cons.prems, of h node "f r"] Cons.IH [OF push_point_inv [OF Cons.prems, of node "f r"]]
  show ?case by (auto simp: comp_def)
qed simp

lemma fold_retain:
  "ring_inv ring \<Longrightarrow> ring_inv (fold (retain_point node \<circ> f) rs ring) \<and>
   (\<forall>m. owner h ring = Some m \<longrightarrow> m \<noteq> node \<longrightarrow> owner h (fold (retain_point node \<circ> f) rs ring) = Some m)"
proof (induction rs arbitrary: ring)
  case (Cons r rs)
  from retain_point_owner [OF Cons.prems, of h _ node "f r"]
    Cons.IH [OF retain_point_inv [OF Cons.prems, of node "f r"]]
  show ?case by (simp add: comp_def)
qed simp

text \<open>What is at every point, in terms of the nodes: the ring holds exactly the replicas.\<close>

lemma fold_push_lookup:
  "\<exists>extra. map_of (fold (push_point node \<circ> f) rs ring) q =
     (if q \<in> f ` set rs then Some ((case map_of ring q of None \<Rightarrow> [] | Some ns \<Rightarrow> ns) @ node # extra)
      else map_of ring q) \<and> set extra \<subseteq> {node}"
proof (induction rs arbitrary: ring)
  case (Cons r rs)
  obtain extra where ex: "map_of (fold (push_point node \<circ> f) rs (push_point node (f r) ring)) q =
     (if q \<in> f ` set rs
      then Some ((case map_of (push_point node (f r) ring) q of None \<Rightarrow> [] | Some ns \<Rightarrow> ns) @ node # extra)
      else map_of (push_point node (f r) ring) q)" "set extra \<subseteq> {node}"
    using Cons.IH by blast
  show ?case
  proof (cases "q = f r \<and> q \<in> f ` set rs")
    case True
    with ex show ?thesis
      by (intro exI [of _ "node # extra"]) (auto simp: push_point_lookup comp_def)
  next
    case False
    with ex show ?thesis
      by (intro exI [of _ "if q = f r then [] else extra"]) (auto simp: push_point_lookup comp_def)
  qed
qed (auto intro: exI [of _ "[]"])

lemma fold_retain_lookup:
  "map_of (fold (retain_point node \<circ> f) rs ring) q =
     (if q \<in> f ` set rs then
        (case map_of ring q of
           None \<Rightarrow> None
         | Some ns \<Rightarrow> if filter (\<lambda>c. c \<noteq> node) ns = [] then None else Some (filter (\<lambda>c. c \<noteq> node) ns))
      else map_of ring q)"
  by (induction rs arbitrary: ring) (auto simp: retain_point_lookup split: option.splits)

definition ring_of :: "consistent_hash \<Rightarrow> bool" where
  "ring_of c \<longleftrightarrow> 0 < ch_replicas c \<and> distinct (ch_nodes c) \<and> ring_inv (ch_ring c) \<and>
     (\<forall>p. (case map_of (ch_ring c) p of None \<Rightarrow> {} | Some ns \<Rightarrow> set ns) =
       {n \<in> set (ch_nodes c). p \<in> ring_point n ` {0..<ch_replicas c}})"

lemma ring_of_new: "consistent_hash_new r = Some c \<Longrightarrow> ring_of c"
  by (auto simp: consistent_hash_new_def ring_of_def ring_inv_def bt.ok_empty split: if_splits)

lemma ring_of_add:
  assumes "ring_of c"
  shows "ring_of (snd (ch_add node c))"
proof (cases "node \<in> set (ch_nodes c)")
  case False
  let ?r = "fold (push_point node \<circ> ring_point node) [0..<ch_replicas c] (ch_ring c)"
  have inv: "ring_inv ?r" using fold_push [where h = 0] assms by (auto simp: ring_of_def)
  have "(case map_of ?r p of None \<Rightarrow> {} | Some ns \<Rightarrow> set ns) =
      {n \<in> insert node (set (ch_nodes c)). p \<in> ring_point n ` {0..<ch_replicas c}}" for p
  proof -
    have old: "(case map_of (ch_ring c) p of None \<Rightarrow> {} | Some ns \<Rightarrow> set ns) =
       {n \<in> set (ch_nodes c). p \<in> ring_point n ` {0..<ch_replicas c}}"
      using assms by (simp add: ring_of_def)
    obtain extra where ex: "map_of ?r p =
       (if p \<in> ring_point node ` {0..<ch_replicas c}
        then Some ((case map_of (ch_ring c) p of None \<Rightarrow> [] | Some ns \<Rightarrow> ns) @ node # extra)
        else map_of (ch_ring c) p)" "set extra \<subseteq> {node}"
      using fold_push_lookup [of node "ring_point node" "[0..<ch_replicas c]" "ch_ring c" p] by auto
    show ?thesis
    proof (cases "p \<in> ring_point node ` {0..<ch_replicas c}")
      case True
      then show ?thesis using ex old by (auto split: option.splits)
    next
      case False
      have "map_of ?r p = map_of (ch_ring c) p" using ex(1) False by (simp only: if_False)
      then show ?thesis using old False by auto
    qed
  qed
  with False inv assms show ?thesis by (simp add: ch_add_def ring_of_def)
qed (use assms in \<open>simp add: ch_add_def\<close>)

lemma ring_of_remove:
  assumes "ring_of c"
  shows "ring_of (snd (ch_remove node c))"
proof (cases "node \<in> set (ch_nodes c)")
  case True
  let ?r = "fold (retain_point node \<circ> ring_point node) [0..<ch_replicas c] (ch_ring c)"
  have inv: "ring_inv ?r" using fold_retain [where h = 0] assms by (auto simp: ring_of_def)
  have "(case map_of ?r p of None \<Rightarrow> {} | Some ns \<Rightarrow> set ns) =
      {n \<in> set (ch_nodes c) - {node}. p \<in> ring_point n ` {0..<ch_replicas c}}" for p
  proof -
    have old: "(case map_of (ch_ring c) p of None \<Rightarrow> {} | Some ns \<Rightarrow> set ns) =
       {n \<in> set (ch_nodes c). p \<in> ring_point n ` {0..<ch_replicas c}}"
      using assms by (simp add: ring_of_def)
    have new: "(case map_of ?r p of None \<Rightarrow> {} | Some ns \<Rightarrow> set ns) =
      (if p \<in> ring_point node ` {0..<ch_replicas c}
       then (case map_of (ch_ring c) p of None \<Rightarrow> {} | Some ns \<Rightarrow> set ns) - {node}
       else (case map_of (ch_ring c) p of None \<Rightarrow> {} | Some ns \<Rightarrow> set ns))"
      unfolding fold_retain_lookup by (auto simp: filter_empty_conv split: option.splits)
    show ?thesis unfolding new old using True by auto
  qed
  with True inv assms show ?thesis by (simp add: ch_remove_def ring_of_def distinct_remove1)
qed (use assms in \<open>simp add: ch_remove_def\<close>)

text \<open>Rings built by additions and removals.\<close>

inductive ring_built :: "consistent_hash \<Rightarrow> bool" where
  new: "consistent_hash_new r = Some c \<Longrightarrow> ring_built c"
| add: "ring_built c \<Longrightarrow> ring_built (snd (ch_add node c))"
| remove: "ring_built c \<Longrightarrow> ring_built (snd (ch_remove node c))"

lemma ring_built_of: "ring_built c \<Longrightarrow> ring_of c"
  by (induction rule: ring_built.induct) (auto intro: ring_of_new ring_of_add ring_of_remove)

lemma ch_get_owner: "ch_get key c = owner (hash_bytes key) (ch_ring c)"
  by (simp add: ch_get_def owner_def)

text \<open>A key has an owner, one of the nodes, exactly when there are nodes.\<close>

lemma ring_of_empty:
  assumes "ring_of c"
  shows "ch_ring c = [] \<longleftrightarrow> ch_nodes c = []"
proof -
  have inv: "ring_inv (ch_ring c)" and pts: "(case map_of (ch_ring c) p of None \<Rightarrow> {} | Some ns \<Rightarrow> set ns) =
       {n \<in> set (ch_nodes c). p \<in> ring_point n ` {0..<ch_replicas c}}" for p
    using assms by (simp_all add: ring_of_def)
  show ?thesis
  proof
    assume e: "ch_ring c = []"
    show "ch_nodes c = []"
    proof (rule ccontr)
      assume "ch_nodes c \<noteq> []"
      then obtain n where "n \<in> set (ch_nodes c)" by (meson list.set_sel(1))
      moreover have "ring_point n 0 \<in> ring_point n ` {0..<ch_replicas c}" using assms by (simp add: ring_of_def)
      ultimately show False using pts [of "ring_point n 0"] e by auto
    qed
  next
    assume e: "ch_nodes c = []"
    show "ch_ring c = []"
    proof (rule ccontr)
      assume "ch_ring c \<noteq> []"
      then obtain p ns where "map_of (ch_ring c) p = Some ns" "ns \<noteq> []"
        using owner_unfold [OF inv, of 0] by blast
      then show False using pts [of p] e by simp
    qed
  qed
qed

lemma ring_of_owner:
  assumes "ring_of c"
  shows "(ch_get key c = None \<longleftrightarrow> ch_nodes c = []) \<and> (\<forall>n. ch_get key c = Some n \<longrightarrow> n \<in> set (ch_nodes c))"
proof -
  let ?h = "hash_bytes key"
  have inv: "ring_inv (ch_ring c)" and pts: "(case map_of (ch_ring c) p of None \<Rightarrow> {} | Some ns \<Rightarrow> set ns) =
       {n \<in> set (ch_nodes c). p \<in> ring_point n ` {0..<ch_replicas c}}" for p
    using assms by (simp_all add: ring_of_def)
  have own: "owner ?h (ch_ring c) = None \<longleftrightarrow> ch_ring c = []"
    using owner_unfold [OF inv] by (metis option.distinct(1) owner_Nil)
  have "n \<in> set (ch_nodes c)" if n: "ch_get key c = Some n" for n
  proof -
    have "ch_ring c \<noteq> []" using n own by (auto simp: ch_get_owner)
    from owner_unfold [OF inv this, of ?h] obtain p ns where
      ns: "map_of (ch_ring c) p = Some ns" "ns \<noteq> []" "owner ?h (ch_ring c) = Some (hd ns)" by blast
    then have "n \<in> set ns" using n hd_in_set [OF ns(2)] by (simp add: ch_get_owner)
    then show ?thesis using pts [of p] ns(1) by auto
  qed
  then show ?thesis using own ring_of_empty [OF assms] by (simp add: ch_get_owner)
qed

text \<open>
  C32. Minimal disruption. For every ring built by additions and removals and every key: adding a node
  leaves the key where it was or moves it to the new node; removing a node moves only keys of that
  node; and a key has an owner, which is one of the nodes, exactly when there are nodes.
\<close>

theorem hash_minimal_disruption:
  assumes "ring_built c"
  shows "(ch_get key (snd (ch_add node c)) = ch_get key c \<or> ch_get key (snd (ch_add node c)) = Some node) \<and>
    (ch_get key c \<noteq> Some node \<longrightarrow> ch_get key (snd (ch_remove node c)) = ch_get key c) \<and>
    (ch_get key c = None \<longleftrightarrow> ch_nodes c = []) \<and>
    (\<forall>n. ch_get key c = Some n \<longrightarrow> n \<in> set (ch_nodes c))"
proof -
  let ?h = "hash_bytes key"
  have ring: "ring_of c" using assms by (rule ring_built_of)
  then have inv: "ring_inv (ch_ring c)" by (simp add: ring_of_def)
  have "ch_get key (snd (ch_add node c)) = ch_get key c \<or> ch_get key (snd (ch_add node c)) = Some node"
    using fold_push [OF inv, of node "ring_point node" "[0..<ch_replicas c]" ?h] by (simp add: ch_get_owner ch_add_def)
  moreover have "ch_get key (snd (ch_remove node c)) = ch_get key c" if ne: "ch_get key c \<noteq> Some node"
  proof (cases "ch_get key c")
    case None
    then show ?thesis using ring_of_owner [OF ring, of key] by (simp add: ch_remove_def)
  next
    case (Some m)
    then show ?thesis
      using ne fold_retain [OF inv, of node "ring_point node" "[0..<ch_replicas c]" ?h]
      by (auto simp: ch_get_owner ch_remove_def)
  qed
  ultimately show ?thesis using ring_of_owner [OF ring, of key] by blast
qed

theorem hash_minimal_disruption_witness:
  "\<exists>c. ring_built c \<and> ch_nodes c = [''a'', ''b''] \<and>
    (ch_get ''k'' (snd (ch_add ''c'' c)) = ch_get ''k'' c \<or> ch_get ''k'' (snd (ch_add ''c'' c)) = Some ''c'')"
proof -
  obtain c0 where c0: "consistent_hash_new 2 = Some c0" "ch_nodes c0 = []" by (simp add: consistent_hash_new_def)
  let ?c = "snd (ch_add ''b'' (snd (ch_add ''a'' c0)))"
  have built: "ring_built ?c" using c0(1) by (intro ring_built.add ring_built.new)
  moreover have "ch_nodes ?c = [''a'', ''b'']" using c0(2) by (simp add: ch_add_def)
  ultimately show ?thesis using hash_minimal_disruption [OF built, of "''k''" "''c''"] by blast
qed

end
