(* ===== verification/Cache.thy ===== *)
theory Cache
  imports Prelude "HOL-Library.Word"
begin

unbundle bit_operations_syntax

text \<open>
  \<open>core/src/cache.rs\<close>: the expiring cache \<open>TtlCache\<close>, the bounded LRU cache \<open>MemoryCache\<close> and the
  expiry jitter. Both caches promise the laws of the locale \<open>expiring_cache\<close>; what a client may
  conclude from them, that a cache never answers with anything but the last value written, is proved
  there once. A violated \<open>assert!\<close> is \<^term>\<open>None\<close>.
\<close>

section \<open>Expiry jitter\<close>

definition splitmix :: "64 word \<Rightarrow> 64 word" where
  "splitmix sequence =
     (let v0 = sequence + 0x9e3779b97f4a7c15;
          v1 = (v0 XOR drop_bit 30 v0) * 0xbf58476d1ce4e5b9;
          v2 = (v1 XOR drop_bit 27 v1) * 0x94d049bb133111eb in
      v2 XOR drop_bit 31 v2)"

definition jittered_ttl :: "duration \<Rightarrow> duration \<Rightarrow> 64 word \<Rightarrow> duration" where
  "jittered_ttl base jitter sequence =
     (if jitter = 0 then base
      else
        let added_nanos = unat (splitmix sequence) mod sat_add u128_max jitter 1;
            added = min (added_nanos div nanos_per_sec) u64_max * nanos_per_sec + added_nanos mod nanos_per_sec in
        sat_add duration_max base added)"

section \<open>The caches\<close>

record 'v cache_entry =
  ce_value :: 'v
  ce_expires_at :: instant

type_synonym ('k, 'v) ttl_cache = "('k, 'v cache_entry) hmap"

definition ttl_insert :: "'k \<Rightarrow> 'v \<Rightarrow> duration \<Rightarrow> instant \<Rightarrow> ('k, 'v) ttl_cache \<Rightarrow> ('k, 'v) ttl_cache option" where
  "ttl_insert k v ttl now c =
     (if ttl = 0 then None else Some (AList.update k \<lparr>ce_value = v, ce_expires_at = now + ttl\<rparr> c))"

definition ttl_get :: "'k \<Rightarrow> instant \<Rightarrow> ('k, 'v) ttl_cache \<Rightarrow> 'v option \<times> ('k, 'v) ttl_cache" where
  "ttl_get k now c =
     (case map_of c k of
        None \<Rightarrow> (None, c)
      | Some e \<Rightarrow> if ce_expires_at e \<le> now then (None, AList.delete k c) else (Some (ce_value e), c))"

definition ttl_remove :: "'k \<Rightarrow> ('k, 'v) ttl_cache \<Rightarrow> 'v option \<times> ('k, 'v) ttl_cache" where
  "ttl_remove k c = (map_option ce_value (map_of c k), AList.delete k c)"

definition ttl_len :: "instant \<Rightarrow> ('k, 'v) ttl_cache \<Rightarrow> nat \<times> ('k, 'v) ttl_cache" where
  "ttl_len now c = (let c' = filter (\<lambda>(_, e). now < ce_expires_at e) c in (length c', c'))"

record cache_stats =
  cs_hits :: "64 word"
  cs_misses :: "64 word"
  cs_insertions :: "64 word"
  cs_evictions :: "64 word"

record ('k, 'v) memory_cache =
  mc_capacity :: nat
  mc_entries :: "('k, 'v cache_entry) hmap"
  mc_recency :: "'k list"
  mc_stats :: cache_stats

definition memory_new :: "nat \<Rightarrow> ('k, 'v) memory_cache option" where
  "memory_new capacity =
     (if capacity = 0 then None
      else Some \<lparr>mc_capacity = capacity, mc_entries = [], mc_recency = [],
        mc_stats = \<lparr>cs_hits = 0, cs_misses = 0, cs_insertions = 0, cs_evictions = 0\<rparr>\<rparr>)"

text \<open>\<open>remove_from_recency\<close> removes the first occurrence: \<^const>\<open>remove1\<close>. The eviction loop of \<open>insert\<close>:\<close>

fun evict :: "nat \<Rightarrow> 'k list \<Rightarrow> ('k, 'v cache_entry) hmap \<Rightarrow> 64 word \<Rightarrow>
    'k list \<times> ('k, 'v cache_entry) hmap \<times> 64 word" where
  "evict cap [] es n = ([], es, n)"
| "evict cap (k # ks) es n =
     (if cap < length es
      then evict cap ks (AList.delete k es) (if map_of es k = None then n else n + 1)
      else (k # ks, es, n))"

definition memory_insert :: "'k \<Rightarrow> 'v \<Rightarrow> duration \<Rightarrow> instant \<Rightarrow> ('k, 'v) memory_cache \<Rightarrow> ('k, 'v) memory_cache option" where
  "memory_insert k v ttl now c =
     (if ttl = 0 then None
      else
        let (recency, entries, evictions) =
          evict (mc_capacity c) (remove1 k (mc_recency c) @ [k])
            (AList.update k \<lparr>ce_value = v, ce_expires_at = now + ttl\<rparr> (mc_entries c))
            (cs_evictions (mc_stats c)) in
        Some (c\<lparr>mc_recency := recency, mc_entries := entries,
          mc_stats := (mc_stats c)\<lparr>cs_insertions := cs_insertions (mc_stats c) + 1, cs_evictions := evictions\<rparr>\<rparr>))"

definition memory_get :: "'k \<Rightarrow> instant \<Rightarrow> ('k, 'v) memory_cache \<Rightarrow> 'v option \<times> ('k, 'v) memory_cache" where
  "memory_get k now c =
     (let st = mc_stats c in
      case map_of (mc_entries c) k of
        None \<Rightarrow> (None, c\<lparr>mc_stats := st\<lparr>cs_misses := cs_misses st + 1\<rparr>\<rparr>)
      | Some e \<Rightarrow>
          if ce_expires_at e \<le> now
          then (None, c\<lparr>mc_entries := AList.delete k (mc_entries c), mc_recency := remove1 k (mc_recency c),
            mc_stats := st\<lparr>cs_evictions := cs_evictions st + 1, cs_misses := cs_misses st + 1\<rparr>\<rparr>)
          else (Some (ce_value e), c\<lparr>mc_recency := remove1 k (mc_recency c) @ [k],
            mc_stats := st\<lparr>cs_hits := cs_hits st + 1\<rparr>\<rparr>))"

definition memory_remove :: "'k \<Rightarrow> ('k, 'v) memory_cache \<Rightarrow> 'v option \<times> ('k, 'v) memory_cache" where
  "memory_remove k c =
     (map_option ce_value (map_of (mc_entries c) k),
      c\<lparr>mc_recency := remove1 k (mc_recency c), mc_entries := AList.delete k (mc_entries c)\<rparr>)"

definition drop_keys :: "'k list \<Rightarrow> ('k, 'v) memory_cache \<Rightarrow> ('k, 'v) memory_cache" where
  "drop_keys ks c = fold (\<lambda>k c. snd (memory_remove k c)) ks c"

definition memory_remove_where :: "('k \<Rightarrow> 'v \<Rightarrow> bool) \<Rightarrow> ('k, 'v) memory_cache \<Rightarrow> nat \<times> ('k, 'v) memory_cache" where
  "memory_remove_where P c =
     (let keys = map fst (filter (\<lambda>(k, e). P k (ce_value e)) (mc_entries c)) in
      (length keys, drop_keys keys c))"

definition memory_clear :: "('k, 'v) memory_cache \<Rightarrow> ('k, 'v) memory_cache" where
  "memory_clear c = c\<lparr>mc_entries := [], mc_recency := []\<rparr>"

definition memory_len :: "instant \<Rightarrow> ('k, 'v) memory_cache \<Rightarrow> nat \<times> ('k, 'v) memory_cache" where
  "memory_len now c =
     (let expired = map fst (filter (\<lambda>(_, e). ce_expires_at e \<le> now) (mc_entries c));
          c1 = drop_keys expired c in
      (length (mc_entries c1),
       c1\<lparr>mc_stats := (mc_stats c1)\<lparr>cs_evictions := cs_evictions (mc_stats c1) + of_nat (length expired)\<rparr>\<rparr>))"

section \<open>What a cache promises\<close>

datatype ('k, 'v) cache_op = Insert 'k 'v duration | Get 'k | Remove 'k

text \<open>The last write of a key in a sequence of timed operations, with the time it expires.\<close>

fun last_write :: "'k \<Rightarrow> (instant \<times> ('k, 'v) cache_op) list \<Rightarrow> ('v \<times> instant) option \<Rightarrow> ('v \<times> instant) option" where
  "last_write k [] w = w"
| "last_write k ((t, Insert k' v ttl) # ops) w = last_write k ops (if k' = k then Some (v, t + ttl) else w)"
| "last_write k ((t, Get k') # ops) w = last_write k ops w"
| "last_write k ((t, Remove k') # ops) w = last_write k ops (if k' = k then None else w)"

text \<open>What a write lets a reader see at a later time.\<close>

definition visible :: "instant \<Rightarrow> ('v \<times> instant) option \<Rightarrow> 'v option" where
  "visible t w = (case w of None \<Rightarrow> None | Some (v, expiry) \<Rightarrow> if t < expiry then Some v else None)"

locale expiring_cache =
  fixes ok :: "'s \<Rightarrow> bool"
    and insert :: "'k \<Rightarrow> 'v \<Rightarrow> duration \<Rightarrow> instant \<Rightarrow> 's \<Rightarrow> 's option"
    and get :: "'k \<Rightarrow> instant \<Rightarrow> 's \<Rightarrow> 'v option \<times> 's"
    and remove :: "'k \<Rightarrow> 's \<Rightarrow> 'v option \<times> 's"
  assumes insert_ok: "ok s \<Longrightarrow> 0 < ttl \<Longrightarrow> \<exists>s'. insert k v ttl now s = Some s' \<and> ok s'"
    and get_ok: "ok s \<Longrightarrow> ok (snd (get k now s))"
    and remove_ok: "ok s \<Longrightarrow> ok (snd (remove k s))"
    and get_insert: "ok s \<Longrightarrow> insert k v ttl now s = Some s' \<Longrightarrow>
      fst (get k t s') = (if t < now + ttl then Some v else None)"
    and get_insert_other: "ok s \<Longrightarrow> insert k v ttl now s = Some s' \<Longrightarrow> k' \<noteq> k \<Longrightarrow>
      fst (get k' t s') = None \<or> fst (get k' t s') = fst (get k' t s)"
    and get_get: "ok s \<Longrightarrow> now \<le> t \<Longrightarrow> fst (get k' t (snd (get k now s))) = fst (get k' t s)"
    and get_remove: "ok s \<Longrightarrow> fst (get k' t (snd (remove k s))) = (if k' = k then None else fst (get k' t s))"
begin

fun run :: "(instant \<times> ('k, 'v) cache_op) list \<Rightarrow> 's \<Rightarrow> 's option" where
  "run [] s = Some s"
| "run ((t, Insert k v ttl) # ops) s = Option.bind (insert k v ttl t s) (run ops)"
| "run ((t, Get k) # ops) s = run ops (snd (get k t s))"
| "run ((t, Remove k) # ops) s = run ops (snd (remove k s))"

definition ttls_positive :: "(instant \<times> ('k, 'v) cache_op) list \<Rightarrow> bool" where
  "ttls_positive ops \<longleftrightarrow> (\<forall>(t, op) \<in> set ops. \<forall>k v ttl. op = Insert k v ttl \<longrightarrow> 0 < ttl)"

lemma run_never_stale:
  assumes "ok s" "ttls_positive ops" "sorted (map fst ops)" "\<forall>op \<in> set ops. fst op \<le> t"
    and "fst (get k t s) = None \<or> fst (get k t s) = visible t w"
  shows "\<exists>s'. run ops s = Some s' \<and> ok s' \<and>
    (fst (get k t s') = None \<or> fst (get k t s') = visible t (last_write k ops w))"
  using assms
proof (induction k ops w arbitrary: s rule: last_write.induct)
  case (2 k now k' v ttl ops w)
  then have "0 < ttl" by (auto simp: ttls_positive_def)
  then obtain s1 where s1: "insert k' v ttl now s = Some s1" "ok s1" using insert_ok "2.prems"(1) by blast
  have "fst (get k t s1) = None \<or> fst (get k t s1) = visible t (if k' = k then Some (v, now + ttl) else w)"
  proof (cases "k' = k")
    case True
    then show ?thesis using get_insert [OF "2.prems"(1) s1(1), of t] by (simp add: visible_def)
  next
    case False
    then show ?thesis using get_insert_other [OF "2.prems"(1) s1(1), of k t] "2.prems"(5) by auto
  qed
  then show ?case using "2.IH" [OF s1(2)] "2.prems" s1 by (auto simp: ttls_positive_def)
next
  case (3 k now k' ops w)
  moreover have "fst (get k t (snd (get k' now s))) = fst (get k t s)"
    using "3.prems" by (intro get_get) auto
  ultimately show ?case by (auto simp: ttls_positive_def get_ok)
next
  case (4 k now k' ops w)
  moreover have "fst (get k t (snd (remove k' s))) = (if k = k' then None else fst (get k t s))"
    using "4.prems" by (intro get_remove) auto
  ultimately show ?case by (auto simp: ttls_positive_def remove_ok)
qed auto

end

text \<open>A cache that never evicts answers with exactly what was written.\<close>

locale unbounded_cache = expiring_cache ok insert get remove
  for ok :: "'s \<Rightarrow> bool" and insert :: "'k \<Rightarrow> 'v \<Rightarrow> duration \<Rightarrow> instant \<Rightarrow> 's \<Rightarrow> 's option"
    and get :: "'k \<Rightarrow> instant \<Rightarrow> 's \<Rightarrow> 'v option \<times> 's" and remove :: "'k \<Rightarrow> 's \<Rightarrow> 'v option \<times> 's" +
  assumes get_insert_keeps: "ok s \<Longrightarrow> insert k v ttl now s = Some s' \<Longrightarrow> k' \<noteq> k \<Longrightarrow>
      fst (get k' t s') = fst (get k' t s)"
begin

lemma run_exact:
  assumes "ok s" "ttls_positive ops" "sorted (map fst ops)" "\<forall>op \<in> set ops. fst op \<le> t"
    and "fst (get k t s) = visible t w"
  shows "\<exists>s'. run ops s = Some s' \<and> fst (get k t s') = visible t (last_write k ops w)"
  using assms
proof (induction k ops w arbitrary: s rule: last_write.induct)
  case (2 k now k' v ttl ops w)
  then have "0 < ttl" by (auto simp: ttls_positive_def)
  then obtain s1 where s1: "insert k' v ttl now s = Some s1" "ok s1" using insert_ok "2.prems"(1) by blast
  have "fst (get k t s1) = visible t (if k' = k then Some (v, now + ttl) else w)"
    using get_insert [OF "2.prems"(1) s1(1), of t] get_insert_keeps [OF "2.prems"(1) s1(1), of k t] "2.prems"(5)
    by (cases "k' = k") (auto simp: visible_def)
  then show ?case using "2.IH" [OF s1(2)] "2.prems" s1 by (auto simp: ttls_positive_def)
next
  case (3 k now k' ops w)
  moreover have "fst (get k t (snd (get k' now s))) = fst (get k t s)"
    using "3.prems" by (intro get_get) auto
  ultimately show ?case by (auto simp: ttls_positive_def get_ok)
next
  case (4 k now k' ops w)
  moreover have "fst (get k t (snd (remove k' s))) = (if k = k' then None else fst (get k t s))"
    using "4.prems" by (intro get_remove) auto
  ultimately show ?case by (auto simp: ttls_positive_def remove_ok visible_def)
qed auto

end

lemma ttl_get_view: "fst (ttl_get k t c) = (case map_of c k of None \<Rightarrow> None | Some e \<Rightarrow> if t < ce_expires_at e then Some (ce_value e) else None)"
  by (auto simp: ttl_get_def split: option.splits)

lemma ttl_get_state:
  "map_of (snd (ttl_get k now c)) k' =
     (if k' = k then (case map_of c k of None \<Rightarrow> None | Some e \<Rightarrow> if ce_expires_at e \<le> now then None else Some e)
      else map_of c k')"
  by (auto simp: ttl_get_def delete_conv' split: option.splits)

interpretation ttl: unbounded_cache hm_ok ttl_insert ttl_get ttl_remove
proof
  fix s s' :: "('k, 'v) ttl_cache" and k k' :: 'k and v :: 'v and ttl now t :: nat
  show "hm_ok s \<Longrightarrow> 0 < ttl \<Longrightarrow> \<exists>s'. ttl_insert k v ttl now s = Some s' \<and> hm_ok s'"
    by (simp add: ttl_insert_def hm.ok_put)
  show "hm_ok s \<Longrightarrow> hm_ok (snd (ttl_get k now s))"
    by (auto simp: ttl_get_def hm.ok_del split: option.splits)
  show "hm_ok s \<Longrightarrow> hm_ok (snd (ttl_remove k s))" by (simp add: ttl_remove_def hm.ok_del)
  show "now \<le> t \<Longrightarrow> fst (ttl_get k' t (snd (ttl_get k now s))) = fst (ttl_get k' t s)"
    by (auto simp: ttl_get_view ttl_get_state split: option.splits)
  show "fst (ttl_get k' t (snd (ttl_remove k s))) = (if k' = k then None else fst (ttl_get k' t s))"
    by (simp add: ttl_get_view ttl_remove_def delete_conv')
  assume ins: "ttl_insert k v ttl now s = Some s'"
  then have s': "s' = AList.update k \<lparr>ce_value = v, ce_expires_at = now + ttl\<rparr> s"
    by (auto simp: ttl_insert_def split: if_splits)
  show "fst (ttl_get k t s') = (if t < now + ttl then Some v else None)"
    by (simp add: s' ttl_get_view update_conv)
  assume "k' \<noteq> k"
  then show "fst (ttl_get k' t s') = fst (ttl_get k' t s)"
    by (simp add: s' ttl_get_view update_conv)
  then show "fst (ttl_get k' t s') = None \<or> fst (ttl_get k' t s') = fst (ttl_get k' t s)" by simp
qed

section \<open>The bounded cache refines an LRU list\<close>

text \<open>
  The abstract cache is one list of bindings from the least to the most recently used one.
\<close>

type_synonym ('k, 'v) lru = "('k \<times> 'v cache_entry) list"

definition lru_forget :: "'k \<Rightarrow> ('k, 'v) lru \<Rightarrow> ('k, 'v) lru" where
  "lru_forget k l = filter (\<lambda>b. fst b \<noteq> k) l"

definition lru_insert :: "nat \<Rightarrow> 'k \<Rightarrow> 'v cache_entry \<Rightarrow> ('k, 'v) lru \<Rightarrow> ('k, 'v) lru" where
  "lru_insert cap k e l = (let l' = lru_forget k l @ [(k, e)] in drop (length l' - cap) l')"

definition lru_get :: "'k \<Rightarrow> instant \<Rightarrow> ('k, 'v) lru \<Rightarrow> 'v option \<times> ('k, 'v) lru" where
  "lru_get k now l =
     (case map_of l k of
        None \<Rightarrow> (None, l)
      | Some e \<Rightarrow>
          if ce_expires_at e \<le> now then (None, lru_forget k l)
          else (Some (ce_value e), lru_forget k l @ [(k, e)]))"

definition memory_ok :: "('k, 'v) memory_cache \<Rightarrow> bool" where
  "memory_ok c \<longleftrightarrow> 0 < mc_capacity c \<and> hm_ok (mc_entries c) \<and> distinct (mc_recency c) \<and>
     set (mc_recency c) = set (hm_keys (mc_entries c)) \<and> length (mc_entries c) \<le> mc_capacity c"

definition bindings :: "'k list \<Rightarrow> ('k, 'v cache_entry) hmap \<Rightarrow> ('k, 'v) lru" where
  "bindings ks es = map (\<lambda>k. (k, the (map_of es k))) ks"

definition lru_of :: "('k, 'v) memory_cache \<Rightarrow> ('k, 'v) lru" where
  "lru_of c = bindings (mc_recency c) (mc_entries c)"

lemma bindings_cong: "\<forall>k \<in> set ks. map_of es k = map_of es' k \<Longrightarrow> bindings ks es = bindings ks es'"
  by (simp add: bindings_def)

lemma forget_bindings: "distinct ks \<Longrightarrow> lru_forget k (bindings ks es) = bindings (remove1 k ks) es"
  by (simp add: lru_forget_def bindings_def filter_map comp_def remove1_filter_distinct)

lemma bindings_append [simp]: "bindings (ks @ ks') es = bindings ks es @ bindings ks' es"
  by (simp add: bindings_def)

lemma length_bindings [simp]: "length (bindings ks es) = length ks"
  by (simp add: bindings_def)

lemma drop_bindings: "bindings (drop n ks) es = drop n (bindings ks es)"
  by (simp add: bindings_def drop_map)

lemma map_of_bindings:
  "set ks = set (hm_keys es) \<Longrightarrow> map_of (bindings ks es) k = map_of es k"
proof -
  assume "set ks = set (hm_keys es)"
  moreover have "map_of (bindings ks es) k = (if k \<in> set ks then Some (the (map_of es k)) else None)" for ks
    by (induction ks) (auto simp: bindings_def)
  ultimately show ?thesis
    by (auto simp: weak_map_of_SomeI map_of_eq_None_iff dest: map_of_SomeD)
      (metis dom_map_of_conv_image_fst domIff option.collapse image_eqI fst_conv)
qed

lemma memory_length: "memory_ok c \<Longrightarrow> length (mc_recency c) = length (mc_entries c)"
  unfolding memory_ok_def hm_ok_def by (metis distinct_card length_map)

text \<open>The eviction loop removes the oldest keys until the rest fits.\<close>

lemma evict_spec:
  assumes "hm_ok es" "distinct ks" "set ks = set (hm_keys es)" "length ks = length es"
  shows "\<exists>es'. evict cap ks es n = (drop (length es - cap) ks, es', n + of_nat (length es - cap)) \<and> hm_ok es' \<and>
    set (hm_keys es') = set (drop (length es - cap) ks) \<and>
    (\<forall>k \<in> set (drop (length es - cap) ks). map_of es' k = map_of es k)"
  using assms
proof (induction cap ks es n rule: evict.induct)
  case (2 cap k ks es n)
  show ?case
  proof (cases "cap < length es")
    case True
    let ?es = "AList.delete k es"
    have k: "map_of es k \<noteq> None" using "2.prems"(3) by (auto simp: map_of_eq_None_iff)
    have keys: "set ks = set (hm_keys ?es)" using "2.prems"(2,3) by (auto simp: AList.delete_keys)
    have ok: "hm_ok ?es" using "2.prems"(1) by (rule hm.ok_del)
    have len: "length ?es = length es - 1"
      using hm.size_del [OF "2.prems"(1), of k] k by simp
    have "length ks = length ?es" using len "2.prems"(4) by simp
    with "2.IH" [OF True ok _ keys] "2.prems"(2) obtain es' where
      ev: "evict cap ks ?es (if map_of es k = None then n else n + 1) =
        (drop (length ?es - cap) ks, es', n + 1 + of_nat (length ?es - cap))"
      and es': "hm_ok es'" "set (hm_keys es') = set (drop (length ?es - cap) ks)"
      "\<forall>x \<in> set (drop (length ?es - cap) ks). map_of es' x = map_of ?es x"
      using k by auto
    have m: "length es - cap = Suc (length ?es - cap)" using True len by simp
    have "\<forall>x \<in> set (drop (length ?es - cap) ks). map_of ?es x = map_of es x"
      using "2.prems"(2) by (auto simp: delete_conv' dest: in_set_dropD)
    then show ?thesis using True ev es' unfolding m by (auto simp: algebra_simps)
  next
    case False
    with "2.prems" show ?thesis by auto
  qed
qed auto

lemma memory_insert_refines:
  assumes ok: "memory_ok c" and ttl: "0 < ttl"
  shows "\<exists>c'. memory_insert k v ttl now c = Some c' \<and> memory_ok c' \<and> mc_capacity c' = mc_capacity c \<and>
    lru_of c' = lru_insert (mc_capacity c) k \<lparr>ce_value = v, ce_expires_at = now + ttl\<rparr> (lru_of c)"
proof -
  let ?e = "\<lparr>ce_value = v, ce_expires_at = now + ttl\<rparr>"
  let ?ks = "remove1 k (mc_recency c) @ [k]" and ?es = "AList.update k ?e (mc_entries c)"
  have c: "hm_ok (mc_entries c)" "distinct (mc_recency c)" "set (mc_recency c) = set (hm_keys (mc_entries c))"
    "length (mc_entries c) \<le> mc_capacity c" "0 < mc_capacity c"
    using ok by (simp_all add: memory_ok_def)
  have es: "hm_ok ?es" "distinct ?ks" "set ?ks = set (hm_keys ?es)"
    using c by (auto simp: hm.ok_put update_keys)
  have len: "length ?ks = length ?es"
    using es unfolding hm_ok_def by (metis distinct_card length_map)
  have le: "length ?es \<le> Suc (mc_capacity c)"
    using hm.size_put [OF c(1), of k ?e] c(4) by (simp split: if_splits)
  let ?m = "length ?es - mc_capacity c"
  obtain es' where ev: "evict (mc_capacity c) ?ks ?es (cs_evictions (mc_stats c)) =
      (drop ?m ?ks, es', cs_evictions (mc_stats c) + of_nat ?m)"
    and es': "hm_ok es'" "set (hm_keys es') = set (drop ?m ?ks)" "\<forall>x \<in> set (drop ?m ?ks). map_of es' x = map_of ?es x"
    using evict_spec [OF es len] by blast
  let ?c = "c\<lparr>mc_recency := drop ?m ?ks, mc_entries := es',
      mc_stats := (mc_stats c)\<lparr>cs_insertions := cs_insertions (mc_stats c) + 1,
        cs_evictions := cs_evictions (mc_stats c) + of_nat ?m\<rparr>\<rparr>"
  have ins: "memory_insert k v ttl now c = Some ?c" using ttl ev by (simp add: memory_insert_def)
  have dst: "distinct (drop ?m ?ks)" using es(2) by (rule distinct_drop)
  have "length es' = length (drop ?m ?ks)"
    using es'(1,2) dst unfolding hm_ok_def by (metis distinct_card length_map)
  then have "length es' \<le> mc_capacity c" using len by simp
  then have "memory_ok ?c" using c es' dst by (simp add: memory_ok_def)
  moreover have "bindings ?ks ?es = lru_forget k (lru_of c) @ [(k, ?e)]"
    using c(2) by (simp add: lru_of_def forget_bindings)
      (simp add: bindings_def update_conv)
  then have "drop ?m (bindings ?ks ?es) = lru_insert (mc_capacity c) k ?e (lru_of c)"
    using len by (simp only: lru_insert_def Let_def length_bindings [of ?ks ?es, symmetric])
  moreover have "lru_of ?c = drop ?m (bindings ?ks ?es)"
    using bindings_cong [OF es'(3)] unfolding drop_bindings by (simp add: lru_of_def drop_bindings)
  ultimately show ?thesis using ins by (intro exI [of _ ?c]) simp
qed

lemma map_of_lru_of: "memory_ok c \<Longrightarrow> map_of (lru_of c) k = map_of (mc_entries c) k"
  by (simp add: lru_of_def memory_ok_def map_of_bindings)

lemma keys_remove1: "distinct ks \<Longrightarrow> set (remove1 k ks) = set ks - {k}"
  by simp

lemma memory_remove_refines:
  assumes ok: "memory_ok c"
  shows "memory_ok (snd (memory_remove k c)) \<and> lru_of (snd (memory_remove k c)) = lru_forget k (lru_of c) \<and>
    fst (memory_remove k c) = map_option ce_value (map_of (lru_of c) k) \<and>
    mc_capacity (snd (memory_remove k c)) = mc_capacity c"
proof -
  have c: "hm_ok (mc_entries c)" "distinct (mc_recency c)" "set (mc_recency c) = set (hm_keys (mc_entries c))"
    using ok by (simp_all add: memory_ok_def)
  have "length (AList.delete k (mc_entries c)) \<le> length (mc_entries c)"
    using hm.size_del_le [OF c(1), of k] by simp
  then have "memory_ok (snd (memory_remove k c))"
    using ok c by (auto simp: memory_ok_def memory_remove_def hm.ok_del AList.delete_keys)
  moreover have "bindings (remove1 k (mc_recency c)) (AList.delete k (mc_entries c)) =
      bindings (remove1 k (mc_recency c)) (mc_entries c)"
    using c(2) by (intro bindings_cong) (auto simp: delete_conv')
  ultimately show ?thesis
    using c(2) map_of_lru_of [OF ok, of k] by (simp add: memory_remove_def lru_of_def forget_bindings)
qed

lemma memory_get_refines:
  assumes ok: "memory_ok c"
  shows "memory_ok (snd (memory_get k now c)) \<and> mc_capacity (snd (memory_get k now c)) = mc_capacity c \<and>
    (fst (memory_get k now c), lru_of (snd (memory_get k now c))) = lru_get k now (lru_of c)"
proof (cases "map_of (mc_entries c) k")
  case None
  then show ?thesis
    using ok map_of_lru_of [OF ok, of k] by (simp add: memory_get_def lru_get_def Let_def memory_ok_def lru_of_def)
next
  case (Some e)
  note rem = memory_remove_refines [OF ok, of k]
  have c: "distinct (mc_recency c)" "set (mc_recency c) = set (hm_keys (mc_entries c))"
    using ok by (simp_all add: memory_ok_def)
  have k: "k \<in> set (mc_recency c)" using Some c(2) by (metis dom_map_of_conv_image_fst domI list.set_map)
  have lk: "map_of (lru_of c) k = Some e" using map_of_lru_of [OF ok] Some by simp
  show ?thesis
  proof (cases "ce_expires_at e \<le> now")
    case True
    then show ?thesis
      using rem Some lk by (simp add: memory_get_def lru_get_def memory_remove_def Let_def memory_ok_def lru_of_def)
  next
    case False
    have "bindings [k] (mc_entries c) = [(k, e)]" using Some by (simp add: bindings_def)
    moreover have "memory_ok (snd (memory_get k now c))"
      using ok False Some k by (auto simp: memory_ok_def memory_get_def Let_def)
    ultimately show ?thesis
      using False Some lk c(1) by (simp add: memory_get_def lru_get_def Let_def lru_of_def forget_bindings)
  qed
qed

lemma drop_keys_refines:
  "memory_ok c \<Longrightarrow> memory_ok (drop_keys ks c) \<and> lru_of (drop_keys ks c) = filter (\<lambda>b. fst b \<notin> set ks) (lru_of c) \<and>
   mc_capacity (drop_keys ks c) = mc_capacity c \<and> mc_stats (drop_keys ks c) = mc_stats c"
proof (induction ks arbitrary: c)
  case (Cons k ks)
  note rem = memory_remove_refines [OF Cons.prems, of k]
  have "mc_stats (snd (memory_remove k c)) = mc_stats c" by (simp add: memory_remove_def)
  with rem Cons.IH [of "snd (memory_remove k c)"] show ?case
    by (auto simp: drop_keys_def lru_forget_def intro: filter_cong)
qed (simp add: drop_keys_def)

text \<open>Every operation of the bounded cache is the operation of the list of bindings.\<close>

lemma distinct_lru: "memory_ok c \<Longrightarrow> distinct (map fst (lru_of c))"
  by (simp add: lru_of_def bindings_def memory_ok_def comp_def)

lemma entry_of_binding: "memory_ok c \<Longrightarrow> (k, e) \<in> set (lru_of c) \<longleftrightarrow> (k, e) \<in> set (mc_entries c)"
proof -
  assume ok: "memory_ok c"
  then have "distinct (map fst (mc_entries c))" by (simp add: memory_ok_def hm_ok_def)
  then show ?thesis
    using map_of_lru_of [OF ok, of k] map_of_eq_Some_iff [OF distinct_lru [OF ok], of k e]
      map_of_eq_Some_iff [of "mc_entries c" k e] by simp
qed

lemma selected_keys:
  assumes "memory_ok c"
  shows "filter (\<lambda>b. fst b \<notin> set (map fst (filter P (mc_entries c)))) (lru_of c) = filter (\<lambda>b. \<not> P b) (lru_of c)"
proof (rule filter_cong)
  fix b
  assume b: "b \<in> set (lru_of c)"
  have "b' = b" if "b' \<in> set (mc_entries c)" "fst b' = fst b" for b'
  proof -
    have "b \<in> set (mc_entries c)" using b entry_of_binding [OF assms, of "fst b" "snd b"] by simp
    moreover have "distinct (map fst (mc_entries c))" using assms by (simp add: memory_ok_def hm_ok_def)
    ultimately have "snd b' = snd b" using that by (metis eq_key_imp_eq_value prod.collapse)
    then show ?thesis using that(2) by (simp add: prod_eq_iff)
  qed
  then show "(fst b \<notin> set (map fst (filter P (mc_entries c)))) = (\<not> P b)"
    using b entry_of_binding [OF assms, of "fst b" "snd b"] by auto
qed simp



section \<open>The bounded cache keeps the contract\<close>

lemma map_of_drop: "distinct (map fst l) \<Longrightarrow> map_of (drop m l) k = None \<or> map_of (drop m l) k = map_of l k"
proof (induction l arbitrary: m)
  case (Cons b l)
  then show ?case
    by (cases m) (auto simp: map_of_eq_None_iff dest: in_set_dropD)
qed simp

lemma memory_get_view: "fst (memory_get k t c) = (case map_of (mc_entries c) k of None \<Rightarrow> None | Some e \<Rightarrow> if t < ce_expires_at e then Some (ce_value e) else None)"
  by (auto simp: memory_get_def Let_def split: option.splits)

lemma memory_insert_lookup:
  assumes ok: "memory_ok c" and ins: "memory_insert k v ttl now c = Some c'"
  shows "map_of (mc_entries c') k = Some \<lparr>ce_value = v, ce_expires_at = now + ttl\<rparr>"
    "k' \<noteq> k \<Longrightarrow> map_of (mc_entries c') k' = None \<or> map_of (mc_entries c') k' = map_of (mc_entries c) k'"
proof -
  let ?e = "\<lparr>ce_value = v, ce_expires_at = now + ttl\<rparr>" and ?l = "lru_forget k (lru_of c)"
  have ttl: "0 < ttl" using ins by (auto simp: memory_insert_def split: if_splits)
  have ok': "memory_ok c'" and l: "lru_of c' = lru_insert (mc_capacity c) k ?e (lru_of c)"
    using memory_insert_refines [OF ok ttl, of k v now] ins by auto
  have m: "length (?l @ [(k, ?e)]) - mc_capacity c \<le> length ?l"
    using ok unfolding memory_ok_def by (simp only: length_append list.size) linarith
  have l': "lru_of c' = drop (length (?l @ [(k, ?e)]) - mc_capacity c) ?l @ [(k, ?e)]"
    unfolding l lru_insert_def Let_def using m by (simp add: drop_append)
  have notin: "map_of (drop n ?l) k = None" for n
    by (auto simp: map_of_eq_None_iff lru_forget_def dest: in_set_dropD)
  have "map_of (lru_of c') k = Some ?e" unfolding l' using notin by (simp add: map_add_def)
  then show "map_of (mc_entries c') k = Some ?e" by (simp add: map_of_lru_of [OF ok'])
  assume k': "k' \<noteq> k"
  have "distinct (map fst ?l)" using distinct_lru [OF ok] by (simp add: lru_forget_def distinct_map_filter)
  then have "map_of (drop n ?l) k' = None \<or> map_of (drop n ?l) k' = map_of ?l k'" for n by (rule map_of_drop)
  moreover have "map_of ?l k' = map_of (lru_of c) k'"
    unfolding lru_forget_def using distinct_lru [OF ok] k' by (simp add: map_of_filter_pred hm_ok_def split: option.splits)
  moreover have "map_of (lru_of c') k' = map_of (drop (length (?l @ [(k, ?e)]) - mc_capacity c) ?l) k'"
    unfolding l' using k' by (simp add: map_add_def split: option.splits)
  ultimately have "map_of (lru_of c') k' = None \<or> map_of (lru_of c') k' = map_of (lru_of c) k'" by metis
  then show "map_of (mc_entries c') k' = None \<or> map_of (mc_entries c') k' = map_of (mc_entries c) k'"
    by (simp add: map_of_lru_of ok ok')
qed

interpretation mem: expiring_cache memory_ok memory_insert memory_get memory_remove
proof
  fix s s' :: "('k, 'v) memory_cache" and k k' :: 'k and v :: 'v and ttl now t :: nat
  assume ok: "memory_ok s"
  show "0 < ttl \<Longrightarrow> \<exists>s'. memory_insert k v ttl now s = Some s' \<and> memory_ok s'"
    using memory_insert_refines [OF ok] by blast
  show "memory_ok (snd (memory_get k now s))" using memory_get_refines [OF ok] by blast
  show "memory_ok (snd (memory_remove k s))" using memory_remove_refines [OF ok] by blast
  show "now \<le> t \<Longrightarrow> fst (memory_get k' t (snd (memory_get k now s))) = fst (memory_get k' t s)"
    by (cases "map_of (mc_entries s) k")
      (auto simp: memory_get_view memory_get_def Let_def delete_conv' split: option.splits)
  show "fst (memory_get k' t (snd (memory_remove k s))) = (if k' = k then None else fst (memory_get k' t s))"
    by (simp add: memory_get_view memory_remove_def delete_conv')
  assume ins: "memory_insert k v ttl now s = Some s'"
  show "fst (memory_get k t s') = (if t < now + ttl then Some v else None)"
    using memory_insert_lookup(1) [OF ok ins] by (simp add: memory_get_view)
  assume "k' \<noteq> k"
  from memory_insert_lookup(2) [OF ok ins this]
  show "fst (memory_get k' t s') = None \<or> fst (memory_get k' t s') = fst (memory_get k' t s)"
    by (auto simp: memory_get_view)
qed

text \<open>
  A cache never answers with a stale value: after any sequence of insertions, reads and removals
  at times that do not decrease, a read of the bounded cache returns nothing or the value of the last
  insertion of that key, and the latter only when the key was not removed since and has not expired;
  the unbounded cache returns exactly that value.
\<close>

theorem caches_never_stale:
  assumes "mem.ttls_positive ops" and "sorted (map fst ops)" and "\<forall>op \<in> set ops. fst op \<le> t"
    and "memory_new capacity = Some c"
  shows "(\<exists>c'. mem.run ops c = Some c' \<and>
      (fst (memory_get k t c') = None \<or> fst (memory_get k t c') = visible t (last_write k ops None))) \<and>
    (\<exists>c'. ttl.run ops [] = Some c' \<and> fst (ttl_get k t c') = visible t (last_write k ops None))"
proof
  have c: "memory_ok c" "fst (memory_get k t c) = None"
    using assms(4) by (auto simp: memory_new_def memory_ok_def memory_get_view hm.ok_empty split: if_splits)
  then show "\<exists>c'. mem.run ops c = Some c' \<and>
      (fst (memory_get k t c') = None \<or> fst (memory_get k t c') = visible t (last_write k ops None))"
    using mem.run_never_stale [OF c(1) assms(1-3), of k None] by auto
  have e: "hm_ok ([] :: ('a, 'b) ttl_cache)" "fst (ttl_get k t ([] :: ('a, 'b) ttl_cache)) = visible t None"
    by (simp_all add: hm.ok_empty ttl_get_def visible_def)
  show "\<exists>c'. ttl.run ops [] = Some c' \<and> fst (ttl_get k t c') = visible t (last_write k ops None)"
    using ttl.run_exact [OF e(1) _ assms(2,3) e(2)] assms(1)
    by (simp add: ttl.ttls_positive_def mem.ttls_positive_def)
qed

theorem caches_never_stale_witness:
  "\<exists>c'. ttl.run [(1, Insert ''k'' (7::nat) 10), (2, Get ''k''), (3, Insert ''k'' 8 10)] [] = Some c' \<and>
     fst (ttl_get ''k'' 12 c') = Some 8"
proof -
  let ?ops = "[(1, Insert ''k'' 7 10), (2, Get ''k''), (3, Insert ''k'' 8 10)] :: (nat \<times> (string, nat) cache_op) list"
  obtain c :: "(string, nat) memory_cache" where "memory_new 1 = Some c" by (simp add: memory_new_def)
  moreover have "mem.ttls_positive ?ops" "sorted (map fst ?ops)" "\<forall>op \<in> set ?ops. fst op \<le> 12"
    by (auto simp: mem.ttls_positive_def)
  ultimately show ?thesis
    using caches_never_stale [of ?ops 12 1 c "''k''"] by (simp add: visible_def)
qed

text \<open>
  The jitter only lengthens an expiry, by at most \<open>jitter\<close>, and saturates instead of overflowing.
\<close>

lemma jittered_ttl_bounds:
  assumes "base \<le> duration_max" and "jitter \<le> duration_max"
  shows "base \<le> jittered_ttl base jitter seq \<and> jittered_ttl base jitter seq \<le> base + jitter \<and>
    jittered_ttl base jitter seq \<le> duration_max"
proof (cases "jitter = 0")
  case True
  with assms(1) show ?thesis by (simp add: jittered_ttl_def)
next
  case False
  define a where "a = unat (splitmix seq) mod sat_add u128_max jitter 1"
  have "a < sat_add u128_max jitter 1" unfolding a_def by (rule mod_less_divisor) (simp add: sat_add_def u128_max_def)
  then have a: "a \<le> jitter" by (simp add: sat_add_def)
  have "a div nanos_per_sec \<le> u64_max"
    using a assms(2) by (auto simp: duration_max_def nanos_per_sec_def intro: order_trans [OF div_le_mono])
  then have "min (a div nanos_per_sec) u64_max * nanos_per_sec + a mod nanos_per_sec = a" by simp
  then have "jittered_ttl base jitter seq = sat_add duration_max base a"
    using False by (simp add: jittered_ttl_def Let_def a_def)
  with a assms(1) show ?thesis by (auto simp: sat_add_def)
qed

lemma jittered_ttl_bounds_witness:
  "jittered_ttl 1000 50 3 \<le> 1050"
  using jittered_ttl_bounds [of 1000 50 3] by (simp add: duration_max_def u64_max_def nanos_per_sec_def)

end
