(* ===== verification/Single_Flight.thy ===== *)
theory Single_Flight
  imports Cache
begin

text \<open>
  \<open>core/src/singleflight.rs\<close>: concurrent calls for one key share the result of one leader, and the
  read-through cache of \<open>core/src/cache.rs\<close> built on it. Callers are numbered. The atomic steps are the
  critical section on entry, the leader's removal of its flight, the drop of its guard, and the
  delivery to one waiter through its oneshot channel.
\<close>

section \<open>Model\<close>

datatype 'e flight_error = Operation 'e | LeaderCancelled

type_synonym ('v, 'e) flight_result = "'e flight_error + 'v"

datatype ('k, 'v, 'e) phase =
  Idle
| Leading 'k
| Waiting 'k
| Returned "('v, 'e) flight_result"
| Cancelled

record ('k, 'v, 'e) single_flight =
  sf_flights :: "('k, nat list) hmap"
  sf_phase :: "nat \<Rightarrow> ('k, 'v, 'e) phase"
  sf_outbox :: "(nat \<times> ('v, 'e) flight_result) list"

definition single_flight_new :: "('k, 'v, 'e) single_flight" where
  "single_flight_new = \<lparr>sf_flights = [], sf_phase = (\<lambda>_. Idle), sf_outbox = []\<rparr>"

definition flight_enter :: "nat \<Rightarrow> 'k \<Rightarrow> ('k, 'v, 'e) single_flight \<Rightarrow> ('k, 'v, 'e) single_flight" where
  "flight_enter i k s =
     (case map_of (sf_flights s) k of
        Some waiters \<Rightarrow>
          s\<lparr>sf_flights := AList.update k (waiters @ [i]) (sf_flights s), sf_phase := (sf_phase s)(i := Waiting k)\<rparr>
      | None \<Rightarrow>
          s\<lparr>sf_flights := AList.update k [] (sf_flights s), sf_phase := (sf_phase s)(i := Leading k)\<rparr>)"

text \<open>The leader's operation returned \<open>r\<close>; \<^term>\<open>None\<close> is the failed \<open>expect\<close> of a missing flight.\<close>

definition flight_complete ::
  "nat \<Rightarrow> 'k \<Rightarrow> 'e + 'v \<Rightarrow> ('k, 'v, 'e) single_flight \<Rightarrow> ('k, 'v, 'e) single_flight option" where
  "flight_complete i k r s =
     (let res = (case r of Inl e \<Rightarrow> Inl (Operation e) | Inr v \<Rightarrow> Inr v) in
      case map_of (sf_flights s) k of
        None \<Rightarrow> None
      | Some waiters \<Rightarrow>
          Some (s\<lparr>sf_flights := AList.delete k (sf_flights s),
            sf_outbox := sf_outbox s @ map (\<lambda>w. (w, res)) waiters,
            sf_phase := (sf_phase s)(i := Returned res)\<rparr>))"

text \<open>\<open>FlightGuard::drop\<close> of a leader whose future is dropped.\<close>

definition flight_cancel :: "nat \<Rightarrow> 'k \<Rightarrow> ('k, 'v, 'e) single_flight \<Rightarrow> ('k, 'v, 'e) single_flight" where
  "flight_cancel i k s =
     (case map_of (sf_flights s) k of
        None \<Rightarrow> s\<lparr>sf_phase := (sf_phase s)(i := Cancelled)\<rparr>
      | Some waiters \<Rightarrow>
          s\<lparr>sf_flights := AList.delete k (sf_flights s),
            sf_outbox := sf_outbox s @ map (\<lambda>w. (w, Inl LeaderCancelled)) waiters,
            sf_phase := (sf_phase s)(i := Cancelled)\<rparr>)"

text \<open>A send to a waiter that is gone has no effect.\<close>

definition flight_deliver :: "nat \<Rightarrow> ('v, 'e) flight_result \<Rightarrow> ('k, 'v, 'e) single_flight \<Rightarrow> ('k, 'v, 'e) single_flight" where
  "flight_deliver w res s =
     (case sf_phase s w of
        Waiting _ \<Rightarrow> s\<lparr>sf_phase := (sf_phase s)(w := Returned res)\<rparr>
      | _ \<Rightarrow> s)"

definition flight_abandon :: "nat \<Rightarrow> ('k, 'v, 'e) single_flight \<Rightarrow> ('k, 'v, 'e) single_flight" where
  "flight_abandon w s = s\<lparr>sf_phase := (sf_phase s)(w := Cancelled)\<rparr>"

inductive flight_run :: "('k, 'v, 'e) single_flight \<Rightarrow> bool" where
  start: "flight_run single_flight_new"
| enter: "flight_run s \<Longrightarrow> sf_phase s i = Idle \<Longrightarrow> flight_run (flight_enter i k s)"
| complete: "flight_run s \<Longrightarrow> sf_phase s i = Leading k \<Longrightarrow> flight_complete i k r s = Some s' \<Longrightarrow> flight_run s'"
| cancel: "flight_run s \<Longrightarrow> sf_phase s i = Leading k \<Longrightarrow> flight_run (flight_cancel i k s)"
| deliver: "flight_run s \<Longrightarrow> sf_outbox s = (w, res) # rest \<Longrightarrow>
    flight_run (flight_deliver w res (s\<lparr>sf_outbox := rest\<rparr>))"
| abandon: "flight_run s \<Longrightarrow> sf_phase s w = Waiting k \<Longrightarrow> flight_run (flight_abandon w s)"

section \<open>One leader per key, and no waiter is forgotten\<close>

definition leaders :: "('k, 'v, 'e) single_flight \<Rightarrow> 'k \<Rightarrow> nat set" where
  "leaders s k = {i. sf_phase s i = Leading k}"

definition flight_inv :: "('k, 'v, 'e) single_flight \<Rightarrow> bool" where
  "flight_inv s \<longleftrightarrow> hm_ok (sf_flights s) \<and>
     (\<forall>k. map_of (sf_flights s) k = None \<longrightarrow> leaders s k = {}) \<and>
     (\<forall>k ws. map_of (sf_flights s) k = Some ws \<longrightarrow> (\<exists>i. leaders s k = {i})) \<and>
     (\<forall>w k. sf_phase s w = Waiting k \<longrightarrow>
        (\<exists>ws. map_of (sf_flights s) k = Some ws \<and> w \<in> set ws) \<or> w \<in> fst ` set (sf_outbox s))"

lemma flight_inv_flight: "flight_inv s \<Longrightarrow> sf_phase s i = Leading k \<Longrightarrow> \<exists>ws. map_of (sf_flights s) k = Some ws"
  by (cases "map_of (sf_flights s) k") (auto simp: flight_inv_def leaders_def)

lemma flight_inv_leader: "flight_inv s \<Longrightarrow> map_of (sf_flights s) k = Some ws \<Longrightarrow> \<exists>i. leaders s k = {i}"
  by (simp add: flight_inv_def)

lemma flight_inv_waiting:
  "flight_inv s \<Longrightarrow> sf_phase s w = Waiting k \<Longrightarrow>
   (\<exists>ws. map_of (sf_flights s) k = Some ws \<and> w \<in> set ws) \<or> w \<in> fst ` set (sf_outbox s)"
  by (simp add: flight_inv_def)

lemma leaders_upd:
  "leaders (s\<lparr>sf_flights := f, sf_outbox := x, sf_phase := (sf_phase s)(i := p)\<rparr>) k =
     (if p = Leading k then insert i (leaders s k) else leaders s k - {i})"
  by (auto simp: leaders_def)

lemma flight_inv_enter:
  assumes inv: "flight_inv s" and idle: "sf_phase s i = Idle"
  shows "flight_inv (flight_enter i k s)"
proof -
  have notlead: "i \<notin> leaders s k'" for k' using idle by (simp add: leaders_def)
  have L: "leaders (flight_enter i k s) k' =
      (if map_of (sf_flights s) k = None \<and> k' = k then insert i (leaders s k') else leaders s k')" for k'
    using notlead [of k'] by (auto simp: flight_enter_def leaders_def split: option.splits if_splits)
  have F: "map_of (sf_flights (flight_enter i k s)) k' =
      (if k' = k then Some (case map_of (sf_flights s) k of None \<Rightarrow> [] | Some ws \<Rightarrow> ws @ [i]) else map_of (sf_flights s) k')" for k'
    by (simp add: flight_enter_def update_conv split: option.splits)
  have "hm_ok (sf_flights (flight_enter i k s))"
    using inv by (auto simp: flight_inv_def flight_enter_def hm.ok_put split: option.splits)
  moreover have "map_of (sf_flights (flight_enter i k s)) k' = None \<Longrightarrow> leaders (flight_enter i k s) k' = {}" for k'
    using inv unfolding L F flight_inv_def by (simp split: if_splits)
  moreover have "\<exists>j. leaders (flight_enter i k s) k' = {j}"
    if "map_of (sf_flights (flight_enter i k s)) k' = Some ws" for k' ws
    using inv that unfolding L F flight_inv_def
    by (cases "k' = k"; cases "map_of (sf_flights s) k") auto
  moreover have "(\<exists>ws. map_of (sf_flights (flight_enter i k s)) k' = Some ws \<and> w \<in> set ws) \<or>
      w \<in> fst ` set (sf_outbox (flight_enter i k s))"
    if "sf_phase (flight_enter i k s) w = Waiting k'" for w k'
  proof (cases "w = i")
    case True
    with that idle show ?thesis by (auto simp: flight_enter_def F update_conv split: option.splits if_splits)
  next
    case False
    with that have "sf_phase s w = Waiting k'" by (simp add: flight_enter_def split: option.splits)
    from flight_inv_waiting [OF inv this]
    have "(\<exists>ws. map_of (sf_flights s) k' = Some ws \<and> w \<in> set ws) \<or> w \<in> fst ` set (sf_outbox s)" .
    moreover have "sf_outbox (flight_enter i k s) = sf_outbox s" by (simp add: flight_enter_def split: option.splits)
    ultimately show ?thesis by (auto simp: F)
  qed
  ultimately show ?thesis unfolding flight_inv_def by blast
qed

text \<open>Ending a flight, by completion or by the guard: the waiters move to the outbox.\<close>

lemma flight_inv_end:
  assumes inv: "flight_inv s" and lead: "sf_phase s i = Leading k" and ws: "map_of (sf_flights s) k = Some ws"
    and p: "\<forall>k. p \<noteq> Leading k \<and> p \<noteq> Waiting k"
  shows "flight_inv (s\<lparr>sf_flights := AList.delete k (sf_flights s),
    sf_outbox := sf_outbox s @ map (\<lambda>w. (w, res)) ws, sf_phase := (sf_phase s)(i := p)\<rparr>)"
proof -
  have one: "leaders s k = {i}"
  proof -
    have "i \<in> leaders s k" using lead by (simp add: leaders_def)
    moreover obtain j where "leaders s k = {j}" using flight_inv_leader [OF inv ws] by blast
    ultimately show ?thesis by simp
  qed
  have other: "leaders s k' - {i} = leaders s k'" if "k' \<noteq> k" for k'
    using lead that by (auto simp: leaders_def)
  show ?thesis
    unfolding flight_inv_def leaders_upd
  proof (intro conjI allI impI)
    show "hm_ok (sf_flights (s\<lparr>sf_flights := AList.delete k (sf_flights s),
      sf_outbox := sf_outbox s @ map (\<lambda>w. (w, res)) ws, sf_phase := (sf_phase s)(i := p)\<rparr>))"
      using inv by (simp add: flight_inv_def hm.ok_del)
  next
    fix k'
    assume "map_of (sf_flights (s\<lparr>sf_flights := AList.delete k (sf_flights s),
        sf_outbox := sf_outbox s @ map (\<lambda>w. (w, res)) ws, sf_phase := (sf_phase s)(i := p)\<rparr>)) k' = None"
    then show "(if p = Leading k' then insert i (leaders s k') else leaders s k' - {i}) = {}"
      using inv p one by (auto simp: flight_inv_def delete_conv' split: if_splits)
  next
    fix k' ws'
    assume "map_of (sf_flights (s\<lparr>sf_flights := AList.delete k (sf_flights s),
        sf_outbox := sf_outbox s @ map (\<lambda>w. (w, res)) ws, sf_phase := (sf_phase s)(i := p)\<rparr>)) k' = Some ws'"
    then have "k' \<noteq> k" "map_of (sf_flights s) k' = Some ws'" by (auto simp: delete_conv' split: if_splits)
    then show "\<exists>j. (if p = Leading k' then insert i (leaders s k') else leaders s k' - {i}) = {j}"
      using flight_inv_leader [OF inv] other [of k'] p by auto
  next
    fix w k'
    assume "sf_phase (s\<lparr>sf_flights := AList.delete k (sf_flights s),
        sf_outbox := sf_outbox s @ map (\<lambda>w. (w, res)) ws, sf_phase := (sf_phase s)(i := p)\<rparr>) w = Waiting k'"
    then have "sf_phase s w = Waiting k'" using p by (auto split: if_splits)
    with inv have "(\<exists>ws. map_of (sf_flights s) k' = Some ws \<and> w \<in> set ws) \<or> w \<in> fst ` set (sf_outbox s)"
      by (simp add: flight_inv_def)
    then show "(\<exists>ws'. map_of (sf_flights (s\<lparr>sf_flights := AList.delete k (sf_flights s),
        sf_outbox := sf_outbox s @ map (\<lambda>w. (w, res)) ws, sf_phase := (sf_phase s)(i := p)\<rparr>)) k' = Some ws' \<and> w \<in> set ws') \<or>
      w \<in> fst ` set (sf_outbox (s\<lparr>sf_flights := AList.delete k (sf_flights s),
        sf_outbox := sf_outbox s @ map (\<lambda>w. (w, res)) ws, sf_phase := (sf_phase s)(i := p)\<rparr>))"
      using ws by (cases "k' = k") (auto simp: delete_conv' image_Un image_image)
  qed
qed

lemma flight_inv_settle:
  assumes inv: "flight_inv s" and w: "\<forall>k. sf_phase s w \<noteq> Leading k" and p: "\<forall>k. p \<noteq> Leading k \<and> p \<noteq> Waiting k"
    and out: "set (sf_outbox s) - {(w, res)} \<subseteq> set out"
  shows "flight_inv (s\<lparr>sf_outbox := out, sf_phase := (sf_phase s)(w := p)\<rparr>)"
proof -
  have L: "leaders (s\<lparr>sf_outbox := out, sf_phase := (sf_phase s)(w := p)\<rparr>) k = leaders s k" for k
    using w p by (auto simp: leaders_def)
  have "(\<exists>ws. map_of (sf_flights s) k = Some ws \<and> x \<in> set ws) \<or> x \<in> fst ` set out"
    if "x \<noteq> w" "sf_phase s x = Waiting k" for x k
  proof -
    have "(\<exists>ws. map_of (sf_flights s) k = Some ws \<and> x \<in> set ws) \<or> x \<in> fst ` set (sf_outbox s)"
      using inv that(2) by (simp add: flight_inv_def)
    moreover have "x \<in> fst ` set out" if "x \<in> fst ` set (sf_outbox s)"
      using that out \<open>x \<noteq> w\<close> by (force simp: image_iff)
    ultimately show ?thesis by blast
  qed
  then show ?thesis using inv p unfolding flight_inv_def L by (auto split: if_splits)
qed

lemma flight_run_inv: "flight_run s \<Longrightarrow> flight_inv s"
proof (induction rule: flight_run.induct)
  case start
  show ?case by (simp add: flight_inv_def single_flight_new_def leaders_def hm.ok_empty)
next
  case (enter s i k)
  then show ?case by (simp add: flight_inv_enter)
next
  case (complete s i k r s')
  obtain ws where ws: "map_of (sf_flights s) k = Some ws"
    using flight_inv_flight [OF complete.IH complete.hyps(2)] by blast
  then show ?case
    using complete.hyps(3) flight_inv_end [OF complete.IH complete.hyps(2) ws]
    by (auto simp: flight_complete_def Let_def)
next
  case (cancel s i k)
  obtain ws where ws: "map_of (sf_flights s) k = Some ws"
    using flight_inv_flight [OF cancel.IH cancel.hyps(2)] by blast
  then show ?case
    using flight_inv_end [OF cancel.IH cancel.hyps(2) ws, of Cancelled "Inl LeaderCancelled"]
    by (simp add: flight_cancel_def)
next
  case (deliver s w res rest)
  show ?case
  proof (cases "\<exists>k. sf_phase s w = Waiting k")
    case True
    then show ?thesis
      using flight_inv_settle [OF deliver.IH, of w "Returned res" res rest] deliver.hyps(2)
      by (auto simp: flight_deliver_def)
  next
    case False
    have "(\<exists>ws. map_of (sf_flights s) k = Some ws \<and> x \<in> set ws) \<or> x \<in> fst ` set rest"
      if "sf_phase s x = Waiting k" for x k
    proof -
      have "x \<noteq> w" using that False by auto
      with flight_inv_waiting [OF deliver.IH that] deliver.hyps(2) show ?thesis by auto
    qed
    then have "flight_inv (s\<lparr>sf_outbox := rest\<rparr>)"
      using deliver.IH unfolding flight_inv_def leaders_def by simp
    moreover have "flight_deliver w res (s\<lparr>sf_outbox := rest\<rparr>) = s\<lparr>sf_outbox := rest\<rparr>"
      using False by (auto simp: flight_deliver_def split: phase.splits)
    ultimately show ?thesis by simp
  qed
next
  case (abandon s w k)
  show ?case
    using flight_inv_settle [OF abandon.IH, of w Cancelled undefined "sf_outbox s"] abandon.hyps(2)
    by (auto simp: flight_abandon_def)
qed

text \<open>
  C7. Coalescing is sound under every interleaving of entries, completions, cancellations and
  deliveries: for one key at most one operation runs at a time, its leader always finds its own
  flight, and a caller that waits is always either registered with a running leader or already has
  its result on the way, so that no waiter is left behind when a leader ends or is cancelled.
\<close>

theorem single_flight_sound:
  assumes "flight_run s"
  shows "(sf_phase s i = Leading k \<and> sf_phase s j = Leading k \<longrightarrow> i = j) \<and>
    (sf_phase s i = Leading k \<longrightarrow> (\<exists>s'. flight_complete i k r s = Some s')) \<and>
    (sf_phase s w = Waiting k \<longrightarrow>
      (\<exists>l ws. sf_phase s l = Leading k \<and> map_of (sf_flights s) k = Some ws \<and> w \<in> set ws) \<or>
      w \<in> fst ` set (sf_outbox s))"
proof -
  have inv: "flight_inv s" using assms by (rule flight_run_inv)
  note lead = flight_inv_leader [OF inv, of k]
  have "i = j" if lead_i: "sf_phase s i = Leading k" and lead_j: "sf_phase s j = Leading k"
  proof -
    obtain ws where "map_of (sf_flights s) k = Some ws" using flight_inv_flight [OF inv lead_i] by blast
    then obtain l where "leaders s k = {l}" using lead by blast
    moreover have "i \<in> leaders s k" "j \<in> leaders s k" using lead_i lead_j by (simp_all add: leaders_def)
    ultimately show ?thesis by simp
  qed
  moreover have "\<exists>s'. flight_complete i k r s = Some s'" if "sf_phase s i = Leading k"
    using flight_inv_flight [OF inv that] by (auto simp: flight_complete_def Let_def)
  moreover have "(\<exists>l ws. sf_phase s l = Leading k \<and> map_of (sf_flights s) k = Some ws \<and> w \<in> set ws) \<or>
      w \<in> fst ` set (sf_outbox s)" if "sf_phase s w = Waiting k"
  proof -
    note flight_inv_waiting [OF inv that]
    moreover have "\<exists>l. sf_phase s l = Leading k" if "map_of (sf_flights s) k = Some ws" for ws
      using lead [OF that] by (auto simp: leaders_def)
    ultimately show ?thesis by blast
  qed
  ultimately show ?thesis by blast
qed

theorem single_flight_sound_witness:
  "\<exists>s :: (string, nat, nat) single_flight. flight_run s \<and> sf_phase s 0 = Leading ''k'' \<and> sf_phase s 1 = Waiting ''k'' \<and>
     (\<exists>s'. flight_complete 0 ''k'' (Inr 5) s = Some s')"
proof -
  let ?s = "flight_enter 1 ''k'' (flight_enter 0 ''k'' single_flight_new) :: (string, nat, nat) single_flight"
  have run: "flight_run ?s"
    by (intro flight_run.enter flight_run.start) (simp_all add: single_flight_new_def flight_enter_def)
  have "sf_phase ?s 0 = Leading ''k''" "sf_phase ?s 1 = Waiting ''k''"
    by (simp_all add: single_flight_new_def flight_enter_def)
  with run single_flight_sound [OF run, of 0 "''k''" 1 "Inr 5" 1] show ?thesis by blast
qed

section \<open>The read-through cache\<close>

text \<open>
  \<open>ReadThroughCache::take\<close> of a caller that leads or finds the value: the result, whether \<open>fetch\<close> was
  called, and the new cache. \<open>t1\<close> and \<open>t2\<close> are the clock readings of the two lookups, \<open>t3\<close> that of the
  insertion; \<open>mid\<close> is what other callers did to the cache before the second lookup and \<open>late\<close> what
  they did while \<open>fetch\<close> ran.
\<close>

definition read_through_take ::
  "'k \<Rightarrow> duration \<Rightarrow> instant \<Rightarrow> instant \<Rightarrow> instant \<Rightarrow>
   (('k, 'v) memory_cache \<Rightarrow> ('k, 'v) memory_cache) \<Rightarrow> (('k, 'v) memory_cache \<Rightarrow> ('k, 'v) memory_cache) \<Rightarrow>
   'e + 'v \<Rightarrow> ('k, 'v) memory_cache \<Rightarrow> (('v, 'e) flight_result \<times> bool \<times> ('k, 'v) memory_cache) option" where
  "read_through_take k ttl t1 t2 t3 mid late fetch c =
     (case memory_get k t1 c of
        (Some v, c1) \<Rightarrow> Some (Inr v, False, c1)
      | (None, c1) \<Rightarrow>
          (case memory_get k t2 (mid c1) of
             (Some v, c2) \<Rightarrow> Some (Inr v, False, c2)
           | (None, c2) \<Rightarrow>
               (case fetch of
                  Inl e \<Rightarrow> Some (Inl (Operation e), True, late c2)
                | Inr v \<Rightarrow> map_option (\<lambda>c3. (Inr v, True, c3)) (memory_insert k v ttl t3 (late c2)))))"

text \<open>
  A successful \<open>take\<close> of the read-through cache leaves its value cached for the whole time to live:
  until then a second \<open>take\<close> returns the same value and calls no \<open>fetch\<close>, even on a bounded cache.
\<close>

theorem read_through_caches:
  assumes ok: "memory_ok c" "\<And>c. memory_ok c \<Longrightarrow> memory_ok (mid c)" "\<And>c. memory_ok c \<Longrightarrow> memory_ok (late c)"
    and ttl: "0 < ttl" and take: "read_through_take k ttl t1 t2 t3 mid late (Inr v) c = Some (Inr v, True, c')"
    and live: "t < t3 + ttl"
  shows "\<exists>c''. read_through_take k ttl t t2' t3' mid' late' other c' = Some (Inr v, False, c'')"
proof -
  obtain c1 where c1: "memory_get k t1 c = (None, c1)" using take
    by (auto simp: read_through_take_def split: option.splits prod.splits)
  obtain c2 where c2: "memory_get k t2 (mid c1) = (None, c2)" using take c1
    by (auto simp: read_through_take_def split: option.splits prod.splits)
  have ins: "memory_insert k v ttl t3 (late c2) = Some c'"
    using take c1 c2 by (auto simp: read_through_take_def)
  have "memory_ok (late c2)"
    using mem.get_ok [OF ok(1), of k t1] mem.get_ok [OF ok(2), of c1 k t2] c1 c2 ok(3) by simp
  from mem.get_insert [OF this ins, of t] live
  have "fst (memory_get k t c') = Some v" by simp
  then show ?thesis by (cases "memory_get k t c'") (simp add: read_through_take_def)
qed

theorem read_through_caches_witness:
  "\<exists>c c' c''. memory_new 1 = Some c \<and> read_through_take ''k'' 10 0 0 1 id id (Inr 7 :: string + nat) c = Some (Inr 7, True, c') \<and>
     read_through_take ''k'' 10 9 9 9 id id (Inl (''boom'')) c' = Some (Inr 7, False, c'')"
proof -
  obtain c :: "(string, nat) memory_cache" where c: "memory_new 1 = Some c" "memory_ok c" "mc_entries c = []"
    by (auto simp: memory_new_def memory_ok_def hm.ok_empty)
  have "memory_get ''k'' 0 c = (None, c\<lparr>mc_stats := (mc_stats c)\<lparr>cs_misses := cs_misses (mc_stats c) + 1\<rparr>\<rparr>)"
    using c(3) by (simp add: memory_get_def Let_def)
  then obtain c2 where miss: "memory_get ''k'' 0 (snd (memory_get ''k'' 0 c)) = (None, c2)"
    using c(3) by (simp add: memory_get_def Let_def)
  have "memory_ok c2" using mem.get_ok [OF mem.get_ok [OF c(2)], of "''k''" 0 "''k''" 0] miss by simp
  from mem.insert_ok [OF this, of 10 "''k''" 7 1] obtain c' where "memory_insert ''k'' 7 10 1 c2 = Some c'" by auto
  then have take: "read_through_take ''k'' 10 0 0 1 id id (Inr 7 :: string + nat) c = Some (Inr 7, True, c')"
    using miss c(3) by (simp add: read_through_take_def memory_get_def Let_def)
  have "\<exists>c''. read_through_take ''k'' 10 9 9 9 id id (Inl ''boom'') c' = Some (Inr 7, False, c'')"
    using read_through_caches [OF c(2) _ _ _ take, of 9 9 9 id id "Inl ''boom''"] by simp
  with c(1) take show ?thesis by blast
qed

end
