(* ===== verification/Retry.thy ===== *)
theory Retry
  imports Prelude
begin

text \<open>
  \<open>core/src/fx.rs\<close>: \<open>retry\<close> with bounded exponential backoff. The operation is a function from the
  attempt number to its result; a run yields the result and the sleeps it made, in order.
\<close>

record retry_policy =
  rp_max_attempts :: nat
  rp_initial_delay :: duration
  rp_max_delay :: duration

definition retry_policy_new :: "nat \<Rightarrow> duration \<Rightarrow> retry_policy option" where
  "retry_policy_new max_attempts initial_delay =
     (if max_attempts = 0 \<or> initial_delay = 0 then None
      else Some \<lparr>rp_max_attempts = max_attempts, rp_initial_delay = initial_delay,
                 rp_max_delay = 30 * nanos_per_sec\<rparr>)"

definition with_max_delay :: "duration \<Rightarrow> retry_policy \<Rightarrow> retry_policy option" where
  "with_max_delay d p = (if d = 0 then None else Some (p\<lparr>rp_max_delay := d\<rparr>))"

text \<open>
  The loop over the attempts \<open>attempt .. max_attempts\<close>, by the number \<open>n\<close> of attempts that are left;
  \<^term>\<open>None\<close> is the \<open>unreachable!\<close> behind an empty loop.
\<close>

fun retry_loop :: "retry_policy \<Rightarrow> (nat \<Rightarrow> 'e + 't) \<Rightarrow> nat \<Rightarrow> nat \<Rightarrow> duration \<Rightarrow> (('e + 't) \<times> duration list) option" where
  "retry_loop p op attempt 0 delay = None"
| "retry_loop p op attempt (Suc n) delay =
     (case op attempt of
        Inr v \<Rightarrow> Some (Inr v, [])
      | Inl e \<Rightarrow>
          if attempt = rp_max_attempts p then Some (Inl e, [])
          else map_option (\<lambda>(r, sleeps). (r, delay # sleeps))
            (retry_loop p op (attempt + 1) n (min (sat_mul duration_max delay 2) (rp_max_delay p))))"

definition retry :: "retry_policy \<Rightarrow> (nat \<Rightarrow> 'e + 't) \<Rightarrow> (('e + 't) \<times> duration list) option" where
  "retry p op = retry_loop p op 1 (rp_max_attempts p) (rp_initial_delay p)"

text \<open>The backoff in closed form, and the attempt that decides.\<close>

definition backoff :: "retry_policy \<Rightarrow> nat \<Rightarrow> duration" where
  "backoff p i = (if i = 0 then rp_initial_delay p else min (rp_initial_delay p * 2 ^ i) (rp_max_delay p))"

definition deciding :: "retry_policy \<Rightarrow> (nat \<Rightarrow> 'e + 't) \<Rightarrow> nat \<Rightarrow> bool" where
  "deciding p op k \<longleftrightarrow> 1 \<le> k \<and> k \<le> rp_max_attempts p \<and> (\<forall>j. 1 \<le> j \<and> j < k \<longrightarrow> isl (op j)) \<and>
     (k = rp_max_attempts p \<or> \<not> isl (op k))"

lemma backoff_Suc:
  assumes "rp_max_delay p \<le> duration_max" "rp_initial_delay p \<le> duration_max"
  shows "min (sat_mul duration_max (backoff p i) 2) (rp_max_delay p) = backoff p (Suc i)"
  using assms by (auto simp: backoff_def sat_mul_def min_def)

lemma retry_loop_eq:
  assumes max: "rp_max_delay p \<le> duration_max" "rp_initial_delay p \<le> duration_max"
  shows "\<forall>j. 1 \<le> j \<and> j < attempt \<longrightarrow> isl (op j) \<Longrightarrow> attempt + n = Suc (rp_max_attempts p) \<Longrightarrow> 0 < n \<Longrightarrow> 1 \<le> attempt \<Longrightarrow>
   \<exists>k. deciding p op k \<and> attempt \<le> k \<and>
     retry_loop p op attempt n (backoff p (attempt - 1)) = Some (op k, map (backoff p) [attempt - 1..<k - 1])"
proof (induction n arbitrary: attempt)
  case (Suc n)
  show ?case
  proof (cases "op attempt")
    case (Inr v)
    then show ?thesis using Suc.prems by (intro exI [of _ attempt]) (simp add: deciding_def)
  next
    case (Inl e)
    show ?thesis
    proof (cases "attempt = rp_max_attempts p")
      case True
      then show ?thesis using Inl Suc.prems by (intro exI [of _ attempt]) (simp add: deciding_def)
    next
      case False
      have "\<forall>j. 1 \<le> j \<and> j < Suc attempt \<longrightarrow> isl (op j)" using Suc.prems(1) Inl by (auto simp: less_Suc_eq)
      then obtain k where k: "deciding p op k" "Suc attempt \<le> k"
        "retry_loop p op (Suc attempt) n (backoff p attempt) = Some (op k, map (backoff p) [attempt..<k - 1])"
        using Suc.IH [of "Suc attempt"] Suc.prems False by auto
      have "[attempt - 1..<k - 1] = (attempt - 1) # [attempt..<k - 1]"
        using k(2) Suc.prems(4) by (subst upt_rec) auto
      then show ?thesis
        using k Inl False Suc.prems(4) backoff_Suc [OF max, of "attempt - 1"] by (intro exI [of _ k]) simp
    qed
  qed
qed simp

text \<open>
  \<open>retry\<close> always returns, with the result of the first attempt that succeeds, or of the last one
  when all fail, having slept once before each attempt but the first: the initial delay first, as it
  is, and then the doubled delays capped at \<open>max_delay\<close>.
\<close>

theorem retry_schedule:
  assumes "0 < rp_max_attempts p" and "rp_max_delay p \<le> duration_max" and "rp_initial_delay p \<le> duration_max"
  shows "\<exists>k. deciding p op k \<and> retry p op = Some (op k, map (backoff p) [0..<k - 1])"
  using retry_loop_eq [OF assms(2,3), of 1 op "rp_max_attempts p"] assms(1)
  by (auto simp: retry_def backoff_def)

theorem retry_schedule_witness:
  "\<exists>p. retry_policy_new 4 10 = Some p \<and>
     retry p (\<lambda>i. if i < 3 then Inl ''down'' else Inr i) = Some (Inr 3, [10, 20])"
proof -
  define p where "p = \<lparr>rp_max_attempts = 4, rp_initial_delay = 10, rp_max_delay = 30 * nanos_per_sec\<rparr>"
  have p: "retry_policy_new 4 10 = Some p" "rp_max_attempts p = 4" "rp_initial_delay p = 10"
    "rp_max_delay p = 30000000000"
    by (simp_all add: p_def retry_policy_new_def nanos_per_sec_def)
  let ?op = "\<lambda>i. if i < 3 then Inl ''down'' else Inr i"
  obtain k where k: "deciding p ?op k" "retry p ?op = Some (?op k, map (backoff p) [0..<k - 1])"
    using retry_schedule [of p ?op] p by (auto simp: duration_max_def u64_max_def nanos_per_sec_def)
  have "k = 3"
  proof -
    have "\<not> k < 3" using k(1) p(2) by (auto simp: deciding_def split: if_splits)
    moreover have "\<not> 3 < k" using k(1) by (auto simp: deciding_def dest: spec [of _ 3])
    ultimately show ?thesis by simp
  qed
  moreover have "map (backoff p) [0..<2] = [10, 20]" using p by (simp add: backoff_def numeral_2_eq_2 upt_rec)
  ultimately show ?thesis using k(2) p(1) by (auto simp: numeral_2_eq_2)
qed

end
