(* ===== verification/Config.thy ===== *)
theory Config
  imports Prelude "HOL-Library.Word"
begin

text \<open>
  \<open>core/src/config.rs\<close>: loading configuration files with environment references, and
  \<open>core/src/config_center.rs\<close>: the dynamic configuration. The environment, the file system and the
  deserializers are parameters. \<open>expand_environment\<close> only tests for ASCII characters, so it works on
  the UTF-8 bytes as it does on the characters.
\<close>

section \<open>Formats and environment references\<close>

datatype config_format = Json | Json5 | Toml | Yaml

datatype config_error =
  ConfigIo string string
| UnsupportedFormat string
| InvalidEnvironmentReference
| MissingEnvironmentVariable string
| ConfigParse string

text \<open>\<open>Path::extension\<close>: what follows the last dot of the file name, unless the dot is its first byte.\<close>

definition file_name :: "string \<Rightarrow> string option" where
  "file_name path =
     (let parts = filter (\<lambda>p. p \<noteq> [] \<and> p \<noteq> ''.'') (split_on CHR ''/'' path) in
      if parts = [] \<or> last parts = ''..'' then None else Some (last parts))"

definition path_extension :: "string \<Rightarrow> string option" where
  "path_extension path =
     (case file_name path of
        None \<Rightarrow> None
      | Some name \<Rightarrow>
          let parts = split_on CHR ''.'' name in
          if length parts < 2 \<or> butlast parts = [[]] then None else Some (last parts))"

definition format_from_path :: "string \<Rightarrow> config_error + config_format" where
  "format_from_path path =
     (case path_extension path of
        None \<Rightarrow> Inl (UnsupportedFormat path)
      | Some ext \<Rightarrow>
          if ext = ''json'' then Inr Json
          else if ext = ''json5'' then Inr Json5
          else if ext = ''toml'' then Inr Toml
          else if ext = ''yaml'' \<or> ext = ''yml'' then Inr Yaml
          else Inl (UnsupportedFormat path))"

definition name_char :: "char \<Rightarrow> bool" where
  "name_char c \<longleftrightarrow>
     (let n = (of_char c :: nat) in 48 \<le> n \<and> n \<le> 57 \<or> 65 \<le> n \<and> n \<le> 90 \<or> 97 \<le> n \<and> n \<le> 122 \<or> n = 95)"

text \<open>The braced name up to the closing brace, with the rest of the input.\<close>

fun braced_name :: "string \<Rightarrow> (string \<times> string) option" where
  "braced_name [] = None"
| "braced_name (c # cs) =
     (if c = CHR ''}'' then Some ([], cs) else map_option (\<lambda>(name, rest). (c # name, rest)) (braced_name cs))"

definition env_reference :: "string \<Rightarrow> (string \<times> string) option" where
  "env_reference cs =
     (case cs of
        c # cs' \<Rightarrow> if c = CHR ''{'' then braced_name cs' else Some (takeWhile name_char cs, dropWhile name_char cs)
      | [] \<Rightarrow> Some ([], []))"

lemma braced_name_length: "braced_name cs = Some (name, rest) \<Longrightarrow> length rest < length cs"
  by (induction cs arbitrary: name) (auto split: if_splits)

lemma env_reference_length: "env_reference cs = Some (name, rest) \<Longrightarrow> length rest \<le> length cs"
  by (auto simp: env_reference_def length_dropWhile_le le_SucI [OF length_dropWhile_le] dest: braced_name_length split: list.splits if_splits)

function expand_environment :: "(string \<Rightarrow> string option) \<Rightarrow> string \<Rightarrow> config_error + string" where
  "expand_environment env [] = Inr []"
| "expand_environment env (c # cs) =
     (if c \<noteq> CHR ''$''
      then map_sum id (\<lambda>s. c # s) (expand_environment env cs)
      else case env_reference cs of
        None \<Rightarrow> Inl InvalidEnvironmentReference
      | Some (name, rest) \<Rightarrow>
          if name = [] then map_sum id (\<lambda>s. CHR ''$'' # s) (expand_environment env rest)
          else case env name of
            None \<Rightarrow> Inl (MissingEnvironmentVariable name)
          | Some value \<Rightarrow> map_sum id (\<lambda>s. value @ s) (expand_environment env rest))"
  by pat_completeness auto
termination
  by (relation "measure (\<lambda>(env, cs). length cs)") (auto dest: env_reference_length)

definition parse_config :: "(string \<Rightarrow> string option) \<Rightarrow> (config_format \<Rightarrow> string \<Rightarrow> string + 't) \<Rightarrow>
    string \<Rightarrow> config_format \<Rightarrow> config_error + 't" where
  "parse_config env deserialize contents format =
     (case expand_environment env contents of
        Inl e \<Rightarrow> Inl e
      | Inr text \<Rightarrow> map_sum ConfigParse id (deserialize format text))"

definition load_config :: "(string \<Rightarrow> string + string) \<Rightarrow> (string \<Rightarrow> string option) \<Rightarrow>
    (config_format \<Rightarrow> string \<Rightarrow> string + 't) \<Rightarrow> string \<Rightarrow> config_error + 't" where
  "load_config read env deserialize path =
     (case read path of
        Inl e \<Rightarrow> Inl (ConfigIo path e)
      | Inr contents \<Rightarrow>
          (case format_from_path path of
             Inl e \<Rightarrow> Inl e
           | Inr format \<Rightarrow> parse_config env deserialize contents format))"

datatype service_mode = Development | Production | Test

record service_config =
  sv_name :: string
  sv_host :: string
  sv_port :: nat
  sv_mode :: service_mode

definition service_address :: "service_config \<Rightarrow> string" where
  "service_address c = sv_host c @ '':'' @ show_nat (sv_port c)"

section \<open>Templates\<close>

text \<open>What a configuration text with references means: literal characters and the two kinds of reference.\<close>

datatype piece = Literal char | Dollar | Braced string | Bare string

fun piece_text :: "piece \<Rightarrow> string" where
  "piece_text (Literal c) = [c]"
| "piece_text Dollar = ''$''"
| "piece_text (Braced name) = ''${'' @ name @ ''}''"
| "piece_text (Bare name) = CHR ''$'' # name"

fun piece_value :: "(string \<Rightarrow> string option) \<Rightarrow> piece \<Rightarrow> config_error + string" where
  "piece_value env (Literal c) = Inr [c]"
| "piece_value env Dollar = Inr ''$''"
| "piece_value env (Braced name) = (case env name of None \<Rightarrow> Inl (MissingEnvironmentVariable name) | Some v \<Rightarrow> Inr v)"
| "piece_value env (Bare name) = (case env name of None \<Rightarrow> Inl (MissingEnvironmentVariable name) | Some v \<Rightarrow> Inr v)"

text \<open>A text determines its pieces when no reference swallows what follows it.\<close>

fun pieces_ok :: "piece list \<Rightarrow> bool" where
  "pieces_ok [] = True"
| "pieces_ok (p # ps) =
     ((case p of
        Literal c \<Rightarrow> c \<noteq> CHR ''$''
      | Dollar \<Rightarrow> (case concat (map piece_text ps) of [] \<Rightarrow> True | c # _ \<Rightarrow> \<not> name_char c \<and> c \<noteq> CHR ''{'')
      | Braced name \<Rightarrow> name \<noteq> [] \<and> CHR ''}'' \<notin> set name
      | Bare name \<Rightarrow> name \<noteq> [] \<and> list_all name_char name \<and>
          (case concat (map piece_text ps) of [] \<Rightarrow> True | c # _ \<Rightarrow> \<not> name_char c)) \<and> pieces_ok ps)"

fun pieces_value :: "(string \<Rightarrow> string option) \<Rightarrow> piece list \<Rightarrow> config_error + string" where
  "pieces_value env [] = Inr []"
| "pieces_value env (p # ps) =
     (case piece_value env p of
        Inl e \<Rightarrow> Inl e
      | Inr v \<Rightarrow> map_sum id (\<lambda>s. v @ s) (pieces_value env ps))"

lemma braced_name_append: "CHR ''}'' \<notin> set name \<Longrightarrow> braced_name (name @ CHR ''}'' # rest) = Some (name, rest)"
  by (induction name) auto

lemma env_reference_bare:
  assumes "list_all name_char name" and "case rest of [] \<Rightarrow> True | c # _ \<Rightarrow> \<not> name_char c"
    and "name = [] \<longrightarrow> (case rest of [] \<Rightarrow> True | c # _ \<Rightarrow> c \<noteq> CHR ''{'')"
  shows "env_reference (name @ rest) = Some (name, rest)"
proof -
  have "\<not> name_char (CHR ''{'')" by (simp add: name_char_def)
  moreover have "takeWhile name_char (name @ rest) = name \<and> dropWhile name_char (name @ rest) = rest"
    using assms(1,2) by (induction name) (auto split: list.splits)
  ultimately show ?thesis
    using assms by (cases name) (auto simp: env_reference_def split: list.splits)
qed

lemma map_sum_id_Inr [simp]: "map_sum id f (Inr x) = Inr (f x)" "map_sum id f (Inl e) = Inl e"
  by simp_all

text \<open>
  Environment references are expanded exactly once and nowhere else. For every template of literal
  characters, lone dollar signs, braced and bare references whose text can be read back, expansion of
  the text gives the concatenation of the values, or the error of the first missing variable; the
  values themselves are not expanded again.
\<close>

theorem expand_environment_template:
  assumes "pieces_ok ps"
  shows "expand_environment env (concat (map piece_text ps)) = pieces_value env ps"
  using assms
proof (induction ps)
  case (Cons p ps)
  let ?rest = "concat (map piece_text ps)"
  have IH: "expand_environment env ?rest = pieces_value env ps" using Cons by simp
  show ?case
  proof (cases p)
    case (Literal c)
    then show ?thesis using Cons.prems IH by (cases "pieces_value env ps") auto
  next
    case Dollar
    have "env_reference ([] @ ?rest) = Some ([], ?rest)"
      using Cons.prems Dollar
      by (intro env_reference_bare) (auto simp del: concat_eq_Nil_conv split: list.split_asm)
    then show ?thesis using IH Dollar by (cases "pieces_value env ps") auto
  next
    case (Braced name)
    have "env_reference (CHR ''{'' # name @ CHR ''}'' # ?rest) = Some (name, ?rest)"
      using Cons.prems Braced by (simp add: env_reference_def braced_name_append)
    then show ?thesis using IH Braced Cons.prems by (simp split: option.splits)
  next
    case (Bare name)
    have "env_reference (name @ ?rest) = Some (name, ?rest)"
      using Cons.prems Bare by (intro env_reference_bare) auto
    then show ?thesis using IH Bare Cons.prems by (simp split: option.splits)
  qed
qed simp

theorem expand_environment_template_witness:
  "expand_environment (\<lambda>n. if n = ''HOST'' then Some ''a$b'' else None) ''x=${HOST};$;'' = Inr ''x=a$b;$;''"
  using expand_environment_template [of "[Literal (CHR ''x''), Literal (CHR ''=''), Braced ''HOST'',
      Literal (CHR '';''), Dollar, Literal (CHR '';'')]" "\<lambda>n. if n = ''HOST'' then Some ''a$b'' else None"]
  by (simp add: name_char_def)

section \<open>Dynamic configuration\<close>

record 't config_snapshot =
  cs_generation :: "64 word"
  cs_raw :: string
  cs_value :: 't

text \<open>
  The shared state: the snapshot under its lock, the generation counter, and the value of the watch
  channel. An update that has parsed its input runs three atomic steps; \<open>dy_tickets\<close> holds the
  snapshots of updates that have drawn a generation, \<open>dy_written\<close> of those that have also written the
  snapshot.
\<close>

record 't dynamic_config =
  dy_format :: config_format
  dy_snapshot :: "'t config_snapshot"
  dy_generation :: "64 word"
  dy_watch :: "'t config_snapshot"
  dy_tickets :: "'t config_snapshot list"
  dy_written :: "'t config_snapshot list"

definition dynamic_new :: "(string \<Rightarrow> config_format \<Rightarrow> config_error + 't) \<Rightarrow> string \<Rightarrow> config_format \<Rightarrow>
    config_error + 't dynamic_config" where
  "dynamic_new parse contents format =
     (case parse contents format of
        Inl e \<Rightarrow> Inl e
      | Inr v \<Rightarrow>
          let s = \<lparr>cs_generation = 1, cs_raw = contents, cs_value = v\<rparr> in
          Inr \<lparr>dy_format = format, dy_snapshot = s, dy_generation = 1, dy_watch = s,
               dy_tickets = [], dy_written = []\<rparr>)"

definition update_begin :: "(string \<Rightarrow> config_format \<Rightarrow> config_error + 't) \<Rightarrow> string \<Rightarrow> 't dynamic_config \<Rightarrow>
    config_error + 't dynamic_config" where
  "update_begin parse contents d =
     (case parse contents (dy_format d) of
        Inl e \<Rightarrow> Inl e
      | Inr v \<Rightarrow>
          let g = dy_generation d + 1 in
          Inr (d\<lparr>dy_generation := g,
            dy_tickets := dy_tickets d @ [\<lparr>cs_generation = g, cs_raw = contents, cs_value = v\<rparr>]\<rparr>))"

definition update_write :: "'t config_snapshot \<Rightarrow> 't dynamic_config \<Rightarrow> 't dynamic_config" where
  "update_write s d = d\<lparr>dy_snapshot := s, dy_tickets := remove1 s (dy_tickets d), dy_written := dy_written d @ [s]\<rparr>"

definition update_send :: "'t config_snapshot \<Rightarrow> 't dynamic_config \<Rightarrow> 't dynamic_config" where
  "update_send s d = d\<lparr>dy_watch := s, dy_written := remove1 s (dy_written d)\<rparr>"

text \<open>The update of a caller that no other update overlaps.\<close>

definition dynamic_update :: "(string \<Rightarrow> config_format \<Rightarrow> config_error + 't) \<Rightarrow> string \<Rightarrow> 't dynamic_config \<Rightarrow>
    (config_error + 't config_snapshot) \<times> 't dynamic_config" where
  "dynamic_update parse contents d =
     (case update_begin parse contents d of
        Inl e \<Rightarrow> (Inl e, d)
      | Inr d1 \<Rightarrow> let s = last (dy_tickets d1) in (Inr s, update_send s (update_write s d1)))"

inductive dynamic_run :: "(string \<Rightarrow> config_format \<Rightarrow> config_error + 't) \<Rightarrow> 't dynamic_config \<Rightarrow> bool" for parse where
  start: "dynamic_new parse contents format = Inr d \<Longrightarrow> dynamic_run parse d"
| ticket: "dynamic_run parse d \<Longrightarrow> update_begin parse contents d = Inr d' \<Longrightarrow> dynamic_run parse d'"
| installed: "dynamic_run parse d \<Longrightarrow> s \<in> set (dy_tickets d) \<Longrightarrow> dynamic_run parse (update_write s d)"
| sent: "dynamic_run parse d \<Longrightarrow> s \<in> set (dy_written d) \<Longrightarrow> dynamic_run parse (update_send s d)"

text \<open>Whatever is visible was parsed from the text that it carries.\<close>

definition genuine :: "(string \<Rightarrow> config_format \<Rightarrow> config_error + 't) \<Rightarrow> config_format \<Rightarrow> 't config_snapshot \<Rightarrow> bool" where
  "genuine parse format s \<longleftrightarrow> parse (cs_raw s) format = Inr (cs_value s)"

lemma dynamic_run_genuine:
  "dynamic_run parse d \<Longrightarrow>
   genuine parse (dy_format d) (dy_snapshot d) \<and> genuine parse (dy_format d) (dy_watch d) \<and>
   (\<forall>s \<in> set (dy_tickets d) \<union> set (dy_written d). genuine parse (dy_format d) s)"
  by (induction rule: dynamic_run.induct)
    (auto simp: dynamic_new_def update_begin_def update_write_def update_send_def genuine_def Let_def
      split: sum.splits dest: subsetD [OF set_remove1_subset])

text \<open>
  An update is all or nothing: a text that does not parse changes nothing, an update that no other
  overlaps installs its snapshot, with the next generation, for readers and watchers alike, and under
  every interleaving a snapshot that is read or watched was parsed from the text it carries.
\<close>

theorem dynamic_update_atomic:
  assumes run: "dynamic_run parse d" and quiet: "dy_tickets d = []" "dy_written d = []"
  shows "(case parse contents (dy_format d) of
      Inl e \<Rightarrow> dynamic_update parse contents d = (Inl e, d)
    | Inr v \<Rightarrow>
        let s = \<lparr>cs_generation = dy_generation d + 1, cs_raw = contents, cs_value = v\<rparr> in
        dynamic_update parse contents d =
          (Inr s, d\<lparr>dy_generation := dy_generation d + 1, dy_snapshot := s, dy_watch := s\<rparr>)) \<and>
    parse (cs_raw (dy_snapshot d)) (dy_format d) = Inr (cs_value (dy_snapshot d)) \<and>
    parse (cs_raw (dy_watch d)) (dy_format d) = Inr (cs_value (dy_watch d))"
  using dynamic_run_genuine [OF run] quiet
  by (auto simp: genuine_def dynamic_update_def update_begin_def update_write_def update_send_def Let_def
      split: sum.splits)

theorem dynamic_update_atomic_witness:
  "\<exists>d. dynamic_new (\<lambda>s _. if s = ''bad'' then Inl InvalidEnvironmentReference else Inr (length s)) ''ab'' Json = Inr d \<and>
     dynamic_update (\<lambda>s _. if s = ''bad'' then Inl InvalidEnvironmentReference else Inr (length s)) ''bad'' d
       = (Inl InvalidEnvironmentReference, d)"
proof -
  let ?parse = "\<lambda>s (_ :: config_format). if s = ''bad'' then Inl InvalidEnvironmentReference else Inr (length s)"
  obtain d where d: "dynamic_new ?parse ''ab'' Json = Inr d" "dy_tickets d = []" "dy_written d = []"
    by (simp add: dynamic_new_def Let_def)
  have "dynamic_run ?parse d" using d(1) by (rule dynamic_run.start)
  from dynamic_update_atomic [OF this d(2,3), of "''bad''"] d(1) show ?thesis by auto
qed

text \<open>
  Two updates that overlap can leave the older one installed: an update draws its generation
  before it takes the lock, so the snapshot read afterwards can have a lower generation than one that
  was installed before it, and readers and watchers can end up with different snapshots, with no
  update left running.
\<close>

theorem dynamic_update_overtaken:
  "\<exists>d. dynamic_run (\<lambda>s _. Inr (length s)) d \<and> dy_tickets d = [] \<and> dy_written d = [] \<and>
     cs_generation (dy_snapshot d) = 2 \<and> dy_generation d = 3 \<and> cs_generation (dy_watch d) = 3"
proof -
  let ?parse = "\<lambda>s (_ :: config_format). Inr (length s) :: config_error + nat"
  let ?a = "\<lparr>cs_generation = 1, cs_raw = ''a'', cs_value = 1\<rparr> :: nat config_snapshot"
  let ?b = "\<lparr>cs_generation = 2, cs_raw = ''bb'', cs_value = 2\<rparr> :: nat config_snapshot"
  let ?c = "\<lparr>cs_generation = 3, cs_raw = ''ccc'', cs_value = 3\<rparr> :: nat config_snapshot"
  let ?d = "\<lambda>snap gen watch tickets written. \<lparr>dy_format = Json, dy_snapshot = snap, dy_generation = gen,
     dy_watch = watch, dy_tickets = tickets, dy_written = written\<rparr>"
  have "dynamic_run ?parse (?d ?a 1 ?a [] [])"
    by (rule dynamic_run.start [of _ "''a''" Json]) (simp add: dynamic_new_def Let_def)
  then have "dynamic_run ?parse (?d ?a 2 ?a [?b] [])"
    by (rule dynamic_run.ticket [of _ _ "''bb''"]) (simp add: update_begin_def Let_def)
  then have "dynamic_run ?parse (?d ?a 3 ?a [?b, ?c] [])"
    by (rule dynamic_run.ticket [of _ _ "''ccc''"]) (simp add: update_begin_def Let_def)
  then have "dynamic_run ?parse (?d ?c 3 ?a [?b] [?c])"
    using dynamic_run.installed [of ?parse "?d ?a 3 ?a [?b, ?c] []" ?c] by (simp add: update_write_def)
  then have "dynamic_run ?parse (?d ?b 3 ?a [] [?c, ?b])"
    using dynamic_run.installed [of ?parse "?d ?c 3 ?a [?b] [?c]" ?b] by (simp add: update_write_def)
  then have "dynamic_run ?parse (?d ?b 3 ?b [] [?c])"
    using dynamic_run.sent [of ?parse "?d ?b 3 ?a [] [?c, ?b]" ?b] by (simp add: update_send_def)
  then have "dynamic_run ?parse (?d ?b 3 ?c [] [])"
    using dynamic_run.sent [of ?parse "?d ?b 3 ?b [] [?c]" ?c] by (simp add: update_send_def)
  then show ?thesis by (intro exI [of _ "?d ?b 3 ?c [] []"]) simp
qed

end
