(* ===== verification/Executor.thy ===== *)
theory Executor
  imports Prelude
begin

text \<open>
  \<open>core/src/executor.rs\<close>: the batching executors, the throttling executor and the delayed executor.
  A batching worker is a loop over the commands it receives and the ticks of its timer; the job it
  runs for a batch is recorded in the list of executed batches. Both workers keep the contract of the
  locale \<open>batching\<close>.
\<close>

section \<open>Batching workers\<close>

text \<open>What \<open>select!\<close> yields: a command, the closed channel, or a tick. An item carries its size.\<close>

datatype 't worker_event = Item 't nat | Flush | Shutdown | Closed | Tick

record 't worker =
  wk_pending :: "'t list"
  wk_bytes :: nat
  wk_executed :: "'t list list"
  wk_acknowledged :: nat
  wk_stopped :: bool

definition worker_new :: "'t worker" where
  "worker_new = \<lparr>wk_pending = [], wk_bytes = 0, wk_executed = [], wk_acknowledged = 0, wk_stopped = False\<rparr>"

definition execute_pending :: "'t worker \<Rightarrow> 't worker" where
  "execute_pending w = w\<lparr>wk_executed := wk_executed w @ [wk_pending w], wk_pending := []\<rparr>"

definition flush_batch :: "'t worker \<Rightarrow> 't worker" where
  "flush_batch w = (if wk_pending w \<noteq> [] then execute_pending w else w)"

definition acknowledge :: "'t worker \<Rightarrow> 't worker" where
  "acknowledge w = w\<lparr>wk_acknowledged := wk_acknowledged w + 1\<rparr>"

definition run_worker_step :: "nat \<Rightarrow> 't worker_event \<Rightarrow> 't worker \<Rightarrow> 't worker" where
  "run_worker_step max_batch_size e w =
     (if wk_stopped w then w
      else case e of
        Item v _ \<Rightarrow>
          let w1 = w\<lparr>wk_pending := wk_pending w @ [v]\<rparr> in
          if max_batch_size \<le> length (wk_pending w1) then execute_pending w1 else w1
      | Flush \<Rightarrow> acknowledge (flush_batch w)
      | Shutdown \<Rightarrow> (acknowledge (flush_batch w))\<lparr>wk_stopped := True\<rparr>
      | Closed \<Rightarrow> (flush_batch w)\<lparr>wk_stopped := True\<rparr>
      | Tick \<Rightarrow> flush_batch w)"

definition run_chunk_worker_step :: "nat \<Rightarrow> 't worker_event \<Rightarrow> 't worker \<Rightarrow> 't worker" where
  "run_chunk_worker_step max_chunk_bytes e w =
     (if wk_stopped w then w
      else case e of
        Item v sz \<Rightarrow>
          let w1 = w\<lparr>wk_pending := wk_pending w @ [v], wk_bytes := sat_add u64_max (wk_bytes w) sz\<rparr> in
          if max_chunk_bytes \<le> wk_bytes w1 then (execute_pending w1)\<lparr>wk_bytes := 0\<rparr> else w1
      | Flush \<Rightarrow> acknowledge ((flush_batch w)\<lparr>wk_bytes := 0\<rparr>)
      | Shutdown \<Rightarrow> (acknowledge (flush_batch w))\<lparr>wk_stopped := True\<rparr>
      | Closed \<Rightarrow> (flush_batch w)\<lparr>wk_stopped := True\<rparr>
      | Tick \<Rightarrow> (flush_batch w)\<lparr>wk_bytes := 0\<rparr>)"

definition batch_executor_new :: "nat \<Rightarrow> duration \<Rightarrow> ('t worker_event \<Rightarrow> 't worker \<Rightarrow> 't worker) option" where
  "batch_executor_new max_batch_size flush_interval =
     (if max_batch_size = 0 \<or> flush_interval = 0 then None else Some (run_worker_step max_batch_size))"

definition chunk_executor_new :: "nat \<Rightarrow> duration \<Rightarrow> ('t worker_event \<Rightarrow> 't worker \<Rightarrow> 't worker) option" where
  "chunk_executor_new max_chunk_bytes flush_interval =
     (if max_chunk_bytes = 0 \<or> flush_interval = 0 then None else Some (run_chunk_worker_step max_chunk_bytes))"

section \<open>What a batching worker promises\<close>

fun item_of :: "'t worker_event \<Rightarrow> 't list" where
  "item_of (Item v _) = [v]"
| "item_of _ = []"

fun drains :: "'t worker_event \<Rightarrow> bool" where
  "drains (Item _ _) = False"
| "drains _ = True"

fun stops :: "'t worker_event \<Rightarrow> bool" where
  "stops Shutdown = True"
| "stops Closed = True"
| "stops _ = False"

text \<open>The events a worker consumes before it stops.\<close>

fun consumed :: "'t worker_event list \<Rightarrow> 't worker_event list" where
  "consumed [] = []"
| "consumed (e # es) = e # (if stops e then [] else consumed es)"

lemma worker_new_simps [simp]:
  "\<not> wk_stopped worker_new" "wk_executed worker_new = []" "wk_pending worker_new = []"
  by (simp_all add: worker_new_def)

locale batching =
  fixes step :: "'t worker_event \<Rightarrow> 't worker \<Rightarrow> 't worker"
  assumes step_stopped: "wk_stopped w \<Longrightarrow> step e w = w"
    and step_items: "\<not> wk_stopped w \<Longrightarrow>
      concat (wk_executed (step e w)) @ wk_pending (step e w) = concat (wk_executed w) @ wk_pending w @ item_of e"
    and step_drains: "\<not> wk_stopped w \<Longrightarrow> drains e \<Longrightarrow> wk_pending (step e w) = []"
    and step_stops: "\<not> wk_stopped w \<Longrightarrow> wk_stopped (step e w) = stops e"
    and step_nonempty: "[] \<notin> set (wk_executed w) \<Longrightarrow> [] \<notin> set (wk_executed (step e w))"
begin

definition run :: "'t worker_event list \<Rightarrow> 't worker \<Rightarrow> 't worker" where
  "run es w = fold step es w"

lemma run_stopped: "wk_stopped w \<Longrightarrow> run es w = w"
  by (induction es) (simp_all add: run_def step_stopped)

lemma run_items:
  "\<not> wk_stopped w \<Longrightarrow>
   concat (wk_executed (run es w)) @ wk_pending (run es w) =
     concat (wk_executed w) @ wk_pending w @ concat (map item_of (consumed es))"
proof (induction es arbitrary: w)
  case (Cons e es)
  have st: "wk_stopped (step e w) = stops e" using Cons.prems by (rule step_stops)
  show ?case
  proof (cases "stops e")
    case True
    then have "run (e # es) w = step e w" using st run_stopped [of "step e w" es] by (simp add: run_def)
    then show ?thesis using True step_items [OF Cons.prems, of e] by simp
  next
    case False
    then show ?thesis using Cons.IH [of "step e w"] st step_items [OF Cons.prems, of e] by (simp add: run_def)
  qed
qed (simp add: run_def)

lemma run_nonempty: "[] \<notin> set (wk_executed w) \<Longrightarrow> [] \<notin> set (wk_executed (run es w))"
  by (induction es arbitrary: w) (simp_all add: run_def step_nonempty)

lemma run_drained:
  "\<not> wk_stopped w \<Longrightarrow> consumed es \<noteq> [] \<Longrightarrow> drains (last (consumed es)) \<Longrightarrow> wk_pending (run es w) = []"
proof (induction es arbitrary: w)
  case (Cons e es)
  have st: "wk_stopped (step e w) = stops e" using Cons.prems(1) by (rule step_stops)
  show ?case
  proof (cases "stops e \<or> es = []")
    case True
    then have "run (e # es) w = step e w" using st run_stopped [of "step e w" es] by (auto simp: run_def)
    moreover have "drains e" using Cons.prems(3) True by (auto split: if_splits)
    ultimately show ?thesis using step_drains [OF Cons.prems(1)] by simp
  next
    case False
    then have "consumed es \<noteq> []" by (cases es) auto
    then show ?thesis using Cons.IH [of "step e w"] Cons.prems st False by (simp add: run_def)
  qed
qed simp

lemma run_new:
  "concat (wk_executed (fold step es worker_new)) @ wk_pending (fold step es worker_new) = concat (map item_of (consumed es))"
  "[] \<notin> set (wk_executed (fold step es worker_new))"
  "consumed es \<noteq> [] \<Longrightarrow> drains (last (consumed es)) \<Longrightarrow> wk_pending (fold step es worker_new) = []"
  using run_items [of worker_new es] run_nonempty [of worker_new es] run_drained [of worker_new es]
  by (simp_all add: run_def)

end

lemmas worker_defs = execute_pending_def flush_batch_def acknowledge_def Let_def

interpretation bw: batching "run_worker_step n"
  by unfold_locales (auto simp: run_worker_step_def worker_defs split: worker_event.splits)

interpretation cw: batching "run_chunk_worker_step n"
  by unfold_locales (auto simp: run_chunk_worker_step_def worker_defs split: worker_event.splits)

text \<open>Batch sizes.\<close>

definition batch_sizes :: "nat \<Rightarrow> 't worker \<Rightarrow> bool" where
  "batch_sizes n w \<longleftrightarrow> length (wk_pending w) < n \<and> (\<forall>b \<in> set (wk_executed w). length b \<le> n)"

lemma batch_sizes_step: "0 < n \<Longrightarrow> batch_sizes n w \<Longrightarrow> batch_sizes n (run_worker_step n e w)"
  by (auto simp: batch_sizes_def run_worker_step_def worker_defs split: worker_event.splits)

lemma batch_sizes_run: "0 < n \<Longrightarrow> batch_sizes n w \<Longrightarrow> batch_sizes n (bw.run n es w)"
  by (induction es arbitrary: w) (simp_all add: bw.run_def batch_sizes_step)

text \<open>
  The batching executors neither lose, duplicate nor reorder work. For every sequence of pushes,
  flushes and timer ticks up to the shutdown, the executed batches followed by what is still buffered
  are exactly the items pushed, in order; after a flush, a tick or the shutdown nothing is buffered;
  no empty batch is executed, and a batch of \<open>BatchExecutor\<close> has at most \<open>max_batch_size\<close> items.
\<close>

theorem executors_lossless:
  assumes "batch_executor_new n interval = Some batch_step" and "chunk_executor_new m interval = Some chunk_step"
  shows "(\<forall>step \<in> {batch_step, chunk_step}. let w = fold step es worker_new in
      concat (wk_executed w) @ wk_pending w = concat (map item_of (consumed es)) \<and>
      [] \<notin> set (wk_executed w) \<and>
      (consumed es \<noteq> [] \<and> drains (last (consumed es)) \<longrightarrow> wk_pending w = [])) \<and>
    (\<forall>b \<in> set (wk_executed (fold batch_step es worker_new)). length b \<le> n)"
proof -
  have n: "0 < n" "batch_step = run_worker_step n"
    using assms(1) by (auto simp: batch_executor_new_def split: if_splits)
  have m: "chunk_step = run_chunk_worker_step m"
    using assms(2) by (auto simp: chunk_executor_new_def split: if_splits)
  have "batch_sizes n (bw.run n es worker_new)"
    using n(1) by (intro batch_sizes_run) (simp_all add: batch_sizes_def)
  then show ?thesis
    unfolding n(2) m by (simp add: batch_sizes_def bw.run_def Let_def bw.run_new cw.run_new)
qed

theorem executors_lossless_witness:
  "\<exists>(batch_step :: string worker_event \<Rightarrow> string worker \<Rightarrow> string worker) chunk_step. batch_executor_new 2 5 = Some batch_step \<and> chunk_executor_new 10 5 = Some chunk_step \<and>
    (let w = fold chunk_step [Item ''a'' 7, Item ''b'' 7, Item ''c'' 1, Flush] worker_new in
     concat (wk_executed w) @ wk_pending w = [''a'', ''b'', ''c''] \<and> wk_pending w = [])"
proof -
  obtain bs cs :: "string worker_event \<Rightarrow> string worker \<Rightarrow> string worker"
    where new: "batch_executor_new 2 5 = Some bs" "chunk_executor_new 10 5 = Some cs"
    by (simp add: batch_executor_new_def chunk_executor_new_def)
  from executors_lossless [OF new, of "[Item ''a'' 7, Item ''b'' 7, Item ''c'' 1, Flush]"]
  show ?thesis using new by - (rule exI [of _ bs], rule exI [of _ cs], clarsimp simp: Let_def simp del: fold.simps fold_simps)
qed

section \<open>The throttling executor\<close>

record less_executor =
  le_threshold :: duration
  le_last_execution :: "instant option"

definition less_executor_new :: "duration \<Rightarrow> less_executor option" where
  "less_executor_new threshold =
     (if threshold = 0 then None else Some \<lparr>le_threshold = threshold, le_last_execution = None\<rparr>)"

definition do_or_discard :: "instant \<Rightarrow> less_executor \<Rightarrow> bool \<times> less_executor" where
  "do_or_discard now l =
     (case le_last_execution l of
        Some t \<Rightarrow> if now - t \<le> le_threshold l then (False, l) else (True, l\<lparr>le_last_execution := Some now\<rparr>)
      | None \<Rightarrow> (True, l\<lparr>le_last_execution := Some now\<rparr>))"

text \<open>The times at which a sequence of calls executes.\<close>

fun executions :: "instant list \<Rightarrow> less_executor \<Rightarrow> instant list" where
  "executions [] l = []"
| "executions (t # ts) l = (let (ran, l') = do_or_discard t l in (if ran then [t] else []) @ executions ts l')"

lemma executions_spaced:
  "le_last_execution l = Some t0 \<Longrightarrow> sorted (t0 # ts) \<Longrightarrow>
   sorted_wrt (\<lambda>a b. a + le_threshold l < b) (t0 # executions ts l) \<and> set (executions ts l) \<subseteq> set ts"
proof (induction ts arbitrary: l t0)
  case (Cons t ts)
  show ?case
  proof (cases "t - t0 \<le> le_threshold l")
    case True
    then have "executions (t # ts) l = executions ts l" using Cons.prems by (simp add: do_or_discard_def)
    then show ?thesis using Cons.IH [of l t0] Cons.prems by auto
  next
    case False
    let ?l = "l\<lparr>le_last_execution := Some t\<rparr>"
    have eq: "executions (t # ts) l = t # executions ts ?l" using Cons.prems False by (simp add: do_or_discard_def)
    have IH: "sorted_wrt (\<lambda>a b. a + le_threshold l < b) (t # executions ts ?l)" "set (executions ts ?l) \<subseteq> set ts"
      using Cons.IH [of ?l t] Cons.prems by auto
    moreover have "t0 + le_threshold l < t" using False by simp
    ultimately show ?thesis unfolding eq by (auto dest: add_lessD1)
  qed
qed simp

text \<open>
  \<open>LessExecutor\<close> runs at most once per threshold: for calls at times that do not decrease, any two
  executions are more than \<open>threshold\<close> apart, and the first call always executes.
\<close>

lemma less_executor_spacing:
  assumes "less_executor_new threshold = Some l" and "sorted (t # ts)"
  shows "hd (executions (t # ts) l) = t \<and>
    sorted_wrt (\<lambda>a b. a + threshold < b) (executions (t # ts) l)"
proof -
  let ?l = "l\<lparr>le_last_execution := Some t\<rparr>"
  have l: "le_last_execution l = None" "le_threshold l = threshold"
    using assms(1) by (auto simp: less_executor_new_def split: if_splits)
  then have "executions (t # ts) l = t # executions ts ?l" by (simp add: do_or_discard_def)
  then show ?thesis using executions_spaced [of ?l t ts] assms(2) l by simp
qed

lemma less_executor_spacing_witness:
  "\<exists>l. less_executor_new 10 = Some l \<and> hd (executions [5, 9, 16] l) = 5"
proof -
  obtain l where "less_executor_new 10 = Some l" by (simp add: less_executor_new_def)
  with less_executor_spacing [OF this, of 5 "[9, 16]"] show ?thesis by simp
qed

section \<open>The delayed executor\<close>

text \<open>
  The flag, the channel of capacity one, and the worker: it waits for a trigger, sleeps, clears the
  flag, runs the job, and stops at the first failing job or at shutdown. A trigger that has set the
  flag and has not sent yet is counted in \<open>dx_sending\<close>; \<open>dx_runs\<close> counts the jobs started.
\<close>

datatype delay_phase = DWaiting | DSleeping | DFiring | DRunning | DStopped

record delay_executor =
  dx_triggered :: bool
  dx_sending :: nat
  dx_queue :: nat
  dx_phase :: delay_phase
  dx_runs :: nat

definition delay_new :: "duration \<Rightarrow> delay_executor option" where
  "delay_new delay =
     (if delay = 0 then None
      else Some \<lparr>dx_triggered = False, dx_sending = 0, dx_queue = 0, dx_phase = DWaiting, dx_runs = 0\<rparr>)"

definition trigger_flag :: "delay_executor \<Rightarrow> bool \<times> delay_executor" where
  "trigger_flag d =
     (if dx_triggered d then (False, d)
      else (True, d\<lparr>dx_triggered := True, dx_sending := dx_sending d + 1\<rparr>))"

text \<open>\<open>try_send\<close> fails when the channel is full or its receiver is gone.\<close>

definition trigger_send :: "delay_executor \<Rightarrow> bool \<times> delay_executor" where
  "trigger_send d =
     (let d1 = d\<lparr>dx_sending := dx_sending d - 1\<rparr> in
      if dx_queue d1 = 0 \<and> dx_phase d1 \<noteq> DStopped then (True, d1\<lparr>dx_queue := 1\<rparr>)
      else (False, d1\<lparr>dx_triggered := False\<rparr>))"

inductive delay_step :: "delay_executor \<Rightarrow> delay_executor \<Rightarrow> bool" where
  flag: "trigger_flag d = (True, d') \<Longrightarrow> delay_step d d'"
| send: "0 < dx_sending d \<Longrightarrow> trigger_send d = (ok, d') \<Longrightarrow> delay_step d d'"
| receive: "dx_phase d = DWaiting \<Longrightarrow> dx_queue d = 1 \<Longrightarrow> delay_step d (d\<lparr>dx_queue := 0, dx_phase := DSleeping\<rparr>)"
| wake: "dx_phase d = DSleeping \<Longrightarrow> delay_step d (d\<lparr>dx_triggered := False, dx_phase := DFiring\<rparr>)"
| fire: "dx_phase d = DFiring \<Longrightarrow> delay_step d (d\<lparr>dx_phase := DRunning, dx_runs := dx_runs d + 1\<rparr>)"
| finished: "dx_phase d = DRunning \<Longrightarrow> delay_step d (d\<lparr>dx_phase := DWaiting\<rparr>)"
| stop: "delay_step d (d\<lparr>dx_phase := DStopped\<rparr>)"

text \<open>
  The flag is set from the moment a trigger wins it until the worker clears it, so at most one of
  sending, queued and sleeping holds.
\<close>

definition delay_inv :: "delay_executor \<Rightarrow> bool" where
  "delay_inv d \<longleftrightarrow> dx_phase d = DStopped \<or>
     dx_sending d + dx_queue d + (if dx_phase d = DSleeping then 1 else 0) = (if dx_triggered d then 1 else 0)"

lemma delay_inv_step: "delay_step d d' \<Longrightarrow> delay_inv d \<Longrightarrow> delay_inv d'"
  by (induction rule: delay_step.induct)
    (auto simp: delay_inv_def trigger_flag_def trigger_send_def Let_def split: if_splits)

text \<open>
  \<open>DelayExecutor\<close> coalesces without losing a trigger: in every reachable state of a running worker
  at most one execution is pending, a trigger that wins the flag always gets its place in the
  channel, and a trigger is refused only while an execution that has yet to start is pending.
\<close>

theorem delay_executor_coalesces:
  assumes "delay_new delay = Some d0" and "delay_step\<^sup>*\<^sup>* d0 d" and "dx_phase d \<noteq> DStopped"
  shows "dx_sending d + dx_queue d + (if dx_phase d = DSleeping then 1 else 0) \<le> 1 \<and>
    (0 < dx_sending d \<longrightarrow> fst (trigger_send d)) \<and>
    (\<not> fst (trigger_flag d) \<longleftrightarrow> dx_sending d + dx_queue d + (if dx_phase d = DSleeping then 1 else 0) = 1)"
proof -
  have "delay_inv d0" using assms(1) by (auto simp: delay_new_def delay_inv_def split: if_splits)
  with assms(2) have "delay_inv d" by (induction rule: rtranclp_induct) (auto intro: delay_inv_step)
  then show ?thesis
    using assms(3) by (auto simp: delay_inv_def trigger_send_def trigger_flag_def Let_def split: if_splits)
qed

theorem delay_executor_coalesces_witness:
  "\<exists>d0 d. delay_new 5 = Some d0 \<and> delay_step\<^sup>*\<^sup>* d0 d \<and> dx_sending d = 1 \<and> fst (trigger_send d) \<and> \<not> fst (trigger_flag d)"
proof -
  obtain d0 where d0: "delay_new 5 = Some d0" by (simp add: delay_new_def)
  let ?d = "snd (trigger_flag d0)"
  have flag: "trigger_flag d0 = (True, ?d)" "dx_sending ?d = 1" "dx_phase ?d \<noteq> DStopped"
    using d0 by (auto simp: delay_new_def trigger_flag_def)
  have run: "delay_step\<^sup>*\<^sup>* d0 ?d" by (rule r_into_rtranclp, rule delay_step.flag, rule flag(1))
  from delay_executor_coalesces [OF d0 run flag(3)] flag(2) d0 run show ?thesis
    by (intro exI [of _ d0] exI [of _ ?d]) auto
qed

section \<open>The periodic executor and bounded shutdown\<close>

text \<open>
  The periodic worker either observes the stop signal or runs its job on a tick; the result of the job
  comes with the event. The worker's return value is kept once it has returned.
\<close>

datatype periodic_event = PStop | PTick "string + unit"

record periodic_executor =
  px_runs :: nat
  px_returned :: "(string + unit) option"

definition periodic_new :: "duration \<Rightarrow> periodic_executor option" where
  "periodic_new interval = (if interval = 0 then None else Some \<lparr>px_runs = 0, px_returned = None\<rparr>)"

definition periodic_step :: "periodic_event \<Rightarrow> periodic_executor \<Rightarrow> periodic_executor" where
  "periodic_step e p =
     (if px_returned p \<noteq> None then p
      else case e of
        PStop \<Rightarrow> p\<lparr>px_returned := Some (Inr ())\<rparr>
      | PTick (Inr _) \<Rightarrow> p\<lparr>px_runs := px_runs p + 1\<rparr>
      | PTick (Inl er) \<Rightarrow> p\<lparr>px_runs := px_runs p + 1, px_returned := Some (Inl er)\<rparr>)"

text \<open>How waiting for the worker ends: it returned, it panicked, or the deadline passed first.\<close>

datatype join_outcome = Joined "string + unit" | Panicked string | Elapsed

datatype executor_error = Job string | TimedOut duration | Worker string

definition executor_shutdown :: "duration \<Rightarrow> join_outcome \<Rightarrow> executor_error + unit" where
  "executor_shutdown limit outcome =
     (case outcome of
        Joined (Inr _) \<Rightarrow> Inr ()
      | Joined (Inl er) \<Rightarrow> Inl (Job er)
      | Panicked er \<Rightarrow> Inl (Worker er)
      | Elapsed \<Rightarrow> Inl (TimedOut limit))"

lemma periodic_returned: "px_returned p \<noteq> None \<Longrightarrow> fold periodic_step es p = p"
  by (induction es) (auto simp: periodic_step_def)

lemma periodic_successes:
  "px_returned p = None \<Longrightarrow>
   (periodic_step (PTick (Inr ())) ^^ n) p = p\<lparr>px_runs := px_runs p + n\<rparr>"
  by (induction n) (simp_all add: periodic_step_def)

text \<open>
  The job runs once per tick until the first failure, which ends the worker for good, and the shutdown
  reports exactly that failure.
\<close>

lemma periodic_first_failure:
  assumes "periodic_new interval = Some p"
    and q: "q = fold periodic_step (replicate n (PTick (Inr ())) @ PTick (Inl er) # es) p"
  shows "px_runs q = n + 1 \<and> map_option (executor_shutdown limit \<circ> Joined) (px_returned q) = Some (Inl (Job er))"
proof -
  have "px_runs p = 0" "px_returned p = None"
    using assms(1) by (auto simp: periodic_new_def split: if_splits)
  then have "q = p\<lparr>px_runs := n + 1, px_returned := Some (Inl er)\<rparr>"
    by (simp add: q periodic_successes periodic_returned periodic_step_def)
  then show ?thesis by (simp add: executor_shutdown_def)
qed

end
