(* ===== verification/Discov.thy ===== *)
theory Discov
  imports Prelude
begin

text \<open>
  \<open>core/src/discov.rs\<close>: the local service registry with reference-counted leases, its subscriptions,
  and the reconnect delay of the discovery backends. The registry's map is guarded by a mutex, the
  event that announces a change is broadcast after the mutex is released, and a subscription follows
  the broadcast from a position it took before its first snapshot.
\<close>

section \<open>Reconnect delays\<close>

record reconnect_backoff =
  rb_initial :: duration
  rb_max :: duration
  rb_jitter :: duration

definition reconnect_default :: reconnect_backoff where
  "reconnect_default =
     \<lparr>rb_initial = duration_from_millis 200, rb_max = 10 * nanos_per_sec, rb_jitter = duration_from_millis 200\<rparr>"

definition reconnect_new :: "duration \<Rightarrow> duration \<Rightarrow> duration \<Rightarrow> reconnect_backoff option" where
  "reconnect_new initial mx jitter =
     (if initial = 0 \<or> mx < initial then None
      else Some \<lparr>rb_initial = initial, rb_max = mx, rb_jitter = jitter\<rparr>)"

definition reconnect_delay :: "nat \<Rightarrow> nat \<Rightarrow> reconnect_backoff \<Rightarrow> duration" where
  "reconnect_delay attempt jitter_sample b =
     (let base = min (sat_mul duration_max (rb_initial b) (2 ^ min attempt 31)) (rb_max b) in
      if rb_jitter b = 0 then base
      else sat_add duration_max base (min u64_max (jitter_sample mod (rb_jitter b + 1))))"

lemma reconnect_delay_bounds:
  assumes "reconnect_new initial mx jitter = Some b" and "mx \<le> duration_max"
  shows "initial \<le> reconnect_delay attempt sample b \<and> reconnect_delay attempt sample b \<le> mx + jitter"
proof -
  have b: "rb_initial b = initial" "rb_max b = mx" "rb_jitter b = jitter" "initial \<le> mx"
    using assms(1) by (auto simp: reconnect_new_def split: if_splits)
  define base where "base = min (sat_mul duration_max initial (2 ^ min attempt 31)) mx"
  define extra where "extra = min u64_max (sample mod (jitter + 1))"
  have "initial \<le> initial * 2 ^ min attempt 31" by simp
  then have "initial \<le> base" "base \<le> mx" using b(4) assms(2) by (simp_all add: base_def sat_mul_def)
  moreover have "sample mod (jitter + 1) < jitter + 1" by simp
  then have "extra \<le> jitter" unfolding extra_def by linarith
  moreover have "reconnect_delay attempt sample b = (if jitter = 0 then base else sat_add duration_max base extra)"
    by (simp add: reconnect_delay_def Let_def b base_def extra_def)
  ultimately show ?thesis using b(4) assms(2) by (auto simp: sat_add_def min_le_iff_disj)
qed

section \<open>Endpoints\<close>

datatype discovery_error =
    EmptyService
  | EmptyEndpoint
  | InvalidEndpointWeight nat
  | ConflictingEndpointMetadata string
  | SubscriptionLagged nat
  | RegistryClosed

record discovered_endpoint =
  de_uri :: string
  de_weight :: nat
  de_metadata :: "(string, string) bmap"

definition max_endpoint_weight :: nat where
  "max_endpoint_weight = 1000"

definition validate_service :: "string \<Rightarrow> discovery_error + string" where
  "validate_service service = (if is_blank service then Inl EmptyService else Inr service)"

definition validate_endpoint :: "string \<Rightarrow> discovery_error + string" where
  "validate_endpoint endpoint = (if is_blank endpoint then Inl EmptyEndpoint else Inr endpoint)"

definition validate_weight :: "nat \<Rightarrow> discovery_error + nat" where
  "validate_weight weight =
     (if 1 \<le> weight \<and> weight \<le> max_endpoint_weight then Inr weight else Inl (InvalidEndpointWeight weight))"

definition endpoint_weighted :: "string \<Rightarrow> nat \<Rightarrow> discovery_error + discovered_endpoint" where
  "endpoint_weighted uri weight =
     (case validate_endpoint uri of
        Inl er \<Rightarrow> Inl er
      | Inr u \<Rightarrow>
          (case validate_weight weight of
             Inl er \<Rightarrow> Inl er
           | Inr w \<Rightarrow> Inr \<lparr>de_uri = u, de_weight = w, de_metadata = []\<rparr>))"

definition endpoint_new :: "string \<Rightarrow> discovery_error + discovered_endpoint" where
  "endpoint_new uri = endpoint_weighted uri 1"

definition with_metadata :: "(string \<times> string) list \<Rightarrow> discovered_endpoint \<Rightarrow> discovered_endpoint" where
  "with_metadata metadata e = e\<lparr>de_metadata := fold (\<lambda>(k, v). bt_put k v) metadata []\<rparr>"

section \<open>The registry\<close>

record registry_endpoint =
  re_endpoint :: discovered_endpoint
  re_references :: nat

type_synonym services = "(string, (string, registry_endpoint) bmap) hmap"

datatype service_event = Added string string | Removed string string

record registry =
  rg_services :: services
  rg_events :: "service_event list"

record service_lease =
  sl_service :: string
  sl_endpoint :: string
  sl_active :: bool

definition registry_new :: registry where
  "registry_new = \<lparr>rg_services = [], rg_events = []\<rparr>"

text \<open>The endpoints of a service, an empty map when it has none (\<open>or_default\<close>, \<open>into_iter\<close>).\<close>

definition endpoints_of :: "string \<Rightarrow> services \<Rightarrow> (string, registry_endpoint) bmap" where
  "endpoints_of service ss = (case map_of ss service of None \<Rightarrow> [] | Some m \<Rightarrow> m)"

text \<open>The section of \<open>publish_endpoint\<close> under the mutex: whether the endpoint was added.\<close>

definition publish_locked :: "string \<Rightarrow> discovered_endpoint \<Rightarrow> services \<Rightarrow> (discovery_error + bool) \<times> services" where
  "publish_locked service e ss =
     (let m = endpoints_of service ss; ss1 = AList.update service m ss in
      case map_of m (de_uri e) of
        Some entry \<Rightarrow>
          if re_endpoint entry \<noteq> e then (Inl (ConflictingEndpointMetadata (de_uri e)), ss1)
          else (Inr False,
            AList.update service (bt_put (de_uri e) (entry\<lparr>re_references := re_references entry + 1\<rparr>) m) ss1)
      | None \<Rightarrow>
          (Inr True, AList.update service (bt_put (de_uri e) \<lparr>re_endpoint = e, re_references = 1\<rparr> m) ss1))"

text \<open>The section of \<open>release\<close> under the mutex: whether the endpoint was removed.\<close>

definition release_locked :: "string \<Rightarrow> string \<Rightarrow> services \<Rightarrow> bool \<times> services" where
  "release_locked service uri ss =
     (case map_of ss service of
        None \<Rightarrow> (False, ss)
      | Some m \<Rightarrow>
          (case map_of m uri of
             None \<Rightarrow> (False, ss)
           | Some entry \<Rightarrow>
               let n = re_references entry - 1 in
               if 0 < n then (False, AList.update service (bt_put uri (entry\<lparr>re_references := n\<rparr>) m) ss)
               else if bt_del uri m = [] then (True, AList.delete service ss)
               else (True, AList.update service (bt_del uri m) ss)))"

definition publish_endpoint :: "string \<Rightarrow> discovered_endpoint \<Rightarrow> registry \<Rightarrow> (discovery_error + service_lease) \<times> registry" where
  "publish_endpoint service e r =
     (case validate_service service of
        Inl er \<Rightarrow> (Inl er, r)
      | Inr svc \<Rightarrow>
          (case publish_locked svc e (rg_services r) of
             (Inl er, ss) \<Rightarrow> (Inl er, r\<lparr>rg_services := ss\<rparr>)
           | (Inr added, ss) \<Rightarrow>
               (Inr \<lparr>sl_service = svc, sl_endpoint = de_uri e, sl_active = True\<rparr>,
                r\<lparr>rg_services := ss,
                  rg_events := rg_events r @ (if added then [Added svc (de_uri e)] else [])\<rparr>)))"

definition publish :: "string \<Rightarrow> string \<Rightarrow> registry \<Rightarrow> (discovery_error + service_lease) \<times> registry" where
  "publish service uri r =
     (case endpoint_new uri of Inl er \<Rightarrow> (Inl er, r) | Inr e \<Rightarrow> publish_endpoint service e r)"

definition publish_weighted :: "string \<Rightarrow> string \<Rightarrow> nat \<Rightarrow> registry \<Rightarrow> (discovery_error + service_lease) \<times> registry" where
  "publish_weighted service uri weight r =
     (case endpoint_weighted uri weight of Inl er \<Rightarrow> (Inl er, r) | Inr e \<Rightarrow> publish_endpoint service e r)"

definition lease_release :: "service_lease \<Rightarrow> registry \<Rightarrow> service_lease \<times> registry" where
  "lease_release l r =
     (if \<not> sl_active l then (l, r)
      else
        let (removed, ss) = release_locked (sl_service l) (sl_endpoint l) (rg_services r) in
        (l\<lparr>sl_active := False\<rparr>,
         r\<lparr>rg_services := ss,
           rg_events := rg_events r @ (if removed then [Removed (sl_service l) (sl_endpoint l)] else [])\<rparr>))"

definition registry_endpoints :: "string \<Rightarrow> registry \<Rightarrow> discovery_error + string list" where
  "registry_endpoints service r =
     (case validate_service service of
        Inl er \<Rightarrow> Inl er
      | Inr svc \<Rightarrow> Inr (map fst (endpoints_of svc (rg_services r))))"

definition registry_discovered :: "string \<Rightarrow> registry \<Rightarrow> discovery_error + discovered_endpoint list" where
  "registry_discovered service r =
     (case validate_service service of
        Inl er \<Rightarrow> Inl er
      | Inr svc \<Rightarrow> Inr (map (re_endpoint \<circ> snd) (endpoints_of svc (rg_services r))))"

section \<open>Subscriptions\<close>

text \<open>
  The broadcast channel is its history of events and, per receiver, the position of the next one. A
  receiver that has fallen behind the oldest event the channel still holds is told how many it
  missed and continues from there; which event that is belongs to the channel and is an argument.
\<close>

record subscription =
  sb_service :: string
  sb_endpoints :: "string set"
  sb_cursor :: nat

fun event_service :: "service_event \<Rightarrow> string" where
  "event_service (Added s _) = s"
| "event_service (Removed s _) = s"

fun event_endpoint :: "service_event \<Rightarrow> string" where
  "event_endpoint (Added _ u) = u"
| "event_endpoint (Removed _ u) = u"

fun is_added :: "service_event \<Rightarrow> bool" where
  "is_added (Added _ _) = True"
| "is_added (Removed _ _) = False"

definition subscribe_snapshot :: "string \<Rightarrow> nat \<Rightarrow> registry \<Rightarrow> subscription" where
  "subscribe_snapshot service cursor r =
     \<lparr>sb_service = service, sb_endpoints = set (map fst (endpoints_of service (rg_services r))), sb_cursor = cursor\<rparr>"

definition subscribe :: "string \<Rightarrow> registry \<Rightarrow> discovery_error + subscription" where
  "subscribe service r =
     (case validate_service service of
        Inl er \<Rightarrow> Inl er
      | Inr svc \<Rightarrow> Inr (subscribe_snapshot svc (length (rg_events r)) r))"

definition resync :: "registry \<Rightarrow> subscription \<Rightarrow> subscription" where
  "resync r b = b\<lparr>sb_endpoints := set (map fst (endpoints_of (sb_service b) (rg_services r)))\<rparr>"

text \<open>What one event does to the known endpoints, and whether it changed them.\<close>

fun event_set :: "service_event \<Rightarrow> string set \<Rightarrow> string set" where
  "event_set (Added _ u) X = insert u X"
| "event_set (Removed _ u) X = X - {u}"

datatype recv_result = Waiting | Event service_event | Failed discovery_error

text \<open>\<open>recv\<close>; it is waiting when the channel holds no further event.\<close>

function recv :: "nat \<Rightarrow> service_event list \<Rightarrow> subscription \<Rightarrow> recv_result \<times> subscription" where
  "recv oldest events b =
     (let c = sb_cursor b in
      if c < oldest \<and> oldest \<le> length events
      then (Failed (SubscriptionLagged (oldest - c)), b\<lparr>sb_cursor := oldest\<rparr>)
      else if length events \<le> c then (Waiting, b)
      else
        let e = events ! c; b1 = b\<lparr>sb_cursor := c + 1\<rparr> in
        if event_service e = sb_service b
        then
          let b2 = b1\<lparr>sb_endpoints := event_set e (sb_endpoints b)\<rparr> in
          if sb_endpoints b2 \<noteq> sb_endpoints b then (Event e, b2) else recv oldest events b2
        else recv oldest events b1)"
  by pat_completeness auto

termination
  by (relation "measure (\<lambda>(_, events, b). length events - sb_cursor b)") auto

declare recv.simps [simp del]

text \<open>\<open>changed\<close>: the new snapshot, or nothing while it waits.\<close>

definition changed :: "nat \<Rightarrow> registry \<Rightarrow> subscription \<Rightarrow> (discovery_error + string list) option \<times> subscription" where
  "changed oldest r b =
     (case recv oldest (rg_events r) b of
        (Waiting, b1) \<Rightarrow> (None, b1)
      | (Event _, b1) \<Rightarrow> (Some (Inr (sorted_list_of_set (sb_endpoints b1))), b1)
      | (Failed (SubscriptionLagged _), b1) \<Rightarrow>
          let b2 = resync r b1 in (Some (Inr (sorted_list_of_set (sb_endpoints b2))), b2)
      | (Failed er, b1) \<Rightarrow> (Some (Inl er), b1))"

section \<open>The registry counts its leases\<close>

definition services_ok :: "services \<Rightarrow> bool" where
  "services_ok ss \<longleftrightarrow> hm_ok ss \<and> (\<forall>s m. map_of ss s = Some m \<longrightarrow> bt_ok m \<and> m \<noteq> [])"

definition entry_of :: "services \<Rightarrow> string \<Rightarrow> string \<Rightarrow> registry_endpoint option" where
  "entry_of ss s u = map_of (endpoints_of s ss) u"

lemma endpoints_of_update: "endpoints_of s (AList.update s' m ss) = (if s = s' then m else endpoints_of s ss)"
  by (simp add: endpoints_of_def update_conv')

lemma endpoints_of_delete: "endpoints_of s (AList.delete s' ss) = (if s = s' then [] else endpoints_of s ss)"
  by (simp add: endpoints_of_def delete_conv')

lemma bt_ok_endpoints: "services_ok ss \<Longrightarrow> bt_ok (endpoints_of s ss)"
  by (auto simp: services_ok_def endpoints_of_def bt.ok_empty split: option.splits)

lemma services_ok_update: "services_ok ss \<Longrightarrow> bt_ok m \<Longrightarrow> m \<noteq> [] \<Longrightarrow> services_ok (AList.update s m ss)"
  by (auto simp: services_ok_def hm.ok_put update_conv')

lemma services_ok_delete: "services_ok ss \<Longrightarrow> services_ok (AList.delete s ss)"
  by (auto simp: services_ok_def hm.ok_del delete_conv')

lemma bt_put_not_Nil [simp]: "bt_put k v m \<noteq> []"
  by (induction k v m rule: bt_put.induct) auto

lemma hm_update_update: "AList.update k v (AList.update k v' m) = AList.update k v m"
  by (induction m) auto

lemma set_endpoints: "services_ok ss \<Longrightarrow> set (map fst (endpoints_of s ss)) = {u. entry_of ss s u \<noteq> None}"
  using bt.set_keys [OF bt_ok_endpoints] by (simp add: entry_of_def)

text \<open>What the two locked sections do to every entry.\<close>

lemma publish_locked_entries:
  assumes ok: "services_ok ss" and pub: "publish_locked svc e ss = (Inr added, ss')"
  shows "services_ok ss'"
    and "added \<longleftrightarrow> entry_of ss svc (de_uri e) = None"
    and "\<And>en. entry_of ss svc (de_uri e) = Some en \<Longrightarrow> re_endpoint en = e"
    and "entry_of ss' s u =
      (if s = svc \<and> u = de_uri e
       then Some \<lparr>re_endpoint = e,
         re_references = (case entry_of ss svc u of None \<Rightarrow> 1 | Some en \<Rightarrow> re_references en + 1)\<rparr>
       else entry_of ss s u)"
  using pub ok bt_ok_endpoints [OF ok, of svc]
  by (auto simp: publish_locked_def Let_def entry_of_def hm_update_update endpoints_of_update
      map_of_bt_put services_ok_update bt.ok_put split: option.splits if_splits)

lemma publish_locked_conflict:
  assumes ok: "services_ok ss" and pub: "publish_locked svc e ss = (Inl er, ss')"
  shows "services_ok ss'" and "entry_of ss' = entry_of ss"
    and "\<exists>en. entry_of ss svc (de_uri e) = Some en \<and> re_endpoint en \<noteq> e"
  using pub ok bt_ok_endpoints [OF ok, of svc]
  by (auto simp: publish_locked_def Let_def entry_of_def endpoints_of_update fun_eq_iff
      intro!: services_ok_update split: option.splits if_splits)

lemma release_locked_entries:
  assumes ok: "services_ok ss" and rel: "release_locked svc uri ss = (removed, ss')"
    and en: "entry_of ss svc uri = Some en"
  shows "services_ok ss'"
    and "removed \<longleftrightarrow> re_references en \<le> 1"
    and "entry_of ss' s u =
      (if s = svc \<and> u = uri
       then (if re_references en \<le> 1 then None else Some (en\<lparr>re_references := re_references en - 1\<rparr>))
       else entry_of ss s u)"
proof -
  obtain m where m: "map_of ss svc = Some m" "endpoints_of svc ss = m" "map_of m uri = Some en"
    using en by (auto simp: entry_of_def endpoints_of_def split: option.splits)
  have bt: "bt_ok m" using bt_ok_endpoints [OF ok, of svc] m by simp
  have gone: "map_of m u = None" if "bt_del uri m = []" "u \<noteq> uri" for u
    using that map_of_bt_del [of uri m u] by simp
  show "services_ok ss'" "removed \<longleftrightarrow> re_references en \<le> 1"
    using rel ok m bt
    by (auto simp: release_locked_def Let_def services_ok_update services_ok_delete bt.ok_put bt.ok_del split: if_splits)
  show "entry_of ss' s u =
      (if s = svc \<and> u = uri
       then (if re_references en \<le> 1 then None else Some (en\<lparr>re_references := re_references en - 1\<rparr>))
       else entry_of ss s u)"
    using rel m gone
    by (auto simp: release_locked_def Let_def entry_of_def endpoints_of_update endpoints_of_delete
        map_of_bt_put map_of_bt_del split: if_splits)
qed

text \<open>
  Runs of the registry with one subscription: publications and releases, the two halves of
  \<open>subscribe\<close> (the position in the channel, then the snapshot), and \<open>changed\<close>. The leases held are
  listed with the endpoint they were given for.
\<close>

datatype sub_phase = Unsubscribed | Opening string nat | Live subscription

inductive registry_run :: "registry \<Rightarrow> (string \<times> discovered_endpoint) list \<Rightarrow> sub_phase \<Rightarrow> bool" where
  start: "registry_run registry_new [] Unsubscribed"
| published: "registry_run r ls p \<Longrightarrow> publish_endpoint service e r = (Inr l, r') \<Longrightarrow>
    registry_run r' ((sl_service l, e) # ls) p"
| refused: "registry_run r ls p \<Longrightarrow> publish_endpoint service e r = (Inl er, r') \<Longrightarrow> registry_run r' ls p"
| released: "registry_run r ls p \<Longrightarrow> (svc, e) \<in> set ls \<Longrightarrow>
    lease_release \<lparr>sl_service = svc, sl_endpoint = de_uri e, sl_active = True\<rparr> r = (l', r') \<Longrightarrow>
    registry_run r' (remove1 (svc, e) ls) p"
| attach: "registry_run r ls Unsubscribed \<Longrightarrow> validate_service service = Inr svc \<Longrightarrow>
    registry_run r ls (Opening svc (length (rg_events r)))"
| live: "registry_run r ls (Opening svc c) \<Longrightarrow> registry_run r ls (Live (subscribe_snapshot svc c r))"
| follow: "registry_run r ls (Live b) \<Longrightarrow> changed oldest r b = (res, b') \<Longrightarrow> registry_run r ls (Live b')"

text \<open>The leases of one endpoint.\<close>

definition leases_of :: "string \<Rightarrow> string \<Rightarrow> (string \<times> discovered_endpoint) list \<Rightarrow> (string \<times> discovered_endpoint) list" where
  "leases_of s u ls = filter (\<lambda>(s', e). s' = s \<and> de_uri e = u) ls"

definition counts_leases :: "services \<Rightarrow> (string \<times> discovered_endpoint) list \<Rightarrow> bool" where
  "counts_leases ss ls \<longleftrightarrow>
     (\<forall>s u. leases_of s u ls =
        (case entry_of ss s u of None \<Rightarrow> [] | Some en \<Rightarrow> replicate (re_references en) (s, re_endpoint en))) \<and>
     (\<forall>s u en. entry_of ss s u = Some en \<longrightarrow> 0 < re_references en)"

text \<open>The last event about an endpoint tells whether it is published.\<close>

definition concerns :: "string \<Rightarrow> string \<Rightarrow> service_event \<Rightarrow> bool" where
  "concerns s u e \<longleftrightarrow> event_service e = s \<and> event_endpoint e = u"

definition last_event :: "string \<Rightarrow> string \<Rightarrow> service_event list \<Rightarrow> service_event option" where
  "last_event s u evs = find (concerns s u) (rev evs)"

definition announced :: "registry \<Rightarrow> bool" where
  "announced r \<longleftrightarrow> (\<forall>s u. (entry_of (rg_services r) s u \<noteq> None) =
     (case last_event s u (rg_events r) of None \<Rightarrow> False | Some e \<Rightarrow> is_added e))"

lemma find_append: "find P (xs @ ys) = (case find P xs of None \<Rightarrow> find P ys | Some x \<Rightarrow> Some x)"
  by (induction xs) auto

lemma last_event_append:
  "last_event s u (xs @ ys) = (case last_event s u ys of None \<Rightarrow> last_event s u xs | Some e \<Rightarrow> Some e)"
  by (simp add: last_event_def find_append split: option.split)

lemma last_event_simps [simp]:
  "last_event s u [] = None"
  "last_event s u [e] = (if concerns s u e then Some e else None)"
  by (simp_all add: last_event_def)

lemma concerns_simps [simp]:
  "concerns s u (Added s' u') \<longleftrightarrow> s' = s \<and> u' = u"
  "concerns s u (Removed s' u') \<longleftrightarrow> s' = s \<and> u' = u"
  by (simp_all add: concerns_def)

definition registry_ok :: "registry \<Rightarrow> (string \<times> discovered_endpoint) list \<Rightarrow> bool" where
  "registry_ok r ls \<longleftrightarrow> services_ok (rg_services r) \<and> counts_leases (rg_services r) ls \<and> announced r"

lemma registry_ok_publish:
  assumes ok: "registry_ok r ls" and pub: "publish_endpoint service e r = (Inr l, r')"
  shows "registry_ok r' ((sl_service l, e) # ls)"
proof -
  obtain added ss where locked: "publish_locked service e (rg_services r) = (Inr added, ss)"
    and l: "sl_service l = service" and ss: "rg_services r' = ss"
    and ev: "rg_events r' = rg_events r @ (if added then [Added service (de_uri e)] else [])"
    using pub by (auto simp: publish_endpoint_def validate_service_def split: if_splits prod.splits sum.splits)
  note ent = publish_locked_entries [OF _ locked]
  have sok: "services_ok (rg_services r)" and cnt: "counts_leases (rg_services r) ls" and ann: "announced r"
    using ok by (simp_all add: registry_ok_def)
  have "counts_leases ss ((service, e) # ls)"
    using cnt ent(3) [OF sok] unfolding counts_leases_def ent(4) [OF sok]
    by (auto simp: leases_of_def split: option.splits)
  moreover have "announced r'"
    using ann ent(2) [OF sok] unfolding announced_def ss ev ent(4) [OF sok]
    by (auto simp: last_event_append split: option.splits)
  ultimately show ?thesis using ent(1) [OF sok] by (simp add: registry_ok_def ss l)
qed

lemma registry_ok_refused:
  assumes ok: "registry_ok r ls" and pub: "publish_endpoint service e r = (Inl er, r')"
  shows "registry_ok r' ls"
proof (cases "is_blank service")
  case True
  then show ?thesis using assms by (simp add: publish_endpoint_def validate_service_def)
next
  case False
  then obtain ss where locked: "publish_locked service e (rg_services r) = (Inl er, ss)"
    and r': "rg_services r' = ss" "rg_events r' = rg_events r"
    using pub by (auto simp: publish_endpoint_def validate_service_def split: prod.splits sum.splits)
  have sok: "services_ok (rg_services r)" using ok by (simp add: registry_ok_def)
  show ?thesis
    using ok publish_locked_conflict [OF sok locked]
    by (simp add: registry_ok_def counts_leases_def announced_def r')
qed

lemma registry_ok_release:
  assumes ok: "registry_ok r ls" and mem: "(svc, e) \<in> set ls"
    and rel: "lease_release \<lparr>sl_service = svc, sl_endpoint = de_uri e, sl_active = True\<rparr> r = (l', r')"
  shows "registry_ok r' (remove1 (svc, e) ls)"
proof -
  have sok: "services_ok (rg_services r)" and cnt: "counts_leases (rg_services r) ls" and ann: "announced r"
    using ok by (simp_all add: registry_ok_def)
  obtain removed ss where locked: "release_locked svc (de_uri e) (rg_services r) = (removed, ss)"
    and ss: "rg_services r' = ss"
    and ev: "rg_events r' = rg_events r @ (if removed then [Removed svc (de_uri e)] else [])"
    using rel by (auto simp: lease_release_def Let_def split: prod.splits)
  have here: "(svc, e) \<in> set (leases_of svc (de_uri e) ls)" using mem by (simp add: leases_of_def)
  then obtain en where en: "entry_of (rg_services r) svc (de_uri e) = Some en" "re_endpoint en = e"
    using cnt by (cases "entry_of (rg_services r) svc (de_uri e)") (auto simp: counts_leases_def)
  have pos: "0 < re_references en" using cnt en(1) by (auto simp: counts_leases_def)
  note ent = release_locked_entries [OF sok locked en(1)]
  have gone: "leases_of s u (remove1 (svc, e) ls) =
      (if s = svc \<and> u = de_uri e then remove1 (svc, e) (leases_of s u ls) else leases_of s u ls)" for s u
    unfolding leases_of_def filter_remove1 by (auto intro: remove1_idem)
  have rep: "remove1 x (replicate n x) = replicate (n - 1) x" for x :: "string \<times> discovered_endpoint" and n
    by (cases n) auto
  have "counts_leases ss (remove1 (svc, e) ls)"
    using cnt en pos unfolding counts_leases_def gone ent(3)
    by (auto simp: rep split: option.splits)
  moreover have "last_event svc (de_uri e) (rg_events r) \<noteq> None"
    using ann [unfolded announced_def, rule_format, of svc "de_uri e"] en(1) by (auto split: option.splits)
  then have "announced r'"
    using ann ent(2) en unfolding announced_def ss ev ent(3)
    by (auto simp: last_event_append split: option.splits)
  ultimately show ?thesis using ent(1) by (simp add: registry_ok_def ss)
qed

section \<open>Subscriptions converge\<close>

definition drain :: "string \<Rightarrow> service_event list \<Rightarrow> string set \<Rightarrow> string set" where
  "drain s evs X = fold (\<lambda>e Y. if event_service e = s then event_set e Y else Y) evs X"

lemma drain_member:
  "u \<in> drain s evs X \<longleftrightarrow> (case last_event s u evs of None \<Rightarrow> u \<in> X | Some e \<Rightarrow> is_added e)"
proof (induction evs rule: rev_induct)
  case (snoc e evs)
  show ?case
    using snoc by (cases e) (auto simp: drain_def last_event_append split: option.splits)
qed (simp add: drain_def)

definition known :: "string \<Rightarrow> registry \<Rightarrow> string set" where
  "known s r = set (map fst (endpoints_of s (rg_services r)))"

lemma known_announced:
  "services_ok (rg_services r) \<Longrightarrow> announced r \<Longrightarrow>
   u \<in> known s r \<longleftrightarrow> (case last_event s u (rg_events r) of None \<Rightarrow> False | Some e \<Rightarrow> is_added e)"
  unfolding known_def set_endpoints announced_def by blast

text \<open>Replaying any suffix of the events over the current endpoints changes nothing.\<close>

lemma drain_known:
  assumes "services_ok (rg_services r)" "announced r"
  shows "drain s (drop c (rg_events r)) (known s r) = known s r"
proof -
  have split: "last_event s u (rg_events r) =
      (case last_event s u (drop c (rg_events r)) of None \<Rightarrow> last_event s u (take c (rg_events r)) | Some e \<Rightarrow> Some e)" for u
    using last_event_append [of s u "take c (rg_events r)" "drop c (rg_events r)"] by simp
  show ?thesis
    unfolding set_eq_iff drain_member known_announced [OF assms]
    by (auto simp: split split: option.splits)
qed

text \<open>What is still to be received turns the known endpoints into the registry's.\<close>

definition in_sync :: "registry \<Rightarrow> subscription \<Rightarrow> bool" where
  "in_sync r b \<longleftrightarrow> drain (sb_service b) (drop (sb_cursor b) (rg_events r)) (sb_endpoints b) = known (sb_service b) r \<and>
     sb_cursor b \<le> length (rg_events r) \<and> finite (sb_endpoints b)"

lemma in_sync_extend:
  assumes "in_sync r b" "services_ok (rg_services r')" "announced r'" "services_ok (rg_services r)" "announced r"
    "rg_events r' = rg_events r @ evs"
  shows "in_sync r' b"
proof -
  have "drain s evs (known s r) = known s r'" for s
    unfolding set_eq_iff drain_member known_announced [OF assms(2,3)] known_announced [OF assms(4,5)]
    by (simp add: assms(6) last_event_append split: option.splits)
  then show ?thesis using assms(1,6) by (simp add: in_sync_def drain_def)
qed

lemma recv_in_sync:
  "recv oldest (rg_events r) b = (res, b') \<Longrightarrow> in_sync r b \<Longrightarrow>
   sb_service b' = sb_service b \<and> sb_cursor b' \<le> length (rg_events r) \<and>
   (res \<noteq> Waiting \<longrightarrow> sb_cursor b < sb_cursor b') \<and>
   (case res of
      Failed er \<Rightarrow> \<exists>n. er = SubscriptionLagged n
    | Waiting \<Rightarrow> in_sync r b' \<and> sb_cursor b' = length (rg_events r)
    | Event e \<Rightarrow> in_sync r b')"
proof (induction oldest "rg_events r" b arbitrary: res b' rule: recv.induct)
  case (1 oldest b)
  let ?c = "sb_cursor b" and ?evs = "rg_events r"
  show ?case
  proof (cases "?c < oldest \<and> oldest \<le> length ?evs \<or> length ?evs \<le> ?c")
    case True
    then show ?thesis using "1.prems" by (subst (asm) recv.simps) (auto simp: in_sync_def Let_def split: if_splits)
  next
    case False
    let ?e = "?evs ! ?c"
    have ahead: "(?c < oldest \<and> oldest \<le> length ?evs) = False" "(length ?evs \<le> ?c) = False"
      using False by auto
    have drop: "drop ?c ?evs = ?e # drop (?c + 1) ?evs" using False by (simp add: Cons_nth_drop_Suc)
    let ?b1 = "b\<lparr>sb_cursor := ?c + 1\<rparr>" and ?b2 = "b\<lparr>sb_cursor := ?c + 1, sb_endpoints := event_set ?e (sb_endpoints b)\<rparr>"
    have fin: "finite (event_set ?e (sb_endpoints b))" using "1.prems"(2) by (cases ?e) (auto simp: in_sync_def)
    have b1: "in_sync r ?b1" if "event_service ?e \<noteq> sb_service b"
      using "1.prems"(2) that False by (simp add: in_sync_def drain_def drop)
    have b2: "in_sync r ?b2" if "event_service ?e = sb_service b"
      using "1.prems"(2) that False fin by (simp add: in_sync_def drain_def drop)
    have step: "recv oldest ?evs b =
        (if event_service ?e = sb_service b
         then if event_set ?e (sb_endpoints b) \<noteq> sb_endpoints b then (Event ?e, ?b2) else recv oldest ?evs ?b2
         else recv oldest ?evs ?b1)"
      by (subst recv.simps) (simp only: Let_def ahead if_False, simp)
    consider "event_service ?e \<noteq> sb_service b"
      | "event_service ?e = sb_service b" "event_set ?e (sb_endpoints b) \<noteq> sb_endpoints b"
      | "event_service ?e = sb_service b" "event_set ?e (sb_endpoints b) = sb_endpoints b"
      by blast
    then show ?thesis
    proof cases
      case 1
      then show ?thesis
        using "1.hyps"(2) [OF refl _ _ refl refl, of res b'] "1.prems" b1 step False by (simp add: Suc_lessD)
    next
      case 2
      then show ?thesis using "1.prems" b2 step by (auto simp: in_sync_def)
    next
      case 3
      then show ?thesis
        using "1.hyps"(1) [OF refl _ _ refl refl _ refl, of res b'] "1.prems" b2 step False by (simp add: Suc_lessD)
    qed
  qed
qed

lemma resync_in_sync:
  assumes "services_ok (rg_services r)" "announced r" "sb_cursor b \<le> length (rg_events r)"
  shows "in_sync r (resync r b)"
  using drain_known [OF assms(1,2), of "sb_service b" "sb_cursor b"] assms(3)
  by (simp add: in_sync_def resync_def known_def)

lemma changed_in_sync:
  assumes ok: "services_ok (rg_services r)" "announced r" and sync: "in_sync r b"
    and ch: "changed oldest r b = (res, b')"
  shows "in_sync r b'" and "sb_service b' = sb_service b"
    and "res = None \<Longrightarrow> sb_endpoints b' = known (sb_service b) r"
    and "res \<noteq> None \<Longrightarrow> sb_cursor b < sb_cursor b' \<and> res = Some (Inr (sorted_list_of_set (sb_endpoints b')))"
proof -
  obtain got b1 where got: "recv oldest (rg_events r) b = (got, b1)" by fastforce
  note rc = recv_in_sync [OF got sync]
  have "in_sync r b' \<and> sb_service b' = sb_service b \<and> (res = None \<longrightarrow> sb_endpoints b' = known (sb_service b) r) \<and>
      (res \<noteq> None \<longrightarrow> sb_cursor b < sb_cursor b' \<and> res = Some (Inr (sorted_list_of_set (sb_endpoints b'))))"
  proof (cases got)
    case Waiting
    then have "in_sync r b1" "sb_cursor b1 = length (rg_events r)" "res = None" "b' = b1"
      using rc ch by (simp_all add: changed_def got)
    then show ?thesis using rc by (auto simp: in_sync_def drain_def)
  next
    case (Event e)
    then show ?thesis using rc ch by (auto simp: changed_def got)
  next
    case (Failed er)
    then have "b' = resync r b1" "res = Some (Inr (sorted_list_of_set (sb_endpoints b')))"
      using rc ch by (auto simp: changed_def got Let_def)
    then show ?thesis using rc Failed resync_in_sync [OF ok, of b1] by (simp add: resync_def)
  qed
  then show "in_sync r b'" "sb_service b' = sb_service b" "res = None \<Longrightarrow> sb_endpoints b' = known (sb_service b) r"
    "res \<noteq> None \<Longrightarrow> sb_cursor b < sb_cursor b' \<and> res = Some (Inr (sorted_list_of_set (sb_endpoints b')))"
    by blast+
qed

definition phase_ok :: "registry \<Rightarrow> sub_phase \<Rightarrow> bool" where
  "phase_ok r p \<longleftrightarrow>
     (\<forall>svc c. p = Opening svc c \<longrightarrow> \<not> is_blank svc \<and> c \<le> length (rg_events r)) \<and>
     (\<forall>b. p = Live b \<longrightarrow> \<not> is_blank (sb_service b) \<and> in_sync r b)"

lemma phase_ok_extend:
  "phase_ok r p \<Longrightarrow> registry_ok r ls \<Longrightarrow> registry_ok r' ls' \<Longrightarrow> rg_events r' = rg_events r @ evs \<Longrightarrow> phase_ok r' p"
  using in_sync_extend [of r _ r' evs] by (auto simp: phase_ok_def registry_ok_def)

lemma publish_events: "publish_endpoint service e r = (res, r') \<Longrightarrow> \<exists>evs. rg_events r' = rg_events r @ evs"
  by (auto simp: publish_endpoint_def split: sum.splits prod.splits)

lemma release_events: "lease_release l r = (l', r') \<Longrightarrow> \<exists>evs. rg_events r' = rg_events r @ evs"
  by (auto simp: lease_release_def Let_def split: prod.splits if_splits)

lemma registry_run_ok: "registry_run r ls p \<Longrightarrow> registry_ok r ls \<and> phase_ok r p"
proof (induction rule: registry_run.induct)
  case start
  show ?case
    by (simp add: registry_new_def registry_ok_def services_ok_def hm.ok_empty counts_leases_def
        announced_def entry_of_def endpoints_of_def leases_of_def phase_ok_def)
next
  case (published r ls p service e l r')
  then show ?case
    using registry_ok_publish publish_events phase_ok_extend by metis
next
  case (refused r ls p service e er r')
  then show ?case
    using registry_ok_refused publish_events phase_ok_extend by metis
next
  case (released r ls p svc e l' r')
  then show ?case
    using registry_ok_release release_events phase_ok_extend by metis
next
  case (attach r ls service svc)
  then show ?case by (auto simp: phase_ok_def validate_service_def split: if_splits)
next
  case (live r ls svc c)
  then show ?case
    using resync_in_sync [of r "subscribe_snapshot svc c r"]
    by (simp add: phase_ok_def registry_ok_def subscribe_snapshot_def resync_def)
next
  case (follow r ls b oldest res b')
  then show ?case
    using changed_in_sync(1,2) [of r b oldest res b'] by (auto simp: phase_ok_def registry_ok_def)
qed

text \<open>
  The registry lists exactly what is leased. In every run of publications and releases, the
  endpoints of a service are the addresses for which some lease is held, each once and in ascending
  order, and their metadata is the metadata the leases were given for; releasing one of several
  leases of an endpoint keeps it published.
\<close>

theorem registry_counts_leases:
  assumes run: "registry_run r ls p" and svc: "\<not> is_blank svc"
  shows "\<exists>us es. registry_endpoints svc r = Inr us \<and> registry_discovered svc r = Inr es \<and>
    sorted_wrt (<) us \<and> map de_uri es = us \<and> set es = {e. (svc, e) \<in> set ls}"
proof -
  let ?m = "endpoints_of svc (rg_services r)"
  have ok: "services_ok (rg_services r)" "counts_leases (rg_services r) ls"
    using registry_run_ok [OF run] by (simp_all add: registry_ok_def)
  have held: "de_uri (re_endpoint en) = u \<and> (svc, re_endpoint en) \<in> set ls" if "(u, en) \<in> set ?m" for u en
  proof -
    have en: "entry_of (rg_services r) svc u = Some en"
      using that bt_ok_distinct [OF bt_ok_endpoints [OF ok(1)]] by (simp add: entry_of_def)
    then have "leases_of svc u ls = replicate (re_references en) (svc, re_endpoint en)" "0 < re_references en"
      using ok(2) by (auto simp: counts_leases_def)
    then have "(svc, re_endpoint en) \<in> set (leases_of svc u ls)" by simp
    then show ?thesis by (simp add: leases_of_def)
  qed
  moreover have "\<exists>u en. (u, en) \<in> set ?m \<and> re_endpoint en = e" if "(svc, e) \<in> set ls" for e
  proof -
    have mem: "(svc, e) \<in> set (leases_of svc (de_uri e) ls)" using that by (simp add: leases_of_def)
    then obtain en where en: "entry_of (rg_services r) svc (de_uri e) = Some en" "re_endpoint en = e"
      using ok(2) by (cases "entry_of (rg_services r) svc (de_uri e)") (auto simp: counts_leases_def)
    then show ?thesis by (auto simp: entry_of_def dest: map_of_SomeD)
  qed
  ultimately have "(re_endpoint \<circ> snd) ` set ?m = {e. (svc, e) \<in> set ls}" by force
  moreover have "map (de_uri \<circ> (re_endpoint \<circ> snd)) ?m = map fst ?m" using held by auto
  ultimately show ?thesis
    using svc bt_ok_endpoints [OF ok(1), of svc]
    by (simp add: registry_endpoints_def registry_discovered_def validate_service_def bt_ok_def)
qed


text \<open>
  A removal that is announced late hides a published endpoint: the event is sent after the mutex is
  released, so a last release and a new publication of the same endpoint can be announced in the
  opposite order. A subscription that has received both events then lacks the endpoint, although the
  registry lists it and nothing is left to be received.
\<close>

theorem subscription_overtaken:
  assumes "\<not> is_blank svc" and "publish_endpoint svc e registry_new = (Inr l, r)"
    and "subscribe svc r = Inr b"
    and "release_locked svc (de_uri e) (rg_services r) = (True, ss1)"
    and "publish_locked svc e ss1 = (Inr True, ss2)"
    and "r2 = r\<lparr>rg_services := ss2, rg_events := rg_events r @ [Added svc (de_uri e), Removed svc (de_uri e)]\<rparr>"
  shows "registry_endpoints svc r2 = Inr [de_uri e] \<and>
    (\<exists>b1 b2. changed 0 r2 b = (Some (Inr []), b1) \<and> changed 0 r2 b1 = (None, b2) \<and> sb_endpoints b2 = {})"
proof -
  have r: "rg_services r = [(svc, [(de_uri e, \<lparr>re_endpoint = e, re_references = 1\<rparr>)])]"
    "rg_events r = [Added svc (de_uri e)]"
    using assms(1,2)
    by (auto simp: publish_endpoint_def validate_service_def registry_new_def publish_locked_def endpoints_of_def)
  have ss1: "ss1 = []" using assms(4) r by (simp add: release_locked_def bt_del_def)
  have ss2: "ss2 = [(svc, [(de_uri e, \<lparr>re_endpoint = e, re_references = 1\<rparr>)])]"
    using assms(5) ss1 by (simp add: publish_locked_def endpoints_of_def)
  have b: "b = \<lparr>sb_service = svc, sb_endpoints = {de_uri e}, sb_cursor = 1\<rparr>"
    using assms(1,3) r by (simp add: subscribe_def validate_service_def subscribe_snapshot_def endpoints_of_def)
  have evs: "rg_events r2 = [Added svc (de_uri e), Added svc (de_uri e), Removed svc (de_uri e)]"
    using assms(6) r by simp
  let ?b1 = "\<lparr>sb_service = svc, sb_endpoints = {}, sb_cursor = 3\<rparr>"
  have "recv 0 (rg_events r2) b = (Event (Removed svc (de_uri e)), ?b1)"
    unfolding b evs by (subst recv.simps, simp, subst recv.simps, simp)
  moreover have "recv 0 (rg_events r2) ?b1 = (Waiting, ?b1)" unfolding evs by (subst recv.simps) simp
  ultimately show ?thesis
    using assms(1,6) ss2
    by (simp add: changed_def registry_endpoints_def validate_service_def endpoints_of_def)
qed

section \<open>Witnesses\<close>

lemma example_publish:
  "publish_endpoint ''users'' \<lparr>de_uri = ''a:1'', de_weight = 1, de_metadata = []\<rparr> registry_new =
     (Inr \<lparr>sl_service = ''users'', sl_endpoint = ''a:1'', sl_active = True\<rparr>,
      \<lparr>rg_services = [(''users'', [(''a:1'', \<lparr>re_endpoint = \<lparr>de_uri = ''a:1'', de_weight = 1, de_metadata = []\<rparr>,
         re_references = 1\<rparr>)])], rg_events = [Added ''users'' ''a:1'']\<rparr>)"
  by (simp add: publish_endpoint_def validate_service_def is_blank_def ascii_ws_def registry_new_def
      publish_locked_def endpoints_of_def)

lemma users_not_blank: "\<not> is_blank ''users''"
  by (simp add: is_blank_def ascii_ws_def)

lemma example_run:
  "registry_run (snd (publish_endpoint ''users'' \<lparr>de_uri = ''a:1'', de_weight = 1, de_metadata = []\<rparr> registry_new))
     [(''users'', \<lparr>de_uri = ''a:1'', de_weight = 1, de_metadata = []\<rparr>)] Unsubscribed"
  using registry_run.published [OF registry_run.start example_publish] unfolding example_publish by simp

theorem registry_counts_leases_witness:
  "\<exists>us es. registry_endpoints ''users''
      (snd (publish_endpoint ''users'' \<lparr>de_uri = ''a:1'', de_weight = 1, de_metadata = []\<rparr> registry_new)) = Inr us \<and>
    map de_uri es = us \<and> set es = {\<lparr>de_uri = ''a:1'', de_weight = 1, de_metadata = []\<rparr>}"
  using registry_counts_leases [OF example_run users_not_blank] by auto


theorem subscription_overtaken_witness:
  "\<exists>r2 b. registry_endpoints ''users'' r2 = Inr [''a:1''] \<and>
    (\<exists>b1 b2. changed 0 r2 b = (Some (Inr []), b1) \<and> changed 0 r2 b1 = (None, b2) \<and> sb_endpoints b2 = {})"
proof -
  let ?e = "\<lparr>de_uri = ''a:1'', de_weight = 1, de_metadata = []\<rparr> :: discovered_endpoint"
  obtain r where r: "publish_endpoint ''users'' ?e registry_new = (Inr \<lparr>sl_service = ''users'', sl_endpoint = ''a:1'', sl_active = True\<rparr>, r)"
    "rg_services r = [(''users'', [(''a:1'', \<lparr>re_endpoint = ?e, re_references = 1\<rparr>)])]"
    using example_publish by auto
  obtain b where b: "subscribe ''users'' r = Inr b"
    using users_not_blank by (simp add: subscribe_def validate_service_def)
  have rel: "release_locked ''users'' (de_uri ?e) (rg_services r) = (True, [])"
    by (simp add: r release_locked_def bt_del_def)
  have pub: "publish_locked ''users'' ?e [] = (Inr True, [(''users'', [(''a:1'', \<lparr>re_endpoint = ?e, re_references = 1\<rparr>)])])"
    by (simp add: publish_locked_def endpoints_of_def)
  from subscription_overtaken [OF users_not_blank r(1) b rel pub refl] show ?thesis by (auto simp del: not_None_eq)
qed

end
