(* ===== verification/Balancer.thy ===== *)
theory Balancer
  imports Binary64 "HOL-Library.Word"
begin

text \<open>
  \<open>core/src/balancer.rs\<close>: the power-of-two-choices balancer with its latency and success averages. A
  node is named by its position; a request is the position of its node and the time it started. The
  square root and the exponential of binary64 numbers are arguments.
\<close>

section \<open>Nodes\<close>

definition decay_time :: duration where
  "decay_time = 10 * nanos_per_sec"

definition force_pick_after :: duration where
  "force_pick_after = nanos_per_sec"

record node_state =
  ns_latency_micros :: f64
  ns_success :: f64
  ns_last_update :: instant
  ns_last_pick :: instant

record 't node =
  nd_value :: 't
  nd_inflight :: nat
  nd_requests :: "64 word"
  nd_state :: node_state

definition node_new :: "instant \<Rightarrow> 't \<Rightarrow> 't node" where
  "node_new now v =
     \<lparr>nd_value = v, nd_inflight = 0, nd_requests = 0,
      nd_state = \<lparr>ns_latency_micros = Fin 0, ns_success = Fin 1, ns_last_update = now, ns_last_pick = now\<rparr>\<rparr>"

definition node_load :: "(f64 \<Rightarrow> f64) \<Rightarrow> 't node \<Rightarrow> f64" where
  "node_load fsqrt n =
     f_mul (fsqrt (f_max (ns_latency_micros (nd_state n)) (Fin 1))) (f_add (f_nat (nd_inflight n)) (Fin 1))"

definition node_healthy :: "'t node \<Rightarrow> bool" where
  "node_healthy n = f_lt (Fin (1 / 2)) (ns_success (nd_state n))"

definition mark_picked :: "instant \<Rightarrow> 't node \<Rightarrow> 't node" where
  "mark_picked now n =
     n\<lparr>nd_state := (nd_state n)\<lparr>ns_last_pick := now\<rparr>, nd_inflight := nd_inflight n + 1,
       nd_requests := nd_requests n + 1\<rparr>"

text \<open>\<open>fetch_sub\<close> wraps around below zero.\<close>

definition node_complete :: "(f64 \<Rightarrow> f64) \<Rightarrow> instant \<Rightarrow> instant \<Rightarrow> bool \<Rightarrow> 't node \<Rightarrow> 't node" where
  "node_complete fexp now started success n =
     (let s = nd_state n;
          elapsed = now - ns_last_update s;
          weight = fexp (f_div (f_neg (as_secs_f64 elapsed)) (as_secs_f64 decay_time));
          latency = f_nat ((now - started) div 1000);
          outcome = (if success then Fin 1 else Fin 0) in
      n\<lparr>nd_inflight := (if nd_inflight n = 0 then u64_max else nd_inflight n - 1),
        nd_state := s
          \<lparr>ns_latency_micros :=
             (if ns_latency_micros s = Fin 0 then latency
              else f_add (f_mul (ns_latency_micros s) weight) (f_mul latency (f_sub (Fin 1) weight))),
           ns_success := f_add (f_mul (ns_success s) weight) (f_mul outcome (f_sub (Fin 1) weight)),
           ns_last_update := now\<rparr>\<rparr>)"

section \<open>The balancer\<close>

record 't p2c_balancer =
  pb_nodes :: "'t node list"
  pb_random :: "64 word"

datatype balancer_error = Empty

record p2c_request =
  pr_node :: "nat option"
  pr_started :: instant

definition p2c_new :: "instant \<Rightarrow> 't list \<Rightarrow> balancer_error + 't p2c_balancer" where
  "p2c_new now values =
     (if values = [] then Inl Empty
      else Inr \<lparr>pb_nodes = map (node_new now) values, pb_random = 0x4d595df4d0f33173\<rparr>)"

definition xorshift :: "64 word \<Rightarrow> 64 word" where
  "xorshift x0 =
     (let x1 = xor x0 (push_bit 13 x0);
          x2 = xor x1 (drop_bit 7 x1) in
      xor x2 (push_bit 17 x2))"

definition next_index :: "nat \<Rightarrow> 64 word \<Rightarrow> nat \<times> 64 word" where
  "next_index len random = (let next = xorshift random in (unat next mod len, next))"

definition p2c_choose :: "(f64 \<Rightarrow> f64) \<Rightarrow> instant \<Rightarrow> 't node list \<Rightarrow> nat \<Rightarrow> nat \<Rightarrow> nat" where
  "p2c_choose fsqrt now nodes first second =
     (let a = nodes ! first; b = nodes ! second in
      if node_healthy a \<noteq> node_healthy b then (if node_healthy a then first else second)
      else if force_pick_after < now - ns_last_pick (nd_state b) then second
      else if f_le (node_load fsqrt a) (node_load fsqrt b) then first else second)"

text \<open>The two positions that are compared.\<close>

definition p2c_sample :: "'t p2c_balancer \<Rightarrow> nat \<times> nat \<times> 64 word" where
  "p2c_sample b =
     (let len = length (pb_nodes b);
          (first, r1) = next_index len (pb_random b);
          (second, r2) = next_index (len - 1) r1 in
      (first, if first \<le> second then second + 1 else second, r2))"

definition p2c_pick :: "(f64 \<Rightarrow> f64) \<Rightarrow> instant \<Rightarrow> instant \<Rightarrow> instant \<Rightarrow> 't p2c_balancer \<Rightarrow> p2c_request \<times> 't p2c_balancer" where
  "p2c_pick fsqrt compared marked started b =
     (let (selected, random) =
        (if length (pb_nodes b) = 1 then (0, pb_random b)
         else let (first, second, r) = p2c_sample b in
           (p2c_choose fsqrt compared (pb_nodes b) first second, r)) in
      (\<lparr>pr_node = Some selected, pr_started = started\<rparr>,
       b\<lparr>pb_nodes := (pb_nodes b)[selected := mark_picked marked (pb_nodes b ! selected)], pb_random := random\<rparr>))"

text \<open>\<open>complete\<close> consumes the request; \<open>drop\<close> records a failure unless it was completed.\<close>

definition request_complete :: "(f64 \<Rightarrow> f64) \<Rightarrow> instant \<Rightarrow> bool \<Rightarrow> p2c_request \<Rightarrow> 't p2c_balancer \<Rightarrow> p2c_request \<times> 't p2c_balancer" where
  "request_complete fexp now success q b =
     (case pr_node q of
        None \<Rightarrow> (q, b)
      | Some i \<Rightarrow>
          (q\<lparr>pr_node := None\<rparr>,
           b\<lparr>pb_nodes := (pb_nodes b)[i := node_complete fexp now (pr_started q) success (pb_nodes b ! i)]\<rparr>))"

definition request_drop :: "(f64 \<Rightarrow> f64) \<Rightarrow> instant \<Rightarrow> p2c_request \<Rightarrow> 't p2c_balancer \<Rightarrow> p2c_request \<times> 't p2c_balancer" where
  "request_drop fexp now q b = request_complete fexp now False q b"

record 't node_snapshot =
  sn_value :: 't
  sn_inflight :: nat
  sn_requests :: "64 word"
  sn_latency :: "duration option"
  sn_success_rate :: f64

definition p2c_snapshots :: "'t p2c_balancer \<Rightarrow> 't node_snapshot list" where
  "p2c_snapshots b =
     map (\<lambda>n. \<lparr>sn_value = nd_value n, sn_inflight = nd_inflight n, sn_requests = nd_requests n,
       sn_latency = from_secs_f64 (f_div (ns_latency_micros (nd_state n)) (f_nat 1000000)),
       sn_success_rate = ns_success (nd_state n)\<rparr>) (pb_nodes b)"

section \<open>Choices\<close>

lemma p2c_sample_indices:
  assumes "2 \<le> length (pb_nodes b)" "p2c_sample b = (first, second, r)"
  shows "first < length (pb_nodes b)" "second < length (pb_nodes b)" "first \<noteq> second"
proof -
  let ?len = "length (pb_nodes b)"
  define j where "j = unat (xorshift (xorshift (pb_random b))) mod (?len - 1)"
  have "0 < ?len" "0 < ?len - 1" using assms(1) by auto
  then have "j < ?len - 1" "unat (xorshift (pb_random b)) mod ?len < ?len"
    unfolding j_def by (simp_all only: mod_less_divisor)
  moreover have "first = unat (xorshift (pb_random b)) mod ?len" "second = (if first \<le> j then j + 1 else j)"
    using assms(2) unfolding j_def by (auto simp: p2c_sample_def next_index_def Let_def)
  ultimately have "first < ?len" "j < ?len - 1" "second = (if first \<le> j then j + 1 else j)" by simp_all
  then show "first < ?len" "second < ?len" "first \<noteq> second" by auto
qed

lemma f_lt_irrefl [simp]: "\<not> f_lt a a"
  by (cases a) auto

lemma f_not_le: "\<not> f_le a b \<Longrightarrow> \<not> f_lt a b"
  by (simp add: f_le_def)

lemma f_le_not_lt: "f_le a b \<Longrightarrow> \<not> f_lt b a"
  by (cases a; cases b) (auto simp: f_le_def)

lemma p2c_choose_spec:
  assumes "i = p2c_choose fsqrt now nodes first second" "j \<in> {first, second}"
  shows "i \<in> {first, second}" "node_healthy (nodes ! j) \<longrightarrow> node_healthy (nodes ! i)"
    "node_healthy (nodes ! j) = node_healthy (nodes ! i) \<and> now \<le> ns_last_pick (nd_state (nodes ! second)) + nanos_per_sec \<longrightarrow>
       \<not> f_lt (node_load fsqrt (nodes ! j)) (node_load fsqrt (nodes ! i))"
  using assms unfolding p2c_choose_def Let_def force_pick_after_def
  by (auto dest: f_le_not_lt f_not_le split: if_splits)

lemma p2c_pick_index:
  assumes "pb_nodes b \<noteq> []" and "p2c_pick fsqrt compared marked started b = (q, b')"
  shows "\<exists>i < length (pb_nodes b). pr_node q = Some i"
proof (cases "length (pb_nodes b) = 1")
  case True
  then show ?thesis using assms(2) by (auto simp: p2c_pick_def)
next
  case False
  moreover have "length (pb_nodes b) \<noteq> 0" using assms(1) by simp
  ultimately have two: "2 \<le> length (pb_nodes b)" by linarith
  obtain first second r where s: "p2c_sample b = (first, second, r)" by (metis prod_cases3)
  show ?thesis
    using p2c_sample_indices [OF two s] p2c_choose_spec(1) [OF refl, of first first second fsqrt compared "pb_nodes b"]
      False assms(2) s by (auto simp: p2c_pick_def Let_def)
qed

text \<open>
  A pick compares two different nodes of the balancer and takes one of them: the healthy one when
  exactly one is healthy, and otherwise one whose load is not above that of the other, unless the second has
  not been picked for more than a second. With one node that node is taken.
\<close>

theorem p2c_choice:
  assumes "pb_nodes b \<noteq> []" and "p2c_pick fsqrt compared marked started b = (q, b')"
  shows "\<exists>i. pr_node q = Some i \<and> i < length (pb_nodes b) \<and>
    (2 \<le> length (pb_nodes b) \<longrightarrow>
      (\<exists>first second. first < length (pb_nodes b) \<and> second < length (pb_nodes b) \<and> first \<noteq> second \<and> i \<in> {first, second} \<and>
        (\<forall>j \<in> {first, second}.
           (node_healthy (pb_nodes b ! j) \<longrightarrow> node_healthy (pb_nodes b ! i)) \<and>
           (node_healthy (pb_nodes b ! j) = node_healthy (pb_nodes b ! i) \<and>
            compared \<le> ns_last_pick (nd_state (pb_nodes b ! second)) + nanos_per_sec \<longrightarrow>
              \<not> f_lt (node_load fsqrt (pb_nodes b ! j)) (node_load fsqrt (pb_nodes b ! i))))))"
proof (cases "length (pb_nodes b) = 1")
  case True
  then show ?thesis using assms(2) by (auto simp: p2c_pick_def)
next
  case False
  moreover have "length (pb_nodes b) \<noteq> 0" using assms(1) by simp
  ultimately have two: "2 \<le> length (pb_nodes b)" by linarith
  obtain first second r where s: "p2c_sample b = (first, second, r)" by (metis prod_cases3)
  note idx = p2c_sample_indices [OF two s]
  let ?i = "p2c_choose fsqrt compared (pb_nodes b) first second"
  have q: "pr_node q = Some ?i" using False assms(2) s by (auto simp: p2c_pick_def Let_def)
  have spec: "?i \<in> {first, second}" "?i < length (pb_nodes b)"
    using p2c_choose_spec(1) [OF refl, of first first second fsqrt compared "pb_nodes b"] idx by auto
  have best: "\<forall>j \<in> {first, second}.
      (node_healthy (pb_nodes b ! j) \<longrightarrow> node_healthy (pb_nodes b ! ?i)) \<and>
      (node_healthy (pb_nodes b ! j) = node_healthy (pb_nodes b ! ?i) \<and>
       compared \<le> ns_last_pick (nd_state (pb_nodes b ! second)) + nanos_per_sec \<longrightarrow>
         \<not> f_lt (node_load fsqrt (pb_nodes b ! j)) (node_load fsqrt (pb_nodes b ! ?i)))"
    by (intro ballI conjI) (erule p2c_choose_spec(2,3) [OF refl])+
  show ?thesis
    by (rule exI [of _ ?i], intro conjI impI, rule q, rule spec(2), rule exI [of _ first], rule exI [of _ second])
      (intro conjI idx spec(1) best)
qed

section \<open>Accounting\<close>

text \<open>Half a unit in the last place bounds the rounding error below one.\<close>

lemma fl_unit_error:
  assumes "0 \<le> x" "x \<le> 1"
  shows "fl x \<le> x + 1 / 2 ^ 54"
proof -
  consider "x = 0" | "x = 1" | "0 < x" "x < 1" using assms by linarith
  then show ?thesis
  proof cases
    case 2
    then show ?thesis using fl_of_nat [of 1] by simp
  next
    case 3
    let ?u = "ulp (fl_exp x)"
    have "bexp x < 0" using bexp_less [of x 0] 3 by simp
    then have "fl_exp x - 52 \<le> -53" using 3 by (simp add: fl_exp_def)
    then have "?u \<le> 2 powi (-53)" unfolding ulp_def by (rule two_powi_mono)
    also have "(2::rat) powi (-53) = 1 / 2 ^ 53" by (simp add: power_int_minus)
    finally have u: "?u \<le> 1 / 2 ^ 53" .
    have "of_int (rne (x / ?u)) * ?u \<le> (x / ?u + 1 / 2) * ?u"
      using rne_bounds(1) [of "x / ?u"] by (intro mult_right_mono) (simp_all add: order_less_imp_le)
    also have "\<dots> = x + ?u / 2" using less_imp_neq [OF ulp_pos [of "fl_exp x"]] by (simp add: field_simps)
    also have "\<dots> \<le> x + 1 / 2 ^ 54" using u by simp
    finally show ?thesis using 3 by (simp add: fl_def)
  qed simp
qed

lemma fl_one_above: "fl (1 + 1 / 2 ^ 54) = 1"
proof -
  let ?x = "1 + 1 / 2 ^ 54 :: rat" and ?n = "2 ^ 52 :: int"
  have "bexp ?x = 0" using bexp_less [of ?x 1] bexp_le [of ?x 0] by simp
  then have e: "fl_exp ?x = 0" by (simp add: fl_exp_def)
  have "\<lfloor>of_int ?n + 1 / 4 :: rat\<rfloor> = ?n" by (rule floor_unique) simp_all
  then have "rne (of_int ?n + 1 / 4) = ?n" by (simp add: rne_def Let_def)
  moreover have "?x / ulp 0 = of_int ?n + 1 / 4" by (simp add: ulp_def power_int_minus)
  moreover have "of_int ?n * ulp 0 = 1" by (simp add: ulp_def power_int_minus)
  moreover have "fl ?x = of_int (rne (?x / ulp 0)) * ulp 0" unfolding fl_def e by simp
  ultimately show ?thesis by (simp only:)
qed

text \<open>An average of two numbers in the unit interval stays there, rounding included.\<close>

lemma average_unit:
  assumes w: "0 \<le> w" "w \<le> 1" "fl w = w" and s: "0 \<le> s" "s \<le> 1" and out: "out = 0 \<or> out = 1"
  shows "\<exists>r. f_add (f_mul (Fin s) (Fin w)) (f_mul (Fin out) (f_sub (Fin 1) (Fin w))) = Fin r \<and> 0 \<le> r \<and> r \<le> 1 \<and> fl r = r"
proof -
  have one: "fl 1 = 1" using fl_of_nat [of 1] by simp
  have mk1: "mk x = Fin (fl x)" if "0 \<le> x" "x \<le> 2" for x using mk_fin_pow [of 1 x] that by simp
  let ?d = "fl (1 - w)"
  have d: "0 \<le> ?d" "?d \<le> 1" "w + ?d \<le> 1 + 1 / 2 ^ 54"
    using w fl_nonneg [of "1 - w"] fl_le_exact [OF one, of "1 - w"] fl_unit_error [of "1 - w"] by auto
  have sw: "0 \<le> s * w" "s * w \<le> w" using w s mult_right_mono [of s 1 w] by simp_all
  have fsw: "0 \<le> fl (s * w)" "fl (s * w) \<le> w" using sw fl_nonneg fl_mono [of "s * w" w] w(3) by simp_all
  have od: "0 \<le> out * ?d" "out * ?d \<le> ?d" "fl (out * ?d) = out * ?d" using out d by auto
  let ?x = "fl (s * w) + out * ?d"
  have x: "0 \<le> ?x" "?x \<le> 1 + 1 / 2 ^ 54" using fsw od d by linarith+
  have "f_add (f_mul (Fin s) (Fin w)) (f_mul (Fin out) (f_sub (Fin 1) (Fin w))) = Fin (fl ?x)"
    using w sw od d x by (simp add: f_sub_def mk1 [of "1 - w"] mk1 [of "s * w"] mk1 [of "out * ?d"] mk1 [of ?x])
  moreover have "0 \<le> fl ?x" "fl ?x \<le> 1"
    using fl_nonneg [OF x(1)] fl_mono [OF x(2)] unfolding fl_one_above by simp_all
  ultimately show ?thesis by auto
qed

text \<open>What the development uses of \<open>exp\<close>: on numbers that are not positive it lies in the unit interval.\<close>

definition exp_unit :: "(f64 \<Rightarrow> f64) \<Rightarrow> bool" where
  "exp_unit fexp \<longleftrightarrow> (\<forall>x \<le> 0. \<exists>w. fexp (Fin x) = Fin w \<and> 0 \<le> w \<and> w \<le> 1 \<and> fl w = w)"

definition success_ok :: "'t node \<Rightarrow> bool" where
  "success_ok n \<longleftrightarrow> (\<exists>r. ns_success (nd_state n) = Fin r \<and> 0 \<le> r \<and> r \<le> 1)"

lemma decay_secs: "as_secs_f64 decay_time = Fin 10"
proof -
  have "fl 10 = (10 :: rat)" using fl_of_nat [of 10] by simp
  then have "mk 10 = Fin 10" using mk_fin_pow [of 4 10] by simp
  then show ?thesis
    using f_nat_exact [of 10] f_nat_exact [of 0] f_nat_exact [of nanos_per_sec] mk_fin_pow [of 0 0]
    by (simp add: as_secs_f64_def decay_time_def nanos_per_sec_def)
qed

lemma decay_weight:
  assumes "exp_unit fexp" "d \<le> duration_max"
  shows "\<exists>w. fexp (f_div (f_neg (as_secs_f64 d)) (as_secs_f64 decay_time)) = Fin w \<and> 0 \<le> w \<and> w \<le> 1 \<and> fl w = w"
proof -
  obtain r where r: "as_secs_f64 d = Fin r" "0 \<le> r" "r \<le> 2 ^ 65" using as_secs_f64_bounds [OF assms(2)] by auto
  then have "mk (- r / 10) = Fin (fl (- r / 10))" by (intro mk_fin_pow [of 65]) simp_all
  moreover have "fl (- r / 10) \<le> 0" using fl_nonneg [of "r / 10"] fl_minus [of "r / 10"] r(2) by simp
  ultimately show ?thesis using assms(1) r(1) unfolding exp_unit_def decay_secs by simp
qed

lemma success_ok_complete:
  assumes "exp_unit fexp" "now \<le> duration_max" "success_ok n"
  shows "success_ok (node_complete fexp now started success n)"
proof -
  have "now - ns_last_update (nd_state n) \<le> duration_max" using assms(2) by simp
  from decay_weight [OF assms(1) this] obtain w where
    w: "fexp (f_div (f_neg (as_secs_f64 (now - ns_last_update (nd_state n)))) (as_secs_f64 decay_time)) = Fin w"
      "0 \<le> w" "w \<le> 1" "fl w = w" by auto
  obtain s where s: "ns_success (nd_state n) = Fin s" "0 \<le> s" "s \<le> 1" using assms(3) by (auto simp: success_ok_def)
  from average_unit [OF w(2-4) s(2,3), of "if success then 1 else 0"] show ?thesis
    by (auto simp: success_ok_def node_complete_def Let_def w(1) s(1) split: if_splits)
qed

text \<open>Runs with the requests that are under way.\<close>

inductive p2c_run :: "(f64 \<Rightarrow> f64) \<Rightarrow> (f64 \<Rightarrow> f64) \<Rightarrow> 't list \<Rightarrow> 't p2c_balancer \<Rightarrow> p2c_request list \<Rightarrow> bool"
  for fsqrt fexp vs where
  start: "p2c_new now vs = Inr b \<Longrightarrow> p2c_run fsqrt fexp vs b []"
| pick: "p2c_run fsqrt fexp vs b qs \<Longrightarrow> p2c_pick fsqrt compared marked started b = (q, b') \<Longrightarrow>
    p2c_run fsqrt fexp vs b' (q # qs)"
| complete: "p2c_run fsqrt fexp vs b qs \<Longrightarrow> q \<in> set qs \<Longrightarrow> now \<le> duration_max \<Longrightarrow>
    request_complete fexp now success q b = (q', b') \<Longrightarrow> p2c_run fsqrt fexp vs b' (remove1 q qs)"

definition under_way :: "nat \<Rightarrow> p2c_request list \<Rightarrow> nat" where
  "under_way i qs = length (filter (\<lambda>q. pr_node q = Some i) qs)"

lemma under_way_remove1:
  "q \<in> set qs \<Longrightarrow> under_way i (remove1 q qs) = (if pr_node q = Some i then under_way i qs - 1 else under_way i qs)"
  by (auto simp: under_way_def filter_remove1 length_remove1 remove1_idem)

lemma under_way_pos: "q \<in> set qs \<Longrightarrow> pr_node q = Some i \<Longrightarrow> 0 < under_way i qs"
  by (auto simp: under_way_def filter_empty_conv)

definition accounts :: "'t list \<Rightarrow> 't p2c_balancer \<Rightarrow> p2c_request list \<Rightarrow> bool" where
  "accounts vs b qs \<longleftrightarrow>
     map nd_value (pb_nodes b) = vs \<and> vs \<noteq> [] \<and>
     (\<forall>q \<in> set qs. \<exists>i < length vs. pr_node q = Some i) \<and>
     (\<forall>i < length vs. nd_inflight (pb_nodes b ! i) = under_way i qs \<and> success_ok (pb_nodes b ! i))"

lemma map_values_update: "f n = f (ns ! i) \<Longrightarrow> map f (ns[i := n]) = map f ns"
  by (cases "i < length ns") (simp_all add: map_update list_update_same_conv list_update_beyond)

lemma accounts_pick:
  assumes acc: "accounts vs b qs" and pick: "p2c_pick fsqrt compared marked started b = (q, b')"
  shows "accounts vs b' (q # qs)"
proof -
  have len: "length (pb_nodes b) = length vs" "pb_nodes b \<noteq> []" using acc by (auto simp: accounts_def)
  obtain i where q: "pr_node q = Some i" "i < length vs"
    using p2c_pick_index [OF len(2) pick] len(1) by auto
  have b': "pb_nodes b' = (pb_nodes b)[i := mark_picked marked (pb_nodes b ! i)]"
    using pick q(1) by (auto simp: p2c_pick_def Let_def split: prod.splits if_splits)
  have "map nd_value (pb_nodes b') = map nd_value (pb_nodes b)"
    unfolding b' by (rule map_values_update) (simp add: mark_picked_def)
  then show ?thesis
    using acc q len
    by (auto simp: accounts_def b' nth_list_update under_way_def mark_picked_def success_ok_def)
qed

lemma accounts_complete:
  assumes ex: "exp_unit fexp" and acc: "accounts vs b qs" and q: "q \<in> set qs" and now: "now \<le> duration_max"
    and fin: "request_complete fexp now success q b = (q', b')"
  shows "accounts vs b' (remove1 q qs)"
proof -
  obtain i where i: "pr_node q = Some i" "i < length vs" using acc q by (auto simp: accounts_def)
  have len: "length (pb_nodes b) = length vs" using acc by (auto simp: accounts_def)
  let ?n = "node_complete fexp now (pr_started q) success (pb_nodes b ! i)"
  have b': "pb_nodes b' = (pb_nodes b)[i := ?n]" using fin i by (auto simp: request_complete_def)
  have val: "nd_value ?n = nd_value (pb_nodes b ! i)" by (simp add: node_complete_def Let_def)
  have "map nd_value (pb_nodes b') = map nd_value (pb_nodes b)"
    unfolding b' by (rule map_values_update) (rule val)
  moreover have "nd_inflight (pb_nodes b ! i) = under_way i qs" "success_ok (pb_nodes b ! i)"
    using acc i by (simp_all add: accounts_def)
  then have "nd_inflight ?n = under_way i qs - 1" "success_ok ?n"
    using under_way_pos [OF q i(1)]
    by (simp add: node_complete_def Let_def, intro success_ok_complete [OF ex now])
  ultimately show ?thesis
    using acc i len q set_remove1_subset [of q qs]
    by (auto simp: accounts_def b' nth_list_update under_way_remove1)
qed

lemma p2c_run_accounts:
  assumes "exp_unit fexp"
  shows "p2c_run fsqrt fexp vs b qs \<Longrightarrow> accounts vs b qs"
proof (induction rule: p2c_run.induct)
  case (start now b)
  then show ?case
    by (auto simp: p2c_new_def accounts_def node_new_def under_way_def success_ok_def comp_def split: if_splits)
next
  case (pick b qs compared marked started q b')
  then show ?case using accounts_pick by blast
next
  case (complete b qs q now success q' b')
  then show ?case using accounts_complete [OF assms] by blast
qed

text \<open>
  C31. The balancer accounts for its requests. In every run of picks, completions and drops, a pick
  always yields a node, the \<open>inflight\<close> counter of every node is exactly the number of its requests that
  are under way (it never wraps below zero), the nodes stay those given to \<open>new\<close>, and the success rate
  of every node is a number in the unit interval, rounding errors included. Assumed of \<open>exp\<close>: its value
  lies in the unit interval where the argument is not positive.
\<close>

theorem balancer_accounts:
  assumes "exp_unit fexp" and "p2c_run fsqrt fexp vs b qs"
  shows "map sn_value (p2c_snapshots b) = vs \<and>
    (\<forall>i < length vs. sn_inflight (p2c_snapshots b ! i) = length (filter (\<lambda>q. pr_node q = Some i) qs) \<and>
      (\<exists>r. sn_success_rate (p2c_snapshots b ! i) = Fin r \<and> 0 \<le> r \<and> r \<le> 1)) \<and>
    (\<exists>i < length vs. pr_node (fst (p2c_pick fsqrt compared marked started b)) = Some i)"
proof -
  have acc: "accounts vs b qs" using p2c_run_accounts [OF assms(1,2)] .
  then have len: "length (pb_nodes b) = length vs" "pb_nodes b \<noteq> []" by (auto simp: accounts_def)
  obtain q b' where "p2c_pick fsqrt compared marked started b = (q, b')" by fastforce
  then show ?thesis
    using acc len p2c_pick_index [OF len(2)]
    by (auto simp: p2c_snapshots_def accounts_def under_way_def success_ok_def comp_def)
qed

section \<open>Witnesses\<close>

theorem p2c_choice_witness:
  "\<exists>b q b' i. p2c_new 0 [''a'', ''b''] = Inr b \<and> p2c_pick id 5 6 7 b = (q, b') \<and> pr_node q = Some i \<and> i < 2"
proof -
  obtain b :: "string p2c_balancer" where b: "p2c_new 0 [''a'', ''b''] = Inr b" "length (pb_nodes b) = 2"
    by (simp add: p2c_new_def)
  then have ne: "pb_nodes b \<noteq> []" by auto
  obtain q b' where pick: "p2c_pick id 5 6 7 b = (q, b')" by fastforce
  from p2c_choice [OF ne pick] b pick show ?thesis by auto
qed

theorem balancer_accounts_witness:
  "exp_unit (\<lambda>_. Fin 1) \<and>
    (\<exists>b q. p2c_run id (\<lambda>_. Fin 1) [''a'', ''b''] b [q] \<and> sn_inflight (p2c_snapshots b ! 0) + sn_inflight (p2c_snapshots b ! 1) = 1)"
proof -
  have ex: "exp_unit (\<lambda>_. Fin 1)" using fl_of_nat [of 1] by (simp add: exp_unit_def)
  obtain b0 :: "string p2c_balancer" where b0: "p2c_new 0 [''a'', ''b''] = Inr b0" by (simp add: p2c_new_def)
  obtain q b where pick: "p2c_pick id 5 6 7 b0 = (q, b)" by fastforce
  have start: "p2c_run id (\<lambda>_. Fin 1) [''a'', ''b''] b0 []" using b0 by (rule p2c_run.start)
  have run: "p2c_run id (\<lambda>_. Fin 1) [''a'', ''b''] b [q]" using p2c_run.pick [OF start pick] .
  have "\<exists>i < 2. pr_node q = Some i" using balancer_accounts [OF ex start, where compared = 5 and marked = 6 and started = 7] pick by auto
  then have "sn_inflight (p2c_snapshots b ! 0) + sn_inflight (p2c_snapshots b ! 1) = 1"
    using balancer_accounts [OF ex run, where compared = 0 and marked = 0 and started = 0] by (auto simp: less_2_cases_iff)
  with ex run show ?thesis by blast
qed

end
