(* ===== verification/Trace.thy ===== *)
theory Trace
  imports Prelude "HOL-Library.Word"
begin

text \<open>
  \<open>core/src/trace.rs\<close>: W3C trace contexts, their identifiers and the \<open>traceparent\<close> header. A clock
  reading and the values drawn from the sequence counter are arguments. The parser slices the text at
  byte positions; slicing inside a character panics, which is the value \<open>None\<close>.
\<close>

section \<open>Contexts\<close>

datatype trace_flags = TraceFlags "8 word"

fun flag_bits :: "trace_flags \<Rightarrow> 8 word" where
  "flag_bits (TraceFlags w) = w"

definition is_sampled :: "trace_flags \<Rightarrow> bool" where
  "is_sampled f \<longleftrightarrow> and (flag_bits f) 1 = 1"

record trace_context =
  tc_trace_id :: "8 word list"
  tc_span_id :: "8 word list"
  tc_parent_span_id :: "8 word list option"
  tc_flags :: trace_flags

datatype trace_context_error = TraceContextError

definition be_bytes64 :: "64 word \<Rightarrow> 8 word list" where
  "be_bytes64 w = map (\<lambda>i. ucast (drop_bit (8 * (7 - i)) w)) [0..<8]"

definition be_bytes128 :: "128 word \<Rightarrow> 8 word list" where
  "be_bytes128 w = map (\<lambda>i. ucast (drop_bit (8 * (15 - i)) w)) [0..<16]"

definition all_zero :: "8 word list \<Rightarrow> bool" where
  "all_zero bs = list_all (\<lambda>b. b = 0) bs"

definition next_span_id :: "64 word \<Rightarrow> 8 word list" where
  "next_span_id sequence = (let bs = be_bytes64 sequence in if all_zero bs then bs[7 := 1] else bs)"

definition next_trace_id :: "128 word \<Rightarrow> 64 word \<Rightarrow> 8 word list" where
  "next_trace_id time sequence =
     (let t = be_bytes128 time; bs = take 8 t @ map2 xor (drop 8 t) (be_bytes64 sequence) in
      if all_zero bs then bs[15 := 1] else bs)"

definition trace_root :: "trace_flags \<Rightarrow> 128 word \<Rightarrow> 64 word \<Rightarrow> 64 word \<Rightarrow> trace_context" where
  "trace_root flags time seq1 seq2 =
     \<lparr>tc_trace_id = next_trace_id time seq1, tc_span_id = next_span_id seq2, tc_parent_span_id = None, tc_flags = flags\<rparr>"

definition trace_child :: "64 word \<Rightarrow> trace_context \<Rightarrow> trace_context" where
  "trace_child sequence c =
     c\<lparr>tc_span_id := next_span_id sequence, tc_parent_span_id := Some (tc_span_id c)\<rparr>"

section \<open>Hexadecimal text\<close>

definition hex_char :: "nat \<Rightarrow> char" where
  "hex_char d = char_of (if d < 10 then 48 + d else 87 + d)"

definition encode_byte :: "8 word \<Rightarrow> string" where
  "encode_byte b = [hex_char (unat b div 16), hex_char (unat b mod 16)]"

definition encode_hex :: "8 word list \<Rightarrow> string" where
  "encode_hex bs = concat (map encode_byte bs)"

definition hex_value :: "char \<Rightarrow> nat option" where
  "hex_value c =
     (let n = of_char c in
      if 48 \<le> n \<and> n \<le> 57 then Some (n - 48)
      else if 97 \<le> n \<and> n \<le> 102 then Some (n - 87)
      else if 65 \<le> n \<and> n \<le> 70 then Some (n - 55)
      else None)"

text \<open>\<open>u8::from_str_radix(_, 16)\<close> on two bytes: a leading plus sign is accepted.\<close>

definition hex_pair :: "char \<Rightarrow> char \<Rightarrow> 8 word option" where
  "hex_pair a b =
     (if a = CHR ''+'' then map_option of_nat (hex_value b)
      else
        (case (hex_value a, hex_value b) of
           (Some x, Some y) \<Rightarrow> Some (of_nat (16 * x + y))
         | _ \<Rightarrow> None))"

text \<open>A continuation byte of UTF-8: a slice may not begin or end before it.\<close>

definition continuation :: "char \<Rightarrow> bool" where
  "continuation c \<longleftrightarrow> 128 \<le> (of_char c :: nat) \<and> (of_char c :: nat) < 192"

fun decode_hex :: "nat \<Rightarrow> string \<Rightarrow> (trace_context_error + 8 word list) option" where
  "decode_hex 0 s = Some (Inr [])"
| "decode_hex (Suc n) (a # b # s) =
     (if continuation a \<or> (s \<noteq> [] \<and> continuation (hd s)) then None
      else
        (case hex_pair a b of
           None \<Rightarrow> Some (Inl TraceContextError)
         | Some x \<Rightarrow> map_option (map_sum id (Cons x)) (decode_hex n s)))"
| "decode_hex (Suc n) s = None"

definition trace_parse :: "string \<Rightarrow> (trace_context_error + trace_context) option" where
  "trace_parse value =
     (case split_on CHR ''-'' value of
        [version, trace, span, flags] \<Rightarrow>
          if version \<noteq> ''00'' \<or> length trace \<noteq> 32 \<or> length span \<noteq> 16 \<or> length flags \<noteq> 2
          then Some (Inl TraceContextError)
          else
            (case decode_hex 16 trace of
               None \<Rightarrow> None
             | Some (Inl er) \<Rightarrow> Some (Inl er)
             | Some (Inr trace_id) \<Rightarrow>
                 (case decode_hex 8 span of
                    None \<Rightarrow> None
                  | Some (Inl er) \<Rightarrow> Some (Inl er)
                  | Some (Inr span_id) \<Rightarrow>
                      (case hex_pair (flags ! 0) (flags ! 1) of
                         None \<Rightarrow> Some (Inl TraceContextError)
                       | Some f \<Rightarrow>
                           if all_zero trace_id \<or> all_zero span_id then Some (Inl TraceContextError)
                           else Some (Inr \<lparr>tc_trace_id = trace_id, tc_span_id = span_id,
                                           tc_parent_span_id = None, tc_flags = TraceFlags f\<rparr>))))
      | _ \<Rightarrow> Some (Inl TraceContextError))"

definition traceparent :: "trace_context \<Rightarrow> string" where
  "traceparent c =
     ''00-'' @ encode_hex (tc_trace_id c) @ ''-'' @ encode_hex (tc_span_id c) @ ''-'' @ encode_byte (flag_bits (tc_flags c))"

section \<open>Round trips\<close>

lemma of_char_hex: "d < 16 \<Longrightarrow> (of_char (hex_char d) :: nat) = (if d < 10 then 48 + d else 87 + d)"
  by (simp add: hex_char_def)

lemma hex_value_char: "d < 16 \<Longrightarrow> hex_value (hex_char d) = Some d"
  by (simp add: hex_value_def of_char_hex Let_def)

lemma hex_char_plain:
  assumes "d < 16"
  shows "hex_char d \<noteq> CHR ''+''" "hex_char d \<noteq> CHR ''-''" "\<not> continuation (hex_char d)"
proof -
  have code: "43 \<noteq> (of_char (hex_char d) :: nat)" "45 \<noteq> (of_char (hex_char d) :: nat)" "(of_char (hex_char d) :: nat) < 128"
    using of_char_hex [OF assms] assms by auto
  show "hex_char d \<noteq> CHR ''+''" "hex_char d \<noteq> CHR ''-''" using code(1,2) by auto
  show "\<not> continuation (hex_char d)" using code(3) by (simp add: continuation_def)
qed

lemma unat_byte: "unat (b :: 8 word) < 256"
  using unsigned_less [of b, where 'a = nat] by simp

lemma byte_digits: "unat (b :: 8 word) div 16 < 16" "unat b mod 16 < 16"
  using unat_byte [of b] by simp_all

lemma hex_pair_byte: "hex_pair (hex_char (unat b div 16)) (hex_char (unat b mod 16)) = Some b"
  using byte_digits [of b] by (simp add: hex_pair_def hex_char_plain hex_value_char)

lemma decode_encode: "decode_hex (length bs) (encode_hex bs) = Some (Inr bs)"
proof (induction bs)
  case (Cons b bs)
  have nxt: "\<not> (encode_hex bs \<noteq> [] \<and> continuation (hd (encode_hex bs)))"
    using hex_char_plain(3) byte_digits by (cases bs) (auto simp: encode_hex_def encode_byte_def)
  have "encode_hex (b # bs) = hex_char (unat b div 16) # hex_char (unat b mod 16) # encode_hex bs"
    by (simp add: encode_hex_def encode_byte_def)
  with Cons nxt show ?case
    using hex_char_plain(3) [OF byte_digits(1), of b] by (simp add: hex_pair_byte)
qed (simp add: encode_hex_def)

lemma length_encode_hex: "length (encode_hex bs) = 2 * length bs"
  by (induction bs) (simp_all add: encode_hex_def encode_byte_def)

lemma encode_byte_no_dash: "CHR ''-'' \<notin> set (encode_byte b)"
  using hex_char_plain(2) [OF byte_digits(1), of b] hex_char_plain(2) [OF byte_digits(2), of b]
  by (auto simp: encode_byte_def)

lemma encode_hex_no_dash: "CHR ''-'' \<notin> set (encode_hex bs)"
  using encode_byte_no_dash by (auto simp: encode_hex_def)

definition trace_ok :: "trace_context \<Rightarrow> bool" where
  "trace_ok c \<longleftrightarrow> length (tc_trace_id c) = 16 \<and> length (tc_span_id c) = 8 \<and>
     \<not> all_zero (tc_trace_id c) \<and> \<not> all_zero (tc_span_id c)"

lemma parse_traceparent:
  assumes "trace_ok c"
  shows "trace_parse (traceparent c) = Some (Inr (c\<lparr>tc_parent_span_id := None\<rparr>))"
proof -
  let ?t = "encode_hex (tc_trace_id c)" and ?s = "encode_hex (tc_span_id c)" and ?f = "encode_byte (flag_bits (tc_flags c))"
  have split: "split_on CHR ''-'' (traceparent c) = [''00'', ?t, ?s, ?f]"
    by (simp add: traceparent_def split_on_append split_on_no_sep encode_hex_no_dash encode_byte_no_dash)
  have len: "length ?t = 32" "length ?s = 16" "length ?f = 2"
    using assms by (simp_all add: length_encode_hex trace_ok_def encode_byte_def)
  have dec: "decode_hex 16 ?t = Some (Inr (tc_trace_id c))" "decode_hex 8 ?s = Some (Inr (tc_span_id c))"
    using decode_encode [of "tc_trace_id c"] decode_encode [of "tc_span_id c"] assms by (simp_all add: trace_ok_def)
  have flags: "hex_pair (?f ! 0) (?f ! 1) = Some (flag_bits (tc_flags c))"
    by (simp add: encode_byte_def hex_pair_byte)
  have "TraceFlags (flag_bits (tc_flags c)) = tc_flags c" by (cases "tc_flags c") simp
  then show ?thesis
    using assms unfolding trace_parse_def split list.case
    by (simp add: len dec flags [simplified] trace_ok_def)
qed

lemma decode_hex_length: "decode_hex n s = Some (Inr bs) \<Longrightarrow> length bs = n"
proof (induction n s arbitrary: bs rule: decode_hex.induct)
  case (2 n a b s)
  then obtain x r where "hex_pair a b = Some x" "decode_hex n s = Some r" "map_sum id (Cons x) r = Inr bs"
    "\<not> (continuation a \<or> (s \<noteq> [] \<and> continuation (hd s)))"
    by (auto split: if_splits option.splits)
  with "2.IH" show ?case by (cases r) auto
qed auto

lemma parse_ok: "trace_parse v = Some (Inr c) \<Longrightarrow> trace_ok c"
  unfolding trace_parse_def
  by (auto split: list.splits if_splits option.splits sum.splits simp: trace_ok_def dest: decode_hex_length)

lemma next_span_id_ok: "length (next_span_id sq) = 8" "\<not> all_zero (next_span_id sq)"
proof -
  have len: "length (be_bytes64 sq) = 8" by (simp add: be_bytes64_def)
  then have "(1 :: 8 word) \<in> set ((be_bytes64 sq)[7 := 1])" by (intro set_update_memI) simp
  then show "length (next_span_id sq) = 8" "\<not> all_zero (next_span_id sq)"
    using len by (auto simp: next_span_id_def all_zero_def list_all_iff Let_def intro: bexI [of _ 1])
qed

lemma next_trace_id_ok: "length (next_trace_id time sq) = 16" "\<not> all_zero (next_trace_id time sq)"
proof -
  let ?bs = "take 8 (be_bytes128 time) @ map2 xor (drop 8 (be_bytes128 time)) (be_bytes64 sq)"
  have len: "length ?bs = 16" by (simp add: be_bytes64_def be_bytes128_def)
  then have "15 < length ?bs" by linarith
  then have "(1 :: 8 word) \<in> set (?bs[15 := 1])" by (rule set_update_memI)
  then have "\<not> all_zero (?bs[15 := 1])" by (auto simp: all_zero_def list_all_iff intro: bexI [of _ 1])
  moreover have "length (?bs[15 := 1]) = 16" using len by (simp only: length_list_update)
  ultimately show "length (next_trace_id time sq) = 16" "\<not> all_zero (next_trace_id time sq)"
    using len unfolding next_trace_id_def Let_def by (simp_all only: split: if_split) simp_all
qed

lemma root_ok: "trace_ok (trace_root flags time s1 s2)"
  by (simp add: trace_ok_def trace_root_def next_span_id_ok next_trace_id_ok)

lemma child_ok: "trace_ok c \<Longrightarrow> trace_ok (trace_child sq c)"
  by (simp add: trace_ok_def trace_child_def next_span_id_ok)

text \<open>
  Trace contexts survive the header. A fresh root context, whatever the clock and the sequence,
  prints as a \<open>traceparent\<close> that parses back to itself; so does every child of a context that was
  itself received, up to the parent span, which the header does not carry; and the child keeps the
  trace identifier and the flags and records the received span as its parent.
\<close>

theorem trace_roundtrip:
  "trace_parse (traceparent (trace_root flags time s1 s2)) = Some (Inr (trace_root flags time s1 s2)) \<and>
   (trace_parse value = Some (Inr c) \<longrightarrow>
     trace_parse (traceparent (trace_child s3 c)) = Some (Inr ((trace_child s3 c)\<lparr>tc_parent_span_id := None\<rparr>)) \<and>
     tc_trace_id (trace_child s3 c) = tc_trace_id c \<and> tc_flags (trace_child s3 c) = tc_flags c \<and>
     tc_parent_span_id (trace_child s3 c) = Some (tc_span_id c))"
  using parse_traceparent [OF root_ok] parse_traceparent [OF child_ok, OF parse_ok]
  by (simp add: trace_root_def) (simp add: trace_child_def)

theorem trace_roundtrip_witness:
  "\<exists>c. trace_parse (traceparent (trace_root (TraceFlags 1) 5 6 7)) = Some (Inr c) \<and>
    tc_parent_span_id (trace_child 8 c) = Some (tc_span_id c)"
  using trace_roundtrip [of "TraceFlags 1" 5 6 7 "traceparent (trace_root (TraceFlags 1) 5 6 7)"] by blast

text \<open>
  The parser is neither strict nor total: it accepts identifiers and flags that are not hexadecimal
  digits but signed numbers, which the header format does not allow, and it panics on a text of the
  right length whose characters do not start at even positions.
\<close>

theorem trace_parse_defects:
  "(\<exists>c. trace_parse (''00-'' @ concat (replicate 16 ''+1'') @ ''-'' @ concat (replicate 8 ''+1'') @ ''-+1'') = Some (Inr c)) \<and>
   trace_parse (''00-a'' @ [CHR 0xC3, CHR 0xA9] @ replicate 29 CHR ''0'' @ ''-'' @ replicate 16 CHR ''1'' @ ''-01'') = None"
proof -
  have "trace_parse (''00-'' @ concat (replicate 16 ''+1'') @ ''-'' @ concat (replicate 8 ''+1'') @ ''-+1'') =
      Some (Inr \<lparr>tc_trace_id = replicate 16 1, tc_span_id = replicate 8 1, tc_parent_span_id = None, tc_flags = TraceFlags 1\<rparr>)"
    by code_simp
  moreover have "trace_parse (''00-a'' @ [CHR 0xC3, CHR 0xA9] @ replicate 29 CHR ''0'' @ ''-'' @ replicate 16 CHR ''1'' @ ''-01'') = None"
    by code_simp
  ultimately show ?thesis by blast
qed

end
