(* ===== verification/Auth.thy ===== *)
theory Auth
  imports Prelude
begin

text \<open>
  \<open>core/src/auth.rs\<close> and \<open>rest/src/auth.rs\<close>: HS256 tokens, claim projection, request signatures, and
  the bearer, token and signature middleware of the REST server. Base64, HMAC-SHA256 and JSON are
  libraries the sources call; their functions are the fields of a record that the definitions take.
\<close>

section \<open>Libraries\<close>

text \<open>
  \<open>hmac_sha256 key message\<close> is \<open>None\<close> when the key is refused; \<open>verify_slice\<close> compares the supplied
  bytes with the whole code. \<open>json_get\<close>, \<open>json_str\<close> and \<open>json_u64\<close> are \<open>Value::get\<close>, \<open>as_str\<close> and
  \<open>as_u64\<close>.
\<close>

record 'j libs =
  b64_encode :: "string \<Rightarrow> string"
  b64_decode :: "string \<Rightarrow> string option"
  hmac_sha256 :: "string \<Rightarrow> string \<Rightarrow> string option"
  json_parse :: "string \<Rightarrow> 'j option"
  json_get :: "'j \<Rightarrow> string \<Rightarrow> 'j option"
  json_str :: "'j \<Rightarrow> string option"
  json_u64 :: "'j \<Rightarrow> nat option"

section \<open>Failures\<close>

datatype jwt_error = Malformed | UnsupportedAlgorithm | InvalidJwtSignature | Expired | JwtNotYetValid | InvalidClaims

datatype auth_failure =
    MissingCredentials
  | MalformedCredentials
  | InvalidCredentials
  | ExpiredCredentials
  | NotYetValid
  | MissingSignature
  | InvalidSignature
  | StaleSignature

fun auth_failure_of :: "jwt_error \<Rightarrow> auth_failure" where
  "auth_failure_of Malformed = MalformedCredentials"
| "auth_failure_of UnsupportedAlgorithm = MalformedCredentials"
| "auth_failure_of InvalidClaims = MalformedCredentials"
| "auth_failure_of InvalidJwtSignature = InvalidCredentials"
| "auth_failure_of Expired = ExpiredCredentials"
| "auth_failure_of JwtNotYetValid = NotYetValid"

fun failure_code :: "auth_failure \<Rightarrow> string" where
  "failure_code MissingCredentials = ''auth_missing_credentials''"
| "failure_code MalformedCredentials = ''auth_malformed_credentials''"
| "failure_code InvalidCredentials = ''auth_invalid_credentials''"
| "failure_code ExpiredCredentials = ''auth_expired_credentials''"
| "failure_code NotYetValid = ''auth_not_yet_valid''"
| "failure_code MissingSignature = ''auth_missing_signature''"
| "failure_code InvalidSignature = ''auth_invalid_signature''"
| "failure_code StaleSignature = ''auth_stale_signature''"

fun failure_message :: "auth_failure \<Rightarrow> string" where
  "failure_message MissingCredentials = ''authentication credentials are required''"
| "failure_message MalformedCredentials = ''authentication credentials are malformed''"
| "failure_message InvalidCredentials = ''authentication credentials are invalid''"
| "failure_message ExpiredCredentials = ''authentication credentials have expired''"
| "failure_message NotYetValid = ''authentication credentials are not yet valid''"
| "failure_message MissingSignature = ''request signature is required''"
| "failure_message InvalidSignature = ''request signature is invalid''"
| "failure_message StaleSignature = ''request signature timestamp is outside the allowed window''"

section \<open>Tokens\<close>

definition mac_matches :: "'j libs \<Rightarrow> string \<Rightarrow> string \<Rightarrow> string \<Rightarrow> bool" where
  "mac_matches l message supplied secret = (hmac_sha256 l secret message = Some supplied)"

definition claim_u64 :: "'j libs \<Rightarrow> 'j \<Rightarrow> string \<Rightarrow> nat option" where
  "claim_u64 l v name = Option.bind (json_get l v name) (json_u64 l)"

text \<open>The checks on the three segments, and the split that precedes them.\<close>

definition decode_segments ::
  "'j libs \<Rightarrow> (string \<Rightarrow> 't option) \<Rightarrow> string \<Rightarrow> string \<Rightarrow> string \<Rightarrow> string list \<Rightarrow> nat \<Rightarrow> nat \<Rightarrow> jwt_error + 't" where
  "decode_segments l from_slice header claims signature secrets leeway_seconds now =
     (case Option.bind (b64_decode l header) (json_parse l) of
        None \<Rightarrow> Inl Malformed
      | Some header_value \<Rightarrow>
          if Option.bind (json_get l header_value ''alg'') (json_str l) \<noteq> Some ''HS256''
          then Inl UnsupportedAlgorithm
          else
            (case b64_decode l signature of
               None \<Rightarrow> Inl Malformed
             | Some supplied \<Rightarrow>
                 if \<not> list_ex (mac_matches l (header @ ''.'' @ claims) supplied) secrets
                 then Inl InvalidJwtSignature
                 else
                   (case b64_decode l claims of
                      None \<Rightarrow> Inl Malformed
                    | Some claim_bytes \<Rightarrow>
                        (case json_parse l claim_bytes of
                           None \<Rightarrow> Inl InvalidClaims
                         | Some claim_value \<Rightarrow>
                             if (case claim_u64 l claim_value ''exp'' of None \<Rightarrow> False
                                 | Some expires \<Rightarrow> sat_add u64_max expires leeway_seconds < now)
                             then Inl Expired
                             else if (case claim_u64 l claim_value ''nbf'' of None \<Rightarrow> False
                                 | Some not_before \<Rightarrow> sat_add u64_max now leeway_seconds < not_before)
                             then Inl JwtNotYetValid
                             else (case from_slice claim_bytes of None \<Rightarrow> Inl InvalidClaims | Some t \<Rightarrow> Inr t)))))"

definition decode_jwt_hs256 ::
  "'j libs \<Rightarrow> (string \<Rightarrow> 't option) \<Rightarrow> string \<Rightarrow> string list \<Rightarrow> nat \<Rightarrow> nat \<Rightarrow> jwt_error + 't" where
  "decode_jwt_hs256 l from_slice token secrets leeway_seconds now =
     (case split_on CHR ''.'' token of
        [header, claims, signature] \<Rightarrow> decode_segments l from_slice header claims signature secrets leeway_seconds now
      | _ \<Rightarrow> Inl Malformed)"

definition jwt_header :: string where
  "jwt_header = ''{\"alg\":\"HS256\",\"typ\":\"JWT\"}''"

definition encode_jwt_hs256 :: "'j libs \<Rightarrow> ('t \<Rightarrow> string option) \<Rightarrow> 't \<Rightarrow> string \<Rightarrow> jwt_error + string" where
  "encode_jwt_hs256 l to_vec claims secret =
     (if secret = [] then Inl InvalidJwtSignature
      else
        (case to_vec claims of
           None \<Rightarrow> Inl InvalidClaims
         | Some bytes \<Rightarrow>
             let signing_input = b64_encode l jwt_header @ ''.'' @ b64_encode l bytes in
             (case hmac_sha256 l secret signing_input of
                None \<Rightarrow> Inl InvalidJwtSignature
              | Some mac \<Rightarrow> Inr (signing_input @ ''.'' @ b64_encode l mac))))"

text \<open>\<open>decode_hs256\<close> and \<open>encode_hs256\<close> of the REST crate have the same bodies, the first with the system clock.\<close>

definition decode_hs256 ::
  "'j libs \<Rightarrow> (string \<Rightarrow> 't option) \<Rightarrow> string \<Rightarrow> string list \<Rightarrow> nat \<Rightarrow> nat \<Rightarrow> jwt_error + 't" where
  "decode_hs256 l from_slice token secrets leeway_seconds now =
     decode_jwt_hs256 l from_slice token secrets leeway_seconds now"

definition encode_hs256 :: "'j libs \<Rightarrow> ('t \<Rightarrow> string option) \<Rightarrow> 't \<Rightarrow> string \<Rightarrow> jwt_error + string" where
  "encode_hs256 l to_vec claims secret = encode_jwt_hs256 l to_vec claims secret"

section \<open>Claim projection\<close>

type_synonym claim_projection = "(string, string) bmap"

definition projection_new :: "(string \<times> string) list \<Rightarrow> claim_projection" where
  "projection_new entries = fold (\<lambda>(k, v). bt_put k v) entries []"

fun json_path :: "'j libs \<Rightarrow> string list \<Rightarrow> 'j \<Rightarrow> 'j option" where
  "json_path l [] v = Some v"
| "json_path l (s # ss) v = Option.bind (json_get l v s) (json_path l ss)"

definition project :: "'j libs \<Rightarrow> claim_projection \<Rightarrow> 'j \<Rightarrow> (string, 'j) bmap" where
  "project l projection claims =
     List.map_filter (\<lambda>(name, path). map_option (Pair name) (json_path l (split_on CHR ''.'' path) claims)) projection"

section \<open>Request signatures\<close>

record request_signature =
  rs_key_id :: string
  rs_timestamp :: int
  rs_signature :: string

record signature_verifier =
  sv_keys :: "(string, string) hmap"
  sv_max_clock_skew :: duration

definition ascii_upper :: "char \<Rightarrow> char" where
  "ascii_upper c = (if 97 \<le> (of_char c :: nat) \<and> (of_char c :: nat) \<le> 122 then char_of (of_char c - 32 :: nat) else c)"

definition ascii_lower :: "char \<Rightarrow> char" where
  "ascii_lower c = (if 65 \<le> (of_char c :: nat) \<and> (of_char c :: nat) \<le> 90 then char_of (of_char c + 32 :: nat) else c)"

abbreviation newline :: char where
  "newline \<equiv> CHR 0x0A"

definition canonical :: "int \<Rightarrow> string \<Rightarrow> string \<Rightarrow> string" where
  "canonical timestamp verb target =
     show_int timestamp @ [newline] @ map ascii_upper verb @ [newline] @ target"

definition sign_request ::
  "'j libs \<Rightarrow> string \<Rightarrow> string \<Rightarrow> int \<Rightarrow> string \<Rightarrow> string \<Rightarrow> auth_failure + request_signature" where
  "sign_request l key_id secret timestamp verb target =
     (if secret = [] \<or> verb = [] \<or> target = [] then Inl InvalidSignature
      else
        (case hmac_sha256 l secret (canonical timestamp verb target) of
           None \<Rightarrow> Inl InvalidSignature
         | Some mac \<Rightarrow> Inr \<lparr>rs_key_id = key_id, rs_timestamp = timestamp, rs_signature = b64_encode l mac\<rparr>))"

definition verifier_new :: "(string \<times> string) list \<Rightarrow> duration \<Rightarrow> auth_failure + signature_verifier" where
  "verifier_new keys max_clock_skew =
     (if max_clock_skew = 0 then Inl InvalidSignature
      else
        let m = fold (\<lambda>(k, v). AList.update k v) keys [] in
        if m = [] \<or> list_ex (\<lambda>(key_id, secret). key_id = [] \<or> secret = []) m then Inl InvalidSignature
        else Inr \<lparr>sv_keys = m, sv_max_clock_skew = max_clock_skew\<rparr>)"

definition verify :: "'j libs \<Rightarrow> request_signature \<Rightarrow> string \<Rightarrow> string \<Rightarrow> int \<Rightarrow> signature_verifier \<Rightarrow> auth_failure + unit" where
  "verify l s verb target now v =
     (if as_secs (sv_max_clock_skew v) < nat \<bar>now - rs_timestamp s\<bar> then Inl StaleSignature
      else
        (case map_of (sv_keys v) (rs_key_id s) of
           None \<Rightarrow> Inl InvalidSignature
         | Some secret \<Rightarrow>
             (case b64_decode l (rs_signature s) of
                None \<Rightarrow> Inl InvalidSignature
              | Some supplied \<Rightarrow>
                  if mac_matches l (canonical (rs_timestamp s) verb target) supplied secret
                  then Inr () else Inl InvalidSignature)))"

section \<open>Middleware of the REST server\<close>

text \<open>
  A request as the middleware sees it: the value of a header as text (\<open>headers().get(name)\<close> followed by
  \<open>to_str\<close>) and the extensions earlier middleware installed. The text of a header is ASCII, where
  \<open>char::is_whitespace\<close> holds of the tab, line feed, vertical tab, form feed, carriage return and space.
\<close>

record ('t, 'j) request =
  rq_method :: string
  rq_target :: string
  rq_header :: "string \<Rightarrow> string option"
  rq_claims :: "'t option"
  rq_projected :: "(string, 'j) bmap option"
  rq_key_id :: "string option"

datatype 'r reply = Unauthorized auth_failure string | Reply 'r

definition ws :: "char \<Rightarrow> bool" where
  "ws c = ascii_ws (of_char c)"

definition trim :: "string \<Rightarrow> string" where
  "trim s = rev (dropWhile ws (rev (dropWhile ws s)))"

definition bearer_token :: "string \<Rightarrow> string option" where
  "bearer_token value =
     (case dropWhile (\<lambda>c. \<not> ws c) value of
        [] \<Rightarrow> None
      | _ # rest \<Rightarrow>
          let scheme = takeWhile (\<lambda>c. \<not> ws c) value; token = trim rest in
          if map ascii_lower scheme = ''bearer'' \<and> token \<noteq> [] \<and> \<not> list_ex ws token then Some token else None)"

definition credentials :: "('t, 'j) request \<Rightarrow> string option" where
  "credentials q = Option.bind (rq_header q ''authorization'') bearer_token"

definition bearer_auth_call ::
  "(string \<Rightarrow> 't option) \<Rightarrow> string \<Rightarrow> (('t, 'j) request \<Rightarrow> 'r) \<Rightarrow> ('t, 'j) request \<Rightarrow> 'r reply" where
  "bearer_auth_call validator challenge service q =
     (case Option.bind (credentials q) validator of
        None \<Rightarrow> Unauthorized InvalidCredentials challenge
      | Some identity \<Rightarrow> Reply (service (q\<lparr>rq_claims := Some identity\<rparr>)))"

record jwt_auth =
  ja_secrets :: "string list"
  ja_leeway_seconds :: nat
  ja_challenge :: string
  ja_projection :: claim_projection

definition jwt_auth_new :: "string \<Rightarrow> jwt_auth option" where
  "jwt_auth_new secret =
     (if secret = [] then None
      else Some \<lparr>ja_secrets = [secret], ja_leeway_seconds = 0, ja_challenge = ''Bearer'', ja_projection = []\<rparr>)"

definition with_previous_secret :: "string \<Rightarrow> jwt_auth \<Rightarrow> jwt_auth option" where
  "with_previous_secret secret a = (if secret = [] then None else Some (a\<lparr>ja_secrets := ja_secrets a @ [secret]\<rparr>))"

definition jwt_auth_call ::
  "'j libs \<Rightarrow> (string \<Rightarrow> 't option) \<Rightarrow> nat \<Rightarrow> jwt_auth \<Rightarrow> (('t, 'j) request \<Rightarrow> 'r) \<Rightarrow> ('t, 'j) request \<Rightarrow> 'r reply" where
  "jwt_auth_call l from_slice now a service q =
     (case credentials q of
        None \<Rightarrow> Unauthorized MissingCredentials (ja_challenge a)
      | Some token \<Rightarrow>
          (case decode_hs256 l from_slice token (ja_secrets a) (ja_leeway_seconds a) now of
             Inl er \<Rightarrow> Unauthorized (auth_failure_of er) (ja_challenge a)
           | Inr claims \<Rightarrow>
               let projected =
                 (case decode_hs256 l (json_parse l) token (ja_secrets a) (ja_leeway_seconds a) now of
                    Inl _ \<Rightarrow> []
                  | Inr value \<Rightarrow> project l (ja_projection a) value) in
               Reply (service (q\<lparr>rq_projected := Some projected, rq_claims := Some claims\<rparr>))))"

text \<open>\<open>str::parse::<i64>\<close>: an optional sign and decimal digits that stay in range.\<close>

definition is_digit :: "char \<Rightarrow> bool" where
  "is_digit c = (48 \<le> (of_char c :: nat) \<and> (of_char c :: nat) \<le> 57)"

definition digits_value :: "string \<Rightarrow> nat" where
  "digits_value ds = foldl (\<lambda>n c. 10 * n + (of_char c - 48)) 0 ds"

definition parse_i64 :: "string \<Rightarrow> int option" where
  "parse_i64 s =
     (let (neg, ds) = (case s of CHR ''-'' # ds \<Rightarrow> (True, ds) | CHR ''+'' # ds \<Rightarrow> (False, ds) | _ \<Rightarrow> (False, s));
          i = (if neg then - int (digits_value ds) else int (digits_value ds)) in
      if ds = [] \<or> \<not> list_all is_digit ds \<or> i < - (2 ^ 63) \<or> 2 ^ 63 - 1 < i then None else Some i)"

definition parse_signature :: "('t, 'j) request \<Rightarrow> auth_failure + request_signature" where
  "parse_signature q =
     (case rq_header q ''x-rust-zero-key-id'' of
        None \<Rightarrow> Inl MissingSignature
      | Some key_id \<Rightarrow>
          (case rq_header q ''x-rust-zero-timestamp'' of
             None \<Rightarrow> Inl MissingSignature
           | Some text \<Rightarrow>
               (case parse_i64 text of
                  None \<Rightarrow> Inl InvalidSignature
                | Some timestamp \<Rightarrow>
                    (case rq_header q ''x-rust-zero-signature'' of
                       None \<Rightarrow> Inl MissingSignature
                     | Some signature \<Rightarrow>
                         Inr \<lparr>rs_key_id = key_id, rs_timestamp = timestamp, rs_signature = signature\<rparr>))))"

definition signature_auth_call ::
  "'j libs \<Rightarrow> int \<Rightarrow> signature_verifier \<Rightarrow> (('t, 'j) request \<Rightarrow> 'r) \<Rightarrow> ('t, 'j) request \<Rightarrow> 'r reply" where
  "signature_auth_call l now v service q =
     (case parse_signature q of
        Inl failure \<Rightarrow> Unauthorized failure ''Bearer''
      | Inr s \<Rightarrow>
          (case verify l s (rq_method q) (rq_target q) now v of
             Inl failure \<Rightarrow> Unauthorized failure ''Bearer''
           | Inr _ \<Rightarrow> Reply (service (q\<lparr>rq_key_id := Some (rs_key_id s)\<rparr>))))"

section \<open>What the libraries promise\<close>

definition base64_ok :: "'j libs \<Rightarrow> bool" where
  "base64_ok l \<longleftrightarrow> (\<forall>s. b64_decode l (b64_encode l s) = Some s \<and> CHR ''.'' \<notin> set (b64_encode l s))"

definition header_ok :: "'j libs \<Rightarrow> bool" where
  "header_ok l \<longleftrightarrow>
     (\<exists>v a. json_parse l jwt_header = Some v \<and> json_get l v ''alg'' = Some a \<and> json_str l a = Some ''HS256'')"

text \<open>
  A token decodes to what was encoded, in its validity window and nowhere else: a token encoded with
  one of the accepted secrets is refused as expired exactly when the clock is past \<open>exp\<close> plus the
  leeway, as not yet valid exactly when the clock plus the leeway is before \<open>nbf\<close>, and otherwise yields
  the encoded claims. Assumed: base64 decodes what it encoded and produces no dot, the JSON parser reads
  the fixed header, and \<open>from_slice\<close> reads what \<open>to_vec\<close> wrote.
\<close>

theorem jwt_roundtrip:
  assumes "base64_ok l" and "header_ok l"
    and "to_vec t = Some bytes" and "from_slice bytes = Some t" and "json_parse l bytes = Some v"
    and "encode_jwt_hs256 l to_vec t secret = Inr token" and "secret \<in> set secrets"
  shows "decode_jwt_hs256 l from_slice token secrets leeway now =
    (if \<exists>e. claim_u64 l v ''exp'' = Some e \<and> sat_add u64_max e leeway < now then Inl Expired
     else if \<exists>b. claim_u64 l v ''nbf'' = Some b \<and> sat_add u64_max now leeway < b then Inl JwtNotYetValid
     else Inr t)"
proof -
  obtain mac where mac: "hmac_sha256 l secret (b64_encode l jwt_header @ ''.'' @ b64_encode l bytes) = Some mac"
    and token: "token = b64_encode l jwt_header @ ''.'' @ b64_encode l bytes @ ''.'' @ b64_encode l mac"
    using assms(3,6) by (auto simp: encode_jwt_hs256_def Let_def split: if_splits option.splits)
  have b: "b64_decode l (b64_encode l s) = Some s" "CHR ''.'' \<notin> set (b64_encode l s)" for s
    using assms(1) by (simp_all add: base64_ok_def)
  have split: "split_on CHR ''.'' token = [b64_encode l jwt_header, b64_encode l bytes, b64_encode l mac]"
    unfolding token by (simp add: split_on_append split_on_no_sep b(2))
  have "list_ex (mac_matches l (b64_encode l jwt_header @ ''.'' @ b64_encode l bytes) mac) secrets"
    using assms(7) mac by (auto simp: list_ex_iff mac_matches_def)
  with assms(2,4,5) split b show ?thesis
    unfolding decode_jwt_hs256_def decode_segments_def header_ok_def by (auto split: option.splits)
qed

lemma three_segments:
  "(case xs of [a, b, c] \<Rightarrow> f a b c | _ \<Rightarrow> Inl er) = Inr t \<Longrightarrow> \<exists>a b c. xs = [a, b, c]"
  by (auto split: list.splits)


section \<open>A signature is bound to its request\<close>

lemma append_sep_inject:
  "c \<notin> set xs \<Longrightarrow> c \<notin> set ys \<Longrightarrow> xs @ c # us = ys @ c # vs \<longleftrightarrow> xs = ys \<and> us = vs"
proof (induction xs arbitrary: ys)
  case (Cons x xs)
  then show ?case by (cases ys) auto
next
  case Nil
  then show ?case by (cases ys) auto
qed

lemma digit_char_bounds: "d < 10 \<Longrightarrow> 48 \<le> (of_char (digit_char d) :: nat) \<and> (of_char (digit_char d) :: nat) \<le> 57"
  by (simp add: digit_char_def)

lemma show_nat_bounds: "c \<in> set (show_nat n) \<Longrightarrow> 48 \<le> (of_char c :: nat)"
  using show_nat_digits digit_char_bounds by blast

lemma newline_code: "(of_char newline :: nat) = 10" "(of_char (CHR ''-'') :: nat) = 45"
  by simp_all

lemma newline_show_int: "newline \<notin> set (show_int i)"
  using show_nat_bounds [of newline] by (auto simp: show_int_def)

lemma minus_show_nat: "CHR ''-'' # xs \<noteq> show_nat n"
proof
  assume "CHR ''-'' # xs = show_nat n"
  then have "CHR ''-'' \<in> set (show_nat n)" by (metis list.set_intros(1))
  from show_nat_bounds [OF this] show False by simp
qed

lemma show_int_inject: "show_int i = show_int j \<longleftrightarrow> i = j"
proof
  assume eq: "show_int i = show_int j"
  consider "i < 0" "j < 0" | "0 \<le> i" "0 \<le> j" | "i < 0" "0 \<le> j" | "0 \<le> i" "j < 0" by linarith
  then show "i = j"
  proof cases
    case 1
    then have "nat (- i) = nat (- j)" using eq by (intro show_nat_inj) (simp add: show_int_def)
    with 1 show ?thesis by simp
  next
    case 2
    then have "nat i = nat j" using eq by (intro show_nat_inj) (simp add: show_int_def)
    with 2 show ?thesis by simp
  next
    case 3
    then show ?thesis using eq minus_show_nat by (simp add: show_int_def)
  next
    case 4
    then show ?thesis using eq minus_show_nat by (metis leD show_int_def)
  qed
qed simp

lemma newline_upper: "newline \<in> set (map ascii_upper verb) \<Longrightarrow> newline \<in> set verb"
proof -
  have "c = newline" if "ascii_upper c = newline" for c
  proof (cases "97 \<le> (of_char c :: nat) \<and> (of_char c :: nat) \<le> 122")
    case True
    then have "(of_char c - 32 :: nat) < 256" by linarith
    with True have "(of_char (ascii_upper c) :: nat) = of_char c - 32" by (simp add: ascii_upper_def)
    then have "(of_char c - 32 :: nat) = 10" using that by simp
    with True show ?thesis by linarith
  next
    case False
    then show ?thesis using that unfolding ascii_upper_def if_not_P [OF False] by blast
  qed
  then show "newline \<in> set (map ascii_upper verb) \<Longrightarrow> newline \<in> set verb" by (metis (no_types, lifting) imageE list.set_map)
qed

lemma canonical_inject:
  assumes "newline \<notin> set verb" "newline \<notin> set verb'"
  shows "canonical ts verb target = canonical ts' verb' target' \<longleftrightarrow>
    ts = ts' \<and> map ascii_upper verb = map ascii_upper verb' \<and> target = target'"
proof -
  have "newline \<notin> set (map ascii_upper verb)" "newline \<notin> set (map ascii_upper verb')"
    using assms newline_upper by blast+
  then show ?thesis
    by (simp add: canonical_def append_sep_inject newline_show_int show_int_inject del: set_map)
qed

text \<open>
  C35. A signature is good for its own request only. A request signed under a key the verifier knows is
  accepted exactly when the clock is within the allowed skew of its timestamp and the method (up to
  letter case) and target are the signed ones. Assumed: base64 decodes what it encoded, methods contain
  no line feed, and the two canonical texts are not a collision of HMAC-SHA256.
\<close>

theorem signature_binding:
  assumes "base64_ok l" and "newline \<notin> set verb" and "newline \<notin> set verb'"
    and "sign_request l key_id secret ts verb target = Inr s"
    and "map_of (sv_keys v) key_id = Some secret"
    and "hmac_sha256 l secret (canonical ts verb' target') = hmac_sha256 l secret (canonical ts verb target) \<Longrightarrow>
      canonical ts verb' target' = canonical ts verb target"
  shows "verify l s verb' target' now v = Inr () \<longleftrightarrow>
    nat \<bar>now - ts\<bar> \<le> as_secs (sv_max_clock_skew v) \<and> map ascii_upper verb' = map ascii_upper verb \<and> target' = target"
proof -
  obtain mac where mac: "hmac_sha256 l secret (canonical ts verb target) = Some mac"
    and s: "s = \<lparr>rs_key_id = key_id, rs_timestamp = ts, rs_signature = b64_encode l mac\<rparr>"
    using assms(4) by (auto simp: sign_request_def split: if_splits option.splits)
  have "mac_matches l (canonical ts verb' target') mac secret \<longleftrightarrow>
      map ascii_upper verb' = map ascii_upper verb \<and> target' = target"
    using mac assms(6) canonical_inject [OF assms(3,2), of ts target' ts target] by (auto simp: mac_matches_def)
  then show ?thesis
    using assms(1,5) by (auto simp: verify_def s base64_ok_def)
qed

section \<open>Witnesses\<close>

text \<open>Libraries that meet the assumptions: a code that writes every byte as itself or escaped, and keyed concatenation.\<close>

definition dot_escape :: "string \<Rightarrow> string" where
  "dot_escape s = concat (map (\<lambda>c. if c = CHR ''.'' then ''~d'' else if c = CHR ''~'' then ''~t'' else [c]) s)"

fun dot_unescape :: "string \<Rightarrow> string" where
  "dot_unescape [] = []"
| "dot_unescape [c] = [c]"
| "dot_unescape (c # d # s) =
     (if c = CHR ''~'' then (if d = CHR ''d'' then CHR ''.'' else CHR ''~'') # dot_unescape s
      else c # dot_unescape (d # s))"

definition example_libs :: "string libs" where
  "example_libs =
     \<lparr>b64_encode = dot_escape, b64_decode = (\<lambda>s. Some (dot_unescape s)),
      hmac_sha256 = (\<lambda>k m. Some (k @ m)), json_parse = Some,
      json_get = (\<lambda>v name. if name = ''alg'' then Some ''HS256'' else None),
      json_str = Some, json_u64 = (\<lambda>_. None)\<rparr>"

lemma dot_unescape_Cons: "c \<noteq> CHR ''~'' \<Longrightarrow> dot_unescape (c # s) = c # dot_unescape s"
  by (cases s) auto

lemma dot_unescape_escape: "dot_unescape (dot_escape s) = s"
  by (induction s) (auto simp: dot_escape_def dot_unescape_Cons)

lemma dot_escape_no_dot: "CHR ''.'' \<notin> set (dot_escape s)"
  by (auto simp: dot_escape_def)

lemma example_libs_ok: "base64_ok example_libs" "header_ok example_libs"
  by (simp_all add: base64_ok_def header_ok_def example_libs_def dot_unescape_escape dot_escape_no_dot)

theorem jwt_roundtrip_witness:
  "\<exists>token. encode_jwt_hs256 example_libs Some ''user'' ''key'' = Inr token \<and>
    decode_jwt_hs256 example_libs Some token [''old'', ''key''] 0 100 = Inr ''user''"
proof -
  obtain token where token: "encode_jwt_hs256 example_libs Some ''user'' ''key'' = Inr token"
    by (simp add: encode_jwt_hs256_def example_libs_def)
  have parse: "json_parse example_libs ''user'' = Some ''user''" by (simp add: example_libs_def)
  have no_claims: "claim_u64 example_libs v n = None" for v n by (simp add: claim_u64_def example_libs_def)
  from jwt_roundtrip [OF example_libs_ok _ _ parse token, where from_slice = Some and secrets = "[''old'', ''key'']"
      and leeway = 0 and now = 100]
  show ?thesis using token by (simp add: no_claims)
qed


theorem signature_binding_witness:
  "\<exists>s v. sign_request example_libs ''k1'' ''key'' 1000 ''post'' ''/v1/jobs?a=1'' = Inr s \<and>
    verify example_libs s ''POST'' ''/v1/jobs?a=1'' 1020 v = Inr () \<and>
    verify example_libs s ''POST'' ''/v1/jobs?a=2'' 1020 v \<noteq> Inr () \<and>
    verify example_libs s ''POST'' ''/v1/jobs?a=1'' 1031 v \<noteq> Inr ()"
proof -
  let ?v = "\<lparr>sv_keys = [(''k1'', ''key'')], sv_max_clock_skew = 30 * nanos_per_sec\<rparr>"
  obtain s where s: "sign_request example_libs ''k1'' ''key'' 1000 ''post'' ''/v1/jobs?a=1'' = Inr s"
    by (simp add: sign_request_def example_libs_def)
  have key: "map_of (sv_keys ?v) ''k1'' = Some ''key''" by simp
  have inj: "hmac_sha256 example_libs k m = hmac_sha256 example_libs k m' \<Longrightarrow> m = m'" for k m m'
    by (simp add: example_libs_def)
  note bind = signature_binding [OF example_libs_ok(1) _ _ s key inj, where verb' = "''POST''"]
  have "map ascii_upper ''POST'' = map ascii_upper ''post''" by code_simp
  then show ?thesis
    using s bind [where target' = "''/v1/jobs?a=1''" and now = 1020] bind [where target' = "''/v1/jobs?a=2''" and now = 1020]
      bind [where target' = "''/v1/jobs?a=1''" and now = 1031]
    by (intro exI [of _ s] exI [of _ ?v]) (simp add: as_secs_def nanos_per_sec_def)
qed

end
