(* ===== verification/Route.thy ===== *)
theory Route
  imports Auth
begin

text \<open>
  \<open>rest/src/route.rs\<close>: declarative route groups, their compilation into policies, and the middleware
  that enforces a policy on a request. Parsing a method name (\<open>Method::from_bytes\<close>), the wrapped
  service and the registered application middleware are arguments.
\<close>

section \<open>Configuration\<close>

record route_jwt_config =
  rj_secret :: string
  rj_previous_secret :: "string option"
  rj_leeway_seconds :: nat
  rj_claim_projection :: claim_projection

record route_policy_config =
  rp_method :: string
  rp_path :: string
  rp_public :: bool
  rp_jwt :: "route_jwt_config option"
  rp_timeout_ms :: "nat option"
  rp_max_body_bytes :: "nat option"
  rp_priority :: "bool option"
  rp_sse :: "bool option"

record route_group_config =
  gp_prefix :: string
  gp_jwt :: "route_jwt_config option"
  gp_timeout_ms :: "nat option"
  gp_max_body_bytes :: "nat option"
  gp_priority :: bool
  gp_sse :: bool
  gp_middleware :: "string list"
  gp_routes :: "route_policy_config list"

record compiled_policy =
  cp_method :: string
  cp_pattern :: string
  cp_jwt_secrets :: "string list option"
  cp_jwt_leeway_seconds :: nat
  cp_jwt_claim_projection :: claim_projection
  cp_timeout :: "duration option"
  cp_max_body_bytes :: "nat option"
  cp_priority :: bool
  cp_sse :: bool
  cp_middleware :: "string list"

record request_policy =
  qp_timeout :: "duration option"
  qp_max_body_bytes :: "nat option"
  qp_priority :: bool
  qp_sse :: bool

text \<open>One constructor per message of the source.\<close>

datatype route_error =
    EmptyPathWithoutPrefix
  | RelativePath string
  | PublicWithJwt string
  | InvalidMethod string
  | DuplicatePolicy string string
  | EmptyMiddlewareName
  | DuplicateMiddleware string
  | RelativePrefix string
  | ZeroTimeout
  | ZeroBody
  | EmptySecret
  | EmptyPreviousSecret
  | UnregisteredMiddleware string

section \<open>Validation\<close>

fun validate_names :: "string set \<Rightarrow> string list \<Rightarrow> route_error + unit" where
  "validate_names seen [] = Inr ()"
| "validate_names seen (name # names) =
     (if is_blank name then Inl EmptyMiddlewareName
      else if name \<in> seen then Inl (DuplicateMiddleware name)
      else validate_names (insert name seen) names)"

definition validate_middleware_names :: "string list \<Rightarrow> route_error + unit" where
  "validate_middleware_names names = validate_names {} names"

definition starts_with_slash :: "string \<Rightarrow> bool" where
  "starts_with_slash s = (case s of [] \<Rightarrow> False | c # _ \<Rightarrow> c = CHR ''/'')"

definition validate_prefix :: "string \<Rightarrow> route_error + unit" where
  "validate_prefix prefix =
     (if prefix \<noteq> [] \<and> \<not> starts_with_slash prefix then Inl (RelativePrefix prefix) else Inr ())"

definition validate_optional_limits :: "nat option \<Rightarrow> nat option \<Rightarrow> route_error + unit" where
  "validate_optional_limits timeout_ms max_body_bytes =
     (if timeout_ms = Some 0 then Inl ZeroTimeout
      else if max_body_bytes = Some 0 then Inl ZeroBody else Inr ())"

definition validate_jwt :: "route_jwt_config \<Rightarrow> route_error + unit" where
  "validate_jwt jwt =
     (if rj_secret jwt = [] then Inl EmptySecret
      else if rj_previous_secret jwt = Some [] then Inl EmptyPreviousSecret else Inr ())"

definition validate_jwt_option :: "route_jwt_config option \<Rightarrow> route_error + unit" where
  "validate_jwt_option jwt = (case jwt of None \<Rightarrow> Inr () | Some j \<Rightarrow> validate_jwt j)"

definition jwt_secrets :: "route_jwt_config \<Rightarrow> string list" where
  "jwt_secrets jwt = rj_secret jwt # (case rj_previous_secret jwt of None \<Rightarrow> [] | Some p \<Rightarrow> [p])"

definition trim_end_slashes :: "string \<Rightarrow> string" where
  "trim_end_slashes s = rev (dropWhile (\<lambda>c. c = CHR ''/'') (rev s))"

definition join_route :: "string \<Rightarrow> string \<Rightarrow> string" where
  "join_route prefix path =
     (if path = [] then prefix
      else if prefix = [] \<or> prefix = ''/'' then path
      else trim_end_slashes prefix @ path)"

section \<open>Compilation\<close>

definition option_or :: "'a option \<Rightarrow> 'a option \<Rightarrow> 'a option" where
  "option_or a b = (case a of None \<Rightarrow> b | Some _ \<Rightarrow> a)"

definition unwrap_or :: "'a \<Rightarrow> 'a option \<Rightarrow> 'a" where
  "unwrap_or d a = (case a of None \<Rightarrow> d | Some v \<Rightarrow> v)"

definition effective_jwt :: "route_group_config \<Rightarrow> route_policy_config \<Rightarrow> route_jwt_config option" where
  "effective_jwt g r = (if rp_public r then None else option_or (rp_jwt r) (gp_jwt g))"

definition compiled :: "route_group_config \<Rightarrow> route_policy_config \<Rightarrow> string \<Rightarrow> compiled_policy" where
  "compiled g r m =
     (let jwt = effective_jwt g r; sse = unwrap_or (gp_sse g) (rp_sse r) in
      \<lparr>cp_method = m,
       cp_pattern = join_route (gp_prefix g) (rp_path r),
       cp_jwt_secrets = map_option jwt_secrets jwt,
       cp_jwt_leeway_seconds = (case jwt of None \<Rightarrow> 0 | Some j \<Rightarrow> rj_leeway_seconds j),
       cp_jwt_claim_projection = (case jwt of None \<Rightarrow> [] | Some j \<Rightarrow> rj_claim_projection j),
       cp_timeout = (if sse then None else map_option duration_from_millis (option_or (rp_timeout_ms r) (gp_timeout_ms g))),
       cp_max_body_bytes = option_or (rp_max_body_bytes r) (gp_max_body_bytes g),
       cp_priority = unwrap_or (gp_priority g) (rp_priority r),
       cp_sse = sse,
       cp_middleware = gp_middleware g\<rparr>)"

definition policy_key :: "compiled_policy \<Rightarrow> string \<times> string" where
  "policy_key p = (cp_method p, cp_pattern p)"

text \<open>One round of the inner loop: the compiled policy, unless a check fails.\<close>

definition compile_route ::
  "(string \<Rightarrow> string option) \<Rightarrow> route_group_config \<Rightarrow> route_policy_config \<Rightarrow> (string \<times> string) set \<Rightarrow> route_error + compiled_policy" where
  "compile_route method_of g r seen =
     (if rp_path r = [] \<and> gp_prefix g = [] then Inl EmptyPathWithoutPrefix
      else if rp_path r \<noteq> [] \<and> \<not> starts_with_slash (rp_path r) then Inl (RelativePath (rp_path r))
      else and_then (validate_optional_limits (rp_timeout_ms r) (rp_max_body_bytes r)) (\<lambda>_.
        and_then (validate_jwt_option (rp_jwt r)) (\<lambda>_.
          if rp_public r \<and> rp_jwt r \<noteq> None then Inl (PublicWithJwt (rp_path r))
          else
            (case method_of (rp_method r) of
               None \<Rightarrow> Inl (InvalidMethod (rp_method r))
             | Some m \<Rightarrow>
                 if (m, join_route (gp_prefix g) (rp_path r)) \<in> seen
                 then Inl (DuplicatePolicy m (join_route (gp_prefix g) (rp_path r)))
                 else Inr (compiled g r m)))))"

fun compile_routes ::
  "(string \<Rightarrow> string option) \<Rightarrow> route_group_config \<Rightarrow> route_policy_config list \<Rightarrow> compiled_policy list \<Rightarrow> route_error + compiled_policy list" where
  "compile_routes method_of g [] acc = Inr acc"
| "compile_routes method_of g (r # rs) acc =
     and_then (compile_route method_of g r (policy_key ` set acc)) (\<lambda>p. compile_routes method_of g rs (acc @ [p]))"

fun compile_groups ::
  "(string \<Rightarrow> string option) \<Rightarrow> route_group_config list \<Rightarrow> compiled_policy list \<Rightarrow> route_error + compiled_policy list" where
  "compile_groups method_of [] acc = Inr acc"
| "compile_groups method_of (g # gs) acc =
     and_then (validate_prefix (gp_prefix g)) (\<lambda>_.
     and_then (validate_optional_limits (gp_timeout_ms g) (gp_max_body_bytes g)) (\<lambda>_.
     and_then (validate_middleware_names (gp_middleware g)) (\<lambda>_.
     and_then (validate_jwt_option (gp_jwt g)) (\<lambda>_.
     and_then (compile_routes method_of g (gp_routes g) acc) (compile_groups method_of gs)))))"

definition compile :: "(string \<Rightarrow> string option) \<Rightarrow> route_group_config list \<Rightarrow> route_error + compiled_policy list" where
  "compile method_of groups = compile_groups method_of groups []"

section \<open>Enforcement\<close>

record ('t, 'j) route_request = "('t, 'j) request" +
  rr_path :: string
  rr_match_pattern :: "string option"
  rr_policy :: "request_policy option"

record 'b response =
  rs_headers :: "(string, string) hmap"
  rs_body :: 'b

type_synonym ('j, 'b, 'x) handler = "('j, 'j) route_request \<Rightarrow> 'x + 'b response"

type_synonym ('j, 'b, 'x) route_middleware = "('j, 'j) route_request \<Rightarrow> ('j, 'b, 'x) handler \<Rightarrow> 'x + 'b response"

record 'm route_policies =
  ro_routes :: "compiled_policy list"
  ro_middleware :: "(string, 'm) hmap"

fun missing_name :: "(string, 'm) hmap \<Rightarrow> compiled_policy list \<Rightarrow> string option" where
  "missing_name reg [] = None"
| "missing_name reg (p # ps) =
     (case find (\<lambda>n. map_of reg n = None) (cp_middleware p) of Some n \<Rightarrow> Some n | None \<Rightarrow> missing_name reg ps)"

definition with_middleware ::
  "(string, 'm) hmap \<Rightarrow> compiled_policy list \<Rightarrow> route_error + 'm route_policies" where
  "with_middleware reg routes =
     (case missing_name reg routes of
        Some n \<Rightarrow> Inl (UnregisteredMiddleware n)
      | None \<Rightarrow> Inr \<lparr>ro_routes = routes, ro_middleware = reg\<rparr>)"

definition find_policy :: "string \<Rightarrow> string \<Rightarrow> 'm route_policies \<Rightarrow> compiled_policy option" where
  "find_policy m pattern ps = find (\<lambda>p. cp_method p = m \<and> cp_pattern p = pattern) (ro_routes ps)"

text \<open>The part of \<open>call\<close> that runs before the chain: the request it passes on, or the failure.\<close>

definition authorize ::
  "'j libs \<Rightarrow> nat \<Rightarrow> compiled_policy option \<Rightarrow> ('j, 'j, 'm) route_request_scheme \<Rightarrow>
     auth_failure + ('j, 'j, 'm) route_request_scheme" where
  "authorize l now policy q =
     (case policy of
        None \<Rightarrow> Inr q
      | Some p \<Rightarrow>
          and_then
            (case cp_jwt_secrets p of
               None \<Rightarrow> Inr q
             | Some secrets \<Rightarrow>
                 (case Option.bind (rq_header q ''authorization'') bearer_token of
                    None \<Rightarrow> Inl MissingCredentials
                  | Some token \<Rightarrow>
                      (case decode_hs256 l (json_parse l) token secrets (cp_jwt_leeway_seconds p) now of
                         Inl er \<Rightarrow> Inl (auth_failure_of er)
                       | Inr claims \<Rightarrow>
                           Inr (q\<lparr>rq_projected := Some (project l (cp_jwt_claim_projection p) claims),
                                  rq_claims := Some claims\<rparr>))))
            (\<lambda>q1. Inr (q1\<lparr>rr_policy := Some \<lparr>qp_timeout = cp_timeout p, qp_max_body_bytes = cp_max_body_bytes p,
                                              qp_priority = cp_priority p, qp_sse = cp_sse p\<rparr>\<rparr>)))"

text \<open>The chain around the service, innermost last; \<open>None\<close> when a name is not registered (a panic).\<close>

fun build_chain ::
  "(string, 'q \<Rightarrow> ('q \<Rightarrow> 'r) \<Rightarrow> 'r) hmap \<Rightarrow> string list \<Rightarrow> ('q \<Rightarrow> 'r) \<Rightarrow> ('q \<Rightarrow> 'r) option" where
  "build_chain reg [] service = Some service"
| "build_chain reg (n # ns) service =
     Option.bind (build_chain reg ns service) (\<lambda>next.
       map_option (\<lambda>mw q. mw q next) (map_of reg n))"

definition sse_headers :: "(string, string) hmap \<Rightarrow> (string, string) hmap" where
  "sse_headers h =
     AList.update ''x-accel-buffering'' ''no''
       (AList.update ''cache-control'' ''no-cache, no-transform''
         (AList.update ''content-type'' ''text/event-stream'' h))"

definition route_call ::
  "'j libs \<Rightarrow> nat \<Rightarrow> ('j, 'b, 'x) route_middleware route_policies \<Rightarrow> ('j, 'b, 'x) handler \<Rightarrow> ('j, 'j) route_request \<Rightarrow>
     ('x + 'b response) reply option" where
  "route_call l now ps service q =
     (let pattern = unwrap_or (rr_path q) (rr_match_pattern q);
          policy = find_policy (rq_method q) pattern ps in
      case authorize l now policy q of
        Inl failure \<Rightarrow> Some (Unauthorized failure ''Bearer'')
      | Inr q1 \<Rightarrow>
          map_option
            (\<lambda>chain. Reply
               (case chain q1 of
                  Inl er \<Rightarrow> Inl er
                | Inr response \<Rightarrow>
                    Inr (if (case policy of None \<Rightarrow> False | Some p \<Rightarrow> cp_sse p)
                         then response\<lparr>rs_headers := sse_headers (rs_headers response)\<rparr> else response)))
            (build_chain (ro_middleware ps) (case policy of None \<Rightarrow> [] | Some p \<Rightarrow> cp_middleware p) service))"

section \<open>What compilation guarantees\<close>

lemma compile_route_Inr:
  assumes "compile_route method_of g r seen = Inr p"
  shows "\<exists>m. method_of (rp_method r) = Some m \<and> p = compiled g r m" and "policy_key p \<notin> seen"
  using assms
  by (auto simp: compile_route_def and_then_Inr compiled_def policy_key_def Let_def split: if_splits option.splits)

text \<open>The policies of a list of routes, and that no two policies share a method and a pattern.\<close>

definition covers :: "(string \<Rightarrow> string option) \<Rightarrow> compiled_policy list \<Rightarrow> route_group_config \<Rightarrow> route_policy_config \<Rightarrow> bool" where
  "covers method_of ps g r \<longleftrightarrow> (\<exists>m. method_of (rp_method r) = Some m \<and> compiled g r m \<in> set ps)"

lemma covers_mono: "covers method_of ps g r \<Longrightarrow> set ps \<subseteq> set ps' \<Longrightarrow> covers method_of ps' g r"
  by (auto simp: covers_def)

lemma compile_routes_ok:
  "compile_routes method_of g rs acc = Inr out \<Longrightarrow> distinct (map policy_key acc) \<Longrightarrow>
   distinct (map policy_key out) \<and> set acc \<subseteq> set out \<and> (\<forall>r \<in> set rs. covers method_of out g r)"
proof (induction method_of g rs acc rule: compile_routes.induct)
  case (2 method_of g r rs acc)
  then obtain p where p: "compile_route method_of g r (policy_key ` set acc) = Inr p"
    "compile_routes method_of g rs (acc @ [p]) = Inr out"
    by (auto simp: and_then_Inr)
  note cr = compile_route_Inr [OF p(1)]
  have "distinct (map policy_key (acc @ [p]))" using "2.prems"(2) cr(2) by simp
  from "2.IH" [OF p(2) this] cr(1) show ?case by (auto simp: covers_def)
qed simp

lemma compile_groups_ok:
  "compile_groups method_of gs acc = Inr out \<Longrightarrow> distinct (map policy_key acc) \<Longrightarrow>
   distinct (map policy_key out) \<and> set acc \<subseteq> set out \<and>
   (\<forall>g \<in> set gs. \<forall>r \<in> set (gp_routes g). covers method_of out g r)"
proof (induction gs arbitrary: acc)
  case (Cons g gs)
  then obtain mid where mid: "compile_routes method_of g (gp_routes g) acc = Inr mid" "compile_groups method_of gs mid = Inr out"
    by (auto simp: and_then_Inr)
  note first = compile_routes_ok [OF mid(1) Cons.prems(2)]
  then have rest: "distinct (map policy_key out)" "set mid \<subseteq> set out"
    "\<forall>g \<in> set gs. \<forall>r \<in> set (gp_routes g). covers method_of out g r"
    using Cons.IH [OF mid(2)] by auto
  with first covers_mono [OF _ rest(2)] show ?case by auto
qed simp

lemma find_distinct_key:
  "distinct (map policy_key ps) \<Longrightarrow> p \<in> set ps \<Longrightarrow> policy_key p = (m, t) \<Longrightarrow>
   find (\<lambda>p. cp_method p = m \<and> cp_pattern p = t) ps = Some p"
proof (induction ps)
  case (Cons a ps)
  then show ?case by (auto simp: policy_key_def image_iff)
qed simp

lemma missing_name_None:
  "missing_name reg ps = None \<Longrightarrow> p \<in> set ps \<Longrightarrow> n \<in> set (cp_middleware p) \<Longrightarrow> map_of reg n \<noteq> None"
  by (induction ps) (auto simp: find_None_iff split: option.splits)

lemma build_chain_Some: "\<forall>n \<in> set ns. map_of reg n \<noteq> None \<Longrightarrow> \<exists>chain. build_chain reg ns service = Some chain"
  by (induction ns) auto

text \<open>
  C3. Declared authentication is enforced. When route groups compile and their middleware is registered,
  a request for a declared route never panics; if the route is not public and it or its group configures
  a token check, the request reaches the chain of middleware and handler exactly when its bearer token
  decodes under that check's secrets and leeway, and otherwise it is answered with 401; a public route,
  and one without a check, always reaches the chain. Route settings override those of the group, and no
  other declared route can shadow this one.
\<close>

theorem route_auth_enforced:
  assumes compiled: "compile method_of groups = Inr routes" and registered: "with_middleware reg routes = Inr ps"
    and declared: "g \<in> set groups" "r \<in> set (gp_routes g)" "method_of (rp_method r) = Some (rq_method q)"
    and matched: "unwrap_or (rr_path q) (rr_match_pattern q) = join_route (gp_prefix g) (rp_path r)"
  shows "case (if rp_public r then None else if rp_jwt r = None then gp_jwt g else rp_jwt r) of
      None \<Rightarrow> \<exists>reply. route_call l now ps service q = Some (Reply reply)
    | Some jwt \<Rightarrow>
        if \<exists>token claims. Option.bind (rq_header q ''authorization'') bearer_token = Some token \<and>
          decode_hs256 l (json_parse l) token (jwt_secrets jwt) (rj_leeway_seconds jwt) now = Inr claims
        then \<exists>reply. route_call l now ps service q = Some (Reply reply)
        else \<exists>failure. route_call l now ps service q = Some (Unauthorized failure ''Bearer'')"
proof -
  let ?p = "Route.compiled g r (rq_method q)"
  have ps: "ro_routes ps = routes" "ro_middleware ps = reg" "missing_name reg routes = None"
    using registered by (auto simp: with_middleware_def split: option.splits)
  have ok: "distinct (map policy_key routes)" "covers method_of routes g r"
    using compile_groups_ok [OF compiled [unfolded compile_def]] declared by auto
  then have mem: "?p \<in> set routes" using declared(3) by (auto simp: covers_def)
  have key: "policy_key ?p = (rq_method q, join_route (gp_prefix g) (rp_path r))"
    by (simp add: policy_key_def compiled_def Let_def)
  have found: "find_policy (rq_method q) (unwrap_or (rr_path q) (rr_match_pattern q)) ps = Some ?p"
    using find_distinct_key [OF ok(1) mem key] by (simp add: find_policy_def ps(1) matched)
  obtain chain where chain: "build_chain reg (cp_middleware ?p) service = Some chain"
    using build_chain_Some missing_name_None [OF ps(3) mem] by blast
  have call: "route_call l now ps service q =
      (case authorize l now (Some ?p) q of Inl failure \<Rightarrow> Some (Unauthorized failure ''Bearer'')
       | Inr q1 \<Rightarrow> Some (Reply (case chain q1 of Inl er \<Rightarrow> Inl er
           | Inr response \<Rightarrow> Inr (if cp_sse ?p then response\<lparr>rs_headers := sse_headers (rs_headers response)\<rparr> else response))))"
    using chain by (simp add: route_call_def found ps(2) split: sum.split)
  have secrets: "cp_jwt_secrets ?p = map_option jwt_secrets (effective_jwt g r)"
    "cp_jwt_leeway_seconds ?p = (case effective_jwt g r of None \<Rightarrow> 0 | Some j \<Rightarrow> rj_leeway_seconds j)"
    by (simp_all add: compiled_def Let_def)
  have eff: "(if rp_public r then None else if rp_jwt r = None then gp_jwt g else rp_jwt r) = effective_jwt g r"
    by (simp add: effective_jwt_def option_or_def split: option.split)
  show ?thesis
    unfolding eff call authorize_def option.case secrets
    by (auto split: option.splits sum.splits)
qed

section \<open>Witness\<close>

definition example_jwt :: route_jwt_config where
  "example_jwt = \<lparr>rj_secret = ''key'', rj_previous_secret = None, rj_leeway_seconds = 0, rj_claim_projection = []\<rparr>"

definition example_route :: route_policy_config where
  "example_route = \<lparr>rp_method = ''GET'', rp_path = ''/jobs'', rp_public = False, rp_jwt = None, rp_timeout_ms = None,
     rp_max_body_bytes = None, rp_priority = None, rp_sse = None\<rparr>"

definition example_group :: route_group_config where
  "example_group = \<lparr>gp_prefix = ''/api/'', gp_jwt = Some example_jwt, gp_timeout_ms = None, gp_max_body_bytes = None,
     gp_priority = False, gp_sse = False, gp_middleware = [], gp_routes = [example_route]\<rparr>"

definition example_request :: "(string, string) route_request" where
  "example_request = \<lparr>rq_method = ''GET'', rq_target = ''/api/jobs'', rq_header = (\<lambda>_. None), rq_claims = None,
     rq_projected = None, rq_key_id = None, rr_path = ''/api/jobs'', rr_match_pattern = None, rr_policy = None\<rparr>"

theorem route_auth_enforced_witness:
  "\<exists>routes ps failure. compile Some [example_group] = Inr routes \<and> with_middleware [] routes = Inr ps \<and>
    route_call example_libs 100 ps (\<lambda>_. Inr \<lparr>rs_headers = [], rs_body = ()\<rparr> :: unit + unit response) example_request =
      Some (Unauthorized failure ''Bearer'')"
proof -
  have compiled: "compile Some [example_group] = Inr [compiled example_group example_route ''GET'']"
    by (simp add: compile_def example_group_def example_route_def example_jwt_def validate_prefix_def starts_with_slash_def
        validate_optional_limits_def validate_middleware_names_def validate_jwt_option_def validate_jwt_def compile_route_def)
  then obtain ps :: "(string, unit, unit) route_middleware route_policies" where ps: "with_middleware [] [compiled example_group example_route ''GET''] = Inr ps"
    by (simp add: with_middleware_def compiled_def example_group_def Let_def)
  have declared: "example_group \<in> set [example_group]" "example_route \<in> set (gp_routes example_group)"
    "Some (rp_method example_route) = Some (rq_method example_request)"
    by (simp_all add: example_group_def example_route_def example_request_def)
  have matched: "unwrap_or (rr_path example_request) (rr_match_pattern example_request) =
      join_route (gp_prefix example_group) (rp_path example_route)"
    by (simp add: unwrap_or_def join_route_def example_request_def example_group_def example_route_def trim_end_slashes_def)
  have "\<exists>failure. route_call example_libs 100 ps (\<lambda>_. Inr \<lparr>rs_headers = [], rs_body = ()\<rparr>) example_request =
      Some (Unauthorized failure ''Bearer'')"
    using route_auth_enforced [OF compiled ps declared matched, of example_libs 100 "\<lambda>_. Inr \<lparr>rs_headers = [], rs_body = ()\<rparr>"]
    by (simp add: example_group_def example_route_def example_request_def)
  with compiled ps show ?thesis by blast
qed

end
