(* ===== verification/Rest_Middleware.thy ===== *)
theory Rest_Middleware
  imports Route Breaker Limit Load
begin

text \<open>
  \<open>rest/src/middleware.rs\<close>, \<open>resilience.rs\<close>, \<open>recovery.rs\<close> and \<open>security.rs\<close>: the middleware of the
  standard HTTP stack. A middleware that holds something while a request runs (a breaker permit, an
  execution slot) is modelled by what it does when the request enters and what it does when the
  response, or its body, is finished or dropped. Decompression, the runtime's timer and the character
  sets of the header types are arguments.
\<close>

section \<open>Requests and responses\<close>

text \<open>A body is the stream of its chunks; reading it can fail.\<close>

datatype chunk = Chunk string | BrokenChunk

type_synonym body = "chunk list"

record ('t, 'j) http_request = "('t, 'j) route_request" +
  hq_payload :: body
  hq_request_id :: "string option"

type_synonym headers = "(string \<times> string) list"

record http_response =
  hs_status :: nat
  hs_headers :: headers
  hs_body :: body

text \<open>What a service returns; an error carries the status and the text actix answers with.\<close>

datatype call_result = Responded http_response | Errored nat string | Panicked

text \<open>\<open>HeaderValue::to_str\<close>: visible ASCII, with the tab.\<close>

definition to_str :: "string \<Rightarrow> string option" where
  "to_str v = (if list_all (\<lambda>c. let n = (of_char c :: nat) in n = 9 \<or> (32 \<le> n \<and> n < 127)) v then Some v else None)"

definition header_contains :: "string \<Rightarrow> headers \<Rightarrow> bool" where
  "header_contains n hs = list_ex (\<lambda>(k, _). k = n) hs"

definition header_insert :: "string \<Rightarrow> string \<Rightarrow> headers \<Rightarrow> headers" where
  "header_insert n v hs = filter (\<lambda>(k, _). k \<noteq> n) hs @ [(n, v)]"

definition header_values :: "string \<Rightarrow> headers \<Rightarrow> string list" where
  "header_values n hs = map snd (filter (\<lambda>(k, _). k = n) hs)"

definition text_response :: "nat \<Rightarrow> string \<Rightarrow> http_response" where
  "text_response status text = \<lparr>hs_status = status, hs_headers = [], hs_body = [Chunk text]\<rparr>"

lemma header_values_Cons [simp]:
  "header_values n [] = []"
  "header_values n (h # hs) = (if fst h = n then snd h # header_values n hs else header_values n hs)"
  by (auto simp: header_values_def)

lemma header_values_filter:
  "header_values n (filter (\<lambda>(m, _). P m) hs) = (if P n then header_values n hs else [])"
  by (induction hs) auto

lemma header_values_insert [simp]:
  "header_values n (header_insert m v hs) = (if n = m then [v] else header_values n hs)"
  by (induction hs) (auto simp: header_values_def header_insert_def)

lemma header_contains_insert [simp]:
  "header_contains n (header_insert m v hs) \<longleftrightarrow> n = m \<or> header_contains n hs"
  by (induction hs) (auto simp: header_contains_def header_insert_def)

lemma header_values_absent: "\<not> header_contains n hs \<Longrightarrow> header_values n hs = []"
  by (induction hs) (auto simp: header_values_def header_contains_def)

section \<open>Circuit breakers per route\<close>

record server_breakers =
  vb_config :: breaker_config
  vb_by_route :: "(string, circuit_breaker) hmap"

definition server_breaker_new :: "breaker_config \<Rightarrow> server_breakers" where
  "server_breaker_new c = \<lparr>vb_config = c, vb_by_route = []\<rparr>"

definition breaker_route :: "string \<Rightarrow> string option \<Rightarrow> string" where
  "breaker_route verb pattern = verb @ '' '' @ unwrap_or ''<unmatched>'' pattern"

text \<open>
  The entry of a call: \<open>entry(route).or_insert_with(..)\<close> and \<open>acquire\<close>. \<open>seed\<close> is the static seed of
  new breakers; \<open>None\<close> when the configuration is rejected by \<open>CircuitBreaker::new\<close>.
\<close>

definition server_breaker_enter ::
  "instant \<Rightarrow> string \<Rightarrow> 64 word \<Rightarrow> server_breakers \<Rightarrow> (guard option \<times> server_breakers \<times> 64 word) option" where
  "server_breaker_enter now route seed v =
     (case (case map_of (vb_by_route v) route of
              Some b \<Rightarrow> Some (b, seed)
            | None \<Rightarrow> circuit_breaker_new (vb_config v) seed now) of
        None \<Rightarrow> None
      | Some (b, seed') \<Rightarrow>
          let (permit, b') = acquire now b in
          Some (permit, v\<lparr>vb_by_route := AList.update route b' (vb_by_route v)\<rparr>, seed'))"

definition http_status_outcome :: "nat \<Rightarrow> circuit_outcome" where
  "http_status_outcome status = (if 500 \<le> status \<and> status < 600 then Failure else Success)"

text \<open>\<open>ServerCircuitBody\<close>: the body of an admitted response, with the permit.\<close>

record circuit_body =
  kb_inner :: body
  kb_permit :: "guard option"
  kb_outcome :: circuit_outcome

definition circuit_body_new :: "body \<Rightarrow> guard \<Rightarrow> circuit_outcome \<Rightarrow> circuit_body" where
  "circuit_body_new b permit out = \<lparr>kb_inner = b, kb_permit = Some permit, kb_outcome = out\<rparr>"

definition circuit_body_finish ::
  "instant \<Rightarrow> circuit_outcome \<Rightarrow> circuit_body \<times> circuit_breaker \<Rightarrow> circuit_body \<times> circuit_breaker" where
  "circuit_body_finish now out kb =
     (case kb_permit (fst kb) of
        None \<Rightarrow> kb
      | Some permit \<Rightarrow> ((fst kb)\<lparr>kb_permit := None\<rparr>, guard_drop now (guard_finish now out (permit, snd kb))))"

text \<open>A poll that is ready; a pending one changes nothing.\<close>

definition circuit_body_poll ::
  "instant \<Rightarrow> circuit_body \<times> circuit_breaker \<Rightarrow> chunk option \<times> circuit_body \<times> circuit_breaker" where
  "circuit_body_poll now kb =
     (case kb_inner (fst kb) of
        [] \<Rightarrow> (None, circuit_body_finish now (kb_outcome (fst kb)) kb)
      | BrokenChunk # rest \<Rightarrow>
          (Some BrokenChunk, circuit_body_finish now Failure ((fst kb)\<lparr>kb_inner := rest\<rparr>, snd kb))
      | Chunk c # rest \<Rightarrow> (Some (Chunk c), (fst kb)\<lparr>kb_inner := rest\<rparr>, snd kb))"

definition circuit_body_drop :: "instant \<Rightarrow> circuit_body \<times> circuit_breaker \<Rightarrow> circuit_breaker" where
  "circuit_body_drop now kb =
     (case kb_permit (fst kb) of None \<Rightarrow> snd kb | Some permit \<Rightarrow> guard_drop now (permit, snd kb))"

text \<open>What happens to the breaker when the wrapped service returns: \<open>Inr\<close> is the body that took the permit.\<close>

definition server_breaker_return ::
  "instant \<Rightarrow> guard \<Rightarrow> call_result \<Rightarrow> circuit_breaker \<Rightarrow> circuit_breaker + circuit_body" where
  "server_breaker_return now permit res b =
     (case res of
        Responded r \<Rightarrow> Inr (circuit_body_new (hs_body r) permit (http_status_outcome (hs_status r)))
      | Errored _ _ \<Rightarrow> Inl (permit_finish now False (permit, b))
      | Panicked \<Rightarrow> Inl (guard_drop now (permit, b)))"

section \<open>Timeout\<close>

record timeout_layer =
  to_duration :: duration

definition timeout_new :: "duration \<Rightarrow> timeout_layer option" where
  "timeout_new d = (if d = 0 then None else Some \<lparr>to_duration = d\<rparr>)"

text \<open>The deadline of a request: the route's own, or else the server's, and none for an event stream.\<close>

definition timeout_limit :: "timeout_layer \<Rightarrow> request_policy option \<Rightarrow> duration option" where
  "timeout_limit l policy =
     (let (d, sse) = (case policy of
          None \<Rightarrow> (to_duration l, False)
        | Some p \<Rightarrow> (unwrap_or (to_duration l) (qp_timeout p), qp_sse p)) in
      if sse then None else Some d)"

text \<open>
  \<open>elapsed\<close> is the time the wrapped call takes to return \<open>res\<close>; the runtime polls the call before the
  timer, so a call that is ready at the deadline wins.
\<close>

definition timeout_call :: "timeout_layer \<Rightarrow> request_policy option \<Rightarrow> duration \<Rightarrow> call_result \<Rightarrow> call_result" where
  "timeout_call l policy elapsed res =
     (case timeout_limit l policy of
        None \<Rightarrow> res
      | Some d \<Rightarrow> if elapsed \<le> d then res else Errored 504 ''request timed out'')"

section \<open>Concurrency limit\<close>

text \<open>
  Both semaphores are counted by their free permits. \<open>max_permits\<close> is the largest count a semaphore of
  the runtime takes: \<open>Semaphore::new\<close> panics above it.
\<close>

record concurrency =
  cl_free :: nat
  cl_reserve :: nat

datatype slot = Normal | Reserved

definition semaphore_new :: "nat \<Rightarrow> nat \<Rightarrow> nat option" where
  "semaphore_new max_permits n = (if n \<le> max_permits then Some n else None)"

definition concurrency_new :: "nat \<Rightarrow> nat \<Rightarrow> concurrency option" where
  "concurrency_new max_permits n =
     (if n = 0 then None
      else Option.bind (semaphore_new max_permits n) (\<lambda>free.
        map_option (\<lambda>r. \<lparr>cl_free = free, cl_reserve = r\<rparr>) (semaphore_new max_permits ((n + 3) div 4))))"

definition with_priority_reserve :: "nat \<Rightarrow> nat \<Rightarrow> concurrency \<Rightarrow> concurrency option" where
  "with_priority_reserve max_permits capacity l =
     (if capacity = 0 then None
      else map_option (\<lambda>r. l\<lparr>cl_reserve := r\<rparr>) (semaphore_new max_permits capacity))"

definition concurrency_enter :: "bool \<Rightarrow> concurrency \<Rightarrow> slot option \<times> concurrency" where
  "concurrency_enter priority l =
     (if 0 < cl_free l then (Some Normal, l\<lparr>cl_free := cl_free l - 1\<rparr>)
      else if priority \<and> 0 < cl_reserve l then (Some Reserved, l\<lparr>cl_reserve := cl_reserve l - 1\<rparr>)
      else (None, l))"

definition concurrency_leave :: "slot \<Rightarrow> concurrency \<Rightarrow> concurrency" where
  "concurrency_leave s l =
     (case s of Normal \<Rightarrow> l\<lparr>cl_free := cl_free l + 1\<rparr> | Reserved \<Rightarrow> l\<lparr>cl_reserve := cl_reserve l + 1\<rparr>)"

definition policy_priority :: "request_policy option \<Rightarrow> bool" where
  "policy_priority p = (case p of None \<Rightarrow> False | Some q \<Rightarrow> qp_priority q)"

section \<open>Rate limit\<close>

record token_bucket =
  tb_available :: f64
  tb_capacity :: f64
  tb_last_refill :: instant

record rate_limit =
  rl_state :: token_bucket
  rl_permits_per_second :: f64

definition rate_limit_new :: "nat \<Rightarrow> nat \<Rightarrow> instant \<Rightarrow> rate_limit option" where
  "rate_limit_new permits_per_second burst now =
     (if permits_per_second = 0 \<or> burst = 0 then None
      else Some \<lparr>rl_state = \<lparr>tb_available = f_nat burst, tb_capacity = f_nat burst, tb_last_refill = now\<rparr>,
                 rl_permits_per_second = f_nat permits_per_second\<rparr>)"

definition bucket_try_acquire :: "f64 \<Rightarrow> instant \<Rightarrow> token_bucket \<Rightarrow> (duration option \<times> token_bucket) option" where
  "bucket_try_acquire permits_per_second now b =
     (let elapsed = as_secs_f64 (now - tb_last_refill b);
          b1 = b\<lparr>tb_available := f_min (f_add (tb_available b) (f_mul elapsed permits_per_second)) (tb_capacity b),
                 tb_last_refill := now\<rparr> in
      if f_le (Fin 1) (tb_available b1)
      then Some (None, b1\<lparr>tb_available := f_sub (tb_available b1) (Fin 1)\<rparr>)
      else map_option (\<lambda>d. (Some d, b1)) (from_secs_f64 (f_div (f_sub (Fin 1) (tb_available b1)) permits_per_second)))"

definition retry_after_seconds :: "duration \<Rightarrow> nat" where
  "retry_after_seconds d = f_to_usize (f_max (f_ceil (as_secs_f64 d)) (Fin 1))"

text \<open>The decision of a call: the rejection, or \<open>None\<close> to call the service.\<close>

definition rate_limit_enter :: "instant \<Rightarrow> rate_limit \<Rightarrow> (http_response option \<times> rate_limit) option" where
  "rate_limit_enter now l =
     map_option
       (\<lambda>(retry, b).
          (map_option (\<lambda>d. (text_response 429 ''rate limit exceeded'')
               \<lparr>hs_headers := [(''retry-after'', show_nat (retry_after_seconds d))]\<rparr>) retry,
           l\<lparr>rl_state := b\<rparr>))
       (bucket_try_acquire (rl_permits_per_second l) now (rl_state l))"

section \<open>Request bodies\<close>

record body_limit =
  bo_max_bytes :: nat
  bo_decompress_gzip :: bool

definition body_limit_new :: "nat \<Rightarrow> body_limit option" where
  "body_limit_new n = (if n = 0 then None else Some \<lparr>bo_max_bytes = n, bo_decompress_gzip = True\<rparr>)"

definition payload_too_large :: "nat \<Rightarrow> http_response" where
  "payload_too_large n = text_response 413 (''request body exceeds '' @ show_nat n @ '' bytes'')"

text \<open>\<open>str::parse::<usize>\<close>: decimal digits after an optional plus sign, below \<open>2 ^ 64\<close>.\<close>

definition parse_usize :: "string \<Rightarrow> nat option" where
  "parse_usize s =
     (let ds = (case s of c # rest \<Rightarrow> if c = CHR ''+'' then rest else s | [] \<Rightarrow> s) in
      if ds = [] \<or> \<not> list_all is_digit ds \<or> u64_max < digits_value ds then None
      else Some (digits_value ds))"

fun collect_body :: "nat \<Rightarrow> string \<Rightarrow> body \<Rightarrow> http_response + string" where
  "collect_body n acc [] = Inr acc"
| "collect_body n acc (BrokenChunk # rest) = Inl (text_response 400 ''invalid request body'')"
| "collect_body n acc (Chunk c # rest) =
     (if n < sat_add u64_max (length acc) (length c) then Inl (payload_too_large n)
      else collect_body n (acc @ c) rest)"

definition wants_gzip :: "string option \<Rightarrow> bool" where
  "wants_gzip encoding =
     (case encoding of
        None \<Rightarrow> False
      | Some v \<Rightarrow> list_ex (\<lambda>e. map ascii_lower (trim e) = ''gzip'') (split_on (CHR '','') v))"

text \<open>
  \<open>gunzip b n\<close> is the result of reading at most \<open>n\<close> bytes from a \<open>GzDecoder\<close> over \<open>b\<close>: \<open>None\<close> when the
  decoder fails (the limit is computed without an overflow check). The result is the rejection, or the request that is passed on.
\<close>

definition body_limit_enter ::
  "(string \<Rightarrow> nat \<Rightarrow> string option) \<Rightarrow> body_limit \<Rightarrow> ('t, 'j) http_request \<Rightarrow> http_response + ('t, 'j) http_request" where
  "body_limit_enter gunzip l q =
     (let n = unwrap_or (bo_max_bytes l) (Option.bind (rr_policy q) qp_max_body_bytes) in
      if (case Option.bind (rq_header q ''content-length'') parse_usize of None \<Rightarrow> False | Some len \<Rightarrow> n < len)
      then Inl (payload_too_large n)
      else
        let gzip = (bo_decompress_gzip l \<and> wants_gzip (rq_header q ''content-encoding'')) in
        and_then (collect_body n [] (hq_payload q)) (\<lambda>b.
          if gzip
          then (case gunzip b ((n + 1) mod 2 ^ 64) of
                  None \<Rightarrow> Inl (text_response 400 ''invalid gzip request body'')
                | Some expanded \<Rightarrow>
                    if n < length expanded then Inl (payload_too_large n)
                    else Inr (q\<lparr>rq_header := (rq_header q)(''content-encoding'' := None, ''content-length'' := None),
                               hq_payload := [Chunk expanded]\<rparr>))
          else Inr (q\<lparr>hq_payload := [Chunk b]\<rparr>)))"

section \<open>Request identifiers, security headers, recovery\<close>

definition hex_digit_char :: "nat \<Rightarrow> char" where
  "hex_digit_char d = char_of (if d < 10 then 48 + d else 87 + d)"

definition hex16 :: "64 word \<Rightarrow> string" where
  "hex16 w = map (\<lambda>i. hex_digit_char (unat w div 16 ^ i mod 16)) (rev [0..<16])"

text \<open>
  \<open>next_id\<close> is the static counter. \<open>valid\<close> is \<open>HeaderValue::from_str\<close>, whose failure is a panic of the
  \<open>expect\<close>; the service is called with the identifier in the request's extensions.
\<close>

definition request_id_enter :: "string \<Rightarrow> 64 word \<Rightarrow> ('t, 'j) http_request \<Rightarrow> string \<times> ('t, 'j) http_request \<times> 64 word" where
  "request_id_enter header next_id q =
     (let (i, next') = (case rq_header q header of
          Some v \<Rightarrow> if v \<noteq> [] then (v, next_id) else (hex16 next_id, next_id + 1)
        | None \<Rightarrow> (hex16 next_id, next_id + 1)) in
      (i, q\<lparr>hq_request_id := Some i\<rparr>, next'))"

definition request_id_leave :: "(string \<Rightarrow> bool) \<Rightarrow> string \<Rightarrow> string \<Rightarrow> call_result \<Rightarrow> call_result" where
  "request_id_leave valid header i res =
     (case res of
        Responded r \<Rightarrow> if valid i then Responded (r\<lparr>hs_headers := header_insert header i (hs_headers r)\<rparr>) else Panicked
      | _ \<Rightarrow> res)"

definition security_headers_default :: headers where
  "security_headers_default =
     [(''content-security-policy'', ''default-src '' @ [CHR 0x27] @ ''self'' @ [CHR 0x27] @ ''; frame-ancestors '' @ [CHR 0x27] @ ''none'' @ [CHR 0x27]),
      (''x-content-type-options'', ''nosniff''),
      (''x-frame-options'', ''DENY''),
      (''referrer-policy'', ''no-referrer''),
      (''permissions-policy'', ''camera=(), geolocation=(), microphone=()'')]"

definition security_with_header :: "string \<Rightarrow> string \<Rightarrow> headers \<Rightarrow> headers" where
  "security_with_header n v hs = header_insert n v hs"

fun fill_headers :: "headers \<Rightarrow> headers \<Rightarrow> headers" where
  "fill_headers [] hs = hs"
| "fill_headers ((n, v) # rest) hs =
     fill_headers rest (if header_contains n hs then hs else header_insert n v hs)"

definition security_leave :: "headers \<Rightarrow> call_result \<Rightarrow> call_result" where
  "security_leave defaults res =
     (case res of Responded r \<Rightarrow> Responded (r\<lparr>hs_headers := fill_headers defaults (hs_headers r)\<rparr>) | _ \<Rightarrow> res)"

definition recover_call :: "string \<Rightarrow> call_result \<Rightarrow> call_result" where
  "recover_call response_body res = (case res of Panicked \<Rightarrow> Errored 500 response_body | _ \<Rightarrow> res)"

section \<open>A permit is reported exactly once\<close>

lemma guard_finish_drop [simp]: "guard_drop now (guard_finish now out gb) = record_outcome now out (snd gb)"
  by (simp add: guard_drop_def guard_finish_def)

text \<open>The polls of a body, each with its clock reading, and the drop that ends its life.\<close>

fun circuit_body_run :: "instant list \<Rightarrow> instant \<Rightarrow> circuit_body \<times> circuit_breaker \<Rightarrow> circuit_breaker" where
  "circuit_body_run [] dropped kb = circuit_body_drop dropped kb"
| "circuit_body_run (t # ts) dropped kb = circuit_body_run ts dropped (snd (circuit_body_poll t kb))"

lemma circuit_body_run_finished:
  "kb_permit (fst kb) = None \<Longrightarrow> circuit_body_run ts dropped kb = snd kb"
proof (induction ts arbitrary: kb)
  case (Cons t ts)
  have "kb_permit (fst (snd (circuit_body_poll t kb))) = None \<and> snd (snd (circuit_body_poll t kb)) = snd kb"
    using Cons.prems by (auto simp: circuit_body_poll_def circuit_body_finish_def split: list.split chunk.split)
  then show ?case using Cons.IH by simp
qed (simp add: circuit_body_drop_def)

text \<open>What a run of \<open>n\<close> polls of a body has seen.\<close>

definition body_verdict :: "nat \<Rightarrow> body \<Rightarrow> circuit_outcome \<Rightarrow> circuit_outcome" where
  "body_verdict n b out =
     (if BrokenChunk \<in> set (take n b) then Failure else if length b < n then out else Cancellation)"

lemma circuit_body_run_reports:
  "\<exists>t \<in> set (dropped # ts). circuit_body_run ts dropped (circuit_body_new b guard_new out, k) =
     record_outcome t (body_verdict (length ts) b out) k"
proof (induction ts arbitrary: b)
  case Nil
  then show ?case by (simp add: circuit_body_drop_def circuit_body_new_def body_verdict_def guard_drop_def guard_new_def)
next
  case (Cons t ts)
  consider "b = []" | rest where "b = BrokenChunk # rest" | c rest where "b = Chunk c # rest"
    by (cases b; cases "hd b") auto
  then show ?case
  proof cases
    case 3
    have "circuit_body_poll t (circuit_body_new b guard_new out, k) =
        (Some (Chunk c), circuit_body_new rest guard_new out, k)"
      by (simp add: circuit_body_poll_def circuit_body_new_def 3)
    moreover have "body_verdict (length (t # ts)) b out = body_verdict (length ts) rest out"
      by (auto simp: body_verdict_def 3)
    ultimately show ?thesis using Cons.IH [of rest] by auto
  qed (simp_all add: circuit_body_poll_def circuit_body_new_def circuit_body_finish_def circuit_body_run_finished
      body_verdict_def)
qed

text \<open>
  The route breaker hears of every admitted request exactly once. Whatever the wrapped service
  does, the breaker records one outcome for the permit: a failure when the service returns an error or
  the body breaks while it is read, the outcome given by the status when the body is read to its end,
  and a cancellation when the service panics or the body is dropped before its end; polling a finished
  body again records nothing.
\<close>

theorem server_breaker_reports_once:
  "case server_breaker_return now guard_new res b of
     Inl b' \<Rightarrow>
       (\<exists>status text. res = Errored status text \<and> b' = record_outcome now Failure b) \<or>
       res = Panicked \<and> b' = record_outcome now Cancellation b
   | Inr kb \<Rightarrow> \<exists>r. res = Responded r \<and>
       (\<forall>ts dropped later. \<exists>t \<in> set (dropped # ts). circuit_body_run ts dropped (kb, later) = record_outcome t
          (if BrokenChunk \<in> set (take (length ts) (hs_body r)) then Failure
           else if length (hs_body r) < length ts
           then (if 500 \<le> hs_status r \<and> hs_status r < 600 then Failure else Success)
           else Cancellation) later)"
proof (cases res)
  case (Responded r)
  then show ?thesis
    using circuit_body_run_reports [of _ _ "hs_body r" "http_status_outcome (hs_status r)"]
    by (auto simp: server_breaker_return_def body_verdict_def http_status_outcome_def)
qed (auto simp: server_breaker_return_def permit_finish_def guard_drop_def guard_new_def guard_finish_def)

section \<open>Execution slots\<close>

text \<open>
  Requests that enter and leave in any order: the limiter and the slots held, each with the priority
  of its request. A slot is given back however the call ends, its cancellation included.
\<close>

inductive slot_step :: "concurrency \<times> (bool \<times> slot) list \<Rightarrow> concurrency \<times> (bool \<times> slot) list \<Rightarrow> bool" where
  admit: "concurrency_enter p l = (Some s, l') \<Longrightarrow> slot_step (l, hs) (l', (p, s) # hs)"
| refuse: "concurrency_enter p l = (None, l') \<Longrightarrow> slot_step (l, hs) (l', hs)"
| leave: "(p, s) \<in> set hs \<Longrightarrow> slot_step (l, hs) (concurrency_leave s l, remove1 (p, s) hs)"

definition held :: "slot \<Rightarrow> (bool \<times> slot) list \<Rightarrow> nat" where
  "held s hs = length (filter (\<lambda>h. snd h = s) hs)"

definition slot_inv :: "nat \<Rightarrow> nat \<Rightarrow> concurrency \<times> (bool \<times> slot) list \<Rightarrow> bool" where
  "slot_inv n r y \<longleftrightarrow>
     cl_free (fst y) + held Normal (snd y) = n \<and> cl_reserve (fst y) + held Reserved (snd y) = r \<and>
     (\<forall>h \<in> set (snd y). snd h = Reserved \<longrightarrow> fst h)"

lemma held_remove1: "h \<in> set hs \<Longrightarrow> held s hs = held s (remove1 h hs) + (if snd h = s then 1 else 0)"
  by (induction hs) (auto simp: held_def)

lemma slot_inv_step: "slot_step y z \<Longrightarrow> slot_inv n r y \<Longrightarrow> slot_inv n r z"
proof (induction rule: slot_step.induct)
  case (leave p s hs l)
  then show ?case
    using held_remove1 [OF leave.hyps, of Normal] held_remove1 [OF leave.hyps, of Reserved] set_remove1_subset [of "(p, s)" hs]
    by (cases s) (auto simp: slot_inv_def concurrency_leave_def)
qed (auto simp: slot_inv_def concurrency_enter_def held_def split: if_splits)

lemma slot_inv_steps: "slot_step\<^sup>*\<^sup>* y z \<Longrightarrow> slot_inv n r y \<Longrightarrow> slot_inv n r z"
  by (induction rule: rtranclp_induct) (auto intro: slot_inv_step)

text \<open>
  Execution slots are never oversubscribed and never leak. However requests enter and leave, at most
  \<open>max_concurrent_requests\<close> of them hold a normal slot and at most \<open>reserve\<close> a reserved one, which only
  priority requests get; a request is refused exactly when the normal slots are all held and it either
  lacks priority or finds the reserve all held too.
\<close>

theorem concurrency_slots:
  assumes new: "concurrency_new mp n = Some l0" "with_priority_reserve mp r l0 = Some l"
    and run: "slot_step\<^sup>*\<^sup>* (l, []) (l', hs)"
  shows "held Normal hs \<le> n \<and> held Reserved hs \<le> r \<and> (\<forall>h \<in> set hs. snd h = Reserved \<longrightarrow> fst h) \<and>
    (fst (concurrency_enter p l') = None \<longleftrightarrow> held Normal hs = n \<and> (p \<longrightarrow> held Reserved hs = r))"
proof -
  have "slot_inv n r (l, [])"
    using new by (auto simp: concurrency_new_def with_priority_reserve_def semaphore_new_def slot_inv_def held_def
        split: if_splits bind_splits)
  with run have "slot_inv n r (l', hs)" by (rule slot_inv_steps)
  then show ?thesis by (auto simp: slot_inv_def concurrency_enter_def)
qed

theorem concurrency_slots_witness:
  "\<exists>l0 l l'. concurrency_new 100 2 = Some l0 \<and> with_priority_reserve 100 1 l0 = Some l \<and>
     fst (concurrency_enter False l') = None \<and> fst (concurrency_enter True l') \<noteq> None"
proof -
  let ?l0 = "\<lparr>cl_free = 2, cl_reserve = 1\<rparr>" and ?l1 = "\<lparr>cl_free = 1, cl_reserve = 1\<rparr>" and ?l2 = "\<lparr>cl_free = 0, cl_reserve = 1\<rparr>"
  have new: "concurrency_new 100 2 = Some ?l0" "with_priority_reserve 100 1 ?l0 = Some ?l0"
    by (simp_all add: concurrency_new_def with_priority_reserve_def semaphore_new_def)
  have "slot_step (?l0, []) (?l1, [(False, Normal)])" "slot_step (?l1, [(False, Normal)]) (?l2, [(True, Normal), (False, Normal)])"
    by (rule slot_step.admit, simp add: concurrency_enter_def)+
  then have run: "slot_step\<^sup>*\<^sup>* (?l0, []) (?l2, [(True, Normal), (False, Normal)])" by (meson r_into_rtranclp rtranclp_trans)
  show ?thesis
    using concurrency_slots [OF new run, of False] concurrency_slots [OF new run, of True] new
    by (auto simp: held_def)
qed

section \<open>The rate limit is the token limiter of the core\<close>

definition bucket_of :: "token_limiter \<Rightarrow> rate_limit" where
  "bucket_of l =
     \<lparr>rl_state = \<lparr>tb_available = tl_available l, tb_capacity = f_nat (tl_burst l), tb_last_refill = tl_last_refill l\<rparr>,
      rl_permits_per_second = tl_rate_per_second l\<rparr>"

definition decision_response :: "limit_decision \<Rightarrow> http_response option" where
  "decision_response d =
     (case d of
        OverQuota w \<Rightarrow> Some ((text_response 429 ''rate limit exceeded'')
          \<lparr>hs_headers := [(''retry-after'', show_nat (retry_after_seconds w))]\<rparr>)
      | _ \<Rightarrow> None)"

lemma f_nat_1 [simp]: "f_nat (Suc 0) = Fin 1" "f_nat 1 = Fin 1"
  using f_nat_exact [of 1] by simp_all

lemma rate_limit_enter_token:
  "0 < tl_burst l \<Longrightarrow>
   rate_limit_enter now (bucket_of l) = map_option (map_prod decision_response bucket_of) (token_take 1 now l)"
  by (auto simp: rate_limit_enter_def bucket_of_def bucket_try_acquire_def token_take_def token_refill_def
      decision_response_def Let_def option.map_comp comp_def intro!: map_option_cong)

fun rate_limit_run :: "instant list \<Rightarrow> rate_limit \<Rightarrow> (http_response option list \<times> rate_limit) option" where
  "rate_limit_run [] l = Some ([], l)"
| "rate_limit_run (t # ts) l =
     Option.bind (rate_limit_enter t l) (\<lambda>(d, l'). map_option (map_prod (Cons d) id) (rate_limit_run ts l'))"

fun token_decisions :: "instant list \<Rightarrow> token_limiter \<Rightarrow> (limit_decision list \<times> token_limiter) option" where
  "token_decisions [] l = Some ([], l)"
| "token_decisions (t # ts) l =
     Option.bind (token_take 1 t l) (\<lambda>(d, l'). map_option (map_prod (Cons d) id) (token_decisions ts l'))"

lemma token_take_burst: "token_take p now l = Some (d, l') \<Longrightarrow> tl_burst l' = tl_burst l"
  by (auto simp: token_take_def token_refill_def Let_def split: if_splits option.splits)

lemma rate_limit_run_token:
  "0 < tl_burst l \<Longrightarrow>
   rate_limit_run ts (bucket_of l) = map_option (map_prod (map decision_response) bucket_of) (token_decisions ts l)"
proof (induction ts arbitrary: l)
  case (Cons t ts)
  show ?case
  proof (cases "token_take 1 t l")
    case (Some dl)
    then have "0 < tl_burst (snd dl)" using Cons.prems token_take_burst [of 1 t l "fst dl" "snd dl"] by simp
    from Cons.IH [OF this] show ?thesis
      using Some by (cases dl) (auto simp: rate_limit_enter_token [OF Cons.prems] option.map_comp comp_def
          map_prod_def case_prod_beta intro!: map_option_cong)
  qed (simp add: rate_limit_enter_token [OF Cons.prems])
qed simp

text \<open>
  The HTTP rate limit is the core token limiter asked for one permit at a time: built from the same
  numbers at the same time, the two give the same decision on every request of every run, a rejection
  of the core limiter becoming a 429 with its waiting time rounded up to whole seconds, and panic on the
  same runs. The rate guarantee of the core limiter is therefore one of the HTTP stack.
\<close>

theorem rate_limit_equivalent:
  "Option.bind (rate_limit_new rate burst t0) (rate_limit_run ts) =
   Option.bind (token_limiter_new rate burst t0)
     (\<lambda>l. map_option (map_prod (map decision_response) bucket_of) (token_decisions ts l))"
proof (cases "rate = 0 \<or> burst = 0")
  case False
  let ?l = "\<lparr>tl_rate_per_second = f_nat rate, tl_burst = burst, tl_available = f_nat burst, tl_last_refill = t0\<rparr>"
  have "rate_limit_new rate burst t0 = Some (bucket_of ?l)" "token_limiter_new rate burst t0 = Some ?l"
    using False by (simp_all add: rate_limit_new_def token_limiter_new_def bucket_of_def)
  then show ?thesis using rate_limit_run_token [of ?l ts] False by simp
qed (auto simp: rate_limit_new_def token_limiter_new_def)

section \<open>Bounded bodies\<close>

fun chunk_text :: "chunk \<Rightarrow> string" where
  "chunk_text (Chunk c) = c"
| "chunk_text BrokenChunk = []"

lemma collect_body_Inr:
  "n < u64_max \<Longrightarrow> length acc \<le> n \<Longrightarrow>
   collect_body n acc b = Inr s \<longleftrightarrow>
     BrokenChunk \<notin> set b \<and> s = acc @ concat (map chunk_text b) \<and> length (acc @ concat (map chunk_text b)) \<le> n"
  by (induction n acc b rule: collect_body.induct) (auto simp: sat_add_def)

text \<open>The second half of \<open>call\<close>, once the limit is known.\<close>

definition body_limit_expand ::
  "(string \<Rightarrow> nat \<Rightarrow> string option) \<Rightarrow> nat \<Rightarrow> ('t, 'j) http_request \<Rightarrow> string \<Rightarrow> http_response + ('t, 'j) http_request" where
  "body_limit_expand gunzip n q b =
     (case gunzip b (n + 1) of
        None \<Rightarrow> Inl (text_response 400 ''invalid gzip request body'')
      | Some expanded \<Rightarrow>
          if n < length expanded then Inl (payload_too_large n)
          else Inr (q\<lparr>rq_header := (rq_header q)(''content-encoding'' := None, ''content-length'' := None),
                     hq_payload := [Chunk expanded]\<rparr>))"

text \<open>
  The body that reaches the handlers is within the limit and is the body that was sent. Under the
  limit of the route's policy, or else of the server, a request passes exactly when its declared length
  is within the limit, its chunks arrive intact and within the limit, and, if it is compressed with gzip
  and decompression is on, they expand without error to at most the limit; the handlers then get one
  chunk with the bytes sent, or with their expansion and without the two headers that described them.
\<close>

theorem body_limit_exact:
  assumes limit: "n = unwrap_or (bo_max_bytes l) (Option.bind (rr_policy q) qp_max_body_bytes)" "n < u64_max"
    and sent: "sent = concat (map chunk_text (hq_payload q))"
    and gzip: "gzip \<longleftrightarrow> bo_decompress_gzip l \<and> wants_gzip (rq_header q ''content-encoding'')"
  shows "body_limit_enter gunzip l q = Inr q' \<longleftrightarrow>
    (\<forall>len. Option.bind (rq_header q ''content-length'') parse_usize = Some len \<longrightarrow> len \<le> n) \<and>
    BrokenChunk \<notin> set (hq_payload q) \<and> length sent \<le> n \<and>
    (if gzip
     then (\<exists>expanded. gunzip sent (n + 1) = Some expanded \<and> length expanded \<le> n \<and>
       q' = q\<lparr>rq_header := (rq_header q)(''content-encoding'' := None, ''content-length'' := None),
             hq_payload := [Chunk expanded]\<rparr>)
     else q' = q\<lparr>hq_payload := [Chunk sent]\<rparr>)"
proof -
  let ?len = "Option.bind (rq_header q ''content-length'') parse_usize"
  have mod: "(n + 1) mod 2 ^ 64 = n + 1" using limit(2) by (simp add: u64_max_def)
  have unfolded: "body_limit_enter gunzip l q =
      (if (case ?len of None \<Rightarrow> False | Some len \<Rightarrow> n < len) then Inl (payload_too_large n)
       else and_then (collect_body n [] (hq_payload q)) (\<lambda>b.
         if gzip then body_limit_expand gunzip n q b else Inr (q\<lparr>hq_payload := [Chunk b]\<rparr>)))"
    unfolding body_limit_enter_def body_limit_expand_def limit(1) [symmetric] gzip [symmetric] Let_def mod by (rule refl)
  have len: "\<not> (case ?len of None \<Rightarrow> False | Some len \<Rightarrow> n < len) \<longleftrightarrow> (\<forall>len. ?len = Some len \<longrightarrow> len \<le> n)"
    by (cases ?len) auto
  have expand: "body_limit_expand gunzip n q sent = Inr q' \<longleftrightarrow>
      (\<exists>expanded. gunzip sent (n + 1) = Some expanded \<and> length expanded \<le> n \<and>
       q' = q\<lparr>rq_header := (rq_header q)(''content-encoding'' := None, ''content-length'' := None),
             hq_payload := [Chunk expanded]\<rparr>)"
    by (cases "gunzip sent (n + 1)") (auto simp: body_limit_expand_def)
  have body: "collect_body n [] (hq_payload q) = Inr b \<longleftrightarrow> BrokenChunk \<notin> set (hq_payload q) \<and> length sent \<le> n \<and> b = sent" for b
    using collect_body_Inr [OF limit(2), of "[]" "hq_payload q" b] by (auto simp: sent)
  show ?thesis unfolding len [symmetric] expand [symmetric] by (auto simp: unfolded and_then_Inr body split: if_splits)
qed

definition posted :: "('t, 'j) http_request" where
  "posted = \<lparr>rq_method = ''POST'', rq_target = ''/'', rq_header = (\<lambda>_. None), rq_claims = None,
     rq_projected = None, rq_key_id = None, rr_path = ''/'', rr_match_pattern = None, rr_policy = None,
     hq_payload = [Chunk ''ab'', Chunk ''c''], hq_request_id = None\<rparr>"

theorem body_limit_exact_witness:
  "body_limit_enter (\<lambda>_ _. None) \<lparr>bo_max_bytes = 3, bo_decompress_gzip = True\<rparr> (posted :: (unit, unit) http_request) =
     Inr (posted\<lparr>hq_payload := [Chunk ''abc'']\<rparr>) \<and>
   body_limit_enter (\<lambda>_ _. None) \<lparr>bo_max_bytes = 2, bo_decompress_gzip = True\<rparr> (posted :: (unit, unit) http_request) \<noteq>
     Inr (posted\<lparr>hq_payload := [Chunk ''abc'']\<rparr>)"
proof -
  let ?q = "posted :: (unit, unit) http_request"
  have limits: "3 = unwrap_or (bo_max_bytes \<lparr>bo_max_bytes = 3, bo_decompress_gzip = True\<rparr>) (Option.bind (rr_policy ?q) qp_max_body_bytes)"
    "2 = unwrap_or (bo_max_bytes \<lparr>bo_max_bytes = 2, bo_decompress_gzip = True\<rparr>) (Option.bind (rr_policy ?q) qp_max_body_bytes)"
    "3 < u64_max" "2 < u64_max" "''abc'' = concat (map chunk_text (hq_payload ?q))"
    by (simp_all add: unwrap_or_def posted_def u64_max_def)
  have gzip: "False \<longleftrightarrow> bo_decompress_gzip \<lparr>bo_max_bytes = m, bo_decompress_gzip = True\<rparr> \<and> wants_gzip (rq_header ?q ''content-encoding'')" for m
    by (simp add: posted_def wants_gzip_def)
  show ?thesis
    using body_limit_exact [OF limits(1,3,5) gzip] body_limit_exact [OF limits(2,4,5) gzip]
    by (simp add: posted_def)
qed

section \<open>Headers and identifiers\<close>

lemma fill_headers_keeps:
  "header_contains n hs \<Longrightarrow> header_values n (fill_headers ds hs) = header_values n hs"
proof (induction ds hs rule: fill_headers.induct)
  case (2 m v rest hs)
  then show ?case by (cases "header_contains m hs") auto
qed simp

lemma header_values_contains: "header_values n hs = [] \<longleftrightarrow> \<not> header_contains n hs"
  by (induction hs) (auto simp: header_values_def header_contains_def)

lemma fill_headers_adds:
  "\<not> header_contains n hs \<Longrightarrow> header_values n (fill_headers ds hs) = (case map_of ds n of None \<Rightarrow> [] | Some v \<Rightarrow> [v])"
proof (induction ds hs rule: fill_headers.induct)
  case (2 m v rest hs)
  then show ?case by (cases "m = n") (auto simp: fill_headers_keeps)
qed (simp add: header_values_absent)

text \<open>
  The security headers complete a response: a header the handler set keeps its values, one of the
  defaults that is missing gets its default value, and no other header changes.
\<close>

lemma security_headers_complete:
  "security_leave ds (Responded r) = Responded r' \<Longrightarrow>
   header_values n (hs_headers r') =
     (if header_contains n (hs_headers r) then header_values n (hs_headers r)
      else case map_of ds n of None \<Rightarrow> [] | Some v \<Rightarrow> [v])"
  by (auto simp: security_leave_def fill_headers_keeps fill_headers_adds)

text \<open>
  The identifier the handlers see is the one the client gets back, and the \<open>expect\<close> never fails as long
  as every header text and every hexadecimal number is a valid header value.
\<close>

lemma request_id_propagates:
  assumes "\<And>v. rq_header q header = Some v \<Longrightarrow> valid v" "\<And>w. valid (hex16 w)"
    and "request_id_enter header k q = (i, q', k')"
  shows "hq_request_id q' = Some i \<and> i \<noteq> [] \<and>
    (\<forall>v. rq_header q header = Some v \<and> v \<noteq> [] \<longrightarrow> i = v \<and> k' = k) \<and>
    (\<exists>r'. request_id_leave valid header i (Responded r) = Responded r' \<and> header_values header (hs_headers r') = [i])"
  using assms by (auto simp: request_id_enter_def request_id_leave_def hex16_def upt_rec [of 0] split: option.splits if_splits)

end
