(* ===== verification/Content_Encryption.thy ===== *)
theory Content_Encryption
  imports Rest_Middleware
begin

text \<open>
  \<open>rest/src/content_encryption.rs\<close>: named keys, the envelope \<open>RZC1 || nonce || ciphertext || tag\<close> in
  base64, the key provider with rotation, and the middleware that decrypts requests and encrypts
  responses. AES-256-GCM and base64 are the parameters of the record below; the nonce the system's
  generator returns is an argument, \<open>None\<close> when it fails.
\<close>

section \<open>Keys and envelopes\<close>

record aead =
  ae_seal :: "string \<Rightarrow> string \<Rightarrow> string \<Rightarrow> string \<Rightarrow> string option"
  ae_open :: "string \<Rightarrow> string \<Rightarrow> string \<Rightarrow> string \<Rightarrow> string option"
  b64_encode :: "string \<Rightarrow> string"
  b64_decode :: "string \<Rightarrow> string option"

datatype content_encryption_error =
    InvalidKeyId | DuplicateKeyId | InvalidEnvelope | AuthenticationFailed | EncryptionFailed | RandomnessUnavailable

record content_key =
  ck_id :: string
  ck_bytes :: string

definition content_encryption_header :: string where
  "content_encryption_header = ''x-content-encryption''"

definition content_key_id_header :: string where
  "content_key_id_header = ''x-content-key-id''"

definition algorithm :: string where
  "algorithm = ''aes-256-gcm-v1''"

definition magic :: string where
  "magic = ''RZC1''"

definition nonce_len :: nat where
  "nonce_len = 12"

definition tag_len :: nat where
  "tag_len = 16"

definition is_key_id_byte :: "char \<Rightarrow> bool" where
  "is_key_id_byte c \<longleftrightarrow>
     (let b = of_char c :: nat in
      48 \<le> b \<and> b \<le> 57 \<or> 65 \<le> b \<and> b \<le> 90 \<or> 97 \<le> b \<and> b \<le> 122 \<or> b = 45 \<or> b = 95 \<or> b = 46)"

definition content_key_new :: "string \<Rightarrow> string \<Rightarrow> content_encryption_error + content_key" where
  "content_key_new i bytes =
     (if is_blank i \<or> 128 < length i \<or> \<not> list_all is_key_id_byte i then Inl InvalidKeyId
      else Inr \<lparr>ck_id = i, ck_bytes = bytes\<rparr>)"

abbreviation nul :: char where
  "nul \<equiv> CHR 0x00"

definition request_aad :: "string \<Rightarrow> string \<Rightarrow> string" where
  "request_aad verb uri = ''rust-zero-content-v1'' @ [nul] @ ''request'' @ [nul] @ verb @ [nul] @ uri"

definition response_aad :: "string \<Rightarrow> string \<Rightarrow> nat \<Rightarrow> string" where
  "response_aad verb uri status =
     ''rust-zero-content-v1'' @ [nul] @ ''response'' @ [nul] @ verb @ [nul] @ uri @ [nul] @ show_nat status"

definition key_seal :: "aead \<Rightarrow> string option \<Rightarrow> content_key \<Rightarrow> string \<Rightarrow> string \<Rightarrow> content_encryption_error + string" where
  "key_seal a random k aad plaintext =
     (case random of
        None \<Rightarrow> Inl RandomnessUnavailable
      | Some nonce \<Rightarrow>
          (case ae_seal a (ck_bytes k) nonce aad plaintext of
             None \<Rightarrow> Inl EncryptionFailed
           | Some ciphertext \<Rightarrow> Inr (b64_encode a (magic @ nonce @ ciphertext))))"

definition key_open :: "aead \<Rightarrow> content_key \<Rightarrow> string \<Rightarrow> string \<Rightarrow> content_encryption_error + string" where
  "key_open a k aad encoded =
     (case b64_decode a encoded of
        None \<Rightarrow> Inl InvalidEnvelope
      | Some envelope \<Rightarrow>
          if length envelope < length magic + nonce_len + tag_len \<or> take (length magic) envelope \<noteq> magic
          then Inl InvalidEnvelope
          else
            let nonce = take nonce_len (drop (length magic) envelope);
                ciphertext = drop (length magic + nonce_len) envelope in
            case ae_open a (ck_bytes k) nonce aad ciphertext of
              None \<Rightarrow> Inl AuthenticationFailed
            | Some plaintext \<Rightarrow> Inr plaintext)"

definition encrypt_request where
  "encrypt_request a random k verb uri plaintext = key_seal a random k (request_aad verb uri) plaintext"

definition decrypt_request where
  "decrypt_request a k verb uri encoded = key_open a k (request_aad verb uri) encoded"

definition encrypt_response where
  "encrypt_response a random k verb uri status plaintext = key_seal a random k (response_aad verb uri status) plaintext"

definition decrypt_response where
  "decrypt_response a k verb uri status encoded = key_open a k (response_aad verb uri status) encoded"

section \<open>Key rotation\<close>

record static_keys =
  sk_current_id :: string
  sk_keys :: "(string, content_key) hmap"

definition static_keys_new :: "content_key \<Rightarrow> static_keys" where
  "static_keys_new k = \<lparr>sk_current_id = ck_id k, sk_keys = [(ck_id k, k)]\<rparr>"

definition with_decryption_key :: "content_key \<Rightarrow> static_keys \<Rightarrow> content_encryption_error + static_keys" where
  "with_decryption_key k p =
     (if map_of (sk_keys p) (ck_id k) \<noteq> None then Inl DuplicateKeyId
      else Inr (p\<lparr>sk_keys := AList.update (ck_id k) k (sk_keys p)\<rparr>))"

definition current_key :: "static_keys \<Rightarrow> content_key option" where
  "current_key p = map_of (sk_keys p) (sk_current_id p)"

definition provider_key :: "static_keys \<Rightarrow> string \<Rightarrow> content_key option" where
  "provider_key p i = map_of (sk_keys p) i"

section \<open>The middleware\<close>

text \<open>\<open>ContentKeyProvider\<close> as the pair of its two functions.\<close>

record key_provider =
  kp_current :: "content_key option"
  kp_key :: "string \<Rightarrow> content_key option"

record content_encryption =
  ce_provider :: "key_provider option"
  ce_max_request_bytes :: nat
  ce_max_response_bytes :: nat

definition content_encryption_new :: "key_provider \<Rightarrow> nat \<Rightarrow> content_encryption option" where
  "content_encryption_new p n =
     (if n = 0 then None
      else Some \<lparr>ce_provider = Some p, ce_max_request_bytes = n, ce_max_response_bytes = n\<rparr>)"

definition with_response_limit :: "nat \<Rightarrow> content_encryption \<Rightarrow> content_encryption option" where
  "with_response_limit n c = (if n = 0 then None else Some (c\<lparr>ce_max_response_bytes := n\<rparr>))"

definition content_encryption_disabled :: "nat \<Rightarrow> content_encryption" where
  "content_encryption_disabled n = \<lparr>ce_provider = None, ce_max_request_bytes = n, ce_max_response_bytes = n\<rparr>"

definition empty_response :: "nat \<Rightarrow> http_response" where
  "empty_response status = \<lparr>hs_status = status, hs_headers = [], hs_body = []\<rparr>"

text \<open>\<open>payload_error\<close> is the text of the error a broken payload reports.\<close>

fun collect_encoded :: "string \<Rightarrow> nat \<Rightarrow> string \<Rightarrow> body \<Rightarrow> call_result + string" where
  "collect_encoded payload_error n acc [] = Inr acc"
| "collect_encoded payload_error n acc (BrokenChunk # rest) = Inl (Errored 400 payload_error)"
| "collect_encoded payload_error n acc (Chunk c # rest) =
     (if n < sat_add u64_max (length acc) (length c) then Inl (Responded (empty_response 413))
      else collect_encoded payload_error n (acc @ c) rest)"

definition decrypt_body ::
  "aead \<Rightarrow> key_provider \<Rightarrow> ('t, 'j) http_request \<Rightarrow> string \<Rightarrow> call_result + ('t, 'j) http_request" where
  "decrypt_body a p q encoded =
     (if rq_header q content_encryption_header \<noteq> Some algorithm then Inl (Responded (empty_response 415))
      else case Option.bind (rq_header q content_key_id_header) (kp_key p) of
        None \<Rightarrow> Inl (Responded (empty_response 400))
      | Some k \<Rightarrow>
          (case decrypt_request a k (rq_method q) (rq_target q) encoded of
             Inl _ \<Rightarrow> Inl (Responded (empty_response 400))
           | Inr plaintext \<Rightarrow>
               Inr (q\<lparr>rq_header := (rq_header q)(content_encryption_header := None,
                        content_key_id_header := None, ''content-length'' := None),
                     hq_payload := [Chunk plaintext]\<rparr>)))"

definition decrypt_enter ::
  "aead \<Rightarrow> string \<Rightarrow> content_encryption \<Rightarrow> key_provider \<Rightarrow> ('t, 'j) http_request \<Rightarrow> call_result + ('t, 'j) http_request" where
  "decrypt_enter a payload_error c p q =
     and_then (collect_encoded payload_error (ce_max_request_bytes c) [] (hq_payload q)) (\<lambda>encoded.
       if encoded \<noteq> [] then decrypt_body a p q encoded else Inr (q\<lparr>hq_payload := [Chunk []]\<rparr>))"

text \<open>The text of a header: \<open>to_str\<close> refuses values with other than visible ASCII characters.\<close>

definition visible :: "char \<Rightarrow> bool" where
  "visible c \<longleftrightarrow> 32 \<le> (of_char c :: nat) \<and> (of_char c :: nat) < 127 \<or> c = CHR 0x09"

definition header_text :: "string \<Rightarrow> headers \<Rightarrow> string option" where
  "header_text n hs = (case header_values n hs of [] \<Rightarrow> None | v # _ \<Rightarrow> if list_all visible v then Some v else None)"

definition unencryptable :: "headers \<Rightarrow> bool" where
  "unencryptable hs \<longleftrightarrow>
     (case header_text ''content-type'' hs of None \<Rightarrow> False | Some v \<Rightarrow> take 17 v = ''text/event-stream'') \<or>
     (case header_text ''content-encoding'' hs of None \<Rightarrow> False | Some v \<Rightarrow> map ascii_lower v \<noteq> ''identity'')"

text \<open>\<open>body::to_bytes_limited\<close>: the whole body unless it breaks or exceeds the limit.\<close>

definition to_bytes_limited :: "nat \<Rightarrow> body \<Rightarrow> string option" where
  "to_bytes_limited n b =
     (let s = concat (map chunk_text b) in if BrokenChunk \<in> set b \<or> n < length s then None else Some s)"

definition encrypt_leave ::
  "aead \<Rightarrow> string option \<Rightarrow> content_encryption \<Rightarrow> key_provider \<Rightarrow> string \<Rightarrow> string \<Rightarrow> http_response \<Rightarrow> http_response" where
  "encrypt_leave a random c p verb uri r =
     (if unencryptable (hs_headers r) then empty_response 500
      else case to_bytes_limited (ce_max_response_bytes c) (hs_body r) of
        None \<Rightarrow> empty_response 500
      | Some plaintext \<Rightarrow>
          (case kp_current p of
             None \<Rightarrow> empty_response 500
           | Some k \<Rightarrow>
               (case encrypt_response a random k verb uri (hs_status r) plaintext of
                  Inl _ \<Rightarrow> empty_response 500
                | Inr encoded \<Rightarrow>
                    \<lparr>hs_status = hs_status r,
                     hs_headers = header_insert content_key_id_header (ck_id k)
                       (header_insert content_encryption_header algorithm
                         (filter (\<lambda>(n, _). n \<noteq> ''content-length'' \<and> n \<noteq> ''transfer-encoding'') (hs_headers r))),
                     hs_body = [Chunk encoded]\<rparr>)))"

definition content_encryption_call ::
  "aead \<Rightarrow> string option \<Rightarrow> string \<Rightarrow> content_encryption \<Rightarrow> (('t, 'j) http_request \<Rightarrow> call_result) \<Rightarrow>
     ('t, 'j) http_request \<Rightarrow> call_result" where
  "content_encryption_call a random payload_error c service q =
     (case ce_provider c of
        None \<Rightarrow> service q
      | Some p \<Rightarrow>
          (case decrypt_enter a payload_error c p q of
             Inl res \<Rightarrow> res
           | Inr q' \<Rightarrow>
               (case service q' of
                  Responded r \<Rightarrow> Responded (encrypt_leave a random c p (rq_method q) (rq_target q) r)
                | res \<Rightarrow> res)))"

section \<open>Round trip\<close>

text \<open>
  What the code relies on: base64 decodes what it encodes, opening recovers what was sealed under the
  same key, nonce and associated data, and an accepted ciphertext is the sealing of its plaintext.
\<close>

definition aead_ok :: "aead \<Rightarrow> bool" where
  "aead_ok a \<longleftrightarrow>
     (\<forall>s. b64_decode a (b64_encode a s) = Some s) \<and>
     (\<forall>k n d p c. ae_seal a k n d p = Some c \<longrightarrow> length c = length p + tag_len \<and> ae_open a k n d c = Some p) \<and>
     (\<forall>k n d p c. ae_open a k n d c = Some p \<longrightarrow> ae_seal a k n d p = Some c)"

lemma aead_okD:
  assumes "aead_ok a"
  shows "b64_decode a (b64_encode a s) = Some s"
    and "ae_seal a k n d p = Some c \<Longrightarrow> length c = length p + tag_len"
    and "ae_seal a k n d p = Some c \<Longrightarrow> ae_open a k n d c = Some p"
    and "ae_open a k n d c = Some p \<Longrightarrow> ae_seal a k n d p = Some c"
  using assms unfolding aead_ok_def by blast+

lemma key_open_seal:
  assumes ok: "aead_ok a" and "length nonce = nonce_len" and seal: "key_seal a (Some nonce) k aad p = Inr encoded"
  shows "key_open a k aad encoded = Inr p"
proof -
  obtain c where c: "ae_seal a (ck_bytes k) nonce aad p = Some c" "encoded = b64_encode a (magic @ nonce @ c)"
    using seal by (auto simp: key_seal_def split: option.splits)
  have len: "length c = length p + tag_len" "ae_open a (ck_bytes k) nonce aad c = Some p"
    using aead_okD(2,3) [OF ok c(1)] by auto
  show ?thesis
    using assms(2) len by (simp add: key_open_def c(2) aead_okD(1) [OF ok] Let_def)
qed

lemma key_open_authentic:
  assumes "aead_ok a" "key_open a k aad encoded = Inr p"
  shows "\<exists>nonce c. length nonce = nonce_len \<and> b64_decode a encoded = Some (magic @ nonce @ c) \<and>
    ae_seal a (ck_bytes k) nonce aad p = Some c"
proof -
  obtain env where env: "b64_decode a encoded = Some env" "length magic + nonce_len + tag_len \<le> length env"
      "take (length magic) env = magic"
    and opened: "ae_open a (ck_bytes k) (take nonce_len (drop (length magic) env)) aad (drop (length magic + nonce_len) env) = Some p"
    using assms(2) by (auto simp: key_open_def Let_def split: option.splits if_splits)
  let ?n = "take nonce_len (drop (length magic) env)" and ?c = "drop (length magic + nonce_len) env"
  have "env = magic @ ?n @ ?c"
    using env(3) by (metis add.commute append_take_drop_id drop_drop)
  moreover have "length ?n = nonce_len" using env(2) by simp
  moreover have "ae_seal a (ck_bytes k) ?n aad p = Some ?c" using aead_okD(4) [OF assms(1) opened] .
  ultimately show ?thesis using env(1) by metis
qed

lemma collect_encoded_Inr:
  "collect_encoded perr n acc b = Inr s \<Longrightarrow> s = acc @ concat (map chunk_text b)"
  by (induction perr n acc b rule: collect_encoded.induct) (auto split: if_splits)

lemma collect_encoded_within:
  "n < u64_max \<Longrightarrow> BrokenChunk \<notin> set b \<Longrightarrow> length (acc @ concat (map chunk_text b)) \<le> n \<Longrightarrow>
   collect_encoded perr n acc b = Inr (acc @ concat (map chunk_text b))"
  by (induction perr n acc b rule: collect_encoded.induct) (auto simp: sat_add_def)

text \<open>
  C28. Encrypted content round trips through the middleware. When a client seals a body that is not empty
  under the key its headers name, and the envelope arrives within the limit, the service gets the body
  the client sealed; and when the service's answer is not itself replaced by an empty error, the client
  opens it, under the key the answer names and for the method, target and status of the exchange, to the
  body the service returned.
\<close>

theorem content_encryption_roundtrip:
  assumes ok: "aead_ok a" and provider: "ce_provider c = Some p" "kp_key p (ck_id k) = Some k" "kp_current p = Some k'"
    and nonces: "length n1 = nonce_len" "length n2 = nonce_len"
    and sealed: "encrypt_request a (Some n1) k (rq_method q) (rq_target q) plaintext = Inr encoded" "encoded \<noteq> []"
    and arrives: "BrokenChunk \<notin> set (hq_payload q)" "concat (map chunk_text (hq_payload q)) = encoded"
      "length encoded \<le> ce_max_request_bytes c" "ce_max_request_bytes c < u64_max"
    and headers: "rq_header q content_encryption_header = Some algorithm" "rq_header q content_key_id_header = Some (ck_id k)"
    and answer: "\<And>q'. hq_payload q' = [Chunk plaintext] \<Longrightarrow> service q' = Responded r"
    and sent: "content_encryption_call a (Some n2) perr c service q = Responded r'" "r' \<noteq> empty_response 500"
  shows "\<exists>reply. hs_body r' = [Chunk reply] \<and> hs_status r' = hs_status r \<and>
    header_values content_key_id_header (hs_headers r') = [ck_id k'] \<and>
    decrypt_response a k' (rq_method q) (rq_target q) (hs_status r') reply = Inr (concat (map chunk_text (hs_body r)))"
proof -
  have "decrypt_request a k (rq_method q) (rq_target q) encoded = Inr plaintext"
    using key_open_seal [OF ok nonces(1)] sealed(1) by (simp add: encrypt_request_def decrypt_request_def)
  then have body: "\<exists>q'. decrypt_body a p q encoded = Inr q' \<and> hq_payload q' = [Chunk plaintext]"
    using headers provider(2) by (simp add: decrypt_body_def)
  have "collect_encoded perr (ce_max_request_bytes c) [] (hq_payload q) = Inr encoded"
    using collect_encoded_within [OF arrives(4,1), of "[]" perr] arrives(2,3) by simp
  then obtain q' where q': "decrypt_enter a perr c p q = Inr q'" "hq_payload q' = [Chunk plaintext]"
    using body sealed(2) by (auto simp: decrypt_enter_def)
  then have "r' = encrypt_leave a (Some n2) c p (rq_method q) (rq_target q) r"
    using sent(1) answer [OF q'(2)] by (simp add: content_encryption_call_def provider(1))
  then obtain reply where reply: "encrypt_response a (Some n2) k' (rq_method q) (rq_target q) (hs_status r)
        (concat (map chunk_text (hs_body r))) = Inr reply" "hs_status r' = hs_status r" "hs_body r' = [Chunk reply]"
      "header_values content_key_id_header (hs_headers r') = [ck_id k']"
    using sent(2) provider(3)
    by (auto simp: encrypt_leave_def to_bytes_limited_def Let_def split: if_splits option.splits sum.splits)
  then have "decrypt_response a k' (rq_method q) (rq_target q) (hs_status r') reply = Inr (concat (map chunk_text (hs_body r)))"
    using key_open_seal [OF ok nonces(2)] by (simp add: encrypt_response_def decrypt_response_def)
  with reply show ?thesis by blast
qed


section \<open>Associated data\<close>

lemma show_nat_no_nul: "nul \<notin> set (show_nat n)"
proof
  assume "nul \<in> set (show_nat n)"
  then obtain d where "d < 10" "nul = digit_char d" using show_nat_digits by blast
  then have "of_char nul = (of_char (digit_char d) :: nat)" by simp
  then show False using \<open>d < 10\<close> by (simp add: digit_char_def)
qed

text \<open>
  The associated data determines direction, method, target and status: methods and targets contain no
  NUL character.
\<close>

lemma aad_injective:
  assumes "nul \<notin> set m" "nul \<notin> set m'" "nul \<notin> set u" "nul \<notin> set u'"
  shows "request_aad m u = request_aad m' u' \<longleftrightarrow> m = m' \<and> u = u'"
    and "response_aad m u s = response_aad m' u' s' \<longleftrightarrow> m = m' \<and> u = u' \<and> s = s'"
    and "request_aad m u \<noteq> response_aad m' u' s"
proof -
  have split: "split_on nul (x @ nul # xs) = x # split_on nul xs" if "nul \<notin> set x" for x xs
    using split_on_append [OF that] .
  have req: "split_on nul (m @ nul # u) = [m, u]" "split_on nul (m' @ nul # u') = [m', u']"
    using assms by (simp_all add: split split_on_no_sep)
  have res: "split_on nul (m @ nul # u @ nul # show_nat s) = [m, u, show_nat s]" 
    "split_on nul (m' @ nul # u' @ nul # show_nat s') = [m', u', show_nat s']" for s s'
    using assms by (simp_all add: split split_on_no_sep show_nat_no_nul)
  show "request_aad m u = request_aad m' u' \<longleftrightarrow> m = m' \<and> u = u'"
  proof
    assume "request_aad m u = request_aad m' u'"
    then have "m @ nul # u = m' @ nul # u'" by (simp add: request_aad_def)
    then have "split_on nul (m @ nul # u) = split_on nul (m' @ nul # u')" by (rule arg_cong)
    then show "m = m' \<and> u = u'" by (simp only: req) simp
  qed simp
  show "response_aad m u s = response_aad m' u' s' \<longleftrightarrow> m = m' \<and> u = u' \<and> s = s'"
  proof
    assume "response_aad m u s = response_aad m' u' s'"
    then have "m @ nul # u @ nul # show_nat s = m' @ nul # u' @ nul # show_nat s'" by (simp add: response_aad_def)
    then have "split_on nul (m @ nul # u @ nul # show_nat s) = split_on nul (m' @ nul # u' @ nul # show_nat s')" by (rule arg_cong)
    then show "m = m' \<and> u = u' \<and> s = s'" using show_nat_inj [of s s'] by (simp only: res) simp
  qed simp
  show "request_aad m u \<noteq> response_aad m' u' s"
    by (simp add: request_aad_def response_aad_def)
qed

section \<open>Rotation\<close>

text \<open>
  Adding a key for decryption changes neither the key that encrypts nor any other key, and every key of
  a provider is found under its own identifier.
\<close>

lemma with_decryption_key_ok:
  assumes "with_decryption_key k p = Inr p'" "current_key p = Some k0"
  shows "current_key p' = Some k0" and "provider_key p' (ck_id k) = Some k"
    and "provider_key p i = Some ki \<Longrightarrow> provider_key p' i = Some ki"
  using assms by (auto simp: with_decryption_key_def current_key_def provider_key_def update_conv' split: if_splits)

section \<open>Witnesses\<close>

text \<open>A cipher that meets the contract: sixteen bytes of key, nonce and associated data follow the plaintext.\<close>

definition example_tag :: "string \<Rightarrow> string \<Rightarrow> string \<Rightarrow> string" where
  "example_tag k n d = take 16 (rev d @ n @ k @ replicate 16 (CHR ''t''))"

definition example_aead :: aead where
  "example_aead = \<lparr>ae_seal = (\<lambda>k n d p. Some (p @ example_tag k n d)),
     ae_open = (\<lambda>k n d c. if 16 \<le> length c \<and> drop (length c - 16) c = example_tag k n d
                 then Some (take (length c - 16) c) else None),
     b64_encode = id, b64_decode = Some\<rparr>"

lemma length_example_tag [simp]: "length (example_tag k n d) = 16"
  by (simp add: example_tag_def)

lemma example_aead_ok: "aead_ok example_aead"
proof -
  have "c = take (length c - 16) c @ example_tag k n d"
    if "drop (length c - 16) c = example_tag k n d" for c k n d
    using that append_take_drop_id [of "length c - 16" c] by simp
  then show ?thesis by (simp add: aead_ok_def example_aead_def tag_len_def)
qed

definition example_key :: content_key where
  "example_key = \<lparr>ck_id = ''k1'', ck_bytes = ''0123''\<rparr>"

definition example_provider :: key_provider where
  "example_provider = \<lparr>kp_current = Some example_key, kp_key = (\<lambda>i. if i = ''k1'' then Some example_key else None)\<rparr>"

definition example_layer :: content_encryption where
  "example_layer = \<lparr>ce_provider = Some example_provider, ce_max_request_bytes = 100, ce_max_response_bytes = 100\<rparr>"

definition example_nonce :: string where
  "example_nonce = ''abcdefghijkl''"

definition sealed_request :: "(unit, unit) http_request" where
  "sealed_request = posted\<lparr>hq_payload := [Chunk (magic @ example_nonce @ ''hello'' @
       example_tag ''0123'' example_nonce (request_aad ''POST'' ''/''))],
     rq_header := (\<lambda>_. None)(content_encryption_header := Some algorithm, content_key_id_header := Some ''k1'')\<rparr>"

lemmas example_defs = example_key_def example_provider_def example_layer_def example_nonce_def sealed_request_def posted_def
  content_encryption_header_def content_key_id_header_def algorithm_def magic_def nonce_len_def

theorem content_encryption_roundtrip_witness:
  "\<exists>r' reply. content_encryption_call example_aead (Some example_nonce) [] example_layer
      (\<lambda>q. Responded (text_response 200 ''world'')) sealed_request = Responded r' \<and> hs_body r' = [Chunk reply] \<and>
    decrypt_response example_aead example_key ''POST'' ''/'' 200 reply = Inr ''world''"
proof -
  let ?r = "text_response 200 ''world''" and ?service = "\<lambda>q :: (unit, unit) http_request. Responded (text_response 200 ''world'')"
  let ?encoded = "magic @ example_nonce @ ''hello'' @ example_tag ''0123'' example_nonce (request_aad ''POST'' ''/'')"
  have sealed: "encrypt_request example_aead (Some example_nonce) example_key (rq_method sealed_request) (rq_target sealed_request) ''hello'' =
      Inr ?encoded"
    by (simp add: encrypt_request_def key_seal_def example_aead_def example_defs)
  have body: "concat (map chunk_text (hq_payload sealed_request)) = ?encoded" "BrokenChunk \<notin> set (hq_payload sealed_request)"
    by (simp_all add: sealed_request_def)
  have open_ok: "decrypt_request example_aead example_key ''POST'' ''/'' ?encoded = Inr ''hello''"
    using key_open_seal [OF example_aead_ok, of example_nonce] sealed
    by (simp add: encrypt_request_def decrypt_request_def example_defs)
  have "collect_encoded [] (ce_max_request_bytes example_layer) [] (hq_payload sealed_request) = Inr ?encoded"
    using collect_encoded_within [of 100 "hq_payload sealed_request" "[]" "[]"] body
    by (simp add: example_defs u64_max_def)
  then have "\<exists>q'. decrypt_enter example_aead [] example_layer example_provider sealed_request = Inr q'"
    using open_ok by (simp add: decrypt_enter_def decrypt_body_def example_defs)
  then obtain r' where r': "content_encryption_call example_aead (Some example_nonce) [] example_layer ?service sealed_request = Responded r'"
      "r' = encrypt_leave example_aead (Some example_nonce) example_layer example_provider ''POST'' ''/'' ?r"
    by (auto simp: content_encryption_call_def example_layer_def sealed_request_def posted_def)
  have hyps: "ce_provider example_layer = Some example_provider" "kp_key example_provider (ck_id example_key) = Some example_key"
      "kp_current example_provider = Some example_key" "length example_nonce = nonce_len" "?encoded \<noteq> []"
      "length ?encoded \<le> ce_max_request_bytes example_layer" "ce_max_request_bytes example_layer < u64_max"
      "rq_header sealed_request content_encryption_header = Some algorithm"
      "rq_header sealed_request content_key_id_header = Some (ck_id example_key)"
    by (simp_all add: example_defs u64_max_def)
  have "r' \<noteq> empty_response 500"
    by (simp add: r'(2) encrypt_leave_def unencryptable_def header_text_def header_values_def text_response_def
        to_bytes_limited_def encrypt_response_def key_seal_def example_aead_def empty_response_def example_defs)
  from content_encryption_roundtrip [OF example_aead_ok hyps(1,2,3,4,4) sealed hyps(5) body(2,1) hyps(6,7,8,9) refl r'(1) this]
  show ?thesis using r'(1) by (auto simp: text_response_def sealed_request_def posted_def)
qed


end
