(* ===== verification/Rest_Server.thy ===== *)
theory Rest_Server
  imports Content_Encryption
begin

text \<open>
  \<open>rest/src/server.rs\<close>: the configuration of the HTTP server and its validation, the server with its
  shared state, and the standard stack of middleware around the handlers, in the order in which
  \<open>standard_app!\<close> wraps them. Parsers of the HTTP library, the CORS middleware, the observers (logging,
  tracing, metrics) and the handlers are arguments. \<open>Option\<close> results stand for the assertions of the
  constructors.
\<close>

section \<open>Configuration\<close>

record tls_config =
  tc_certificate_pem :: string
  tc_private_key_pem :: string
  tc_client_ca_pem :: "string option"

record cors_config =
  cc_allowed_origins :: "string list"
  cc_allowed_methods :: "string list"
  cc_allowed_headers :: "string list"
  cc_exposed_headers :: "string list"
  cc_allow_credentials :: bool
  cc_max_age_seconds :: "nat option"
  cc_automatic_preflight :: bool

record server_config =
  sv_address :: string
  sv_workers :: nat
  sv_shutdown_timeout_ms :: nat
  sv_request_timeout_ms :: nat
  sv_max_body_bytes :: nat
  sv_max_multipart_field_bytes :: nat
  sv_max_multipart_file_bytes :: nat
  sv_max_multipart_total_bytes :: nat
  sv_multipart_temp_dir :: "string option"
  sv_max_concurrent_requests :: nat
  sv_priority_concurrency_reserve :: nat
  sv_rate_limit_requests_per_second :: "nat option"
  sv_rate_limit_burst :: "nat option"
  sv_adaptive_load_shedding :: bool
  sv_server_circuit_breaking :: bool
  sv_load_shed_cpu_threshold_percent :: nat
  sv_load_shed_bucket_ms :: nat
  sv_load_shed_buckets :: nat
  sv_load_shed_cooldown_ms :: nat
  sv_logging :: bool
  sv_recovery :: bool
  sv_tracing :: bool
  sv_metrics :: bool
  sv_security_headers :: bool
  sv_request_ids :: bool
  sv_decompress_gzip :: bool
  sv_metrics_namespace :: string
  sv_tls :: "tls_config option"
  sv_cors :: "cors_config option"
  sv_route_groups :: "route_group_config list"

definition server_config_default :: server_config where
  "server_config_default =
     \<lparr>sv_address = ''0.0.0.0:8080'', sv_workers = 1, sv_shutdown_timeout_ms = 30000, sv_request_timeout_ms = 10000,
      sv_max_body_bytes = 4 * 1024 * 1024, sv_max_multipart_field_bytes = 64 * 1024,
      sv_max_multipart_file_bytes = 4 * 1024 * 1024, sv_max_multipart_total_bytes = 4 * 1024 * 1024,
      sv_multipart_temp_dir = None, sv_max_concurrent_requests = 1024, sv_priority_concurrency_reserve = 256,
      sv_rate_limit_requests_per_second = None, sv_rate_limit_burst = None,
      sv_adaptive_load_shedding = True, sv_server_circuit_breaking = True,
      sv_load_shed_cpu_threshold_percent = 90, sv_load_shed_bucket_ms = 1000, sv_load_shed_buckets = 10,
      sv_load_shed_cooldown_ms = 1000, sv_logging = True, sv_recovery = True, sv_tracing = True,
      sv_metrics = True, sv_security_headers = True, sv_request_ids = True, sv_decompress_gzip = True,
      sv_metrics_namespace = ''rust_zero'', sv_tls = None, sv_cors = None, sv_route_groups = []\<rparr>"

definition cors_config_default :: cors_config where
  "cors_config_default =
     \<lparr>cc_allowed_origins = [],
      cc_allowed_methods = [''GET'', ''HEAD'', ''POST'', ''PUT'', ''PATCH'', ''DELETE'', ''OPTIONS''],
      cc_allowed_headers = [], cc_exposed_headers = [], cc_allow_credentials = False,
      cc_max_age_seconds = Some 3600, cc_automatic_preflight = True\<rparr>"

definition cors_config_new :: "string list \<Rightarrow> cors_config" where
  "cors_config_new origins = cors_config_default\<lparr>cc_allowed_origins := origins\<rparr>"

datatype server_config_error =
    InvalidConfig string
  | MetricsError string
  | RoutePolicyError route_error
  | RouteMiddlewareError string
  | TlsError string

section \<open>Validation\<close>

text \<open>
  \<open>uri_of\<close> is \<open>str::parse::<Uri>\<close>, reduced to the parts that are looked at, \<open>method_of\<close> is
  \<open>Method::from_bytes\<close> and \<open>header_name_of\<close> is \<open>HeaderName::from_bytes\<close>. Names with white space beyond ASCII
  at an end are no valid names, so \<open>trim\<close> of the ASCII white space decides the same.
\<close>

record uri_parts =
  up_scheme :: "string option"
  up_authority :: "string option"
  up_path :: string
  up_query :: "string option"

record http_libs =
  hl_uri :: "string \<Rightarrow> uri_parts option"
  hl_method :: "string \<Rightarrow> string option"
  hl_header_name :: "string \<Rightarrow> bool"

definition tls_validate :: "tls_config \<Rightarrow> server_config_error + unit" where
  "tls_validate t =
     in_order
      [check (is_blank (tc_certificate_pem t)) (InvalidConfig ''TLS certificate must not be empty''),
       check (is_blank (tc_private_key_pem t)) (InvalidConfig ''TLS private key must not be empty''),
       check (case tc_client_ca_pem t of None \<Rightarrow> False | Some v \<Rightarrow> is_blank v) (InvalidConfig ''TLS client CA must not be empty'')]"

definition validate_wildcard_list :: "string list \<Rightarrow> string \<Rightarrow> server_config_error + unit" where
  "validate_wildcard_list values message =
     check (''*'' \<in> set values \<and> values \<noteq> [''*'']) (InvalidConfig message)"

definition validate_header_list :: "http_libs \<Rightarrow> string list \<Rightarrow> string \<Rightarrow> server_config_error + unit" where
  "validate_header_list h hs field =
     and_then (validate_wildcard_list hs ''CORS header lists must contain either * or explicit header names'') (\<lambda>_.
       check_all (\<lambda>n. check (n \<noteq> ''*'' \<and> (trim n \<noteq> n \<or> \<not> hl_header_name h n)) (InvalidConfig field)) hs)"

definition valid_origin :: "http_libs \<Rightarrow> string \<Rightarrow> bool" where
  "valid_origin h origin \<longleftrightarrow>
     origin = ''*'' \<or> origin = ''null'' \<or>
     (case hl_uri h origin of
        None \<Rightarrow> False
      | Some u \<Rightarrow> up_scheme u \<noteq> None \<and> up_authority u \<noteq> None \<and> up_path u = ''/'' \<and> up_query u = None)"

definition cors_validate :: "http_libs \<Rightarrow> cors_config \<Rightarrow> server_config_error + unit" where
  "cors_validate h c =
     in_order
      [check (cc_allowed_origins c = []) (InvalidConfig ''CORS allowed_origins must not be empty''),
       validate_wildcard_list (cc_allowed_origins c) ''CORS allowed_origins must contain either * or explicit origins'',
       check_all (\<lambda>origin. check (\<not> valid_origin h origin)
         (InvalidConfig ''CORS allowed_origins must contain valid serialized origins'')) (cc_allowed_origins c),
       check (cc_allowed_methods c = []) (InvalidConfig ''CORS allowed_methods must not be empty''),
       validate_wildcard_list (cc_allowed_methods c) ''CORS allowed_methods must contain either * or explicit methods'',
       check_all (\<lambda>m. check (m \<noteq> ''*'' \<and> (trim m \<noteq> m \<or> hl_method h m = None))
         (InvalidConfig ''CORS allowed_methods contains an invalid HTTP method'')) (cc_allowed_methods c),
       validate_header_list h (cc_allowed_headers c) ''CORS allowed_headers contains an invalid HTTP header name'',
       validate_header_list h (cc_exposed_headers c) ''CORS exposed_headers contains an invalid HTTP header name'']"

definition server_config_validate :: "http_libs \<Rightarrow> server_config \<Rightarrow> server_config_error + unit" where
  "server_config_validate h c =
     in_order
      [check (sv_workers c = 0) (InvalidConfig ''workers must be greater than zero''),
       check (sv_shutdown_timeout_ms c = 0) (InvalidConfig ''shutdown_timeout_ms must be greater than zero''),
       check (sv_request_timeout_ms c = 0) (InvalidConfig ''request_timeout_ms must be greater than zero''),
       check (sv_max_body_bytes c = 0) (InvalidConfig ''max_body_bytes must be greater than zero''),
       check (sv_max_multipart_field_bytes c = 0) (InvalidConfig ''max_multipart_field_bytes must be greater than zero''),
       check (sv_max_multipart_file_bytes c = 0) (InvalidConfig ''max_multipart_file_bytes must be greater than zero''),
       check (sv_max_multipart_total_bytes c = 0) (InvalidConfig ''max_multipart_total_bytes must be greater than zero''),
       check (sv_max_multipart_total_bytes c < sv_max_multipart_field_bytes c)
         (InvalidConfig ''max_multipart_field_bytes must not exceed max_multipart_total_bytes''),
       check (sv_max_multipart_total_bytes c < sv_max_multipart_file_bytes c)
         (InvalidConfig ''max_multipart_file_bytes must not exceed max_multipart_total_bytes''),
       check (sv_max_body_bytes c < sv_max_multipart_total_bytes c)
         (InvalidConfig ''max_multipart_total_bytes must not exceed max_body_bytes''),
       check (sv_max_concurrent_requests c = 0) (InvalidConfig ''max_concurrent_requests must be greater than zero''),
       check (sv_priority_concurrency_reserve c = 0) (InvalidConfig ''priority_concurrency_reserve must be greater than zero''),
       check ((sv_rate_limit_requests_per_second c \<noteq> None) \<noteq> (sv_rate_limit_burst c \<noteq> None))
         (InvalidConfig ''rate_limit_requests_per_second and rate_limit_burst must be configured together''),
       check (sv_rate_limit_requests_per_second c = Some 0) (InvalidConfig ''rate_limit_requests_per_second must be greater than zero''),
       check (sv_rate_limit_burst c = Some 0) (InvalidConfig ''rate_limit_burst must be greater than zero''),
       check (\<not> (1 \<le> sv_load_shed_cpu_threshold_percent c \<and> sv_load_shed_cpu_threshold_percent c \<le> 100))
         (InvalidConfig ''load_shed_cpu_threshold_percent must be between 1 and 100''),
       check (sv_load_shed_bucket_ms c = 0) (InvalidConfig ''load_shed_bucket_ms must be greater than zero''),
       check (sv_load_shed_buckets c = 0) (InvalidConfig ''load_shed_buckets must be greater than zero''),
       check (sv_load_shed_cooldown_ms c = 0) (InvalidConfig ''load_shed_cooldown_ms must be greater than zero''),
       check (sv_metrics c \<and> is_blank (sv_metrics_namespace c))
         (InvalidConfig ''metrics_namespace must not be empty when metrics are enabled''),
       (case sv_tls c of None \<Rightarrow> Inr () | Some t \<Rightarrow> tls_validate t),
       (case sv_cors c of None \<Rightarrow> Inr () | Some x \<Rightarrow> cors_validate h x),
       (case compile (hl_method h) (sv_route_groups c) of Inl e \<Rightarrow> Inl (RoutePolicyError e) | Inr _ \<Rightarrow> Inr ())]"

section \<open>What the listener is given\<close>

text \<open>The PEM reader and the TLS library; errors are their texts.\<close>

record ('c, 'k, 'v, 's) tls_libs =
  tl_certificates :: "string \<Rightarrow> string + 'c list"
  tl_private_key :: "string \<Rightarrow> string + 'k"
  tl_root :: "'c \<Rightarrow> string + unit"
  tl_verifier :: "'c list \<Rightarrow> string + 'v"
  tl_single_cert :: "'v option \<Rightarrow> 'c list \<Rightarrow> 'k \<Rightarrow> string + 's"

definition tls_error :: "string + 'a \<Rightarrow> server_config_error + 'a" where
  "tls_error r = (case r of Inl e \<Rightarrow> Inl (TlsError e) | Inr x \<Rightarrow> Inr x)"

definition client_verifier :: "('c, 'k, 'v, 's) tls_libs \<Rightarrow> string \<Rightarrow> server_config_error + 'v" where
  "client_verifier t client_ca =
     and_then (tls_error (tl_certificates t client_ca)) (\<lambda>roots.
       if roots = [] then Inl (TlsError ''TLS client CA PEM contains no certificates'')
       else and_then (tls_error (check_all (tl_root t) roots)) (\<lambda>_. tls_error (tl_verifier t roots)))"

definition rustls_config :: "('c, 'k, 'v, 's) tls_libs \<Rightarrow> tls_config \<Rightarrow> server_config_error + 's" where
  "rustls_config t c =
     and_then (tls_validate c) (\<lambda>_.
     and_then (tls_error (tl_certificates t (tc_certificate_pem c))) (\<lambda>certificates.
       if certificates = [] then Inl (TlsError ''TLS certificate PEM contains no certificates'')
       else and_then (tls_error (tl_private_key t (tc_private_key_pem c))) (\<lambda>key.
         and_then
           (case tc_client_ca_pem c of
              None \<Rightarrow> Inr None
            | Some ca \<Rightarrow> and_then (client_verifier t ca) (\<lambda>v. Inr (Some v)))
           (\<lambda>verifier. tls_error (tl_single_cert t verifier certificates key)))))"

text \<open>The settings of the CORS middleware: \<open>None\<close> where any value is allowed.\<close>

record cors_settings =
  cs_origins :: "string list option"
  cs_methods :: "string list option"
  cs_headers :: "string list option"
  cs_exposed :: "string list option"
  cs_max_age :: "nat option"
  cs_credentials :: bool
  cs_preflight :: bool

definition wildcard :: "string list \<Rightarrow> string list option" where
  "wildcard values = (if values = [''*''] then None else Some values)"

definition cors_middleware :: "cors_config \<Rightarrow> cors_settings" where
  "cors_middleware c =
     \<lparr>cs_origins = wildcard (cc_allowed_origins c), cs_methods = wildcard (cc_allowed_methods c),
      cs_headers = wildcard (cc_allowed_headers c), cs_exposed = wildcard (cc_exposed_headers c),
      cs_max_age = cc_max_age_seconds c, cs_credentials = cc_allow_credentials c, cs_preflight = cc_automatic_preflight c\<rparr>"

section \<open>The server\<close>

type_synonym ('t, 'j, 's) service = "('t, 'j) http_request \<Rightarrow> 's \<Rightarrow> call_result \<times> 's"

record 'm rest_server =
  re_config :: server_config
  re_route_policies :: "compiled_policy list"
  re_content_encryption :: "content_encryption option"
  re_route_middleware :: "(string, 'm) hmap"
  re_adaptive_shedder :: shedder
  re_server_breaker :: server_breakers

definition server_shedder_config :: "server_config \<Rightarrow> shedder_config option" where
  "server_shedder_config c =
     Option.bind (shedder_config_production (sv_max_concurrent_requests c)) (\<lambda>s0.
     Option.bind (with_cpu_threshold (f_div (f_nat (sv_load_shed_cpu_threshold_percent c)) (f_nat 100)) s0) (\<lambda>s1.
     Option.bind (with_rolling_window (duration_from_millis (sv_load_shed_bucket_ms c)) (sv_load_shed_buckets c) s1) (\<lambda>s2.
     with_cooldown (duration_from_millis (sv_load_shed_cooldown_ms c)) s2)))"

text \<open>\<open>new_metrics\<close> is \<open>HttpMetrics::new\<close> on the namespace: the error it reports, if any.\<close>

definition rest_server_new ::
  "http_libs \<Rightarrow> (string \<Rightarrow> string option) \<Rightarrow> instant \<Rightarrow> server_config \<Rightarrow> (server_config_error + 'm rest_server) option" where
  "rest_server_new h new_metrics now c =
     (case server_config_validate h c of
        Inl e \<Rightarrow> Some (Inl e)
      | Inr _ \<Rightarrow>
          (case new_metrics (sv_metrics_namespace c) of
             Some e \<Rightarrow> Some (Inl (MetricsError e))
           | None \<Rightarrow>
               (case compile (hl_method h) (sv_route_groups c) of
                  Inl e \<Rightarrow> Some (Inl (RoutePolicyError e))
                | Inr policies \<Rightarrow>
                    map_option (\<lambda>s. Inr \<lparr>re_config = c, re_route_policies = policies, re_content_encryption = None,
                        re_route_middleware = [], re_adaptive_shedder = shedder_new s now,
                        re_server_breaker = server_breaker_new (breaker_config_rolling rolling_config_new)\<rparr>)
                      (server_shedder_config c))))"

definition with_route_middleware :: "string \<Rightarrow> 'm \<Rightarrow> 'm rest_server \<Rightarrow> server_config_error + 'm rest_server" where
  "with_route_middleware name m s =
     (if is_blank name then Inl (RouteMiddlewareError ''middleware name must not be empty'')
      else if map_of (re_route_middleware s) name \<noteq> None
      then Inl (RouteMiddlewareError (''middleware '' @ [CHR 0x27] @ name @ [CHR 0x27] @ '' is already registered''))
      else Inr (s\<lparr>re_route_middleware := AList.update name m (re_route_middleware s)\<rparr>))"

definition with_content_encryption :: "content_encryption \<Rightarrow> 'm rest_server \<Rightarrow> 'm rest_server" where
  "with_content_encryption e s = s\<lparr>re_content_encryption := Some e\<rparr>"

definition with_server_circuit_breaker :: "breaker_config \<Rightarrow> 'm rest_server \<Rightarrow> 'm rest_server" where
  "with_server_circuit_breaker b s =
     s\<lparr>re_server_breaker := server_breaker_new b, re_config := (re_config s)\<lparr>sv_server_circuit_breaking := True\<rparr>\<rparr>"

definition without_server_circuit_breaker :: "'m rest_server \<Rightarrow> 'm rest_server" where
  "without_server_circuit_breaker s = s\<lparr>re_config := (re_config s)\<lparr>sv_server_circuit_breaking := False\<rparr>\<rparr>"

definition shutdown_seconds :: "server_config \<Rightarrow> nat" where
  "shutdown_seconds c = (sv_shutdown_timeout_ms c + 999) div 1000"

section \<open>The standard stack\<close>

text \<open>What the layers share between requests; breakers and shedder come from the server, the rest is per application.\<close>

record stack =
  st_breakers :: server_breakers
  st_seed :: "64 word"
  st_shedder :: shedder
  st_concurrency :: concurrency
  st_rate :: rate_limit
  st_next_id :: "64 word"

text \<open>What a request meets outside the program: clock readings, the CPU usage, the time it takes, a nonce.\<close>

record surroundings =
  su_unix :: nat
  su_breaker :: instant
  su_return :: instant
  su_shed :: instant
  su_usage :: f64
  su_rate :: instant
  su_elapsed :: duration
  su_nonce :: "string option"
  su_payload_error :: string

record layers =
  la_timeout :: timeout_layer
  la_body_limit :: body_limit
  la_encryption :: content_encryption

text \<open>The constructors that \<open>standard_app!\<close> runs, with their assertions.\<close>

definition app_layers :: "server_config \<Rightarrow> content_encryption option \<Rightarrow> layers option" where
  "app_layers c enc =
     Option.bind (timeout_new (duration_from_millis (sv_request_timeout_ms c))) (\<lambda>t.
     map_option (\<lambda>b. \<lparr>la_timeout = t, la_body_limit = b\<lparr>bo_decompress_gzip := sv_decompress_gzip c\<rparr>,
         la_encryption = unwrap_or (content_encryption_disabled (sv_max_body_bytes c)) enc\<rparr>)
       (body_limit_new (sv_max_body_bytes c)))"

definition app_state :: "nat \<Rightarrow> 64 word \<Rightarrow> instant \<Rightarrow> 'm rest_server \<Rightarrow> stack option" where
  "app_state max_permits seed now s =
     (let c = re_config s in
      Option.bind (concurrency_new max_permits (sv_max_concurrent_requests c)) (\<lambda>l0.
      Option.bind (with_priority_reserve max_permits (sv_priority_concurrency_reserve c) l0) (\<lambda>l.
      map_option (\<lambda>r. \<lparr>st_breakers = re_server_breaker s, st_seed = seed, st_shedder = re_adaptive_shedder s,
          st_concurrency = l, st_rate = r, st_next_id = 1\<rparr>)
        (rate_limit_new (unwrap_or 1 (sv_rate_limit_requests_per_second c)) (unwrap_or 1 (sv_rate_limit_burst c)) now))))"

definition recovery_layer :: "('t, 'j, 's) service \<Rightarrow> ('t, 'j, 's) service" where
  "recovery_layer svc q s = (let (res, s') = svc q s in (recover_call ''internal server error'' res, s'))"

definition security_layer :: "('t, 'j, 's) service \<Rightarrow> ('t, 'j, 's) service" where
  "security_layer svc q s = (let (res, s') = svc q s in (security_leave security_headers_default res, s'))"

definition request_id_layer :: "(string \<Rightarrow> bool) \<Rightarrow> ('t, 'j, stack) service \<Rightarrow> ('t, 'j, stack) service" where
  "request_id_layer valid svc q s =
     (let (i, q', k) = request_id_enter ''x-request-id'' (st_next_id s) q;
          (res, s') = svc q' (s\<lparr>st_next_id := k\<rparr>) in
      (request_id_leave valid ''x-request-id'' i res, s'))"

definition deadline_layer :: "surroundings \<Rightarrow> timeout_layer \<Rightarrow> ('t, 'j, 's) service \<Rightarrow> ('t, 'j, 's) service" where
  "deadline_layer u l svc q s =
     (let (res, s') = svc q s in (timeout_call l (rr_policy q) (su_elapsed u) res, s'))"

definition rate_layer :: "surroundings \<Rightarrow> ('t, 'j, stack) service \<Rightarrow> ('t, 'j, stack) service" where
  "rate_layer u svc q s =
     (case rate_limit_enter (su_rate u) (st_rate s) of
        None \<Rightarrow> (Panicked, s)
      | Some (Some r, l) \<Rightarrow> (Responded r, s\<lparr>st_rate := l\<rparr>)
      | Some (None, l) \<Rightarrow> svc q (s\<lparr>st_rate := l\<rparr>))"

definition overloaded_response :: http_response where
  "overloaded_response = text_response 503 ''server is overloaded''"

definition concurrency_layer :: "('t, 'j, stack) service \<Rightarrow> ('t, 'j, stack) service" where
  "concurrency_layer svc q s =
     (case concurrency_enter (policy_priority (rr_policy q)) (st_concurrency s) of
        (None, l) \<Rightarrow> (Responded overloaded_response, s\<lparr>st_concurrency := l\<rparr>)
      | (Some sl, l) \<Rightarrow>
          let (res, s') = svc q (s\<lparr>st_concurrency := l\<rparr>) in
          (res, s'\<lparr>st_concurrency := concurrency_leave sl (st_concurrency s')\<rparr>))"

text \<open>The permit of the shedder stays with the body of a response; otherwise it is dropped.\<close>

definition shed_layer :: "surroundings \<Rightarrow> ('t, 'j, stack) service \<Rightarrow> ('t, 'j, stack) service" where
  "shed_layer u svc q s =
     (case try_acquire (su_usage u) (su_shed u) (st_shedder s) of
        (None, sh) \<Rightarrow> (Responded overloaded_response, s\<lparr>st_shedder := sh\<rparr>)
      | (Some started, sh) \<Rightarrow>
          let (res, s') = svc q (s\<lparr>st_shedder := sh\<rparr>) in
          (case res of
             Responded _ \<Rightarrow> (res, s')
           | _ \<Rightarrow> (res, s'\<lparr>st_shedder := permit_drop started (su_return u) (st_shedder s')\<rparr>)))"

definition breaker_layer :: "surroundings \<Rightarrow> ('t, 'j, stack) service \<Rightarrow> ('t, 'j, stack) service" where
  "breaker_layer u svc q s =
     (let route = breaker_route (rq_method q) (rr_match_pattern q) in
      case server_breaker_enter (su_breaker u) route (st_seed s) (st_breakers s) of
        None \<Rightarrow> (Panicked, s)
      | Some (None, v, seed) \<Rightarrow>
          (Responded (text_response 503 ''HTTP route circuit breaker is open''), s\<lparr>st_breakers := v, st_seed := seed\<rparr>)
      | Some (Some permit, v, seed) \<Rightarrow>
          let (res, s') = svc q (s\<lparr>st_breakers := v, st_seed := seed\<rparr>) in
          (res,
           case map_of (vb_by_route (st_breakers s')) route of
             None \<Rightarrow> s'
           | Some b \<Rightarrow>
               (case server_breaker_return (su_return u) permit res b of
                  Inr _ \<Rightarrow> s'
                | Inl b' \<Rightarrow> s'\<lparr>st_breakers := (st_breakers s')\<lparr>vb_by_route := AList.update route b' (vb_by_route (st_breakers s'))\<rparr>\<rparr>)))"

definition body_limit_layer :: "(string \<Rightarrow> nat \<Rightarrow> string option) \<Rightarrow> body_limit \<Rightarrow> ('t, 'j, 's) service \<Rightarrow> ('t, 'j, 's) service" where
  "body_limit_layer gunzip l svc q s =
     (case body_limit_enter gunzip l q of Inl r \<Rightarrow> (Responded r, s) | Inr q' \<Rightarrow> svc q' s)"

definition encryption_layer ::
  "aead \<Rightarrow> surroundings \<Rightarrow> content_encryption \<Rightarrow> ('t, 'j, 's) service \<Rightarrow> ('t, 'j, 's) service" where
  "encryption_layer a u c svc q s =
     (case ce_provider c of
        None \<Rightarrow> svc q s
      | Some p \<Rightarrow>
          (case decrypt_enter a (su_payload_error u) c p q of
             Inl res \<Rightarrow> (res, s)
           | Inr q' \<Rightarrow>
               let (res, s') = svc q' s in
               (case res of
                  Responded r \<Rightarrow> (Responded (encrypt_leave a (su_nonce u) c p (rq_method q) (rq_target q) r), s')
                | _ \<Rightarrow> (res, s'))))"

definition quoted :: "string \<Rightarrow> string" where
  "quoted s = [CHR 0x22] @ s @ [CHR 0x22]"

definition unauthorized_response :: "auth_failure \<Rightarrow> http_response" where
  "unauthorized_response f =
     \<lparr>hs_status = 401, hs_headers = [(''www-authenticate'', ''Bearer''), (''content-type'', ''application/json'')],
      hs_body = [Chunk (''{'' @ quoted ''code'' @ '':'' @ quoted (failure_code f) @ '','' @
                        quoted ''message'' @ '':'' @ quoted (failure_message f) @ ''}'')]\<rparr>"

definition sse_response :: "http_response \<Rightarrow> http_response" where
  "sse_response r = r\<lparr>hs_headers :=
     header_insert ''x-accel-buffering'' ''no''
       (header_insert ''cache-control'' ''no-cache, no-transform''
         (header_insert ''content-type'' ''text/event-stream'' (hs_headers r)))\<rparr>"

text \<open>The chain panics when a name is not registered; \<open>with_middleware\<close> excludes that when the application is built.\<close>

definition policy_layer ::
  "'j libs \<Rightarrow> surroundings \<Rightarrow> (('j, 'j) http_request \<Rightarrow> ('j, 'j, 's) service \<Rightarrow> 's \<Rightarrow> call_result \<times> 's) route_policies \<Rightarrow>
     ('j, 'j, 's) service \<Rightarrow> ('j, 'j, 's) service" where
  "policy_layer l u ps svc q s =
     (let policy = find_policy (rq_method q) (unwrap_or (rr_path q) (rr_match_pattern q)) ps in
      case authorize l (su_unix u) policy q of
        Inl failure \<Rightarrow> (Responded (unauthorized_response failure), s)
      | Inr q1 \<Rightarrow>
          (case build_chain (ro_middleware ps) (case policy of None \<Rightarrow> [] | Some p \<Rightarrow> cp_middleware p) svc of
             None \<Rightarrow> (Panicked, s)
           | Some chain \<Rightarrow>
               let (res, s') = chain q1 s in
               (case res of
                  Responded r \<Rightarrow>
                    (Responded (if (case policy of None \<Rightarrow> False | Some p \<Rightarrow> cp_sse p) then sse_response r else r), s')
                | _ \<Rightarrow> (res, s'))))"

text \<open>\<open>Condition::new(flag, layer)\<close>, and \<open>wrap\<close>: the layer wrapped last sees a request first.\<close>

definition conditional :: "bool \<Rightarrow> (('t, 'j, 's) service \<Rightarrow> ('t, 'j, 's) service) \<Rightarrow> ('t, 'j, 's) service \<Rightarrow> ('t, 'j, 's) service" where
  "conditional flag layer svc = (if flag then layer svc else svc)"

definition wrap_all :: "(('t, 'j, 's) service \<Rightarrow> ('t, 'j, 's) service) list \<Rightarrow> ('t, 'j, 's) service \<Rightarrow> ('t, 'j, 's) service" where
  "wrap_all layers svc = foldl (\<lambda>inner layer. layer inner) svc layers"

text \<open>
  The libraries and observers the stack is built with. The observers are the logging, tracing and
  metrics middleware.
\<close>

record ('j, 's) stack_libs =
  sl_auth :: "'j libs"
  sl_aead :: aead
  sl_gunzip :: "string \<Rightarrow> nat \<Rightarrow> string option"
  sl_header_valid :: "string \<Rightarrow> bool"
  sl_logging :: "('j, 'j, 's) service \<Rightarrow> ('j, 'j, 's) service"
  sl_tracing :: "('j, 'j, 's) service \<Rightarrow> ('j, 'j, 's) service"
  sl_metrics :: "('j, 'j, 's) service \<Rightarrow> ('j, 'j, 's) service"
  sl_cors :: "cors_config \<Rightarrow> ('j, 'j, 's) service \<Rightarrow> ('j, 'j, 's) service"

definition standard_app ::
  "('j, stack) stack_libs \<Rightarrow> surroundings \<Rightarrow> server_config \<Rightarrow> layers \<Rightarrow>
     (('j, 'j) http_request \<Rightarrow> ('j, 'j, stack) service \<Rightarrow> stack \<Rightarrow> call_result \<times> stack) route_policies \<Rightarrow>
     ('j, 'j, stack) service \<Rightarrow> ('j, 'j, stack) service" where
  "standard_app l u c la ps handlers =
     wrap_all
       [conditional (sv_logging c) (sl_logging l),
        conditional (sv_recovery c) recovery_layer,
        conditional (sv_security_headers c) security_layer,
        conditional (sv_request_ids c) (request_id_layer (sl_header_valid l)),
        conditional (sv_tracing c) (sl_tracing l),
        conditional (sv_metrics c) (sl_metrics l),
        deadline_layer u (la_timeout la),
        conditional (sv_rate_limit_requests_per_second c \<noteq> None) (rate_layer u),
        concurrency_layer,
        conditional (sv_adaptive_load_shedding c) (shed_layer u),
        conditional (sv_server_circuit_breaking c) (breaker_layer u),
        body_limit_layer (sl_gunzip l) (la_body_limit la),
        encryption_layer (sl_aead l) u (la_encryption la),
        policy_layer (sl_auth l) u ps,
        (case sv_cors c of None \<Rightarrow> id | Some x \<Rightarrow> sl_cors l x)]
       handlers"

text \<open>
  \<open>run_on\<close> up to the listener: the registered middleware is checked against the policies, the
  TLS configuration is built, and the workers, shutdown time and TLS setup are handed over.
\<close>

definition run_on ::
  "('c, 'k, 'v, 's) tls_libs \<Rightarrow> 'm rest_server \<Rightarrow> server_config_error + ('m route_policies \<times> nat \<times> nat \<times> 's option)" where
  "run_on t s =
     (case with_middleware (re_route_middleware s) (re_route_policies s) of
        Inl e \<Rightarrow> Inl (RoutePolicyError e)
      | Inr ps \<Rightarrow>
          and_then (case sv_tls (re_config s) of
                      None \<Rightarrow> Inr None
                    | Some c \<Rightarrow> and_then (rustls_config t c) (\<lambda>x. Inr (Some x)))
            (\<lambda>tls. Inr (ps, sv_workers (re_config s), shutdown_seconds (re_config s), tls)))"

section \<open>A validated configuration builds\<close>

lemma cpu_threshold_in_unit:
  assumes "1 \<le> p" "p \<le> 100"
  shows "in_unit (f_div (f_nat p) (f_nat 100))"
proof -
  have nats: "f_nat p = Fin (of_nat p)" "f_nat 100 = Fin 100" using assms f_nat_exact [of p] f_nat_exact [of 100] by simp_all
  let ?x = "of_nat p / 100 :: rat"
  have x: "2 powi (- 7) \<le> ?x" "?x \<le> 1" "0 < ?x" using assms by (simp_all add: power_int_minus field_simps)
  have "mk ?x = Fin (fl ?x)" using x by (intro mk_fin_pow [of 1]) simp_all
  moreover have "2 powi (- 7) \<le> fl ?x" using fl_ge_exact [OF fl_powi x(1)] by simp
  moreover have "fl ?x \<le> 1" using fl_le_exact [OF _ x(2)] fl_of_nat [of 1] by simp
  moreover have "0 < (2 powi (- 7) :: rat)" by simp
  ultimately show ?thesis by (auto simp: in_unit_def nats f_le_def)
qed

lemma server_config_validD:
  assumes "server_config_validate h c = Inr ()"
  shows "0 < sv_request_timeout_ms c" "0 < sv_max_body_bytes c" "0 < sv_max_concurrent_requests c"
    "0 < sv_priority_concurrency_reserve c" "1 \<le> sv_load_shed_cpu_threshold_percent c"
    "sv_load_shed_cpu_threshold_percent c \<le> 100" "0 < sv_load_shed_bucket_ms c" "0 < sv_load_shed_buckets c"
    "0 < sv_load_shed_cooldown_ms c" "sv_rate_limit_requests_per_second c \<noteq> Some 0" "sv_rate_limit_burst c \<noteq> Some 0"
    "\<exists>ps. compile (hl_method h) (sv_route_groups c) = Inr ps"
  using assms [unfolded server_config_validate_def in_order_Inr] by (simp_all split: sum.splits)

text \<open>
  What validation promises. A server configuration that passes \<open>validate\<close> builds: unless the metrics
  cannot be registered, the server is created and none of the assertions in the constructors of the
  standard stack fails, whatever content encryption is installed. The one condition that validation does
  not check is that both concurrency limits fit the runtime's semaphores: beyond that the construction of
  the application panics.
\<close>

theorem server_config_builds:
  assumes valid: "server_config_validate h c = Inr ()" and registered: "new_metrics (sv_metrics_namespace c) = None"
  shows "\<exists>s. rest_server_new h new_metrics now c = Some (Inr s) \<and> re_config s = c \<and>
    app_layers c enc \<noteq> None \<and>
    (app_state max_permits seed now s \<noteq> None \<longleftrightarrow>
       sv_max_concurrent_requests c \<le> max_permits \<and> sv_priority_concurrency_reserve c \<le> max_permits)"
proof -
  note v = server_config_validD [OF valid]
  have "0 < duration_from_millis n" if "0 < n" for n using that by (simp add: duration_from_millis_def)
  note pos = this [OF v(1)] this [OF v(7)] this [OF v(9)]
  obtain sc where sc: "server_shedder_config c = Some sc"
    using v cpu_threshold_in_unit [OF v(5,6)] pos
    by (simp add: server_shedder_config_def shedder_config_production_def shedder_config_new_def with_cpu_threshold_def
        with_rolling_window_def with_cooldown_def duration_from_millis_def)
  obtain ps where ps: "compile (hl_method h) (sv_route_groups c) = Inr ps" using v(12) by blast
  let ?s = "\<lparr>re_config = c, re_route_policies = ps, re_content_encryption = None, re_route_middleware = [],
    re_adaptive_shedder = shedder_new sc now, re_server_breaker = server_breaker_new (breaker_config_rolling rolling_config_new)\<rparr>"
  have new: "rest_server_new h new_metrics now c = Some (Inr ?s)"
    using valid registered by (simp add: rest_server_new_def ps sc)
  have layers: "app_layers c enc \<noteq> None"
    using v(2) pos by (simp add: app_layers_def timeout_new_def body_limit_new_def)
  have "rate_limit_new (unwrap_or 1 (sv_rate_limit_requests_per_second c)) (unwrap_or 1 (sv_rate_limit_burst c)) now \<noteq> None"
    using v(10,11) by (auto simp: rate_limit_new_def unwrap_or_def split: option.splits)
  then have "app_state max_permits seed now ?s \<noteq> None \<longleftrightarrow>
      sv_max_concurrent_requests c \<le> max_permits \<and> sv_priority_concurrency_reserve c \<le> max_permits"
    using v(3,4) by (auto simp: app_state_def concurrency_new_def with_priority_reserve_def semaphore_new_def Let_def
        split: bind_splits if_splits)
  with new layers show ?thesis by (metis rest_server.select_convs(1))
qed

definition example_http :: http_libs where
  "example_http = \<lparr>hl_uri = (\<lambda>_. None), hl_method = Some, hl_header_name = (\<lambda>_. True)\<rparr>"

theorem server_config_builds_witness:
  "\<exists>s. rest_server_new example_http (\<lambda>_. None) 0 server_config_default = Some (Inr (s :: unit rest_server)) \<and>
     app_state 2000 0 0 s \<noteq> None"
proof -
  have "server_config_validate example_http server_config_default = Inr ()"
    by (simp add: server_config_validate_def server_config_default_def compile_def is_blank_def ascii_ws_def check_def)
  from server_config_builds [OF this, of "\<lambda>_. None" 0 None 2000 0] show ?thesis
    by (auto simp: server_config_default_def)
qed

text \<open>
  A validated CORS policy has no wildcard next to explicit values, so what the middleware is given
  for a list is either any value or exactly the values of the list.
\<close>

lemma cors_wildcard_alone:
  assumes "cors_validate h c = Inr ()"
  shows "case cs_origins (cors_middleware c) of None \<Rightarrow> cc_allowed_origins c = [''*'']
    | Some os \<Rightarrow> os = cc_allowed_origins c \<and> os \<noteq> [] \<and> ''*'' \<notin> set os"
proof -
  have "cc_allowed_origins c \<noteq> []" "\<not> (''*'' \<in> set (cc_allowed_origins c) \<and> cc_allowed_origins c \<noteq> [''*''])"
    using assms unfolding cors_validate_def in_order_Inr list.set ball_simps validate_wildcard_list_def check_Inr by blast+
  then have "cc_allowed_origins c = [''*''] \<or> cc_allowed_origins c \<noteq> [''*''] \<and> cc_allowed_origins c \<noteq> [] \<and> ''*'' \<notin> set (cc_allowed_origins c)"
    by blast
  then show ?thesis by (elim disjE conjE) (simp_all add: cors_middleware_def wildcard_def)
qed

text \<open>The grace period handed to the listener is never shorter than configured and less than a second longer.\<close>

lemma shutdown_seconds_bounds:
  "sv_shutdown_timeout_ms c \<le> 1000 * shutdown_seconds c" "1000 * shutdown_seconds c < sv_shutdown_timeout_ms c + 1000"
  by (simp_all add: shutdown_seconds_def)

section \<open>The order of the layers\<close>

lemma standard_app_unfold:
  "standard_app l u c la ps handlers =
     (case sv_cors c of None \<Rightarrow> id | Some x \<Rightarrow> sl_cors l x)
      (policy_layer (sl_auth l) u ps
        (encryption_layer (sl_aead l) u (la_encryption la)
          (body_limit_layer (sl_gunzip l) (la_body_limit la)
            (conditional (sv_server_circuit_breaking c) (breaker_layer u)
              (conditional (sv_adaptive_load_shedding c) (shed_layer u)
                (concurrency_layer
                  (conditional (sv_rate_limit_requests_per_second c \<noteq> None) (rate_layer u)
                    (deadline_layer u (la_timeout la)
                      (conditional (sv_metrics c) (sl_metrics l)
                        (conditional (sv_tracing c) (sl_tracing l)
                          (conditional (sv_request_ids c) (request_id_layer (sl_header_valid l))
                            (conditional (sv_security_headers c) security_layer
                              (conditional (sv_recovery c) recovery_layer
                                (conditional (sv_logging c) (sl_logging l) handlers))))))))))))))"
  by (simp add: standard_app_def wrap_all_def)


text \<open>Layers that leave a component of the shared state as it was.\<close>

definition keeps :: "('s \<Rightarrow> 'a) \<Rightarrow> ('t, 'j, 's) service \<Rightarrow> bool" where
  "keeps f svc \<longleftrightarrow> (\<forall>q s. f (snd (svc q s)) = f s)"

named_theorems keeps_intros \<open>layers that keep the execution slots\<close>

lemma keeps_conditional [keeps_intros]:
  "(\<And>inner. keeps f inner \<Longrightarrow> keeps f (layer inner)) \<Longrightarrow> keeps f svc \<Longrightarrow> keeps f (conditional flag layer svc)"
  by (simp add: conditional_def)

lemma keeps_recovery [keeps_intros]: "keeps f svc \<Longrightarrow> keeps f (recovery_layer svc)"
  by (simp add: keeps_def recovery_layer_def case_prod_beta)

lemma keeps_security [keeps_intros]: "keeps f svc \<Longrightarrow> keeps f (security_layer svc)"
  by (simp add: keeps_def security_layer_def case_prod_beta)

lemma keeps_deadline [keeps_intros]: "keeps f svc \<Longrightarrow> keeps f (deadline_layer u l svc)"
  by (simp add: keeps_def deadline_layer_def case_prod_beta)

lemma keeps_body_limit [keeps_intros]: "keeps f svc \<Longrightarrow> keeps f (body_limit_layer gunzip l svc)"
  by (simp add: keeps_def body_limit_layer_def split: sum.split)

lemma keeps_encryption [keeps_intros]: "keeps f svc \<Longrightarrow> keeps f (encryption_layer a u c svc)"
  by (simp add: keeps_def encryption_layer_def case_prod_beta Let_def split: option.split sum.split call_result.split)

lemma keeps_request_id [keeps_intros]: "keeps st_concurrency svc \<Longrightarrow> keeps st_concurrency (request_id_layer valid svc)"
  by (simp add: keeps_def request_id_layer_def case_prod_beta Let_def)

lemma keeps_rate [keeps_intros]: "keeps st_concurrency svc \<Longrightarrow> keeps st_concurrency (rate_layer u svc)"
  by (simp add: keeps_def rate_layer_def split: option.split prod.split)

lemma keeps_shed [keeps_intros]: "keeps st_concurrency svc \<Longrightarrow> keeps st_concurrency (shed_layer u svc)"
  by (simp add: keeps_def shed_layer_def case_prod_beta Let_def split: option.split call_result.split)

lemma keeps_breaker [keeps_intros]: "keeps st_concurrency svc \<Longrightarrow> keeps st_concurrency (breaker_layer u svc)"
  by (simp add: keeps_def breaker_layer_def case_prod_beta Let_def split: option.split sum.split)

lemma keeps_concurrency [keeps_intros]:
  assumes "keeps st_concurrency svc"
  shows "keeps st_concurrency (concurrency_layer svc)"
proof -
  have restored: "concurrency_leave sl l' = l" if "concurrency_enter p l = (Some sl, l')" for p sl l l'
    using that by (auto simp: concurrency_enter_def concurrency_leave_def split: if_splits)
  have "st_concurrency (snd (concurrency_layer svc q s)) = st_concurrency s" for q s
  proof (cases "concurrency_enter (policy_priority (rr_policy q)) (st_concurrency s)")
    case (Pair sl l)
    then show ?thesis
      using assms restored [of "policy_priority (rr_policy q)" "st_concurrency s"]
      by (cases sl) (auto simp: keeps_def concurrency_layer_def case_prod_beta Let_def concurrency_enter_def split: if_splits)
  qed
  then show ?thesis by (simp add: keeps_def)
qed

definition reg_keeps :: "('s \<Rightarrow> 'a) \<Rightarrow> (string, ('t, 'j) http_request \<Rightarrow> ('t, 'j, 's) service \<Rightarrow> 's \<Rightarrow> call_result \<times> 's) hmap \<Rightarrow> bool" where
  "reg_keeps f reg \<longleftrightarrow> (\<forall>n mw inner. map_of reg n = Some mw \<longrightarrow> keeps f inner \<longrightarrow> keeps f (\<lambda>q. mw q inner))"

lemma keeps_chain:
  "build_chain reg ns svc = Some chain \<Longrightarrow> keeps f svc \<Longrightarrow> reg_keeps f reg \<Longrightarrow> keeps f chain"
proof (induction ns arbitrary: chain)
  case (Cons n ns)
  then obtain rest mw where "build_chain reg ns svc = Some rest" "map_of reg n = Some mw" "chain = (\<lambda>q. mw q rest)"
    by (auto split: bind_splits)
  with Cons show ?case by (auto simp: reg_keeps_def)
qed simp

lemma keeps_policy [keeps_intros]:
  assumes "keeps f svc" and "reg_keeps f (ro_middleware ps)"
  shows "keeps f (policy_layer l u ps svc)"
proof -
  have "f (snd (policy_layer l u ps svc q s)) = f s" for q s
    using keeps_chain [OF _ assms] assms(1)
    by (simp add: policy_layer_def Let_def case_prod_beta keeps_def split: sum.split option.split call_result.split)
  then show ?thesis by (simp add: keeps_def)
qed

text \<open>
  The stack gives every execution slot back. Whatever happens to a request in the standard stack (it
  is refused by any layer, the handler answers, fails, panics or runs into the deadline) the free
  slots after the call are those before it, provided the handlers, the registered middleware and the
  observers leave the limiter alone, which they cannot reach.
\<close>

theorem stack_returns_slots:
  assumes "keeps st_concurrency handlers"
    and "\<And>inner. keeps st_concurrency inner \<Longrightarrow> keeps st_concurrency (sl_logging l inner)"
    and "\<And>inner. keeps st_concurrency inner \<Longrightarrow> keeps st_concurrency (sl_tracing l inner)"
    and "\<And>inner. keeps st_concurrency inner \<Longrightarrow> keeps st_concurrency (sl_metrics l inner)"
    and "\<And>x inner. keeps st_concurrency inner \<Longrightarrow> keeps st_concurrency (sl_cors l x inner)"
    and "reg_keeps st_concurrency (ro_middleware ps)"
  shows "st_concurrency (snd (standard_app l u c la ps handlers q s)) = st_concurrency s"
proof -
  have cors: "keeps st_concurrency ((case sv_cors c of None \<Rightarrow> id | Some x \<Rightarrow> sl_cors l x) inner)"
    if "keeps st_concurrency inner" for inner
    using that assms(5) by (cases "sv_cors c") simp_all
  have "keeps st_concurrency (standard_app l u c la ps handlers)"
    unfolding standard_app_unfold by (intro cors keeps_intros assms)
  then show ?thesis by (simp add: keeps_def)
qed

section \<open>Witnesses\<close>

definition example_stack_libs :: "(string, stack) stack_libs" where
  "example_stack_libs = \<lparr>sl_auth = example_libs, sl_aead = example_aead, sl_gunzip = (\<lambda>_ _. None), sl_header_valid = (\<lambda>_. True),
     sl_logging = id, sl_tracing = id, sl_metrics = id, sl_cors = (\<lambda>_. id)\<rparr>"

definition example_surroundings :: surroundings where
  "example_surroundings = \<lparr>su_unix = 100, su_breaker = 0, su_return = 0, su_shed = 0, su_usage = Fin 0, su_rate = 0,
     su_elapsed = 0, su_nonce = None, su_payload_error = []\<rparr>"

definition example_layers :: layers where
  "example_layers = \<lparr>la_timeout = \<lparr>to_duration = 1\<rparr>, la_body_limit = \<lparr>bo_max_bytes = 2, bo_decompress_gzip = True\<rparr>,
     la_encryption = content_encryption_disabled 2\<rparr>"

definition public_policy :: compiled_policy where
  "public_policy = \<lparr>cp_method = ''POST'', cp_pattern = ''/'', cp_jwt_secrets = None, cp_jwt_leeway_seconds = 0,
     cp_jwt_claim_projection = [], cp_timeout = None, cp_max_body_bytes = None, cp_priority = False, cp_sse = False,
     cp_middleware = []\<rparr>"

type_synonym example_policies = "((string, string) http_request \<Rightarrow> (string, string, stack) service \<Rightarrow> stack \<Rightarrow> call_result \<times> stack) route_policies"


theorem stack_returns_slots_witness:
  "\<forall>s0. st_concurrency (snd (standard_app example_stack_libs example_surroundings server_config_default example_layers
     (\<lparr>ro_routes = [public_policy], ro_middleware = []\<rparr> :: example_policies) (\<lambda>_ s. (Panicked, s)) posted s0)) =
   st_concurrency s0"
  by (intro allI stack_returns_slots) (simp_all add: keeps_def reg_keeps_def example_stack_libs_def)

end
