(* ===== verification/Response.thy ===== *)
theory Response
  imports Rest_Middleware
begin

text \<open>
  \<open>rest/src/response.rs\<close>: application errors, the policy that turns results into JSON responses, and the
  mapping of gRPC statuses. The serializer of JSON values is an argument; numbers are kept as their text.
\<close>

section \<open>JSON values\<close>

datatype json =
    JNull
  | JBool bool
  | JNumber string
  | JString string
  | JArray "json list"
  | JObject "(string \<times> json) list"

section \<open>gRPC codes\<close>

datatype grpc_code =
    Ok | Cancelled | Unknown | InvalidArgument | DeadlineExceeded | NotFound | AlreadyExists | PermissionDenied
  | ResourceExhausted | FailedPrecondition | Aborted | OutOfRange | Unimplemented | Internal | Unavailable
  | DataLoss | Unauthenticated

fun grpc_status_to_http :: "grpc_code \<Rightarrow> nat" where
  "grpc_status_to_http Ok = 200"
| "grpc_status_to_http InvalidArgument = 400"
| "grpc_status_to_http FailedPrecondition = 400"
| "grpc_status_to_http OutOfRange = 400"
| "grpc_status_to_http Unauthenticated = 401"
| "grpc_status_to_http PermissionDenied = 403"
| "grpc_status_to_http NotFound = 404"
| "grpc_status_to_http Cancelled = 408"
| "grpc_status_to_http AlreadyExists = 409"
| "grpc_status_to_http Aborted = 409"
| "grpc_status_to_http ResourceExhausted = 429"
| "grpc_status_to_http Internal = 500"
| "grpc_status_to_http DataLoss = 500"
| "grpc_status_to_http Unknown = 500"
| "grpc_status_to_http Unimplemented = 501"
| "grpc_status_to_http Unavailable = 503"
| "grpc_status_to_http DeadlineExceeded = 504"

fun grpc_code_name :: "grpc_code \<Rightarrow> string" where
  "grpc_code_name Ok = ''ok''"
| "grpc_code_name Cancelled = ''cancelled''"
| "grpc_code_name Unknown = ''unknown''"
| "grpc_code_name InvalidArgument = ''invalid_argument''"
| "grpc_code_name DeadlineExceeded = ''deadline_exceeded''"
| "grpc_code_name NotFound = ''not_found''"
| "grpc_code_name AlreadyExists = ''already_exists''"
| "grpc_code_name PermissionDenied = ''permission_denied''"
| "grpc_code_name ResourceExhausted = ''resource_exhausted''"
| "grpc_code_name FailedPrecondition = ''failed_precondition''"
| "grpc_code_name Aborted = ''aborted''"
| "grpc_code_name OutOfRange = ''out_of_range''"
| "grpc_code_name Unimplemented = ''unimplemented''"
| "grpc_code_name Internal = ''internal''"
| "grpc_code_name Unavailable = ''unavailable''"
| "grpc_code_name DataLoss = ''data_loss''"
| "grpc_code_name Unauthenticated = ''unauthenticated''"

section \<open>Responses\<close>

record api_error =
  ae_status :: nat
  ae_code :: string
  ae_message :: string
  ae_details :: "json option"

definition api_error_new :: "nat \<Rightarrow> string \<Rightarrow> string \<Rightarrow> api_error" where
  "api_error_new status code message = \<lparr>ae_status = status, ae_code = code, ae_message = message, ae_details = None\<rparr>"

text \<open>\<open>serialized\<close> is the result of \<open>serde_json::to_value\<close> on the details.\<close>

definition with_details :: "string + json \<Rightarrow> api_error \<Rightarrow> string + api_error" where
  "with_details serialized e = (case serialized of Inl er \<Rightarrow> Inl er | Inr v \<Rightarrow> Inr (e\<lparr>ae_details := Some v\<rparr>))"

definition envelope :: "string \<Rightarrow> string \<Rightarrow> json option \<Rightarrow> json" where
  "envelope code message details =
     JObject [(''code'', JString code), (''message'', JString message),
              (''details'', case details of None \<Rightarrow> JNull | Some d \<Rightarrow> d)]"

definition fallback_body :: string where
  "fallback_body = ''{'' @ [CHR 0x22] @ ''code'' @ [CHR 0x22] @ '':'' @ [CHR 0x22] @ ''response_serialization_failed'' @ [CHR 0x22] @
     '','' @ [CHR 0x22] @ ''message'' @ [CHR 0x22] @ '':'' @ [CHR 0x22] @ ''failed to serialize response'' @ [CHR 0x22] @ ''}''"

text \<open>\<open>to_vec\<close> is \<open>serde_json::to_vec\<close>.\<close>

definition json_response :: "(json \<Rightarrow> string option) \<Rightarrow> nat \<Rightarrow> json \<Rightarrow> http_response" where
  "json_response to_vec status v =
     (case to_vec v of
        Some body \<Rightarrow> \<lparr>hs_status = status, hs_headers = [(''content-type'', ''application/json'')], hs_body = [Chunk body]\<rparr>
      | None \<Rightarrow> \<lparr>hs_status = 500, hs_headers = [(''content-type'', ''application/json'')], hs_body = [Chunk fallback_body]\<rparr>)"

definition error_response :: "(json \<Rightarrow> string option) \<Rightarrow> api_error \<Rightarrow> http_response" where
  "error_response to_vec e = json_response to_vec (ae_status e) (envelope (ae_code e) (ae_message e) (ae_details e))"

record 'q response_policy =
  rp_success_mapper :: "'q \<Rightarrow> json \<Rightarrow> json"
  rp_error_mapper :: "'q \<Rightarrow> nat \<Rightarrow> string \<Rightarrow> string \<Rightarrow> json option \<Rightarrow> json"

definition response_policy_default :: "'q response_policy" where
  "response_policy_default =
     \<lparr>rp_success_mapper = (\<lambda>_ v. v), rp_error_mapper = (\<lambda>_ _ code message details. envelope code message details)\<rparr>"

definition mapped_error ::
  "(json \<Rightarrow> string option) \<Rightarrow> 'q response_policy \<Rightarrow> 'q \<Rightarrow> nat \<Rightarrow> string \<Rightarrow> string \<Rightarrow> json option \<Rightarrow> http_response" where
  "mapped_error to_vec p q status code message details =
     json_response to_vec status (rp_error_mapper p q status code message details)"

definition policy_ok :: "(json \<Rightarrow> string option) \<Rightarrow> 'q response_policy \<Rightarrow> 'q \<Rightarrow> string + json \<Rightarrow> http_response" where
  "policy_ok to_vec p q serialized =
     (case serialized of
        Inr v \<Rightarrow> json_response to_vec 200 (rp_success_mapper p q v)
      | Inl _ \<Rightarrow> mapped_error to_vec p q 500 ''response_serialization_failed'' ''failed to serialize response'' None)"

definition policy_error :: "(json \<Rightarrow> string option) \<Rightarrow> 'q response_policy \<Rightarrow> 'q \<Rightarrow> api_error \<Rightarrow> http_response" where
  "policy_error to_vec p q e = mapped_error to_vec p q (ae_status e) (ae_code e) (ae_message e) (ae_details e)"

definition policy_respond :: "(json \<Rightarrow> string option) \<Rightarrow> 'q response_policy \<Rightarrow> 'q \<Rightarrow> api_error + (string + json) \<Rightarrow> http_response" where
  "policy_respond to_vec p q res = (case res of Inr v \<Rightarrow> policy_ok to_vec p q v | Inl e \<Rightarrow> policy_error to_vec p q e)"

definition policy_grpc_error :: "(json \<Rightarrow> string option) \<Rightarrow> 'q response_policy \<Rightarrow> 'q \<Rightarrow> grpc_code \<Rightarrow> string \<Rightarrow> http_response" where
  "policy_grpc_error to_vec p q code message =
     mapped_error to_vec p q (grpc_status_to_http code) (grpc_code_name code) message None"

definition streaming_response :: "nat \<Rightarrow> string \<Rightarrow> body \<Rightarrow> http_response" where
  "streaming_response status content_type stream =
     \<lparr>hs_status = status,
      hs_headers = header_insert ''x-accel-buffering'' ''no''
        (header_insert ''cache-control'' ''no-cache, no-transform''
          (header_insert ''content-type'' content_type [])),
      hs_body = stream\<rparr>"

section \<open>No failure looks like a success\<close>

lemma json_response_status: "hs_status (json_response to_vec status v) \<in> {status, 500}"
  by (simp add: json_response_def split: option.split)

lemma grpc_error_status: "code \<noteq> Ok \<Longrightarrow> 400 \<le> grpc_status_to_http code \<and> grpc_status_to_http code < 600"
  by (cases code) simp_all

text \<open>
  A response has status 200 only when the handler returned a value that serializes, and then its body is
  the mapped value; a gRPC status other than \<open>Ok\<close> always becomes an error status.
\<close>

lemma respond_success_only:
  assumes "\<And>e. res = Inl e \<Longrightarrow> ae_status e \<noteq> 200" "hs_status (policy_respond to_vec p q res) = 200"
  shows "\<exists>v body. res = Inr (Inr v) \<and> to_vec (rp_success_mapper p q v) = Some body \<and>
    hs_body (policy_respond to_vec p q res) = [Chunk body]"
  using assms by (auto simp: policy_respond_def policy_ok_def policy_error_def mapped_error_def json_response_def
      split: sum.splits option.splits)

lemma grpc_error_not_success:
  "code \<noteq> Ok \<Longrightarrow> 400 \<le> hs_status (policy_grpc_error to_vec p q code message)"
  using grpc_error_status [of code] by (auto simp: policy_grpc_error_def mapped_error_def json_response_def split: option.split)

end
