(* ===== verification/Transcode.thy ===== *)
theory Transcode
  imports Response Trace
begin

text \<open>
  \<open>gateway/src/transcode.rs\<close>: the transcoder that serves gRPC methods over JSON and HTTP. Protobuf
  descriptors are reduced to what the code asks them (service and method names, streaming flags, fields
  with their kinds); JSON text, protobuf encoding and the gRPC call are arguments. \<open>None\<close> is a panic.
\<close>

section \<open>Bindings and descriptors\<close>

datatype http_verb = Get | Put | Post | Delete | Patch

fun verb_matches :: "http_verb \<Rightarrow> string \<Rightarrow> bool" where
  "verb_matches Get m = (m = ''GET'')"
| "verb_matches Put m = (m = ''PUT'')"
| "verb_matches Post m = (m = ''POST'')"
| "verb_matches Delete m = (m = ''DELETE'')"
| "verb_matches Patch m = (m = ''PATCH'')"

record http_binding =
  hb_verb :: http_verb
  hb_path :: string
  hb_rpc :: string
  hb_body :: "string option"

definition http_binding_new :: "http_verb \<Rightarrow> string \<Rightarrow> string \<Rightarrow> http_binding" where
  "http_binding_new verb path rpc = \<lparr>hb_verb = verb, hb_path = path, hb_rpc = rpc, hb_body = None\<rparr>"

definition with_body :: "string \<Rightarrow> http_binding \<Rightarrow> http_binding" where
  "with_body field b = b\<lparr>hb_body := Some field\<rparr>"

datatype field_kind = KBool | KInt32 | KSint32 | KSfixed32 | KUint32 | KFixed32 | KOther

record field_descriptor =
  fd_name :: string
  fd_json_name :: string
  fd_kind :: field_kind

record method_descriptor =
  md_name :: string
  md_service :: string
  md_client_streaming :: bool
  md_server_streaming :: bool
  md_input :: "field_descriptor list"

text \<open>A descriptor pool: services by full name, with their methods.\<close>

type_synonym pool = "(string \<times> method_descriptor list) list"

datatype transcode_error =
    InvalidAuthorization
  | UnknownMethod string
  | UnsupportedClientStreaming string
  | InvalidTemplate string
  | NoRoute
  | UnexpectedBody
  | InvalidRequest string
  | InvalidJson string
  | StatusError grpc_code string

section \<open>Templates\<close>

definition contains_brace :: "string \<Rightarrow> bool \<times> bool" where
  "contains_brace part = (CHR 0x7B \<in> set part, CHR 0x7D \<in> set part)"

definition validate_template :: "string \<Rightarrow> transcode_error + unit" where
  "validate_template template =
     (if \<not> starts_with_slash template \<or>
         list_ex (\<lambda>part. fst (contains_brace part) \<noteq> snd (contains_brace part)) (split_on (CHR ''/'') template)
      then Inl (InvalidTemplate template) else Inr ())"

definition literal_weight :: "string \<Rightarrow> nat" where
  "literal_weight template =
     sum_list (map length (filter (\<lambda>part. part = [] \<or> hd part \<noteq> CHR 0x7B) (split_on (CHR ''/'') template)))"

text \<open>
  The loop of \<open>percent_decode\<close>. Two bytes after a percent sign that are not UTF-8 are not hexadecimal
  either, and both are the same error.
\<close>

fun percent_bytes :: "string \<Rightarrow> string option" where
  "percent_bytes [] = Some []"
| "percent_bytes (c # rest) =
     (if c = CHR ''%''
      then (case rest of
              h1 # h2 # after \<Rightarrow>
                Option.bind (hex_pair h1 h2) (\<lambda>w. map_option (Cons (char_of (unat w))) (percent_bytes after))
            | _ \<Rightarrow> map_option (Cons c) (percent_bytes rest))
      else map_option (Cons (if c = CHR ''+'' then CHR '' '' else c)) (percent_bytes rest))"

definition percent_decode :: "string \<Rightarrow> transcode_error + string" where
  "percent_decode v =
     (case percent_bytes v of
        None \<Rightarrow> Inl (InvalidRequest ''invalid percent encoding'')
      | Some bytes \<Rightarrow>
          if utf8 (map of_char bytes) then Inr bytes else Inl (InvalidRequest ''path/query value is not UTF-8''))"

text \<open>\<open>strip_prefix('{')\<close> followed by \<open>strip_suffix('}')\<close>.\<close>

definition placeholder :: "string \<Rightarrow> string option" where
  "placeholder part =
     (case part of
        [] \<Rightarrow> None
      | c # rest \<Rightarrow> if c = CHR 0x7B \<and> rest \<noteq> [] \<and> last rest = CHR 0x7D then Some (butlast rest) else None)"

fun match_parts :: "string list \<Rightarrow> string list \<Rightarrow> (string, string) bmap \<Rightarrow> (string, string) bmap option" where
  "match_parts (expected # es) (actual # as) captures =
     (case placeholder expected of
        Some name \<Rightarrow>
          (case percent_decode actual of
             Inl _ \<Rightarrow> None
           | Inr v \<Rightarrow> match_parts es as (bt_put (hd (split_on (CHR ''='') name)) v captures))
      | None \<Rightarrow> if expected \<noteq> actual then None else match_parts es as captures)"
| "match_parts _ _ captures = Some captures"

definition match_template :: "string \<Rightarrow> string \<Rightarrow> (string, string) bmap option" where
  "match_template template path =
     (let ts = split_on (CHR ''/'') (trim_matches (CHR ''/'') template);
          ps = split_on (CHR ''/'') (trim_matches (CHR ''/'') path) in
      if length ts \<noteq> length ps then None else match_parts ts ps [])"

section \<open>Building a transcoder\<close>

fun rsplit_once :: "char \<Rightarrow> string \<Rightarrow> (string \<times> string) option" where
  "rsplit_once c [] = None"
| "rsplit_once c (x # xs) =
     (case rsplit_once c xs of
        Some (a, b) \<Rightarrow> Some (x # a, b)
      | None \<Rightarrow> if x = c then Some ([], xs) else None)"

definition find_method :: "pool \<Rightarrow> string \<Rightarrow> method_descriptor option" where
  "find_method p name =
     (let n = map (\<lambda>c. if c = CHR ''/'' then CHR ''.'' else c) (dropWhile (\<lambda>c. c = CHR ''/'') name) in
      Option.bind (rsplit_once (CHR ''.'') n) (\<lambda>(service, m).
        Option.bind (map_of p service) (find (\<lambda>d. md_name d = m))))"

record route =
  ro_binding :: http_binding
  ro_method :: method_descriptor

definition build_route :: "pool \<Rightarrow> http_binding \<Rightarrow> transcode_error + route" where
  "build_route p b =
     and_then (validate_template (hb_path b)) (\<lambda>_.
       case find_method p (hb_rpc b) of
         None \<Rightarrow> Inl (UnknownMethod (hb_rpc b))
       | Some m \<Rightarrow>
           if md_client_streaming m then Inl (UnsupportedClientStreaming (hb_rpc b))
           else Inr \<lparr>ro_binding = b, ro_method = m\<rparr>)"

fun build_routes :: "pool \<Rightarrow> http_binding list \<Rightarrow> transcode_error + route list" where
  "build_routes p [] = Inr []"
| "build_routes p (b # bs) = and_then (build_route p b) (\<lambda>r. and_then (build_routes p bs) (\<lambda>rs. Inr (r # rs)))"

abbreviation route_weight :: "route \<Rightarrow> nat" where
  "route_weight r \<equiv> literal_weight (hb_path (ro_binding r))"

record transcoder =
  tr_routes :: "route list"
  tr_authorization :: "string option"

definition build :: "pool \<Rightarrow> http_binding list \<Rightarrow> string option \<Rightarrow> transcode_error + transcoder" where
  "build p bindings authorization =
     and_then (build_routes p bindings) (\<lambda>rs.
       Inr \<lparr>tr_routes = sort_key (\<lambda>r. - int (route_weight r)) rs, tr_authorization = authorization\<rparr>)"

text \<open>\<open>google.api.http\<close> rules: the non-empty string fields of a rule, and its additional bindings.\<close>

datatype http_rule = HttpRule "string \<Rightarrow> string option" "http_rule list"

definition rule_field :: "(string \<Rightarrow> string option) \<Rightarrow> string \<Rightarrow> string option" where
  "rule_field fs n = (case fs n of Some v \<Rightarrow> if v \<noteq> [] then Some v else None | None \<Rightarrow> None)"

fun first_some :: "('a \<Rightarrow> 'b option) \<Rightarrow> 'a list \<Rightarrow> 'b option" where
  "first_some f [] = None"
| "first_some f (x # xs) = (case f x of Some y \<Rightarrow> Some y | None \<Rightarrow> first_some f xs)"

primrec collect_http_rules :: "string \<Rightarrow> http_rule \<Rightarrow> http_binding list" where
  "collect_http_rules rpc (HttpRule fs additional) =
     (case first_some (\<lambda>(n, verb). map_option (Pair verb) (rule_field fs n))
         [(''get'', Get), (''put'', Put), (''post'', Post), (''delete'', Delete), (''patch'', Patch)] of
        None \<Rightarrow> []
      | Some (verb, path) \<Rightarrow> [\<lparr>hb_verb = verb, hb_path = path, hb_rpc = rpc, hb_body = rule_field fs ''body''\<rparr>])
     @ concat (map (collect_http_rules rpc) additional)"

section \<open>The request message\<close>

definition parse_i32 :: "string \<Rightarrow> int option" where
  "parse_i32 s =
     (let (neg, ds) = (case s of
          c # rest \<Rightarrow> if c = CHR ''-'' then (True, rest) else if c = CHR ''+'' then (False, rest) else (False, s)
        | [] \<Rightarrow> (False, [])) in
      if ds = [] \<or> \<not> list_all is_digit ds then None
      else let v = (if neg then - int (digits_value ds) else int (digits_value ds)) in
        if - (2 ^ 31) \<le> v \<and> v < 2 ^ 31 then Some v else None)"

definition parse_u32 :: "string \<Rightarrow> nat option" where
  "parse_u32 s =
     (let ds = (case s of c # rest \<Rightarrow> if c = CHR ''+'' then rest else s | [] \<Rightarrow> s) in
      if ds = [] \<or> \<not> list_all is_digit ds \<or> u32_max < digits_value ds then None
      else Some (digits_value ds))"

definition find_field :: "field_descriptor list \<Rightarrow> string \<Rightarrow> field_descriptor option" where
  "find_field fs n =
     (case find (\<lambda>f. fd_name f = n) fs of Some f \<Rightarrow> Some f | None \<Rightarrow> find (\<lambda>f. fd_json_name f = n) fs)"

definition typed_value :: "field_descriptor list \<Rightarrow> string \<Rightarrow> string \<Rightarrow> transcode_error + json" where
  "typed_value fs path raw =
     (case find_field fs (hd (split_on (CHR ''.'') path)) of
        None \<Rightarrow> Inl (InvalidRequest (''unknown request field '' @ path))
      | Some f \<Rightarrow>
          (case fd_kind f of
             KBool \<Rightarrow>
               if raw = ''true'' then Inr (JBool True) else if raw = ''false'' then Inr (JBool False)
               else Inl (InvalidRequest (''field '' @ path @ '' must be a boolean''))
           | KUint32 \<Rightarrow>
               (case parse_u32 raw of
                  None \<Rightarrow> Inl (InvalidRequest (''field '' @ path @ '' must be an unsigned integer''))
                | Some n \<Rightarrow> Inr (JNumber (show_nat n)))
           | KFixed32 \<Rightarrow>
               (case parse_u32 raw of
                  None \<Rightarrow> Inl (InvalidRequest (''field '' @ path @ '' must be an unsigned integer''))
                | Some n \<Rightarrow> Inr (JNumber (show_nat n)))
           | KOther \<Rightarrow> Inr (JString raw)
           | _ \<Rightarrow>
               (case parse_i32 raw of
                  None \<Rightarrow> Inl (InvalidRequest (''field '' @ path @ '' must be an integer''))
                | Some n \<Rightarrow> Inr (JNumber (show_int n)))))"

text \<open>\<open>None\<close>: the \<open>expect\<close> fails because a value on the path is not an object.\<close>

fun insert_parts :: "(string \<times> json) list \<Rightarrow> string list \<Rightarrow> json \<Rightarrow> (string \<times> json) list option" where
  "insert_parts obj [] v = Some obj"
| "insert_parts obj [part] v = Some (AList.update part v obj)"
| "insert_parts obj (part # p # ps) v =
     (case (case map_of obj part of None \<Rightarrow> JObject [] | Some x \<Rightarrow> x) of
        JObject o' \<Rightarrow> map_option (\<lambda>x. AList.update part (JObject x) obj) (insert_parts o' (p # ps) v)
      | _ \<Rightarrow> None)"

definition insert_json_path :: "(string \<times> json) list \<Rightarrow> string \<Rightarrow> json \<Rightarrow> (string \<times> json) list option" where
  "insert_json_path obj path v = insert_parts obj (split_on (CHR ''.'') path) v"

text \<open>The outcome of building a message: a panic, an error, or the object.\<close>

fun insert_all :: "field_descriptor list \<Rightarrow> (string \<times> string) list \<Rightarrow> (string \<times> json) list \<Rightarrow>
    (transcode_error + (string \<times> json) list) option" where
  "insert_all fs [] obj = Some (Inr obj)"
| "insert_all fs ((path, raw) # rest) obj =
     (case typed_value fs path raw of
        Inl e \<Rightarrow> Some (Inl e)
      | Inr v \<Rightarrow> Option.bind (insert_json_path obj path v) (insert_all fs rest))"

text \<open>The loop over the query string, with the pair split at the first equals sign.\<close>

fun insert_query :: "field_descriptor list \<Rightarrow> string list \<Rightarrow> (string \<times> json) list \<Rightarrow>
    (transcode_error + (string \<times> json) list) option" where
  "insert_query fs [] obj = Some (Inr obj)"
| "insert_query fs (pair # rest) obj =
     (case and_then (percent_decode (takeWhile (\<lambda>c. c \<noteq> CHR ''='') pair)) (\<lambda>name.
           and_then (percent_decode (drop 1 (dropWhile (\<lambda>c. c \<noteq> CHR ''='') pair))) (\<lambda>raw.
           and_then (typed_value fs name raw) (\<lambda>v. Inr (name, v)))) of
        Inl e \<Rightarrow> Some (Inl e)
      | Inr (name, v) \<Rightarrow> Option.bind (insert_json_path obj name v) (insert_query fs rest))"

record transcode_request =
  tq_method :: string
  tq_path :: string
  tq_query :: string
  tq_headers :: headers
  tq_body :: string

text \<open>\<open>of_json\<close> parses the body; the object it is turned into, before the captures and the query are added.\<close>

definition body_value :: "(string \<Rightarrow> string + json) \<Rightarrow> route \<Rightarrow> string \<Rightarrow> (transcode_error + json) option" where
  "body_value of_json r body =
     (case (if body = [] then Inr (JObject []) else of_json body) of
        Inl e \<Rightarrow> Some (Inl (InvalidJson e))
      | Inr v \<Rightarrow>
          (case hb_body (ro_binding r) of
             Some field \<Rightarrow>
               if field \<noteq> ''*'' then map_option (\<lambda>o'. Inr (JObject o')) (insert_json_path [] field v) else Some (Inr v)
           | None \<Rightarrow> if body \<noteq> [] then Some (Inl UnexpectedBody) else Some (Inr v)))"

text \<open>\<open>decode\<close> turns the object into a message of the method's input type.\<close>

definition request_message ::
  "(string \<Rightarrow> string + json) \<Rightarrow> (method_descriptor \<Rightarrow> json \<Rightarrow> string + 'm) \<Rightarrow> route \<Rightarrow> transcode_request \<Rightarrow>
     (string, string) bmap \<Rightarrow> (transcode_error + 'm) option" where
  "request_message of_json decode r q captures =
     (case body_value of_json r (tq_body q) of
        None \<Rightarrow> None
      | Some (Inl e) \<Rightarrow> Some (Inl e)
      | Some (Inr (JObject obj)) \<Rightarrow>
          (case insert_all (md_input (ro_method r)) captures obj of
             None \<Rightarrow> None
           | Some (Inl e) \<Rightarrow> Some (Inl e)
           | Some (Inr obj1) \<Rightarrow>
               (case insert_query (md_input (ro_method r))
                       (filter (\<lambda>p. p \<noteq> []) (split_on (CHR ''&'') (tq_query q))) obj1 of
                  None \<Rightarrow> None
                | Some (Inl e) \<Rightarrow> Some (Inl e)
                | Some (Inr obj2) \<Rightarrow>
                    Some (case decode (ro_method r) (JObject obj2) of Inl e \<Rightarrow> Inl (InvalidJson e) | Inr m \<Rightarrow> Inr m)))
      | Some (Inr _) \<Rightarrow> Some (Inl (InvalidRequest ''request JSON must be an object'')))"

section \<open>The call\<close>

definition select_route :: "transcoder \<Rightarrow> string \<Rightarrow> string \<Rightarrow> (route \<times> (string, string) bmap) option" where
  "select_route t verb path =
     first_some (\<lambda>r. map_option (Pair r) (match_template (hb_path (ro_binding r)) path))
       (filter (\<lambda>r. verb_matches (hb_verb (ro_binding r)) verb) (tr_routes t))"

definition skipped_metadata :: "string \<Rightarrow> bool" where
  "skipped_metadata n \<longleftrightarrow>
     n \<in> {''host'', ''content-type'', ''content-length'', ''connection'', ''transfer-encoding''} \<or>
     4 \<le> length n \<and> drop (length n - 4) n = ''-bin''"

text \<open>\<open>metadata_ok\<close> says whether a name and a value parse as ASCII metadata.\<close>

definition forward_metadata :: "(string \<times> string \<Rightarrow> bool) \<Rightarrow> headers \<Rightarrow> headers" where
  "forward_metadata metadata_ok hs = filter (\<lambda>h. \<not> skipped_metadata (fst h) \<and> metadata_ok h) hs"

definition request_metadata :: "(string \<times> string \<Rightarrow> bool) \<Rightarrow> transcoder \<Rightarrow> headers \<Rightarrow> headers" where
  "request_metadata metadata_ok t hs =
     (let m = forward_metadata metadata_ok hs in
      case tr_authorization t of None \<Rightarrow> m | Some a \<Rightarrow> header_insert ''authorization'' a m)"

definition grpc_path :: "method_descriptor \<Rightarrow> string" where
  "grpc_path m = ''/'' @ md_service m @ ''/'' @ md_name m"

fun transcode_status_to_http :: "grpc_code \<Rightarrow> nat" where
  "transcode_status_to_http Ok = 200"
| "transcode_status_to_http Cancelled = 499"
| "transcode_status_to_http Unknown = 500"
| "transcode_status_to_http Internal = 500"
| "transcode_status_to_http DataLoss = 500"
| "transcode_status_to_http InvalidArgument = 400"
| "transcode_status_to_http FailedPrecondition = 400"
| "transcode_status_to_http OutOfRange = 400"
| "transcode_status_to_http DeadlineExceeded = 504"
| "transcode_status_to_http NotFound = 404"
| "transcode_status_to_http AlreadyExists = 409"
| "transcode_status_to_http Aborted = 409"
| "transcode_status_to_http PermissionDenied = 403"
| "transcode_status_to_http Unauthenticated = 401"
| "transcode_status_to_http ResourceExhausted = 429"
| "transcode_status_to_http Unimplemented = 501"
| "transcode_status_to_http Unavailable = 503"

text \<open>
  What \<open>invoke\<close> needs from outside: the JSON reader, the protobuf decoder, the metadata parser and the
  gRPC call itself, which answers with a status or with metadata and the JSON of its message or messages.
\<close>

record 'm transcode_libs =
  tx_of_json :: "string \<Rightarrow> string + json"
  tx_decode :: "method_descriptor \<Rightarrow> json \<Rightarrow> string + 'm"
  tx_metadata_ok :: "string \<times> string \<Rightarrow> bool"
  tx_call :: "string \<Rightarrow> headers \<Rightarrow> 'm \<Rightarrow> (grpc_code \<times> string) + (headers \<times> body)"

definition invoke :: "'m transcode_libs \<Rightarrow> transcoder \<Rightarrow> transcode_request \<Rightarrow> (transcode_error + http_response) option" where
  "invoke x t q =
     (case select_route t (tq_method q) (tq_path q) of
        None \<Rightarrow> Some (Inl NoRoute)
      | Some (r, captures) \<Rightarrow>
          map_option
            (\<lambda>input. and_then input (\<lambda>m.
               case tx_call x (grpc_path (ro_method r)) (request_metadata (tx_metadata_ok x) t (tq_headers q)) m of
                 Inl (code, message) \<Rightarrow> Inl (StatusError code message)
               | Inr (metadata, body) \<Rightarrow>
                   Inr \<lparr>hs_status = 200, hs_headers = (''content-type'', ''application/json'') # metadata, hs_body = body\<rparr>))
            (request_message (tx_of_json x) (tx_decode x) r q captures))"

fun grpc_number :: "grpc_code \<Rightarrow> nat" where
  "grpc_number Ok = 0"
| "grpc_number Cancelled = 1"
| "grpc_number Unknown = 2"
| "grpc_number InvalidArgument = 3"
| "grpc_number DeadlineExceeded = 4"
| "grpc_number NotFound = 5"
| "grpc_number AlreadyExists = 6"
| "grpc_number PermissionDenied = 7"
| "grpc_number ResourceExhausted = 8"
| "grpc_number FailedPrecondition = 9"
| "grpc_number Aborted = 10"
| "grpc_number OutOfRange = 11"
| "grpc_number Unimplemented = 12"
| "grpc_number Internal = 13"
| "grpc_number Unavailable = 14"
| "grpc_number DataLoss = 15"
| "grpc_number Unauthenticated = 16"

fun grpc_debug :: "grpc_code \<Rightarrow> string" where
  "grpc_debug Ok = ''Ok''"
| "grpc_debug Cancelled = ''Cancelled''"
| "grpc_debug Unknown = ''Unknown''"
| "grpc_debug InvalidArgument = ''InvalidArgument''"
| "grpc_debug DeadlineExceeded = ''DeadlineExceeded''"
| "grpc_debug NotFound = ''NotFound''"
| "grpc_debug AlreadyExists = ''AlreadyExists''"
| "grpc_debug PermissionDenied = ''PermissionDenied''"
| "grpc_debug ResourceExhausted = ''ResourceExhausted''"
| "grpc_debug FailedPrecondition = ''FailedPrecondition''"
| "grpc_debug Aborted = ''Aborted''"
| "grpc_debug OutOfRange = ''OutOfRange''"
| "grpc_debug Unimplemented = ''Unimplemented''"
| "grpc_debug Internal = ''Internal''"
| "grpc_debug Unavailable = ''Unavailable''"
| "grpc_debug DataLoss = ''DataLoss''"
| "grpc_debug Unauthenticated = ''Unauthenticated''"

definition error_json :: "grpc_code \<Rightarrow> string \<Rightarrow> json" where
  "error_json code message =
     JObject [(''code'', JNumber (show_nat (grpc_number code))), (''status'', JString (map ascii_upper (grpc_debug code))),
              (''message'', JString message)]"

text \<open>The texts of the errors that are answered with their text.\<close>

fun transcode_error_text :: "transcode_error \<Rightarrow> string" where
  "transcode_error_text InvalidAuthorization = ''gRPC authorization value is not valid ASCII metadata''"
| "transcode_error_text (UnknownMethod m) = ''unknown protobuf method: '' @ m"
| "transcode_error_text (UnsupportedClientStreaming m) = ''HTTP transcoding does not support client-streaming method '' @ m"
| "transcode_error_text (InvalidTemplate p) = ''invalid HTTP path template: '' @ p"
| "transcode_error_text NoRoute = ''no HTTP binding matched''"
| "transcode_error_text UnexpectedBody = ''this HTTP binding does not accept a request body''"
| "transcode_error_text (InvalidRequest m) = m"
| "transcode_error_text (InvalidJson e) = ''invalid protobuf JSON: '' @ e"
| "transcode_error_text (StatusError code m) = ''gRPC request failed: '' @ m"

fun error_reply :: "transcode_error \<Rightarrow> nat \<times> json" where
  "error_reply NoRoute = (404, error_json NotFound ''no HTTP-to-gRPC binding matched the request'')"
| "error_reply (InvalidJson e) = (400, error_json InvalidArgument e)"
| "error_reply (StatusError code message) = (transcode_status_to_http code, error_json code message)"
| "error_reply e = (500, error_json Internal (transcode_error_text e))"

definition handle :: "(json \<Rightarrow> string option) \<Rightarrow> 'm transcode_libs \<Rightarrow> transcoder \<Rightarrow> transcode_request \<Rightarrow> http_response option" where
  "handle to_vec x t q =
     map_option (\<lambda>res. case res of Inl e \<Rightarrow> (case error_reply e of (status, v) \<Rightarrow> json_response to_vec status v) | Inr r \<Rightarrow> r)
       (invoke x t q)"

section \<open>The chosen binding\<close>

lemma first_some_None: "first_some f xs = None \<longleftrightarrow> (\<forall>x \<in> set xs. f x = None)"
  by (induction xs) (auto split: option.splits)

lemma first_some_Some:
  "first_some f xs = Some y \<Longrightarrow> \<exists>us x vs. xs = us @ x # vs \<and> f x = Some y \<and> (\<forall>u \<in> set us. f u = None)"
proof (induction xs)
  case (Cons x xs)
  show ?case
  proof (cases "f x")
    case None
    then obtain us z vs where "xs = us @ z # vs" "f z = Some y" "\<forall>u \<in> set us. f u = None" using Cons by auto
    then show ?thesis using None by (intro exI [of _ "x # us"] exI [of _ z] exI [of _ vs]) simp
  next
    case (Some z)
    then show ?thesis using Cons.prems by (intro exI [of _ "[]"] exI [of _ x] exI [of _ xs]) simp
  qed
qed simp

lemma build_routes_bindings: "build_routes p bs = Inr rs \<Longrightarrow> map ro_binding rs = bs"
  by (induction bs arbitrary: rs) (auto simp: and_then_Inr build_route_def split: option.splits if_splits)

text \<open>
  C30. Requests go to the most specific binding. Of all bindings a transcoder was built from whose verb and
  template match a request, the chosen one has the greatest literal weight; it is found whenever any
  binding matches, and the captured values are those of its template.
\<close>

theorem transcoder_selects_best:
  assumes built: "build p bindings auth = Inr t"
  shows "case select_route t verb path of
      None \<Rightarrow> \<forall>b \<in> set bindings. verb_matches (hb_verb b) verb \<longrightarrow> match_template (hb_path b) path = None
    | Some (r, captures) \<Rightarrow>
        ro_binding r \<in> set bindings \<and> verb_matches (hb_verb (ro_binding r)) verb \<and>
        match_template (hb_path (ro_binding r)) path = Some captures \<and>
        (\<forall>b \<in> set bindings. verb_matches (hb_verb b) verb \<and> match_template (hb_path b) path \<noteq> None \<longrightarrow>
           literal_weight (hb_path b) \<le> route_weight r)"
proof -
  obtain rs where rs: "build_routes p bindings = Inr rs" "tr_routes t = sort_key (\<lambda>r. - int (route_weight r)) rs"
    using built by (auto simp: build_def and_then_Inr)
  let ?key = "\<lambda>r. - int (route_weight r)" and ?f = "\<lambda>r. map_option (Pair r) (match_template (hb_path (ro_binding r)) path)"
  let ?rs = "filter (\<lambda>r. verb_matches (hb_verb (ro_binding r)) verb) (tr_routes t)"
  have bindings: "set bindings = ro_binding ` set (tr_routes t)"
    using build_routes_bindings [OF rs(1)] by (auto simp: rs(2))
  have "sorted (map ?key (tr_routes t))" by (simp add: rs(2))
  then have sorted: "sorted (map ?key ?rs)" by (simp add: sorted_filter)
  show ?thesis
  proof (cases "select_route t verb path")
    case None
    then have "\<forall>r \<in> set ?rs. ?f r = None" unfolding select_route_def first_some_None .
    with None show ?thesis by (auto simp: bindings)
  next
    case (Some rc)
    obtain r captures where rc: "rc = (r, captures)" by (cases rc)
    from Some obtain us x vs where us: "?rs = us @ x # vs" "?f x = Some rc" "\<forall>u \<in> set us. ?f u = None"
      unfolding select_route_def by (blast dest: first_some_Some)
    then have x: "x = r" "match_template (hb_path (ro_binding r)) path = Some captures" by (auto simp: rc)
    have mem: "r \<in> set ?rs" using us(1) x(1) by (metis in_set_conv_decomp)
    have "route_weight r' \<le> route_weight r" if "r' \<in> set ?rs" "?f r' \<noteq> None" for r'
    proof -
      have "r' \<in> set (r # vs)" using that us x(1) by auto
      then show ?thesis using sorted by (auto simp: us(1) x(1) sorted_append)
    qed
    then show ?thesis using Some mem x(2) by (auto simp: rc bindings)
  qed
qed

section \<open>Round trip of captured values\<close>

text \<open>The encoding of a client: letters, digits and a few marks stand for themselves, other bytes are escaped.\<close>

definition unreserved :: "char \<Rightarrow> bool" where
  "unreserved c \<longleftrightarrow>
     (let n = of_char c :: nat in
      48 \<le> n \<and> n \<le> 57 \<or> 65 \<le> n \<and> n \<le> 90 \<or> 97 \<le> n \<and> n \<le> 122 \<or> n = 45 \<or> n = 46 \<or> n = 95 \<or> n = 126)"

definition percent_encode :: "string \<Rightarrow> string" where
  "percent_encode s = concat (map (\<lambda>c. if unreserved c then [c] else CHR ''%'' # encode_byte (of_nat (of_char c))) s)"

lemma percent_bytes_encode: "percent_bytes (percent_encode s) = Some s"
proof (induction s)
  case (Cons c s)
  have "(of_char c :: nat) < 256" by simp
  then have "char_of (unat (of_nat (of_char c :: nat) :: 8 word)) = c" by (simp add: unat_of_nat)
  then show ?case
    using Cons hex_pair_byte [of "of_nat (of_char c)"]
    by (auto simp: percent_encode_def encode_byte_def unreserved_def)
qed (simp add: percent_encode_def)

lemma percent_decode_encode: "utf8 (map of_char s) \<Longrightarrow> percent_decode (percent_encode s) = Inr s"
  by (simp add: percent_decode_def percent_bytes_encode)

lemma percent_encode_no_slash: "CHR ''/'' \<notin> set (percent_encode s)"
proof -
  have "CHR ''/'' \<notin> set (encode_byte b)" for b :: "8 word"
  proof -
    have "CHR ''/'' \<noteq> hex_char d" if "d < 16" for d
    proof
      assume "CHR ''/'' = hex_char d"
      then have "(of_char (hex_char d) :: nat) = of_char (CHR ''/'')" by simp
      then show False using of_char_hex [OF that] that by (simp split: if_splits)
    qed
    from this [OF byte_digits(1)] this [OF byte_digits(2)] show ?thesis by (auto simp: encode_byte_def)
  qed
  then show ?thesis by (auto simp: percent_encode_def unreserved_def)
qed

text \<open>A template with its placeholders filled in by a client.\<close>

definition capture_key :: "string \<Rightarrow> string" where
  "capture_key name = hd (split_on (CHR ''='') name)"

definition fill :: "(string \<Rightarrow> string) \<Rightarrow> string \<Rightarrow> string" where
  "fill vs part = (case placeholder part of Some name \<Rightarrow> percent_encode (vs (capture_key name)) | None \<Rightarrow> part)"

definition slashed :: "string list \<Rightarrow> string" where
  "slashed parts = CHR ''/'' # join_with ''/'' parts"

definition capture_keys :: "string list \<Rightarrow> string set" where
  "capture_keys ts = {capture_key name |name part. part \<in> set ts \<and> placeholder part = Some name}"

lemma capture_keys_Cons:
  "capture_keys (t # ts) = (case placeholder t of None \<Rightarrow> {} | Some n \<Rightarrow> {capture_key n}) \<union> capture_keys ts"
  by (auto simp: capture_keys_def split: option.split)

lemma match_parts_fill:
  "\<forall>k \<in> capture_keys ts. utf8 (map of_char (vs k)) \<Longrightarrow> bt_ok caps \<Longrightarrow>
   \<exists>out. match_parts ts (map (fill vs) ts) caps = Some out \<and>
     (\<forall>k. map_of out k = (if k \<in> capture_keys ts then Some (vs k) else map_of caps k))"
proof (induction ts arbitrary: caps)
  case (Cons t ts)
  show ?case
  proof (cases "placeholder t")
    case None
    then show ?thesis using Cons by (auto simp: fill_def capture_keys_Cons)
  next
    case (Some name)
    let ?k = "capture_key name"
    have rest: "\<forall>k \<in> capture_keys ts. utf8 (map of_char (vs k))" and k: "utf8 (map of_char (vs ?k))"
      using Cons.prems(1) Some by (auto simp: capture_keys_Cons)
    from Cons.IH [OF rest bt.ok_put [OF Cons.prems(2), of ?k "vs ?k"]] obtain out where
      out: "match_parts ts (map (fill vs) ts) (bt_put ?k (vs ?k) caps) = Some out"
        "\<forall>k. map_of out k = (if k \<in> capture_keys ts then Some (vs k) else map_of (bt_put ?k (vs ?k) caps) k)" by blast
    have "match_parts (t # ts) (map (fill vs) (t # ts)) caps = Some out"
      using out(1) Some k by (simp add: fill_def percent_decode_encode capture_key_def)
    then show ?thesis
      using out(2) Some bt.lookup_put [OF Cons.prems(2), of ?k "vs ?k"] by (auto simp: capture_keys_Cons)
  qed
qed (auto simp: capture_keys_def)

definition plain_parts :: "string list \<Rightarrow> bool" where
  "plain_parts ps \<longleftrightarrow> ps \<noteq> [] \<and> (\<forall>p \<in> set ps. p \<noteq> [] \<and> CHR ''/'' \<notin> set p)"

lemma join_with_ends:
  "plain_parts ps \<Longrightarrow> join_with ''/'' ps \<noteq> [] \<and> hd (join_with ''/'' ps) \<noteq> CHR ''/'' \<and> last (join_with ''/'' ps) \<noteq> CHR ''/''"
proof (induction ps)
  case (Cons p ps)
  have p: "p \<noteq> []" "CHR ''/'' \<notin> set p" using Cons.prems by (auto simp: plain_parts_def)
  then have ends: "hd p \<noteq> CHR ''/''" "last p \<noteq> CHR ''/''" by (metis hd_in_set, metis last_in_set)
  show ?case
  proof (cases "ps = []")
    case False
    then have "plain_parts ps" using Cons.prems by (auto simp: plain_parts_def)
    with Cons.IH have "join_with ''/'' ps \<noteq> []" "last (join_with ''/'' ps) \<noteq> CHR ''/''" by auto
    then show ?thesis using False p(1) ends by (simp add: join_with_Cons)
  qed (use p ends in simp)
qed (simp add: plain_parts_def)

lemma split_slashed:
  assumes "plain_parts ps"
  shows "split_on (CHR ''/'') (trim_matches (CHR ''/'') (slashed ps)) = ps"
proof -
  let ?j = "join_with ''/'' ps"
  note ends = join_with_ends [OF assms]
  have "dropWhile (\<lambda>x. x = CHR ''/'') (slashed ps) = ?j"
    using ends by (cases ?j) (auto simp: slashed_def)
  moreover have "dropWhile (\<lambda>x. x = CHR ''/'') (rev ?j) = rev ?j"
    using ends by (cases "rev ?j") (auto simp: last_rev hd_rev [symmetric])
  ultimately have "trim_matches (CHR ''/'') (slashed ps) = ?j" by (simp add: trim_matches_def)
  then show ?thesis using assms split_join [of ps "CHR ''/''"] by (auto simp: plain_parts_def)
qed

text \<open>
  What a client puts into a path is what the service gets. For a template of plain segments, filling
  its placeholders with percent-encoded values that are UTF-8 and not empty gives a path that the
  template matches, and the captured value of every variable is the value the client encoded.
\<close>

theorem template_roundtrip:
  assumes parts: "plain_parts ts" and vs: "\<forall>k \<in> capture_keys ts. vs k \<noteq> [] \<and> utf8 (map of_char (vs k))"
  shows "\<exists>captures. match_template (slashed ts) (slashed (map (fill vs) ts)) = Some captures \<and>
    (\<forall>k. map_of captures k = (if k \<in> capture_keys ts then Some (vs k) else None))"
proof -
  have "fill vs t \<noteq> [] \<and> CHR ''/'' \<notin> set (fill vs t)" if "t \<in> set ts" for t
  proof (cases "placeholder t")
    case (Some name)
    then have "vs (capture_key name) \<noteq> []" using vs that by (auto simp: capture_keys_def)
    then have "percent_encode (vs (capture_key name)) \<noteq> []"
      by (cases "vs (capture_key name)") (auto simp: percent_encode_def)
    then show ?thesis using Some by (simp add: fill_def percent_encode_no_slash)
  qed (use parts that in \<open>auto simp: fill_def plain_parts_def\<close>)
  then have filled: "plain_parts (map (fill vs) ts)" using parts by (auto simp: plain_parts_def)
  have "bt_ok ([] :: (string, string) bmap)" by (rule bt.ok_empty)
  from match_parts_fill [OF _ this] vs obtain out where
    "match_parts ts (map (fill vs) ts) [] = Some out"
    "\<forall>k. map_of out k = (if k \<in> capture_keys ts then Some (vs k) else None)"
    by (metis (no_types, lifting) map_of.simps(1))
  then show ?thesis
    by (simp add: match_template_def split_slashed [OF parts] split_slashed [OF filled] Let_def)
qed

section \<open>Paths into the message\<close>

fun json_at :: "(string \<times> json) list \<Rightarrow> string list \<Rightarrow> json option" where
  "json_at obj [] = Some (JObject obj)"
| "json_at obj [part] = map_of obj part"
| "json_at obj (part # p # ps) =
     (case map_of obj part of Some (JObject o') \<Rightarrow> json_at o' (p # ps) | _ \<Rightarrow> None)"

text \<open>A proper prefix of the path holds something other than an object.\<close>

fun collides :: "(string \<times> json) list \<Rightarrow> string list \<Rightarrow> bool" where
  "collides obj (part # p # ps) =
     (case map_of obj part of None \<Rightarrow> False | Some (JObject o') \<Rightarrow> collides o' (p # ps) | Some _ \<Rightarrow> True)"
| "collides obj _ = False"

lemma collides_empty: "\<not> collides [] ps"
  by (cases "([] :: (string \<times> json) list, ps)" rule: collides.cases) auto

lemma insert_parts_total: "insert_parts obj ps v = None \<longleftrightarrow> collides obj ps"
proof (induction obj ps v rule: insert_parts.induct)
  case (3 obj part p ps v)
  then show ?case by (cases "map_of obj part") (auto simp: collides_empty split: json.splits)
qed simp_all

lemma insert_parts_lookup:
  "insert_parts obj ps v = Some obj' \<Longrightarrow> ps \<noteq> [] \<Longrightarrow> json_at obj' ps = Some v"
proof (induction obj ps v arbitrary: obj' rule: insert_parts.induct)
  case (3 obj part p ps v)
  then show ?case by (cases "map_of obj part") (auto simp: update_conv' split: json.splits)
qed (simp_all add: update_conv')

text \<open>
  A request can make the gateway panic. Storing a path parameter or a query parameter in the message
  object panics exactly when the object already has something other than an object on the way; with a
  binding that takes the body as the message, the body \<open>{a: 1}\<close> and the query \<open>a.b=2\<close> do that, before the
  protobuf decoding that the source relies on to reject such collisions.
\<close>

theorem transcode_collision_panics:
  assumes "of_json ''x'' = Inr (JObject [(''a'', JNumber ''1'')])" "md_input m = [\<lparr>fd_name = ''a'', fd_json_name = ''a'', fd_kind = KOther\<rparr>]"
  shows "request_message of_json decode \<lparr>ro_binding = with_body ''*'' (http_binding_new Post ''/x'' ''s.m''), ro_method = m\<rparr>
      \<lparr>tq_method = ''POST'', tq_path = ''/x'', tq_query = ''a.b=2'', tq_headers = [], tq_body = ''x''\<rparr> [] = None \<and>
    (insert_json_path obj path v = None \<longleftrightarrow> collides obj (split_on (CHR ''.'') path))"
proof -
  have "percent_decode ''a.b'' = Inr ''a.b''" "percent_decode ''2'' = Inr ''2''" by (simp_all add: percent_decode_def)
  then show ?thesis
    using assms by (simp add: request_message_def body_value_def with_body_def http_binding_new_def typed_value_def find_field_def
        insert_json_path_def insert_parts_total)
qed

theorem transcode_collision_panics_witness:
  "request_message (\<lambda>_. Inr (JObject [(''a'', JNumber ''1'')])) (\<lambda>_ _. Inr ())
      \<lparr>ro_binding = with_body ''*'' (http_binding_new Post ''/x'' ''s.m''),
       ro_method = \<lparr>md_name = ''m'', md_service = ''s'', md_client_streaming = False, md_server_streaming = False,
         md_input = [\<lparr>fd_name = ''a'', fd_json_name = ''a'', fd_kind = KOther\<rparr>]\<rparr>\<rparr>
      \<lparr>tq_method = ''POST'', tq_path = ''/x'', tq_query = ''a.b=2'', tq_headers = [], tq_body = ''x''\<rparr> [] = None"
  by (rule conjunct1 [OF transcode_collision_panics]) simp_all

text \<open>Errors of the request itself are answered with a server error, unlike broken JSON.\<close>

lemma request_errors_are_internal:
  "fst (error_reply (InvalidRequest m)) = 500" "fst (error_reply UnexpectedBody) = 500" "fst (error_reply (InvalidJson m)) = 400"
  by simp_all

text \<open>The fixed authorization of an upstream replaces whatever the client sent.\<close>

lemma authorization_replaced:
  "tr_authorization t = Some a \<Longrightarrow> header_values ''authorization'' (request_metadata ok t hs) = [a]"
  by (simp add: request_metadata_def Let_def)

section \<open>Witnesses\<close>

definition example_pool :: pool where
  "example_pool = [(''s'', [\<lparr>md_name = ''m'', md_service = ''s'', md_client_streaming = False, md_server_streaming = False, md_input = []\<rparr>])]"

definition by_id :: string where
  "by_id = ''/v1/'' @ [CHR 0x7B] @ ''id'' @ [CHR 0x7D]"

definition example_bindings :: "http_binding list" where
  "example_bindings = [http_binding_new Get by_id ''s.m'', http_binding_new Get ''/v1/me'' ''/s/m'']"

theorem transcoder_selects_best_witness:
  "\<exists>t r captures. build example_pool example_bindings None = Inr t \<and> select_route t ''GET'' ''/v1/me'' = Some (r, captures) \<and>
     hb_path (ro_binding r) = ''/v1/me''"
proof -
  have "\<exists>t. build example_pool example_bindings None = Inr t"
    by (simp add: build_def example_bindings_def by_id_def http_binding_new_def build_route_def validate_template_def starts_with_slash_def
        contains_brace_def find_method_def example_pool_def Let_def)
  then obtain t where t: "build example_pool example_bindings None = Inr t" ..
  have weights: "literal_weight ''/v1/me'' = 4" "literal_weight by_id = 2"
    by (simp_all add: literal_weight_def by_id_def)
  have matches: "match_template ''/v1/me'' ''/v1/me'' \<noteq> None"
    by (simp add: match_template_def trim_matches_def placeholder_def Let_def)
  note best = transcoder_selects_best [OF t, of "''GET''" "''/v1/me''"]
  show ?thesis
  proof (cases "select_route t ''GET'' ''/v1/me''")
    case None
    then show ?thesis using best matches by (auto simp: example_bindings_def http_binding_new_def)
  next
    case (Some rc)
    obtain r captures where rc: "rc = (r, captures)" by (cases rc)
    have "ro_binding r \<in> set example_bindings" "4 \<le> route_weight r"
      using best matches Some weights by (auto simp: rc example_bindings_def http_binding_new_def)
    then have "hb_path (ro_binding r) = ''/v1/me''" using weights by (auto simp: example_bindings_def http_binding_new_def)
    then show ?thesis using t Some rc by blast
  qed
qed

theorem template_roundtrip_witness:
  "\<exists>captures. match_template by_id (slashed [''v1'', percent_encode ''a b'']) = Some captures \<and>
     map_of captures ''id'' = Some ''a b''"
proof -
  let ?ts = "[''v1'', [CHR 0x7B] @ ''id'' @ [CHR 0x7D]]"
  have parts: "plain_parts ?ts" by (simp add: plain_parts_def)
  have keys: "capture_keys ?ts = {''id''}"
    by (simp add: capture_keys_Cons placeholder_def capture_key_def) (simp add: capture_keys_def)
  have written: "slashed ?ts = by_id" "map (fill (\<lambda>_. ''a b'')) ?ts = [''v1'', percent_encode ''a b'']"
    by (simp_all add: slashed_def by_id_def fill_def placeholder_def)
  have "\<forall>k \<in> capture_keys ?ts. ''a b'' \<noteq> [] \<and> utf8 (map of_char ''a b'')" by simp
  from template_roundtrip [OF parts this] obtain c where
    "match_template by_id (slashed [''v1'', percent_encode ''a b'']) = Some c" "map_of c ''id'' = Some ''a b''"
    unfolding keys written by (metis singletonI)
  then show ?thesis by blast
qed

end
