(* ===== verification/Gateway.thy ===== *)
theory Gateway
  imports Rest_Server Transcode "HOL-Library.Multiset"
begin

text \<open>
  \<open>gateway/src/lib.rs\<close>: the configuration of the HTTP gateway, the router that selects a route by the
  longest matching prefix and an upstream of it by round robin over the healthy ones, and the reverse
  proxy. URL parsing, the unstable sort of the standard library, the HTTP client and the registered
  middleware are arguments; \<open>None\<close> is a panic.
\<close>

section \<open>Routes\<close>

datatype gateway_error =
    InvalidPrefix string
  | EmptyUpstreams string
  | EmptyUpstream
  | DuplicatePrefix string
  | UnknownPrefix string
  | UnknownUpstream string

record gateway_route =
  gr_prefix :: string
  gr_upstreams :: "string list"
  gr_middleware :: "string list"

text \<open>\<open>while prefix.len() > 1 \<and> prefix.ends_with('/')\<close>, on the reversed text.\<close>

fun pop_slashes :: "string \<Rightarrow> string" where
  "pop_slashes (c # d # rest) = (if c = CHR ''/'' then pop_slashes (d # rest) else c # d # rest)"
| "pop_slashes s = s"

definition normalize_prefix :: "string \<Rightarrow> gateway_error + string" where
  "normalize_prefix prefix =
     (if \<not> starts_with_slash prefix then Inl (InvalidPrefix prefix) else Inr (rev (pop_slashes (rev prefix))))"

definition strip_prefix :: "string \<Rightarrow> string \<Rightarrow> string option" where
  "strip_prefix prefix s = (if take (length prefix) s = prefix then Some (drop (length prefix) s) else None)"

definition matches_prefix :: "string \<Rightarrow> string \<Rightarrow> bool" where
  "matches_prefix path prefix \<longleftrightarrow>
     prefix = ''/'' \<or> path = prefix \<or>
     (case strip_prefix prefix path of None \<Rightarrow> False | Some suffix \<Rightarrow> starts_with_slash suffix)"

definition gateway_route_new :: "string \<Rightarrow> string list \<Rightarrow> gateway_error + gateway_route" where
  "gateway_route_new prefix upstreams =
     and_then (normalize_prefix prefix) (\<lambda>p.
       if upstreams = [] then Inl (EmptyUpstreams p)
       else if list_ex (\<lambda>u. u = []) upstreams then Inl EmptyUpstream
       else Inr \<lparr>gr_prefix = p, gr_upstreams = upstreams, gr_middleware = []\<rparr>)"

section \<open>The router\<close>

record route_pool =
  po_route :: gateway_route
  po_next :: "64 word"
  po_healthy :: "bool list"

type_synonym router = "route_pool list"

definition route_pool_new :: "gateway_route \<Rightarrow> route_pool" where
  "route_pool_new r = \<lparr>po_route = r, po_next = 0, po_healthy = map (\<lambda>_. True) (gr_upstreams r)\<rparr>"

abbreviation po_prefix :: "route_pool \<Rightarrow> string" where
  "po_prefix p \<equiv> gr_prefix (po_route p)"

fun adjacent_duplicate :: "router \<Rightarrow> string option" where
  "adjacent_duplicate (p # q # rest) = (if po_prefix p = po_prefix q then Some (po_prefix p) else adjacent_duplicate (q # rest))"
| "adjacent_duplicate _ = None"

text \<open>
  \<open>srt\<close> is \<open>sort_unstable_by_key\<close> with the descending length of the prefix as the key: any sorted
  arrangement of its argument may come out.
\<close>

definition router_new :: "(router \<Rightarrow> router) \<Rightarrow> gateway_route list \<Rightarrow> gateway_error + router" where
  "router_new srt routes =
     (let pools = srt (map route_pool_new routes) in
      case adjacent_duplicate pools of Some p \<Rightarrow> Inl (DuplicatePrefix p) | None \<Rightarrow> Inr pools)"

definition descending :: "router \<Rightarrow> bool" where
  "descending ps \<longleftrightarrow> sorted_wrt (\<ge>) (map (\<lambda>p. length (po_prefix p)) ps)"

definition sorts :: "(router \<Rightarrow> router) \<Rightarrow> bool" where
  "sorts srt \<longleftrightarrow> (\<forall>ps. mset (srt ps) = mset ps \<and> descending (srt ps))"

text \<open>\<open>fetch_add\<close> returns the old value; \<open>% len\<close> panics for a pool without upstreams.\<close>

definition select_healthy :: "route_pool \<Rightarrow> (string option \<times> route_pool) option" where
  "select_healthy p =
     (let len = length (gr_upstreams (po_route p)) in
      if len = 0 then None
      else
        let start = unat (po_next p) mod len in
        Some (map_option (\<lambda>o'. gr_upstreams (po_route p) ! ((start + o') mod len))
                (find (\<lambda>o'. po_healthy p ! ((start + o') mod len)) [0..<len]),
              p\<lparr>po_next := po_next p + 1\<rparr>))"

text \<open>The first matching pool is used, and only it advances.\<close>

fun select_pool :: "string \<Rightarrow> router \<Rightarrow> ((string \<times> gateway_route) option \<times> router) option" where
  "select_pool path [] = Some (None, [])"
| "select_pool path (p # ps) =
     (if matches_prefix path (po_prefix p)
      then map_option (\<lambda>(u, p'). (map_option (\<lambda>x. (x, po_route p)) u, p' # ps)) (select_healthy p)
      else map_option (map_prod id (Cons p)) (select_pool path ps))"

definition router_select :: "string \<Rightarrow> router \<Rightarrow> (string option \<times> router) option" where
  "router_select path ps = map_option (map_prod (map_option fst) id) (select_pool path ps)"

definition select_target_with_middleware :: "string \<Rightarrow> router \<Rightarrow> ((string \<times> string list) option \<times> router) option" where
  "select_target_with_middleware path_and_query ps =
     map_option
       (map_prod
         (map_option (\<lambda>(u, r).
            (trim_end_slashes u @ (if starts_with_slash path_and_query then path_and_query else CHR ''/'' # path_and_query),
             gr_middleware r)))
         id)
       (select_pool (hd (split_on (CHR ''?'') path_and_query)) ps)"

definition select_target :: "string \<Rightarrow> router \<Rightarrow> (string option \<times> router) option" where
  "select_target path_and_query ps =
     map_option (map_prod (map_option fst) id) (select_target_with_middleware path_and_query ps)"

fun position :: "('a \<Rightarrow> bool) \<Rightarrow> 'a list \<Rightarrow> nat option" where
  "position P [] = None"
| "position P (x # xs) = (if P x then Some 0 else map_option Suc (position P xs))"

fun set_upstream_health :: "string \<Rightarrow> string \<Rightarrow> bool \<Rightarrow> router \<Rightarrow> gateway_error + router" where
  "set_upstream_health prefix upstream healthy [] = Inl (UnknownPrefix prefix)"
| "set_upstream_health prefix upstream healthy (p # ps) =
     (if po_prefix p = prefix
      then (case position (\<lambda>u. u = upstream) (gr_upstreams (po_route p)) of
              None \<Rightarrow> Inl (UnknownUpstream upstream)
            | Some i \<Rightarrow> Inr (p\<lparr>po_healthy := (po_healthy p)[i := healthy]\<rparr> # ps))
      else and_then (set_upstream_health prefix upstream healthy ps) (\<lambda>ps'. Inr (p # ps')))"

section \<open>Configuration\<close>

record etcd_discovery =
  ed_endpoints :: "string list"
  ed_namespace :: string
  ed_service :: string
  ed_username :: "string option"
  ed_password :: "string option"
  ed_connect_timeout_ms :: nat

definition etcd_discovery_default :: etcd_discovery where
  "etcd_discovery_default =
     \<lparr>ed_endpoints = [], ed_namespace = ''/rust-zero'', ed_service = [], ed_username = None, ed_password = None,
      ed_connect_timeout_ms = 10000\<rparr>"

record grpc_upstream =
  gu_prefix :: string
  gu_endpoints :: "string list"
  gu_discovery :: "etcd_discovery option"
  gu_descriptor_set :: "string option"
  gu_reflection :: bool
  gu_annotated_bindings :: bool
  gu_bindings :: "http_binding list"
  gu_bearer_token :: "string option"

record gateway_config =
  gc_address :: string
  gc_workers :: nat
  gc_request_timeout_ms :: nat
  gc_shutdown_timeout_ms :: nat
  gc_request_body_limit :: nat
  gc_response_body_limit :: nat
  gc_max_concurrent_requests :: nat
  gc_priority_concurrency_reserve :: nat
  gc_rate_limit_requests_per_second :: "nat option"
  gc_rate_limit_burst :: "nat option"
  gc_adaptive_load_shedding :: bool
  gc_server_circuit_breaking :: bool
  gc_load_shed_cpu_threshold_percent :: nat
  gc_load_shed_bucket_ms :: nat
  gc_load_shed_buckets :: nat
  gc_load_shed_cooldown_ms :: nat
  gc_logging :: bool
  gc_recovery :: bool
  gc_tracing :: bool
  gc_metrics :: bool
  gc_security_headers :: bool
  gc_request_ids :: bool
  gc_decompress_gzip :: bool
  gc_metrics_namespace :: string
  gc_tls :: "tls_config option"
  gc_cors :: "cors_config option"
  gc_route_groups :: "route_group_config list"
  gc_routes :: "gateway_route list"
  gc_grpc :: "grpc_upstream list"

definition gateway_config_default :: gateway_config where
  "gateway_config_default =
     (let rest = server_config_default in
      \<lparr>gc_address = ''127.0.0.1:8080'', gc_workers = 1, gc_request_timeout_ms = 30000,
       gc_shutdown_timeout_ms = 30000, gc_request_body_limit = 10 * 1024 * 1024,
       gc_response_body_limit = 50 * 1024 * 1024, gc_max_concurrent_requests = sv_max_concurrent_requests rest,
       gc_priority_concurrency_reserve = sv_priority_concurrency_reserve rest,
       gc_rate_limit_requests_per_second = sv_rate_limit_requests_per_second rest,
       gc_rate_limit_burst = sv_rate_limit_burst rest,
       gc_adaptive_load_shedding = sv_adaptive_load_shedding rest,
       gc_server_circuit_breaking = sv_server_circuit_breaking rest,
       gc_load_shed_cpu_threshold_percent = sv_load_shed_cpu_threshold_percent rest,
       gc_load_shed_bucket_ms = sv_load_shed_bucket_ms rest, gc_load_shed_buckets = sv_load_shed_buckets rest,
       gc_load_shed_cooldown_ms = sv_load_shed_cooldown_ms rest, gc_logging = sv_logging rest,
       gc_recovery = sv_recovery rest, gc_tracing = sv_tracing rest, gc_metrics = sv_metrics rest,
       gc_security_headers = sv_security_headers rest, gc_request_ids = sv_request_ids rest,
       gc_decompress_gzip = sv_decompress_gzip rest, gc_metrics_namespace = sv_metrics_namespace rest,
       gc_tls = sv_tls rest, gc_cors = sv_cors rest, gc_route_groups = sv_route_groups rest, gc_routes = [],
       gc_grpc = []\<rparr>)"

datatype gateway_config_error =
    RouteError gateway_error
  | MiddlewareError string
  | GatewayInvalid string
  | RestError server_config_error

definition trim_slashes :: "string \<Rightarrow> string" where
  "trim_slashes s = trim_end_slashes (dropWhile (\<lambda>c. c = CHR ''/'') s)"

definition etcd_discovery_validate :: "etcd_discovery \<Rightarrow> gateway_config_error + unit" where
  "etcd_discovery_validate d =
     in_order
      [check (ed_endpoints d = [] \<or> list_ex is_blank (ed_endpoints d))
         (GatewayInvalid ''gRPC etcd discovery requires non-empty etcd endpoints''),
       check (is_blank (ed_service d) \<or> CHR ''/'' \<in> set (ed_service d))
         (GatewayInvalid ''gRPC etcd discovery service must be a non-empty name''),
       check (trim_slashes (ed_namespace d) = [] \<or> CHR ''/'' \<in> set (trim_slashes (ed_namespace d)))
         (GatewayInvalid ''gRPC etcd discovery namespace must be a non-empty single path segment''),
       check ((ed_username d \<noteq> None) \<noteq> (ed_password d \<noteq> None))
         (GatewayInvalid ''gRPC etcd discovery username and password must be configured together''),
       check (ed_connect_timeout_ms d = 0) (GatewayInvalid ''gRPC etcd discovery connect timeout must be greater than zero'')]"

definition normalized :: "string \<Rightarrow> string \<Rightarrow> gateway_config_error + unit" where
  "normalized prefix message =
     (case normalize_prefix prefix of
        Inl e \<Rightarrow> Inl (RouteError e)
      | Inr n \<Rightarrow> check (n \<noteq> prefix) (GatewayInvalid message))"

text \<open>The scheme and the authority of a URI, as the parsers report them.\<close>

definition grpc_upstream_validate :: "http_libs \<Rightarrow> grpc_upstream \<Rightarrow> gateway_config_error + unit" where
  "grpc_upstream_validate h g =
     in_order
      [normalized (gu_prefix g) ''gRPC gateway prefixes must not have a trailing slash'',
       check ((gu_endpoints g = []) = (gu_discovery g = None))
         (GatewayInvalid ''configure exactly one of endpoints or discovery for a gRPC upstream''),
       check_all (\<lambda>e. case hl_uri h e of
           None \<Rightarrow> Inl (GatewayInvalid ''gRPC endpoint must be a valid absolute URI'')
         | Some u \<Rightarrow> check (up_scheme u \<notin> {Some ''http'', Some ''https''} \<or> up_authority u = None)
             (GatewayInvalid ''gRPC endpoint must use HTTP or HTTPS and include an authority'')) (gu_endpoints g),
       (case gu_discovery g of None \<Rightarrow> Inr () | Some d \<Rightarrow> etcd_discovery_validate d),
       check ((gu_descriptor_set g \<noteq> None) = gu_reflection g)
         (GatewayInvalid ''configure exactly one of descriptor_set or reflection for a gRPC upstream''),
       check (\<not> gu_annotated_bindings g \<and> gu_bindings g = [])
         (GatewayInvalid ''gRPC gateway requires explicit or annotated HTTP bindings''),
       check (case gu_bearer_token g of None \<Rightarrow> False | Some t \<Rightarrow> is_blank t)
         (GatewayInvalid ''gRPC gateway bearer token must not be empty'')]"

definition gateway_rest_config :: "gateway_config \<Rightarrow> server_config" where
  "gateway_rest_config g =
     (let rest = server_config_default in
      rest\<lparr>sv_address := gc_address g, sv_workers := gc_workers g, sv_request_timeout_ms := gc_request_timeout_ms g,
          sv_shutdown_timeout_ms := gc_shutdown_timeout_ms g,
          sv_max_concurrent_requests := gc_max_concurrent_requests g,
          sv_priority_concurrency_reserve := gc_priority_concurrency_reserve g,
          sv_rate_limit_requests_per_second := gc_rate_limit_requests_per_second g,
          sv_rate_limit_burst := gc_rate_limit_burst g, sv_adaptive_load_shedding := gc_adaptive_load_shedding g,
          sv_server_circuit_breaking := gc_server_circuit_breaking g,
          sv_load_shed_cpu_threshold_percent := gc_load_shed_cpu_threshold_percent g,
          sv_load_shed_bucket_ms := gc_load_shed_bucket_ms g, sv_load_shed_buckets := gc_load_shed_buckets g,
          sv_load_shed_cooldown_ms := gc_load_shed_cooldown_ms g, sv_logging := gc_logging g,
          sv_recovery := gc_recovery g, sv_tracing := gc_tracing g, sv_metrics := gc_metrics g,
          sv_security_headers := gc_security_headers g, sv_request_ids := gc_request_ids g,
          sv_decompress_gzip := gc_decompress_gzip g, sv_metrics_namespace := gc_metrics_namespace g,
          sv_tls := gc_tls g, sv_cors := gc_cors g, sv_route_groups := gc_route_groups g,
          sv_max_body_bytes := gc_request_body_limit g,
          sv_max_multipart_field_bytes := min (sv_max_multipart_field_bytes rest) (gc_request_body_limit g),
          sv_max_multipart_file_bytes := min (sv_max_multipart_file_bytes rest) (gc_request_body_limit g),
          sv_max_multipart_total_bytes := gc_request_body_limit g\<rparr>)"

fun gateway_names :: "string set \<Rightarrow> string list \<Rightarrow> string + unit" where
  "gateway_names seen [] = Inr ()"
| "gateway_names seen (n # ns) =
     (if is_blank n then Inl ''middleware name must not be empty''
      else if n \<in> seen then Inl (''duplicate middleware name: '' @ n)
      else gateway_names (insert n seen) ns)"

text \<open>\<open>url\<close> is \<open>reqwest::Url::parse\<close>: the scheme and whether there is a host.\<close>

definition gateway_route_validate :: "(string \<Rightarrow> (string \<times> bool) option) \<Rightarrow> gateway_route \<Rightarrow> gateway_config_error + unit" where
  "gateway_route_validate url r =
     in_order
      [normalized (gr_prefix r) ''gateway route prefixes must not have a trailing slash'',
       check (gr_upstreams r = []) (RouteError (EmptyUpstreams (gr_prefix r))),
       (case gateway_names {} (gr_middleware r) of Inl e \<Rightarrow> Inl (MiddlewareError e) | Inr _ \<Rightarrow> Inr ()),
       check_all (\<lambda>u. case url u of
           None \<Rightarrow> Inl (GatewayInvalid ''gateway upstream must be a valid URL'')
         | Some (scheme, host) \<Rightarrow> check (scheme \<notin> {''http'', ''https''} \<or> \<not> host)
             (GatewayInvalid ''gateway upstream must use HTTP or HTTPS and include a host'')) (gr_upstreams r)]"

fun grpc_validate_all :: "http_libs \<Rightarrow> string set \<Rightarrow> grpc_upstream list \<Rightarrow> gateway_config_error + unit" where
  "grpc_validate_all h seen [] = Inr ()"
| "grpc_validate_all h seen (g # gs) =
     and_then (grpc_upstream_validate h g) (\<lambda>_.
       if gu_prefix g \<in> seen then Inl (GatewayInvalid ''HTTP and gRPC gateway route prefixes must be unique'')
       else grpc_validate_all h (insert (gu_prefix g) seen) gs)"

definition gateway_config_validate ::
  "http_libs \<Rightarrow> (string \<Rightarrow> (string \<times> bool) option) \<Rightarrow> (router \<Rightarrow> router) \<Rightarrow> gateway_config \<Rightarrow> gateway_config_error + unit" where
  "gateway_config_validate h url srt g =
     in_order
      [check (gc_workers g = 0) (GatewayInvalid ''workers must be greater than zero''),
       check (gc_request_timeout_ms g = 0) (GatewayInvalid ''request_timeout_ms must be greater than zero''),
       check (gc_shutdown_timeout_ms g = 0) (GatewayInvalid ''shutdown_timeout_ms must be greater than zero''),
       check (gc_request_body_limit g = 0 \<or> gc_response_body_limit g = 0) (GatewayInvalid ''gateway body limits must be greater than zero''),
       (case server_config_validate h (gateway_rest_config g) of Inl e \<Rightarrow> Inl (RestError e) | Inr _ \<Rightarrow> Inr ()),
       check (gc_routes g = [] \<and> gc_grpc g = []) (GatewayInvalid ''at least one HTTP or gRPC gateway route is required''),
       check_all (gateway_route_validate url) (gc_routes g),
       grpc_validate_all h (gr_prefix ` set (gc_routes g)) (gc_grpc g),
       (case router_new srt (gc_routes g) of Inl e \<Rightarrow> Inl (RouteError e) | Inr _ \<Rightarrow> Inr ())]"

section \<open>The proxy\<close>

record upstream_request =
  ur_method :: string
  ur_target :: string
  ur_timeout :: duration
  ur_headers :: headers
  ur_body :: string

record upstream_response =
  us_status :: nat
  us_content_length :: "nat option"
  us_headers :: headers
  us_body :: body

datatype upstream_result = Answered upstream_response | UpstreamTimeout | UpstreamFailed

type_synonym upstream_handler = "upstream_request \<Rightarrow> http_response"

record proxy =
  px_router :: router
  px_request_body_limit :: nat
  px_response_body_limit :: nat
  px_timeout :: duration
  px_middleware :: "(string, upstream_request \<Rightarrow> upstream_handler \<Rightarrow> http_response) hmap"

definition proxy_new :: "router \<Rightarrow> proxy" where
  "proxy_new r = \<lparr>px_router = r, px_request_body_limit = 10 * 1024 * 1024, px_response_body_limit = 50 * 1024 * 1024,
     px_timeout = 30 * nanos_per_sec, px_middleware = []\<rparr>"

definition with_request_body_limit :: "nat \<Rightarrow> proxy \<Rightarrow> proxy option" where
  "with_request_body_limit n p = (if n = 0 then None else Some (p\<lparr>px_request_body_limit := n\<rparr>))"

definition with_response_body_limit :: "nat \<Rightarrow> proxy \<Rightarrow> proxy option" where
  "with_response_body_limit n p = (if n = 0 then None else Some (p\<lparr>px_response_body_limit := n\<rparr>))"

definition with_timeout :: "duration \<Rightarrow> proxy \<Rightarrow> proxy option" where
  "with_timeout d p = (if d = 0 then None else Some (p\<lparr>px_timeout := d\<rparr>))"

definition with_upstream_middleware ::
  "string \<Rightarrow> (upstream_request \<Rightarrow> upstream_handler \<Rightarrow> http_response) \<Rightarrow> proxy \<Rightarrow> gateway_config_error + proxy" where
  "with_upstream_middleware name m p =
     (if is_blank name then Inl (MiddlewareError ''middleware name must not be empty'')
      else if map_of (px_middleware p) name \<noteq> None
      then Inl (MiddlewareError (''middleware '' @ [CHR 0x27] @ name @ [CHR 0x27] @ '' is already registered''))
      else Inr (p\<lparr>px_middleware := AList.update name m (px_middleware p)\<rparr>))"

definition validate_middleware :: "proxy \<Rightarrow> gateway_config_error + unit" where
  "validate_middleware p =
     (case find (\<lambda>n. map_of (px_middleware p) n = None) (concat (map (\<lambda>r. gr_middleware (po_route r)) (px_router p))) of
        None \<Rightarrow> Inr ()
      | Some n \<Rightarrow> Inl (MiddlewareError (''middleware '' @ [CHR 0x27] @ n @ [CHR 0x27] @ '' is not registered'')))"

text \<open>The constructor of the HTTP-only server, up to the server it wraps.\<close>

definition gateway_proxy :: "(router \<Rightarrow> router) \<Rightarrow> gateway_config \<Rightarrow> (gateway_config_error + proxy) option" where
  "gateway_proxy srt g =
     (case router_new srt (gc_routes g) of
        Inl e \<Rightarrow> Some (Inl (RouteError e))
      | Inr r \<Rightarrow>
          map_option Inr
            (Option.bind (with_request_body_limit (gc_request_body_limit g) (proxy_new r)) (\<lambda>p1.
             Option.bind (with_response_body_limit (gc_response_body_limit g) p1)
               (with_timeout (duration_from_millis (gc_request_timeout_ms g))))))"

definition is_hop_by_hop :: "string \<Rightarrow> bool" where
  "is_hop_by_hop name \<longleftrightarrow>
     map ascii_lower name \<in> {''connection'', ''keep-alive'', ''proxy-authenticate'', ''proxy-authorization'', ''te'',
       ''trailer'', ''transfer-encoding'', ''upgrade''}"

record proxy_request =
  pq_method :: string
  pq_path_and_query :: string
  pq_headers :: headers
  pq_peer :: "string option"
  pq_scheme :: string
  pq_host :: string
  pq_payload :: body

fun proxy_body :: "nat \<Rightarrow> string \<Rightarrow> body \<Rightarrow> http_response + string" where
  "proxy_body n acc [] = Inr acc"
| "proxy_body n acc (BrokenChunk # rest) = Inl (text_response 400 ''invalid request body'')"
| "proxy_body n acc (Chunk c # rest) =
     (if n < sat_add u64_max (length acc) (length c) then Inl (text_response 413 ''gateway request body limit exceeded'')
      else proxy_body n (acc @ c) rest)"

definition proxy_headers :: "proxy_request \<Rightarrow> headers" where
  "proxy_headers q =
     filter (\<lambda>(n, _). \<not> is_hop_by_hop n \<and> n \<noteq> ''host'' \<and> n \<noteq> ''content-length'') (pq_headers q) @
     (case pq_peer q of None \<Rightarrow> [] | Some ip \<Rightarrow> [(''x-forwarded-for'', ip)]) @
     [(''x-forwarded-proto'', pq_scheme q), (''x-forwarded-host'', pq_host q)]"

text \<open>The streamed response body: once the limit is passed every further chunk is an error.\<close>

fun limit_stream :: "nat \<Rightarrow> nat \<Rightarrow> body \<Rightarrow> body" where
  "limit_stream n received [] = []"
| "limit_stream n received (BrokenChunk # rest) = BrokenChunk # limit_stream n received rest"
| "limit_stream n received (Chunk c # rest) =
     (let r = sat_add u64_max received (length c) in
      (if n < r then BrokenChunk else Chunk c) # limit_stream n r rest)"

definition dispatch_upstream :: "(upstream_request \<Rightarrow> upstream_result) \<Rightarrow> nat \<Rightarrow> upstream_request \<Rightarrow> http_response" where
  "dispatch_upstream send n q =
     (case send q of
        UpstreamTimeout \<Rightarrow> text_response 504 ''gateway upstream timed out''
      | UpstreamFailed \<Rightarrow> text_response 502 ''gateway upstream unavailable''
      | Answered r \<Rightarrow>
          if (case us_content_length r of None \<Rightarrow> False | Some len \<Rightarrow> n < len)
          then text_response 502 ''gateway response body limit exceeded''
          else \<lparr>hs_status = us_status r,
                hs_headers = foldl (\<lambda>hs (name, v). header_insert name v hs) []
                  (filter (\<lambda>(name, _). \<not> is_hop_by_hop name \<and> name \<noteq> ''content-length'') (us_headers r)),
                hs_body = limit_stream n 0 (us_body r)\<rparr>)"

fun gateway_chain ::
  "(string, upstream_request \<Rightarrow> upstream_handler \<Rightarrow> http_response) hmap \<Rightarrow> string list \<Rightarrow> upstream_handler \<Rightarrow> upstream_handler" where
  "gateway_chain reg [] terminal = terminal"
| "gateway_chain reg (n # ns) terminal =
     (case map_of reg n of
        None \<Rightarrow> (\<lambda>_. text_response 500 ''gateway middleware is not registered'')
      | Some policy \<Rightarrow> (\<lambda>q. policy q (gateway_chain reg ns terminal)))"

text \<open>
  \<open>method_ok\<close> and \<open>build_ok\<close> say whether the HTTP client accepts the method and the request; \<open>send\<close> sends
  it. The result is the response and the router after the selection, or a panic.
\<close>

definition forward ::
  "(string \<Rightarrow> bool) \<Rightarrow> (upstream_request \<Rightarrow> bool) \<Rightarrow> (upstream_request \<Rightarrow> upstream_result) \<Rightarrow> proxy_request \<Rightarrow> proxy \<Rightarrow>
     (http_response \<times> proxy) option" where
  "forward method_ok build_ok send q p =
     (case select_target_with_middleware (pq_path_and_query q) (px_router p) of
        None \<Rightarrow> None
      | Some (None, r) \<Rightarrow> Some (text_response 404 ''no healthy gateway upstream'', p\<lparr>px_router := r\<rparr>)
      | Some (Some (target, middleware), r) \<Rightarrow>
          Some
           (case proxy_body (px_request_body_limit p) [] (pq_payload q) of
              Inl res \<Rightarrow> res
            | Inr body \<Rightarrow>
                if \<not> method_ok (pq_method q) then text_response 400 ''invalid request method''
                else
                  let u = \<lparr>ur_method = pq_method q, ur_target = target, ur_timeout = px_timeout p,
                           ur_headers = proxy_headers q, ur_body = body\<rparr> in
                  if \<not> build_ok u then text_response 502 ''invalid gateway upstream request''
                  else gateway_chain (px_middleware p) middleware (dispatch_upstream send (px_response_body_limit p)) u,
            p\<lparr>px_router := r\<rparr>))"

section \<open>Selection\<close>

text \<open>What stays true of a router: its routes, their order, and a health flag per upstream.\<close>

definition router_ok :: "gateway_route list \<Rightarrow> router \<Rightarrow> bool" where
  "router_ok routes ps \<longleftrightarrow>
     mset (map po_route ps) = mset routes \<and> descending ps \<and>
     (\<forall>p \<in> set ps. length (po_healthy p) = length (gr_upstreams (po_route p)))"

text \<open>Routers that arise: built, then used for selections and told about health, in any order.\<close>

inductive router_run :: "(router \<Rightarrow> router) \<Rightarrow> gateway_route list \<Rightarrow> router \<Rightarrow> bool" for srt routes where
  built: "router_new srt routes = Inr ps \<Longrightarrow> router_run srt routes ps"
| selected: "router_run srt routes ps \<Longrightarrow> select_pool path ps = Some (res, ps') \<Longrightarrow> router_run srt routes ps'"
| marked: "router_run srt routes ps \<Longrightarrow> set_upstream_health prefix upstream healthy ps = Inr ps' \<Longrightarrow> router_run srt routes ps'"

lemma router_new_ok: "sorts srt \<Longrightarrow> router_new srt routes = Inr ps \<Longrightarrow> router_ok routes ps"
proof -
  assume srt: "sorts srt" and new: "router_new srt routes = Inr ps"
  have ps: "ps = srt (map route_pool_new routes)"
    using new by (auto simp: router_new_def Let_def split: option.splits)
  have "mset ps = mset (map route_pool_new routes)" "descending ps" using srt by (auto simp: sorts_def ps)
  moreover from this(1) have "mset (map po_route ps) = mset (map po_route (map route_pool_new routes))" by (metis mset_map)
  moreover have "set ps = set (map route_pool_new routes)" using \<open>mset ps = _\<close> by (metis set_mset_mset)
  ultimately show ?thesis by (auto simp: router_ok_def route_pool_new_def comp_def)
qed

lemma select_healthy_keeps:
  "select_healthy p = Some (u, p') \<Longrightarrow> po_route p' = po_route p \<and> po_healthy p' = po_healthy p"
  by (auto simp: select_healthy_def Let_def split: if_splits)

lemma select_pool_keeps:
  "select_pool path ps = Some (res, ps') \<Longrightarrow> map po_route ps' = map po_route ps \<and> map po_healthy ps' = map po_healthy ps"
proof (induction ps arbitrary: ps')
  case (Cons p ps)
  then show ?case by (auto simp: map_option_case dest: select_healthy_keeps split: if_splits option.splits)
qed simp

lemma set_upstream_health_keeps:
  "set_upstream_health prefix upstream healthy ps = Inr ps' \<Longrightarrow>
   map po_route ps' = map po_route ps \<and> map (length \<circ> po_healthy) ps' = map (length \<circ> po_healthy) ps"
proof (induction ps arbitrary: ps')
  case (Cons p ps)
  then show ?case by (auto simp: and_then_Inr split: if_splits option.splits)
qed simp

lemma router_ok_cong:
  assumes "map po_route ps' = map po_route ps" "map (length \<circ> po_healthy) ps' = map (length \<circ> po_healthy) ps"
  shows "router_ok routes ps' = router_ok routes ps"
proof -
  have "descending ps' = descending ps"
    using arg_cong [OF assms(1), of "map (\<lambda>r. length (gr_prefix r))"] by (simp add: descending_def comp_def)
  moreover have "(\<forall>p \<in> set ps'. length (po_healthy p) = length (gr_upstreams (po_route p))) =
      (\<forall>p \<in> set ps. length (po_healthy p) = length (gr_upstreams (po_route p)))"
    using assms by (auto simp: list_eq_iff_nth_eq all_set_conv_all_nth)
  ultimately show ?thesis using assms(1) by (simp add: router_ok_def)
qed

lemma router_run_ok: "router_run srt routes ps \<Longrightarrow> sorts srt \<Longrightarrow> router_ok routes ps"
proof (induction rule: router_run.induct)
  case (selected ps path res ps')
  have "map (length \<circ> po_healthy) ps' = map (length \<circ> po_healthy) ps"
    using arg_cong [OF conjunct2 [OF select_pool_keeps [OF selected.hyps(2)]], of "map length"] by (simp add: comp_def)
  then show ?case using selected select_pool_keeps [OF selected.hyps(2)] router_ok_cong by metis
next
  case (marked ps prefix upstream healthy ps')
  then show ?case using set_upstream_health_keeps [OF marked.hyps(2)] router_ok_cong by metis
qed (auto intro: router_new_ok)

lemma rotated_find:
  assumes "0 < len"
  shows "(find (\<lambda>i. P ((start + i) mod len)) [0..<len] = None) \<longleftrightarrow> (\<forall>i < len. \<not> P i)"
proof -
  have "(\<forall>i \<in> (\<lambda>k. (start + k) mod len) ` {0..<len}. \<not> P i) \<longleftrightarrow> (\<forall>i < len. \<not> P i)"
    unfolding rotation_onto [OF assms] by auto
  then show ?thesis by (auto simp: find_None_iff)
qed

lemma select_healthy_cases:
  assumes "gr_upstreams (po_route p) \<noteq> []" "length (po_healthy p) = length (gr_upstreams (po_route p))"
  shows "\<exists>u p'. select_healthy p = Some (u, p') \<and>
    (case u of
       Some x \<Rightarrow> \<exists>i < length (gr_upstreams (po_route p)). po_healthy p ! i \<and> gr_upstreams (po_route p) ! i = x
     | None \<Rightarrow> True \<notin> set (po_healthy p))"
proof -
  let ?len = "length (gr_upstreams (po_route p))" and ?s = "unat (po_next p) mod length (gr_upstreams (po_route p))"
  let ?find = "find (\<lambda>i. po_healthy p ! ((?s + i) mod ?len)) [0..<?len]"
  have pos: "0 < ?len" using assms(1) by simp
  show ?thesis
  proof (cases ?find)
    case None
    then have "\<forall>i < ?len. \<not> po_healthy p ! i" using rotated_find [OF pos, of "\<lambda>i. po_healthy p ! i" ?s] by blast
    then have "True \<notin> set (po_healthy p)" using assms(2) by (auto simp: in_set_conv_nth)
    then show ?thesis using pos None by (simp add: select_healthy_def Let_def)
  next
    case (Some i)
    then have "po_healthy p ! ((?s + i) mod ?len)" by (auto simp: find_Some_iff)
    moreover have "(?s + i) mod ?len < ?len" using pos by simp
    ultimately have "\<exists>j < ?len. po_healthy p ! j \<and> gr_upstreams (po_route p) ! j = gr_upstreams (po_route p) ! ((?s + i) mod ?len)"
      by blast
    then show ?thesis using pos Some by (simp add: select_healthy_def Let_def)
  qed
qed

lemma select_pool_first:
  assumes "\<forall>p \<in> set ps. gr_upstreams (po_route p) \<noteq> [] \<and> length (po_healthy p) = length (gr_upstreams (po_route p))"
    and "descending ps"
  shows "\<exists>res ps'. select_pool path ps = Some (res, ps') \<and>
    (case res of
       Some (u, r) \<Rightarrow> \<exists>p \<in> set ps. po_route p = r \<and> matches_prefix path (gr_prefix r) \<and>
         (\<exists>i < length (gr_upstreams r). po_healthy p ! i \<and> gr_upstreams r ! i = u) \<and>
         (\<forall>p' \<in> set ps. matches_prefix path (po_prefix p') \<longrightarrow> length (po_prefix p') \<le> length (gr_prefix r))
     | None \<Rightarrow> (\<forall>p \<in> set ps. \<not> matches_prefix path (po_prefix p)) \<or>
         (\<exists>p \<in> set ps. matches_prefix path (po_prefix p) \<and> True \<notin> set (po_healthy p) \<and>
           (\<forall>p' \<in> set ps. matches_prefix path (po_prefix p') \<longrightarrow> length (po_prefix p') \<le> length (po_prefix p))))"
  using assms
proof (induction ps)
  case (Cons p ps)
  have tail: "\<forall>p' \<in> set ps. length (po_prefix p') \<le> length (po_prefix p)" "descending ps"
    using Cons.prems(2) by (auto simp: descending_def)
  show ?case
  proof (cases "matches_prefix path (po_prefix p)")
    case True
    obtain u p' where "select_healthy p = Some (u, p')"
      "case u of Some x \<Rightarrow> \<exists>i < length (gr_upstreams (po_route p)). po_healthy p ! i \<and> gr_upstreams (po_route p) ! i = x
       | None \<Rightarrow> True \<notin> set (po_healthy p)"
      using select_healthy_cases [of p] Cons.prems(1) by auto
    then show ?thesis using True tail(1) by (cases u) auto
  next
    case False
    from Cons.IH Cons.prems(1) tail(2) obtain res ps' where "select_pool path ps = Some (res, ps')"
      "case res of
       Some (u, r) \<Rightarrow> \<exists>p \<in> set ps. po_route p = r \<and> matches_prefix path (gr_prefix r) \<and>
         (\<exists>i < length (gr_upstreams r). po_healthy p ! i \<and> gr_upstreams r ! i = u) \<and>
         (\<forall>p' \<in> set ps. matches_prefix path (po_prefix p') \<longrightarrow> length (po_prefix p') \<le> length (gr_prefix r))
     | None \<Rightarrow> (\<forall>p \<in> set ps. \<not> matches_prefix path (po_prefix p)) \<or>
         (\<exists>p \<in> set ps. matches_prefix path (po_prefix p) \<and> True \<notin> set (po_healthy p) \<and>
           (\<forall>p' \<in> set ps. matches_prefix path (po_prefix p') \<longrightarrow> length (po_prefix p') \<le> length (po_prefix p)))"
      by auto
    then show ?thesis using False by (cases res) auto
  qed
qed simp

text \<open>
  C20. The gateway routes by the longest prefix to a healthy upstream. In every state a router reaches
  through selections and health changes, whatever order its unstable sort gave to routes of equal length,
  selecting for a path never panics when every route has upstreams: it yields a healthy upstream of a
  configured route that matches the path, with no longer matching prefix configured, and it yields
  nothing exactly when no route matches or every upstream of the longest matching one is unhealthy.
\<close>

theorem gateway_selects:
  assumes "sorts srt" and run: "router_run srt routes ps" and up: "\<forall>r \<in> set routes. gr_upstreams r \<noteq> []"
  shows "\<exists>res ps'. select_pool path ps = Some (res, ps') \<and>
    (case res of
       Some (u, r) \<Rightarrow> r \<in> set routes \<and> matches_prefix path (gr_prefix r) \<and>
         (\<exists>p \<in> set ps. po_route p = r \<and> (\<exists>i < length (gr_upstreams r). po_healthy p ! i \<and> gr_upstreams r ! i = u)) \<and>
         (\<forall>r' \<in> set routes. matches_prefix path (gr_prefix r') \<longrightarrow> length (gr_prefix r') \<le> length (gr_prefix r))
     | None \<Rightarrow> (\<forall>r \<in> set routes. \<not> matches_prefix path (gr_prefix r)) \<or>
         (\<exists>p \<in> set ps. matches_prefix path (po_prefix p) \<and> True \<notin> set (po_healthy p) \<and>
           (\<forall>r' \<in> set routes. matches_prefix path (gr_prefix r') \<longrightarrow> length (gr_prefix r') \<le> length (po_prefix p))))"
proof -
  have ok: "router_ok routes ps" using router_run_ok [OF run assms(1)] .
  then have routes: "set routes = po_route ` set ps" unfolding router_ok_def by (metis list.set_map set_mset_mset)
  then have "\<forall>p \<in> set ps. gr_upstreams (po_route p) \<noteq> [] \<and> length (po_healthy p) = length (gr_upstreams (po_route p))"
    using ok up by (auto simp: router_ok_def)
  moreover have "descending ps" using ok by (simp add: router_ok_def)
  ultimately obtain res ps' where sel: "select_pool path ps = Some (res, ps')"
    and res: "case res of
       Some (u, r) \<Rightarrow> \<exists>p \<in> set ps. po_route p = r \<and> matches_prefix path (gr_prefix r) \<and>
         (\<exists>i < length (gr_upstreams r). po_healthy p ! i \<and> gr_upstreams r ! i = u) \<and>
         (\<forall>p' \<in> set ps. matches_prefix path (po_prefix p') \<longrightarrow> length (po_prefix p') \<le> length (gr_prefix r))
     | None \<Rightarrow> (\<forall>p \<in> set ps. \<not> matches_prefix path (po_prefix p)) \<or>
         (\<exists>p \<in> set ps. matches_prefix path (po_prefix p) \<and> True \<notin> set (po_healthy p) \<and>
           (\<forall>p' \<in> set ps. matches_prefix path (po_prefix p') \<longrightarrow> length (po_prefix p') \<le> length (po_prefix p)))"
    using select_pool_first [of ps path] by blast
  show ?thesis using sel res by (intro exI [of _ res] exI [of _ ps']) (cases res, auto simp: routes)
qed


text \<open>Sorting by a key, as the specification of the unstable sort allows it.\<close>

definition longest_first :: "router \<Rightarrow> router" where
  "longest_first ps = sort_key (\<lambda>p. - int (length (po_prefix p))) ps"

lemma sorts_longest_first: "sorts longest_first"
proof -
  have "sorted_wrt (\<ge>) (map (\<lambda>p. length (po_prefix p)) (longest_first ps))" for ps
  proof -
    have "sorted (map (\<lambda>p. - int (length (po_prefix p))) (longest_first ps))" by (simp add: longest_first_def)
    then show ?thesis by (simp add: sorted_map sorted_wrt_map)
  qed
  then show ?thesis by (simp add: sorts_def descending_def longest_first_def)
qed

definition example_routes :: "gateway_route list" where
  "example_routes =
     [\<lparr>gr_prefix = ''/'', gr_upstreams = [''http://a''], gr_middleware = []\<rparr>,
      \<lparr>gr_prefix = ''/api'', gr_upstreams = [''http://b'', ''http://c''], gr_middleware = []\<rparr>]"

theorem gateway_selects_witness:
  "\<exists>ps u r ps'. router_new longest_first example_routes = Inr ps \<and> select_pool ''/api/x'' ps = Some (Some (u, r), ps') \<and>
     gr_prefix r = ''/api''"
proof -
  have "\<exists>ps. router_new longest_first example_routes = Inr ps"
    by (simp add: router_new_def longest_first_def example_routes_def route_pool_new_def)
  then obtain ps where ps: "router_new longest_first example_routes = Inr ps" ..
  have healthy: "po_healthy p ! 0" if "p \<in> set ps" for p
    using ps that by (auto simp: router_new_def longest_first_def example_routes_def route_pool_new_def split: if_splits)
  have up: "\<forall>r \<in> set example_routes. gr_upstreams r \<noteq> []" by (simp add: example_routes_def)
  have api: "matches_prefix ''/api/x'' ''/api''" by (simp add: matches_prefix_def strip_prefix_def starts_with_slash_def)
  from gateway_selects [OF sorts_longest_first router_run.built [OF ps] up, of "''/api/x''"] obtain res ps' where
    sel: "select_pool ''/api/x'' ps = Some (res, ps')" and res: "case res of
       Some (u, r) \<Rightarrow> r \<in> set example_routes \<and> matches_prefix ''/api/x'' (gr_prefix r) \<and>
         (\<exists>p \<in> set ps. po_route p = r \<and> (\<exists>i < length (gr_upstreams r). po_healthy p ! i \<and> gr_upstreams r ! i = u)) \<and>
         (\<forall>r' \<in> set example_routes. matches_prefix ''/api/x'' (gr_prefix r') \<longrightarrow> length (gr_prefix r') \<le> length (gr_prefix r))
     | None \<Rightarrow> (\<forall>r \<in> set example_routes. \<not> matches_prefix ''/api/x'' (gr_prefix r)) \<or>
         (\<exists>p \<in> set ps. matches_prefix ''/api/x'' (po_prefix p) \<and> True \<notin> set (po_healthy p) \<and>
           (\<forall>r' \<in> set example_routes. matches_prefix ''/api/x'' (gr_prefix r') \<longrightarrow> length (gr_prefix r') \<le> length (po_prefix p)))"
    by blast
  show ?thesis
  proof (cases res)
    case None
    then have "\<exists>p \<in> set ps. True \<notin> set (po_healthy p)" using res api by (auto simp: example_routes_def)
    then obtain p where p: "p \<in> set ps" "True \<notin> set (po_healthy p)" by blast
    have "po_healthy p \<noteq> []"
      using ps p(1) by (auto simp: router_new_def longest_first_def example_routes_def route_pool_new_def split: if_splits)
    then show ?thesis using p(2) healthy [OF p(1)] by (cases "po_healthy p") auto
  next
    case (Some ur)
    then have "gr_prefix (snd ur) = ''/api''" using res api by (auto simp: example_routes_def)
    then show ?thesis using ps sel Some by (cases ur) auto
  qed
qed

text \<open>
  Duplicate prefixes are only found next to each other, but the routes are sorted by the length of their
  prefix alone: with another prefix of the same length between them they go undetected, and the second
  route is never selected.
\<close>

definition duplicated :: "gateway_route list" where
  "duplicated = map (\<lambda>(p, u). \<lparr>gr_prefix = p, gr_upstreams = [u], gr_middleware = []\<rparr>)
     [(''/a'', ''http://x''), (''/b'', ''http://y''), (''/a'', ''http://z'')]"

lemma duplicate_prefix_undetected:
  "\<exists>ps. router_new longest_first duplicated = Inr ps \<and> \<not> distinct (map po_prefix ps)"
  by (simp add: router_new_def longest_first_def duplicated_def route_pool_new_def)

section \<open>Limits and headers of the proxy\<close>

fun intact :: "body \<Rightarrow> string" where
  "intact [] = []"
| "intact (Chunk c # rest) = c @ intact rest"
| "intact (BrokenChunk # rest) = []"

lemma limit_stream_bound:
  "n < u64_max \<Longrightarrow> length (concat (map chunk_text (limit_stream n received b))) \<le> n - received"
proof (induction n received b rule: limit_stream.induct)
  case (3 n received c rest)
  let ?r = "sat_add u64_max received (length c)"
  have IH: "length (concat (map chunk_text (limit_stream n ?r rest))) \<le> n - ?r"
    using "3.IH" [OF refl] "3.prems" by simp
  show ?case
  proof (cases "n < ?r")
    case True
    then have "length (concat (map chunk_text (limit_stream n received (Chunk c # rest)))) =
        length (concat (map chunk_text (limit_stream n ?r rest)))"
      by (simp add: Let_def)
    then show ?thesis using IH True by linarith
  next
    case False
    then have "?r = received + length c" using "3.prems" by (auto simp: sat_add_def)
    then show ?thesis using IH False by (simp add: Let_def)
  qed
qed auto

lemma limit_stream_within:
  "length (concat (map chunk_text b)) + received \<le> n \<Longrightarrow> n < u64_max \<Longrightarrow> limit_stream n received b = b"
  by (induction n received b rule: limit_stream.induct) (auto simp: Let_def sat_add_def)

lemma foldl_header_insert:
  "header_values n (foldl (\<lambda>hs (m, v). header_insert m v hs) hs0 hs) =
     (case header_values n hs of [] \<Rightarrow> header_values n hs0 | vs \<Rightarrow> [last vs])"
proof (induction hs arbitrary: hs0)
  case (Cons h hs)
  obtain m v where h: "h = (m, v)" by (cases h)
  show ?case using Cons.IH [of "header_insert m v hs0"]
    by (auto simp: h split: list.splits)
qed simp

text \<open>
  The proxy keeps its limits and its hop-by-hop headers. Whatever an upstream answers, the body sent
  downstream has at most \<open>response_body_limit\<close> bytes and is the upstream's body unchanged when that fits;
  no hop-by-hop header and no content length of the upstream is passed on; of every other header that the
  upstream repeats, such as \<open>Set-Cookie\<close>, only the last value is passed on.
\<close>

theorem proxy_response_limits:
  assumes "send q = Answered r" "n < u64_max" "\<forall>len. us_content_length r = Some len \<longrightarrow> len \<le> n"
  shows "length (concat (map chunk_text (hs_body (dispatch_upstream send n q)))) \<le> n \<and>
    (length (concat (map chunk_text (us_body r))) \<le> n \<longrightarrow> hs_body (dispatch_upstream send n q) = us_body r) \<and>
    hs_status (dispatch_upstream send n q) = us_status r \<and>
    header_values name (hs_headers (dispatch_upstream send n q)) =
      (if is_hop_by_hop name \<or> name = ''content-length'' \<or> header_values name (us_headers r) = [] then []
       else [last (header_values name (us_headers r))])"
proof -
  let ?hs = "filter (\<lambda>(m, _). \<not> is_hop_by_hop m \<and> m \<noteq> ''content-length'') (us_headers r)"
  have out: "dispatch_upstream send n q = \<lparr>hs_status = us_status r,
      hs_headers = foldl (\<lambda>hs (m, v). header_insert m v hs) [] ?hs, hs_body = limit_stream n 0 (us_body r)\<rparr>"
    using assms(1,3) by (auto simp: dispatch_upstream_def split: option.split)
  have vals: "header_values name ?hs = (if is_hop_by_hop name \<or> name = ''content-length'' then [] else header_values name (us_headers r))"
    by (auto simp: header_values_filter [of name "\<lambda>m. \<not> is_hop_by_hop m \<and> m \<noteq> ''content-length''"])
  show ?thesis
    using limit_stream_bound [of n 0 "us_body r"] limit_stream_within [of "us_body r" 0 n] assms(2)
    by (auto simp: out foldl_header_insert vals split: list.splits)
qed

theorem proxy_response_limits_witness:
  "header_values ''set-cookie'' (hs_headers (dispatch_upstream
     (\<lambda>_. Answered \<lparr>us_status = 200, us_content_length = None,
        us_headers = [(''set-cookie'', ''a=1''), (''set-cookie'', ''b=2'')], us_body = []\<rparr>) 10
     \<lparr>ur_method = ''GET'', ur_target = ''/'', ur_timeout = 1, ur_headers = [], ur_body = []\<rparr>)) = [''b=2'']"
  using proxy_response_limits [of "\<lambda>_. Answered \<lparr>us_status = 200, us_content_length = None,
        us_headers = [(''set-cookie'', ''a=1''), (''set-cookie'', ''b=2'')], us_body = []\<rparr>"
      "\<lparr>ur_method = ''GET'', ur_target = ''/'', ur_timeout = 1, ur_headers = [], ur_body = []\<rparr>", OF refl, of 10 "''set-cookie''"]
  by (simp add: u64_max_def header_values_def is_hop_by_hop_def ascii_lower_def)

text \<open>A validated configuration gives a proxy: no limit is zero and every selection finds upstreams.\<close>

lemma gateway_config_proxy:
  assumes "gateway_config_validate h url srt g = Inr ()"
  shows "\<exists>p. gateway_proxy srt g = Some (Inr p) \<and> (\<forall>r \<in> set (gc_routes g). gr_upstreams r \<noteq> [])"
proof -
  have v: "0 < gc_request_timeout_ms g" "0 < gc_request_body_limit g" "0 < gc_response_body_limit g"
      "check_all (gateway_route_validate url) (gc_routes g) = Inr ()" "\<exists>ps. router_new srt (gc_routes g) = Inr ps"
    using assms [unfolded gateway_config_validate_def in_order_Inr] by (auto split: sum.splits)
  have "\<forall>r \<in> set (gc_routes g). gateway_route_validate url r = Inr ()"
    using v(4) by (simp add: check_all_Inr)
  then show ?thesis
    using v(1-3,5)
    by (auto simp: gateway_proxy_def with_request_body_limit_def with_response_body_limit_def with_timeout_def
        duration_from_millis_def gateway_route_validate_def and_then_Inr)
qed

end
