(* ===== verification/Queue.thy ===== *)
theory Queue
  imports Prelude "HOL-Library.Word" "HOL-Library.Multiset"
begin

text \<open>
  \<open>core/src/queue.rs\<close>: the supervised in-process queue. Producers push into a bounded channel; a pool of
  workers takes messages out of it, under a state (running, paused, shut down) that is published through
  a watch channel, which carries a version with every value. \<open>worker_step\<close> is one step of one worker
  between two of its suspension points; \<open>queue_step\<close> interleaves the workers with the producers and the
  control handle. The fields \<open>qu_pushed\<close>, \<open>qu_started\<close>, \<open>qu_finished\<close> and \<open>qu_lost\<close> record what happened and are
  read by no operation.
\<close>

section \<open>Configuration\<close>

record queue_config =
  qc_name :: string
  qc_capacity :: nat
  qc_workers :: nat
  qc_event_capacity :: nat
  qc_shutdown_timeout :: duration

datatype queue_config_error = EmptyName | ZeroCapacity | ZeroWorkers | ZeroEventCapacity | ZeroShutdownTimeout

definition queue_config_new :: "string \<Rightarrow> nat \<Rightarrow> nat \<Rightarrow> queue_config" where
  "queue_config_new name capacity workers =
     \<lparr>qc_name = name, qc_capacity = capacity, qc_workers = workers, qc_event_capacity = 256,
      qc_shutdown_timeout = 30 * nanos_per_sec\<rparr>"

definition queue_config_validate :: "queue_config \<Rightarrow> queue_config_error + unit" where
  "queue_config_validate c =
     (if is_blank (qc_name c) then Inl EmptyName
      else if qc_capacity c = 0 then Inl ZeroCapacity
      else if qc_workers c = 0 then Inl ZeroWorkers
      else if qc_event_capacity c = 0 then Inl ZeroEventCapacity
      else if qc_shutdown_timeout c = 0 then Inl ZeroShutdownTimeout
      else Inr ())"

section \<open>State\<close>

datatype queue_state = Running | Paused | Shutdown

datatype queue_event =
  EvQueued | EvStarted nat | EvSucceeded nat | EvFailed nat | EvPaused | EvResumed | EvShutdown

text \<open>
  Where a worker is: at the top of its loop, suspended in \<open>changed\<close> while paused, in \<open>select\<close> before its
  first branch is polled, after that branch was not ready, running the handler, returned, or panicked.
\<close>

datatype 'm phase = Top | Waiting | Selecting | Polling | Busy 'm | Exited | Dead

record 'm worker =
  wk_phase :: "'m phase"
  wk_seen :: nat

record 'm queue =
  qu_capacity :: nat
  qu_buffer :: "'m list"
  qu_state :: queue_state
  qu_version :: nat
  qu_open :: bool
  qu_workers :: "'m worker list"
  qu_events :: "queue_event list"
  qu_unannounced :: nat
  qu_pushed :: "'m list"
  qu_started :: "'m list"
  qu_finished :: "'m list"
  qu_lost :: "'m list"

definition queue_start :: "queue_config \<Rightarrow> queue_config_error + 'm queue" where
  "queue_start c =
     (case queue_config_validate c of
        Inl e \<Rightarrow> Inl e
      | Inr _ \<Rightarrow>
          Inr \<lparr>qu_capacity = qc_capacity c, qu_buffer = [], qu_state = Running, qu_version = 0, qu_open = True,
               qu_workers = replicate (qc_workers c) \<lparr>wk_phase = Top, wk_seen = 0\<rparr>, qu_events = [], qu_unannounced = 0,
               qu_pushed = [], qu_started = [], qu_finished = [], qu_lost = []\<rparr>)"

section \<open>Producers\<close>

definition ended :: "'m worker \<Rightarrow> bool" where
  "ended w \<longleftrightarrow> wk_phase w = Exited \<or> wk_phase w = Dead"

text \<open>The receiving half lives as long as some worker does.\<close>

definition receiver_closed :: "'m queue \<Rightarrow> bool" where
  "receiver_closed q \<longleftrightarrow> list_all ended (qu_workers q)"

datatype push_result = Pushed | PushFull | PushClosed

definition queue_send :: "'m \<Rightarrow> 'm queue \<Rightarrow> push_result \<times> 'm queue" where
  "queue_send m q =
     (if receiver_closed q then (PushClosed, q)
      else if qu_capacity q \<le> length (qu_buffer q) then (PushFull, q)
      else (Pushed, q\<lparr>qu_buffer := qu_buffer q @ [m], qu_pushed := qu_pushed q @ [m], qu_unannounced := qu_unannounced q + 1\<rparr>))"

text \<open>\<open>record_queued\<close> runs after the message is in the channel.\<close>

definition record_queued :: "'m queue \<Rightarrow> 'm queue" where
  "record_queued q = q\<lparr>qu_events := qu_events q @ [EvQueued], qu_unannounced := qu_unannounced q - 1\<rparr>"

definition try_push :: "'m \<Rightarrow> 'm queue \<Rightarrow> push_result \<times> 'm queue" where
  "try_push m q = (case queue_send m q of (Pushed, q') \<Rightarrow> (Pushed, record_queued q') | r \<Rightarrow> r)"

section \<open>Control\<close>

definition set_state :: "queue_state \<Rightarrow> queue_event \<Rightarrow> 'm queue \<Rightarrow> 'm queue" where
  "set_state s e q = q\<lparr>qu_state := s, qu_version := qu_version q + 1, qu_events := qu_events q @ [e]\<rparr>"

definition queue_pause :: "'m queue \<Rightarrow> 'm queue" where
  "queue_pause q = (if qu_state q = Running then set_state Paused EvPaused q else q)"

definition queue_resume :: "'m queue \<Rightarrow> 'm queue" where
  "queue_resume q = (if qu_state q = Paused then set_state Running EvResumed q else q)"

definition queue_shutdown :: "'m queue \<Rightarrow> 'm queue" where
  "queue_shutdown q = set_state Shutdown EvShutdown q"

section \<open>Workers\<close>

datatype handler_result = HandlerOk | HandlerErr | HandlerPanic

definition set_phase :: "nat \<Rightarrow> 'm phase \<Rightarrow> 'm queue \<Rightarrow> 'm queue" where
  "set_phase i p q = q\<lparr>qu_workers := (qu_workers q)[i := (qu_workers q ! i)\<lparr>wk_phase := p\<rparr>]\<rparr>"

definition mark_seen :: "nat \<Rightarrow> 'm queue \<Rightarrow> 'm queue" where
  "mark_seen i q = q\<lparr>qu_workers := (qu_workers q)[i := (qu_workers q ! i)\<lparr>wk_seen := qu_version q, wk_phase := Top\<rparr>]\<rparr>"

definition finish_message :: "nat \<Rightarrow> 'm \<Rightarrow> handler_result \<Rightarrow> 'm queue \<Rightarrow> 'm queue" where
  "finish_message i m r q =
     (case r of
        HandlerOk \<Rightarrow> (set_phase i Top q)\<lparr>qu_finished := qu_finished q @ [m], qu_events := qu_events q @ [EvSucceeded i]\<rparr>
      | HandlerErr \<Rightarrow> (set_phase i Top q)\<lparr>qu_finished := qu_finished q @ [m], qu_events := qu_events q @ [EvFailed i]\<rparr>
      | HandlerPanic \<Rightarrow> (set_phase i Dead q)\<lparr>qu_lost := qu_lost q @ [m]\<rparr>)"

text \<open>One step of worker \<open>i\<close>; \<open>r\<close> is what its handler returns, if it is running. A blocked worker does nothing.\<close>

definition worker_step :: "handler_result \<Rightarrow> nat \<Rightarrow> 'm queue \<Rightarrow> 'm queue" where
  "worker_step r i q =
     (case wk_phase (qu_workers q ! i) of
        Top \<Rightarrow>
          (case qu_state q of
             Shutdown \<Rightarrow> set_phase i Exited q
           | Paused \<Rightarrow> set_phase i Waiting q
           | Running \<Rightarrow> set_phase i Selecting q)
      | Waiting \<Rightarrow> if wk_seen (qu_workers q ! i) \<noteq> qu_version q then mark_seen i q else q
      | Selecting \<Rightarrow> if wk_seen (qu_workers q ! i) \<noteq> qu_version q then mark_seen i q else set_phase i Polling q
      | Polling \<Rightarrow>
          (case qu_buffer q of
             m # rest \<Rightarrow>
               (set_phase i (Busy m) q)\<lparr>qu_buffer := rest, qu_started := qu_started q @ [m],
                                        qu_events := qu_events q @ [EvStarted i]\<rparr>
           | [] \<Rightarrow> if qu_open q then set_phase i Selecting q else set_phase i Exited q)
      | Busy m \<Rightarrow> finish_message i m r q
      | _ \<Rightarrow> q)"

text \<open>\<open>abort_all\<close>: a worker is stopped at its suspension point and the message it runs is dropped.\<close>

definition abort_worker :: "nat \<Rightarrow> 'm queue \<Rightarrow> 'm queue" where
  "abort_worker i q =
     (case wk_phase (qu_workers q ! i) of
        Busy m \<Rightarrow> (set_phase i Exited q)\<lparr>qu_lost := qu_lost q @ [m]\<rparr>
      | Dead \<Rightarrow> q
      | _ \<Rightarrow> set_phase i Exited q)"

inductive queue_step :: "'m queue \<Rightarrow> 'm queue \<Rightarrow> bool" where
  step_send: "qu_open q \<Longrightarrow> queue_step q (snd (queue_send m q))"
| step_announce: "0 < qu_unannounced q \<Longrightarrow> queue_step q (record_queued q)"
| step_close: "queue_step q (q\<lparr>qu_open := False\<rparr>)"
| step_pause: "queue_step q (queue_pause q)"
| step_resume: "queue_step q (queue_resume q)"
| step_shutdown: "queue_step q (queue_shutdown q)"
| step_worker: "i < length (qu_workers q) \<Longrightarrow> queue_step q (worker_step r i q)"
| step_abort: "i < length (qu_workers q) \<Longrightarrow> qu_state q = Shutdown \<Longrightarrow> queue_step q (abort_worker i q)"

section \<open>Supervision\<close>

datatype queue_runtime_error = WorkerPanicked string | ShutdownTimeout nat

text \<open>
  \<open>joined\<close> lists the results of the workers in the order they are joined. \<open>wait\<close> stops at the first panic;
  \<open>drain\<close> also stops when the deadline passes, after \<open>joined\<close> of the workers, and reports how many are left.
\<close>

fun queue_wait :: "(string + unit) list \<Rightarrow> queue_runtime_error + unit" where
  "queue_wait [] = Inr ()"
| "queue_wait (Inl message # rest) = Inl (WorkerPanicked message)"
| "queue_wait (Inr _ # rest) = queue_wait rest"

fun queue_drain :: "nat \<Rightarrow> bool \<Rightarrow> (string + unit) list \<Rightarrow> queue_runtime_error + unit" where
  "queue_drain workers expired [] = (if expired then Inl (ShutdownTimeout workers) else Inr ())"
| "queue_drain workers expired (Inl message # rest) = Inl (WorkerPanicked message)"
| "queue_drain workers expired (Inr _ # rest) = queue_drain (workers - 1) expired rest"

section \<open>Pushers\<close>

record 'm balanced_pusher =
  bp_producers :: "'m queue list"
  bp_next :: "64 word"

definition balanced_new :: "'m queue list \<Rightarrow> 'm balanced_pusher option" where
  "balanced_new producers = (if producers = [] then None else Some \<lparr>bp_producers = producers, bp_next = 0\<rparr>)"

fun push_first :: "'m \<Rightarrow> nat list \<Rightarrow> 'm queue list \<Rightarrow> nat option \<times> 'm queue list" where
  "push_first m [] qs = (None, qs)"
| "push_first m (i # is) qs =
     (case try_push m (qs ! i) of
        (Pushed, q') \<Rightarrow> (Some i, qs[i := q'])
      | _ \<Rightarrow> push_first m is qs)"

definition balanced_push :: "'m \<Rightarrow> 'm balanced_pusher \<Rightarrow> nat option \<times> 'm balanced_pusher" where
  "balanced_push m p =
     (let n = length (bp_producers p);
          start = unat (bp_next p) mod n;
          (r, qs) = push_first m (map (\<lambda>o'. (start + o') mod n) [0..<n]) (bp_producers p) in
      (r, p\<lparr>bp_producers := qs, bp_next := bp_next p + 1\<rparr>))"

definition fanout_push :: "'m \<Rightarrow> 'm queue list \<Rightarrow> nat list \<times> 'm queue list" where
  "fanout_push m qs =
     (map fst (filter (\<lambda>(i, q). fst (try_push m q) \<noteq> Pushed) (enumerate 0 qs)), map (\<lambda>q. snd (try_push m q)) qs)"

section \<open>Invariant\<close>

fun message_of :: "'m phase \<Rightarrow> 'm list" where
  "message_of (Busy m) = [m]"
| "message_of _ = []"

definition busy :: "'m queue \<Rightarrow> 'm list" where
  "busy q = concat (map (\<lambda>w. message_of (wk_phase w)) (qu_workers q))"

text \<open>What a worker may rely on: a change of state that it has not acted on is a version it has not seen.\<close>

definition worker_ok :: "'m queue \<Rightarrow> 'm worker \<Rightarrow> bool" where
  "worker_ok q w \<longleftrightarrow>
     wk_seen w \<le> qu_version q \<and>
     (wk_phase w \<in> {Selecting, Polling} \<and> wk_seen w = qu_version q \<longrightarrow> qu_state q = Running) \<and>
     (wk_phase w = Waiting \<and> wk_seen w = qu_version q \<longrightarrow> qu_state q = Paused) \<and>
     (wk_phase w = Exited \<and> qu_state q \<noteq> Shutdown \<longrightarrow> \<not> qu_open q \<and> qu_buffer q = [])"

definition queue_inv :: "'m queue \<Rightarrow> bool" where
  "queue_inv q \<longleftrightarrow>
     qu_pushed q = qu_started q @ qu_buffer q \<and> length (qu_buffer q) \<le> qu_capacity q \<and>
     mset (qu_started q) = mset (qu_finished q) + mset (qu_lost q) + mset (busy q) \<and>
     list_all (worker_ok q) (qu_workers q)"

lemma busy_update:
  assumes "i < length ws"
  shows "mset (concat (map f (ws[i := w]))) + mset (f (ws ! i)) = mset (concat (map f ws)) + mset (f w)"
proof -
  have "concat (map f ws) = concat (map f (take i ws)) @ f (ws ! i) @ concat (map f (drop (Suc i) ws))"
    by (subst id_take_nth_drop [OF assms]) simp
  moreover have "concat (map f (ws[i := w])) = concat (map f (take i ws)) @ f w @ concat (map f (drop (Suc i) ws))"
    by (simp add: upd_conv_take_nth_drop [OF assms])
  ultimately show ?thesis by simp
qed

lemma busy_set_phase:
  "i < length (qu_workers q) \<Longrightarrow>
   mset (busy (set_phase i p q)) + mset (message_of (wk_phase (qu_workers q ! i))) = mset (busy q) + mset (message_of p)"
  using busy_update [of i "qu_workers q" "\<lambda>w. message_of (wk_phase w)"] by (simp add: busy_def set_phase_def)

lemma worker_ok_cong:
  "qu_version q' = qu_version q \<Longrightarrow> qu_state q' = qu_state q \<Longrightarrow> qu_open q' = qu_open q \<Longrightarrow>
   qu_buffer q' = qu_buffer q \<or> \<not> (wk_phase w = Exited \<and> qu_state q \<noteq> Shutdown) \<or> qu_buffer q' = [] \<Longrightarrow>
   worker_ok q w \<Longrightarrow> worker_ok q' w"
  by (auto simp: worker_ok_def)

lemma set_phase_simps [simp]:
  "qu_capacity (set_phase i p q) = qu_capacity q" "qu_buffer (set_phase i p q) = qu_buffer q"
  "qu_state (set_phase i p q) = qu_state q" "qu_version (set_phase i p q) = qu_version q"
  "qu_open (set_phase i p q) = qu_open q" "qu_pushed (set_phase i p q) = qu_pushed q"
  "qu_started (set_phase i p q) = qu_started q" "qu_finished (set_phase i p q) = qu_finished q"
  "qu_lost (set_phase i p q) = qu_lost q" "length (qu_workers (set_phase i p q)) = length (qu_workers q)"
  by (simp_all add: set_phase_def)

lemma busy_cong [simp]:
  "busy (q\<lparr>qu_buffer := b\<rparr>) = busy q" "busy (q\<lparr>qu_started := s\<rparr>) = busy q" "busy (q\<lparr>qu_finished := f\<rparr>) = busy q"
  "busy (q\<lparr>qu_lost := l\<rparr>) = busy q" "busy (q\<lparr>qu_events := e\<rparr>) = busy q" "busy (q\<lparr>qu_pushed := x\<rparr>) = busy q"
  "busy (q\<lparr>qu_unannounced := n\<rparr>) = busy q" "busy (q\<lparr>qu_open := op\<rparr>) = busy q"
  by (simp_all add: busy_def)

lemma workers_ok_set_phase:
  assumes "i < length (qu_workers q)" "list_all (worker_ok q) (qu_workers q)"
    "worker_ok q ((qu_workers q ! i)\<lparr>wk_phase := p\<rparr>)"
  shows "list_all (worker_ok q) (qu_workers (set_phase i p q))"
  using assms by (auto simp: set_phase_def list_all_iff dest!: set_update_subset_insert [THEN subsetD])

text \<open>Moving a worker between phases that hold no message, with everything else unchanged.\<close>

lemma queue_inv_set_phase:
  assumes i: "i < length (qu_workers q)" and inv: "queue_inv q"
    and "message_of (wk_phase (qu_workers q ! i)) = []" "message_of p = []" "worker_ok q ((qu_workers q ! i)\<lparr>wk_phase := p\<rparr>)"
  shows "queue_inv (set_phase i p q)"
proof -
  have "list_all (worker_ok q) (qu_workers (set_phase i p q))"
    using workers_ok_set_phase [OF i] inv assms(5) by (simp add: queue_inv_def)
  then have "list_all (worker_ok (set_phase i p q)) (qu_workers (set_phase i p q))"
    by (auto simp: list_all_iff worker_ok_def)
  then show ?thesis using busy_set_phase [OF i, of p] inv assms(3,4) by (simp add: queue_inv_def)
qed

lemma queue_inv_mark_seen:
  assumes i: "i < length (qu_workers q)" and inv: "queue_inv q" and "message_of (wk_phase (qu_workers q ! i)) = []"
  shows "queue_inv (mark_seen i q)"
proof -
  have "list_all (worker_ok (mark_seen i q)) (qu_workers (mark_seen i q))"
    using inv by (auto simp: queue_inv_def mark_seen_def list_all_iff worker_ok_def dest!: set_update_subset_insert [THEN subsetD])
  moreover have "mset (busy (mark_seen i q)) = mset (busy q)"
    using busy_update [OF i, of "\<lambda>w. message_of (wk_phase w)" "(qu_workers q ! i)\<lparr>wk_seen := qu_version q, wk_phase := Top\<rparr>"] assms(3)
    by (simp add: busy_def mark_seen_def)
  ultimately show ?thesis using inv by (simp add: queue_inv_def) (simp add: mark_seen_def)
qed

lemma worker_okD: "queue_inv q \<Longrightarrow> i < length (qu_workers q) \<Longrightarrow> worker_ok q (qu_workers q ! i)"
  by (simp add: queue_inv_def list_all_length)

lemma queue_inv_finish:
  assumes i: "i < length (qu_workers q)" and inv: "queue_inv q" and "wk_phase (qu_workers q ! i) = Busy m"
  shows "queue_inv (finish_message i m r q)"
proof -
  have seen: "wk_seen (qu_workers q ! i) \<le> qu_version q" using worker_okD [OF inv i] by (simp add: worker_ok_def)
  have ok: "list_all (worker_ok q) (qu_workers (set_phase i p q))" if "p = Top \<or> p = Dead" for p
    using workers_ok_set_phase [OF i, of p] inv seen that by (auto simp: queue_inv_def worker_ok_def)
  have "mset (busy q) = mset (busy (set_phase i p q)) + {#m#}" if "message_of p = []" for p
    using busy_set_phase [OF i, of p] assms(3) that by simp
  then show ?thesis
    using inv ok [of Top] ok [of Dead]
    by (cases r) (auto simp: finish_message_def queue_inv_def list_all_iff worker_ok_def)
qed

lemma queue_inv_take:
  assumes i: "i < length (qu_workers q)" and inv: "queue_inv q" and "wk_phase (qu_workers q ! i) = Polling" "qu_buffer q = m # rest"
  shows "queue_inv ((set_phase i (Busy m) q)\<lparr>qu_buffer := rest, qu_started := qu_started q @ [m], qu_events := e\<rparr>)"
proof -
  have seen: "wk_seen (qu_workers q ! i) \<le> qu_version q" using worker_okD [OF inv i] by (simp add: worker_ok_def)
  have "list_all (worker_ok q) (qu_workers (set_phase i (Busy m) q))"
    using workers_ok_set_phase [OF i, of "Busy m"] inv seen by (auto simp: queue_inv_def worker_ok_def)
  then have "list_all (worker_ok ((set_phase i (Busy m) q)\<lparr>qu_buffer := rest, qu_started := qu_started q @ [m], qu_events := e\<rparr>))
      (qu_workers (set_phase i (Busy m) q))"
    using assms(4) by (auto simp: list_all_iff worker_ok_def)
  moreover have "mset (busy (set_phase i (Busy m) q)) = mset (busy q) + {#m#}"
    using busy_set_phase [OF i, of "Busy m"] assms(3) by simp
  ultimately show ?thesis using inv assms(4) by (simp add: queue_inv_def)
qed

lemma queue_inv_worker:
  assumes i: "i < length (qu_workers q)" and inv: "queue_inv q"
  shows "queue_inv (worker_step r i q)"
proof -
  have ok: "worker_ok q (qu_workers q ! i)" using worker_okD [OF inv i] .
  show ?thesis
  proof (cases "wk_phase (qu_workers q ! i)")
    case Top
    then show ?thesis
      using ok queue_inv_set_phase [OF i inv] by (auto simp: worker_step_def worker_ok_def split: queue_state.split)
  next
    case Waiting
    then show ?thesis using inv queue_inv_mark_seen [OF i inv] by (simp add: worker_step_def)
  next
    case Selecting
    then show ?thesis
      using ok queue_inv_mark_seen [OF i inv] queue_inv_set_phase [OF i inv] by (auto simp: worker_step_def worker_ok_def)
  next
    case Polling
    show ?thesis
    proof (cases "qu_buffer q")
      case Nil
      then show ?thesis
        using ok Polling queue_inv_set_phase [OF i inv] by (auto simp: worker_step_def worker_ok_def)
    next
      case (Cons m rest)
      then show ?thesis using Polling queue_inv_take [OF i inv Polling Cons] by (simp add: worker_step_def)
    qed
  next
    case (Busy m)
    then show ?thesis using queue_inv_finish [OF i inv] by (simp add: worker_step_def)
  qed (use inv in \<open>simp_all add: worker_step_def\<close>)
qed

lemma queue_inv_set_state:
  assumes "queue_inv q" "qu_state q = Shutdown \<longrightarrow> st = Shutdown"
  shows "queue_inv (set_state st e q)"
  using assms by (auto simp: queue_inv_def set_state_def list_all_iff worker_ok_def busy_def)

lemma queue_inv_abort:
  assumes i: "i < length (qu_workers q)" and inv: "queue_inv q" and down: "qu_state q = Shutdown"
  shows "queue_inv (abort_worker i q)"
proof (cases "\<exists>m. wk_phase (qu_workers q ! i) = Busy m")
  case True
  then obtain m where m: "wk_phase (qu_workers q ! i) = Busy m" ..
  have ok: "list_all (worker_ok q) (qu_workers (set_phase i Exited q))"
    using workers_ok_set_phase [OF i, of Exited] inv worker_okD [OF inv i] down by (auto simp: queue_inv_def worker_ok_def)
  have "mset (busy q) = mset (busy (set_phase i Exited q)) + {#m#}"
    using busy_set_phase [OF i, of Exited] m by simp
  then show ?thesis using inv ok m by (auto simp: abort_worker_def queue_inv_def list_all_iff worker_ok_def)
next
  case False
  then show ?thesis
    using queue_inv_set_phase [OF i inv, of Exited] inv worker_okD [OF inv i] down
    by (cases "wk_phase (qu_workers q ! i)") (auto simp: abort_worker_def worker_ok_def)
qed

lemma queue_inv_step: "queue_step q q' \<Longrightarrow> queue_inv q \<Longrightarrow> queue_inv q'"
proof (induction rule: queue_step.induct)
  case (step_send q m)
  then show ?case
    by (auto simp: queue_send_def receiver_closed_def queue_inv_def list_all_iff worker_ok_def busy_def)
next
  case (step_announce q)
  then show ?case by (auto simp: record_queued_def queue_inv_def list_all_iff worker_ok_def busy_def)
next
  case (step_close q)
  then show ?case by (auto simp: queue_inv_def list_all_iff worker_ok_def busy_def)
next
  case (step_pause q)
  then show ?case by (simp add: queue_pause_def queue_inv_set_state)
next
  case (step_resume q)
  then show ?case by (simp add: queue_resume_def queue_inv_set_state)
next
  case (step_shutdown q)
  then show ?case by (simp add: queue_shutdown_def queue_inv_set_state)
qed (auto intro: queue_inv_worker queue_inv_abort)

lemma queue_inv_start: "queue_start c = Inr q \<Longrightarrow> queue_inv q"
  by (auto simp: queue_start_def queue_inv_def busy_def worker_ok_def list_all_iff split: sum.splits)

lemma queue_inv_steps: "queue_step\<^sup>*\<^sup>* q q' \<Longrightarrow> queue_inv q \<Longrightarrow> queue_inv q'"
  by (induction rule: rtranclp_induct) (auto intro: queue_inv_step)

lemma queue_step_workers: "queue_step q q' \<Longrightarrow> length (qu_workers q') = length (qu_workers q)"
  by (induction rule: queue_step.induct)
    (auto simp: queue_send_def record_queued_def queue_pause_def queue_resume_def queue_shutdown_def set_state_def
      worker_step_def abort_worker_def mark_seen_def finish_message_def split: phase.split list.split queue_state.split handler_result.split)

lemma queue_steps_workers: "queue_step\<^sup>*\<^sup>* q q' \<Longrightarrow> length (qu_workers q') = length (qu_workers q)"
  by (induction rule: rtranclp_induct) (auto dest: queue_step_workers)

lemma queue_step_capacity: "queue_step q q' \<Longrightarrow> qu_capacity q' = qu_capacity q"
  by (induction rule: queue_step.induct)
    (auto simp: queue_send_def record_queued_def queue_pause_def queue_resume_def queue_shutdown_def set_state_def
      worker_step_def abort_worker_def mark_seen_def finish_message_def split: phase.split list.split queue_state.split handler_result.split)

lemma queue_steps_capacity: "queue_step\<^sup>*\<^sup>* q q' \<Longrightarrow> qu_capacity q' = qu_capacity q"
  by (induction rule: rtranclp_induct) (auto dest: queue_step_capacity)

lemma length_busy: "length (busy q) \<le> length (qu_workers q)"
proof -
  have "length (concat (map (\<lambda>w. message_of (wk_phase w)) ws)) \<le> length ws" for ws :: "'a worker list"
  proof (induction ws)
    case (Cons w ws)
    then show ?case by (cases "wk_phase w") auto
  qed simp
  then show ?thesis by (simp add: busy_def)
qed


section \<open>Pausing\<close>

definition polling :: "'m queue \<Rightarrow> nat" where
  "polling q = length (filter (\<lambda>w. wk_phase w = Polling) (qu_workers q))"

lemma polling_update:
  assumes "i < length ws"
  shows "length (filter P (ws[i := w])) + (if P (ws ! i) then 1 else 0) = length (filter P ws) + (if P w then 1 else 0)"
proof -
  have "length (filter P ws) = length (filter P (take i ws)) + (if P (ws ! i) then 1 else 0) + length (filter P (drop (Suc i) ws))"
    by (subst id_take_nth_drop [OF assms]) simp
  moreover have "length (filter P (ws[i := w])) = length (filter P (take i ws)) + (if P w then 1 else 0) + length (filter P (drop (Suc i) ws))"
    by (simp add: upd_conv_take_nth_drop [OF assms])
  ultimately show ?thesis by simp
qed

lemma polling_set_phase:
  "i < length (qu_workers q) \<Longrightarrow>
   polling (set_phase i p q) + (if wk_phase (qu_workers q ! i) = Polling then 1 else 0) = polling q + (if p = Polling then 1 else 0)"
  using polling_update [of i "qu_workers q" "\<lambda>w. wk_phase w = Polling" "(qu_workers q ! i)\<lparr>wk_phase := p\<rparr>"]
  by (simp add: polling_def set_phase_def)

lemma polling_cong [simp]:
  "polling (q\<lparr>qu_buffer := b\<rparr>) = polling q" "polling (q\<lparr>qu_started := s\<rparr>) = polling q" "polling (q\<lparr>qu_finished := f\<rparr>) = polling q"
  "polling (q\<lparr>qu_lost := l\<rparr>) = polling q" "polling (q\<lparr>qu_events := e\<rparr>) = polling q"
  by (simp_all add: polling_def)

text \<open>A step that leaves the queue paused; a resume followed by a new pause is not one.\<close>

definition paused_step :: "'m queue \<Rightarrow> 'm queue \<Rightarrow> bool" where
  "paused_step q q' \<longleftrightarrow> queue_step q q' \<and> qu_state q = Paused \<and> qu_state q' = Paused"

lemma paused_worker_step:
  assumes i: "i < length (qu_workers q)" and inv: "queue_inv q" and paused: "qu_state q = Paused"
  shows "length (qu_started (worker_step r i q)) + polling (worker_step r i q) \<le> length (qu_started q) + polling q"
proof -
  have ok: "worker_ok q (qu_workers q ! i)" using worker_okD [OF inv i] .
  have seen: "polling (mark_seen i q) = polling q" if "wk_phase (qu_workers q ! i) \<noteq> Polling"
    using polling_update [OF i, of "\<lambda>w. wk_phase w = Polling" "(qu_workers q ! i)\<lparr>wk_seen := qu_version q, wk_phase := Top\<rparr>"] that
    by (simp add: polling_def mark_seen_def)
  show ?thesis
  proof (cases "wk_phase (qu_workers q ! i)")
    case Top
    then show ?thesis using polling_set_phase [OF i, of Waiting] paused by (simp add: worker_step_def)
  next
    case Waiting
    then show ?thesis using seen by (simp add: worker_step_def) (simp add: mark_seen_def)
  next
    case Selecting
    then have "wk_seen (qu_workers q ! i) \<noteq> qu_version q" using ok paused by (auto simp: worker_ok_def)
    then show ?thesis using seen Selecting by (simp add: worker_step_def) (simp add: mark_seen_def)
  next
    case Polling
    then show ?thesis
      using polling_set_phase [OF i, of Selecting] polling_set_phase [OF i, of Exited] polling_set_phase [OF i, of "Busy (hd (qu_buffer q))"]
      by (auto simp: worker_step_def split: list.split)
  next
    case (Busy m)
    then show ?thesis
      using polling_set_phase [OF i, of Top] polling_set_phase [OF i, of Dead]
      by (auto simp: worker_step_def finish_message_def split: handler_result.split)
  qed (simp_all add: worker_step_def)
qed

lemma paused_step_bound:
  assumes "paused_step q q'" "queue_inv q"
  shows "length (qu_started q') + polling q' \<le> length (qu_started q) + polling q"
proof -
  have step: "queue_step q q'" and paused: "qu_state q = Paused" "qu_state q' = Paused"
    using assms(1) by (auto simp: paused_step_def)
  from step show ?thesis
  proof cases
    case (step_worker i r)
    then show ?thesis using paused_worker_step [OF _ assms(2) paused(1)] by simp
  qed (use paused in \<open>auto simp: queue_send_def record_queued_def queue_pause_def queue_resume_def queue_shutdown_def set_state_def polling_def\<close>)
qed

text \<open>
  A pause takes effect. While a queue stays paused, however long, the workers together start at most
  one message for each worker that was already between the two branches of its \<open>select\<close> when the pause
  was requested, hence at most as many as there are workers; a worker that looks at the state later
  starts nothing until it sees another change.
\<close>

theorem queue_pause_holds:
  assumes start: "queue_start c = Inr q0" and run: "queue_step\<^sup>*\<^sup>* q0 q" and paused: "paused_step\<^sup>*\<^sup>* q q'"
  shows "length (qu_started q') \<le> length (qu_started q) + polling q \<and> polling q \<le> qc_workers c"
proof -
  have inv: "queue_inv q" using queue_inv_steps [OF run queue_inv_start [OF start]] .
  from paused inv have "length (qu_started q') + polling q' \<le> length (qu_started q) + polling q \<and> queue_inv q'"
  proof (induction rule: rtranclp_induct)
    case (step y z)
    then have "queue_inv y" by blast
    moreover have "queue_inv z" using step.hyps(2) queue_inv_step [OF _ \<open>queue_inv y\<close>] by (simp add: paused_step_def)
    ultimately show ?case using step paused_step_bound [OF step.hyps(2)] by force
  qed simp
  moreover have "length (qu_workers q) = qc_workers c"
    using queue_steps_workers [OF run] start by (auto simp: queue_start_def split: sum.splits)
  moreover have "polling q \<le> length (qu_workers q)" by (simp add: polling_def)
  ultimately show ?thesis by simp
qed

section \<open>Draining\<close>

text \<open>How many steps a worker can still take without a new message.\<close>

fun potential :: "nat \<Rightarrow> 'm worker \<Rightarrow> nat" where
  "potential v w =
     (case wk_phase w of
        Exited \<Rightarrow> 0 | Dead \<Rightarrow> 0 | Polling \<Rightarrow> 1
      | Selecting \<Rightarrow> if wk_seen w = v then 2 else 4
      | Top \<Rightarrow> if wk_seen w = v then 3 else 5
      | Waiting \<Rightarrow> 4
      | Busy _ \<Rightarrow> 6)"

definition work_left :: "'m queue \<Rightarrow> nat" where
  "work_left q = 6 * length (qu_buffer q) + sum_list (map (potential (qu_version q)) (qu_workers q))"

text \<open>A step of some worker that changes something.\<close>

definition worker_progress :: "'m queue \<Rightarrow> 'm queue \<Rightarrow> bool" where
  "worker_progress q q' \<longleftrightarrow> (\<exists>i r. i < length (qu_workers q) \<and> q' = worker_step r i q \<and> q' \<noteq> q)"

lemma sum_potential_update:
  "i < length ws \<Longrightarrow> sum_list (map f (ws[i := w])) + f (ws ! i) = sum_list (map f ws) + (f w :: nat)"
proof -
  assume i: "i < length ws"
  have "sum_list (map f ws) = sum_list (map f (take i ws)) + f (ws ! i) + sum_list (map f (drop (Suc i) ws))"
    by (subst id_take_nth_drop [OF i]) simp
  moreover have "sum_list (map f (ws[i := w])) = sum_list (map f (take i ws)) + f w + sum_list (map f (drop (Suc i) ws))"
    by (simp add: upd_conv_take_nth_drop [OF i])
  ultimately show ?thesis by simp
qed

lemma work_set_phase:
  "i < length (qu_workers q) \<Longrightarrow>
   sum_list (map (potential (qu_version q)) (qu_workers (set_phase i p q))) + potential (qu_version q) (qu_workers q ! i) =
   sum_list (map (potential (qu_version q)) (qu_workers q)) + potential (qu_version q) ((qu_workers q ! i)\<lparr>wk_phase := p\<rparr>)"
  using sum_potential_update [of i "qu_workers q" "potential (qu_version q)"] by (simp add: set_phase_def)

lemma work_mark_seen:
  "i < length (qu_workers q) \<Longrightarrow>
   work_left (mark_seen i q) + potential (qu_version q) (qu_workers q ! i) = work_left q + 3"
  using sum_potential_update [of i "qu_workers q" "potential (qu_version q)" "(qu_workers q ! i)\<lparr>wk_seen := qu_version q, wk_phase := Top\<rparr>"]
  by (simp add: mark_seen_def work_left_def)

lemma drain_step:
  assumes i: "i < length (qu_workers q)" and inv: "queue_inv q" and closed: "\<not> qu_open q" "qu_state q = Running"
    and moved: "worker_step r i q \<noteq> q"
  shows "work_left (worker_step r i q) < work_left q"
proof -
  have ok: "worker_ok q (qu_workers q ! i)" using worker_okD [OF inv i] .
  show ?thesis
  proof (cases "wk_phase (qu_workers q ! i)")
    case Top
    then show ?thesis using work_set_phase [OF i, of Selecting] closed by (simp add: worker_step_def work_left_def split: if_splits)
  next
    case Waiting
    then show ?thesis using work_mark_seen [OF i] moved by (simp add: worker_step_def split: if_splits)
  next
    case Selecting
    then show ?thesis
      using work_mark_seen [OF i] work_set_phase [OF i, of Polling] by (auto simp: worker_step_def work_left_def)
  next
    case Polling
    then show ?thesis
      using work_set_phase [OF i, of Exited] work_set_phase [OF i, of "Busy (hd (qu_buffer q))"] closed
      by (auto simp: worker_step_def work_left_def split: list.splits)
  next
    case (Busy m)
    then show ?thesis
      using work_set_phase [OF i, of Top] work_set_phase [OF i, of Dead]
      by (auto simp: worker_step_def finish_message_def work_left_def split: handler_result.splits if_splits)
  qed (use moved in \<open>simp_all add: worker_step_def\<close>)
qed

lemma worker_step_state:
  "qu_open (worker_step r i q) = qu_open q" "qu_state (worker_step r i q) = qu_state q"
  by (auto simp: worker_step_def mark_seen_def finish_message_def split: phase.split list.split queue_state.split handler_result.split)

lemma drain_run:
  assumes "(worker_progress ^^ n) q q'" "queue_inv q" "\<not> qu_open q" "qu_state q = Running"
  shows "n + work_left q' \<le> work_left q \<and> queue_inv q' \<and> \<not> qu_open q' \<and> qu_state q' = Running"
  using assms
proof (induction n arbitrary: q')
  case (Suc n)
  then obtain y where y: "(worker_progress ^^ n) q y" "worker_progress y q'" by auto
  from Suc.IH [OF y(1) Suc.prems(2-4)] have ih: "n + work_left y \<le> work_left q" "queue_inv y" "\<not> qu_open y" "qu_state y = Running"
    by auto
  obtain i r where ir: "i < length (qu_workers y)" "q' = worker_step r i y" "q' \<noteq> y" using y(2) by (auto simp: worker_progress_def)
  show ?case
    using drain_step [OF ir(1) ih(2,3,4), of r] ir queue_inv_worker [OF ir(1) ih(2)] worker_step_state [of r i y] ih by auto
qed simp

lemma drained_ended:
  assumes inv: "queue_inv q" and closed: "\<not> qu_open q" "qu_state q = Running" and stuck: "\<And>q'. \<not> worker_progress q q'"
  shows "list_all ended (qu_workers q)"
proof -
  have "ended (qu_workers q ! i)" if i: "i < length (qu_workers q)" for i
  proof (rule ccontr)
    assume "\<not> ended (qu_workers q ! i)"
    have same: "worker_step r i q = q" for r using stuck i by (auto simp: worker_progress_def)
    have phases: "wk_phase (qu_workers (worker_step HandlerOk i q) ! i) = wk_phase (qu_workers q ! i)" using same by simp
    show False
    proof (cases "wk_phase (qu_workers q ! i)")
      case Waiting
      then have "wk_seen (qu_workers q ! i) \<noteq> qu_version q" using worker_okD [OF inv i] closed by (auto simp: worker_ok_def)
      then show False using phases Waiting i by (simp add: worker_step_def mark_seen_def)
    next
      case Polling
      then show False using phases i closed by (auto simp: worker_step_def set_phase_def split: list.splits)
    qed (use phases i closed \<open>\<not> ended _\<close> in \<open>auto simp: worker_step_def set_phase_def mark_seen_def finish_message_def ended_def split: if_splits\<close>)
  qed
  then show ?thesis by (simp add: list_all_length)
qed

text \<open>
  C27. A queue whose producers are gone drains and stops. Once every producer is dropped and the queue is
  running, the workers can take at most \<open>6 * (messages + workers)\<close> further steps in any interleaving,
  whatever the handlers return; when none of them can move, all have ended, and unless all of them
  panicked, the channel is empty and every message ever pushed was handled or was lost to a panic.
\<close>

theorem queue_drains:
  assumes start: "queue_start c = Inr q0" and run: "queue_step\<^sup>*\<^sup>* q0 q" and closed: "\<not> qu_open q" "qu_state q = Running"
    and rest: "(worker_progress ^^ n) q q'"
  shows "n \<le> 6 * (length (qu_buffer q) + qc_workers c) \<and>
    ((\<nexists>q''. worker_progress q' q'') \<longrightarrow>
       list_all ended (qu_workers q') \<and>
       ((\<exists>w \<in> set (qu_workers q'). wk_phase w = Exited) \<longrightarrow>
          qu_buffer q' = [] \<and> mset (qu_pushed q') = mset (qu_finished q') + mset (qu_lost q')))"
proof -
  have inv: "queue_inv q" using queue_inv_steps [OF run queue_inv_start [OF start]] .
  note r = drain_run [OF rest inv closed]
  have workers: "length (qu_workers q) = qc_workers c"
    using queue_steps_workers [OF run] start by (auto simp: queue_start_def split: sum.splits)
  have "potential v w \<le> 6" for v and w :: "'a worker" by (cases "wk_phase w") auto
  then have "sum_list (map (potential (qu_version q)) (qu_workers q)) \<le> 6 * length (qu_workers q)"
    using sum_list_mono [of "qu_workers q" "potential (qu_version q)" "\<lambda>_. 6"] by (simp add: sum_list_triv mult.commute del: potential.simps)
  then have bound: "n \<le> 6 * (length (qu_buffer q) + qc_workers c)"
    using r workers unfolding work_left_def by simp
  have "list_all ended (qu_workers q')" if "\<nexists>q''. worker_progress q' q''"
    using drained_ended [of q'] r that by blast
  moreover have "qu_buffer q' = [] \<and> mset (qu_pushed q') = mset (qu_finished q') + mset (qu_lost q')"
    if "list_all ended (qu_workers q')" "\<exists>w \<in> set (qu_workers q'). wk_phase w = Exited"
  proof -
    have "qu_buffer q' = []" using r that(2) by (auto simp: queue_inv_def list_all_iff worker_ok_def)
    moreover have "busy q' = []" using that(1) by (auto simp: busy_def list_all_iff ended_def)
    ultimately show ?thesis using r by (simp add: queue_inv_def)
  qed
  ultimately show ?thesis using bound by blast
qed

section \<open>Pushers\<close>

lemma push_first_cases:
  "push_first m is qs = (r, qs') \<Longrightarrow>
   (case r of
      None \<Rightarrow> qs' = qs \<and> (\<forall>i \<in> set is. fst (try_push m (qs ! i)) \<noteq> Pushed)
    | Some i \<Rightarrow> i \<in> set is \<and> fst (try_push m (qs ! i)) = Pushed \<and> qs' = qs[i := snd (try_push m (qs ! i))])"
proof (induction m "is" qs rule: push_first.induct)
  case (2 m i "is" qs)
  obtain pr q' where t: "try_push m (qs ! i) = (pr, q')" by (cases "try_push m (qs ! i)")
  show ?case using 2 t by (cases pr) (auto split: option.splits)
qed simp

text \<open>
  The round-robin pusher places a message in exactly one queue, and gives up only when it must: it
  changes nothing but the queue it reports, and it reports none exactly when every queue is full or
  closed, wherever its counter stands.
\<close>

theorem balanced_push_exact:
  assumes "bp_producers p \<noteq> []" "balanced_push m p = (r, p')"
  shows "case r of
      None \<Rightarrow> bp_producers p' = bp_producers p \<and> (\<forall>q \<in> set (bp_producers p). fst (try_push m q) \<noteq> Pushed)
    | Some i \<Rightarrow> i < length (bp_producers p) \<and>
        bp_producers p' = (bp_producers p)[i := snd (try_push m (bp_producers p ! i))] \<and>
        qu_pushed (bp_producers p' ! i) = qu_pushed (bp_producers p ! i) @ [m]"
proof -
  let ?n = "length (bp_producers p)"
  let ?is = "map (\<lambda>k. (unat (bp_next p) mod ?n + k) mod ?n) [0..<?n]"
  obtain qs where push: "push_first m ?is (bp_producers p) = (r, qs)" "bp_producers p' = qs"
    using assms(2) by (auto simp: balanced_push_def Let_def split: prod.splits)
  have "set ?is = {0..<?n}" using rotation_onto [of ?n "unat (bp_next p) mod ?n"] assms(1) by simp
  note cases = push_first_cases [OF push(1), unfolded this] push(2)
  show ?thesis
  proof (cases r)
    case None
    with cases show ?thesis by (fastforce simp: in_set_conv_nth)
  next
    case (Some i)
    with cases show ?thesis
      by (auto simp: try_push_def queue_send_def record_queued_def split: if_splits)
  qed
qed

section \<open>Witnesses\<close>

definition example_config :: queue_config where
  "example_config = queue_config_new ''q'' 1 1"

definition example_queue :: "nat queue" where
  "example_queue = \<lparr>qu_capacity = 1, qu_buffer = [], qu_state = Running, qu_version = 0, qu_open = True,
     qu_workers = [\<lparr>wk_phase = Top, wk_seen = 0\<rparr>], qu_events = [], qu_unannounced = 0,
     qu_pushed = [], qu_started = [], qu_finished = [], qu_lost = []\<rparr>"

lemma example_start: "queue_start example_config = Inr example_queue"
  by (simp add: queue_start_def example_config_def queue_config_new_def queue_config_validate_def is_blank_def ascii_ws_def
      nanos_per_sec_def example_queue_def)

definition pushed_queue :: "nat queue" where
  "pushed_queue = snd (queue_send 7 example_queue)"

lemma example_push: "queue_step\<^sup>*\<^sup>* example_queue pushed_queue"
  unfolding pushed_queue_def by (intro r_into_rtranclp queue_step.step_send) (simp add: example_queue_def)

lemma pushed_queue_simp:
  "pushed_queue = example_queue\<lparr>qu_buffer := [7], qu_pushed := [7], qu_unannounced := 1\<rparr>"
  by (simp add: pushed_queue_def queue_send_def receiver_closed_def ended_def example_queue_def)


theorem queue_pause_holds_witness:
  "\<exists>q q' :: nat queue. queue_step\<^sup>*\<^sup>* example_queue q \<and> paused_step q q' \<and> length (qu_started q') \<le> length (qu_started q)"
proof -
  let ?q = "queue_pause pushed_queue"
  have run: "queue_step\<^sup>*\<^sup>* example_queue ?q" using example_push by (rule rtranclp.rtrancl_into_rtrancl) (rule queue_step.step_pause)
  have step: "paused_step ?q (worker_step HandlerOk 0 ?q)"
    unfolding paused_step_def
    by (intro conjI queue_step.step_worker)
      (simp_all add: pushed_queue_simp queue_pause_def set_state_def worker_step_state example_queue_def)
  have "polling ?q = 0" by (simp add: polling_def pushed_queue_simp queue_pause_def set_state_def example_queue_def)
  moreover have run2: "paused_step\<^sup>*\<^sup>* ?q (worker_step HandlerOk 0 ?q)" using step by (rule r_into_rtranclp)
  ultimately show ?thesis using queue_pause_holds [OF example_start run run2] run step by force
qed

theorem queue_drains_witness:
  "\<exists>q q' :: nat queue. queue_step\<^sup>*\<^sup>* example_queue q \<and> \<not> qu_open q \<and> (worker_progress ^^ 1) q q' \<and> 1 \<le> 6 * (length (qu_buffer q) + 1)"
proof -
  let ?q = "pushed_queue\<lparr>qu_open := False\<rparr>"
  have run: "queue_step\<^sup>*\<^sup>* example_queue ?q" using example_push by (rule rtranclp.rtrancl_into_rtrancl) (rule queue_step.step_close)
  have closed: "\<not> qu_open ?q" "qu_state ?q = Running" by (simp_all add: pushed_queue_simp example_queue_def)
  have "worker_progress ?q (worker_step HandlerOk 0 ?q)"
    unfolding worker_progress_def
    by (intro exI [of _ 0] exI [of _ HandlerOk]) (simp add: pushed_queue_simp example_queue_def worker_step_def set_phase_def)
  then have step: "(worker_progress ^^ 1) ?q (worker_step HandlerOk 0 ?q)" by (simp add: eq_OO)
  from queue_drains [OF example_start run closed step] show ?thesis
    using run closed step by (intro exI [of _ ?q] exI [of _ "worker_step HandlerOk 0 ?q"]) (simp add: example_config_def queue_config_new_def)
qed

theorem balanced_push_exact_witness:
  "\<exists>p'. balanced_push 9 \<lparr>bp_producers = [example_queue, example_queue], bp_next = 1\<rparr> = (Some 1, p') \<and>
     qu_pushed (bp_producers p' ! 1) = [9]"
proof -
  let ?p = "\<lparr>bp_producers = [example_queue, example_queue], bp_next = 1\<rparr>"
  have "\<exists>p'. balanced_push 9 ?p = (Some 1, p')"
    by (simp add: balanced_push_def upt_rec try_push_def queue_send_def receiver_closed_def ended_def example_queue_def)
  then obtain p' where p': "balanced_push 9 ?p = (Some 1, p')" ..
  with balanced_push_exact [OF _ p'] show ?thesis by (auto simp: example_queue_def)
qed

end
