(* ===== verification/Map_Reduce.thy ===== *)
theory Map_Reduce
  imports Prelude "HOL-Library.Multiset"
begin

text \<open>
  The bounded-concurrency executor of \<open>mapreduce/src/mapreduce.rs\<close>. The tasks of a \<open>JoinSet\<close> run
  concurrently and \<open>join_next\<close> yields them in the order in which they finish; that order, and the order
  in which a \<open>HashMap\<close> lists its entries, is a list of choices, one per task or entry taken. Every
  property is proved for all choices. A job that panics is the value \<open>None\<close>, and joining it makes the
  phase return an error.
\<close>

section \<open>The task set\<close>

record ('j, 'o) pool =
  po_jobs :: "'j list"
  po_out :: "'o list"
  po_choices :: "nat list"
  po_peak :: nat  \<comment> \<open>the largest number of tasks that ran at once\<close>

definition pool_empty :: "nat list \<Rightarrow> ('j, 'o) pool" where
  "pool_empty cs = \<lparr>po_jobs = [], po_out = [], po_choices = cs, po_peak = 0\<rparr>"

definition next_index :: "nat list \<Rightarrow> nat \<Rightarrow> nat" where
  "next_index cs n = (case cs of [] \<Rightarrow> 0 | c # _ \<Rightarrow> c mod n)"

definition remove_nth :: "nat \<Rightarrow> 'a list \<Rightarrow> 'a list" where
  "remove_nth i xs = take i xs @ drop (Suc i) xs"

definition join_next :: "('j \<Rightarrow> 'o option) \<Rightarrow> ('j, 'o) pool \<Rightarrow> ('j, 'o) pool option" where
  "join_next run p =
     (let i = next_index (po_choices p) (length (po_jobs p)) in
      case run (po_jobs p ! i) of
        None \<Rightarrow> None
      | Some r \<Rightarrow> Some (p\<lparr>po_jobs := remove_nth i (po_jobs p), po_out := po_out p @ [r],
          po_choices := tl (po_choices p)\<rparr>))"

definition spawn :: "'j \<Rightarrow> ('j, 'o) pool \<Rightarrow> ('j, 'o) pool" where
  "spawn j p = p\<lparr>po_jobs := po_jobs p @ [j], po_peak := max (po_peak p) (Suc (length (po_jobs p)))\<rparr>"

text \<open>The two loops of a phase: spawn every item, waiting for a free place, then wait for the rest.\<close>

fun feed :: "nat \<Rightarrow> ('j \<Rightarrow> 'o option) \<Rightarrow> 'j list \<Rightarrow> ('j, 'o) pool \<Rightarrow> ('j, 'o) pool option" where
  "feed limit run [] p = Some p"
| "feed limit run (j # js) p =
     (if length (po_jobs p) = limit
      then (case join_next run p of None \<Rightarrow> None | Some p' \<Rightarrow> feed limit run js (spawn j p'))
      else feed limit run js (spawn j p))"

function join_all :: "('j \<Rightarrow> 'o option) \<Rightarrow> ('j, 'o) pool \<Rightarrow> ('j, 'o) pool option" where
  "join_all run p =
     (if po_jobs p = [] then Some p
      else case join_next run p of None \<Rightarrow> None | Some p' \<Rightarrow> join_all run p')"
  by pat_completeness auto

lemma next_index_less: "xs \<noteq> [] \<Longrightarrow> next_index cs (length xs) < length xs"
  by (simp add: next_index_def split: list.split)

lemma length_remove_nth: "i < length xs \<Longrightarrow> length (remove_nth i xs) = length xs - 1"
  by (simp add: remove_nth_def)

lemma mset_remove_nth: "i < length xs \<Longrightarrow> add_mset (xs ! i) (mset (remove_nth i xs)) = mset xs"
  by (subst (3) id_take_nth_drop [of i xs]) (simp_all add: remove_nth_def)

lemma join_next_jobs:
  assumes "join_next run p = Some p'" "po_jobs p \<noteq> []"
  shows "length (po_jobs p') = length (po_jobs p) - 1" "po_peak p' = po_peak p"
    "\<exists>j r. run j = Some r \<and> po_out p' = po_out p @ [r] \<and> mset (po_jobs p) = add_mset j (mset (po_jobs p'))"
proof -
  define i where "i = next_index (po_choices p) (length (po_jobs p))"
  have i: "i < length (po_jobs p)" using next_index_less [OF assms(2)] by (simp add: i_def)
  obtain r where r: "run (po_jobs p ! i) = Some r"
    "p' = p\<lparr>po_jobs := remove_nth i (po_jobs p), po_out := po_out p @ [r], po_choices := tl (po_choices p)\<rparr>"
    using assms(1) by (auto simp: join_next_def Let_def i_def split: option.splits)
  show "length (po_jobs p') = length (po_jobs p) - 1" "po_peak p' = po_peak p"
    using r(2) i by (simp_all add: length_remove_nth)
  show "\<exists>j r. run j = Some r \<and> po_out p' = po_out p @ [r] \<and> mset (po_jobs p) = add_mset j (mset (po_jobs p'))"
    using r mset_remove_nth [OF i] by (intro exI [of _ "po_jobs p ! i"] exI [of _ r]) simp
qed

lemma join_next_subset:
  assumes "join_next run p = Some p'" "po_jobs p \<noteq> []"
  shows "set (po_jobs p') \<subseteq> set (po_jobs p)"
proof -
  from join_next_jobs(3) [OF assms] obtain j where "mset (po_jobs p) = add_mset j (mset (po_jobs p'))" by blast
  from arg_cong [OF this, of set_mset] show ?thesis by auto
qed

lemma join_next_None:
  "join_next run p = None \<Longrightarrow> po_jobs p \<noteq> [] \<Longrightarrow> \<exists>j \<in> set (po_jobs p). run j = None"
  using next_index_less [of "po_jobs p" "po_choices p"]
  by (auto simp: join_next_def Let_def split: option.splits intro!: bexI [OF _ nth_mem])

termination join_all
  by (relation "measure (\<lambda>(_, p). length (po_jobs p))") (auto dest: join_next_jobs(1))

declare join_all.simps [simp del]

definition pool_phase :: "nat \<Rightarrow> ('j \<Rightarrow> 'o option) \<Rightarrow> nat list \<Rightarrow> 'j list \<Rightarrow> ('j, 'o) pool option" where
  "pool_phase limit run cs js =
     (case feed limit run js (pool_empty cs) of None \<Rightarrow> None | Some p \<Rightarrow> join_all run p)"

section \<open>The three phases\<close>

definition mapreduce_new :: "nat \<Rightarrow> nat option" where
  "mapreduce_new limit = (if limit > 0 then Some limit else None)"

definition map_phase :: "nat \<Rightarrow> nat list \<Rightarrow> ('v \<Rightarrow> ('k \<times> 'r) list option) \<Rightarrow> 'v list \<Rightarrow> ('k \<times> 'r) list option" where
  "map_phase limit cs map_fn input = map_option (concat \<circ> po_out) (pool_phase limit map_fn cs input)"

definition entry_push :: "'k \<Rightarrow> 'r \<Rightarrow> ('k, 'r list) hmap \<Rightarrow> ('k, 'r list) hmap" where
  "entry_push k v m = AList.update k ((case map_of m k of None \<Rightarrow> [] | Some vs \<Rightarrow> vs) @ [v]) m"

definition shuffle_phase :: "('k \<times> 'r) list \<Rightarrow> ('k, 'r list) hmap" where
  "shuffle_phase results = foldl (\<lambda>m (k, v). entry_push k v m) [] results"

fun listed_by :: "nat list \<Rightarrow> nat \<Rightarrow> 'a list \<Rightarrow> 'a list" where
  "listed_by cs 0 xs = []"
| "listed_by cs (Suc n) xs =
     (let i = next_index cs (length xs) in xs ! i # listed_by (tl cs) n (remove_nth i xs))"

definition reduce_phase ::
  "nat \<Rightarrow> nat list \<Rightarrow> nat list \<Rightarrow> ('k \<Rightarrow> 'r list \<Rightarrow> 'r option) \<Rightarrow> ('k, 'r list) hmap \<Rightarrow> ('k, 'r) hmap option" where
  "reduce_phase limit cs order reduce_fn grouped =
     map_option (\<lambda>p. foldl (\<lambda>m (k, r). AList.update k r m) [] (po_out p))
       (pool_phase limit (\<lambda>(k, vs). map_option (Pair k) (reduce_fn k vs)) cs
          (listed_by order (length grouped) grouped))"

definition mapreduce_execute ::
  "nat \<Rightarrow> nat list \<times> nat list \<times> nat list \<Rightarrow> 'v list \<Rightarrow> ('v \<Rightarrow> ('k \<times> 'r) list option) \<Rightarrow>
   ('k \<Rightarrow> 'r list \<Rightarrow> 'r option) \<Rightarrow> ('k, 'r) hmap option" where
  "mapreduce_execute limit choices input map_fn reduce_fn =
     (case choices of (cs1, order, cs2) \<Rightarrow>
        case map_phase limit cs1 map_fn input of
          None \<Rightarrow> None
        | Some results \<Rightarrow> reduce_phase limit cs2 order reduce_fn (shuffle_phase results))"

section \<open>A phase runs every job once, within its bound\<close>

lemma spawn_simps [simp]:
  "po_jobs (spawn j p) = po_jobs p @ [j]" "po_out (spawn j p) = po_out p"
  "po_peak (spawn j p) = max (po_peak p) (Suc (length (po_jobs p)))"
  by (simp_all add: spawn_def)

definition pool_results :: "('j \<Rightarrow> 'o option) \<Rightarrow> 'j list \<Rightarrow> ('j, 'o) pool \<Rightarrow> 'o option multiset" where
  "pool_results run js p = image_mset Some (mset (po_out p)) + image_mset run (mset (po_jobs p) + mset js)"

lemma join_next_results:
  "join_next run p = Some p' \<Longrightarrow> po_jobs p \<noteq> [] \<Longrightarrow> pool_results run js p' = pool_results run js p"
  using join_next_jobs(3) [of run p p'] by (auto simp: pool_results_def)

lemma spawn_results: "pool_results run js (spawn j p) = pool_results run (j # js) p"
  by (simp add: pool_results_def)

lemma feed_bounded:
  "feed limit run js p = Some p' \<Longrightarrow> 0 < limit \<Longrightarrow> length (po_jobs p) \<le> limit \<Longrightarrow> po_peak p \<le> limit \<Longrightarrow>
   length (po_jobs p') \<le> limit \<and> po_peak p' \<le> limit \<and> pool_results run [] p' = pool_results run js p"
proof (induction limit run js p rule: feed.induct)
  case (2 limit run j js p)
  show ?case
  proof (cases "length (po_jobs p) = limit")
    case True
    with 2 obtain q where q: "join_next run p = Some q" by (auto split: option.splits)
    have ne: "po_jobs p \<noteq> []" using True 2 by auto
    show ?thesis
      using 2 True q join_next_jobs [OF q ne] join_next_results [OF q ne, of "j # js"] by (auto simp: spawn_results)
  next
    case False
    then show ?thesis using 2 by (auto simp: spawn_results)
  qed
qed auto

lemma feed_total:
  "\<forall>j \<in> set js \<union> set (po_jobs p). run j \<noteq> None \<Longrightarrow> 0 < limit \<Longrightarrow> \<exists>p'. feed limit run js p = Some p'"
proof (induction limit run js p rule: feed.induct)
  case (2 limit run j js p)
  show ?case
  proof (cases "length (po_jobs p) = limit")
    case True
    then have ne: "po_jobs p \<noteq> []" using 2 by auto
    have "join_next run p \<noteq> None" using 2(3) join_next_None [OF _ ne, of run] by blast
    then obtain q where q: "join_next run p = Some q" by blast
    with 2 True join_next_subset [OF q ne] show ?thesis by auto
  next
    case False
    with 2 show ?thesis by auto
  qed
qed auto

lemma join_all_results:
  "join_all run p = Some p' \<Longrightarrow>
   po_jobs p' = [] \<and> po_peak p' = po_peak p \<and> pool_results run [] p' = pool_results run [] p"
proof (induction run p rule: join_all.induct)
  case (1 run p)
  show ?case
  proof (cases "po_jobs p = []")
    case True
    with 1 show ?thesis by (auto simp: join_all.simps)
  next
    case False
    with 1 obtain q where q: "join_next run p = Some q" by (auto simp: join_all.simps [of run p] split: option.splits)
    have "join_all run q = Some p'" using 1(2) False q by (simp add: join_all.simps [of run p])
    with 1(1) False q join_next_jobs(2) [OF q False] join_next_results [OF q False, of "[]"]
    show ?thesis by auto
  qed
qed

lemma join_all_total: "\<forall>j \<in> set (po_jobs p). run j \<noteq> None \<Longrightarrow> \<exists>p'. join_all run p = Some p'"
proof (induction run p rule: join_all.induct)
  case (1 run p)
  show ?case
  proof (cases "po_jobs p = []")
    case False
    then have "join_next run p \<noteq> None" using 1(2) join_next_None [of run p] by blast
    then obtain q where q: "join_next run p = Some q" by blast
    with 1 False join_next_subset [OF q False] show ?thesis by (auto simp: join_all.simps [of run p])
  qed (simp add: join_all.simps)
qed

lemma pool_phase_Some:
  assumes "pool_phase limit run cs js = Some p" "0 < limit"
  shows "po_peak p \<le> limit" "image_mset Some (mset (po_out p)) = image_mset run (mset js)"
proof -
  obtain q where q: "feed limit run js (pool_empty cs) = Some q" "join_all run q = Some p"
    using assms(1) by (auto simp: pool_phase_def split: option.splits)
  note f = feed_bounded [OF q(1) assms(2)]
  note j = join_all_results [OF q(2)]
  show "po_peak p \<le> limit" using f j by (simp add: pool_empty_def)
  show "image_mset Some (mset (po_out p)) = image_mset run (mset js)"
    using f j by (auto simp: pool_empty_def pool_results_def)
qed

lemma pool_phase_defined:
  assumes "0 < limit"
  shows "pool_phase limit run cs js \<noteq> None \<longleftrightarrow> (\<forall>j \<in> set js. run j \<noteq> None)"
proof
  assume "pool_phase limit run cs js \<noteq> None"
  then obtain p where "pool_phase limit run cs js = Some p" by blast
  from pool_phase_Some(2) [OF this assms] have "set_mset (image_mset run (mset js)) \<subseteq> range Some"
    by (metis image_subsetI rangeI set_image_mset)
  then show "\<forall>j \<in> set js. run j \<noteq> None" by auto
next
  assume all: "\<forall>j \<in> set js. run j \<noteq> None"
  then obtain q where q: "feed limit run js (pool_empty cs) = Some q"
    using feed_total [of js "pool_empty cs" run limit] assms by (auto simp: pool_empty_def)
  have "pool_results run [] q = image_mset run (mset js)"
    using feed_bounded [OF q assms] by (simp add: pool_empty_def pool_results_def)
  from arg_cong [OF this, of set_mset] have "run ` set (po_jobs q) \<subseteq> run ` set js"
    by (auto simp: pool_results_def)
  with all have "\<forall>j \<in> set (po_jobs q). run j \<noteq> None" by fastforce
  from join_all_total [OF this] show "pool_phase limit run cs js \<noteq> None" using q by (auto simp: pool_phase_def)
qed

section \<open>The phases compose to the sequential map and reduce\<close>

definition group_of :: "'k \<Rightarrow> ('k \<times> 'r) list \<Rightarrow> 'r list" where
  "group_of k rs = map snd (filter (\<lambda>(k', _). k' = k) rs)"

text \<open>The reference: map the input in order, reduce each key's values in the order they were produced.\<close>

definition mapreduce_sequential ::
  "'v list \<Rightarrow> ('v \<Rightarrow> ('k \<times> 'r) list option) \<Rightarrow> ('k \<Rightarrow> 'r list \<Rightarrow> 'r option) \<Rightarrow> ('k \<Rightarrow> 'r option) option" where
  "mapreduce_sequential input map_fn reduce_fn =
     (if \<exists>v \<in> set input. map_fn v = None then None
      else
        let rs = concat (map (the \<circ> map_fn) input) in
        if \<exists>k \<in> set (map fst rs). reduce_fn k (group_of k rs) = None then None
        else Some (\<lambda>k. if k \<in> set (map fst rs) then reduce_fn k (group_of k rs) else None))"

lemma image_Some_mset:
  assumes "image_mset Some A = image_mset f B"
  shows "A = image_mset (the \<circ> f) B"
proof -
  have "image_mset the (image_mset Some A) = image_mset the (image_mset f B)" using assms by simp
  then show ?thesis by (simp add: multiset.map_comp)
qed

lemma mset_concat_cong: "mset xss = mset yss \<Longrightarrow> mset (concat xss) = mset (concat yss)"
  by (metis mset_concat mset_map sum_mset_sum_list)

lemma map_phase_Some:
  "map_phase limit cs map_fn input = Some rs \<Longrightarrow> 0 < limit \<Longrightarrow> mset rs = mset (concat (map (the \<circ> map_fn) input))"
  by (auto simp: map_phase_def dest!: pool_phase_Some(2) image_Some_mset intro!: mset_concat_cong)

lemma map_phase_defined: "0 < limit \<Longrightarrow> map_phase limit cs map_fn input \<noteq> None \<longleftrightarrow> (\<forall>v \<in> set input. map_fn v \<noteq> None)"
  using pool_phase_defined [of limit map_fn cs input] by (simp add: map_phase_def)

lemma group_of_append [simp]: "group_of k (xs @ ys) = group_of k xs @ group_of k ys"
  by (simp add: group_of_def)

lemma group_of_Nil: "group_of k rs = [] \<longleftrightarrow> k \<notin> fst ` set rs"
  by (force simp: group_of_def filter_empty_conv)

lemma group_of_mset: "mset rs = mset rs' \<Longrightarrow> mset (group_of k rs) = mset (group_of k rs')"
  by (simp add: group_of_def)

lemma shuffle_groups:
  "hm_ok (shuffle_phase rs) \<and>
   map_of (shuffle_phase rs) k = (if group_of k rs = [] then None else Some (group_of k rs))"
proof (induction rs arbitrary: k rule: rev_induct)
  case (snoc x rs)
  obtain j v where x: "x = (j, v)" by (cases x)
  have step: "shuffle_phase (rs @ [x]) = entry_push j v (shuffle_phase rs)"
    by (simp add: shuffle_phase_def x)
  show ?case using snoc [of j] snoc [of k] unfolding step
    by (auto simp: entry_push_def hm.ok_put update_conv' x group_of_def)
qed (simp add: shuffle_phase_def group_of_def hm.ok_empty)

lemma mset_listed_by: "length xs = n \<Longrightarrow> mset (listed_by cs n xs) = mset xs"
proof (induction cs n xs rule: listed_by.induct)
  case (2 cs n xs)
  then have "next_index cs (length xs) < length xs" by (intro next_index_less) auto
  with 2 show ?case by (simp add: Let_def length_remove_nth mset_remove_nth)
qed simp

lemma map_of_inserts:
  "distinct (map fst out) \<Longrightarrow>
   map_of (foldl (\<lambda>m (k, r). AList.update k r m) [] out) k = Some r \<longleftrightarrow> (k, r) \<in> set out"
proof (induction out arbitrary: k r rule: rev_induct)
  case (snoc x out)
  obtain j v where x: "x = (j, v)" by (cases x)
  with snoc show ?case by (auto simp: update_conv' rev_image_eqI)
qed simp

lemma reduced_entry:
  "Some (k, r) = (case e of (k, vs) \<Rightarrow> map_option (Pair k) (reduce_fn k vs)) \<longleftrightarrow> fst e = k \<and> reduce_fn k (snd e) = Some r"
  by (cases e; cases "reduce_fn (fst e) (snd e)") auto

lemma reduce_phase_Some:
  assumes "reduce_phase limit cs order reduce_fn grouped = Some m" "0 < limit" "hm_ok grouped"
  shows "map_of m k = (case map_of grouped k of None \<Rightarrow> None | Some vs \<Rightarrow> reduce_fn k vs)"
proof -
  let ?run = "\<lambda>(k, vs). map_option (Pair k) (reduce_fn k vs)"
  let ?items = "listed_by order (length grouped) grouped"
  obtain p where p: "pool_phase limit ?run cs ?items = Some p"
    and m: "m = foldl (\<lambda>m (k, r). AList.update k r m) [] (po_out p)"
    using assms(1) by (auto simp: reduce_phase_def)
  have out: "image_mset Some (mset (po_out p)) = image_mset ?run (mset grouped)"
    using pool_phase_Some(2) [OF p assms(2)] by (simp only: mset_listed_by)
  have members: "Some ` set (po_out p) = ?run ` set grouped"
    using arg_cong [OF out, of set_mset] by simp
  have "(fst \<circ> (the \<circ> ?run)) e = fst e" if "e \<in> set grouped" for e
  proof -
    have "?run e \<in> Some ` set (po_out p)" using that members by blast
    then show ?thesis by (cases e) auto
  qed
  then have "image_mset (fst \<circ> (the \<circ> ?run)) (mset grouped) = image_mset fst (mset grouped)"
    by (intro image_mset_cong) simp
  moreover from image_Some_mset [OF out]
  have "image_mset fst (mset (po_out p)) = image_mset (fst \<circ> (the \<circ> ?run)) (mset grouped)"
    by (simp add: multiset.map_comp)
  ultimately have "mset (map fst (po_out p)) = mset (map fst grouped)" by simp
  then have "distinct (map fst (po_out p))"
    using assms(3) mset_eq_imp_distinct_iff unfolding hm_ok_def by metis
  note look = map_of_inserts [OF this, of k, folded m]
  have mem: "(k, r) \<in> set (po_out p) \<longleftrightarrow> (\<exists>vs. (k, vs) \<in> set grouped \<and> reduce_fn k vs = Some r)" for r
  proof -
    have "(k, r) \<in> set (po_out p) \<longleftrightarrow> Some (k, r) \<in> ?run ` set grouped" unfolding members [symmetric] by auto
    also have "\<dots> \<longleftrightarrow> (\<exists>vs. (k, vs) \<in> set grouped \<and> reduce_fn k vs = Some r)" by (force simp: image_iff reduced_entry)
    finally show ?thesis .
  qed
  have grp: "(k, vs) \<in> set grouped \<longleftrightarrow> map_of grouped k = Some vs" for vs
    using assms(3) by (simp add: hm_ok_def)
  show ?thesis
  proof (cases "map_of m k")
    case None
    then have "\<nexists>r. (k, r) \<in> set (po_out p)" using look by simp
    with mem grp None show ?thesis by (auto split: option.split)
  next
    case (Some r)
    then obtain vs where "map_of grouped k = Some vs" "reduce_fn k vs = Some r" using look mem grp by blast
    with Some show ?thesis by simp
  qed
qed

lemma reduce_phase_defined:
  assumes "0 < limit"
  shows "reduce_phase limit cs order reduce_fn grouped \<noteq> None \<longleftrightarrow> (\<forall>(k, vs) \<in> set grouped. reduce_fn k vs \<noteq> None)"
proof -
  have "set (listed_by order (length grouped) grouped) = set grouped"
    using mset_listed_by [of grouped "length grouped" order] by (metis set_mset_mset)
  with pool_phase_defined [OF assms, of "\<lambda>(k, vs). map_option (Pair k) (reduce_fn k vs)" cs
      "listed_by order (length grouped) grouped"]
  show ?thesis by (auto simp: reduce_phase_def split: prod.splits)
qed

lemma shuffle_members: "(k, vs) \<in> set (shuffle_phase rs) \<longleftrightarrow> k \<in> fst ` set rs \<and> vs = group_of k rs"
  using shuffle_groups [of rs k] group_of_Nil [of k rs] by (auto simp: hm_ok_def simp flip: map_of_eq_Some_iff)

lemma shuffle_ball:
  "(\<forall>(k, vs) \<in> set (shuffle_phase rs). P k vs) \<longleftrightarrow> (\<forall>k \<in> fst ` set rs. P k (group_of k rs))"
proof -
  have "(\<forall>(k, vs) \<in> set (shuffle_phase rs). P k vs) \<longleftrightarrow> (\<forall>k vs. (k, vs) \<in> set (shuffle_phase rs) \<longrightarrow> P k vs)" by auto
  then show ?thesis by (simp only: shuffle_members) blast
qed

text \<open>
  C26. The concurrent executor computes what the sequential map and reduce compute. Whatever order the tasks
  finish in and whatever order the hash map lists its groups in, the result is that of the sequential
  reference, for every reduce function that does not depend on the order of its values; and it is an
  error exactly when some map or reduce job panics.
\<close>

theorem mapreduce_equivalent:
  assumes limit: "mapreduce_new n = Some limit"
    and comm: "\<And>k vs vs'. mset vs = mset vs' \<Longrightarrow> reduce_fn k vs = reduce_fn k vs'"
  shows "map_option map_of (mapreduce_execute limit choices input map_fn reduce_fn) =
    mapreduce_sequential input map_fn reduce_fn"
proof -
  obtain cs1 order cs2 where choices: "choices = (cs1, order, cs2)" by (cases choices)
  have pos: "0 < limit" using limit by (simp add: mapreduce_new_def split: if_splits)
  let ?seq = "concat (map (the \<circ> map_fn) input)"
  show ?thesis
  proof (cases "map_phase limit cs1 map_fn input")
    case None
    then show ?thesis using map_phase_defined [OF pos, of cs1 map_fn input]
      by (auto simp: choices mapreduce_execute_def mapreduce_sequential_def)
  next
    case (Some rs)
    note perm = map_phase_Some [OF Some pos]
    have keys: "fst ` set rs = fst ` set ?seq" using perm by (metis set_mset_mset)
    have grp: "reduce_fn k (group_of k rs) = reduce_fn k (group_of k ?seq)" for k
      by (intro comm group_of_mset perm)
    have all: "\<forall>v \<in> set input. map_fn v \<noteq> None" using Some map_phase_defined [OF pos, of cs1 map_fn input] by simp
    have exec: "mapreduce_execute limit choices input map_fn reduce_fn = reduce_phase limit cs2 order reduce_fn (shuffle_phase rs)"
      by (simp add: choices mapreduce_execute_def Some)
    have def: "reduce_phase limit cs2 order reduce_fn (shuffle_phase rs) \<noteq> None \<longleftrightarrow>
        (\<forall>k \<in> set (map fst ?seq). reduce_fn k (group_of k ?seq) \<noteq> None)"
      unfolding reduce_phase_defined [OF pos] shuffle_ball keys grp set_map ..
    show ?thesis
    proof (cases "reduce_phase limit cs2 order reduce_fn (shuffle_phase rs)")
      case None
      with def all show ?thesis by (auto simp: exec mapreduce_sequential_def Let_def)
    next
      case (Some m)
      have "map_of m k = (if k \<in> set (map fst ?seq) then reduce_fn k (group_of k ?seq) else None)" for k
        using reduce_phase_Some [OF Some pos, of k] shuffle_groups [of rs k] group_of_Nil [of k rs]
        by (simp only: set_map flip: keys grp) (simp split: if_splits)
      then have "map_of m = (\<lambda>k. if k \<in> set (map fst ?seq) then reduce_fn k (group_of k ?seq) else None)" by blast
      moreover have "\<forall>k \<in> set (map fst ?seq). reduce_fn k (group_of k ?seq) \<noteq> None" using def Some by blast
      ultimately show ?thesis using all Some by (simp add: exec mapreduce_sequential_def Let_def)
    qed
  qed
qed

lemma mapreduce_bounded:
  assumes "mapreduce_new n = Some limit" "pool_phase limit run cs js = Some p"
  shows "po_peak p \<le> n"
  using assms pool_phase_Some(1) [OF assms(2)] by (auto simp: mapreduce_new_def split: if_splits)

section \<open>Witnesses\<close>

theorem mapreduce_equivalent_witness:
  "\<forall>choices. map_option map_of
      (mapreduce_execute 2 choices [1, 2, 3 :: nat] (\<lambda>v. Some [(v mod 2, v)]) (\<lambda>k vs. Some (sum_list vs))) =
    Some [0 \<mapsto> 2, 1 \<mapsto> 4]"
proof -
  have comm: "Some (sum_list vs) = Some (sum_list vs')" if "mset vs = mset vs'" for vs vs' :: "nat list"
    using that by (metis sum_mset_sum_list)
  have new: "mapreduce_new 2 = Some 2" by (simp add: mapreduce_new_def)
  have "mapreduce_sequential [1, 2, 3 :: nat] (\<lambda>v. Some [(v mod 2, v)]) (\<lambda>k vs. Some (sum_list vs)) = Some [0 \<mapsto> 2, 1 \<mapsto> 4]"
    by (simp add: mapreduce_sequential_def group_of_def fun_eq_iff)
  moreover have "map_option map_of
      (mapreduce_execute 2 choices [1, 2, 3 :: nat] (\<lambda>v. Some [(v mod 2, v)]) (\<lambda>k vs. Some (sum_list vs))) =
    mapreduce_sequential [1, 2, 3] (\<lambda>v. Some [(v mod 2, v)]) (\<lambda>k vs. Some (sum_list vs))" for choices
    by (rule mapreduce_equivalent [OF new]) (rule comm)
  ultimately show ?thesis by (simp only: simp_thms)
qed

end
