(* ===== verification/Service_Group.thy ===== *)
theory Service_Group
  imports Prelude
begin

text \<open>
  The supervisor of \<open>core/src/service.rs\<close>. A group starts each service as a task; the group's run ends
  when a shutdown is requested or one service stops, and then drains the other tasks under a timeout.
  What the environment decides is an argument: the outcomes of the tasks in the order in which they
  finish, whether the shutdown request or the first finished task wins the race, and how many tasks
  finish before the timeout of the drain expires.
\<close>

section \<open>Groups\<close>

record service_group =
  sg_services :: "string list"
  sg_timeout :: duration

definition service_group_new :: service_group where
  "service_group_new = \<lparr>sg_services = [], sg_timeout = 30 * nanos_per_sec\<rparr>"

text \<open>The assertions of the two builders panic.\<close>

definition with_shutdown_timeout :: "duration \<Rightarrow> service_group \<Rightarrow> service_group option" where
  "with_shutdown_timeout d g = (if d = 0 then None else Some (g\<lparr>sg_timeout := d\<rparr>))"

definition group_add :: "string \<Rightarrow> service_group \<Rightarrow> service_group option" where
  "group_add name g = (if is_blank name then None else Some (g\<lparr>sg_services := sg_services g @ [name]\<rparr>))"

datatype group_error =
    GroupEmpty
  | UnexpectedExit string
  | ServiceFailed string string
  | ServicePanicked string
  | GroupShutdownTimeout nat
  | SignalClosed
  | Signal string

text \<open>What joining a task yields: its service's name and result, or the panic of the task.\<close>

datatype join_result = Joined string "string + unit" | JoinFailed string

record running_services =
  rv_requested :: bool  \<comment> \<open>the value of the watch channel that every service receives\<close>
  rv_count :: nat
  rv_timeout :: duration

definition group_start :: "service_group \<Rightarrow> group_error + running_services" where
  "group_start g =
     (if sg_services g = [] then Inl GroupEmpty
      else Inr \<lparr>rv_requested = False, rv_count = length (sg_services g), rv_timeout = sg_timeout g\<rparr>)"

definition request_shutdown :: "running_services \<Rightarrow> running_services" where
  "request_shutdown r = r\<lparr>rv_requested := True\<rparr>"

section \<open>Draining\<close>

definition note_result :: "join_result \<Rightarrow> group_error option \<Rightarrow> group_error option" where
  "note_result jr first =
     (case first of
        Some e \<Rightarrow> Some e
      | None \<Rightarrow>
          (case jr of
             Joined _ (Inr _) \<Rightarrow> None
           | Joined name (Inl message) \<Rightarrow> Some (ServiceFailed name message)
           | JoinFailed message \<Rightarrow> Some (ServicePanicked message)))"

fun drain_loop :: "join_result list \<Rightarrow> group_error option \<Rightarrow> running_services \<Rightarrow> group_error option \<times> running_services" where
  "drain_loop [] first r = (first, r)"
| "drain_loop (jr # jrs) first r = drain_loop jrs (note_result jr first) (r\<lparr>rv_count := rv_count r - 1\<rparr>)"

text \<open>\<open>jrs\<close> lists every task that is still in the set; the first \<open>k\<close> of them finish in time.\<close>

definition group_drain ::
  "nat \<Rightarrow> join_result list \<Rightarrow> group_error option \<Rightarrow> running_services \<Rightarrow> (group_error + unit) \<times> running_services" where
  "group_drain k jrs initial r =
     (let (first, r') = drain_loop (take k jrs) initial r in
      if k < length jrs then (Inl (GroupShutdownTimeout (rv_count r')), r')
      else (case first of None \<Rightarrow> Inr () | Some e \<Rightarrow> Inl e, r'))"

definition exit_failure :: "join_result \<Rightarrow> group_error" where
  "exit_failure jr =
     (case jr of
        Joined name (Inr _) \<Rightarrow> UnexpectedExit name
      | Joined name (Inl message) \<Rightarrow> ServiceFailed name message
      | JoinFailed message \<Rightarrow> ServicePanicked message)"

definition group_wait ::
  "bool \<Rightarrow> nat \<Rightarrow> join_result list \<Rightarrow> running_services \<Rightarrow> (group_error + unit) \<times> running_services" where
  "group_wait signal_first k jrs r =
     (if rv_requested r then group_drain k jrs None r
      else if signal_first then group_drain k jrs None (request_shutdown r)
      else case jrs of
        [] \<Rightarrow> (Inr (), r)
      | jr # rest \<Rightarrow>
          let r' = request_shutdown r in
          group_drain k rest (Some (exit_failure jr)) (r'\<lparr>rv_count := rv_count r' - 1\<rparr>))"

text \<open>
  \<open>wait_for_signal_from\<close>: the process signal arrives, with an error possibly, before the run is over, or
  it does not. Its arrival requests the shutdown; the run may already have been draining then.
\<close>

definition group_wait_for_signal ::
  "(string + unit) option \<Rightarrow> bool \<Rightarrow> nat \<Rightarrow> join_result list \<Rightarrow> running_services \<Rightarrow> (group_error + unit) \<times> running_services" where
  "group_wait_for_signal received signal_first k jrs r =
     (let (res, r') = group_wait signal_first k jrs r in
      case received of
        Some (Inl message) \<Rightarrow> (Inl (Signal message), request_shutdown r')
      | Some (Inr _) \<Rightarrow> (res, request_shutdown r')
      | None \<Rightarrow> (res, r'))"

section \<open>What a run reports\<close>

fun exited_ok :: "join_result \<Rightarrow> bool" where
  "exited_ok (Joined _ (Inr _)) = True"
| "exited_ok _ = False"

fun first_failure :: "join_result list \<Rightarrow> group_error option" where
  "first_failure [] = None"
| "first_failure (jr # jrs) = (if exited_ok jr then first_failure jrs else Some (exit_failure jr))"

lemma note_result_None: "note_result jr None = (if exited_ok jr then None else Some (exit_failure jr))"
  by (cases jr rule: exited_ok.cases) (auto simp: note_result_def exit_failure_def)

lemma note_result_Some [simp]: "note_result jr (Some e) = Some e"
  by (simp add: note_result_def)

lemma drain_loop_result:
  "drain_loop jrs first r =
     (case first of Some e \<Rightarrow> Some e | None \<Rightarrow> first_failure jrs, r\<lparr>rv_count := rv_count r - length jrs\<rparr>)"
  by (induction jrs first r rule: drain_loop.induct) (auto simp: note_result_None split: option.splits)

lemma first_failure_None: "first_failure jrs = None \<longleftrightarrow> (\<forall>jr \<in> set jrs. exited_ok jr)"
  by (induction jrs) auto

lemma group_drain_cases:
  "group_drain k jrs initial r =
     (if k < length jrs then Inl (GroupShutdownTimeout (rv_count r - k))
      else case initial of
        Some e \<Rightarrow> Inl e
      | None \<Rightarrow> (case first_failure jrs of None \<Rightarrow> Inr () | Some e \<Rightarrow> Inl e),
      r\<lparr>rv_count := rv_count r - min k (length jrs)\<rparr>)"
  by (auto simp: group_drain_def drain_loop_result min_def split: option.splits)

text \<open>
  What the supervisor reports. When the shutdown was requested before any service stopped, the run
  succeeds exactly when every service stops without an error before the timeout; otherwise it
  reports the first failure. When a service stops by itself, that service is reported, even when it stopped
  without an error. A drain that times out reports how many services are still running, in place of any
  failure. In every case the services have been told to stop.
\<close>

theorem service_group_outcome:
  assumes "group_start g = Inr r" "length jrs = length (sg_services g)"
  shows "case group_wait signal_first k jrs r of (res, r') \<Rightarrow>
     rv_requested r' \<and>
     (if signal_first
      then res =
        (if k < length jrs then Inl (GroupShutdownTimeout (length jrs - k))
         else case first_failure jrs of None \<Rightarrow> Inr () | Some e \<Rightarrow> Inl e)
      else res =
        (if k < length jrs - 1 then Inl (GroupShutdownTimeout (length jrs - 1 - k))
         else Inl (exit_failure (hd jrs)))) \<and>
     (res = Inr () \<longleftrightarrow> signal_first \<and> length jrs \<le> k \<and> (\<forall>jr \<in> set jrs. exited_ok jr))"
proof -
  have r: "\<not> rv_requested r" "rv_count r = length jrs" and ne: "jrs \<noteq> []"
    using assms by (auto simp: group_start_def split: if_splits)
  show ?thesis
  proof (cases signal_first)
    case True
    then show ?thesis using r
      by (auto simp: group_wait_def group_drain_cases request_shutdown_def first_failure_None [symmetric]
          split: option.split)
  next
    case False
    with ne r show ?thesis
      by (cases jrs) (auto simp: group_wait_def group_drain_cases request_shutdown_def Let_def)
  qed
qed

lemma signal_error_reported:
  "fst (group_wait_for_signal (Some (Inl m)) signal_first k jrs r) = Inl (Signal m)"
  by (simp add: group_wait_for_signal_def Let_def case_prod_beta)

text \<open>A service that fails is not reported when a sibling does not stop in time.\<close>

lemma failure_lost_on_timeout:
  "fst (group_wait False 0 [Joined ''a'' (Inl ''boom''), Joined ''b'' (Inr ())]
      \<lparr>rv_requested = False, rv_count = 2, rv_timeout = t\<rparr>) = Inl (GroupShutdownTimeout 1)"
  by (simp add: group_wait_def group_drain_cases request_shutdown_def Let_def)

section \<open>Witnesses\<close>

theorem service_group_outcome_witness:
  "\<exists>r. group_start \<lparr>sg_services = [''a'', ''b''], sg_timeout = 1\<rparr> = Inr r \<and>
     fst (group_wait True 2 [Joined ''b'' (Inr ()), Joined ''a'' (Inr ())] r) = Inr () \<and>
     fst (group_wait False 2 [Joined ''b'' (Inr ()), Joined ''a'' (Inr ())] r) = Inl (UnexpectedExit ''b'')"
proof -
  let ?g = "\<lparr>sg_services = [''a'', ''b''], sg_timeout = 1\<rparr>"
  let ?jrs = "[Joined ''b'' (Inr ()), Joined ''a'' (Inr ())]"
  obtain r where r: "group_start ?g = Inr r" by (simp add: group_start_def)
  have len: "length ?jrs = length (sg_services ?g)" by simp
  show ?thesis
    using r service_group_outcome [OF r len, of True 2] service_group_outcome [OF r len, of False 2]
    by (auto simp: exit_failure_def split: prod.splits)
qed

end
