(* ===== verification/Diagnostics.thy ===== *)
theory Diagnostics
  imports Rest_Middleware
begin

text \<open>
  Health, profiling and the internal observability server: \<open>core/src/health.rs\<close>, \<open>core/src/profile.rs\<close>
  and \<open>rest/src/devserver.rs\<close>. What an endpoint reports about the process (runtime, tasks, allocator,
  rendered metrics, a flame graph) and the parser of IP addresses are arguments.
\<close>

unbundle bit_operations_syntax

section \<open>Health registry\<close>

type_synonym health_snapshot = "(string, bool) bmap"

record health_registry =
  hr_state :: health_snapshot
  hr_published :: health_snapshot  \<comment> \<open>the value of the watch channel\<close>

definition health_new :: health_registry where
  "health_new = \<lparr>hr_state = [], hr_published = []\<rparr>"

definition is_ready :: "health_snapshot \<Rightarrow> bool" where
  "is_ready s = list_all snd s"

definition unhealthy :: "health_snapshot \<Rightarrow> string list" where
  "unhealthy s = map fst (filter (\<lambda>(_, ready). \<not> ready) s)"

definition health_set :: "string \<Rightarrow> bool \<Rightarrow> health_registry \<Rightarrow> health_registry" where
  "health_set name ready h = (let s = bt_put name ready (hr_state h) in h\<lparr>hr_state := s, hr_published := s\<rparr>)"

definition health_remove :: "string \<Rightarrow> health_registry \<Rightarrow> health_registry" where
  "health_remove name h = (let s = bt_del name (hr_state h) in h\<lparr>hr_state := s, hr_published := s\<rparr>)"

definition health_snapshot :: "health_registry \<Rightarrow> health_snapshot" where
  "health_snapshot h = hr_published h"

inductive health_reachable :: "health_registry \<Rightarrow> bool" where
  "health_reachable health_new"
| "health_reachable h \<Longrightarrow> health_reachable (health_set name ready h)"
| "health_reachable h \<Longrightarrow> health_reachable (health_remove name h)"

lemma health_inv: "health_reachable h \<Longrightarrow> bt_ok (hr_state h) \<and> hr_published h = hr_state h"
  by (induction rule: health_reachable.induct)
    (auto simp: health_new_def health_set_def health_remove_def Let_def bt.ok_empty bt.ok_put bt.ok_del)

lemma unhealthy_Nil: "unhealthy s = [] \<longleftrightarrow> is_ready s"
  by (auto simp: unhealthy_def is_ready_def list_all_iff filter_empty_conv)

lemma unhealthy_set: "bt_ok s \<Longrightarrow> set (unhealthy s) = {name. map_of s name = Some False}"
  using bt_ok_distinct [of s] by (force simp: unhealthy_def)

lemma is_ready_iff: "bt_ok s \<Longrightarrow> is_ready s \<longleftrightarrow> (\<forall>name. map_of s name \<noteq> Some False)"
  using unhealthy_set [of s] unhealthy_Nil [of s] by (metis (mono_tags) empty_Collect_eq set_empty)

section \<open>Profiler\<close>

record profile_slot =
  ps_lifetime_count :: nat
  ps_lifetime_duration :: duration
  ps_interval_count :: nat
  ps_interval_duration :: duration

definition profile_slot_default :: profile_slot where
  "profile_slot_default =
     \<lparr>ps_lifetime_count = 0, ps_lifetime_duration = 0, ps_interval_count = 0, ps_interval_duration = 0\<rparr>"

record profiler =
  pf_enabled :: bool
  pf_slots :: "(string, profile_slot) bmap"

definition profiler_new :: profiler where
  "profiler_new = \<lparr>pf_enabled = False, pf_slots = []\<rparr>"

definition profiler_enable :: "profiler \<Rightarrow> profiler" where
  "profiler_enable p = p\<lparr>pf_enabled := True\<rparr>"

definition profiler_disable :: "profiler \<Rightarrow> profiler" where
  "profiler_disable p = p\<lparr>pf_enabled := False\<rparr>"

definition slot_record :: "duration \<Rightarrow> profile_slot \<Rightarrow> profile_slot" where
  "slot_record d s =
     \<lparr>ps_lifetime_count = sat_add u64_max (ps_lifetime_count s) 1,
      ps_lifetime_duration = sat_add duration_max (ps_lifetime_duration s) d,
      ps_interval_count = sat_add u64_max (ps_interval_count s) 1,
      ps_interval_duration = sat_add duration_max (ps_interval_duration s) d\<rparr>"

definition slot_of :: "string \<Rightarrow> profiler \<Rightarrow> profile_slot" where
  "slot_of name p = (case map_of (pf_slots p) name of None \<Rightarrow> profile_slot_default | Some s \<Rightarrow> s)"

definition profile_record :: "string \<Rightarrow> duration \<Rightarrow> profiler \<Rightarrow> profiler" where
  "profile_record name d p =
     (if \<not> pf_enabled p then p
      else p\<lparr>pf_slots := bt_put name (slot_record d (slot_of name p)) (pf_slots p)\<rparr>)"

text \<open>A point started while profiling was disabled reports nothing.\<close>

definition profile_start :: "instant \<Rightarrow> profiler \<Rightarrow> instant option" where
  "profile_start now p = (if pf_enabled p then Some now else None)"

definition profile_report :: "string \<Rightarrow> instant option \<Rightarrow> instant \<Rightarrow> profiler \<Rightarrow> profiler" where
  "profile_report name point now p = (case point of None \<Rightarrow> p | Some t \<Rightarrow> profile_record name (now - t) p)"

definition slot_clear :: "profile_slot \<Rightarrow> profile_slot" where
  "slot_clear s = s\<lparr>ps_interval_count := 0, ps_interval_duration := 0\<rparr>"

definition profile_snapshot :: "profiler \<Rightarrow> (string \<times> profile_slot) list \<times> profiler" where
  "profile_snapshot p = (pf_slots p, p\<lparr>pf_slots := map (map_prod id slot_clear) (pf_slots p)\<rparr>)"

text \<open>The conversion back to a \<open>Duration\<close> panics when the quotient does not fit.\<close>

definition profile_average :: "duration \<Rightarrow> nat \<Rightarrow> duration option option" where
  "profile_average dur count =
     (if count > 0 then map_option Some (from_secs_f64 (f_div (as_secs_f64 dur) (f_nat count))) else Some None)"

section \<open>The observability server\<close>

datatype ip_addr = V4 nat nat nat nat | V6 "nat list"

fun is_private_address :: "ip_addr \<Rightarrow> bool" where
  "is_private_address (V4 a b c d) \<longleftrightarrow>
     a = 127 \<or>
     a = 10 \<or> (a = 172 \<and> 16 \<le> b \<and> b \<le> 31) \<or> (a = 192 \<and> b = 168) \<or>
     (a = 169 \<and> b = 254)"
| "is_private_address (V6 segments) \<longleftrightarrow>
     segments = [0, 0, 0, 0, 0, 0, 0, 1] \<or>
     (hd segments AND 0xfe00) = 0xfc00 \<or>
     (hd segments AND 0xffc0) = 0xfe80"

record dev_server_config =
  dv_enabled :: bool
  dv_host :: string
  dv_port :: nat
  dv_health_path :: string
  dv_metrics_path :: string
  dv_profile_path :: string
  dv_flamegraph_path :: string
  dv_runtime_path :: string
  dv_tasks_path :: string
  dv_allocator_path :: string
  dv_health_response :: string
  dv_enable_metrics :: bool
  dv_enable_profiling :: bool
  dv_enable_sampling :: bool
  dv_sampling_seconds :: nat
  dv_sampling_frequency :: int
  dv_auth_token :: "string option"
  dv_private_only :: bool

definition dev_server_default :: dev_server_config where
  "dev_server_default =
     \<lparr>dv_enabled = True, dv_host = [], dv_port = 6060, dv_health_path = ''/healthz'', dv_metrics_path = ''/metrics'',
      dv_profile_path = ''/debug/profile'', dv_flamegraph_path = ''/debug/flamegraph'',
      dv_runtime_path = ''/debug/runtime'', dv_tasks_path = ''/debug/tasks'',
      dv_allocator_path = ''/debug/allocator'', dv_health_response = ''OK'', dv_enable_metrics = True,
      dv_enable_profiling = True, dv_enable_sampling = False, dv_sampling_seconds = 10,
      dv_sampling_frequency = 99, dv_auth_token = None, dv_private_only = False\<rparr>"

definition dev_validate :: "(string \<Rightarrow> ip_addr option) \<Rightarrow> dev_server_config \<Rightarrow> string + unit" where
  "dev_validate parse_ip c =
     (if dv_sampling_seconds c = 0 \<or> dv_sampling_seconds c > 300
      then Inl ''sampling_seconds must be between 1 and 300''
      else if \<not> (1 \<le> dv_sampling_frequency c \<and> dv_sampling_frequency c \<le> 1000)
      then Inl ''sampling_frequency must be between 1 and 1000''
      else if dv_auth_token c = Some [] then Inl ''auth_token cannot be empty''
      else if dv_private_only c
      then (case parse_ip (dv_host c) of
          None \<Rightarrow> Inl ''private_only requires a literal private IP address''
        | Some ip \<Rightarrow>
            if is_private_address ip then Inr ()
            else Inl ''private_only rejects public or unspecified listener addresses'')
      else Inr ())"

record dev_server =
  ds_config :: dev_server_config
  ds_profiler :: profiler
  ds_health :: health_registry

definition dev_server_new :: "dev_server_config \<Rightarrow> profiler \<Rightarrow> dev_server" where
  "dev_server_new c p =
     \<lparr>ds_config = c, ds_profiler = (if dv_enable_profiling c then profiler_enable p else p), ds_health = health_new\<rparr>"

definition with_health_registry :: "health_registry \<Rightarrow> dev_server \<Rightarrow> dev_server" where
  "with_health_registry h s = s\<lparr>ds_health := h\<rparr>"

definition dev_routes :: "dev_server_config \<Rightarrow> string list" where
  "dev_routes c =
     [''/'', dv_health_path c] @
     (if dv_enable_metrics c then [dv_metrics_path c] else []) @
     (if dv_enable_profiling c then [dv_profile_path c] else []) @
     [dv_runtime_path c, dv_tasks_path c, dv_allocator_path c] @
     (if dv_enable_sampling c then [dv_flamegraph_path c] else [])"

text \<open>The comparison visits every byte of the longer text, whatever it finds.\<close>

definition byte_at :: "string \<Rightarrow> nat \<Rightarrow> nat" where
  "byte_at s i = (if i < length s then of_char (s ! i) else 0)"

definition constant_time_eq :: "string \<Rightarrow> string \<Rightarrow> bool" where
  "constant_time_eq left right =
     (foldl (\<lambda>difference index. difference OR (byte_at left index XOR byte_at right index))
        (length left XOR length right) [0..<max (length left) (length right)] = 0)"

definition dev_unauthorized :: http_response where
  "dev_unauthorized = \<lparr>hs_status = 401, hs_headers = [(''www-authenticate'', ''Bearer'')], hs_body = []\<rparr>"

text \<open>\<open>hdr\<close> is the \<open>Authorization\<close> header, when it is visible ASCII text.\<close>

definition dev_authorize :: "dev_server_config \<Rightarrow> string option \<Rightarrow> http_response + unit" where
  "dev_authorize c hdr =
     (case dv_auth_token c of
        None \<Rightarrow> Inr ()
      | Some expected \<Rightarrow>
          (case Option.bind hdr (strip_prefix ''Bearer '') of
             None \<Rightarrow> Inl dev_unauthorized
           | Some provided \<Rightarrow> if constant_time_eq provided expected then Inr () else Inl dev_unauthorized))"

definition typed_response :: "nat \<Rightarrow> string \<Rightarrow> string \<Rightarrow> http_response" where
  "typed_response status content_type text =
     \<lparr>hs_status = status, hs_headers = [(''content-type'', content_type)], hs_body = [Chunk text]\<rparr>"

definition health_response :: "dev_server_config \<Rightarrow> health_snapshot \<Rightarrow> http_response" where
  "health_response c h =
     (let status = (if is_ready h then 200 else 503);
          text = (if is_ready h then dv_health_response c else ''NOT READY: '' @ join_with '','' (unhealthy h)) in
      typed_response status ''text/plain; charset=utf-8'' text)"

text \<open>What the process and the rendering libraries contribute to the answers.\<close>

record dev_reports =
  dr_routes :: "string list \<Rightarrow> string"
  dr_runtime :: string
  dr_tasks :: string
  dr_allocator :: string
  dr_metrics :: string
  dr_profile :: "(string \<times> profile_slot) list \<Rightarrow> string"
  dr_flamegraph :: http_response

text \<open>
  The endpoints in the order \<open>configure\<close> registers them, of which the first whose path matches answers.
  Only the profile endpoint changes state: rendering its report begins a new interval.
\<close>

datatype endpoint = Index | Health | Runtime | Tasks | Allocator | MetricsEndpoint | Profile | Flamegraph

definition dev_endpoints :: "dev_server_config \<Rightarrow> (string \<times> endpoint) list" where
  "dev_endpoints c =
     [(''/'', Index), (dv_health_path c, Health), (dv_runtime_path c, Runtime), (dv_tasks_path c, Tasks),
      (dv_allocator_path c, Allocator)] @
     (if dv_enable_metrics c then [(dv_metrics_path c, MetricsEndpoint)] else []) @
     (if dv_enable_profiling c then [(dv_profile_path c, Profile)] else []) @
     (if dv_enable_sampling c then [(dv_flamegraph_path c, Flamegraph)] else [])"

definition dev_answer :: "dev_reports \<Rightarrow> endpoint \<Rightarrow> dev_server \<Rightarrow> http_response \<times> dev_server" where
  "dev_answer r e s =
     (let json = typed_response 200 ''application/json'' in
      case e of
        Index \<Rightarrow> (json (dr_routes r (dev_routes (ds_config s))), s)
      | Health \<Rightarrow> (health_response (ds_config s) (health_snapshot (ds_health s)), s)
      | Runtime \<Rightarrow> (json (dr_runtime r), s)
      | Tasks \<Rightarrow> (json (dr_tasks r), s)
      | Allocator \<Rightarrow> (json (dr_allocator r), s)
      | MetricsEndpoint \<Rightarrow> (typed_response 200 ''text/plain; version=0.0.4; charset=utf-8'' (dr_metrics r), s)
      | Profile \<Rightarrow>
          let (snap, p) = profile_snapshot (ds_profiler s) in
          (typed_response 200 ''text/plain; charset=utf-8'' (dr_profile r snap), s\<lparr>ds_profiler := p\<rparr>)
      | Flamegraph \<Rightarrow> (dr_flamegraph r, s))"

text \<open>A \<open>GET\<close> request; \<open>None\<close> when no endpoint has its path.\<close>

definition dev_get :: "dev_reports \<Rightarrow> string \<Rightarrow> string option \<Rightarrow> dev_server \<Rightarrow> (http_response \<times> dev_server) option" where
  "dev_get r path hdr s =
     (case map_of (dev_endpoints (ds_config s)) path of
        None \<Rightarrow> None
      | Some e \<Rightarrow>
          (case dev_authorize (ds_config s) hdr of
             Inl response \<Rightarrow> Some (response, s)
           | Inr _ \<Rightarrow> Some (dev_answer r e s)))"

section \<open>Every endpoint is guarded\<close>

lemma xor_nat_eq_0: "(a XOR b = 0) \<longleftrightarrow> a = (b :: nat)"
proof
  assume "a XOR b = 0"
  then have "\<forall>n. bit (a XOR b) n = bit 0 n" by simp
  then have "\<forall>n. bit a n = bit b n" by (simp add: bit_xor_iff)
  then show "a = b" by (simp add: bit_eq_iff)
qed simp

lemma foldl_or_eq_0: "foldl (\<lambda>d i. d OR f i) d is = 0 \<longleftrightarrow> d = 0 \<and> (\<forall>i \<in> set is. f i = (0 :: nat))"
  by (induction "is" arbitrary: d) (auto simp: or_eq_0_iff)

lemma byte_at_inj: "byte_at l i = byte_at r i \<Longrightarrow> i < length l \<Longrightarrow> i < length r \<Longrightarrow> l ! i = r ! i"
  by (simp add: byte_at_def)

lemma constant_time_eq_iff: "constant_time_eq left right \<longleftrightarrow> left = right"
proof
  assume "constant_time_eq left right"
  then have "length left = length right" "\<forall>i < length left. byte_at left i = byte_at right i"
    by (auto simp: constant_time_eq_def foldl_or_eq_0 xor_nat_eq_0)
  then show "left = right" by (intro nth_equalityI) (auto intro: byte_at_inj)
qed (unfold constant_time_eq_def foldl_or_eq_0 xor_nat_eq_0, simp)

lemma dev_authorize_iff:
  "dev_authorize c hdr = Inr () \<longleftrightarrow> (\<forall>token. dv_auth_token c = Some token \<longrightarrow> hdr = Some (''Bearer '' @ token))"
  by (cases hdr) (auto simp: dev_authorize_def constant_time_eq_iff strip_prefix_eq strip_prefix_None split: option.splits)

lemma dev_authorize_Inl: "dev_authorize c hdr = Inl x \<Longrightarrow> x = dev_unauthorized"
  by (auto simp: dev_authorize_def split: option.splits if_splits)

text \<open>
  Every diagnostic endpoint is guarded by the configured token. A request to an endpoint is answered
  with its report exactly when no token is configured or the request carries exactly that token; any other
  request to it gets the bare 401 challenge and changes nothing. The health endpoint then answers 200 exactly when
  every registered dependency is ready.
\<close>

theorem dev_endpoints_guarded:
  assumes "map_of (dev_endpoints (ds_config s)) path = Some e"
  shows "dev_get r path hdr s =
     Some (if \<forall>token. dv_auth_token (ds_config s) = Some token \<longrightarrow> hdr = Some (''Bearer '' @ token)
           then dev_answer r e s else (dev_unauthorized, s)) \<and>
     (health_reachable (ds_health s) \<longrightarrow>
        (hs_status (fst (dev_answer r Health s)) = 200 \<longleftrightarrow>
           (\<forall>name. map_of (hr_state (ds_health s)) name \<noteq> Some False)))"
proof
  show "dev_get r path hdr s =
     Some (if \<forall>token. dv_auth_token (ds_config s) = Some token \<longrightarrow> hdr = Some (''Bearer '' @ token)
           then dev_answer r e s else (dev_unauthorized, s))"
    using assms dev_authorize_iff [of "ds_config s" hdr] dev_authorize_Inl [of "ds_config s" hdr]
    by (cases "dev_authorize (ds_config s) hdr") (auto simp: dev_get_def)
next
  show "health_reachable (ds_health s) \<longrightarrow>
        (hs_status (fst (dev_answer r Health s)) = 200 \<longleftrightarrow>
           (\<forall>name. map_of (hr_state (ds_health s)) name \<noteq> Some False))"
    using health_inv [of "ds_health s"] is_ready_iff [of "hr_state (ds_health s)"]
    by (auto simp: dev_answer_def health_response_def typed_response_def health_snapshot_def Let_def)
qed

lemma dev_routes_registered: "set (dev_routes c) = fst ` set (dev_endpoints c)"
  by (auto simp: dev_routes_def dev_endpoints_def)

section \<open>Reporting intervals\<close>

text \<open>A profiler's history: what was recorded, and the snapshots taken.\<close>

datatype profile_op = Enable | Disable | Record string duration | Snapshot

fun profile_run :: "profile_op list \<Rightarrow> profiler \<Rightarrow> (string \<times> profile_slot) list list \<times> profiler" where
  "profile_run [] p = ([], p)"
| "profile_run (Enable # ops) p = profile_run ops (profiler_enable p)"
| "profile_run (Disable # ops) p = profile_run ops (profiler_disable p)"
| "profile_run (Record name d # ops) p = profile_run ops (profile_record name d p)"
| "profile_run (Snapshot # ops) p =
     (let (snap, p') = profile_snapshot p; (snaps, p'') = profile_run ops p' in (snap # snaps, p''))"

definition snap_slot :: "string \<Rightarrow> (string \<times> profile_slot) list \<Rightarrow> profile_slot" where
  "snap_slot name snap = (case map_of snap name of None \<Rightarrow> profile_slot_default | Some s \<Rightarrow> s)"

fun recorded :: "string \<Rightarrow> bool \<Rightarrow> profile_op list \<Rightarrow> duration list" where
  "recorded name on [] = []"
| "recorded name on (Enable # ops) = recorded name True ops"
| "recorded name on (Disable # ops) = recorded name False ops"
| "recorded name on (Record n d # ops) = (if on \<and> n = name then d # recorded name on ops else recorded name on ops)"
| "recorded name on (Snapshot # ops) = recorded name on ops"

definition slot_plus :: "profile_slot \<Rightarrow> duration list \<Rightarrow> bool" where
  "slot_plus s ds \<longleftrightarrow>
     ps_lifetime_count s + length ds \<le> u64_max \<and> ps_lifetime_duration s + sum_list ds \<le> duration_max \<and>
     ps_interval_count s \<le> ps_lifetime_count s \<and> ps_interval_duration s \<le> ps_lifetime_duration s"

lemma slot_of_record:
  "slot_of name (profile_record n d p) =
     (if pf_enabled p \<and> n = name then slot_record d (slot_of name p) else slot_of name p)"
  by (simp add: profile_record_def slot_of_def map_of_bt_put)

lemma profile_record_enabled [simp]: "pf_enabled (profile_record n d p) = pf_enabled p"
  by (simp add: profile_record_def)

lemma slot_of_toggle [simp]:
  "slot_of name (profiler_enable p) = slot_of name p" "slot_of name (profiler_disable p) = slot_of name p"
  "pf_enabled (profiler_enable p)" "\<not> pf_enabled (profiler_disable p)"
  by (simp_all add: slot_of_def profiler_enable_def profiler_disable_def)

lemma slot_of_snapshot:
  shows "snap_slot name (fst (profile_snapshot p)) = slot_of name p"
    and "slot_of name (snd (profile_snapshot p)) = slot_clear (slot_of name p)"
    and "pf_enabled (snd (profile_snapshot p)) = pf_enabled p"
proof -
  have "map_of (map (map_prod id slot_clear) m) name = map_option slot_clear (map_of m name)" for m
    by (induction m) auto
  then show "slot_of name (snd (profile_snapshot p)) = slot_clear (slot_of name p)"
    by (auto simp: profile_snapshot_def slot_of_def slot_clear_def profile_slot_default_def split: option.splits)
qed (simp_all add: snap_slot_def slot_of_def profile_snapshot_def)

lemma slot_record_exact:
  assumes "slot_plus s (d # ds)"
  shows "slot_plus (slot_record d s) ds" "ps_lifetime_count (slot_record d s) = ps_lifetime_count s + 1"
    "ps_lifetime_duration (slot_record d s) = ps_lifetime_duration s + d"
    "ps_interval_count (slot_record d s) = ps_interval_count s + 1"
    "ps_interval_duration (slot_record d s) = ps_interval_duration s + d"
  using assms by (auto simp: slot_plus_def slot_record_def sat_add_def)

lemma profile_run_slot:
  "slot_plus (slot_of name p) (recorded name (pf_enabled p) ops) \<Longrightarrow> profile_run ops p = (snaps, p') \<Longrightarrow>
   ps_lifetime_count (slot_of name p') = ps_lifetime_count (slot_of name p) + length (recorded name (pf_enabled p) ops) \<and>
   ps_lifetime_duration (slot_of name p') = ps_lifetime_duration (slot_of name p) + sum_list (recorded name (pf_enabled p) ops) \<and>
   sum_list (map (ps_interval_count \<circ> snap_slot name) snaps) + ps_interval_count (slot_of name p') =
     ps_interval_count (slot_of name p) + length (recorded name (pf_enabled p) ops) \<and>
   sum_list (map (ps_interval_duration \<circ> snap_slot name) snaps) + ps_interval_duration (slot_of name p') =
     ps_interval_duration (slot_of name p) + sum_list (recorded name (pf_enabled p) ops)"
proof (induction ops p arbitrary: snaps rule: profile_run.induct)
  case (4 n d ops p)
  show ?case
  proof (cases "pf_enabled p \<and> n = name")
    case True
    with 4 have ex: "slot_plus (slot_of name p) (d # recorded name True ops)" by simp
    note e = slot_record_exact [OF ex]
    from 4(1) [of snaps] 4(3) True e show ?thesis by (simp add: slot_of_record)
  next
    case False
    with 4 show ?thesis by (auto simp: slot_of_record)
  qed
next
  case (5 ops p)
  obtain snap q where s: "profile_snapshot p = (snap, q)" by (cases "profile_snapshot p")
  obtain rest where r: "profile_run ops q = (rest, p')" "snaps = snap # rest"
    using 5(3) s by (auto split: prod.splits)
  note sn = slot_of_snapshot(1,2) [of name p, unfolded s fst_conv snd_conv]
    slot_of_snapshot(3) [of p, unfolded s fst_conv snd_conv]
  have "slot_plus (slot_of name q) (recorded name (pf_enabled q) ops)"
    using 5(2) sn by (auto simp: slot_plus_def slot_clear_def)
  from 5(1) [OF s [symmetric] refl this r(1)] sn r(2) show ?case by (simp add: slot_clear_def)
qed simp_all

text \<open>
  The profiler's intervals partition its lifetime. Starting from a new profiler, after any operations the
  lifetime totals of a name are the number and the sum of the durations recorded for it while
  profiling was enabled, and they are the totals of the intervals of the snapshots taken plus the current
  interval: a snapshot loses nothing and counts nothing twice.
\<close>

theorem profile_intervals_partition:
  assumes "profile_run ops profiler_new = (snaps, p)"
    and "length (recorded name False ops) \<le> u64_max" "sum_list (recorded name False ops) \<le> duration_max"
  shows "ps_lifetime_count (slot_of name p) = length (recorded name False ops) \<and>
    ps_lifetime_duration (slot_of name p) = sum_list (recorded name False ops) \<and>
    sum_list (map (ps_interval_count \<circ> snap_slot name) snaps) + ps_interval_count (slot_of name p) =
      ps_lifetime_count (slot_of name p) \<and>
    sum_list (map (ps_interval_duration \<circ> snap_slot name) snaps) + ps_interval_duration (slot_of name p) =
      ps_lifetime_duration (slot_of name p)"
proof -
  have new: "slot_of name profiler_new = profile_slot_default" "\<not> pf_enabled profiler_new"
    by (simp_all add: slot_of_def profiler_new_def)
  then have "slot_plus (slot_of name profiler_new) (recorded name (pf_enabled profiler_new) ops)"
    using assms by (simp add: slot_plus_def profile_slot_default_def)
  from profile_run_slot [OF this assms(1)] new show ?thesis by (simp add: profile_slot_default_def)
qed

section \<open>Witnesses\<close>

theorem dev_endpoints_guarded_witness:
  "\<forall>r. dev_get r ''/healthz'' (Some ''Bearer s3'')
        (dev_server_new (dev_server_default\<lparr>dv_auth_token := Some ''s3''\<rparr>) profiler_new) =
      Some (typed_response 200 ''text/plain; charset=utf-8'' ''OK'',
        dev_server_new (dev_server_default\<lparr>dv_auth_token := Some ''s3''\<rparr>) profiler_new)"
proof
  fix r
  let ?s = "dev_server_new (dev_server_default\<lparr>dv_auth_token := Some ''s3''\<rparr>) profiler_new"
  have "map_of (dev_endpoints (ds_config ?s)) ''/healthz'' = Some Health"
    by (simp add: dev_endpoints_def dev_server_new_def dev_server_default_def)
  from dev_endpoints_guarded [OF this, of r "Some ''Bearer s3''"]
  show "dev_get r ''/healthz'' (Some ''Bearer s3'') ?s = Some (typed_response 200 ''text/plain; charset=utf-8'' ''OK'', ?s)"
    by (simp add: dev_server_new_def dev_server_default_def dev_answer_def health_response_def health_snapshot_def
        health_new_def is_ready_def Let_def)
qed

theorem profile_intervals_partition_witness:
  "\<exists>snaps p. profile_run [Enable, Record ''a'' 3, Snapshot, Record ''a'' 4] profiler_new = (snaps, p) \<and>
     ps_lifetime_duration (slot_of ''a'' p) = 7"
proof -
  obtain snaps p where run: "profile_run [Enable, Record ''a'' 3, Snapshot, Record ''a'' 4] profiler_new = (snaps, p)"
    by (cases "profile_run [Enable, Record ''a'' 3, Snapshot, Record ''a'' 4] profiler_new")
  from profile_intervals_partition [OF run, of "''a''"] run show ?thesis
    by (simp add: u64_max_def duration_max_def nanos_per_sec_def)
qed

end
