(* ===== verification/Broadcast.thy ===== *)
theory Broadcast
  imports Prelude
begin

text \<open>
  The broadcast channel of the runtime, which the brokers and event streams are built on. The channel is
  the messages sent so far, the number of receivers and, per receiver, the position of the next
  message. It keeps as many messages as its capacity rounded up to a power of two; a receiver that has
  fallen further behind is told how many messages it missed and continues with the oldest one kept. A
  message sent when nobody listens is not kept.
\<close>

record 'm channel =
  ch_kept :: nat
  ch_sent :: "'m list"
  ch_receivers :: nat

text \<open>\<open>next_power_of_two\<close>.\<close>

function round_up :: "nat \<Rightarrow> nat \<Rightarrow> nat" where
  "round_up p n = (if p = 0 \<or> n \<le> p then p else round_up (2 * p) n)"
  by pat_completeness auto

termination
  by (relation "measure (\<lambda>(p, n). n - p)") auto

declare round_up.simps [simp del]

definition channel_new :: "nat \<Rightarrow> 'm channel" where
  "channel_new capacity = \<lparr>ch_kept = round_up 1 capacity, ch_sent = [], ch_receivers = 0\<rparr>"

definition channel_subscribe :: "'m channel \<Rightarrow> nat \<times> 'm channel" where
  "channel_subscribe c = (length (ch_sent c), c\<lparr>ch_receivers := ch_receivers c + 1\<rparr>)"

definition channel_leave :: "'m channel \<Rightarrow> 'm channel" where
  "channel_leave c = c\<lparr>ch_receivers := ch_receivers c - 1\<rparr>"

definition channel_send :: "'m \<Rightarrow> 'm channel \<Rightarrow> nat \<times> 'm channel" where
  "channel_send m c =
     (if ch_receivers c = 0 then (0, c) else (ch_receivers c, c\<lparr>ch_sent := ch_sent c @ [m]\<rparr>))"

datatype 'm received = Message 'm | Lagged nat

text \<open>One \<open>recv\<close> at position \<open>n\<close>; \<open>None\<close> while it waits.\<close>

definition channel_recv :: "'m channel \<Rightarrow> nat \<Rightarrow> 'm received option \<times> nat" where
  "channel_recv c n =
     (let oldest = length (ch_sent c) - ch_kept c in
      if n < oldest then (Some (Lagged (oldest - n)), oldest)
      else if n < length (ch_sent c) then (Some (Message (ch_sent c ! n)), n + 1)
      else (None, n))"

text \<open>What a receiver reads when it reads until it would wait.\<close>

function channel_read :: "'m channel \<Rightarrow> nat \<Rightarrow> 'm received list" where
  "channel_read c n = (case channel_recv c n of (None, _) \<Rightarrow> [] | (Some r, n') \<Rightarrow> r # channel_read c n')"
  by pat_completeness auto

termination
  by (relation "measure (\<lambda>(c, n). length (ch_sent c) - n)") (auto simp: channel_recv_def Let_def split: if_splits)

declare channel_read.simps [simp del]

lemma round_up_ge: "0 < p \<Longrightarrow> n \<le> round_up p n \<and> 0 < round_up p n"
proof (induction p n rule: round_up.induct)
  case (1 p n)
  then show ?case by (simp add: round_up.simps [of p n])
qed

lemma channel_new_kept: "capacity \<le> ch_kept (channel_new capacity)" "0 < ch_kept (channel_new capacity)"
  using round_up_ge [of 1 capacity] by (simp_all add: channel_new_def)

lemma channel_recv_Message:
  "channel_recv c n = (Some (Message m), n') \<longleftrightarrow>
   length (ch_sent c) - ch_kept c \<le> n \<and> n < length (ch_sent c) \<and> m = ch_sent c ! n \<and> n' = n + 1"
  by (auto simp: channel_recv_def Let_def)

lemma channel_recv_Lagged:
  "channel_recv c n = (Some (Lagged k), n') \<longleftrightarrow>
   n < length (ch_sent c) - ch_kept c \<and> n' = length (ch_sent c) - ch_kept c \<and> k = n' - n"
  by (auto simp: channel_recv_def Let_def)

lemma channel_recv_None: "channel_recv c n = (None, n') \<longleftrightarrow> length (ch_sent c) \<le> n \<and> n' = n"
  by (auto simp: channel_recv_def Let_def)

lemmas channel_recv_iffs = channel_recv_Message channel_recv_Lagged channel_recv_None

lemma channel_read_kept:
  "length (ch_sent c) - ch_kept c \<le> n \<Longrightarrow> channel_read c n = map Message (drop n (ch_sent c))"
proof (induction c n rule: channel_read.induct)
  case (1 c n)
  show ?case
  proof (cases "n < length (ch_sent c)")
    case True
    then have r: "channel_recv c n = (Some (Message (ch_sent c ! n)), n + 1)"
      using 1(2) by (simp add: channel_recv_Message)
    from 1(1) [OF r [symmetric] refl] 1(2) have "channel_read c (n + 1) = map Message (drop (n + 1) (ch_sent c))" by simp
    then show ?thesis using Cons_nth_drop_Suc [OF True, symmetric] by (simp add: channel_read.simps [of c n] r)
  next
    case False
    then have "channel_recv c n = (None, n)" by (simp add: channel_recv_None)
    with False show ?thesis by (simp add: channel_read.simps [of c n])
  qed
qed

text \<open>A receiver reads everything sent since its position, or how many messages it missed and all that is kept.\<close>

lemma channel_read_all:
  "channel_read c n =
     (let missed = length (ch_sent c) - ch_kept c - n in
      (if missed = 0 then [] else [Lagged missed]) @ map Message (drop (n + missed) (ch_sent c)))"
proof (cases "length (ch_sent c) - ch_kept c \<le> n")
  case True
  then show ?thesis by (simp add: channel_read_kept)
next
  case False
  let ?oldest = "length (ch_sent c) - ch_kept c"
  have "channel_recv c n = (Some (Lagged (?oldest - n)), ?oldest)" using False by (simp add: channel_recv_Lagged)
  then have "channel_read c n = Lagged (?oldest - n) # channel_read c ?oldest" by (simp add: channel_read.simps [of c n])
  then show ?thesis using False by (simp add: channel_read_kept)
qed

end
