(* ===== verification/Pubsub.thy ===== *)
theory Pubsub
  imports Broadcast
begin

text \<open>
  The topic broker of \<open>core/src/pubsub.rs\<close>: one broadcast channel per topic, created by the first
  subscription or publication.
\<close>

record ('t, 'm) broker =
  br_capacity :: nat
  br_topics :: "('t, 'm channel) hmap"

record 't subscription =
  su_topic :: 't
  su_next :: nat

definition broker_new :: "nat \<Rightarrow> ('t, 'm) broker option" where
  "broker_new capacity = (if capacity > 0 then Some \<lparr>br_capacity = capacity, br_topics = []\<rparr> else None)"

definition topic_of :: "'t \<Rightarrow> ('t, 'm) broker \<Rightarrow> 'm channel" where
  "topic_of t b = (case map_of (br_topics b) t of None \<Rightarrow> channel_new (br_capacity b) | Some c \<Rightarrow> c)"

definition put_topic :: "'t \<Rightarrow> 'm channel \<Rightarrow> ('t, 'm) broker \<Rightarrow> ('t, 'm) broker" where
  "put_topic t c b = b\<lparr>br_topics := AList.update t c (br_topics b)\<rparr>"

definition subscribe :: "'t \<Rightarrow> ('t, 'm) broker \<Rightarrow> 't subscription \<times> ('t, 'm) broker" where
  "subscribe t b =
     (let (n, c) = channel_subscribe (topic_of t b) in (\<lparr>su_topic = t, su_next = n\<rparr>, put_topic t c b))"

definition publish :: "'t \<Rightarrow> 'm \<Rightarrow> ('t, 'm) broker \<Rightarrow> nat \<times> ('t, 'm) broker" where
  "publish t m b = (let (n, c) = channel_send m (topic_of t b) in (n, put_topic t c b))"

definition subscriber_count :: "'t \<Rightarrow> ('t, 'm) broker \<Rightarrow> nat" where
  "subscriber_count t b = (case map_of (br_topics b) t of None \<Rightarrow> 0 | Some c \<Rightarrow> ch_receivers c)"

definition subscription_drop :: "'t subscription \<Rightarrow> ('t, 'm) broker \<Rightarrow> ('t, 'm) broker" where
  "subscription_drop s b = put_topic (su_topic s) (channel_leave (topic_of (su_topic s) b)) b"

definition recv :: "('t, 'm) broker \<Rightarrow> 't subscription \<Rightarrow> 'm received option \<times> 't subscription" where
  "recv b s = (let (r, n) = channel_recv (topic_of (su_topic s) b) (su_next s) in (r, s\<lparr>su_next := n\<rparr>))"

text \<open>What a subscriber reads when it calls \<open>recv\<close> until it would wait.\<close>

function recv_all :: "('t, 'm) broker \<Rightarrow> 't subscription \<Rightarrow> 'm received list" where
  "recv_all b s = (case recv b s of (None, _) \<Rightarrow> [] | (Some r, s') \<Rightarrow> r # recv_all b s')"
  by pat_completeness auto

termination
  by (relation "measure (\<lambda>(b, s). length (ch_sent (topic_of (su_topic s) b)) - su_next s)")
    (auto simp: recv_def channel_recv_def Let_def split: if_splits)

declare recv_all.simps [simp del]

section \<open>Delivery\<close>

lemma recv_all_channel: "recv_all b s = channel_read (topic_of (su_topic s) b) (su_next s)"
proof (induction b s rule: recv_all.induct)
  case (1 b s)
  show ?case
  proof (cases "channel_recv (topic_of (su_topic s) b) (su_next s)")
    case (Pair r n)
    show ?thesis
    proof (cases r)
      case None
      then show ?thesis using Pair by (simp add: recv_all.simps [of b s] channel_read.simps recv_def)
    next
      case (Some x)
      have "recv b s = (Some x, s\<lparr>su_next := n\<rparr>)" using Pair Some by (simp add: recv_def)
      with 1 [OF this [symmetric] refl] show ?thesis
        using Pair Some by (simp add: recv_all.simps [of b s] channel_read.simps [of _ "su_next s"])
    qed
  qed
qed

lemma topic_of_put [simp]: "topic_of t (put_topic t' c b) = (if t = t' then c else topic_of t b)"
  by (simp add: topic_of_def put_topic_def update_conv' split: option.split)

fun publish_all :: "('t \<times> 'm) list \<Rightarrow> ('t, 'm) broker \<Rightarrow> ('t, 'm) broker" where
  "publish_all [] b = b"
| "publish_all ((t, m) # ps) b = publish_all ps (snd (publish t m b))"

definition on_topic :: "'t \<Rightarrow> ('t \<times> 'm) list \<Rightarrow> 'm list" where
  "on_topic t ps = map snd (filter (\<lambda>(t', _). t' = t) ps)"

lemma publish_all_topic:
  "ch_receivers (topic_of t b) > 0 \<Longrightarrow>
   ch_sent (topic_of t (publish_all ps b)) = ch_sent (topic_of t b) @ on_topic t ps \<and>
   ch_kept (topic_of t (publish_all ps b)) = ch_kept (topic_of t b)"
  by (induction ps b rule: publish_all.induct) (auto simp: publish_def channel_send_def Let_def on_topic_def)

text \<open>
  A subscriber reads exactly the messages published on its topic after it subscribed, in order. When
  more were published than the channel keeps, it is told exactly how many it missed and reads the
  rest; a topic created by the broker keeps at least the broker's capacity. Messages of other topics
  never reach it.
\<close>

theorem broker_delivery:
  assumes "subscribe t b = (s, b1)"
  shows "recv_all (publish_all ps b1) s =
      (let ms = on_topic t ps; missed = length ms - ch_kept (topic_of t b) in
       (if missed = 0 then [] else [Lagged missed]) @ map Message (drop missed ms)) \<and>
     (map_of (br_topics b) t = None \<longrightarrow> br_capacity b \<le> ch_kept (topic_of t b))"
proof -
  have s: "su_topic s = t" "su_next s = length (ch_sent (topic_of t b))"
    and b1: "ch_sent (topic_of t b1) = ch_sent (topic_of t b)" "ch_receivers (topic_of t b1) > 0"
      "ch_kept (topic_of t b1) = ch_kept (topic_of t b)"
    using assms by (auto simp: subscribe_def channel_subscribe_def Let_def)
  have "map_of (br_topics b) t = None \<longrightarrow> br_capacity b \<le> ch_kept (topic_of t b)"
    by (simp add: topic_of_def channel_new_kept(1))
  then show ?thesis using s b1 publish_all_topic [OF b1(2), of ps]
    by (simp add: recv_all_channel channel_read_all Let_def)
qed

section \<open>Witnesses\<close>

theorem broker_delivery_witness:
  "\<exists>b s b1. broker_new 1 = Some b \<and> subscribe (0 :: nat) b = (s, b1) \<and>
     recv_all (publish_all [(0, 1 :: nat), (5, 8), (0, 2), (0, 3)] b1) s = [Lagged 2, Message 3]"
proof -
  obtain b :: "(nat, nat) broker" where b: "broker_new 1 = Some b" by (simp add: broker_new_def)
  obtain s b1 where s: "subscribe (0 :: nat) b = (s, b1)" by (cases "subscribe (0 :: nat) b")
  have "ch_kept (topic_of 0 b) = 1" using b by (auto simp: broker_new_def topic_of_def channel_new_def round_up.simps)
  with broker_delivery [OF s, of "[(0, 1), (5, 8), (0, 2), (0, 3)]"] b s show ?thesis
    by (simp add: on_topic_def)
qed

end
