(* ===== verification/Validation.thy ===== *)
theory Validation
  imports Prelude
begin

text \<open>
  The accumulating validator of \<open>core/src/validation.rs\<close>. How a value is displayed is an argument of the
  checks that put values into their messages.
\<close>

record violation =
  vi_field :: string
  vi_code :: string
  vi_message :: string

type_synonym validation = "violation list"

definition validation_new :: validation where
  "validation_new = []"

definition check :: "string \<Rightarrow> bool \<Rightarrow> string \<Rightarrow> string \<Rightarrow> validation \<Rightarrow> validation" where
  "check field cond code message v =
     (if cond then v else v @ [\<lparr>vi_field = field, vi_code = code, vi_message = message\<rparr>])"

definition required :: "string \<Rightarrow> string \<Rightarrow> validation \<Rightarrow> validation" where
  "required field v = check field (\<not> is_blank v) ''required'' ''must not be empty''"

text \<open>\<open>chars().count()\<close>: the bytes of a UTF-8 text that do not continue a code point.\<close>

definition char_count :: "string \<Rightarrow> nat" where
  "char_count s = length (filter (\<lambda>c. \<not> (128 \<le> (of_char c :: nat) \<and> (of_char c :: nat) \<le> 191)) s)"

definition length_between :: "string \<Rightarrow> string \<Rightarrow> nat \<Rightarrow> nat \<Rightarrow> validation \<Rightarrow> validation" where
  "length_between field v lo hi =
     check field (lo \<le> char_count v \<and> char_count v \<le> hi) ''length''
       (''length must be between '' @ show_nat lo @ '' and '' @ show_nat hi)"

definition range_check :: "('t::ord \<Rightarrow> string) \<Rightarrow> string \<Rightarrow> 't \<Rightarrow> 't \<Rightarrow> 't \<Rightarrow> validation \<Rightarrow> validation" where
  "range_check display field v lo hi =
     check field (lo \<le> v \<and> v \<le> hi) ''range'' (''must be between '' @ display lo @ '' and '' @ display hi)"

definition one_of :: "('t \<Rightarrow> string) \<Rightarrow> string \<Rightarrow> 't \<Rightarrow> 't list \<Rightarrow> validation \<Rightarrow> validation" where
  "one_of display field v allowed =
     check field (v \<in> set allowed) ''one_of'' (''must be one of ['' @ join_with '', '' (map display allowed) @ '']'')"

definition validation_finish :: "validation \<Rightarrow> violation list + unit" where
  "validation_finish v = (if v = [] then Inr () else Inl v)"

definition violation_text :: "violation \<Rightarrow> string" where
  "violation_text x = vi_field x @ '': '' @ vi_message x @ '' ('' @ vi_code x @ '')''"

definition errors_text :: "violation list \<Rightarrow> string" where
  "errors_text vs = join_with ''; '' (map violation_text vs)"

section \<open>Nothing stops the accumulation\<close>

datatype check_call = CheckCall string bool string string

fun run_checks :: "check_call list \<Rightarrow> validation \<Rightarrow> validation" where
  "run_checks [] v = v"
| "run_checks (CheckCall f c code m # cs) v = run_checks cs (check f c code m v)"

fun violation_of :: "check_call \<Rightarrow> violation" where
  "violation_of (CheckCall f c code m) = \<lparr>vi_field = f, vi_code = code, vi_message = m\<rparr>"

fun holds :: "check_call \<Rightarrow> bool" where
  "holds (CheckCall f c code m) = c"

lemma run_checks_violations: "run_checks cs v = v @ map violation_of (filter (\<lambda>c. \<not> holds c) cs)"
  by (induction cs v rule: run_checks.induct) (auto simp: check_def)

lemma validation_reports_all:
  "validation_finish (run_checks cs validation_new) =
     (if list_all holds cs then Inr () else Inl (map violation_of (filter (\<lambda>c. \<not> holds c) cs)))"
  by (auto simp: run_checks_violations validation_finish_def validation_new_def list_all_iff filter_empty_conv)

end
