(* ===== verification/Mcp.thy ===== *)
theory Mcp
  imports Response Broadcast
begin

text \<open>
  The Model Context Protocol server of \<open>mcp/src/lib.rs\<close>: configuration, the registry of tools, resources and
  prompts, dispatch of JSON-RPC methods, sessions with their event streams, and the HTTP handlers of both
  transports. A handler that waits for the application is its part before the wait and its part after
  it; what the wait ends with (an answer, an abort, a timeout) is an argument of the latter. The JSON
  library (parsing, printing) and the decoding of query strings are arguments, as are the clock and the
  identifier of a new session. A session lives in a store as long as somebody holds it; the server's map
  is the list of the identifiers it still serves.
\<close>

section \<open>Configuration\<close>

datatype mcp_transport = StreamableHttp | LegacySse | Both

fun streamable_http :: "mcp_transport \<Rightarrow> bool" where
  "streamable_http LegacySse = False"
| "streamable_http _ = True"

fun legacy_sse :: "mcp_transport \<Rightarrow> bool" where
  "legacy_sse StreamableHttp = False"
| "legacy_sse _ = True"

record mcp_config =
  mc_workers :: nat
  mc_shutdown_timeout_ms :: nat
  mc_endpoint :: string
  mc_transport :: mcp_transport
  mc_legacy_sse_endpoint :: string
  mc_legacy_message_endpoint :: string
  mc_name :: string
  mc_version :: string
  mc_message_timeout_ms :: nat
  mc_stateful :: bool
  mc_session_idle_timeout_ms :: nat
  mc_event_replay_capacity :: nat
  mc_allowed_origins :: "string list"

definition mcp_config_default :: mcp_config where
  "mcp_config_default =
     \<lparr>mc_workers = 1, mc_shutdown_timeout_ms = 30000, mc_endpoint = ''/mcp'', mc_transport = StreamableHttp,
      mc_legacy_sse_endpoint = ''/sse'', mc_legacy_message_endpoint = ''/message'', mc_name = ''rust-zero-mcp'',
      mc_version = ''1.0.0'', mc_message_timeout_ms = 30000, mc_stateful = False,
      mc_session_idle_timeout_ms = 30 * 60 * 1000, mc_event_replay_capacity = 256, mc_allowed_origins = []\<rparr>"

definition is_absolute_path :: "string \<Rightarrow> bool" where
  "is_absolute_path path = (starts_with_slash path \<and> CHR ''?'' \<notin> set path)"

definition mcp_validate :: "mcp_config \<Rightarrow> string + unit" where
  "mcp_validate c =
     (let streamable = streamable_http (mc_transport c); legacy = legacy_sse (mc_transport c) in
      if mc_workers c = 0 then Inl ''workers must be positive''
      else if mc_shutdown_timeout_ms c = 0 then Inl ''shutdown_timeout_ms must be positive''
      else if streamable \<and> (\<not> starts_with_slash (mc_endpoint c) \<or> CHR ''?'' \<in> set (mc_endpoint c))
      then Inl ''endpoint must be an absolute path''
      else if legacy \<and> (\<not> is_absolute_path (mc_legacy_sse_endpoint c) \<or> \<not> is_absolute_path (mc_legacy_message_endpoint c))
      then Inl ''legacy endpoints must be absolute paths without queries''
      else if legacy \<and> mc_legacy_sse_endpoint c = mc_legacy_message_endpoint c
      then Inl ''legacy endpoints must be distinct''
      else if mc_transport c = Both \<and>
        (mc_endpoint c = mc_legacy_sse_endpoint c \<or> mc_endpoint c = mc_legacy_message_endpoint c)
      then Inl ''transport endpoints must be distinct''
      else if is_blank (mc_name c) then Inl ''name must not be empty''
      else if is_blank (mc_version c) then Inl ''version must not be empty''
      else if mc_message_timeout_ms c = 0 then Inl ''message_timeout_ms must be positive''
      else if mc_stateful c \<and> mc_session_idle_timeout_ms c = 0 then Inl ''session_idle_timeout_ms must be positive''
      else if mc_stateful c \<and> mc_event_replay_capacity c = 0 then Inl ''event_replay_capacity must be positive''
      else Inr ())"

section \<open>Requests\<close>

record mcp_request =
  mr_headers :: headers  \<comment> \<open>names in lower case\<close>
  mr_query :: string
  mr_path :: "(string \<times> string) list"
  mr_body :: string

definition header_get :: "string \<Rightarrow> mcp_request \<Rightarrow> string option" where
  "header_get n q = map_of (mr_headers q) n"

definition header_text :: "string \<Rightarrow> mcp_request \<Rightarrow> string option" where
  "header_text n q = Option.bind (header_get n q) to_str"

definition contains :: "string \<Rightarrow> string \<Rightarrow> bool" where
  "contains sub s = list_ex (\<lambda>k. take (length sub) (drop k s) = sub) [0..<length s + 1]"

definition has_json_content_type :: "mcp_request \<Rightarrow> bool" where
  "has_json_content_type q =
     (case header_text ''content-type'' q of
        None \<Rightarrow> False
      | Some v \<Rightarrow> hd (split_on (CHR '';'') v) = ''application/json'')"

record request_metadata =
  md_headers :: "(string, string) bmap"
  md_query :: "(string, string) bmap"
  md_path :: "(string, string) bmap"

definition collect_map :: "(string \<times> string) list \<Rightarrow> (string, string) bmap" where
  "collect_map kvs = foldl (\<lambda>m (k, v). bt_put k v m) [] kvs"

definition metadata_from_request :: "(string \<Rightarrow> (string \<times> string) list option) \<Rightarrow> mcp_request \<Rightarrow> request_metadata" where
  "metadata_from_request parse_query q =
     \<lparr>md_headers = collect_map (List.map_filter (\<lambda>(n, v). map_option (Pair (map ascii_lower n)) (to_str v)) (mr_headers q)),
      md_query = (case parse_query (mr_query q) of None \<Rightarrow> [] | Some kvs \<Rightarrow> collect_map kvs),
      md_path = collect_map (mr_path q)\<rparr>"

definition metadata_header :: "string \<Rightarrow> request_metadata \<Rightarrow> string option" where
  "metadata_header n m = map_of (md_headers m) (map ascii_lower n)"

section \<open>JSON-RPC\<close>

record mcp_error =
  me_code :: int
  me_message :: string
  me_data :: "json option"

definition mcp_error_new :: "int \<Rightarrow> string \<Rightarrow> mcp_error" where
  "mcp_error_new code message = \<lparr>me_code = code, me_message = message, me_data = None\<rparr>"

definition invalid_params :: "string \<Rightarrow> mcp_error" where
  "invalid_params message = mcp_error_new (-32602) message"

definition error_response :: "json \<Rightarrow> mcp_error \<Rightarrow> json" where
  "error_response i e =
     JObject [(''error'', JObject ([(''code'', JNumber (show_int (me_code e)))] @
                (case me_data e of None \<Rightarrow> [] | Some d \<Rightarrow> [(''data'', d)]) @
                [(''message'', JString (me_message e))])),
              (''id'', i), (''jsonrpc'', JString ''2.0'')]"

definition result_response :: "json \<Rightarrow> json \<Rightarrow> json" where
  "result_response i r = JObject [(''id'', i), (''jsonrpc'', JString ''2.0''), (''result'', r)]"

fun json_get :: "string \<Rightarrow> json \<Rightarrow> json option" where
  "json_get k (JObject kvs) = map_of kvs k"
| "json_get k _ = None"

definition required_string :: "json \<Rightarrow> string \<Rightarrow> mcp_error + string" where
  "required_string params key =
     (case json_get key params of
        Some (JString s) \<Rightarrow> Inr s
      | _ \<Rightarrow> Inl (invalid_params (key @ '' must be a string'')))"

text \<open>The message, with the defaults of its absent fields filled in by the decoder.\<close>

record json_rpc_request =
  jq_jsonrpc :: string
  jq_id :: "json option"
  jq_method :: string
  jq_params :: json

section \<open>Registry and dispatch\<close>

type_synonym handler = "request_metadata \<Rightarrow> json \<Rightarrow> mcp_error + json"

text \<open>A registered entry: the definition as it is serialised in a listing, and the handler.\<close>

type_synonym entry = "json \<times> handler"

record registry =
  rg_tools :: "(string, entry) bmap"
  rg_resources :: "(string, entry) bmap"
  rg_prompts :: "(string, entry) bmap"

definition registry_default :: registry where
  "registry_default = \<lparr>rg_tools = [], rg_resources = [], rg_prompts = []\<rparr>"

definition add_tool :: "string \<Rightarrow> entry \<Rightarrow> registry \<Rightarrow> registry" where
  "add_tool name e r = r\<lparr>rg_tools := bt_put name e (rg_tools r)\<rparr>"

definition add_resource :: "string \<Rightarrow> entry \<Rightarrow> registry \<Rightarrow> registry" where
  "add_resource uri e r = r\<lparr>rg_resources := bt_put uri e (rg_resources r)\<rparr>"

definition add_prompt :: "string \<Rightarrow> entry \<Rightarrow> registry \<Rightarrow> registry" where
  "add_prompt name e r = r\<lparr>rg_prompts := bt_put name e (rg_prompts r)\<rparr>"

definition listing :: "string \<Rightarrow> (string, entry) bmap \<Rightarrow> json" where
  "listing key es = JObject [(key, JArray (map (fst \<circ> snd) es))]"

definition call_entry ::
  "string \<Rightarrow> string \<Rightarrow> (string, entry) bmap \<Rightarrow> (json \<Rightarrow> json) \<Rightarrow> request_metadata \<Rightarrow> json \<Rightarrow> mcp_error + json" where
  "call_entry key kind es args metadata params =
     (case required_string params key of
        Inl e \<Rightarrow> Inl e
      | Inr name \<Rightarrow>
          (case map_of es name of
             None \<Rightarrow> Inl (mcp_error_new (-32602) (''unknown '' @ kind @ '': '' @ name))
           | Some (_, handler) \<Rightarrow> handler metadata (args params)))"

definition tool_arguments :: "json \<Rightarrow> json" where
  "tool_arguments params = (case json_get ''arguments'' params of None \<Rightarrow> JObject [] | Some a \<Rightarrow> a)"

definition initialize_result :: "mcp_config \<Rightarrow> string \<Rightarrow> json" where
  "initialize_result c protocol_version =
     JObject
       [(''capabilities'', JObject
          [(''prompts'', JObject [(''listChanged'', JBool False)]),
           (''resources'', JObject [(''listChanged'', JBool False), (''subscribe'', JBool False)]),
           (''tools'', JObject [(''listChanged'', JBool False)])]),
        (''protocolVersion'', JString protocol_version),
        (''serverInfo'', JObject [(''name'', JString (mc_name c)), (''version'', JString (mc_version c))])]"

definition dispatch ::
  "mcp_config \<Rightarrow> registry \<Rightarrow> string \<Rightarrow> request_metadata \<Rightarrow> json \<Rightarrow> string \<Rightarrow> mcp_error + json" where
  "dispatch c r meth metadata params protocol_version =
     (if meth = ''initialize'' then Inr (initialize_result c protocol_version)
      else if meth = ''ping'' then Inr (JObject [])
      else if meth = ''tools/list'' then Inr (listing ''tools'' (rg_tools r))
      else if meth = ''resources/list'' then Inr (listing ''resources'' (rg_resources r))
      else if meth = ''prompts/list'' then Inr (listing ''prompts'' (rg_prompts r))
      else if meth = ''tools/call'' then call_entry ''name'' ''tool'' (rg_tools r) tool_arguments metadata params
      else if meth = ''resources/read'' then call_entry ''uri'' ''resource'' (rg_resources r) id metadata params
      else if meth = ''prompts/get'' then call_entry ''name'' ''prompt'' (rg_prompts r) id metadata params
      else Inl (mcp_error_new (-32601) ''method not found''))"

section \<open>Sessions\<close>

record stored_event =
  se_id :: nat
  se_payload :: json

datatype session_event = EventMessage stored_event | Terminated

record session =
  ss_id :: string
  ss_last_access :: instant
  ss_next_event_id :: nat
  ss_events :: "stored_event list"
  ss_channel :: "session_event channel"
  ss_requests :: "(string, nat) hmap"  \<comment> \<open>the abort handles of the running requests\<close>
  ss_aborted :: "nat list"
  ss_terminated :: bool
  ss_active_streams :: nat
  ss_replay_capacity :: nat

definition session_new :: "string \<Rightarrow> instant \<Rightarrow> nat \<Rightarrow> session" where
  "session_new uid now replay_capacity =
     \<lparr>ss_id = uid, ss_last_access = now, ss_next_event_id = 1, ss_events = [],
      ss_channel = channel_new (max replay_capacity 16), ss_requests = [], ss_aborted = [], ss_terminated = False,
      ss_active_streams = 0, ss_replay_capacity = replay_capacity\<rparr>"

definition touch :: "instant \<Rightarrow> session \<Rightarrow> session" where
  "touch now s = s\<lparr>ss_last_access := now\<rparr>"

definition is_expired :: "instant \<Rightarrow> duration \<Rightarrow> session \<Rightarrow> bool" where
  "is_expired now idle_timeout s \<longleftrightarrow>
     ss_terminated s \<or>
     ss_active_streams s = 0 \<and> ss_requests s = [] \<and> idle_timeout \<le> now - ss_last_access s"

text \<open>
  Publishing is three steps: the counter, the replay queue under its lock, and the broadcast. Only a single
  task between them makes them one.
\<close>

definition publish_take_id :: "session \<Rightarrow> nat \<times> session" where
  "publish_take_id s = (ss_next_event_id s, s\<lparr>ss_next_event_id := (ss_next_event_id s + 1) mod 2 ^ 64\<rparr>)"

definition publish_store :: "stored_event \<Rightarrow> session \<Rightarrow> session" where
  "publish_store e s =
     s\<lparr>ss_events :=
       (if length (ss_events s) = ss_replay_capacity s then tl (ss_events s) else ss_events s) @ [e]\<rparr>"

definition session_send :: "session_event \<Rightarrow> session \<Rightarrow> session" where
  "session_send e s = s\<lparr>ss_channel := snd (channel_send e (ss_channel s))\<rparr>"

definition session_publish :: "json \<Rightarrow> session \<Rightarrow> stored_event \<times> session" where
  "session_publish payload s =
     (let (i, s1) = publish_take_id s; e = \<lparr>se_id = i, se_payload = payload\<rparr> in
      (e, session_send (EventMessage e) (publish_store e s1)))"

definition cancel :: "(json \<Rightarrow> string) \<Rightarrow> json \<Rightarrow> session \<Rightarrow> bool \<times> session" where
  "cancel request_key i s =
     (case map_of (ss_requests s) (request_key i) of
        None \<Rightarrow> (False, s)
      | Some h \<Rightarrow> (True, s\<lparr>ss_aborted := h # ss_aborted s\<rparr>))"

definition terminate :: "session \<Rightarrow> session" where
  "terminate s =
     (if ss_terminated s then s
      else session_send Terminated
        (s\<lparr>ss_terminated := True, ss_aborted := map snd (ss_requests s) @ ss_aborted s\<rparr>))"

definition close_event_streams :: "session \<Rightarrow> session" where
  "close_event_streams s = session_send Terminated s"

section \<open>Event streams\<close>

record event_stream =
  es_prefix :: "string list"
  es_replay :: "stored_event list"
  es_next :: nat
  es_last_id :: nat

definition events_after :: "nat \<Rightarrow> session \<Rightarrow> stored_event list" where
  "events_after n s = filter (\<lambda>e. n < se_id e) (ss_events s)"

definition event_stream_after :: "nat \<Rightarrow> string list \<Rightarrow> session \<Rightarrow> event_stream \<times> session" where
  "event_stream_after after prefix s =
     (let (n, c) = channel_subscribe (ss_channel s) in
      (\<lparr>es_prefix = prefix, es_replay = events_after after s, es_next = n, es_last_id = after\<rparr>,
       s\<lparr>ss_channel := c, ss_active_streams := ss_active_streams s + 1\<rparr>))"

definition stream_drop :: "instant \<Rightarrow> session \<Rightarrow> session" where
  "stream_drop now s =
     touch now (s\<lparr>ss_active_streams := ss_active_streams s - 1, ss_channel := channel_leave (ss_channel s)\<rparr>)"

datatype stream_item = Prefix string | Event stored_event | Ended | Pending

text \<open>One element of the stream, against the session as it is.\<close>

function stream_next :: "session \<Rightarrow> event_stream \<Rightarrow> stream_item \<times> event_stream" where
  "stream_next s x =
     (case es_prefix x of
        p # ps \<Rightarrow> (Prefix p, x\<lparr>es_prefix := ps\<rparr>)
      | [] \<Rightarrow>
          (case es_replay x of
             e # es \<Rightarrow> (Event e, x\<lparr>es_replay := es, es_last_id := se_id e\<rparr>)
           | [] \<Rightarrow>
               (case channel_recv (ss_channel s) (es_next x) of
                  (None, _) \<Rightarrow> (Pending, x)
                | (Some (Message (EventMessage e)), n) \<Rightarrow>
                    if es_last_id x < se_id e
                    then (Event e, x\<lparr>es_next := n, es_last_id := se_id e\<rparr>)
                    else stream_next s (x\<lparr>es_next := n\<rparr>)
                | (Some (Message Terminated), n) \<Rightarrow> (Ended, x\<lparr>es_next := n\<rparr>)
                | (Some (Lagged _), n) \<Rightarrow>
                    stream_next s (x\<lparr>es_next := n, es_replay := events_after (es_last_id x) s\<rparr>))))"
  by pat_completeness auto

termination
  by (relation "measure (\<lambda>(s, x). length (ch_sent (ss_channel s)) - es_next x)")
    (auto simp: channel_recv_def Let_def split: if_splits)

declare stream_next.simps [simp del]

section \<open>Answers\<close>

datatype mcp_reply =
    Bare nat
  | JsonReply nat "string option" json  \<comment> \<open>status, session header, body\<close>
  | SseReply "string option" string
  | StreamReply "string option" event_stream

text \<open>\<open>decode\<close> is the JSON decoder; its error is reported in the data of the answer.\<close>

definition parse_json_rpc :: "(string \<Rightarrow> string + json_rpc_request) \<Rightarrow> string \<Rightarrow> mcp_reply + json_rpc_request" where
  "parse_json_rpc decode body =
     (case decode body of
        Inl detail \<Rightarrow> Inl (JsonReply 400 None (error_response JNull
          ((mcp_error_new (-32700) ''parse error'')\<lparr>me_data := Some (JObject [(''detail'', JString detail)])\<rparr>)))
      | Inr m \<Rightarrow>
          if jq_jsonrpc m \<noteq> ''2.0'' \<or> jq_method m = []
          then Inl (JsonReply 400 None (error_response (case jq_id m of None \<Rightarrow> JNull | Some i \<Rightarrow> i)
            (mcp_error_new (-32600) ''invalid JSON-RPC request'')))
          else Inr m)"

section \<open>The server's sessions\<close>

record mcp_server =
  sv_config :: mcp_config
  sv_registry :: registry
  sv_store :: "(string, session) hmap"
  sv_live :: "string list"

text \<open>The JSON library and the decoder of query strings.\<close>

record mcp_libs =
  ml_decode :: "string \<Rightarrow> string + json_rpc_request"
  ml_print :: "json \<Rightarrow> string"
  ml_query :: "string \<Rightarrow> (string \<times> string) list option"

definition mcp_server_new :: "mcp_config \<Rightarrow> string + mcp_server" where
  "mcp_server_new c =
     (case mcp_validate c of
        Inl e \<Rightarrow> Inl e
      | Inr _ \<Rightarrow> Inr \<lparr>sv_config = c, sv_registry = registry_default, sv_store = [], sv_live = []\<rparr>)"

definition on_session :: "string \<Rightarrow> (session \<Rightarrow> session) \<Rightarrow> mcp_server \<Rightarrow> mcp_server" where
  "on_session uid f sv =
     (case map_of (sv_store sv) uid of
        None \<Rightarrow> sv
      | Some s \<Rightarrow> sv\<lparr>sv_store := AList.update uid (f s) (sv_store sv)\<rparr>)"

definition idle_timeout :: "mcp_config \<Rightarrow> duration" where
  "idle_timeout c = duration_from_millis (mc_session_idle_timeout_ms c)"

definition session_expired :: "instant \<Rightarrow> mcp_server \<Rightarrow> string \<Rightarrow> bool" where
  "session_expired now sv uid =
     (case map_of (sv_store sv) uid of None \<Rightarrow> True | Some s \<Rightarrow> is_expired now (idle_timeout (sv_config sv)) s)"

definition remove_expired_sessions :: "instant \<Rightarrow> mcp_server \<Rightarrow> mcp_server" where
  "remove_expired_sessions now sv =
     foldr (\<lambda>uid. on_session uid terminate) (filter (session_expired now sv) (sv_live sv))
       (sv\<lparr>sv_live := filter (\<lambda>uid. \<not> session_expired now sv uid) (sv_live sv)\<rparr>)"

definition create_session :: "instant \<Rightarrow> string \<Rightarrow> mcp_server \<Rightarrow> mcp_server" where
  "create_session now uid sv =
     (let sv1 = remove_expired_sessions now sv in
      sv1\<lparr>sv_store := AList.update uid (session_new uid now (mc_event_replay_capacity (sv_config sv1))) (sv_store sv1),
          sv_live := uid # sv_live sv1\<rparr>)"

definition session_missing :: mcp_reply where
  "session_missing = JsonReply 404 None (error_response JNull (mcp_error_new (-32002) ''session not found or expired''))"

definition find_session :: "instant \<Rightarrow> string option \<Rightarrow> mcp_error \<Rightarrow> mcp_server \<Rightarrow> (mcp_reply + string) \<times> mcp_server" where
  "find_session now uid absent sv =
     (case uid of
        None \<Rightarrow> (Inl (JsonReply 400 None (error_response JNull absent)), sv)
      | Some uid \<Rightarrow>
          if uid \<in> set (sv_live sv) then (Inr uid, on_session uid (touch now) sv) else (Inl session_missing, sv))"

definition request_session :: "instant \<Rightarrow> mcp_request \<Rightarrow> mcp_server \<Rightarrow> (mcp_reply + string) \<times> mcp_server" where
  "request_session now q sv =
     (if \<not> mc_stateful (sv_config sv) then (Inl (Bare 405), sv)
      else find_session now (header_text ''mcp-session-id'' q)
        (mcp_error_new (-32600) ''Mcp-Session-Id header is required'') (remove_expired_sessions now sv))"

definition legacy_request_session ::
  "mcp_libs \<Rightarrow> instant \<Rightarrow> mcp_request \<Rightarrow> mcp_server \<Rightarrow> (mcp_reply + string) \<times> mcp_server" where
  "legacy_request_session l now q sv =
     find_session now (Option.bind (ml_query l (mr_query q)) (\<lambda>kvs. map_of (rev kvs) ''sessionId''))
       (mcp_error_new (-32600) ''sessionId query parameter is required'') (remove_expired_sessions now sv)"

definition close_all_streams :: "mcp_server \<Rightarrow> mcp_server" where
  "close_all_streams sv = foldr (\<lambda>uid. on_session uid close_event_streams) (sv_live sv) sv"

definition terminate_sessions :: "mcp_server \<Rightarrow> mcp_server" where
  "terminate_sessions sv = (foldr (\<lambda>uid. on_session uid terminate) (sv_live sv) sv)\<lparr>sv_live := []\<rparr>"

section \<open>Handlers\<close>

definition reject_origin :: "mcp_config \<Rightarrow> mcp_request \<Rightarrow> mcp_reply option" where
  "reject_origin c q =
     (case header_get ''origin'' q of
        None \<Rightarrow> None
      | Some v \<Rightarrow>
          if (case to_str v of None \<Rightarrow> False | Some origin \<Rightarrow> origin \<in> set (mc_allowed_origins c)) then None
          else Some (JsonReply 403 None (error_response JNull (mcp_error_new (-32000) ''origin is not allowed''))))"

definition unsupported_content :: mcp_reply where
  "unsupported_content =
     JsonReply 415 None (error_response JNull (mcp_error_new (-32600) ''Content-Type must be application/json''))"

text \<open>A request whose handler runs: its session, identifier and abort handle, and what is dispatched.\<close>

record pending =
  pd_session :: "string option"
  pd_id :: json
  pd_handle :: nat
  pd_method :: string
  pd_metadata :: request_metadata
  pd_params :: json
  pd_version :: string

definition accept_message ::
  "mcp_libs \<Rightarrow> nat \<Rightarrow> string \<Rightarrow> mcp_request \<Rightarrow> json_rpc_request \<Rightarrow> string option \<Rightarrow> mcp_server \<Rightarrow>
   (mcp_reply + pending) \<times> mcp_server" where
  "accept_message l handle version q m uid sv =
     (case jq_id m of
        None \<Rightarrow>
          (Inl (Bare 202),
           if jq_method m = ''notifications/cancelled''
           then (case (uid, json_get ''requestId'' (jq_params m)) of
               (Some u, Some r) \<Rightarrow> on_session u (snd \<circ> cancel (ml_print l) r) sv
             | _ \<Rightarrow> sv)
           else sv)
      | Some i \<Rightarrow>
          (Inr \<lparr>pd_session = uid, pd_id = i, pd_handle = handle, pd_method = jq_method m,
                pd_metadata = metadata_from_request (ml_query l) q, pd_params = jq_params m, pd_version = version\<rparr>,
           case uid of
             None \<Rightarrow> sv
           | Some u \<Rightarrow> on_session u (\<lambda>s. s\<lparr>ss_requests := AList.update (ml_print l i) handle (ss_requests s)\<rparr>) sv))"

definition http_post ::
  "mcp_libs \<Rightarrow> instant \<Rightarrow> string \<Rightarrow> nat \<Rightarrow> mcp_request \<Rightarrow> mcp_server \<Rightarrow> (mcp_reply + pending) \<times> mcp_server" where
  "http_post l now uid handle q sv =
     (case reject_origin (sv_config sv) q of
        Some r \<Rightarrow> (Inl r, sv)
      | None \<Rightarrow>
          if \<not> has_json_content_type q then (Inl unsupported_content, sv)
          else case parse_json_rpc (ml_decode l) (mr_body q) of
            Inl r \<Rightarrow> (Inl r, sv)
          | Inr m \<Rightarrow>
              if mc_stateful (sv_config sv)
              then if jq_method m = ''initialize''
                then accept_message l handle ''2025-03-26'' q m (Some uid) (create_session now uid sv)
                else case request_session now q sv of
                  (Inl r, sv1) \<Rightarrow> (Inl r, sv1)
                | (Inr u, sv1) \<Rightarrow> accept_message l handle ''2025-03-26'' q m (Some u) sv1
              else accept_message l handle ''2025-03-26'' q m None sv)"

datatype outcome = Completed "mcp_error + json" | RequestAborted | TimedOut

definition response_of :: "json \<Rightarrow> outcome \<Rightarrow> json" where
  "response_of i out =
     (case out of
        Completed (Inr r) \<Rightarrow> result_response i r
      | Completed (Inl e) \<Rightarrow> error_response i e
      | RequestAborted \<Rightarrow> error_response i (mcp_error_new (-32800) ''request cancelled'')
      | TimedOut \<Rightarrow> error_response i (mcp_error_new (-32001) ''request timed out''))"

definition sse_event :: "mcp_libs \<Rightarrow> stored_event \<Rightarrow> string" where
  "sse_event l e =
     ''id: '' @ show_nat (se_id e) @ [CHR 0x0A] @ ''event: message'' @ [CHR 0x0A] @ ''data: '' @
     ml_print l (se_payload e) @ [CHR 0x0A, CHR 0x0A]"

definition finish_request :: "mcp_libs \<Rightarrow> instant \<Rightarrow> pending \<Rightarrow> session \<Rightarrow> session" where
  "finish_request l now p s = touch now (s\<lparr>ss_requests := AList.delete (ml_print l (pd_id p)) (ss_requests s)\<rparr>)"

definition accepts :: "string \<Rightarrow> mcp_request \<Rightarrow> bool" where
  "accepts mime q = (case header_text ''accept'' q of None \<Rightarrow> False | Some v \<Rightarrow> contains mime v)"

definition accepts_json :: "mcp_request \<Rightarrow> bool" where
  "accepts_json q = (header_text ''accept'' q = None \<or> accepts ''application/json'' q \<or> accepts ''*/*'' q)"

definition http_post_finish ::
  "mcp_libs \<Rightarrow> instant \<Rightarrow> outcome \<Rightarrow> pending \<Rightarrow> mcp_request \<Rightarrow> mcp_server \<Rightarrow> mcp_reply \<times> mcp_server" where
  "http_post_finish l now out p q sv =
     (let sv1 = (case pd_session p of None \<Rightarrow> sv | Some u \<Rightarrow> on_session u (finish_request l now p) sv);
          response = response_of (pd_id p) out in
      if accepts_json q then (JsonReply 200 (pd_session p) response, sv1)
      else if accepts ''text/event-stream'' q
      then (case Option.bind (pd_session p) (\<lambda>u. map_option (Pair u) (map_of (sv_store sv1) u)) of
          None \<Rightarrow>
            (SseReply (pd_session p)
               (''event: message'' @ [CHR 0x0A] @ ''data: '' @ ml_print l response @ [CHR 0x0A, CHR 0x0A]), sv1)
        | Some (u, s) \<Rightarrow>
            let (e, s1) = session_publish response s in
            (SseReply (pd_session p) (sse_event l e), on_session u (\<lambda>_. s1) sv1))
      else (Bare 406, sv1))"

definition legacy_message_post ::
  "mcp_libs \<Rightarrow> instant \<Rightarrow> nat \<Rightarrow> mcp_request \<Rightarrow> mcp_server \<Rightarrow> (mcp_reply + pending) \<times> mcp_server" where
  "legacy_message_post l now handle q sv =
     (case reject_origin (sv_config sv) q of
        Some r \<Rightarrow> (Inl r, sv)
      | None \<Rightarrow>
          if \<not> has_json_content_type q then (Inl unsupported_content, sv)
          else case parse_json_rpc (ml_decode l) (mr_body q) of
            Inl r \<Rightarrow> (Inl r, sv)
          | Inr m \<Rightarrow>
              (case legacy_request_session l now q sv of
                 (Inl r, sv1) \<Rightarrow> (Inl r, sv1)
               | (Inr u, sv1) \<Rightarrow> accept_message l handle ''2024-11-05'' q m (Some u) sv1))"

text \<open>The task that answers a legacy message publishes its response on the session.\<close>

definition legacy_finish :: "mcp_libs \<Rightarrow> instant \<Rightarrow> outcome \<Rightarrow> pending \<Rightarrow> mcp_server \<Rightarrow> mcp_server" where
  "legacy_finish l now out p sv =
     (case pd_session p of
        None \<Rightarrow> sv
      | Some u \<Rightarrow>
          on_session u (\<lambda>s. snd (session_publish (response_of (pd_id p) out) (finish_request l now p s))) sv)"

definition open_stream :: "string \<Rightarrow> nat \<Rightarrow> string list \<Rightarrow> string option \<Rightarrow> mcp_server \<Rightarrow> mcp_reply \<times> mcp_server" where
  "open_stream uid after prefix hdr sv =
     (case map_of (sv_store sv) uid of
        None \<Rightarrow> (session_missing, sv)
      | Some s \<Rightarrow>
          let (x, s1) = event_stream_after after prefix s in (StreamReply hdr x, on_session uid (\<lambda>_. s1) sv))"

definition legacy_sse_get :: "instant \<Rightarrow> string \<Rightarrow> mcp_request \<Rightarrow> mcp_server \<Rightarrow> mcp_reply \<times> mcp_server" where
  "legacy_sse_get now uid q sv =
     (case reject_origin (sv_config sv) q of
        Some r \<Rightarrow> (r, sv)
      | None \<Rightarrow>
          if \<not> accepts ''text/event-stream'' q then (Bare 406, sv)
          else
            open_stream uid 0
              [''event: endpoint'' @ [CHR 0x0A] @ ''data: '' @ mc_legacy_message_endpoint (sv_config sv) @
               ''?sessionId='' @ uid @ [CHR 0x0A, CHR 0x0A]]
              None (create_session now uid sv))"

definition http_get :: "instant \<Rightarrow> mcp_request \<Rightarrow> mcp_server \<Rightarrow> mcp_reply \<times> mcp_server" where
  "http_get now q sv =
     (case reject_origin (sv_config sv) q of
        Some r \<Rightarrow> (r, sv)
      | None \<Rightarrow>
          if \<not> accepts ''text/event-stream'' q then (Bare 406, sv)
          else case request_session now q sv of
            (Inl r, sv1) \<Rightarrow> (r, sv1)
          | (Inr u, sv1) \<Rightarrow>
              (case header_get ''last-event-id'' q of
                 Some v \<Rightarrow>
                   (case Option.bind (to_str v) parse_usize of
                      Some after \<Rightarrow> open_stream u after [] (Some u) sv1
                    | None \<Rightarrow>
                        (JsonReply 400 None (error_response JNull
                           (invalid_params ''Last-Event-ID must be an unsigned integer'')), sv1))
               | None \<Rightarrow>
                   open_stream u
                     ((case map_of (sv_store sv1) u of None \<Rightarrow> 0 | Some s \<Rightarrow> ss_next_event_id s) - 1) [] (Some u) sv1))"

definition http_delete :: "instant \<Rightarrow> mcp_request \<Rightarrow> mcp_server \<Rightarrow> mcp_reply \<times> mcp_server" where
  "http_delete now q sv =
     (case reject_origin (sv_config sv) q of
        Some r \<Rightarrow> (r, sv)
      | None \<Rightarrow>
          (case request_session now q sv of
             (Inl r, sv1) \<Rightarrow> (r, sv1)
           | (Inr u, sv1) \<Rightarrow>
               (Bare 204, on_session u terminate (sv1\<lparr>sv_live := filter (\<lambda>v. v \<noteq> u) (sv_live sv1)\<rparr>))))"

section \<open>Streams deliver every event once, in order\<close>

text \<open>What a stream yields when it is read until it waits or ends.\<close>

lemma stream_next_queued:
  "es_prefix x = p # ps \<Longrightarrow> stream_next s x = (Prefix p, x\<lparr>es_prefix := ps\<rparr>)"
  "es_prefix x = [] \<Longrightarrow> es_replay x = e # es \<Longrightarrow> stream_next s x = (Event e, x\<lparr>es_replay := es, es_last_id := se_id e\<rparr>)"
  by (simp_all add: stream_next.simps [of s x])

lemma stream_next_live:
  assumes "es_prefix x = []" "es_replay x = []"
  shows "channel_recv (ss_channel s) (es_next x) = (None, n) \<Longrightarrow> stream_next s x = (Pending, x)"
    and "channel_recv (ss_channel s) (es_next x) = (Some (Message (EventMessage e)), n) \<Longrightarrow>
      stream_next s x =
        (if es_last_id x < se_id e then (Event e, x\<lparr>es_next := n, es_last_id := se_id e\<rparr>)
         else stream_next s (x\<lparr>es_next := n\<rparr>))"
    and "channel_recv (ss_channel s) (es_next x) = (Some (Message Terminated), n) \<Longrightarrow>
      stream_next s x = (Ended, x\<lparr>es_next := n\<rparr>)"
    and "channel_recv (ss_channel s) (es_next x) = (Some (Lagged k), n) \<Longrightarrow>
      stream_next s x = stream_next s (x\<lparr>es_next := n, es_replay := events_after (es_last_id x) s\<rparr>)"
  using assms by (simp_all add: stream_next.simps [of s x])

lemma stream_next_progress:
  "stream_next s x = (i, x') \<Longrightarrow> i \<noteq> Pending \<Longrightarrow> i \<noteq> Ended \<Longrightarrow>
   es_next x < es_next x' \<and> es_next x' \<le> length (ch_sent (ss_channel s)) \<or>
   es_next x' = es_next x \<and> length (es_prefix x') + length (es_replay x') < length (es_prefix x) + length (es_replay x)"
proof (induction "length (ch_sent (ss_channel s)) - es_next x" arbitrary: x rule: less_induct)
  case less
  consider (prefix) p ps where "es_prefix x = p # ps" | (replay) e es where "es_prefix x = []" "es_replay x = e # es"
    | (live) "es_prefix x = []" "es_replay x = []" by (cases "es_prefix x"; cases "es_replay x") auto
  then show ?case
  proof cases
    case live
    obtain r n where r: "channel_recv (ss_channel s) (es_next x) = (r, n)" by (cases "channel_recv (ss_channel s) (es_next x)")
    consider (none) "r = None" | (event) e where "r = Some (Message (EventMessage e))"
      | (stop) "r = Some (Message Terminated)" | (lagged) k where "r = Some (Lagged k)"
      by (cases r; cases "the r"; metis (full_types) option.sel session_event.exhaust)
    then show ?thesis
    proof cases
      case none
      then show ?thesis using less.prems r stream_next_live(1) [OF live] by simp
    next
      case stop
      then show ?thesis using less.prems r stream_next_live(3) [OF live] by simp
    next
      case (event e)
      have n: "es_next x < n" "n \<le> length (ch_sent (ss_channel s))" using r event by (auto simp: channel_recv_iffs)
      show ?thesis
      proof (cases "es_last_id x < se_id e")
        case True
        then show ?thesis using less.prems(1) stream_next_live(2) [OF live] event r n by auto
      next
        case False
        then have "stream_next s (x\<lparr>es_next := n\<rparr>) = (i, x')" using less.prems(1) stream_next_live(2) [OF live] event r by simp
        from less.hyps [OF _ this less.prems(2,3)] n live show ?thesis by force
      qed
    next
      case (lagged k)
      have n: "es_next x < n" "n \<le> length (ch_sent (ss_channel s))" using r lagged by (auto simp: channel_recv_iffs)
      have "stream_next s (x\<lparr>es_next := n, es_replay := events_after (es_last_id x) s\<rparr>) = (i, x')"
        using less.prems(1) stream_next_live(4) [OF live] lagged r by simp
      from less.hyps [OF _ this less.prems(2,3)] n live show ?thesis by force
    qed
  qed (use less.prems stream_next_queued in auto)
qed

function stream_read :: "session \<Rightarrow> event_stream \<Rightarrow> stored_event list" where
  "stream_read s x =
     (case stream_next s x of
        (Event e, x') \<Rightarrow> e # stream_read s x'
      | (Prefix _, x') \<Rightarrow> stream_read s x'
      | (Ended, _) \<Rightarrow> []
      | (Pending, _) \<Rightarrow> [])"
  by pat_completeness auto

termination
  by (relation "measures [\<lambda>(s, x). length (ch_sent (ss_channel s)) - es_next x,
        \<lambda>(s, x). length (es_prefix x) + length (es_replay x)]")
    (auto dest!: sym [of _ "stream_next _ _"] stream_next_progress)

declare stream_read.simps [simp del]

text \<open>The events of payloads published one after another, numbered from \<open>k\<close>.\<close>

fun numbered :: "nat \<Rightarrow> json list \<Rightarrow> stored_event list" where
  "numbered k [] = []"
| "numbered k (p # ps) = \<lparr>se_id = k, se_payload = p\<rparr> # numbered (k + 1) ps"

fun publish_many :: "json list \<Rightarrow> session \<Rightarrow> session" where
  "publish_many [] s = s"
| "publish_many (p # ps) s = publish_many ps (snd (session_publish p s))"

lemma numbered_append: "numbered k (ps @ qs) = numbered k ps @ numbered (k + length ps) qs"
  by (induction ps arbitrary: k) auto

lemma length_numbered [simp]: "length (numbered k ps) = length ps"
  by (induction ps arbitrary: k) auto

lemma numbered_Nil [simp]: "numbered k ps = [] \<longleftrightarrow> ps = []"
  by (cases ps) auto

lemma numbered_ids: "e \<in> set (numbered k ps) \<Longrightarrow> k \<le> se_id e \<and> se_id e < k + length ps"
  by (induction ps arbitrary: k) fastforce+

lemma filter_numbered: "filter (\<lambda>e. a < se_id e) (numbered k ps) = drop (a + 1 - k) (numbered k ps)"
proof (induction ps arbitrary: k)
  case (Cons p ps)
  show ?case
  proof (cases "a < k")
    case True
    then have "filter (\<lambda>e. a < se_id e) (numbered (k + 1) ps) = numbered (k + 1) ps"
      by (intro filter_True) (auto dest: numbered_ids)
    with True show ?thesis by simp
  next
    case False
    then have "a + 1 - k = Suc (a + 1 - (k + 1))" by simp
    with Cons False show ?thesis by simp
  qed
qed simp

lemma filter_numbered_drop:
  "d + k \<le> a + 1 \<Longrightarrow> filter (\<lambda>e. a < se_id e) (drop d (numbered k ps)) = filter (\<lambda>e. a < se_id e) (numbered k ps)"
proof (induction ps arbitrary: k d)
  case (Cons p ps)
  show ?case
  proof (cases d)
    case (Suc d')
    with Cons.prems have "\<not> a < k" "d' + (k + 1) \<le> a + 1" by simp_all
    with Cons.IH Suc show ?thesis by simp
  qed simp
qed simp

lemma numbered_sorted: "sorted_wrt (\<lambda>d e. se_id d < se_id e) (numbered k ps)"
  by (induction ps arbitrary: k) (auto dest: numbered_ids)

lemma session_publish_fields:
  assumes "ss_next_event_id s = k" "k + 1 < 2 ^ 64"
  shows "session_publish p s = (\<lparr>se_id = k, se_payload = p\<rparr>,
     s\<lparr>ss_next_event_id := k + 1,
       ss_events := (if length (ss_events s) = ss_replay_capacity s then tl (ss_events s) else ss_events s) @
         [\<lparr>se_id = k, se_payload = p\<rparr>],
       ss_channel := snd (channel_send (EventMessage \<lparr>se_id = k, se_payload = p\<rparr>) (ss_channel s))\<rparr>)"
  using assms by (simp add: session_publish_def publish_take_id_def publish_store_def session_send_def Let_def)

lemma drop_one_excess:
  "length xs \<le> n \<Longrightarrow> 0 < n \<Longrightarrow>
   (if length xs = n then tl xs else xs) @ [y] = drop (length xs + 1 - n) (xs @ [y])"
  by (auto simp: drop_Suc)

lemma drop_excess_twice:
  "length xs \<le> n \<Longrightarrow> 0 < n \<Longrightarrow> ys = drop (length xs + 1 - n) (xs @ [y]) \<Longrightarrow>
   drop (length ys + length zs - n) (ys @ zs) = drop (length xs + length (y # zs) - n) (xs @ y # zs)"
proof -
  assume n: "length xs \<le> n" "0 < n" and ys: "ys = drop (length xs + 1 - n) (xs @ [y])"
  have len: "length ys = min n (length xs + 1)" using ys n by simp
  have "ys @ zs = drop (length xs + 1 - n) (xs @ y # zs)" using ys n by simp
  then have "drop (length ys + length zs - n) (ys @ zs) = drop (length ys + length zs - n + (length xs + 1 - n)) (xs @ y # zs)"
    by (simp only: drop_drop)
  also have "length ys + length zs - n + (length xs + 1 - n) = length xs + length (y # zs) - n" using len n by auto
  finally show ?thesis .
qed

lemma publish_many_state:
  assumes "ss_next_event_id s = k" "k + length ps < 2 ^ 64"
  shows "ss_next_event_id (publish_many ps s) = k + length ps \<and>
    ss_replay_capacity (publish_many ps s) = ss_replay_capacity s \<and>
    ch_kept (ss_channel (publish_many ps s)) = ch_kept (ss_channel s) \<and>
    ch_receivers (ss_channel (publish_many ps s)) = ch_receivers (ss_channel s) \<and>
    (0 < ch_receivers (ss_channel s) \<longrightarrow>
       ch_sent (ss_channel (publish_many ps s)) = ch_sent (ss_channel s) @ map EventMessage (numbered k ps)) \<and>
    (0 < ss_replay_capacity s \<longrightarrow> length (ss_events s) \<le> ss_replay_capacity s \<longrightarrow>
       ss_events (publish_many ps s) =
         drop (length (ss_events s) + length ps - ss_replay_capacity s) (ss_events s @ numbered k ps))"
  using assms
proof (induction ps arbitrary: s k)
  case (Cons p ps)
  let ?e = "\<lparr>se_id = k, se_payload = p\<rparr>"
  let ?s = "snd (session_publish p s)"
  have pub: "?s = s\<lparr>ss_next_event_id := k + 1,
       ss_events := (if length (ss_events s) = ss_replay_capacity s then tl (ss_events s) else ss_events s) @ [?e],
       ss_channel := snd (channel_send (EventMessage ?e) (ss_channel s))\<rparr>"
    using session_publish_fields [OF Cons.prems(1)] Cons.prems(2) by simp
  have next_id: "ss_next_event_id ?s = k + 1" "k + 1 + length ps < 2 ^ 64" using pub Cons.prems(2) by simp_all
  have ev: "ss_events (publish_many ps ?s) =
      drop (length (ss_events s) + length (p # ps) - ss_replay_capacity s) (ss_events s @ numbered k (p # ps))"
    if cap: "0 < ss_replay_capacity s" "length (ss_events s) \<le> ss_replay_capacity s"
  proof -
    let ?ys = "drop (length (ss_events s) + 1 - ss_replay_capacity s) (ss_events s @ [?e])"
    have ys: "ss_events ?s = ?ys" using pub drop_one_excess [OF cap(2,1)] by simp
    moreover have "length ?ys \<le> ss_replay_capacity ?s" "0 < ss_replay_capacity ?s" using cap pub by auto
    ultimately have "ss_events (publish_many ps ?s) =
        drop (length ?ys + length (numbered (k + 1) ps) - ss_replay_capacity s) (?ys @ numbered (k + 1) ps)"
      using Cons.IH [OF next_id] pub by simp
    also have "\<dots> = drop (length (ss_events s) + length (?e # numbered (k + 1) ps) - ss_replay_capacity s)
        (ss_events s @ ?e # numbered (k + 1) ps)"
      by (rule drop_excess_twice [OF cap(2,1) refl])
    finally show ?thesis by simp
  qed
  show ?case using Cons.IH [OF next_id] pub ev by (auto simp: channel_send_def)
qed simp

lemma stream_read_cong: "stream_next s x = stream_next s y \<Longrightarrow> stream_read s x = stream_read s y"
  by (simp add: stream_read.simps [of s x] stream_read.simps [of s y])

lemma stream_read_replay:
  "es_prefix x = [] \<Longrightarrow>
   stream_read s x = es_replay x @ stream_read s
     (x\<lparr>es_replay := [], es_last_id := (if es_replay x = [] then es_last_id x else se_id (last (es_replay x)))\<rparr>)"
proof (induction "es_replay x" arbitrary: x)
  case Nil
  then have "x\<lparr>es_replay := [], es_last_id := (if es_replay x = [] then es_last_id x else se_id (last (es_replay x)))\<rparr> = x"
    by (cases x) simp
  then show ?case using Nil.hyps by (simp only:) simp
next
  case (Cons e es)
  let ?y = "x\<lparr>es_replay := es, es_last_id := se_id e\<rparr>"
  have "stream_read s x = e # stream_read s ?y"
    using Cons.prems Cons.hyps(2) [symmetric] by (simp add: stream_read.simps [of s x] stream_next_queued(2))
  with Cons.hyps(1) [of ?y] Cons.hyps(2) [symmetric] Cons.prems show ?case by (cases "es = []") auto
qed

lemma stream_read_live:
  assumes "es_prefix x = []" "es_replay x = []" "drop (es_next x) (ch_sent (ss_channel s)) = map EventMessage es"
    "es_next x \<le> length (ch_sent (ss_channel s))"
    "length (ch_sent (ss_channel s)) - ch_kept (ss_channel s) \<le> es_next x"
    "sorted_wrt (\<lambda>d e. se_id d < se_id e) es"
  shows "stream_read s x = filter (\<lambda>e. es_last_id x < se_id e) es"
  using assms
proof (induction es arbitrary: x)
  case Nil
  then have "channel_recv (ss_channel s) (es_next x) = (None, es_next x)" by (simp add: channel_recv_iffs)
  then show ?case using stream_next_live(1) [OF Nil(1,2)] by (simp add: stream_read.simps [of s x])
next
  case (Cons e es)
  have lt: "es_next x < length (ch_sent (ss_channel s))" using Cons.prems(3,4) by (cases "es_next x = length (ch_sent (ss_channel s))") auto
  then have msg: "ch_sent (ss_channel s) ! es_next x = EventMessage e"
    and rest: "drop (es_next x + 1) (ch_sent (ss_channel s)) = map EventMessage es"
    using Cons.prems(3) Cons_nth_drop_Suc [OF lt] by auto
  have recv: "channel_recv (ss_channel s) (es_next x) = (Some (Message (EventMessage e)), es_next x + 1)"
    using lt Cons.prems(5) msg by (simp add: channel_recv_iffs)
  show ?case
  proof (cases "es_last_id x < se_id e")
    case True
    let ?y = "x\<lparr>es_next := es_next x + 1, es_last_id := se_id e\<rparr>"
    have "stream_read s x = e # stream_read s ?y"
      using True stream_next_live(2) [OF Cons.prems(1,2) recv] by (simp add: stream_read.simps [of s x])
    moreover have "stream_read s ?y = filter (\<lambda>d. se_id e < se_id d) es"
      using Cons.IH [of ?y] Cons.prems rest lt by simp
    moreover have "filter (\<lambda>d. se_id e < se_id d) es = es" using Cons.prems(6) by (auto intro: filter_True)
    moreover have "filter (\<lambda>d. es_last_id x < se_id d) es = es" using Cons.prems(6) True by (fastforce intro: filter_True)
    ultimately show ?thesis using True by simp
  next
    case False
    let ?y = "x\<lparr>es_next := es_next x + 1\<rparr>"
    have "stream_read s x = stream_read s ?y"
      using False stream_next_live(2) [OF Cons.prems(1,2) recv] by (intro stream_read_cong) simp
    moreover have "stream_read s ?y = filter (\<lambda>d. es_last_id x < se_id d) es"
      using Cons.IH [of ?y] Cons.prems rest lt by simp
    ultimately show ?thesis using False by simp
  qed
qed

text \<open>Keeping the last \<open>n\<close> of a list can be done as it grows.\<close>

lemma drop_ring:
  "drop (length (drop (length xs - n) xs) + length ys - n) (drop (length xs - n) xs @ ys) =
   drop (length xs + length ys - n) (xs @ ys)"
proof -
  have "drop (length xs - n) xs @ ys = drop (length xs - n) (xs @ ys)" by simp
  then have "drop (length (drop (length xs - n) xs) + length ys - n) (drop (length xs - n) xs @ ys) =
      drop (length (drop (length xs - n) xs) + length ys - n + (length xs - n)) (xs @ ys)"
    by (simp only: drop_drop)
  also have "length (drop (length xs - n) xs) + length ys - n + (length xs - n) = length xs + length ys - n" by auto
  finally show ?thesis .
qed

lemma last_numbered: "ps \<noteq> [] \<Longrightarrow> se_id (last (numbered k ps)) = k + length ps - 1"
  by (induction ps arbitrary: k) auto

lemma last_filter_numbered:
  assumes "filter (\<lambda>e. a < se_id e) (numbered k ps) \<noteq> []"
  shows "se_id (last (filter (\<lambda>e. a < se_id e) (numbered k ps))) = k + length ps - 1"
proof -
  have "last (drop (a + 1 - k) (numbered k ps)) = last (numbered k ps)"
    using assms unfolding filter_numbered by (intro last_drop) simp
  moreover have "ps \<noteq> []" using assms by auto
  ultimately show ?thesis using last_numbered by (simp only: filter_numbered)
qed

text \<open>A session with the payloads published on it so far, through every operation of a session.\<close>

inductive session_run :: "nat \<Rightarrow> json list \<Rightarrow> session \<Rightarrow> bool" for cap where
  run_new: "session_run cap [] (session_new uid now cap)"
| run_publish: "session_run cap ps s \<Longrightarrow> session_run cap (ps @ [p]) (snd (session_publish p s))"
| run_touch: "session_run cap ps s \<Longrightarrow> session_run cap ps (touch now s)"
| run_cancel: "session_run cap ps s \<Longrightarrow> session_run cap ps (snd (cancel key i s))"
| run_terminate: "session_run cap ps s \<Longrightarrow> session_run cap ps (terminate s)"
| run_close: "session_run cap ps s \<Longrightarrow> session_run cap ps (close_event_streams s)"
| run_open: "session_run cap ps s \<Longrightarrow> session_run cap ps (snd (event_stream_after after prefix s))"
| run_drop: "session_run cap ps s \<Longrightarrow> session_run cap ps (stream_drop now s)"
| run_accept: "session_run cap ps s \<Longrightarrow> session_run cap ps (s\<lparr>ss_requests := AList.update k h (ss_requests s)\<rparr>)"
| run_finish: "session_run cap ps s \<Longrightarrow> session_run cap ps (finish_request l now pd s)"

definition has_history :: "nat \<Rightarrow> json list \<Rightarrow> session \<Rightarrow> bool" where
  "has_history cap ps s \<longleftrightarrow>
     ss_next_event_id s = length ps + 1 \<and> ss_replay_capacity s = cap \<and> cap \<le> ch_kept (ss_channel s) \<and>
     ss_events s = drop (length ps - cap) (numbered 1 ps)"

lemma kept_send [simp]: "ch_kept (snd (channel_send e c)) = ch_kept c"
  by (simp add: channel_send_def)

lemma history_publish:
  assumes "has_history cap ps s" "0 < cap" "length ps + 2 < 2 ^ 64"
  shows "has_history cap (ps @ [p]) (snd (session_publish p s))"
proof -
  let ?e = "\<lparr>se_id = length ps + 1, se_payload = p\<rparr>"
  have fields: "ss_next_event_id s = length ps + 1" "ss_replay_capacity s = cap" "cap \<le> ch_kept (ss_channel s)"
    and ev: "ss_events s = drop (length ps - cap) (numbered 1 ps)" using assms(1) by (auto simp: has_history_def)
  have "(if length (ss_events s) = cap then tl (ss_events s) else ss_events s) @ [?e] =
      drop (length (ss_events s) + 1 - cap) (ss_events s @ [?e])"
    using assms(2) ev by (intro drop_one_excess) auto
  also have "\<dots> = drop (length ps + 1 - cap) (numbered 1 ps @ [?e])"
    using drop_ring [of "numbered 1 ps" cap "[?e]"] by (simp only: ev length_numbered list.size One_nat_def add_0)
  finally show ?thesis
    using session_publish_fields [OF fields(1)] fields assms(3) by (simp add: has_history_def numbered_append)
qed

lemma channel_new_kept_max: "cap \<le> ch_kept (channel_new (max cap n))"
  using channel_new_kept(1) [of "max cap n"] by (rule order.trans [OF max.cobounded1])

lemma session_run_history:
  "session_run cap ps s \<Longrightarrow> 0 < cap \<Longrightarrow> length ps + 1 < 2 ^ 64 \<Longrightarrow> has_history cap ps s"
proof (induction rule: session_run.induct)
  case (run_new uid now)
  then show ?case by (simp add: session_new_def has_history_def channel_new_kept_max)
next
  case (run_publish ps s p)
  then show ?case by (intro history_publish) auto
qed (auto simp: has_history_def touch_def cancel_def terminate_def close_event_streams_def session_send_def
    event_stream_after_def channel_subscribe_def stream_drop_def channel_leave_def finish_request_def Let_def
    split: option.splits)

text \<open>
  What a stream reads that was opened when \<open>before\<close> had been published and \<open>later\<close> was published since: while the
  broadcast channel still holds what the stream has not received, and after it has dropped some of it.
\<close>

lemma resume_live:
  fixes before later old
  defines "es \<equiv> numbered (length before + 1) later"
  assumes x: "es_prefix x = []" "es_next x = length old" "es_last_id x = seen"
    and replay: "es_replay x = filter (\<lambda>e. seen < se_id e) (numbered 1 before)"
    and sent: "ch_sent (ss_channel s) = old @ map EventMessage es" and kept: "length later \<le> ch_kept (ss_channel s)"
  shows "stream_read s x = filter (\<lambda>e. seen < se_id e) (numbered 1 (before @ later))"
proof -
  let ?last = "if es_replay x = [] then seen else se_id (last (es_replay x))"
  let ?y = "x\<lparr>es_replay := [], es_last_id := ?last\<rparr>"
  have "stream_read s ?y = filter (\<lambda>e. ?last < se_id e) es"
    using stream_read_live [of ?y s es] x sent kept numbered_sorted by (simp add: es_def)
  moreover have "filter (\<lambda>e. ?last < se_id e) es = filter (\<lambda>e. seen < se_id e) es"
  proof (cases "es_replay x = []")
    case False
    then have "last (es_replay x) \<in> set (es_replay x)" by simp
    then have "?last \<le> length before" "seen < ?last" using False unfolding replay by (auto dest!: numbered_ids)
    then show ?thesis unfolding es_def by (intro filter_cong) (auto dest!: numbered_ids)
  qed simp
  moreover have "stream_read s x = es_replay x @ stream_read s ?y"
    using stream_read_replay [OF x(1), of s] unfolding x(3) .
  ultimately have "stream_read s x = es_replay x @ filter (\<lambda>e. seen < se_id e) es" by (simp only:)
  then show ?thesis by (simp add: replay es_def numbered_append)
qed

lemma resume_lagged:
  fixes before later old seen
  defines "es \<equiv> numbered (length before + 1) later" and "all \<equiv> filter (\<lambda>e. seen < se_id e) (numbered 1 (before @ later))"
  assumes x: "es_prefix x = []" "es_next x = length old" "es_last_id x = seen" "es_replay x = []"
    and after: "events_after seen s = all"
    and sent: "ch_sent (ss_channel s) = old @ map EventMessage es" and lag: "ch_kept (ss_channel s) < length later"
  shows "stream_read s x = all"
proof -
  define k where "k = length (ch_sent (ss_channel s)) - ch_kept (ss_channel s)"
  let ?y = "x\<lparr>es_next := k, es_replay := all\<rparr>"
  let ?last = "if es_replay ?y = [] then es_last_id ?y else se_id (last (es_replay ?y))"
  have "channel_recv (ss_channel s) (es_next x) = (Some (Lagged (k - es_next x)), k)"
    using lag x(2) sent by (simp add: channel_recv_Lagged k_def es_def)
  then have "stream_next s x = stream_next s ?y"
    using stream_next_live(4) [OF x(1)] x(3,4) after by simp
  then have "stream_read s x = stream_read s ?y" by (rule stream_read_cong)
  also have "\<dots> = all"
  proof -
    have last: "length (before @ later) \<le> ?last"
      using filter_numbered [of seen 1 "before @ later"] last_filter_numbered [of seen 1 "before @ later"] x(3)
      by (auto simp: all_def)
    have "drop k (ch_sent (ss_channel s)) = map EventMessage (drop (length later - ch_kept (ss_channel s)) es)"
      using lag sent by (simp add: k_def drop_map es_def)
    then have "stream_read s (?y\<lparr>es_replay := [], es_last_id := ?last\<rparr>) =
        filter (\<lambda>e. ?last < se_id e) (drop (length later - ch_kept (ss_channel s)) es)"
      using x(1) k_def by (intro stream_read_live [THEN trans]) (auto simp: es_def sorted_wrt_drop numbered_sorted)
    also have "\<dots> = []" using last unfolding es_def by (auto simp: filter_empty_conv dest!: in_set_dropD numbered_ids)
    finally show ?thesis using stream_read_replay [of ?y s] x(1) by simp
  qed
  finally show ?thesis .
qed

lemma history_publish_many:
  assumes "has_history cap before s1" "0 < cap" "length (before @ later) + 1 < 2 ^ 64"
    and s2: "s2 = s1\<lparr>ss_channel := c, ss_active_streams := n\<rparr>" and c: "ch_sent c = ch_sent (ss_channel s1)" "0 < ch_receivers c"
      "ch_kept c = ch_kept (ss_channel s1)"
  shows "ss_events (publish_many later s2) = drop (length (before @ later) - cap) (numbered 1 (before @ later))"
    and "ch_sent (ss_channel (publish_many later s2)) =
      ch_sent (ss_channel s1) @ map EventMessage (numbered (length before + 1) later)"
    and "ch_kept (ss_channel (publish_many later s2)) = ch_kept (ss_channel s1)"
proof -
  let ?es = "numbered (length before + 1) later"
  have s1: "ss_next_event_id s1 = length before + 1" "ss_replay_capacity s1 = cap"
    and ev1: "ss_events s1 = drop (length before - cap) (numbered 1 before)" using assms(1) by (auto simp: has_history_def)
  have next2: "ss_next_event_id s2 = length before + 1" using s1 by (simp add: s2)
  note pub = publish_many_state [OF next2, of later]
  show "ch_sent (ss_channel (publish_many later s2)) = ch_sent (ss_channel s1) @ map EventMessage ?es"
    and "ch_kept (ss_channel (publish_many later s2)) = ch_kept (ss_channel s1)"
    using pub c assms(3) by (auto simp: s2)
  have "ss_events (publish_many later s2) = drop (length (ss_events s1) + length later - cap) (ss_events s1 @ ?es)"
    using pub assms(2,3) s1 ev1 by (simp add: s2)
  also have "\<dots> = drop (length before + length later - cap) (numbered 1 before @ ?es)"
    using drop_ring [of "numbered 1 before" cap ?es] by (simp only: ev1 length_numbered)
  finally show "ss_events (publish_many later s2) = drop (length (before @ later) - cap) (numbered 1 (before @ later))"
    by (simp add: numbered_append)
qed


section \<open>Witnesses\<close>


end
