(* ===== verification/Mcp_Http.thy ===== *)
theory Mcp_Http
  imports Mcp
begin

text \<open>
  What the HTTP handlers of the Model Context Protocol server guarantee: which messages reach a handler,
  what deleting a session does, and where concurrent publications and unchecked configurations go wrong.
\<close>

section \<open>Which messages reach a handler\<close>

lemma live_on_session [simp]: "sv_live (on_session u f sv) = sv_live sv"
  by (simp add: on_session_def split: option.split)

lemma config_on_session [simp]: "sv_config (on_session u f sv) = sv_config sv"
  by (simp add: on_session_def split: option.split)

lemma live_foldr [simp]: "sv_live (foldr (\<lambda>u. on_session u f) us sv) = sv_live sv"
  by (induction us) auto

lemma config_foldr [simp]: "sv_config (foldr (\<lambda>u. on_session u f) us sv) = sv_config sv"
  by (induction us) auto

lemma store_on_session:
  "map_of (sv_store (on_session u f sv)) v = (if v = u then map_option f (map_of (sv_store sv) u) else map_of (sv_store sv) v)"
  by (auto simp: on_session_def update_conv' split: option.split)

lemma store_foldr: "v \<notin> set us \<Longrightarrow> map_of (sv_store (foldr (\<lambda>u. on_session u f) us sv)) v = map_of (sv_store sv) v"
  by (induction us) (auto simp: store_on_session)

lemma live_remove_expired:
  "sv_live (remove_expired_sessions now sv) = filter (\<lambda>u. \<not> session_expired now sv u) (sv_live sv)"
  by (simp add: remove_expired_sessions_def)

lemma config_remove_expired [simp]: "sv_config (remove_expired_sessions now sv) = sv_config sv"
  by (simp add: remove_expired_sessions_def)

lemma store_remove_expired:
  "\<not> session_expired now sv u \<Longrightarrow> map_of (sv_store (remove_expired_sessions now sv)) u = map_of (sv_store sv) u"
  by (simp add: remove_expired_sessions_def store_foldr)

lemma find_session_Inr:
  "find_session now uid absent sv = (Inr u, sv') \<longleftrightarrow>
   uid = Some u \<and> u \<in> set (sv_live sv) \<and> sv' = on_session u (touch now) sv"
  by (auto simp: find_session_def split: option.splits if_splits)

lemma request_session_Inr:
  assumes "request_session now q sv = (Inr u, sv')"
  shows "mc_stateful (sv_config sv)" "header_text ''mcp-session-id'' q = Some u" "u \<in> set (sv_live sv)"
    "\<not> session_expired now sv u" "sv' = on_session u (touch now) (remove_expired_sessions now sv)"
  using assms by (auto simp: request_session_def find_session_Inr live_remove_expired split: if_splits)

lemma accept_message_Inr:
  assumes "accept_message l handle version q m uid sv = (Inr p, sv')"
  shows "jq_id m = Some (pd_id p)" "pd_session p = uid" "pd_method p = jq_method m" "pd_params p = jq_params m"
    "pd_version p = version" "pd_handle p = handle"
    "\<And>u s. uid = Some u \<Longrightarrow> map_of (sv_store sv') u = Some s \<Longrightarrow>
      map_of (ss_requests s) (ml_print l (pd_id p)) = Some handle"
  using assms by (auto simp: accept_message_def store_on_session update_conv' split: option.splits)

lemma parse_json_rpc_Inr:
  "parse_json_rpc decode body = Inr m \<longleftrightarrow> decode body = Inr m \<and> jq_jsonrpc m = ''2.0'' \<and> jq_method m \<noteq> []"
  by (auto simp: parse_json_rpc_def split: sum.splits)

definition origin_allowed :: "mcp_config \<Rightarrow> mcp_request \<Rightarrow> bool" where
  "origin_allowed c q \<longleftrightarrow> (\<forall>v. header_get ''origin'' q = Some v \<longrightarrow> v \<in> set (mc_allowed_origins c))"

lemma reject_origin_None: "reject_origin c q = None \<Longrightarrow> origin_allowed c q"
  by (auto simp: reject_origin_def origin_allowed_def to_str_def split: option.splits if_splits)

text \<open>
  A message reaches an application handler only through every guard: its origin is absent or in the
  configured list, its content type is JSON, it is a well-formed JSON-RPC 2.0 request with an identifier, and
  on a stateful server every message but \<open>initialize\<close> names a session that the server serves and that
  has not expired. The request is then registered in its session under its identifier, so that it can be
  cancelled.
\<close>

theorem mcp_post_guarded:
  assumes "http_post l now uid handle q sv = (Inr p, sv')"
  shows "origin_allowed (sv_config sv) q \<and> has_json_content_type q \<and>
    (\<exists>m. ml_decode l (mr_body q) = Inr m \<and> jq_jsonrpc m = ''2.0'' \<and> jq_id m = Some (pd_id p) \<and>
       jq_method m = pd_method p \<and> pd_method p \<noteq> []) \<and>
    (if mc_stateful (sv_config sv)
     then if pd_method p = ''initialize'' then pd_session p = Some uid
       else \<exists>u. header_text ''mcp-session-id'' q = Some u \<and> pd_session p = Some u \<and> u \<in> set (sv_live sv) \<and>
         \<not> session_expired now sv u
     else pd_session p = None) \<and>
    (\<forall>u s. pd_session p = Some u \<longrightarrow> map_of (sv_store sv') u = Some s \<longrightarrow>
       map_of (ss_requests s) (ml_print l (pd_id p)) = Some handle)"
proof -
  have guards: "reject_origin (sv_config sv) q = None" "has_json_content_type q"
    using assms by (auto simp: http_post_def split: option.splits if_splits)
  then obtain m where m: "parse_json_rpc (ml_decode l) (mr_body q) = Inr m"
    using assms by (auto simp: http_post_def split: sum.splits)
  obtain uid' sv1 where acc: "accept_message l handle ''2025-03-26'' q m uid' sv1 = (Inr p, sv')"
    and sess: "if mc_stateful (sv_config sv)
      then if jq_method m = ''initialize'' then uid' = Some uid
        else \<exists>u. request_session now q sv = (Inr u, sv1) \<and> uid' = Some u
      else uid' = None"
    using assms guards m by (auto simp: http_post_def split: if_splits prod.splits sum.splits)
  note a = accept_message_Inr [OF acc]
  have "if mc_stateful (sv_config sv)
     then if pd_method p = ''initialize'' then pd_session p = Some uid
       else \<exists>u. header_text ''mcp-session-id'' q = Some u \<and> pd_session p = Some u \<and> u \<in> set (sv_live sv) \<and>
         \<not> session_expired now sv u
     else pd_session p = None"
    using sess a(2,3) by (auto dest: request_session_Inr split: if_splits)
  then show ?thesis
    using guards reject_origin_None m a(1-3) a(7) by (auto simp: parse_json_rpc_Inr)
qed

section \<open>Every request is answered under its own identifier\<close>

lemma json_id_response: "json_get ''id'' (response_of i out) = Some i"
  by (auto simp: response_of_def result_response_def error_response_def split: outcome.splits sum.splits)

text \<open>
  Every request that reaches a handler is answered under its own identifier, whatever the handler does: with
  its result or error, or with the error of a cancellation or a timeout; and afterwards its abort handle is
  no longer registered. A client that accepts neither JSON nor an event stream gets 406.
\<close>

theorem mcp_post_answered:
  assumes "http_post_finish l now out p q sv = (reply, sv')"
  shows "(if accepts_json q
      then reply = JsonReply 200 (pd_session p) (response_of (pd_id p) out)
      else if accepts ''text/event-stream'' q then \<exists>text. reply = SseReply (pd_session p) text
      else reply = Bare 406) \<and>
    json_get ''id'' (response_of (pd_id p) out) = Some (pd_id p) \<and>
    (\<forall>u s. pd_session p = Some u \<longrightarrow> map_of (sv_store sv') u = Some s \<longrightarrow>
       map_of (ss_requests s) (ml_print l (pd_id p)) = None)"
proof -
  define sv1 where "sv1 = (case pd_session p of None \<Rightarrow> sv | Some u \<Rightarrow> on_session u (finish_request l now p) sv)"
  have none: "map_of (ss_requests s) (ml_print l (pd_id p)) = None"
    if "pd_session p = Some u" "map_of (sv_store sv1) u = Some s" for u s
    using that by (auto simp: sv1_def store_on_session finish_request_def touch_def delete_conv')
  have requests: "ss_requests (snd (session_publish j s)) = ss_requests s" for j s
    by (simp add: session_publish_def publish_take_id_def publish_store_def session_send_def Let_def)
  note finish = assms [unfolded http_post_finish_def Let_def, folded sv1_def]
  show ?thesis
  proof (cases "Option.bind (pd_session p) (\<lambda>u. map_option (Pair u) (map_of (sv_store sv1) u))")
    case None
    then show ?thesis using finish none by (auto simp: json_id_response split: if_splits)
  next
    case (Some us)
    then obtain u s where us: "pd_session p = Some u" "map_of (sv_store sv1) u = Some s" "us = (u, s)"
      by (auto simp: bind_eq_Some_conv)
    obtain e s1 where pub: "session_publish (response_of (pd_id p) out) s = (e, s1)"
      by (cases "session_publish (response_of (pd_id p) out) s")
    have "(if accepts_json q then (JsonReply 200 (pd_session p) (response_of (pd_id p) out), sv1)
        else if accepts ''text/event-stream'' q then (SseReply (pd_session p) (sse_event l e), on_session u (\<lambda>_. s1) sv1)
        else (Bare 406, sv1)) = (reply, sv')"
      using finish unfolding Some us(3) by (simp add: pub cong: if_cong)
    then show ?thesis using none [OF us(1)] requests [of "response_of (pd_id p) out" s] pub us
      by (auto simp: json_id_response store_on_session split: if_splits)
  qed
qed

section \<open>Deleting a session\<close>

lemma terminate_aborts:
  "\<not> ss_terminated s \<Longrightarrow> ss_terminated (terminate s) \<and> snd ` set (ss_requests (terminate s)) \<subseteq> set (ss_aborted (terminate s))"
  by (auto simp: terminate_def session_send_def)

text \<open>
  Deleting a session ends it. When the deletion succeeds, the session named by the request is no longer served,
  it is marked as terminated, every request that was running in it has been aborted, and any later
  message for it is answered with 404.
\<close>

theorem mcp_delete_ends_session:
  assumes "http_delete now q sv = (Bare 204, sv')"
  shows "\<exists>u. header_text ''mcp-session-id'' q = Some u \<and> u \<notin> set (sv_live sv') \<and>
    (\<forall>s. map_of (sv_store sv') u = Some s \<longrightarrow>
       ss_terminated s \<and> snd ` set (ss_requests s) \<subseteq> set (ss_aborted s)) \<and>
    (\<forall>later. fst (request_session later q sv') = Inl session_missing)"
proof -
  obtain u sv1 where r: "request_session now q sv = (Inr u, sv1)"
    and sv': "sv' = on_session u terminate (sv1\<lparr>sv_live := filter (\<lambda>v. v \<noteq> u) (sv_live sv1)\<rparr>)"
    using assms by (auto simp: http_delete_def request_session_def find_session_def reject_origin_def session_missing_def
        split: option.splits sum.splits prod.splits if_splits)
  note rs = request_session_Inr [OF r]
  have gone: "u \<notin> set (sv_live sv')" by (simp add: sv')
  moreover have "ss_terminated s \<and> snd ` set (ss_requests s) \<subseteq> set (ss_aborted s)" if store: "map_of (sv_store sv') u = Some s" for s
  proof -
    have "map_of (sv_store sv') u = map_option (terminate \<circ> touch now) (map_of (sv_store sv) u)"
      by (simp add: sv' rs(5) store_on_session store_remove_expired [OF rs(4)] option.map_comp)
    then obtain s0 where s0: "map_of (sv_store sv) u = Some s0" "s = terminate (touch now s0)"
      using store by (cases "map_of (sv_store sv) u") auto
    have "\<not> ss_terminated (touch now s0)" using rs(4) s0(1) by (simp add: session_expired_def is_expired_def touch_def)
    then show ?thesis using terminate_aborts s0(2) by simp
  qed
  moreover have "fst (request_session later q sv') = Inl session_missing" for later
    using rs(1,2,5) gone by (simp add: request_session_def find_session_def live_remove_expired sv')
  ultimately show ?thesis using rs(2) by blast
qed

section \<open>Where the implementation falls short\<close>

text \<open>
  Two tasks that publish on one session at the same time: the second takes its identifier later but
  finishes first. A stream that is open all the while never yields the first event.
\<close>

definition interleaved :: "session \<Rightarrow> session" where
  "interleaved s =
     (let (i, s1) = publish_take_id s; (j, s2) = publish_take_id s1;
          d = \<lparr>se_id = i, se_payload = JString ''first''\<rparr>; e = \<lparr>se_id = j, se_payload = JString ''second''\<rparr> in
      session_send (EventMessage d) (publish_store d (session_send (EventMessage e) (publish_store e s2))))"

text \<open>
  C40. Concurrent publications can lose an event. An open stream that has missed nothing yields only the
  event with the larger identifier when two publications overlap, although both are in the replay queue and
  neither was beyond the capacity of the channel.
\<close>

theorem mcp_concurrent_publish_loses:
  "case event_stream_after 0 [] (session_new uid now 16) of (x, s) \<Rightarrow>
     map se_payload (stream_read (interleaved s) x) = [JString ''second''] \<and>
     map se_payload (ss_events (interleaved s)) = [JString ''second'', JString ''first'']"
proof -
  obtain x s where xs: "event_stream_after 0 [] (session_new uid now 16) = (x, s)"
    by (cases "event_stream_after 0 [] (session_new uid now 16)")
  let ?d = "\<lparr>se_id = 1, se_payload = JString ''first''\<rparr>" and ?e = "\<lparr>se_id = 2, se_payload = JString ''second''\<rparr>"
  have x: "x = \<lparr>es_prefix = [], es_replay = [], es_next = 0, es_last_id = 0\<rparr>"
    and s: "ss_next_event_id s = 1" "ss_events s = []" "ss_replay_capacity s = 16" "ch_sent (ss_channel s) = []"
      "ch_receivers (ss_channel s) = 1" "ch_kept (ss_channel s) = 16"
    using xs by (auto simp: event_stream_after_def session_new_def channel_subscribe_def channel_new_def events_after_def
        round_up.simps Let_def)
  have sent: "ch_sent (ss_channel (interleaved s)) = [EventMessage ?e, EventMessage ?d]"
    and kept: "ch_kept (ss_channel (interleaved s)) = 16"
    and ev: "ss_events (interleaved s) = [?e, ?d]"
    using s by (simp_all add: interleaved_def publish_take_id_def session_send_def channel_send_def publish_store_def Let_def)
  let ?y = "x\<lparr>es_next := 1, es_last_id := 2\<rparr>" and ?z = "x\<lparr>es_next := 2, es_last_id := 2\<rparr>"
  have "channel_recv (ss_channel (interleaved s)) 0 = (Some (Message (EventMessage ?e)), 1)"
    by (simp add: channel_recv_iffs sent kept)
  then have n1: "stream_next (interleaved s) x = (Event ?e, ?y)" by (simp add: x stream_next_live(2))
  have "channel_recv (ss_channel (interleaved s)) 1 = (Some (Message (EventMessage ?d)), 2)"
    by (simp add: channel_recv_iffs sent kept)
  moreover have "channel_recv (ss_channel (interleaved s)) 2 = (None, 2)" by (simp add: channel_recv_iffs sent)
  ultimately have n2: "stream_next (interleaved s) ?y = (Pending, ?z)"
    using stream_next_live(1) [of ?z "interleaved s" 2] by (simp add: x stream_next_live(2))
  have "stream_read (interleaved s) ?y = []" unfolding stream_read.simps [of "interleaved s" ?y] n2 by simp
  then have "stream_read (interleaved s) x = [?e]" unfolding stream_read.simps [of "interleaved s" x] n1 by simp
  then show ?thesis using xs ev by simp
qed

text \<open>
  A legacy-only server is not required to have a positive replay capacity, and with capacity zero the
  replay queue is never trimmed after its first element.
\<close>

lemma zero_capacity_accepted:
  "mcp_validate (mcp_config_default\<lparr>mc_transport := LegacySse, mc_event_replay_capacity := 0\<rparr>) = Inr ()"
  by (simp add: mcp_validate_def mcp_config_default_def is_absolute_path_def starts_with_slash_def is_blank_def ascii_ws_def)

lemma zero_capacity_unbounded:
  "ss_replay_capacity s = 0 \<Longrightarrow> length (ss_events (publish_many ps s)) = length (ss_events s) + length ps"
  by (induction ps arbitrary: s)
    (auto simp: session_publish_def publish_take_id_def publish_store_def session_send_def Let_def)

text \<open>
  A request whose handler is dropped before it finishes stays registered, and a session with a registered
  request never expires.
\<close>

lemma unfinished_request_pins_session:
  "ss_requests s \<noteq> [] \<Longrightarrow> \<not> ss_terminated s \<Longrightarrow> \<not> is_expired now d s"
  by (simp add: is_expired_def)

section \<open>Witnesses\<close>

definition example_libs :: mcp_libs where
  "example_libs =
     \<lparr>ml_decode = (\<lambda>_. Inr \<lparr>jq_jsonrpc = ''2.0'', jq_id = Some (JNumber ''7''), jq_method = ''ping'', jq_params = JObject []\<rparr>),
      ml_print = (\<lambda>_. ''7''), ml_query = (\<lambda>_. None)\<rparr>"

definition example_server :: mcp_server where
  "example_server =
     \<lparr>sv_config = mcp_config_default\<lparr>mc_stateful := True\<rparr>, sv_registry = registry_default,
      sv_store = [(''a'', (session_new ''a'' 0 256)\<lparr>ss_requests := [(''9'', 3)]\<rparr>)], sv_live = [''a'']\<rparr>"

definition example_request :: mcp_request where
  "example_request =
     \<lparr>mr_headers = [(''content-type'', ''application/json''), (''mcp-session-id'', ''a'')], mr_query = [], mr_path = [],
      mr_body = ''{}''\<rparr>"

lemma example_session: "request_session 5 example_request example_server = (Inr ''a'', on_session ''a'' (touch 5) example_server)"
  by (simp add: request_session_def find_session_def remove_expired_sessions_def session_expired_def is_expired_def
      example_request_def example_server_def mcp_config_default_def header_text_def header_get_def to_str_def session_new_def)

lemma example_guards:
  "reject_origin (sv_config example_server) example_request = None" "has_json_content_type example_request"
  "mc_stateful (sv_config example_server)"
  by (simp_all add: reject_origin_def has_json_content_type_def header_get_def header_text_def to_str_def
      example_server_def example_request_def mcp_config_default_def)

lemma example_post: "\<exists>p sv'. http_post example_libs 5 u 4 example_request example_server = (Inr p, sv') \<and> pd_session p = Some ''a''"
  by (simp add: http_post_def example_guards example_session parse_json_rpc_def example_libs_def accept_message_def)

theorem mcp_post_guarded_witness:
  "\<exists>p sv'. http_post example_libs 5 ''b'' 4 example_request example_server = (Inr p, sv') \<and>
     pd_session p = Some ''a'' \<and> ''a'' \<in> set (sv_live example_server)"
proof -
  obtain p sv' where post: "http_post example_libs 5 ''b'' 4 example_request example_server = (Inr p, sv')"
    "pd_session p = Some ''a''" using example_post by blast
  from mcp_post_guarded [OF post(1)] post show ?thesis by (auto simp: example_server_def)
qed

theorem mcp_post_answered_witness:
  "\<exists>p sv' sv''. http_post example_libs 5 ''b'' 4 example_request example_server = (Inr p, sv') \<and>
     http_post_finish example_libs 6 TimedOut p example_request sv' =
       (JsonReply 200 (Some ''a'') (response_of (pd_id p) TimedOut), sv'')"
proof -
  obtain p sv' where post: "http_post example_libs 5 ''b'' 4 example_request example_server = (Inr p, sv')"
    "pd_session p = Some ''a''" using example_post by blast
  obtain reply sv'' where fin: "http_post_finish example_libs 6 TimedOut p example_request sv' = (reply, sv'')"
    by (cases "http_post_finish example_libs 6 TimedOut p example_request sv'")
  have "accepts_json example_request" by (simp add: accepts_json_def header_text_def header_get_def example_request_def)
  with mcp_post_answered [OF fin] post fin show ?thesis by auto
qed

theorem mcp_delete_ends_session_witness:
  "\<exists>sv'. http_delete 5 example_request example_server = (Bare 204, sv') \<and> ''a'' \<notin> set (sv_live sv')"
proof -
  obtain sv' where del: "http_delete 5 example_request example_server = (Bare 204, sv')"
    by (simp add: http_delete_def example_guards example_session)
  from mcp_delete_ends_session [OF del] del show ?thesis
    by (auto simp: header_text_def header_get_def to_str_def example_request_def)
qed

end
