(* ===== verification/Etcd.thy ===== *)
theory Etcd
  imports Config Discov
begin

text \<open>
  \<open>core/src/etcd.rs\<close>: the etcd adapter. Configuration and key layout, the lease that keeps a published
  endpoint alive, the configuration watcher, and the service subscription with its watch-and-relist loop.
  The etcd client library and the server are not part of the repository: the answers of the server
  (lists, watch messages, broken streams, lease operations) are arguments of the definitions, and
  a run of the subscription against a server is a transition system over the server's history.
\<close>

section \<open>Configuration\<close>

record etcd_tls_config =
  et_ca :: string
  et_certificate :: "string option"
  et_private_key :: "string option"
  et_domain :: "string option"

record etcd_config =
  ec_endpoints :: "string list"
  ec_namespace :: string
  ec_username :: "string option"
  ec_password :: "string option"
  ec_timeout :: duration
  ec_backoff :: reconnect_backoff
  ec_tls :: "etcd_tls_config option"

datatype client_error = Utf8Error | OtherClient string

datatype etcd_error =
    EmptyEndpoints
  | EmptyName string
  | InvalidLeaseTtl
  | InvalidTls string
  | MissingConfig string
  | InvalidConfig config_error
  | ClientError client_error
  | TaskError string

definition etcd_tls_new :: "string \<Rightarrow> etcd_tls_config" where
  "etcd_tls_new ca = \<lparr>et_ca = ca, et_certificate = None, et_private_key = None, et_domain = None\<rparr>"

definition etcd_tls_with_identity :: "string \<Rightarrow> string \<Rightarrow> etcd_tls_config \<Rightarrow> etcd_tls_config" where
  "etcd_tls_with_identity certificate key t = t\<lparr>et_certificate := Some certificate, et_private_key := Some key\<rparr>"

definition etcd_tls_with_domain_name :: "string \<Rightarrow> etcd_tls_config \<Rightarrow> etcd_tls_config" where
  "etcd_tls_with_domain_name name t = t\<lparr>et_domain := Some name\<rparr>"

text \<open>\<open>is_some_and(|value| value.trim().is_empty())\<close>.\<close>

definition some_blank :: "string option \<Rightarrow> bool" where
  "some_blank v = (case v of None \<Rightarrow> False | Some s \<Rightarrow> is_blank s)"

definition etcd_tls_validate :: "etcd_tls_config \<Rightarrow> etcd_error + unit" where
  "etcd_tls_validate t = in_order
     [check (is_blank (et_ca t)) (InvalidTls ''etcd TLS CA certificate must not be empty''),
      check ((et_certificate t \<noteq> None) \<noteq> (et_private_key t \<noteq> None))
        (InvalidTls ''etcd TLS certificate and private key must be configured together''),
      check (some_blank (et_certificate t)) (InvalidTls ''etcd TLS client certificate must not be empty''),
      check (some_blank (et_private_key t)) (InvalidTls ''etcd TLS private key must not be empty''),
      check (some_blank (et_domain t)) (InvalidTls ''etcd TLS domain name must not be empty'')]"

definition etcd_config_new :: "string list \<Rightarrow> etcd_config" where
  "etcd_config_new endpoints =
     \<lparr>ec_endpoints = endpoints, ec_namespace = ''/rust-zero'', ec_username = None, ec_password = None,
      ec_timeout = 10 * nanos_per_sec, ec_backoff = reconnect_default, ec_tls = None\<rparr>"

definition etcd_with_namespace :: "string \<Rightarrow> etcd_config \<Rightarrow> etcd_config" where
  "etcd_with_namespace namespace c = c\<lparr>ec_namespace := namespace\<rparr>"

definition etcd_with_credentials :: "string \<Rightarrow> string \<Rightarrow> etcd_config \<Rightarrow> etcd_config" where
  "etcd_with_credentials username password c = c\<lparr>ec_username := Some username, ec_password := Some password\<rparr>"

text \<open>\<open>None\<close> is the failed assertion.\<close>

definition etcd_with_timeout :: "duration \<Rightarrow> etcd_config \<Rightarrow> etcd_config option" where
  "etcd_with_timeout timeout c = (if timeout = 0 then None else Some (c\<lparr>ec_timeout := timeout\<rparr>))"

definition etcd_with_reconnect_backoff :: "reconnect_backoff \<Rightarrow> etcd_config \<Rightarrow> etcd_config" where
  "etcd_with_reconnect_backoff backoff c = c\<lparr>ec_backoff := backoff\<rparr>"

definition etcd_with_tls :: "etcd_tls_config \<Rightarrow> etcd_config \<Rightarrow> etcd_config" where
  "etcd_with_tls tls c = c\<lparr>ec_tls := Some tls\<rparr>"

section \<open>Names and keys\<close>

definition validate_name :: "string \<Rightarrow> string \<Rightarrow> etcd_error + unit" where
  "validate_name kind v = check (is_blank v \<or> CHR ''/'' \<in> set v) (EmptyName kind)"

definition normalize_namespace :: "string \<Rightarrow> etcd_error + string" where
  "normalize_namespace namespace =
     (let n = trim_matches (CHR ''/'') namespace in
      and_then (validate_name ''namespace'' n) (\<lambda>_. Inr (CHR ''/'' # n)))"

record 'c etcd_client =
  cl_client :: 'c
  cl_namespace :: string
  cl_backoff :: reconnect_backoff

text \<open>What the client library is given: \<open>ConnectOptions\<close> and \<open>TlsOptions\<close>.\<close>

record tls_options =
  to_ca :: string
  to_domain :: "string option"
  to_identity :: "(string \<times> string) option"

record connect_options =
  co_timeout :: duration
  co_user :: "(string \<times> string) option"
  co_tls :: "tls_options option"

definition etcd_tls_options :: "etcd_tls_config \<Rightarrow> tls_options" where
  "etcd_tls_options t =
     \<lparr>to_ca = et_ca t, to_domain = et_domain t,
      to_identity = (case (et_certificate t, et_private_key t) of
        (Some certificate, Some key) \<Rightarrow> Some (certificate, key) | _ \<Rightarrow> None)\<rparr>"

definition etcd_connect ::
  "(string list \<Rightarrow> connect_options \<Rightarrow> client_error + 'c) \<Rightarrow> etcd_config \<Rightarrow> etcd_error + 'c etcd_client" where
  "etcd_connect dial c =
     and_then (in_order
       [check (ec_endpoints c = []) EmptyEndpoints,
        (case ec_tls c of None \<Rightarrow> Inr () | Some t \<Rightarrow> etcd_tls_validate t)]) (\<lambda>_.
     and_then (normalize_namespace (ec_namespace c)) (\<lambda>namespace.
       let options = \<lparr>co_timeout = ec_timeout c,
             co_user = map_option (\<lambda>u. (u, case ec_password c of None \<Rightarrow> [] | Some p \<Rightarrow> p)) (ec_username c),
             co_tls = map_option etcd_tls_options (ec_tls c)\<rparr> in
       case dial (ec_endpoints c) options of
         Inl e \<Rightarrow> Inl (ClientError e)
       | Inr client \<Rightarrow> Inr \<lparr>cl_client = client, cl_namespace = namespace, cl_backoff = ec_backoff c\<rparr>))"

definition etcd_from_client :: "'c \<Rightarrow> string \<Rightarrow> etcd_error + 'c etcd_client" where
  "etcd_from_client client namespace =
     and_then (normalize_namespace namespace) (\<lambda>n.
       Inr \<lparr>cl_client = client, cl_namespace = n, cl_backoff = reconnect_default\<rparr>)"

definition config_key :: "'c etcd_client \<Rightarrow> string \<Rightarrow> etcd_error + string" where
  "config_key c name =
     and_then (validate_name ''configuration name'' name) (\<lambda>_. Inr (cl_namespace c @ ''/config/'' @ name))"

definition service_prefix :: "'c etcd_client \<Rightarrow> string \<Rightarrow> etcd_error + string" where
  "service_prefix c service =
     and_then (validate_name ''service name'' service) (\<lambda>_. Inr (cl_namespace c @ ''/discovery/'' @ service @ ''/''))"

definition service_key :: "'c etcd_client \<Rightarrow> string \<Rightarrow> string \<Rightarrow> etcd_error + string" where
  "service_key c service instance_name =
     and_then (validate_name ''instance name'' instance_name) (\<lambda>_.
       and_then (service_prefix c service) (\<lambda>prefix. Inr (prefix @ instance_name)))"

section \<open>Publishing\<close>

definition i64_max :: nat where
  "i64_max = 2 ^ 63 - 1"

definition ttl_seconds :: "duration \<Rightarrow> nat" where
  "ttl_seconds ttl = min i64_max (max (as_secs ttl) 1)"

text \<open>The period of the keep-alive timer, in seconds.\<close>

definition keep_alive_seconds :: "nat \<Rightarrow> nat" where
  "keep_alive_seconds ttl = max (ttl div 3) 1"

text \<open>
  The answers of the server to the grant and the put, in that order; the put is sent under the granted
  lease, which the result carries with the key and the endpoint.
\<close>

definition etcd_publish ::
  "(nat \<Rightarrow> client_error + int) \<Rightarrow> (string \<Rightarrow> string \<Rightarrow> int \<Rightarrow> client_error + unit) \<Rightarrow> 'c etcd_client \<Rightarrow>
   string \<Rightarrow> string \<Rightarrow> string \<Rightarrow> duration \<Rightarrow> etcd_error + (string \<times> int)" where
  "etcd_publish lease_grant put c service instance_name endpoint ttl =
     (if ttl = 0 then Inl InvalidLeaseTtl
      else and_then (service_key c service instance_name) (\<lambda>key.
        if is_blank endpoint then Inl (EmptyName ''endpoint'')
        else case lease_grant (ttl_seconds ttl) of
          Inl e \<Rightarrow> Inl (ClientError e)
        | Inr lease_id \<Rightarrow>
            (case put key endpoint lease_id of
               Inl e \<Rightarrow> Inl (ClientError e)
             | Inr _ \<Rightarrow> Inr (key, lease_id))))"

text \<open>
  The task behind a lease: \<open>KeepAlive\<close> is one tick of the timer with the answers of the server to the
  request and of the response stream (a response carries the remaining time to live, which the code
  does not read), \<open>ShutdownSignal\<close> the explicit revocation or the dropped lease.
\<close>

datatype lease_input =
    KeepAlive "client_error + unit" "client_error + nat option"
  | ShutdownSignal "client_error + unit"

fun lease_step :: "lease_input \<Rightarrow> (etcd_error + unit) option" where
  "lease_step (ShutdownSignal (Inl e)) = Some (Inl (ClientError e))"
| "lease_step (ShutdownSignal (Inr _)) = Some (Inr ())"
| "lease_step (KeepAlive (Inl e) _) = Some (Inl (ClientError e))"
| "lease_step (KeepAlive (Inr _) (Inl e)) = Some (Inl (ClientError e))"
| "lease_step (KeepAlive (Inr _) (Inr None)) = Some (Inl (TaskError ''lease keep-alive stream closed''))"
| "lease_step (KeepAlive (Inr _) (Inr (Some _))) = None"

text \<open>The task from its start: the keep-alive stream is opened first. \<open>None\<close>: still running.\<close>

fun lease_loop :: "lease_input list \<Rightarrow> (etcd_error + unit) option" where
  "lease_loop [] = None"
| "lease_loop (i # rest) = (case lease_step i of Some r \<Rightarrow> Some r | None \<Rightarrow> lease_loop rest)"

definition lease_task :: "client_error + unit \<Rightarrow> lease_input list \<Rightarrow> (etcd_error + unit) option" where
  "lease_task opened inputs = (case opened of Inl e \<Rightarrow> Some (Inl (ClientError e)) | Inr _ \<Rightarrow> lease_loop inputs)"

section \<open>Watching a configuration value\<close>

datatype event_type = Put | Delete

type_synonym kv_event = "event_type \<times> (string \<times> string) option"

text \<open>\<open>value_str\<close>.\<close>

definition value_str :: "string \<Rightarrow> etcd_error + string" where
  "value_str v = (if utf8 (map of_char v) then Inr v else Inl (ClientError Utf8Error))"

fun config_events ::
  "(string \<Rightarrow> config_format \<Rightarrow> config_error + 't) \<Rightarrow> kv_event list \<Rightarrow> 't dynamic_config \<Rightarrow>
   (etcd_error + unit) \<times> 't dynamic_config" where
  "config_events parse [] d = (Inr (), d)"
| "config_events parse ((Put, Some (_, v)) # es) d =
     (case value_str v of
        Inl e \<Rightarrow> (Inl e, d)
      | Inr s \<Rightarrow> config_events parse es (snd (dynamic_update parse s d)))"
| "config_events parse (_ # es) d = config_events parse es d"

text \<open>The loop over the messages of the stream; the task ends when the stream does.\<close>

fun config_messages ::
  "(string \<Rightarrow> config_format \<Rightarrow> config_error + 't) \<Rightarrow> (client_error + kv_event list option) list \<Rightarrow> 't dynamic_config \<Rightarrow>
   (etcd_error + unit) option \<times> 't dynamic_config" where
  "config_messages parse [] d = (None, d)"
| "config_messages parse (Inl e # ms) d = (Some (Inl (ClientError e)), d)"
| "config_messages parse (Inr None # ms) d = (Some (Inl (TaskError ''configuration watch closed'')), d)"
| "config_messages parse (Inr (Some es) # ms) d =
     (case config_events parse es d of
        (Inl e, d1) \<Rightarrow> (Some (Inl e), d1)
      | (Inr _, d1) \<Rightarrow> config_messages parse ms d1)"

text \<open>The first part: the key, the value read, and the revision after which the watch starts.\<close>

definition watch_config ::
  "(string \<Rightarrow> client_error + nat option \<times> (string \<times> string) list) \<Rightarrow>
   (string \<Rightarrow> config_format \<Rightarrow> config_error + 't) \<Rightarrow> 'c etcd_client \<Rightarrow> string \<Rightarrow> config_format \<Rightarrow>
   etcd_error + ('t dynamic_config \<times> string \<times> nat)" where
  "watch_config get parse c name format =
     and_then (config_key c name) (\<lambda>key.
       case get key of
         Inl e \<Rightarrow> Inl (ClientError e)
       | Inr (header, kvs) \<Rightarrow>
           let revision = (case header of None \<Rightarrow> 0 | Some r \<Rightarrow> r) in
           (case kvs of
              [] \<Rightarrow> Inl (MissingConfig key)
            | kv # _ \<Rightarrow>
                and_then (value_str (snd kv)) (\<lambda>v.
                  case dynamic_new parse v format of
                    Inl e \<Rightarrow> Inl (InvalidConfig e)
                  | Inr d \<Rightarrow> Inr (d, key, revision + 1))))"

section \<open>Subscribing to a service\<close>

definition sorted_endpoints :: "(string, string) bmap \<Rightarrow> string list" where
  "sorted_endpoints entries = remdups_adj (sort (map snd entries))"

datatype phase = Opening | Streaming | Relisting | Closed

record watcher =
  wa_entries :: "(string, string) bmap"
  wa_revision :: nat
  wa_attempt :: nat
  wa_published :: "string list"
  wa_phase :: phase

text \<open>The list with which the subscription starts: one value that is not UTF-8 fails it.\<close>

fun insert_all :: "(string \<times> string) list \<Rightarrow> (string, string) bmap \<Rightarrow> etcd_error + (string, string) bmap" where
  "insert_all [] entries = Inr entries"
| "insert_all ((k, v) # kvs) entries =
     and_then (value_str v) (\<lambda>s. insert_all kvs (bt_put k s entries))"

definition etcd_subscribe :: "client_error + nat option \<times> (string \<times> string) list \<Rightarrow> etcd_error + watcher" where
  "etcd_subscribe response =
     (case response of
        Inl e \<Rightarrow> Inl (ClientError e)
      | Inr (header, kvs) \<Rightarrow>
          and_then (insert_all kvs []) (\<lambda>entries.
            Inr \<lparr>wa_entries = entries, wa_revision = (case header of None \<Rightarrow> 0 | Some r \<Rightarrow> r), wa_attempt = 0,
              wa_published = sorted_endpoints entries, wa_phase = Opening\<rparr>))"

text \<open>The first revision that the next watch asks for.\<close>

definition start_revision :: "watcher \<Rightarrow> nat" where
  "start_revision w = sat_add i64_max (wa_revision w) 1"

text \<open>One message: \<open>None\<close> is the \<open>?\<close> that ends the task.\<close>

fun apply_events :: "kv_event list \<Rightarrow> bool \<Rightarrow> (string, string) bmap \<Rightarrow> (bool \<times> (string, string) bmap) option" where
  "apply_events [] dirty entries = Some (dirty, entries)"
| "apply_events ((_, None) # es) dirty entries = apply_events es dirty entries"
| "apply_events ((Put, Some (k, v)) # es) dirty entries =
     (case value_str v of Inl _ \<Rightarrow> None | Inr s \<Rightarrow> apply_events es True (bt_put k s entries))"
| "apply_events ((Delete, Some (k, _)) # es) dirty entries = apply_events es True (bt_del k entries)"

definition watch_message :: "nat option \<Rightarrow> kv_event list \<Rightarrow> watcher \<Rightarrow> watcher" where
  "watch_message header events w =
     (let w1 = (case header of None \<Rightarrow> w | Some r \<Rightarrow> w\<lparr>wa_revision := max (wa_revision w) r\<rparr>) in
      case apply_events events False (wa_entries w) of
        None \<Rightarrow> w1\<lparr>wa_phase := Closed\<rparr>
      | Some (dirty, entries) \<Rightarrow>
          w1\<lparr>wa_entries := entries, wa_attempt := 0,
            wa_published := (if dirty then sorted_endpoints entries else wa_published w)\<rparr>)"

text \<open>The watch could not be opened, or its stream ended: the task sleeps, then lists again.\<close>

definition watch_broken :: "reconnect_backoff \<Rightarrow> nat \<Rightarrow> watcher \<Rightarrow> duration \<times> watcher" where
  "watch_broken backoff seed w =
     (reconnect_delay (wa_attempt w) ((seed + wa_attempt w) mod 2 ^ 64) backoff,
      w\<lparr>wa_attempt := sat_add u32_max (wa_attempt w) 1, wa_phase := Relisting\<rparr>)"

definition relisted :: "(string \<times> string) list \<Rightarrow> (string, string) bmap" where
  "relisted kvs = fold (\<lambda>(k, v). bt_put k v) (filter (\<lambda>(k, v). utf8 (map of_char v)) kvs) []"

definition watch_relist :: "client_error + nat option \<times> (string \<times> string) list \<Rightarrow> watcher \<Rightarrow> watcher" where
  "watch_relist response w =
     (case response of
        Inl _ \<Rightarrow> w\<lparr>wa_phase := Opening\<rparr>
      | Inr (header, kvs) \<Rightarrow>
          let entries = relisted kvs in
          w\<lparr>wa_revision := (case header of None \<Rightarrow> wa_revision w | Some r \<Rightarrow> r), wa_entries := entries,
            wa_published := sorted_endpoints entries, wa_phase := Opening\<rparr>)"

section \<open>The subscription against a server\<close>

text \<open>
  The server's history, one entry per revision: a change of a key under the prefix, or one elsewhere.
  What a reader should see is the store with the values that are text: a value that is not text
  hides its key.
\<close>

datatype change = SetKey string string | DropKey string | Elsewhere

fun seen_after :: "change list \<Rightarrow> string \<rightharpoonup> string" where
  "seen_after [] = Map.empty"
| "seen_after (c # older) =
     (case c of
        SetKey k v \<Rightarrow> (seen_after older)(k := (if utf8 (map of_char v) then Some v else None))
      | DropKey k \<Rightarrow> (seen_after older)(k := None)
      | Elsewhere \<Rightarrow> seen_after older)"

definition seen_at :: "change list \<Rightarrow> nat \<Rightarrow> string \<rightharpoonup> string" where
  "seen_at history r = seen_after (rev (take r history))"

fun event_of :: "change \<Rightarrow> kv_event list" where
  "event_of (SetKey k v) = [(Put, Some (k, v))]"
| "event_of (DropKey k) = [(Delete, Some (k, []))]"
| "event_of Elsewhere = []"

definition events_between :: "change list \<Rightarrow> nat \<Rightarrow> nat \<Rightarrow> kv_event list" where
  "events_between history a b = concat (map event_of (take (b - a) (drop a history)))"

text \<open>A list of the keys of the prefix at a revision: every key once, with its raw value.\<close>

fun raw_after :: "change list \<Rightarrow> string \<rightharpoonup> string" where
  "raw_after [] = Map.empty"
| "raw_after (c # older) =
     (case c of
        SetKey k v \<Rightarrow> (raw_after older)(k \<mapsto> v)
      | DropKey k \<Rightarrow> (raw_after older)(k := None)
      | Elsewhere \<Rightarrow> raw_after older)"

definition listing :: "change list \<Rightarrow> (string \<times> string) list \<Rightarrow> bool" where
  "listing history kvs \<longleftrightarrow> distinct (map fst kvs) \<and> map_of kvs = raw_after (rev history)"

record etcd_run =
  er_history :: "change list"
  er_position :: nat  \<comment> \<open>revisions up to here have been sent on the open stream\<close>
  er_watcher :: watcher

text \<open>
  A message covers the revisions after the stream's position up to some later one; its header carries
  that revision, or with \<open>delayed\<close> possibly a later one that the server has already reached (etcd
  stamps the messages of a watcher that is catching up with its current revision).
\<close>

inductive etcd_reach :: "bool \<Rightarrow> etcd_run \<Rightarrow> bool" for delayed where
  subscribed:
    "length history < i64_max \<Longrightarrow> listing history kvs \<Longrightarrow>
     etcd_subscribe (Inr (Some (length history), kvs)) = Inr w \<Longrightarrow>
     etcd_reach delayed \<lparr>er_history = history, er_position = 0, er_watcher = w\<rparr>"
| changes:
    "etcd_reach delayed s \<Longrightarrow> length (er_history s) + 1 < i64_max \<Longrightarrow>
     etcd_reach delayed (s\<lparr>er_history := er_history s @ [c]\<rparr>)"
| opens:
    "etcd_reach delayed s \<Longrightarrow> wa_phase (er_watcher s) = Opening \<Longrightarrow>
     etcd_reach delayed (s\<lparr>er_position := start_revision (er_watcher s) - 1,
       er_watcher := (er_watcher s)\<lparr>wa_phase := Streaming\<rparr>\<rparr>)"
| message:
    "etcd_reach delayed s \<Longrightarrow> wa_phase (er_watcher s) = Streaming \<Longrightarrow>
     er_position s \<le> sent \<Longrightarrow> sent \<le> header \<Longrightarrow> header \<le> length (er_history s) \<Longrightarrow> header = sent \<or> delayed \<Longrightarrow>
     etcd_reach delayed (s\<lparr>er_position := sent,
       er_watcher := watch_message (Some header) (events_between (er_history s) (er_position s) sent) (er_watcher s)\<rparr>)"
| breaks:
    "etcd_reach delayed s \<Longrightarrow> wa_phase (er_watcher s) \<in> {Opening, Streaming} \<Longrightarrow>
     etcd_reach delayed (s\<lparr>er_watcher := snd (watch_broken backoff seed (er_watcher s))\<rparr>)"
| relists:
    "etcd_reach delayed s \<Longrightarrow> wa_phase (er_watcher s) = Relisting \<Longrightarrow> listing (er_history s) kvs \<Longrightarrow>
     etcd_reach delayed (s\<lparr>er_watcher := watch_relist (Inr (Some (length (er_history s)), kvs)) (er_watcher s)\<rparr>)"
| relist_fails:
    "etcd_reach delayed s \<Longrightarrow> wa_phase (er_watcher s) = Relisting \<Longrightarrow>
     etcd_reach delayed (s\<lparr>er_watcher := watch_relist (Inl e) (er_watcher s)\<rparr>)"

section \<open>What the reader sees\<close>

lemma distinct_remdups_adj_sorted: "sorted xs \<Longrightarrow> distinct (remdups_adj xs)"
  by (induction xs rule: remdups_adj.induct) (auto dest: order_antisym)

lemma sorted_endpoints_ran:
  assumes "bt_ok entries"
  shows "sorted_endpoints entries = sorted_list_of_set (ran (map_of entries))"
proof -
  have "ran (map_of entries) = set (map snd entries)"
    using bt_ok_distinct [OF assms] by (simp add: ran_distinct)
  moreover have "sorted_endpoints entries = sorted_list_of_set (set (map snd entries))"
    unfolding sorted_endpoints_def
    by (rule sorted_distinct_set_unique) (simp_all add: distinct_remdups_adj_sorted)
  ultimately show ?thesis by simp
qed

lemma seen_after_raw:
  "seen_after h k = (case raw_after h k of None \<Rightarrow> None | Some v \<Rightarrow> if utf8 (map of_char v) then Some v else None)"
  by (induction h) (auto split: change.splits option.splits)

lemma fold_bt_put:
  assumes "bt_ok m" "distinct (map fst kvs)"
  shows "bt_ok (fold (\<lambda>(k, v). bt_put k v) kvs m) \<and>
    map_of (fold (\<lambda>(k, v). bt_put k v) kvs m) k = (case map_of kvs k of None \<Rightarrow> map_of m k | Some v \<Rightarrow> Some v)"
  using assms
proof (induction kvs arbitrary: m)
  case (Cons kv kvs)
  obtain a v where kv: "kv = (a, v)" by (cases kv)
  have "map_of kvs a = None" using Cons.prems(2) by (simp add: kv map_of_eq_None_iff)
  with Cons show ?case by (auto simp: kv kv_simps split: option.splits)
qed simp

lemma relisted_seen:
  assumes "listing history kvs"
  shows "bt_ok (relisted kvs) \<and> map_of (relisted kvs) = seen_at history (length history)"
proof -
  let ?ok = "\<lambda>(k :: string, v). utf8 (map of_char v)"
  have dist: "distinct (map fst kvs)" and raw: "map_of kvs = raw_after (rev history)"
    using assms by (simp_all add: listing_def)
  have dist': "distinct (map fst (filter ?ok kvs))" using dist by (rule distinct_map_filter)
  have "map_of (filter ?ok kvs) k = seen_after (rev history) k" for k
    using map_of_filter_pred [of kvs ?ok k] dist by (auto simp: hm_ok_def seen_after_raw raw [symmetric] split: option.splits)
  then show ?thesis
    using fold_bt_put [OF bt.ok_empty dist'] by (auto simp: relisted_def seen_at_def split: option.splits)
qed

lemma insert_all_fold:
  "insert_all kvs m = Inr m' \<Longrightarrow>
   (\<forall>(k, v) \<in> set kvs. utf8 (map of_char v)) \<and> m' = fold (\<lambda>(k, v). bt_put k v) kvs m"
  by (induction kvs m rule: insert_all.induct) (auto simp: and_then_Inr value_str_def split: if_splits)

lemma insert_all_relisted: "insert_all kvs [] = Inr m \<Longrightarrow> m = relisted kvs"
proof -
  assume "insert_all kvs [] = Inr m"
  from insert_all_fold [OF this] show ?thesis
    by (simp add: relisted_def case_prod_beta cong: filter_cong)
qed

lemma apply_events_seen:
  "apply_events (concat (map event_of cs)) dirty m = Some (dirty', m') \<Longrightarrow> bt_ok m \<Longrightarrow>
   map_of m = seen_after (rev h) \<Longrightarrow>
   bt_ok m' \<and> map_of m' = seen_after (rev (h @ cs)) \<and> (\<not> dirty' \<longrightarrow> m' = m \<and> \<not> dirty)"
proof (induction cs arbitrary: h dirty m)
  case (Cons c cs)
  show ?case
  proof (cases c)
    case (SetKey k v)
    then have text_v: "utf8 (map of_char v)" and
      rest: "apply_events (concat (map event_of cs)) True (bt_put k v m) = Some (dirty', m')"
      using Cons.prems(1) by (auto simp: value_str_def split: if_splits)
    have "map_of (bt_put k v m) = seen_after (rev (h @ [c]))"
      using Cons.prems(3) SetKey text_v by (simp add: map_of_bt_put fun_eq_iff)
    from Cons.IH [OF rest bt.ok_put [OF Cons.prems(2)] this] show ?thesis by simp
  next
    case (DropKey k)
    then have rest: "apply_events (concat (map event_of cs)) True (bt_del k m) = Some (dirty', m')"
      using Cons.prems(1) by simp
    have "map_of (bt_del k m) = seen_after (rev (h @ [c]))"
      using Cons.prems(3) DropKey by (simp add: map_of_bt_del fun_eq_iff)
    from Cons.IH [OF rest bt.ok_del [OF Cons.prems(2)] this] show ?thesis by simp
  next
    case Elsewhere
    then show ?thesis using Cons.IH [of dirty m "h @ [c]"] Cons.prems by simp
  qed
qed simp

definition tracks :: "etcd_run \<Rightarrow> bool" where
  "tracks s \<longleftrightarrow> length (er_history s) < i64_max \<and>
     (wa_phase (er_watcher s) \<noteq> Closed \<longrightarrow>
        bt_ok (wa_entries (er_watcher s)) \<and> wa_revision (er_watcher s) \<le> length (er_history s) \<and>
        map_of (wa_entries (er_watcher s)) = seen_at (er_history s) (wa_revision (er_watcher s)) \<and>
        wa_published (er_watcher s) = sorted_endpoints (wa_entries (er_watcher s)) \<and>
        (wa_phase (er_watcher s) = Streaming \<longrightarrow> er_position s = wa_revision (er_watcher s)))"

lemma message_tracks:
  assumes s: "tracks s" "wa_phase (er_watcher s) = Streaming"
    and b: "er_position s \<le> sent" "sent \<le> length (er_history s)"
  shows "tracks (s\<lparr>er_position := sent,
    er_watcher := watch_message (Some sent) (events_between (er_history s) (er_position s) sent) (er_watcher s)\<rparr>)"
proof (cases "apply_events (events_between (er_history s) (er_position s) sent) False (wa_entries (er_watcher s))")
  case None
  then show ?thesis using s by (simp add: tracks_def watch_message_def Let_def)
next
  case (Some r)
  obtain ch m where r: "r = (ch, m)" by (cases r)
  let ?w = "er_watcher s" and ?h = "er_history s"
  have w: "bt_ok (wa_entries ?w)" "map_of (wa_entries ?w) = seen_after (rev (take (er_position s) ?h))"
    "er_position s = wa_revision ?w" "wa_published ?w = sorted_endpoints (wa_entries ?w)" "length ?h < i64_max"
    using s by (simp_all add: tracks_def seen_at_def)
  have split: "take (er_position s) ?h @ take (sent - er_position s) (drop (er_position s) ?h) = take sent ?h"
    using b(1) by (metis le_add_diff_inverse take_add)
  have "bt_ok m \<and> map_of m = seen_at ?h sent \<and> (\<not> ch \<longrightarrow> m = wa_entries ?w)"
    using apply_events_seen [OF Some [unfolded r events_between_def] w(1,2)] by (simp add: split seen_at_def)
  then show ?thesis
    using Some w b by (auto simp: tracks_def watch_message_def Let_def r)
qed

lemma etcd_reach_tracks: "etcd_reach False s \<Longrightarrow> tracks s"
proof (induction rule: etcd_reach.induct)
  case (subscribed history kvs w)
  then obtain m where m: "insert_all kvs [] = Inr m" "w = \<lparr>wa_entries = m, wa_revision = length history, wa_attempt = 0,
      wa_published = sorted_endpoints m, wa_phase = Opening\<rparr>"
    by (auto simp: etcd_subscribe_def and_then_Inr)
  with subscribed relisted_seen [OF subscribed(2)] insert_all_relisted [OF m(1)] show ?case
    by (simp add: tracks_def)
next
  case (changes s c)
  then show ?case by (auto simp: tracks_def seen_at_def)
next
  case (opens s)
  then show ?case by (auto simp: tracks_def start_revision_def sat_add_def)
next
  case (message s sent header)
  then show ?case using message_tracks [of s sent] by simp
next
  case (breaks s backoff seed)
  then show ?case by (auto simp: tracks_def watch_broken_def)
next
  case (relists s kvs)
  then show ?case
    using relisted_seen [of "er_history s" kvs] by (auto simp: tracks_def watch_relist_def Let_def)
next
  case (relist_fails s e)
  then show ?case by (auto simp: tracks_def watch_relist_def)
qed



text \<open>
  When the header of a message may be ahead of its events, as etcd's is for a watcher that is
  catching up, a stream that breaks right after such a message and a list that fails leave the watcher
  behind for good: it resumes after revisions it never saw, and has nothing outstanding.
\<close>

lemma delayed_header_misses_events:
  "\<exists>s. etcd_reach True s \<and> wa_phase (er_watcher s) = Streaming \<and> er_position s = length (er_history s) \<and>
     wa_revision (er_watcher s) = length (er_history s) \<and> wa_published (er_watcher s) = [''x''] \<and>
     ran (seen_at (er_history s) (length (er_history s))) = {''x'', ''y''}"
proof -
  let ?w = "\<lambda>es r at ps ph. \<lparr>wa_entries = es, wa_revision = r, wa_attempt = at, wa_published = ps, wa_phase = ph\<rparr>"
  let ?h = "[SetKey ''a'' ''x'', SetKey ''b'' ''y'']"
  have "etcd_reach True \<lparr>er_history = [], er_position = 0, er_watcher = ?w [] 0 0 [] Opening\<rparr>"
    by (rule etcd_reach.subscribed [where kvs = "[]"])
      (simp_all add: i64_max_def listing_def etcd_subscribe_def sorted_endpoints_def)
  from etcd_reach.opens [OF this]
  have "etcd_reach True \<lparr>er_history = [], er_position = 0, er_watcher = ?w [] 0 0 [] Streaming\<rparr>"
    by (simp add: start_revision_def sat_add_def i64_max_def)
  from etcd_reach.changes [OF etcd_reach.changes [OF this, of "SetKey ''a'' ''x''"], of "SetKey ''b'' ''y''"]
  have "etcd_reach True \<lparr>er_history = ?h, er_position = 0, er_watcher = ?w [] 0 0 [] Streaming\<rparr>"
    by (simp add: i64_max_def)
  from etcd_reach.message [OF this, of 1 2]
  have "etcd_reach True \<lparr>er_history = ?h, er_position = 1, er_watcher = ?w [(''a'', ''x'')] 2 0 [''x''] Streaming\<rparr>"
    by (simp add: watch_message_def events_between_def value_str_def sorted_endpoints_def)
  from etcd_reach.breaks [OF this, of reconnect_default 0]
  have "etcd_reach True \<lparr>er_history = ?h, er_position = 1, er_watcher = ?w [(''a'', ''x'')] 2 1 [''x''] Relisting\<rparr>"
    by (simp add: watch_broken_def sat_add_def u32_max_def)
  from etcd_reach.opens [OF etcd_reach.relist_fails [OF this, of Utf8Error]]
  have run: "etcd_reach True \<lparr>er_history = ?h, er_position = 2, er_watcher = ?w [(''a'', ''x'')] 2 1 [''x''] Streaming\<rparr>"
    by (simp add: watch_relist_def start_revision_def sat_add_def i64_max_def)
  have "seen_at ?h 2 = [''a'' \<mapsto> ''x'', ''b'' \<mapsto> ''y'']" by (simp add: seen_at_def)
  then have "ran (seen_at ?h 2) = {''x'', ''y''}" by (simp add: insert_commute)
  then have now: "ran (seen_at ?h (length ?h)) = {''x'', ''y''}" by (simp only: list.size numeral_2_eq_2 One_nat_def add_0 add_Suc_shift)
  show ?thesis by (rule exI, rule conjI [OF run]) (simp add: now [simplified])
qed

text \<open>A server that reports the lease as expired does not stop the keep-alive task.\<close>

lemma expired_lease_kept_alive: "lease_task (Inr ()) (replicate n (KeepAlive (Inr ()) (Inr (Some 0)))) = None"
  by (induction n) (simp_all add: lease_task_def)

lemma keep_alive_before_expiry: "2 * nanos_per_sec \<le> ttl \<Longrightarrow> keep_alive_seconds (ttl_seconds ttl) < ttl_seconds ttl"
  by (auto simp: keep_alive_seconds_def ttl_seconds_def i64_max_def as_secs_def nanos_per_sec_def min_def max_def)

text \<open>Two different pairs of a service and an instance are published under different keys.\<close>

lemma service_key_inj:
  assumes "service_key c s i = Inr k" "service_key c s' i' = Inr k"
  shows "s = s' \<and> i = i'"
proof -
  have ok: "CHR ''/'' \<notin> set s" "CHR ''/'' \<notin> set s'" "k = cl_namespace c @ ''/discovery/'' @ s @ CHR ''/'' # i"
    "k = cl_namespace c @ ''/discovery/'' @ s' @ CHR ''/'' # i'"
    using assms by (auto simp: service_key_def service_prefix_def and_then_Inr validate_name_def)
  then have "s @ CHR ''/'' # i = s' @ CHR ''/'' # i'" by simp
  then have "takeWhile (\<lambda>x. x \<noteq> CHR ''/'') (s @ CHR ''/'' # i) = takeWhile (\<lambda>x. x \<noteq> CHR ''/'') (s' @ CHR ''/'' # i')"
    by simp
  moreover have "takeWhile (\<lambda>x. x \<noteq> c) (a @ c # b) = a" if "c \<notin> set a" for a b and c :: char
    using that by (induction a) auto
  ultimately have "s = s'" using ok(1,2) by simp
  with ok show ?thesis by simp
qed

text \<open>The values of the puts of a message, and what the watched configuration is after them.\<close>

fun put_values :: "kv_event list \<Rightarrow> string list" where
  "put_values [] = []"
| "put_values ((Put, Some (_, v)) # es) = v # put_values es"
| "put_values (_ # es) = put_values es"

lemma dynamic_update_alone:
  assumes "dy_tickets d = []" "dy_written d = []"
  shows "(\<nexists>x. parse v (dy_format d) = Inr x) \<Longrightarrow> snd (dynamic_update parse v d) = d"
    and "parse v (dy_format d) = Inr x \<Longrightarrow> d1 = snd (dynamic_update parse v d) \<Longrightarrow>
      dy_format d1 = dy_format d \<and> dy_tickets d1 = [] \<and> dy_written d1 = [] \<and>
      cs_raw (dy_snapshot d1) = v \<and> cs_value (dy_snapshot d1) = x"
  using assms
  by (auto simp: dynamic_update_def update_begin_def update_write_def update_send_def Let_def split: sum.splits)

lemma config_watch_last_good:
  "config_events parse es d = (Inr (), d') \<Longrightarrow> dy_tickets d = [] \<Longrightarrow> dy_written d = [] \<Longrightarrow>
   dy_format d' = dy_format d \<and> dy_tickets d' = [] \<and> dy_written d' = [] \<and>
   (let good = filter (\<lambda>v. \<exists>x. parse v (dy_format d) = Inr x) (put_values es) in
    if good = [] then d' = d
    else cs_raw (dy_snapshot d') = last good \<and> parse (last good) (dy_format d) = Inr (cs_value (dy_snapshot d')))"
proof (induction parse es d rule: config_events.induct)
  case (2 parse k v es d)
  define d1 where "d1 = snd (dynamic_update parse v d)"
  have rest: "config_events parse es d1 = (Inr (), d')" and v: "value_str v = Inr v"
    using "2.prems"(1) by (auto simp: value_str_def d1_def split: if_splits)
  have IH: "dy_tickets d1 = [] \<Longrightarrow> dy_written d1 = [] \<Longrightarrow>
   dy_format d' = dy_format d1 \<and> dy_tickets d' = [] \<and> dy_written d' = [] \<and>
   (let good = filter (\<lambda>v. \<exists>x. parse v (dy_format d1) = Inr x) (put_values es) in
    if good = [] then d' = d1
    else cs_raw (dy_snapshot d') = last good \<and> parse (last good) (dy_format d1) = Inr (cs_value (dy_snapshot d')))"
    using rest unfolding d1_def by (rule "2.IH" [OF v])
  show ?case
  proof (cases "\<exists>x. parse v (dy_format d) = Inr x")
    case False
    then have "d1 = d" using dynamic_update_alone(1) "2.prems"(2,3) by (simp add: d1_def)
    then show ?thesis using IH [unfolded \<open>d1 = d\<close>] "2.prems"(2,3) False by (auto simp: Let_def split: if_splits)
  next
    case True
    then obtain x where x: "parse v (dy_format d) = Inr x" by blast
    note u = dynamic_update_alone(2) [OF "2.prems"(2,3) x d1_def]
    show ?thesis using IH u x by (auto simp: Let_def)
  qed
qed (auto simp: Let_def)

end
