(* ===== verification/Rpc_Stack.thy ===== *)
theory Rpc_Stack
  imports Response Trace
begin

text \<open>
  The common layers of gRPC servers and clients: \<open>rpc/src/stack.rs\<close>, \<open>rpc/src/resilience.rs\<close>,
  \<open>rpc/src/timeout.rs\<close> and \<open>rpc/src/auth.rs\<close>. A call that is admitted holds a permit of the load shedder, a
  permit of its method's circuit breaker and a record for the slow-call log, until its response body has
  been read or dropped. What a body does to these is an effect; \<open>apply_effect\<close> says what an effect does
  to the breaker, the shedder and the log. The metrics layer between the stack and the service only
  observes.
\<close>

section \<open>Statuses\<close>

definition is_infrastructure :: "grpc_code \<Rightarrow> bool" where
  "is_infrastructure code =
     (code \<in> {DeadlineExceeded, Internal, Unavailable, DataLoss, Unimplemented, ResourceExhausted})"

definition acceptable_status :: "grpc_code \<Rightarrow> bool" where
  "acceptable_status code = (\<not> is_infrastructure code)"

definition circuit_outcome_of :: "grpc_code \<Rightarrow> circuit_outcome" where
  "circuit_outcome_of code =
     (if code = Cancelled then Cancellation else if acceptable_status code then Success else Failure)"

definition status_outcome :: "grpc_code \<Rightarrow> circuit_outcome" where
  "status_outcome code =
     (if code = Cancelled then Cancellation else if is_infrastructure code then Failure else Success)"

lemma status_outcome_agrees: "status_outcome code = circuit_outcome_of code"
  by (simp add: status_outcome_def circuit_outcome_of_def acceptable_status_def)

text \<open>\<open>Code::from_i32\<close>: the numbers of the codes; any other number is \<open>Unknown\<close>.\<close>

definition code_of_int :: "int \<Rightarrow> grpc_code" where
  "code_of_int i =
     (let codes = [Ok, Cancelled, Unknown, InvalidArgument, DeadlineExceeded, NotFound, AlreadyExists, PermissionDenied,
          ResourceExhausted, FailedPrecondition, Aborted, OutOfRange, Unimplemented, Internal, Unavailable, DataLoss,
          Unauthenticated] in
      if 0 \<le> i \<and> nat i < length codes then codes ! nat i else Unknown)"

definition parse_i32 :: "string \<Rightarrow> int option" where
  "parse_i32 s =
     (case parse_i64 s of None \<Rightarrow> None | Some i \<Rightarrow> if - (2 ^ 31) \<le> i \<and> i < 2 ^ 31 then Some i else None)"

definition header_str :: "string \<Rightarrow> headers \<Rightarrow> string option" where
  "header_str n hs = Option.bind (map_of hs n) to_str"

definition grpc_status :: "headers \<Rightarrow> grpc_code option" where
  "grpc_status hs = map_option code_of_int (Option.bind (header_str ''grpc-status'' hs) parse_i32)"

section \<open>Deadlines on the wire\<close>

definition timeout_units :: "(char \<times> nat) list" where
  "timeout_units =
     [(CHR ''n'', 1), (CHR ''u'', 1000), (CHR ''m'', 1000000), (CHR ''S'', 1000000000),
      (CHR ''M'', 60000000000), (CHR ''H'', 3600000000000)]"

fun first_fitting :: "nat \<Rightarrow> (char \<times> nat) list \<Rightarrow> string" where
  "first_fitting nanos [] = ''99999999H''"
| "first_fitting nanos ((unit, divisor) # us) =
     (let v = sat_add u128_max nanos (divisor - 1) div divisor in
      if v \<le> 99999999 then show_nat v @ [unit] else first_fitting nanos us)"

definition grpc_timeout :: "duration \<Rightarrow> string" where
  "grpc_timeout d = first_fitting (max d 1) timeout_units"

definition unit_duration :: "nat \<Rightarrow> char \<Rightarrow> duration option" where
  "unit_duration amount unit =
     (if unit = CHR ''n'' then Some amount
      else if unit = CHR ''u'' then Some (amount * 1000)
      else if unit = CHR ''m'' then Some (amount * 1000000)
      else if unit = CHR ''S'' then Some (amount * nanos_per_sec)
      else if unit = CHR ''M'' then Some (sat_mul u64_max amount 60 * nanos_per_sec)
      else if unit = CHR ''H'' then Some (sat_mul u64_max amount 3600 * nanos_per_sec)
      else None)"

definition parse_grpc_timeout :: "string \<Rightarrow> duration option" where
  "parse_grpc_timeout v =
     (if v = [] then None
      else
        let amount = butlast v in
        if amount = [] \<or> 8 < length amount then None
        else Option.bind (parse_usize amount) (\<lambda>n. unit_duration n (last v)))"

section \<open>Server deadlines\<close>

record server_timeout =
  sto_global :: "duration option"
  sto_methods :: "(string, duration) bmap"
  sto_services :: "(string, duration) bmap"

text \<open>\<open>rsplit_once('/')\<close>: the text before the last slash.\<close>

definition before_last_slash :: "string \<Rightarrow> string option" where
  "before_last_slash s =
     (if CHR ''/'' \<in> set s then Some (butlast (rev (dropWhile (\<lambda>c. c \<noteq> CHR ''/'') (rev s)))) else None)"

definition server_timeout_for :: "string \<Rightarrow> server_timeout \<Rightarrow> duration option" where
  "server_timeout_for path l =
     option_or (map_of (sto_methods l) path)
       (option_or (Option.bind (before_last_slash path) (map_of (sto_services l))) (sto_global l))"

datatype rpc_result =
    RpcResponded nat headers  \<comment> \<open>HTTP status and headers; the body is read later\<close>
  | RpcErrored
  | RpcPanicked
  | RpcDropped  \<comment> \<open>the call's future is dropped before it returns\<close>

text \<open>The inner call takes \<open>elapsed\<close> to return; \<open>None\<close> in the answer is the deadline status.\<close>

definition server_timeout_call :: "string \<Rightarrow> duration \<Rightarrow> rpc_result \<Rightarrow> server_timeout \<Rightarrow> rpc_result + grpc_code \<times> string" where
  "server_timeout_call path elapsed res l =
     (case server_timeout_for path l of
        Some d \<Rightarrow> if d < elapsed then Inr (DeadlineExceeded, ''server request timeout'') else Inl res
      | None \<Rightarrow> Inl res)"

section \<open>The server stack\<close>

record call_log =
  lg_method :: string
  lg_status :: string
  lg_elapsed :: duration
  lg_slow :: bool
  lg_deadline_exceeded :: bool
  lg_deadline :: "duration option"

record slow_call =
  sl_method :: string
  sl_deadline :: "duration option"
  sl_started :: instant

definition slow_emit :: "duration \<Rightarrow> instant \<Rightarrow> string \<Rightarrow> bool \<Rightarrow> slow_call \<Rightarrow> call_log" where
  "slow_emit threshold now status status_deadline_exceeded call =
     (let elapsed = now - sl_started call in
      \<lparr>lg_method = sl_method call, lg_status = status, lg_elapsed = elapsed, lg_slow = (threshold \<le> elapsed),
       lg_deadline_exceeded =
         (status_deadline_exceeded \<or> (case sl_deadline call of None \<Rightarrow> False | Some d \<Rightarrow> d \<le> elapsed)),
       lg_deadline = sl_deadline call\<rparr>)"

record 't rpc_stack =
  rk_auth :: "(string \<Rightarrow> 't option) option"
  rk_shedder :: "shedder option"
  rk_breakers :: "server_breakers option"
  rk_seed :: "64 word"
  rk_slow :: "duration option"
  rk_log :: "call_log list"

text \<open>The builder: the rolling breaker is installed by default.\<close>

definition rpc_stack_new :: "64 word \<Rightarrow> 't rpc_stack" where
  "rpc_stack_new seed =
     \<lparr>rk_auth = None, rk_shedder = None,
      rk_breakers = Some (server_breaker_new (breaker_config_rolling rolling_config_new)), rk_seed = seed,
      rk_slow = None, rk_log = []\<rparr>"

definition stack_with_bearer_auth :: "(string \<Rightarrow> 'u option) \<Rightarrow> 't rpc_stack \<Rightarrow> 'u rpc_stack" where
  "stack_with_bearer_auth validator k =
     \<lparr>rk_auth = Some validator, rk_shedder = rk_shedder k, rk_breakers = rk_breakers k, rk_seed = rk_seed k,
      rk_slow = rk_slow k, rk_log = rk_log k\<rparr>"

definition stack_with_load_shedder :: "shedder_config \<Rightarrow> instant \<Rightarrow> 't rpc_stack \<Rightarrow> 't rpc_stack" where
  "stack_with_load_shedder c now k = k\<lparr>rk_shedder := Some (shedder_new c now)\<rparr>"

definition stack_with_circuit_breaker :: "breaker_config \<Rightarrow> 't rpc_stack \<Rightarrow> 't rpc_stack" where
  "stack_with_circuit_breaker c k = k\<lparr>rk_breakers := Some (server_breaker_new c)\<rparr>"

definition stack_without_circuit_breaker :: "'t rpc_stack \<Rightarrow> 't rpc_stack" where
  "stack_without_circuit_breaker k = k\<lparr>rk_breakers := None\<rparr>"

definition stack_with_slow_log :: "duration \<Rightarrow> 't rpc_stack \<Rightarrow> 't rpc_stack option" where
  "stack_with_slow_log threshold k = (if threshold = 0 then None else Some (k\<lparr>rk_slow := Some threshold\<rparr>))"

record rpc_call =
  rc_path :: string
  rc_headers :: headers

text \<open>What an admitted call holds.\<close>

record 't admitted =
  ad_method :: string
  ad_trace :: trace_context
  ad_identity :: "'t option"
  ad_shed :: "instant option"
  ad_breaker :: "guard option"
  ad_slow :: "slow_call option"

text \<open>The readings of the clock, of the CPU and of the identifier sources during one call.\<close>

record readings =
  rd_now :: instant
  rd_usage :: f64
  rd_time :: "128 word"
  rd_ids :: "64 word \<times> 64 word"

definition server_trace :: "readings \<Rightarrow> headers \<Rightarrow> trace_context option" where
  "server_trace u hs =
     (let root = trace_root (TraceFlags 1) (rd_time u) (fst (rd_ids u)) (snd (rd_ids u)) in
      case header_str ''traceparent'' hs of
        None \<Rightarrow> Some root
      | Some v \<Rightarrow>
          (case trace_parse v of
             None \<Rightarrow> None
           | Some (Inl _) \<Rightarrow> Some root
           | Some (Inr parent) \<Rightarrow> Some (trace_child (fst (rd_ids u)) parent)))"

definition log_call :: "instant \<Rightarrow> string \<Rightarrow> bool \<Rightarrow> slow_call option \<Rightarrow> 't rpc_stack \<Rightarrow> 't rpc_stack" where
  "log_call now status flag call k =
     (case (call, rk_slow k) of
        (Some c, Some threshold) \<Rightarrow> k\<lparr>rk_log := rk_log k @ [slow_emit threshold now status flag c]\<rparr>
      | _ \<Rightarrow> k)"

definition log_code :: "instant \<Rightarrow> grpc_code \<Rightarrow> slow_call option \<Rightarrow> 't rpc_stack \<Rightarrow> 't rpc_stack" where
  "log_code now code = log_call now (grpc_code_name code) (code = DeadlineExceeded)"

definition invalid_credentials :: "grpc_code \<times> string" where
  "invalid_credentials =
     (Unauthenticated, failure_code InvalidCredentials @ '': '' @ failure_message InvalidCredentials)"

text \<open>Authentication: the identity, when the stack asks for one.\<close>

definition stack_identity :: "headers \<Rightarrow> 't rpc_stack \<Rightarrow> 't option option" where
  "stack_identity hs k =
     (case rk_auth k of
        None \<Rightarrow> Some None
      | Some auth \<Rightarrow>
          (case Option.bind (Option.bind (header_str ''authorization'' hs) bearer_token) auth of
             None \<Rightarrow> None
           | Some identity \<Rightarrow> Some (Some identity)))"

definition stack_shed :: "readings \<Rightarrow> 't rpc_stack \<Rightarrow> instant option option \<times> 't rpc_stack" where
  "stack_shed u k =
     (case rk_shedder k of
        None \<Rightarrow> (Some None, k)
      | Some sh \<Rightarrow>
          (case try_acquire (rd_usage u) (rd_now u) sh of
             (None, sh') \<Rightarrow> (None, k\<lparr>rk_shedder := Some sh'\<rparr>)
           | (Some permit, sh') \<Rightarrow> (Some (Some permit), k\<lparr>rk_shedder := Some sh'\<rparr>)))"

definition release_shed :: "instant \<Rightarrow> instant option \<Rightarrow> 't rpc_stack \<Rightarrow> 't rpc_stack" where
  "release_shed now permit k =
     (case permit of None \<Rightarrow> k | Some started \<Rightarrow> k\<lparr>rk_shedder := map_option (permit_drop started now) (rk_shedder k)\<rparr>)"

text \<open>
  \<open>RpcServerStackService::call\<close> up to the inner call: a refusal with its status, or the admitted call. A
  refusal by the breaker drops the shedder's permit. The outer option is the panic of a rejected breaker
  configuration or of the trace parser.
\<close>

definition server_admit ::
  "readings \<Rightarrow> rpc_call \<Rightarrow> 't rpc_stack \<Rightarrow> ((grpc_code \<times> string + 't admitted) \<times> 't rpc_stack) option" where
  "server_admit u q k =
     (case server_trace u (rc_headers q) of
        None \<Rightarrow> None
      | Some trace \<Rightarrow>
          let now = rd_now u;
              slow = map_option (\<lambda>_. \<lparr>sl_method = rc_path q,
                 sl_deadline = Option.bind (header_str ''grpc-timeout'' (rc_headers q)) parse_grpc_timeout,
                 sl_started = now\<rparr>) (rk_slow k) in
          case stack_identity (rc_headers q) k of
            None \<Rightarrow> Some (Inl invalid_credentials, log_code now Unauthenticated slow k)
          | Some identity \<Rightarrow>
              (case stack_shed u k of
                 (None, k1) \<Rightarrow>
                   Some (Inl (ResourceExhausted, ''gRPC server is overloaded''), log_code now ResourceExhausted slow k1)
               | (Some permit, k1) \<Rightarrow>
                   (case rk_breakers k1 of
                      None \<Rightarrow>
                        Some (Inr \<lparr>ad_method = rc_path q, ad_trace = trace, ad_identity = identity, ad_shed = permit,
                                   ad_breaker = None, ad_slow = slow\<rparr>, k1)
                    | Some v \<Rightarrow>
                        (case server_breaker_enter now (rc_path q) (rk_seed k1) v of
                           None \<Rightarrow> None
                         | Some (None, v', seed) \<Rightarrow>
                             Some (Inl (Unavailable, ''gRPC method circuit breaker is open''),
                               release_shed now permit
                                 (log_code now Unavailable slow (k1\<lparr>rk_breakers := Some v', rk_seed := seed\<rparr>)))
                         | Some (Some g, v', seed) \<Rightarrow>
                             Some (Inr \<lparr>ad_method = rc_path q, ad_trace = trace, ad_identity = identity, ad_shed = permit,
                                        ad_breaker = Some g, ad_slow = slow\<rparr>,
                               k1\<lparr>rk_breakers := Some v', rk_seed := seed\<rparr>)))))"

section \<open>Settling a call\<close>

datatype effect = Report circuit_outcome | Log string bool | ReleaseShed

text \<open>The response body; each flag says whether it still holds the permit or the log record.\<close>

record rpc_body =
  rb_slow :: bool
  rb_shed :: bool
  rb_breaker :: bool

definition body_settle :: "circuit_outcome \<Rightarrow> string \<times> bool \<Rightarrow> rpc_body \<Rightarrow> effect list \<times> rpc_body" where
  "body_settle out status b =
     ((if rb_breaker b then [Report out] else []) @ (if rb_slow b then [Log (fst status) (snd status)] else []),
      b\<lparr>rb_slow := False, rb_breaker := False\<rparr>)"

definition code_status :: "grpc_code \<Rightarrow> string \<times> bool" where
  "code_status code = (grpc_code_name code, code = DeadlineExceeded)"

definition body_finish :: "grpc_code \<Rightarrow> rpc_body \<Rightarrow> effect list \<times> rpc_body" where
  "body_finish code = body_settle (status_outcome code) (code_status code)"

definition body_finish_transport_error :: "rpc_body \<Rightarrow> effect list \<times> rpc_body" where
  "body_finish_transport_error = body_settle Failure (''transport_error'', False)"

text \<open>What polling the inner body yields; a frame carries trailers or data.\<close>

datatype polled = DataFrame | TrailersFrame headers | FrameError | EndOfBody | PollPending

definition body_poll :: "polled \<Rightarrow> rpc_body \<Rightarrow> effect list \<times> rpc_body" where
  "body_poll p b =
     (case p of
        DataFrame \<Rightarrow> ([], b)
      | TrailersFrame hs \<Rightarrow> (case grpc_status hs of None \<Rightarrow> ([], b) | Some code \<Rightarrow> body_finish code b)
      | FrameError \<Rightarrow> body_finish_transport_error b
      | EndOfBody \<Rightarrow> body_settle Success (code_status Ok) b
      | PollPending \<Rightarrow> ([], b))"

definition body_drop :: "rpc_body \<Rightarrow> effect list" where
  "body_drop b =
     (if rb_slow b then [Log (grpc_code_name Cancelled) False] else []) @
     (if rb_breaker b then [Report Cancellation] else []) @
     (if rb_shed b then [ReleaseShed] else [])"

definition body_of :: "'t admitted \<Rightarrow> rpc_body" where
  "body_of a = \<lparr>rb_slow = (ad_slow a \<noteq> None), rb_shed = (ad_shed a \<noteq> None), rb_breaker = (ad_breaker a \<noteq> None)\<rparr>"

text \<open>What the inner call's return does: the response's body, or the end of the call.\<close>

definition server_return :: "rpc_result \<Rightarrow> 't admitted \<Rightarrow> effect list \<times> rpc_body option" where
  "server_return res a =
     (let b = body_of a in
      case res of
        RpcResponded status hs \<Rightarrow>
          (case grpc_status hs of
             Some code \<Rightarrow> map_prod id Some (body_finish code b)
           | None \<Rightarrow>
               if \<not> (200 \<le> status \<and> status < 300) then map_prod id Some (body_finish_transport_error b)
               else ([], Some b))
      | RpcErrored \<Rightarrow>
          (fst (body_settle Failure (''transport_error'', False) b) @ (if rb_shed b then [ReleaseShed] else []), None)
      | RpcPanicked \<Rightarrow>
          (fst (body_settle Failure (code_status Internal) b) @ (if rb_shed b then [ReleaseShed] else []), None)
      | RpcDropped \<Rightarrow>
          ((if rb_breaker b then [Report Cancellation] else []) @ (if rb_shed b then [ReleaseShed] else []), None))"

fun body_run :: "polled list \<Rightarrow> rpc_body \<Rightarrow> effect list" where
  "body_run [] b = body_drop b"
| "body_run (p # ps) b = (let (es, b') = body_poll p b in es @ body_run ps b')"

definition call_effects :: "rpc_result \<Rightarrow> polled list \<Rightarrow> 't admitted \<Rightarrow> effect list" where
  "call_effects res ps a =
     (case server_return res a of (es, None) \<Rightarrow> es | (es, Some b) \<Rightarrow> es @ body_run ps b)"

definition apply_effect :: "instant \<Rightarrow> 't admitted \<Rightarrow> effect \<Rightarrow> 't rpc_stack \<Rightarrow> 't rpc_stack" where
  "apply_effect now a e k =
     (case e of
        Report out \<Rightarrow>
          (case (ad_breaker a, rk_breakers k) of
             (Some g, Some v) \<Rightarrow>
               (case map_of (vb_by_route v) (ad_method a) of
                  None \<Rightarrow> k
                | Some b \<Rightarrow>
                    k\<lparr>rk_breakers := Some (v\<lparr>vb_by_route :=
                      AList.update (ad_method a) (guard_drop now (guard_finish now out (g, b))) (vb_by_route v)\<rparr>)\<rparr>)
           | _ \<Rightarrow> k)
      | Log status flag \<Rightarrow> log_call now status flag (ad_slow a) k
      | ReleaseShed \<Rightarrow> release_shed now (ad_shed a) k)"

section \<open>The client stack\<close>

record client_stack =
  ck_authorization :: "string option"  \<comment> \<open>the encoded bearer credential\<close>
  ck_default_timeout :: "duration option"
  ck_breaker :: "circuit_breaker option"

definition client_stack_new :: client_stack where
  "client_stack_new = \<lparr>ck_authorization = None, ck_default_timeout = None, ck_breaker = None\<rparr>"

definition client_with_default_timeout :: "duration \<Rightarrow> client_stack \<Rightarrow> client_stack option" where
  "client_with_default_timeout d c = (if d = 0 then None else Some (c\<lparr>ck_default_timeout := Some d\<rparr>))"

text \<open>
  \<open>RpcClientStackService::call\<close> up to the inner call. \<open>parent\<close> is the trace context of the request's
  extensions. The result is the status of a refusal, or the headers sent and the permit.
\<close>

definition client_trace :: "readings \<Rightarrow> trace_context option \<Rightarrow> headers \<Rightarrow> trace_context option" where
  "client_trace u parent hs =
     (case parent of
        Some p \<Rightarrow> Some (trace_child (fst (rd_ids u)) p)
      | None \<Rightarrow> server_trace u hs)"

definition client_headers :: "trace_context \<Rightarrow> client_stack \<Rightarrow> headers \<Rightarrow> headers" where
  "client_headers trace c hs =
     (let hs1 = (case ck_authorization c of None \<Rightarrow> hs | Some v \<Rightarrow> header_insert ''authorization'' v hs);
          hs2 = header_insert ''traceparent'' (traceparent trace) hs1 in
      if header_contains ''grpc-timeout'' hs2 then hs2
      else case ck_default_timeout c of
        None \<Rightarrow> hs2
      | Some d \<Rightarrow> header_insert ''grpc-timeout'' (grpc_timeout d) hs2)"

definition client_send ::
  "readings \<Rightarrow> trace_context option \<Rightarrow> headers \<Rightarrow> client_stack \<Rightarrow>
   ((grpc_code \<times> string + headers \<times> guard option) \<times> client_stack) option" where
  "client_send u parent hs c =
     (case client_trace u parent (case ck_authorization c of None \<Rightarrow> hs | Some v \<Rightarrow> header_insert ''authorization'' v hs) of
        None \<Rightarrow> None
      | Some trace \<Rightarrow>
          (case ck_breaker c of
             None \<Rightarrow> Some (Inr (client_headers trace c hs, None), c)
           | Some b \<Rightarrow>
               (case acquire (rd_now u) b of
                  (None, b') \<Rightarrow> Some (Inl (Unavailable, ''gRPC dependency circuit is open''), c\<lparr>ck_breaker := Some b'\<rparr>)
                | (Some g, b') \<Rightarrow> Some (Inr (client_headers trace c hs, Some g), c\<lparr>ck_breaker := Some b'\<rparr>))))"

text \<open>The client's body holds only the breaker's permit, whose own drop reports a cancellation.\<close>

definition client_body :: "guard option \<Rightarrow> rpc_body" where
  "client_body permit = \<lparr>rb_slow = False, rb_shed = False, rb_breaker = (permit \<noteq> None)\<rparr>"

definition client_return :: "rpc_result \<Rightarrow> guard option \<Rightarrow> effect list \<times> rpc_body option" where
  "client_return res permit =
     (let b = client_body permit in
      case res of
        RpcResponded status hs \<Rightarrow>
          (case grpc_status hs of
             Some code \<Rightarrow> map_prod id Some (body_settle (status_outcome code) (code_status code) b)
           | None \<Rightarrow>
               if \<not> (200 \<le> status \<and> status < 300) then map_prod id Some (body_settle Failure (''transport_error'', False) b)
               else ([], Some b))
      | RpcErrored \<Rightarrow> (fst (body_settle Failure (''transport_error'', False) b), None)
      | _ \<Rightarrow> (if rb_breaker b then [Report Cancellation] else [], None))"

definition client_effects :: "rpc_result \<Rightarrow> polled list \<Rightarrow> guard option \<Rightarrow> effect list" where
  "client_effects res ps permit =
     (case client_return res permit of (es, None) \<Rightarrow> es | (es, Some b) \<Rightarrow> es @ body_run ps b)"

section \<open>Interceptors\<close>

text \<open>The guards of unary calls: \<open>RpcCircuitBreaker::call\<close> and \<open>RpcLoadShedder::call\<close>.\<close>

definition rpc_breaker_result :: "'a + grpc_code \<times> string \<Rightarrow> circuit_outcome" where
  "rpc_breaker_result r = (case r of Inl _ \<Rightarrow> Success | Inr (code, _) \<Rightarrow> circuit_outcome_of code)"

definition rpc_shedder_call ::
  "f64 \<Rightarrow> instant \<Rightarrow> instant \<Rightarrow> ('a + grpc_code \<times> string) option \<Rightarrow> shedder \<Rightarrow> ('a + grpc_code \<times> string) option \<times> shedder" where
  "rpc_shedder_call usage now ended res sh =
     (case try_acquire usage now sh of
        (None, sh') \<Rightarrow> (Some (Inr (ResourceExhausted, ''gRPC server is overloaded'')), sh')
      | (Some permit, sh') \<Rightarrow> (res, permit_drop permit ended sh'))"

text \<open>Bearer validation; the identity is installed in the request.\<close>

definition rpc_auth_status :: "auth_failure \<Rightarrow> grpc_code \<times> string" where
  "rpc_auth_status f = (Unauthenticated, failure_code f @ '': '' @ failure_message f)"

definition rpc_bearer_call :: "(string \<Rightarrow> 't option) \<Rightarrow> headers \<Rightarrow> grpc_code \<times> string + 't" where
  "rpc_bearer_call validator hs =
     (case Option.bind (Option.bind (header_str ''authorization'' hs) bearer_token) validator of
        None \<Rightarrow> Inl (rpc_auth_status InvalidCredentials)
      | Some identity \<Rightarrow> Inr identity)"

definition rpc_jwt_call ::
  "'j libs \<Rightarrow> (string \<Rightarrow> 't option) \<Rightarrow> nat \<Rightarrow> jwt_auth \<Rightarrow> headers \<Rightarrow> grpc_code \<times> string + 't \<times> (string, 'j) bmap" where
  "rpc_jwt_call l from_slice now a hs =
     (case Option.bind (header_str ''authorization'' hs) bearer_token of
        None \<Rightarrow> Inl (rpc_auth_status MissingCredentials)
      | Some token \<Rightarrow>
          (case decode_jwt_hs256 l from_slice token (ja_secrets a) (ja_leeway_seconds a) now of
             Inl er \<Rightarrow> Inl (rpc_auth_status (auth_failure_of er))
           | Inr claims \<Rightarrow>
               Inr (claims,
                 case decode_jwt_hs256 l (json_parse l) token (ja_secrets a) (ja_leeway_seconds a) now of
                   Inl _ \<Rightarrow> []
                 | Inr v \<Rightarrow> project l (ja_projection a) v)))"

text \<open>\<open>valid\<close> is what the metadata type accepts as a value.\<close>

definition rpc_sign :: "'j libs \<Rightarrow> (string \<Rightarrow> bool) \<Rightarrow> int \<Rightarrow> string \<Rightarrow> string \<Rightarrow> string \<Rightarrow> headers \<Rightarrow> grpc_code \<times> string + headers" where
  "rpc_sign l valid now key_id secret target hs =
     (case sign_request l key_id secret now ''POST'' target of
        Inl f \<Rightarrow> Inl (rpc_auth_status f)
      | Inr s \<Rightarrow>
          if list_all valid [rs_key_id s, show_int (rs_timestamp s), rs_signature s]
          then Inr (header_insert ''x-rust-zero-signature'' (rs_signature s)
              (header_insert ''x-rust-zero-timestamp'' (show_int (rs_timestamp s))
                (header_insert ''x-rust-zero-key-id'' (rs_key_id s) hs)))
          else Inl (rpc_auth_status InvalidSignature))"

definition rpc_parse_signature :: "headers \<Rightarrow> auth_failure + request_signature" where
  "rpc_parse_signature hs =
     (case header_str ''x-rust-zero-key-id'' hs of
        None \<Rightarrow> Inl MissingSignature
      | Some key_id \<Rightarrow>
          (case header_str ''x-rust-zero-timestamp'' hs of
             None \<Rightarrow> Inl MissingSignature
           | Some t \<Rightarrow>
               (case parse_i64 t of
                  None \<Rightarrow> Inl InvalidSignature
                | Some timestamp \<Rightarrow>
                    (case header_str ''x-rust-zero-signature'' hs of
                       None \<Rightarrow> Inl MissingSignature
                     | Some sig \<Rightarrow> Inr \<lparr>rs_key_id = key_id, rs_timestamp = timestamp, rs_signature = sig\<rparr>))))"

definition rpc_signature_call :: "'j libs \<Rightarrow> int \<Rightarrow> signature_verifier \<Rightarrow> string \<Rightarrow> headers \<Rightarrow> grpc_code \<times> string + string" where
  "rpc_signature_call l now v target hs =
     (case rpc_parse_signature hs of
        Inl f \<Rightarrow> Inl (rpc_auth_status f)
      | Inr s \<Rightarrow>
          (case verify l s ''POST'' target now v of
             Inl f \<Rightarrow> Inl (rpc_auth_status f)
           | Inr _ \<Rightarrow> Inr (rs_key_id s)))"

section \<open>Every admitted call is settled once\<close>

text \<open>What the events of a body decide: the first status, error or end of the body counts.\<close>

fun body_verdict :: "polled list \<Rightarrow> circuit_outcome \<times> string \<times> bool" where
  "body_verdict [] = (Cancellation, grpc_code_name Cancelled, False)"
| "body_verdict (p # ps) =
     (case p of
        TrailersFrame hs \<Rightarrow> (case grpc_status hs of Some code \<Rightarrow> (status_outcome code, code_status code) | None \<Rightarrow> body_verdict ps)
      | FrameError \<Rightarrow> (Failure, ''transport_error'', False)
      | EndOfBody \<Rightarrow> (Success, code_status Ok)
      | _ \<Rightarrow> body_verdict ps)"

definition call_verdict :: "rpc_result \<Rightarrow> polled list \<Rightarrow> circuit_outcome \<times> string \<times> bool" where
  "call_verdict res ps =
     (case res of
        RpcResponded status hs \<Rightarrow>
          (case grpc_status hs of
             Some code \<Rightarrow> (status_outcome code, code_status code)
           | None \<Rightarrow> if \<not> (200 \<le> status \<and> status < 300) then (Failure, ''transport_error'', False) else body_verdict ps)
      | RpcErrored \<Rightarrow> (Failure, ''transport_error'', False)
      | RpcPanicked \<Rightarrow> (Failure, code_status Internal)
      | RpcDropped \<Rightarrow> (Cancellation, grpc_code_name Cancelled, False))"

fun reports :: "effect list \<Rightarrow> circuit_outcome list" where
  "reports [] = []"
| "reports (Report out # es) = out # reports es"
| "reports (_ # es) = reports es"

fun logs :: "effect list \<Rightarrow> (string \<times> bool) list" where
  "logs [] = []"
| "logs (Log status flag # es) = (status, flag) # logs es"
| "logs (_ # es) = logs es"

fun releases :: "effect list \<Rightarrow> nat" where
  "releases [] = 0"
| "releases (ReleaseShed # es) = Suc (releases es)"
| "releases (_ # es) = releases es"

lemma reports_append [simp]: "reports (xs @ ys) = reports xs @ reports ys"
  by (induction xs rule: reports.induct) auto

lemma logs_append [simp]: "logs (xs @ ys) = logs xs @ logs ys"
  by (induction xs rule: logs.induct) auto

lemma releases_append [simp]: "releases (xs @ ys) = releases xs + releases ys"
  by (induction xs rule: releases.induct) auto

lemma settle_simps [simp]:
  "reports (fst (body_settle out status b)) = (if rb_breaker b then [out] else [])"
  "logs (fst (body_settle out status b)) = (if rb_slow b then [status] else [])"
  "releases (fst (body_settle out status b)) = 0"
  "snd (body_settle out status b) = b\<lparr>rb_slow := False, rb_breaker := False\<rparr>"
  by (simp_all add: body_settle_def)

lemma body_run_settled:
  "\<not> rb_slow b \<Longrightarrow> \<not> rb_breaker b \<Longrightarrow> body_run ps b = (if rb_shed b then [ReleaseShed] else [])"
proof (induction ps b rule: body_run.induct)
  case (2 p ps b)
  have "body_poll p b = ([], b)" using 2(2,3)
    by (auto simp: body_poll_def body_finish_def body_finish_transport_error_def body_settle_def split: polled.split option.split)
  with 2 show ?case by simp
qed (simp add: body_drop_def)

lemma body_run_effects:
  "reports (body_run ps b) = (if rb_breaker b then [fst (body_verdict ps)] else []) \<and>
   logs (body_run ps b) = (if rb_slow b then [snd (body_verdict ps)] else []) \<and>
   releases (body_run ps b) = (if rb_shed b then 1 else 0)"
proof (induction ps b rule: body_run.induct)
  case (2 p ps b)
  have settled: "body_run ps (snd (body_settle out status b)) = (if rb_shed b then [ReleaseShed] else [])" for out status
    using body_run_settled [of "snd (body_settle out status b)" ps] by simp
  have step: "body_run (p # ps) b = fst (body_poll p b) @ body_run ps (snd (body_poll p b))" by (simp add: case_prod_beta)
  show ?case
  proof (cases "body_poll p b = ([], b) \<and> body_verdict (p # ps) = body_verdict ps")
    case True
    with 2 step show ?thesis by simp
  next
    case False
    then have "body_poll p b = body_settle (fst (body_verdict (p # ps))) (snd (body_verdict (p # ps))) b"
      by (auto simp: body_poll_def body_finish_def body_finish_transport_error_def split: polled.splits option.splits)
    then show ?thesis unfolding step using settled by simp
  qed
qed (simp add: body_drop_def)

text \<open>
  C10. Every admitted gRPC call is settled exactly once. However the call ends (a transport error, a panic, a
  response whose headers or trailers carry a status, a body that breaks, ends or is dropped before its
  end, or a call dropped before it returns), its circuit breaker records one outcome, its shedder permit is
  released once, and the slow-call log gets one record, with the outcome and the status of the same event; only
  a call dropped before it returns is not logged.
\<close>

theorem rpc_call_settles_once:
  "reports (call_effects res ps a) = (if ad_breaker a \<noteq> None then [fst (call_verdict res ps)] else []) \<and>
   releases (call_effects res ps a) = (if ad_shed a \<noteq> None then 1 else 0) \<and>
   logs (call_effects res ps a) = (if ad_slow a \<noteq> None \<and> res \<noteq> RpcDropped then [snd (call_verdict res ps)] else [])"
proof -
  have settled: "body_run ps (snd (body_settle out status (body_of a))) = (if ad_shed a \<noteq> None then [ReleaseShed] else [])"
    for out status
    using body_run_settled [of "snd (body_settle out status (body_of a))" ps] by (simp add: body_of_def)
  have body: "rb_breaker (body_of a) \<longleftrightarrow> ad_breaker a \<noteq> None" "rb_slow (body_of a) \<longleftrightarrow> ad_slow a \<noteq> None"
    "rb_shed (body_of a) \<longleftrightarrow> ad_shed a \<noteq> None" by (simp_all add: body_of_def)
  show ?thesis
  proof (cases res)
    case (RpcResponded status hs)
    consider (code) code where "grpc_status hs = Some code"
      | (status) "grpc_status hs = None" "\<not> (200 \<le> status \<and> status < 300)"
      | (unsettled) "grpc_status hs = None" "200 \<le> status \<and> status < 300" by (cases "grpc_status hs") auto
    then show ?thesis
    proof cases
      case code
      then show ?thesis using RpcResponded settled body
        by (simp add: call_effects_def server_return_def call_verdict_def body_finish_def map_prod_def case_prod_beta Let_def)
    next
      case status
      then show ?thesis using RpcResponded settled body
        by (simp add: call_effects_def server_return_def call_verdict_def body_finish_transport_error_def map_prod_def case_prod_beta Let_def)
    next
      case unsettled
      then show ?thesis using RpcResponded body_run_effects [of ps "body_of a"] body
        by (simp add: call_effects_def server_return_def call_verdict_def)
    qed
  qed (use body in \<open>simp_all add: call_effects_def server_return_def call_verdict_def Let_def\<close>)
qed

section \<open>A refused call keeps nothing\<close>

definition in_flight :: "'t rpc_stack \<Rightarrow> nat" where
  "in_flight k = (case rk_shedder k of None \<Rightarrow> 0 | Some sh \<Rightarrow> sh_in_flight sh)"

lemma log_code_keeps [simp]:
  "rk_shedder (log_code now code call k) = rk_shedder k" "rk_breakers (log_code now code call k) = rk_breakers k"
  by (auto simp: log_code_def log_call_def split: option.split)

lemma log_code_appends:
  "rk_log (log_code now code call k) =
   rk_log k @ (case (call, rk_slow k) of
     (Some c, Some d) \<Rightarrow> [slow_emit d now (grpc_code_name code) (code = DeadlineExceeded) c] | _ \<Rightarrow> [])"
  by (auto simp: log_code_def log_call_def split: option.split)

lemma stack_shed_cases:
  assumes "stack_shed u k = (r, k1)"
  shows "rk_breakers k1 = rk_breakers k" "rk_slow k1 = rk_slow k" "rk_log k1 = rk_log k"
    "r = None \<Longrightarrow> in_flight k1 = in_flight k"
    "\<And>t. r = Some (Some t) \<Longrightarrow> in_flight k1 = Suc (in_flight k) \<and> rk_shedder k1 \<noteq> None"
    "r = Some None \<Longrightarrow> k1 = k"
  using assms
  by (auto simp: stack_shed_def in_flight_def try_acquire_def Let_def split: option.splits prod.splits if_splits)

lemma release_shed_in_flight:
  "in_flight (release_shed now p k) = in_flight k - (case p of None \<Rightarrow> 0 | Some _ \<Rightarrow> 1)"
  by (auto simp: release_shed_def in_flight_def permit_drop_def Let_def split: option.splits)

lemma release_shed_keeps [simp]: "rk_log (release_shed now p k) = rk_log k" "rk_breakers (release_shed now p k) = rk_breakers k"
  by (simp_all add: release_shed_def split: option.split)

text \<open>
  A refused gRPC call leaves the server as it found it: the number of calls in flight is unchanged, an
  unauthenticated or shed call does not reach any breaker, and, when slow calls are logged, exactly one record
  with the status of the refusal is written. A call is refused as unauthenticated exactly when the stack requires
  credentials and the presented token is not accepted.
\<close>

theorem rpc_refusal_keeps_nothing:
  assumes "server_admit u q k = Some (Inl (code, message), k')"
  shows "in_flight k' = in_flight k \<and>
    (code \<noteq> Unavailable \<longrightarrow> rk_breakers k' = rk_breakers k) \<and>
    (code = Unauthenticated \<longleftrightarrow> stack_identity (rc_headers q) k = None) \<and>
    (\<exists>records. rk_log k' = rk_log k @ records \<and> length records = (if rk_slow k = None then 0 else 1) \<and>
       (\<forall>r \<in> set records. lg_status r = grpc_code_name code))"
proof -
  obtain trace where trace: "server_trace u (rc_headers q) = Some trace"
    using assms by (cases "server_trace u (rc_headers q)") (auto simp: server_admit_def)
  show ?thesis
  proof (cases "stack_identity (rc_headers q) k")
    case None
    then show ?thesis using assms trace
      by (auto simp: server_admit_def Let_def invalid_credentials_def in_flight_def log_code_appends slow_emit_def
          split: option.splits)
  next
    case (Some identity)
    obtain r k1 where sh: "stack_shed u k = (r, k1)" by (cases "stack_shed u k")
    note c = stack_shed_cases [OF sh]
    have flight: "in_flight (log_code now code call k1) = in_flight k1" for now code call by (simp add: in_flight_def)
    show ?thesis
    proof (cases r)
      case None
      then show ?thesis using assms trace Some sh c(1-3) c(4) flight
        by (auto simp: server_admit_def Let_def log_code_appends slow_emit_def split: option.splits)
    next
      case (Some permit)
      then obtain v v' seed where v: "rk_breakers k1 = Some v"
        "server_breaker_enter (rd_now u) (rc_path q) (rk_seed k1) v = Some (None, v', seed)"
        using assms trace \<open>stack_identity (rc_headers q) k = Some identity\<close> sh
        by (auto simp: server_admit_def Let_def split: option.splits)
      let ?slow = "map_option (\<lambda>_. \<lparr>sl_method = rc_path q,
                 sl_deadline = Option.bind (header_str ''grpc-timeout'' (rc_headers q)) parse_grpc_timeout,
                 sl_started = rd_now u\<rparr>) (rk_slow k)"
      have res: "code = Unavailable"
        "k' = release_shed (rd_now u) permit (log_code (rd_now u) Unavailable ?slow (k1\<lparr>rk_breakers := Some v', rk_seed := seed\<rparr>))"
        using assms trace \<open>stack_identity (rc_headers q) k = Some identity\<close> sh Some v
        by (auto simp: server_admit_def Let_def split: option.splits)
      have "in_flight k' = in_flight k1 - (case permit of None \<Rightarrow> 0 | Some _ \<Rightarrow> 1)"
        unfolding res(2) release_shed_in_flight by (simp add: in_flight_def)
      also have "\<dots> = in_flight k" using c(5,6) Some by (cases permit) auto
      finally show ?thesis
        using res c(2,3) \<open>stack_identity (rc_headers q) k = Some identity\<close>
        by (auto simp: log_code_appends slow_emit_def split: option.splits)
    qed
  qed
qed

section \<open>Deadlines survive the wire\<close>

lemma digits_value_snoc: "digits_value (ds @ [c]) = 10 * digits_value ds + (of_char c - 48)"
  by (simp add: digits_value_def)

lemma of_char_digit: "d < 10 \<Longrightarrow> (of_char (digit_char d) :: nat) = 48 + d"
  by (simp add: digit_char_def)

lemma digits_value_show: "digits_value (show_nat n) = n"
proof (induction n rule: less_induct)
  case (less n)
  show ?case
  proof (cases "n < 10")
    case True
    then show ?thesis by (simp add: show_nat.simps [of n] digits_value_def of_char_digit)
  next
    case False
    with less.IH [of "n div 10"] show ?thesis
      by (simp add: show_nat.simps [of n] digits_value_snoc of_char_digit)
  qed
qed

lemma show_nat_is_digit: "c \<in> set (show_nat n) \<Longrightarrow> is_digit c"
  using show_nat_digits [of c n] by (auto simp: is_digit_def of_char_digit)

lemma parse_usize_show:
  assumes "n \<le> u64_max"
  shows "parse_usize (show_nat n) = Some n"
proof -
  have "CHR ''+'' \<notin> set (show_nat n)" using show_nat_is_digit [of "CHR ''+''" n] by (auto simp: is_digit_def)
  then have "(case show_nat n of c # rest \<Rightarrow> if c = CHR ''+'' then rest else show_nat n | [] \<Rightarrow> show_nat n) = show_nat n"
    by (cases "show_nat n") auto
  then show ?thesis using assms show_nat_is_digit
    by (auto simp: parse_usize_def Let_def digits_value_show list_all_iff)
qed

lemma length_show_nat: "0 < k \<Longrightarrow> n < 10 ^ k \<Longrightarrow> length (show_nat n) \<le> k"
proof (induction k arbitrary: n)
  case (Suc k)
  show ?case
  proof (cases "n < 10")
    case True
    then show ?thesis by (simp add: show_nat.simps [of n])
  next
    case False
    then have "0 < k" using Suc.prems by (cases k) auto
    moreover have "n div 10 < 10 ^ k" using Suc.prems by (simp add: less_mult_imp_div_less mult.commute)
    ultimately show ?thesis using Suc.IH [of "n div 10"] False by (simp add: show_nat.simps [of n])
  qed
qed simp

lemma parse_timeout_shown:
  assumes "v \<le> 99999999"
  shows "parse_grpc_timeout (show_nat v @ [unit]) = unit_duration v unit"
proof -
  have "length (show_nat v) \<le> 8" using assms by (intro length_show_nat) simp_all
  moreover have "v \<le> u64_max" using assms by (simp add: u64_max_def)
  ultimately show ?thesis by (simp add: parse_grpc_timeout_def parse_usize_show butlast_append)
qed

lemma ceil_div: "0 < k \<Longrightarrow> d \<le> (d + (k - 1)) div k * k \<and> (d + (k - 1)) div k * k < d + (k :: nat)"
proof -
  assume k: "0 < k"
  have "(d + (k - 1)) div k * k + (d + (k - 1)) mod k = d + (k - 1)" by (rule div_mult_mod_eq)
  moreover have "(d + (k - 1)) mod k < k" using k by simp
  ultimately show ?thesis using k by linarith
qed

lemma ceil_div_big: "0 < k \<Longrightarrow> m < (d + (k - 1)) div k \<Longrightarrow> m * k < (d :: nat)"
proof -
  assume k: "0 < k" and m: "m < (d + (k - 1)) div k"
  then have "(m + 1) * k \<le> (d + (k - 1)) div k * k" by (intro mult_le_mono1) simp
  also have "\<dots> < d + k" using ceil_div [OF k] by blast
  finally show ?thesis by simp
qed

text \<open>One unit: the text it gives, and how far its duration is from the one encoded.\<close>

lemma fitting_unit:
  assumes d: "d \<le> 10 ^ 30" and k: "0 < k" "k \<le> 10 ^ 30" and fits: "(d + (k - 1)) div k \<le> 99999999"
    and unit: "\<And>v. v \<le> 99999999 \<Longrightarrow> unit_duration v c = Some (v * k)"
    and prev: "k = 1 \<or> (\<exists>p. 0 < p \<and> k \<le> 1000 * p \<and> 99999999 < (d + (p - 1)) div p)"
  shows "\<exists>d'. parse_grpc_timeout (first_fitting d ((c, k) # us)) = Some d' \<and> d \<le> d' \<and> (d' - d) * 99999 \<le> d"
proof -
  have big: "(10 :: nat) ^ 30 + 10 ^ 30 \<le> u128_max" by (simp add: u128_max_def)
  then have "sat_add u128_max d (k - 1) = d + (k - 1)" using d k by (intro sat_add_exact) linarith
  then have "first_fitting d ((c, k) # us) = show_nat ((d + (k - 1)) div k) @ [c]" using fits by (simp add: Let_def)
  then have parse: "parse_grpc_timeout (first_fitting d ((c, k) # us)) = Some ((d + (k - 1)) div k * k)"
    using fits unit by (simp add: parse_timeout_shown)
  note ceil = ceil_div [OF k(1), of d]
  have "((d + (k - 1)) div k * k - d) * 99999 \<le> d"
    using prev
  proof
    assume "k = 1"
    then show ?thesis by simp
  next
    assume "\<exists>p. 0 < p \<and> k \<le> 1000 * p \<and> 99999999 < (d + (p - 1)) div p"
    then obtain p where p: "k \<le> 1000 * p" "99999999 * p < d" using ceil_div_big by blast
    have "(d + (k - 1)) div k * k - d < k" using ceil by linarith
    then show ?thesis using p by linarith
  qed
  with parse ceil show ?thesis by blast
qed

lemma unfitting_unit:
  assumes "d \<le> 10 ^ 30" "k \<le> 10 ^ 30" "\<not> (d + (k - 1)) div k \<le> 99999999"
  shows "first_fitting d ((c, k) # us) = first_fitting d us"
proof -
  have "(10 :: nat) ^ 30 + 10 ^ 30 \<le> u128_max" by (simp add: u128_max_def)
  then have "sat_add u128_max d (k - 1) = d + (k - 1)" using assms(1,2) by (intro sat_add_exact) linarith
  then show ?thesis using assms(3) by (simp add: Let_def)
qed

lemma unit_durations:
  assumes "v \<le> 99999999"
  shows "unit_duration v (CHR ''n'') = Some (v * 1)" "unit_duration v (CHR ''u'') = Some (v * 1000)"
    "unit_duration v (CHR ''m'') = Some (v * 1000000)" "unit_duration v (CHR ''S'') = Some (v * 1000000000)"
    "unit_duration v (CHR ''M'') = Some (v * 60000000000)" "unit_duration v (CHR ''H'') = Some (v * 3600000000000)"
  using assms by (simp_all add: unit_duration_def nanos_per_sec_def sat_mul_def u64_max_def min_def)

text \<open>A list of units, each at most a thousand times its predecessor.\<close>

fun graded :: "nat \<Rightarrow> (char \<times> nat) list \<Rightarrow> bool" where
  "graded p [] \<longleftrightarrow> True"
| "graded p ((c, k) # us) \<longleftrightarrow>
     0 < k \<and> k \<le> 10 ^ 30 \<and> k \<le> 1000 * p \<and> (\<forall>v \<le> 99999999. unit_duration v c = Some (v * k)) \<and> graded k us"

lemma graded_fits:
  "d \<le> 10 ^ 30 \<Longrightarrow> graded p us \<Longrightarrow> us \<noteq> [] \<Longrightarrow> (d + (snd (last us) - 1)) div snd (last us) \<le> 99999999 \<Longrightarrow>
   0 < p \<Longrightarrow> snd (hd us) = 1 \<or> 99999999 < (d + (p - 1)) div p \<Longrightarrow>
   \<exists>d'. parse_grpc_timeout (first_fitting d us) = Some d' \<and> d \<le> d' \<and> (d' - d) * 99999 \<le> d"
proof (induction p us rule: graded.induct)
  case (2 p c k us)
  show ?case
  proof (cases "(d + (k - 1)) div k \<le> 99999999")
    case True
    show ?thesis using 2(2,3,6,7) True by (intro fitting_unit) auto
  next
    case False
    then have "us \<noteq> []" using "2.prems"(4) by auto
    with 2 False show ?thesis using unfitting_unit [of d k c us] by simp
  qed
qed simp

lemma timeout_units_graded: "graded 1 timeout_units"
  unfolding timeout_units_def by (simp add: unit_durations)

text \<open>
  A default deadline survives the wire. The value a client sends for a deadline of at most 99999999 hours parses
  to a duration that is never shorter than the deadline, and longer by at most one part in 99999.
\<close>

theorem grpc_timeout_roundtrip:
  assumes d: "0 < d" "d \<le> 99999999 * 3600000000000"
  shows "\<exists>d'. parse_grpc_timeout (grpc_timeout d) = Some d' \<and> d \<le> d' \<and> (d' - d) * 99999 \<le> d"
proof -
  have "max d 1 = d" using d by simp
  moreover have "\<exists>d'. parse_grpc_timeout (first_fitting d timeout_units) = Some d' \<and> d \<le> d' \<and> (d' - d) * 99999 \<le> d"
    using d by (intro graded_fits [OF _ timeout_units_graded]) (simp_all add: timeout_units_def)
  ultimately show ?thesis by (simp only: grpc_timeout_def)
qed

section \<open>Witnesses\<close>

theorem grpc_timeout_roundtrip_witness:
  "\<exists>d'. parse_grpc_timeout (grpc_timeout 1500000001) = Some d' \<and> 1500000001 \<le> d' \<and> d' \<le> 1500015001"
  using grpc_timeout_roundtrip [of 1500000001] by fastforce

theorem rpc_refusal_keeps_nothing_witness:
  "\<exists>k'. server_admit \<lparr>rd_now = 5, rd_usage = Fin 0, rd_time = 0, rd_ids = (1, 2)\<rparr> \<lparr>rc_path = ''/s/m'', rc_headers = []\<rparr>
       (stack_with_bearer_auth (\<lambda>_. None :: nat option) (rpc_stack_new 0 :: unit rpc_stack)) = Some (Inl invalid_credentials, k') \<and> in_flight k' = 0"
proof -
  let ?u = "\<lparr>rd_now = 5, rd_usage = Fin 0, rd_time = 0, rd_ids = (1, 2)\<rparr>"
  let ?q = "\<lparr>rc_path = ''/s/m'', rc_headers = []\<rparr>"
  let ?k = "stack_with_bearer_auth (\<lambda>_. None :: nat option) (rpc_stack_new 0 :: unit rpc_stack)"
  have "\<exists>k'. server_admit ?u ?q ?k = Some (Inl invalid_credentials, k')"
    by (simp add: server_admit_def server_trace_def header_str_def stack_identity_def stack_with_bearer_auth_def Let_def)
  then obtain k' where k': "server_admit ?u ?q ?k = Some (Inl invalid_credentials, k')" ..
  from rpc_refusal_keeps_nothing [OF k' [unfolded invalid_credentials_def]] k' show ?thesis
    by (simp add: in_flight_def stack_with_bearer_auth_def rpc_stack_new_def)
qed

end
