(* ===== verification/Rpc_Config.thy ===== *)
theory Rpc_Config
  imports Etcd Rpc_Stack
begin

text \<open>
  \<open>rpc/src/lib.rs\<close>, first part: the settings of RPC servers and clients with their builders and their
  validation, the server's router, and serving with a registration and a bounded shutdown. The
  loading of PEM material, the parser of URIs, the etcd client and the transport are parameters. A
  failed assertion of a builder is \<open>None\<close>.
\<close>

section \<open>Transport security\<close>

datatype rpc_config_error = Invalid string

record server_tls =
  st_certificate :: string
  st_private_key :: string
  st_client_ca :: "string option"

record client_tls =
  ct_ca :: string
  ct_certificate :: "string option"
  ct_private_key :: "string option"
  ct_domain :: "string option"

definition validate_pem :: "string \<Rightarrow> string \<Rightarrow> rpc_config_error + unit" where
  "validate_pem pem message = check (is_blank pem) (Invalid message)"

definition validate_some_pem :: "string option \<Rightarrow> string \<Rightarrow> rpc_config_error + unit" where
  "validate_some_pem pem message = (case pem of None \<Rightarrow> Inr () | Some p \<Rightarrow> validate_pem p message)"

definition server_tls_new :: "string \<Rightarrow> string \<Rightarrow> server_tls" where
  "server_tls_new certificate key = \<lparr>st_certificate = certificate, st_private_key = key, st_client_ca = None\<rparr>"

definition server_tls_with_client_ca :: "string \<Rightarrow> server_tls \<Rightarrow> server_tls" where
  "server_tls_with_client_ca ca t = t\<lparr>st_client_ca := Some ca\<rparr>"

definition server_tls_validate :: "server_tls \<Rightarrow> rpc_config_error + unit" where
  "server_tls_validate t = in_order
     [validate_pem (st_certificate t) ''server TLS certificate must not be empty'',
      validate_pem (st_private_key t) ''server TLS private key must not be empty'',
      validate_some_pem (st_client_ca t) ''server TLS client CA must not be empty'']"

definition client_tls_new :: "string \<Rightarrow> client_tls" where
  "client_tls_new ca = \<lparr>ct_ca = ca, ct_certificate = None, ct_private_key = None, ct_domain = None\<rparr>"

definition client_tls_with_identity :: "string \<Rightarrow> string \<Rightarrow> client_tls \<Rightarrow> client_tls" where
  "client_tls_with_identity certificate key t = t\<lparr>ct_certificate := Some certificate, ct_private_key := Some key\<rparr>"

definition client_tls_with_domain_name :: "string \<Rightarrow> client_tls \<Rightarrow> client_tls" where
  "client_tls_with_domain_name name t = t\<lparr>ct_domain := Some name\<rparr>"

definition client_tls_validate :: "client_tls \<Rightarrow> rpc_config_error + unit" where
  "client_tls_validate t = in_order
     [validate_pem (ct_ca t) ''client TLS CA certificate must not be empty'',
      check ((ct_certificate t \<noteq> None) \<noteq> (ct_private_key t \<noteq> None))
        (Invalid ''client TLS certificate and private key must be configured together''),
      validate_some_pem (ct_certificate t) ''client TLS certificate must not be empty'',
      validate_some_pem (ct_private_key t) ''client TLS private key must not be empty'',
      check (some_blank (ct_domain t)) (Invalid ''client TLS domain name must not be empty'')]"

text \<open>The transport's settings: the trust root, the server name, and the identity when it is complete.\<close>

definition client_tls_options :: "client_tls \<Rightarrow> tls_options" where
  "client_tls_options t =
     \<lparr>to_ca = ct_ca t, to_domain = ct_domain t,
      to_identity = (case (ct_certificate t, ct_private_key t) of
        (Some certificate, Some key) \<Rightarrow> Some (certificate, key) | _ \<Rightarrow> None)\<rparr>"

definition server_tls_options :: "server_tls \<Rightarrow> (string \<times> string) \<times> string option" where
  "server_tls_options t = ((st_certificate t, st_private_key t), st_client_ca t)"

section \<open>Registration\<close>

record registration =
  rg_endpoints :: "string list"
  rg_namespace :: string
  rg_username :: "string option"
  rg_password :: "string option"
  rg_connect_timeout :: duration
  rg_tls :: "etcd_tls_config option"
  rg_service :: string
  rg_instance :: string
  rg_endpoint :: string
  rg_lease_ttl :: duration

definition registration_default :: registration where
  "registration_default =
     \<lparr>rg_endpoints = [], rg_namespace = ''/rust-zero'', rg_username = None, rg_password = None,
      rg_connect_timeout = 10 * nanos_per_sec, rg_tls = None, rg_service = [], rg_instance = [], rg_endpoint = [],
      rg_lease_ttl = 10 * nanos_per_sec\<rparr>"

definition registration_new :: "string list \<Rightarrow> string \<Rightarrow> string \<Rightarrow> string \<Rightarrow> registration" where
  "registration_new endpoints service instance_name endpoint =
     registration_default\<lparr>rg_endpoints := endpoints, rg_service := service, rg_instance := instance_name,
       rg_endpoint := endpoint\<rparr>"

definition registration_with_namespace :: "string \<Rightarrow> registration \<Rightarrow> registration" where
  "registration_with_namespace namespace r = r\<lparr>rg_namespace := namespace\<rparr>"

definition registration_with_credentials :: "string \<Rightarrow> string \<Rightarrow> registration \<Rightarrow> registration" where
  "registration_with_credentials username password r = r\<lparr>rg_username := Some username, rg_password := Some password\<rparr>"

definition registration_with_connect_timeout :: "duration \<Rightarrow> registration \<Rightarrow> registration option" where
  "registration_with_connect_timeout timeout r =
     (if timeout = 0 then None else Some (r\<lparr>rg_connect_timeout := timeout\<rparr>))"

definition registration_with_tls :: "etcd_tls_config \<Rightarrow> registration \<Rightarrow> registration" where
  "registration_with_tls tls r = r\<lparr>rg_tls := Some tls\<rparr>"

definition registration_with_lease_ttl :: "duration \<Rightarrow> registration \<Rightarrow> registration option" where
  "registration_with_lease_ttl ttl r = (if ttl = 0 then None else Some (r\<lparr>rg_lease_ttl := ttl\<rparr>))"

definition validate_rpc_name :: "string \<Rightarrow> string \<Rightarrow> rpc_config_error + unit" where
  "validate_rpc_name name message = check (is_blank name \<or> CHR ''/'' \<in> set name) (Invalid message)"

definition validate_registration_tls :: "etcd_tls_config \<Rightarrow> rpc_config_error + unit" where
  "validate_registration_tls t = in_order
     [check (is_blank (et_ca t)) (Invalid ''etcd TLS CA certificate must not be empty''),
      check ((et_certificate t \<noteq> None) \<noteq> (et_private_key t \<noteq> None))
        (Invalid ''etcd TLS certificate and private key must be configured together''),
      check (some_blank (et_certificate t)) (Invalid ''etcd TLS client certificate must not be empty''),
      check (some_blank (et_private_key t)) (Invalid ''etcd TLS private key must not be empty''),
      check (some_blank (et_domain t)) (Invalid ''etcd TLS domain name must not be empty'')]"

text \<open>\<open>uri\<close> is the parser of URIs: the scheme and the authority, when the text is a URI.\<close>

definition registration_validate ::
  "(string \<Rightarrow> (string option \<times> string option) option) \<Rightarrow> registration \<Rightarrow> rpc_config_error + unit" where
  "registration_validate uri r = in_order
     [check (rg_endpoints r = [] \<or> list_ex is_blank (rg_endpoints r))
        (Invalid ''etcd registration requires non-empty etcd endpoints''),
      validate_rpc_name (rg_service r) ''etcd registration service must be a non-empty name'',
      validate_rpc_name (rg_instance r) ''etcd registration instance must be a non-empty name'',
      check (is_blank (rg_endpoint r)) (Invalid ''etcd registration endpoint must not be empty''),
      check (rg_connect_timeout r = 0) (Invalid ''etcd connect timeout must be greater than zero''),
      check (rg_lease_ttl r = 0) (Invalid ''etcd registration lease TTL must be greater than zero''),
      check ((rg_username r \<noteq> None) \<noteq> (rg_password r \<noteq> None))
        (Invalid ''etcd registration username and password must be configured together''),
      (let namespace = trim_matches (CHR ''/'') (rg_namespace r) in
       check (namespace = [] \<or> CHR ''/'' \<in> set namespace)
         (Invalid ''etcd registration namespace must be a non-empty single path segment'')),
      (case rg_tls r of None \<Rightarrow> Inr () | Some t \<Rightarrow> validate_registration_tls t),
      (case uri (rg_endpoint r) of
         Some (Some _, Some _) \<Rightarrow> Inr ()
       | _ \<Rightarrow> Inl (Invalid ''etcd registration endpoint must be an absolute URI''))]"

text \<open>\<open>None\<close>: the assertion of \<open>with_timeout\<close>.\<close>

definition registration_etcd_config :: "registration \<Rightarrow> etcd_config option" where
  "registration_etcd_config r =
     map_option (\<lambda>c.
       let c1 = (case (rg_username r, rg_password r) of
                   (Some u, Some p) \<Rightarrow> etcd_with_credentials u p c | _ \<Rightarrow> c) in
       (case rg_tls r of None \<Rightarrow> c1 | Some t \<Rightarrow> etcd_with_tls t c1))
     (etcd_with_timeout (rg_connect_timeout r) (etcd_with_namespace (rg_namespace r) (etcd_config_new (rg_endpoints r))))"

section \<open>Server settings\<close>

record rpc_server_config =
  rc_address :: string
  rc_request_timeout :: "duration option"
  rc_method_timeouts :: "(string, duration) bmap"
  rc_service_timeouts :: "(string, duration) bmap"
  rc_concurrency_limit :: "nat option"
  rc_max_streams :: "nat option"
  rc_shutdown_timeout :: duration
  rc_tls :: "server_tls option"
  rc_registration :: "registration option"

definition rpc_server_config_new :: "string \<Rightarrow> rpc_server_config" where
  "rpc_server_config_new address =
     \<lparr>rc_address = address, rc_request_timeout = None, rc_method_timeouts = [], rc_service_timeouts = [],
      rc_concurrency_limit = None, rc_max_streams = None, rc_shutdown_timeout = 30 * nanos_per_sec,
      rc_tls = None, rc_registration = None\<rparr>"

definition rpc_server_config_default :: rpc_server_config where
  "rpc_server_config_default = rpc_server_config_new ''0.0.0.0:50051''"

definition with_slash :: "string \<Rightarrow> string" where
  "with_slash s = (if starts_with_slash s then s else CHR ''/'' # s)"

definition normalize_method :: "string \<Rightarrow> string option" where
  "normalize_method method =
     (let m = with_slash method in
      case split_on (CHR ''/'') m of
        [first, service, rpc] \<Rightarrow> if first \<noteq> [] \<or> service = [] \<or> rpc = [] then None else Some m
      | _ \<Rightarrow> None)"

definition normalize_service :: "string \<Rightarrow> string option" where
  "normalize_service service =
     (let s = with_slash service in
      if 1 < length s \<and> CHR ''/'' \<notin> set (drop 1 s) then Some s else None)"

definition rpc_with_request_timeout :: "duration \<Rightarrow> rpc_server_config \<Rightarrow> rpc_server_config option" where
  "rpc_with_request_timeout timeout c =
     (if timeout = 0 then None else Some (c\<lparr>rc_request_timeout := Some timeout\<rparr>))"

definition rpc_with_method_timeout :: "string \<Rightarrow> duration \<Rightarrow> rpc_server_config \<Rightarrow> rpc_server_config option" where
  "rpc_with_method_timeout method timeout c =
     (if timeout = 0 then None
      else map_option (\<lambda>m. c\<lparr>rc_method_timeouts := bt_put m timeout (rc_method_timeouts c)\<rparr>) (normalize_method method))"

definition rpc_with_service_timeout :: "string \<Rightarrow> duration \<Rightarrow> rpc_server_config \<Rightarrow> rpc_server_config option" where
  "rpc_with_service_timeout service timeout c =
     (if timeout = 0 then None
      else map_option (\<lambda>s. c\<lparr>rc_service_timeouts := bt_put s timeout (rc_service_timeouts c)\<rparr>)
        (normalize_service service))"

definition rpc_with_concurrency_limit :: "nat \<Rightarrow> rpc_server_config \<Rightarrow> rpc_server_config option" where
  "rpc_with_concurrency_limit limit c =
     (if limit = 0 then None else Some (c\<lparr>rc_concurrency_limit := Some limit\<rparr>))"

definition rpc_with_max_concurrent_streams :: "nat \<Rightarrow> rpc_server_config \<Rightarrow> rpc_server_config option" where
  "rpc_with_max_concurrent_streams limit c =
     (if limit = 0 then None else Some (c\<lparr>rc_max_streams := Some limit\<rparr>))"

definition rpc_with_shutdown_timeout :: "duration \<Rightarrow> rpc_server_config \<Rightarrow> rpc_server_config option" where
  "rpc_with_shutdown_timeout timeout c =
     (if timeout = 0 then None else Some (c\<lparr>rc_shutdown_timeout := timeout\<rparr>))"

definition rpc_with_tls :: "server_tls \<Rightarrow> rpc_server_config \<Rightarrow> rpc_server_config" where
  "rpc_with_tls tls c = c\<lparr>rc_tls := Some tls\<rparr>"

definition rpc_with_etcd_registration :: "registration \<Rightarrow> rpc_server_config \<Rightarrow> rpc_server_config" where
  "rpc_with_etcd_registration r c = c\<lparr>rc_registration := Some r\<rparr>"

definition rpc_server_validate ::
  "(string \<Rightarrow> (string option \<times> string option) option) \<Rightarrow> rpc_server_config \<Rightarrow> rpc_config_error + unit" where
  "rpc_server_validate uri c = in_order
     [check (rc_request_timeout c = Some 0) (Invalid ''request timeout must be greater than zero''),
      check_all (\<lambda>(method, timeout). check (timeout = 0 \<or> normalize_method method \<noteq> Some method)
        (Invalid ''gRPC method timeout keys must have the form /package.Service/Method and positive values''))
        (rc_method_timeouts c),
      check_all (\<lambda>(service, timeout). check (timeout = 0 \<or> normalize_service service \<noteq> Some service)
        (Invalid ''gRPC service timeout keys must have the form /package.Service and positive values''))
        (rc_service_timeouts c),
      check (rc_concurrency_limit c = Some 0) (Invalid ''concurrency limit must be greater than zero''),
      check (rc_max_streams c = Some 0) (Invalid ''maximum concurrent streams must be greater than zero''),
      check (rc_shutdown_timeout c = 0) (Invalid ''shutdown timeout must be greater than zero''),
      (case rc_tls c of None \<Rightarrow> Inr () | Some t \<Rightarrow> server_tls_validate t),
      (case rc_registration c of None \<Rightarrow> Inr () | Some r \<Rightarrow> registration_validate uri r)]"

section \<open>The server\<close>

datatype 'x rpc_server_error =
    ConfigurationError rpc_config_error
  | TransportError 'x
  | RegistrationError etcd_error
  | ShutdownTimedOut

definition rpc_server_try_new ::
  "(string \<Rightarrow> (string option \<times> string option) option) \<Rightarrow> rpc_server_config \<Rightarrow> rpc_config_error + rpc_server_config" where
  "rpc_server_try_new uri c = and_then (rpc_server_validate uri c) (\<lambda>_. Inr c)"

record router_builder =
  rb_concurrency_limit :: "nat option"
  rb_max_streams :: "nat option"
  rb_tls :: "((string \<times> string) \<times> string option) option"
  rb_timeouts :: server_timeout

definition try_router ::
  "(string \<Rightarrow> (string option \<times> string option) option) \<Rightarrow> ((string \<times> string) \<times> string option \<Rightarrow> 'x + unit) \<Rightarrow>
   rpc_server_config \<Rightarrow> 'x rpc_server_error + router_builder" where
  "try_router uri load_tls c =
     (case rpc_server_validate uri c of
        Inl e \<Rightarrow> Inl (ConfigurationError e)
      | Inr _ \<Rightarrow>
          (case (case rc_tls c of None \<Rightarrow> Inr () | Some t \<Rightarrow> load_tls (server_tls_options t)) of
             Inl e \<Rightarrow> Inl (TransportError e)
           | Inr _ \<Rightarrow>
               Inr \<lparr>rb_concurrency_limit = rc_concurrency_limit c, rb_max_streams = rc_max_streams c,
                 rb_tls = map_option server_tls_options (rc_tls c),
                 rb_timeouts = \<lparr>sto_global = rc_request_timeout c, sto_methods = rc_method_timeouts c,
                   sto_services = rc_service_timeouts c\<rparr>\<rparr>))"

text \<open>
  One run of \<open>serve_with_shutdown\<close>. The server stops by itself, or the signal comes first and the
  drain takes some time until it ends with the transport's result. What happens to the published lease
  is recorded: it is revoked and the revocation awaited, or the lease is dropped, which only signals its task.
\<close>

datatype 'x serving = StopsBefore "'x + unit" | DrainsAfter duration "'x + unit"

datatype lease_action = LeasePublished | LeaseRevoked | LeaseDropped

definition transport_result :: "'x + unit \<Rightarrow> 'x rpc_server_error + unit" where
  "transport_result r = (case r of Inl e \<Rightarrow> Inl (TransportError e) | Inr _ \<Rightarrow> Inr ())"

text \<open>\<open>serving_result.and(revoke_result)\<close>, with the early return of the timed-out drain.\<close>

definition serve_with_shutdown ::
  "(string \<Rightarrow> (string option \<times> string option) option) \<Rightarrow> (registration \<Rightarrow> etcd_error + unit) \<Rightarrow> (etcd_error + unit) \<Rightarrow>
   'x serving \<Rightarrow> rpc_server_config \<Rightarrow> ('x rpc_server_error + unit) \<times> lease_action list" where
  "serve_with_shutdown uri register revoke run c =
     (case rpc_server_validate uri c of
        Inl e \<Rightarrow> (Inl (ConfigurationError e), [])
      | Inr _ \<Rightarrow>
          (case (case rc_registration c of None \<Rightarrow> Inr () | Some r \<Rightarrow> register r) of
             Inl e \<Rightarrow> (Inl (RegistrationError e), [])
           | Inr _ \<Rightarrow>
               let leased = (rc_registration c \<noteq> None);
                   published = (if leased then [LeasePublished] else []);
                   finished = (case run of
                     StopsBefore r \<Rightarrow> Some (transport_result r)
                   | DrainsAfter elapsed r \<Rightarrow>
                       if rc_shutdown_timeout c < elapsed then None else Some (transport_result r)) in
               (case finished of
                  None \<Rightarrow> (Inl ShutdownTimedOut, published @ (if leased then [LeaseDropped] else []))
                | Some serving_result \<Rightarrow>
                    let revoke_result = (if leased
                          then (case revoke of Inl e \<Rightarrow> Inl (RegistrationError e) | Inr _ \<Rightarrow> Inr ()) else Inr ()) in
                    (and_then serving_result (\<lambda>_. revoke_result),
                     published @ (if leased then [LeaseRevoked] else [])))))"

section \<open>Client settings\<close>

record rpc_client_config =
  cc_uri :: string
  cc_request_timeout :: "duration option"
  cc_connect_timeout :: "duration option"
  cc_concurrency_limit :: "nat option"
  cc_tcp_keepalive :: "duration option"
  cc_http2_interval :: "duration option"
  cc_keepalive_timeout :: "duration option"
  cc_while_idle :: bool
  cc_health_interval :: "duration option"
  cc_health_timeout :: "duration option"
  cc_subset_size :: "nat option"
  cc_subset_seed :: "64 word option"
  cc_tls :: "client_tls option"

definition rpc_client_config_new :: "string \<Rightarrow> rpc_client_config" where
  "rpc_client_config_new uri =
     \<lparr>cc_uri = uri, cc_request_timeout = None, cc_connect_timeout = None, cc_concurrency_limit = None,
      cc_tcp_keepalive = None, cc_http2_interval = None, cc_keepalive_timeout = None, cc_while_idle = False,
      cc_health_interval = None, cc_health_timeout = None, cc_subset_size = None, cc_subset_seed = None, cc_tls = None\<rparr>"

definition client_with_request_timeout :: "duration \<Rightarrow> rpc_client_config \<Rightarrow> rpc_client_config option" where
  "client_with_request_timeout t c = (if t = 0 then None else Some (c\<lparr>cc_request_timeout := Some t\<rparr>))"

definition client_with_connect_timeout :: "duration \<Rightarrow> rpc_client_config \<Rightarrow> rpc_client_config option" where
  "client_with_connect_timeout t c = (if t = 0 then None else Some (c\<lparr>cc_connect_timeout := Some t\<rparr>))"

definition client_with_concurrency_limit :: "nat \<Rightarrow> rpc_client_config \<Rightarrow> rpc_client_config option" where
  "client_with_concurrency_limit n c = (if n = 0 then None else Some (c\<lparr>cc_concurrency_limit := Some n\<rparr>))"

definition client_with_tcp_keepalive :: "duration \<Rightarrow> rpc_client_config \<Rightarrow> rpc_client_config option" where
  "client_with_tcp_keepalive t c = (if t = 0 then None else Some (c\<lparr>cc_tcp_keepalive := Some t\<rparr>))"

definition client_with_http2_keepalive :: "duration \<Rightarrow> duration \<Rightarrow> rpc_client_config \<Rightarrow> rpc_client_config option" where
  "client_with_http2_keepalive i t c =
     (if i = 0 \<or> t = 0 then None else Some (c\<lparr>cc_http2_interval := Some i, cc_keepalive_timeout := Some t\<rparr>))"

definition client_keepalive_while_idle :: "bool \<Rightarrow> rpc_client_config \<Rightarrow> rpc_client_config" where
  "client_keepalive_while_idle enabled c = c\<lparr>cc_while_idle := enabled\<rparr>"

definition client_with_health_check :: "duration \<Rightarrow> duration \<Rightarrow> rpc_client_config \<Rightarrow> rpc_client_config option" where
  "client_with_health_check i t c =
     (if i = 0 \<or> t = 0 then None else Some (c\<lparr>cc_health_interval := Some i, cc_health_timeout := Some t\<rparr>))"

definition client_with_subset :: "nat \<Rightarrow> rpc_client_config \<Rightarrow> rpc_client_config option" where
  "client_with_subset n c = (if n = 0 then None else Some (c\<lparr>cc_subset_size := Some n\<rparr>))"

definition client_with_subset_seed :: "64 word \<Rightarrow> rpc_client_config \<Rightarrow> rpc_client_config" where
  "client_with_subset_seed seed c = c\<lparr>cc_subset_seed := Some seed\<rparr>"

definition client_with_tls :: "client_tls \<Rightarrow> rpc_client_config \<Rightarrow> rpc_client_config" where
  "client_with_tls tls c = c\<lparr>cc_tls := Some tls\<rparr>"

definition rpc_client_validate :: "rpc_client_config \<Rightarrow> rpc_config_error + unit" where
  "rpc_client_validate c = in_order
     [check (is_blank (cc_uri c)) (Invalid ''client URI must not be empty''),
      check_all (\<lambda>(d, message). check (d = Some 0) (Invalid message))
        [(cc_request_timeout c, ''request timeout must be greater than zero''),
         (cc_connect_timeout c, ''connect timeout must be greater than zero''),
         (cc_tcp_keepalive c, ''TCP keepalive interval must be greater than zero''),
         (cc_http2_interval c, ''HTTP/2 keepalive interval must be greater than zero''),
         (cc_keepalive_timeout c, ''HTTP/2 keepalive timeout must be greater than zero''),
         (cc_health_interval c, ''discovery health interval must be greater than zero''),
         (cc_health_timeout c, ''discovery health timeout must be greater than zero'')],
      check (cc_concurrency_limit c = Some 0) (Invalid ''concurrency limit must be greater than zero''),
      check (cc_subset_size c = Some 0) (Invalid ''discovery subset size must be greater than zero''),
      check ((cc_http2_interval c \<noteq> None) \<noteq> (cc_keepalive_timeout c \<noteq> None))
        (Invalid ''HTTP/2 keepalive interval and timeout must be configured together''),
      check ((cc_health_interval c \<noteq> None) \<noteq> (cc_health_timeout c \<noteq> None))
        (Invalid ''discovery health interval and timeout must be configured together''),
      (case cc_tls c of None \<Rightarrow> Inr () | Some t \<Rightarrow> client_tls_validate t)]"

section \<open>Durations in files\<close>

definition millis_serialize :: "duration \<Rightarrow> nat" where
  "millis_serialize d = min u64_max (as_millis d)"

definition optional_millis_serialize :: "duration option \<Rightarrow> nat option" where
  "optional_millis_serialize = map_option millis_serialize"

definition optional_millis_deserialize :: "nat option \<Rightarrow> duration option" where
  "optional_millis_deserialize = map_option duration_from_millis"

definition millis_map_serialize :: "(string, duration) bmap \<Rightarrow> (string, nat) bmap" where
  "millis_map_serialize m = map (\<lambda>(k, d). (k, millis_serialize d)) m"

definition millis_map_deserialize :: "(string, nat) bmap \<Rightarrow> (string, duration) bmap" where
  "millis_map_deserialize m = map (\<lambda>(k, n). (k, duration_from_millis n)) m"

section \<open>What the builders make\<close>

text \<open>
  The settings that the builders can make, when the security and registration settings put into them
  are valid themselves.
\<close>

inductive rpc_server_built :: "(string \<Rightarrow> (string option \<times> string option) option) \<Rightarrow> rpc_server_config \<Rightarrow> bool" for uri where
  new: "rpc_server_built uri (rpc_server_config_new address)"
| request: "rpc_server_built uri c \<Longrightarrow> rpc_with_request_timeout t c = Some c' \<Longrightarrow> rpc_server_built uri c'"
| per_method: "rpc_server_built uri c \<Longrightarrow> rpc_with_method_timeout m t c = Some c' \<Longrightarrow> rpc_server_built uri c'"
| per_service: "rpc_server_built uri c \<Longrightarrow> rpc_with_service_timeout s t c = Some c' \<Longrightarrow> rpc_server_built uri c'"
| concurrency: "rpc_server_built uri c \<Longrightarrow> rpc_with_concurrency_limit n c = Some c' \<Longrightarrow> rpc_server_built uri c'"
| streams: "rpc_server_built uri c \<Longrightarrow> rpc_with_max_concurrent_streams n c = Some c' \<Longrightarrow> rpc_server_built uri c'"
| shutdown: "rpc_server_built uri c \<Longrightarrow> rpc_with_shutdown_timeout t c = Some c' \<Longrightarrow> rpc_server_built uri c'"
| tls: "rpc_server_built uri c \<Longrightarrow> server_tls_validate tls = Inr () \<Longrightarrow> rpc_server_built uri (rpc_with_tls tls c)"
| registered: "rpc_server_built uri c \<Longrightarrow> registration_validate uri r = Inr () \<Longrightarrow>
    rpc_server_built uri (rpc_with_etcd_registration r c)"

lemma with_slash_idem [simp]: "with_slash (with_slash s) = with_slash s"
  by (simp add: with_slash_def starts_with_slash_def)

lemma normalize_method_idem: "normalize_method m = Some m' \<Longrightarrow> m' = with_slash m \<and> normalize_method m' = Some m'"
  by (auto simp: normalize_method_def Let_def split: list.splits if_splits)

lemma normalize_service_idem: "normalize_service s = Some s' \<Longrightarrow> s' = with_slash s \<and> normalize_service s' = Some s'"
  by (auto simp: normalize_service_def Let_def split: if_splits)

text \<open>Validity of the server settings, field by field.\<close>

definition rpc_server_valid :: "(string \<Rightarrow> (string option \<times> string option) option) \<Rightarrow> rpc_server_config \<Rightarrow> bool" where
  "rpc_server_valid uri c \<longleftrightarrow>
     rc_request_timeout c \<noteq> Some 0 \<and>
     (\<forall>(m, t) \<in> set (rc_method_timeouts c). 0 < t \<and> normalize_method m = Some m) \<and>
     (\<forall>(s, t) \<in> set (rc_service_timeouts c). 0 < t \<and> normalize_service s = Some s) \<and>
     rc_concurrency_limit c \<noteq> Some 0 \<and> rc_max_streams c \<noteq> Some 0 \<and> 0 < rc_shutdown_timeout c \<and>
     (\<forall>t. rc_tls c = Some t \<longrightarrow> server_tls_validate t = Inr ()) \<and>
     (\<forall>r. rc_registration c = Some r \<longrightarrow> registration_validate uri r = Inr ())"

lemma rpc_server_validate_iff: "rpc_server_validate uri c = Inr () \<longleftrightarrow> rpc_server_valid uri c"
  unfolding rpc_server_validate_def rpc_server_valid_def in_order_Inr
  by (auto simp: check_all_Inr split: option.splits)

lemma set_bt_put_pair: "p \<in> set (bt_put k v m) \<Longrightarrow> p = (k, v) \<or> p \<in> set m"
  by (induction m) (auto split: if_splits)

lemma rpc_server_built_valid:
  "rpc_server_built uri c \<Longrightarrow> rpc_server_valid uri c \<and> bt_ok (rc_method_timeouts c) \<and> bt_ok (rc_service_timeouts c)"
proof (induction rule: rpc_server_built.induct)
  case (per_method c m t c')
  then obtain m' where m: "normalize_method m = Some m'" "0 < t"
    "c' = c\<lparr>rc_method_timeouts := bt_put m' t (rc_method_timeouts c)\<rparr>"
    by (auto simp: rpc_with_method_timeout_def split: if_splits)
  with per_method.IH normalize_method_idem [OF m(1)] show ?case
    by (auto simp: rpc_server_valid_def bt.ok_put dest!: set_bt_put_pair)
next
  case (per_service c s t c')
  then obtain s' where s: "normalize_service s = Some s'" "0 < t"
    "c' = c\<lparr>rc_service_timeouts := bt_put s' t (rc_service_timeouts c)\<rparr>"
    by (auto simp: rpc_with_service_timeout_def split: if_splits)
  with per_service.IH normalize_service_idem [OF s(1)] show ?case
    by (auto simp: rpc_server_valid_def bt.ok_put dest!: set_bt_put_pair)
qed (auto simp: rpc_server_valid_def rpc_server_config_new_def nanos_per_sec_def bt.ok_empty
    rpc_with_request_timeout_def rpc_with_concurrency_limit_def rpc_with_max_concurrent_streams_def
    rpc_with_shutdown_timeout_def rpc_with_tls_def rpc_with_etcd_registration_def split: if_splits)

lemma try_router_valid:
  assumes "rpc_server_valid uri c" "\<And>t. rc_tls c = Some t \<Longrightarrow> load (server_tls_options t) = Inr ()"
  obtains b where "try_router uri load c = Inr b" "rb_concurrency_limit b = rc_concurrency_limit c"
    "rb_max_streams b = rc_max_streams c"
    "rb_timeouts b = \<lparr>sto_global = rc_request_timeout c, sto_methods = rc_method_timeouts c, sto_services = rc_service_timeouts c\<rparr>"
  using assms rpc_server_validate_iff [of uri c]
  by (cases "rc_tls c") (auto simp: try_router_def intro: that)

lemma valid_timeout_positive:
  assumes "rpc_server_valid uri c"
    and "server_timeout_for path \<lparr>sto_global = rc_request_timeout c, sto_methods = rc_method_timeouts c,
      sto_services = rc_service_timeouts c\<rparr> = Some d"
  shows "0 < d"
  using assms
  by (auto simp: server_timeout_for_def option_or_def rpc_server_valid_def bind_eq_Some_conv
      split: option.splits dest!: map_of_SomeD)

lemma server_timeout_put:
  "server_timeout_for path \<lparr>sto_global = g, sto_methods = bt_put m t ms, sto_services = ss\<rparr> =
    (if path = m then Some t else server_timeout_for path \<lparr>sto_global = g, sto_methods = ms, sto_services = ss\<rparr>)"
  by (simp add: server_timeout_for_def option_or_def map_of_bt_put)

text \<open>
  C25. Whatever the builders make is well formed. Settings made by any sequence of builder calls
  that did not panic, with valid security and registration settings, pass the validation; the
  router is built from them with the configured limits when the PEM material loads; no request of any
  path gets a deadline of zero; and a further timeout for a method is the deadline of exactly
  the normalised path, whatever was set for its service or for all requests.
\<close>

theorem rpc_server_config_well_formed:
  assumes built: "rpc_server_built uri c"
    and load: "\<And>t. rc_tls c = Some t \<Longrightarrow> load (server_tls_options t) = Inr ()"
  shows "\<exists>b. rpc_server_try_new uri c = Inr c \<and> try_router uri load c = Inr b \<and>
    rb_concurrency_limit b = rc_concurrency_limit c \<and> rb_max_streams b = rc_max_streams c \<and>
    (\<forall>path d. server_timeout_for path (rb_timeouts b) = Some d \<longrightarrow> 0 < d) \<and>
    (\<forall>m t c'. rpc_with_method_timeout m t c = Some c' \<longrightarrow>
      (\<exists>b'. try_router uri load c' = Inr b' \<and>
        (\<forall>path. server_timeout_for path (rb_timeouts b') =
          (if path = with_slash m then Some t else server_timeout_for path (rb_timeouts b)))))"
proof -
  note valid = rpc_server_built_valid [OF built]
  obtain b where b: "try_router uri load c = Inr b" "rb_concurrency_limit b = rc_concurrency_limit c"
    "rb_max_streams b = rc_max_streams c"
    "rb_timeouts b = \<lparr>sto_global = rc_request_timeout c, sto_methods = rc_method_timeouts c, sto_services = rc_service_timeouts c\<rparr>"
    using try_router_valid [of uri c load] valid load by blast
  have "\<exists>b'. try_router uri load c' = Inr b' \<and> (\<forall>path. server_timeout_for path (rb_timeouts b') =
      (if path = with_slash m then Some t else server_timeout_for path (rb_timeouts b)))"
    if put: "rpc_with_method_timeout m t c = Some c'" for m t c'
  proof -
    obtain m' where m: "normalize_method m = Some m'" "c' = c\<lparr>rc_method_timeouts := bt_put m' t (rc_method_timeouts c)\<rparr>"
      using put by (auto simp: rpc_with_method_timeout_def split: if_splits)
    have "rpc_server_valid uri c'"
      using rpc_server_built_valid [OF rpc_server_built.per_method [OF built put]] by blast
    then obtain b' where "try_router uri load c' = Inr b'"
      "rb_timeouts b' = \<lparr>sto_global = rc_request_timeout c', sto_methods = rc_method_timeouts c', sto_services = rc_service_timeouts c'\<rparr>"
      using try_router_valid [of uri c' load] load m(2) by auto
    then show ?thesis
      using normalize_method_idem [OF m(1)] m(2) by (intro exI [of _ b']) (simp add: server_timeout_put b(4))
  qed
  with b valid valid_timeout_positive show ?thesis
    by (auto simp: rpc_server_try_new_def rpc_server_validate_iff and_then_Inr)
qed

theorem rpc_server_config_well_formed_witness:
  "\<exists>c b. rpc_with_method_timeout ''pkg.Echo/Call'' 5 (rpc_server_config_new ''[::]:1'') = Some c \<and>
     rpc_server_try_new (\<lambda>_. None) c = Inr c \<and> try_router (\<lambda>_. None) (\<lambda>_. Inl ()) c = Inr b \<and>
     server_timeout_for ''/pkg.Echo/Call'' (rb_timeouts b) = Some 5"
proof -
  let ?c0 = "rpc_server_config_new ''[::]:1''"
  define c where "c = ?c0\<lparr>rc_method_timeouts := [(''/pkg.Echo/Call'', 5)]\<rparr>"
  have put: "rpc_with_method_timeout ''pkg.Echo/Call'' 5 ?c0 = Some c"
    by (simp add: c_def rpc_with_method_timeout_def normalize_method_def with_slash_def starts_with_slash_def Let_def
        rpc_server_config_new_def)
  have no_tls: "rc_tls ?c0 = None" "rc_tls c = None" by (simp_all add: c_def rpc_server_config_new_def)
  have built: "rpc_server_built (\<lambda>_. None) c"
    by (rule rpc_server_built.per_method [OF rpc_server_built.new put])
  obtain b where "rpc_server_try_new (\<lambda>_. None) c = Inr c" "try_router (\<lambda>_. None) (\<lambda>_. Inl ()) c = Inr b"
    using rpc_server_config_well_formed [OF built, of "\<lambda>_. Inl ()"] no_tls by auto
  moreover obtain b' where "try_router (\<lambda>_. None) (\<lambda>_. Inl ()) c = Inr b'"
    "\<forall>path. path = with_slash ''pkg.Echo/Call'' \<longrightarrow> server_timeout_for path (rb_timeouts b') = Some 5"
    using rpc_server_config_well_formed [OF rpc_server_built.new, of "''[::]:1''" "\<lambda>_. Inl ()" "\<lambda>_. None"]
      put no_tls(1) by fastforce
  then have "server_timeout_for ''/pkg.Echo/Call'' (rb_timeouts b) = Some 5"
    using calculation(2) by (simp add: with_slash_def starts_with_slash_def)
  ultimately show ?thesis using put by blast
qed

text \<open>
  Serving: whatever was published is given up, exactly once; only a drain that times out gives it up
  without waiting for the revocation, and without its result.
\<close>

lemma serve_gives_up_lease:
  assumes "serve_with_shutdown uri register revoke run c = (r, actions)"
  shows "actions \<in> {[], [LeasePublished, LeaseRevoked], [LeasePublished, LeaseDropped]} \<and>
    (LeaseDropped \<in> set actions \<longrightarrow> r = Inl ShutdownTimedOut) \<and>
    (r = Inr () \<longrightarrow> LeasePublished \<in> set actions \<longrightarrow> revoke = Inr ())"
  using assms
  by (auto simp: serve_with_shutdown_def Let_def and_then_Inr transport_result_def
      split: sum.splits option.splits serving.splits if_splits)

text \<open>A registration that validates connects: the assertion in \<open>etcd_config\<close> holds.\<close>

lemma registration_validD:
  assumes "registration_validate uri r = Inr ()"
  shows "rg_connect_timeout r \<noteq> 0" "rg_tls r = Some t \<Longrightarrow> validate_registration_tls t = Inr ()"
  using assms [unfolded registration_validate_def in_order_Inr] by auto

lemma registration_tls_valid: "validate_registration_tls t = Inr () \<Longrightarrow> etcd_tls_validate t = Inr ()"
  unfolding validate_registration_tls_def etcd_tls_validate_def in_order_Inr by simp

lemma registration_etcd_config_valid:
  assumes "registration_validate uri r = Inr ()"
  shows "\<exists>c. registration_etcd_config r = Some c \<and> ec_endpoints c = rg_endpoints r \<and>
    (\<forall>t. ec_tls c = Some t \<longrightarrow> etcd_tls_validate t = Inr ())"
  using registration_validD [OF assms] registration_tls_valid
  by (auto simp: registration_etcd_config_def etcd_with_timeout_def etcd_with_namespace_def etcd_config_new_def
      etcd_with_credentials_def etcd_with_tls_def Let_def split: option.splits)

inductive rpc_client_built :: "rpc_client_config \<Rightarrow> bool" where
  new: "\<not> is_blank uri \<Longrightarrow> rpc_client_built (rpc_client_config_new uri)"
| step: "rpc_client_built c \<Longrightarrow>
    Some c' \<in> {client_with_request_timeout t c, client_with_connect_timeout t c, client_with_concurrency_limit n c,
      client_with_tcp_keepalive t c, client_with_http2_keepalive i t c, Some (client_keepalive_while_idle b c),
      client_with_health_check i t c, client_with_subset n c, Some (client_with_subset_seed seed c)} \<Longrightarrow>
    rpc_client_built c'"
| tls: "rpc_client_built c \<Longrightarrow> client_tls_validate t = Inr () \<Longrightarrow> rpc_client_built (client_with_tls t c)"

definition rpc_client_valid :: "rpc_client_config \<Rightarrow> bool" where
  "rpc_client_valid c \<longleftrightarrow>
     \<not> is_blank (cc_uri c) \<and> cc_request_timeout c \<noteq> Some 0 \<and> cc_connect_timeout c \<noteq> Some 0 \<and>
     cc_tcp_keepalive c \<noteq> Some 0 \<and> cc_http2_interval c \<noteq> Some 0 \<and> cc_keepalive_timeout c \<noteq> Some 0 \<and>
     cc_health_interval c \<noteq> Some 0 \<and> cc_health_timeout c \<noteq> Some 0 \<and> cc_concurrency_limit c \<noteq> Some 0 \<and>
     cc_subset_size c \<noteq> Some 0 \<and> (cc_http2_interval c = None \<longleftrightarrow> cc_keepalive_timeout c = None) \<and>
     (cc_health_interval c = None \<longleftrightarrow> cc_health_timeout c = None) \<and>
     (\<forall>t. cc_tls c = Some t \<longrightarrow> client_tls_validate t = Inr ())"

lemma rpc_client_validate_iff: "rpc_client_validate c = Inr () \<longleftrightarrow> rpc_client_valid c"
  unfolding rpc_client_validate_def rpc_client_valid_def in_order_Inr
  by (cases "cc_tls c") (simp_all add: check_all_Inr and_then_Inr, auto)

lemmas client_builder_defs = client_with_request_timeout_def client_with_connect_timeout_def
  client_with_concurrency_limit_def client_with_tcp_keepalive_def client_with_http2_keepalive_def
  client_keepalive_while_idle_def client_with_health_check_def client_with_subset_def client_with_subset_seed_def

lemma client_builder_valid:
  assumes "rpc_client_valid c"
    and "Some c' \<in> {client_with_request_timeout t c, client_with_connect_timeout t c, client_with_concurrency_limit n c,
      client_with_tcp_keepalive t c, client_with_http2_keepalive i t c, Some (client_keepalive_while_idle b c),
      client_with_health_check i t c, client_with_subset n c, Some (client_with_subset_seed seed c)}"
  shows "rpc_client_valid c'"
  using assms(2) unfolding insert_iff empty_iff
  by (elim disjE FalseE) (use assms(1) in \<open>simp_all add: rpc_client_valid_def client_builder_defs split: if_splits\<close>)

lemma rpc_client_built_valid: "rpc_client_built c \<Longrightarrow> rpc_client_validate c = Inr ()"
proof (induction rule: rpc_client_built.induct)
  case (new uri)
  then show ?case by (simp add: rpc_client_validate_iff rpc_client_valid_def rpc_client_config_new_def)
next
  case (step c c' t n i b seed)
  then show ?case using client_builder_valid unfolding rpc_client_validate_iff by blast
next
  case (tls c t)
  then show ?case by (simp add: rpc_client_validate_iff rpc_client_valid_def client_with_tls_def)
qed

text \<open>Durations of whole milliseconds survive a file; a positive one below a millisecond comes back as zero.\<close>

lemma millis_roundtrip:
  assumes "as_millis d \<le> u64_max"
  shows "duration_from_millis (millis_serialize d) = d \<longleftrightarrow> d mod 1000000 = 0"
proof -
  have "duration_from_millis (millis_serialize d) = d div 1000000 * 1000000"
    using assms by (simp add: millis_serialize_def duration_from_millis_def as_millis_def min_absorb2)
  then show ?thesis using div_mult_mod_eq [of d 1000000] by linarith
qed

lemma submillisecond_timeout_lost:
  "0 < d \<Longrightarrow> d < 1000000 \<Longrightarrow> optional_millis_deserialize (optional_millis_serialize (Some d)) = Some 0"
  by (simp add: optional_millis_deserialize_def optional_millis_serialize_def millis_serialize_def
      duration_from_millis_def as_millis_def)

end
