(* ===== verification/Rpc_Client.thy ===== *)
theory Rpc_Client
  imports Rpc_Config Hash_Ring Diagnostics "HOL-Library.Product_Lexorder"
begin

text \<open>
  \<open>rpc/src/lib.rs\<close>, second part: clients of discovered services. Endpoints from the settings, the
  low-churn subset, the watcher behind a balanced channel, the consistent-hash channel, and the
  projections of readiness. The parser of endpoint URIs, the loading of PEM material and the probes are
  parameters; a lazily connected channel is a number.
\<close>

unbundle bit_operations_syntax

section \<open>Endpoints\<close>

record client_endpoint =
  en_uri :: string
  en_timeout :: "duration option"
  en_connect_timeout :: "duration option"
  en_concurrency_limit :: "nat option"
  en_tcp_keepalive :: "duration option"
  en_http2_interval :: "duration option"
  en_keepalive_timeout :: "duration option"
  en_while_idle :: bool
  en_tls :: "tls_options option"

record 'x transport =
  tr_from_shared :: "string \<Rightarrow> 'x + unit"
  tr_load_tls :: "tls_options \<Rightarrow> 'x + unit"

definition endpoint :: "'x transport \<Rightarrow> rpc_client_config \<Rightarrow> string \<Rightarrow> 'x + client_endpoint" where
  "endpoint t c uri =
     and_then (tr_from_shared t uri) (\<lambda>_.
     and_then (case cc_tls c of None \<Rightarrow> Inr () | Some tls \<Rightarrow> tr_load_tls t (client_tls_options tls)) (\<lambda>_.
       Inr \<lparr>en_uri = uri, en_timeout = cc_request_timeout c, en_connect_timeout = cc_connect_timeout c,
         en_concurrency_limit = cc_concurrency_limit c, en_tcp_keepalive = cc_tcp_keepalive c,
         en_http2_interval = cc_http2_interval c, en_keepalive_timeout = cc_keepalive_timeout c,
         en_while_idle = cc_while_idle c, en_tls = map_option client_tls_options (cc_tls c)\<rparr>))"

record rpc_client =
  cl_config :: rpc_client_config
  cl_seed :: "64 word"

definition rpc_client_new :: "64 word \<Rightarrow> rpc_client_config \<Rightarrow> rpc_client" where
  "rpc_client_new random c =
     \<lparr>cl_config = c, cl_seed = (case cc_subset_seed c of None \<Rightarrow> random | Some s \<Rightarrow> s)\<rparr>"

definition rpc_client_try_new :: "64 word \<Rightarrow> rpc_client_config \<Rightarrow> rpc_config_error + rpc_client" where
  "rpc_client_try_new random c = and_then (rpc_client_validate c) (\<lambda>_. Inr (rpc_client_new random c))"

datatype 'x rpc_client_error = ClientConfiguration rpc_config_error | ClientTransport 'x | ClientDiscovery discovery_error

definition rpc_connect ::
  "'x transport \<Rightarrow> (client_endpoint \<Rightarrow> 'x + 'ch) \<Rightarrow> rpc_client \<Rightarrow> 'x rpc_client_error + 'ch" where
  "rpc_connect t dial cl =
     (case rpc_client_validate (cl_config cl) of
        Inl e \<Rightarrow> Inl (ClientConfiguration e)
      | Inr _ \<Rightarrow>
          (case and_then (endpoint t (cl_config cl) (cc_uri (cl_config cl))) dial of
             Inl e \<Rightarrow> Inl (ClientTransport e)
           | Inr ch \<Rightarrow> Inr ch))"

section \<open>The configured pool\<close>

type_synonym pool = "(string, client_endpoint \<times> discovered_endpoint) bmap"

definition discovery_subset_score :: "string \<Rightarrow> 64 word \<Rightarrow> 64 word" where
  "discovery_subset_score uri seed =
     (let s0 = foldl (\<lambda>score byte. (score XOR of_nat (of_char byte)) * 0x100000001b3) (0xcbf29ce484222325 XOR seed) uri;
          s1 = (s0 XOR drop_bit 30 s0) * 0xbf58476d1ce4e5b9;
          s2 = (s1 XOR drop_bit 27 s1) * 0x94d049bb133111eb in
      s2 XOR drop_bit 31 s2)"

definition select_discovery_subset :: "pool \<Rightarrow> nat \<Rightarrow> 64 word \<Rightarrow> pool" where
  "select_discovery_subset configured limit seed =
     (if length configured \<le> limit then configured
      else
        let ranked = rev (sort (map (\<lambda>(uri, _). (discovery_subset_score uri seed, uri)) configured));
            selected = map snd (take limit ranked) in
        filter (\<lambda>(uri, _). uri \<in> set selected) configured)"

definition valid_endpoints ::
  "'x transport \<Rightarrow> rpc_client_config \<Rightarrow> discovered_endpoint list \<Rightarrow> (string \<times> client_endpoint \<times> discovered_endpoint) list" where
  "valid_endpoints t c endpoints =
     List.map_filter (\<lambda>d. case endpoint t c (de_uri d) of Inl _ \<Rightarrow> None | Inr e \<Rightarrow> Some (de_uri d, e, d)) endpoints"

text \<open>The pool, the number of endpoints discovered and the number rejected.\<close>

definition configure_discovered :: "'x transport \<Rightarrow> rpc_client \<Rightarrow> discovered_endpoint list \<Rightarrow> pool \<times> nat \<times> nat" where
  "configure_discovered t cl endpoints =
     (let discovered = length endpoints;
          configured = fold (\<lambda>(k, v). bt_put k v) (valid_endpoints t (cl_config cl) endpoints) [];
          rejected = discovered - length configured;
          chosen = (case cc_subset_size (cl_config cl) of
            None \<Rightarrow> configured | Some limit \<Rightarrow> select_discovery_subset configured limit (cl_seed cl)) in
      (chosen, discovered, rejected))"

definition nul :: char where
  "nul = CHR 0x00"

definition weighted_key :: "string \<Rightarrow> nat \<Rightarrow> string" where
  "weighted_key uri slot_no = uri @ nul # show_nat slot_no"

text \<open>A \<open>BTreeSet\<close> is the sorted list of its elements.\<close>

definition btree_set :: "'a::linorder list \<Rightarrow> 'a list" where
  "btree_set xs = sort (remdups xs)"

definition members :: "pool \<Rightarrow> string list \<Rightarrow> string list" where
  "members configured available =
     concat (map (\<lambda>(uri, _, d). map (weighted_key uri) [0..<de_weight d])
       (filter (\<lambda>(uri, _). uri \<in> set available) configured))"

definition weighted_keys :: "pool \<Rightarrow> string list \<Rightarrow> string list" where
  "weighted_keys configured available = btree_set (members configured available)"

datatype readiness = PoolEmpty | PoolReady | PoolDegraded

record discovery_snapshot =
  ds_readiness :: readiness
  ds_discovered :: nat
  ds_selected :: nat
  ds_available :: nat
  ds_rejected :: nat

definition discovery_status :: "nat \<Rightarrow> nat \<Rightarrow> nat \<Rightarrow> nat \<Rightarrow> discovery_snapshot" where
  "discovery_status discovered selected available rejected =
     \<lparr>ds_readiness =
        (if discovered = 0 then PoolEmpty
         else if 0 < selected \<and> available = selected \<and> rejected = 0 then PoolReady else PoolDegraded),
      ds_discovered = discovered, ds_selected = selected, ds_available = available, ds_rejected = rejected\<rparr>"

definition status_is_ready :: "discovery_snapshot \<Rightarrow> bool" where
  "status_is_ready s \<longleftrightarrow> ds_readiness s = PoolReady"

section \<open>The balanced channel\<close>

datatype change_msg = InsertKey string client_endpoint | RemoveKey string

record watch_state =
  dw_configured :: pool
  dw_discovered :: nat
  dw_available :: "string list"
  dw_rejected :: nat
  dw_installed :: "string list"
  dw_sent :: "change_msg list"
  dw_status :: discovery_snapshot
  dw_running :: bool

text \<open>\<open>rsplit_once('\0')\<close>: the text before the last zero character.\<close>

definition key_uri :: "string \<Rightarrow> string option" where
  "key_uri key =
     (if nul \<in> set key then Some (rev (drop 1 (dropWhile (\<lambda>c. c \<noteq> nul) (rev key)))) else None)"

definition initial_inserts :: "pool \<Rightarrow> (string \<times> client_endpoint) list" where
  "initial_inserts configured =
     concat (map (\<lambda>(uri, e, d). map (\<lambda>slot_no. (weighted_key uri slot_no, e)) [0..<de_weight d]) configured)"

definition channel_capacity :: "pool \<Rightarrow> nat" where
  "channel_capacity configured = max 128 (sum_list (map (\<lambda>(_, _, d). de_weight d) configured))"

text \<open>\<open>None\<close>: the channel is too small for the initial snapshot and \<open>expect\<close> panics.\<close>

definition watch_start :: "'x transport \<Rightarrow> rpc_client \<Rightarrow> discovered_endpoint list \<Rightarrow> watch_state option" where
  "watch_start t cl endpoints =
     (case configure_discovered t cl endpoints of
        (configured, discovered, rejected) \<Rightarrow>
          if channel_capacity configured < length (initial_inserts configured) then None
          else Some \<lparr>dw_configured = configured, dw_discovered = discovered, dw_available = map fst configured,
            dw_rejected = rejected, dw_installed = btree_set (map fst (initial_inserts configured)),
            dw_sent = map (\<lambda>(k, e). InsertKey k e) (initial_inserts configured),
            dw_status = discovery_status discovered (length configured) (length configured) rejected,
            dw_running = True\<rparr>)"

text \<open>The second half of the loop: bring the balancer from what is installed to what is desired.\<close>

definition insert_of :: "pool \<Rightarrow> string \<Rightarrow> change_msg option" where
  "insert_of configured key =
     Option.bind (key_uri key) (\<lambda>uri. map_option (\<lambda>(e, _). InsertKey key e) (map_of configured uri))"

definition reconcile :: "watch_state \<Rightarrow> watch_state" where
  "reconcile w =
     (let desired = weighted_keys (dw_configured w) (dw_available w);
          removed = filter (\<lambda>k. k \<notin> set desired) (dw_installed w);
          added = filter (\<lambda>k. insert_of (dw_configured w) k \<noteq> None)
            (filter (\<lambda>k. k \<notin> set (dw_installed w)) desired) in
      w\<lparr>dw_installed := btree_set (filter (\<lambda>k. k \<in> set desired) (dw_installed w) @ added),
        dw_sent := dw_sent w @ map RemoveKey removed @ List.map_filter (insert_of (dw_configured w)) added,
        dw_status := discovery_status (dw_discovered w) (length (dw_configured w)) (length (dw_available w))
          (dw_rejected w)\<rparr>)"

datatype watch_input =
    ChannelDropped
  | SubscriptionClosed
  | NewSnapshot "discovered_endpoint list"
  | HealthTick "string \<Rightarrow> bool"  \<comment> \<open>which endpoints can be connected to within the timeout\<close>

definition closed_status :: "watch_state \<Rightarrow> discovery_snapshot" where
  "closed_status w =
     (discovery_status (dw_discovered w) (length (dw_configured w)) 0 (dw_rejected w))\<lparr>ds_readiness := PoolDegraded\<rparr>"

text \<open>\<open>available.retain(...)\<close> and then \<open>available.extend(...)\<close>.\<close>

definition install_snapshot :: "'x transport \<Rightarrow> rpc_client \<Rightarrow> discovered_endpoint list \<Rightarrow> watch_state \<Rightarrow> watch_state" where
  "install_snapshot t cl endpoints w =
     (case configure_discovered t cl endpoints of
        (configured, discovered, rejected) \<Rightarrow>
          w\<lparr>dw_configured := configured, dw_discovered := discovered, dw_rejected := rejected,
            dw_available := btree_set (filter (\<lambda>uri. uri \<in> fst ` set configured) (dw_available w) @ map fst configured)\<rparr>)"

definition probe_discovered :: "(string \<Rightarrow> bool) \<Rightarrow> pool \<Rightarrow> string list" where
  "probe_discovered healthy configured = btree_set (filter healthy (map fst configured))"

definition watch_step :: "'x transport \<Rightarrow> rpc_client \<Rightarrow> watch_input \<Rightarrow> watch_state \<Rightarrow> watch_state" where
  "watch_step t cl i w =
     (if \<not> dw_running w then w
      else case i of
        ChannelDropped \<Rightarrow> w\<lparr>dw_running := False\<rparr>
      | SubscriptionClosed \<Rightarrow> w\<lparr>dw_running := False, dw_status := closed_status w\<rparr>
      | NewSnapshot endpoints \<Rightarrow> reconcile (install_snapshot t cl endpoints w)
      | HealthTick healthy \<Rightarrow>
          if cc_health_interval (cl_config cl) = None then w
          else reconcile (w\<lparr>dw_available := probe_discovered healthy (dw_configured w)\<rparr>))"

text \<open>The balancer at the other end of the channel.\<close>

fun balancer_apply :: "change_msg \<Rightarrow> (string \<rightharpoonup> client_endpoint) \<Rightarrow> (string \<rightharpoonup> client_endpoint)" where
  "balancer_apply (InsertKey k e) m = m(k \<mapsto> e)"
| "balancer_apply (RemoveKey k) m = m(k := None)"

section \<open>The consistent-hash channel\<close>

record hash_state =
  hs_ring :: consistent_hash
  hs_channels :: "(string, nat) bmap"
  hs_next :: nat  \<comment> \<open>the number of the next lazily connected channel\<close>
  hs_fallback :: "64 word"

definition hash_state_empty :: "nat \<Rightarrow> hash_state option" where
  "hash_state_empty replicas =
     map_option (\<lambda>ring. \<lparr>hs_ring = ring, hs_channels = [], hs_next = 0, hs_fallback = 0\<rparr>) (consistent_hash_new replicas)"

definition add_member :: "nat \<Rightarrow> string \<Rightarrow> hash_state \<Rightarrow> hash_state" where
  "add_member channel member s =
     s\<lparr>hs_ring := snd (ch_add member (hs_ring s)), hs_channels := bt_put member channel (hs_channels s)\<rparr>"

definition install_uri :: "(string, nat) bmap \<Rightarrow> string \<Rightarrow> nat \<Rightarrow> hash_state \<Rightarrow> hash_state" where
  "install_uri previous uri weight s =
     (let (channel, fresh) = (case map_of previous (weighted_key uri 0) of
            Some ch \<Rightarrow> (ch, hs_next s) | None \<Rightarrow> (hs_next s, hs_next s + 1)) in
      fold (add_member channel) (map (weighted_key uri) [0..<weight]) (s\<lparr>hs_next := fresh\<rparr>))"

definition replace_state :: "pool \<Rightarrow> string list \<Rightarrow> nat \<Rightarrow> hash_state \<Rightarrow> hash_state option" where
  "replace_state configured available replicas s =
     map_option (\<lambda>ring.
       fold (\<lambda>(uri, _, d). install_uri (hs_channels s) uri (de_weight d))
         (filter (\<lambda>(uri, _). uri \<in> set available) configured)
         (s\<lparr>hs_ring := ring, hs_channels := []\<rparr>))
     (consistent_hash_new replicas)"

text \<open>One turn of the loop of \<open>select\<close>; \<open>None\<close>: the caller waits for the next state.\<close>

definition hash_select :: "string option \<Rightarrow> hash_state \<Rightarrow> nat option \<times> hash_state" where
  "hash_select key s =
     (let keyed = Option.bind key (\<lambda>k. ch_get k (hs_ring s));
          index = unat (hs_fallback s) mod max 1 (length (hs_channels s));
          (member, s1) = (case keyed of
            Some m \<Rightarrow> (Some m, s)
          | None \<Rightarrow>
              (if index < length (hs_channels s) then Some (map fst (hs_channels s) ! index) else None,
               s\<lparr>hs_fallback := hs_fallback s + 1\<rparr>)) in
      (Option.bind member (map_of (hs_channels s)), s1))"

text \<open>The watcher of the hashed channel shares the pool's bookkeeping and replaces the ring every turn.\<close>

definition hash_watch_start ::
  "'x transport \<Rightarrow> rpc_client \<Rightarrow> nat \<Rightarrow> discovered_endpoint list \<Rightarrow> (watch_state \<times> hash_state) option" where
  "hash_watch_start t cl replicas endpoints =
     (case configure_discovered t cl endpoints of
        (configured, discovered, rejected) \<Rightarrow>
          let available = map fst configured in
          map_option (Pair \<lparr>dw_configured = configured, dw_discovered = discovered, dw_available = available,
              dw_rejected = rejected, dw_installed = [], dw_sent = [],
              dw_status = discovery_status discovered (length configured) (length available) rejected, dw_running = True\<rparr>)
            (Option.bind (hash_state_empty replicas) (replace_state configured available replicas)))"

definition hash_replace :: "nat \<Rightarrow> watch_state \<Rightarrow> hash_state \<Rightarrow> (watch_state \<times> hash_state) option" where
  "hash_replace replicas w s =
     map_option (Pair (w\<lparr>dw_status := discovery_status (dw_discovered w) (length (dw_configured w))
         (length (dw_available w)) (dw_rejected w)\<rparr>))
       (replace_state (dw_configured w) (dw_available w) replicas s)"

definition hash_watch_step ::
  "'x transport \<Rightarrow> rpc_client \<Rightarrow> nat \<Rightarrow> watch_input \<Rightarrow> watch_state \<times> hash_state \<Rightarrow> (watch_state \<times> hash_state) option" where
  "hash_watch_step t cl replicas i st =
     (case st of (w, s) \<Rightarrow>
       if \<not> dw_running w then Some (w, s)
       else case i of
         ChannelDropped \<Rightarrow> Some (w\<lparr>dw_running := False\<rparr>, s)
       | SubscriptionClosed \<Rightarrow> Some (w\<lparr>dw_running := False, dw_status := closed_status w\<rparr>, s)
       | NewSnapshot endpoints \<Rightarrow> hash_replace replicas (install_snapshot t cl endpoints w) s
       | HealthTick healthy \<Rightarrow>
           if cc_health_interval (cl_config cl) = None then Some (w, s)
           else hash_replace replicas (w\<lparr>dw_available := probe_discovered healthy (dw_configured w)\<rparr>) s)"

section \<open>Projections of readiness\<close>

text \<open>The statuses seen, in order, until the watcher is gone.\<close>

definition project_to_health :: "string \<Rightarrow> discovery_snapshot list \<Rightarrow> bool \<Rightarrow> health_registry \<Rightarrow> health_registry" where
  "project_to_health dependency seen ended r =
     (let r1 = fold (\<lambda>s. health_set dependency (status_is_ready s)) seen r in
      if ended then health_set dependency False r1 else r1)"

definition project_to_grpc_health :: "discovery_snapshot list \<Rightarrow> bool \<Rightarrow> bool list" where
  "project_to_grpc_health seen ended = map status_is_ready seen @ (if ended then [False] else [])"

section \<open>The subset\<close>

text \<open>An element is among the \<open>k\<close> largest when fewer than \<open>k\<close> are larger.\<close>

definition larger :: "'a::linorder set \<Rightarrow> 'a \<Rightarrow> 'a set" where
  "larger A x = {y \<in> A. x < y}"

lemma card_larger_nth:
  assumes "sorted_wrt (<) xs" "i < length xs"
  shows "card (larger (set xs) (xs ! i)) = length xs - Suc i"
proof -
  have "larger (set xs) (xs ! i) = set (drop (Suc i) xs)"
  proof (intro set_eqI iffI)
    fix y assume "y \<in> larger (set xs) (xs ! i)"
    then obtain j where j: "j < length xs" "y = xs ! j" "xs ! i < xs ! j"
      by (auto simp: larger_def in_set_conv_nth)
    have "i < j"
    proof (rule ccontr)
      assume "\<not> i < j"
      then have "j = i \<or> xs ! j < xs ! i" using assms(2) sorted_wrt_nth_less [OF assms(1), of j i] by linarith
      then show False using j(3) by auto
    qed
    then show "y \<in> set (drop (Suc i) xs)" using j by (auto simp: in_set_conv_nth intro!: exI [of _ "j - Suc i"])
  next
    fix y assume "y \<in> set (drop (Suc i) xs)"
    then obtain j where "j < length xs - Suc i" "y = xs ! (Suc i + j)" by (auto simp: in_set_conv_nth)
    then have "Suc i + j < length xs" "y = xs ! (Suc i + j)" by linarith+
    then show "y \<in> larger (set xs) (xs ! i)" using sorted_wrt_nth_less [OF assms(1), of i "Suc i + j"] by (auto simp: larger_def)
  qed
  moreover have "distinct xs" using assms(1) by (simp add: strict_sorted_iff)
  ultimately show ?thesis by (simp add: distinct_card)
qed

lemma largest_sorted:
  assumes "sorted_wrt (<) xs"
  shows "set (take k (rev xs)) = {x \<in> set xs. card (larger (set xs) x) < k}"
proof -
  have "set (take k (rev xs)) = set (drop (length xs - k) xs)" by (simp add: take_rev)
  also have "\<dots> = {x \<in> set xs. card (larger (set xs) x) < k}"
  proof (intro set_eqI iffI)
    fix x assume "x \<in> set (drop (length xs - k) xs)"
    then obtain j where "j < length xs - (length xs - k)" "x = xs ! (length xs - k + j)" by (auto simp: in_set_conv_nth)
    then have "length xs - k + j < length xs" "x = xs ! (length xs - k + j)" by linarith+
    then show "x \<in> {x \<in> set xs. card (larger (set xs) x) < k}" using card_larger_nth [OF assms] by auto
  next
    fix x assume "x \<in> {x \<in> set xs. card (larger (set xs) x) < k}"
    then obtain i where "i < length xs" "x = xs ! i" "length xs - Suc i < k"
      using card_larger_nth [OF assms] by (auto simp: in_set_conv_nth)
    then show "x \<in> set (drop (length xs - k) xs)"
      by (auto simp: in_set_conv_nth intro!: exI [of _ "i - (length xs - k)"])
  qed
  finally show ?thesis .
qed

text \<open>The rank of an endpoint, and the endpoints that a pool of given endpoints is cut down to.\<close>

definition rank :: "64 word \<Rightarrow> string \<Rightarrow> 64 word \<times> string" where
  "rank seed uri = (discovery_subset_score uri seed, uri)"

definition subset_of :: "64 word \<Rightarrow> nat \<Rightarrow> string set \<Rightarrow> string set" where
  "subset_of seed limit U = {u \<in> U. card (larger (rank seed ` U) (rank seed u)) < limit}"

lemma inj_rank: "inj_on (rank seed) A"
  by (auto simp: inj_on_def rank_def)

lemma finite_larger: "finite A \<Longrightarrow> finite (larger A x)"
  by (simp add: larger_def)

lemma select_subset_keys:
  assumes "bt_ok configured"
  shows "fst ` set (select_discovery_subset configured limit seed) = subset_of seed limit (fst ` set configured)"
proof -
  let ?ks = "map fst configured"
  let ?ranks = "map (rank seed) ?ks"
  have dist: "distinct ?ranks" using bt_ok_distinct [OF assms] by (simp only: distinct_map inj_rank simp_thms)
  have ranks: "map (\<lambda>(uri, _). (discovery_subset_score uri seed, uri)) configured = ?ranks"
    by (auto simp: rank_def)
  have sorted: "sorted_wrt (<) (sort ?ranks)" using dist by (simp add: strict_sorted_iff)
  have top: "set (take limit (rev (sort ?ranks))) = {x \<in> rank seed ` set ?ks. card (larger (rank seed ` set ?ks) x) < limit}"
    using largest_sorted [OF sorted, of limit] by (simp only: set_sort set_map)
  have few: "subset_of seed limit (set ?ks) = set ?ks" if "length configured \<le> limit"
  proof -
    have "card (larger (rank seed ` set ?ks) (rank seed u)) < limit" if u: "u \<in> set ?ks" for u
    proof -
      have "larger (rank seed ` set ?ks) (rank seed u) \<subset> rank seed ` set ?ks" using u by (auto simp: larger_def)
      then have "card (larger (rank seed ` set ?ks) (rank seed u)) < card (rank seed ` set ?ks)"
        by (simp add: psubset_card_mono)
      also have "\<dots> \<le> length configured" by (metis card_image_le card_length finite_set le_trans length_map)
      finally show ?thesis using \<open>length configured \<le> limit\<close> by simp
    qed
    then show ?thesis by (auto simp: subset_of_def)
  qed
  have "snd ` {x \<in> rank seed ` set ?ks. card (larger (rank seed ` set ?ks) x) < limit} = subset_of seed limit (set ?ks)"
    by (force simp: subset_of_def rank_def)
  then have "snd ` set (take limit (rev (sort ?ranks))) = subset_of seed limit (set ?ks)" unfolding top .
  then show ?thesis
    using few unfolding select_discovery_subset_def ranks Let_def
    by (auto simp: subset_of_def image_iff case_prod_beta)
qed

lemma card_subset_of:
  assumes "finite U"
  shows "card (subset_of seed limit U) = min limit (card U)"
proof -
  let ?xs = "sorted_list_of_set (rank seed ` U)"
  have fin: "finite (rank seed ` U)" using assms by simp
  have xs: "sorted_wrt (<) ?xs" "set ?xs = rank seed ` U" "length ?xs = card U"
    using fin by (simp_all add: card_image [OF inj_rank])
  have "rank seed ` subset_of seed limit U = set (take limit (rev ?xs))"
    unfolding largest_sorted [OF xs(1)] xs(2) by (auto simp: subset_of_def)
  then have "card (subset_of seed limit U) = card (set (take limit (rev ?xs)))"
    by (metis card_image inj_rank)
  also have "\<dots> = min limit (card U)" using xs by (simp add: distinct_card)
  finally show ?thesis .
qed

lemma subset_of_insert:
  assumes "finite U" "u \<notin> U"
  shows "subset_of seed limit (insert u U) \<subseteq> insert u (subset_of seed limit U)"
    and "card (subset_of seed limit U - subset_of seed limit (insert u U)) \<le> 1"
proof -
  let ?S = "subset_of seed limit U" and ?T = "subset_of seed limit (insert u U)"
  have mono: "card (larger (rank seed ` U) x) \<le> card (larger (rank seed ` insert u U) x)" for x
    using assms(1) by (intro card_mono) (auto simp: larger_def)
  have "v \<in> ?S" if "v \<in> ?T" "v \<noteq> u" for v
    using that mono [of "rank seed v"] le_less_trans by (fastforce simp: subset_of_def)
  then show sub: "?T \<subseteq> insert u ?S" by blast
  have fin: "finite ?S" "finite ?T" using assms(1) by (simp_all add: subset_of_def)
  have "card ?S \<le> card ?T" using card_subset_of assms by auto
  also have "\<dots> \<le> card (?T \<inter> ?S) + 1"
  proof -
    have "?T \<subseteq> insert u (?T \<inter> ?S)" using sub by blast
    then have "card ?T \<le> card (insert u (?T \<inter> ?S))" using fin by (intro card_mono) auto
    also have "\<dots> \<le> card (?T \<inter> ?S) + 1" using fin by (simp add: card_insert_if)
    finally show ?thesis .
  qed
  moreover have "card ?S = card (?S - ?T) + card (?T \<inter> ?S)"
    using fin by (metis Int_commute add.commute card_Int_Diff)
  ultimately show "card (?S - ?T) \<le> 1" by linarith
qed

text \<open>
  The subset has low churn. From a pool of discovered endpoints the client keeps exactly
  the limit, or all when there are fewer, with their settings unchanged; the choice depends on the
  endpoints and the seed only, not on the order of a snapshot; and an endpoint that joins the pool enters
  the subset at the price of at most one other, and never lets another one in, so that
  a departure brings in at most one replacement.
\<close>

theorem discovery_subset_low_churn:
  assumes "bt_ok configured" "bt_ok joined" "fst ` set joined = insert u (fst ` set configured)" "u \<notin> fst ` set configured"
  shows "length (select_discovery_subset configured limit seed) = min limit (length configured) \<and>
    set (select_discovery_subset configured limit seed) \<subseteq> set configured \<and>
    fst ` set (select_discovery_subset joined limit seed) \<subseteq>
      insert u (fst ` set (select_discovery_subset configured limit seed)) \<and>
    card (fst ` set (select_discovery_subset configured limit seed) -
      fst ` set (select_discovery_subset joined limit seed)) \<le> 1"
proof -
  let ?sel = "select_discovery_subset configured limit seed"
  have sub: "set ?sel \<subseteq> set configured" "distinct (map fst ?sel)"
    using bt_ok_distinct [OF assms(1)] by (auto simp: select_discovery_subset_def Let_def distinct_map_filter)
  have "length ?sel = card (fst ` set ?sel)" using sub(2) by (metis distinct_card image_set length_map)
  also have "\<dots> = min limit (card (fst ` set configured))"
    unfolding select_subset_keys [OF assms(1)] by (rule card_subset_of) simp
  also have "card (fst ` set configured) = length configured"
    using bt_ok_distinct [OF assms(1)] by (metis distinct_card image_set length_map)
  finally have "length ?sel = min limit (length configured)" .
  with sub(1) show ?thesis
    unfolding select_subset_keys [OF assms(1)] select_subset_keys [OF assms(2)] assms(3)
    using subset_of_insert [OF _ assms(4), of seed limit] by simp
qed

section \<open>What the balanced channel serves\<close>

lemma nul_show_nat: "nul \<notin> set (show_nat n)"
proof
  assume "nul \<in> set (show_nat n)"
  then obtain d where "d < 10" "nul = char_of (48 + d :: nat)" using show_nat_digits digit_char_def by metis
  then have "of_char nul = (48 + d) mod (256 :: nat)" by (metis of_char_of)
  then show False using \<open>d < 10\<close> by (simp add: nul_def)
qed

lemma key_uri_weighted [simp]: "key_uri (weighted_key uri n) = Some uri"
proof -
  have "dropWhile (\<lambda>c. c \<noteq> nul) (rev (show_nat n) @ nul # rev uri) = nul # rev uri"
    using nul_show_nat [of n] by (subst dropWhile_append2) auto
  then show ?thesis by (simp add: key_uri_def weighted_key_def)
qed

lemma weighted_key_inj: "weighted_key u n = weighted_key v m \<Longrightarrow> u = v \<and> n = m"
proof -
  assume eq: "weighted_key u n = weighted_key v m"
  then have "u = v" using key_uri_weighted [of u n] key_uri_weighted [of v m] by simp
  with eq show ?thesis by (auto simp: weighted_key_def dest: show_nat_inj)
qed

definition pool_ok :: "'x transport \<Rightarrow> rpc_client_config \<Rightarrow> pool \<Rightarrow> bool" where
  "pool_ok t c configured \<longleftrightarrow> bt_ok configured \<and>
     (\<forall>(u, e, d) \<in> set configured. endpoint t c u = Inr e \<and> de_uri d = u)"

lemma fold_bt_put_set:
  "bt_ok m \<Longrightarrow> bt_ok (fold (\<lambda>(k, v). bt_put k v) kvs m) \<and> set (fold (\<lambda>(k, v). bt_put k v) kvs m) \<subseteq> set m \<union> set kvs"
proof (induction kvs arbitrary: m)
  case (Cons kv kvs)
  obtain k v where kv: "kv = (k, v)" by (cases kv)
  have "set (bt_put k v m) \<subseteq> insert kv (set m)" using set_bt_put_pair unfolding kv by fast
  with Cons.IH [OF bt.ok_put [OF Cons.prems], of k v] show ?case by (auto simp: kv)
qed simp

lemma bt_ok_filter: "bt_ok m \<Longrightarrow> bt_ok (filter P m)"
  by (induction m) (auto simp: bt_ok_def)

lemma configure_discovered_ok:
  assumes "configure_discovered t cl endpoints = (configured, discovered, rejected)"
  shows "pool_ok t (cl_config cl) configured"
proof -
  let ?all = "fold (\<lambda>(k, v). bt_put k v) (valid_endpoints t (cl_config cl) endpoints) []"
  have "pool_ok t (cl_config cl) ?all"
    using fold_bt_put_set [OF bt.ok_empty, of "valid_endpoints t (cl_config cl) endpoints"]
    by (fastforce simp: pool_ok_def valid_endpoints_def map_filter_def split: sum.splits if_splits)
  moreover have "pool_ok t (cl_config cl) (select_discovery_subset m limit seed)"
    if "pool_ok t (cl_config cl) m" for m limit seed
    using that by (auto simp: pool_ok_def select_discovery_subset_def Let_def bt_ok_filter)
  ultimately show ?thesis
    using assms by (auto simp: configure_discovered_def Let_def split: option.splits)
qed

lemma member_iff:
  "k \<in> set (members configured available) \<longleftrightarrow>
     (\<exists>u e d n. (u, e, d) \<in> set configured \<and> u \<in> set available \<and> n < de_weight d \<and> k = weighted_key u n)"
  unfolding members_def by (fastforce simp: image_iff)

lemma set_btree_set [simp]: "set (btree_set xs) = set xs"
  by (simp add: btree_set_def)

lemma distinct_btree_set [simp]: "distinct (btree_set xs)"
  by (simp add: btree_set_def)

lemma set_weighted_keys [simp]: "set (weighted_keys configured available) = set (members configured available)"
  by (simp add: weighted_keys_def)

text \<open>The endpoint that a key of the balancer stands for.\<close>

definition serving :: "'x transport \<Rightarrow> rpc_client_config \<Rightarrow> string set \<Rightarrow> string \<rightharpoonup> client_endpoint" where
  "serving t c K k =
     (if k \<in> K then Option.bind (key_uri k) (\<lambda>u. case endpoint t c u of Inr e \<Rightarrow> Some e | Inl _ \<Rightarrow> None) else None)"

definition watched :: "watch_state \<Rightarrow> string \<rightharpoonup> client_endpoint" where
  "watched w = fold balancer_apply (dw_sent w) Map.empty"

lemma insert_of_member:
  assumes "pool_ok t c configured" "k \<in> set (members configured available)"
  obtains e where "insert_of configured k = Some (InsertKey k e)" "\<And>K. k \<in> K \<Longrightarrow> serving t c K k = Some e"
proof -
  obtain u e d n where m: "(u, e, d) \<in> set configured" "k = weighted_key u n"
    using assms(2) by (auto simp: member_iff)
  then have "map_of configured u = Some (e, d)"
    using assms(1) bt_ok_distinct [of configured] by (simp add: pool_ok_def)
  moreover have "endpoint t c u = Inr e" using assms(1) m(1) by (auto simp: pool_ok_def)
  ultimately show thesis using m(2) by (intro that [of e]) (simp_all add: insert_of_def serving_def)
qed

lemma fold_removes: "fold balancer_apply (map RemoveKey ks) m k = (if k \<in> set ks then None else m k)"
  by (induction ks arbitrary: m) auto

lemma fold_inserts:
  assumes "pool_ok t c configured" "set ks \<subseteq> set (members configured available)"
  shows "fold balancer_apply (List.map_filter (insert_of configured) ks) m k =
    (if k \<in> set ks then serving t c (set ks) k else m k)"
  using assms(2)
proof (induction ks arbitrary: m)
  case (Cons a ks)
  obtain e where e: "insert_of configured a = Some (InsertKey a e)" "\<And>K. a \<in> K \<Longrightarrow> serving t c K a = Some e"
    using insert_of_member [OF assms(1), of a available] Cons.prems by auto
  then have "List.map_filter (insert_of configured) (a # ks) =
      InsertKey a e # List.map_filter (insert_of configured) ks"
    by (simp add: List.map_filter_simps)
  moreover have "serving t c (set (a # ks)) k = serving t c (set ks) k" if "k \<in> set ks"
    using that by (simp add: serving_def)
  ultimately show ?case using Cons e(2) by auto
qed (simp add: List.map_filter_simps)

definition watch_ok :: "'x transport \<Rightarrow> rpc_client \<Rightarrow> watch_state \<Rightarrow> bool" where
  "watch_ok t cl w \<longleftrightarrow> pool_ok t (cl_config cl) (dw_configured w) \<and>
     distinct (dw_available w) \<and> set (dw_available w) \<subseteq> fst ` set (dw_configured w) \<and>
     watched w = serving t (cl_config cl) (set (dw_installed w))"

lemma reconcile_installs:
  assumes "pool_ok t c (dw_configured w)"
  shows "set (dw_installed (reconcile w)) = set (members (dw_configured w) (dw_available w))"
proof -
  have "insert_of (dw_configured w) k \<noteq> None" if "k \<in> set (members (dw_configured w) (dw_available w))" for k
    using insert_of_member [OF assms that] by auto
  then show ?thesis by (auto simp: reconcile_def Let_def)
qed

lemma reconcile_ok:
  assumes "watch_ok t cl (w\<lparr>dw_configured := c0, dw_available := a0\<rparr>)" "pool_ok t (cl_config cl) (dw_configured w)"
    "distinct (dw_available w)" "set (dw_available w) \<subseteq> fst ` set (dw_configured w)"
  shows "watch_ok t cl (reconcile w) \<and>
    set (dw_installed (reconcile w)) = set (members (dw_configured w) (dw_available w))"
proof -
  let ?c = "cl_config cl" and ?K = "set (dw_installed w)" and ?D = "set (members (dw_configured w) (dw_available w))"
  define removed where "removed = filter (\<lambda>k. k \<notin> ?D) (dw_installed w)"
  define added where "added = filter (\<lambda>k. insert_of (dw_configured w) k \<noteq> None)
    (filter (\<lambda>k. k \<notin> ?K) (weighted_keys (dw_configured w) (dw_available w)))"
  have old: "watched w = serving t ?c ?K" using assms(1) by (simp add: watch_ok_def watched_def)
  have sub: "set added \<subseteq> ?D" by (auto simp: added_def)
  have added: "set added = ?D - ?K"
  proof -
    have "insert_of (dw_configured w) k \<noteq> None" if "k \<in> ?D" for k using insert_of_member [OF assms(2) that] by auto
    then show ?thesis by (auto simp: added_def)
  qed
  have sent: "dw_sent (reconcile w) = dw_sent w @ map RemoveKey removed @ List.map_filter (insert_of (dw_configured w)) added"
    by (simp add: reconcile_def Let_def removed_def added_def)
  have "watched (reconcile w) k = serving t ?c ?D k" for k
  proof -
    have "watched (reconcile w) k =
        (if k \<in> set added then serving t ?c (set added) k else if k \<in> set removed then None else watched w k)"
      using fold_inserts [OF assms(2) sub] by (simp add: watched_def sent fold_removes)
    then show ?thesis unfolding old added by (auto simp: serving_def removed_def)
  qed
  then have "watched (reconcile w) = serving t ?c ?D" by blast
  with reconcile_installs [OF assms(2)] assms(2-4) show ?thesis
    by (simp add: watch_ok_def reconcile_def Let_def)
qed

inductive watch_run :: "'x transport \<Rightarrow> rpc_client \<Rightarrow> watch_state \<Rightarrow> bool" for t cl where
  start: "watch_start t cl endpoints = Some w \<Longrightarrow> watch_run t cl w"
| step: "watch_run t cl w \<Longrightarrow> watch_run t cl (watch_step t cl i w)"

lemma initial_inserts_keys: "map fst (initial_inserts configured) = members configured (map fst configured)"
proof -
  have "filter (\<lambda>(uri, _). uri \<in> set (map fst configured)) configured = configured"
    by (rule filter_True) force
  then show ?thesis
    by (simp only: initial_inserts_def members_def map_concat)
      (simp add: comp_def case_prod_unfold)
qed

lemma initial_fits: "length (initial_inserts configured) \<le> channel_capacity configured"
  by (simp add: initial_inserts_def channel_capacity_def length_concat comp_def case_prod_unfold max.coboundedI2)

lemma watch_starts: "\<exists>w. watch_start t cl endpoints = Some w"
  using initial_fits leD by (fastforce simp: watch_start_def split: prod.splits)

lemma fold_inserts_all:
  "(\<And>k e. (k, e) \<in> set kes \<Longrightarrow> f k = Some e) \<Longrightarrow>
   fold balancer_apply (map (\<lambda>(k, e). InsertKey k e) kes) m k = (if k \<in> fst ` set kes then f k else m k)"
  by (induction kes arbitrary: m) force+

lemma start_ok:
  assumes "watch_start t cl endpoints = Some w"
  shows "watch_ok t cl w \<and> dw_running w \<and> set (dw_installed w) = set (members (dw_configured w) (dw_available w)) \<and>
    dw_status w = discovery_status (dw_discovered w) (length (dw_configured w)) (length (dw_available w)) (dw_rejected w)"
proof -
  obtain conf disc rej where c: "configure_discovered t cl endpoints = (conf, disc, rej)"
    by (cases "configure_discovered t cl endpoints") auto
  note ok = configure_discovered_ok [OF c]
  let ?f = "serving t (cl_config cl) (set (members conf (map fst conf)))"
  have "?f k = Some e" if "(k, e) \<in> set (initial_inserts conf)" for k e
  proof -
    from that obtain u d n where m: "(u, e, d) \<in> set conf" "k = weighted_key u n" "n < de_weight d"
      by (auto simp: initial_inserts_def)
    then have "k \<in> set (members conf (map fst conf))" unfolding member_iff by force
    with m ok show ?thesis by (auto simp: serving_def pool_ok_def)
  qed
  then have "fold balancer_apply (map (\<lambda>(k, e). InsertKey k e) (initial_inserts conf)) Map.empty k = ?f k" for k
    using fold_inserts_all [of "initial_inserts conf" ?f] initial_inserts_keys [of conf]
    by (simp add: serving_def flip: set_map)
  then show ?thesis
    using assms ok bt_ok_distinct [of conf]
    by (auto simp: watch_start_def c watch_ok_def watched_def initial_inserts_keys pool_ok_def split: if_splits)
qed

lemma watch_run_ok:
  "watch_run t cl w \<Longrightarrow> watch_ok t cl w \<and> set (dw_installed w) = set (members (dw_configured w) (dw_available w)) \<and>
    (dw_running w \<longrightarrow> dw_status w =
       discovery_status (dw_discovered w) (length (dw_configured w)) (length (dw_available w)) (dw_rejected w))"
proof (induction rule: watch_run.induct)
  case (start endpoints w)
  then show ?case using start_ok by blast
next
  case (step w i)
  have probe: "distinct (probe_discovered h (dw_configured w))" "set (probe_discovered h (dw_configured w)) \<subseteq> fst ` set (dw_configured w)" for h
    by (auto simp: probe_discovered_def)
  show ?case
  proof (cases i)
    case (NewSnapshot endpoints)
    obtain conf disc rej where c: "configure_discovered t cl endpoints = (conf, disc, rej)"
      by (cases "configure_discovered t cl endpoints") auto
    let ?w = "install_snapshot t cl endpoints w"
    have "watch_ok t cl (?w\<lparr>dw_configured := dw_configured w, dw_available := dw_available w\<rparr>)"
      using step.IH by (simp add: watch_ok_def watched_def install_snapshot_def c)
    from reconcile_ok [OF this] configure_discovered_ok [OF c]
    have "watch_ok t cl (reconcile ?w) \<and> set (dw_installed (reconcile ?w)) = set (members conf (dw_available ?w))"
      by (auto simp: install_snapshot_def c)
    then show ?thesis using step.IH NewSnapshot
      by (simp add: watch_step_def) (simp add: reconcile_def install_snapshot_def c Let_def)
  next
    case (HealthTick h)
    let ?w = "w\<lparr>dw_available := probe_discovered h (dw_configured w)\<rparr>"
    have "watch_ok t cl (?w\<lparr>dw_configured := dw_configured w, dw_available := dw_available w\<rparr>)"
      using step.IH by (simp add: watch_ok_def watched_def)
    from reconcile_ok [OF this] probe [of h] step.IH
    have "watch_ok t cl (reconcile ?w) \<and> set (dw_installed (reconcile ?w)) = set (members (dw_configured w) (dw_available ?w))"
      by (auto simp: watch_ok_def)
    then show ?thesis using step.IH HealthTick
      by (simp add: watch_step_def) (simp add: reconcile_def Let_def)
  qed (use step.IH in \<open>auto simp: watch_step_def watch_ok_def watched_def\<close>)
qed


definition example_transport :: "string transport" where
  "example_transport = \<lparr>tr_from_shared = (\<lambda>u. if u = ''bad'' then Inl ''uri'' else Inr ()), tr_load_tls = (\<lambda>_. Inr ())\<rparr>"

definition example_client :: rpc_client where
  "example_client = rpc_client_new 7 (rpc_client_config_new ''x'')"

definition example_endpoint :: client_endpoint where
  "example_endpoint = \<lparr>en_uri = ''a'', en_timeout = None, en_connect_timeout = None, en_concurrency_limit = None,
     en_tcp_keepalive = None, en_http2_interval = None, en_keepalive_timeout = None, en_while_idle = False, en_tls = None\<rparr>"

definition example_node :: "string \<Rightarrow> nat \<Rightarrow> discovered_endpoint" where
  "example_node uri weight = \<lparr>de_uri = uri, de_weight = weight, de_metadata = []\<rparr>"

lemma example_configure:
  "configure_discovered example_transport example_client [example_node ''a'' 2, example_node ''bad'' 1] =
     ([(''a'', example_endpoint, example_node ''a'' 2)], 2, 1)"
  by (simp add: configure_discovered_def valid_endpoints_def List.map_filter_simps endpoint_def example_transport_def
      example_client_def example_node_def example_endpoint_def rpc_client_new_def rpc_client_config_new_def Let_def)


text \<open>
  A snapshot makes every endpoint of the pool available again, also one whose last probe failed,
  until the next probe.
\<close>

lemma snapshot_restores_failed_endpoint:
  assumes "configure_discovered t cl endpoints = (configured, discovered, rejected)"
    "cc_health_interval (cl_config cl) \<noteq> None" "dw_running w" "uri \<in> fst ` set configured"
  shows "uri \<in> set (dw_available (watch_step t cl (NewSnapshot endpoints) (watch_step t cl (HealthTick (\<lambda>_. False)) w)))"
  using assms by (simp add: watch_step_def reconcile_def install_snapshot_def Let_def)

text \<open>The last status seen decides, and a watcher that has ended counts as not ready.\<close>

lemma project_to_health_last:
  "map_of (hr_state (project_to_health dep (seen @ [s]) ended r)) dep = Some (status_is_ready s \<and> \<not> ended) \<and>
   (dep' \<noteq> dep \<longrightarrow> map_of (hr_state (project_to_health dep (seen @ [s]) ended r)) dep' = map_of (hr_state r) dep')"
proof -
  have "dep' \<noteq> dep \<Longrightarrow> map_of (hr_state (fold (\<lambda>s. health_set dep (status_is_ready s)) xs r)) dep' = map_of (hr_state r) dep'"
    for xs by (induction xs arbitrary: r) (simp_all add: health_set_def Let_def map_of_bt_put)
  then show ?thesis by (simp add: project_to_health_def Let_def health_set_def map_of_bt_put)
qed

section \<open>Which keys move on the hashed channel\<close>

definition nodes_at :: "(64 word, string list) bmap \<Rightarrow> 64 word \<Rightarrow> string list" where
  "nodes_at ring q = (case map_of ring q of None \<Rightarrow> [] | Some ns \<Rightarrow> ns)"

lemma dom_nodes_at: "ring_inv ring \<Longrightarrow> dom (map_of ring) = {q. nodes_at ring q \<noteq> []}"
  by (auto simp: ring_inv_def nodes_at_def split: option.splits)

lemma fold_push_nodes_at:
  "ring_inv ring \<Longrightarrow> ring_inv (fold (push_point node \<circ> f) rs ring) \<and>
   nodes_at (fold (push_point node \<circ> f) rs ring) q = nodes_at ring q @ replicate (length (filter (\<lambda>r. f r = q) rs)) node"
proof (induction rs arbitrary: ring)
  case (Cons r rs)
  have "nodes_at (push_point node (f r) ring) q = nodes_at ring q @ (if f r = q then [node] else [])"
    by (auto simp: nodes_at_def push_point_lookup)
  with Cons.IH [OF push_point_inv [OF Cons.prems, of node "f r"]] show ?case by auto
qed simp

definition points_of :: "nat \<Rightarrow> 64 word \<Rightarrow> string list \<Rightarrow> string list" where
  "points_of replicas q ns = concat (map (\<lambda>n. replicate (length (filter (\<lambda>r. ring_point n r = q) [0..<replicas])) n) ns)"

lemma filter_points_of: "filter P (points_of replicas q ns) = points_of replicas q (filter P ns)"
  by (induction ns) (auto simp: points_of_def filter_replicate)

lemma fold_add_nodes_at:
  "ring_inv (ch_ring c) \<Longrightarrow> distinct (ch_nodes c @ ns) \<Longrightarrow>
   (let c' = fold (\<lambda>n. snd \<circ> ch_add n) ns c in
    ring_inv (ch_ring c') \<and> nodes_at (ch_ring c') q = nodes_at (ch_ring c) q @ points_of (ch_replicas c) q ns)"
proof (induction ns arbitrary: c)
  case Nil
  then show ?case by (simp add: points_of_def)
next
  case (Cons n ns)
  let ?c = "snd (ch_add n c)"
  have add: "ch_ring ?c = fold (push_point n \<circ> ring_point n) [0..<ch_replicas c] (ch_ring c)"
    "ch_nodes ?c = ch_nodes c @ [n]" "ch_replicas ?c = ch_replicas c"
    using Cons.prems(2) by (auto simp: ch_add_def)
  note p = fold_push_nodes_at [OF Cons.prems(1), of n "ring_point n" "[0..<ch_replicas c]" q]
  have "ring_inv (ch_ring ?c)" "distinct (ch_nodes ?c @ ns)" using p add Cons.prems(2) by auto
  from Cons.IH [OF this] p add show ?case by (simp add: Let_def points_of_def)
qed

lemma owner_restricts:
  assumes "ring_inv r" "ring_inv r'" "\<And>q. nodes_at r' q = filter P (nodes_at r q)" "owner h r = Some n" "P n"
  shows "owner h r' = Some n"
proof -
  have "r \<noteq> []" using assms(4) by (auto simp: owner_Nil)
  with assms(1) obtain p ns where p: "next_point h (dom (map_of r)) p" "map_of r p = Some ns" "ns \<noteq> []"
    "owner h r = Some (hd ns)" by (rule owner_unfold)
  have n: "hd ns = n" using p(4) assms(4) by simp
  have at: "nodes_at r' p = filter P ns" using assms(3) [of p] p(2) by (simp add: nodes_at_def)
  note hd = hd_filter [OF p(3), of P, unfolded n, OF assms(5)]
  have some: "map_of r' p = Some (filter P ns)" using at hd by (auto simp: nodes_at_def split: option.splits)
  have sub: "dom (map_of r') \<subseteq> dom (map_of r)"
    unfolding dom_nodes_at [OF assms(1)] dom_nodes_at [OF assms(2)] using assms(3) by auto
  have "next_point h (dom (map_of r')) p"
    using p(1) some sub unfolding next_point_def by (auto split: if_splits)
  from owner_eqI [OF assms(2) this some] hd show ?thesis by simp
qed

text \<open>A ring of given members, and the effect of leaving some of them out.\<close>

definition ring_with :: "nat \<Rightarrow> string list \<Rightarrow> consistent_hash" where
  "ring_with replicas ns = fold (\<lambda>n. snd \<circ> ch_add n) ns \<lparr>ch_replicas = replicas, ch_nodes = [], ch_ring = []\<rparr>"

lemma ring_with_restricts:
  assumes "distinct ns" "ch_get key (ring_with replicas ns) = Some n" "P n"
  shows "ch_get key (ring_with replicas (filter P ns)) = Some n"
proof -
  let ?new = "\<lparr>ch_replicas = replicas, ch_nodes = [], ch_ring = []\<rparr>"
  have new: "ring_inv (ch_ring ?new)" "nodes_at (ch_ring ?new) q = []" for q
    by (simp_all add: ring_inv_def bt.ok_empty nodes_at_def)
  have "ring_inv (ch_ring (ring_with replicas ns)) \<and> nodes_at (ch_ring (ring_with replicas ns)) q = points_of replicas q ns"
    if "distinct ns" for q ns
    using fold_add_nodes_at [OF new(1), of ns q] that new(2) by (simp add: Let_def ring_with_def)
  note at = this [OF assms(1)] this [of "filter P ns"]
  show ?thesis
    using owner_restricts [of "ch_ring (ring_with replicas ns)" "ch_ring (ring_with replicas (filter P ns))" P] at assms
    by (simp add: ch_get_owner filter_points_of)
qed

lemma ring_with_owner:
  assumes "0 < replicas" "ns \<noteq> []"
  shows "\<exists>n \<in> set ns. ch_get key (ring_with replicas ns) = Some n"
proof -
  let ?new = "\<lparr>ch_replicas = replicas, ch_nodes = [], ch_ring = []\<rparr>"
  have built: "ring_built (fold (\<lambda>n. snd \<circ> ch_add n) ms c) \<and> set (ch_nodes (fold (\<lambda>n. snd \<circ> ch_add n) ms c)) = set (ch_nodes c) \<union> set ms"
    if "ring_built c" for ms c
    using that
  proof (induction ms arbitrary: c)
    case (Cons m ms)
    have "set (ch_nodes (snd (ch_add m c))) = insert m (set (ch_nodes c))" by (auto simp: ch_add_def)
    with Cons.IH [OF ring_built.add [OF Cons.prems, of m]] show ?case by auto
  qed simp
  have new: "ring_built ?new" using assms(1) by (intro ring_built.new [of replicas]) (simp add: consistent_hash_new_def)
  have r: "ring_of (ring_with replicas ns)" "set (ch_nodes (ring_with replicas ns)) = set ns"
    using built [OF new, of ns] ring_built_of by (simp_all add: ring_with_def)
  show ?thesis using ring_of_owner [OF r(1), of key] r(2) assms(2) by auto
qed

text \<open>What one replacement installs: the ring of the members, and one channel per endpoint.\<close>

lemma fold_add_member:
  "hs_ring (fold (add_member ch) ks s) = fold (\<lambda>n. snd \<circ> ch_add n) ks (hs_ring s) \<and>
   (bt_ok (hs_channels s) \<longrightarrow> bt_ok (hs_channels (fold (add_member ch) ks s))) \<and>
   map_of (hs_channels (fold (add_member ch) ks s)) k = (if k \<in> set ks then Some ch else map_of (hs_channels s) k)"
  by (induction ks arbitrary: s) (auto simp: add_member_def map_of_bt_put bt.ok_put)

lemma install_uris:
  assumes "distinct (map fst L)"
  shows "\<exists>chan. (let s' = fold (\<lambda>(uri, _, d). install_uri previous uri (de_weight d)) L s in
    hs_ring s' = fold (\<lambda>n. snd \<circ> ch_add n) (concat (map (\<lambda>(uri, _, d). map (weighted_key uri) [0..<de_weight d]) L)) (hs_ring s) \<and>
    (\<forall>u n. map_of (hs_channels s') (weighted_key u n) =
       (if \<exists>e d. (u, e, d) \<in> set L \<and> n < de_weight d then Some (chan u) else map_of (hs_channels s) (weighted_key u n))) \<and>
    (\<forall>u c. map_of previous (weighted_key u 0) = Some c \<longrightarrow> chan u = c))"
  using assms
proof (induction L arbitrary: s)
  case Nil
  then show ?case by (intro exI [of _ "\<lambda>u. the (map_of previous (weighted_key u 0))"]) simp
next
  case (Cons x L)
  obtain u e d where x: "x = (u, e, d)" by (cases x)
  define ch where "ch = (case map_of previous (weighted_key u 0) of Some c \<Rightarrow> c | None \<Rightarrow> hs_next s)"
  define s1 where "s1 = install_uri previous u (de_weight d) s"
  define fresh where "fresh = (if map_of previous (weighted_key u 0) = None then hs_next s + 1 else hs_next s)"
  have s1: "s1 = fold (add_member ch) (map (weighted_key u) [0..<de_weight d]) (s\<lparr>hs_next := fresh\<rparr>)"
    by (cases "map_of previous (weighted_key u 0)") (simp_all add: s1_def install_uri_def ch_def fresh_def)
  obtain chan where IH: "let s' = fold (\<lambda>(uri, _, d). install_uri previous uri (de_weight d)) L s1 in
    hs_ring s' = fold (\<lambda>n. snd \<circ> ch_add n) (concat (map (\<lambda>(uri, _, d). map (weighted_key uri) [0..<de_weight d]) L)) (hs_ring s1) \<and>
    (\<forall>u n. map_of (hs_channels s') (weighted_key u n) =
       (if \<exists>e d. (u, e, d) \<in> set L \<and> n < de_weight d then Some (chan u) else map_of (hs_channels s1) (weighted_key u n))) \<and>
    (\<forall>u c. map_of previous (weighted_key u 0) = Some c \<longrightarrow> chan u = c)"
    using Cons.IH [of s1] Cons.prems unfolding list.map distinct.simps by blast
  have fresh_u: "(u, e', d') \<notin> set L" for e' d' using Cons.prems by (force simp: x)
  have keys: "map_of (hs_channels s1) (weighted_key v n) =
      (if v = u \<and> n < de_weight d then Some ch else map_of (hs_channels s) (weighted_key v n))" for v n
    using fold_add_member [of ch "map (weighted_key u) [0..<de_weight d]" "s\<lparr>hs_next := fresh\<rparr>" "weighted_key v n"]
    by (auto simp: s1 dest: weighted_key_inj)
  have ring: "hs_ring s1 = fold (\<lambda>n. snd \<circ> ch_add n) (map (weighted_key u) [0..<de_weight d]) (hs_ring s)"
    using fold_add_member [of ch "map (weighted_key u) [0..<de_weight d]" "s\<lparr>hs_next := fresh\<rparr>"] by (simp add: s1)
  show ?case
    using IH fresh_u
    by (intro exI [of _ "chan(u := ch)"]) (auto simp: x s1_def [symmetric] Let_def keys ring ch_def comp_def split: option.splits)
qed

lemma distinct_members:
  assumes "bt_ok configured"
  shows "distinct (members configured available)"
proof -
  have "distinct (concat (map (\<lambda>(u, _, d). map (weighted_key u) [0..<de_weight d]) L))" if "distinct (map fst L)" for L :: pool
    using that
  proof (induction L)
    case (Cons x L)
    obtain u e d where x: "x = (u, e, d)" by (cases x)
    have "distinct (map (weighted_key u) [0..<de_weight d])"
      by (auto simp: distinct_map inj_on_def dest: weighted_key_inj)
    moreover have "set (map (weighted_key u) [0..<de_weight d]) \<inter>
        set (concat (map (\<lambda>(u, _, d). map (weighted_key u) [0..<de_weight d]) L)) = {}"
      using Cons.prems by (force simp: x dest: weighted_key_inj)
    ultimately show ?case using Cons by (simp add: x)
  qed simp
  from this [OF distinct_map_filter [OF bt_ok_distinct [OF assms]]] show ?thesis by (simp add: members_def)
qed

lemma members_filter:
  "members (filter (\<lambda>(u, _). u \<in> U) configured) (filter (\<lambda>u. u \<in> A) available) =
     filter (\<lambda>k. \<exists>u \<in> U \<inter> A. key_uri k = Some u) (members configured available)"
proof (induction configured)
  case (Cons x configured)
  obtain u e d where x: "x = (u, e, d)" by (cases x)
  have "filter (\<lambda>k. \<exists>u \<in> U \<inter> A. key_uri k = Some u) (map (weighted_key u) ns) =
      (if u \<in> U \<inter> A then map (weighted_key u) ns else [])" for ns
    by (induction ns) auto
  then show ?case using Cons by (simp add: members_def x)
qed (simp add: members_def)

lemma replace_state_installs:
  assumes "bt_ok configured" "replace_state configured available replicas s = Some s'"
  shows "0 < replicas \<and> hs_ring s' = ring_with replicas (members configured available) \<and>
    (\<exists>chan. (\<forall>u n. map_of (hs_channels s') (weighted_key u n) =
       (if weighted_key u n \<in> set (members configured available) then Some (chan u) else None)) \<and>
      (\<forall>u c. map_of (hs_channels s) (weighted_key u 0) = Some c \<longrightarrow> chan u = c))"
proof -
  let ?L = "filter (\<lambda>(uri, _). uri \<in> set available) configured"
  let ?s0 = "s\<lparr>hs_ring := \<lparr>ch_replicas = replicas, ch_nodes = [], ch_ring = []\<rparr>, hs_channels := []\<rparr>"
  have s': "0 < replicas" "s' = fold (\<lambda>(uri, _, d). install_uri (hs_channels s) uri (de_weight d)) ?L ?s0"
    using assms(2) by (auto simp: replace_state_def consistent_hash_new_def split: if_splits)
  have mem: "(\<exists>e d. (u, e, d) \<in> set ?L \<and> n < de_weight d) \<longleftrightarrow> weighted_key u n \<in> set (members configured available)" for u n
    unfolding member_iff using weighted_key_inj by fastforce
  have "distinct (map fst ?L)" using bt_ok_distinct [OF assms(1)] by (rule distinct_map_filter)
  from install_uris [OF this, of "hs_channels s" ?s0]
  obtain chan where "hs_ring s' = fold (\<lambda>n. snd \<circ> ch_add n) (members configured available) (hs_ring ?s0)"
    "\<And>u n. map_of (hs_channels s') (weighted_key u n) =
       (if weighted_key u n \<in> set (members configured available) then Some (chan u) else map_of (hs_channels ?s0) (weighted_key u n))"
    "\<And>u c. map_of (hs_channels s) (weighted_key u 0) = Some c \<Longrightarrow> chan u = c"
    unfolding mem Let_def s'(2) [symmetric] members_def [symmetric] by blast
  then show ?thesis using s'(1) by (auto simp: ring_with_def)
qed

text \<open>
  Affinity of the hashed channel. While some endpoint with a positive weight is available, every
  request with a key is sent at once, to the endpoint that owns the key, and requests with equal keys to
  the same connection. When a later snapshot or probe takes endpoints out of the pool, exactly
  the keys of the removed endpoints are remapped: a key whose endpoint stays is still served over
  the same connection.
\<close>

theorem hash_channel_affinity:
  assumes pool: "bt_ok configured" "(u0, e0, d0) \<in> set configured" "u0 \<in> set available" "0 < de_weight d0"
    and before: "replace_state configured available replicas s = Some s1"
    and after: "replace_state (filter (\<lambda>(u, _). u \<in> U) configured) (filter (\<lambda>u. u \<in> A) available) replicas s1 = Some s2"
  shows "\<exists>u n channel. ch_get key (hs_ring s1) = Some (weighted_key u n) \<and> u \<in> set available \<and>
    hash_select (Some key) s1 = (Some channel, s1) \<and>
    (u \<in> U \<inter> A \<longrightarrow> hash_select (Some key) s2 = (Some channel, s2))"
proof -
  let ?M = "members configured available"
  let ?stays = "\<lambda>k. \<exists>u \<in> U \<inter> A. key_uri k = Some u"
  obtain chan1 where s1: "0 < replicas" "hs_ring s1 = ring_with replicas ?M"
    "\<And>u n. map_of (hs_channels s1) (weighted_key u n) = (if weighted_key u n \<in> set ?M then Some (chan1 u) else None)"
    using replace_state_installs [OF pool(1) before] by blast
  obtain chan2 where s2: "hs_ring s2 = ring_with replicas (filter ?stays ?M)"
    "\<And>u n. map_of (hs_channels s2) (weighted_key u n) = (if weighted_key u n \<in> set (filter ?stays ?M) then Some (chan2 u) else None)"
    "\<And>u c. map_of (hs_channels s1) (weighted_key u 0) = Some c \<Longrightarrow> chan2 u = c"
    using replace_state_installs [OF bt_ok_filter [OF pool(1)] after] unfolding members_filter by blast
  have "weighted_key u0 0 \<in> set ?M" unfolding member_iff using pool by blast
  then have "?M \<noteq> []" by auto
  with ring_with_owner [OF s1(1) this, of key] obtain m where m: "m \<in> set ?M" "ch_get key (hs_ring s1) = Some m"
    by (auto simp: s1(2))
  then obtain u e d n where u: "(u, e, d) \<in> set configured" "u \<in> set available" "n < de_weight d" "m = weighted_key u n"
    by (auto simp: member_iff)
  have first: "weighted_key u 0 \<in> set ?M" unfolding member_iff using u by (blast intro: gr_implies_not0 le_less_trans)
  have "hash_select (Some key) s1 = (Some (chan1 u), s1)"
    using m s1(3) by (simp add: hash_select_def u(4))
  moreover have "hash_select (Some key) s2 = (Some (chan1 u), s2)" if "u \<in> U \<inter> A"
  proof -
    have "?stays m" using that u(4) by auto
    then have "ch_get key (hs_ring s2) = Some m"
      using ring_with_restricts [OF distinct_members [OF pool(1)], of key replicas available m ?stays] m(2)
      by (simp add: s1(2) s2(1))
    moreover have "chan2 u = chan1 u" using s2(3) [of u "chan1 u"] s1(3) [of u 0] first by simp
    ultimately show ?thesis using s2(2) [of u n] m(1) \<open>?stays m\<close> by (simp add: hash_select_def u(4))
  qed
  ultimately show ?thesis using m(2) u by blast
qed

theorem hash_channel_affinity_witness:
  "\<exists>s s1 s2 u n channel. hash_state_empty 2 = Some s \<and>
     replace_state [(''a'', example_endpoint, example_node ''a'' 1)] [''a''] 2 s = Some s1 \<and>
     replace_state [(''a'', example_endpoint, example_node ''a'' 1)] [''a''] 2 s1 = Some s2 \<and>
     hash_select (Some ''k'') s1 = (Some channel, s1) \<and> ch_get ''k'' (hs_ring s1) = Some (weighted_key u n) \<and>
     u = ''a'' \<and> hash_select (Some ''k'') s2 = (Some channel, s2)"
proof -
  let ?pool = "[(''a'', example_endpoint, example_node ''a'' 1)] :: pool"
  obtain s where s: "hash_state_empty 2 = Some s" by (simp add: hash_state_empty_def consistent_hash_new_def)
  obtain s1 where s1: "replace_state ?pool [''a''] 2 s = Some s1" by (simp add: replace_state_def consistent_hash_new_def)
  obtain s2 where s2: "replace_state ?pool [''a''] 2 s1 = Some s2" by (simp add: replace_state_def consistent_hash_new_def)
  have ok: "bt_ok ?pool" by (simp add: bt_ok_def)
  obtain u n channel where "ch_get ''k'' (hs_ring s1) = Some (weighted_key u n)" "u \<in> set [''a'']"
    "hash_select (Some ''k'') s1 = (Some channel, s1)" "u \<in> {''a''} \<inter> {''a''} \<longrightarrow> hash_select (Some ''k'') s2 = (Some channel, s2)"
    using hash_channel_affinity [OF ok, of "''a''" example_endpoint "example_node ''a'' 1" "[''a'']" 2 s s1 "{''a''}" "{''a''}" s2 "''k''"]
      s1 s2 by (auto simp: example_node_def)
  with s s1 s2 show ?thesis by auto
qed

theorem discovery_subset_low_churn_witness:
  "length (select_discovery_subset [(''a'', example_endpoint, example_node ''a'' 1), (''b'', example_endpoint, example_node ''b'' 1)] 1 7) = 1 \<and>
   card (fst ` set (select_discovery_subset [(''a'', example_endpoint, example_node ''a'' 1), (''b'', example_endpoint, example_node ''b'' 1)] 1 7) -
     fst ` set (select_discovery_subset [(''a'', example_endpoint, example_node ''a'' 1), (''b'', example_endpoint, example_node ''b'' 1), (''c'', example_endpoint, example_node ''c'' 1)] 1 7)) \<le> 1"
  using discovery_subset_low_churn [of "[(''a'', example_endpoint, example_node ''a'' 1), (''b'', example_endpoint, example_node ''b'' 1)]"
    "[(''a'', example_endpoint, example_node ''a'' 1), (''b'', example_endpoint, example_node ''b'' 1), (''c'', example_endpoint, example_node ''c'' 1)]" "''c''" 1 7]
  by (auto simp: bt_ok_def)

end
