(* ===== verification/Redis_Store.thy ===== *)
theory Redis_Store
  imports Prelude "HOL-Library.Sublist"
begin

text \<open>
  \<open>core/src/stores_redis.rs\<close>, the store: every operation as the command it sends, with its guards and
  the decoding of the reply. A command is the list of its arguments, as byte strings; the client
  library, its conversions of replies and the server are not part of the repository and are
  parameters. Scores are values of any type with a rendering.
\<close>

section \<open>Configuration and errors\<close>

record redis_config =
  rd_urls :: "string list"
  rd_cluster :: bool
  rd_prefix :: string
  rd_timeout :: duration

definition redis_config_new :: "string \<Rightarrow> redis_config" where
  "redis_config_new url = \<lparr>rd_urls = [url], rd_cluster = False, rd_prefix = [], rd_timeout = 3 * nanos_per_sec\<rparr>"

definition redis_config_cluster :: "string list \<Rightarrow> redis_config" where
  "redis_config_cluster nodes = \<lparr>rd_urls = nodes, rd_cluster = True, rd_prefix = [], rd_timeout = 3 * nanos_per_sec\<rparr>"

definition redis_with_key_prefix :: "string \<Rightarrow> redis_config \<Rightarrow> redis_config" where
  "redis_with_key_prefix key_prefix c = c\<lparr>rd_prefix := key_prefix\<rparr>"

definition redis_with_operation_timeout :: "duration \<Rightarrow> redis_config \<Rightarrow> redis_config option" where
  "redis_with_operation_timeout timeout c = (if timeout = 0 then None else Some (c\<lparr>rd_timeout := timeout\<rparr>))"

datatype redis_error =
    RedisFailure string
  | JsonFailure string
  | RedisTimeout
  | InvalidTtl
  | DurationOverflow
  | MissingEndpoint
  | InvalidArgument string
  | UnexpectedResponse string

text \<open>What opening a client needs: the nodes of the cluster, or the first URL.\<close>

datatype redis_client = Standalone string | Cluster "string list"

definition redis_store_new ::
  "(redis_client \<Rightarrow> string + unit) \<Rightarrow> redis_config \<Rightarrow> redis_error + (redis_client \<times> redis_config)" where
  "redis_store_new open_client c =
     and_then (if rd_cluster c then Inr (Cluster (rd_urls c))
               else case rd_urls c of [] \<Rightarrow> Inl MissingEndpoint | url # _ \<Rightarrow> Inr (Standalone url)) (\<lambda>client.
       case open_client client of Inl e \<Rightarrow> Inl (RedisFailure e) | Inr _ \<Rightarrow> Inr (client, c))"

definition redis_key :: "redis_config \<Rightarrow> string \<Rightarrow> string" where
  "redis_key c key = rd_prefix c @ key"

definition redis_millis :: "duration \<Rightarrow> redis_error + nat" where
  "redis_millis d = (if u64_max < as_millis d then Inl DurationOverflow else Inr (as_millis d))"

text \<open>
  An operation answers by itself, answers by itself once the connection is open (\<open>set\<close> obtains the
  connection before it looks at the time to live), or sends a command to the server.
\<close>

datatype 'a request = Answer "redis_error + 'a" | AnswerConnected "redis_error + 'a" | Ask "string list"

definition strip_key :: "redis_config \<Rightarrow> string \<Rightarrow> string" where
  "strip_key c key = (case strip_prefix (rd_prefix c) key of Some k \<Rightarrow> k | None \<Rightarrow> key)"

section \<open>Running a command\<close>

record redis_metrics =
  rm_operations :: "(string \<times> string) list"

definition redis_outcome :: "redis_error + 'a \<Rightarrow> string" where
  "redis_outcome r = (case r of Inr _ \<Rightarrow> ''success'' | Inl RedisTimeout \<Rightarrow> ''timeout'' | Inl _ \<Rightarrow> ''error'')"

text \<open>
  \<open>instrument\<close>: the reply and the time it takes; the operation and outcome are counted when metrics
  are installed.
\<close>

definition redis_instrument ::
  "redis_config \<Rightarrow> string \<Rightarrow> duration \<Rightarrow> string + 'a \<Rightarrow> redis_metrics option \<Rightarrow> (redis_error + 'a) \<times> redis_metrics option" where
  "redis_instrument c operation elapsed reply m =
     (let result = (if rd_timeout c < elapsed then Inl RedisTimeout
            else case reply of Inl e \<Rightarrow> Inl (RedisFailure e) | Inr a \<Rightarrow> Inr a) in
      (result, map_option (\<lambda>m. m\<lparr>rm_operations := rm_operations m @ [(operation, redis_outcome result)]\<rparr>) m))"

text \<open>\<open>connection\<close>: the shared connection, opened on the first use, within the operation timeout.\<close>

definition redis_connection :: "redis_config \<Rightarrow> duration \<Rightarrow> string + 'c \<Rightarrow> 'c option \<Rightarrow> (redis_error + 'c) \<times> 'c option" where
  "redis_connection c elapsed opened cell =
     (case cell of
        Some conn \<Rightarrow> (Inr conn, cell)
      | None \<Rightarrow>
          if rd_timeout c < elapsed then (Inl RedisTimeout, None)
          else case opened of Inl e \<Rightarrow> (Inl (RedisFailure e), None) | Inr conn \<Rightarrow> (Inr conn, Some conn))"

definition newline_byte :: char where
  "newline_byte = CHR 0x0A"

text \<open>The label of a packed command: its third line, without the carriage return, when it is known.\<close>

definition known_commands :: "(string \<times> string) list" where
  "known_commands = [
     (''DECRBY'', ''decrement''), (''DEL'', ''delete''), (''BITCOUNT'', ''bitmap_count''),
     (''BITOP'', ''bitmap_operation''), (''BITPOS'', ''bitmap_position''), (''BLPOP'', ''list_blocking_pop_left''),
     (''BRPOP'', ''list_blocking_pop_right''), (''EVAL'', ''eval''), (''EXISTS'', ''exists''),
     (''GET'', ''get''), (''GETBIT'', ''bitmap_get''), (''HDEL'', ''hash_delete''),
     (''HGET'', ''hash_get''), (''HGETALL'', ''hash_get_all''), (''HINCRBY'', ''hash_increment''),
     (''HSCAN'', ''hash_scan''), (''HSET'', ''hash_set''), (''INCRBY'', ''increment''),
     (''LLEN'', ''list_len''), (''LMOVE'', ''list_move''), (''LPOP'', ''list_pop_left''),
     (''LPUSH'', ''list_push_left''), (''LRANGE'', ''list_range''), (''MGET'', ''get_many''),
     (''MSET'', ''set_many''), (''PERSIST'', ''persist''), (''PFADD'', ''hyperloglog_add''),
     (''PFCOUNT'', ''hyperloglog_count''), (''PFMERGE'', ''hyperloglog_merge''), (''PEXPIRE'', ''expire''),
     (''PING'', ''ping''), (''PTTL'', ''ttl''), (''PUBLISH'', ''publish''),
     (''RPOP'', ''list_pop_right''), (''RPUSH'', ''list_push_right''), (''SADD'', ''set_add''),
     (''SCAN'', ''scan_keys''), (''SCARD'', ''set_len''), (''SET'', ''set''),
     (''SETBIT'', ''bitmap_set''), (''SISMEMBER'', ''set_contains''), (''SMEMBERS'', ''set_members''),
     (''SMOVE'', ''set_move''), (''SREM'', ''set_remove''), (''SSCAN'', ''set_scan''),
     (''UNLINK'', ''unlink''), (''XACK'', ''stream_ack''), (''XADD'', ''stream_add''),
     (''XCLAIM'', ''stream_claim''), (''XDEL'', ''stream_delete''), (''XGROUP'', ''stream_group''),
     (''XINFO'', ''stream_info''), (''XPENDING'', ''stream_pending''), (''XREAD'', ''stream_read''),
     (''XREADGROUP'', ''stream_group_read''), (''ZADD'', ''sorted_set_add''), (''ZCARD'', ''sorted_set_len''),
     (''ZINCRBY'', ''sorted_set_increment''), (''ZRANGE'', ''sorted_set_range''), (''ZRANGEBYSCORE'', ''sorted_set_score_range''),
     (''ZREM'', ''sorted_set_remove''), (''ZREMRANGEBYRANK'', ''sorted_set_remove_rank''), (''ZREMRANGEBYSCORE'', ''sorted_set_remove_score''),
     (''ZREVRANGE'', ''sorted_set_reverse_range''), (''ZREVRANGEBYSCORE'', ''sorted_set_reverse_score_range''), (''ZREVRANK'', ''sorted_set_reverse_rank''),
     (''ZRANK'', ''sorted_set_rank''), (''ZSCAN'', ''sorted_set_scan''), (''ZSCORE'', ''sorted_set_score'')]"

definition command_line :: "string \<Rightarrow> string option" where
  "command_line packed =
     (let ls = split_on newline_byte packed in
      if 2 < length ls
      then Some (let l = ls ! 2 in if l \<noteq> [] \<and> last l = CHR 0x0D then butlast l else l) else None)"

definition redis_command_name :: "string \<Rightarrow> string" where
  "redis_command_name packed =
     (case Option.bind (command_line packed) (map_of known_commands) of Some label \<Rightarrow> label | None \<Rightarrow> ''other'')"

text \<open>
  \<open>query\<close> labels the command by its packed form, \<open>run\<close> with the label its caller gives; both need the
  connection first. The session is the shared connection and the metrics.
\<close>

definition redis_run ::
  "redis_config \<Rightarrow> string \<Rightarrow> duration \<times> (string + 'c) \<Rightarrow> duration \<times> (string + 'a) \<Rightarrow>
   'c option \<times> redis_metrics option \<Rightarrow> (redis_error + 'a) \<times> ('c option \<times> redis_metrics option)" where
  "redis_run c operation opening answering session =
     (case redis_connection c (fst opening) (snd opening) (fst session) of
        (Inl e, cell) \<Rightarrow> (Inl e, cell, snd session)
      | (Inr conn, cell) \<Rightarrow>
          let (result, m) = redis_instrument c operation (fst answering) (snd answering) (snd session) in
          (result, cell, m))"

definition redis_query ::
  "(string list \<Rightarrow> string) \<Rightarrow> redis_config \<Rightarrow> string list \<Rightarrow> duration \<times> (string + 'c) \<Rightarrow> duration \<times> (string + 'a) \<Rightarrow>
   'c option \<times> redis_metrics option \<Rightarrow> (redis_error + 'a) \<times> ('c option \<times> redis_metrics option)" where
  "redis_query pack c command = redis_run c (redis_command_name (pack command))"

section \<open>Options shared by commands\<close>

definition append_scan_options :: "string option \<Rightarrow> nat option \<Rightarrow> redis_error + string list" where
  "append_scan_options pattern count =
     (if count = Some 0 then Inl (InvalidArgument ''Redis scan count must be positive'')
      else Inr ((case pattern of None \<Rightarrow> [] | Some p \<Rightarrow> [''MATCH'', p]) @
        (case count of None \<Rightarrow> [] | Some n \<Rightarrow> [''COUNT'', show_nat n])))"

definition append_stream_read_options :: "nat option \<Rightarrow> duration option \<Rightarrow> bool \<Rightarrow> redis_error + string list" where
  "append_stream_read_options count block no_ack =
     (if count = Some 0 then Inl (InvalidArgument ''Redis stream read count must be positive'')
      else and_then (case block of None \<Rightarrow> Inr [] | Some d \<Rightarrow> and_then (redis_millis d) (\<lambda>ms. Inr [''BLOCK'', show_nat ms])) (\<lambda>b.
        Inr ((case count of None \<Rightarrow> [] | Some n \<Rightarrow> [''COUNT'', show_nat n]) @ b @ (if no_ack then [''NOACK''] else []))))"

definition append_streams :: "redis_config \<Rightarrow> (string \<times> string) list \<Rightarrow> redis_error + string list" where
  "append_streams c streams =
     (if streams = [] then Inl (InvalidArgument ''Redis stream reads require at least one stream'')
      else Inr (''STREAMS'' # map (redis_key c \<circ> fst) streams @ map snd streams))"

definition asked :: "redis_error + string list \<Rightarrow> 'a request" where
  "asked r = (case r of Inl e \<Rightarrow> Answer (Inl e) | Inr command \<Rightarrow> Ask command)"

definition expect_ok :: "string \<Rightarrow> string \<Rightarrow> redis_error + unit" where
  "expect_ok response operation =
     (if response = ''OK'' then Inr () else Inl (UnexpectedResponse (operation @ '' returned '' @ response)))"

section \<open>Keys and values\<close>

definition redis_ping :: "'a request" where
  "redis_ping = Ask [''PING'']"

definition redis_get :: "redis_config \<Rightarrow> string \<Rightarrow> 'a request" where
  "redis_get c key = Ask [''GET'', redis_key c key]"

definition redis_get_json :: "(string \<Rightarrow> string + 't) \<Rightarrow> redis_error + string option \<Rightarrow> redis_error + 't option" where
  "redis_get_json from_slice got =
     and_then got (\<lambda>v. case v of
        None \<Rightarrow> Inr None
      | Some bytes \<Rightarrow> (case from_slice bytes of Inl e \<Rightarrow> Inl (JsonFailure e) | Inr t \<Rightarrow> Inr (Some t)))"

definition redis_get_string :: "redis_config \<Rightarrow> string \<Rightarrow> 'a request" where
  "redis_get_string c key = Ask [''GET'', redis_key c key]"

definition redis_set :: "redis_config \<Rightarrow> string \<Rightarrow> string \<Rightarrow> duration option \<Rightarrow> 'a request" where
  "redis_set c key v ttl =
     (case ttl of
        None \<Rightarrow> Ask [''SET'', redis_key c key, v]
      | Some d \<Rightarrow>
          if d = 0 then AnswerConnected (Inl InvalidTtl)
          else case redis_millis d of
            Inl e \<Rightarrow> AnswerConnected (Inl e)
          | Inr ms \<Rightarrow> Ask [''PSETEX'', redis_key c key, show_nat ms, v])"

definition redis_set_json :: "('t \<Rightarrow> string + string) \<Rightarrow> redis_config \<Rightarrow> string \<Rightarrow> 't \<Rightarrow> duration option \<Rightarrow> 'a request" where
  "redis_set_json to_vec c key v ttl =
     (case to_vec v of Inl e \<Rightarrow> Answer (Inl (JsonFailure e)) | Inr bytes \<Rightarrow> redis_set c key bytes ttl)"

definition redis_set_if_absent :: "redis_config \<Rightarrow> string \<Rightarrow> string \<Rightarrow> duration option \<Rightarrow> 'a request" where
  "redis_set_if_absent c key v ttl =
     (if ttl = Some 0 then Answer (Inl InvalidTtl)
      else asked (and_then (case ttl of None \<Rightarrow> Inr [] | Some d \<Rightarrow> and_then (redis_millis d) (\<lambda>ms. Inr [''PX'', show_nat ms])) (\<lambda>px.
        Inr ([''SET'', redis_key c key, v, ''NX''] @ px))))"

definition redis_get_many :: "redis_config \<Rightarrow> string list \<Rightarrow> 'a list request" where
  "redis_get_many c keys = (if keys = [] then Answer (Inr []) else Ask (''MGET'' # map (redis_key c) keys))"

definition redis_set_many :: "redis_config \<Rightarrow> (string \<times> string) list \<Rightarrow> unit request" where
  "redis_set_many c entries =
     (if entries = [] then Answer (Inr ()) else Ask (''MSET'' # concat (map (\<lambda>(k, v). [redis_key c k, v]) entries)))"

definition redis_delete :: "redis_config \<Rightarrow> string list \<Rightarrow> nat request" where
  "redis_delete c keys = (if keys = [] then Answer (Inr 0) else Ask (''DEL'' # map (redis_key c) keys))"

definition redis_unlink :: "redis_config \<Rightarrow> string list \<Rightarrow> nat request" where
  "redis_unlink c keys = (if keys = [] then Answer (Inr 0) else Ask (''UNLINK'' # map (redis_key c) keys))"

definition redis_scan_keys :: "redis_config \<Rightarrow> nat \<Rightarrow> string option \<Rightarrow> nat option \<Rightarrow> 'a request" where
  "redis_scan_keys c cursor pattern count =
     (let p = (case pattern of
            Some p \<Rightarrow> Some (redis_key c p)
          | None \<Rightarrow> if rd_prefix c \<noteq> [] then Some (rd_prefix c @ ''*'') else None) in
      asked (and_then (append_scan_options p count) (\<lambda>options. Inr ([''SCAN'', show_nat cursor] @ options))))"

definition redis_scan_page :: "redis_config \<Rightarrow> nat \<times> string list \<Rightarrow> nat \<times> string list" where
  "redis_scan_page c page = (fst page, map (strip_key c) (snd page))"

definition redis_exists :: "redis_config \<Rightarrow> string \<Rightarrow> 'a request" where
  "redis_exists c key = Ask [''EXISTS'', redis_key c key]"

definition redis_increment :: "redis_config \<Rightarrow> string \<Rightarrow> int \<Rightarrow> 'a request" where
  "redis_increment c key amount = Ask [''INCRBY'', redis_key c key, show_int amount]"

definition redis_decrement :: "redis_config \<Rightarrow> string \<Rightarrow> int \<Rightarrow> 'a request" where
  "redis_decrement c key amount = Ask [''DECRBY'', redis_key c key, show_int amount]"

definition redis_expire :: "redis_config \<Rightarrow> string \<Rightarrow> duration \<Rightarrow> 'a request" where
  "redis_expire c key ttl =
     (if ttl = 0 then Answer (Inl InvalidTtl)
      else asked (and_then (redis_millis ttl) (\<lambda>ms. Inr [''PEXPIRE'', redis_key c key, show_nat ms])))"

definition redis_persist :: "redis_config \<Rightarrow> string \<Rightarrow> 'a request" where
  "redis_persist c key = Ask [''PERSIST'', redis_key c key]"

definition redis_ttl :: "redis_config \<Rightarrow> string \<Rightarrow> 'a request" where
  "redis_ttl c key = Ask [''PTTL'', redis_key c key]"

datatype redis_ttl_reply = TtlMissing | TtlPersistent | TtlExpiresIn duration

definition redis_ttl_of :: "int \<Rightarrow> redis_error + redis_ttl_reply" where
  "redis_ttl_of millis =
     (if millis = -2 then Inr TtlMissing
      else if millis = -1 then Inr TtlPersistent
      else if 0 \<le> millis then Inr (TtlExpiresIn (duration_from_millis (nat millis)))
      else Inl (UnexpectedResponse (''PTTL returned '' @ show_int millis)))"

section \<open>Bitmaps and cardinalities\<close>

definition redis_bitmap_get :: "redis_config \<Rightarrow> string \<Rightarrow> nat \<Rightarrow> 'a request" where
  "redis_bitmap_get c key offset = Ask [''GETBIT'', redis_key c key, show_nat offset]"

definition show_bit :: "bool \<Rightarrow> string" where
  "show_bit b = (if b then ''1'' else ''0'')"

definition redis_bitmap_set :: "redis_config \<Rightarrow> string \<Rightarrow> nat \<Rightarrow> bool \<Rightarrow> 'a request" where
  "redis_bitmap_set c key offset v = Ask [''SETBIT'', redis_key c key, show_nat offset, show_bit v]"

definition byte_range :: "(int \<times> int) option \<Rightarrow> string list" where
  "byte_range r = (case r of None \<Rightarrow> [] | Some (start, stop) \<Rightarrow> [show_int start, show_int stop])"

definition redis_bitmap_count :: "redis_config \<Rightarrow> string \<Rightarrow> (int \<times> int) option \<Rightarrow> 'a request" where
  "redis_bitmap_count c key byte_span = Ask ([''BITCOUNT'', redis_key c key] @ byte_range byte_span)"

definition redis_bitmap_position :: "redis_config \<Rightarrow> string \<Rightarrow> bool \<Rightarrow> (int \<times> int) option \<Rightarrow> 'a request" where
  "redis_bitmap_position c key v byte_span = Ask ([''BITPOS'', redis_key c key, show_bit v] @ byte_range byte_span)"

definition redis_position_of :: "int \<Rightarrow> redis_error + nat option" where
  "redis_position_of position =
     (if position = -1 then Inr None
      else if 0 \<le> position then Inr (Some (nat position))
      else Inl (UnexpectedResponse (''BITPOS returned '' @ show_int position)))"

datatype bit_operation = BitAnd | BitOr | BitXor | BitNot

fun bit_argument :: "bit_operation \<Rightarrow> string" where
  "bit_argument BitAnd = ''AND''"
| "bit_argument BitOr = ''OR''"
| "bit_argument BitXor = ''XOR''"
| "bit_argument BitNot = ''NOT''"

definition redis_bitmap_operation :: "redis_config \<Rightarrow> bit_operation \<Rightarrow> string \<Rightarrow> string list \<Rightarrow> 'a request" where
  "redis_bitmap_operation c operation destination sources =
     (if \<not> (if operation = BitNot then length sources = 1 else sources \<noteq> [])
      then Answer (Inl (InvalidArgument ''Redis BITOP requires one source for NOT and at least one for other operations''))
      else Ask ([''BITOP'', bit_argument operation, redis_key c destination] @ map (redis_key c) sources))"

definition redis_hyperloglog_add :: "redis_config \<Rightarrow> string \<Rightarrow> string list \<Rightarrow> 'a request" where
  "redis_hyperloglog_add c key vs =
     (if vs = [] then Answer (Inl (InvalidArgument ''Redis PFADD requires at least one value''))
      else Ask ([''PFADD'', redis_key c key] @ vs))"

definition redis_hyperloglog_count :: "redis_config \<Rightarrow> string list \<Rightarrow> 'a request" where
  "redis_hyperloglog_count c keys =
     (if keys = [] then Answer (Inl (InvalidArgument ''Redis PFCOUNT requires at least one key''))
      else Ask (''PFCOUNT'' # map (redis_key c) keys))"

definition redis_hyperloglog_merge :: "redis_config \<Rightarrow> string \<Rightarrow> string list \<Rightarrow> 'a request" where
  "redis_hyperloglog_merge c destination sources =
     (if sources = [] then Answer (Inl (InvalidArgument ''Redis PFMERGE requires at least one source''))
      else Ask ([''PFMERGE'', redis_key c destination] @ map (redis_key c) sources))"

section \<open>Hashes, lists and sets\<close>

definition redis_hash_get :: "redis_config \<Rightarrow> string \<Rightarrow> string \<Rightarrow> 'a request" where
  "redis_hash_get c key field = Ask [''HGET'', redis_key c key, field]"

definition redis_hash_set :: "redis_config \<Rightarrow> string \<Rightarrow> string \<Rightarrow> string \<Rightarrow> 'a request" where
  "redis_hash_set c key field v = Ask [''HSET'', redis_key c key, field, v]"

definition redis_hash_get_all :: "redis_config \<Rightarrow> string \<Rightarrow> 'a request" where
  "redis_hash_get_all c key = Ask [''HGETALL'', redis_key c key]"

definition redis_hash_scan :: "redis_config \<Rightarrow> string \<Rightarrow> nat \<Rightarrow> string option \<Rightarrow> nat option \<Rightarrow> 'a request" where
  "redis_hash_scan c key cursor pattern count =
     asked (and_then (append_scan_options pattern count) (\<lambda>options. Inr ([''HSCAN'', redis_key c key, show_nat cursor] @ options)))"

definition redis_hash_delete :: "redis_config \<Rightarrow> string \<Rightarrow> string list \<Rightarrow> nat request" where
  "redis_hash_delete c key hash_fields =
     (if hash_fields = [] then Answer (Inr 0) else Ask ([''HDEL'', redis_key c key] @ hash_fields))"

definition redis_hash_increment :: "redis_config \<Rightarrow> string \<Rightarrow> string \<Rightarrow> int \<Rightarrow> 'a request" where
  "redis_hash_increment c key field amount = Ask [''HINCRBY'', redis_key c key, field, show_int amount]"

definition redis_list_len :: "redis_config \<Rightarrow> string \<Rightarrow> 'a request" where
  "redis_list_len c key = Ask [''LLEN'', redis_key c key]"

definition redis_list_push :: "string \<Rightarrow> redis_config \<Rightarrow> string \<Rightarrow> string list \<Rightarrow> 'a request" where
  "redis_list_push name c key vs =
     (if vs = [] then redis_list_len c key else Ask ([name, redis_key c key] @ vs))"

definition redis_list_push_front :: "redis_config \<Rightarrow> string \<Rightarrow> string list \<Rightarrow> 'a request" where
  "redis_list_push_front = redis_list_push ''LPUSH''"

definition redis_list_push_back :: "redis_config \<Rightarrow> string \<Rightarrow> string list \<Rightarrow> 'a request" where
  "redis_list_push_back = redis_list_push ''RPUSH''"

definition redis_list_pop_front :: "redis_config \<Rightarrow> string \<Rightarrow> 'a request" where
  "redis_list_pop_front c key = Ask [''LPOP'', redis_key c key]"

definition redis_list_pop_back :: "redis_config \<Rightarrow> string \<Rightarrow> 'a request" where
  "redis_list_pop_back c key = Ask [''RPOP'', redis_key c key]"

text \<open>The timeout is rendered as the number of seconds, by the client library.\<close>

definition redis_list_blocking_pop ::
  "(duration \<Rightarrow> string) \<Rightarrow> string \<Rightarrow> redis_config \<Rightarrow> string list \<Rightarrow> duration \<Rightarrow> 'a request" where
  "redis_list_blocking_pop show_secs name c keys timeout =
     (if keys = [] \<or> timeout = 0
      then Answer (Inl (InvalidArgument ''Redis blocking list pop requires keys and a positive timeout''))
      else Ask (name # map (redis_key c) keys @ [show_secs timeout]))"

definition redis_popped :: "redis_config \<Rightarrow> (string \<times> string) option \<Rightarrow> (string \<times> string) option" where
  "redis_popped c = map_option (\<lambda>(key, v). (strip_key c key, v))"

definition redis_list_blocking_pop_front :: "(duration \<Rightarrow> string) \<Rightarrow> redis_config \<Rightarrow> string list \<Rightarrow> duration \<Rightarrow> 'a request" where
  "redis_list_blocking_pop_front show_secs = redis_list_blocking_pop show_secs ''BLPOP''"

definition redis_list_blocking_pop_back :: "(duration \<Rightarrow> string) \<Rightarrow> redis_config \<Rightarrow> string list \<Rightarrow> duration \<Rightarrow> 'a request" where
  "redis_list_blocking_pop_back show_secs = redis_list_blocking_pop show_secs ''BRPOP''"

datatype list_side = LeftSide | RightSide

fun side_argument :: "list_side \<Rightarrow> string" where
  "side_argument LeftSide = ''LEFT''"
| "side_argument RightSide = ''RIGHT''"

definition redis_list_move :: "redis_config \<Rightarrow> string \<Rightarrow> string \<Rightarrow> list_side \<Rightarrow> list_side \<Rightarrow> 'a request" where
  "redis_list_move c source destination source_side destination_side =
     Ask [''LMOVE'', redis_key c source, redis_key c destination, side_argument source_side, side_argument destination_side]"

definition redis_list_range :: "redis_config \<Rightarrow> string \<Rightarrow> int \<Rightarrow> int \<Rightarrow> 'a request" where
  "redis_list_range c key start stop = Ask [''LRANGE'', redis_key c key, show_int start, show_int stop]"

definition redis_set_members_command :: "string \<Rightarrow> redis_config \<Rightarrow> string \<Rightarrow> string list \<Rightarrow> nat request" where
  "redis_set_members_command name c key members =
     (if members = [] then Answer (Inr 0) else Ask ([name, redis_key c key] @ members))"

definition redis_set_add :: "redis_config \<Rightarrow> string \<Rightarrow> string list \<Rightarrow> nat request" where
  "redis_set_add = redis_set_members_command ''SADD''"

definition redis_set_remove :: "redis_config \<Rightarrow> string \<Rightarrow> string list \<Rightarrow> nat request" where
  "redis_set_remove = redis_set_members_command ''SREM''"

definition redis_set_members :: "redis_config \<Rightarrow> string \<Rightarrow> 'a request" where
  "redis_set_members c key = Ask [''SMEMBERS'', redis_key c key]"

definition redis_set_scan :: "redis_config \<Rightarrow> string \<Rightarrow> nat \<Rightarrow> string option \<Rightarrow> nat option \<Rightarrow> 'a request" where
  "redis_set_scan c key cursor pattern count =
     asked (and_then (append_scan_options pattern count) (\<lambda>options. Inr ([''SSCAN'', redis_key c key, show_nat cursor] @ options)))"

definition redis_set_move :: "redis_config \<Rightarrow> string \<Rightarrow> string \<Rightarrow> string \<Rightarrow> 'a request" where
  "redis_set_move c source destination v = Ask [''SMOVE'', redis_key c source, redis_key c destination, v]"

definition redis_set_contains :: "redis_config \<Rightarrow> string \<Rightarrow> string \<Rightarrow> 'a request" where
  "redis_set_contains c key v = Ask [''SISMEMBER'', redis_key c key, v]"

definition redis_set_len :: "redis_config \<Rightarrow> string \<Rightarrow> 'a request" where
  "redis_set_len c key = Ask [''SCARD'', redis_key c key]"

section \<open>Sorted sets\<close>

definition redis_sorted_set_add :: "('f \<Rightarrow> string) \<Rightarrow> redis_config \<Rightarrow> string \<Rightarrow> 'f \<Rightarrow> string \<Rightarrow> 'a request" where
  "redis_sorted_set_add show_f64 c key score v = Ask [''ZADD'', redis_key c key, show_f64 score, v]"

definition redis_sorted_set_remove :: "redis_config \<Rightarrow> string \<Rightarrow> string list \<Rightarrow> nat request" where
  "redis_sorted_set_remove c key members =
     (if members = [] then Answer (Inr 0) else Ask ([''ZREM'', redis_key c key] @ members))"

definition redis_sorted_set_range :: "redis_config \<Rightarrow> string \<Rightarrow> int \<Rightarrow> int \<Rightarrow> 'a request" where
  "redis_sorted_set_range c key start stop = Ask [''ZRANGE'', redis_key c key, show_int start, show_int stop, ''WITHSCORES'']"

definition redis_sorted_set_reverse_range :: "redis_config \<Rightarrow> string \<Rightarrow> int \<Rightarrow> int \<Rightarrow> 'a request" where
  "redis_sorted_set_reverse_range c key start stop = Ask [''ZREVRANGE'', redis_key c key, show_int start, show_int stop, ''WITHSCORES'']"

definition redis_sorted_set_score_range ::
  "('f \<Rightarrow> string) \<Rightarrow> string \<Rightarrow> redis_config \<Rightarrow> string \<Rightarrow> 'f \<Rightarrow> 'f \<Rightarrow> (nat \<times> nat) option \<Rightarrow> 'a list request" where
  "redis_sorted_set_score_range show_f64 name c key lower upper limit =
     (let bounds = (if name = ''ZREVRANGEBYSCORE'' then [show_f64 upper, show_f64 lower] else [show_f64 lower, show_f64 upper]);
          head = [name, redis_key c key] @ bounds @ [''WITHSCORES''] in
      case limit of
        None \<Rightarrow> Ask head
      | Some (offset, count) \<Rightarrow>
          if count = 0 then Answer (Inr []) else Ask (head @ [''LIMIT'', show_nat offset, show_nat count]))"

definition redis_sorted_set_range_by_score ::
  "('f \<Rightarrow> string) \<Rightarrow> redis_config \<Rightarrow> string \<Rightarrow> 'f \<Rightarrow> 'f \<Rightarrow> (nat \<times> nat) option \<Rightarrow> 'a list request" where
  "redis_sorted_set_range_by_score show_f64 = redis_sorted_set_score_range show_f64 ''ZRANGEBYSCORE''"

definition redis_sorted_set_reverse_range_by_score ::
  "('f \<Rightarrow> string) \<Rightarrow> redis_config \<Rightarrow> string \<Rightarrow> 'f \<Rightarrow> 'f \<Rightarrow> (nat \<times> nat) option \<Rightarrow> 'a list request" where
  "redis_sorted_set_reverse_range_by_score show_f64 = redis_sorted_set_score_range show_f64 ''ZREVRANGEBYSCORE''"

definition redis_sorted_set_increment :: "('f \<Rightarrow> string) \<Rightarrow> redis_config \<Rightarrow> string \<Rightarrow> 'f \<Rightarrow> string \<Rightarrow> 'a request" where
  "redis_sorted_set_increment show_f64 c key amount v = Ask [''ZINCRBY'', redis_key c key, show_f64 amount, v]"

definition redis_sorted_set_rank :: "redis_config \<Rightarrow> string \<Rightarrow> string \<Rightarrow> bool \<Rightarrow> 'a request" where
  "redis_sorted_set_rank c key v backwards =
     Ask [if backwards then ''ZREVRANK'' else ''ZRANK'', redis_key c key, v]"

definition redis_sorted_set_remove_by_rank :: "redis_config \<Rightarrow> string \<Rightarrow> int \<Rightarrow> int \<Rightarrow> 'a request" where
  "redis_sorted_set_remove_by_rank c key start stop = Ask [''ZREMRANGEBYRANK'', redis_key c key, show_int start, show_int stop]"

definition redis_sorted_set_remove_by_score :: "('f \<Rightarrow> string) \<Rightarrow> redis_config \<Rightarrow> string \<Rightarrow> 'f \<Rightarrow> 'f \<Rightarrow> 'a request" where
  "redis_sorted_set_remove_by_score show_f64 c key lower upper = Ask [''ZREMRANGEBYSCORE'', redis_key c key, show_f64 lower, show_f64 upper]"

definition redis_sorted_set_scan :: "redis_config \<Rightarrow> string \<Rightarrow> nat \<Rightarrow> string option \<Rightarrow> nat option \<Rightarrow> 'a request" where
  "redis_sorted_set_scan c key cursor pattern count =
     asked (and_then (append_scan_options pattern count) (\<lambda>options. Inr ([''ZSCAN'', redis_key c key, show_nat cursor] @ options)))"

definition redis_sorted_set_score :: "redis_config \<Rightarrow> string \<Rightarrow> string \<Rightarrow> 'a request" where
  "redis_sorted_set_score c key v = Ask [''ZSCORE'', redis_key c key, v]"

definition redis_sorted_set_len :: "redis_config \<Rightarrow> string \<Rightarrow> 'a request" where
  "redis_sorted_set_len c key = Ask [''ZCARD'', redis_key c key]"

section \<open>Messages, scripts and streams\<close>

definition redis_publish :: "redis_config \<Rightarrow> string \<Rightarrow> string \<Rightarrow> 'a request" where
  "redis_publish c channel v = Ask [''PUBLISH'', redis_key c channel, v]"

definition redis_eval :: "redis_config \<Rightarrow> string \<Rightarrow> string list \<Rightarrow> string list \<Rightarrow> 'a request" where
  "redis_eval c script keys arguments =
     Ask ([''EVAL'', script, show_nat (length keys)] @ map (redis_key c) keys @ arguments)"

definition redis_stream_add :: "redis_config \<Rightarrow> string \<Rightarrow> string option \<Rightarrow> (string \<times> string) list \<Rightarrow> 'a request" where
  "redis_stream_add c key entry_id entry =
     (if entry = [] then Answer (Inl (InvalidArgument ''Redis stream entries require at least one field''))
      else Ask ([''XADD'', redis_key c key, case entry_id of None \<Rightarrow> ''*'' | Some i \<Rightarrow> i] @ concat (map (\<lambda>(f, v). [f, v]) entry)))"

definition redis_stream_read :: "redis_config \<Rightarrow> (string \<times> string) list \<Rightarrow> nat option \<Rightarrow> duration option \<Rightarrow> 'a request" where
  "redis_stream_read c streams count block =
     asked (and_then (append_stream_read_options count block False) (\<lambda>options.
       and_then (append_streams c streams) (\<lambda>ss. Inr (''XREAD'' # options @ ss))))"

definition redis_stream_group_create :: "redis_config \<Rightarrow> string \<Rightarrow> string \<Rightarrow> string \<Rightarrow> bool \<Rightarrow> 'a request" where
  "redis_stream_group_create c key grp entry_id create_stream =
     Ask ([''XGROUP'', ''CREATE'', redis_key c key, grp, entry_id] @ (if create_stream then [''MKSTREAM''] else []))"

definition redis_stream_group_destroy :: "redis_config \<Rightarrow> string \<Rightarrow> string \<Rightarrow> 'a request" where
  "redis_stream_group_destroy c key grp = Ask [''XGROUP'', ''DESTROY'', redis_key c key, grp]"

definition redis_stream_group_read ::
  "redis_config \<Rightarrow> string \<Rightarrow> string \<Rightarrow> (string \<times> string) list \<Rightarrow> nat option \<Rightarrow> duration option \<Rightarrow> bool \<Rightarrow> 'a request" where
  "redis_stream_group_read c grp consumer streams count block no_ack =
     (if grp = [] \<or> consumer = []
      then Answer (Inl (InvalidArgument ''Redis stream group and consumer names must not be empty''))
      else asked (and_then (append_stream_read_options count block no_ack) (\<lambda>options.
        and_then (append_streams c streams) (\<lambda>ss. Inr ([''XREADGROUP'', ''GROUP'', grp, consumer] @ options @ ss)))))"

definition redis_stream_ack :: "redis_config \<Rightarrow> string \<Rightarrow> string \<Rightarrow> string list \<Rightarrow> nat request" where
  "redis_stream_ack c key grp ids = (if ids = [] then Answer (Inr 0) else Ask ([''XACK'', redis_key c key, grp] @ ids))"

definition redis_stream_pending :: "redis_config \<Rightarrow> string \<Rightarrow> string \<Rightarrow> 'a request" where
  "redis_stream_pending c key grp = Ask [''XPENDING'', redis_key c key, grp]"

definition redis_stream_info :: "redis_config \<Rightarrow> string \<Rightarrow> 'a request" where
  "redis_stream_info c key = Ask [''XINFO'', ''STREAM'', redis_key c key]"

definition redis_stream_group_info :: "redis_config \<Rightarrow> string \<Rightarrow> 'a request" where
  "redis_stream_group_info c key = Ask [''XINFO'', ''GROUPS'', redis_key c key]"

definition redis_stream_consumer_info :: "redis_config \<Rightarrow> string \<Rightarrow> string \<Rightarrow> 'a request" where
  "redis_stream_consumer_info c key grp = Ask [''XINFO'', ''CONSUMERS'', redis_key c key, grp]"

definition redis_stream_claim :: "redis_config \<Rightarrow> string \<Rightarrow> string \<Rightarrow> string \<Rightarrow> duration \<Rightarrow> string list \<Rightarrow> 'a request" where
  "redis_stream_claim c key grp consumer min_idle ids =
     (if ids = [] then Answer (Inl (InvalidArgument ''Redis stream claim requires at least one entry ID''))
      else asked (and_then (redis_millis min_idle) (\<lambda>ms.
        Inr ([''XCLAIM'', redis_key c key, grp, consumer, show_nat ms] @ ids))))"

definition redis_stream_delete :: "redis_config \<Rightarrow> string \<Rightarrow> string list \<Rightarrow> nat request" where
  "redis_stream_delete c key ids = (if ids = [] then Answer (Inr 0) else Ask ([''XDEL'', redis_key c key] @ ids))"

definition redis_stream_group_set_id :: "redis_config \<Rightarrow> string \<Rightarrow> string \<Rightarrow> string \<Rightarrow> 'a request" where
  "redis_stream_group_set_id c key grp entry_id = Ask [''XGROUP'', ''SETID'', redis_key c key, grp, entry_id]"

section \<open>The namespace\<close>

text \<open>
  The commands the store sends for given logical keys, one rule per operation. The renderings of
  seconds and scores are those of the client library.
\<close>

inductive issues ::
  "(duration \<Rightarrow> string) \<Rightarrow> ('f \<Rightarrow> string) \<Rightarrow> redis_config \<Rightarrow> string list \<Rightarrow> string list \<Rightarrow> bool"
  for show_secs show_f64 c where
  ping: "redis_ping  = (Ask command :: unit request) \<Longrightarrow> issues show_secs show_f64 c [] command"
  | get: "redis_get c key = (Ask command :: unit request) \<Longrightarrow> issues show_secs show_f64 c [key] command"
  | get_string: "redis_get_string c key = (Ask command :: unit request) \<Longrightarrow> issues show_secs show_f64 c [key] command"
  | set: "redis_set c key v ttl = (Ask command :: unit request) \<Longrightarrow> issues show_secs show_f64 c [key] command"
  | set_if_absent: "redis_set_if_absent c key v ttl = (Ask command :: unit request) \<Longrightarrow> issues show_secs show_f64 c [key] command"
  | get_many: "redis_get_many c keys = (Ask command :: unit list request) \<Longrightarrow> issues show_secs show_f64 c keys command"
  | set_many: "redis_set_many c entries = (Ask command :: unit request) \<Longrightarrow> issues show_secs show_f64 c (map fst entries) command"
  | delete: "redis_delete c keys = (Ask command :: nat request) \<Longrightarrow> issues show_secs show_f64 c keys command"
  | unlink: "redis_unlink c keys = (Ask command :: nat request) \<Longrightarrow> issues show_secs show_f64 c keys command"
  | scan_keys: "redis_scan_keys c cursor pattern count = (Ask command :: unit request) \<Longrightarrow> issues show_secs show_f64 c [] command"
  | exists: "redis_exists c key = (Ask command :: unit request) \<Longrightarrow> issues show_secs show_f64 c [key] command"
  | increment: "redis_increment c key amount = (Ask command :: unit request) \<Longrightarrow> issues show_secs show_f64 c [key] command"
  | decrement: "redis_decrement c key amount = (Ask command :: unit request) \<Longrightarrow> issues show_secs show_f64 c [key] command"
  | expire: "redis_expire c key ttl = (Ask command :: unit request) \<Longrightarrow> issues show_secs show_f64 c [key] command"
  | persist: "redis_persist c key = (Ask command :: unit request) \<Longrightarrow> issues show_secs show_f64 c [key] command"
  | ttl: "redis_ttl c key = (Ask command :: unit request) \<Longrightarrow> issues show_secs show_f64 c [key] command"
  | bitmap_get: "redis_bitmap_get c key offset = (Ask command :: unit request) \<Longrightarrow> issues show_secs show_f64 c [key] command"
  | bitmap_set: "redis_bitmap_set c key offset b = (Ask command :: unit request) \<Longrightarrow> issues show_secs show_f64 c [key] command"
  | bitmap_count: "redis_bitmap_count c key byte_span = (Ask command :: unit request) \<Longrightarrow> issues show_secs show_f64 c [key] command"
  | bitmap_position: "redis_bitmap_position c key b byte_span = (Ask command :: unit request) \<Longrightarrow> issues show_secs show_f64 c [key] command"
  | bitmap_operation: "redis_bitmap_operation c operation destination sources = (Ask command :: unit request) \<Longrightarrow> issues show_secs show_f64 c (destination # sources) command"
  | hyperloglog_add: "redis_hyperloglog_add c key vs = (Ask command :: unit request) \<Longrightarrow> issues show_secs show_f64 c [key] command"
  | hyperloglog_count: "redis_hyperloglog_count c keys = (Ask command :: unit request) \<Longrightarrow> issues show_secs show_f64 c keys command"
  | hyperloglog_merge: "redis_hyperloglog_merge c destination sources = (Ask command :: unit request) \<Longrightarrow> issues show_secs show_f64 c (destination # sources) command"
  | hash_get: "redis_hash_get c key field = (Ask command :: unit request) \<Longrightarrow> issues show_secs show_f64 c [key] command"
  | hash_set: "redis_hash_set c key field v = (Ask command :: unit request) \<Longrightarrow> issues show_secs show_f64 c [key] command"
  | hash_get_all: "redis_hash_get_all c key = (Ask command :: unit request) \<Longrightarrow> issues show_secs show_f64 c [key] command"
  | hash_scan: "redis_hash_scan c key cursor pattern count = (Ask command :: unit request) \<Longrightarrow> issues show_secs show_f64 c [key] command"
  | hash_delete: "redis_hash_delete c key vs = (Ask command :: nat request) \<Longrightarrow> issues show_secs show_f64 c [key] command"
  | hash_increment: "redis_hash_increment c key field amount = (Ask command :: unit request) \<Longrightarrow> issues show_secs show_f64 c [key] command"
  | list_len: "redis_list_len c key = (Ask command :: unit request) \<Longrightarrow> issues show_secs show_f64 c [key] command"
  | list_push_front: "redis_list_push_front c key vs = (Ask command :: unit request) \<Longrightarrow> issues show_secs show_f64 c [key] command"
  | list_push_back: "redis_list_push_back c key vs = (Ask command :: unit request) \<Longrightarrow> issues show_secs show_f64 c [key] command"
  | list_pop_front: "redis_list_pop_front c key = (Ask command :: unit request) \<Longrightarrow> issues show_secs show_f64 c [key] command"
  | list_pop_back: "redis_list_pop_back c key = (Ask command :: unit request) \<Longrightarrow> issues show_secs show_f64 c [key] command"
  | list_blocking_pop_front: "redis_list_blocking_pop_front show_secs c keys timeout = (Ask command :: unit request) \<Longrightarrow> issues show_secs show_f64 c keys command"
  | list_blocking_pop_back: "redis_list_blocking_pop_back show_secs c keys timeout = (Ask command :: unit request) \<Longrightarrow> issues show_secs show_f64 c keys command"
  | list_move: "redis_list_move c source destination side side' = (Ask command :: unit request) \<Longrightarrow> issues show_secs show_f64 c [source, destination] command"
  | list_range: "redis_list_range c key start stop = (Ask command :: unit request) \<Longrightarrow> issues show_secs show_f64 c [key] command"
  | set_add: "redis_set_add c key vs = (Ask command :: nat request) \<Longrightarrow> issues show_secs show_f64 c [key] command"
  | set_remove: "redis_set_remove c key vs = (Ask command :: nat request) \<Longrightarrow> issues show_secs show_f64 c [key] command"
  | set_members: "redis_set_members c key = (Ask command :: unit request) \<Longrightarrow> issues show_secs show_f64 c [key] command"
  | set_scan: "redis_set_scan c key cursor pattern count = (Ask command :: unit request) \<Longrightarrow> issues show_secs show_f64 c [key] command"
  | set_move: "redis_set_move c source destination v = (Ask command :: unit request) \<Longrightarrow> issues show_secs show_f64 c [source, destination] command"
  | set_contains: "redis_set_contains c key v = (Ask command :: unit request) \<Longrightarrow> issues show_secs show_f64 c [key] command"
  | set_len: "redis_set_len c key = (Ask command :: unit request) \<Longrightarrow> issues show_secs show_f64 c [key] command"
  | sorted_set_add: "redis_sorted_set_add show_f64 c key score v = (Ask command :: unit request) \<Longrightarrow> issues show_secs show_f64 c [key] command"
  | sorted_set_remove: "redis_sorted_set_remove c key vs = (Ask command :: nat request) \<Longrightarrow> issues show_secs show_f64 c [key] command"
  | sorted_set_range: "redis_sorted_set_range c key start stop = (Ask command :: unit request) \<Longrightarrow> issues show_secs show_f64 c [key] command"
  | sorted_set_reverse_range: "redis_sorted_set_reverse_range c key start stop = (Ask command :: unit request) \<Longrightarrow> issues show_secs show_f64 c [key] command"
  | sorted_set_range_by_score: "redis_sorted_set_range_by_score show_f64 c key lower upper limit = (Ask command :: unit list request) \<Longrightarrow> issues show_secs show_f64 c [key] command"
  | sorted_set_reverse_range_by_score: "redis_sorted_set_reverse_range_by_score show_f64 c key lower upper limit = (Ask command :: unit list request) \<Longrightarrow> issues show_secs show_f64 c [key] command"
  | sorted_set_increment: "redis_sorted_set_increment show_f64 c key score v = (Ask command :: unit request) \<Longrightarrow> issues show_secs show_f64 c [key] command"
  | sorted_set_rank: "redis_sorted_set_rank c key v b = (Ask command :: unit request) \<Longrightarrow> issues show_secs show_f64 c [key] command"
  | sorted_set_remove_by_rank: "redis_sorted_set_remove_by_rank c key start stop = (Ask command :: unit request) \<Longrightarrow> issues show_secs show_f64 c [key] command"
  | sorted_set_remove_by_score: "redis_sorted_set_remove_by_score show_f64 c key lower upper = (Ask command :: unit request) \<Longrightarrow> issues show_secs show_f64 c [key] command"
  | sorted_set_scan: "redis_sorted_set_scan c key cursor pattern count = (Ask command :: unit request) \<Longrightarrow> issues show_secs show_f64 c [key] command"
  | sorted_set_score: "redis_sorted_set_score c key v = (Ask command :: unit request) \<Longrightarrow> issues show_secs show_f64 c [key] command"
  | sorted_set_len: "redis_sorted_set_len c key = (Ask command :: unit request) \<Longrightarrow> issues show_secs show_f64 c [key] command"
  | publish: "redis_publish c channel v = (Ask command :: unit request) \<Longrightarrow> issues show_secs show_f64 c [channel] command"
  | eval: "redis_eval c script keys arguments = (Ask command :: unit request) \<Longrightarrow> issues show_secs show_f64 c keys command"
  | stream_add: "redis_stream_add c key entry_id entry = (Ask command :: unit request) \<Longrightarrow> issues show_secs show_f64 c [key] command"
  | stream_read: "redis_stream_read c streams count block = (Ask command :: unit request) \<Longrightarrow> issues show_secs show_f64 c (map fst streams) command"
  | stream_group_create: "redis_stream_group_create c key grp entry_id b = (Ask command :: unit request) \<Longrightarrow> issues show_secs show_f64 c [key] command"
  | stream_group_destroy: "redis_stream_group_destroy c key grp = (Ask command :: unit request) \<Longrightarrow> issues show_secs show_f64 c [key] command"
  | stream_group_read: "redis_stream_group_read c grp consumer streams count block b = (Ask command :: unit request) \<Longrightarrow> issues show_secs show_f64 c (map fst streams) command"
  | stream_ack: "redis_stream_ack c key grp ids = (Ask command :: nat request) \<Longrightarrow> issues show_secs show_f64 c [key] command"
  | stream_pending: "redis_stream_pending c key grp = (Ask command :: unit request) \<Longrightarrow> issues show_secs show_f64 c [key] command"
  | stream_info: "redis_stream_info c key = (Ask command :: unit request) \<Longrightarrow> issues show_secs show_f64 c [key] command"
  | stream_group_info: "redis_stream_group_info c key = (Ask command :: unit request) \<Longrightarrow> issues show_secs show_f64 c [key] command"
  | stream_consumer_info: "redis_stream_consumer_info c key grp = (Ask command :: unit request) \<Longrightarrow> issues show_secs show_f64 c [key] command"
  | stream_claim: "redis_stream_claim c key grp consumer min_idle ids = (Ask command :: unit request) \<Longrightarrow> issues show_secs show_f64 c [key] command"
  | stream_delete: "redis_stream_delete c key ids = (Ask command :: nat request) \<Longrightarrow> issues show_secs show_f64 c [key] command"
  | stream_group_set_id: "redis_stream_group_set_id c key grp entry_id = (Ask command :: unit request) \<Longrightarrow> issues show_secs show_f64 c [key] command"

lemmas redis_requests = asked_def redis_list_push_def redis_list_blocking_pop_def
    redis_set_members_command_def redis_sorted_set_score_range_def redis_ping_def redis_get_def
    redis_get_string_def redis_set_def redis_set_if_absent_def redis_get_many_def
    redis_set_many_def redis_delete_def redis_unlink_def redis_scan_keys_def redis_exists_def
    redis_increment_def redis_decrement_def redis_expire_def redis_persist_def redis_ttl_def
    redis_bitmap_get_def redis_bitmap_set_def redis_bitmap_count_def redis_bitmap_position_def
    redis_bitmap_operation_def redis_hyperloglog_add_def redis_hyperloglog_count_def
    redis_hyperloglog_merge_def redis_hash_get_def redis_hash_set_def redis_hash_get_all_def
    redis_hash_scan_def redis_hash_delete_def redis_hash_increment_def redis_list_len_def
    redis_list_push_front_def redis_list_push_back_def redis_list_pop_front_def
    redis_list_pop_back_def redis_list_blocking_pop_front_def redis_list_blocking_pop_back_def
    redis_list_move_def redis_list_range_def redis_set_add_def redis_set_remove_def
    redis_set_members_def redis_set_scan_def redis_set_move_def redis_set_contains_def
    redis_set_len_def redis_sorted_set_add_def redis_sorted_set_remove_def
    redis_sorted_set_range_def redis_sorted_set_reverse_range_def
    redis_sorted_set_range_by_score_def redis_sorted_set_reverse_range_by_score_def
    redis_sorted_set_increment_def redis_sorted_set_rank_def redis_sorted_set_remove_by_rank_def
    redis_sorted_set_remove_by_score_def redis_sorted_set_scan_def redis_sorted_set_score_def
    redis_sorted_set_len_def redis_publish_def redis_eval_def redis_stream_add_def
    redis_stream_read_def redis_stream_group_create_def redis_stream_group_destroy_def
    redis_stream_group_read_def redis_stream_ack_def redis_stream_pending_def redis_stream_info_def
    redis_stream_group_info_def redis_stream_consumer_info_def redis_stream_claim_def
    redis_stream_delete_def redis_stream_group_set_id_def

text \<open>
  Where the documentation of the commands places their keys. The readers of streams have options
  before the \<open>STREAMS\<close> keyword, after which come the keys and as many identifiers; \<open>EVAL\<close> is told the
  number of its keys.
\<close>

fun evens :: "'a list \<Rightarrow> 'a list" where
  "evens [] = []"
| "evens [x] = [x]"
| "evens (x # y # xs) = x # evens xs"

fun stream_keys :: "string list \<Rightarrow> string list" where
  "stream_keys [] = []"
| "stream_keys (a # as) =
     (if a = ''COUNT'' \<or> a = ''BLOCK'' then stream_keys (drop 1 as)
      else if a = ''NOACK'' then stream_keys as
      else if a = ''GROUP'' then stream_keys (drop 2 as)
      else if a = ''STREAMS'' then take (length as div 2) as
      else [])"

definition script_keys :: "string list \<Rightarrow> string list" where
  "script_keys as =
     (case as of
        script # numkeys # rest \<Rightarrow>
          (case List.find (\<lambda>n. show_nat n = numkeys) [0..<Suc (length rest)] of Some n \<Rightarrow> take n rest | None \<Rightarrow> [])
      | _ \<Rightarrow> [])"

definition documented_keys :: "string list \<Rightarrow> string list" where
  "documented_keys command =
     (case command of
        [] \<Rightarrow> []
      | name # as \<Rightarrow>
          if name \<in> {''PING'', ''SCAN''} then []
          else if name \<in> {''MGET'', ''DEL'', ''UNLINK'', ''PFCOUNT'', ''PFMERGE''} then as
          else if name = ''MSET'' then evens as
          else if name \<in> {''BLPOP'', ''BRPOP''} then butlast as
          else if name \<in> {''LMOVE'', ''SMOVE''} then take 2 as
          else if name = ''BITOP'' then drop 1 as
          else if name = ''EVAL'' then script_keys as
          else if name \<in> {''XREAD'', ''XREADGROUP''} then stream_keys as
          else if name \<in> {''XGROUP'', ''XINFO''} then take 1 (drop 1 as)
          else take 1 as)"

lemma evens_pairs: "evens (concat (map (\<lambda>(k, v). [f k, v]) es)) = map (f \<circ> fst) es"
  by (induction es) auto

lemma stream_keys_options:
  assumes "append_stream_read_options count block no_ack = Inr options" and "append_streams c streams = Inr ss"
  shows "stream_keys (options @ ss) = map (redis_key c \<circ> fst) streams"
  using assms
  by (auto simp: append_stream_read_options_def append_streams_def and_then_Inr split: option.splits if_splits)

lemma script_keys_eval: "script_keys (script # show_nat (length keys) # keys @ arguments) = keys"
proof -
  have "List.find (\<lambda>n. show_nat n = show_nat (length keys)) [0..<Suc (length (keys @ arguments))] = Some (length keys)"
    unfolding find_Some_iff using show_nat_inj
    by (intro exI [of _ "length keys"]) (auto simp del: upt_Suc)
  then show ?thesis by (simp add: script_keys_def del: upt_Suc)
qed

lemma script_keys_map: "script_keys (script # show_nat (length ks) # map f ks @ arguments) = map f ks"
  using script_keys_eval [of script "map f ks"] by simp

lemma asked_Ask [simp]: "asked r = Ask command \<longleftrightarrow> r = Inr command"
  by (cases r) (auto simp: asked_def)

text \<open>
  Every command carries the logical keys of its operation and only those, each under the prefix of
  the store.
\<close>

lemma issued_keys: "issues show_secs show_f64 c ks command \<Longrightarrow> documented_keys command = map (redis_key c) ks"
  by (induction rule: issues.induct)
    (auto simp: redis_requests documented_keys_def and_then_Inr evens_pairs stream_keys_options script_keys_map
      append_scan_options_def Let_def split: option.splits if_splits sum.splits)

lemma redis_key_inj: "redis_key c k = redis_key c k' \<longleftrightarrow> k = k'"
  by (simp add: redis_key_def)

lemma strip_redis_key [simp]: "strip_key c (redis_key c k) = k"
  by (simp add: strip_key_def redis_key_def strip_prefix_eq split: option.splits) (simp add: strip_prefix_None)

lemma redis_keys_apart:
  assumes "\<not> prefix (rd_prefix c) (rd_prefix d)" and "\<not> prefix (rd_prefix d) (rd_prefix c)"
  shows "redis_key c k \<noteq> redis_key d k'"
proof
  assume "redis_key c k = redis_key d k'"
  then have "prefix (rd_prefix c) (rd_prefix d @ k')" by (metis prefixI redis_key_def)
  then show False using assms prefix_same_cases [of "rd_prefix c" "rd_prefix d @ k'" "rd_prefix d"] by auto
qed



section \<open>Labels\<close>

text \<open>
  A command packed as the protocol documents (the number of arguments, the length of the first, the
  first argument, each line ended by a carriage return and a line feed) is labelled after its name.
\<close>

definition resp_line :: "string \<Rightarrow> string" where
  "resp_line s = s @ [CHR 0x0D, newline_byte]"

definition packs :: "(string list \<Rightarrow> string) \<Rightarrow> bool" where
  "packs pack \<longleftrightarrow> (\<forall>name as. \<exists>arity len rest. newline_byte \<notin> set arity \<and> newline_byte \<notin> set len \<and>
     pack (name # as) = resp_line arity @ resp_line len @ resp_line name @ rest)"

lemma command_line_packed:
  assumes "packs pack" and "newline_byte \<notin> set name"
  shows "command_line (pack (name # as)) = Some name"
proof -
  obtain arity len rest where a: "newline_byte \<notin> set arity" "newline_byte \<notin> set len"
    and p: "pack (name # as) = resp_line arity @ resp_line len @ resp_line name @ rest"
    using assms(1) unfolding packs_def by blast
  have line: "split_on newline_byte (resp_line s @ xs) = (s @ [CHR 0x0D]) # split_on newline_byte xs"
    if "newline_byte \<notin> set s" for s xs
    using split_on_append [of newline_byte "s @ [CHR 0x0D]" xs] that by (simp add: resp_line_def newline_byte_def)
  show ?thesis
    using a assms(2) by (simp add: command_line_def p line)
qed

definition labelled_names :: "string list" where
  "labelled_names = map fst known_commands"

lemma issued_name:
  "issues show_secs show_f64 c ks command \<Longrightarrow>
   command \<noteq> [] \<and> (hd command = ''PSETEX'' \<or> hd command \<in> set labelled_names)"
  unfolding labelled_names_def known_commands_def list.map fst_conv list.set
  by (induction rule: issues.induct)
    (auto simp: redis_requests and_then_Inr Let_def split: option.splits if_splits sum.splits)

lemma known_names:
  "name \<in> set labelled_names \<Longrightarrow> newline_byte \<notin> set name \<and> map_of known_commands name \<noteq> None \<and>
     map_of known_commands name \<noteq> Some ''other''"
  by (auto simp: labelled_names_def known_commands_def newline_byte_def)

text \<open>
  No command the store builds is observed as \<open>other\<close>: a write with a time to live, the one command
  missing in the table, is labelled by its caller.
\<close>

lemma issued_label:
  assumes "issues show_secs show_f64 c ks command" and "hd command \<noteq> ''PSETEX''" and "packs pack"
  shows "redis_command_name (pack command) \<noteq> ''other''"
proof -
  obtain name as where cmd: "command = name # as" "name \<in> set labelled_names"
    using issued_name [OF assms(1)] assms(2) by (cases command) auto
  then show ?thesis
    using known_names [OF cmd(2)] command_line_packed [OF assms(3)] by (auto simp: redis_command_name_def)
qed

end
