(* ===== verification/Redis_Lock.thy ===== *)
theory Redis_Lock
  imports Redis_Store
begin

text \<open>
  \<open>core/src/stores_redis.rs\<close>, the lock: a key set to the token of its owner with a time to live,
  released and extended by scripts that compare the token first. The server is not part of the
  repository: what its commands are documented to do is the locale \<open>redis_server\<close>, and the mutual
  exclusion of the lock is proved for every server that keeps it.
\<close>

section \<open>The server\<close>

text \<open>
  Times are milliseconds of the server's clock. \<open>srv_get now k s\<close> is the value a \<open>GET\<close> at that time
  returns, which is how expiry shows; the other commands return their reply and the new state.
\<close>

record 's server_commands =
  srv_get :: "nat \<Rightarrow> string \<Rightarrow> 's \<Rightarrow> string option"
  srv_set_nx_px :: "nat \<Rightarrow> string \<Rightarrow> string \<Rightarrow> nat \<Rightarrow> 's \<Rightarrow> bool \<times> 's"
  srv_psetex :: "nat \<Rightarrow> string \<Rightarrow> string \<Rightarrow> nat \<Rightarrow> 's \<Rightarrow> 's"
  srv_del :: "nat \<Rightarrow> string \<Rightarrow> 's \<Rightarrow> int \<times> 's"
  srv_pexpire :: "nat \<Rightarrow> string \<Rightarrow> nat \<Rightarrow> 's \<Rightarrow> int \<times> 's"

definition same_from :: "'s server_commands \<Rightarrow> nat \<Rightarrow> string \<Rightarrow> 's \<Rightarrow> 's \<Rightarrow> bool" where
  "same_from R now k s s' \<longleftrightarrow> (\<forall>t k'. now \<le> t \<longrightarrow> k' \<noteq> k \<longrightarrow> srv_get R t k' s' = srv_get R t k' s)"

locale redis_server =
  fixes R :: "'s server_commands"
  assumes set_nx_absent: "srv_get R now k s = None \<Longrightarrow> 0 < px \<Longrightarrow> srv_set_nx_px R now k v px s = (ok, s') \<Longrightarrow>
      ok \<and> same_from R now k s s' \<and> (\<forall>t \<ge> now. srv_get R t k s' = (if t < now + px then Some v else None))"
    and set_nx_present: "srv_get R now k s = Some w \<Longrightarrow> 0 < px \<Longrightarrow> srv_set_nx_px R now k v px s = (ok, s') \<Longrightarrow>
      \<not> ok \<and> (\<forall>t \<ge> now. \<forall>k'. srv_get R t k' s' = srv_get R t k' s)"
    and psetex: "0 < px \<Longrightarrow> same_from R now k s (srv_psetex R now k v px s) \<and>
      (\<forall>t \<ge> now. srv_get R t k (srv_psetex R now k v px s) = (if t < now + px then Some v else None))"
    and del_present: "srv_get R now k s = Some w \<Longrightarrow> srv_del R now k s = (n, s') \<Longrightarrow>
      n = 1 \<and> same_from R now k s s' \<and> (\<forall>t \<ge> now. srv_get R t k s' = None)"
    and del_absent: "srv_get R now k s = None \<Longrightarrow> srv_del R now k s = (n, s') \<Longrightarrow>
      n = 0 \<and> (\<forall>t \<ge> now. \<forall>k'. srv_get R t k' s' = srv_get R t k' s)"
    and pexpire_present: "srv_get R now k s = Some w \<Longrightarrow> srv_pexpire R now k px s = (n, s') \<Longrightarrow>
      n = 1 \<and> same_from R now k s s' \<and> (\<forall>t \<ge> now. srv_get R t k s' = (if t < now + px then Some w else None))"

text \<open>A server that is one map from keys to values with a deadline.\<close>

type_synonym expiring_store = "string \<Rightarrow> (string \<times> nat) option"

definition live :: "nat \<Rightarrow> string \<Rightarrow> expiring_store \<Rightarrow> string option" where
  "live now k s = (case s k of None \<Rightarrow> None | Some (v, deadline) \<Rightarrow> if now < deadline then Some v else None)"

definition map_server :: "expiring_store server_commands" where
  "map_server =
     \<lparr>srv_get = live,
      srv_set_nx_px = (\<lambda>now k v px s. if live now k s = None then (True, s(k \<mapsto> (v, now + px))) else (False, s)),
      srv_psetex = (\<lambda>now k v px s. s(k \<mapsto> (v, now + px))),
      srv_del = (\<lambda>now k s. (if live now k s = None then 0 else 1, s(k := None))),
      srv_pexpire = (\<lambda>now k px s. case live now k s of None \<Rightarrow> (0, s) | Some v \<Rightarrow> (1, s(k \<mapsto> (v, now + px))))\<rparr>"

interpretation expiring: redis_server map_server
  by unfold_locales (auto simp: map_server_def same_from_def live_def split: option.splits if_splits prod.splits)

section \<open>The lock\<close>

record redis_lock =
  lk_key :: string
  lk_token :: string
  lk_ttl :: duration
  lk_held :: bool

definition lock_new :: "string \<Rightarrow> string \<Rightarrow> duration \<Rightarrow> redis_lock option" where
  "lock_new key token ttl =
     (if ttl = 0 then None else Some \<lparr>lk_key = key, lk_token = token, lk_ttl = ttl, lk_held = False\<rparr>)"

text \<open>The token: the process, the time and a counter of the process.\<close>

definition unique_token :: "nat \<Rightarrow> nat \<Rightarrow> nat \<Rightarrow> string" where
  "unique_token pid timestamp sequence = show_nat pid @ ''-'' @ show_nat timestamp @ ''-'' @ show_nat sequence"

text \<open>
  What happens to a command: no connection, never seen by the server, run but its reply lost (the
  operation times out), or answered.
\<close>

datatype fate = Unconnected redis_error | Dropped redis_error | LostReply redis_error | Delivered

definition exchange :: "fate \<Rightarrow> ('s \<Rightarrow> 'r \<times> 's) \<Rightarrow> 's \<Rightarrow> (redis_error + 'r) \<times> 's" where
  "exchange f run s =
     (case f of
        Unconnected e \<Rightarrow> (Inl e, s)
      | Dropped e \<Rightarrow> (Inl e, s)
      | LostReply e \<Rightarrow> (Inl e, snd (run s))
      | Delivered \<Rightarrow> (Inr (fst (run s)), snd (run s)))"

text \<open>\<open>SET key token NX PX ttl\<close>; a time to live of no whole millisecond is refused by the server.\<close>

definition set_nx_command :: "'s server_commands \<Rightarrow> nat \<Rightarrow> string \<Rightarrow> string \<Rightarrow> nat \<Rightarrow> 's \<Rightarrow> (string + bool) \<times> 's" where
  "set_nx_command R now k v px s =
     (if px = 0 then (Inl ''ERR invalid expire time in 'set' command'', s)
      else case srv_set_nx_px R now k v px s of (ok, s') \<Rightarrow> (Inr ok, s'))"

definition failed_reply :: "redis_error + (string + 'a) \<Rightarrow> redis_error + 'a" where
  "failed_reply r = and_then r (\<lambda>a. case a of Inl e \<Rightarrow> Inl (RedisFailure e) | Inr b \<Rightarrow> Inr b)"

definition lock_acquire ::
  "'s server_commands \<Rightarrow> redis_config \<Rightarrow> nat \<Rightarrow> fate \<Rightarrow> redis_lock \<Rightarrow> 's \<Rightarrow> (redis_error + bool) \<times> redis_lock \<times> 's" where
  "lock_acquire R c now f l s =
     (case f of
        Unconnected e \<Rightarrow> (Inl e, l, s)
      | _ \<Rightarrow>
         (case redis_millis (lk_ttl l) of
            Inl e \<Rightarrow> (Inl e, l, s)
          | Inr px \<Rightarrow>
             (case exchange f (set_nx_command R now (redis_key c (lk_key l)) (lk_token l) px) s of
                (reply, s') \<Rightarrow>
                  (case failed_reply reply of
                     Inl e \<Rightarrow> (Inl e, l, s')
                   | Inr ok \<Rightarrow> (Inr ok, l\<lparr>lk_held := ok\<rparr>, s')))))"

text \<open>The two scripts; each runs as one step of the server.\<close>

definition extend_script :: "'s server_commands \<Rightarrow> nat \<Rightarrow> string \<Rightarrow> string \<Rightarrow> nat \<Rightarrow> 's \<Rightarrow> int \<times> 's" where
  "extend_script R now k token px s = (if srv_get R now k s = Some token then srv_pexpire R now k px s else (0, s))"

definition release_script :: "'s server_commands \<Rightarrow> nat \<Rightarrow> string \<Rightarrow> string \<Rightarrow> 's \<Rightarrow> int \<times> 's" where
  "release_script R now k token s = (if srv_get R now k s = Some token then srv_del R now k s else (0, s))"

definition lock_extend ::
  "'s server_commands \<Rightarrow> redis_config \<Rightarrow> nat \<Rightarrow> fate \<Rightarrow> duration \<Rightarrow> redis_lock \<Rightarrow> 's \<Rightarrow> (redis_error + bool) \<times> 's" where
  "lock_extend R c now f ttl l s =
     (if \<not> lk_held l \<or> ttl = 0 then (Inr False, s)
      else case f of
        Unconnected e \<Rightarrow> (Inl e, s)
      | _ \<Rightarrow>
         (case redis_millis ttl of
            Inl e \<Rightarrow> (Inl e, s)
          | Inr px \<Rightarrow>
             (case exchange f (extend_script R now (redis_key c (lk_key l)) (lk_token l) px) s of
                (Inl e, s') \<Rightarrow> (Inl e, s')
              | (Inr n, s') \<Rightarrow> (Inr (n = 1), s'))))"

definition lock_release ::
  "'s server_commands \<Rightarrow> redis_config \<Rightarrow> nat \<Rightarrow> fate \<Rightarrow> redis_lock \<Rightarrow> 's \<Rightarrow> (redis_error + bool) \<times> redis_lock \<times> 's" where
  "lock_release R c now f l s =
     (if \<not> lk_held l then (Inr False, l, s)
      else case exchange f (release_script R now (redis_key c (lk_key l)) (lk_token l)) s of
        (Inl e, s') \<Rightarrow> (Inl e, l, s')
      | (Inr n, s') \<Rightarrow> (Inr (n = 1), l\<lparr>lk_held := False\<rparr>, s'))"

section \<open>Clients of one key space\<close>

text \<open>
  The locks of all clients, the server and its clock. \<open>ls_lease\<close> is until when a client may rely on
  its lock: the time to live from the moment the server granted or extended it, no longer than an
  extension it has asked for, and over once it has asked for the release.
\<close>

record 's lock_system =
  ls_now :: nat
  ls_server :: 's
  ls_lock :: "nat \<Rightarrow> redis_lock"
  ls_lease :: "nat \<Rightarrow> nat"

datatype lock_action = Tick nat | Acquire nat fate | Extend nat fate duration | Release nat fate

definition sent :: "fate \<Rightarrow> bool" where
  "sent f = (case f of Unconnected e \<Rightarrow> False | _ \<Rightarrow> True)"

definition lock_act :: "'s server_commands \<Rightarrow> redis_config \<Rightarrow> lock_action \<Rightarrow> 's lock_system \<Rightarrow> 's lock_system" where
  "lock_act R c a y =
     (case a of
        Tick dt \<Rightarrow> y\<lparr>ls_now := ls_now y + dt\<rparr>
      | Acquire i f \<Rightarrow>
          (case lock_acquire R c (ls_now y) f (ls_lock y i) (ls_server y) of
             (r, l, s) \<Rightarrow> y\<lparr>ls_server := s, ls_lock := (ls_lock y)(i := l),
               ls_lease := (if r = Inr True then (ls_lease y)(i := ls_now y + as_millis (lk_ttl l)) else ls_lease y)\<rparr>)
      | Extend i f ttl \<Rightarrow>
          (case lock_extend R c (ls_now y) f ttl (ls_lock y i) (ls_server y) of
             (r, s) \<Rightarrow> y\<lparr>ls_server := s,
               ls_lease := (if r = Inr True then (ls_lease y)(i := ls_now y + as_millis ttl)
                 else if lk_held (ls_lock y i) \<and> ttl \<noteq> 0 \<and> sent f
                 then (ls_lease y)(i := min (ls_lease y i) (ls_now y + as_millis ttl)) else ls_lease y)\<rparr>)
      | Release i f \<Rightarrow>
          (case lock_release R c (ls_now y) f (ls_lock y i) (ls_server y) of
             (r, l, s) \<Rightarrow> y\<lparr>ls_server := s, ls_lock := (ls_lock y)(i := l),
               ls_lease := (if lk_held (ls_lock y i) \<and> sent f then (ls_lease y)(i := 0) else ls_lease y)\<rparr>))"

definition lock_run :: "'s server_commands \<Rightarrow> redis_config \<Rightarrow> lock_action list \<Rightarrow> 's lock_system \<Rightarrow> 's lock_system" where
  "lock_run R c as y = fold (lock_act R c) as y"

definition owns :: "'s lock_system \<Rightarrow> nat \<Rightarrow> bool" where
  "owns y i \<longleftrightarrow> lk_held (ls_lock y i) \<and> ls_now y < ls_lease y i"

section \<open>Mutual exclusion\<close>

text \<open>The server still has the client's token under its key for as long as the client relies on it.\<close>

definition lease_ok :: "'s server_commands \<Rightarrow> redis_config \<Rightarrow> nat \<Rightarrow> 's \<Rightarrow> redis_lock \<Rightarrow> nat \<Rightarrow> bool" where
  "lease_ok R c now s l until \<longleftrightarrow>
     (\<forall>t. now \<le> t \<longrightarrow> t < until \<longrightarrow> srv_get R t (redis_key c (lk_key l)) s = Some (lk_token l))"

definition leases_ok :: "'s server_commands \<Rightarrow> redis_config \<Rightarrow> 's lock_system \<Rightarrow> bool" where
  "leases_ok R c y \<longleftrightarrow> (\<forall>i. lease_ok R c (ls_now y) (ls_server y) (ls_lock y i) (ls_lease y i))"

definition quiet :: "'s server_commands \<Rightarrow> nat \<Rightarrow> 's \<Rightarrow> 's \<Rightarrow> bool" where
  "quiet R now s s' \<longleftrightarrow> (\<forall>t \<ge> now. \<forall>k. srv_get R t k s' = srv_get R t k s)"

text \<open>
  What a command of the lock does to the server: nothing that shows, or a change of its own key,
  which was free or held its token, and which then has the token for \<open>px\<close> (0 when it is deleted).
\<close>

definition lock_effect :: "'s server_commands \<Rightarrow> nat \<Rightarrow> string \<Rightarrow> string \<Rightarrow> nat \<Rightarrow> 's \<Rightarrow> 's \<Rightarrow> bool" where
  "lock_effect R now k token px s s' \<longleftrightarrow>
     (srv_get R now k s = None \<or> srv_get R now k s = Some token) \<and> same_from R now k s s' \<and>
     (\<forall>t \<ge> now. t < now + px \<longrightarrow> srv_get R t k s' = Some token)"

lemma quiet_refl [simp]: "quiet R now s s"
  by (simp add: quiet_def)

lemma lease_ok_quiet: "lease_ok R c now s l u \<Longrightarrow> quiet R now s s' \<Longrightarrow> lease_ok R c now s' l u"
  by (simp add: lease_ok_def quiet_def)

lemma lease_ok_mono: "lease_ok R c now s l u \<Longrightarrow> u' \<le> u \<Longrightarrow> lease_ok R c now s l u'"
  by (auto simp: lease_ok_def)

lemma lease_ok_other:
  assumes "lease_ok R c now s l u" and "lock_effect R now k token px s s'" and "lk_token l \<noteq> token"
  shows "lease_ok R c now s' l u"
proof (cases "redis_key c (lk_key l) = k")
  case True
  with assms have "u \<le> now" by (force simp: lease_ok_def lock_effect_def not_le)
  then show ?thesis by (simp add: lease_ok_def)
next
  case False
  then show ?thesis using assms(1,2) by (simp add: lease_ok_def lock_effect_def same_from_def)
qed

lemma lease_ok_own:
  "lock_effect R now (redis_key c (lk_key l)) (lk_token l) px s s' \<Longrightarrow> u \<le> now + px \<Longrightarrow> lease_ok R c now s' l u"
  by (auto simp: lease_ok_def lock_effect_def)

lemma lease_ok_free:
  "lease_ok R c now s l u \<Longrightarrow> srv_get R now (redis_key c (lk_key l)) s = None \<Longrightarrow> u \<le> now"
  by (force simp: lease_ok_def not_le)

lemma lease_ok_past: "u \<le> now \<Longrightarrow> lease_ok R c now s l u"
  by (simp add: lease_ok_def)

context redis_server
begin

lemma acquire_effect:
  assumes "lock_acquire R c now f l s = (r, l', s')"
  shows "lk_key l' = lk_key l \<and> lk_token l' = lk_token l \<and> lk_ttl l' = lk_ttl l \<and>
    (quiet R now s s' \<and> r \<noteq> Inr True \<or>
     lock_effect R now (redis_key c (lk_key l)) (lk_token l) (as_millis (lk_ttl l)) s s' \<and>
       srv_get R now (redis_key c (lk_key l)) s = None)"
proof -
  have run: "(\<exists>e. a = Inl e) \<and> t = s \<or> a = Inr False \<and> quiet R now s t \<or>
      srv_get R now (redis_key c (lk_key l)) s = None \<and>
      lock_effect R now (redis_key c (lk_key l)) (lk_token l) (as_millis (lk_ttl l)) s t"
    if "set_nx_command R now (redis_key c (lk_key l)) (lk_token l) (as_millis (lk_ttl l)) s = (a, t)" for a t
    using that set_nx_absent [of now "redis_key c (lk_key l)" s "as_millis (lk_ttl l)" "lk_token l"]
      set_nx_present [of now "redis_key c (lk_key l)" s _ "as_millis (lk_ttl l)" "lk_token l"]
    by (cases "srv_get R now (redis_key c (lk_key l)) s")
      (fastforce simp: set_nx_command_def quiet_def lock_effect_def split: if_splits prod.splits)+
  obtain a t where at: "set_nx_command R now (redis_key c (lk_key l)) (lk_token l) (as_millis (lk_ttl l)) s = (a, t)"
    by fastforce
  show ?thesis
    using assms run [OF at] at
    by (auto simp: lock_acquire_def redis_millis_def exchange_def failed_reply_def split: fate.splits sum.splits if_splits)
qed

lemma extend_effect:
  assumes "lock_extend R c now f ttl l s = (r, s')"
  shows "quiet R now s s' \<and> r \<noteq> Inr True \<or>
     lk_held l \<and> ttl \<noteq> 0 \<and> sent f \<and> lock_effect R now (redis_key c (lk_key l)) (lk_token l) (as_millis ttl) s s'"
proof -
  have run: "n = 0 \<and> t = s \<or> lock_effect R now (redis_key c (lk_key l)) (lk_token l) (as_millis ttl) s t"
    if "extend_script R now (redis_key c (lk_key l)) (lk_token l) (as_millis ttl) s = (n, t)" for n t
    using that pexpire_present [of now "redis_key c (lk_key l)" s "lk_token l" "as_millis ttl" n t]
    by (auto simp: extend_script_def lock_effect_def split: if_splits)
  obtain n t where nt: "extend_script R now (redis_key c (lk_key l)) (lk_token l) (as_millis ttl) s = (n, t)"
    by fastforce
  show ?thesis
    using assms run [OF nt] nt
    by (auto simp: lock_extend_def redis_millis_def exchange_def sent_def split: fate.splits sum.splits if_splits)
qed

lemma release_effect:
  assumes "lock_release R c now f l s = (r, l', s')"
  shows "lk_key l' = lk_key l \<and> lk_token l' = lk_token l \<and> lk_ttl l' = lk_ttl l \<and>
    (quiet R now s s' \<or>
     lk_held l \<and> sent f \<and> lock_effect R now (redis_key c (lk_key l)) (lk_token l) 0 s s')"
proof -
  have run: "t = s \<or> lock_effect R now (redis_key c (lk_key l)) (lk_token l) 0 s t"
    if "release_script R now (redis_key c (lk_key l)) (lk_token l) s = (n, t)" for n t
    using that del_present [of now "redis_key c (lk_key l)" s "lk_token l" n t]
    by (auto simp: release_script_def lock_effect_def split: if_splits)
  obtain n t where nt: "release_script R now (redis_key c (lk_key l)) (lk_token l) s = (n, t)"
    by fastforce
  show ?thesis
    using assms run [OF nt] nt
    by (auto simp: lock_release_def exchange_def sent_def split: fate.splits sum.splits if_splits)
qed

lemma lock_act_ok:
  assumes ok: "leases_ok R c y" and tokens: "inj (\<lambda>i. lk_token (ls_lock y i))"
  shows "leases_ok R c (lock_act R c a y) \<and> (\<forall>i. lk_token (ls_lock (lock_act R c a y) i) = lk_token (ls_lock y i))"
proof -
  have ok: "lease_ok R c (ls_now y) (ls_server y) (ls_lock y j) (ls_lease y j)" for j
    using ok by (simp add: leases_ok_def)
  have apart: "lk_token (ls_lock y j) \<noteq> lk_token (ls_lock y i)" if "j \<noteq> i" for i j
    using tokens that by (auto dest: injD)
  show ?thesis
  proof (cases a)
    case (Tick dt)
    then show ?thesis using ok by (auto simp: leases_ok_def lock_act_def lease_ok_def)
  next
    case (Acquire i f)
    obtain r l s where run: "lock_acquire R c (ls_now y) f (ls_lock y i) (ls_server y) = (r, l, s)" by (metis prod_cases3)
    note e = acquire_effect [OF run]
    have same: "lease_ok R c now s' l u = lease_ok R c now s' (ls_lock y i) u" for now s' u
      using e by (simp add: lease_ok_def)
    have own: "lease_ok R c (ls_now y) s (ls_lock y i) (if r = Inr True then ls_now y + as_millis (lk_ttl l) else ls_lease y i)"
      using e lease_ok_quiet [OF ok [of i]] lease_ok_own [of R "ls_now y" c "ls_lock y i"] lease_ok_free [OF ok [of i]] lease_ok_past
      by auto
    have other: "lease_ok R c (ls_now y) s (ls_lock y j) (ls_lease y j)" if "j \<noteq> i" for j
      using e lease_ok_quiet [OF ok] lease_ok_other [OF ok _ apart [OF that]] by blast
    show ?thesis using own other e by (auto simp: Acquire run lock_act_def leases_ok_def same)
  next
    case (Extend i f ttl)
    obtain r s where run: "lock_extend R c (ls_now y) f ttl (ls_lock y i) (ls_server y) = (r, s)" by fastforce
    from extend_effect [OF run] show ?thesis
      using lease_ok_quiet [OF lease_ok_mono [OF ok]] lease_ok_quiet [OF ok] lease_ok_other [OF ok _ apart]
        lease_ok_own [of R "ls_now y" c "ls_lock y i" _ "ls_server y" s]
      by (auto simp: Extend run lock_act_def leases_ok_def)
  next
    case (Release i f)
    obtain r l s where run: "lock_release R c (ls_now y) f (ls_lock y i) (ls_server y) = (r, l, s)" by (metis prod_cases3)
    note e = release_effect [OF run]
    have same: "lease_ok R c now s' l u = lease_ok R c now s' (ls_lock y i) u" for now s' u
      using e by (simp add: lease_ok_def)
    have other: "lease_ok R c (ls_now y) s (ls_lock y j) (ls_lease y j)" if "j \<noteq> i" for j
      using e lease_ok_quiet [OF ok] lease_ok_other [OF ok _ apart [OF that]] by blast
    have own: "lease_ok R c (ls_now y) s (ls_lock y i) (ls_lease y i)" if "\<not> (lk_held (ls_lock y i) \<and> sent f)"
      using e that lease_ok_quiet [OF ok [of i]] by blast
    show ?thesis using own other e lease_ok_past [of 0]
      by (auto simp: Release run lock_act_def leases_ok_def same)
  qed
qed

lemma lock_run_ok:
  "leases_ok R c y \<Longrightarrow> inj (\<lambda>i. lk_token (ls_lock y i)) \<Longrightarrow>
   leases_ok R c (lock_run R c as y) \<and> (\<forall>i. lk_token (ls_lock (lock_run R c as y) i) = lk_token (ls_lock y i))"
proof (induction as arbitrary: y)
  case (Cons a as)
  then show ?case using lock_act_ok [OF Cons.prems, of a] Cons.IH [of "lock_act R c a y"] by (simp add: lock_run_def)
qed (simp add: lock_run_def)

end

text \<open>
  C12. Mutual exclusion. For any server that keeps the documented laws, any number of clients whose
  tokens differ, and any sequence of acquisitions, extensions, releases and passing of time, with
  commands lost before or after the server runs them: two clients never rely on the same key at
  once, and what the server holds under the key of a client that relies on it is its token.
\<close>

theorem redis_lock_exclusive:
  assumes "redis_server R"
    and "inj (\<lambda>i. lk_token (ls_lock y i))" and "\<forall>i. ls_lease y i = 0"
    and "owns (lock_run R c as y) i" and "owns (lock_run R c as y) j"
    and "lk_key (ls_lock (lock_run R c as y) i) = lk_key (ls_lock (lock_run R c as y) j)"
  shows "i = j \<and> srv_get R (ls_now (lock_run R c as y)) (redis_key c (lk_key (ls_lock (lock_run R c as y) i)))
    (ls_server (lock_run R c as y)) = Some (lk_token (ls_lock y i))"
proof -
  have "leases_ok R c y" using assms(3) by (simp add: leases_ok_def lease_ok_def)
  from redis_server.lock_run_ok [OF assms(1) this assms(2), of as]
  have "lease_ok R c (ls_now (lock_run R c as y)) (ls_server (lock_run R c as y)) (ls_lock (lock_run R c as y) k)
      (ls_lease (lock_run R c as y) k)" "lk_token (ls_lock (lock_run R c as y) k) = lk_token (ls_lock y k)" for k
    by (simp_all add: leases_ok_def)
  then have "srv_get R (ls_now (lock_run R c as y)) (redis_key c (lk_key (ls_lock (lock_run R c as y) k)))
      (ls_server (lock_run R c as y)) = Some (lk_token (ls_lock y k))" if "owns (lock_run R c as y) k" for k
    using that by (simp add: lease_ok_def owns_def)
  from this [OF assms(4)] this [OF assms(5)] show ?thesis using injD [OF assms(2), of i j] assms(6) by simp
qed

definition sample_lock :: "nat \<Rightarrow> redis_lock" where
  "sample_lock i = \<lparr>lk_key = ''job'', lk_token = show_nat i, lk_ttl = duration_from_millis 10, lk_held = False\<rparr>"

definition sample_locks :: "expiring_store lock_system" where
  "sample_locks = \<lparr>ls_now = 0, ls_server = Map.empty, ls_lock = sample_lock, ls_lease = (\<lambda>_. 0)\<rparr>"

theorem redis_lock_exclusive_witness:
  "let y = lock_run map_server (redis_config_new []) [Acquire 1 Delivered, Tick 10, Acquire 2 Delivered, Tick 3] sample_locks in
   owns y 2 \<and> srv_get map_server (ls_now y) ''job'' (ls_server y) = Some (show_nat 2)"
proof -
  let ?y = "lock_run map_server (redis_config_new []) [Acquire 1 Delivered, Tick 10, Acquire 2 Delivered, Tick 3] sample_locks"
  have inj: "inj (\<lambda>i. lk_token (ls_lock sample_locks i))"
    by (rule injI) (auto simp: sample_locks_def sample_lock_def dest: show_nat_inj)
  have run: "owns ?y 2 \<and> lk_key (ls_lock ?y 2) = ''job''"
    by (simp add: lock_run_def lock_act_def lock_acquire_def sample_locks_def sample_lock_def redis_millis_def
        exchange_def set_nx_command_def map_server_def live_def failed_reply_def owns_def redis_key_def redis_config_new_def u64_max_def)
  have key: "redis_key (redis_config_new []) k = k" for k by (simp add: redis_key_def redis_config_new_def)
  show ?thesis
    using redis_lock_exclusive [OF expiring.redis_server_axioms inj _ conjunct1 [OF run] conjunct1 [OF run]] run
    by (simp add: Let_def key) (simp add: sample_locks_def sample_lock_def)
qed

text \<open>Tokens of one process differ by the counter, and those of different processes by the process or the time.\<close>

lemma unique_token_inj:
  assumes "unique_token p t n = unique_token p' t' n'"
  shows "p = p' \<and> t = t' \<and> n = n'"
proof -
  have dash: "CHR ''-'' \<notin> set (show_nat m)" for m
  proof
    assume "CHR ''-'' \<in> set (show_nat m)"
    then obtain d where "d < 10" "CHR ''-'' = digit_char d" using show_nat_digits by blast
    then have "of_char (CHR ''-'') = 48 + d" by (simp add: digit_char_def)
    then show False by simp
  qed
  have split: "split_on CHR ''-'' (unique_token p t n) = [show_nat p, show_nat t, show_nat n]" for p t n
    using split_on_append [OF dash, of p "show_nat t @ CHR ''-'' # show_nat n"]
      split_on_append [OF dash, of t "show_nat n"] split_on_no_sep [OF dash, of n]
    by (simp add: unique_token_def)
  have "[show_nat p, show_nat t, show_nat n] = [show_nat p', show_nat t', show_nat n']"
    using arg_cong [OF assms, of "split_on CHR ''-''"] unfolding split .
  then show ?thesis by (auto dest: show_nat_inj)
qed

text \<open>
  A lock that is not held any more is free again once its time to live is over, whatever became of
  its owner: the next acquisition that reaches the server succeeds.
\<close>

lemma expired_lock_acquired:
  assumes "lk_ttl l = lk_ttl l'" and "lk_key l' = lk_key l" and "1 \<le> as_millis (lk_ttl l)" and "as_millis (lk_ttl l) \<le> u64_max"
    and "lock_acquire map_server c now Delivered l s = (Inr True, l1, s1)" and "now + as_millis (lk_ttl l) \<le> later"
  shows "fst (lock_acquire map_server c later Delivered l' s1) = Inr True"
  using assms
  by (auto simp: lock_acquire_def redis_millis_def exchange_def set_nx_command_def failed_reply_def map_server_def live_def
      split: option.splits if_splits)

text \<open>
  Acquiring a lock that this value already holds answers that it is not held and forgets that it is:
  the release that follows does nothing, and the key stays until its time to live is over.
\<close>

lemma reacquire_forgets:
  assumes "redis_server R" and "srv_get R now (redis_key c (lk_key l)) s = Some (lk_token l)"
    and "1 \<le> as_millis (lk_ttl l)" and "as_millis (lk_ttl l) \<le> u64_max"
    and "lock_acquire R c now Delivered l s = (r, l1, s1)"
  shows "r = Inr False \<and> lk_held l1 = False \<and> lock_release R c now f l1 s1 = (Inr False, l1, s1) \<and>
    srv_get R now (redis_key c (lk_key l)) s1 = Some (lk_token l)"
proof -
  obtain ok t where set: "srv_set_nx_px R now (redis_key c (lk_key l)) (lk_token l) (as_millis (lk_ttl l)) s = (ok, t)"
    by fastforce
  have "\<not> ok" "srv_get R now (redis_key c (lk_key l)) t = Some (lk_token l)"
    using redis_server.set_nx_present [OF assms(1,2) _ set] assms(2,3) by auto
  then show ?thesis using assms(3-5) set
    by (auto simp: lock_acquire_def redis_millis_def exchange_def set_nx_command_def failed_reply_def lock_release_def)
qed

text \<open>
  Extending by less than a millisecond sends an expiry of zero: the key is gone, and the extension is
  answered as done.
\<close>

lemma extend_submillisecond:
  assumes "redis_server R" and "lk_held l" and "srv_get R now (redis_key c (lk_key l)) s = Some (lk_token l)"
    and "0 < ttl" and "ttl < 1000000" and "lock_extend R c now Delivered ttl l s = (r, s')"
  shows "r = Inr True \<and> srv_get R now (redis_key c (lk_key l)) s' = None"
proof -
  have "as_millis ttl = 0" using assms(5) by (simp add: as_millis_def)
  moreover obtain n t where "srv_pexpire R now (redis_key c (lk_key l)) 0 s = (n, t)" by fastforce
  ultimately show ?thesis
    using redis_server.pexpire_present [OF assms(1,3), of 0 n t] assms(2-4,6)
    by (simp add: lock_extend_def redis_millis_def exchange_def extend_script_def)
qed

end
