(* ===== verification/Redis_Cache.thy ===== *)
theory Redis_Cache
  imports Redis_Lock Cache
begin

text \<open>
  \<open>core/src/stores_redis.rs\<close>, the caches over the store: \<open>RedisModelCache\<close>, which also caches that a
  model does not exist, and \<open>RedisJsonCache\<close>. The coalescing of concurrent misses is the single flight
  of its own theory; what is modelled here is the work one flight does. JSON is a parameter.
\<close>

section \<open>The store on a server\<close>

definition store_get :: "'s server_commands \<Rightarrow> redis_config \<Rightarrow> nat \<Rightarrow> fate \<Rightarrow> string \<Rightarrow> 's \<Rightarrow> (redis_error + string option) \<times> 's" where
  "store_get R c now f key s = exchange f (\<lambda>s. (srv_get R now (redis_key c key) s, s)) s"

definition psetex_command :: "'s server_commands \<Rightarrow> nat \<Rightarrow> string \<Rightarrow> string \<Rightarrow> nat \<Rightarrow> 's \<Rightarrow> (string + unit) \<times> 's" where
  "psetex_command R now k v px s =
     (if px = 0 then (Inl ''ERR invalid expire time in 'psetex' command'', s) else (Inr (), srv_psetex R now k v px s))"

definition store_set ::
  "'s server_commands \<Rightarrow> redis_config \<Rightarrow> nat \<Rightarrow> fate \<Rightarrow> string \<Rightarrow> string \<Rightarrow> duration \<Rightarrow> 's \<Rightarrow> (redis_error + unit) \<times> 's" where
  "store_set R c now f key v ttl s =
     (case f of
        Unconnected e \<Rightarrow> (Inl e, s)
      | _ \<Rightarrow>
         if ttl = 0 then (Inl InvalidTtl, s)
         else case redis_millis ttl of
           Inl e \<Rightarrow> (Inl e, s)
         | Inr px \<Rightarrow> (case exchange f (psetex_command R now (redis_key c key) v px) s of (r, s') \<Rightarrow> (failed_reply r, s')))"

definition store_delete :: "'s server_commands \<Rightarrow> redis_config \<Rightarrow> nat \<Rightarrow> fate \<Rightarrow> string \<Rightarrow> 's \<Rightarrow> (redis_error + int) \<times> 's" where
  "store_delete R c now f key s = exchange f (srv_del R now (redis_key c key)) s"

section \<open>The model cache\<close>

record model_cache_config =
  mcc_ttl :: duration
  mcc_not_found_ttl :: duration
  mcc_jitter :: duration
  mcc_cache_not_found :: bool

definition model_cache_config_new :: "duration \<Rightarrow> model_cache_config option" where
  "model_cache_config_new ttl =
     (if ttl = 0 then None
      else Some \<lparr>mcc_ttl = ttl, mcc_not_found_ttl = 5 * nanos_per_sec, mcc_jitter = 0, mcc_cache_not_found = True\<rparr>)"

definition with_not_found_ttl :: "duration \<Rightarrow> model_cache_config \<Rightarrow> model_cache_config option" where
  "with_not_found_ttl ttl g = (if ttl = 0 then None else Some (g\<lparr>mcc_not_found_ttl := ttl\<rparr>))"

definition with_expiry_jitter :: "duration \<Rightarrow> model_cache_config \<Rightarrow> model_cache_config" where
  "with_expiry_jitter jitter g = g\<lparr>mcc_jitter := jitter\<rparr>"

definition with_cache_not_found :: "bool \<Rightarrow> model_cache_config \<Rightarrow> model_cache_config" where
  "with_cache_not_found enabled g = g\<lparr>mcc_cache_not_found := enabled\<rparr>"

datatype 't model_entry = EntryValue 't | EntryNotFound

datatype 'e model_cache_error = McStore redis_error | McSerialization string | McFetch 'e

record model_cache =
  rmc_config :: model_cache_config
  rmc_stats :: cache_stats
  rmc_sequence :: "64 word"

definition model_cache_new :: "model_cache_config \<Rightarrow> model_cache" where
  "model_cache_new g = \<lparr>rmc_config = g, rmc_stats = \<lparr>cs_hits = 0, cs_misses = 0, cs_insertions = 0, cs_evictions = 0\<rparr>, rmc_sequence = 0\<rparr>"

definition entry_value :: "'t model_entry \<Rightarrow> 't option" where
  "entry_value e = (case e of EntryValue v \<Rightarrow> Some v | EntryNotFound \<Rightarrow> None)"

text \<open>\<open>set_entry\<close>: serialize, take the next jittered time to live, write, count.\<close>

definition set_entry ::
  "'s server_commands \<Rightarrow> redis_config \<Rightarrow> ('t model_entry \<Rightarrow> string + string) \<Rightarrow> nat \<Rightarrow> fate \<Rightarrow> string \<Rightarrow> 't model_entry \<Rightarrow>
   duration \<Rightarrow> model_cache \<times> 's \<Rightarrow> ('e model_cache_error + unit) \<times> (model_cache \<times> 's)" where
  "set_entry R c enc now f key entry base_ttl y =
     (case y of (m, s) \<Rightarrow>
       (case enc entry of
          Inl e \<Rightarrow> (Inl (McSerialization e), m, s)
        | Inr bytes \<Rightarrow>
            let ttl = jittered_ttl base_ttl (mcc_jitter (rmc_config m)) (rmc_sequence m);
                m1 = m\<lparr>rmc_sequence := rmc_sequence m + 1\<rparr> in
            case store_set R c now f key bytes ttl s of
              (Inl e, s') \<Rightarrow> (Inl (McStore e), m1, s')
            | (Inr _, s') \<Rightarrow> (Inr (), m1\<lparr>rmc_stats := (rmc_stats m1)\<lparr>cs_insertions := cs_insertions (rmc_stats m1) + 1\<rparr>\<rparr>, s')))"

text \<open>The first half of a flight: the answer of the cache, or \<open>None\<close> when the key is missing.\<close>

definition model_read ::
  "'s server_commands \<Rightarrow> redis_config \<Rightarrow> (string \<Rightarrow> string + 't model_entry) \<Rightarrow> nat \<Rightarrow> fate \<Rightarrow> string \<Rightarrow>
   model_cache \<times> 's \<Rightarrow> ('e model_cache_error + 't option) option \<times> (model_cache \<times> 's)" where
  "model_read R c dec now f key y =
     (case y of (m, s) \<Rightarrow>
       (case store_get R c now f key s of
          (Inl e, s') \<Rightarrow> (Some (Inl (McStore e)), m, s')
        | (Inr (Some bytes), s') \<Rightarrow>
            (case dec bytes of
               Inl e \<Rightarrow> (Some (Inl (McSerialization e)), m, s')
             | Inr entry \<Rightarrow>
                 (Some (Inr (entry_value entry)), m\<lparr>rmc_stats := (rmc_stats m)\<lparr>cs_hits := cs_hits (rmc_stats m) + 1\<rparr>\<rparr>, s'))
        | (Inr None, s') \<Rightarrow> (None, m\<lparr>rmc_stats := (rmc_stats m)\<lparr>cs_misses := cs_misses (rmc_stats m) + 1\<rparr>\<rparr>, s')))"

text \<open>The second half: what is done with the result of \<open>fetch\<close>.\<close>

definition model_fill ::
  "'s server_commands \<Rightarrow> redis_config \<Rightarrow> ('t model_entry \<Rightarrow> string + string) \<Rightarrow> nat \<Rightarrow> fate \<Rightarrow> string \<Rightarrow> 'e + 't option \<Rightarrow>
   model_cache \<times> 's \<Rightarrow> ('e model_cache_error + 't option) \<times> (model_cache \<times> 's)" where
  "model_fill R c enc now f key fetched y =
     (case fetched of
        Inl e \<Rightarrow> (Inl (McFetch e), y)
      | Inr v \<Rightarrow>
         (case (case v of
                  Some value \<Rightarrow> set_entry R c enc now f key (EntryValue value) (mcc_ttl (rmc_config (fst y))) y
                | None \<Rightarrow>
                    if mcc_cache_not_found (rmc_config (fst y))
                    then set_entry R c enc now f key EntryNotFound (mcc_not_found_ttl (rmc_config (fst y))) y
                    else (Inr (), y)) of
            (Inl e, y') \<Rightarrow> (Inl e, y')
          | (Inr _, y') \<Rightarrow> (Inr v, y')))"

text \<open>A flight: read at \<open>t\<close>, fetch while others change the server by \<open>between\<close>, fill at \<open>t'\<close>.\<close>

definition model_get_or_fetch ::
  "'s server_commands \<Rightarrow> redis_config \<Rightarrow> ('t model_entry \<Rightarrow> string + string) \<Rightarrow> (string \<Rightarrow> string + 't model_entry) \<Rightarrow>
   nat \<times> fate \<Rightarrow> nat \<times> fate \<Rightarrow> ('s \<Rightarrow> 's) \<Rightarrow> string \<Rightarrow> 'e + 't option \<Rightarrow> model_cache \<times> 's \<Rightarrow>
   ('e model_cache_error + 't option) \<times> (model_cache \<times> 's)" where
  "model_get_or_fetch R c enc dec t t' between key fetched y =
     (case model_read R c dec (fst t) (snd t) key y of
        (Some r, y') \<Rightarrow> (r, y')
      | (None, m, s) \<Rightarrow> model_fill R c enc (fst t') (snd t') key fetched (m, between s))"

text \<open>\<open>invalidate\<close> deletes key by key; the deletions before a failure stay, uncounted.\<close>

fun delete_each :: "'s server_commands \<Rightarrow> redis_config \<Rightarrow> nat \<Rightarrow> (string \<times> fate) list \<Rightarrow> 's \<Rightarrow> (redis_error + int) \<times> 's" where
  "delete_each R c now [] s = (Inr 0, s)"
| "delete_each R c now ((key, f) # ks) s =
     (case store_delete R c now f key s of
        (Inl e, s') \<Rightarrow> (Inl e, s')
      | (Inr n, s') \<Rightarrow>
          (case delete_each R c now ks s' of
             (Inl e, s'') \<Rightarrow> (Inl e, s'')
           | (Inr n', s'') \<Rightarrow> (Inr (n + n'), s'')))"

definition model_invalidate ::
  "'s server_commands \<Rightarrow> redis_config \<Rightarrow> nat \<Rightarrow> (string \<times> fate) list \<Rightarrow> model_cache \<times> 's \<Rightarrow> (redis_error + int) \<times> (model_cache \<times> 's)" where
  "model_invalidate R c now ks y =
     (case y of (m, s) \<Rightarrow>
       (case delete_each R c now ks s of
          (Inl e, s') \<Rightarrow> (Inl e, m, s')
        | (Inr removed, s') \<Rightarrow>
            (Inr removed, m\<lparr>rmc_stats := (rmc_stats m)\<lparr>cs_evictions := cs_evictions (rmc_stats m) + of_int removed\<rparr>\<rparr>, s')))"

section \<open>The JSON cache\<close>

datatype 'e json_cache_error = JcStore redis_error | JcFetch 'e

definition json_cache_new :: "duration \<Rightarrow> duration option" where
  "json_cache_new ttl = (if ttl = 0 then None else Some ttl)"

definition json_get_or_fetch ::
  "'s server_commands \<Rightarrow> redis_config \<Rightarrow> ('t \<Rightarrow> string + string) \<Rightarrow> (string \<Rightarrow> string + 't) \<Rightarrow> duration \<Rightarrow>
   nat \<times> fate \<Rightarrow> nat \<times> fate \<Rightarrow> ('s \<Rightarrow> 's) \<Rightarrow> string \<Rightarrow> 'e + 't \<Rightarrow> 's \<Rightarrow> ('e json_cache_error + 't) \<times> 's" where
  "json_get_or_fetch R c enc dec ttl t t' between key fetched s =
     (case store_get R c (fst t) (snd t) key s of
        (got, s1) \<Rightarrow>
          (case redis_get_json dec got of
             Inl e \<Rightarrow> (Inl (JcStore e), s1)
           | Inr (Some v) \<Rightarrow> (Inr v, s1)
           | Inr None \<Rightarrow>
               (case fetched of
                  Inl e \<Rightarrow> (Inl (JcFetch e), between s1)
                | Inr v \<Rightarrow>
                    (case enc v of
                       Inl e \<Rightarrow> (Inl (JcStore (JsonFailure e)), between s1)
                     | Inr bytes \<Rightarrow>
                         (case store_set R c (fst t') (snd t') key bytes ttl (between s1) of
                            (Inl e, s2) \<Rightarrow> (Inl (JcStore e), s2)
                          | (Inr _, s2) \<Rightarrow> (Inr v, s2))))))"

definition json_invalidate :: "'s server_commands \<Rightarrow> redis_config \<Rightarrow> nat \<Rightarrow> fate \<Rightarrow> string \<Rightarrow> 's \<Rightarrow> (redis_error + bool) \<times> 's" where
  "json_invalidate R c now f key s =
     (case store_delete R c now f key s of
        (Inl e, s') \<Rightarrow> (Inl e, s')
      | (Inr n, s') \<Rightarrow> (Inr (0 < n), s'))"

section \<open>What is cached is returned\<close>

definition codec :: "('t \<Rightarrow> string + string) \<Rightarrow> (string \<Rightarrow> string + 't) \<Rightarrow> bool" where
  "codec enc dec \<longleftrightarrow> (\<forall>e bytes. enc e = Inr bytes \<longrightarrow> dec bytes = Inr e)"

text \<open>The entry a fetched result is cached as, and how long.\<close>

definition cached_as :: "model_cache_config \<Rightarrow> 't option \<Rightarrow> ('t model_entry \<times> duration) option" where
  "cached_as g v =
     (case v of
        Some value \<Rightarrow> Some (EntryValue value, mcc_ttl g)
      | None \<Rightarrow> if mcc_cache_not_found g then Some (EntryNotFound, mcc_not_found_ttl g) else None)"

lemma cached_as_value: "cached_as g v = Some (entry, ttl) \<Longrightarrow> entry_value entry = v"
  by (auto simp: cached_as_def entry_value_def split: option.splits if_splits)

lemma model_fill_cached:
  assumes "cached_as (rmc_config m) v = Some (entry, base)"
  shows "model_fill R c enc now f key (Inr v) (m, s) =
    (case set_entry R c enc now f key entry base (m, s) of (Inl e, y) \<Rightarrow> (Inl e, y) | (Inr _, y) \<Rightarrow> (Inr v, y))"
  using assms by (auto simp: model_fill_def cached_as_def split: option.splits if_splits)

context redis_server
begin

lemma store_set_delivered:
  assumes "1 \<le> as_millis ttl" and "as_millis ttl \<le> u64_max"
  shows "store_set R c now Delivered key v ttl s = (Inr (), srv_psetex R now (redis_key c key) v (as_millis ttl) s)"
  using assms by (auto simp: store_set_def redis_millis_def exchange_def psetex_command_def failed_reply_def as_millis_def)

lemma model_read_delivered:
  "model_read R c dec now Delivered key (m, s) =
     (case srv_get R now (redis_key c key) s of
        None \<Rightarrow> (None, m\<lparr>rmc_stats := (rmc_stats m)\<lparr>cs_misses := cs_misses (rmc_stats m) + 1\<rparr>\<rparr>, s)
      | Some bytes \<Rightarrow>
          (case dec bytes of
             Inl e \<Rightarrow> (Some (Inl (McSerialization e)), m, s)
           | Inr entry \<Rightarrow> (Some (Inr (entry_value entry)), m\<lparr>rmc_stats := (rmc_stats m)\<lparr>cs_hits := cs_hits (rmc_stats m) + 1\<rparr>\<rparr>, s)))"
  by (auto simp: model_read_def store_get_def exchange_def split: option.splits sum.splits)

text \<open>A miss whose result is cached, and what a read at a later time then finds.\<close>

lemma model_miss_fills:
  assumes "srv_get R now (redis_key c key) s = None" and "cached_as (rmc_config m) v = Some (entry, base)"
    and "enc entry = Inr bytes" and "1 \<le> as_millis base" and "base \<le> duration_max" and "mcc_jitter (rmc_config m) \<le> duration_max"
    and "as_millis (jittered_ttl base (mcc_jitter (rmc_config m)) (rmc_sequence m)) \<le> u64_max"
    and run: "model_get_or_fetch R c enc dec (now, Delivered) (now', Delivered) between key (Inr v) (m, s) = (r, m', s')"
  shows "r = Inr v \<and> (\<forall>t \<ge> now'. srv_get R t (redis_key c key) s' =
    (if t < now' + as_millis (jittered_ttl base (mcc_jitter (rmc_config m)) (rmc_sequence m)) then Some bytes else None))"
proof -
  let ?ttl = "jittered_ttl base (mcc_jitter (rmc_config m)) (rmc_sequence m)"
  have "base \<le> ?ttl" using jittered_ttl_bounds [OF assms(5,6)] by blast
  then have one: "1 \<le> as_millis ?ttl" using assms(4) unfolding as_millis_def by (meson div_le_mono order_trans)
  have g: "rmc_config (m\<lparr>rmc_stats := st\<rparr>) = rmc_config m" for st by simp
  have "r = Inr v \<and> s' = srv_psetex R now' (redis_key c key) bytes (as_millis ?ttl) (between s)"
    using run assms(1) store_set_delivered [OF one assms(7)] assms(3)
    by (simp add: model_get_or_fetch_def model_read_delivered model_fill_cached assms(2) set_entry_def Let_def)
  then show ?thesis using psetex [of "as_millis ?ttl" now' "redis_key c key" "between s" bytes] one by simp
qed

end

lemma model_cache_reads_through_aux:
  assumes "redis_server R" and "codec enc dec"
    and "srv_get R now (redis_key c key) s = None" and "cached_as (rmc_config m) v = Some (entry, base)"
    and "enc entry = Inr bytes" and "1 \<le> as_millis base" and "base + mcc_jitter (rmc_config m) \<le> duration_max"
    and "as_millis (base + mcc_jitter (rmc_config m)) \<le> u64_max"
    and "model_get_or_fetch R c enc dec (now, Delivered) (now', Delivered) between key (Inr v :: 'e + 't option) (m, s) = (r, m', s')"
  shows "r = Inr v \<and>
    (\<forall>t f (fetched :: 'e + 't option). now' \<le> t \<longrightarrow> t < now' + as_millis base \<longrightarrow>
       model_get_or_fetch R c enc dec (t, Delivered) f id key fetched (m', s') =
         (Inr v, m'\<lparr>rmc_stats := (rmc_stats m')\<lparr>cs_hits := cs_hits (rmc_stats m') + 1\<rparr>\<rparr>, s')) \<and>
    (\<forall>t. now' + as_millis (base + mcc_jitter (rmc_config m)) \<le> t \<longrightarrow>
       fst (model_read R c dec t Delivered key (m', s')) = None)"
proof -
  let ?ttl = "jittered_ttl base (mcc_jitter (rmc_config m)) (rmc_sequence m)"
  have b: "base \<le> ?ttl \<and> ?ttl \<le> base + mcc_jitter (rmc_config m)"
    using jittered_ttl_bounds [of base "mcc_jitter (rmc_config m)"] assms(7) by simp
  then have ms: "as_millis base \<le> as_millis ?ttl" "as_millis ?ttl \<le> as_millis (base + mcc_jitter (rmc_config m))"
    by (simp_all add: as_millis_def div_le_mono)
  have fill: "r = Inr v \<and> (\<forall>t \<ge> now'. srv_get R t (redis_key c key) s' = (if t < now' + as_millis ?ttl then Some bytes else None))"
    using redis_server.model_miss_fills [OF assms(1,3-6) _ _ _ assms(9)] assms(7,8) ms(2) by simp
  have "dec bytes = Inr entry" "entry_value entry = v"
    using assms(2,4,5) cached_as_value by (auto simp: codec_def)
  then show ?thesis
    using fill ms by (auto simp: model_get_or_fetch_def redis_server.model_read_delivered [OF assms(1)])
qed


definition tagged :: "string model_entry \<Rightarrow> string + string" where
  "tagged e = Inr (case e of EntryValue v \<Rightarrow> CHR ''v'' # v | EntryNotFound \<Rightarrow> ''n'')"

definition untagged :: "string \<Rightarrow> string + string model_entry" where
  "untagged s = (case s of [] \<Rightarrow> Inl ''empty'' | x # xs \<Rightarrow> Inr (if x = CHR ''v'' then EntryValue xs else EntryNotFound))"

definition sample_cache :: model_cache where
  "sample_cache = model_cache_new (the (model_cache_config_new nanos_per_sec))"


text \<open>A fetch that fails leaves the server as it was; so does one whose absent result is not cached.\<close>

lemma failed_fetch_not_cached:
  "model_fill R c enc now f key (Inl e) y = (Inl (McFetch e), y)"
  "cached_as (rmc_config (fst y)) v = None \<Longrightarrow> model_fill R c enc now f key (Inr v) y = (Inr v, y)"
  by (auto simp: model_fill_def cached_as_def split: option.splits if_splits)

text \<open>An entry that does not decode is an error at every call until it expires: nothing is fetched.\<close>

lemma undecodable_entry_stays:
  assumes "redis_server R" and "srv_get R now (redis_key c key) s = Some bytes" and "dec bytes = Inl e"
  shows "model_get_or_fetch R c enc dec (now, Delivered) f between key fetched (m, s) = (Inl (McSerialization e), m, s)"
  using assms by (simp add: model_get_or_fetch_def redis_server.model_read_delivered)

text \<open>
  Invalidation and a fetch in flight. A flight that fetched the old model before a mutation writes
  it back after the mutation's invalidation: from then on every reader gets the old model.
\<close>

lemma invalidation_overtaken:
  assumes "srv_get map_server now (redis_key c key) s = None" and "cached_as (rmc_config m) (Some old) = Some (entry, base)"
    and "enc entry = Inr bytes" and "1 \<le> as_millis base" and "base + mcc_jitter (rmc_config m) \<le> duration_max"
    and "as_millis (base + mcc_jitter (rmc_config m)) \<le> u64_max" and "codec enc dec"
    and "model_get_or_fetch map_server c enc dec (now, Delivered) (now', Delivered)
      (\<lambda>s. snd (store_delete map_server c now' Delivered key s)) key (Inr (Some old) :: 'e + 't option) (m, s) = (r, m', s')"
  shows "fst (model_get_or_fetch map_server c enc dec (now', Delivered) g id key (Inr (Some new) :: 'e + 't option) (m', s')) = Inr (Some old)"
  using model_cache_reads_through_aux [OF expiring.redis_server_axioms assms(7,1-6,8)] assms(4) by (cases g) auto

section \<open>Invalidation\<close>

context redis_server
begin

lemma delete_delivered:
  assumes "store_delete R c now Delivered key s = (r, s')" and "now \<le> t"
  shows "(\<exists>n. r = Inr n) \<and> srv_get R t (redis_key c key) s' \<in> {None, srv_get R t (redis_key c key) s} \<and>
    srv_get R now (redis_key c key) s' = None \<and>
    (srv_get R now k s = None \<longrightarrow> srv_get R now k s' = None)"
proof -
  obtain n s1 where d: "srv_del R now (redis_key c key) s = (n, s1)" by fastforce
  then show ?thesis
    using assms del_present [of now "redis_key c key" s _ n s1] del_absent [of now "redis_key c key" s n s1]
    by (cases "srv_get R now (redis_key c key) s"; cases "k = redis_key c key")
      (auto simp: store_delete_def exchange_def same_from_def)
qed

lemma delete_each_gone:
  assumes "delete_each R c now (map (\<lambda>k. (k, Delivered)) keys) s = (r, s')"
  shows "(\<exists>n. r = Inr n) \<and> (\<forall>k \<in> set keys. srv_get R now (redis_key c k) s' = None) \<and>
    (\<forall>k. srv_get R now k s = None \<longrightarrow> srv_get R now k s' = None)"
  using assms
proof (induction keys arbitrary: s r s')
  case (Cons key keys)
  obtain n s1 where d: "store_delete R c now Delivered key s = (Inr n, s1)"
    by (metis delete_delivered order_refl surj_pair)
  obtain r2 s2 where e: "delete_each R c now (map (\<lambda>k. (k, Delivered)) keys) s1 = (r2, s2)" by fastforce
  show ?case
    using Cons.prems Cons.IH [OF e] delete_delivered [OF d order_refl] d e by (auto split: sum.splits)
qed simp

end

text \<open>After an invalidation that is answered, every key it names is missing.\<close>

lemma model_invalidated_missing:
  assumes "redis_server R" and "model_invalidate R c now (map (\<lambda>k. (k, Delivered)) keys) (m, s) = (r, m', s')" and "key \<in> set keys"
  shows "(\<exists>n. r = Inr n) \<and> fst (model_read R c dec now Delivered key (m', s')) = None"
proof -
  obtain r2 s2 where e: "delete_each R c now (map (\<lambda>k. (k, Delivered)) keys) s = (r2, s2)" by fastforce
  then show ?thesis
    using redis_server.delete_each_gone [OF assms(1) e] assms(2,3)
    by (auto simp: model_invalidate_def redis_server.model_read_delivered [OF assms(1)])
qed

end
