(* ===== verification/Redis_Subscription.thy ===== *)
theory Redis_Subscription
  imports Redis_Store
begin

text \<open>
  \<open>core/src/stores_redis.rs\<close>, the subscriptions: connecting to one of the endpoints, and the worker
  that forwards messages to a bounded queue, counts those it has to drop, and reconnects with
  exponential backoff. The client library delivers messages and connections; its results are inputs.
\<close>

section \<open>Configuration and messages\<close>

record subscription_config =
  sc_capacity :: nat
  sc_reconnect_delay :: duration
  sc_max_reconnect_delay :: duration

definition subscription_config_default :: subscription_config where
  "subscription_config_default =
     \<lparr>sc_capacity = 256, sc_reconnect_delay = duration_from_millis 100, sc_max_reconnect_delay = 5 * nanos_per_sec\<rparr>"

definition with_capacity :: "nat \<Rightarrow> subscription_config \<Rightarrow> subscription_config" where
  "with_capacity capacity g = g\<lparr>sc_capacity := capacity\<rparr>"

definition with_reconnect_delay :: "duration \<Rightarrow> subscription_config \<Rightarrow> subscription_config" where
  "with_reconnect_delay delay g = g\<lparr>sc_reconnect_delay := delay\<rparr>"

definition with_max_reconnect_delay :: "duration \<Rightarrow> subscription_config \<Rightarrow> subscription_config" where
  "with_max_reconnect_delay delay g = g\<lparr>sc_max_reconnect_delay := delay\<rparr>"

definition subscription_config_validate :: "subscription_config \<Rightarrow> redis_error + subscription_config" where
  "subscription_config_validate g =
     (if sc_capacity g < 2 then Inl (InvalidArgument ''Redis subscription capacity must be at least two'')
      else if sc_reconnect_delay g = 0 \<or> sc_max_reconnect_delay g < sc_reconnect_delay g
      then Inl (InvalidArgument ''Redis subscription reconnect delays must be positive and ordered'')
      else Inr g)"

record sub_message =
  sm_channel :: string
  sm_pattern :: "string option"
  sm_payload :: string

datatype sub_event =
    SubMessage sub_message
  | SubLagged nat
  | SubDisconnected string duration
  | SubReconnected
  | SubClosed

datatype sub_mode = SubChannels | SubPatterns

text \<open>A message of the library: channel, the pattern it matched (if it has one that decodes), bytes.\<close>

definition subscription_message :: "redis_config \<Rightarrow> string \<times> (string + string option) \<times> string \<Rightarrow> sub_message" where
  "subscription_message c msg =
     (case msg of (channel, pattern, payload) \<Rightarrow>
        \<lparr>sm_channel = strip_key c channel,
         sm_pattern = map_option (strip_key c) (case pattern of Inl _ \<Rightarrow> None | Inr p \<Rightarrow> p),
         sm_payload = payload\<rparr>)"

section \<open>Connecting\<close>

datatype attempt = AttemptTimeout | AttemptError string | AttemptOk

text \<open>\<open>connect_subscription\<close>: every endpoint once, in turn from the start index.\<close>

fun try_endpoints :: "(nat \<Rightarrow> attempt) \<Rightarrow> nat list \<Rightarrow> redis_error option \<Rightarrow> redis_error + nat" where
  "try_endpoints result [] last_error = Inl (case last_error of Some e \<Rightarrow> e | None \<Rightarrow> MissingEndpoint)"
| "try_endpoints result (index # rest) last_error =
     (case result index of
        AttemptOk \<Rightarrow> Inr index
      | AttemptError e \<Rightarrow> try_endpoints result rest (Some (RedisFailure e))
      | AttemptTimeout \<Rightarrow> try_endpoints result rest (Some RedisTimeout))"

definition connect_subscription :: "(nat \<Rightarrow> attempt) \<Rightarrow> nat \<Rightarrow> nat \<Rightarrow> redis_error + nat" where
  "connect_subscription result urls start =
     (if urls = 0 then Inl MissingEndpoint
      else try_endpoints result (map (\<lambda>offset. (start + offset) mod urls) [0..<urls]) None)"

definition start_subscription ::
  "redis_config \<Rightarrow> (nat \<Rightarrow> attempt) \<Rightarrow> string list \<Rightarrow> subscription_config \<Rightarrow> redis_error + (string list \<times> nat \<times> subscription_config)" where
  "start_subscription c result topics config =
     and_then (subscription_config_validate config) (\<lambda>g.
       if topics = [] \<or> [] \<in> set topics
       then Inl (InvalidArgument ''Redis subscriptions require at least one non-empty channel or pattern'')
       else and_then (connect_subscription result (length (rd_urls c)) 0) (\<lambda>endpoint.
         Inr (map (redis_key c) topics, endpoint, g)))"

section \<open>The worker\<close>

text \<open>Where the worker waits; every place but the last two also waits for the shutdown.\<close>

datatype sub_phase =
    Receiving
  | ReportingLag string
  | Announcing string duration
  | Sleeping string duration
  | Connecting duration
  | AnnouncingReconnect
  | Closing
  | Stopped

text \<open>\<open>sb_taken\<close> and \<open>sb_received\<close> record what the consumer took and what the server sent.\<close>

record subscription =
  sb_config :: subscription_config
  sb_phase :: sub_phase
  sb_queue :: "sub_event list"
  sb_dropped :: nat
  sb_endpoint :: nat
  sb_taken :: "sub_event list"
  sb_received :: "sub_message list"

definition subscription_new :: "subscription_config \<Rightarrow> nat \<Rightarrow> subscription" where
  "subscription_new g endpoint =
     \<lparr>sb_config = g, sb_phase = Receiving, sb_queue = [], sb_dropped = 0, sb_endpoint = endpoint, sb_taken = [], sb_received = []\<rparr>"

definition has_room :: "subscription \<Rightarrow> bool" where
  "has_room b \<longleftrightarrow> length (sb_queue b) < sc_capacity (sb_config b)"

definition push_event :: "sub_event \<Rightarrow> subscription \<Rightarrow> subscription" where
  "push_event e b = b\<lparr>sb_queue := sb_queue b @ [e]\<rparr>"

definition count_drop :: "subscription \<Rightarrow> subscription" where
  "count_drop b = b\<lparr>sb_dropped := sat_add u64_max (sb_dropped b) 1\<rparr>"

definition enqueue_subscription_message :: "sub_message \<Rightarrow> subscription \<Rightarrow> subscription" where
  "enqueue_subscription_message m b =
     (if 0 < sb_dropped b \<and> \<not> has_room b then count_drop b
      else let b1 = (if 0 < sb_dropped b then (push_event (SubLagged (sb_dropped b)) b)\<lparr>sb_dropped := 0\<rparr> else b) in
        if has_room b1 then push_event (SubMessage m) b1 else count_drop b1)"

definition closed_text :: string where
  "closed_text = ''Redis Pub/Sub connection closed''"

datatype sub_action =
    Arrive sub_message
  | StreamEnd
  | SendReady
  | Slept
  | Reconnect "nat \<Rightarrow> attempt"
  | TakeEvent
  | RequestShutdown
  | DropReceiver

text \<open>
  One step of the worker (or of its consumer). An awaited send completes when the queue has room; an
  action that the worker is not waiting for does nothing. \<open>urls\<close> is the number of endpoints and
  \<open>show_error\<close> the text of an error.
\<close>

definition sub_step :: "(redis_error \<Rightarrow> string) \<Rightarrow> nat \<Rightarrow> sub_action \<Rightarrow> subscription \<Rightarrow> subscription" where
  "sub_step show_error urls a b =
     (case (a, sb_phase b) of
        (Arrive m, Receiving) \<Rightarrow> (enqueue_subscription_message m b)\<lparr>sb_received := sb_received b @ [m]\<rparr>
      | (StreamEnd, Receiving) \<Rightarrow>
          b\<lparr>sb_phase := (if 0 < sb_dropped b then ReportingLag closed_text
                          else Announcing closed_text (sc_reconnect_delay (sb_config b)))\<rparr>
      | (SendReady, ReportingLag error) \<Rightarrow>
          if has_room b
          then (push_event (SubLagged (sb_dropped b)) b)\<lparr>sb_dropped := 0,
                 sb_phase := Announcing error (sc_reconnect_delay (sb_config b))\<rparr>
          else b
      | (SendReady, Announcing error delay) \<Rightarrow>
          if has_room b then (push_event (SubDisconnected error delay) b)\<lparr>sb_phase := Sleeping error delay\<rparr> else b
      | (Slept, Sleeping error delay) \<Rightarrow> b\<lparr>sb_phase := Connecting delay\<rparr>
      | (Reconnect result, Connecting delay) \<Rightarrow>
          (case connect_subscription result urls ((sb_endpoint b + 1) mod urls) of
             Inr index \<Rightarrow> b\<lparr>sb_endpoint := index, sb_phase := AnnouncingReconnect\<rparr>
           | Inl e \<Rightarrow>
               b\<lparr>sb_phase := Announcing (show_error e)
                  (min (sat_mul duration_max delay 2) (sc_max_reconnect_delay (sb_config b)))\<rparr>)
      | (SendReady, AnnouncingReconnect) \<Rightarrow>
          if has_room b then (push_event SubReconnected b)\<lparr>sb_phase := Receiving\<rparr> else b
      | (SendReady, Closing) \<Rightarrow>
          if has_room b then (push_event SubClosed b)\<lparr>sb_phase := Stopped\<rparr> else b
      | (TakeEvent, _) \<Rightarrow>
          (case sb_queue b of [] \<Rightarrow> b | e # es \<Rightarrow> b\<lparr>sb_queue := es, sb_taken := sb_taken b @ [e]\<rparr>)
      | (RequestShutdown, phase) \<Rightarrow> if phase = Stopped then b else b\<lparr>sb_phase := Closing\<rparr>
      | (DropReceiver, _) \<Rightarrow> b\<lparr>sb_phase := Stopped\<rparr>
      | _ \<Rightarrow> b)"

definition sub_run :: "(redis_error \<Rightarrow> string) \<Rightarrow> nat \<Rightarrow> sub_action list \<Rightarrow> subscription \<Rightarrow> subscription" where
  "sub_run show_error urls as b = fold (sub_step show_error urls) as b"

text \<open>\<open>close\<close>: take events until \<open>Closed\<close> or the end of the queue.\<close>

fun close_subscription :: "sub_event list \<Rightarrow> sub_event list" where
  "close_subscription [] = []"
| "close_subscription (e # es) = (if e = SubClosed then es else close_subscription es)"

definition sub_events :: "subscription \<Rightarrow> sub_event list" where
  "sub_events b = sb_taken b @ sb_queue b"

text \<open>What a consumer can reconstruct: each message, or a gap where it was dropped.\<close>

fun expand :: "sub_event \<Rightarrow> sub_message option list" where
  "expand (SubMessage m) = [Some m]"
| "expand (SubLagged n) = replicate n None"
| "expand _ = []"

definition accounts :: "subscription \<Rightarrow> bool" where
  "accounts b \<longleftrightarrow>
     list_all2 (\<lambda>x m. x = None \<or> x = Some m)
       (concat (map expand (sub_events b)) @ replicate (sb_dropped b) None) (sb_received b)"

text \<open>Delays between the configured bounds, in the events and in what the worker is about to announce.\<close>

definition delay_ok :: "subscription_config \<Rightarrow> duration \<Rightarrow> bool" where
  "delay_ok g d \<longleftrightarrow> sc_reconnect_delay g \<le> d \<and> d \<le> sc_max_reconnect_delay g"

fun phase_ok :: "subscription_config \<Rightarrow> sub_phase \<Rightarrow> bool" where
  "phase_ok g (Announcing _ d) = delay_ok g d"
| "phase_ok g (Sleeping _ d) = delay_ok g d"
| "phase_ok g (Connecting d) = delay_ok g d"
| "phase_ok g _ = True"

fun event_ok :: "subscription_config \<Rightarrow> sub_event \<Rightarrow> bool" where
  "event_ok g (SubDisconnected _ d) = delay_ok g d"
| "event_ok g _ = True"

definition closed_last :: "subscription \<Rightarrow> bool" where
  "closed_last b \<longleftrightarrow> SubClosed \<notin> set (butlast (sub_events b)) \<and> (SubClosed \<in> set (sub_events b) \<longrightarrow> sb_phase b = Stopped)"

definition sub_ok :: "subscription \<Rightarrow> bool" where
  "sub_ok b \<longleftrightarrow> accounts b \<and> closed_last b \<and> length (sb_queue b) \<le> sc_capacity (sb_config b) \<and>
     phase_ok (sb_config b) (sb_phase b) \<and> list_all (event_ok (sb_config b)) (sub_events b)"

lemma sub_events_push [simp]: "sub_events (push_event e b) = sub_events b @ [e]"
  by (simp add: sub_events_def push_event_def)

lemma sub_events_update [simp]:
  "sub_events (b\<lparr>sb_phase := ph\<rparr>) = sub_events b" "sub_events (b\<lparr>sb_dropped := n\<rparr>) = sub_events b"
  "sub_events (b\<lparr>sb_received := ms\<rparr>) = sub_events b" "sub_events (b\<lparr>sb_endpoint := i\<rparr>) = sub_events b"
  by (simp_all add: sub_events_def)

lemma push_event_simps [simp]:
  "sb_phase (push_event e b) = sb_phase b" "sb_dropped (push_event e b) = sb_dropped b" "sb_config (push_event e b) = sb_config b"
  "sb_received (push_event e b) = sb_received b" "sb_queue (push_event e b) = sb_queue b @ [e]" "sb_endpoint (push_event e b) = sb_endpoint b"
  by (simp_all add: push_event_def)

lemma accounts_append:
  "accounts b \<Longrightarrow> x = None \<or> x = Some m \<Longrightarrow>
   list_all2 (\<lambda>x m. x = None \<or> x = Some m) (concat (map expand (sub_events b)) @ replicate (sb_dropped b) None @ [x]) (sb_received b @ [m])"
  unfolding accounts_def append_assoc [symmetric] by (rule list_all2_appendI) simp_all

lemma dropped_le_received: "accounts b \<Longrightarrow> sb_dropped b \<le> length (sb_received b)"
  unfolding accounts_def by (drule list_all2_lengthD) simp

lemma enqueue_accounts:
  assumes "accounts b" and "length (sb_received b) < u64_max"
  shows "accounts ((enqueue_subscription_message m b)\<lparr>sb_received := sb_received b @ [m]\<rparr>)"
proof -
  have d: "sat_add u64_max (sb_dropped b) (Suc 0) = Suc (sb_dropped b)" "sat_add u64_max 0 (Suc 0) = Suc 0"
    using dropped_le_received [OF assms(1)] assms(2) by (auto simp: sat_add_def u64_max_def)
  have r: "replicate (Suc n) None = replicate n None @ [None]" for n by (simp add: replicate_append_same)
  show ?thesis
    using accounts_append [OF assms(1), of None m] accounts_append [OF assms(1), of "Some m" m]
    by (auto simp: enqueue_subscription_message_def count_drop_def accounts_def d r Let_def simp del: replicate_Suc)
qed

lemma enqueue_fields [simp]:
  "sb_phase (enqueue_subscription_message m b) = sb_phase b" "sb_config (enqueue_subscription_message m b) = sb_config b"
  by (simp_all add: enqueue_subscription_message_def count_drop_def Let_def)

lemma enqueue_events:
  obtains es where "sub_events (enqueue_subscription_message m b) = sub_events b @ es"
    "SubClosed \<notin> set es" "list_all (event_ok g) es"
  by (rule that [of "drop (length (sub_events b)) (sub_events (enqueue_subscription_message m b))"])
    (auto simp: enqueue_subscription_message_def count_drop_def Let_def)

lemma enqueue_bounded:
  "length (sb_queue b) \<le> sc_capacity (sb_config b) \<Longrightarrow>
   length (sb_queue (enqueue_subscription_message m b)) \<le> sc_capacity (sb_config b)"
  by (auto simp: enqueue_subscription_message_def count_drop_def has_room_def Let_def)

lemma accounts_keep:
  "sub_events b' = sub_events b \<Longrightarrow> sb_dropped b' = sb_dropped b \<Longrightarrow> sb_received b' = sb_received b \<Longrightarrow> accounts b' = accounts b"
  by (simp add: accounts_def)

lemma sub_ok_phase:
  "sub_ok b \<Longrightarrow> phase_ok (sb_config b) ph \<Longrightarrow> sb_phase b = Stopped \<longrightarrow> ph = Stopped \<Longrightarrow> sub_ok (b\<lparr>sb_phase := ph\<rparr>)"
  by (auto simp: sub_ok_def closed_last_def accounts_def)

lemma closed_last_append:
  "closed_last b \<Longrightarrow> sb_phase b \<noteq> Stopped \<Longrightarrow> SubClosed \<notin> set (sub_events b)"
  by (auto simp: closed_last_def)

lemma sub_ok_push:
  assumes "sub_ok b" and "has_room b" and "sb_phase b \<noteq> Stopped" and "event_ok (sb_config b) e" and "phase_ok (sb_config b) ph"
    and "e = SubClosed \<longrightarrow> ph = Stopped"
    and "expand e = [] \<and> n = sb_dropped b \<or> expand e = replicate (sb_dropped b) None \<and> n = 0"
  shows "sub_ok ((push_event e b)\<lparr>sb_dropped := n, sb_phase := ph\<rparr>)"
  using assms closed_last_append [of b]
  by (auto simp: sub_ok_def closed_last_def accounts_def has_room_def)

lemma sub_ok_send:
  assumes "sub_ok b" and "has_room b" and "sb_phase b \<noteq> Stopped" and "event_ok (sb_config b) e" and "phase_ok (sb_config b) ph"
    and "e = SubClosed \<longrightarrow> ph = Stopped" and "expand e = []"
  shows "sub_ok ((push_event e b)\<lparr>sb_phase := ph\<rparr>)"
  using sub_ok_push [OF assms(1-6), of "sb_dropped b"] assms(7) by (simp add: sub_ok_def closed_last_def accounts_def)

lemma next_delay_ok:
  assumes "delay_ok g d" and "sc_max_reconnect_delay g \<le> duration_max"
  shows "delay_ok g (min (sat_mul duration_max d 2) (sc_max_reconnect_delay g))"
  using assms by (auto simp: delay_ok_def sat_mul_def)

lemma sub_step_config [simp]: "sb_config (sub_step show_error urls a b) = sb_config b"
  by (auto simp: sub_step_def split: sub_action.splits sub_phase.splits sum.splits list.splits)

lemma sub_step_received:
  "sb_received (sub_step show_error urls a b) = sb_received b @ (case (a, sb_phase b) of (Arrive m, Receiving) \<Rightarrow> [m] | _ \<Rightarrow> [])"
  by (auto simp: sub_step_def split: sub_action.splits sub_phase.splits sum.splits list.splits)

lemma sub_ok_take: "sub_ok b \<Longrightarrow> sub_ok (sub_step show_error urls TakeEvent b)"
  by (auto simp: sub_step_def sub_ok_def closed_last_def accounts_def sub_events_def split: list.splits)

lemma sub_ok_arrive:
  assumes "sub_ok b" and "sb_phase b = Receiving" and "length (sb_received b) < u64_max"
  shows "sub_ok (sub_step show_error urls (Arrive m) b)"
proof -
  obtain es where es: "sub_events (enqueue_subscription_message m b) = sub_events b @ es"
    "SubClosed \<notin> set es" "list_all (event_ok (sb_config b)) es" by (rule enqueue_events)
  have "SubClosed \<notin> set (sub_events b)" using assms(1,2) closed_last_append by (simp add: sub_ok_def)
  then show ?thesis
    using assms es enqueue_accounts [of b m] enqueue_bounded [of b m]
    by (auto simp: sub_step_def sub_ok_def closed_last_def dest: in_set_butlastD)
qed

lemma sub_ok_step:
  assumes "sub_ok b" and "\<And>m. a = Arrive m \<Longrightarrow> sb_phase b = Receiving \<Longrightarrow> length (sb_received b) < u64_max"
    and "sc_reconnect_delay (sb_config b) \<le> sc_max_reconnect_delay (sb_config b)" and "sc_max_reconnect_delay (sb_config b) \<le> duration_max"
  shows "sub_ok (sub_step show_error urls a b)"
proof -
  have first: "delay_ok (sb_config b) (sc_reconnect_delay (sb_config b))" using assms(3) by (simp add: delay_ok_def)
  have phase: "phase_ok (sb_config b) (sb_phase b)" using assms(1) by (simp add: sub_ok_def)
  show ?thesis
  proof (cases a)
    case (Arrive m)
    then show ?thesis using assms(1,2) sub_ok_arrive by (cases "sb_phase b") (simp_all add: sub_step_def)
  next
    case StreamEnd
    then show ?thesis using assms(1) first sub_ok_phase [OF assms(1)] by (cases "sb_phase b") (simp_all add: sub_step_def)
  next
    case SendReady
    then show ?thesis
      using assms(1) first phase sub_ok_push [OF assms(1), of "SubLagged (sb_dropped b)" _ 0] sub_ok_send [OF assms(1)]
      by (cases "sb_phase b") (simp_all add: sub_step_def)
  next
    case (Reconnect result)
    have "sub_ok (b\<lparr>sb_endpoint := i\<rparr>)" for i using assms(1) by (simp add: sub_ok_def closed_last_def accounts_def)
    then show ?thesis
      using assms(1) phase next_delay_ok [OF _ assms(4)] sub_ok_phase [OF assms(1)] sub_ok_phase [of "b\<lparr>sb_endpoint := i\<rparr>" for i] Reconnect
      by (cases "sb_phase b") (auto simp: sub_step_def split: sum.splits)
  next
    case Slept
    then show ?thesis using assms(1) phase sub_ok_phase [OF assms(1)] by (cases "sb_phase b") (simp_all add: sub_step_def)
  next
    case TakeEvent
    then show ?thesis using assms(1) sub_ok_take by simp
  next
    case RequestShutdown
    then show ?thesis using assms(1) sub_ok_phase [OF assms(1)] by (simp add: sub_step_def)
  next
    case DropReceiver
    then show ?thesis using assms(1) sub_ok_phase [OF assms(1)] by (simp add: sub_step_def)
  qed
qed

lemma sub_run_Cons: "sub_run show_error urls (a # as) b = sub_run show_error urls as (sub_step show_error urls a b)"
  by (simp add: sub_run_def)

lemma sub_run_received: "length (sb_received b) \<le> length (sb_received (sub_run show_error urls as b))"
proof (induction as arbitrary: b)
  case (Cons a as)
  from Cons.IH [of "sub_step show_error urls a b"] show ?case by (simp add: sub_run_Cons sub_step_received)
qed (simp add: sub_run_def)

lemma sub_run_ok:
  assumes "sub_ok b" and "length (sb_received (sub_run show_error urls as b)) \<le> u64_max"
    and "sc_reconnect_delay (sb_config b) \<le> sc_max_reconnect_delay (sb_config b)" and "sc_max_reconnect_delay (sb_config b) \<le> duration_max"
  shows "sub_ok (sub_run show_error urls as b) \<and> sb_config (sub_run show_error urls as b) = sb_config b"
  using assms
proof (induction as arbitrary: b)
  case (Cons a as)
  have "length (sb_received b) < u64_max" if "a = Arrive m" "sb_phase b = Receiving" for m
    using that Cons.prems(2) sub_run_received [of "sub_step show_error urls a b" show_error urls as]
    by (simp add: sub_run_Cons sub_step_received)
  then have "sub_ok (sub_step show_error urls a b)" using sub_ok_step [OF Cons.prems(1) _ Cons.prems(3,4)] by blast
  then show ?case using Cons by (simp add: sub_run_Cons)
qed (simp add: sub_run_def)

lemma sub_ok_new: "sub_ok (subscription_new g endpoint)"
  by (simp add: sub_ok_def subscription_new_def accounts_def closed_last_def sub_events_def)

text \<open>
  C13. Delivery accounts for everything. Whatever the worker, the connection and the consumer do, the
  events sent so far spell the messages the server sent, in order, each either delivered or inside
  the gap of a \<open>Lagged\<close> event at its place (the last gap, still open, is the counter); the queue keeps
  its capacity; \<open>Closed\<close> is the last event; and every announced delay is within the configured bounds.
\<close>

theorem subscription_accounts:
  assumes "subscription_config_validate g = Inr g" and "sc_max_reconnect_delay g \<le> duration_max"
    and "b = sub_run show_error urls as (subscription_new g endpoint)" and "length (sb_received b) \<le> u64_max"
  shows "list_all2 (\<lambda>x m. x = None \<or> x = Some m)
      (concat (map expand (sub_events b)) @ replicate (sb_dropped b) None) (sb_received b) \<and>
    length (sb_queue b) \<le> sc_capacity g \<and> SubClosed \<notin> set (butlast (sub_events b)) \<and>
    (\<forall>error d. SubDisconnected error d \<in> set (sub_events b) \<longrightarrow> sc_reconnect_delay g \<le> d \<and> d \<le> sc_max_reconnect_delay g)"
proof -
  have g: "sb_config (subscription_new g endpoint) = g" by (simp add: subscription_new_def)
  have "sub_ok b \<and> sb_config b = g"
    using sub_run_ok [OF sub_ok_new, of show_error urls as g endpoint] assms
    by (auto simp: g subscription_config_validate_def split: if_splits)
  then show ?thesis
    by (auto simp: sub_ok_def accounts_def closed_last_def list_all_iff delay_ok_def)
qed

definition sample_message :: "string \<Rightarrow> sub_message" where
  "sample_message payload = \<lparr>sm_channel = ''c'', sm_pattern = None, sm_payload = payload\<rparr>"

theorem subscription_accounts_witness:
  "let b = sub_run (\<lambda>_. []) 1
       [Arrive (sample_message ''1''), Arrive (sample_message ''2''), Arrive (sample_message ''3''), TakeEvent, TakeEvent,
        Arrive (sample_message ''4''), Arrive (sample_message ''5'')]
       (subscription_new (with_capacity 2 subscription_config_default) 0) in
   sub_events b = [SubMessage (sample_message ''1''), SubMessage (sample_message ''2''), SubLagged 1, SubMessage (sample_message ''4'')] \<and>
   sb_dropped b = 1 \<and>
   list_all2 (\<lambda>x m. x = None \<or> x = Some m) (concat (map expand (sub_events b)) @ replicate (sb_dropped b) None) (sb_received b)"
proof -
  let ?g = "with_capacity 2 subscription_config_default"
  let ?as = "[Arrive (sample_message ''1''), Arrive (sample_message ''2''), Arrive (sample_message ''3''), TakeEvent, TakeEvent,
        Arrive (sample_message ''4''), Arrive (sample_message ''5'')]"
  have valid: "subscription_config_validate ?g = Inr ?g" "sc_max_reconnect_delay ?g \<le> duration_max"
    by (simp_all add: subscription_config_validate_def with_capacity_def subscription_config_default_def
        duration_from_millis_def nanos_per_sec_def duration_max_def u64_max_def)
  have run: "sub_events (sub_run (\<lambda>_. []) 1 ?as (subscription_new ?g 0)) =
      [SubMessage (sample_message ''1''), SubMessage (sample_message ''2''), SubLagged 1, SubMessage (sample_message ''4'')] \<and>
      sb_dropped (sub_run (\<lambda>_. []) 1 ?as (subscription_new ?g 0)) = 1 \<and>
      length (sb_received (sub_run (\<lambda>_. []) 1 ?as (subscription_new ?g 0))) = 5"
    by (simp add: sub_run_def sub_step_def subscription_new_def enqueue_subscription_message_def has_room_def push_event_def
        count_drop_def with_capacity_def subscription_config_default_def sub_events_def Let_def sat_add_def u64_max_def)
  then have "length (sb_received (sub_run (\<lambda>_. []) 1 ?as (subscription_new ?g 0))) \<le> u64_max" by (simp add: u64_max_def)
  from subscription_accounts [OF valid refl this] run show ?thesis by (simp add: Let_def)
qed

section \<open>Connecting and closing\<close>

lemma try_endpoints_ok:
  "(case try_endpoints result indexes e of Inr i \<Rightarrow> i \<in> set indexes \<and> result i = AttemptOk
    | Inl _ \<Rightarrow> (\<forall>i \<in> set indexes. result i \<noteq> AttemptOk))"
  by (induction result indexes e rule: try_endpoints.induct) (auto split: attempt.splits sum.splits)

lemma rotation_covers: "0 < n \<Longrightarrow> set (map (\<lambda>k. (start + k) mod n) [0..<n]) = {..<n}"
proof
  assume n: "0 < n"
  show "{..<n} \<subseteq> set (map (\<lambda>k. (start + k) mod n) [0..<n])"
  proof
    fix i assume "i \<in> {..<n}"
    define k where "k = (i + (n - start mod n)) mod n"
    have "(start + k) mod n = (start mod n + (i + (n - start mod n))) mod n"
      unfolding k_def by (metis mod_add_left_eq mod_add_right_eq)
    also have "\<dots> = (i + n) mod n" using mod_less_divisor [OF n, of start] by (intro arg_cong [of _ _ "\<lambda>x. x mod n"]) linarith
    finally have "(start + k) mod n = i" using \<open>i \<in> {..<n}\<close> by simp
    moreover have "k < n" using n by (simp add: k_def)
    ultimately show "i \<in> set (map (\<lambda>k. (start + k) mod n) [0..<n])" by force
  qed
qed auto

text \<open>A connection is made exactly when some endpoint accepts, whatever the endpoint it starts from.\<close>

lemma connect_subscription_ok:
  "(\<exists>i < urls. result i = AttemptOk) \<longleftrightarrow> (\<exists>i < urls. connect_subscription result urls start = Inr i \<and> result i = AttemptOk)"
proof (cases "urls = 0")
  case False
  then have "set (map (\<lambda>k. (start + k) mod urls) [0..<urls]) = {..<urls}" by (simp add: rotation_covers del: set_map)
  then show ?thesis
    using try_endpoints_ok [where result = result and indexes = "map (\<lambda>k. (start + k) mod urls) [0..<urls]" and e = None] False
    by (auto simp: connect_subscription_def split: sum.splits)
qed simp

text \<open>A shutdown is answered: as soon as the consumer makes room, \<open>Closed\<close> is sent and the worker stops.\<close>

lemma shutdown_closes:
  assumes "sub_ok b" and "sb_phase b \<noteq> Stopped" and "1 \<le> sc_capacity (sb_config b)"
  shows "sb_phase (sub_run show_error urls [RequestShutdown, TakeEvent, SendReady] b) = Stopped \<and>
    last (sub_events (sub_run show_error urls [RequestShutdown, TakeEvent, SendReady] b)) = SubClosed"
  using assms by (auto simp: sub_run_def sub_step_def sub_ok_def has_room_def push_event_def sub_events_def split: list.splits)

end
