(* ===== verification/Sql_Store.thy ===== *)
theory Sql_Store
  imports Cache
begin

text \<open>
  \<open>core/src/stores_sql.rs\<close>: the instrumented pool with its batched inserts, and the cached store,
  whose loads, mutations and invalidations run concurrently. The database is a parameter: what the
  queries of the application return is what the tables hold at that moment.
\<close>

section \<open>Configuration and errors\<close>

datatype sql_error = SqlDatabase string | SqlNotFound string | InvalidBatchSize

definition sql_is_not_found :: "sql_error \<Rightarrow> bool" where
  "sql_is_not_found e = (case e of SqlNotFound _ \<Rightarrow> True | _ \<Rightarrow> False)"

definition sql_error_text :: "sql_error \<Rightarrow> string" where
  "sql_error_text e =
     (case e of
        SqlDatabase error \<Rightarrow> ''SQL operation failed: '' @ error
      | SqlNotFound entity \<Rightarrow> entity @ '' not found''
      | InvalidBatchSize \<Rightarrow> ''SQL bulk batch size must be positive'')"

datatype sql_kind = SqlQuery | SqlExecute | SqlBulkInsert

fun sql_kind_name :: "sql_kind \<Rightarrow> string" where
  "sql_kind_name SqlQuery = ''query''"
| "sql_kind_name SqlExecute = ''execute''"
| "sql_kind_name SqlBulkInsert = ''bulk_insert''"

record sql_config =
  sql_url :: string
  sql_min_connections :: nat
  sql_max_connections :: nat
  sql_acquire_timeout :: duration
  sql_idle_timeout :: "duration option"
  sql_max_lifetime :: "duration option"

definition sql_config_new :: "string \<Rightarrow> sql_config" where
  "sql_config_new url =
     \<lparr>sql_url = url, sql_min_connections = 0, sql_max_connections = 10, sql_acquire_timeout = 3 * nanos_per_sec,
      sql_idle_timeout = Some (10 * 60 * nanos_per_sec), sql_max_lifetime = Some (30 * 60 * nanos_per_sec)\<rparr>"

definition sql_with_pool_size :: "nat \<Rightarrow> nat \<Rightarrow> sql_config \<Rightarrow> sql_config option" where
  "sql_with_pool_size low high c =
     (if high = 0 \<or> high < low then None else Some (c\<lparr>sql_min_connections := low, sql_max_connections := high\<rparr>))"

definition sql_with_acquire_timeout :: "duration \<Rightarrow> sql_config \<Rightarrow> sql_config option" where
  "sql_with_acquire_timeout timeout c = (if timeout = 0 then None else Some (c\<lparr>sql_acquire_timeout := timeout\<rparr>))"

record pool_options =
  po_min_connections :: nat
  po_max_connections :: nat
  po_acquire_timeout :: duration
  po_idle_timeout :: "duration option"
  po_max_lifetime :: "duration option"

definition configure_pool :: "sql_config \<Rightarrow> pool_options" where
  "configure_pool c =
     \<lparr>po_min_connections = sql_min_connections c, po_max_connections = sql_max_connections c,
      po_acquire_timeout = sql_acquire_timeout c, po_idle_timeout = sql_idle_timeout c, po_max_lifetime = sql_max_lifetime c\<rparr>"

record sql_cache_config =
  scc_capacity :: nat
  scc_ttl :: duration
  scc_not_found_ttl :: "duration option"
  scc_jitter :: duration

definition sql_cache_config_new :: "nat \<Rightarrow> duration \<Rightarrow> sql_cache_config option" where
  "sql_cache_config_new capacity ttl =
     (if capacity = 0 \<or> ttl = 0 then None
      else Some \<lparr>scc_capacity = capacity, scc_ttl = ttl, scc_not_found_ttl = Some ttl, scc_jitter = 0\<rparr>)"

definition sql_with_not_found_ttl :: "duration option \<Rightarrow> sql_cache_config \<Rightarrow> sql_cache_config option" where
  "sql_with_not_found_ttl ttl g = (if ttl = Some 0 then None else Some (g\<lparr>scc_not_found_ttl := ttl\<rparr>))"

definition sql_with_ttl_jitter :: "duration \<Rightarrow> sql_cache_config \<Rightarrow> sql_cache_config" where
  "sql_with_ttl_jitter jitter g = g\<lparr>scc_jitter := jitter\<rparr>"

section \<open>The instrumented store\<close>

definition sql_outcome :: "sql_error + 'a \<Rightarrow> string" where
  "sql_outcome r = (case r of Inr _ \<Rightarrow> ''success'' | Inl (SqlNotFound _) \<Rightarrow> ''not_found'' | Inl _ \<Rightarrow> ''error'')"

type_synonym sql_metrics = "(string \<times> string \<times> string) list"

definition sql_instrument ::
  "string \<Rightarrow> sql_kind \<Rightarrow> sql_error + 'a \<Rightarrow> sql_metrics option \<Rightarrow> (sql_error + 'a) \<times> sql_metrics option" where
  "sql_instrument operation kind result m =
     (result, map_option (\<lambda>m. m @ [(operation, sql_kind_name kind, sql_outcome result)]) m)"

definition database_error :: "string + 'a \<Rightarrow> sql_error + 'a" where
  "database_error r = (case r of Inl e \<Rightarrow> Inl (SqlDatabase e) | Inr a \<Rightarrow> Inr a)"

definition sql_query :: "string \<Rightarrow> string + 'a \<Rightarrow> sql_metrics option \<Rightarrow> (sql_error + 'a) \<times> sql_metrics option" where
  "sql_query operation r = sql_instrument operation SqlQuery (database_error r)"

definition sql_query_one :: "string \<Rightarrow> string \<Rightarrow> string + 'a option \<Rightarrow> sql_metrics option \<Rightarrow> (sql_error + 'a) \<times> sql_metrics option" where
  "sql_query_one operation entity r = sql_instrument operation SqlQuery
     (and_then (database_error r) (\<lambda>row. case row of None \<Rightarrow> Inl (SqlNotFound entity) | Some a \<Rightarrow> Inr a))"

definition sql_execute :: "string \<Rightarrow> string + 'a \<Rightarrow> sql_metrics option \<Rightarrow> (sql_error + 'a) \<times> sql_metrics option" where
  "sql_execute operation r = sql_instrument operation SqlExecute (database_error r)"

text \<open>
  \<open>bulk_insert\<close>: the items in batches, in order, up to the first batch that fails. \<open>insert_batch\<close> acts
  on the database, whose state it threads.
\<close>

function bulk_loop ::
  "nat \<Rightarrow> ('t list \<Rightarrow> 'd \<Rightarrow> (string + 'r) \<times> 'd) \<Rightarrow> 't list \<Rightarrow> 'r list \<Rightarrow> 'd \<Rightarrow> (sql_error + 'r list) \<times> 'd" where
  "bulk_loop batch_size insert_batch items results d =
     (let batch = take batch_size items in
      if batch = [] then (Inr results, d)
      else case insert_batch batch d of
        (Inr r, d') \<Rightarrow> bulk_loop batch_size insert_batch (drop batch_size items) (results @ [r]) d'
      | (Inl e, d') \<Rightarrow> (Inl (SqlDatabase e), d'))"
  by pat_completeness auto
termination
  by (relation "measure (\<lambda>(_, _, items, _, _). length items)") auto

declare bulk_loop.simps [simp del]

definition bulk_insert ::
  "string \<Rightarrow> nat \<Rightarrow> ('t list \<Rightarrow> 'd \<Rightarrow> (string + 'r) \<times> 'd) \<Rightarrow> 't list \<Rightarrow> 'd \<times> sql_metrics option \<Rightarrow>
   (sql_error + 'r list) \<times> ('d \<times> sql_metrics option)" where
  "bulk_insert operation batch_size insert_batch items y =
     (if batch_size = 0 then (Inl InvalidBatchSize, y)
      else case bulk_loop batch_size insert_batch items [] (fst y) of
        (result, d) \<Rightarrow> (case sql_instrument operation SqlBulkInsert result (snd y) of (r, m) \<Rightarrow> (r, d, m)))"

section \<open>The cached store\<close>

record ('k, 'v, 'i) sql_cache =
  sq_config :: sql_cache_config
  sq_cache :: "('k, 'v option) memory_cache"
  sq_indexes :: "('i, 'k option) memory_cache"
  sq_sequence :: "64 word"
  sq_generation :: "64 word"

definition cached_sql_new :: "sql_cache_config \<Rightarrow> ('k, 'v, 'i) sql_cache option" where
  "cached_sql_new g =
     (case (memory_new (scc_capacity g), memory_new (scc_capacity g)) of
        (Some c, Some ix) \<Rightarrow> Some \<lparr>sq_config = g, sq_cache = c, sq_indexes = ix, sq_sequence = 0, sq_generation = 0\<rparr>
      | _ \<Rightarrow> None)"

definition base_ttl :: "sql_cache_config \<Rightarrow> bool \<Rightarrow> duration option" where
  "base_ttl g present = (if present then Some (scc_ttl g) else scc_not_found_ttl g)"

text \<open>\<open>find\<close>: the look-up before the flight and, again, at its start, where the generation is read.\<close>

definition find_cached :: "'k \<Rightarrow> instant \<Rightarrow> ('k, 'v, 'i) sql_cache \<Rightarrow> 'v option option \<times> ('k, 'v, 'i) sql_cache" where
  "find_cached key now q = (case memory_get key now (sq_cache q) of (r, c) \<Rightarrow> (r, q\<lparr>sq_cache := c\<rparr>))"

text \<open>The end of the flight, under the gate: cached only if no invalidation has come between.\<close>

definition find_store :: "'k \<Rightarrow> 64 word \<Rightarrow> 'v option \<Rightarrow> instant \<Rightarrow> ('k, 'v, 'i) sql_cache \<Rightarrow> ('k, 'v, 'i) sql_cache option" where
  "find_store key generation v now q =
     (if sq_generation q \<noteq> generation then Some q
      else case base_ttl (sq_config q) (v \<noteq> None) of
        None \<Rightarrow> Some q
      | Some base \<Rightarrow>
          map_option (\<lambda>c. q\<lparr>sq_sequence := sq_sequence q + 1, sq_cache := c\<rparr>)
            (memory_insert key v (jittered_ttl base (scc_jitter (sq_config q)) (sq_sequence q)) now (sq_cache q)))"

text \<open>
  \<open>find_by_index\<close>: the answer of the two caches, if they have one; the look-up inside the flight only
  accepts a present record.
\<close>

definition index_cached :: "'i \<Rightarrow> instant \<Rightarrow> ('k, 'v, 'i) sql_cache \<Rightarrow> 'v option option \<times> ('k, 'v, 'i) sql_cache" where
  "index_cached index now q =
     (case memory_get index now (sq_indexes q) of
        (r, ix) \<Rightarrow>
          let q1 = q\<lparr>sq_indexes := ix\<rparr> in
          case r of
            None \<Rightarrow> (None, q1)
          | Some None \<Rightarrow> (Some None, q1)
          | Some (Some primary) \<Rightarrow> find_cached primary now q1)"

definition index_flight_cached :: "'i \<Rightarrow> instant \<Rightarrow> ('k, 'v, 'i) sql_cache \<Rightarrow> ('k \<times> 'v) option option \<times> ('k, 'v, 'i) sql_cache" where
  "index_flight_cached index now q =
     (case memory_get index now (sq_indexes q) of
        (r, ix) \<Rightarrow>
          let q1 = q\<lparr>sq_indexes := ix\<rparr> in
          case r of
            None \<Rightarrow> (None, q1)
          | Some None \<Rightarrow> (Some None, q1)
          | Some (Some primary) \<Rightarrow>
              (case find_cached primary now q1 of
                 (Some (Some v), q2) \<Rightarrow> (Some (Some (primary, v)), q2)
               | (_, q2) \<Rightarrow> (None, q2)))"

definition index_store ::
  "'i \<Rightarrow> 64 word \<Rightarrow> ('k \<times> 'v) option \<Rightarrow> instant \<Rightarrow> ('k, 'v, 'i) sql_cache \<Rightarrow> ('k, 'v, 'i) sql_cache option" where
  "index_store index generation row now q =
     (if sq_generation q \<noteq> generation then Some q
      else case base_ttl (sq_config q) (row \<noteq> None) of
        None \<Rightarrow> Some q
      | Some base \<Rightarrow>
          let ttl = jittered_ttl base (scc_jitter (sq_config q)) (sq_sequence q) in
          case memory_insert index (map_option fst row) ttl now (sq_indexes q) of
            None \<Rightarrow> None
          | Some ix \<Rightarrow>
              let q1 = q\<lparr>sq_sequence := sq_sequence q + 1, sq_indexes := ix\<rparr> in
              case row of
                None \<Rightarrow> Some q1
              | Some (primary, v) \<Rightarrow>
                  map_option (\<lambda>c. q1\<lparr>sq_cache := c\<rparr>) (memory_insert primary (Some v) ttl now (sq_cache q1)))"

section \<open>Invalidation\<close>

definition sql_invalidate :: "'k \<Rightarrow> ('k, 'v, 'i) sql_cache \<Rightarrow> bool \<times> ('k, 'v, 'i) sql_cache" where
  "sql_invalidate key q =
     (case memory_remove key (sq_cache q) of
        (r, c) \<Rightarrow>
          (r \<noteq> None, q\<lparr>sq_generation := sq_generation q + 1, sq_cache := c,
             sq_indexes := snd (memory_remove_where (\<lambda>_ primary. primary = Some key) (sq_indexes q))\<rparr>))"

definition sql_invalidate_many :: "'k list \<Rightarrow> ('k, 'v, 'i) sql_cache \<Rightarrow> ('k, 'v, 'i) sql_cache" where
  "sql_invalidate_many keys q =
     q\<lparr>sq_generation := sq_generation q + 1, sq_cache := drop_keys keys (sq_cache q),
       sq_indexes := snd (memory_remove_where (\<lambda>_ primary. primary \<in> Some ` set keys) (sq_indexes q))\<rparr>"

definition sql_invalidate_index :: "'i \<Rightarrow> ('k, 'v, 'i) sql_cache \<Rightarrow> bool \<times> ('k, 'v, 'i) sql_cache" where
  "sql_invalidate_index index q =
     (case memory_remove index (sq_indexes q) of
        (r, ix) \<Rightarrow> (r \<noteq> None, q\<lparr>sq_generation := sq_generation q + 1, sq_indexes := ix\<rparr>))"

definition sql_invalidate_related :: "'k list \<Rightarrow> 'i list \<Rightarrow> ('k, 'v, 'i) sql_cache \<Rightarrow> ('k, 'v, 'i) sql_cache" where
  "sql_invalidate_related keys indexes q =
     (let q1 = sql_invalidate_many keys q in q1\<lparr>sq_indexes := drop_keys indexes (sq_indexes q1)\<rparr>)"

text \<open>\<open>execute\<close> and \<open>execute_indexed\<close> invalidate after the operation, and only if it succeeds.\<close>

definition cached_execute :: "'k list \<Rightarrow> 'e + 'r \<Rightarrow> ('k, 'v, 'i) sql_cache \<Rightarrow> ('e + 'r) \<times> ('k, 'v, 'i) sql_cache" where
  "cached_execute keys result q = (case result of Inl e \<Rightarrow> (Inl e, q) | Inr r \<Rightarrow> (Inr r, sql_invalidate_many keys q))"

definition cached_execute_indexed ::
  "'k list \<Rightarrow> 'i list \<Rightarrow> 'e + 'r \<Rightarrow> ('k, 'v, 'i) sql_cache \<Rightarrow> ('e + 'r) \<times> ('k, 'v, 'i) sql_cache" where
  "cached_execute_indexed keys indexes result q =
     (case result of Inl e \<Rightarrow> (Inl e, q) | Inr r \<Rightarrow> (Inr r, sql_invalidate_related keys indexes q))"

section \<open>Loads and mutations that run concurrently\<close>

text \<open>
  The tables (\<open>ss_db\<close> by primary key, \<open>ss_index\<close> by secondary key), the cached store and the clock; the
  loads under way, each with the generation it read and, once its query has returned, the result;
  the mutations whose operation has succeeded and whose invalidation is still to come.
\<close>

datatype ('k, 'v, 'i) sql_load =
    Loading 'k "64 word" "'v option option"
  | LoadingIndex 'i "64 word" "('k \<times> 'v) option option"

record ('k, 'v, 'i) sql_system =
  ss_db :: "'k \<Rightarrow> 'v option"
  ss_index :: "'i \<Rightarrow> ('k \<times> 'v) option"
  ss_now :: instant
  ss_store :: "('k, 'v, 'i) sql_cache"
  ss_loads :: "nat \<Rightarrow> ('k, 'v, 'i) sql_load option"
  ss_pending :: "nat \<Rightarrow> ('k list \<times> 'i list) option"
  ss_invalidations :: nat

datatype ('k, 'v, 'i) sql_action =
    Pass duration
  | Find nat 'k
  | FindByIndex nat 'i
  | RunQuery nat
  | Finish nat
  | Mutate nat "'k list" "'i list" "'k \<Rightarrow> 'v option" "'i \<Rightarrow> ('k \<times> 'v) option"
  | Invalidate nat

text \<open>
  What the store asks of its caller: a mutation names the primary keys it changes and the secondary
  keys whose row changes, except those that led to a primary key it names.
\<close>

definition declares ::
  "('k \<Rightarrow> 'v option) \<Rightarrow> ('i \<Rightarrow> ('k \<times> 'v) option) \<Rightarrow> 'k list \<Rightarrow> 'i list \<Rightarrow> ('k \<Rightarrow> 'v option) \<Rightarrow> ('i \<Rightarrow> ('k \<times> 'v) option) \<Rightarrow> bool" where
  "declares db ix keys indexes db' ix' \<longleftrightarrow>
     (\<forall>k. db' k \<noteq> db k \<longrightarrow> k \<in> set keys) \<and>
     (\<forall>i. ix' i \<noteq> ix i \<longrightarrow> i \<in> set indexes \<or> map_option fst (ix i) \<in> Some ` set keys)"

definition index_wf :: "('k \<Rightarrow> 'v option) \<Rightarrow> ('i \<Rightarrow> ('k \<times> 'v) option) \<Rightarrow> bool" where
  "index_wf db ix \<longleftrightarrow> (\<forall>i k v. ix i = Some (k, v) \<longrightarrow> db k = Some v)"

fun load_query :: "('k \<Rightarrow> 'v option) \<Rightarrow> ('i \<Rightarrow> ('k \<times> 'v) option) \<Rightarrow> ('k, 'v, 'i) sql_load \<Rightarrow> ('k, 'v, 'i) sql_load" where
  "load_query db ix (Loading k g None) = Loading k g (Some (db k))"
| "load_query db ix (LoadingIndex i g None) = LoadingIndex i g (Some (ix i))"
| "load_query db ix l = l"

fun load_finish :: "instant \<Rightarrow> ('k, 'v, 'i) sql_load \<Rightarrow> ('k, 'v, 'i) sql_cache \<Rightarrow> ('k, 'v, 'i) sql_cache option" where
  "load_finish now (Loading k g (Some v)) q = find_store k g v now q"
| "load_finish now (LoadingIndex i g (Some row)) q = index_store i g row now q"
| "load_finish now l q = None"

text \<open>One step; an action that does not apply changes nothing.\<close>

definition sql_act :: "('k, 'v, 'i) sql_action \<Rightarrow> ('k, 'v, 'i) sql_system \<Rightarrow> ('k, 'v, 'i) sql_system" where
  "sql_act a y =
     (case a of
        Pass d \<Rightarrow> y\<lparr>ss_now := ss_now y + d\<rparr>
      | Find n k \<Rightarrow>
          (case find_cached k (ss_now y) (ss_store y) of
             (r, q) \<Rightarrow> y\<lparr>ss_store := q,
               ss_loads := (if r = None \<and> ss_loads y n = None then (ss_loads y)(n \<mapsto> Loading k (sq_generation q) None) else ss_loads y)\<rparr>)
      | FindByIndex n i \<Rightarrow>
          (case index_flight_cached i (ss_now y) (ss_store y) of
             (r, q) \<Rightarrow> y\<lparr>ss_store := q,
               ss_loads := (if r = None \<and> ss_loads y n = None then (ss_loads y)(n \<mapsto> LoadingIndex i (sq_generation q) None) else ss_loads y)\<rparr>)
      | RunQuery n \<Rightarrow> y\<lparr>ss_loads := (ss_loads y)(n := map_option (load_query (ss_db y) (ss_index y)) (ss_loads y n))\<rparr>
      | Finish n \<Rightarrow>
          (case Option.bind (ss_loads y n) (\<lambda>l. load_finish (ss_now y) l (ss_store y)) of
             None \<Rightarrow> y
           | Some q \<Rightarrow> y\<lparr>ss_store := q, ss_loads := (ss_loads y)(n := None)\<rparr>)
      | Mutate n keys indexes db ix \<Rightarrow>
          if ss_pending y n = None \<and> declares (ss_db y) (ss_index y) keys indexes db ix \<and> index_wf db ix
          then y\<lparr>ss_db := db, ss_index := ix, ss_pending := (ss_pending y)(n \<mapsto> (keys, indexes))\<rparr>
          else y
      | Invalidate n \<Rightarrow>
          (case ss_pending y n of
             None \<Rightarrow> y
           | Some (keys, indexes) \<Rightarrow>
               y\<lparr>ss_store := sql_invalidate_related keys indexes (ss_store y), ss_pending := (ss_pending y)(n := None),
                 ss_invalidations := ss_invalidations y + 1\<rparr>))"

definition sql_run :: "('k, 'v, 'i) sql_action list \<Rightarrow> ('k, 'v, 'i) sql_system \<Rightarrow> ('k, 'v, 'i) sql_system" where
  "sql_run as y = fold sql_act as y"

definition sql_start :: "('k \<Rightarrow> 'v option) \<Rightarrow> ('i \<Rightarrow> ('k \<times> 'v) option) \<Rightarrow> ('k, 'v, 'i) sql_cache \<Rightarrow> ('k, 'v, 'i) sql_system" where
  "sql_start db ix q =
     \<lparr>ss_db = db, ss_index = ix, ss_now = 0, ss_store = q, ss_loads = (\<lambda>_. None), ss_pending = (\<lambda>_. None), ss_invalidations = 0\<rparr>"

section \<open>What a cache holds\<close>

definition holds :: "('k, 'v) memory_cache \<Rightarrow> 'k \<Rightarrow> 'v \<Rightarrow> bool" where
  "holds c k v \<longleftrightarrow> (\<exists>e. map_of (mc_entries c) k = Some e \<and> ce_value e = v)"

lemma holds_get: "memory_get k now c = (r, c') \<Longrightarrow> holds c' k' v' \<Longrightarrow> holds c k' v'"
  by (auto simp: memory_get_def holds_def Let_def delete_conv' split: option.splits if_splits)

lemma holds_got: "memory_get k now c = (Some v, c') \<Longrightarrow> holds c k v"
  by (auto simp: memory_get_def holds_def Let_def split: option.splits if_splits)

lemma map_of_evict: "evict cap ks es n = (ks', es', n') \<Longrightarrow> map_of es' k = None \<or> map_of es' k = map_of es k"
  by (induction cap ks es n rule: evict.induct) (auto simp: delete_conv' split: if_splits)

lemma holds_insert: "memory_insert k v ttl now c = Some c' \<Longrightarrow> holds c' k' v' \<Longrightarrow> k' = k \<and> v' = v \<or> holds c k' v'"
  by (auto simp: memory_insert_def holds_def Let_def update_conv' split: if_splits prod.splits dest!: map_of_evict [of _ _ _ _ _ _ _ k'])

lemma map_of_drop_keys: "map_of (mc_entries (drop_keys ks c)) = (map_of (mc_entries c)) |` (- set ks)"
  unfolding drop_keys_def
  by (induction ks arbitrary: c) (auto simp: memory_remove_def delete_conv' restrict_map_def fun_eq_iff)

lemma holds_drop_keys: "holds (drop_keys ks c) k v \<longleftrightarrow> holds c k v \<and> k \<notin> set ks"
  by (auto simp: holds_def map_of_drop_keys restrict_map_def)

lemma holds_remove_where: "holds (snd (memory_remove_where P c)) k v \<Longrightarrow> holds c k v \<and> \<not> P k v"
proof -
  assume h: "holds (snd (memory_remove_where P c)) k v"
  then have k: "holds c k v" "k \<notin> fst ` set (filter (\<lambda>(k, e). P k (ce_value e)) (mc_entries c))"
    by (simp_all add: memory_remove_where_def holds_drop_keys Let_def)
  then obtain e where "(k, e) \<in> set (mc_entries c)" "ce_value e = v" by (auto simp: holds_def dest: map_of_SomeD)
  then show ?thesis using k by force
qed

section \<open>Coherence\<close>

definition pending_keys :: "('k, 'v, 'i) sql_system \<Rightarrow> 'k set" where
  "pending_keys y = (\<Union>m \<in> ran (ss_pending y). set (fst m))"

definition pending_indexes :: "('k, 'v, 'i) sql_system \<Rightarrow> 'i set" where
  "pending_indexes y = (\<Union>m \<in> ran (ss_pending y). set (snd m))"

text \<open>A value for a key, or a primary key for an index, that is current or whose mutation is about to invalidate it.\<close>

definition key_fresh :: "('k, 'v, 'i) sql_system \<Rightarrow> 'k \<Rightarrow> 'v option \<Rightarrow> bool" where
  "key_fresh y k v \<longleftrightarrow> v = ss_db y k \<or> k \<in> pending_keys y"

definition index_fresh :: "('k, 'v, 'i) sql_system \<Rightarrow> 'i \<Rightarrow> 'k option \<Rightarrow> bool" where
  "index_fresh y i p \<longleftrightarrow> p = map_option fst (ss_index y i) \<or> i \<in> pending_indexes y \<or> p \<in> Some ` pending_keys y"

fun load_fresh :: "('k, 'v, 'i) sql_system \<Rightarrow> ('k, 'v, 'i) sql_load \<Rightarrow> bool" where
  "load_fresh y (Loading k g r) \<longleftrightarrow> (\<forall>v. r = Some v \<longrightarrow> key_fresh y k v)"
| "load_fresh y (LoadingIndex i g r) \<longleftrightarrow>
     (\<forall>row. r = Some row \<longrightarrow> index_fresh y i (map_option fst row) \<and> (\<forall>k v. row = Some (k, v) \<longrightarrow> key_fresh y k (Some v)))"

fun load_generation :: "('k, 'v, 'i) sql_load \<Rightarrow> 64 word" where
  "load_generation (Loading k g r) = g"
| "load_generation (LoadingIndex i g r) = g"

definition store_fresh :: "('k, 'v, 'i) sql_system \<Rightarrow> ('k, 'v, 'i) sql_cache \<Rightarrow> bool" where
  "store_fresh y q \<longleftrightarrow> (\<forall>k v. holds (sq_cache q) k v \<longrightarrow> key_fresh y k v) \<and> (\<forall>i p. holds (sq_indexes q) i p \<longrightarrow> index_fresh y i p)"

text \<open>
  The invariant: what is cached is fresh; so is the result of a load whose generation is still the
  current one; and generations are numbers of invalidations.
\<close>

definition sql_inv :: "('k, 'v, 'i) sql_system \<Rightarrow> bool" where
  "sql_inv y \<longleftrightarrow> index_wf (ss_db y) (ss_index y) \<and> store_fresh y (ss_store y) \<and>
     sq_generation (ss_store y) = of_nat (ss_invalidations y) \<and>
     (\<forall>n l. ss_loads y n = Some l \<longrightarrow>
        (\<exists>m \<le> ss_invalidations y. load_generation l = of_nat m \<and> (m = ss_invalidations y \<longrightarrow> load_fresh y l)))"

lemma generations_apart: "a < 2 ^ 64 \<Longrightarrow> b < 2 ^ 64 \<Longrightarrow> (of_nat a :: 64 word) = of_nat b \<longleftrightarrow> a = b"
  by (simp add: word_of_nat_eq_iff take_bit_nat_eq_self)

lemma find_cached_keeps:
  assumes "find_cached k now q = (r, q')"
  shows "sq_generation q' = sq_generation q \<and> sq_config q' = sq_config q \<and> (store_fresh y q \<longrightarrow> store_fresh y q') \<and>
    (\<forall>v. r = Some v \<longrightarrow> holds (sq_cache q) k v)"
  using assms holds_get holds_got by (fastforce simp: find_cached_def store_fresh_def split: prod.splits)

lemma find_cached_got: "fst (find_cached k now q) = Some v \<Longrightarrow> holds (sq_cache q) k v"
  using holds_got by (fastforce simp: find_cached_def split: prod.splits)

lemma index_flight_cached_keeps:
  assumes "index_flight_cached i now q = (r, q')"
  shows "sq_generation q' = sq_generation q \<and> (store_fresh y q \<longrightarrow> store_fresh y q')"
proof -
  obtain p ix where g: "memory_get i now (sq_indexes q) = (p, ix)" by fastforce
  have "store_fresh y q \<longrightarrow> store_fresh y (q\<lparr>sq_indexes := ix\<rparr>)"
    using holds_get [OF g] by (auto simp: store_fresh_def)
  then show ?thesis
    using assms g find_cached_keeps [of _ now "q\<lparr>sq_indexes := ix\<rparr>" _ _ y]
    by (fastforce simp: index_flight_cached_def Let_def split: option.splits prod.splits)
qed

lemma find_store_keeps:
  assumes "find_store k g v now q = Some q'" and "store_fresh y q" and "sq_generation q = g \<longrightarrow> key_fresh y k v"
  shows "sq_generation q' = sq_generation q \<and> store_fresh y q'"
  using assms holds_insert [of k v _ now "sq_cache q"]
  by (fastforce simp: find_store_def store_fresh_def split: if_splits option.splits)

lemma index_store_keeps:
  assumes "index_store i g row now q = Some q'" and "store_fresh y q"
    and "sq_generation q = g \<longrightarrow> index_fresh y i (map_option fst row) \<and> (\<forall>k v. row = Some (k, v) \<longrightarrow> key_fresh y k (Some v))"
  shows "sq_generation q' = sq_generation q \<and> store_fresh y q'"
proof -
  have fresh: "store_fresh y (q1\<lparr>sq_cache := c\<rparr>)"
    if "memory_insert k (Some v) ttl now (sq_cache q1) = Some c" "store_fresh y q1" "key_fresh y k (Some v)" for k v ttl q1 c
    using that holds_insert [OF that(1)] by (auto simp: store_fresh_def)
  have ifresh: "store_fresh y (q\<lparr>sq_sequence := n, sq_indexes := ix\<rparr>)"
    if "memory_insert i p ttl now (sq_indexes q) = Some ix" "index_fresh y i p" for p ttl ix n
    using that assms(2) by (auto simp: store_fresh_def dest: holds_insert)
  show ?thesis
    using assms fresh ifresh
    by (fastforce simp: index_store_def Let_def split: if_splits option.splits prod.splits)
qed

lemma invalidate_fresh:
  assumes "store_fresh y q" and "\<And>k v. key_fresh y k v \<Longrightarrow> k \<notin> set keys \<Longrightarrow> key_fresh y' k v"
    and "\<And>i p. index_fresh y i p \<Longrightarrow> i \<notin> set indexes \<Longrightarrow> p \<notin> Some ` set keys \<Longrightarrow> index_fresh y' i p"
  shows "store_fresh y' (sql_invalidate_related keys indexes q)"
  using assms
  by (auto simp: store_fresh_def sql_invalidate_related_def sql_invalidate_many_def Let_def holds_drop_keys dest!: holds_remove_where)

text \<open>How a change of the tables and of the pending mutations affects what is fresh.\<close>

lemma mutate_fresh:
  assumes "declares (ss_db y) (ss_index y) keys indexes db ix" and "ss_pending y n = None"
  defines "y' \<equiv> y\<lparr>ss_db := db, ss_index := ix, ss_pending := (ss_pending y)(n \<mapsto> (keys, indexes))\<rparr>"
  shows "key_fresh y k v \<Longrightarrow> key_fresh y' k v" and "index_fresh y i p \<Longrightarrow> index_fresh y' i p"
    and "load_fresh y l \<Longrightarrow> load_fresh y' l"
proof -
  have k: "pending_keys y' = pending_keys y \<union> set keys" and i: "pending_indexes y' = pending_indexes y \<union> set indexes"
    using assms(2) by (auto simp: pending_keys_def pending_indexes_def y'_def)
  have db: "ss_db y' = db" "ss_index y' = ix" by (simp_all add: y'_def)
  have key: "key_fresh y k v \<Longrightarrow> key_fresh y' k v" for k v
    using assms(1) by (auto simp: key_fresh_def k db declares_def)
  have index: "index_fresh y i p \<Longrightarrow> index_fresh y' i p" for i p
    using assms(1) unfolding index_fresh_def k i db declares_def by (cases "ix i = ss_index y i") (auto simp: image_Un)
  show "key_fresh y k v \<Longrightarrow> key_fresh y' k v" by (rule key)
  show "index_fresh y i p \<Longrightarrow> index_fresh y' i p" by (rule index)
  show "load_fresh y l \<Longrightarrow> load_fresh y' l" using key index by (cases l) auto
qed

lemma ran_settled: "m n = Some x \<Longrightarrow> ran m = insert x (ran (m(n := None)))"
  by (auto simp: ran_def) (metis option.inject)

lemma settle_fresh:
  assumes "ss_pending y n = Some (keys, indexes)"
    and y'_def: "y' = y\<lparr>ss_store := q, ss_pending := (ss_pending y)(n := None), ss_invalidations := m\<rparr>"
  shows "key_fresh y k v \<Longrightarrow> k \<notin> set keys \<Longrightarrow> key_fresh y' k v"
    and "index_fresh y i p \<Longrightarrow> i \<notin> set indexes \<Longrightarrow> p \<notin> Some ` set keys \<Longrightarrow> index_fresh y' i p"
proof -
  have k: "pending_keys y \<subseteq> pending_keys y' \<union> set keys" and i: "pending_indexes y \<subseteq> pending_indexes y' \<union> set indexes"
    using ran_settled [where m = "ss_pending y", OF assms(1)] by (auto simp: pending_keys_def pending_indexes_def y'_def)
  have db: "ss_db y' = ss_db y" "ss_index y' = ss_index y" by (simp_all add: y'_def)
  show "key_fresh y k v \<Longrightarrow> k \<notin> set keys \<Longrightarrow> key_fresh y' k v" using k by (auto simp: key_fresh_def db)
  show "index_fresh y i p \<Longrightarrow> i \<notin> set indexes \<Longrightarrow> p \<notin> Some ` set keys \<Longrightarrow> index_fresh y' i p"
    using k i by (auto simp: index_fresh_def db)
qed

lemma fresh_cong [simp]:
  "key_fresh (y\<lparr>ss_now := t\<rparr>) = key_fresh y" "index_fresh (y\<lparr>ss_now := t\<rparr>) = index_fresh y" "load_fresh (y\<lparr>ss_now := t\<rparr>) = load_fresh y"
  "key_fresh (y\<lparr>ss_store := q\<rparr>) = key_fresh y" "index_fresh (y\<lparr>ss_store := q\<rparr>) = index_fresh y"
  "load_fresh (y\<lparr>ss_store := q\<rparr>) = load_fresh y"
  "key_fresh (y\<lparr>ss_loads := ls\<rparr>) = key_fresh y" "index_fresh (y\<lparr>ss_loads := ls\<rparr>) = index_fresh y" "load_fresh (y\<lparr>ss_loads := ls\<rparr>) = load_fresh y"
proof -
  show k: "key_fresh (y\<lparr>ss_now := t\<rparr>) = key_fresh y" "key_fresh (y\<lparr>ss_store := q\<rparr>) = key_fresh y"
    "key_fresh (y\<lparr>ss_loads := ls\<rparr>) = key_fresh y" for ls
    by (simp_all add: fun_eq_iff key_fresh_def pending_keys_def)
  show i: "index_fresh (y\<lparr>ss_now := t\<rparr>) = index_fresh y" "index_fresh (y\<lparr>ss_store := q\<rparr>) = index_fresh y"
    "index_fresh (y\<lparr>ss_loads := ls\<rparr>) = index_fresh y" for ls
    by (simp_all add: fun_eq_iff index_fresh_def pending_keys_def pending_indexes_def)
  have "load_fresh (y\<lparr>ss_now := t\<rparr>) l = load_fresh y l" "load_fresh (y\<lparr>ss_store := q\<rparr>) l = load_fresh y l"
    "load_fresh (y\<lparr>ss_loads := ls\<rparr>) l = load_fresh y l" for l ls
    by (cases l; simp add: k i)+
  then show "load_fresh (y\<lparr>ss_now := t\<rparr>) = load_fresh y" "load_fresh (y\<lparr>ss_store := q\<rparr>) = load_fresh y"
    "load_fresh (y\<lparr>ss_loads := ls\<rparr>) = load_fresh y" by blast+
qed

lemma store_fresh_cong: "key_fresh y' = key_fresh y \<Longrightarrow> index_fresh y' = index_fresh y \<Longrightarrow> store_fresh y' q = store_fresh y q"
  by (simp add: store_fresh_def)

lemma load_query_fresh:
  assumes "index_wf (ss_db y) (ss_index y)" and "load_fresh y l"
  shows "load_fresh y (load_query (ss_db y) (ss_index y) l)"
  using assms
  by (induction "ss_db y" "ss_index y" l rule: load_query.induct) (auto simp: key_fresh_def index_fresh_def index_wf_def)

lemma load_query_generation: "load_generation (load_query db ix l) = load_generation l"
  by (induction db ix l rule: load_query.induct) simp_all

lemma sql_inv_look_up:
  assumes "sql_inv y" and "sq_generation q = sq_generation (ss_store y)" and "store_fresh y q"
    and "\<And>n l. ls n = Some l \<Longrightarrow> ss_loads y n = Some l \<or> load_generation l = sq_generation q \<and> load_fresh y l"
  shows "sql_inv (y\<lparr>ss_store := q, ss_loads := ls\<rparr>)"
proof -
  have "store_fresh (y\<lparr>ss_store := q, ss_loads := ls\<rparr>) q" using assms(3) by (simp add: store_fresh_def)
  moreover have "\<exists>m \<le> ss_invalidations y. load_generation l = of_nat m \<and> (m = ss_invalidations y \<longrightarrow> load_fresh y l)"
    if "ls n = Some l" for n l
    using assms(4) [OF that]
  proof
    assume "ss_loads y n = Some l"
    then show ?thesis using assms(1) unfolding sql_inv_def by blast
  next
    assume "load_generation l = sq_generation q \<and> load_fresh y l"
    then show ?thesis using assms(1,2) unfolding sql_inv_def by (intro exI [of _ "ss_invalidations y"]) simp
  qed
  ultimately show ?thesis using assms(1,2) by (simp add: sql_inv_def)
qed

lemma sql_inv_load:
  assumes "sql_inv y" and "ss_loads y n = Some l" and "ss_invalidations y < 2 ^ 64"
  shows "sq_generation (ss_store y) = load_generation l \<longrightarrow> load_fresh y l"
proof -
  obtain m where m: "m \<le> ss_invalidations y" "load_generation l = of_nat m" "m = ss_invalidations y \<longrightarrow> load_fresh y l"
    using assms(1,2) unfolding sql_inv_def by blast
  show ?thesis using m assms(1,3) generations_apart [of m "ss_invalidations y"] by (auto simp: sql_inv_def)
qed

lemma load_finish_keeps:
  assumes "load_finish now l q = Some q'" and "store_fresh y q" and "sq_generation q = load_generation l \<longrightarrow> load_fresh y l"
  shows "sq_generation q' = sq_generation q \<and> store_fresh y q'"
  using assms
proof (induction now l q rule: load_finish.induct)
  case (1 now k g v q)
  then show ?case using find_store_keeps [of k g v now q q' y] by simp
next
  case (2 now i g row q)
  then show ?case using index_store_keeps [of i g row now q q' y] by simp
qed simp_all

lemma sql_inv_mutate:
  assumes "sql_inv y" and "declares (ss_db y) (ss_index y) keys indexes db ix" and "ss_pending y n = None" and "index_wf db ix"
  shows "sql_inv (y\<lparr>ss_db := db, ss_index := ix, ss_pending := (ss_pending y)(n \<mapsto> (keys, indexes))\<rparr>)"
  using assms mutate_fresh [OF assms(2,3)] unfolding sql_inv_def store_fresh_def by simp blast

lemma sql_inv_invalidate:
  assumes "sql_inv y" and "ss_pending y n = Some (keys, indexes)"
  shows "sql_inv (y\<lparr>ss_store := sql_invalidate_related keys indexes (ss_store y), ss_pending := (ss_pending y)(n := None),
    ss_invalidations := ss_invalidations y + 1\<rparr>)" (is "sql_inv ?y")
proof -
  have "store_fresh ?y (sql_invalidate_related keys indexes (ss_store y))"
    using assms(1) settle_fresh [OF assms(2) refl]
    by (intro invalidate_fresh [of y]) (auto simp: sql_inv_def)
  moreover have "\<exists>m \<le> ss_invalidations y + 1. load_generation l = of_nat m \<and> (m = ss_invalidations y + 1 \<longrightarrow> load_fresh ?y l)"
    if "ss_loads y k = Some l" for k l
  proof -
    obtain m where "m \<le> ss_invalidations y" "load_generation l = of_nat m" using assms(1) \<open>ss_loads y k = Some l\<close> unfolding sql_inv_def by blast
    then show ?thesis by (intro exI [of _ m]) simp
  qed
  ultimately show ?thesis
    using assms(1) by (simp add: sql_inv_def sql_invalidate_related_def sql_invalidate_many_def Let_def)
qed

lemma sql_act_inv:
  assumes "sql_inv y" and "ss_invalidations y < 2 ^ 64"
  shows "sql_inv (sql_act a y)"
proof (cases a)
  case (Pass d)
  then show ?thesis using assms(1) by (simp add: sql_act_def sql_inv_def store_fresh_def)
next
  case (Find n k)
  obtain r q where f: "find_cached k (ss_now y) (ss_store y) = (r, q)" by fastforce
  have act: "sql_act a y = y\<lparr>ss_store := q, ss_loads := (if r = None \<and> ss_loads y n = None
      then (ss_loads y)(n \<mapsto> Loading k (sq_generation q) None) else ss_loads y)\<rparr>" by (simp only: Find sql_act_def sql_action.case f prod.case)
  show ?thesis
    unfolding act using find_cached_keeps [OF f, of y] assms(1)
    by (intro sql_inv_look_up) (auto simp: sql_inv_def [of y] split: if_splits)
next
  case (FindByIndex n i)
  obtain r q where f: "index_flight_cached i (ss_now y) (ss_store y) = (r, q)" by fastforce
  have act: "sql_act a y = y\<lparr>ss_store := q, ss_loads := (if r = None \<and> ss_loads y n = None
      then (ss_loads y)(n \<mapsto> LoadingIndex i (sq_generation q) None) else ss_loads y)\<rparr>" by (simp only: FindByIndex sql_act_def sql_action.case f prod.case)
  show ?thesis
    unfolding act using index_flight_cached_keeps [OF f, of y] assms(1)
    by (intro sql_inv_look_up) (auto simp: sql_inv_def [of y] split: if_splits)
next
  case (RunQuery n)
  have "\<exists>m \<le> ss_invalidations y. load_generation l = of_nat m \<and> (m = ss_invalidations y \<longrightarrow> load_fresh y l)"
    if loaded: "((ss_loads y)(n := map_option (load_query (ss_db y) (ss_index y)) (ss_loads y n))) k = Some l" for k l
  proof (cases "k = n")
    case True
    then obtain l0 where l0: "ss_loads y n = Some l0" "l = load_query (ss_db y) (ss_index y) l0" using loaded by auto
    then obtain m where "m \<le> ss_invalidations y" "load_generation l0 = of_nat m" "m = ss_invalidations y \<longrightarrow> load_fresh y l0"
      using assms(1) unfolding sql_inv_def by blast
    then show ?thesis using load_query_fresh [of y l0] load_query_generation [of "ss_db y" "ss_index y" l0] assms(1) l0(2) unfolding sql_inv_def by metis
  next
    case False
    then show ?thesis using assms(1) loaded unfolding sql_inv_def by auto
  qed
  then show ?thesis using assms(1) by (simp add: RunQuery sql_act_def sql_inv_def store_fresh_def)
next
  case (Finish n)
  show ?thesis
  proof (cases "Option.bind (ss_loads y n) (\<lambda>l. load_finish (ss_now y) l (ss_store y))")
    case (Some q)
    then obtain l where l: "ss_loads y n = Some l" "load_finish (ss_now y) l (ss_store y) = Some q" by (auto simp: Option.bind_eq_Some_conv)
    have "sq_generation q = sq_generation (ss_store y) \<and> store_fresh y q"
      using load_finish_keeps [OF l(2), of y] sql_inv_load [OF assms(1) l(1) assms(2)] assms(1) by (simp add: sql_inv_def)
    then show ?thesis using Some by (auto simp: Finish sql_act_def intro!: sql_inv_look_up [OF assms(1)] split: if_splits)
  qed (use assms(1) in \<open>simp add: Finish sql_act_def\<close>)
next
  case (Mutate n keys indexes db ix)
  then show ?thesis using assms(1) sql_inv_mutate [OF assms(1), of keys indexes db ix n] by (simp add: sql_act_def)
next
  case (Invalidate n)
  then show ?thesis using assms(1) sql_inv_invalidate [OF assms(1), of n] by (auto simp: sql_act_def split: option.splits)
qed

lemma invalidations_act: "ss_invalidations y \<le> ss_invalidations (sql_act a y)"
  by (auto simp: sql_act_def split: sql_action.splits option.splits prod.splits)

lemma invalidations_run: "ss_invalidations y \<le> ss_invalidations (sql_run as y)"
  unfolding sql_run_def by (induction as arbitrary: y) (auto intro: order_trans [OF invalidations_act])

lemma sql_run_inv: "sql_inv y \<Longrightarrow> ss_invalidations (sql_run as y) < 2 ^ 64 \<Longrightarrow> sql_inv (sql_run as y)"
proof (induction as arbitrary: y)
  case (Cons a as)
  have run: "sql_run (a # as) y = sql_run as (sql_act a y)" by (simp add: sql_run_def)
  have "ss_invalidations y < 2 ^ 64"
    using Cons.prems(2) invalidations_act [of y a] invalidations_run [of "sql_act a y" as] by (simp add: run)
  then show ?case using Cons.IH [OF sql_act_inv [OF Cons.prems(1)]] Cons.prems(2) by (simp add: run)
qed (simp add: sql_run_def)

lemma sql_inv_start:
  assumes "cached_sql_new g = Some q" and "index_wf db ix"
  shows "sql_inv (sql_start db ix q)"
  using assms
  by (auto simp: sql_inv_def sql_start_def cached_sql_new_def memory_new_def store_fresh_def holds_def split: option.splits if_splits)

lemma index_cached_fresh:
  assumes "sql_inv y" and "pending_keys y = {}" and "pending_indexes y = {}" and "fst (index_cached i now (ss_store y)) = Some v"
  shows "v = map_option snd (ss_index y i)"
proof -
  obtain p ix where g: "memory_get i now (sq_indexes (ss_store y)) = (p, ix)" by fastforce
  have fresh: "holds (sq_indexes (ss_store y)) i p \<Longrightarrow> p = map_option fst (ss_index y i)"
    "holds (sq_cache (ss_store y)) k w \<Longrightarrow> w = ss_db y k" for p k w
    using assms(1-3) by (auto simp: sql_inv_def store_fresh_def key_fresh_def index_fresh_def)
  show ?thesis
  proof (cases p)
    case (Some primary)
    then have primary: "primary = map_option fst (ss_index y i)" using fresh(1) [of primary] holds_got [of i now _ primary ix] g by simp
    show ?thesis
    proof (cases primary)
      case (Some k)
      then obtain w where w: "ss_index y i = Some (k, w)" using primary by auto
      then have "ss_db y k = Some w" using assms(1) by (auto simp: sql_inv_def index_wf_def)
      moreover have "holds (sq_cache (ss_store y)) k v"
        using assms(4) g Some \<open>p = Some primary\<close> find_cached_got [of k now "(ss_store y)\<lparr>sq_indexes := ix\<rparr>" v]
        by (simp add: index_cached_def Let_def)
      ultimately show ?thesis using fresh(2) w by auto
    qed (use assms(4) g \<open>p = Some primary\<close> primary in \<open>simp add: index_cached_def Let_def\<close>)
  qed (use assms(4) g in \<open>simp add: index_cached_def\<close>)
qed


definition sample_sql :: "(nat, string, nat) sql_cache" where
  "sample_sql = the (cached_sql_new \<lparr>scc_capacity = 4, scc_ttl = 100, scc_not_found_ttl = None, scc_jitter = 0\<rparr>)"

lemma no_jitter: "jittered_ttl base 0 sequence = base"
  by (simp add: jittered_ttl_def)

lemmas sql_eval =
  sql_run_def sql_act_def find_cached_def find_store_def memory_get_def memory_insert_def memory_new_def cached_sql_new_def
  sql_invalidate_related_def sql_invalidate_many_def memory_remove_where_def drop_keys_def memory_remove_def base_ttl_def
  no_jitter sql_start_def Let_def declares_def index_wf_def


section \<open>Batches\<close>

text \<open>The batches of a bulk insert, and the database after them.\<close>

fun batches :: "nat \<Rightarrow> 't list \<Rightarrow> nat \<Rightarrow> 't list list" where
  "batches n items 0 = []"
| "batches n items (Suc m) = (if items = [] then [] else take n items # batches n (drop n items) m)"

fun insert_all :: "('t list \<Rightarrow> 'd \<Rightarrow> (string + 'r) \<times> 'd) \<Rightarrow> 't list list \<Rightarrow> 'd \<Rightarrow> (sql_error + 'r list) \<times> 'd" where
  "insert_all f [] d = (Inr [], d)"
| "insert_all f (b # bs) d =
     (case f b d of
        (Inl e, d') \<Rightarrow> (Inl (SqlDatabase e), d')
      | (Inr r, d') \<Rightarrow> (case insert_all f bs d' of (Inl e, d'') \<Rightarrow> (Inl e, d'') | (Inr rs, d'') \<Rightarrow> (Inr (r # rs), d'')))"

lemma concat_batches: "0 < n \<Longrightarrow> length items \<le> m \<Longrightarrow> concat (batches n items m) = items"
  by (induction n items m rule: batches.induct) auto

lemma batch_sizes: "0 < n \<Longrightarrow> b \<in> set (batches n items m) \<Longrightarrow> b \<noteq> [] \<and> length b \<le> n"
  by (induction n items m rule: batches.induct) (auto split: if_splits)

lemma bulk_loop_batches:
  "0 < n \<Longrightarrow> length items \<le> m \<Longrightarrow>
   bulk_loop n f items results d = (case insert_all f (batches n items m) d of
     (Inl e, d') \<Rightarrow> (Inl e, d') | (Inr rs, d') \<Rightarrow> (Inr (results @ rs), d'))"
proof (induction n items m arbitrary: results d rule: batches.induct)
  case (2 n items m)
  show ?case
  proof (cases "items = []")
    case False
    with "2.prems" have "length (drop n items) \<le> m" by (cases items) auto
    then show ?thesis
      using "2.IH" [OF False "2.prems"(1)] False "2.prems"
      by (subst bulk_loop.simps) (auto simp: Let_def split: sum.splits prod.splits)
  qed (simp add: bulk_loop.simps)
qed (simp add: bulk_loop.simps)

text \<open>
  A bulk insert of positive batch size hands over every item once, in order, in batches that are not
  empty and no larger than asked, stops at the first failure and reports the rest as it found it.
\<close>

lemma bulk_insert_batches:
  assumes "0 < n"
    and bs_def: "bs = batches n items (length items)"
  shows "concat bs = items \<and> (\<forall>b \<in> set bs. b \<noteq> [] \<and> length b \<le> n) \<and>
    fst (bulk_insert operation n f items (d, m)) = fst (insert_all f bs d) \<and>
    fst (snd (bulk_insert operation n f items (d, m))) = snd (insert_all f bs d)"
proof -
  have "bulk_loop n f items [] d = insert_all f bs d"
    using bulk_loop_batches [OF assms(1) order_refl, of f items "[]" d] by (auto simp: bs_def split: sum.splits prod.splits)
  then show ?thesis
    using assms(1) concat_batches [OF assms(1) order_refl, of items] batch_sizes [OF assms(1)]
    by (auto simp: bs_def bulk_insert_def sql_instrument_def split: prod.splits)
qed

end
