(* ===== verification/Mongo_Store.thy ===== *)
theory Mongo_Store
  imports Sql_Store
begin

text \<open>
  \<open>core/src/stores_mongo.rs\<close>: configuration, instrumentation and batched inserts of the MongoDB store,
  and the cached collection. The code of the cached collection repeats that of the cached SQL store,
  so its operations are those of \<open>Sql_Store\<close>, whose coherence theorem speaks of them; what is added
  here are its document operations. The driver is a parameter.
\<close>

section \<open>Configuration and errors\<close>

record mongo_config =
  mg_uri :: string
  mg_database :: string
  mg_application_name :: "string option"
  mg_min_pool_size :: "nat option"
  mg_max_pool_size :: "nat option"
  mg_connect_timeout :: "duration option"
  mg_server_selection_timeout :: "duration option"

definition mongo_config_new :: "string \<Rightarrow> string \<Rightarrow> mongo_config" where
  "mongo_config_new uri database =
     \<lparr>mg_uri = uri, mg_database = database, mg_application_name = None, mg_min_pool_size = None, mg_max_pool_size = None,
      mg_connect_timeout = Some (10 * nanos_per_sec), mg_server_selection_timeout = Some (10 * nanos_per_sec)\<rparr>"

definition mongo_with_application_name :: "string \<Rightarrow> mongo_config \<Rightarrow> mongo_config" where
  "mongo_with_application_name name c = c\<lparr>mg_application_name := Some name\<rparr>"

definition mongo_with_pool_size :: "nat \<Rightarrow> nat \<Rightarrow> mongo_config \<Rightarrow> mongo_config option" where
  "mongo_with_pool_size low high c =
     (if high = 0 \<or> high < low then None else Some (c\<lparr>mg_min_pool_size := Some low, mg_max_pool_size := Some high\<rparr>))"

definition mongo_with_timeouts :: "duration \<Rightarrow> duration \<Rightarrow> mongo_config \<Rightarrow> mongo_config option" where
  "mongo_with_timeouts connect server_selection c =
     (if connect = 0 \<or> server_selection = 0 then None
      else Some (c\<lparr>mg_connect_timeout := Some connect, mg_server_selection_timeout := Some server_selection\<rparr>))"

datatype mongo_error = InvalidDatabase | MongoInvalidBatchSize | MongoNotFound string | Driver string

definition mongo_is_not_found :: "mongo_error \<Rightarrow> bool" where
  "mongo_is_not_found e = (case e of MongoNotFound _ \<Rightarrow> True | _ \<Rightarrow> False)"

definition mongo_error_text :: "mongo_error \<Rightarrow> string" where
  "mongo_error_text e =
     (case e of
        InvalidDatabase \<Rightarrow> ''MongoDB database name cannot be empty''
      | MongoInvalidBatchSize \<Rightarrow> ''MongoDB bulk batch size must be positive''
      | MongoNotFound entity \<Rightarrow> entity @ '' not found''
      | Driver error \<Rightarrow> ''MongoDB operation failed: '' @ error)"

record mongo_options =
  mo_app_name :: "string option"
  mo_min_pool_size :: "nat option"
  mo_max_pool_size :: "nat option"
  mo_connect_timeout :: "duration option"
  mo_server_selection_timeout :: "duration option"

text \<open>
  \<open>connect\<close>: the options parsed from the URI are overwritten by the configuration, also where it has
  none of its own.
\<close>

definition mongo_connect ::
  "(string \<Rightarrow> string + mongo_options) \<Rightarrow> (mongo_options \<Rightarrow> string + 'c) \<Rightarrow> mongo_config \<Rightarrow> mongo_error + ('c \<times> string)" where
  "mongo_connect parse_uri open_client c =
     (if is_blank (mg_database c) then Inl InvalidDatabase
      else case parse_uri (mg_uri c) of
        Inl e \<Rightarrow> Inl (Driver e)
      | Inr options \<Rightarrow>
          (case open_client (options\<lparr>mo_app_name := mg_application_name c, mo_min_pool_size := mg_min_pool_size c,
              mo_max_pool_size := mg_max_pool_size c, mo_connect_timeout := mg_connect_timeout c,
              mo_server_selection_timeout := mg_server_selection_timeout c\<rparr>) of
             Inl e \<Rightarrow> Inl (Driver e)
           | Inr client \<Rightarrow> Inr (client, mg_database c)))"

definition mongo_from_client :: "'c \<Rightarrow> string \<Rightarrow> mongo_error + ('c \<times> string)" where
  "mongo_from_client client database = (if is_blank database then Inl InvalidDatabase else Inr (client, database))"

section \<open>Instrumented operations\<close>

definition mongo_outcome :: "mongo_error + 'a \<Rightarrow> string" where
  "mongo_outcome r = (case r of Inr _ \<Rightarrow> ''success'' | Inl (MongoNotFound _) \<Rightarrow> ''not_found'' | Inl _ \<Rightarrow> ''error'')"

datatype mongo_kind = MongoQuery | MongoExecute | MongoBulkInsert

fun mongo_kind_name :: "mongo_kind \<Rightarrow> string" where
  "mongo_kind_name MongoQuery = ''query''"
| "mongo_kind_name MongoExecute = ''execute''"
| "mongo_kind_name MongoBulkInsert = ''bulk_insert''"

definition mongo_instrument ::
  "string \<Rightarrow> mongo_kind \<Rightarrow> mongo_error + 'a \<Rightarrow> sql_metrics option \<Rightarrow> (mongo_error + 'a) \<times> sql_metrics option" where
  "mongo_instrument operation kind result m =
     (result, map_option (\<lambda>m. m @ [(operation, mongo_kind_name kind, mongo_outcome result)]) m)"

definition driver_error :: "string + 'a \<Rightarrow> mongo_error + 'a" where
  "driver_error r = (case r of Inl e \<Rightarrow> Inl (Driver e) | Inr a \<Rightarrow> Inr a)"

definition mongo_query :: "string \<Rightarrow> string + 'a \<Rightarrow> sql_metrics option \<Rightarrow> (mongo_error + 'a) \<times> sql_metrics option" where
  "mongo_query operation r = mongo_instrument operation MongoQuery (driver_error r)"

definition mongo_query_one :: "string \<Rightarrow> string \<Rightarrow> string + 'a option \<Rightarrow> sql_metrics option \<Rightarrow> (mongo_error + 'a) \<times> sql_metrics option" where
  "mongo_query_one operation entity r = mongo_instrument operation MongoQuery
     (and_then (driver_error r) (\<lambda>row. case row of None \<Rightarrow> Inl (MongoNotFound entity) | Some a \<Rightarrow> Inr a))"

definition mongo_execute :: "string \<Rightarrow> string + 'a \<Rightarrow> sql_metrics option \<Rightarrow> (mongo_error + 'a) \<times> sql_metrics option" where
  "mongo_execute operation r = mongo_instrument operation MongoExecute (driver_error r)"

function mongo_bulk_loop ::
  "nat \<Rightarrow> ('t list \<Rightarrow> 'd \<Rightarrow> (string + 'r) \<times> 'd) \<Rightarrow> 't list \<Rightarrow> 'r list \<Rightarrow> 'd \<Rightarrow> (mongo_error + 'r list) \<times> 'd" where
  "mongo_bulk_loop batch_size insert_many items results d =
     (let batch = take batch_size items in
      if batch = [] then (Inr results, d)
      else case insert_many batch d of
        (Inr r, d') \<Rightarrow> mongo_bulk_loop batch_size insert_many (drop batch_size items) (results @ [r]) d'
      | (Inl e, d') \<Rightarrow> (Inl (Driver e), d'))"
  by pat_completeness auto
termination
  by (relation "measure (\<lambda>(_, _, items, _, _). length items)") auto

declare mongo_bulk_loop.simps [simp del]

definition mongo_bulk_insert ::
  "string \<Rightarrow> nat \<Rightarrow> ('t list \<Rightarrow> 'd \<Rightarrow> (string + 'r) \<times> 'd) \<Rightarrow> 't list \<Rightarrow> 'd \<times> sql_metrics option \<Rightarrow>
   (mongo_error + 'r list) \<times> ('d \<times> sql_metrics option)" where
  "mongo_bulk_insert operation batch_size insert_many items y =
     (if batch_size = 0 then (Inl MongoInvalidBatchSize, y)
      else case mongo_bulk_loop batch_size insert_many items [] (fst y) of
        (result, d) \<Rightarrow> (case mongo_instrument operation MongoBulkInsert result (snd y) of (r, m) \<Rightarrow> (r, d, m)))"

section \<open>The cached collection\<close>

type_synonym mongo_cache_config = sql_cache_config
type_synonym ('k, 't, 'i) mongo_cache = "('k, 't, 'i) sql_cache"

definition mongo_cache_config_new :: "nat \<Rightarrow> duration \<Rightarrow> mongo_cache_config option" where
  "mongo_cache_config_new capacity ttl =
     (if capacity = 0 \<or> ttl = 0 then None
      else Some \<lparr>scc_capacity = capacity, scc_ttl = ttl, scc_not_found_ttl = Some ttl, scc_jitter = 0\<rparr>)"

definition cached_mongo_new :: "mongo_cache_config \<Rightarrow> ('k, 't, 'i) mongo_cache option" where
  "cached_mongo_new = cached_sql_new"

definition mongo_find :: "'k \<Rightarrow> instant \<Rightarrow> ('k, 't, 'i) mongo_cache \<Rightarrow> 't option option \<times> ('k, 't, 'i) mongo_cache" where
  "mongo_find = find_cached"

definition mongo_find_store :: "'k \<Rightarrow> 64 word \<Rightarrow> 't option \<Rightarrow> instant \<Rightarrow> ('k, 't, 'i) mongo_cache \<Rightarrow> ('k, 't, 'i) mongo_cache option" where
  "mongo_find_store = find_store"

definition mongo_index_store ::
  "'i \<Rightarrow> 64 word \<Rightarrow> ('k \<times> 't) option \<Rightarrow> instant \<Rightarrow> ('k, 't, 'i) mongo_cache \<Rightarrow> ('k, 't, 'i) mongo_cache option" where
  "mongo_index_store = index_store"

definition mongo_invalidate_many :: "'k list \<Rightarrow> ('k, 't, 'i) mongo_cache \<Rightarrow> ('k, 't, 'i) mongo_cache" where
  "mongo_invalidate_many = sql_invalidate_many"

definition mongo_invalidate_related :: "'k list \<Rightarrow> 'i list \<Rightarrow> ('k, 't, 'i) mongo_cache \<Rightarrow> ('k, 't, 'i) mongo_cache" where
  "mongo_invalidate_related = sql_invalidate_related"

text \<open>\<open>execute_indexed\<close>, with the collection's state threaded through the operation.\<close>

definition collection_execute_indexed ::
  "'k list \<Rightarrow> 'i list \<Rightarrow> ('d \<Rightarrow> (string + 'r) \<times> 'd) \<Rightarrow> ('k, 't, 'i) mongo_cache \<times> 'd \<Rightarrow> (string + 'r) \<times> (('k, 't, 'i) mongo_cache \<times> 'd)" where
  "collection_execute_indexed keys indexes operation y =
     (case operation (snd y) of
        (Inl e, d) \<Rightarrow> (Inl e, fst y, d)
      | (Inr r, d) \<Rightarrow> (Inr r, mongo_invalidate_related keys indexes (fst y), d))"

definition collection_insert_one ::
  "('t \<Rightarrow> 'd \<Rightarrow> (string + 'r) \<times> 'd) \<Rightarrow> 'k \<Rightarrow> 'i list \<Rightarrow> 't \<Rightarrow> ('k, 't, 'i) mongo_cache \<times> 'd \<Rightarrow> (string + 'r) \<times> (('k, 't, 'i) mongo_cache \<times> 'd)" where
  "collection_insert_one driver_insert key indexes document = collection_execute_indexed [key] indexes (driver_insert document)"

definition collection_insert_many ::
  "('t list \<Rightarrow> 'd \<Rightarrow> (string + 'r) \<times> 'd) \<Rightarrow> 'k list \<Rightarrow> 'i list \<Rightarrow> 't list \<Rightarrow> ('k, 't, 'i) mongo_cache \<times> 'd \<Rightarrow>
   (string + 'r) \<times> (('k, 't, 'i) mongo_cache \<times> 'd)" where
  "collection_insert_many driver_insert keys indexes documents = collection_execute_indexed keys indexes (driver_insert documents)"

definition collection_update_one ::
  "('f \<Rightarrow> 'u \<Rightarrow> 'd \<Rightarrow> (string + 'r) \<times> 'd) \<Rightarrow> 'k list \<Rightarrow> 'i list \<Rightarrow> 'f \<Rightarrow> 'u \<Rightarrow> ('k, 't, 'i) mongo_cache \<times> 'd \<Rightarrow>
   (string + 'r) \<times> (('k, 't, 'i) mongo_cache \<times> 'd)" where
  "collection_update_one driver_update keys indexes selector update = collection_execute_indexed keys indexes (driver_update selector update)"

definition collection_replace_one ::
  "('f \<Rightarrow> 't \<Rightarrow> 'd \<Rightarrow> (string + 'r) \<times> 'd) \<Rightarrow> 'k list \<Rightarrow> 'i list \<Rightarrow> 'f \<Rightarrow> 't \<Rightarrow> ('k, 't, 'i) mongo_cache \<times> 'd \<Rightarrow>
   (string + 'r) \<times> (('k, 't, 'i) mongo_cache \<times> 'd)" where
  "collection_replace_one driver_replace keys indexes selector replacement =
     collection_execute_indexed keys indexes (driver_replace selector replacement)"

definition collection_delete_one ::
  "('f \<Rightarrow> 'd \<Rightarrow> (string + 'r) \<times> 'd) \<Rightarrow> 'k list \<Rightarrow> 'i list \<Rightarrow> 'f \<Rightarrow> ('k, 't, 'i) mongo_cache \<times> 'd \<Rightarrow>
   (string + 'r) \<times> (('k, 't, 'i) mongo_cache \<times> 'd)" where
  "collection_delete_one driver_delete keys indexes selector = collection_execute_indexed keys indexes (driver_delete selector)"

section \<open>What follows\<close>

text \<open>
  An operation that fails after it has changed the collection leaves the cache as it was. Inserting
  several documents stops at the first that is refused and keeps the ones before it: a cached absence
  of such a document is still answered.
\<close>

lemma failed_operation_not_invalidated:
  assumes "operation d = (Inl e, d')"
  shows "collection_execute_indexed keys indexes operation (q, d) = (Inl e, q, d')"
  using assms by (simp add: collection_execute_indexed_def)

lemma partial_insert_hidden:
  assumes "driver_insert documents d = (Inl e, d')" and "fst (mongo_find key now q) = Some None" and "key \<in> set keys"
    and "collection_insert_many driver_insert keys indexes documents (q, d) = (r, q', d'')"
  shows "fst (mongo_find key now q') = Some None \<and> d'' = d'"
  using assms by (simp add: collection_insert_many_def collection_execute_indexed_def)

text \<open>A successful operation leaves nothing cached under the keys it names.\<close>

lemma operation_invalidates:
  assumes "operation d = (Inr r, d')" and "k \<in> set keys"
    and "collection_execute_indexed keys indexes operation (q, d) = (r', q', d'')"
  shows "fst (mongo_find k now q') = None"
proof -
  have "\<not> holds (sq_cache q') k v" for v
    using assms by (auto simp: collection_execute_indexed_def mongo_invalidate_related_def sql_invalidate_related_def
        sql_invalidate_many_def Let_def holds_drop_keys)
  then show ?thesis using find_cached_got [of k now q'] by (cases "fst (find_cached k now q')") (auto simp: mongo_find_def)
qed

text \<open>The bulk insert hands over the same batches as that of the SQL store.\<close>

lemma mongo_bulk_loop_eq:
  "mongo_bulk_loop n f items results d =
     (case bulk_loop n f items results d of
        (Inl (SqlDatabase e), d') \<Rightarrow> (Inl (Driver e), d')
      | (Inl _, d') \<Rightarrow> (Inl MongoInvalidBatchSize, d')
      | (Inr rs, d') \<Rightarrow> (Inr rs, d'))"
proof (induction n f items results d rule: bulk_loop.induct)
  case (1 n f items results d)
  show ?case
    using "1.IH" [OF refl]
    by (subst mongo_bulk_loop.simps, subst bulk_loop.simps) (auto simp: Let_def split: sum.splits prod.splits)
qed

end
