(* ===== verification/Civil_Date.thy ===== *)
theory Civil_Date
  imports Prelude "HOL-Library.Signed_Division"
begin

text \<open>
  \<open>core/src/log.rs\<close>, the date of a day number: \<open>date_from_unix_day\<close> computes year, month and day from
  the number of days since 1970-01-01 without tables. It is compared with the Gregorian calendar as
  it is defined, day after day. Rust's division truncates, which differs from the mathematical one
  where the era of a day before year 0 is computed.
\<close>

section \<open>The algorithm\<close>

definition day_era :: "int \<Rightarrow> int" where
  "day_era day = (if 0 \<le> day then day else day - 146096) sdiv 146097"

definition year_of_era :: "int \<Rightarrow> int" where
  "year_of_era doe = (doe - doe div 1460 + doe div 36524 - doe div 146096) div 365"

definition day_of_year :: "int \<Rightarrow> int \<Rightarrow> int" where
  "day_of_year doe yoe = doe - (365 * yoe + yoe div 4 - yoe div 100)"

definition month_day :: "int \<Rightarrow> int \<times> int" where
  "month_day doy =
     (let month_prime = (5 * doy + 2) div 153;
          day = doy - (153 * month_prime + 2) div 5 + 1;
          month = month_prime + (if month_prime < 10 then 3 else - 9) in (month, day))"

definition civil_from_days :: "int \<Rightarrow> int \<times> int \<times> int" where
  "civil_from_days unix_day =
     (let day = unix_day + 719468;
          era = day_era day;
          doe = day - era * 146097;
          yoe = year_of_era doe;
          year = yoe + era * 400;
          (month, d) = month_day (day_of_year doe yoe) in
      (year + (if month \<le> 2 then 1 else 0), month, d))"

section \<open>The calendar\<close>

definition leap_year :: "int \<Rightarrow> bool" where
  "leap_year y \<longleftrightarrow> 4 dvd y \<and> (\<not> 100 dvd y \<or> 400 dvd y)"

definition month_length :: "int \<Rightarrow> int \<Rightarrow> int" where
  "month_length y m =
     (if m = 2 then if leap_year y then 29 else 28
      else if m \<in> {4, 6, 9, 11} then 30 else 31)"

definition next_date :: "int \<times> int \<times> int \<Rightarrow> int \<times> int \<times> int" where
  "next_date d =
     (case d of (y, m, n) \<Rightarrow>
        if n < month_length y m then (y, m, n + 1)
        else if m < 12 then (y, m + 1, 1)
        else (y + 1, 1, 1))"

section \<open>Years\<close>

text \<open>The first day, within the era, of a year that starts in March.\<close>

definition year_start :: "int \<Rightarrow> int" where
  "year_start y = 365 * y + y div 4 - y div 100 + y div 400"

lemma div_step:
  fixes y k :: int
  assumes "0 < k"
  shows "(y + 1) div k = y div k + (if k dvd y + 1 then 1 else 0)"
proof -
  define q r where "q = y div k" and "r = y mod k"
  have y: "y = k * q + r" "0 \<le> r" "r < k" using assms by (simp_all add: q_def r_def)
  show ?thesis
  proof (cases "r + 1 = k")
    case True
    then have "y + 1 = k * (q + 1)" using y(1) by (simp add: algebra_simps)
    then show ?thesis using assms by (simp add: q_def [symmetric])
  next
    case False
    then have r: "0 < r + 1" "r + 1 < k" using y by auto
    have "(y + 1) div k = q" "(y + 1) mod k = r + 1"
      using y r by (auto intro!: int_div_pos_eq int_mod_pos_eq simp: algebra_simps)
    then show ?thesis using r by (auto simp: q_def [symmetric] dvd_eq_mod_eq_0)
  qed
qed

lemma dvd_chain: "(100 :: int) dvd y \<Longrightarrow> 4 dvd y" "(400 :: int) dvd y \<Longrightarrow> 100 dvd y"
  using dvd_trans [of 4 100 y] dvd_trans [of 100 400 y] by simp_all

lemma year_step: "year_start (y + 1) = year_start y + (if leap_year (y + 1) then 366 else 365)"
proof -
  note s = div_step [of 4 y] div_step [of 100 y] div_step [of 400 y]
  show ?thesis
    unfolding year_start_def leap_year_def s [simplified] using dvd_chain [of "y + 1"]
    by (cases "4 dvd y + 1"; cases "100 dvd y + 1"; cases "400 dvd y + 1") simp_all
qed

text \<open>The formula for the year grows with the day, so its values at the ends of each year decide it.\<close>

definition year_scale :: "int \<Rightarrow> int" where
  "year_scale doe = doe - doe div 1460 + doe div 36524 - doe div 146096"

lemma year_scale_step: "year_scale d \<le> year_scale (d + 1)"
proof -
  have "146096 dvd d + 1 \<Longrightarrow> (36524 :: int) dvd d + 1" using dvd_trans [of 36524 146096 "d + 1"] by simp
  then show ?thesis by (auto simp: year_scale_def div_step)
qed

lemma year_scale_mono: "d \<le> e \<Longrightarrow> year_scale d \<le> year_scale e"
proof (induction e rule: int_ge_induct)
  case (step e)
  then show ?case using year_scale_step [of e] by simp
qed simp

text \<open>A property of all numbers of an interval, for evaluation.\<close>

fun range_all :: "(int \<Rightarrow> bool) \<Rightarrow> int \<Rightarrow> nat \<Rightarrow> bool" where
  "range_all P i 0 = True"
| "range_all P i (Suc n) = (P i \<and> range_all P (i + 1) n)"

lemma range_allD: "range_all P i n \<Longrightarrow> i \<le> k \<Longrightarrow> k < i + int n \<Longrightarrow> P k"
proof (induction P i n rule: range_all.induct)
  case (2 P i n)
  then show ?case by (cases "k = i") auto
qed simp

definition year_ends :: "int \<Rightarrow> bool" where
  "year_ends y \<longleftrightarrow> year_of_era (year_start y) = y \<and> year_of_era (year_start (y + 1) - 1) = y"

lemma year_ends_0: "range_all year_ends 0 100" by code_simp
lemma year_ends_1: "range_all year_ends 100 100" by code_simp
lemma year_ends_2: "range_all year_ends 200 100" by code_simp
lemma year_ends_3: "range_all year_ends 300 100" by code_simp

lemma year_ends_all: "0 \<le> y \<Longrightarrow> y < 400 \<Longrightarrow> year_ends y"
  using range_allD [OF year_ends_0, of y] range_allD [OF year_ends_1, of y] range_allD [OF year_ends_2, of y]
    range_allD [OF year_ends_3, of y] by linarith

lemma year_of_era_eq:
  assumes "0 \<le> y" and "y < 400" and "year_start y \<le> d" and "d < year_start (y + 1)"
  shows "year_of_era d = y"
proof -
  have scale: "year_of_era d = year_scale d div 365" for d by (simp add: year_of_era_def year_scale_def)
  have "year_of_era (year_start y) \<le> year_of_era d"
    unfolding scale by (intro zdiv_mono1 year_scale_mono assms) simp
  moreover have "year_of_era d \<le> year_of_era (year_start (y + 1) - 1)"
    unfolding scale using assms(4) by (intro zdiv_mono1 year_scale_mono) simp_all
  ultimately show ?thesis using year_ends_all [OF assms(1,2)] by (simp add: year_ends_def)
qed

lemma year_exists:
  assumes "0 \<le> d" and "d < year_start (int n)"
  shows "\<exists>y. 0 \<le> y \<and> y < int n \<and> year_start y \<le> d \<and> d < year_start (y + 1)"
  using assms(2)
proof (induction n)
  case 0
  then show ?case using assms(1) by (simp add: year_start_def)
next
  case (Suc n)
  show ?case
  proof (cases "d < year_start (int n)")
    case True
    then show ?thesis using Suc.IH by force
  next
    case False
    then show ?thesis using Suc.prems by (intro exI [of _ "int n"]) (simp add: add.commute)
  qed
qed

section \<open>Months\<close>

definition month_step :: "int \<Rightarrow> bool" where
  "month_step doy \<longleftrightarrow>
     (case month_day doy of (m, d) \<Rightarrow>
        1 \<le> m \<and> m \<le> 12 \<and> (m = 2 \<and> d = 28 \<longleftrightarrow> doy = 364) \<and> (m = 2 \<longrightarrow> d \<le> 28) \<and>
        month_day (doy + 1) = (if d < month_length 4 m then (m, d + 1) else if m < 12 then (m + 1, 1) else (1, 1)))"

lemma month_steps: "range_all month_step 0 365" by code_simp

lemma leap_year_era: "leap_year (y + 400 * e) = leap_year y"
proof -
  have "k dvd y + 400 * e \<longleftrightarrow> k dvd y" if "k dvd 400" for k :: int
    using that by (metis add.commute dvd_add_right_iff dvd_mult2)
  then show ?thesis by (simp add: leap_year_def)
qed

text \<open>The date within a year \<open>y\<close> that starts in March.\<close>

definition march_date :: "int \<Rightarrow> int \<Rightarrow> int \<times> int \<times> int" where
  "march_date y doy = (case month_day doy of (m, d) \<Rightarrow> (y + (if m \<le> 2 then 1 else 0), m, d))"

lemma march_date_next:
  assumes "0 \<le> doy" and "doy + 1 < (if leap_year (y + 1) then 366 else 365)"
  shows "next_date (march_date y doy) = march_date y (doy + 1)"
proof -
  have "doy < 365" using assms(2) by (simp split: if_splits)
  obtain m d where md: "month_day doy = (m, d)" by fastforce
  then have s: "1 \<le> m" "m \<le> 12" "m = 2 \<and> d = 28 \<longleftrightarrow> doy = 364" "m = 2 \<longrightarrow> d \<le> 28"
    "month_day (doy + 1) = (if d < month_length 4 m then (m, d + 1) else if m < 12 then (m + 1, 1) else (1, 1))"
    using range_allD [OF month_steps assms(1)] \<open>doy < 365\<close> by (auto simp: month_step_def)
  have four: "leap_year 4" by (simp add: leap_year_def)
  have leap: "leap_year (y + 1)" if "doy = 364" using assms(2) that by (simp split: if_splits)
  show ?thesis
  proof (cases "m = 2")
    case True
    then show ?thesis using s(3-5) leap md four by (cases "d = 28") (auto simp: march_date_def next_date_def month_length_def)
  next
    case False
    then have "month_length z m = month_length 4 m" for z by (simp add: month_length_def)
    then show ?thesis using False s(1,2,5) md by (auto simp: march_date_def next_date_def month_length_def split: if_splits)
  qed
qed

lemma march_date_end:
  assumes "doy + 1 = (if leap_year (y + 1) then 366 else 365)"
  shows "next_date (march_date y doy) = march_date (y + 1) 0"
proof -
  have "month_day 0 = (3, 1)" "month_day 364 = (2, 28)" "month_day 365 = (2, 29)" by code_simp+
  then show ?thesis using assms by (auto simp: march_date_def next_date_def month_length_def split: if_splits)
qed

section \<open>The whole algorithm\<close>

lemma day_era_div: "day_era d = d div 146097"
proof (cases "0 \<le> d")
  case False
  have "(146096 - d) div 146097 = - (d div 146097)"
    using minus_div_mult_eq_mod [of d 146097] pos_mod_bound [of 146097 d] pos_mod_sign [of 146097 d]
    by (intro int_div_pos_eq [of _ _ _ "146096 - d mod 146097"]) (simp_all add: algebra_simps)
  with False show ?thesis by (simp add: day_era_def signed_divide_int_def)
qed (auto simp: day_era_def signed_divide_int_def sgn_if)

lemma civil_march:
  assumes "n + 719468 = 146097 * e + d" and "0 \<le> y" and "y < 400" and "year_start y \<le> d" and "d < year_start (y + 1)"
    and "0 \<le> d" and "d < 146097"
  shows "civil_from_days n = march_date (y + 400 * e) (d - year_start y)"
proof -
  have e: "day_era (n + 719468) = e" unfolding day_era_div assms(1) using assms(6,7) by simp
  have "y div 400 = 0" using assms(2,3) by simp
  then have "day_of_year d y = d - year_start y" by (simp add: day_of_year_def year_start_def)
  then show ?thesis
    using assms(1) year_of_era_eq [OF assms(2-5)] unfolding civil_from_days_def e Let_def
    by (simp add: march_date_def split: prod.splits)
qed

lemma civil_position:
  obtains e d y where "n + 719468 = 146097 * e + d" and "0 \<le> y" and "y < 400" and "year_start y \<le> d" and "d < year_start (y + 1)"
    and "0 \<le> d" and "d < 146097"
proof -
  define e d where "e = (n + 719468) div 146097" and "d = (n + 719468) mod 146097"
  have d: "n + 719468 = 146097 * e + d" "0 \<le> d" "d < 146097" by (simp_all add: e_def d_def)
  have "d < year_start (int 400)" using d(3) by (simp add: year_start_def)
  from year_exists [OF d(2) this] obtain y where "0 \<le> y" "y < 400" "year_start y \<le> d" "d < year_start (y + 1)" by auto
  with d that show thesis by blast
qed

lemma civil_next: "civil_from_days (n + 1) = next_date (civil_from_days n)"
proof -
  obtain e d y where p: "n + 719468 = 146097 * e + d" "0 \<le> y" "y < 400" "year_start y \<le> d" "d < year_start (y + 1)" "0 \<le> d" "d < 146097"
    by (rule civil_position)
  have now: "civil_from_days n = march_date (y + 400 * e) (d - year_start y)" by (rule civil_march [OF p])
  have len: "year_start (y + 1) = year_start y + (if leap_year (y + 400 * e + 1) then 366 else 365)"
    using year_step [of y] leap_year_era [of "y + 1" e] by (simp add: ac_simps)
  show ?thesis
  proof (cases "d + 1 < year_start (y + 1)")
    case True
    have "year_start (y + 1) \<le> 146097"
    proof -
      have "y + 1 \<le> 400" using p(3) by simp
      then have "(y + 1) div 4 \<le> 100" "(y + 1) div 100 \<ge> 0" "(y + 1) div 400 \<le> (y + 1) div 100" using p(2) by (simp_all add: div_le_mono zdiv_mono2)
      then show ?thesis using p(2,3) by (cases "y = 399") (auto simp: year_start_def)
    qed
    then have "civil_from_days (n + 1) = march_date (y + 400 * e) (d + 1 - year_start y)"
      using p True by (intro civil_march) simp_all
    moreover have "d + 1 - year_start y = d - year_start y + 1" by simp
    ultimately show ?thesis
      unfolding now using march_date_next [of "d - year_start y" "y + 400 * e"] p(4) True len by simp
  next
    case False
    then have last: "d - year_start y + 1 = (if leap_year (y + 400 * e + 1) then 366 else 365)" using p(5) len by simp
    have "civil_from_days (n + 1) = march_date (y + 400 * e + 1) 0"
    proof (cases "y = 399")
      case True
      then have "d = 146096" using False p(5) by (simp add: year_start_def)
      then have "n + 1 + 719468 = 146097 * (e + 1) + 0" using p(1) by simp
      from civil_march [OF this, of 0] show ?thesis using True by (simp add: year_start_def algebra_simps)
    next
      case inner: False
      have "d + 1 = year_start (y + 1)" using False p(5) by simp
      moreover have "year_start (y + 1) < year_start (y + 1 + 1)" using year_step [of "y + 1"] by simp
      moreover have "d + 1 < 146097" using inner p(3) False p(5) by (auto simp: year_start_def)
      ultimately show ?thesis
        using civil_march [of "n + 1" e "d + 1" "y + 1"] p inner by (simp add: ac_simps)
    qed
    then show ?thesis unfolding now using march_date_end [OF last] by simp
  qed
qed

text \<open>
  C22. The date of every day number is its Gregorian date: day 0 is 1970-01-01, and the date of the next
  day is the next date of the calendar, for days before and after.
\<close>

theorem civil_from_days_gregorian:
  "civil_from_days 0 = (1970, 1, 1) \<and> (\<forall>n. civil_from_days (n + 1) = next_date (civil_from_days n))"
proof -
  have "civil_from_days 0 = (1970, 1, 1)" by code_simp
  then show ?thesis using civil_next by blast
qed

section \<open>Printing\<close>

definition pad_int :: "nat \<Rightarrow> int \<Rightarrow> string" where
  "pad_int w i =
     (if i < 0 then CHR ''-'' # replicate (w - 1 - length (show_nat (nat (- i)))) (CHR ''0'') @ show_nat (nat (- i))
      else replicate (w - length (show_nat (nat i))) (CHR ''0'') @ show_nat (nat i))"

definition date_from_unix_day :: "int \<Rightarrow> string" where
  "date_from_unix_day day =
     (case civil_from_days day of (y, m, d) \<Rightarrow> pad_int 4 y @ ''-'' @ pad_int 2 m @ ''-'' @ pad_int 2 d)"

end
