(* ===== verification/Log.thy ===== *)
theory Log
  imports Trace Civil_Date
begin

text \<open>
  \<open>core/src/log.rs\<close>: levels, records, sampling, the writer thread with its bounded queue, and files
  rotated by size or by day on a file system whose operations may fail. JSON values are any type
  with a rendering; compressed content is kept apart as such.
\<close>

section \<open>Configuration\<close>

datatype log_level = Debug | Info | Slow | Warn | LogErr | Severe

fun level_name :: "log_level \<Rightarrow> string" where
  "level_name Debug = ''debug''"
| "level_name Info = ''info''"
| "level_name Slow = ''slow''"
| "level_name Warn = ''warn''"
| "level_name LogErr = ''error''"
| "level_name Severe = ''severe''"

fun level_rank :: "log_level \<Rightarrow> nat" where
  "level_rank Debug = 0"
| "level_rank Info = 1"
| "level_rank Slow = 2"
| "level_rank Warn = 3"
| "level_rank LogErr = 4"
| "level_rank Severe = 5"

instantiation log_level :: linorder
begin

definition less_eq_log_level :: "log_level \<Rightarrow> log_level \<Rightarrow> bool" where
  "less_eq_log_level a b \<longleftrightarrow> level_rank a \<le> level_rank b"

definition less_log_level :: "log_level \<Rightarrow> log_level \<Rightarrow> bool" where
  "less_log_level a b \<longleftrightarrow> level_rank a < level_rank b"

instance
proof
  fix a b :: log_level
  show "a \<le> b \<Longrightarrow> b \<le> a \<Longrightarrow> a = b" by (cases a; cases b) (simp_all add: less_eq_log_level_def)
qed (auto simp: less_eq_log_level_def less_log_level_def)

end

datatype log_encoding = JsonEncoding | PlainEncoding

datatype rotation_policy = Daily | BySize nat nat

datatype log_target = LogConsole | LogFile string rotation_policy

record log_config =
  lc_service_name :: string
  lc_level :: log_level
  lc_encoding :: log_encoding
  lc_target :: log_target
  lc_max_content_length :: "nat option"
  lc_retention_days :: "nat option"
  lc_compress_rotated :: bool

definition log_console :: "string \<Rightarrow> log_config" where
  "log_console name =
     \<lparr>lc_service_name = name, lc_level = Info, lc_encoding = JsonEncoding, lc_target = LogConsole,
      lc_max_content_length = None, lc_retention_days = None, lc_compress_rotated = False\<rparr>"

definition log_file :: "string \<Rightarrow> string \<Rightarrow> rotation_policy \<Rightarrow> log_config" where
  "log_file name directory rotation = (log_console name)\<lparr>lc_target := LogFile directory rotation\<rparr>"

definition log_with_level :: "log_level \<Rightarrow> log_config \<Rightarrow> log_config" where
  "log_with_level level c = c\<lparr>lc_level := level\<rparr>"

definition log_with_encoding :: "log_encoding \<Rightarrow> log_config \<Rightarrow> log_config" where
  "log_with_encoding encoding c = c\<lparr>lc_encoding := encoding\<rparr>"

definition log_with_max_content_length :: "nat \<Rightarrow> log_config \<Rightarrow> log_config option" where
  "log_with_max_content_length n c = (if n = 0 then None else Some (c\<lparr>lc_max_content_length := Some n\<rparr>))"

definition log_with_retention_days :: "nat \<Rightarrow> log_config \<Rightarrow> log_config option" where
  "log_with_retention_days days c = (if days = 0 then None else Some (c\<lparr>lc_retention_days := Some days\<rparr>))"

definition log_with_rotated_compression :: "bool \<Rightarrow> log_config \<Rightarrow> log_config" where
  "log_with_rotated_compression enabled c = c\<lparr>lc_compress_rotated := enabled\<rparr>"

datatype log_error = EmptyServiceName | InvalidMaxSize | InvalidBufferCapacity | LogIo string | LogSerialize string | Poisoned

definition log_validate_config :: "log_config \<Rightarrow> log_error + unit" where
  "log_validate_config c =
     (if is_blank (lc_service_name c) then Inl EmptyServiceName
      else case lc_target c of
        LogFile _ (BySize max_bytes _) \<Rightarrow> if max_bytes = 0 then Inl InvalidMaxSize else Inr ()
      | _ \<Rightarrow> Inr ())"

definition log_validate_capacity :: "nat \<Rightarrow> log_error + unit" where
  "log_validate_capacity capacity = (if capacity = 0 then Inl InvalidBufferCapacity else Inr ())"

section \<open>Sampling\<close>

record log_sampler =
  sp_first :: nat
  sp_thereafter :: nat
  sp_seen :: "64 word"

definition sampler_new :: "nat \<Rightarrow> nat \<Rightarrow> log_sampler option" where
  "sampler_new first thereafter =
     (if thereafter = 0 then None else Some \<lparr>sp_first = first, sp_thereafter = thereafter, sp_seen = 0\<rparr>)"

definition sampler_allow :: "log_sampler \<Rightarrow> bool \<times> log_sampler" where
  "sampler_allow s =
     (let seen = unat (sp_seen s) in
      (seen < sp_first s \<or> (seen - sp_first s) mod sp_thereafter s = 0, s\<lparr>sp_seen := sp_seen s + 1\<rparr>))"

section \<open>Records\<close>

type_synonym 'j log_record = "(string, 'j) bmap"

record 'j log_context =
  lx_fields :: "'j log_record"
  lx_trace :: "trace_context option"

definition log_context_new :: "'j log_context" where
  "log_context_new = \<lparr>lx_fields = [], lx_trace = None\<rparr>"

definition context_with_field :: "string \<times> 'j \<Rightarrow> 'j log_context \<Rightarrow> 'j log_context" where
  "context_with_field f x = x\<lparr>lx_fields := bt_put (fst f) (snd f) (lx_fields x)\<rparr>"

definition context_with_trace :: "trace_context \<Rightarrow> 'j log_context \<Rightarrow> 'j log_context" where
  "context_with_trace t x = x\<lparr>lx_trace := Some t\<rparr>"

text \<open>\<open>truncate\<close> keeps whole characters: a byte that continues one is not counted.\<close>

fun take_chars :: "nat \<Rightarrow> string \<Rightarrow> string" where
  "take_chars n [] = []"
| "take_chars n (c # cs) =
     (if continuation c then c # take_chars n cs
      else case n of 0 \<Rightarrow> [] | Suc m \<Rightarrow> c # take_chars m cs)"

definition log_truncate :: "string \<Rightarrow> nat option \<Rightarrow> string" where
  "log_truncate s limit = (case limit of None \<Rightarrow> s | Some n \<Rightarrow> take_chars n s)"

definition timestamp_text :: "nat \<Rightarrow> nat \<Rightarrow> string" where
  "timestamp_text seconds millis =
     (let day = int seconds div 86400; s = int seconds mod 86400 in
      date_from_unix_day day @ ''T'' @ pad_int 2 (s div 3600) @ '':'' @ pad_int 2 (s mod 3600 div 60) @ '':'' @
      pad_int 2 (s mod 60) @ ''.'' @ pad_int 3 (int millis) @ ''Z'')"

text \<open>\<open>record\<close>: the fields of the context, those of the call, then those of the framework.\<close>

definition log_record ::
  "(string \<Rightarrow> 'j) \<Rightarrow> log_config \<Rightarrow> string \<Rightarrow> log_level \<Rightarrow> string \<Rightarrow> 'j log_context option \<Rightarrow> (string \<times> 'j) list \<Rightarrow> 'j log_record" where
  "log_record str c now level message context custom =
     (let r0 = (case context of None \<Rightarrow> [] | Some x \<Rightarrow> fold (\<lambda>(k, v). bt_put k v) (lx_fields x) []);
          r1 = fold (\<lambda>(k, v). bt_put k v) custom r0;
          r2 = bt_put ''timestamp'' (str now) r1;
          r3 = bt_put ''level'' (str (level_name level)) r2;
          r4 = bt_put ''service'' (str (lc_service_name c)) r3;
          r5 = bt_put ''message'' (str (log_truncate message (lc_max_content_length c))) r4 in
      case Option.bind context lx_trace of
        None \<Rightarrow> r5
      | Some t \<Rightarrow> bt_put ''span_id'' (str (encode_hex (tc_span_id t))) (bt_put ''trace_id'' (str (encode_hex (tc_trace_id t))) r5))"

definition reserved :: "string list" where
  "reserved = [''timestamp'', ''level'', ''service'', ''message'']"

definition encode_plain :: "('j \<Rightarrow> string option) \<Rightarrow> ('j \<Rightarrow> string) \<Rightarrow> 'j log_record \<Rightarrow> string" where
  "encode_plain as_str show_json r =
     (let text_of = (\<lambda>k. case Option.bind (map_of r k) as_str of None \<Rightarrow> [] | Some s \<Rightarrow> s) in
      text_of ''timestamp'' @ '' '' @ text_of ''level'' @ '' '' @ text_of ''service'' @ '': '' @ text_of ''message'' @
      concat (map (\<lambda>(k, v). if k \<in> set reserved then [] else '' '' @ k @ ''='' @ show_json v) r))"

end
