(* ===== verification/Log_Files.thy ===== *)
theory Log_Files
  imports Log
begin

text \<open>
  \<open>core/src/log.rs\<close>, the files: \<open>RotatingFile\<close> with both rotation policies, compression and retention,
  and the writer thread. The file system is the directory of the log, a map from names to contents;
  each operation on it may fail, as the next element of a list of faults says. The content of a
  compressed file stands for the bytes it decompresses to.
\<close>

section \<open>The directory\<close>

datatype content = PlainFile string | GzipFile string

record directory =
  dir_files :: "string \<Rightarrow> content option"
  dir_faults :: "bool list"

type_synonym 'a io = "directory \<Rightarrow> (string + 'a) \<times> directory"

definition io_return :: "'a \<Rightarrow> 'a io" where
  "io_return a w = (Inr a, w)"

definition io_fail :: "string \<Rightarrow> 'a io" where
  "io_fail e w = (Inl e, w)"

definition io_bind :: "'a io \<Rightarrow> ('a \<Rightarrow> 'b io) \<Rightarrow> 'b io" where
  "io_bind m f w = (case m w of (Inl e, w') \<Rightarrow> (Inl e, w') | (Inr a, w') \<Rightarrow> f a w')"

text \<open>An operation: it fails when the next fault says so, or when it does not apply.\<close>

definition io_op :: "((string \<Rightarrow> content option) \<Rightarrow> (string \<Rightarrow> content option) option) \<Rightarrow> unit io" where
  "io_op f w =
     (case dir_faults w of
        True # fs \<Rightarrow> (Inl ''io error'', w\<lparr>dir_faults := fs\<rparr>)
      | fs \<Rightarrow>
         (case f (dir_files w) of
            None \<Rightarrow> (Inl ''not found'', w\<lparr>dir_faults := tl fs\<rparr>)
          | Some files \<Rightarrow> (Inr (), w\<lparr>dir_files := files, dir_faults := tl fs\<rparr>)))"

definition file_exists :: "string \<Rightarrow> directory \<Rightarrow> bool" where
  "file_exists p w \<longleftrightarrow> dir_files w p \<noteq> None"

definition append_file :: "string \<Rightarrow> unit io" where
  "append_file p = io_op (\<lambda>m. Some (if m p = None then m(p \<mapsto> PlainFile []) else m))"

definition rename_file :: "string \<Rightarrow> string \<Rightarrow> unit io" where
  "rename_file a b = io_op (\<lambda>m. map_option (\<lambda>x. (m(a := None))(b \<mapsto> x)) (m a))"

definition remove_file :: "string \<Rightarrow> unit io" where
  "remove_file p = io_op (\<lambda>m. if m p = None then None else Some (m(p := None)))"

definition content_bytes :: "content \<Rightarrow> string" where
  "content_bytes x = (case x of PlainFile s \<Rightarrow> s | GzipFile s \<Rightarrow> s)"

definition file_length :: "string \<Rightarrow> directory \<Rightarrow> nat" where
  "file_length p w = (case dir_files w p of Some (PlainFile s) \<Rightarrow> length s | _ \<Rightarrow> 0)"

definition gzip_path :: "string \<Rightarrow> string" where
  "gzip_path p = p @ ''.gz''"

definition backup_path :: "string \<Rightarrow> nat \<Rightarrow> string" where
  "backup_path active index = active @ ''.'' @ show_nat index"

definition is_gzip :: "string \<Rightarrow> bool" where
  "is_gzip p \<longleftrightarrow> take 3 (rev p) = ''zg.''"

definition existing_backup :: "string \<Rightarrow> directory \<Rightarrow> string option" where
  "existing_backup p w =
     (if file_exists p w then Some p else if file_exists (gzip_path p) w then Some (gzip_path p) else None)"

definition when_exists :: "string \<Rightarrow> unit io \<Rightarrow> unit io" where
  "when_exists p m w = (if file_exists p w then m w else io_return () w)"

definition remove_backup :: "string \<Rightarrow> unit io" where
  "remove_backup p = io_bind (when_exists p (remove_file p)) (\<lambda>_. when_exists (gzip_path p) (remove_file (gzip_path p)))"

text \<open>\<open>compress_file\<close>: open, create the output (empty at first), copy and finish, remove the input.\<close>

definition compress_file :: "string \<Rightarrow> unit io" where
  "compress_file p =
     io_bind (io_op (\<lambda>m. if m p = None then None else Some m)) (\<lambda>_.
     io_bind (io_op (\<lambda>m. Some (m(gzip_path p \<mapsto> GzipFile [])))) (\<lambda>_.
     io_bind (io_op (\<lambda>m. map_option (\<lambda>x. m(gzip_path p \<mapsto> GzipFile (content_bytes x))) (m p))) (\<lambda>_.
     remove_file p)))"

section \<open>The rotating file\<close>

record rotating_file =
  rf_service :: string
  rf_rotation :: rotation_policy
  rf_open :: bool
  rf_active_path :: string
  rf_active_day :: int
  rf_bytes_written :: nat
  rf_retention_days :: "nat option"
  rf_compress :: bool

definition safe_char :: "char \<Rightarrow> bool" where
  "safe_char ch \<longleftrightarrow>
     (let n = (of_char ch :: nat) in 48 \<le> n \<and> n \<le> 57 \<or> 65 \<le> n \<and> n \<le> 90 \<or> 97 \<le> n \<and> n \<le> 122 \<or> ch \<in> {CHR ''-'', CHR ''_'', CHR ''.''})"

text \<open>One underscore for each character that is not safe, of however many bytes.\<close>

definition safe_file_name :: "string \<Rightarrow> string" where
  "safe_file_name s = map (\<lambda>ch. if safe_char ch then ch else CHR ''_'') (filter (\<lambda>ch. \<not> continuation ch) s)"

definition log_path :: "string \<Rightarrow> rotation_policy \<Rightarrow> int \<Rightarrow> string" where
  "log_path service rotation day =
     (case rotation of
        Daily \<Rightarrow> service @ ''.'' @ date_from_unix_day day @ ''.log''
      | BySize _ _ \<Rightarrow> service @ ''.log'')"

definition daily_file_date :: "string \<Rightarrow> string \<Rightarrow> string option" where
  "daily_file_date name prefix =
     Option.bind (strip_prefix prefix name) (\<lambda>remainder.
       let strip = (\<lambda>suffix. map_option rev (strip_prefix (rev suffix) (rev remainder))) in
       Option.bind (case strip ''.log'' of Some d \<Rightarrow> Some d | None \<Rightarrow> strip ''.log.gz'') (\<lambda>date.
         if length date = 10 \<and> date ! 4 = CHR ''-'' \<and> date ! 7 = CHR ''-'' \<and>
            list_all (\<lambda>ch. (48 \<le> (of_char ch :: nat) \<and> (of_char ch :: nat) \<le> 57) \<or> ch = CHR ''-'') date
         then Some date else None))"

text \<open>
  The first day kept, as a date: the number of days is reduced to 64 bits and read as signed, which
  is what the cast of the source does.
\<close>

definition retention_cutoff :: "int \<Rightarrow> nat \<Rightarrow> string" where
  "retention_cutoff active_day days = date_from_unix_day (active_day - sint (of_nat (days - 1) :: 64 word))"

definition maintain_file :: "rotating_file \<Rightarrow> int \<Rightarrow> string \<Rightarrow> unit io" where
  "maintain_file r active_day name =
     (case daily_file_date name (rf_service r @ ''.'') of
        None \<Rightarrow> io_return ()
      | Some date \<Rightarrow>
          io_bind (if date < date_from_unix_day active_day \<and> rf_compress r \<and> \<not> is_gzip name then compress_file name else io_return ()) (\<lambda>_.
          case rf_retention_days r of
            None \<Rightarrow> io_return ()
          | Some days \<Rightarrow>
              if date < retention_cutoff active_day days
              then io_bind (when_exists name (remove_file name)) (\<lambda>_. when_exists (gzip_path name) (remove_file (gzip_path name)))
              else io_return ()))"

text \<open>\<open>maintain_daily_files\<close> visits the files the directory listing gives, in its order.\<close>

fun maintain_files :: "rotating_file \<Rightarrow> int \<Rightarrow> string list \<Rightarrow> unit io" where
  "maintain_files r active_day [] = io_return ()"
| "maintain_files r active_day (name # names) =
     io_bind (maintain_file r active_day name) (\<lambda>_. maintain_files r active_day names)"

definition maintain_daily_files :: "rotating_file \<Rightarrow> int \<Rightarrow> (directory \<Rightarrow> string list) \<Rightarrow> unit io" where
  "maintain_daily_files r active_day listing = io_bind (io_op Some) (\<lambda>_ w. maintain_files r active_day (listing w) w)"

definition rotating_new ::
  "string \<Rightarrow> rotation_policy \<Rightarrow> nat option \<Rightarrow> bool \<Rightarrow> int \<Rightarrow> (directory \<Rightarrow> string list) \<Rightarrow> rotating_file io" where
  "rotating_new service_name rotation retention compress day listing =
     (let service = safe_file_name service_name; path = log_path service rotation day in
      io_bind (io_bind (append_file path) (\<lambda>_. io_op Some)) (\<lambda>_ w.
        let r = \<lparr>rf_service = service, rf_rotation = rotation, rf_open = True, rf_active_path = path, rf_active_day = day,
                 rf_bytes_written = file_length path w, rf_retention_days = retention, rf_compress = compress\<rparr> in
        io_bind (if rotation = Daily then maintain_daily_files r day listing else io_return ()) (\<lambda>_. io_return r) w))"

text \<open>
  The rotations return the file as they leave it also when they fail: the old handle is closed first,
  and the day and the path are replaced before the new file is opened.
\<close>

definition with_file :: "unit io \<Rightarrow> rotating_file \<Rightarrow> (rotating_file \<Rightarrow> directory \<Rightarrow> (string + unit) \<times> rotating_file \<times> directory) \<Rightarrow>
   directory \<Rightarrow> (string + unit) \<times> rotating_file \<times> directory" where
  "with_file m r k w = (case m w of (Inl e, w') \<Rightarrow> (Inl e, r, w') | (Inr _, w') \<Rightarrow> k r w')"

definition rotate_daily :: "int \<Rightarrow> (directory \<Rightarrow> string list) \<Rightarrow> rotating_file \<Rightarrow> directory \<Rightarrow> (string + unit) \<times> rotating_file \<times> directory" where
  "rotate_daily today listing r =
     (let previous = rf_active_path r;
          path = log_path (rf_service r) (rf_rotation r) today;
          r1 = r\<lparr>rf_open := False, rf_active_day := today, rf_active_path := path\<rparr> in
      with_file (io_bind (append_file path) (\<lambda>_. io_op Some)) r1 (\<lambda>r w.
        with_file (if rf_compress r \<and> previous \<noteq> path \<and> file_exists previous w then compress_file previous else io_return ())
          (r\<lparr>rf_bytes_written := file_length path w, rf_open := True\<rparr>) (\<lambda>r w.
          with_file (maintain_daily_files r today listing) r (\<lambda>r w. (Inr (), r, w)) w) w))"

text \<open>One backup moved up by one.\<close>

definition shift_backup :: "string \<Rightarrow> nat \<Rightarrow> unit io" where
  "shift_backup active index w =
     (case existing_backup (backup_path active index) w of
        None \<Rightarrow> io_return () w
      | Some from \<Rightarrow>
          let target = backup_path active (index + 1) in
          rename_file from (if is_gzip from then gzip_path target else target) w)"

fun shift_backups :: "string \<Rightarrow> nat list \<Rightarrow> unit io" where
  "shift_backups active [] = io_return ()"
| "shift_backups active (index # rest) = io_bind (shift_backup active index) (\<lambda>_. shift_backups active rest)"

definition make_backups :: "rotating_file \<Rightarrow> nat \<Rightarrow> nat \<Rightarrow> unit io" where
  "make_backups r nanos max_backups =
     (if max_backups = 0
      then let backup = rf_service r @ ''.'' @ show_nat nanos @ ''.log'' in
        io_bind (rename_file (rf_active_path r) backup) (\<lambda>_. if rf_compress r then compress_file backup else io_return ())
      else
        io_bind (remove_backup (backup_path (rf_active_path r) max_backups)) (\<lambda>_.
        io_bind (shift_backups (rf_active_path r) (rev [1..<max_backups])) (\<lambda>_.
        when_exists (rf_active_path r)
          (let backup = backup_path (rf_active_path r) 1 in
           io_bind (rename_file (rf_active_path r) backup) (\<lambda>_. if rf_compress r then compress_file backup else io_return ())))))"

definition rotate_size :: "nat \<Rightarrow> rotating_file \<Rightarrow> directory \<Rightarrow> (string + unit) \<times> rotating_file \<times> directory" where
  "rotate_size nanos r =
     (case rf_rotation r of
        Daily \<Rightarrow> (\<lambda>w. (Inr (), r, w))
      | BySize _ max_backups \<Rightarrow>
          with_file (make_backups r nanos max_backups) (r\<lparr>rf_open := False\<rparr>) (\<lambda>r.
            with_file (append_file (rf_active_path r)) r (\<lambda>r w. (Inr (), r\<lparr>rf_open := True, rf_bytes_written := 0\<rparr>, w))))"

definition reopen_active :: "rotating_file \<Rightarrow> directory \<Rightarrow> rotating_file \<times> directory" where
  "reopen_active r w =
     (if rf_open r then (r, w)
      else case append_file (rf_active_path r) w of (Inl _, w') \<Rightarrow> (r, w') | (Inr _, w') \<Rightarrow> (r\<lparr>rf_open := True\<rparr>, w'))"

definition append_bytes :: "string \<Rightarrow> string \<Rightarrow> unit io" where
  "append_bytes p bytes = io_op (\<lambda>m. Some (case m p of Some (PlainFile s) \<Rightarrow> m(p \<mapsto> PlainFile (s @ bytes)) | _ \<Rightarrow> m))"

definition write_open :: "string \<Rightarrow> rotating_file \<Rightarrow> directory \<Rightarrow> (string + unit) \<times> rotating_file \<times> directory" where
  "write_open bytes r w =
     (if \<not> rf_open r then (Inl ''rotating log file is closed'', r, w)
      else with_file (append_bytes (rf_active_path r) bytes) r
        (\<lambda>r w. (Inr (), r\<lparr>rf_bytes_written := sat_add u64_max (rf_bytes_written r) (length bytes)\<rparr>, w)) w)"

definition needs_rotation :: "int \<Rightarrow> string \<Rightarrow> rotating_file \<Rightarrow> bool" where
  "needs_rotation today bytes r =
     (case rf_rotation r of
        Daily \<Rightarrow> today \<noteq> rf_active_day r
      | BySize max_bytes _ \<Rightarrow> 0 < rf_bytes_written r \<and> max_bytes < sat_add u64_max (rf_bytes_written r) (length bytes))"

definition rotate :: "int \<Rightarrow> nat \<Rightarrow> (directory \<Rightarrow> string list) \<Rightarrow> rotating_file \<Rightarrow> directory \<Rightarrow> (string + unit) \<times> rotating_file \<times> directory" where
  "rotate today nanos listing r = (if rf_rotation r = Daily then rotate_daily today listing r else rotate_size nanos r)"

text \<open>\<open>write_all\<close>: a rotation that fails reopens what it can and gives the record up.\<close>

definition rotating_write ::
  "int \<Rightarrow> nat \<Rightarrow> (directory \<Rightarrow> string list) \<Rightarrow> string \<Rightarrow> rotating_file \<Rightarrow> directory \<Rightarrow> (string + unit) \<times> rotating_file \<times> directory" where
  "rotating_write today nanos listing bytes r w =
     (if needs_rotation today bytes r
      then case rotate today nanos listing r w of
        (Inl e, r', w') \<Rightarrow> (case reopen_active r' w' of (r'', w'') \<Rightarrow> (Inl e, r'', w''))
      | (Inr _, r', w') \<Rightarrow> write_open bytes r' w'
      else write_open bytes r w)"

section \<open>The writer thread\<close>

record async_sink =
  as_capacity :: nat
  as_queue :: "string list"
  as_dropped :: "64 word"
  as_written :: "string list"
  as_alive :: bool

datatype async_action = TryWrite string | WorkerWrites bool | WorkerEnds

definition async_step :: "async_action \<Rightarrow> async_sink \<Rightarrow> bool \<times> async_sink" where
  "async_step a s =
     (case a of
        TryWrite bytes \<Rightarrow>
          if as_alive s \<and> length (as_queue s) < as_capacity s then (True, s\<lparr>as_queue := as_queue s @ [bytes]\<rparr>)
          else (False, s\<lparr>as_dropped := as_dropped s + 1\<rparr>)
      | WorkerWrites ok \<Rightarrow>
          (case as_queue s of
             [] \<Rightarrow> (True, s)
           | bytes # rest \<Rightarrow>
               (True, if as_alive s then
                  if ok then s\<lparr>as_queue := rest, as_written := as_written s @ [bytes]\<rparr>
                  else s\<lparr>as_queue := rest, as_dropped := as_dropped s + 1\<rparr>
                else s))
      | WorkerEnds \<Rightarrow> (True, s\<lparr>as_alive := False\<rparr>))"

section \<open>Backups\<close>

lemma io_op_ok: "dir_faults w = [] \<Longrightarrow> f (dir_files w) = Some m \<Longrightarrow> io_op f w = (Inr (), w\<lparr>dir_files := m\<rparr>)"
  by (simp add: io_op_def)

lemma io_bind_ok: "m w = (Inr a, w') \<Longrightarrow> io_bind m f w = f a w'"
  by (simp add: io_bind_def)

lemma last_digit: "last (show_nat n) \<noteq> CHR ''z''"
proof
  assume "last (show_nat n) = CHR ''z''"
  then have "CHR ''z'' \<in> set (show_nat n)" by (metis last_in_set show_nat_not_Nil)
  then obtain d where "d < 10" "CHR ''z'' = digit_char d" using show_nat_digits by blast
  then have "of_char (CHR ''z'') = 48 + d" by (simp add: digit_char_def)
  then show False using \<open>d < 10\<close> by simp
qed

lemma last_backup: "last (backup_path a i) \<noteq> CHR ''z''"
  using last_digit by (simp add: backup_path_def)

lemma backup_paths [simp]:
  "backup_path a i = backup_path a j \<longleftrightarrow> i = j" "backup_path a i \<noteq> a" "a \<noteq> backup_path a i"
  "gzip_path p = gzip_path q \<longleftrightarrow> p = q" "gzip_path (backup_path a i) \<noteq> a" "a \<noteq> gzip_path (backup_path a i)"
  "gzip_path p \<noteq> p" "p \<noteq> gzip_path p"
  by (auto simp: backup_path_def gzip_path_def dest: show_nat_inj)

lemma last_gzip: "last (gzip_path p) = CHR ''z''"
  by (simp add: gzip_path_def)

lemma backup_gzip [simp]: "gzip_path p \<noteq> backup_path a i" "backup_path a i \<noteq> gzip_path p"
  using last_backup [of a i] last_gzip [of p] by metis+

lemma is_gzip_last: "is_gzip p \<Longrightarrow> last p = CHR ''z''"
  by (cases p rule: rev_cases) (auto simp: is_gzip_def)

lemma is_gzip_paths [simp]: "is_gzip (gzip_path p)" "\<not> is_gzip (backup_path a i)"
  using last_backup [of a i] is_gzip_last by (auto simp: is_gzip_def gzip_path_def)

text \<open>The two names of a backup; a well-formed directory has at most one of them.\<close>

definition slot_files :: "string \<Rightarrow> directory \<Rightarrow> nat \<Rightarrow> content option \<times> content option" where
  "slot_files a w i = (dir_files w (backup_path a i), dir_files w (gzip_path (backup_path a i)))"

definition one_form :: "string \<Rightarrow> directory \<Rightarrow> bool" where
  "one_form a w \<longleftrightarrow> (\<forall>i. fst (slot_files a w i) = None \<or> snd (slot_files a w i) = None)"

definition backup_at :: "string \<Rightarrow> directory \<Rightarrow> nat \<Rightarrow> string option" where
  "backup_at a w i =
     (case slot_files a w i of (Some x, _) \<Rightarrow> Some (content_bytes x) | (None, y) \<Rightarrow> map_option content_bytes y)"

lemma slot_eq: "slot_files a w i = (x, y) \<longleftrightarrow> dir_files w (backup_path a i) = x \<and> dir_files w (gzip_path (backup_path a i)) = y"
  by (auto simp: slot_files_def)

lemma shift_backup_slot:
  assumes "dir_faults w = []" and "one_form a w" and "slot_files a w (Suc i) = (None, None)"
  shows "\<exists>w'. shift_backup a i w = (Inr (), w') \<and> dir_faults w' = [] \<and> dir_files w' a = dir_files w a \<and>
    slot_files a w' = (slot_files a w)(Suc i := slot_files a w i, i := (None, None))"
proof -
  have form: "dir_files w (backup_path a i) = None \<or> dir_files w (gzip_path (backup_path a i)) = None"
    using assms(2) by (auto simp: one_form_def slot_files_def)
  have free: "dir_files w (backup_path a (Suc i)) = None" "dir_files w (gzip_path (backup_path a (Suc i))) = None"
    using assms(3) by (simp_all add: slot_eq)
  show ?thesis
    using assms(1) form free
    by (auto simp: shift_backup_def existing_backup_def file_exists_def rename_file_def io_op_def io_return_def Let_def
        slot_files_def fun_eq_iff)
qed

lemma shift_backups_slots:
  assumes "dir_faults w = []" and "one_form a w" and "slot_files a w n = (None, None)" and "0 < n"
  shows "\<exists>w'. shift_backups a (rev [1..<n]) w = (Inr (), w') \<and> dir_faults w' = [] \<and> dir_files w' a = dir_files w a \<and>
    slot_files a w' 1 = (None, None) \<and> (\<forall>i. 1 \<le> i \<and> i < n \<longrightarrow> slot_files a w' (Suc i) = slot_files a w i) \<and>
    (\<forall>i. i = 0 \<or> n < i \<longrightarrow> slot_files a w' i = slot_files a w i)"
  using assms
proof (induction n arbitrary: w)
  case (Suc n)
  show ?case
  proof (cases "n = 0")
    case True
    then show ?thesis using Suc.prems by (auto simp: io_return_def)
  next
    case False
    obtain w1 where w1: "shift_backup a n w = (Inr (), w1)" "dir_faults w1 = []" "dir_files w1 a = dir_files w a"
      "slot_files a w1 = (slot_files a w)(Suc n := slot_files a w n, n := (None, None))"
      using shift_backup_slot [OF Suc.prems(1,2,3)] by blast
    have "one_form a w1" using Suc.prems(2) by (auto simp: one_form_def w1(4))
    then obtain w' where w': "shift_backups a (rev [1..<n]) w1 = (Inr (), w')" "dir_faults w' = []" "dir_files w' a = dir_files w1 a"
      "slot_files a w' 1 = (None, None)" "\<forall>i. 1 \<le> i \<and> i < n \<longrightarrow> slot_files a w' (Suc i) = slot_files a w1 i"
      "\<forall>i. i = 0 \<or> n < i \<longrightarrow> slot_files a w' i = slot_files a w1 i"
      using Suc.IH [of w1] w1 False by auto
    have "slot_files a w' (Suc i) = slot_files a w i" if "1 \<le> i" "i < Suc n" for i
      using that w'(5,6) w1(4) by (cases "i = n") auto
    moreover have "slot_files a w' i = slot_files a w i" if "i = 0 \<or> Suc n < i" for i
      using that w'(6) w1(4) False by auto
    moreover have "rev [1..<Suc n] = n # rev [1..<n]" using False by simp
    ultimately show ?thesis using w' w1 by (simp add: io_bind_def)
  qed
qed simp

lemma remove_backup_slot:
  assumes "dir_faults w = []"
  shows "\<exists>w'. remove_backup (backup_path a n) w = (Inr (), w') \<and> dir_faults w' = [] \<and> dir_files w' a = dir_files w a \<and>
    slot_files a w' = (slot_files a w)(n := (None, None))"
  using assms
  by (auto simp: remove_backup_def io_bind_def when_exists_def remove_file_def io_op_def io_return_def file_exists_def slot_files_def fun_eq_iff)

lemma close_active:
  assumes "dir_faults w = []" and "slot_files a w 1 = (None, None)" and "dir_files w a = Some (PlainFile s)"
  shows "\<exists>w' x. when_exists a (let backup = backup_path a 1 in
      io_bind (rename_file a backup) (\<lambda>_. if compress then compress_file backup else io_return ())) w = (Inr (), w') \<and>
    dir_faults w' = [] \<and> dir_files w' a = None \<and> slot_files a w' = (slot_files a w)(1 := x) \<and>
    (x = (Some (PlainFile s), None) \<or> x = (None, Some (GzipFile s)))"
proof -
  have "dir_files w (backup_path a (Suc 0)) = None" "dir_files w (gzip_path (backup_path a (Suc 0))) = None"
    using assms(2) by (simp_all add: slot_eq)
  then show ?thesis
    using assms(1,3)
    by (auto simp: when_exists_def io_bind_def rename_file_def compress_file_def remove_file_def io_op_def io_return_def
        file_exists_def content_bytes_def slot_files_def fun_eq_iff Let_def)
qed

lemma make_backups_slots:
  assumes "dir_faults w = []" and "one_form a w" and "dir_files w a = Some (PlainFile s)" and "0 < n" and "rf_active_path r = a"
  shows "\<exists>w'. make_backups r nanos n w = (Inr (), w') \<and> dir_faults w' = [] \<and> one_form a w' \<and> dir_files w' a = None \<and>
    backup_at a w' 1 = Some s \<and> (\<forall>i. 1 \<le> i \<and> i < n \<longrightarrow> backup_at a w' (Suc i) = backup_at a w i)"
proof -
  obtain w1 where w1: "remove_backup (backup_path a n) w = (Inr (), w1)" "dir_faults w1 = []" "dir_files w1 a = dir_files w a"
    "slot_files a w1 = (slot_files a w)(n := (None, None))" using remove_backup_slot [OF assms(1)] by blast
  have "one_form a w1" "slot_files a w1 n = (None, None)" using assms(2) by (auto simp: one_form_def w1(4))
  then obtain w2 where w2: "shift_backups a (rev [1..<n]) w1 = (Inr (), w2)" "dir_faults w2 = []" "dir_files w2 a = dir_files w1 a"
    "slot_files a w2 1 = (None, None)" "\<forall>i. 1 \<le> i \<and> i < n \<longrightarrow> slot_files a w2 (Suc i) = slot_files a w1 i"
    "\<forall>i. i = 0 \<or> n < i \<longrightarrow> slot_files a w2 i = slot_files a w1 i"
    using shift_backups_slots [OF w1(2) _ _ assms(4)] by blast
  obtain w3 x where w3: "when_exists a (let backup = backup_path a 1 in
      io_bind (rename_file a backup) (\<lambda>_. if rf_compress r then compress_file backup else io_return ())) w2 = (Inr (), w3)"
    "dir_faults w3 = []" "dir_files w3 a = None" "slot_files a w3 = (slot_files a w2)(1 := x)"
    "x = (Some (PlainFile s), None) \<or> x = (None, Some (GzipFile s))"
    using close_active [OF w2(2,4)] assms(3) w1(3) w2(3) by metis
  have old: "slot_files a w3 (Suc i) = slot_files a w i" if "1 \<le> i" "i < n" for i
    using that w1(4) w2(5) w3(4) by auto
  have "fst (slot_files a w3 i) = None \<or> snd (slot_files a w3 i) = None" for i
  proof (cases "i = 0 \<or> n < i")
    case True
    then have "slot_files a w3 i = slot_files a w i" using assms(4) w1(4) w2(6) w3(4) by auto
    then show ?thesis using assms(2) by (simp add: one_form_def)
  next
    case False
    then show ?thesis using old [of "i - 1"] w3(4,5) assms(2) by (cases "i = 1") (auto simp: one_form_def)
  qed
  then have "one_form a w3" by (simp add: one_form_def)
  moreover have "backup_at a w3 1 = Some s" using w3(4,5) by (auto simp: backup_at_def content_bytes_def)
  moreover have "make_backups r nanos n w = (Inr (), w3)"
    using assms(4,5) w1(1) w2(1) w3(1) by (simp add: make_backups_def io_bind_def)
  ultimately show ?thesis using w3(2,3) old by (auto simp: backup_at_def)
qed

section \<open>Rotation by size\<close>

text \<open>The specification: closed files, the newest first, and the active one.\<close>

definition spec_write :: "nat \<Rightarrow> nat \<Rightarrow> string \<Rightarrow> string list \<times> string \<Rightarrow> string list \<times> string" where
  "spec_write max_bytes n bytes f =
     (case f of (closed, active) \<Rightarrow>
        if active \<noteq> [] \<and> max_bytes < length active + length bytes then (take n (active # closed), bytes)
        else (closed, active @ bytes))"

definition size_files :: "nat \<Rightarrow> nat \<Rightarrow> rotating_file \<Rightarrow> directory \<Rightarrow> string list \<times> string \<Rightarrow> bool" where
  "size_files max_bytes n r w f \<longleftrightarrow>
     (case f of (closed, active) \<Rightarrow>
        rf_rotation r = BySize max_bytes n \<and> rf_open r \<and> rf_bytes_written r = length active \<and>
        dir_faults w = [] \<and> one_form (rf_active_path r) w \<and> dir_files w (rf_active_path r) = Some (PlainFile active) \<and>
        length closed \<le> n \<and>
        (\<forall>i < n. backup_at (rf_active_path r) w (Suc i) = (if i < length closed then Some (closed ! i) else None)))"

lemma one_form_cong: "\<forall>p. p \<noteq> a \<longrightarrow> dir_files w' p = dir_files w p \<Longrightarrow> slot_files a w' = slot_files a w"
  by (simp add: slot_files_def fun_eq_iff)

lemma write_open_appends:
  assumes "size_files max_bytes n r w (closed, active)" and "length active + length bytes \<le> u64_max"
  shows "\<exists>r' w'. write_open bytes r w = (Inr (), r', w') \<and> size_files max_bytes n r' w' (closed, active @ bytes)"
proof -
  let ?w = "w\<lparr>dir_files := (dir_files w)(rf_active_path r \<mapsto> PlainFile (active @ bytes))\<rparr>"
  have "slot_files (rf_active_path r) ?w = slot_files (rf_active_path r) w" by (rule one_form_cong) simp
  then have "one_form (rf_active_path r) ?w = one_form (rf_active_path r) w"
    "backup_at (rf_active_path r) ?w = backup_at (rf_active_path r) w" by (simp_all add: one_form_def backup_at_def fun_eq_iff)
  moreover have "append_bytes (rf_active_path r) bytes w = (Inr (), ?w)"
    using assms(1) by (simp add: size_files_def append_bytes_def io_op_def)
  ultimately show ?thesis
    using assms by (auto simp: size_files_def write_open_def with_file_def sat_add_def)
qed

lemma rotate_size_shifts:
  assumes "size_files max_bytes n r w (closed, active)" and "0 < n"
  shows "\<exists>r' w'. rotate_size nanos r w = (Inr (), r', w') \<and> size_files max_bytes n r' w' (take n (active # closed), [])"
proof -
  let ?a = "rf_active_path r" and ?r = "r\<lparr>rf_open := False\<rparr>"
  have s: "rf_rotation r = BySize max_bytes n" "dir_faults w = []" "one_form ?a w" "dir_files w ?a = Some (PlainFile active)" "length closed \<le> n"
    "\<forall>i < n. backup_at ?a w (Suc i) = (if i < length closed then Some (closed ! i) else None)"
    using assms(1) by (simp_all add: size_files_def)
  obtain w1 where w1: "make_backups r nanos n w = (Inr (), w1)" "dir_faults w1 = []" "one_form ?a w1" "dir_files w1 ?a = None"
    "backup_at ?a w1 1 = Some active" "\<forall>i. 1 \<le> i \<and> i < n \<longrightarrow> backup_at ?a w1 (Suc i) = backup_at ?a w i"
    using make_backups_slots [OF s(2-4) assms(2) refl] by blast
  let ?w = "w1\<lparr>dir_files := (dir_files w1)(?a \<mapsto> PlainFile [])\<rparr>"
  have "slot_files ?a ?w = slot_files ?a w1" by (rule one_form_cong) simp
  then have same: "one_form ?a ?w = one_form ?a w1" "backup_at ?a ?w = backup_at ?a w1"
    by (simp_all add: one_form_def backup_at_def fun_eq_iff)
  have "append_file ?a w1 = (Inr (), ?w)" using w1(2,4) by (simp add: append_file_def io_op_def)
  then have run: "rotate_size nanos r w = (Inr (), ?r\<lparr>rf_open := True, rf_bytes_written := 0\<rparr>, ?w)"
    using s(1) w1(1) by (simp add: rotate_size_def with_file_def)
  have "backup_at ?a w1 (Suc i) = (if i < length (take n (active # closed)) then Some (take n (active # closed) ! i) else None)"
    if "i < n" for i
    using that w1(5,6) s(6) by (cases i) (auto simp: less_Suc_eq_le)
  then show ?thesis
    unfolding run using w1(2,3) s(1) by (auto simp: size_files_def same)
qed

text \<open>Every write does to the files what the specification says.\<close>

lemma size_write_refines:
  assumes "size_files max_bytes n r w f" and "0 < n" and "length (snd f) + length bytes \<le> u64_max"
  shows "\<exists>r' w'. rotating_write today nanos listing bytes r w = (Inr (), r', w') \<and> size_files max_bytes n r' w' (spec_write max_bytes n bytes f)"
proof -
  obtain closed active where f: "f = (closed, active)" by fastforce
  have s: "rf_rotation r = BySize max_bytes n" "rf_bytes_written r = length active" using assms(1) by (simp_all add: f size_files_def)
  have need: "needs_rotation today bytes r \<longleftrightarrow> active \<noteq> [] \<and> max_bytes < length active + length bytes"
    using s assms(3) by (auto simp: needs_rotation_def sat_add_def f)
  show ?thesis
  proof (cases "needs_rotation today bytes r")
    case True
    obtain r1 w1 where r1: "rotate_size nanos r w = (Inr (), r1, w1)" "size_files max_bytes n r1 w1 (take n (active # closed), [])"
      using rotate_size_shifts assms(1,2) f by blast
    have "length ([] :: string) + length bytes \<le> u64_max" using assms(3) by simp
    from write_open_appends [OF r1(2) this] show ?thesis
      using True need r1(1) s(1) by (auto simp: rotating_write_def rotate_def spec_write_def f)
  next
    case False
    then show ?thesis
      using write_open_appends [of max_bytes n r w closed active bytes] assms(1,3) need
      by (auto simp: rotating_write_def spec_write_def f)
  qed
qed

text \<open>The files hold the newest records, in order, split into blocks that fit.\<close>

definition newest_blocks :: "nat \<Rightarrow> nat \<Rightarrow> string list \<Rightarrow> nat \<Rightarrow> string list list \<Rightarrow> string list \<Rightarrow> bool" where
  "newest_blocks max_bytes n records k blocks current \<longleftrightarrow>
     k \<le> length records \<and> drop k records = concat blocks @ current \<and> length blocks \<le> n \<and> (length blocks < n \<longrightarrow> k = 0) \<and>
     (\<forall>b \<in> insert current (set blocks). length (concat b) \<le> max_bytes \<or> length b \<le> 1)"

lemma newest_blocks_write:
  assumes "newest_blocks max_bytes n records k blocks current" and "0 < n" and "bytes \<noteq> []" and "[] \<notin> set records"
  shows "\<exists>k' blocks' current'. newest_blocks max_bytes n (records @ [bytes]) k' blocks' current' \<and>
    (map concat (rev blocks'), concat current') = spec_write max_bytes n bytes (map concat (rev blocks), concat current)"
proof -
  have b: "k \<le> length records" "drop k records = concat blocks @ current" "length blocks \<le> n" "length blocks < n \<longrightarrow> k = 0"
    "\<forall>b \<in> insert current (set blocks). length (concat b) \<le> max_bytes \<or> length b \<le> 1"
    using assms(1) by (simp_all add: newest_blocks_def)
  have "set current \<subseteq> set records" using b(2) by (metis le_sup_iff set_append set_drop_subset)
  then have empty: "concat current = [] \<longleftrightarrow> current = []" using assms(4) by (cases current) auto
  show ?thesis
  proof (cases "concat current \<noteq> [] \<and> max_bytes < length (concat current) + length bytes")
    case rotates: True
    show ?thesis
    proof (cases "length blocks < n")
      case True
      then have "newest_blocks max_bytes n (records @ [bytes]) 0 (blocks @ [current]) [bytes]"
        using b by (auto simp: newest_blocks_def)
      then show ?thesis using rotates True b(3)
        by (intro exI [of _ 0] exI [of _ "blocks @ [current]"] exI [of _ "[bytes]"]) (auto simp: spec_write_def)
    next
      case False
      then obtain old rest where old: "blocks = old # rest" using assms(2) by (cases blocks) auto
      have "drop (k + length old) records = drop (length old) (drop k records)" by (simp add: add.commute)
      then have drop: "drop (k + length old) records = concat rest @ current" using b(2) old by simp
      have "k + length old \<le> length records"
        using arg_cong [OF b(2), of length] b(1) old by simp
      then have "newest_blocks max_bytes n (records @ [bytes]) (k + length old) (rest @ [current]) [bytes]"
        using b(3-5) drop old False by (auto simp: newest_blocks_def)
      moreover have "length rest = n - 1" using False b(3) old by simp
      then have "take n (concat current # map concat (rev blocks)) = map concat (rev (rest @ [current]))"
        using assms(2) old by (cases n) auto
      ultimately show ?thesis using rotates by (intro exI) (auto simp: spec_write_def)
    qed
  next
    case False
    then have "newest_blocks max_bytes n (records @ [bytes]) k blocks (current @ [bytes])"
      using b empty by (auto simp: newest_blocks_def)
    moreover have "(map concat (rev blocks), concat (current @ [bytes])) = spec_write max_bytes n bytes (map concat (rev blocks), concat current)"
      using False by (auto simp: spec_write_def)
    ultimately show ?thesis by blast
  qed
qed

text \<open>Writes one after the other, each with its time; the run stops at the first that fails.\<close>

fun run_writes :: "(directory \<Rightarrow> string list) \<Rightarrow> (int \<times> nat \<times> string) list \<Rightarrow> rotating_file \<times> directory \<Rightarrow> (string + unit) \<times> rotating_file \<times> directory" where
  "run_writes listing [] y = (Inr (), y)"
| "run_writes listing ((today, nanos, bytes) # ws) y =
     (case rotating_write today nanos listing bytes (fst y) (snd y) of
        (Inl e, y') \<Rightarrow> (Inl e, y')
      | (Inr _, y') \<Rightarrow> run_writes listing ws y')"

abbreviation records_of :: "(int \<times> nat \<times> string) list \<Rightarrow> string list" where
  "records_of ws \<equiv> map (snd \<circ> snd) ws"

lemma spec_write_length: "length (snd (spec_write max_bytes n bytes f)) \<le> length (snd f) + length bytes"
  by (auto simp: spec_write_def split: prod.splits)

lemma run_writes_blocks:
  assumes "size_files max_bytes n r w (map concat (rev blocks), concat current)" and "0 < n"
    and "newest_blocks max_bytes n records k blocks current" and "[] \<notin> set records" and "[] \<notin> set (records_of ws)"
    and "length (concat current) + length (concat (records_of ws)) \<le> u64_max"
  shows "\<exists>r' w' k' blocks' current'. run_writes listing ws (r, w) = (Inr (), r', w') \<and>
    size_files max_bytes n r' w' (map concat (rev blocks'), concat current') \<and>
    newest_blocks max_bytes n (records @ records_of ws) k' blocks' current'"
  using assms
proof (induction ws arbitrary: r w records k blocks current)
  case Nil
  then show ?case by auto
next
  case (Cons x ws)
  obtain today nanos bytes where x: "x = (today, nanos, bytes)" by (metis prod_cases3)
  have bytes: "bytes \<noteq> []" "length (concat current) + length bytes \<le> u64_max" using Cons.prems(5,6) x by auto
  obtain k1 blocks1 current1 where b1: "newest_blocks max_bytes n (records @ [bytes]) k1 blocks1 current1"
    "(map concat (rev blocks1), concat current1) = spec_write max_bytes n bytes (map concat (rev blocks), concat current)"
    using newest_blocks_write [OF Cons.prems(3) assms(2) bytes(1) Cons.prems(4)] by blast
  obtain r1 w1 where w1: "rotating_write today nanos listing bytes r w = (Inr (), r1, w1)"
    "size_files max_bytes n r1 w1 (map concat (rev blocks1), concat current1)"
    using size_write_refines [OF Cons.prems(1) assms(2), of bytes today nanos listing] bytes(2) b1(2) by auto
  have "length (concat current1) \<le> length (concat current) + length bytes"
    using spec_write_length [of max_bytes n bytes "(map concat (rev blocks), concat current)"] b1(2) by (metis snd_conv)
  then have len: "length (concat current1) + length (concat (records_of ws)) \<le> u64_max" using Cons.prems(6) x by (simp add: comp_def)
  have "[] \<notin> set (records @ [bytes])" "[] \<notin> set (records_of ws)" using Cons.prems(4,5) bytes(1) by auto
  from Cons.IH [OF w1(2) assms(2) b1(1) this len] show ?case
    using w1(1) x by auto
qed

lemma size_files_new:
  assumes "dir_faults w = []" and "dir_files w = Map.empty"
  shows "\<exists>r w'. rotating_new name (BySize max_bytes n) retention compress day listing w = (Inr r, w') \<and>
    size_files max_bytes n r w' ([], []) \<and> rf_active_path r = safe_file_name name @ ''.log''"
  using assms
  by (simp add: rotating_new_def io_bind_def append_file_def io_op_def io_return_def file_length_def Let_def log_path_def
      size_files_def one_form_def slot_files_def backup_at_def)

text \<open>
  C21. Rotation by size keeps the newest records. On a directory that starts empty and does not fail, every
  write succeeds, and after any number of them the backups (each under its plain or its compressed
  name, the highest number the oldest) and the active file hold, in order and cut only between
  records, all records but the oldest; a record is missing only when all backups are in use; and a
  file exceeds the configured size only if it is a single record.
\<close>

theorem size_rotation_keeps_newest:
  assumes "dir_faults w = []" and "dir_files w = Map.empty" and "0 < n"
    and "[] \<notin> set (records_of ws)" and "length (concat (records_of ws)) \<le> u64_max"
  shows "\<exists>r w1 r' w' k blocks current.
    rotating_new name (BySize max_bytes n) retention compress day listing w = (Inr r, w1) \<and>
    run_writes listing ws (r, w1) = (Inr (), r', w') \<and>
    drop k (records_of ws) = concat blocks @ current \<and> (length blocks < n \<longrightarrow> k = 0) \<and> length blocks \<le> n \<and>
    (\<forall>i < n. backup_at (rf_active_path r') w' (Suc i) = (if i < length blocks then Some (concat (rev blocks ! i)) else None)) \<and>
    dir_files w' (rf_active_path r') = Some (PlainFile (concat current)) \<and>
    (\<forall>b \<in> insert current (set blocks). length (concat b) \<le> max_bytes \<or> length b \<le> 1)"
proof -
  obtain r w1 where r: "rotating_new name (BySize max_bytes n) retention compress day listing w = (Inr r, w1)"
    "size_files max_bytes n r w1 ([], [])" using size_files_new [OF assms(1,2)] by blast
  have "newest_blocks max_bytes n [] 0 [] []" by (simp add: newest_blocks_def)
  then obtain r' w' k blocks current where run: "run_writes listing ws (r, w1) = (Inr (), r', w')"
    "size_files max_bytes n r' w' (map concat (rev blocks), concat current)" "newest_blocks max_bytes n (records_of ws) k blocks current"
    using run_writes_blocks [of max_bytes n r w1 "[]" "[]" "[]" 0 ws listing] r(2) assms(3-5) by auto
  then have "rev blocks ! i = rev blocks ! i \<and> map concat (rev blocks) ! i = concat (rev blocks ! i)" if "i < length blocks" for i
    using that by simp
  then show ?thesis
    using r(1) run by (intro exI [of _ r] exI [of _ w1] exI [of _ r'] exI [of _ w'] exI [of _ k] exI [of _ blocks] exI [of _ current])
      (auto simp: size_files_def newest_blocks_def)
qed

theorem size_rotation_keeps_newest_witness:
  "\<exists>r w1 r' w' k blocks current.
    rotating_new ''api'' (BySize 3 1) None True 0 (\<lambda>_. []) \<lparr>dir_files = Map.empty, dir_faults = []\<rparr> = (Inr r, w1) \<and>
    run_writes (\<lambda>_. []) [(0, 0, ''ab''), (0, 1, ''cd''), (0, 2, ''e''), (0, 3, ''fg'')] (r, w1) = (Inr (), r', w') \<and>
    drop k [''ab'', ''cd'', ''e'', ''fg''] = concat blocks @ current \<and> length blocks \<le> 1"
proof -
  have "\<exists>r w1 r' w' k blocks current. P1 r w1 \<and> P2 r w1 r' w' \<and> P3 k blocks current \<and> P4 blocks"
    if "\<exists>r w1 r' w' k blocks current. P1 r w1 \<and> P2 r w1 r' w' \<and> P3 k blocks current \<and> Q k blocks \<and> P4 blocks \<and> Z r' w' blocks current"
    for P1 P2 P3 P4 Q Z
    using that by blast
  from this [OF size_rotation_keeps_newest [of "\<lparr>dir_files = Map.empty, dir_faults = []\<rparr>" 1
      "[(0, 0, ''ab''), (0, 1, ''cd''), (0, 2, ''e''), (0, 3, ''fg'')]" "''api''" 3 None True 0 "\<lambda>_. []"]]
  show ?thesis by (simp add: u64_max_def)
qed

section \<open>Failures\<close>

text \<open>
  When the file of a new day cannot be opened, neither by the rotation nor by the attempt to reopen,
  the day has already been replaced: no write of that day rotates again, and each finds the file
  closed although the directory works again.
\<close>

lemma daily_file_stays_closed:
  assumes "rf_rotation r = Daily" and "today \<noteq> rf_active_day r" and "dir_faults w = [True, True]"
    and "rotating_write today nanos listing bytes r w = (e, r', w')"
  shows "e = Inl ''io error'' \<and> dir_faults w' = [] \<and>
    rotating_write today nanos' listing bytes' r' w' = (Inl ''rotating log file is closed'', r', w')"
  using assms
  by (auto simp: rotating_write_def needs_rotation_def rotate_def rotate_daily_def with_file_def io_bind_def append_file_def io_op_def
      Let_def reopen_active_def write_open_def)

text \<open>
  A retention of more than \<open>2\<^sup>6\<^sup>3\<close> days becomes negative: the cutoff lies after the active day, and the
  active file itself is older than it.
\<close>

lemma huge_retention_cutoff: "retention_cutoff day u64_max = date_from_unix_day (day + 2)"
proof -
  have "sint (of_nat (u64_max - 1) :: 64 word) = - 2" by (simp add: u64_max_def)
  then show ?thesis by (simp add: retention_cutoff_def)
qed

lemma huge_retention_removes_active:
  assumes "rf_service r = ''api''" and "rf_retention_days r = Some u64_max" and "dir_faults w = []"
    and "dir_files w ''api.2024-02-28.log'' = Some x"
  shows "\<exists>w'. maintain_file r 19781 ''api.2024-02-28.log'' w = (Inr (), w') \<and> dir_files w' ''api.2024-02-28.log'' = None"
proof -
  have day: "date_from_unix_day 19781 = ''2024-02-28''" "date_from_unix_day (19781 + 2) = ''2024-03-01''" by code_simp+
  have less: "''2024-02-28'' < ''2024-03-01''" by code_simp
  have date: "daily_file_date ''api.2024-02-28.log'' ''api.'' = Some ''2024-02-28''" by code_simp
  have cut: "retention_cutoff 19781 u64_max = ''2024-03-01''" using huge_retention_cutoff [of 19781] day by simp
  show ?thesis
    using assms less
    by (auto simp: maintain_file_def date day cut io_bind_def io_return_def when_exists_def remove_file_def io_op_def file_exists_def)
qed

section \<open>Records, samples and the queue\<close>

lemma map_of_fold_put: "k \<notin> fst ` set fs \<Longrightarrow> map_of (fold (\<lambda>(k, v). bt_put k v) fs r) k = map_of r k"
  by (induction fs arbitrary: r) (auto simp: map_of_bt_put)

text \<open>
  No field of a caller replaces the time, the level, the service or the message of a record, nor the
  trace when the context has one.
\<close>

lemma log_record_owned:
  fixes str :: "string \<Rightarrow> 'j"
  defines "r \<equiv> \<lambda>c now level message context custom. log_record str c now level message context custom"
  shows "map_of (r c now level message context custom) ''level'' = Some (str (level_name level))"
    and "map_of (r c now level message context custom) ''timestamp'' = Some (str now)"
    and "map_of (r c now level message context custom) ''service'' = Some (str (lc_service_name c))"
    and "map_of (r c now level message context custom) ''message'' = Some (str (log_truncate message (lc_max_content_length c)))"
    and "Option.bind context lx_trace = Some t \<Longrightarrow>
      map_of (r c now level message context custom) ''trace_id'' = Some (str (encode_hex (tc_trace_id t)))"
  by (simp_all add: r_def log_record_def Let_def map_of_bt_put split: option.splits)

text \<open>Without a trace in the context the caller's own field is the trace of the record.\<close>

lemma log_record_trace_forged:
  assumes "Option.bind context lx_trace = None"
  shows "map_of (log_record str c now level message context [(''trace_id'', v)]) ''trace_id'' = Some v"
  using assms by (simp add: log_record_def Let_def map_of_bt_put)

text \<open>In the plain encoding a line feed in the message starts a line of its own.\<close>

lemma plain_message_forges_line:
  assumes "map_of r ''message'' = Some m" and "as_str m = Some (first @ newline # forged)"
  shows "\<exists>before after. encode_plain as_str show_json r = before @ first @ newline # forged @ after"
proof -
  let ?text = "\<lambda>k. case Option.bind (map_of r k) as_str of None \<Rightarrow> [] | Some s \<Rightarrow> s"
  have "encode_plain as_str show_json r =
      (?text ''timestamp'' @ '' '' @ ?text ''level'' @ '' '' @ ?text ''service'' @ '': '') @ first @ newline # forged @
      concat (map (\<lambda>(k, v). if k \<in> set reserved then [] else '' '' @ k @ ''='' @ show_json v) r)"
    using assms by (simp add: encode_plain_def Let_def)
  then show ?thesis by blast
qed

text \<open>How many of the first \<open>n\<close> events a sampler lets through: the initial ones, then one in each interval.\<close>

fun sample_run :: "nat \<Rightarrow> log_sampler \<Rightarrow> bool list" where
  "sample_run 0 s = []"
| "sample_run (Suc n) s = (case sampler_allow s of (b, s') \<Rightarrow> b # sample_run n s')"

lemma sample_run_nth:
  "i < n \<Longrightarrow> unat (sp_seen s) + n < 2 ^ 64 \<Longrightarrow>
   sample_run n s ! i = (unat (sp_seen s) + i < sp_first s \<or> (unat (sp_seen s) + i - sp_first s) mod sp_thereafter s = 0)"
proof (induction n arbitrary: i s)
  case (Suc n)
  have seen: "unat (sp_seen s + 1) = unat (sp_seen s) + 1"
    using Suc.prems(2) by (simp add: unat_word_ariths)
  show ?case
  proof (cases i)
    case 0
    then show ?thesis by (simp add: sampler_allow_def Let_def)
  next
    case (Suc j)
    then show ?thesis using Suc.IH [of j "s\<lparr>sp_seen := sp_seen s + 1\<rparr>"] Suc.prems seen by (simp add: sampler_allow_def Let_def)
  qed
qed simp

text \<open>Every record handed to the non-blocking logger is written, dropped and counted, or still queued.\<close>

fun async_run :: "async_action list \<Rightarrow> async_sink \<Rightarrow> async_sink" where
  "async_run [] s = s"
| "async_run (a # as) s = async_run as (snd (async_step a s))"

definition tries :: "async_action list \<Rightarrow> nat" where
  "tries as = length (filter (\<lambda>a. case a of TryWrite _ \<Rightarrow> True | _ \<Rightarrow> False) as)"

lemma async_accounts:
  "of_nat (length (as_written (async_run as s)) + length (as_queue (async_run as s))) + as_dropped (async_run as s) =
     of_nat (length (as_written s) + length (as_queue s)) + as_dropped s + (of_nat (tries as) :: 64 word)"
proof (induction as arbitrary: s)
  case (Cons a as)
  have "of_nat (length (as_written s1) + length (as_queue s1)) + as_dropped s1 =
      of_nat (length (as_written s) + length (as_queue s)) + as_dropped s + (of_nat (tries [a]) :: 64 word)"
    if "s1 = snd (async_step a s)" for s1
    unfolding that by (auto simp: async_step_def tries_def split: async_action.splits list.splits)
  moreover have "tries (a # as) = tries [a] + tries as" by (simp add: tries_def)
  ultimately show ?case using Cons.IH [of "snd (async_step a s)"] by (simp add: algebra_simps)
qed (simp add: tries_def)

end
