(* ===== verification/Kubernetes.thy ===== *)
theory Kubernetes
  imports Etcd
begin

text \<open>
  \<open>core/src/kubernetes.rs\<close>: discovery from EndpointSlices. Configuration and its validation, the endpoints
  of one slice, and the task that follows the watch of a service through restarts of its stream. What the
  API server holds is a history of changes; the watcher reports a list between \<open>Init\<close> and \<open>InitDone\<close>, then
  the changes after it in order, and any error ends its stream.
\<close>

section \<open>Text of the standard library\<close>

text \<open>The length of the white-space code point at the start of a string, or at the end of its reversal.\<close>

fun ws_start :: "nat list \<Rightarrow> nat" where
  "ws_start (a # bs) =
     (if ascii_ws a then 1
      else case bs of
        [] \<Rightarrow> 0
      | b # cs \<Rightarrow>
          if blank_bytes [a, b] then 2
          else case cs of [] \<Rightarrow> 0 | c # _ \<Rightarrow> if blank_bytes [a, b, c] then 3 else 0)"
| "ws_start [] = 0"

fun ws_end :: "nat list \<Rightarrow> nat" where
  "ws_end (a # bs) =
     (if ascii_ws a then 1
      else case bs of
        [] \<Rightarrow> 0
      | b # cs \<Rightarrow>
          if blank_bytes [b, a] then 2
          else case cs of [] \<Rightarrow> 0 | c # _ \<Rightarrow> if blank_bytes [c, b, a] then 3 else 0)"
| "ws_end [] = 0"

function drop_blanks :: "(nat list \<Rightarrow> nat) \<Rightarrow> string \<Rightarrow> string" where
  "drop_blanks w s = (if s = [] \<or> w (map of_char s) = 0 then s else drop_blanks w (drop (w (map of_char s)) s))"
  by pat_completeness auto
termination by (relation "measure (length \<circ> snd)") auto

declare drop_blanks.simps [simp del]

definition str_trim :: "string \<Rightarrow> string" where
  "str_trim s = rev (drop_blanks ws_end (rev (drop_blanks ws_start s)))"

text \<open>
  The parser of \<open>Ipv6Addr\<close>: up to eight groups of at most four hexadecimal digits, the last two of which
  may be an address in dotted form, with one \<open>::\<close> for a run of zero groups.
\<close>

definition hex_digit :: "nat \<Rightarrow> char \<Rightarrow> nat option" where
  "hex_digit radix ch =
     (let b = of_char ch :: nat;
        d = (if 48 \<le> b \<and> b \<le> 57 then b - 48
             else if 97 \<le> b \<and> b \<le> 122 then b - 87
             else if 65 \<le> b \<and> b \<le> 90 then b - 55
             else radix)
      in if d < radix then Some d else None)"

text \<open>The digits at the start, with the number they spell; \<open>None\<close> for too many digits or too large a number.\<close>

fun read_digits :: "nat \<Rightarrow> nat \<Rightarrow> nat \<Rightarrow> nat \<Rightarrow> nat \<Rightarrow> string \<Rightarrow> (nat \<times> nat \<times> string) option" where
  "read_digits radix max_digits mx n acc s =
     (case s of
        [] \<Rightarrow> Some (n, acc, s)
      | ch # cs \<Rightarrow>
          (case hex_digit radix ch of
             None \<Rightarrow> Some (n, acc, s)
           | Some d \<Rightarrow>
               if mx < acc * radix + d \<or> max_digits < n + 1 then None
               else read_digits radix max_digits mx (n + 1) (acc * radix + d) cs))"

declare read_digits.simps [simp del]

definition read_number :: "nat \<Rightarrow> nat \<Rightarrow> nat \<Rightarrow> bool \<Rightarrow> string \<Rightarrow> (nat \<times> string) option" where
  "read_number radix max_digits mx allow_zero_prefix s =
     (case read_digits radix max_digits mx 0 0 s of
        None \<Rightarrow> None
      | Some (n, v, rest) \<Rightarrow>
          if n = 0 \<or> \<not> allow_zero_prefix \<and> take 1 s = ''0'' \<and> 1 < n then None else Some (v, rest))"

definition read_given_char :: "char \<Rightarrow> string \<Rightarrow> string option" where
  "read_given_char ch s = (case s of [] \<Rightarrow> None | x # xs \<Rightarrow> if x = ch then Some xs else None)"

definition after_separator :: "char \<Rightarrow> nat \<Rightarrow> string \<Rightarrow> string option" where
  "after_separator sep i s = (if i = 0 then Some s else read_given_char sep s)"

definition read_octet :: "nat \<Rightarrow> string \<Rightarrow> (nat \<times> string) option" where
  "read_octet i s = Option.bind (after_separator CHR ''.'' i s) (read_number 10 3 255 False)"

definition read_ipv4 :: "string \<Rightarrow> (nat list \<times> string) option" where
  "read_ipv4 s =
     Option.bind (read_octet 0 s) (\<lambda>(a, s). Option.bind (read_octet 1 s) (\<lambda>(b, s).
       Option.bind (read_octet 2 s) (\<lambda>(c, s). Option.bind (read_octet 3 s) (\<lambda>(d, s). Some ([a, b, c, d], s)))))"

text \<open>\<open>read_groups\<close>: how many groups were read into \<open>limit\<close> places, whether the last two were dotted, the rest.\<close>

function read_groups :: "nat \<Rightarrow> nat \<Rightarrow> string \<Rightarrow> nat \<times> bool \<times> string" where
  "read_groups limit i s =
     (if limit \<le> i then (limit, False, s)
      else case (if i + 1 < limit then Option.bind (after_separator CHR '':'' i s) read_ipv4 else None) of
        Some (_, rest) \<Rightarrow> (i + 2, True, rest)
      | None \<Rightarrow>
          (case Option.bind (after_separator CHR '':'' i s) (read_number 16 4 65535 True) of
             Some (_, rest) \<Rightarrow> read_groups limit (i + 1) rest
           | None \<Rightarrow> (i, False, s)))"
  by pat_completeness auto
termination by (relation "measure (\<lambda>(limit, i, s). limit - i)") auto

declare read_groups.simps [simp del]

definition is_ipv6 :: "string \<Rightarrow> bool" where
  "is_ipv6 s =
     (case read_groups 8 0 s of
        (n, dotted, rest) \<Rightarrow>
          if n = 8 then rest = []
          else if dotted then False
          else case Option.bind (read_given_char CHR '':'' rest) (read_given_char CHR '':'') of
            None \<Rightarrow> False
          | Some rest' \<Rightarrow> snd (snd (read_groups (7 - n) 0 rest')) = [])"

lemmas ipv6_simps = is_ipv6_def read_groups.simps after_separator_def read_given_char_def read_ipv4_def read_octet_def
  read_number_def read_digits.simps hex_digit_def

section \<open>Configuration\<close>

record kube_config =
  kc_namespace :: string
  kc_port_name :: "string option"
  kc_scheme :: string
  kc_startup_timeout :: duration
  kc_backoff :: reconnect_backoff

definition kube_config_new :: "string \<Rightarrow> kube_config" where
  "kube_config_new ns =
     \<lparr>kc_namespace = ns, kc_port_name = None, kc_scheme = ''http'', kc_startup_timeout = 10 * nanos_per_sec,
      kc_backoff = reconnect_default\<rparr>"

definition with_port_name :: "string \<Rightarrow> kube_config \<Rightarrow> kube_config" where
  "with_port_name n c = c\<lparr>kc_port_name := Some n\<rparr>"

definition with_scheme :: "string \<Rightarrow> kube_config \<Rightarrow> kube_config" where
  "with_scheme n c = c\<lparr>kc_scheme := n\<rparr>"

definition with_startup_timeout :: "duration \<Rightarrow> kube_config \<Rightarrow> kube_config option" where
  "with_startup_timeout d c = (if d = 0 then None else Some (c\<lparr>kc_startup_timeout := d\<rparr>))"

definition with_reconnect_backoff :: "reconnect_backoff \<Rightarrow> kube_config \<Rightarrow> kube_config" where
  "with_reconnect_backoff b c = c\<lparr>kc_backoff := b\<rparr>"

datatype kube_error = InvalidNamespace | InvalidService | InvalidPortName | InvalidScheme | KubeClient string
  | StartupTimeout | WatchClosed

fun kube_error_display :: "kube_error \<Rightarrow> string" where
  "kube_error_display InvalidNamespace = ''Kubernetes namespace cannot be empty''"
| "kube_error_display InvalidService = ''Kubernetes service name cannot be empty''"
| "kube_error_display InvalidPortName = ''Kubernetes port name cannot be empty''"
| "kube_error_display InvalidScheme = ''Kubernetes endpoint scheme is invalid''"
| "kube_error_display (KubeClient e) = ''Kubernetes client failed: '' @ e"
| "kube_error_display StartupTimeout = ''Kubernetes endpoint discovery timed out during initial list''"
| "kube_error_display WatchClosed = ''Kubernetes endpoint watch closed''"

definition is_lower :: "char \<Rightarrow> bool" where
  "is_lower ch \<longleftrightarrow> 97 \<le> (of_char ch :: nat) \<and> (of_char ch :: nat) \<le> 122"

definition is_upper :: "char \<Rightarrow> bool" where
  "is_upper ch \<longleftrightarrow> 65 \<le> (of_char ch :: nat) \<and> (of_char ch :: nat) \<le> 90"

definition is_digit :: "char \<Rightarrow> bool" where
  "is_digit ch \<longleftrightarrow> 48 \<le> (of_char ch :: nat) \<and> (of_char ch :: nat) \<le> 57"

definition valid_dns_label :: "string \<Rightarrow> bool" where
  "valid_dns_label v \<longleftrightarrow> length v \<le> 63 \<and>
     (case v of [] \<Rightarrow> False | b # _ \<Rightarrow> is_lower b \<or> is_digit b) \<and>
     (case rev v of [] \<Rightarrow> False | b # _ \<Rightarrow> is_lower b \<or> is_digit b) \<and>
     list_all (\<lambda>b. is_lower b \<or> is_digit b \<or> b = CHR ''-'') v"

definition valid_scheme :: "string \<Rightarrow> bool" where
  "valid_scheme v \<longleftrightarrow>
     (case v of
        [] \<Rightarrow> False
      | c # cs \<Rightarrow> (is_lower c \<or> is_upper c) \<and>
          list_all (\<lambda>x. is_lower x \<or> is_upper x \<or> is_digit x \<or> x \<in> set ''+-.'') cs)"

definition validate_kube_config :: "kube_config \<Rightarrow> kube_error + unit" where
  "validate_kube_config c =
     in_order
       [check (\<not> valid_dns_label (str_trim (kc_namespace c))) InvalidNamespace,
        check (case kc_port_name c of None \<Rightarrow> False | Some n \<Rightarrow> is_blank n) InvalidPortName,
        check (\<not> valid_scheme (kc_scheme c)) InvalidScheme]"

text \<open>\<open>KubernetesDiscovery\<close>: the client is only passed on; \<open>infer\<close> can fail before the configuration is seen.\<close>

definition kube_discovery_new :: "kube_config \<Rightarrow> kube_error + kube_config" where
  "kube_discovery_new c = and_then (validate_kube_config c) (\<lambda>_. Inr c)"

definition kube_infer :: "string + unit \<Rightarrow> kube_config \<Rightarrow> kube_error + kube_config" where
  "kube_infer client c = (case client of Inl e \<Rightarrow> Inl (KubeClient e) | Inr _ \<Rightarrow> kube_discovery_new c)"

section \<open>The endpoints of a slice\<close>

record slice_port =
  sp_name :: "string option"
  sp_port :: "int option"
  sp_protocol :: "string option"

record endpoint_conditions =
  ec_ready :: "bool option"
  ec_terminating :: "bool option"

record slice_endpoint =
  se_addresses :: "string list"
  se_conditions :: "endpoint_conditions option"

record endpoint_slice =
  es_name :: string  \<comment> \<open>\<open>name_any\<close>\<close>
  es_endpoints :: "slice_endpoint list option"
  es_ports :: "slice_port list option"

definition btree_set :: "'a::linorder list \<Rightarrow> 'a list" where
  "btree_set xs = sort (remdups xs)"

definition port_matches :: "string option \<Rightarrow> slice_port \<Rightarrow> bool" where
  "port_matches port_name p \<longleftrightarrow> sp_port p \<noteq> None \<and>
     (case sp_protocol p of None \<Rightarrow> True | Some q \<Rightarrow> q = ''TCP'') \<and>
     (case port_name of None \<Rightarrow> True | Some n \<Rightarrow> sp_name p = Some n)"

definition slice_port_number :: "string option \<Rightarrow> endpoint_slice \<Rightarrow> int option" where
  "slice_port_number port_name sl =
     Option.bind (es_ports sl) (\<lambda>ps. Option.bind (find (port_matches port_name) ps) sp_port)"

definition takes_traffic :: "slice_endpoint \<Rightarrow> bool" where
  "takes_traffic e =
     (let ready = (case Option.bind (se_conditions e) ec_ready of None \<Rightarrow> True | Some b \<Rightarrow> b);
        terminating = (case Option.bind (se_conditions e) ec_terminating of None \<Rightarrow> False | Some b \<Rightarrow> b)
      in \<not> (\<not> ready \<or> terminating))"

definition endpoint_uri :: "string \<Rightarrow> int \<Rightarrow> string \<Rightarrow> string" where
  "endpoint_uri scheme port address =
     (let host = (if is_ipv6 address then ''['' @ address @ '']'' else address) in
      scheme @ ''://'' @ host @ '':'' @ show_int port)"

definition endpoints_from_slice :: "string option \<Rightarrow> string \<Rightarrow> endpoint_slice \<Rightarrow> string list" where
  "endpoints_from_slice port_name scheme sl =
     (case slice_port_number port_name sl of
        None \<Rightarrow> []
      | Some port \<Rightarrow>
          btree_set (concat (map (\<lambda>e. map (endpoint_uri scheme port) (se_addresses e))
            (filter takes_traffic (case es_endpoints sl of None \<Rightarrow> [] | Some es \<Rightarrow> es)))))"

type_synonym slice_table = "(string, string list) bmap"

definition combined_endpoints :: "slice_table \<Rightarrow> string list" where
  "combined_endpoints slices = btree_set (concat (map snd slices))"

section \<open>The watch\<close>

datatype watch_event = EvApply endpoint_slice | EvDelete endpoint_slice | EvInit | EvInitApply endpoint_slice | EvInitDone

text \<open>The variables of the task, and the channel it sends on: its value and how often it was replaced.\<close>

record kube_task =
  kt_slices :: slice_table
  kt_pending :: slice_table
  kt_attempt :: nat
  kt_received :: bool
  kt_value :: "string list"
  kt_version :: nat

definition kube_task_new :: kube_task where
  "kube_task_new = \<lparr>kt_slices = [], kt_pending = [], kt_attempt = 0, kt_received = False, kt_value = [], kt_version = 0\<rparr>"

text \<open>The head of the outer loop: a fresh \<open>pending\<close>, a new stream.\<close>

definition kube_open_stream :: "kube_task \<Rightarrow> kube_task" where
  "kube_open_stream t = t\<lparr>kt_pending := [], kt_received := False\<rparr>"

definition kube_send :: "kube_task \<Rightarrow> kube_task" where
  "kube_send t = t\<lparr>kt_value := combined_endpoints (kt_slices t), kt_version := kt_version t + 1\<rparr>"

definition kube_on_event :: "kube_config \<Rightarrow> watch_event \<Rightarrow> kube_task \<Rightarrow> kube_task" where
  "kube_on_event c ev t0 =
     (let t = t0\<lparr>kt_received := True\<rparr>; eps = endpoints_from_slice (kc_port_name c) (kc_scheme c) in
      case ev of
        EvApply sl \<Rightarrow> kube_send (t\<lparr>kt_slices := bt_put (es_name sl) (eps sl) (kt_slices t)\<rparr>)
      | EvDelete sl \<Rightarrow> kube_send (t\<lparr>kt_slices := bt_del (es_name sl) (kt_slices t)\<rparr>)
      | EvInit \<Rightarrow> t\<lparr>kt_pending := []\<rparr>
      | EvInitApply sl \<Rightarrow> t\<lparr>kt_pending := bt_put (es_name sl) (eps sl) (kt_pending t)\<rparr>
      | EvInitDone \<Rightarrow> kube_send (t\<lparr>kt_slices := kt_pending t, kt_pending := []\<rparr>))"

text \<open>The stream ended or failed: the delay before the next one.\<close>

definition kube_stream_over :: "kube_config \<Rightarrow> nat \<Rightarrow> kube_task \<Rightarrow> duration \<times> kube_task" where
  "kube_stream_over c seed t =
     (let attempt = (if kt_received t then 0 else kt_attempt t) in
      (reconnect_delay attempt ((seed + attempt) mod 2 ^ 64) (kc_backoff c),
       t\<lparr>kt_attempt := sat_add u32_max attempt 1\<rparr>))"

text \<open>
  \<open>subscribe\<close>: what is watched, then the first wait. The task's loop has no exit, so the channel closes
  only when the task panics.
\<close>

definition kube_watch_request :: "kube_config \<Rightarrow> string \<Rightarrow> kube_error + string \<times> string" where
  "kube_watch_request c service0 =
     (let service = str_trim service0 in
      if \<not> valid_dns_label service then Inl InvalidService
      else Inr (kc_namespace c, ''kubernetes.io/service-name='' @ service))"

datatype first_wait = FirstValue | ChannelClosed | TimedOut

record kube_subscription =
  ks_seen :: nat
  ks_aborted :: bool

definition kube_subscribe :: "kube_config \<Rightarrow> string \<Rightarrow> first_wait \<Rightarrow> kube_task \<Rightarrow> kube_error + kube_subscription" where
  "kube_subscribe c service wait t =
     and_then (kube_watch_request c service) (\<lambda>_.
       case wait of
         FirstValue \<Rightarrow> Inr \<lparr>ks_seen = kt_version t, ks_aborted = False\<rparr>
       | ChannelClosed \<Rightarrow> Inl WatchClosed
       | TimedOut \<Rightarrow> Inl StartupTimeout)"

definition kube_endpoints :: "kube_task \<Rightarrow> string list" where
  "kube_endpoints t = kt_value t"

text \<open>\<open>changed\<close>: \<open>None\<close> while it waits.\<close>

definition kube_changed :: "bool \<Rightarrow> kube_task \<Rightarrow> kube_subscription \<Rightarrow> (kube_error + string list \<times> kube_subscription) option" where
  "kube_changed sender_gone t sub =
     (if ks_seen sub \<noteq> kt_version t then Some (Inr (kube_endpoints t, sub\<lparr>ks_seen := kt_version t\<rparr>))
      else if sender_gone then Some (Inl WatchClosed) else None)"

definition kube_drop :: "kube_subscription \<Rightarrow> kube_subscription" where
  "kube_drop sub = sub\<lparr>ks_aborted := True\<rparr>"

section \<open>The task against a server\<close>

datatype slice_change = PutSlice endpoint_slice | DropSlice endpoint_slice

fun change_slice :: "slice_change \<Rightarrow> endpoint_slice" where
  "change_slice (PutSlice sl) = sl"
| "change_slice (DropSlice sl) = sl"

fun change_event :: "slice_change \<Rightarrow> watch_event" where
  "change_event (PutSlice sl) = EvApply sl"
| "change_event (DropSlice sl) = EvDelete sl"

fun slices_after :: "slice_change list \<Rightarrow> string \<rightharpoonup> endpoint_slice" where
  "slices_after [] = Map.empty"
| "slices_after (PutSlice sl # older) = (slices_after older)(es_name sl \<mapsto> sl)"
| "slices_after (DropSlice sl # older) = (slices_after older)(es_name sl := None)"

definition slices_at :: "slice_change list \<Rightarrow> nat \<Rightarrow> string \<rightharpoonup> endpoint_slice" where
  "slices_at history r = slices_after (rev (take r history))"

abbreviation named :: "endpoint_slice list \<Rightarrow> string \<rightharpoonup> endpoint_slice" where
  "named sls \<equiv> map_of (map (\<lambda>sl. (es_name sl, sl)) sls)"

datatype stream_phase = Sleeping | Opened | Listing nat "endpoint_slice list" | Watching nat

record kube_run =
  kr_history :: "slice_change list"
  kr_stream :: stream_phase
  kr_revision :: "nat option"  \<comment> \<open>the revision the last complete value stands for\<close>
  kr_task :: kube_task

text \<open>
  A stream first lists: all slices of one revision, each once, possibly on several pages. It then reports
  the changes after that revision. It may list again at any time, and it may end at any time.
\<close>

inductive kube_reach :: "kube_config \<Rightarrow> kube_run \<Rightarrow> bool" for c where
  spawned:
    "kube_reach c \<lparr>kr_history = history, kr_stream = Opened, kr_revision = None, kr_task = kube_open_stream kube_task_new\<rparr>"
| changes:
    "kube_reach c s \<Longrightarrow> kube_reach c (s\<lparr>kr_history := kr_history s @ [ch]\<rparr>)"
| lists:
    "kube_reach c s \<Longrightarrow> kr_stream s \<noteq> Sleeping \<Longrightarrow>
     distinct (map es_name sls) \<Longrightarrow> named sls = slices_at (kr_history s) (length (kr_history s)) \<Longrightarrow>
     kube_reach c (s\<lparr>kr_stream := Listing (length (kr_history s)) sls, kr_task := kube_on_event c EvInit (kr_task s)\<rparr>)"
| listed:
    "kube_reach c s \<Longrightarrow> kr_stream s = Listing r (sl # sls) \<Longrightarrow>
     kube_reach c (s\<lparr>kr_stream := Listing r sls, kr_task := kube_on_event c (EvInitApply sl) (kr_task s)\<rparr>)"
| list_done:
    "kube_reach c s \<Longrightarrow> kr_stream s = Listing r [] \<Longrightarrow>
     kube_reach c (s\<lparr>kr_stream := Watching r, kr_revision := Some r, kr_task := kube_on_event c EvInitDone (kr_task s)\<rparr>)"
| reports:
    "kube_reach c s \<Longrightarrow> kr_stream s = Watching p \<Longrightarrow> p < length (kr_history s) \<Longrightarrow>
     kube_reach c (s\<lparr>kr_stream := Watching (p + 1), kr_revision := Some (p + 1),
       kr_task := kube_on_event c (change_event (kr_history s ! p)) (kr_task s)\<rparr>)"
| ends:
    "kube_reach c s \<Longrightarrow> kr_stream s \<noteq> Sleeping \<Longrightarrow>
     kube_reach c (s\<lparr>kr_stream := Sleeping, kr_task := snd (kube_stream_over c seed (kr_task s))\<rparr>)"
| wakes:
    "kube_reach c s \<Longrightarrow> kr_stream s = Sleeping \<Longrightarrow>
     kube_reach c (s\<lparr>kr_stream := Opened, kr_task := kube_open_stream (kr_task s)\<rparr>)"

text \<open>The endpoints a slice offers, as a set.\<close>

definition offers :: "kube_config \<Rightarrow> endpoint_slice \<Rightarrow> string set" where
  "offers c sl =
     {endpoint_uri (kc_scheme c) port address | port address e es.
        slice_port_number (kc_port_name c) sl = Some port \<and> es_endpoints sl = Some es \<and> e \<in> set es \<and>
        takes_traffic e \<and> address \<in> set (se_addresses e)}"

abbreviation offered :: "kube_config \<Rightarrow> (string \<rightharpoonup> endpoint_slice) \<Rightarrow> string set" where
  "offered c m \<equiv> (\<Union>sl \<in> ran m. offers c sl)"

abbreviation eps_of :: "kube_config \<Rightarrow> endpoint_slice \<Rightarrow> string list" where
  "eps_of c \<equiv> endpoints_from_slice (kc_port_name c) (kc_scheme c)"

lemma btree_set_eq: "btree_set xs = sorted_list_of_set (set xs)"
  by (simp add: btree_set_def sorted_list_of_set_sort_remdups)

lemma set_eps_of: "set (eps_of c sl) = offers c sl"
proof (cases "slice_port_number (kc_port_name c) sl")
  case (Some port)
  then show ?thesis
    by (cases "es_endpoints sl") (fastforce simp: endpoints_from_slice_def offers_def btree_set_def)+
qed (simp add: endpoints_from_slice_def offers_def)

lemma combined_endpoints_eq:
  assumes "bt_ok m" "\<forall>n. map_of m n = map_option (eps_of c) (view n)"
  shows "combined_endpoints m = sorted_list_of_set (offered c view)"
proof -
  have "set (map snd m) = ran (map_of m)"
    using bt_ok_distinct [OF assms(1)] by (simp add: ran_distinct)
  also have "\<dots> = eps_of c ` ran view"
    using assms(2) by (auto simp: ran_def image_def) 
  finally have "set (concat (map snd m)) = offered c view"
    by (simp add: set_eps_of [symmetric] del: set_map)
  then show ?thesis by (simp add: combined_endpoints_def btree_set_eq)
qed

lemma combined_endpoints_Nil [simp]: "combined_endpoints [] = []"
  by (simp add: combined_endpoints_def btree_set_def)

lemma slices_at_Suc:
  "p < length h \<Longrightarrow> slices_at h (p + 1) =
     (case h ! p of PutSlice sl \<Rightarrow> (slices_at h p)(es_name sl \<mapsto> sl) | DropSlice sl \<Rightarrow> (slices_at h p)(es_name sl := None))"
  by (simp add: slices_at_def take_Suc_conv_app_nth split: slice_change.split)

lemma slices_at_append: "r \<le> length h \<Longrightarrow> slices_at (h @ cs) r = slices_at h r"
  by (simp add: slices_at_def)

text \<open>The list being read: what is still to come, then what has been read.\<close>

definition list_view :: "kube_config \<Rightarrow> endpoint_slice list \<Rightarrow> slice_table \<Rightarrow> string \<Rightarrow> string list option" where
  "list_view c sls pending n = (case named sls n of Some sl \<Rightarrow> Some (eps_of c sl) | None \<Rightarrow> map_of pending n)"

lemma list_view_new: "list_view c sls [] n = map_option (eps_of c) (named sls n)"
  by (simp add: list_view_def split: option.split)

lemma list_view_done [simp]: "list_view c [] pending n = map_of pending n"
  by (simp add: list_view_def)

lemma list_view_Cons:
  "es_name sl \<notin> es_name ` set sls \<Longrightarrow>
   list_view c (sl # sls) pending n = list_view c sls (bt_put (es_name sl) (eps_of c sl) pending) n"
proof -
  assume "es_name sl \<notin> es_name ` set sls"
  then have "named sls (es_name sl) = None" by (force simp: map_of_eq_None_iff)
  then show ?thesis by (simp add: list_view_def map_of_bt_put split: option.split)
qed

text \<open>What the task knows: its slices at the last complete revision, and the part of the list it has read.\<close>

definition kube_tracks :: "kube_config \<Rightarrow> kube_run \<Rightarrow> bool" where
  "kube_tracks c s \<longleftrightarrow>
     bt_ok (kt_slices (kr_task s)) \<and> bt_ok (kt_pending (kr_task s)) \<and>
     kt_value (kr_task s) = combined_endpoints (kt_slices (kr_task s)) \<and>
     (case kr_revision s of
        None \<Rightarrow> kt_slices (kr_task s) = [] \<and> kt_version (kr_task s) = 0
      | Some r \<Rightarrow> r \<le> length (kr_history s) \<and> 0 < kt_version (kr_task s) \<and>
          (\<forall>n. map_of (kt_slices (kr_task s)) n = map_option (eps_of c) (slices_at (kr_history s) r n))) \<and>
     (case kr_stream s of
        Listing r sls \<Rightarrow> r \<le> length (kr_history s) \<and> (\<forall>q. kr_revision s = Some q \<longrightarrow> q \<le> r) \<and> distinct (map es_name sls) \<and>
          (\<forall>n. map_option (eps_of c) (slices_at (kr_history s) r n) = list_view c sls (kt_pending (kr_task s)) n)
      | Watching p \<Rightarrow> kr_revision s = Some p
      | _ \<Rightarrow> True)"

lemma kube_reach_tracks: "kube_reach c s \<Longrightarrow> kube_tracks c s"
proof (induction rule: kube_reach.induct)
  case (spawned history)
  then show ?case
    by (simp add: kube_tracks_def kube_open_stream_def kube_task_new_def bt.ok_empty)
next
  case (changes s ch)
  then show ?case by (auto simp: kube_tracks_def slices_at_append split: option.splits stream_phase.splits)
next
  case (lists s sls)
  then show ?case
    by (auto simp: kube_tracks_def kube_on_event_def bt.ok_empty list_view_new split: option.splits stream_phase.splits)
next
  case (listed s r sl sls)
  then show ?case
    by (auto simp: kube_tracks_def kube_on_event_def bt.ok_put list_view_Cons split: option.splits)
next
  case (list_done s r)
  then show ?case
    by (auto simp: kube_tracks_def kube_on_event_def kube_send_def bt.ok_empty split: option.splits)
next
  case (reports s p)
  then show ?case
    by (cases "kr_history s ! p")
      (auto simp: kube_tracks_def kube_on_event_def kube_send_def Let_def slices_at_Suc bt.ok_put bt.ok_del map_of_bt_put
        map_of_bt_del simp del: One_nat_def)
next
  case (ends s seed)
  then show ?case
    by (auto simp: kube_tracks_def kube_stream_over_def Let_def split: option.splits stream_phase.splits)
next
  case (wakes s)
  then show ?case
    by (auto simp: kube_tracks_def kube_open_stream_def bt.ok_empty split: option.splits)
qed

text \<open>
  C33. The subscription follows the cluster. Whatever the watcher reports, however often its stream ends
  and lists are cut short, a value is published only for complete lists: nothing before the first one,
  and from then on the sorted, duplicate-free list of the endpoints offered by the service's slices at
  one revision of the cluster, those of ready and not terminating endpoints on the selected port. The
  stream continues right after that revision, so once it has reported everything the value is current;
  and a subscription that has started holds a complete value.
\<close>

theorem kubernetes_subscription_tracks:
  assumes "kube_reach c s"
  shows "(case kr_revision s of
      None \<Rightarrow> kube_endpoints (kr_task s) = [] \<and> kt_version (kr_task s) = 0
    | Some r \<Rightarrow> r \<le> length (kr_history s) \<and> 0 < kt_version (kr_task s) \<and>
        kube_endpoints (kr_task s) = sorted_list_of_set (offered c (slices_at (kr_history s) r))) \<and>
    (kr_stream s = Watching (length (kr_history s)) \<longrightarrow>
      kube_endpoints (kr_task s) = sorted_list_of_set (offered c (slices_after (rev (kr_history s)))))"
  using kube_reach_tracks [OF assms]
  by (auto simp: kube_tracks_def kube_endpoints_def combined_endpoints_eq slices_at_def split: option.splits)

theorem kubernetes_subscription_tracks_witness:
  "\<exists>s :: kube_run. kube_endpoints (kr_task s) = [''http://10.0.0.1:80'', ''http://[fd00::1]:80''] \<and> kr_revision s = Some 2 \<and>
     kube_endpoints (kr_task s) =
       sorted_list_of_set (offered (kube_config_new ''default'') (slices_at (kr_history s) 2))"
proof -
  let ?c = "kube_config_new ''default''"
  let ?e = "\<lambda>a. \<lparr>se_addresses = [a], se_conditions = None\<rparr>"
  let ?sl = "\<lambda>n a. \<lparr>es_name = n, es_endpoints = Some [?e a],
    es_ports = Some [\<lparr>sp_name = None, sp_port = Some 80, sp_protocol = Some ''TCP''\<rparr>]\<rparr>"
  let ?a = "?sl ''a'' ''fd00::1''" and ?b = "?sl ''b'' ''10.0.0.1''"
  let ?s0 = "\<lparr>kr_history = [PutSlice ?a], kr_stream = Opened, kr_revision = None, kr_task = kube_open_stream kube_task_new\<rparr>"
  have "kube_reach ?c ?s0" by (rule kube_reach.spawned)
  from kube_reach.lists [OF this, of "[?a]"]
  have "kube_reach ?c (?s0\<lparr>kr_stream := Listing 1 [?a], kr_task := kube_on_event ?c EvInit (kr_task ?s0)\<rparr>)"
    by (simp add: slices_at_def)
  from kube_reach.list_done [OF kube_reach.listed [OF this]]
  have "kube_reach ?c (?s0\<lparr>kr_stream := Watching 1, kr_revision := Some 1, kr_task :=
      kube_on_event ?c EvInitDone (kube_on_event ?c (EvInitApply ?a) (kube_on_event ?c EvInit (kr_task ?s0)))\<rparr>)"
    by simp
  from kube_reach.reports [OF kube_reach.changes [OF this, of "PutSlice ?b"], of 1]
  obtain s where s: "kube_reach ?c s" "kr_history s = [PutSlice ?a, PutSlice ?b]" "kr_revision s = Some 2"
    "kr_task s = kube_on_event ?c (EvApply ?b)
      (kube_on_event ?c EvInitDone (kube_on_event ?c (EvInitApply ?a) (kube_on_event ?c EvInit (kr_task ?s0))))"
    by simp
  have v6: "is_ipv6 ''fd00::1''" and v4: "\<not> is_ipv6 ''10.0.0.1''" by (simp_all add: ipv6_simps)
  have show80: "show_int 80 = ''80''" by (simp add: show_int_def show_nat.simps digit_char_def char_of_def bit_0)
  have eps: "endpoints_from_slice None ''http'' ?a = [''http://[fd00::1]:80'']"
    "endpoints_from_slice None ''http'' ?b = [''http://10.0.0.1:80'']"
    by (simp_all add: endpoints_from_slice_def slice_port_number_def port_matches_def takes_traffic_def
        endpoint_uri_def v6 v4 show80 btree_set_def)
  have "combined_endpoints [(''a'', [''http://[fd00::1]:80'']), (''b'', [''http://10.0.0.1:80''])] =
      [''http://10.0.0.1:80'', ''http://[fd00::1]:80'']"
    by (simp add: combined_endpoints_def btree_set_def)
  then have "kube_endpoints (kr_task s) = [''http://10.0.0.1:80'', ''http://[fd00::1]:80'']"
    by (simp add: s(4) kube_on_event_def kube_send_def kube_endpoints_def Let_def eps
        kube_config_new_def kube_open_stream_def kube_task_new_def)
  with kubernetes_subscription_tracks [OF s(1)] s(3) show ?thesis by - (rule exI [of _ s], simp)
qed

text \<open>
  The delay before a new stream is at least the initial one and at most the maximum with its jitter, and a
  stream that reported anything starts the sequence over.
\<close>

lemma kube_delay_bounds:
  assumes "reconnect_new initial mx jitter = Some (kc_backoff c)" and "mx \<le> duration_max"
  shows "initial \<le> fst (kube_stream_over c seed t) \<and> fst (kube_stream_over c seed t) \<le> mx + jitter \<and>
    (kt_received t \<longrightarrow> kube_stream_over c seed t = kube_stream_over c seed (t\<lparr>kt_attempt := 0\<rparr>))"
  using reconnect_delay_bounds [OF assms] by (simp add: kube_stream_over_def Let_def)

text \<open>
  The namespace is checked without its surrounding white space but used with it, and a port name is never
  trimmed: such a discovery is accepted and watches a namespace that cannot exist.
\<close>

lemma padded_namespace_watched:
  "kube_discovery_new (kube_config_new '' prod '') = Inr (kube_config_new '' prod '') \<and>
   kube_watch_request (kube_config_new '' prod '') ''users'' = Inr ('' prod '', ''kubernetes.io/service-name=users'') \<and>
   \<not> valid_dns_label '' prod ''"
proof -
  have "str_trim '' prod '' = ''prod''" and "str_trim ''users'' = ''users''"
    by (simp_all add: str_trim_def drop_blanks.simps ascii_ws_def)
  then show ?thesis
    by (simp add: kube_discovery_new_def validate_kube_config_def kube_watch_request_def kube_config_new_def
        valid_dns_label_def valid_scheme_def is_lower_def is_upper_def is_digit_def check_def)
qed

text \<open>A service name that passes is a DNS label, so the selector names exactly one service.\<close>

lemma kube_selector_safe:
  assumes "kube_watch_request c service = Inr (ns, selector)"
  shows "\<exists>label. selector = ''kubernetes.io/service-name='' @ label \<and> valid_dns_label label \<and>
    set label \<inter> set '',=!()'' = {}"
proof -
  have "set label \<inter> set '',=!()'' = {}" if "valid_dns_label label" for label
    using that by (auto simp: valid_dns_label_def list_all_iff is_lower_def is_digit_def)
  then show ?thesis
    using assms by (auto simp: kube_watch_request_def Let_def split: if_splits)
qed

end
