(* ===== verification/Metrics.thy ===== *)
theory Metrics
  imports Binary64
begin

text \<open>
  \<open>core/src/metric.rs\<close>: the registry of counters, gauges and histograms and its text exposition. A handle
  shares its family with the registry, which never removes one, so a handle is the name of its family and
  an operation changes the family under that name. Every operation holds the lock of its family for its
  update.
\<close>

section \<open>Numbers as text\<close>

text \<open>
  \<open>f64::to_string\<close>: the shortest decimal that reads back as the same number, without an exponent. With the
  largest power of ten of which some multiple rounds to the number, the nearest such multiple.
\<close>

definition decimal_candidate :: "int \<Rightarrow> rat \<Rightarrow> int option" where
  "decimal_candidate k q =
     (let u = 10 powi k; lo = \<lfloor>q / u\<rfloor>; down = of_int lo * u; up = (of_int lo + 1) * u in
      if fl down = q \<and> (fl up \<noteq> q \<or> q - down \<le> up - q) then Some lo
      else if fl up = q then Some (lo + 1) else None)"

function shortest_decimal :: "int \<Rightarrow> rat \<Rightarrow> int \<times> int" where
  "shortest_decimal k q =
     (if k \<le> -1074 then (\<lfloor>q * 10 ^ 1074\<rfloor>, -1074)
      else case decimal_candidate k q of Some m \<Rightarrow> (m, k) | None \<Rightarrow> shortest_decimal (k - 1) q)"
  by pat_completeness auto
termination by (relation "measure (\<lambda>(k, q). nat (k + 1074))") auto

declare shortest_decimal.simps [simp del]

definition show_decimal :: "nat \<Rightarrow> int \<Rightarrow> string" where
  "show_decimal m k =
     (if 0 \<le> k then show_nat m @ replicate (nat k) CHR ''0''
      else
        let places = nat (- k); digits = show_nat m; padded = replicate (places + 1 - length digits) CHR ''0'' @ digits
        in take (length padded - places) padded @ ''.'' @ drop (length padded - places) padded)"

definition show_positive :: "rat \<Rightarrow> string" where
  "show_positive q =
     (case shortest_decimal (int (length (show_nat (nat \<lfloor>q\<rfloor>)))) q of (m, k) \<Rightarrow> show_decimal (nat m) k)"

fun show_f64 :: "f64 \<Rightarrow> string" where
  "show_f64 (Fin q) = (if q = 0 then ''0'' else if q < 0 then CHR ''-'' # show_positive (- q) else show_positive q)"
| "show_f64 (Inf neg) = (if neg then ''-inf'' else ''inf'')"
| "show_f64 NaN = ''NaN''"

definition format_float :: "f64 \<Rightarrow> string" where
  "format_float v = (if v = Inf False then ''+Inf'' else show_f64 v)"

section \<open>Options and families\<close>

record vector_options =
  vo_namespace :: string
  vo_subsystem :: string
  vo_name :: string
  vo_help :: string
  vo_labels :: "string list"

definition vector_options_new :: "string \<Rightarrow> string \<Rightarrow> vector_options" where
  "vector_options_new n h = \<lparr>vo_namespace = [], vo_subsystem = [], vo_name = n, vo_help = h, vo_labels = []\<rparr>"

definition vo_with_namespace :: "string \<Rightarrow> vector_options \<Rightarrow> vector_options" where
  "vo_with_namespace n opts = opts\<lparr>vo_namespace := n\<rparr>"

definition vo_with_subsystem :: "string \<Rightarrow> vector_options \<Rightarrow> vector_options" where
  "vo_with_subsystem n opts = opts\<lparr>vo_subsystem := n\<rparr>"

definition vo_with_labels :: "string list \<Rightarrow> vector_options \<Rightarrow> vector_options" where
  "vo_with_labels ls opts = opts\<lparr>vo_labels := ls\<rparr>"

definition metric_name :: "vector_options \<Rightarrow> string" where
  "metric_name opts = join_with ''_'' (filter (\<lambda>part. part \<noteq> []) [vo_namespace opts, vo_subsystem opts, vo_name opts])"

definition default_histogram_buckets :: "f64 list" where
  "default_histogram_buckets =
     map mk [5 / 1000, 1 / 100, 25 / 1000, 5 / 100, 1 / 10, 25 / 100, 5 / 10, 1, 25 / 10, 5, 10]"

record histogram_options =
  ho_vector :: vector_options
  ho_buckets :: "f64 list"

definition histogram_options_new :: "string \<Rightarrow> string \<Rightarrow> histogram_options" where
  "histogram_options_new n h = \<lparr>ho_vector = vector_options_new n h, ho_buckets = default_histogram_buckets\<rparr>"

definition ho_with_vector_options :: "vector_options \<Rightarrow> histogram_options \<Rightarrow> histogram_options" where
  "ho_with_vector_options v opts = opts\<lparr>ho_vector := v\<rparr>"

definition ho_with_buckets :: "f64 list \<Rightarrow> histogram_options \<Rightarrow> histogram_options" where
  "ho_with_buckets bs opts = opts\<lparr>ho_buckets := bs\<rparr>"

datatype metrics_error = InvalidMetricName string | InvalidLabelName string | DuplicateLabel string
  | DuplicateMetric string | LabelCount nat nat | InvalidCounterValue f64 | InvalidGaugeValue f64
  | InvalidObservation f64 | InvalidHistogramBuckets string

fun metrics_error_display :: "metrics_error \<Rightarrow> string" where
  "metrics_error_display (InvalidMetricName n) = ''invalid Prometheus metric name: '' @ n"
| "metrics_error_display (InvalidLabelName n) = ''invalid Prometheus label name: '' @ n"
| "metrics_error_display (DuplicateLabel n) = ''duplicate Prometheus label name: '' @ n"
| "metrics_error_display (DuplicateMetric n) = ''metric is already registered: '' @ n"
| "metrics_error_display (LabelCount expected actual) =
     ''metric expects '' @ show_nat expected @ '' label values but received '' @ show_nat actual"
| "metrics_error_display (InvalidCounterValue v) = ''counter values must be finite and non-negative: '' @ show_f64 v"
| "metrics_error_display (InvalidGaugeValue v) = ''gauge values must be finite: '' @ show_f64 v"
| "metrics_error_display (InvalidObservation v) = ''histogram observations must be finite: '' @ show_f64 v"
| "metrics_error_display (InvalidHistogramBuckets n) =
     ''histogram buckets must be finite, positive, and increasing: '' @ n"

datatype metric_kind = CounterKind | GaugeKind | HistogramKind

fun prometheus_name :: "metric_kind \<Rightarrow> string" where
  "prometheus_name CounterKind = ''counter''"
| "prometheus_name GaugeKind = ''gauge''"
| "prometheus_name HistogramKind = ''histogram''"

datatype metric_values =
    CounterValues "(string list, f64) bmap"
  | GaugeValues "(string list, f64) bmap"
  | HistogramValues "f64 list" "(string list, f64 list) bmap"

record metric_family =
  mf_name :: string
  mf_help :: string
  mf_labels :: "string list"
  mf_kind :: metric_kind
  mf_values :: metric_values

type_synonym metrics = "(string, metric_family) bmap"

definition ident_start :: "char \<Rightarrow> bool" where
  "ident_start ch = (let b = of_char ch :: nat in b = 95 \<or> 65 \<le> b \<and> b \<le> 90 \<or> 97 \<le> b \<and> b \<le> 122)"

definition ident_char :: "char \<Rightarrow> bool" where
  "ident_char ch = (ident_start ch \<or> (let b = of_char ch :: nat in 48 \<le> b \<and> b \<le> 57))"

fun is_valid_identifier :: "string \<Rightarrow> bool" where
  "is_valid_identifier [] = False"
| "is_valid_identifier (ch # cs) = (ident_start ch \<and> list_all ident_char cs)"

fun check_labels :: "string list \<Rightarrow> string list \<Rightarrow> metrics_error + unit" where
  "check_labels seen [] = Inr ()"
| "check_labels seen (l # ls) =
     (if \<not> is_valid_identifier l then Inl (InvalidLabelName l)
      else if l \<in> set seen then Inl (DuplicateLabel l)
      else check_labels (l # seen) ls)"

definition validate_options :: "vector_options \<Rightarrow> string \<Rightarrow> metrics_error + unit" where
  "validate_options opts n =
     (if \<not> is_valid_identifier n then Inl (InvalidMetricName n) else check_labels [] (vo_labels opts))"

section \<open>Registration\<close>

definition metrics_new :: metrics where
  "metrics_new = []"

definition metrics_insert :: "string \<Rightarrow> metric_family \<Rightarrow> metrics \<Rightarrow> (metrics_error + unit) \<times> metrics" where
  "metrics_insert n f ms =
     (if map_of ms n \<noteq> None then (Inl (DuplicateMetric n), ms) else (Inr (), bt_put n f ms))"

text \<open>A registration yields the handle; \<open>register\<close> is never called for histograms.\<close>

definition metrics_register ::
  "vector_options \<Rightarrow> metric_kind \<Rightarrow> metric_values \<Rightarrow> metrics \<Rightarrow> (metrics_error + string) \<times> metrics" where
  "metrics_register opts kind start ms =
     (let n = metric_name opts in
      case validate_options opts n of
        Inl e \<Rightarrow> (Inl e, ms)
      | Inr _ \<Rightarrow>
          (case metrics_insert n \<lparr>mf_name = n, mf_help = vo_help opts, mf_labels = vo_labels opts, mf_kind = kind,
              mf_values = start\<rparr> ms of
             (Inl e, ms') \<Rightarrow> (Inl e, ms')
           | (Inr _, ms') \<Rightarrow> (Inr n, ms')))"

definition counter_vec :: "vector_options \<Rightarrow> metrics \<Rightarrow> (metrics_error + string) \<times> metrics" where
  "counter_vec opts ms = metrics_register opts CounterKind (CounterValues []) ms"

definition gauge_vec :: "vector_options \<Rightarrow> metrics \<Rightarrow> (metrics_error + string) \<times> metrics" where
  "gauge_vec opts ms = metrics_register opts GaugeKind (GaugeValues []) ms"

fun not_increasing :: "f64 list \<Rightarrow> bool" where
  "not_increasing (a # b # bs) = (f_le b a \<or> not_increasing (b # bs))"
| "not_increasing _ = False"

definition histogram_vec :: "histogram_options \<Rightarrow> metrics \<Rightarrow> (metrics_error + string) \<times> metrics" where
  "histogram_vec opts ms =
     (let n = metric_name (ho_vector opts) in
      case validate_options (ho_vector opts) n of
        Inl e \<Rightarrow> (Inl e, ms)
      | Inr _ \<Rightarrow>
          let buckets = (if ho_buckets opts = [] then default_histogram_buckets else ho_buckets opts) in
          if list_ex (\<lambda>b. \<not> f_finite b \<or> f_le b (Fin 0)) buckets \<or> not_increasing buckets
          then (Inl (InvalidHistogramBuckets n), ms)
          else
            (case metrics_insert n \<lparr>mf_name = n, mf_help = vo_help (ho_vector opts),
                mf_labels = vo_labels (ho_vector opts), mf_kind = HistogramKind,
                mf_values = HistogramValues buckets []\<rparr> ms of
               (Inl e, ms') \<Rightarrow> (Inl e, ms')
             | (Inr _, ms') \<Rightarrow> (Inr n, ms')))"

section \<open>Updates\<close>

definition validate_labels :: "metric_family \<Rightarrow> string list \<Rightarrow> metrics_error + string list" where
  "validate_labels f ls =
     (if length ls \<noteq> length (mf_labels f) then Inl (LabelCount (length (mf_labels f)) (length ls)) else Inr ls)"

definition entry_or_default :: "'a \<Rightarrow> ('k, 'a) bmap \<Rightarrow> 'k \<Rightarrow> 'a" where
  "entry_or_default d m k = (case map_of m k of None \<Rightarrow> d | Some v \<Rightarrow> v)"

text \<open>\<open>None\<close> is \<open>unreachable!\<close>.\<close>

type_synonym family_update = "metric_family \<Rightarrow> ((metrics_error + unit) \<times> metric_family) option"

definition counter_add :: "f64 \<Rightarrow> string list \<Rightarrow> family_update" where
  "counter_add v ls f =
     (if \<not> f_finite v \<or> f_lt v (Fin 0) then Some (Inl (InvalidCounterValue v), f)
      else case validate_labels f ls of
        Inl e \<Rightarrow> Some (Inl e, f)
      | Inr ks \<Rightarrow>
          (case mf_values f of
             CounterValues m \<Rightarrow>
               Some (Inr (), f\<lparr>mf_values := CounterValues (bt_put ks (f_add (entry_or_default (Fin 0) m ks) v) m)\<rparr>)
           | _ \<Rightarrow> None))"

definition counter_inc :: "string list \<Rightarrow> family_update" where
  "counter_inc ls f = counter_add (Fin 1) ls f"

definition gauge_update :: "(f64 \<Rightarrow> f64 \<Rightarrow> f64) \<Rightarrow> f64 \<Rightarrow> string list \<Rightarrow> family_update" where
  "gauge_update upd v ls f =
     (if \<not> f_finite v then Some (Inl (InvalidGaugeValue v), f)
      else case validate_labels f ls of
        Inl e \<Rightarrow> Some (Inl e, f)
      | Inr ks \<Rightarrow>
          (case mf_values f of
             GaugeValues m \<Rightarrow>
               Some (Inr (), f\<lparr>mf_values := GaugeValues (bt_put ks (upd (entry_or_default (Fin 0) m ks) v) m)\<rparr>)
           | _ \<Rightarrow> None))"

definition gauge_set :: "f64 \<Rightarrow> string list \<Rightarrow> family_update" where
  "gauge_set v ls f = gauge_update (\<lambda>current x. x) v ls f"

definition gauge_add :: "f64 \<Rightarrow> string list \<Rightarrow> family_update" where
  "gauge_add v ls f = gauge_update f_add v ls f"

definition gauge_inc :: "string list \<Rightarrow> family_update" where
  "gauge_inc ls f = gauge_add (Fin 1) ls f"

definition gauge_dec :: "string list \<Rightarrow> family_update" where
  "gauge_dec ls f = gauge_add (Fin (-1)) ls f"

definition gauge_sub :: "f64 \<Rightarrow> string list \<Rightarrow> family_update" where
  "gauge_sub v ls f = gauge_add (f_neg v) ls f"

definition histogram_observe :: "f64 \<Rightarrow> string list \<Rightarrow> family_update" where
  "histogram_observe v ls f =
     (if \<not> f_finite v then Some (Inl (InvalidObservation v), f)
      else case validate_labels f ls of
        Inl e \<Rightarrow> Some (Inl e, f)
      | Inr ks \<Rightarrow>
          (case mf_values f of
             HistogramValues bs m \<Rightarrow>
               Some (Inr (), f\<lparr>mf_values := HistogramValues bs (bt_put ks (entry_or_default [] m ks @ [v]) m)\<rparr>)
           | _ \<Rightarrow> None))"

text \<open>An update through the handle of a family.\<close>

definition on_family :: "string \<Rightarrow> family_update \<Rightarrow> metrics \<Rightarrow> ((metrics_error + unit) \<times> metrics) option" where
  "on_family n upd ms =
     (case map_of ms n of
        None \<Rightarrow> None
      | Some f \<Rightarrow> map_option (\<lambda>(r, f'). (r, bt_put n f' ms)) (upd f))"

section \<open>Text exposition\<close>

definition replace_char :: "char \<Rightarrow> string \<Rightarrow> string \<Rightarrow> string" where
  "replace_char ch by_text s = concat (map (\<lambda>x. if x = ch then by_text else [x]) s)"

abbreviation newline :: char where
  "newline \<equiv> CHR 0x0A"

definition escape_help :: "string \<Rightarrow> string" where
  "escape_help s = replace_char newline [CHR 0x5C, CHR ''n''] (replace_char (CHR 0x5C) [CHR 0x5C, CHR 0x5C] s)"

definition escape_label :: "string \<Rightarrow> string" where
  "escape_label s =
     replace_char (CHR 0x22) [CHR 0x5C, CHR 0x22]
       (replace_char newline [CHR 0x5C, CHR ''n''] (replace_char (CHR 0x5C) [CHR 0x5C, CHR 0x5C] s))"

definition write_label :: "string \<Rightarrow> string \<Rightarrow> string" where
  "write_label n v = n @ [CHR ''='', CHR 0x22] @ escape_label v @ [CHR 0x22]"

definition write_labels :: "string list \<Rightarrow> string list \<Rightarrow> (string \<times> string) option \<Rightarrow> string" where
  "write_labels names ls extra =
     (if names = [] \<and> extra = None then []
      else ''{'' @ join_with '','' (map (\<lambda>(n, v). write_label n v) (zip names ls)) @
        (case extra of
           None \<Rightarrow> []
         | Some (n, v) \<Rightarrow> (if names \<noteq> [] then '','' else []) @ write_label n v) @ ''}'')"

definition write_sample :: "string \<Rightarrow> string list \<Rightarrow> string list \<Rightarrow> f64 \<Rightarrow> string" where
  "write_sample n names ls v = n @ write_labels names ls None @ '' '' @ format_float v @ [newline]"

definition write_histogram_bucket :: "string \<Rightarrow> string list \<Rightarrow> string list \<Rightarrow> f64 \<Rightarrow> nat \<Rightarrow> string" where
  "write_histogram_bucket n names ls bucket count =
     n @ ''_bucket'' @ write_labels names ls (Some (''le'', format_float bucket)) @ '' '' @ show_nat count @ [newline]"

definition f_sum :: "f64 list \<Rightarrow> f64" where
  "f_sum vs = fold (\<lambda>v acc. f_add acc v) vs (Fin 0)"

definition render_histogram :: "string \<Rightarrow> string list \<Rightarrow> f64 list \<Rightarrow> string list \<times> f64 list \<Rightarrow> string" where
  "render_histogram n names buckets obs =
     (case obs of (ls, vs) \<Rightarrow>
        concat (map (\<lambda>b. write_histogram_bucket n names ls b (length (filter (\<lambda>v. f_le v b) vs))) buckets) @
        write_histogram_bucket n names ls (Inf False) (length vs) @
        write_sample (n @ ''_sum'') names ls (f_sum vs) @
        write_sample (n @ ''_count'') names ls (f_nat (length vs)))"

definition render_values :: "metric_family \<Rightarrow> string" where
  "render_values f =
     (case mf_values f of
        CounterValues m \<Rightarrow> concat (map (\<lambda>(ls, v). write_sample (mf_name f) (mf_labels f) ls v) m)
      | GaugeValues m \<Rightarrow> concat (map (\<lambda>(ls, v). write_sample (mf_name f) (mf_labels f) ls v) m)
      | HistogramValues bs m \<Rightarrow> concat (map (render_histogram (mf_name f) (mf_labels f) bs) m))"

definition render_family :: "metric_family \<Rightarrow> string" where
  "render_family f =
     ''# HELP '' @ mf_name f @ '' '' @ escape_help (mf_help f) @ [newline] @
     ''# TYPE '' @ mf_name f @ '' '' @ prometheus_name (mf_kind f) @ [newline] @ render_values f"

definition metrics_render :: "metrics \<Rightarrow> string" where
  "metrics_render ms = concat (map (\<lambda>(n, f). render_family f) ms)"

section \<open>Reading the exposition\<close>

text \<open>A reader of the format: comment lines, and samples with a name, label pairs and the text of a value.\<close>

datatype exposition = HelpLine string string | TypeLine string string
  | SampleLine string "(string \<times> string) list" string

fun unescape :: "string \<Rightarrow> string" where
  "unescape [] = []"
| "unescape [ch] = [ch]"
| "unescape (a # b # cs) =
     (if a = CHR 0x5C then (if b = CHR ''n'' then newline else b) # unescape cs else a # unescape (b # cs))"

fun read_quoted :: "string \<Rightarrow> (string \<times> string) option" where
  "read_quoted [] = None"
| "read_quoted [a] = (if a = CHR 0x22 then Some ([], []) else None)"
| "read_quoted (a # b # cs) =
     (if a = CHR 0x22 then Some ([], b # cs)
      else if a = CHR 0x5C
      then map_option (\<lambda>(v, rest). ((if b = CHR ''n'' then newline else b) # v, rest)) (read_quoted cs)
      else map_option (\<lambda>(v, rest). (a # v, rest)) (read_quoted (b # cs)))"

definition read_pair :: "string \<Rightarrow> ((string \<times> string) \<times> string) option" where
  "read_pair s =
     Option.bind (strip_prefix [CHR ''='', CHR 0x22] (dropWhile ident_char s)) (\<lambda>r.
       map_option (\<lambda>(v, rest). ((takeWhile ident_char s, v), rest)) (read_quoted r))"

fun read_pairs :: "nat \<Rightarrow> string \<Rightarrow> ((string \<times> string) list \<times> string) option" where
  "read_pairs 0 s = None"
| "read_pairs (Suc k) s =
     (case read_pair s of
        None \<Rightarrow> None
      | Some (p, []) \<Rightarrow> None
      | Some (p, ch # rest) \<Rightarrow>
          if ch = CHR '','' then map_option (\<lambda>(ps, r). (p # ps, r)) (read_pairs k rest)
          else if ch = CHR ''}'' then Some ([p], rest) else None)"

definition read_value :: "string \<Rightarrow> (string \<times> string) list \<Rightarrow> string \<Rightarrow> exposition option" where
  "read_value n ps s = map_option (SampleLine n ps) (strip_prefix '' '' s)"

definition read_sample :: "string \<Rightarrow> exposition option" where
  "read_sample s =
     (let n = takeWhile ident_char s; rest = dropWhile ident_char s in
      case strip_prefix ''{'' rest of
        None \<Rightarrow> read_value n [] rest
      | Some r \<Rightarrow> Option.bind (read_pairs (length r) r) (\<lambda>(ps, r'). read_value n ps r'))"

definition read_comment :: "(string \<Rightarrow> string \<Rightarrow> exposition) \<Rightarrow> string \<Rightarrow> exposition option" where
  "read_comment mk_line r =
     map_option (mk_line (takeWhile ident_char r)) (strip_prefix '' '' (dropWhile ident_char r))"

definition read_line :: "string \<Rightarrow> exposition option" where
  "read_line s =
     (case strip_prefix ''# HELP '' s of
        Some r \<Rightarrow> read_comment (\<lambda>n h. HelpLine n (unescape h)) r
      | None \<Rightarrow>
          (case strip_prefix ''# TYPE '' s of
             Some r \<Rightarrow> read_comment TypeLine r
           | None \<Rightarrow> read_sample s))"

text \<open>What a family should say.\<close>

definition histogram_lines :: "string \<Rightarrow> string list \<Rightarrow> f64 list \<Rightarrow> string list \<times> f64 list \<Rightarrow> exposition list" where
  "histogram_lines n names buckets obs =
     (case obs of (ls, vs) \<Rightarrow>
        map (\<lambda>b. SampleLine (n @ ''_bucket'') (zip names ls @ [(''le'', format_float b)])
          (show_nat (length (filter (\<lambda>v. f_le v b) vs)))) buckets @
        [SampleLine (n @ ''_bucket'') (zip names ls @ [(''le'', ''+Inf'')]) (show_nat (length vs)),
         SampleLine (n @ ''_sum'') (zip names ls) (format_float (f_sum vs)),
         SampleLine (n @ ''_count'') (zip names ls) (format_float (f_nat (length vs)))])"

definition family_lines :: "metric_family \<Rightarrow> exposition list" where
  "family_lines f =
     HelpLine (mf_name f) (mf_help f) # TypeLine (mf_name f) (prometheus_name (mf_kind f)) #
     (case mf_values f of
        CounterValues m \<Rightarrow> map (\<lambda>(ls, v). SampleLine (mf_name f) (zip (mf_labels f) ls) (format_float v)) m
      | GaugeValues m \<Rightarrow> map (\<lambda>(ls, v). SampleLine (mf_name f) (zip (mf_labels f) ls) (format_float v)) m
      | HistogramValues bs m \<Rightarrow> concat (map (histogram_lines (mf_name f) (mf_labels f) bs) m))"

section \<open>Escapes and numbers\<close>

definition esc :: "char \<Rightarrow> string" where
  "esc ch = (if ch = CHR 0x5C then [CHR 0x5C, CHR 0x5C] else if ch = newline then [CHR 0x5C, CHR ''n'']
     else if ch = CHR 0x22 then [CHR 0x5C, CHR 0x22] else [ch])"

lemma replace_char_simps [simp]:
  "replace_char ch t [] = []"
  "replace_char ch t (x # xs) = (if x = ch then t else [x]) @ replace_char ch t xs"
  "replace_char ch t (xs @ ys) = replace_char ch t xs @ replace_char ch t ys"
  by (simp_all add: replace_char_def)

lemma escape_label_esc: "escape_label s = concat (map esc s)"
  unfolding escape_label_def by (induction s) (simp_all add: esc_def)

lemma read_quoted_escape: "read_quoted (escape_label s @ CHR 0x22 # rest) = Some (s, rest)"
  unfolding escape_label_esc
proof (induction s)
  case Nil
  then show ?case by (cases rest) simp_all
next
  case (Cons ch s)
  obtain a t where at: "concat (map esc s) @ CHR 0x22 # rest = a # t" by (cases "concat (map esc s)") auto
  from Cons show ?case by (auto simp: esc_def [of ch] at)
qed

lemma unescape_escape_help: "unescape (escape_help s) = s"
  unfolding escape_help_def
proof (induction s)
  case (Cons ch s)
  then show ?case
    by (cases "replace_char newline [CHR 0x5C, CHR ''n''] (replace_char (CHR 0x5C) [CHR 0x5C, CHR 0x5C] s)") auto
qed simp

lemma newline_escape [simp]: "newline \<notin> set (escape_label s)" "newline \<notin> set (escape_help s)"
  by (auto simp: escape_label_def escape_help_def replace_char_def split: if_splits)

lemma newline_show_nat [simp]: "newline \<notin> set (show_nat n)"
proof
  assume "newline \<in> set (show_nat n)"
  then obtain d where "d < 10" "newline = digit_char d" using show_nat_digits by blast
  then have "(of_char newline :: nat) = 48 + d" by (simp add: digit_char_def)
  then show False by simp
qed

lemma newline_format_float [simp]: "newline \<notin> set (format_float v)"
proof -
  have "newline \<notin> set (show_decimal m k)" for m k
    by (auto simp: show_decimal_def Let_def dest!: in_set_takeD in_set_dropD)
  then have "newline \<notin> set (show_positive q)" for q
    by (simp add: show_positive_def split: prod.split)
  then show ?thesis by (cases v) (auto simp: format_float_def)
qed

section \<open>Blocks of lines\<close>

definition says :: "string \<Rightarrow> exposition list \<Rightarrow> bool" where
  "says s xs \<longleftrightarrow> (\<exists>ls. s = concat (map (\<lambda>l. l @ [newline]) ls) \<and> (\<forall>l \<in> set ls. newline \<notin> set l) \<and>
     map read_line ls = map Some xs)"

lemma says_Nil [intro, simp]: "says [] []"
  by (auto simp: says_def intro: exI [of _ "[]"])

lemma says_line: "newline \<notin> set l \<Longrightarrow> read_line l = Some x \<Longrightarrow> says (l @ [newline]) [x]"
  by (auto simp: says_def intro: exI [of _ "[l]"])

lemma says_append: "says s xs \<Longrightarrow> says t ys \<Longrightarrow> says (s @ t) (xs @ ys)"
proof -
  assume "says s xs" "says t ys"
  then obtain ls ls' where "s = concat (map (\<lambda>l. l @ [newline]) ls)" "\<forall>l \<in> set ls. newline \<notin> set l"
    "map read_line ls = map Some xs" "t = concat (map (\<lambda>l. l @ [newline]) ls')"
    "\<forall>l \<in> set ls'. newline \<notin> set l" "map read_line ls' = map Some ys"
    by (auto simp: says_def)
  then show ?thesis unfolding says_def by (intro exI [of _ "ls @ ls'"]) auto
qed

lemma says_concat: "\<forall>x \<in> set xs. says (f x) (g x) \<Longrightarrow> says (concat (map f xs)) (concat (map g xs))"
  by (induction xs) (auto intro: says_append)

lemma says_map: "\<forall>x \<in> set xs. says (f x) [g x] \<Longrightarrow> says (concat (map f xs)) (map g xs)"
  using says_concat [of xs f "\<lambda>x. [g x]"] by simp

lemma split_lines: "\<forall>l \<in> set ls. newline \<notin> set l \<Longrightarrow> split_on newline (concat (map (\<lambda>l. l @ [newline]) ls)) = ls @ [[]]"
  by (induction ls) (auto simp: split_on_append)

lemma says_read: "says s xs \<Longrightarrow> map read_line (split_on newline s) = map Some xs @ [read_line []]"
  by (auto simp: says_def split_lines)

section \<open>Lines read back\<close>

lemma ident_chars: "is_valid_identifier n \<Longrightarrow> list_all ident_char n"
  by (cases n) (auto simp: ident_char_def)

lemma not_ident [simp]:
  "\<not> ident_char CHR ''='' " "\<not> ident_char CHR '' ''" "\<not> ident_char CHR ''{''" "\<not> ident_char (CHR 0x0A)"
  "\<not> ident_char CHR ''#''"
  by (simp_all add: ident_char_def ident_start_def)

lemma ident_newline: "list_all ident_char n \<Longrightarrow> newline \<notin> set n"
  by (auto simp: list_all_iff)

lemma while_ident:
  "list_all ident_char n \<Longrightarrow> \<not> ident_char ch \<Longrightarrow>
   takeWhile ident_char (n @ ch # s) = n \<and> dropWhile ident_char (n @ ch # s) = ch # s"
  by (auto simp: list_all_iff takeWhile_append2 dropWhile_append2)

lemma read_pair_write:
  "list_all ident_char n \<Longrightarrow> read_pair (write_label n v @ rest) = Some ((n, v), rest)"
  by (simp add: read_pair_def write_label_def while_ident strip_prefix_eq read_quoted_escape
      option.case_eq_if [of None] Option.bind_eq_Some_conv)

lemma strip_prefix_append [simp]: "strip_prefix p (p @ s) = Some s"
  by (simp add: strip_prefix_eq)

lemma read_pairs_write:
  "ps \<noteq> [] \<Longrightarrow> \<forall>p \<in> set ps. list_all ident_char (fst p) \<Longrightarrow> length ps \<le> k \<Longrightarrow>
   read_pairs k (join_with '','' (map (\<lambda>(n, v). write_label n v) ps) @ CHR ''}'' # rest) = Some (ps, rest)"
proof (induction ps arbitrary: k)
  case (Cons p ps)
  obtain n v where p: "p = (n, v)" by (cases p)
  obtain j where k: "k = Suc j" using Cons.prems(3) by (cases k) auto
  show ?case
  proof (cases ps)
    case Nil
    then show ?thesis using Cons.prems by (simp add: p k read_pair_write)
  next
    case (Cons q qs)
    with Cons.IH [of j] Cons.prems show ?thesis
      by (simp add: p k read_pair_write join_with_Cons)
  qed
qed simp

lemma join_with_snoc: "xs \<noteq> [] \<Longrightarrow> join_with sep (xs @ [y]) = join_with sep xs @ sep @ y"
  by (induction sep xs rule: join_with.induct) auto

lemma length_join_with: "[] \<notin> set xs \<Longrightarrow> length xs \<le> length (join_with sep xs)"
proof (induction sep xs rule: join_with.induct)
  case (2 sep p)
  then show ?case by (cases p) auto
next
  case (3 sep p q ps)
  then show ?case by (cases p) auto
qed simp

lemma write_labels_pairs:
  assumes "length ls = length names"
  shows "write_labels names ls extra =
    (let ps = zip names ls @ (case extra of None \<Rightarrow> [] | Some p \<Rightarrow> [p]) in
     if ps = [] then [] else ''{'' @ join_with '','' (map (\<lambda>(n, v). write_label n v) ps) @ ''}'')"
proof (cases "names = []")
  case False
  then have "map (\<lambda>(n, v). write_label n v) (zip names ls) \<noteq> []" using assms by (cases names; cases ls) auto
  then show ?thesis
    using False by (auto simp: write_labels_def join_with_snoc split: option.split prod.split)
qed (simp add: write_labels_def split: option.split prod.split)

lemma read_sample_block:
  assumes n: "list_all ident_char n" and ps: "ps \<noteq> []" "\<forall>p \<in> set ps. list_all ident_char (fst p)"
  shows "read_sample (n @ ''{'' @ join_with '','' (map (\<lambda>(n, v). write_label n v) ps) @ ''}'' @ '' '' @ v) =
    Some (SampleLine n ps v)"
proof -
  let ?j = "join_with '','' (map (\<lambda>(n, v). write_label n v) ps)"
  have "length (map (\<lambda>(n, v). write_label n v) ps) \<le> length ?j"
    by (rule length_join_with) (auto simp: write_label_def)
  then have "read_pairs (length (?j @ ''} '' @ v)) (?j @ ''} '' @ v) = Some (ps, '' '' @ v)"
    using read_pairs_write [OF ps, of "length (?j @ ''} '' @ v)" "'' '' @ v"] by simp
  then show ?thesis
    using while_ident [OF n, of "CHR ''{''" "?j @ ''} '' @ v"]
    by (simp add: read_sample_def read_value_def strip_prefix_def del: read_pairs.simps)
qed

lemma not_comment: "is_valid_identifier n \<Longrightarrow> strip_prefix (CHR ''#'' # t) (n @ s) = None"
  by (cases n) (auto simp: strip_prefix_def ident_start_def)

lemma read_line_sample:
  assumes "is_valid_identifier n" "length ls = length names" "list_all is_valid_identifier names"
    and "\<forall>p. extra = Some p \<longrightarrow> is_valid_identifier (fst p)"
  shows "read_line (n @ write_labels names ls extra @ '' '' @ v) =
    Some (SampleLine n (zip names ls @ (case extra of None \<Rightarrow> [] | Some p \<Rightarrow> [p])) v)"
proof -
  let ?ps = "zip names ls @ (case extra of None \<Rightarrow> [] | Some p \<Rightarrow> [p])"
  have ids: "\<forall>p \<in> set ?ps. list_all ident_char (fst p)"
    using assms(3,4) by (auto simp: list_all_iff dest!: set_zip_leftD ident_chars split: option.splits)
  note n = ident_chars [OF assms(1)]
  have "read_sample (n @ write_labels names ls extra @ '' '' @ v) = Some (SampleLine n ?ps v)"
  proof (cases "?ps = []")
    case True
    then show ?thesis
      using while_ident [OF n, of "CHR '' ''" v] assms(2)
      by (simp add: read_sample_def write_labels_pairs read_value_def strip_prefix_def)
  next
    case False
    then show ?thesis
      using read_sample_block [OF n False ids, of v] assms(2) by (auto simp: write_labels_pairs Let_def)
  qed
  then show ?thesis
    using assms(1) by (simp add: read_line_def not_comment)
qed

lemma read_line_comments:
  assumes "is_valid_identifier n"
  shows "read_line (''# HELP '' @ n @ '' '' @ escape_help h) = Some (HelpLine n h)"
    and "read_line (''# TYPE '' @ n @ '' '' @ k) = Some (TypeLine n k)"
  using while_ident [OF ident_chars [OF assms], of "CHR '' ''"]
  by (simp_all add: read_line_def read_comment_def strip_prefix_def unescape_escape_help)

section \<open>The invariant of the registry\<close>

fun values_ok :: "nat \<Rightarrow> metric_kind \<Rightarrow> metric_values \<Rightarrow> bool" where
  "values_ok n k (CounterValues m) \<longleftrightarrow> k = CounterKind \<and> bt_ok m \<and> (\<forall>ls \<in> fst ` set m. length ls = n)"
| "values_ok n k (GaugeValues m) \<longleftrightarrow> k = GaugeKind \<and> bt_ok m \<and> (\<forall>ls \<in> fst ` set m. length ls = n)"
| "values_ok n k (HistogramValues bs m) \<longleftrightarrow> k = HistogramKind \<and> bt_ok m \<and> (\<forall>ls \<in> fst ` set m. length ls = n)"

definition family_ok :: "metric_family \<Rightarrow> bool" where
  "family_ok f \<longleftrightarrow> is_valid_identifier (mf_name f) \<and> list_all is_valid_identifier (mf_labels f) \<and>
     distinct (mf_labels f) \<and> values_ok (length (mf_labels f)) (mf_kind f) (mf_values f)"

definition registry_ok :: "metrics \<Rightarrow> bool" where
  "registry_ok ms \<longleftrightarrow> bt_ok ms \<and> (\<forall>n f. map_of ms n = Some f \<longrightarrow> mf_name f = n \<and> family_ok f)"

lemma check_labels_ok:
  "check_labels seen ls = Inr u \<longleftrightarrow> list_all is_valid_identifier ls \<and> distinct ls \<and> set ls \<inter> set seen = {}"
  by (induction ls arbitrary: seen) auto

lemma keys_bt_put: "fst ` set (bt_put k v m) = insert k (fst ` set m)"
  using set_bt_put [of k v m] by simp

lemma registry_ok_new: "registry_ok metrics_new"
  by (simp add: registry_ok_def metrics_new_def bt.ok_empty)

lemma registry_ok_put: "registry_ok ms \<Longrightarrow> mf_name f = n \<Longrightarrow> family_ok f \<Longrightarrow> registry_ok (bt_put n f ms)"
  by (auto simp: registry_ok_def bt.ok_put map_of_bt_put)

lemma registry_ok_register:
  assumes "registry_ok ms" "values_ok (length (vo_labels opts)) kind start"
  shows "registry_ok (snd (metrics_register opts kind start ms))"
  using assms
  by (auto simp: metrics_register_def metrics_insert_def validate_options_def check_labels_ok Let_def family_ok_def
      intro!: registry_ok_put split: sum.splits if_splits)

lemma registry_ok_histogram: "registry_ok ms \<Longrightarrow> registry_ok (snd (histogram_vec opts ms))"
  by (auto simp: histogram_vec_def metrics_insert_def validate_options_def check_labels_ok Let_def family_ok_def
      bt.ok_empty intro!: registry_ok_put split: sum.splits if_splits)

text \<open>The updates a handle of each kind offers.\<close>

datatype family_op = CounterAdd f64 | CounterInc | GaugeSet f64 | GaugeAdd f64 | GaugeInc | GaugeDec | GaugeSub f64
  | HistogramObserve f64

fun op_kind :: "family_op \<Rightarrow> metric_kind" where
  "op_kind (CounterAdd v) = CounterKind"
| "op_kind CounterInc = CounterKind"
| "op_kind (HistogramObserve v) = HistogramKind"
| "op_kind _ = GaugeKind"

fun run_op :: "family_op \<Rightarrow> string list \<Rightarrow> family_update" where
  "run_op (CounterAdd v) = counter_add v"
| "run_op CounterInc = counter_inc"
| "run_op (GaugeSet v) = gauge_set v"
| "run_op (GaugeAdd v) = gauge_add v"
| "run_op GaugeInc = gauge_inc"
| "run_op GaugeDec = gauge_dec"
| "run_op (GaugeSub v) = gauge_sub v"
| "run_op (HistogramObserve v) = histogram_observe v"

lemmas op_defs = counter_inc_def gauge_set_def gauge_add_def gauge_inc_def gauge_dec_def gauge_sub_def
  counter_add_def gauge_update_def histogram_observe_def

lemma run_op_ok:
  assumes "family_ok f" "op_kind op = mf_kind f"
  obtains r f' where "run_op op ls f = Some (r, f')" "family_ok f'" "mf_name f' = mf_name f" "mf_kind f' = mf_kind f"
proof -
  have "\<exists>r f'. run_op op ls f = Some (r, f') \<and> family_ok f' \<and> mf_name f' = mf_name f \<and> mf_kind f' = mf_kind f"
    using assms
    by (cases op; cases "mf_values f")
      (auto simp: op_defs family_ok_def validate_labels_def bt.ok_put keys_bt_put)
  then show ?thesis using that by blast
qed

text \<open>A run: registrations, which hand out handles, and updates through them.\<close>

inductive metrics_run :: "metrics \<Rightarrow> (string \<times> metric_kind) set \<Rightarrow> bool" where
  fresh: "metrics_run metrics_new {}"
| counter: "metrics_run ms hs \<Longrightarrow> counter_vec opts ms = (r, ms') \<Longrightarrow>
    metrics_run ms' (case r of Inl _ \<Rightarrow> hs | Inr h \<Rightarrow> insert (h, CounterKind) hs)"
| gauge: "metrics_run ms hs \<Longrightarrow> gauge_vec opts ms = (r, ms') \<Longrightarrow>
    metrics_run ms' (case r of Inl _ \<Rightarrow> hs | Inr h \<Rightarrow> insert (h, GaugeKind) hs)"
| histogram: "metrics_run ms hs \<Longrightarrow> histogram_vec hopts ms = (r, ms') \<Longrightarrow>
    metrics_run ms' (case r of Inl _ \<Rightarrow> hs | Inr h \<Rightarrow> insert (h, HistogramKind) hs)"
| update: "metrics_run ms hs \<Longrightarrow> (h, op_kind op) \<in> hs \<Longrightarrow> on_family h (run_op op ls) ms = Some (r, ms') \<Longrightarrow>
    metrics_run ms' hs"

definition handles_ok :: "metrics \<Rightarrow> (string \<times> metric_kind) set \<Rightarrow> bool" where
  "handles_ok ms hs \<longleftrightarrow> (\<forall>(h, k) \<in> hs. \<exists>f. map_of ms h = Some f \<and> mf_kind f = k)"

lemma handles_ok_put:
  "handles_ok ms hs \<Longrightarrow> \<forall>f0. map_of ms n = Some f0 \<longrightarrow> mf_kind f0 = mf_kind f \<Longrightarrow> handles_ok (bt_put n f ms) hs"
  by (fastforce simp: handles_ok_def map_of_bt_put)

lemma handles_ok_new:
  "handles_ok ms hs \<Longrightarrow> map_of ms n = None \<Longrightarrow> mf_kind f = k \<Longrightarrow> handles_ok (bt_put n f ms) (insert (n, k) hs)"
  using handles_ok_put [of ms hs n f] by (auto simp: handles_ok_def map_of_bt_put)

lemma register_handles:
  assumes "handles_ok ms hs" "metrics_register opts k start ms = (r, ms')"
  shows "handles_ok ms' (case r of Inl _ \<Rightarrow> hs | Inr h \<Rightarrow> insert (h, k) hs)"
  using assms
  by (auto simp: metrics_register_def metrics_insert_def Let_def intro!: handles_ok_new
      split: sum.splits if_splits prod.splits)

lemma histogram_handles:
  assumes "handles_ok ms hs" "histogram_vec opts ms = (r, ms')"
  shows "handles_ok ms' (case r of Inl _ \<Rightarrow> hs | Inr h \<Rightarrow> insert (h, HistogramKind) hs)"
  using assms
  by (auto simp: histogram_vec_def metrics_insert_def Let_def intro!: handles_ok_new
      split: sum.splits if_splits prod.splits)

lemma metrics_run_ok: "metrics_run ms hs \<Longrightarrow> registry_ok ms \<and> handles_ok ms hs"
proof (induction rule: metrics_run.induct)
  case fresh
  show ?case by (simp add: registry_ok_new handles_ok_def)
next
  case (counter ms hs opts r ms')
  then show ?case
    using registry_ok_register [of ms opts CounterKind "CounterValues []"] register_handles
    by (fastforce simp: counter_vec_def bt.ok_empty)
next
  case (gauge ms hs opts r ms')
  then show ?case
    using registry_ok_register [of ms opts GaugeKind "GaugeValues []"] register_handles
    by (fastforce simp: gauge_vec_def bt.ok_empty)
next
  case (histogram ms hs opts r ms')
  then show ?case using registry_ok_histogram [of ms opts] histogram_handles by fastforce
next
  case (update ms hs h op ls r ms')
  then obtain f where f: "map_of ms h = Some f" "mf_kind f = op_kind op" "family_ok f" "mf_name f = h"
    by (auto simp: handles_ok_def registry_ok_def)
  obtain r' f' where "run_op op ls f = Some (r', f')" "family_ok f'" "mf_name f' = h" "mf_kind f' = mf_kind f"
    using run_op_ok [OF f(3)] f by metis
  then show ?case
    using update f by (auto simp: on_family_def intro!: registry_ok_put handles_ok_put)
qed

section \<open>The exposition says what the registry holds\<close>

lemma newline_join: "newline \<notin> set sep \<Longrightarrow> \<forall>x \<in> set xs. newline \<notin> set x \<Longrightarrow> newline \<notin> set (join_with sep xs)"
  by (induction sep xs rule: join_with.induct) auto

lemma newline_labels:
  assumes "list_all is_valid_identifier names" "\<forall>p. extra = Some p \<longrightarrow> is_valid_identifier (fst p)"
  shows "newline \<notin> set (write_labels names ls extra)"
proof -
  have one: "newline \<notin> set (write_label n v)" if "is_valid_identifier n" for n v
    using ident_newline [OF ident_chars [OF that]] by (simp add: write_label_def)
  have "newline \<notin> set (join_with '','' (map (\<lambda>(n, v). write_label n v) (zip names ls)))"
    by (rule newline_join) (use assms(1) one in \<open>auto simp: list_all_iff dest!: set_zip_leftD\<close>)
  then show ?thesis
    using one assms(2) by (auto simp: write_labels_def split: option.split)
qed

lemma identifier_append: "is_valid_identifier n \<Longrightarrow> list_all ident_char t \<Longrightarrow> is_valid_identifier (n @ t)"
  by (cases n) auto

lemma suffixes [simp]: "list_all ident_char ''_bucket''" "list_all ident_char ''_sum''" "list_all ident_char ''_count''"
  "ident_start CHR ''l''" "ident_char CHR ''e''"
  by (simp_all add: ident_char_def ident_start_def)

lemma says_write_sample:
  assumes "is_valid_identifier n" "length ls = length names" "list_all is_valid_identifier names"
  shows "says (write_sample n names ls v) [SampleLine n (zip names ls) (format_float v)]"
  using says_line [OF _ read_line_sample [OF assms, of None "format_float v"]]
    ident_newline [OF ident_chars [OF assms(1)]] newline_labels [OF assms(3), of None]
  by (simp add: write_sample_def)

lemma says_write_bucket:
  assumes "is_valid_identifier n" "length ls = length names" "list_all is_valid_identifier names"
  shows "says (write_histogram_bucket n names ls b c)
    [SampleLine (n @ ''_bucket'') (zip names ls @ [(''le'', format_float b)]) (show_nat c)]"
proof -
  note n = identifier_append [OF assms(1) suffixes(1)]
  show ?thesis
    using says_line [OF _ read_line_sample [OF n assms(2,3), of "Some (''le'', format_float b)" "show_nat c"]]
      ident_newline [OF ident_chars [OF n]] newline_labels [OF assms(3), of "Some (''le'', format_float b)"]
    by (simp add: write_histogram_bucket_def)
qed

lemma says_histogram:
  assumes "is_valid_identifier n" "length (fst obs) = length names" "list_all is_valid_identifier names"
  shows "says (render_histogram n names bs obs) (histogram_lines n names bs obs)"
proof -
  obtain ls vs where obs: "obs = (ls, vs)" by (cases obs)
  let ?count = "\<lambda>b. length (filter (\<lambda>v. f_le v b) vs)"
  have n: "is_valid_identifier (n @ ''_sum'')" "is_valid_identifier (n @ ''_count'')"
    using assms(1) by (simp_all only: identifier_append suffixes)
  have ls: "length ls = length names" using assms(2) by (simp add: obs)
  have "says (concat (map (\<lambda>b. write_histogram_bucket n names ls b (?count b)) bs))
      (map (\<lambda>b. SampleLine (n @ ''_bucket'') (zip names ls @ [(''le'', format_float b)]) (show_nat (?count b))) bs)"
    by (rule says_map) (use assms(1,3) ls in \<open>auto intro: says_write_bucket\<close>)
  note all = says_append [OF this says_append [OF says_write_bucket [OF assms(1) ls assms(3), of "Inf False" "length vs"]
      says_append [OF says_write_sample [OF n(1) ls assms(3)] says_write_sample [OF n(2) ls assms(3)]]]]
  show ?thesis
    using all [of "f_sum vs" "f_nat (length vs)"]
    by (simp add: obs render_histogram_def histogram_lines_def format_float_def)
qed

lemma says_family:
  assumes "family_ok f"
  shows "says (render_family f) (family_lines f)"
proof -
  have n: "is_valid_identifier (mf_name f)" and names: "list_all is_valid_identifier (mf_labels f)"
    using assms by (simp_all add: family_ok_def)
  note nl = ident_newline [OF ident_chars [OF n]]
  have h_line: "says (''# HELP '' @ mf_name f @ '' '' @ escape_help (mf_help f) @ [newline]) [HelpLine (mf_name f) (mf_help f)]"
    using says_line [OF _ read_line_comments(1) [OF n, of "mf_help f"]] nl by simp
  have "newline \<notin> set (prometheus_name (mf_kind f))" by (cases "mf_kind f") simp_all
  then have t_line: "says (''# TYPE '' @ mf_name f @ '' '' @ prometheus_name (mf_kind f) @ [newline])
      [TypeLine (mf_name f) (prometheus_name (mf_kind f))]"
    using says_line [OF _ read_line_comments(2) [OF n, of "prometheus_name (mf_kind f)"]] nl by simp
  have samples: "says (concat (map (\<lambda>(ls, v). write_sample (mf_name f) (mf_labels f) ls v) m))
      (map (\<lambda>(ls, v). SampleLine (mf_name f) (zip (mf_labels f) ls) (format_float v)) m)"
    if "\<forall>ls \<in> fst ` set m. length ls = length (mf_labels f)" for m
    by (rule says_map) (use that n names in \<open>auto intro!: says_write_sample\<close>)
  have histograms: "says (concat (map (render_histogram (mf_name f) (mf_labels f) bs) m))
      (concat (map (histogram_lines (mf_name f) (mf_labels f) bs) m))"
    if "\<forall>ls \<in> fst ` set m. length ls = length (mf_labels f)" for bs m
    by (intro says_concat ballI says_histogram) (use that n names in auto)
  have "says (render_values f) (drop 2 (family_lines f))"
    using assms samples histograms
    by (auto simp: family_ok_def render_values_def family_lines_def split: metric_values.split)
  from says_append [OF h_line says_append [OF t_line this]] show ?thesis
    by (simp add: render_family_def family_lines_def numeral_2_eq_2)
qed

text \<open>
  C34. The exposition says exactly what was recorded. In every state of a registry reached by
  registrations and by updates through the handles they return, whatever the label values and help texts
  contain, the rendered text consists of lines that read back as the help, the type and the samples of
  the registered families, with their label values and counts unchanged, and nothing else; and no
  update through a handle reaches an \<open>unreachable!\<close>.
\<close>

theorem metrics_exposition:
  assumes "metrics_run ms hs"
  shows "map read_line (split_on newline (metrics_render ms)) =
      map Some (concat (map (\<lambda>(n, f). family_lines f) ms)) @ [None] \<and>
    (\<forall>(h, k) \<in> hs. op_kind op = k \<longrightarrow> on_family h (run_op op ls) ms \<noteq> None)"
proof -
  have ok: "registry_ok ms" "handles_ok ms hs" using metrics_run_ok [OF assms] by simp_all
  have "\<forall>(n, f) \<in> set ms. family_ok f"
    using ok(1) by (auto simp: registry_ok_def bt_ok_distinct dest: map_of_is_SomeI)
  then have "says (metrics_render ms) (concat (map (\<lambda>(n, f). family_lines f) ms))"
    unfolding metrics_render_def by (intro says_concat) (auto intro: says_family)
  moreover have "read_line [] = None"
    by (simp add: read_line_def strip_prefix_def read_sample_def read_value_def)
  moreover have "on_family h (run_op op ls) ms \<noteq> None" if held: "(h, op_kind op) \<in> hs" for h
  proof -
    obtain f where f: "map_of ms h = Some f" "op_kind op = mf_kind f" "family_ok f"
      using ok held by (fastforce simp: handles_ok_def registry_ok_def)
    obtain r f' where "run_op op ls f = Some (r, f')" using run_op_ok [OF f(3,2)] by metis
    then show ?thesis by (simp add: on_family_def f)
  qed
  ultimately show ?thesis using says_read by auto
qed

theorem metrics_exposition_witness:
  "\<exists>ms hs. metrics_run ms hs \<and> (''m'', CounterKind) \<in> hs \<and>
     map read_line (split_on newline (metrics_render ms)) =
       [Some (HelpLine ''m'' [newline]), Some (TypeLine ''m'' ''counter''),
        Some (SampleLine ''m'' [(''path'', [CHR 0x22, newline, CHR 0x5C])] ''1''), None]"
proof -
  let ?opts = "vo_with_labels [''path''] (vector_options_new ''m'' [newline])"
  let ?f = "\<lparr>mf_name = ''m'', mf_help = [newline], mf_labels = [''path''], mf_kind = CounterKind, mf_values = CounterValues []\<rparr>"
  let ?v = "[CHR 0x22, newline, CHR 0x5C]"
  have "counter_vec ?opts metrics_new = (Inr ''m'', [(''m'', ?f)])"
    by (simp add: counter_vec_def metrics_register_def metric_name_def vector_options_new_def vo_with_labels_def
        validate_options_def ident_char_def ident_start_def metrics_insert_def metrics_new_def Let_def)
  from metrics_run.counter [OF metrics_run.fresh this]
  have run: "metrics_run [(''m'', ?f)] {(''m'', CounterKind)}" by simp
  have one: "mk 1 = Fin 1" using f_nat_exact [of 1] by (simp add: f_nat_def)
  have "on_family ''m'' (run_op CounterInc [?v]) [(''m'', ?f)] =
      Some (Inr (), [(''m'', ?f\<lparr>mf_values := CounterValues [([?v], Fin 1)]\<rparr>)])"
    by (simp add: on_family_def counter_inc_def counter_add_def f_finite_def validate_labels_def entry_or_default_def one)
  from metrics_run.update [OF run _ this]
  have run': "metrics_run [(''m'', ?f\<lparr>mf_values := CounterValues [([?v], Fin 1)]\<rparr>)] {(''m'', CounterKind)}" by simp
  have "fl 1 = 1" "fl 10 = 10" "fl 20 = 20" using fl_of_nat [of 1] fl_of_nat [of 10] fl_of_nat [of 20] by simp_all
  moreover have "\<lfloor>1 / 10 :: rat\<rfloor> = 0" by (simp add: floor_eq_iff)
  ultimately have "format_float (Fin 1) = ''1''"
    by (simp add: format_float_def show_positive_def shortest_decimal.simps decimal_candidate_def Let_def
        show_decimal_def show_nat.simps digit_char_def char_of_def bit_0)
  with metrics_exposition [OF run', of CounterInc "[?v]"] run' show ?thesis
    by (intro exI [of _ "[(''m'', ?f\<lparr>mf_values := CounterValues [([?v], Fin 1)]\<rparr>)]"] exI [of _ "{(''m'', CounterKind)}"])
      (simp add: family_lines_def)
qed

section \<open>Counters, histograms and numbers\<close>

text \<open>A counter value is a floating point number that is not negative; adding to it never makes it smaller.\<close>

fun counter_value :: "f64 \<Rightarrow> bool" where
  "counter_value (Fin a) = (fl a = a \<and> 0 \<le> a)"
| "counter_value (Inf neg) = (\<not> neg)"
| "counter_value NaN = False"

lemma counter_never_decreases:
  assumes "counter_value c" "f_finite v" "\<not> f_lt v (Fin 0)"
  shows "counter_value (f_add c v) \<and> f_le c (f_add c v)"
proof (cases c)
  case (Fin a)
  obtain b where b: "v = Fin b" "0 \<le> b" using assms(2,3) by (cases v) (auto simp: f_finite_def)
  have "a \<le> fl (a + b)" using assms(1) b by (intro fl_ge_exact) (auto simp: Fin)
  then show ?thesis using assms(1) b by (auto simp: Fin mk_def f_le_def)
next
  case (Inf neg)
  then show ?thesis using assms by (cases v) (auto simp: f_le_def f_finite_def)
qed (use assms in simp)

text \<open>The buckets of a histogram are cumulative, and the last one counts every observation.\<close>

lemma f_le_trans: "f_le a b \<Longrightarrow> f_le b c \<Longrightarrow> f_le a c"
  by (cases a; cases b; cases c) (auto simp: f_le_def)

lemma histogram_cumulative:
  assumes "f_le b b'" "list_all f_finite vs"
  shows "length (filter (\<lambda>v. f_le v b) vs) \<le> length (filter (\<lambda>v. f_le v b') vs) \<and>
    length (filter (\<lambda>v. f_le v (Inf False)) vs) = length vs"
proof -
  have "f_le v (Inf False)" if "f_finite v" for v
    using that by (cases v) (auto simp: f_finite_def f_le_def)
  then have "filter (\<lambda>v. f_le v (Inf False)) vs = vs"
    using assms(2) by (auto simp: list_all_iff filter_id_conv)
  moreover have "length (filter (\<lambda>v. f_le v b) vs) \<le> length (filter (\<lambda>v. f_le v b') vs)"
    using f_le_trans [OF _ assms(1)] by (induction vs) auto
  ultimately show ?thesis by simp
qed

text \<open>The decimal that is printed rounds to the number.\<close>

lemma decimal_candidate_rounds: "decimal_candidate k q = Some m \<Longrightarrow> fl (of_int m * 10 powi k) = q"
  by (auto simp: decimal_candidate_def Let_def algebra_simps split: if_splits)

lemma dyadic_decimal:
  assumes "(q :: rat) = of_int n * 2 powi (int e - int d)"
  shows "q * 10 ^ d = of_int (n * 2 ^ e * 5 ^ d)" and "q * 10 ^ d * 10 powi (- int d) = q"
proof -
  have "(10 :: rat) ^ d = 2 ^ d * 5 ^ d" by (simp flip: power_mult_distrib)
  then show "q * 10 ^ d = of_int (n * 2 ^ e * 5 ^ d)" by (simp add: assms power_int_diff)
  show "q * 10 ^ d * 10 powi (- int d) = q" by (simp add: power_int_minus)
qed

lemma fl_dyadic:
  assumes "fl q = q"
  obtains n e where "q = of_int n * 2 powi (int e - int 1074)"
proof (cases "q = 0")
  case True
  then show ?thesis using that [of 0 0] by simp
next
  case False
  have "0 \<le> fl_exp q + 1022" by (simp add: fl_exp_def)
  then have e: "fl_exp q - 52 = int (nat (fl_exp q + 1022)) - int 1074" by simp
  have "q = of_int (rne (q / ulp (fl_exp q))) * ulp (fl_exp q)"
    using assms False by (simp add: fl_def)
  then show ?thesis using that unfolding ulp_def e by blast
qed

lemma fl_decimal:
  assumes "fl q = q"
  shows "of_int \<lfloor>q * 10 ^ 1074\<rfloor> * 10 powi (- 1074) = q"
proof -
  obtain n e where q: "q = of_int n * 2 powi (int e - int 1074)" using fl_dyadic [OF assms] .
  have "of_int \<lfloor>q * 10 ^ 1074\<rfloor> = q * 10 ^ 1074"
    unfolding dyadic_decimal(1) [OF q] floor_of_int ..
  then show ?thesis using dyadic_decimal(2) [OF q] by (simp only: of_nat_numeral)
qed

lemma shortest_decimal_rounds:
  assumes "fl q = q" "shortest_decimal k q = (m, j)"
  shows "fl (of_int m * 10 powi j) = q"
  using assms
proof (induction k q rule: shortest_decimal.induct)
  case (1 k q)
  show ?case
  proof (cases "k \<le> -1074")
    case True
    then have "m = \<lfloor>q * 10 ^ 1074\<rfloor>" and j: "j = -1074"
      using 1(3) unfolding shortest_decimal.simps [of k q] if_P [OF True] prod.inject by (simp_all only:)
    then have "of_int m * 10 powi j = q" using fl_decimal [OF 1(2)] by (simp only:)
    then show ?thesis using 1(2) by (simp only:)
  next
    case False
    then have step: "shortest_decimal k q =
        (case decimal_candidate k q of Some m \<Rightarrow> (m, k) | None \<Rightarrow> shortest_decimal (k - 1) q)"
      by (subst shortest_decimal.simps) (simp only: if_False)
    show ?thesis
    proof (cases "decimal_candidate k q")
      case None
      then show ?thesis using 1(1) [OF False None 1(2)] 1(3) step by simp
    next
      case (Some m')
      then show ?thesis using decimal_candidate_rounds [OF Some] 1(3) step by simp
    qed
  qed
qed

text \<open>
  What registration does not check: a histogram may have a label \<open>le\<close>, whose buckets then carry two
  labels of that name, and a counter may have the name of a series of a histogram.
\<close>

lemma le_label_duplicated:
  assumes "length ls = 1"
  shows "check_labels [] [''le''] = Inr () \<and>
    zip [''le''] ls @ [(''le'', b)] = [(''le'', hd ls), (''le'', b)]"
  using assms by (cases ls) (auto simp: ident_char_def ident_start_def)

lemma series_name_shared:
  assumes "metrics_insert ''x'' f [] = (Inr (), ms)"
  shows "fst (counter_vec (vector_options_new ''x_count'' h) ms) = Inr ''x_count''"
  using assms
  by (auto simp: counter_vec_def metrics_register_def metric_name_def vector_options_new_def validate_options_def
      ident_char_def ident_start_def metrics_insert_def Let_def)

end
