(* ===== verification/Call_Metrics.thy ===== *)
theory Call_Metrics
  imports Metrics
begin

text \<open>
  The metrics of calls: \<open>HttpMetrics\<close> with its middleware and \<open>HttpClientMetrics\<close> of \<open>rest/src/metrics.rs\<close>, and
  \<open>RpcMetrics\<close> with its layer of \<open>rpc/src/metrics.rs\<close>. Each counts completed calls, keeps their durations and
  a gauge of the calls in flight. A panic of \<open>expect\<close> is the value \<open>None\<close>.
\<close>

section \<open>Counting calls\<close>

record call_metrics =
  cm_requests :: string
  cm_duration :: string
  cm_in_flight :: string

definition expect_ok :: "((metrics_error + unit) \<times> metrics) option \<Rightarrow> metrics option" where
  "expect_ok r = (case r of Some (Inr _, ms) \<Rightarrow> Some ms | _ \<Rightarrow> None)"

definition call_record :: "call_metrics \<Rightarrow> string list \<Rightarrow> f64 \<Rightarrow> metrics \<Rightarrow> metrics option" where
  "call_record m labels secs ms =
     Option.bind (expect_ok (on_family (cm_requests m) (counter_inc labels) ms)) (\<lambda>ms1.
       expect_ok (on_family (cm_duration m) (histogram_observe secs labels) ms1))"

definition call_enter :: "call_metrics \<Rightarrow> string list \<Rightarrow> metrics \<Rightarrow> metrics option" where
  "call_enter m key ms = expect_ok (on_family (cm_in_flight m) (gauge_inc key) ms)"

definition call_leave :: "call_metrics \<Rightarrow> string list \<Rightarrow> metrics \<Rightarrow> metrics option" where
  "call_leave m key ms = expect_ok (on_family (cm_in_flight m) (gauge_dec key) ms)"

text \<open>Registrations in a row: the first failure ends them, what was registered stays.\<close>

fun register_all :: "(metrics \<Rightarrow> (metrics_error + string) \<times> metrics) list \<Rightarrow> metrics \<Rightarrow> (metrics_error + string list) \<times> metrics" where
  "register_all [] ms = (Inr [], ms)"
| "register_all (r # rs) ms =
     (case r ms of
        (Inl e, ms1) \<Rightarrow> (Inl e, ms1)
      | (Inr h, ms1) \<Rightarrow>
          (case register_all rs ms1 of (Inl e, ms2) \<Rightarrow> (Inl e, ms2) | (Inr hs, ms2) \<Rightarrow> (Inr (h # hs), ms2)))"

definition handles_of :: "string list \<Rightarrow> call_metrics" where
  "handles_of hs = \<lparr>cm_requests = hs ! 0, cm_duration = hs ! 1, cm_in_flight = hs ! 2\<rparr>"

definition named_options :: "string \<Rightarrow> string \<Rightarrow> string \<Rightarrow> string \<Rightarrow> string list \<Rightarrow> vector_options" where
  "named_options ns sub n h labels =
     \<lparr>vo_namespace = ns, vo_subsystem = sub, vo_name = n, vo_help = h, vo_labels = labels\<rparr>"

definition histogram_of :: "vector_options \<Rightarrow> histogram_options" where
  "histogram_of v = ho_with_vector_options v (histogram_options_new [] [])"

section \<open>HTTP server and client\<close>

record http_metrics =
  hm_calls :: call_metrics
  hm_protection :: string

definition http_families :: "string \<Rightarrow> (metrics \<Rightarrow> (metrics_error + string) \<times> metrics) list" where
  "http_families ns =
     [counter_vec (named_options ns [] ''http_requests_total'' ''Completed HTTP requests'' [''method'', ''path'', ''status'']),
         histogram_vec (histogram_of (named_options ns [] ''http_request_duration_seconds'' ''HTTP request duration''
           [''method'', ''path'', ''status''])),
         gauge_vec (named_options ns [] ''http_requests_in_flight'' ''HTTP requests currently in flight'' [''method'', ''path'']),
         counter_vec (named_options ns [] ''http_protection_decisions_total'' ''HTTP transport protection decisions''
           [''mechanism'', ''decision''])]"

definition http_metrics_new :: "string \<Rightarrow> metrics \<Rightarrow> (metrics_error + http_metrics) \<times> metrics" where
  "http_metrics_new ns ms =
     (case register_all (http_families ns) ms of
        (Inr hs, ms') \<Rightarrow> (Inr \<lparr>hm_calls = handles_of hs, hm_protection = hs ! 3\<rparr>, ms')
      | (Inl e, ms') \<Rightarrow> (Inl e, ms'))"

definition http_record :: "http_metrics \<Rightarrow> string \<Rightarrow> string \<Rightarrow> nat \<Rightarrow> f64 \<Rightarrow> metrics \<Rightarrow> metrics option" where
  "http_record m verb path status secs ms = call_record (hm_calls m) [verb, path, show_nat status] secs ms"

definition record_protection :: "http_metrics \<Rightarrow> string \<Rightarrow> string \<Rightarrow> metrics \<Rightarrow> metrics option" where
  "record_protection m mechanism decision ms = expect_ok (on_family (hm_protection m) (counter_inc [mechanism, decision]) ms)"

definition http_track_in_flight :: "http_metrics \<Rightarrow> string \<Rightarrow> string \<Rightarrow> metrics \<Rightarrow> metrics option" where
  "http_track_in_flight m verb path ms = call_enter (hm_calls m) [verb, path] ms"

definition http_guard_drop :: "http_metrics \<Rightarrow> string \<Rightarrow> string \<Rightarrow> metrics \<Rightarrow> metrics option" where
  "http_guard_drop m verb path ms = call_leave (hm_calls m) [verb, path] ms"

text \<open>
  The middleware: a call enters before the inner service is called; its future ends with a response, with an
  error, or is dropped.
\<close>

datatype http_end = HttpResponse nat | HttpError | HttpDropped

definition middleware_enter :: "http_metrics \<Rightarrow> string \<Rightarrow> string option \<Rightarrow> metrics \<Rightarrow> metrics option" where
  "middleware_enter m verb pattern ms =
     http_track_in_flight m verb (case pattern of None \<Rightarrow> ''<unmatched>'' | Some p \<Rightarrow> p) ms"

definition middleware_end :: "http_metrics \<Rightarrow> string \<Rightarrow> string option \<Rightarrow> http_end \<Rightarrow> f64 \<Rightarrow> metrics \<Rightarrow> metrics option" where
  "middleware_end m verb pattern outcome secs ms =
     (let path = (case pattern of None \<Rightarrow> ''<unmatched>'' | Some p \<Rightarrow> p) in
      Option.bind
        (case outcome of
           HttpResponse status \<Rightarrow> http_record m verb path status secs ms
         | HttpError \<Rightarrow> http_record m verb path 500 secs ms
         | HttpDropped \<Rightarrow> Some ms)
        (http_guard_drop m verb path))"

definition http_client_families :: "string \<Rightarrow> (metrics \<Rightarrow> (metrics_error + string) \<times> metrics) list" where
  "http_client_families ns =
     [counter_vec (named_options ns [] ''http_client_requests_total'' ''Completed HTTP client requests''
           [''service'', ''method'', ''result'']),
         histogram_vec (histogram_of (named_options ns [] ''http_client_request_duration_seconds''
           ''HTTP client request duration'' [''service'', ''method'', ''result''])),
         gauge_vec (named_options ns [] ''http_client_requests_in_flight'' ''HTTP client requests currently in flight''
           [''service'', ''method''])]"

definition http_client_metrics_new :: "string \<Rightarrow> metrics \<Rightarrow> (metrics_error + call_metrics) \<times> metrics" where
  "http_client_metrics_new ns ms =
     (case register_all (http_client_families ns) ms of
        (Inr hs, ms') \<Rightarrow> (Inr (handles_of hs), ms')
      | (Inl e, ms') \<Rightarrow> (Inl e, ms'))"

definition client_record :: "call_metrics \<Rightarrow> string \<Rightarrow> string \<Rightarrow> string \<Rightarrow> f64 \<Rightarrow> metrics \<Rightarrow> metrics option" where
  "client_record m service verb outcome secs ms = call_record m [service, verb, outcome] secs ms"

definition client_track_in_flight :: "call_metrics \<Rightarrow> string \<Rightarrow> string \<Rightarrow> metrics \<Rightarrow> metrics option" where
  "client_track_in_flight m service verb ms = call_enter m [service, verb] ms"

definition client_guard_drop :: "call_metrics \<Rightarrow> string \<Rightarrow> string \<Rightarrow> metrics \<Rightarrow> metrics option" where
  "client_guard_drop m service verb ms = call_leave m [service, verb] ms"

section \<open>gRPC\<close>

datatype rpc_metric_mode = ClientMode | ServerMode

fun mode_name :: "rpc_metric_mode \<Rightarrow> string" where
  "mode_name ClientMode = ''client''"
| "mode_name ServerMode = ''server''"

record rpc_metrics =
  rm_calls :: call_metrics
  rm_methods :: "string list"

definition rpc_families :: "string \<Rightarrow> string \<Rightarrow> (metrics \<Rightarrow> (metrics_error + string) \<times> metrics) list" where
  "rpc_families ns sub =
     [counter_vec (named_options ns sub ''requests_total'' ''Completed gRPC requests'' [''method'', ''code'']),
         histogram_vec (histogram_of (named_options ns sub ''request_duration_seconds'' ''gRPC request duration''
           [''method'', ''code''])),
         gauge_vec (named_options ns sub ''requests_in_flight'' ''In-flight gRPC requests'' [''method''])]"

definition rpc_metrics_new :: "string \<Rightarrow> rpc_metric_mode \<Rightarrow> string list \<Rightarrow> metrics \<Rightarrow> (metrics_error + rpc_metrics) \<times> metrics" where
  "rpc_metrics_new ns mode known ms =
     (let sub = ''rpc_'' @ mode_name mode in
      case register_all (rpc_families ns sub) ms of
        (Inr hs, ms') \<Rightarrow> (Inr \<lparr>rm_calls = handles_of hs, rm_methods = known\<rparr>, ms')
      | (Inl e, ms') \<Rightarrow> (Inl e, ms'))"

definition rpc_method :: "rpc_metrics \<Rightarrow> string \<Rightarrow> string" where
  "rpc_method m path = (if path \<in> set (rm_methods m) then path else ''unknown'')"

record rpc_observation =
  ob_method :: string
  ob_finished :: bool

definition rpc_start :: "rpc_metrics \<Rightarrow> string \<Rightarrow> metrics \<Rightarrow> (rpc_observation \<times> metrics) option" where
  "rpc_start m path ms =
     map_option (\<lambda>ms'. (\<lparr>ob_method = rpc_method m path, ob_finished = False\<rparr>, ms')) (call_enter (rm_calls m) [rpc_method m path] ms)"

definition rpc_finish :: "rpc_metrics \<Rightarrow> string \<Rightarrow> f64 \<Rightarrow> rpc_observation \<Rightarrow> metrics \<Rightarrow> (rpc_observation \<times> metrics) option" where
  "rpc_finish m code secs ob ms =
     (if ob_finished ob then Some (ob, ms)
      else map_option (\<lambda>ms'. (ob\<lparr>ob_finished := True\<rparr>, ms'))
        (Option.bind (call_record (rm_calls m) [ob_method ob, code] secs ms) (call_leave (rm_calls m) [ob_method ob])))"

definition rpc_observation_drop :: "rpc_metrics \<Rightarrow> f64 \<Rightarrow> rpc_observation \<Rightarrow> metrics \<Rightarrow> metrics option" where
  "rpc_observation_drop m secs ob ms = map_option snd (rpc_finish m ''cancelled'' secs ob ms)"

text \<open>The value of \<open>grpc-status\<close>, when it is there and printable.\<close>

definition grpc_code :: "string option \<Rightarrow> string option" where
  "grpc_code status = map_option (\<lambda>code. if code \<in> set (map show_nat [0..<17]) then code else ''invalid'') status"

text \<open>
  \<open>RpcMetricsBody\<close>: the observation is taken when the call ends, and \<open>finish\<close> then drops it at once, which
  does nothing more. A body that is dropped drops an observation that is still there.
\<close>

definition body_finish :: "rpc_metrics \<Rightarrow> string \<Rightarrow> f64 \<Rightarrow> rpc_observation option \<Rightarrow> metrics \<Rightarrow> (rpc_observation option \<times> metrics) option" where
  "body_finish m code secs ob ms =
     (case ob of
        None \<Rightarrow> Some (None, ms)
      | Some x \<Rightarrow> Option.bind (rpc_finish m code secs x ms) (\<lambda>(x', ms').
          map_option (\<lambda>ms''. (None, ms'')) (rpc_observation_drop m secs x' ms')))"

text \<open>The answer of the inner service: an error, or a response with its status and \<open>grpc-status\<close> header.\<close>

datatype rpc_answer = AnswerError | AnswerResponse bool "string option"

definition rpc_answered ::
  "rpc_metrics \<Rightarrow> rpc_answer \<Rightarrow> f64 \<Rightarrow> rpc_observation \<Rightarrow> metrics \<Rightarrow> (rpc_observation option \<times> metrics) option" where
  "rpc_answered m answer secs ob ms =
     (case answer of
        AnswerError \<Rightarrow> body_finish m ''transport_error'' secs (Some ob) ms
      | AnswerResponse success header \<Rightarrow>
          (case (case grpc_code header of Some c \<Rightarrow> Some c | None \<Rightarrow> if success then None else Some ''http_error'') of
             Some code \<Rightarrow> body_finish m code secs (Some ob) ms
           | None \<Rightarrow> Some (Some ob, ms)))"

datatype body_poll = BodyFrame "string option option"  \<comment> \<open>trailers with their status, if the frame has any\<close>
  | BodyError | BodyEnd | BodyPending

definition body_poll_frame ::
  "rpc_metrics \<Rightarrow> body_poll \<Rightarrow> f64 \<Rightarrow> rpc_observation option \<Rightarrow> metrics \<Rightarrow> (rpc_observation option \<times> metrics) option" where
  "body_poll_frame m p secs ob ms =
     (case p of
        BodyFrame trailers \<Rightarrow>
          (case Option.bind trailers grpc_code of Some code \<Rightarrow> body_finish m code secs ob ms | None \<Rightarrow> Some (ob, ms))
      | BodyError \<Rightarrow> body_finish m ''body_error'' secs ob ms
      | BodyEnd \<Rightarrow> body_finish m ''0'' secs ob ms
      | BodyPending \<Rightarrow> Some (ob, ms))"

definition body_drop :: "rpc_metrics \<Rightarrow> f64 \<Rightarrow> rpc_observation option \<Rightarrow> metrics \<Rightarrow> metrics option" where
  "body_drop m secs ob ms = (case ob of None \<Rightarrow> Some ms | Some x \<Rightarrow> rpc_observation_drop m secs x ms)"

section \<open>What the families hold\<close>

definition counter_at :: "metrics \<Rightarrow> string \<Rightarrow> string list \<Rightarrow> f64" where
  "counter_at ms h ls =
     (case map_of ms h of Some f \<Rightarrow> (case mf_values f of CounterValues m \<Rightarrow> entry_or_default (Fin 0) m ls | _ \<Rightarrow> NaN) | None \<Rightarrow> NaN)"

definition gauge_at :: "metrics \<Rightarrow> string \<Rightarrow> string list \<Rightarrow> f64" where
  "gauge_at ms h ls =
     (case map_of ms h of Some f \<Rightarrow> (case mf_values f of GaugeValues m \<Rightarrow> entry_or_default (Fin 0) m ls | _ \<Rightarrow> NaN) | None \<Rightarrow> NaN)"

definition observed_at :: "metrics \<Rightarrow> string \<Rightarrow> string list \<Rightarrow> f64 list" where
  "observed_at ms h ls =
     (case map_of ms h of Some f \<Rightarrow> (case mf_values f of HistogramValues bs m \<Rightarrow> entry_or_default [] m ls | _ \<Rightarrow> []) | None \<Rightarrow> [])"

definition family_is :: "metrics \<Rightarrow> string \<Rightarrow> metric_kind \<Rightarrow> nat \<Rightarrow> bool" where
  "family_is ms h k n \<longleftrightarrow> (\<exists>f. map_of ms h = Some f \<and> family_ok f \<and> mf_kind f = k \<and> length (mf_labels f) = n)"

text \<open>The three families are there, distinct, with labels for \<open>nl\<close> values of a call and \<open>nk\<close> of a key.\<close>

definition calls_ready :: "call_metrics \<Rightarrow> nat \<Rightarrow> nat \<Rightarrow> metrics \<Rightarrow> bool" where
  "calls_ready m nl nk ms \<longleftrightarrow> distinct [cm_requests m, cm_duration m, cm_in_flight m] \<and>
     family_is ms (cm_requests m) CounterKind nl \<and> family_is ms (cm_duration m) HistogramKind nl \<and>
     family_is ms (cm_in_flight m) GaugeKind nk"

text \<open>An update of one family keeps every family what it is and the values of the others.\<close>

definition touches_only :: "string \<Rightarrow> metrics \<Rightarrow> metrics \<Rightarrow> bool" where
  "touches_only h ms ms' \<longleftrightarrow> (\<forall>h'. h' \<noteq> h \<longrightarrow> map_of ms' h' = map_of ms h') \<and>
     (\<forall>h' k n. family_is ms h' k n \<longrightarrow> family_is ms' h' k n)"

lemma touches_only_put:
  assumes "map_of ms h = Some f" "family_ok f'" "mf_kind f' = mf_kind f" "mf_labels f' = mf_labels f"
  shows "touches_only h ms (bt_put h f' ms)"
  using assms by (auto simp: touches_only_def family_is_def map_of_bt_put)

lemma counter_inc_step:
  assumes "family_is ms h CounterKind (length ls)"
  obtains ms' where "expect_ok (on_family h (counter_inc ls) ms) = Some ms'" "touches_only h ms ms'"
    "\<And>l. counter_at ms' h l = (if l = ls then f_add (counter_at ms h ls) (Fin 1) else counter_at ms h l)"
proof -
  obtain f m where f: "map_of ms h = Some f" "family_ok f" "mf_values f = CounterValues m" "mf_kind f = CounterKind"
    "length (mf_labels f) = length ls"
    using assms by (auto simp: family_is_def family_ok_def elim: values_ok.elims)
  let ?f = "f\<lparr>mf_values := CounterValues (bt_put ls (f_add (entry_or_default (Fin 0) m ls) (Fin 1)) m)\<rparr>"
  have "family_ok ?f" using f by (auto simp: family_ok_def bt.ok_put keys_bt_put)
  then have "touches_only h ms (bt_put h ?f ms)" using f by (intro touches_only_put) auto
  moreover have "expect_ok (on_family h (counter_inc ls) ms) = Some (bt_put h ?f ms)"
    using f by (simp add: expect_ok_def on_family_def counter_inc_def counter_add_def f_finite_def validate_labels_def)
  moreover have "counter_at (bt_put h ?f ms) h l = (if l = ls then f_add (counter_at ms h ls) (Fin 1) else counter_at ms h l)" for l
    using f by (simp add: counter_at_def map_of_bt_put entry_or_default_def)
  ultimately show ?thesis using that by blast
qed

lemma gauge_add_step:
  assumes "family_is ms h GaugeKind (length ls)" "f_finite v"
  obtains ms' where "expect_ok (on_family h (gauge_add v ls) ms) = Some ms'" "touches_only h ms ms'"
    "\<And>l. gauge_at ms' h l = (if l = ls then f_add (gauge_at ms h ls) v else gauge_at ms h l)"
proof -
  obtain f m where f: "map_of ms h = Some f" "family_ok f" "mf_values f = GaugeValues m" "mf_kind f = GaugeKind"
    "length (mf_labels f) = length ls"
    using assms by (auto simp: family_is_def family_ok_def elim: values_ok.elims)
  let ?f = "f\<lparr>mf_values := GaugeValues (bt_put ls (f_add (entry_or_default (Fin 0) m ls) v) m)\<rparr>"
  have "family_ok ?f" using f by (auto simp: family_ok_def bt.ok_put keys_bt_put)
  then have "touches_only h ms (bt_put h ?f ms)" using f by (intro touches_only_put) auto
  moreover have "expect_ok (on_family h (gauge_add v ls) ms) = Some (bt_put h ?f ms)"
    using f assms(2) by (simp add: expect_ok_def on_family_def gauge_add_def gauge_update_def validate_labels_def)
  moreover have "gauge_at (bt_put h ?f ms) h l = (if l = ls then f_add (gauge_at ms h ls) v else gauge_at ms h l)" for l
    using f by (simp add: gauge_at_def map_of_bt_put entry_or_default_def)
  ultimately show ?thesis using that by blast
qed

lemma observe_step:
  assumes "family_is ms h HistogramKind (length ls)" "f_finite v"
  obtains ms' where "expect_ok (on_family h (histogram_observe v ls) ms) = Some ms'" "touches_only h ms ms'"
    "\<And>l. observed_at ms' h l = (if l = ls then observed_at ms h ls @ [v] else observed_at ms h l)"
proof -
  obtain f bs m where f: "map_of ms h = Some f" "family_ok f" "mf_values f = HistogramValues bs m"
    "mf_kind f = HistogramKind" "length (mf_labels f) = length ls"
    using assms by (auto simp: family_is_def family_ok_def elim: values_ok.elims)
  let ?f = "f\<lparr>mf_values := HistogramValues bs (bt_put ls (entry_or_default [] m ls @ [v]) m)\<rparr>"
  have "family_ok ?f" using f by (auto simp: family_ok_def bt.ok_put keys_bt_put)
  then have "touches_only h ms (bt_put h ?f ms)" using f by (intro touches_only_put) auto
  moreover have "expect_ok (on_family h (histogram_observe v ls) ms) = Some (bt_put h ?f ms)"
    using f assms(2) by (simp add: expect_ok_def on_family_def histogram_observe_def validate_labels_def)
  moreover have "observed_at (bt_put h ?f ms) h l = (if l = ls then observed_at ms h ls @ [v] else observed_at ms h l)" for l
    using f by (simp add: observed_at_def map_of_bt_put entry_or_default_def)
  ultimately show ?thesis using that by blast
qed

lemma touches_only_values:
  assumes "touches_only h ms ms'" "h' \<noteq> h"
  shows "counter_at ms' h' l = counter_at ms h' l" "gauge_at ms' h' l = gauge_at ms h' l"
    "observed_at ms' h' l = observed_at ms h' l"
  using assms by (simp_all add: touches_only_def counter_at_def gauge_at_def observed_at_def)

lemma calls_ready_touches: "calls_ready m nl nk ms \<Longrightarrow> touches_only h ms ms' \<Longrightarrow> calls_ready m nl nk ms'"
  by (auto simp: calls_ready_def touches_only_def)

lemma call_record_step:
  assumes ready: "calls_ready m (length ls) nk ms" and "f_finite secs"
  obtains ms' where "call_record m ls secs ms = Some ms'" "calls_ready m (length ls) nk ms'"
    "\<And>l. counter_at ms' (cm_requests m) l =
      (if l = ls then f_add (counter_at ms (cm_requests m) ls) (Fin 1) else counter_at ms (cm_requests m) l)"
    "\<And>l. observed_at ms' (cm_duration m) l =
      (if l = ls then observed_at ms (cm_duration m) ls @ [secs] else observed_at ms (cm_duration m) l)"
    "\<And>l. gauge_at ms' (cm_in_flight m) l = gauge_at ms (cm_in_flight m) l"
proof -
  obtain ms1 where 1: "expect_ok (on_family (cm_requests m) (counter_inc ls) ms) = Some ms1"
    "touches_only (cm_requests m) ms ms1"
    "\<And>l. counter_at ms1 (cm_requests m) l =
      (if l = ls then f_add (counter_at ms (cm_requests m) ls) (Fin 1) else counter_at ms (cm_requests m) l)"
    using counter_inc_step [of ms "cm_requests m" ls] ready by (auto simp: calls_ready_def)
  have r1: "calls_ready m (length ls) nk ms1" using calls_ready_touches [OF ready 1(2)] .
  obtain ms2 where 2: "expect_ok (on_family (cm_duration m) (histogram_observe secs ls) ms1) = Some ms2"
    "touches_only (cm_duration m) ms1 ms2"
    "\<And>l. observed_at ms2 (cm_duration m) l =
      (if l = ls then observed_at ms1 (cm_duration m) ls @ [secs] else observed_at ms1 (cm_duration m) l)"
    using observe_step [of ms1 "cm_duration m" ls secs] r1 assms(2) by (auto simp: calls_ready_def)
  have d: "cm_requests m \<noteq> cm_duration m" "cm_in_flight m \<noteq> cm_duration m" "cm_in_flight m \<noteq> cm_requests m"
    "cm_duration m \<noteq> cm_requests m"
    using ready by (auto simp: calls_ready_def)
  show ?thesis
    using that [of ms2] 1 2 calls_ready_touches [OF r1 2(2)] d
    by (simp add: call_record_def touches_only_values [OF 1(2)] touches_only_values [OF 2(2)])
qed

lemma call_gauge_step:
  assumes ready: "calls_ready m nl (length key) ms" and "f_finite v"
  obtains ms' where "expect_ok (on_family (cm_in_flight m) (gauge_add v key) ms) = Some ms'"
    "calls_ready m nl (length key) ms'"
    "\<And>l. gauge_at ms' (cm_in_flight m) l =
      (if l = key then f_add (gauge_at ms (cm_in_flight m) key) v else gauge_at ms (cm_in_flight m) l)"
    "\<And>l. counter_at ms' (cm_requests m) l = counter_at ms (cm_requests m) l"
    "\<And>l. observed_at ms' (cm_duration m) l = observed_at ms (cm_duration m) l"
proof -
  obtain ms1 where 1: "expect_ok (on_family (cm_in_flight m) (gauge_add v key) ms) = Some ms1"
    "touches_only (cm_in_flight m) ms ms1"
    "\<And>l. gauge_at ms1 (cm_in_flight m) l =
      (if l = key then f_add (gauge_at ms (cm_in_flight m) key) v else gauge_at ms (cm_in_flight m) l)"
    using gauge_add_step [of ms "cm_in_flight m" key v] ready assms(2) by (auto simp: calls_ready_def)
  have "cm_requests m \<noteq> cm_in_flight m" "cm_duration m \<noteq> cm_in_flight m" using ready by (auto simp: calls_ready_def)
  then show ?thesis
    using that [of ms1] 1 calls_ready_touches [OF ready 1(2)] by (simp add: touches_only_values [OF 1(2)])
qed

section \<open>The gauge is the number of calls in flight\<close>

text \<open>
  A run over the metrics of one component: calls enter, end with a record, or are dropped; other components
  use the same registry. Fewer than \<open>2^53\<close> calls are in flight and are recorded.
\<close>

inductive calls_run :: "call_metrics \<Rightarrow> nat \<Rightarrow> nat \<Rightarrow> metrics \<Rightarrow> string list list \<Rightarrow> (string list \<times> f64) list \<Rightarrow> bool"
  for m nl nk where
  fresh: "calls_ready m nl nk ms \<Longrightarrow> \<forall>l. counter_at ms (cm_requests m) l = Fin 0 \<Longrightarrow>
    \<forall>l. observed_at ms (cm_duration m) l = [] \<Longrightarrow> \<forall>l. gauge_at ms (cm_in_flight m) l = Fin 0 \<Longrightarrow> calls_run m nl nk ms [] []"
| enters: "calls_run m nl nk ms active ended \<Longrightarrow> length key = nk \<Longrightarrow> length active + 1 < 2 ^ 53 \<Longrightarrow>
    call_enter m key ms = Some ms' \<Longrightarrow> calls_run m nl nk ms' (active @ [key]) ended"
| ends: "calls_run m nl nk ms active ended \<Longrightarrow> key \<in> set active \<Longrightarrow> length ls = nl \<Longrightarrow> f_finite secs \<Longrightarrow>
    length ended + 1 < 2 ^ 53 \<Longrightarrow> call_record m ls secs ms = Some ms1 \<Longrightarrow> call_leave m key ms1 = Some ms' \<Longrightarrow>
    calls_run m nl nk ms' (remove1 key active) (ended @ [(ls, secs)])"
| dropped: "calls_run m nl nk ms active ended \<Longrightarrow> key \<in> set active \<Longrightarrow> call_leave m key ms = Some ms' \<Longrightarrow>
    calls_run m nl nk ms' (remove1 key active) ended"
| elsewhere: "calls_run m nl nk ms active ended \<Longrightarrow>
    \<forall>h \<in> {cm_requests m, cm_duration m, cm_in_flight m}. map_of ms' h = map_of ms h \<Longrightarrow> calls_run m nl nk ms' active ended"

abbreviation times :: "'a \<Rightarrow> 'a list \<Rightarrow> f64" where
  "times x xs \<equiv> Fin (of_nat (count_list xs x))"

definition calls_counted :: "call_metrics \<Rightarrow> nat \<Rightarrow> nat \<Rightarrow> metrics \<Rightarrow> string list list \<Rightarrow> (string list \<times> f64) list \<Rightarrow> bool" where
  "calls_counted m nl nk ms active ended \<longleftrightarrow> calls_ready m nl nk ms \<and> length active < 2 ^ 53 \<and> length ended < 2 ^ 53 \<and>
     (\<forall>key \<in> set active. length key = nk) \<and>
     (\<forall>l. gauge_at ms (cm_in_flight m) l = times l active) \<and>
     (\<forall>l. counter_at ms (cm_requests m) l = times l (map fst ended)) \<and>
     (\<forall>l. observed_at ms (cm_duration m) l = map snd (filter (\<lambda>d. fst d = l) ended))"

lemma f_add_one: "n + 1 < 2 ^ 53 \<Longrightarrow> f_add (Fin (of_nat n)) (Fin 1) = Fin (of_nat (n + 1))"
  using f_nat_exact [of "n + 1"] by (simp add: f_nat_def add.commute)

lemma f_sub_one: "0 < n \<Longrightarrow> n < 2 ^ 53 \<Longrightarrow> f_add (Fin (of_nat n)) (Fin (-1)) = Fin (of_nat (n - 1))"
  using f_nat_exact [of "n - 1"] by (simp add: f_nat_def of_nat_diff)

lemma count_list_bound: "count_list xs x \<le> length xs"
  by (induction xs) auto

lemma count_list_remove1: "count_list (remove1 y xs) x = count_list xs x - (if x = y then 1 else 0)"
  by (induction xs) (auto simp: count_list_0_iff)

lemma leave_counted:
  assumes "calls_counted m nl nk ms active ended" "key \<in> set active"
  obtains ms' where "call_leave m key ms = Some ms'" "calls_counted m nl nk ms' (remove1 key active) ended"
proof -
  have key: "length key = nk" and ready: "calls_ready m nl (length key) ms"
    using assms by (auto simp: calls_counted_def)
  obtain ms' where ms': "call_leave m key ms = Some ms'" "calls_ready m nl (length key) ms'"
    "\<And>l. gauge_at ms' (cm_in_flight m) l =
      (if l = key then f_add (gauge_at ms (cm_in_flight m) key) (Fin (-1)) else gauge_at ms (cm_in_flight m) l)"
    "\<And>l. counter_at ms' (cm_requests m) l = counter_at ms (cm_requests m) l"
    "\<And>l. observed_at ms' (cm_duration m) l = observed_at ms (cm_duration m) l"
    using call_gauge_step [OF ready, of "Fin (-1)"]
    by (auto simp: call_leave_def gauge_dec_def [abs_def] f_finite_def)
  have "0 < count_list active key" using assms(2) by (simp add: count_list_0_iff flip: neq0_conv)
  moreover have "count_list active key < 2 ^ 53"
    using count_list_bound [of active key] assms(1) by (simp add: calls_counted_def)
  ultimately have "f_add (times key active) (Fin (-1)) = Fin (of_nat (count_list active key - 1))" by (rule f_sub_one)
  then have "calls_counted m nl nk ms' (remove1 key active) ended"
    using assms ms' key
    by (auto simp: calls_counted_def count_list_remove1 length_remove1 dest: notin_set_remove1)
  with ms'(1) show ?thesis using that by blast
qed

lemma enter_counted:
  assumes "calls_counted m nl nk ms active ended" "length key = nk" "length active + 1 < 2 ^ 53"
  obtains ms' where "call_enter m key ms = Some ms'" "calls_counted m nl nk ms' (active @ [key]) ended"
proof -
  have ready: "calls_ready m nl (length key) ms" using assms by (auto simp: calls_counted_def)
  obtain ms' where ms': "call_enter m key ms = Some ms'" "calls_ready m nl (length key) ms'"
    "\<And>l. gauge_at ms' (cm_in_flight m) l =
      (if l = key then f_add (gauge_at ms (cm_in_flight m) key) (Fin 1) else gauge_at ms (cm_in_flight m) l)"
    "\<And>l. counter_at ms' (cm_requests m) l = counter_at ms (cm_requests m) l"
    "\<And>l. observed_at ms' (cm_duration m) l = observed_at ms (cm_duration m) l"
    using call_gauge_step [OF ready, of "Fin 1"]
    by (auto simp: call_enter_def gauge_inc_def [abs_def] f_finite_def)
  have "f_add (times key active) (Fin 1) = Fin (of_nat (count_list active key + 1))"
    using count_list_bound [of active key] assms(3) by (intro f_add_one) simp
  then have "calls_counted m nl nk ms' (active @ [key]) ended"
    using assms ms' by (auto simp: calls_counted_def)
  with ms'(1) show ?thesis using that by blast
qed

lemma record_counted:
  assumes "calls_counted m nl nk ms active ended" "length ls = nl" "f_finite secs" "length ended + 1 < 2 ^ 53"
  obtains ms' where "call_record m ls secs ms = Some ms'" "calls_counted m nl nk ms' active (ended @ [(ls, secs)])"
proof -
  have ready: "calls_ready m (length ls) nk ms" using assms by (auto simp: calls_counted_def)
  obtain ms' where ms': "call_record m ls secs ms = Some ms'" "calls_ready m (length ls) nk ms'"
    "\<And>l. counter_at ms' (cm_requests m) l =
      (if l = ls then f_add (counter_at ms (cm_requests m) ls) (Fin 1) else counter_at ms (cm_requests m) l)"
    "\<And>l. observed_at ms' (cm_duration m) l =
      (if l = ls then observed_at ms (cm_duration m) ls @ [secs] else observed_at ms (cm_duration m) l)"
    "\<And>l. gauge_at ms' (cm_in_flight m) l = gauge_at ms (cm_in_flight m) l"
    using call_record_step [OF ready assms(3)] by blast
  have "f_add (times ls (map fst ended)) (Fin 1) = Fin (of_nat (count_list (map fst ended) ls + 1))"
    using count_list_bound [of "map fst ended" ls] assms(4) by (intro f_add_one) simp
  then have "calls_counted m nl nk ms' active (ended @ [(ls, secs)])"
    using assms ms' by (auto simp: calls_counted_def)
  with ms'(1) show ?thesis using that by blast
qed

lemma calls_counted_elsewhere:
  assumes "calls_counted m nl nk ms active ended"
    and "\<forall>h \<in> {cm_requests m, cm_duration m, cm_in_flight m}. map_of ms' h = map_of ms h"
  shows "calls_counted m nl nk ms' active ended"
  using assms by (simp add: calls_counted_def calls_ready_def family_is_def gauge_at_def counter_at_def observed_at_def)

lemma calls_run_counted: "calls_run m nl nk ms active ended \<Longrightarrow> calls_counted m nl nk ms active ended"
proof (induction rule: calls_run.induct)
  case (fresh ms)
  then show ?case by (simp add: calls_counted_def)
next
  case (enters ms active ended key ms')
  then show ?case by (metis enter_counted option.inject)
next
  case (ends ms active ended key ls secs ms1 ms')
  then have "calls_counted m nl nk ms1 active (ended @ [(ls, secs)])" by (metis record_counted option.inject)
  with ends show ?case by (metis leave_counted option.inject)
next
  case (dropped ms active ended key ms')
  then show ?case by (metis leave_counted option.inject)
next
  case (elsewhere ms active ended ms')
  then show ?case using calls_counted_elsewhere by blast
qed


section \<open>Registration starts a run\<close>

definition new_family :: "metrics \<Rightarrow> metrics \<Rightarrow> string \<Rightarrow> metric_kind \<Rightarrow> nat \<Rightarrow> metric_values \<Rightarrow> bool" where
  "new_family ms ms' h k n start \<longleftrightarrow> registry_ok ms' \<and> map_of ms h = None \<and>
     (\<exists>f. map_of ms' = (map_of ms)(h \<mapsto> f) \<and> family_ok f \<and> mf_kind f = k \<and> length (mf_labels f) = n \<and> mf_values f = start)"

lemma counter_vec_new:
  assumes "registry_ok ms" "counter_vec opts ms = (Inr h, ms')"
  shows "new_family ms ms' h CounterKind (length (vo_labels opts)) (CounterValues [])"
proof -
  have "registry_ok ms'"
    using registry_ok_register [OF assms(1), of opts CounterKind "CounterValues []"] assms(2)
    by (simp add: counter_vec_def bt.ok_empty)
  then show ?thesis
    using assms(2)
    by (auto simp: new_family_def counter_vec_def metrics_register_def metrics_insert_def validate_options_def check_labels_ok
        Let_def fun_eq_iff map_of_bt_put family_ok_def bt.ok_empty split: sum.splits if_splits)
qed

lemma gauge_vec_new:
  assumes "registry_ok ms" "gauge_vec opts ms = (Inr h, ms')"
  shows "new_family ms ms' h GaugeKind (length (vo_labels opts)) (GaugeValues [])"
proof -
  have "registry_ok ms'"
    using registry_ok_register [OF assms(1), of opts GaugeKind "GaugeValues []"] assms(2)
    by (simp add: gauge_vec_def bt.ok_empty)
  then show ?thesis
    using assms(2)
    by (auto simp: new_family_def gauge_vec_def metrics_register_def metrics_insert_def validate_options_def check_labels_ok
        Let_def fun_eq_iff map_of_bt_put family_ok_def bt.ok_empty split: sum.splits if_splits)
qed

lemma histogram_vec_new:
  assumes "registry_ok ms" "histogram_vec opts ms = (Inr h, ms')"
  shows "\<exists>bs. new_family ms ms' h HistogramKind (length (vo_labels (ho_vector opts))) (HistogramValues bs [])"
proof -
  have "registry_ok ms'" using registry_ok_histogram [OF assms(1), of opts] assms(2) by simp
  then show ?thesis
    using assms(2)
    by (auto simp: new_family_def histogram_vec_def metrics_insert_def validate_options_def check_labels_ok
        Let_def fun_eq_iff map_of_bt_put family_ok_def bt.ok_empty split: sum.splits if_splits)
qed

lemma new_families_run:
  assumes "new_family ms0 ms1 r CounterKind nl (CounterValues [])"
    and "new_family ms1 ms2 d HistogramKind nl (HistogramValues bs [])"
    and "new_family ms2 ms3 f GaugeKind nk (GaugeValues [])"
  shows "calls_run \<lparr>cm_requests = r, cm_duration = d, cm_in_flight = f\<rparr> nl nk ms3 [] []"
proof -
  have "distinct [r, d, f]" using assms by (auto simp: new_family_def split: if_splits)
  with assms show ?thesis
    by (intro calls_run.fresh)
      (auto simp: new_family_def calls_ready_def family_is_def counter_at_def observed_at_def gauge_at_def entry_or_default_def)
qed

lemma register_three:
  assumes "registry_ok ms"
    and "register_all (counter_vec o1 # histogram_vec o2 # gauge_vec o3 # rest) ms = (Inr hs, ms')"
  obtains r d f hs' ms3 where "hs = r # d # f # hs'" "register_all rest ms3 = (Inr hs', ms')" "registry_ok ms3"
    "length (vo_labels (ho_vector o2)) = length (vo_labels o1) \<Longrightarrow>
      calls_run \<lparr>cm_requests = r, cm_duration = d, cm_in_flight = f\<rparr> (length (vo_labels o1)) (length (vo_labels o3)) ms3 [] []"
proof -
  obtain r ms1 d ms2 f ms3 hs' where regs: "counter_vec o1 ms = (Inr r, ms1)" "histogram_vec o2 ms1 = (Inr d, ms2)"
    "gauge_vec o3 ms2 = (Inr f, ms3)" "register_all rest ms3 = (Inr hs', ms')" "hs = r # d # f # hs'"
    using assms(2) by (auto split: prod.splits sum.splits)
  have 1: "new_family ms ms1 r CounterKind (length (vo_labels o1)) (CounterValues [])"
    using counter_vec_new [OF assms(1) regs(1)] .
  then obtain bs where 2: "new_family ms1 ms2 d HistogramKind (length (vo_labels (ho_vector o2))) (HistogramValues bs [])"
    using histogram_vec_new [OF _ regs(2)] by (auto simp: new_family_def)
  then have 3: "new_family ms2 ms3 f GaugeKind (length (vo_labels o3)) (GaugeValues [])"
    using gauge_vec_new [OF _ regs(3)] by (auto simp: new_family_def)
  then have "registry_ok ms3" by (simp add: new_family_def)
  show ?thesis
  proof (rule that [OF regs(5,4) \<open>registry_ok ms3\<close>])
    assume eq: "length (vo_labels (ho_vector o2)) = length (vo_labels o1)"
    show "calls_run \<lparr>cm_requests = r, cm_duration = d, cm_in_flight = f\<rparr> (length (vo_labels o1)) (length (vo_labels o3)) ms3 [] []"
      using new_families_run [OF 1 2 [unfolded eq] 3] .
  qed
qed

text \<open>Each constructor leaves the registry in the first state of a run.\<close>

lemma labels_of_options [simp]:
  "vo_labels (named_options ns sub n h ls) = ls" "ho_vector (histogram_of v) = v"
  by (simp_all add: named_options_def histogram_of_def ho_with_vector_options_def)

lemma length_one: "length [a] = 1" and length_two: "length [a, b] = 2" and length_three: "length [a, b, c] = 3"
  by simp_all

lemma http_metrics_run:
  assumes ok: "registry_ok ms" and m: "http_metrics_new ns ms = (Inr m, ms')"
  shows "calls_run (hm_calls m) 3 2 ms' [] []"
proof -
  obtain hs where hs: "register_all (http_families ns) ms = (Inr hs, ms')"
    using m by (auto simp: http_metrics_new_def split: prod.splits sum.splits list.splits)
  from register_three [OF ok hs [unfolded http_families_def]] obtain r d f hs' ms3 where
    h: "hs = r # d # f # hs'" "registry_ok ms3" "calls_run \<lparr>cm_requests = r, cm_duration = d, cm_in_flight = f\<rparr> 3 2 ms3 [] []"
    and rest: "register_all [counter_vec (named_options ns [] ''http_protection_decisions_total''
      ''HTTP transport protection decisions'' [''mechanism'', ''decision''])] ms3 = (Inr hs', ms')"
    by (metis labels_of_options length_three length_two)
  obtain p where p: "hs' = [p]" "counter_vec (named_options ns [] ''http_protection_decisions_total''
      ''HTTP transport protection decisions'' [''mechanism'', ''decision'']) ms3 = (Inr p, ms')"
    using rest by (auto split: prod.splits sum.splits)
  have "new_family ms3 ms' p CounterKind 2 (CounterValues [])" using counter_vec_new [OF h(2) p(2)] by (simp add: numeral_2_eq_2)
  moreover have "\<forall>n \<in> {r, d, f}. map_of ms3 n \<noteq> None"
    using calls_run_counted [OF h(3)] by (auto simp: calls_counted_def calls_ready_def family_is_def)
  ultimately have "\<forall>n \<in> {r, d, f}. map_of ms' n = map_of ms3 n" by (auto simp: new_family_def)
  then have "calls_run \<lparr>cm_requests = r, cm_duration = d, cm_in_flight = f\<rparr> 3 2 ms' [] []"
    using calls_run.elsewhere [OF h(3)] by simp
  moreover have "hm_calls m = \<lparr>cm_requests = r, cm_duration = d, cm_in_flight = f\<rparr>"
    using m by (auto simp: http_metrics_new_def hs h(1) p(1) handles_of_def)
  ultimately show ?thesis by simp
qed

lemma http_client_metrics_run:
  assumes ok: "registry_ok ms" and m: "http_client_metrics_new ns ms = (Inr m, ms')"
  shows "calls_run m 3 2 ms' [] []"
proof -
  obtain hs where hs: "register_all (http_client_families ns) ms = (Inr hs, ms')"
    using m by (auto simp: http_client_metrics_new_def split: prod.splits sum.splits list.splits)
  from register_three [OF ok hs [unfolded http_client_families_def]] obtain r d f hs' ms3 where
    h: "hs = r # d # f # hs'" "register_all [] ms3 = (Inr hs', ms')"
      "calls_run \<lparr>cm_requests = r, cm_duration = d, cm_in_flight = f\<rparr> 3 2 ms3 [] []"
    by (metis labels_of_options length_three length_two)
  then show ?thesis using m by (auto simp: http_client_metrics_new_def hs handles_of_def)
qed

lemma rpc_metrics_run:
  assumes ok: "registry_ok ms" and m: "rpc_metrics_new ns mode known ms = (Inr m, ms')"
  shows "calls_run (rm_calls m) 2 1 ms' [] []"
proof -
  obtain hs where hs: "register_all (rpc_families ns (''rpc_'' @ mode_name mode)) ms = (Inr hs, ms')"
    using m by (auto simp: rpc_metrics_new_def Let_def split: prod.splits sum.splits list.splits)
  from register_three [OF ok hs [unfolded rpc_families_def]] obtain r d f hs' ms3 where
    h: "hs = r # d # f # hs'" "register_all [] ms3 = (Inr hs', ms')"
      "calls_run \<lparr>cm_requests = r, cm_duration = d, cm_in_flight = f\<rparr> 2 1 ms3 [] []"
    by (metis labels_of_options length_two length_one)
  then show ?thesis using m hs by (auto simp: rpc_metrics_new_def Let_def handles_of_def)
qed

section \<open>The components\<close>

text \<open>The middleware takes exactly these steps.\<close>

lemma middleware_steps:
  assumes run: "calls_run (hm_calls m) 3 2 ms active ended"
    and path: "path = (case pattern of None \<Rightarrow> ''<unmatched>'' | Some p \<Rightarrow> p)"
  shows "middleware_enter m verb pattern ms = Some ms' \<Longrightarrow> length active + 1 < 2 ^ 53 \<Longrightarrow>
      calls_run (hm_calls m) 3 2 ms' (active @ [[verb, path]]) ended"
    and "middleware_end m verb pattern outcome secs ms = Some ms' \<Longrightarrow> [verb, path] \<in> set active \<Longrightarrow> f_finite secs \<Longrightarrow>
      length ended + 1 < 2 ^ 53 \<Longrightarrow>
      calls_run (hm_calls m) 3 2 ms' (remove1 [verb, path] active)
        (ended @ (case outcome of HttpResponse st \<Rightarrow> [([verb, path, show_nat st], secs)]
          | HttpError \<Rightarrow> [([verb, path, ''500''], secs)] | HttpDropped \<Rightarrow> []))"
proof -
  show "calls_run (hm_calls m) 3 2 ms' (active @ [[verb, path]]) ended"
    if "middleware_enter m verb pattern ms = Some ms'" "length active + 1 < 2 ^ 53"
    using calls_run.enters [OF run _ that(2), of "[verb, path]"] that(1)
    by (simp add: middleware_enter_def http_track_in_flight_def path)
  have s500: "show_nat 500 = ''500''"
    by (simp add: show_nat.simps digit_char_def char_of_def bit_0)
  assume e: "middleware_end m verb pattern outcome secs ms = Some ms'" "[verb, path] \<in> set active" "f_finite secs"
    "length ended + 1 < 2 ^ 53"
  have step: "calls_run (hm_calls m) 3 2 ms' (remove1 [verb, path] active) (ended @ [([verb, path, show_nat st], secs)])"
    if "Option.bind (http_record m verb path st secs ms) (http_guard_drop m verb path) = Some ms'" for st
    using calls_run.ends [OF run e(2) _ e(3,4), of "[verb, path, show_nat st]"] that
    by (auto simp: http_record_def http_guard_drop_def bind_eq_Some_conv)
  show "calls_run (hm_calls m) 3 2 ms' (remove1 [verb, path] active)
      (ended @ (case outcome of HttpResponse st \<Rightarrow> [([verb, path, show_nat st], secs)]
        | HttpError \<Rightarrow> [([verb, path, ''500''], secs)] | HttpDropped \<Rightarrow> []))"
    using e(1) step [of 500] step calls_run.dropped [OF run e(2)]
    by (cases outcome) (auto simp: middleware_end_def http_guard_drop_def path [symmetric] s500 simp del: show_nat.simps)
qed

text \<open>
  A gRPC call is recorded once: an observation that is still there is settled by the first event that
  tells how the call ended, by a record and a departure together, and the events after it change nothing.
  Dropping an unsettled call records it as cancelled.
\<close>

definition settle :: "rpc_metrics \<Rightarrow> string \<Rightarrow> string \<Rightarrow> f64 \<Rightarrow> metrics \<Rightarrow> metrics option" where
  "settle m verb code secs ms =
     Option.bind (call_record (rm_calls m) [verb, code] secs ms) (call_leave (rm_calls m) [verb])"

lemma body_finish_settles:
  "body_finish m code secs None ms = Some (None, ms)"
  "body_finish m code secs (Some \<lparr>ob_method = verb, ob_finished = False\<rparr>) ms =
     map_option (\<lambda>ms'. (None, ms')) (settle m verb code secs ms)"
  by (simp add: body_finish_def)
    (cases "settle m verb code secs ms"; simp add: body_finish_def rpc_finish_def rpc_observation_drop_def settle_def)

lemma rpc_settles_once:
  shows "body_poll_frame m p secs None ms = Some (None, ms)"
    and "body_drop m secs None ms = Some ms"
    and "body_drop m secs (Some \<lparr>ob_method = verb, ob_finished = False\<rparr>) ms = settle m verb ''cancelled'' secs ms"
    and "body_poll_frame m p secs (Some \<lparr>ob_method = verb, ob_finished = False\<rparr>) ms =
      Some (Some \<lparr>ob_method = verb, ob_finished = False\<rparr>, ms) \<or>
      (\<exists>code. body_poll_frame m p secs (Some \<lparr>ob_method = verb, ob_finished = False\<rparr>) ms =
        map_option (\<lambda>ms'. (None, ms')) (settle m verb code secs ms))"
    and "rpc_answered m a secs \<lparr>ob_method = verb, ob_finished = False\<rparr> ms =
      Some (Some \<lparr>ob_method = verb, ob_finished = False\<rparr>, ms) \<or>
      (\<exists>code. rpc_answered m a secs \<lparr>ob_method = verb, ob_finished = False\<rparr> ms =
        map_option (\<lambda>ms'. (None, ms')) (settle m verb code secs ms))"
  by (auto simp: body_poll_frame_def body_drop_def rpc_answered_def body_finish_settles rpc_observation_drop_def
      rpc_finish_def settle_def option.map_comp comp_def option.map_ident split: body_poll.split rpc_answer.split option.split)

text \<open>Only registered methods get labels of their own.\<close>

lemma rpc_method_bounded: "rpc_method m path \<in> insert ''unknown'' (set (rm_methods m))"
  by (simp add: rpc_method_def)

text \<open>A body that ends without a status is recorded as a success.\<close>

lemma missing_status_counts_as_ok:
  "body_poll_frame m BodyEnd secs (Some \<lparr>ob_method = verb, ob_finished = False\<rparr>) ms =
     map_option (\<lambda>ms'. (None, ms')) (settle m verb ''0'' secs ms)"
  by (simp add: body_poll_frame_def body_finish_settles)


end
