(* ===== verification/Http_Client.thy ===== *)
theory Http_Client
  imports Call_Metrics Trace Rest_Middleware
begin

text \<open>
  \<open>rest/src/client.rs\<close>: the client of a named HTTP dependency with its circuit breaker, metrics and response
  limit; \<open>rest/src/trace.rs\<close> and \<open>rpc/src/trace.rs\<close>: the propagation of trace contexts by servers and clients.
  The transport, JSON and the identifiers drawn for spans are arguments. While a request is under way other
  callers use the same breaker and the same registry.
\<close>

section \<open>Configuration\<close>

record http_client_config =
  cl_service :: string
  cl_timeout :: duration
  cl_max_response_bytes :: nat
  cl_breaker :: breaker_config

text \<open>\<open>None\<close> is a failed \<open>assert\<close>.\<close>

definition http_client_config_new :: "string \<Rightarrow> http_client_config option" where
  "http_client_config_new service =
     map_option (\<lambda>b. \<lparr>cl_service = service, cl_timeout = 10 * nanos_per_sec, cl_max_response_bytes = 10 * 1024 * 1024,
       cl_breaker = b\<rparr>) (breaker_config_new 5 (30 * nanos_per_sec))"

definition cl_with_timeout :: "duration \<Rightarrow> http_client_config \<Rightarrow> http_client_config option" where
  "cl_with_timeout d c = (if d = 0 then None else Some (c\<lparr>cl_timeout := d\<rparr>))"

definition cl_with_max_response_bytes :: "nat \<Rightarrow> http_client_config \<Rightarrow> http_client_config option" where
  "cl_with_max_response_bytes n c = (if n = 0 then None else Some (c\<lparr>cl_max_response_bytes := n\<rparr>))"

definition cl_with_breaker :: "breaker_config \<Rightarrow> http_client_config \<Rightarrow> http_client_config" where
  "cl_with_breaker b c = c\<lparr>cl_breaker := b\<rparr>"

datatype client_error = InvalidServiceName | Build string | CircuitOpen string | Transport string | Status nat
  | BodyTooLarge nat | Decode string

text \<open>How a status is displayed is an argument.\<close>

fun client_error_display :: "(nat \<Rightarrow> string) \<Rightarrow> client_error \<Rightarrow> string" where
  "client_error_display show_status InvalidServiceName = ''HTTP service name cannot be empty''"
| "client_error_display show_status (Build e) = ''failed to build HTTP request: '' @ e"
| "client_error_display show_status (CircuitOpen s) = ''HTTP circuit for service '' @ s @ '' is open''"
| "client_error_display show_status (Transport e) = ''HTTP transport failed: '' @ e"
| "client_error_display show_status (Status n) = ''HTTP service returned '' @ show_status n"
| "client_error_display show_status (BodyTooLarge n) = ''HTTP response exceeds the '' @ show_nat n @ ''-byte limit''"
| "client_error_display show_status (Decode e) = ''failed to decode HTTP JSON response: '' @ e"

record http_client =
  hc_service :: string
  hc_breaker :: circuit_breaker
  hc_max_response_bytes :: nat
  hc_metrics :: "call_metrics option"

text \<open>The outer \<open>None\<close> is a panic of \<open>CircuitBreaker::new\<close>, whose seed for the random numbers is an argument.\<close>

definition http_client_new ::
  "string + unit \<Rightarrow> 64 word \<Rightarrow> instant \<Rightarrow> http_client_config \<Rightarrow> (client_error + http_client) option" where
  "http_client_new built seed now c =
     (if is_blank (cl_service c) then Some (Inl InvalidServiceName)
      else case built of
        Inl e \<Rightarrow> Some (Inl (Build e))
      | Inr _ \<Rightarrow>
          map_option (\<lambda>(b, _). Inr \<lparr>hc_service = cl_service c, hc_breaker = b,
            hc_max_response_bytes = cl_max_response_bytes c, hc_metrics = None\<rparr>)
            (circuit_breaker_new (cl_breaker c) seed now))"

definition hc_with_metrics :: "call_metrics \<Rightarrow> http_client \<Rightarrow> http_client" where
  "hc_with_metrics m cl = cl\<lparr>hc_metrics := Some m\<rparr>"

section \<open>Requests\<close>

record client_response =
  cr_status :: nat
  cr_content_length :: "nat option"
  cr_body :: "string + string"  \<comment> \<open>a failure while reading, or the whole body\<close>

definition is_server_error :: "nat \<Rightarrow> bool" where
  "is_server_error status \<longleftrightarrow> 500 \<le> status \<and> status < 600"

definition client_acceptable :: "string + client_response \<Rightarrow> bool" where
  "client_acceptable r = (case r of Inl _ \<Rightarrow> False | Inr resp \<Rightarrow> \<not> is_server_error (cr_status resp))"

definition client_result :: "string \<Rightarrow> string breaker_error + client_response \<Rightarrow> client_error + client_response" where
  "client_result service r =
     (case r of
        Inl BreakerOpen \<Rightarrow> Inl (CircuitOpen service)
      | Inl (Operation e) \<Rightarrow> Inl (Transport e)
      | Inr resp \<Rightarrow> Inr resp)"

definition result_label :: "client_error + client_response \<Rightarrow> string" where
  "result_label r =
     (case r of
        Inr resp \<Rightarrow> show_nat (cr_status resp)
      | Inl (CircuitOpen _) \<Rightarrow> ''circuit_open''
      | Inl (Transport _) \<Rightarrow> ''transport_error''
      | Inl _ \<Rightarrow> ''client_error'')"

text \<open>
  \<open>execute\<close>: \<open>result\<close> is what the transport does when it is reached, with \<open>None\<close> for a future that is dropped;
  \<open>other\<close> and \<open>others\<close> are what other callers do meanwhile. The result is \<open>None\<close> when the future was dropped.
\<close>

definition client_enter :: "http_client \<Rightarrow> string \<Rightarrow> metrics \<Rightarrow> metrics option" where
  "client_enter cl verb ms =
     (case hc_metrics cl of None \<Rightarrow> Some ms | Some m \<Rightarrow> client_track_in_flight m (hc_service cl) verb ms)"

definition client_leave :: "http_client \<Rightarrow> string \<Rightarrow> f64 \<Rightarrow> (client_error + client_response) option \<Rightarrow> metrics \<Rightarrow> metrics option" where
  "client_leave cl verb secs r ms =
     (case hc_metrics cl of
        None \<Rightarrow> Some ms
      | Some m \<Rightarrow>
          Option.bind (case r of None \<Rightarrow> Some ms | Some x \<Rightarrow> client_record m (hc_service cl) verb (result_label x) secs ms)
            (client_guard_drop m (hc_service cl) verb))"

definition client_execute ::
  "instant \<Rightarrow> instant \<Rightarrow> (circuit_breaker \<Rightarrow> circuit_breaker) \<Rightarrow> (metrics \<Rightarrow> metrics) \<Rightarrow> (string + client_response) option \<Rightarrow>
   string \<Rightarrow> f64 \<Rightarrow> http_client \<Rightarrow> metrics \<Rightarrow> ((client_error + client_response) option \<times> http_client \<times> metrics) option" where
  "client_execute t1 t2 other others result verb secs cl ms =
     Option.bind (client_enter cl verb ms) (\<lambda>ms1.
       case execute_with_accept t1 t2 other result client_acceptable (hc_breaker cl) of
         (r, b) \<Rightarrow>
           let out = map_option (client_result (hc_service cl)) r in
           map_option (\<lambda>ms2. (out, cl\<lparr>hc_breaker := b\<rparr>, ms2)) (client_leave cl verb secs out (others ms1)))"

text \<open>The header that \<open>execute_traced\<close> adds before it executes the request.\<close>

definition traced_headers :: "64 word \<Rightarrow> trace_context \<Rightarrow> headers \<Rightarrow> headers" where
  "traced_headers sequence parent hs = header_insert ''traceparent'' (traceparent (trace_child sequence parent)) hs"

text \<open>\<open>decode_json\<close>, with the number of bytes that are held in memory.\<close>

definition decode_json :: "(string \<Rightarrow> string + 'v) \<Rightarrow> http_client \<Rightarrow> client_response \<Rightarrow> (client_error + 'v) \<times> nat" where
  "decode_json from_slice cl resp =
     (if \<not> (200 \<le> cr_status resp \<and> cr_status resp < 300) then (Inl (Status (cr_status resp)), 0)
      else if (case cr_content_length resp of None \<Rightarrow> False | Some n \<Rightarrow> hc_max_response_bytes cl < n)
      then (Inl (BodyTooLarge (hc_max_response_bytes cl)), 0)
      else case cr_body resp of
        Inl e \<Rightarrow> (Inl (Transport e), 0)
      | Inr bytes \<Rightarrow>
          if hc_max_response_bytes cl < length bytes then (Inl (BodyTooLarge (hc_max_response_bytes cl)), length bytes)
          else (case from_slice bytes of Inl e \<Rightarrow> Inl (Decode e) | Inr v \<Rightarrow> Inr v, length bytes))"

text \<open>\<open>get_json\<close> and \<open>post_json\<close>: build, execute, decode.\<close>

definition request_json ::
  "(string \<Rightarrow> string + 'v) \<Rightarrow> string + unit \<Rightarrow> instant \<Rightarrow> instant \<Rightarrow> (circuit_breaker \<Rightarrow> circuit_breaker) \<Rightarrow> (metrics \<Rightarrow> metrics) \<Rightarrow>
   (string + client_response) option \<Rightarrow> string \<Rightarrow> f64 \<Rightarrow> http_client \<Rightarrow> metrics \<Rightarrow>
   ((client_error + 'v) option \<times> http_client \<times> metrics) option" where
  "request_json from_slice built t1 t2 other others result verb secs cl ms =
     (case built of
        Inl e \<Rightarrow> Some (Some (Inl (Build e)), cl, ms)
      | Inr _ \<Rightarrow>
          map_option (\<lambda>(r, cl', ms').
            (map_option (\<lambda>x. case x of Inl e \<Rightarrow> Inl e | Inr resp \<Rightarrow> fst (decode_json from_slice cl' resp)) r, cl', ms'))
            (client_execute t1 t2 other others result verb secs cl ms))"

definition get_json where
  "get_json from_slice built t1 t2 other others result secs cl ms =
     request_json from_slice built t1 t2 other others result ''GET'' secs cl ms"

definition post_json where
  "post_json from_slice built t1 t2 other others result secs cl ms =
     request_json from_slice built t1 t2 other others result ''POST'' secs cl ms"

section \<open>Trace propagation\<close>

text \<open>The identifiers a request may need: for a new trace and for a span.\<close>

record fresh_ids =
  fi_time :: "128 word"
  fi_trace :: "64 word"
  fi_span :: "64 word"

definition sampled_root :: "fresh_ids \<Rightarrow> trace_context" where
  "sampled_root ids = trace_root (TraceFlags 1) (fi_time ids) (fi_trace ids) (fi_span ids)"

text \<open>The context of a request from its header; the outer \<open>None\<close> is a panic of the parser.\<close>

definition incoming_context :: "fresh_ids \<Rightarrow> string option \<Rightarrow> trace_context option" where
  "incoming_context ids header =
     (case Option.bind header to_str of
        None \<Rightarrow> Some (sampled_root ids)
      | Some v \<Rightarrow>
          map_option (\<lambda>r. case r of Inl _ \<Rightarrow> sampled_root ids | Inr parent \<Rightarrow> trace_child (fi_span ids) parent) (trace_parse v))"

text \<open>\<open>TraceContextService\<close>: the inner service sees the context, a response carries it.\<close>

definition header_first :: "string \<Rightarrow> headers \<Rightarrow> string option" where
  "header_first n hs = (case header_values n hs of [] \<Rightarrow> None | v # _ \<Rightarrow> Some v)"

definition trace_service_call ::
  "(trace_context \<Rightarrow> call_result) \<Rightarrow> fresh_ids \<Rightarrow> headers \<Rightarrow> call_result" where
  "trace_service_call inner ids hs =
     (case incoming_context ids (header_first ''traceparent'' hs) of
        None \<Rightarrow> Panicked
      | Some ctx \<Rightarrow>
          (case inner ctx of
             Responded resp \<Rightarrow> Responded (resp\<lparr>hs_headers := header_insert ''traceparent'' (traceparent ctx) (hs_headers resp)\<rparr>)
           | other \<Rightarrow> other))"

text \<open>\<open>RpcTrace\<close>: a client sends its context, a server derives its own; both keep it in the request.\<close>

datatype rpc_trace = RpcTraceClient "trace_context option" | RpcTraceServer

definition rpc_trace_client :: "trace_context option \<Rightarrow> rpc_trace" where
  "rpc_trace_client parent = RpcTraceClient parent"

definition rpc_trace_server :: rpc_trace where
  "rpc_trace_server = RpcTraceServer"

definition rpc_trace_call :: "rpc_trace \<Rightarrow> fresh_ids \<Rightarrow> headers \<Rightarrow> (headers \<times> trace_context) option" where
  "rpc_trace_call mode ids metadata =
     (case mode of
        RpcTraceClient parent \<Rightarrow>
          let ctx = (case parent of None \<Rightarrow> sampled_root ids | Some p \<Rightarrow> trace_child (fi_span ids) p) in
          Some (header_insert ''traceparent'' (traceparent ctx) metadata, ctx)
      | RpcTraceServer \<Rightarrow>
          map_option (\<lambda>ctx. (metadata, ctx)) (incoming_context ids (header_first ''traceparent'' metadata)))"

section \<open>Traces continue across processes\<close>

definition visible :: "string \<Rightarrow> bool" where
  "visible v \<longleftrightarrow> (\<forall>ch \<in> set v. let n = (of_char ch :: nat) in n = 9 \<or> (32 \<le> n \<and> n < 127))"

lemma to_str_visible: "to_str v = (if visible v then Some v else None)"
  by (simp add: to_str_def visible_def list_all_iff)

lemma visible_traceparent: "visible (traceparent c)"
proof -
  have "visible (encode_byte b)" for b
    using of_char_hex [OF byte_digits(1), of b] of_char_hex [OF byte_digits(2), of b] byte_digits [of b]
    by (auto simp: visible_def encode_byte_def Let_def)
  then show ?thesis by (auto simp: visible_def traceparent_def encode_hex_def)
qed

lemma decode_hex_visible:
  "visible v \<Longrightarrow> length v = 2 * n \<Longrightarrow> decode_hex n v \<noteq> None"
proof (induction n v rule: decode_hex.induct)
  case (2 n a b s)
  have "\<not> continuation ch" if "ch \<in> set (a # b # s)" for ch
    using 2(2) that by (auto simp: visible_def continuation_def Let_def)
  then have "\<not> continuation a" "s \<noteq> [] \<longrightarrow> \<not> continuation (hd s)" by auto
  with 2 show ?case by (auto simp: visible_def split: option.split)
qed (auto simp: visible_def)

lemma trace_parse_total: "visible v \<Longrightarrow> trace_parse v \<noteq> None"
proof -
  assume v: "visible v"
  have parts: "visible p" if "p \<in> set (split_on CHR ''-'' v)" for p
  proof -
    have "set p \<subseteq> set v" using that
    proof (induction v arbitrary: p)
      case (Cons x xs)
      then show ?case by (cases "split_on CHR ''-'' xs") (auto split: if_splits, blast+)
    qed simp
    then show ?thesis using v by (auto simp: visible_def)
  qed
  show ?thesis
    unfolding trace_parse_def
    by (auto simp: decode_hex_visible parts split: list.split option.split sum.split)
qed

lemma incoming_context_total: "\<exists>c. incoming_context ids header = Some c"
  using trace_parse_total
  by (cases "Option.bind header to_str")
    (auto simp: incoming_context_def to_str_visible bind_eq_Some_conv split: if_splits)

lemma header_first_insert: "header_first n (header_insert n v hs) = Some v"
proof -
  have "header_values n (header_insert n v hs) = [v]"
    by (simp add: header_insert_def header_values_def filter_filter case_prod_beta)
  then show ?thesis by (simp add: header_first_def)
qed

text \<open>
  A server never panics on a trace header; a call made with a context, by the gRPC interceptor or the HTTP
  client, is served under the same trace, its span a child of the caller's, with the caller's sampling
  decision.
\<close>

theorem trace_continues:
  assumes "trace_ok ctx"
  shows "incoming_context ids (header_first ''traceparent'' (header_insert ''traceparent'' (traceparent ctx) hs)) =
      Some (ctx\<lparr>tc_span_id := next_span_id (fi_span ids), tc_parent_span_id := Some (tc_span_id ctx)\<rparr>)"
  using parse_traceparent [OF assms]
  by (simp add: header_first_insert incoming_context_def to_str_visible visible_traceparent trace_child_def)

lemma rpc_trace_hop:
  assumes "rpc_trace_call (rpc_trace_client parent) ids md = Some (md', ctx)" "\<forall>p. parent = Some p \<longrightarrow> trace_ok p"
  shows "\<exists>served. rpc_trace_call rpc_trace_server ids' md' = Some (md', served) \<and> tc_trace_id served = tc_trace_id ctx \<and>
    tc_parent_span_id served = Some (tc_span_id ctx) \<and> tc_flags served = tc_flags ctx \<and>
    (\<forall>p. parent = Some p \<longrightarrow> tc_trace_id served = tc_trace_id p)"
proof -
  have ok: "trace_ok ctx"
    using assms by (auto simp: rpc_trace_call_def rpc_trace_client_def Let_def sampled_root_def root_ok child_ok
        split: option.splits)
  have md': "md' = header_insert ''traceparent'' (traceparent ctx) md"
    using assms(1) by (auto simp: rpc_trace_call_def rpc_trace_client_def Let_def)
  show ?thesis
    using assms(1) trace_continues [OF ok, of ids' md]
    by (auto simp: rpc_trace_call_def rpc_trace_server_def rpc_trace_client_def md' trace_child_def Let_def split: option.splits)
qed

lemma trace_service_reports:
  assumes "inner ctx = Responded resp" "incoming_context ids (header_first ''traceparent'' hs) = Some ctx"
  shows "\<exists>out. trace_service_call inner ids hs = Responded out \<and>
    header_first ''traceparent'' (hs_headers out) = Some (traceparent ctx)"
  using assms by (simp add: trace_service_call_def header_first_insert)

section \<open>The client\<close>

text \<open>
  A request under metrics is one call: in flight from the start, recorded once under the label of its
  outcome, or not at all when its future was dropped, and then no longer in flight, whatever other
  callers did to the registry meanwhile.
\<close>

lemma client_execute_counted:
  assumes m: "hc_metrics cl = Some m" and run: "calls_run m 3 2 ms active ended" and bound: "length active + 1 < 2 ^ 53"
    and others: "\<And>ms1. calls_run m 3 2 ms1 (active @ [[hc_service cl, verb]]) ended \<Longrightarrow>
      calls_run m 3 2 (others ms1) active' ended' \<and> [hc_service cl, verb] \<in> set active'"
    and "f_finite secs" "length ended' + 1 < 2 ^ 53"
  shows "\<exists>r cl' ms'. client_execute t1 t2 other others result verb secs cl ms = Some (r, cl', ms') \<and>
    calls_run m 3 2 ms' (remove1 [hc_service cl, verb] active')
      (ended' @ (case r of None \<Rightarrow> [] | Some x \<Rightarrow> [([hc_service cl, verb, result_label x], secs)]))"
proof -
  let ?key = "[hc_service cl, verb]"
  obtain ms1 where enter: "call_enter m ?key ms = Some ms1"
    using enter_counted [OF calls_run_counted [OF run] _ bound, of ?key] by (auto simp: numeral_2_eq_2)
  have "calls_run m 3 2 ms1 (active @ [?key]) ended"
    using calls_run.enters [OF run _ bound enter] by (simp add: numeral_2_eq_2)
  note o = others [OF this]
  then have counted: "calls_counted m 3 2 (others ms1) active' ended'" "?key \<in> set active'"
    using calls_run_counted by auto
  obtain r b where rb: "execute_with_accept t1 t2 other result client_acceptable (hc_breaker cl) = (r, b)" by (rule prod.exhaust)
  let ?out = "map_option (client_result (hc_service cl)) r"
  have "\<exists>ms'. client_leave cl verb secs ?out (others ms1) = Some ms' \<and>
    calls_run m 3 2 ms' (remove1 ?key active')
      (ended' @ (case ?out of None \<Rightarrow> [] | Some x \<Rightarrow> [([hc_service cl, verb, result_label x], secs)]))"
  proof (cases ?out)
    case None
    obtain ms' where "call_leave m ?key (others ms1) = Some ms'" using leave_counted [OF counted] .
    then show ?thesis
      using calls_run.dropped [of m 3 2 "others ms1" active' ended' ?key] o None
      by (auto simp: client_leave_def m client_guard_drop_def)
  next
    case (Some x)
    let ?ls = "[hc_service cl, verb, result_label x]"
    obtain ms2 where 2: "call_record m ?ls secs (others ms1) = Some ms2" "calls_counted m 3 2 ms2 active' (ended' @ [(?ls, secs)])"
      using record_counted [OF counted(1) _ assms(5,6), of ?ls] by auto
    obtain ms' where "call_leave m ?key ms2 = Some ms'" using leave_counted [OF 2(2) counted(2)] .
    then show ?thesis
      using calls_run.ends [of m 3 2 "others ms1" active' ended' ?key ?ls secs ms2 ms'] o assms(5,6) Some 2(1)
      by (auto simp: client_leave_def m client_guard_drop_def client_record_def)
  qed
  then show ?thesis
    using enter rb by (auto simp: client_execute_def client_enter_def m client_track_in_flight_def Let_def)
qed

text \<open>A value is decoded only from a successful response within the limit.\<close>

lemma decode_json_limit:
  assumes "decode_json from_slice cl resp = (Inr v, n)"
  shows "200 \<le> cr_status resp \<and> cr_status resp < 300 \<and> n \<le> hc_max_response_bytes cl \<and>
    (\<exists>bytes. cr_body resp = Inr bytes \<and> length bytes = n \<and> from_slice bytes = Inr v)"
  using assms by (auto simp: decode_json_def split: if_splits sum.splits option.splits)

text \<open>The limit does not bound memory: a response without a length is read whole before it is refused.\<close>

lemma oversized_body_buffered:
  assumes "hc_max_response_bytes cl < n"
  shows "\<exists>resp. decode_json from_slice cl resp = (Inl (BodyTooLarge (hc_max_response_bytes cl)), n)"
  using assms
  by (intro exI [of _ "\<lparr>cr_status = 200, cr_content_length = None, cr_body = Inr (replicate n CHR ''x'')\<rparr>"])
    (simp add: decode_json_def)

end
