(* ===== verification/Sse.thy ===== *)
theory Sse
  imports Metrics
begin

text \<open>
  \<open>rest/src/sse.rs\<close>: events in the EventSource format, and the response stream that disconnects clients
  that stop accepting frames. The reader is the one of the EventSource standard: lines end with a line
  feed, a carriage return or both, a blank line dispatches what has been collected.
\<close>

section \<open>Events\<close>

abbreviation cr :: char where
  "cr \<equiv> CHR 0x0D"

record sse_event =
  se_event :: "string option"
  se_data :: "string option"
  se_id :: "string option"
  se_retry :: "duration option"
  se_comment :: "string option"

definition sse_default :: sse_event where
  "sse_default = \<lparr>se_event = None, se_data = None, se_id = None, se_retry = None, se_comment = None\<rparr>"

definition sanitize_single_line :: "string \<Rightarrow> string" where
  "sanitize_single_line v = filter (\<lambda>ch. ch \<noteq> cr \<and> ch \<noteq> newline) v"

definition sse_data :: "string \<Rightarrow> sse_event" where
  "sse_data d = sse_default\<lparr>se_data := Some d\<rparr>"

definition sse_comment :: "string \<Rightarrow> sse_event" where
  "sse_comment c = sse_default\<lparr>se_comment := Some c\<rparr>"

definition sse_with_event :: "string \<Rightarrow> sse_event \<Rightarrow> sse_event" where
  "sse_with_event n e = e\<lparr>se_event := Some (sanitize_single_line n)\<rparr>"

definition sse_with_id :: "string \<Rightarrow> sse_event \<Rightarrow> sse_event" where
  "sse_with_id i e = e\<lparr>se_id := Some (filter (\<lambda>ch. ch \<noteq> CHR 0x00) (sanitize_single_line i))\<rparr>"

definition sse_with_retry :: "duration \<Rightarrow> sse_event \<Rightarrow> sse_event" where
  "sse_with_retry d e = e\<lparr>se_retry := Some d\<rparr>"

definition strip_cr :: "string \<Rightarrow> string" where
  "strip_cr l = (if l \<noteq> [] \<and> last l = cr then butlast l else l)"

definition sse_lines :: "string \<Rightarrow> string list" where
  "sse_lines v = map strip_cr (split_on newline v)"

definition field_line :: "string \<Rightarrow> string \<Rightarrow> string" where
  "field_line prefix v = prefix @ v @ [newline]"

definition sse_encode :: "sse_event \<Rightarrow> string" where
  "sse_encode e =
     (case se_comment e of None \<Rightarrow> [] | Some c \<Rightarrow> concat (map (field_line '': '') (sse_lines c))) @
     (case se_event e of None \<Rightarrow> [] | Some n \<Rightarrow> field_line ''event: '' n) @
     (case se_id e of None \<Rightarrow> [] | Some i \<Rightarrow> field_line ''id: '' i) @
     (case se_retry e of None \<Rightarrow> [] | Some d \<Rightarrow> field_line ''retry: '' (show_nat (as_millis d))) @
     (case se_data e of None \<Rightarrow> [] | Some d \<Rightarrow> concat (map (field_line ''data: '') (sse_lines d))) @ [newline]"

text \<open>The response: its headers, and its body as the frames of the events.\<close>

definition sse_headers :: "(string \<times> string) list" where
  "sse_headers = [(''content-type'', ''text/event-stream''), (''cache-control'', ''no-cache, no-transform''),
     (''x-accel-buffering'', ''no'')]"

definition sse_response :: "sse_event list \<Rightarrow> nat \<times> (string \<times> string) list \<times> string list" where
  "sse_response events = (200, sse_headers, map sse_encode events)"

section \<open>Backpressure\<close>

record sse_policy =
  sy_slow :: duration
  sy_disconnect :: duration

datatype sse_policy_error = ZeroSlowClientThreshold | DisconnectBeforeSlowClient

definition sse_policy_new :: "duration \<Rightarrow> duration \<Rightarrow> sse_policy_error + sse_policy" where
  "sse_policy_new slow disconnect =
     (if slow = 0 then Inl ZeroSlowClientThreshold
      else if disconnect < slow then Inl DisconnectBeforeSlowClient
      else Inr \<lparr>sy_slow = slow, sy_disconnect = disconnect\<rparr>)"

fun sse_policy_error_display :: "sse_policy_error \<Rightarrow> string" where
  "sse_policy_error_display ZeroSlowClientThreshold = ''SSE slow-client threshold must be greater than zero''"
| "sse_policy_error_display DisconnectBeforeSlowClient =
     ''SSE disconnect threshold must be greater than or equal to the slow-client threshold''"

definition sse_metrics_new :: "string \<Rightarrow> metrics \<Rightarrow> (metrics_error + string) \<times> metrics" where
  "sse_metrics_new ns ms =
     counter_vec (vo_with_labels [''decision''] (vo_with_namespace ns
       (vector_options_new ''sse_backpressure_decisions_total'' ''SSE backpressure decisions by outcome''))) ms"

text \<open>\<open>None\<close> is the panic of \<open>expect\<close>.\<close>

definition sse_record :: "string option \<Rightarrow> string \<Rightarrow> metrics \<Rightarrow> metrics option" where
  "sse_record handle decision ms =
     (case handle of
        None \<Rightarrow> Some ms
      | Some h \<Rightarrow>
          (case on_family h (counter_inc [decision]) ms of Some (Inr _, ms') \<Rightarrow> Some ms' | _ \<Rightarrow> None))"

record sse_stream =
  st_policy :: sse_policy
  st_metrics :: "string option"
  st_yielded_at :: "instant option"
  st_done :: bool

definition sse_stream_new :: "sse_policy \<Rightarrow> string option \<Rightarrow> sse_stream" where
  "sse_stream_new p m = \<lparr>st_policy = p, st_metrics = m, st_yielded_at = None, st_done = False\<rparr>"

datatype 'a poll = Pending | ReadyEnd | ReadyItem 'a
datatype frame = Frame string | SseTimedOut

text \<open>
  \<open>poll_next\<close> at time \<open>now\<close>; \<open>source\<close> is what the source answers if it is polled, at time \<open>later\<close>.
\<close>

definition sse_poll_source :: "sse_event poll \<Rightarrow> instant \<Rightarrow> sse_stream \<Rightarrow> frame poll \<times> sse_stream" where
  "sse_poll_source source later s =
     (case source of
        ReadyItem e \<Rightarrow> (ReadyItem (Frame (sse_encode e)), s\<lparr>st_yielded_at := Some later\<rparr>)
      | ReadyEnd \<Rightarrow> (ReadyEnd, s\<lparr>st_done := True\<rparr>)
      | Pending \<Rightarrow> (Pending, s))"

definition sse_poll_next ::
  "instant \<Rightarrow> sse_event poll \<Rightarrow> instant \<Rightarrow> sse_stream \<Rightarrow> metrics \<Rightarrow> ((frame poll \<times> sse_stream) \<times> metrics) option" where
  "sse_poll_next now source later s ms =
     (if st_done s then Some ((ReadyEnd, s), ms)
      else case st_yielded_at s of
        None \<Rightarrow> Some (sse_poll_source source later s, ms)
      | Some y \<Rightarrow>
          let s1 = s\<lparr>st_yielded_at := None\<rparr>; elapsed = now - y in
          if sy_disconnect (st_policy s) \<le> elapsed
          then map_option (\<lambda>ms'. ((ReadyItem SseTimedOut, s1\<lparr>st_done := True\<rparr>), ms'))
            (sse_record (st_metrics s) ''disconnected'' ms)
          else if sy_slow (st_policy s) \<le> elapsed
          then map_option (\<lambda>ms'. (sse_poll_source source later s1, ms')) (sse_record (st_metrics s) ''slow'' ms)
          else Some (sse_poll_source source later s1, ms))"

definition sse_response_with_backpressure ::
  "sse_policy \<Rightarrow> string option \<Rightarrow> nat \<times> (string \<times> string) list \<times> sse_stream" where
  "sse_response_with_backpressure p m = (200, sse_headers, sse_stream_new p m)"

section \<open>The reader of the standard\<close>

function es_lines :: "string \<Rightarrow> string list" where
  "es_lines [] = [[]]"
| "es_lines (ch # cs) =
     (if ch = newline then [] # es_lines cs
      else if ch = cr then [] # es_lines (case cs of [] \<Rightarrow> [] | d # ds \<Rightarrow> if d = newline then ds else cs)
      else case es_lines cs of [] \<Rightarrow> [[ch]] | l # ls \<Rightarrow> (ch # l) # ls)"
  by pat_completeness auto
termination by (relation "measure length") (auto split: list.split)

record message =
  ms_type :: string
  ms_data :: string
  ms_id :: string

record es_state =
  ev_type :: string
  ev_data :: string
  ev_id :: string
  ev_retry :: "nat option"
  ev_out :: "message list"

definition es_start :: es_state where
  "es_start = \<lparr>ev_type = [], ev_data = [], ev_id = [], ev_retry = None, ev_out = []\<rparr>"

definition es_dispatch :: "es_state \<Rightarrow> es_state" where
  "es_dispatch s =
     (if ev_data s = [] then s\<lparr>ev_type := []\<rparr>
      else s\<lparr>ev_type := [], ev_data := [], ev_out := ev_out s @
        [\<lparr>ms_type = (if ev_type s = [] then ''message'' else ev_type s), ms_data = butlast (ev_data s), ms_id = ev_id s\<rparr>]\<rparr>)"

definition read_nat :: "string \<Rightarrow> nat option" where
  "read_nat v =
     (if v \<noteq> [] \<and> list_all (\<lambda>ch. 48 \<le> (of_char ch :: nat) \<and> (of_char ch :: nat) \<le> 57) v
      then Some (fold (\<lambda>ch acc. acc * 10 + (of_char ch - 48)) v 0) else None)"

definition es_field :: "string \<Rightarrow> string \<Rightarrow> es_state \<Rightarrow> es_state" where
  "es_field n v s =
     (if n = ''event'' then s\<lparr>ev_type := v\<rparr>
      else if n = ''data'' then s\<lparr>ev_data := ev_data s @ v @ [newline]\<rparr>
      else if n = ''id'' then (if CHR 0x00 \<in> set v then s else s\<lparr>ev_id := v\<rparr>)
      else if n = ''retry'' then (case read_nat v of None \<Rightarrow> s | Some r \<Rightarrow> s\<lparr>ev_retry := Some r\<rparr>)
      else s)"

definition es_line :: "string \<Rightarrow> es_state \<Rightarrow> es_state" where
  "es_line l s =
     (if l = [] then es_dispatch s
      else if hd l = CHR '':'' then s
      else es_field (takeWhile (\<lambda>ch. ch \<noteq> CHR '':'') l)
        (case dropWhile (\<lambda>ch. ch \<noteq> CHR '':'') l of
           [] \<Rightarrow> [] | _ # v \<Rightarrow> (case v of [] \<Rightarrow> [] | ch # w \<Rightarrow> if ch = CHR '' '' then w else v)) s)"

text \<open>What follows the last line end is not a line yet.\<close>

definition es_read :: "string \<Rightarrow> es_state \<Rightarrow> es_state" where
  "es_read text s = fold es_line (butlast (es_lines text)) s"

text \<open>What the reader should make of an event.\<close>

definition es_deliver :: "sse_event \<Rightarrow> es_state \<Rightarrow> es_state" where
  "es_deliver e s =
     (let i = (case se_id e of None \<Rightarrow> ev_id s | Some i \<Rightarrow> i) in
      s\<lparr>ev_id := i, ev_retry := (case se_retry e of None \<Rightarrow> ev_retry s | Some d \<Rightarrow> Some (as_millis d)),
        ev_out := ev_out s @
          (case se_data e of
             None \<Rightarrow> []
           | Some d \<Rightarrow>
               [\<lparr>ms_type = (case se_event e of None \<Rightarrow> ''message'' | Some n \<Rightarrow> if n = [] then ''message'' else n),
                 ms_data = join_with [newline] (sse_lines d), ms_id = i\<rparr>])\<rparr>)"

section \<open>Events arrive as they were sent\<close>

text \<open>The text of data and comments has carriage returns only at the end of its lines.\<close>

definition crlf_text :: "string \<Rightarrow> bool" where
  "crlf_text v \<longleftrightarrow> (\<forall>l \<in> set (sse_lines v). cr \<notin> set l)"

definition sse_clean :: "sse_event \<Rightarrow> bool" where
  "sse_clean e \<longleftrightarrow>
     (\<forall>n. se_event e = Some n \<longrightarrow> cr \<notin> set n \<and> newline \<notin> set n) \<and>
     (\<forall>i. se_id e = Some i \<longrightarrow> cr \<notin> set i \<and> newline \<notin> set i \<and> CHR 0x00 \<notin> set i) \<and>
     (\<forall>d. se_data e = Some d \<longrightarrow> crlf_text d) \<and> (\<forall>c. se_comment e = Some c \<longrightarrow> crlf_text c)"

text \<open>The constructors keep names and identifiers on one line.\<close>

lemma sse_clean_built:
  "crlf_text d \<Longrightarrow> sse_clean (sse_data d)" "crlf_text d \<Longrightarrow> sse_clean (sse_comment d)"
  "sse_clean e \<Longrightarrow> sse_clean (sse_with_event n e)" "sse_clean e \<Longrightarrow> sse_clean (sse_with_id i e)"
  "sse_clean e \<Longrightarrow> sse_clean (sse_with_retry r e)"
  by (simp_all add: sse_clean_def sse_data_def sse_comment_def sse_default_def sse_with_event_def sse_with_id_def
      sse_with_retry_def sanitize_single_line_def)

text \<open>What an application can build.\<close>

inductive sse_built :: "sse_event \<Rightarrow> bool" where
  data: "crlf_text d \<Longrightarrow> sse_built (sse_data d)"
| comment: "crlf_text c \<Longrightarrow> sse_built (sse_comment c)"
| event: "sse_built e \<Longrightarrow> sse_built (sse_with_event n e)"
| id: "sse_built e \<Longrightarrow> sse_built (sse_with_id i e)"
| retry: "sse_built e \<Longrightarrow> sse_built (sse_with_retry r e)"

lemma sse_built_clean: "sse_built e \<Longrightarrow> sse_clean e"
  by (induction rule: sse_built.induct) (simp_all add: sse_clean_built)

lemma es_lines_split: "cr \<notin> set v \<Longrightarrow> es_lines v = split_on newline v"
  by (induction v rule: es_lines.induct) auto

lemma set_strip_cr: "x \<in> set (strip_cr l) \<Longrightarrow> x \<in> set l"
  by (auto simp: strip_cr_def dest: in_set_butlastD split: if_splits)

lemma newline_sse_lines: "l \<in> set (sse_lines v) \<Longrightarrow> newline \<notin> set l"
  by (auto simp: sse_lines_def dest!: set_strip_cr split_on_parts)

text \<open>An event is a block of lines, the last one blank.\<close>

definition event_lines :: "sse_event \<Rightarrow> string list" where
  "event_lines e =
     (case se_comment e of None \<Rightarrow> [] | Some c \<Rightarrow> map ((@) '': '') (sse_lines c)) @
     (case se_event e of None \<Rightarrow> [] | Some n \<Rightarrow> [''event: '' @ n]) @
     (case se_id e of None \<Rightarrow> [] | Some i \<Rightarrow> [''id: '' @ i]) @
     (case se_retry e of None \<Rightarrow> [] | Some d \<Rightarrow> [''retry: '' @ show_nat (as_millis d)]) @
     (case se_data e of None \<Rightarrow> [] | Some d \<Rightarrow> map ((@) ''data: '') (sse_lines d)) @ [[]]"

lemma sse_encode_lines: "sse_encode e = concat (map (\<lambda>l. l @ [newline]) (event_lines e))"
  by (simp add: sse_encode_def event_lines_def field_line_def [abs_def] comp_def split: option.split)

lemma event_lines_clean:
  assumes "sse_clean e" "l \<in> set (event_lines e)"
  shows "newline \<notin> set l" "cr \<notin> set l"
proof -
  have digits: "cr \<notin> set (show_nat n)" for n
  proof
    assume "cr \<in> set (show_nat n)"
    then obtain d where "d < 10" "cr = digit_char d" using show_nat_digits by blast
    then have "(of_char cr :: nat) = 48 + d" by (simp add: digit_char_def)
    then show False by simp
  qed
  show "newline \<notin> set l" "cr \<notin> set l"
    using assms newline_sse_lines digits
    by (cases "se_comment e"; cases "se_data e"; force simp: event_lines_def sse_clean_def crlf_text_def split: option.splits)+
qed

lemma es_read_blocks:
  assumes "\<forall>l \<in> set ls. newline \<notin> set l \<and> cr \<notin> set l"
  shows "es_read (concat (map (\<lambda>l. l @ [newline]) ls)) s = fold es_line ls s"
proof -
  have "cr \<notin> set (concat (map (\<lambda>l. l @ [newline]) ls))" using assms by auto
  then show ?thesis using assms by (simp add: es_read_def es_lines_split split_lines)
qed

lemma es_line_comment: "es_line (CHR '':'' # l) s = s"
  by (simp add: es_line_def)

lemma es_line_fields:
  "es_line (''event: '' @ v) s = es_field ''event'' v s" "es_line (''id: '' @ v) s = es_field ''id'' v s"
  "es_line (''retry: '' @ v) s = es_field ''retry'' v s" "es_line (''data: '' @ v) s = es_field ''data'' v s"
  by (simp_all add: es_line_def)

lemmas es_line_simps = es_line_fields [simplified]

lemma fold_comments: "fold es_line (map ((@) '': '') ls) s = s"
  by (induction ls) (simp_all add: es_line_comment)

lemma fold_data:
  "fold es_line (map ((@) ''data: '') ls) s = s\<lparr>ev_data := ev_data s @ concat (map (\<lambda>l. l @ [newline]) ls)\<rparr>"
  by (induction ls arbitrary: s) (simp_all add: es_line_simps es_field_def)

lemma butlast_lines: "ls \<noteq> [] \<Longrightarrow> butlast (concat (map (\<lambda>l. l @ [newline]) ls)) = join_with [newline] ls"
proof (induction "[newline]" ls rule: join_with.induct)
  case (3 p q ps)
  then show ?case by (simp add: butlast_append)
qed simp_all

lemma read_show_nat: "read_nat (show_nat n) = Some n"
proof -
  have "fold (\<lambda>ch acc. acc * 10 + (of_char ch - 48)) (show_nat n) 0 = (n :: nat)"
  proof (induction n rule: show_nat.induct)
    case (1 n)
    then show ?case
      by (subst show_nat.simps) (auto simp: digit_char_def)
  qed
  moreover have "list_all (\<lambda>ch. 48 \<le> (of_char ch :: nat) \<and> (of_char ch :: nat) \<le> 57) (show_nat n)"
    by (auto simp: list_all_iff digit_char_def dest!: show_nat_digits)
  ultimately show ?thesis by (simp add: read_nat_def)
qed

lemma event_lines_read:
  assumes "sse_clean e" "ev_type s = []" "ev_data s = []"
  shows "fold es_line (event_lines e) s = es_deliver e s"
proof -
  have nonempty: "sse_lines d \<noteq> []" for d by (simp add: sse_lines_def)
  have "concat (map (\<lambda>l. l @ [newline]) (sse_lines d)) \<noteq> []" for d
    using nonempty [of d] by (cases "sse_lines d") auto
  moreover have "CHR 0x00 \<notin> set i" if "se_id e = Some i" for i using assms(1) that by (simp add: sse_clean_def)
  moreover have "es_line [] = es_dispatch" by (simp add: fun_eq_iff es_line_def)
  ultimately show ?thesis
    using assms(2,3) nonempty
    by (simp add: event_lines_def es_deliver_def fold_comments fold_data es_line_simps es_field_def read_show_nat
        es_dispatch_def butlast_lines Let_def split: option.split)
qed

text \<open>
  C38. What is sent is what a browser gets. When the text of data and comments has carriage returns only
  in front of line feeds, a reader of the EventSource standard that receives the frames of any number of
  events dispatches exactly one message for each event with data, with its name, its lines and the
  identifier last set, and none for heartbeats; names and identifiers cannot add lines whatever they
  contain.
\<close>

theorem sse_stream_roundtrip:
  assumes "list_all sse_built events"
  shows "es_read (concat (map sse_encode events)) es_start = fold es_deliver events es_start"
proof -
  have clean: "list_all sse_clean events" using assms sse_built_clean by (auto simp: list_all_iff)
  let ?ls = "concat (map event_lines events)"
  have "fold es_line ?ls s = fold es_deliver events s" if "ev_type s = []" "ev_data s = []" for s
    using clean that
  proof (induction events arbitrary: s)
    case (Cons e events)
    then show ?case by (simp add: event_lines_read) (simp add: es_deliver_def Let_def)
  qed simp
  moreover have "concat (map sse_encode events) = concat (map (\<lambda>l. l @ [newline]) ?ls)"
    by (induction events) (simp_all add: sse_encode_lines)
  moreover have "\<forall>l \<in> set ?ls. newline \<notin> set l \<and> cr \<notin> set l"
    using clean event_lines_clean by (auto simp: list_all_iff)
  ultimately show ?thesis by (simp add: es_read_blocks es_start_def)
qed

theorem sse_stream_roundtrip_witness:
  "es_read (concat (map sse_encode [sse_with_event (''a'' @ [newline]) (sse_with_id ''7'' (sse_data (''x'' @ [newline] @ ''y''))),
      sse_comment ''ping'', sse_data ''z''])) es_start =
   \<lparr>ev_type = [], ev_data = [], ev_id = ''7'', ev_retry = None, ev_out =
     [\<lparr>ms_type = ''a'', ms_data = ''x'' @ [newline] @ ''y'', ms_id = ''7''\<rparr>,
      \<lparr>ms_type = ''message'', ms_data = ''z'', ms_id = ''7''\<rparr>]\<rparr>"
proof -
  let ?es = "[sse_with_event (''a'' @ [newline]) (sse_with_id ''7'' (sse_data (''x'' @ [newline] @ ''y''))),
      sse_comment ''ping'', sse_data ''z'']"
  have "list_all sse_built ?es"
    by (simp add: sse_built.intros crlf_text_def sse_lines_def strip_cr_def)
  from sse_stream_roundtrip [OF this] show ?thesis
    by (simp add: es_deliver_def es_start_def sse_with_event_def sse_with_id_def sse_data_def sse_comment_def
        sse_default_def sanitize_single_line_def sse_lines_def strip_cr_def Let_def)
qed

text \<open>A carriage return inside a line of data ends the line for the reader: the rest is read as a field.\<close>

lemma carriage_return_injects:
  "ev_out (es_read (sse_encode (sse_data (''x'' @ [cr] @ ''event: admin''))) es_start) =
     [\<lparr>ms_type = ''admin'', ms_data = ''x'', ms_id = []\<rparr>]"
  by (simp add: sse_encode_def sse_data_def sse_default_def sse_lines_def strip_cr_def field_line_def es_read_def
      es_line_def es_field_def es_dispatch_def es_start_def)

section \<open>When a client is dropped\<close>

text \<open>
  A stream fails exactly when its consumer has let the configured time pass since it took the last frame:
  the time the source takes is not counted, because a poll that finds nothing forgets when the last frame
  was taken. A stream that has failed or ended stays ended. With metrics registered for it no poll panics.
\<close>

lemma sse_disconnects_iff:
  assumes "sse_poll_next now source later s ms = Some ((out, s'), ms')"
  shows "out = ReadyItem SseTimedOut \<longleftrightarrow>
    \<not> st_done s \<and> (\<exists>y. st_yielded_at s = Some y \<and> sy_disconnect (st_policy s) \<le> now - y)"
  using assms
  by (auto simp: sse_poll_next_def sse_poll_source_def Let_def split: if_splits option.splits poll.splits)

lemma sse_source_idle_free:
  assumes "sse_poll_next now Pending later s ms = Some ((Pending, s'), ms')"
    and "sse_poll_next now' source later' s' ms' = Some ((out, s''), ms'')"
  shows "out \<noteq> ReadyItem SseTimedOut"
  using assms
  by (auto simp: sse_poll_next_def sse_poll_source_def Let_def split: if_splits option.splits poll.splits)

lemma sse_ended_stays:
  assumes "sse_poll_next now source later s ms = Some ((out, s'), ms')" "out = ReadyEnd \<or> out = ReadyItem SseTimedOut"
  shows "sse_poll_next now' source' later' s' ms' = Some ((ReadyEnd, s'), ms')"
  using assms
  by (auto simp: sse_poll_next_def sse_poll_source_def Let_def split: if_splits option.splits poll.splits)

lemma sse_record_ok:
  assumes "map_of ms h = Some f" "family_ok f" "mf_kind f = CounterKind" "length (mf_labels f) = 1"
  shows "\<exists>ms'. sse_record (Some h) decision ms = Some ms'"
  using assms
  by (cases "mf_values f")
    (auto simp: sse_record_def on_family_def counter_inc_def counter_add_def f_finite_def validate_labels_def family_ok_def)

end
