(* ===== verification/Static_Assets.thy ===== *)
theory Static_Assets
  imports Prelude
begin

text \<open>
  \<open>rest/src/static_assets.rs\<close>: files from a directory, embedded assets, or both, as the fallback of a
  server. Paths are lists of bytes; a path of the file system is the list of its components. What the file
  system answers is a parameter.
\<close>

section \<open>Paths\<close>

text \<open>\<open>Path::components\<close> of a relative path: separators are collapsed, a dot counts only in front.\<close>

datatype component = Normal string | CurDir | ParentDir

fun component_of :: "string \<Rightarrow> component" where
  "component_of p = (if p = ''.'' then CurDir else if p = ''..'' then ParentDir else Normal p)"

definition components :: "string \<Rightarrow> component list" where
  "components path =
     (case split_on CHR ''/'' path of
        [] \<Rightarrow> []
      | p # ps \<Rightarrow> map component_of ((if p = [] then [] else [p]) @ filter (\<lambda>q. q \<noteq> [] \<and> q \<noteq> ''.'') ps))"

fun normal_parts :: "component list \<Rightarrow> string list option" where
  "normal_parts [] = Some []"
| "normal_parts (Normal p # cs) = map_option (\<lambda>ps. p # ps) (normal_parts cs)"
| "normal_parts (CurDir # cs) = normal_parts cs"
| "normal_parts (ParentDir # cs) = None"

definition normalize_path :: "string \<Rightarrow> string option" where
  "normalize_path path =
     (if CHR 0x00 \<in> set path \<or> CHR 0x5C \<in> set path then None
      else map_option (join_with ''/'') (normal_parts (components (dropWhile (\<lambda>ch. ch = CHR ''/'') path))))"

text \<open>\<open>Path::extension\<close> of a normalized path: what follows the last dot of its last component, unless the dot is first.\<close>

definition extension :: "string \<Rightarrow> string option" where
  "extension path =
     (let file = last (split_on CHR ''/'' path); parts = split_on CHR ''.'' file in
      if length parts = 1 \<or> butlast parts = [[]] then None else Some (last parts))"

definition ascii_lower :: "char \<Rightarrow> char" where
  "ascii_lower ch = (let b = of_char ch :: nat in if 65 \<le> b \<and> b \<le> 90 then char_of (b + 32) else ch)"

definition content_type :: "string \<Rightarrow> string" where
  "content_type path =
     (case map_option (map ascii_lower) (extension path) of
        None \<Rightarrow> ''application/octet-stream''
      | Some x \<Rightarrow>
          if x \<in> {''html'', ''htm''} then ''text/html; charset=utf-8''
          else if x = ''css'' then ''text/css; charset=utf-8''
          else if x \<in> {''js'', ''mjs''} then ''text/javascript; charset=utf-8''
          else if x \<in> {''json'', ''map''} then ''application/json''
          else if x = ''txt'' then ''text/plain; charset=utf-8''
          else if x = ''svg'' then ''image/svg+xml''
          else if x = ''png'' then ''image/png''
          else if x \<in> {''jpg'', ''jpeg''} then ''image/jpeg''
          else if x = ''gif'' then ''image/gif''
          else if x = ''webp'' then ''image/webp''
          else if x = ''ico'' then ''image/x-icon''
          else if x = ''woff'' then ''font/woff''
          else if x = ''woff2'' then ''font/woff2''
          else if x = ''wasm'' then ''application/wasm''
          else if x = ''xml'' then ''application/xml''
          else if x = ''pdf'' then ''application/pdf''
          else ''application/octet-stream'')"

section \<open>Assets\<close>

record embedded_asset =
  ea_body :: string
  ea_content_type :: string

definition asset_new :: "string \<Rightarrow> string \<Rightarrow> embedded_asset" where
  "asset_new body ct = \<lparr>ea_body = body, ea_content_type = ct\<rparr>"

definition asset_inferred :: "string \<Rightarrow> embedded_asset" where
  "asset_inferred body = asset_new body []"

datatype static_error = DirectoryError string string | InvalidPath string | DuplicatePath string | InvalidIndex

fun static_error_display :: "static_error \<Rightarrow> string" where
  "static_error_display (DirectoryError path source) = ''cannot use static directory '' @ path @ '': '' @ source"
| "static_error_display (InvalidPath path) = ''invalid embedded asset path: '' @ path"
| "static_error_display (DuplicatePath path) = ''duplicate embedded asset path: '' @ path"
| "static_error_display InvalidIndex = ''static index file must be a single file name''"

record static_assets =
  sa_directory :: "string list option"
  sa_embedded :: "(string, embedded_asset) hmap"
  sa_index_file :: string

definition static_default :: static_assets where
  "static_default = \<lparr>sa_directory = None, sa_embedded = [], sa_index_file = ''index.html''\<rparr>"

text \<open>The file system: canonical paths, whether a path is a regular file, contents.\<close>

record file_system =
  fs_canonicalize :: "string list \<Rightarrow> string + string list"
  fs_is_dir :: "string list \<Rightarrow> bool"
  fs_is_file :: "string list \<Rightarrow> bool option"
  fs_read :: "string list \<Rightarrow> string option"

definition static_directory :: "file_system \<Rightarrow> string \<Rightarrow> string list \<Rightarrow> static_error + static_assets" where
  "static_directory fs shown supplied =
     (case fs_canonicalize fs supplied of
        Inl e \<Rightarrow> Inl (DirectoryError shown e)
      | Inr canonical \<Rightarrow>
          if \<not> fs_is_dir fs canonical then Inl (DirectoryError shown ''path is not a directory'')
          else Inr (static_default\<lparr>sa_directory := Some canonical\<rparr>))"

definition static_insert :: "string \<Rightarrow> embedded_asset \<Rightarrow> static_assets \<Rightarrow> static_error + static_assets" where
  "static_insert path asset a =
     (case normalize_path path of
        None \<Rightarrow> Inl (InvalidPath path)
      | Some n \<Rightarrow>
          if map_of (sa_embedded a) n \<noteq> None then Inl (DuplicatePath n)
          else Inr (a\<lparr>sa_embedded := AList.update n asset (sa_embedded a)\<rparr>))"

fun insert_assets :: "(string \<times> embedded_asset) list \<Rightarrow> static_assets \<Rightarrow> static_error + static_assets" where
  "insert_assets [] a = Inr a"
| "insert_assets ((path, asset) # rest) a = and_then (static_insert path asset a) (insert_assets rest)"

definition static_embedded :: "(string \<times> embedded_asset) list \<Rightarrow> static_error + static_assets" where
  "static_embedded xs = insert_assets xs static_default"

definition with_embedded :: "string \<Rightarrow> embedded_asset \<Rightarrow> static_assets \<Rightarrow> static_error + static_assets" where
  "with_embedded path asset a = static_insert path asset a"

definition with_index_file :: "string \<Rightarrow> static_assets \<Rightarrow> static_error + static_assets" where
  "with_index_file n a =
     (if normalize_path n \<noteq> Some n \<or> CHR ''/'' \<in> set n then Inl InvalidIndex
      else Inr (a\<lparr>sa_index_file := n\<rparr>))"

section \<open>Serving\<close>

datatype verb = Get | Head | OtherVerb

datatype reply = NotFound | Found string nat string  \<comment> \<open>content type, content length, body\<close>

definition static_response :: "verb \<Rightarrow> string \<Rightarrow> string \<Rightarrow> reply" where
  "static_response v body ct = Found ct (length body) (if v = Head then [] else body)"

definition starts_with :: "string list \<Rightarrow> string list \<Rightarrow> bool" where
  "starts_with path root = (take (length root) path = root)"

text \<open>The key of a request: its normalized path, completed with the index file.\<close>

definition request_key :: "static_assets \<Rightarrow> string \<Rightarrow> string option" where
  "request_key a path =
     map_option (\<lambda>p.
       if path \<noteq> [] \<and> last path = CHR ''/'' \<or> p = [] then (if p = [] then [] else p @ ''/'') @ sa_index_file a else p)
       (normalize_path path)"

definition serve_file :: "file_system \<Rightarrow> string list \<Rightarrow> verb \<Rightarrow> string \<Rightarrow> reply" where
  "serve_file fs root v p =
     (case fs_canonicalize fs (root @ split_on CHR ''/'' p) of
        Inl _ \<Rightarrow> NotFound
      | Inr canonical \<Rightarrow>
          if \<not> starts_with canonical root then NotFound
          else case fs_is_file fs canonical of
            None \<Rightarrow> NotFound
          | Some file \<Rightarrow>
              if \<not> file then NotFound
              else case fs_read fs canonical of
                None \<Rightarrow> NotFound
              | Some body \<Rightarrow> static_response v body (content_type p))"

definition static_serve :: "file_system \<Rightarrow> static_assets \<Rightarrow> verb \<Rightarrow> string \<Rightarrow> reply" where
  "static_serve fs a v path =
     (if v \<noteq> Get \<and> v \<noteq> Head then NotFound
      else case request_key a path of
        None \<Rightarrow> NotFound
      | Some p \<Rightarrow>
          (case map_of (sa_embedded a) p of
             Some asset \<Rightarrow>
               static_response v (ea_body asset) (if ea_content_type asset = [] then content_type p else ea_content_type asset)
           | None \<Rightarrow> (case sa_directory a of None \<Rightarrow> NotFound | Some root \<Rightarrow> serve_file fs root v p)))"

section \<open>Safety\<close>

definition plain_part :: "string \<Rightarrow> bool" where
  "plain_part p \<longleftrightarrow> p \<noteq> [] \<and> p \<noteq> ''.'' \<and> p \<noteq> ''..'' \<and> CHR ''/'' \<notin> set p"

lemma normal_parts_Normal: "normal_parts cs = Some ps \<Longrightarrow> Normal ` set ps \<subseteq> set cs"
  by (induction cs arbitrary: ps rule: normal_parts.induct) fastforce+

lemma components_plain:
  assumes "normal_parts (components path) = Some ps"
  shows "list_all plain_part ps"
proof -
  have "plain_part p" if "Normal p \<in> set (components path)" for p
  proof -
    have "p \<noteq> [] \<and> p \<in> set (split_on CHR ''/'' path) \<and> p \<noteq> ''.'' \<and> p \<noteq> ''..''"
      using that by (cases "split_on CHR ''/'' path") (auto simp: components_def split: if_splits)
    then show ?thesis using split_on_parts [of p "CHR ''/''" path] by (auto simp: plain_part_def)
  qed
  then show ?thesis using normal_parts_Normal [OF assms] by (auto simp: list_all_iff)
qed

lemma normalize_path_parts:
  assumes "normalize_path path = Some p"
  obtains ps where "p = join_with ''/'' ps" "list_all plain_part ps"
  using assms components_plain by (auto simp: normalize_path_def split: if_splits)

text \<open>What is built: a root that is canonical, keys that are normalized, an index that is a name or empty.\<close>

inductive static_built :: "file_system \<Rightarrow> static_assets \<Rightarrow> bool" for fs where
  default: "static_built fs static_default"
| directory: "static_directory fs shown supplied = Inr a \<Longrightarrow> static_built fs a"
| insert: "static_built fs a \<Longrightarrow> static_insert path asset a = Inr a' \<Longrightarrow> static_built fs a'"
| index: "static_built fs a \<Longrightarrow> with_index_file n a = Inr a' \<Longrightarrow> static_built fs a'"

lemma static_built_index:
  "static_built fs a \<Longrightarrow> CHR ''/'' \<notin> set (sa_index_file a) \<and> sa_index_file a \<noteq> ''..''"
proof (induction rule: static_built.induct)
  case (index a n a')
  have "normalize_path ''..'' = None"
    by (simp add: normalize_path_def components_def)
  with index show ?case by (auto simp: with_index_file_def split: if_splits)
qed (auto simp: static_default_def static_directory_def static_insert_def split: sum.splits option.splits if_splits)

lemma split_on_snoc: "c \<notin> set q \<Longrightarrow> split_on c (p @ c # q) = split_on c p @ [q]"
  by (induction p) (auto simp: split_on_no_sep split: list.splits)

lemma split_on_normalized:
  assumes "normalize_path path = Some p"
  shows "''..'' \<notin> set (split_on CHR ''/'' p)"
proof -
  obtain ps where ps: "p = join_with ''/'' ps" "list_all plain_part ps" using normalize_path_parts [OF assms] .
  show ?thesis
  proof (cases "ps = []")
    case False
    then have "split_on CHR ''/'' p = ps"
      using ps split_join [of ps "CHR ''/''"] by (auto simp: plain_part_def list_all_iff)
    then show ?thesis using ps(2) by (auto simp: plain_part_def list_all_iff)
  qed (simp add: ps)
qed

lemma request_key_parts:
  assumes "static_built fs a" "request_key a path = Some p"
  shows "''..'' \<notin> set (split_on CHR ''/'' p)"
proof -
  obtain n where n: "normalize_path path = Some n" "p = n \<or> p = sa_index_file a \<or> p = n @ CHR ''/'' # sa_index_file a"
    using assms(2) by (auto simp: request_key_def split: if_splits)
  have i: "CHR ''/'' \<notin> set (sa_index_file a)" "sa_index_file a \<noteq> ''..''" using static_built_index [OF assms(1)] by auto
  show ?thesis using n(2) split_on_normalized [OF n(1)] i by (auto simp: split_on_snoc split_on_no_sep)
qed

text \<open>
  C36. No request leaves the root. Whatever the path of a request, the links of the file system and the
  assets, an answer with content is to a GET or HEAD, it names the length of the content, which a HEAD
  leaves out, and the content is an embedded asset or that of a regular file whose canonical path lies
  under the root, reached by a path from the root that never steps up.
\<close>

theorem static_assets_contained:
  assumes "static_built fs a" "static_serve fs a v path = Found ct len body"
  shows "\<exists>p content. request_key a path = Some p \<and> v \<in> {Get, Head} \<and> len = length content \<and>
    body = (if v = Head then [] else content) \<and>
    ((\<exists>asset. map_of (sa_embedded a) p = Some asset \<and> content = ea_body asset) \<or>
     (\<exists>root parts canonical. sa_directory a = Some root \<and> ''..'' \<notin> set parts \<and>
        fs_canonicalize fs (root @ parts) = Inr canonical \<and> (\<exists>rest. canonical = root @ rest) \<and>
        fs_is_file fs canonical = Some True \<and> fs_read fs canonical = Some content))"
proof -
  obtain p where p: "request_key a path = Some p" and v: "v \<in> {Get, Head}"
    using assms(2) by (auto simp: static_serve_def split: if_splits option.splits)
  show ?thesis
  proof (cases "map_of (sa_embedded a) p")
    case (Some asset)
    then show ?thesis
      using assms(2) p v by (auto simp: static_serve_def static_response_def)
  next
    case None
    then obtain root where root: "sa_directory a = Some root" and f: "serve_file fs root v p = Found ct len body"
      using assms(2) p v by (auto simp: static_serve_def split: option.splits)
    then obtain canonical content where c: "fs_canonicalize fs (root @ split_on CHR ''/'' p) = Inr canonical"
      "starts_with canonical root" "fs_is_file fs canonical = Some True" "fs_read fs canonical = Some content"
      "len = length content" "body = (if v = Head then [] else content)"
      by (auto simp: serve_file_def static_response_def split: sum.splits option.splits if_splits)
    moreover have "\<exists>rest. canonical = root @ rest"
      using c(2) unfolding starts_with_def by (metis append_take_drop_id)
    ultimately show ?thesis
      using p v root request_key_parts [OF assms(1) p] by blast
  qed
qed

theorem static_assets_contained_witness:
  "\<exists>fs a root canonical rest. static_serve fs a Get ''/./b'' = Found ''application/octet-stream'' 2 ''hi'' \<and>
     sa_directory a = Some root \<and> canonical = root @ rest \<and> fs_read fs canonical = Some ''hi''"
proof -
  let ?fs = "\<lparr>fs_canonicalize = Inr, fs_is_dir = (\<lambda>_. True), fs_is_file = (\<lambda>_. Some True), fs_read = (\<lambda>_. Some ''hi'')\<rparr>"
  let ?a = "static_default\<lparr>sa_directory := Some [''srv'']\<rparr>"
  have "static_directory ?fs [] [''srv''] = Inr ?a" by (simp add: static_directory_def)
  then have built: "static_built ?fs ?a" by (rule static_built.directory)
  have served: "static_serve ?fs ?a Get ''/./b'' = Found ''application/octet-stream'' 2 ''hi''"
    by (simp add: static_serve_def request_key_def normalize_path_def components_def static_default_def serve_file_def
        starts_with_def static_response_def content_type_def extension_def Let_def)
  from static_assets_contained [OF built served] obtain root canonical rest where
    "sa_directory ?a = Some root" "canonical = root @ rest" "fs_read ?fs canonical = Some ''hi''"
    by (auto simp: static_default_def)
  with served show ?thesis by blast
qed

text \<open>An asset is served under the path it was added with.\<close>

lemma embedded_served:
  assumes "static_insert path asset a = Inr a'" "normalize_path path = Some p" "p \<noteq> []" "last path \<noteq> CHR ''/''"
    and "path \<noteq> []"
  shows "static_serve fs a' Get (CHR ''/'' # path) =
    Found (if ea_content_type asset = [] then content_type p else ea_content_type asset) (length (ea_body asset)) (ea_body asset)"
proof -
  have "normalize_path (CHR ''/'' # path) = Some p"
    using assms(2) by (simp add: normalize_path_def split: if_splits)
  moreover have "map_of (sa_embedded a') p = Some asset"
    using assms(1,2) by (auto simp: static_insert_def update_conv split: if_splits)
  ultimately show ?thesis
    using assms(3-5) by (simp add: static_serve_def request_key_def static_response_def)
qed

text \<open>
  What is accepted although it cannot work: an index file without a name, with which every request for a
  directory asks for the directory itself, and an asset under the empty path, which no request reaches
  as long as the index has a name.
\<close>

lemma empty_index_accepted:
  "with_index_file [] a = Inr (a\<lparr>sa_index_file := []\<rparr>) \<and> request_key (a\<lparr>sa_index_file := []\<rparr>) ''/'' = Some []"
  by (simp add: with_index_file_def request_key_def normalize_path_def components_def)

lemma empty_path_unreachable:
  assumes "sa_index_file a \<noteq> []"
  shows "request_key a path \<noteq> Some []"
  using assms by (auto simp: request_key_def split: if_splits)

end
