(* ===== verification/Extract.thy ===== *)
theory Extract
  imports Validation
begin

text \<open>
  \<open>rest/src/extract.rs\<close>: extractors that validate what they parse, and the streaming multipart form with its
  limits. Parsing and the validation of an application type are parameters; a multipart body is the list of
  what the parser yields, each part with its chunks, and a file's chunk with whether it could be stored.
\<close>

section \<open>Failures\<close>

record extraction_error =
  xe_code :: string
  xe_source :: string
  xe_message :: string
  xe_violations :: "violation list"

definition xe_parse :: "string \<Rightarrow> string \<Rightarrow> extraction_error" where
  "xe_parse source e = \<lparr>xe_code = ''invalid_request'', xe_source = source, xe_message = e, xe_violations = []\<rparr>"

definition xe_validation :: "string \<Rightarrow> violation list \<Rightarrow> extraction_error" where
  "xe_validation source vs =
     \<lparr>xe_code = ''validation_failed'', xe_source = source, xe_message = errors_text vs, xe_violations = vs\<rparr>"

definition xe_payload_too_large :: "string \<Rightarrow> extraction_error" where
  "xe_payload_too_large m =
     \<lparr>xe_code = ''payload_too_large'', xe_source = ''multipart'', xe_message = m, xe_violations = []\<rparr>"

definition xe_internal :: "string \<Rightarrow> string \<Rightarrow> extraction_error" where
  "xe_internal source m =
     \<lparr>xe_code = ''request_storage_failed'', xe_source = source, xe_message = m, xe_violations = []\<rparr>"

definition xe_display :: "extraction_error \<Rightarrow> string" where
  "xe_display e = xe_source e @ '' '' @ xe_code e @ '': '' @ xe_message e"

definition xe_status :: "extraction_error \<Rightarrow> nat" where
  "xe_status e =
     (if xe_code e = ''payload_too_large'' then 413 else if xe_code e = ''request_storage_failed'' then 500 else 400)"

section \<open>Validated extractors\<close>

type_synonym 'a validator = "'a \<Rightarrow> violation list + unit"

definition validated :: "string \<Rightarrow> 'a validator \<Rightarrow> string + 'a \<Rightarrow> extraction_error + 'a" where
  "validated source validate parsed =
     (case parsed of
        Inl e \<Rightarrow> Inl (xe_parse source e)
      | Inr v \<Rightarrow> (case validate v of Inl vs \<Rightarrow> Inl (xe_validation source vs) | Inr _ \<Rightarrow> Inr v))"

definition validated_json :: "'a validator \<Rightarrow> string + 'a \<Rightarrow> extraction_error + 'a" where
  "validated_json validate parsed = validated ''body'' validate parsed"

definition validated_query :: "'a validator \<Rightarrow> string + 'a \<Rightarrow> extraction_error + 'a" where
  "validated_query validate parsed = validated ''query'' validate parsed"

definition validated_header :: "'a validator \<Rightarrow> string + 'a \<Rightarrow> extraction_error + 'a" where
  "validated_header validate parsed = validated ''headers'' validate parsed"

definition validated_path :: "'a validator \<Rightarrow> string + 'a \<Rightarrow> extraction_error + 'a" where
  "validated_path validate parsed = validated ''path'' validate parsed"

definition validated_form :: "'a validator \<Rightarrow> string + 'a \<Rightarrow> extraction_error + 'a" where
  "validated_form validate parsed = validated ''form'' validate parsed"

definition validated_request ::
  "'p validator \<Rightarrow> 'q validator \<Rightarrow> 'h validator \<Rightarrow> 'b validator \<Rightarrow>
   string + 'p \<Rightarrow> string + 'q \<Rightarrow> string + 'h \<Rightarrow> string + 'b \<Rightarrow> extraction_error + 'p \<times> 'q \<times> 'h \<times> 'b" where
  "validated_request vp vq vh vb p q h b =
     and_then (validated_path vp p) (\<lambda>p'. and_then (validated_query vq q) (\<lambda>q'.
       and_then (validated_header vh h) (\<lambda>h'. and_then (validated_json vb b) (\<lambda>b'. Inr (p', q', h', b')))))"

section \<open>Multipart forms\<close>

definition usize_max :: nat where
  "usize_max = 2 ^ 64 - 1"

record multipart_config =
  mc_max_field_bytes :: nat
  mc_max_file_bytes :: nat
  mc_max_total_bytes :: nat
  mc_temp_dir :: string

definition multipart_config_default :: "string \<Rightarrow> multipart_config" where
  "multipart_config_default system_temp =
     \<lparr>mc_max_field_bytes = 64 * 1024, mc_max_file_bytes = 32 * 1024 * 1024, mc_max_total_bytes = 64 * 1024 * 1024,
      mc_temp_dir = system_temp\<rparr>"

definition multipart_config_new :: "string \<Rightarrow> nat \<Rightarrow> nat \<Rightarrow> nat \<Rightarrow> multipart_config" where
  "multipart_config_new system_temp field file all =
     (multipart_config_default system_temp)\<lparr>mc_max_field_bytes := field, mc_max_file_bytes := file, mc_max_total_bytes := all\<rparr>"

definition with_temp_dir :: "string \<Rightarrow> multipart_config \<Rightarrow> multipart_config" where
  "with_temp_dir d c = c\<lparr>mc_temp_dir := d\<rparr>"

text \<open>The configuration of a request: shared data, plain data, the default.\<close>

definition request_config :: "string \<Rightarrow> multipart_config option \<Rightarrow> multipart_config option \<Rightarrow> multipart_config" where
  "request_config system_temp shared plain =
     (case shared of
        Some c \<Rightarrow> c
      | None \<Rightarrow> (case plain of Some c \<Rightarrow> c | None \<Rightarrow> multipart_config_default system_temp))"

record uploaded_file =
  uf_field_name :: string
  uf_file_name :: string
  uf_content_type :: "string option"
  uf_size :: nat
  uf_stored :: string  \<comment> \<open>what the file at its path holds\<close>

record multipart_form =
  mf_fields :: "(string, string list) hmap"
  mf_files :: "uploaded_file list"
  mf_total_bytes :: nat

definition form_text_values :: "multipart_form \<Rightarrow> string \<Rightarrow> string list" where
  "form_text_values f n = (case map_of (mf_fields f) n of None \<Rightarrow> [] | Some vs \<Rightarrow> vs)"

definition form_text :: "multipart_form \<Rightarrow> string \<Rightarrow> string option" where
  "form_text f n = Option.bind (map_of (mf_fields f) n) (\<lambda>vs. case vs of [] \<Rightarrow> None | v # _ \<Rightarrow> Some v)"

definition form_files_named :: "multipart_form \<Rightarrow> string \<Rightarrow> uploaded_file list" where
  "form_files_named f n = filter (\<lambda>file. uf_field_name file = n) (mf_files f)"

text \<open>What the multipart parser and the storage do.\<close>

record part_chunk =
  ck_bytes :: "string + string"  \<comment> \<open>a failure of the stream, or bytes\<close>
  ck_written :: bool

record part =
  pt_name :: "string option"
  pt_file_name :: "string option"
  pt_content_type :: "string option"
  pt_created :: bool
  pt_chunks :: "part_chunk list"
  pt_flushed :: bool

definition checked_payload_size :: "nat \<Rightarrow> nat \<Rightarrow> nat \<Rightarrow> string \<Rightarrow> extraction_error + nat" where
  "checked_payload_size current additional limit message =
     (if usize_max < current + additional then Inl (xe_payload_too_large message)
      else if limit < current + additional then Inl (xe_payload_too_large message)
      else Inr (current + additional))"

abbreviation too_large_total :: string where
  "too_large_total \<equiv> ''multipart request exceeds the configured aggregate limit''"

text \<open>The chunks of a file: what was stored, and the bytes of the whole request so far.\<close>

fun file_chunks :: "multipart_config \<Rightarrow> part_chunk list \<Rightarrow> string \<Rightarrow> nat \<Rightarrow> nat \<Rightarrow> extraction_error + string \<times> nat \<times> nat" where
  "file_chunks c [] stored sz total_bytes = Inr (stored, sz, total_bytes)"
| "file_chunks c (ck # cks) stored sz total_bytes =
     (case ck_bytes ck of
        Inl e \<Rightarrow> Inl (xe_parse ''multipart'' e)
      | Inr bytes \<Rightarrow>
          and_then (checked_payload_size sz (length bytes) (mc_max_file_bytes c)
            ''multipart file exceeds the configured limit'') (\<lambda>sz'.
          and_then (checked_payload_size total_bytes (length bytes) (mc_max_total_bytes c) too_large_total) (\<lambda>total'.
            if \<not> ck_written ck then Inl (xe_internal ''multipart'' ''failed to write temporary upload storage'')
            else file_chunks c cks (stored @ bytes) sz' total')))"

fun field_chunks :: "multipart_config \<Rightarrow> part_chunk list \<Rightarrow> string \<Rightarrow> nat \<Rightarrow> extraction_error + string \<times> nat" where
  "field_chunks c [] v total_bytes = Inr (v, total_bytes)"
| "field_chunks c (ck # cks) v total_bytes =
     (case ck_bytes ck of
        Inl e \<Rightarrow> Inl (xe_parse ''multipart'' e)
      | Inr bytes \<Rightarrow>
          and_then (checked_payload_size (length v) (length bytes) (mc_max_field_bytes c)
            ''multipart field exceeds the configured limit'') (\<lambda>_.
          and_then (checked_payload_size total_bytes (length bytes) (mc_max_total_bytes c) too_large_total) (\<lambda>total'.
            field_chunks c cks (v @ bytes) total')))"

definition add_file :: "multipart_config \<Rightarrow> part \<Rightarrow> string \<Rightarrow> string \<Rightarrow> multipart_form \<Rightarrow> extraction_error + multipart_form" where
  "add_file c p n file_name f =
     (if \<not> pt_created p then Inl (xe_internal ''multipart'' ''failed to create temporary upload storage'')
      else and_then (file_chunks c (pt_chunks p) [] 0 (mf_total_bytes f)) (\<lambda>(stored, sz, total_bytes).
        if \<not> pt_flushed p then Inl (xe_internal ''multipart'' ''failed to flush temporary upload storage'')
        else Inr (f\<lparr>mf_files := mf_files f @ [\<lparr>uf_field_name = n, uf_file_name = file_name,
            uf_content_type = pt_content_type p, uf_size = sz, uf_stored = stored\<rparr>], mf_total_bytes := total_bytes\<rparr>)))"

definition add_field :: "multipart_config \<Rightarrow> part \<Rightarrow> string \<Rightarrow> multipart_form \<Rightarrow> extraction_error + multipart_form" where
  "add_field c p n f =
     and_then (field_chunks c (pt_chunks p) [] (mf_total_bytes f)) (\<lambda>(v, total_bytes).
       if \<not> utf8 (map of_char v) then Inl (xe_parse ''multipart'' ''text field is not valid UTF-8'')
       else Inr (f\<lparr>mf_fields := AList.update n (form_text_values f n @ [v]) (mf_fields f), mf_total_bytes := total_bytes\<rparr>))"

definition add_part :: "multipart_config \<Rightarrow> part \<Rightarrow> multipart_form \<Rightarrow> extraction_error + multipart_form" where
  "add_part c p f =
     (case pt_name p of
        None \<Rightarrow> Inl (xe_parse ''multipart'' ''part is missing a content-disposition name'')
      | Some n \<Rightarrow> (case pt_file_name p of Some file_name \<Rightarrow> add_file c p n file_name f | None \<Rightarrow> add_field c p n f))"

fun add_parts :: "multipart_config \<Rightarrow> (string + part) list \<Rightarrow> multipart_form \<Rightarrow> extraction_error + multipart_form" where
  "add_parts c [] f = Inr f"
| "add_parts c (Inl e # ps) f = Inl (xe_parse ''multipart'' e)"
| "add_parts c (Inr p # ps) f = and_then (add_part c p f) (add_parts c ps)"

definition multipart_from_request :: "multipart_config \<Rightarrow> string + (string + part) list \<Rightarrow> extraction_error + multipart_form" where
  "multipart_from_request c extraction =
     (case extraction of
        Inl e \<Rightarrow> Inl (xe_parse ''multipart'' e)
      | Inr parts \<Rightarrow> add_parts c parts \<lparr>mf_fields = [], mf_files = [], mf_total_bytes = 0\<rparr>)"

section \<open>A form is accepted exactly when it is well formed and within its limits\<close>

definition chunk_bytes :: "part_chunk \<Rightarrow> string" where
  "chunk_bytes ck = (case ck_bytes ck of Inl _ \<Rightarrow> [] | Inr b \<Rightarrow> b)"

definition part_bytes :: "part \<Rightarrow> string" where
  "part_bytes p = concat (map chunk_bytes (pt_chunks p))"

definition chunks_read :: "part_chunk list \<Rightarrow> bool" where
  "chunks_read cks \<longleftrightarrow> (\<forall>ck \<in> set cks. \<exists>b. ck_bytes ck = Inr b)"

text \<open>A part that a form should accept, apart from its limits.\<close>

definition part_good :: "part \<Rightarrow> bool" where
  "part_good p \<longleftrightarrow> pt_name p \<noteq> None \<and> chunks_read (pt_chunks p) \<and>
     (if pt_file_name p = None then utf8 (map of_char (part_bytes p))
      else pt_created p \<and> (\<forall>ck \<in> set (pt_chunks p). ck_written ck) \<and> pt_flushed p)"

definition part_limit :: "multipart_config \<Rightarrow> part \<Rightarrow> nat" where
  "part_limit c p = (if pt_file_name p = None then mc_max_field_bytes c else mc_max_file_bytes c)"

definition form_bytes :: "part list \<Rightarrow> nat" where
  "form_bytes ps = sum_list (map (length \<circ> part_bytes) ps)"

text \<open>What the form of accepted parts holds.\<close>

definition files_of :: "part list \<Rightarrow> uploaded_file list" where
  "files_of ps = map (\<lambda>p. \<lparr>uf_field_name = the (pt_name p), uf_file_name = the (pt_file_name p),
     uf_content_type = pt_content_type p, uf_size = length (part_bytes p), uf_stored = part_bytes p\<rparr>)
     (filter (\<lambda>p. pt_file_name p \<noteq> None) ps)"

definition texts_of :: "part list \<Rightarrow> string \<Rightarrow> string list" where
  "texts_of ps n = map part_bytes (filter (\<lambda>p. pt_file_name p = None \<and> pt_name p = Some n) ps)"

definition config_sane :: "multipart_config \<Rightarrow> bool" where
  "config_sane c \<longleftrightarrow> mc_max_field_bytes c \<le> usize_max \<and> mc_max_file_bytes c \<le> usize_max \<and> mc_max_total_bytes c \<le> usize_max"

lemma checked_payload_size_Inr:
  "limit \<le> usize_max \<Longrightarrow> checked_payload_size a b limit m = Inr r \<longleftrightarrow> a + b \<le> limit \<and> r = a + b"
  by (auto simp: checked_payload_size_def)

abbreviation bytes_of :: "part_chunk list \<Rightarrow> string" where
  "bytes_of cks \<equiv> concat (map chunk_bytes cks)"

lemma file_chunks_Inr:
  assumes "config_sane c" "sz \<le> mc_max_file_bytes c" "t \<le> mc_max_total_bytes c"
  shows "file_chunks c cks stored sz t = Inr r \<longleftrightarrow>
    chunks_read cks \<and> (\<forall>ck \<in> set cks. ck_written ck) \<and> sz + length (bytes_of cks) \<le> mc_max_file_bytes c \<and>
    t + length (bytes_of cks) \<le> mc_max_total_bytes c \<and>
    r = (stored @ bytes_of cks, sz + length (bytes_of cks), t + length (bytes_of cks))"
  using assms
proof (induction cks arbitrary: stored sz t)
  case (Cons ck cks)
  show ?case
  proof (cases "ck_bytes ck")
    case (Inr b)
    then have cb: "chunk_bytes ck = b" by (simp add: chunk_bytes_def)
    show ?thesis
    proof (cases "sz + length b \<le> mc_max_file_bytes c \<and> t + length b \<le> mc_max_total_bytes c")
      case True
      then show ?thesis
        using Cons.IH [of "sz + length b" "t + length b" "stored @ b"] Cons.prems Inr
        by (auto simp: and_then_Inr checked_payload_size_Inr config_sane_def chunks_read_def cb add.assoc)
    next
      case False
      then show ?thesis
        using Cons.prems Inr by (auto simp: and_then_Inr checked_payload_size_Inr config_sane_def cb)
    qed
  qed (auto simp: chunks_read_def)
qed (auto simp: chunks_read_def)

lemma field_chunks_Inr:
  assumes "config_sane c" "length v \<le> mc_max_field_bytes c" "t \<le> mc_max_total_bytes c"
  shows "field_chunks c cks v t = Inr r \<longleftrightarrow>
    chunks_read cks \<and> length v + length (bytes_of cks) \<le> mc_max_field_bytes c \<and>
    t + length (bytes_of cks) \<le> mc_max_total_bytes c \<and> r = (v @ bytes_of cks, t + length (bytes_of cks))"
  using assms
proof (induction cks arbitrary: v t)
  case (Cons ck cks)
  show ?case
  proof (cases "ck_bytes ck")
    case (Inr b)
    then have cb: "chunk_bytes ck = b" by (simp add: chunk_bytes_def)
    show ?thesis
    proof (cases "length v + length b \<le> mc_max_field_bytes c \<and> t + length b \<le> mc_max_total_bytes c")
      case True
      then show ?thesis
        using Cons.IH [of "v @ b" "t + length b"] Cons.prems Inr
        by (auto simp: and_then_Inr checked_payload_size_Inr config_sane_def chunks_read_def cb add.assoc)
    next
      case False
      then show ?thesis
        using Cons.prems Inr by (auto simp: and_then_Inr checked_payload_size_Inr config_sane_def cb)
    qed
  qed (auto simp: chunks_read_def)
qed (auto simp: chunks_read_def)

definition part_fits :: "multipart_config \<Rightarrow> part \<Rightarrow> multipart_form \<Rightarrow> bool" where
  "part_fits c p f \<longleftrightarrow> part_good p \<and> length (part_bytes p) \<le> part_limit c p \<and>
     mf_total_bytes f + length (part_bytes p) \<le> mc_max_total_bytes c"

text \<open>One part: accepted exactly when it fits, and what is then added to the form.\<close>

lemma add_part_fits:
  assumes "config_sane c" "mf_total_bytes f \<le> mc_max_total_bytes c"
  shows "(\<exists>f'. add_part c p f = Inr f') \<longleftrightarrow> part_fits c p f"
proof (cases "pt_file_name p")
  case None
  then show ?thesis
    using assms field_chunks_Inr [OF assms(1) _ assms(2), of "[]" "pt_chunks p"]
    by (cases "pt_name p")
      (auto simp: add_part_def add_field_def and_then_Inr part_fits_def part_good_def part_limit_def part_bytes_def)
next
  case (Some file_name)
  then show ?thesis
    using assms file_chunks_Inr [OF assms(1) _ assms(2), of 0 "pt_chunks p" "[]"]
    by (cases "pt_name p")
      (auto simp: add_part_def add_file_def and_then_Inr part_fits_def part_good_def part_limit_def part_bytes_def)
qed

lemma add_part_result:
  assumes "config_sane c" "mf_total_bytes f \<le> mc_max_total_bytes c" "add_part c p f = Inr f'"
  shows "mf_total_bytes f' = mf_total_bytes f + length (part_bytes p)" "mf_files f' = mf_files f @ files_of [p]"
    "form_text_values f' n = form_text_values f n @ texts_of [p] n"
proof -
  have "mf_total_bytes f' = mf_total_bytes f + length (part_bytes p) \<and> mf_files f' = mf_files f @ files_of [p] \<and>
    form_text_values f' n = form_text_values f n @ texts_of [p] n"
  proof (cases "pt_file_name p")
    case None
    then show ?thesis
      using assms(3) field_chunks_Inr [OF assms(1) _ assms(2), of "[]" "pt_chunks p"]
      by (cases "pt_name p")
        (auto simp: add_part_def add_field_def and_then_Inr part_bytes_def files_of_def texts_of_def form_text_values_def
          update_conv split: if_splits)
  next
    case (Some file_name)
    then show ?thesis
      using assms(3) file_chunks_Inr [OF assms(1) _ assms(2), of 0 "pt_chunks p" "[]"]
      by (cases "pt_name p")
        (auto simp: add_part_def add_file_def and_then_Inr part_bytes_def files_of_def texts_of_def form_text_values_def
          split: if_splits)
  qed
  then show "mf_total_bytes f' = mf_total_bytes f + length (part_bytes p)" "mf_files f' = mf_files f @ files_of [p]"
    "form_text_values f' n = form_text_values f n @ texts_of [p] n" by simp_all
qed

lemma parts_Cons:
  "form_bytes (p # ps) = length (part_bytes p) + form_bytes ps" "files_of (p # ps) = files_of [p] @ files_of ps"
  "texts_of (p # ps) n = texts_of [p] n @ texts_of ps n"
  by (simp_all add: form_bytes_def files_of_def texts_of_def)

lemma add_parts_fits:
  assumes "config_sane c" "mf_total_bytes f \<le> mc_max_total_bytes c"
  shows "(\<exists>f'. add_parts c (map Inr ps) f = Inr f') \<longleftrightarrow>
    list_all (\<lambda>p. part_good p \<and> length (part_bytes p) \<le> part_limit c p) ps \<and>
    mf_total_bytes f + form_bytes ps \<le> mc_max_total_bytes c"
  using assms(2)
proof (induction ps arbitrary: f)
  case (Cons p ps)
  show ?case
  proof (cases "add_part c p f")
    case (Inl e)
    then have "\<not> part_fits c p f" using add_part_fits [OF assms(1) Cons.prems, of p] by simp
    then show ?thesis using Inl by (auto simp: part_fits_def parts_Cons)
  next
    case (Inr f')
    then have fits: "part_fits c p f" using add_part_fits [OF assms(1) Cons.prems, of p] by auto
    have total: "mf_total_bytes f' = mf_total_bytes f + length (part_bytes p)"
      using add_part_result(1) [OF assms(1) Cons.prems Inr] .
    show ?thesis
      using Cons.IH [of f'] fits total Inr by (auto simp: part_fits_def parts_Cons)
  qed
qed (simp add: form_bytes_def)

lemma add_parts_result:
  assumes "config_sane c" "mf_total_bytes f \<le> mc_max_total_bytes c" "add_parts c (map Inr ps) f = Inr f'"
  shows "mf_total_bytes f' = mf_total_bytes f + form_bytes ps \<and> mf_files f' = mf_files f @ files_of ps \<and>
    form_text_values f' n = form_text_values f n @ texts_of ps n"
  using assms(2,3)
proof (induction ps arbitrary: f)
  case (Cons p ps)
  then obtain f1 where f1: "add_part c p f = Inr f1" "add_parts c (map Inr ps) f1 = Inr f'"
    by (auto simp: and_then_Inr)
  note r = add_part_result [OF assms(1) Cons.prems(1) f1(1)]
  have "part_fits c p f" using add_part_fits [OF assms(1) Cons.prems(1), of p] f1(1) by auto
  then have "mf_total_bytes f1 \<le> mc_max_total_bytes c" by (simp add: r part_fits_def)
  from Cons.IH [OF this f1(2)] show ?case by (simp add: r parts_Cons [of p ps])
qed (simp add: form_bytes_def files_of_def texts_of_def)

text \<open>
  C39. A multipart form is accepted exactly when every part has a name, arrives completely, can be stored
  or is text, and stays within the limit of its kind, and all of them together stay within the limit of
  the request; however the bodies are cut into chunks, limits are enforced on sums that cannot
  overflow. The form then holds every file and every text value, whole and in the order sent, and
  its size is the sum of their sizes.
\<close>

theorem multipart_accepts_iff:
  assumes "config_sane c"
  shows "((\<exists>f. multipart_from_request c (Inr (map Inr ps)) = Inr f) \<longleftrightarrow>
      list_all (\<lambda>p. part_good p \<and> length (part_bytes p) \<le> part_limit c p) ps \<and> form_bytes ps \<le> mc_max_total_bytes c) \<and>
    (\<forall>f. multipart_from_request c (Inr (map Inr ps)) = Inr f \<longrightarrow>
      mf_total_bytes f = form_bytes ps \<and> mf_files f = files_of ps \<and> form_text_values f n = texts_of ps n)"
  using add_parts_fits [OF assms, of "\<lparr>mf_fields = [], mf_files = [], mf_total_bytes = 0\<rparr>" ps]
    add_parts_result [OF assms, of "\<lparr>mf_fields = [], mf_files = [], mf_total_bytes = 0\<rparr>" ps _ n]
  by (auto simp: multipart_from_request_def form_text_values_def)

theorem multipart_accepts_iff_witness:
  "\<exists>f. multipart_from_request (multipart_config_new ''/tmp'' 4 4 6)
     (Inr [Inr \<lparr>pt_name = Some ''a'', pt_file_name = None, pt_content_type = None, pt_created = False,
       pt_chunks = [\<lparr>ck_bytes = Inr ''xy'', ck_written = False\<rparr>, \<lparr>ck_bytes = Inr ''z'', ck_written = False\<rparr>], pt_flushed = False\<rparr>]) = Inr f \<and>
     form_text_values f ''a'' = [''xyz''] \<and> mf_total_bytes f = 3"
proof -
  let ?c = "multipart_config_new ''/tmp'' 4 4 6"
  let ?p = "\<lparr>pt_name = Some ''a'', pt_file_name = None, pt_content_type = None, pt_created = False,
       pt_chunks = [\<lparr>ck_bytes = Inr ''xy'', ck_written = False\<rparr>, \<lparr>ck_bytes = Inr ''z'', ck_written = False\<rparr>], pt_flushed = False\<rparr>"
  have c: "config_sane ?c"
    by (simp add: config_sane_def multipart_config_new_def multipart_config_default_def usize_max_def)
  have b: "part_bytes ?p = ''xyz''" by (simp add: part_bytes_def chunk_bytes_def)
  then have "list_all (\<lambda>p. part_good p \<and> length (part_bytes p) \<le> part_limit ?c p) [?p] \<and> form_bytes [?p] \<le> mc_max_total_bytes ?c"
    by (simp add: part_good_def chunks_read_def part_limit_def form_bytes_def multipart_config_new_def multipart_config_default_def)
  with multipart_accepts_iff [OF c, of "[?p]" "''a''"] obtain f where
    "multipart_from_request ?c (Inr (map Inr [?p])) = Inr f" "mf_total_bytes f = form_bytes [?p]"
    "form_text_values f ''a'' = texts_of [?p] ''a''" by blast
  then show ?thesis by (intro exI [of _ f]) (simp add: b form_bytes_def texts_of_def)
qed

text \<open>A failure names its source, and the status tells a limit and a storage failure from a bad request.\<close>

lemma multipart_failure_status:
  assumes "multipart_from_request c extraction = Inl e"
  shows "xe_source e = ''multipart'' \<and> xe_status e \<in> {400, 413, 500} \<and> xe_violations e = []"
proof -
  have file_case: "P e" if "file_chunks c cks stored sz t = Inl e" "\<And>m. P (xe_parse ''multipart'' m)"
    "\<And>m. P (xe_payload_too_large m)" "\<And>m. P (xe_internal ''multipart'' m)" for P cks stored sz t e
    using that
    by (induction c cks stored sz t rule: file_chunks.induct)
      (auto simp: checked_payload_size_def split: sum.splits if_splits)
  have field_case: "P e" if "field_chunks c cks v t = Inl e" "\<And>m. P (xe_parse ''multipart'' m)"
    "\<And>m. P (xe_payload_too_large m)" for P cks v t e
    using that
    by (induction c cks v t rule: field_chunks.induct)
      (auto simp: checked_payload_size_def split: sum.splits if_splits)
  let ?P = "\<lambda>e. xe_source e = ''multipart'' \<and> xe_status e \<in> {400, 413, 500} \<and> xe_violations e = []"
  have P: "?P (xe_parse ''multipart'' m)" "?P (xe_payload_too_large m)" "?P (xe_internal ''multipart'' m)" for m
    by (simp_all add: xe_parse_def xe_payload_too_large_def xe_internal_def xe_status_def)
  have part: "?P e" if "add_part c p f = Inl e" for p f e
    using that file_case [of _ _ _ _ e ?P] field_case [of _ _ _ e ?P] P
    by (fastforce simp: add_part_def add_file_def add_field_def split: option.splits if_splits elim!: and_then.elims)
  have "?P e" if "add_parts c ps f = Inl e" for ps f
    using that part P by (induction c ps f rule: add_parts.induct) (auto elim!: and_then.elims)
  then show ?thesis using assms P by (auto simp: multipart_from_request_def split: sum.splits)
qed

text \<open>The first source that fails decides, in the order path, query, headers, body; a request is delivered only if all pass.\<close>

lemma validated_Inr:
  "validated source validate parsed = Inr v \<longleftrightarrow> parsed = Inr v \<and> (\<exists>u. validate v = Inr u)"
  by (auto simp: validated_def split: sum.splits)

lemma validated_request_iff:
  "validated_request vp vq vh vb p q h b = Inr (p', q', h', b') \<longleftrightarrow>
     p = Inr p' \<and> q = Inr q' \<and> h = Inr h' \<and> b = Inr b' \<and>
     (\<exists>u. vp p' = Inr u) \<and> (\<exists>u. vq q' = Inr u) \<and> (\<exists>u. vh h' = Inr u) \<and> (\<exists>u. vb b' = Inr u)"
  by (auto simp: validated_request_def and_then_Inr validated_path_def validated_query_def validated_header_def
      validated_json_def validated_Inr)

end
