(* ===== verification/Http_Log.thy ===== *)
theory Http_Log
  imports Log_Files Response
begin

text \<open>
  The logger of \<open>core/src/log.rs\<close> over its three sinks, and \<open>rest/src/log.rs\<close>: the middleware that logs one
  record for every completed request. A writer, the serializer of JSON and the clock are arguments; durations
  are nanoseconds.
\<close>

section \<open>The logger\<close>

datatype 'w sink = WriterSink 'w | RotatingSink rotating_file directory | QueueSink async_sink

record 'w sink_env =
  se_write :: "string \<Rightarrow> 'w \<Rightarrow> (string + unit) \<times> 'w"
  se_flush :: "'w \<Rightarrow> (string + unit) \<times> 'w"
  se_day :: int
  se_nanos :: nat
  se_listing :: "directory \<Rightarrow> string list"

fun sink_write_all :: "'w sink_env \<Rightarrow> string \<Rightarrow> 'w sink \<Rightarrow> (string + bool) \<times> 'w sink" where
  "sink_write_all env bytes (WriterSink w) =
     (case se_write env bytes w of
        (Inl e, w1) \<Rightarrow> (Inl e, WriterSink w1)
      | (Inr _, w1) \<Rightarrow>
          (case se_flush env w1 of
             (Inl e, w2) \<Rightarrow> (Inl e, WriterSink w2)
           | (Inr _, w2) \<Rightarrow> (Inr True, WriterSink w2)))"
| "sink_write_all env bytes (RotatingSink r d) =
     (case rotating_write (se_day env) (se_nanos env) (se_listing env) bytes r d of
        (Inl e, r', d') \<Rightarrow> (Inl e, RotatingSink r' d')
      | (Inr _, r', d') \<Rightarrow> (Inr True, RotatingSink r' d'))"
| "sink_write_all env bytes (QueueSink q) = (case async_step (TryWrite bytes) q of (sent, q') \<Rightarrow> (Inr sent, QueueSink q'))"

record 'w logger =
  lg_config :: log_config
  lg_sink :: "'w sink"
  lg_poisoned :: bool

definition logger_to_writer :: "log_config \<Rightarrow> 'w \<Rightarrow> log_error + 'w logger" where
  "logger_to_writer c w =
     and_then (log_validate_config c) (\<lambda>_. Inr \<lparr>lg_config = c, lg_sink = WriterSink w, lg_poisoned = False\<rparr>)"

definition from_non_blocking_sink :: "log_config \<Rightarrow> nat \<Rightarrow> 'w logger" where
  "from_non_blocking_sink c capacity =
     \<lparr>lg_config = c,
      lg_sink = QueueSink \<lparr>as_capacity = capacity, as_queue = [], as_dropped = 0, as_written = [], as_alive = True\<rparr>,
      lg_poisoned = False\<rparr>"

definition logger_to_non_blocking_writer :: "log_config \<Rightarrow> nat \<Rightarrow> log_error + 'w logger" where
  "logger_to_non_blocking_writer c capacity =
     and_then (log_validate_capacity capacity) (\<lambda>_.
     and_then (log_validate_config c) (\<lambda>_. Inr (from_non_blocking_sink c capacity)))"

fun dropped_records :: "'w logger \<Rightarrow> 64 word" where
  "dropped_records lg = (case lg_sink lg of QueueSink q \<Rightarrow> as_dropped q | _ \<Rightarrow> 0)"

definition log_enabled :: "log_level \<Rightarrow> 'w logger \<Rightarrow> bool" where
  "log_enabled level lg \<longleftrightarrow> lc_level (lg_config lg) \<le> level"

fun json_as_str :: "json \<Rightarrow> string option" where
  "json_as_str (JString s) = Some s"
| "json_as_str _ = None"

text \<open>\<open>to_vec\<close> serializes a record and \<open>show\<close> one value, as \<open>serde_json\<close> does.\<close>

record printer =
  pr_to_vec :: "json log_record \<Rightarrow> string + string"
  pr_show :: "json \<Rightarrow> string"

definition log_encode :: "printer \<Rightarrow> log_config \<Rightarrow> json log_record \<Rightarrow> string + string" where
  "log_encode pr c r =
     (case lc_encoding c of
        JsonEncoding \<Rightarrow> pr_to_vec pr r
      | PlainEncoding \<Rightarrow> Inr (encode_plain json_as_str (pr_show pr) r))"

definition log_with_context ::
  "printer \<Rightarrow> 'w sink_env \<Rightarrow> string \<Rightarrow> log_level \<Rightarrow> string \<Rightarrow> json log_context option \<Rightarrow> (string \<times> json) list \<Rightarrow>
   'w logger \<Rightarrow> (log_error + bool) \<times> 'w logger" where
  "log_with_context pr env now level message context custom lg =
     (if \<not> log_enabled level lg then (Inr False, lg)
      else case log_encode pr (lg_config lg) (log_record JString (lg_config lg) now level message context custom) of
        Inl e \<Rightarrow> (Inl (LogSerialize e), lg)
      | Inr encoded \<Rightarrow>
          if lg_poisoned lg then (Inl Poisoned, lg)
          else case sink_write_all env (encoded @ [newline]) (lg_sink lg) of
            (Inl e, s) \<Rightarrow> (Inl (LogIo e), lg\<lparr>lg_sink := s\<rparr>)
          | (Inr written, s) \<Rightarrow> (Inr written, lg\<lparr>lg_sink := s\<rparr>))"

definition log_plain_call ::
  "printer \<Rightarrow> 'w sink_env \<Rightarrow> string \<Rightarrow> log_level \<Rightarrow> string \<Rightarrow> (string \<times> json) list \<Rightarrow> 'w logger \<Rightarrow> (log_error + bool) \<times> 'w logger" where
  "log_plain_call pr env now level message custom lg = log_with_context pr env now level message None custom lg"

text \<open>\<open>log_sampled\<close> asks the sampler only when the level is enabled.\<close>

definition log_sampled ::
  "printer \<Rightarrow> 'w sink_env \<Rightarrow> string \<Rightarrow> log_level \<Rightarrow> string \<Rightarrow> json log_context option \<Rightarrow> (string \<times> json) list \<Rightarrow>
   log_sampler \<Rightarrow> 'w logger \<Rightarrow> (log_error + bool) \<times> log_sampler \<times> 'w logger" where
  "log_sampled pr env now level message context custom sp lg =
     (if \<not> log_enabled level lg then (Inr False, sp, lg)
      else case sampler_allow sp of (allowed, sp') \<Rightarrow>
        if \<not> allowed then (Inr False, sp', lg)
        else case log_with_context pr env now level message context custom lg of (r, lg') \<Rightarrow> (r, sp', lg'))"

section \<open>The middleware\<close>

text \<open>What the wrapped service returns: a response with the pattern of its route, or an error.\<close>

datatype served = Completed nat "string option" | ServiceFailed string

definition u64_millis :: "nat \<Rightarrow> string" where
  "u64_millis nanos = show_nat (nanos div 10 ^ 6 mod 2 ^ 64)"

record tracing_event =
  te_level :: log_level
  te_message :: string
  te_fields :: "(string \<times> string) list"

text \<open>\<open>LoggingMiddleware\<close>: the event handed to \<open>tracing\<close>.\<close>

fun logging_event :: "string \<Rightarrow> string \<Rightarrow> nat \<Rightarrow> served \<Rightarrow> tracing_event" where
  "logging_event method path elapsed (Completed status route) =
     \<lparr>te_level = Info, te_message = ''HTTP request completed'',
      te_fields = [(''method'', method), (''path'', path), (''status'', show_nat status), (''elapsed_ms'', u64_millis elapsed)]\<rparr>"
| "logging_event method path elapsed (ServiceFailed e) =
     \<lparr>te_level = Warn, te_message = ''HTTP request failed'',
      te_fields = [(''method'', method), (''path'', path), (''elapsed_ms'', u64_millis elapsed), (''error'', e)]\<rparr>"

record 'w structured_logging =
  sl_logger :: "'w logger"
  sl_slow_threshold :: "nat option"

definition structured_logging_new :: "'w logger \<Rightarrow> 'w structured_logging" where
  "structured_logging_new lg = \<lparr>sl_logger = lg, sl_slow_threshold = None\<rparr>"

definition with_slow_threshold :: "nat \<Rightarrow> 'w structured_logging \<Rightarrow> 'w structured_logging option" where
  "with_slow_threshold threshold s = (if threshold = 0 then None else Some (s\<lparr>sl_slow_threshold := Some threshold\<rparr>))"

definition request_context :: "string option \<Rightarrow> trace_context option \<Rightarrow> json log_context" where
  "request_context request_id trace =
     (let x0 = log_context_new;
          x1 = (case request_id of None \<Rightarrow> x0 | Some i \<Rightarrow> context_with_field (''request_id'', JString i) x0) in
      case trace of None \<Rightarrow> x1 | Some t \<Rightarrow> context_with_trace t x1)"

definition is_slow :: "nat option \<Rightarrow> nat \<Rightarrow> bool" where
  "is_slow slow_threshold elapsed = (case slow_threshold of None \<Rightarrow> False | Some threshold \<Rightarrow> threshold \<le> elapsed)"

definition threshold_field :: "nat option \<Rightarrow> (string \<times> json) list" where
  "threshold_field slow_threshold =
     (case slow_threshold of None \<Rightarrow> [] | Some threshold \<Rightarrow> [(''slow_threshold_ms'', JNumber (u64_millis threshold))])"

fun request_fields :: "string \<Rightarrow> string \<Rightarrow> nat option \<Rightarrow> nat \<Rightarrow> served \<Rightarrow> (string \<times> json) list" where
  "request_fields method path slow_threshold elapsed (Completed status route) =
     [(''transport'', JString ''http''), (''method'', JString method), (''path'', JString path),
      (''status'', JNumber (show_nat status)), (''elapsed_ms'', JNumber (u64_millis elapsed)),
      (''slow'', JBool (is_slow slow_threshold elapsed))] @
     (case route of None \<Rightarrow> [] | Some r \<Rightarrow> [(''route'', JString r)]) @ threshold_field slow_threshold"
| "request_fields method path slow_threshold elapsed (ServiceFailed e) =
     [(''transport'', JString ''http''), (''method'', JString method), (''path'', JString path),
      (''elapsed_ms'', JNumber (u64_millis elapsed)), (''slow'', JBool (is_slow slow_threshold elapsed)), (''error'', JString e)] @
     threshold_field slow_threshold"

fun request_level :: "nat option \<Rightarrow> nat \<Rightarrow> served \<Rightarrow> log_level" where
  "request_level slow_threshold elapsed (Completed status route) = (if is_slow slow_threshold elapsed then Slow else Info)"
| "request_level slow_threshold elapsed (ServiceFailed e) = LogErr"

fun request_message :: "served \<Rightarrow> string" where
  "request_message (Completed status route) = ''HTTP request completed''"
| "request_message (ServiceFailed e) = ''HTTP request failed''"

text \<open>The call: what the logger answers is ignored, and the result of the service is passed on.\<close>

definition structured_call ::
  "printer \<Rightarrow> 'w sink_env \<Rightarrow> string \<Rightarrow> string \<Rightarrow> string \<Rightarrow> string option \<Rightarrow> trace_context option \<Rightarrow> nat \<Rightarrow> served \<Rightarrow>
   'w structured_logging \<Rightarrow> served \<times> 'w structured_logging" where
  "structured_call pr env now method path request_id trace elapsed outcome s =
     (let (_, lg) = log_with_context pr env now (request_level (sl_slow_threshold s) elapsed outcome) (request_message outcome)
            (Some (request_context request_id trace))
            (request_fields method path (sl_slow_threshold s) elapsed outcome) (sl_logger s) in
      (outcome, s\<lparr>sl_logger := lg\<rparr>))"

section \<open>Properties\<close>

text \<open>The record of one request, as the logger builds it.\<close>

definition request_record ::
  "log_config \<Rightarrow> string \<Rightarrow> string \<Rightarrow> string \<Rightarrow> string option \<Rightarrow> trace_context option \<Rightarrow> nat option \<Rightarrow> nat \<Rightarrow> served \<Rightarrow> json log_record" where
  "request_record c now method path request_id trace slow_threshold elapsed outcome =
     log_record JString c now (request_level slow_threshold elapsed outcome) (request_message outcome)
       (Some (request_context request_id trace)) (request_fields method path slow_threshold elapsed outcome)"

lemma map_of_fold_put_distinct:
  "distinct (map fst fs) \<Longrightarrow> map_of fs k = Some v \<Longrightarrow> map_of (fold (\<lambda>(k, v). bt_put k v) fs r) k = Some v"
proof (induction fs arbitrary: r)
  case (Cons f fs)
  then show ?case
    by (cases f) (auto simp: map_of_bt_put map_of_fold_put split: if_splits)
qed simp

lemma request_fields_distinct: "distinct (map fst (request_fields method path slow_threshold elapsed outcome))"
  by (cases outcome) (auto simp: threshold_field_def split: option.split)

definition framework_keys :: "string list" where
  "framework_keys = reserved @ [''trace_id'', ''span_id'']"

lemma log_record_field:
  assumes "distinct (map fst custom)" "map_of custom k = Some v" "k \<notin> set framework_keys"
  shows "map_of (log_record str c now level message context custom) k = Some v"
  using assms map_of_fold_put_distinct [OF assms(1,2)]
  by (auto simp: log_record_def Let_def map_of_bt_put framework_keys_def reserved_def split: option.split)

text \<open>
  Every field of a request is in its record with its own value; the level says whether the call failed or was
  slow; and the identity and the trace of the request are there when the request has them.
\<close>

theorem request_record_complete:
  fixes c now verb path request_id trace slow_threshold elapsed outcome
  defines "r \<equiv> request_record c now verb path request_id trace slow_threshold elapsed outcome"
  shows "map_of (request_fields verb path slow_threshold elapsed outcome) k = Some v \<Longrightarrow> map_of r k = Some v"
    and "map_of r ''level'' = Some (JString (level_name (request_level slow_threshold elapsed outcome)))"
    and "map_of r ''request_id'' = map_option JString request_id"
    and "map_of r ''trace_id'' = map_option (\<lambda>t. JString (encode_hex (tc_trace_id t))) trace"
proof -
  have keys: "fst ` set (request_fields verb path slow_threshold elapsed outcome) \<subseteq>
      {''transport'', ''method'', ''path'', ''status'', ''elapsed_ms'', ''slow'', ''route'', ''slow_threshold_ms'', ''error''}"
    by (cases outcome) (auto simp: threshold_field_def split: option.split)
  show "map_of r k = Some v" if "map_of (request_fields verb path slow_threshold elapsed outcome) k = Some v"
  proof -
    have "k \<in> fst ` set (request_fields verb path slow_threshold elapsed outcome)"
      using that by (force dest: map_of_SomeD)
    then have "k \<notin> set framework_keys"
      using keys by (auto simp: framework_keys_def reserved_def)
    then show ?thesis
      unfolding r_def request_record_def by (rule log_record_field [OF request_fields_distinct that])
  qed
  show "map_of r ''level'' = Some (JString (level_name (request_level slow_threshold elapsed outcome)))"
    by (simp add: r_def request_record_def log_record_owned)
  have "''request_id'' \<notin> fst ` set (request_fields verb path slow_threshold elapsed outcome)"
    and "''trace_id'' \<notin> fst ` set (request_fields verb path slow_threshold elapsed outcome)"
    using keys by auto
  then show "map_of r ''request_id'' = map_option JString request_id"
    and "map_of r ''trace_id'' = map_option (\<lambda>t. JString (encode_hex (tc_trace_id t))) trace"
    by (simp_all add: r_def request_record_def log_record_def Let_def map_of_bt_put map_of_fold_put request_context_def
        context_with_field_def context_with_trace_def log_context_new_def split: option.split)
qed

text \<open>
  Logging does not change what the service returned. With a queue, one enabled request sends one line or counts
  one dropped record; below the level of the logger nothing is touched.
\<close>

theorem structured_call_transparent:
  "fst (structured_call pr env now method path request_id trace elapsed outcome s) = outcome"
  by (simp add: structured_call_def split: prod.split)

theorem structured_call_enqueues:
  assumes "lg_sink (sl_logger s) = QueueSink q" "\<not> lg_poisoned (sl_logger s)"
    and "log_encode pr (lg_config (sl_logger s))
      (request_record (lg_config (sl_logger s)) now method path request_id trace (sl_slow_threshold s) elapsed outcome) = Inr line"
  shows "lg_sink (sl_logger (snd (structured_call pr env now method path request_id trace elapsed outcome s))) =
    (if request_level (sl_slow_threshold s) elapsed outcome < lc_level (lg_config (sl_logger s)) then QueueSink q
     else QueueSink (snd (async_step (TryWrite (line @ [newline])) q)))"
  using assms
  by (auto simp: structured_call_def log_with_context_def log_enabled_def request_record_def not_le split: prod.split)

text \<open>A sampler that is asked keeps counting; one below the level of the logger is not asked.\<close>

lemma log_sampled_counts:
  "sp_seen (fst (snd (log_sampled pr env now level message context custom sp lg))) =
     (if log_enabled level lg then sp_seen sp + 1 else sp_seen sp)"
  by (simp add: log_sampled_def sampler_allow_def Let_def split: prod.split)

text \<open>A failed request is logged as an error however fast it was, so slow calls that fail are not of level slow.\<close>

lemma failed_slow_request_level:
  assumes "is_slow slow_threshold elapsed"
  shows "request_level slow_threshold elapsed (ServiceFailed e) = LogErr"
    and "map_of (request_fields method path slow_threshold elapsed (ServiceFailed e)) ''slow'' = Some (JBool True)"
  using assms by simp_all

end
