(* ===== verification/Cli.thy ===== *)
theory Cli
  imports Response Static_Assets "HOL-Library.Multiset" "HOL-Library.Product_Lexorder"
begin

text \<open>
  \<open>cli/src/main.rs\<close>: the scaffolding tool. Every command validates its arguments and writes generated files;
  a file that exists is replaced only with \<open>--force\<close>. Paths are UTF-8 texts, compared by their components. What
  the operating system answers, and the parsers of JSON and YAML, are arguments.
\<close>

section \<open>Paths and the file system\<close>

type_synonym path_key = "bool \<times> component list"

definition path_key :: "string \<Rightarrow> path_key" where
  "path_key p = (take 1 p = ''/'', components p)"

definition path_join :: "string \<Rightarrow> string \<Rightarrow> string" where
  "path_join base rel =
     (if take 1 rel = ''/'' then rel
      else if base = [] \<or> last base = CHR ''/'' then base @ rel
      else base @ ''/'' @ rel)"

definition file_name :: "string \<Rightarrow> string option" where
  "file_name p =
     (case rev (components p) of
        Normal n # _ \<Rightarrow> Some n
      | _ \<Rightarrow> None)"

definition file_extension :: "string \<Rightarrow> string option" where
  "file_extension p = Option.bind (file_name p) extension"

definition key_parent :: "path_key \<Rightarrow> path_key option" where
  "key_parent k = (if snd k = [] then None else Some (fst k, butlast (snd k)))"

record cli_fs =
  fs_files :: "path_key \<rightharpoonup> string"
  fs_dirs :: "path_key \<Rightarrow> bool"

text \<open>A directory that cannot be made may leave some of its ancestors made; a write that fails may leave the
  file with part of the text.\<close>

datatype mkdir_answer = Made | NotMade string nat

datatype write_answer = Written | NotWritten string "string option"

record cli_os =
  os_read :: "cli_fs \<Rightarrow> string \<Rightarrow> string + string"
  os_mkdir :: "cli_fs \<Rightarrow> path_key \<Rightarrow> mkdir_answer"
  os_write :: "cli_fs \<Rightarrow> string \<Rightarrow> string \<Rightarrow> write_answer"

definition path_exists :: "cli_fs \<Rightarrow> string \<Rightarrow> bool" where
  "path_exists fs p \<longleftrightarrow> fs_files fs (path_key p) \<noteq> None \<or> fs_dirs fs (path_key p)"

definition add_dirs :: "path_key \<Rightarrow> nat \<Rightarrow> cli_fs \<Rightarrow> cli_fs" where
  "add_dirs k n fs =
     fs\<lparr>fs_dirs := (\<lambda>d. fs_dirs fs d \<or> (\<exists>i \<in> {1..min n (length (snd k))}. d = (fst k, take i (snd k))))\<rparr>"

definition create_dir_all :: "cli_os \<Rightarrow> path_key \<Rightarrow> cli_fs \<Rightarrow> (string + unit) \<times> cli_fs" where
  "create_dir_all os k fs =
     (if k = (False, []) then (Inr (), fs)
      else case os_mkdir os fs k of
        Made \<Rightarrow> (Inr (), add_dirs k (length (snd k)) fs)
      | NotMade e n \<Rightarrow> (Inl e, add_dirs k n fs))"

definition fs_write :: "cli_os \<Rightarrow> string \<Rightarrow> string \<Rightarrow> cli_fs \<Rightarrow> (string + unit) \<times> cli_fs" where
  "fs_write os p contents fs =
     (case os_write os fs p contents of
        Written \<Rightarrow> (Inr (), fs\<lparr>fs_files := (fs_files fs)(path_key p \<mapsto> contents)\<rparr>)
      | NotWritten e None \<Rightarrow> (Inl e, fs)
      | NotWritten e (Some part) \<Rightarrow> (Inl e, fs\<lparr>fs_files := (fs_files fs)(path_key p \<mapsto> part)\<rparr>))"

text \<open>The \<open>?\<close> of a step that returns nothing.\<close>

fun fs_then :: "(string + unit) \<times> cli_fs \<Rightarrow> (cli_fs \<Rightarrow> (string + 'a) \<times> cli_fs) \<Rightarrow> (string + 'a) \<times> cli_fs" where
  "fs_then (Inl e, fs) f = (Inl e, fs)"
| "fs_then (Inr u, fs) f = f fs"

definition write_generated :: "cli_os \<Rightarrow> string \<Rightarrow> string \<Rightarrow> bool \<Rightarrow> cli_fs \<Rightarrow> (string + unit) \<times> cli_fs" where
  "write_generated os p contents force fs =
     (if path_exists fs p \<and> \<not> force
      then (Inl (p @ '' already exists; pass --force to replace it''), fs)
      else fs_then (case key_parent (path_key p) of None \<Rightarrow> (Inr (), fs) | Some k \<Rightarrow> create_dir_all os k fs)
             (fs_write os p contents))"

section \<open>Names\<close>

definition is_lower :: "char \<Rightarrow> bool" where
  "is_lower ch \<longleftrightarrow> (let b = of_char ch :: nat in 97 \<le> b \<and> b \<le> 122)"

definition is_upper :: "char \<Rightarrow> bool" where
  "is_upper ch \<longleftrightarrow> (let b = of_char ch :: nat in 65 \<le> b \<and> b \<le> 90)"

definition is_digit :: "char \<Rightarrow> bool" where
  "is_digit ch \<longleftrightarrow> (let b = of_char ch :: nat in 48 \<le> b \<and> b \<le> 57)"

definition is_alphanumeric :: "char \<Rightarrow> bool" where
  "is_alphanumeric ch \<longleftrightarrow> is_lower ch \<or> is_upper ch \<or> is_digit ch"

definition validate_name :: "string \<Rightarrow> string + unit" where
  "validate_name name =
     (if name = [] \<or> \<not> list_all (\<lambda>ch. is_alphanumeric ch \<or> ch = CHR ''-'' \<or> ch = CHR ''_'') name
      then Inl (''name must contain only ASCII letters, digits, '-' or '_'' @ [CHR 0x27])
      else Inr ())"

definition validate_dns_name :: "string \<Rightarrow> string + unit" where
  "validate_dns_name name =
     (if name = [] \<or> 63 < length name \<or> hd name = CHR ''-'' \<or> last name = CHR ''-''
         \<or> \<not> list_all (\<lambda>ch. is_lower ch \<or> is_digit ch \<or> ch = CHR ''-'') name
      then Inl ''Kubernetes name must be a lowercase DNS label of at most 63 characters''
      else Inr ())"

text \<open>\<open>rust_identifier\<close>: the loop carries the output and whether it ends in a separator.\<close>

fun identifier_scan :: "string \<Rightarrow> string \<Rightarrow> bool \<Rightarrow> string" where
  "identifier_scan [] out sep = out"
| "identifier_scan (ch # cs) out sep =
     (if is_alphanumeric ch
      then identifier_scan cs ((if out = [] \<and> is_digit ch then ''_'' else out) @ [Static_Assets.ascii_lower ch]) False
      else if out \<noteq> [] \<and> \<not> sep then identifier_scan cs (out @ ''_'') True
      else identifier_scan cs out sep)"

definition rust_identifier :: "string \<Rightarrow> string" where
  "rust_identifier text =
     (let out = rev (dropWhile (\<lambda>ch. ch = CHR ''_'') (rev (identifier_scan text [] False))) in
      if out = [] then ''operation'' else out)"

section \<open>Generated texts\<close>

definition lines_text :: "string list \<Rightarrow> string" where
  "lines_text ls = concat (map (\<lambda>l. l @ [CHR 0x0A]) ls)"

definition cli_version :: string where
  "cli_version = ''0.1.0-alpha.2''"

definition cargo_text :: "string \<Rightarrow> string" where
  "cargo_text package = lines_text
     [''[package]'',
      ''name = \"'' @ package @ ''\"'',
      ''version = \"0.1.0\"'',
      ''edition = \"2021\"'',
      [],
      ''[dependencies]'',
      ''actix-web = \"4\"'',
      ''rust-zero-rest = \"'' @ cli_version @ ''\"'']"

definition main_text :: string where
  "main_text = lines_text
     [''use actix_web::{web, HttpResponse};'',
      ''use rest::{RestServer, RestServerConfig};'',
      [],
      ''#[actix_web::main]'',
      ''async fn main() -> std::io::Result<()> {'',
      ''    let config = RestServerConfig::default();'',
      ''    RestServer::new(config)'',
      ''        .map_err(std::io::Error::other)?'',
      ''        .run(|routes| {'',
      ''            routes.route(\"/healthz\", web::get().to(|| async { HttpResponse::Ok().finish() }));'',
      ''        })?'',
      ''        .await'',
      ''}'']"

definition build_text :: "string \<Rightarrow> string" where
  "build_text proto = lines_text
     [''fn main() -> Result<(), Box<dyn std::error::Error>> {'',
      ''    let protoc = protoc_bin_vendored::protoc_bin_path()?;'',
      ''    std::env::set_var(\"PROTOC\", protoc);'',
      ''    tonic_prost_build::configure().compile_protos(\"proto/'' @ proto @ ''\")?;'',
      ''    println!(\"cargo:rerun-if-changed=proto/'' @ proto @ ''\");'',
      ''    Ok(())'',
      ''}'']"

definition dependencies_text :: string where
  "dependencies_text = lines_text
     [''# Merge these sections into the service Cargo.toml.'',
      ''[dependencies]'',
      ''prost = \"0.14\"'',
      ''rust-zero-rpc = \"'' @ cli_version @ ''\"'',
      ''tonic = { version = \"0.14\", features = [\"transport\"] }'',
      ''tonic-prost = \"0.14\"'',
      [],
      ''[build-dependencies]'',
      ''protoc-bin-vendored = \"3\"'',
      ''tonic-prost-build = \"0.14\"'']"

definition docker_text :: "string \<Rightarrow> string" where
  "docker_text binary = lines_text
     [''FROM rust:1.89-bookworm AS builder'',
      ''WORKDIR /src'',
      ''COPY . .'',
      ''RUN cargo build --locked --release --bin '' @ binary,
      [],
      ''FROM gcr.io/distroless/cc-debian12:nonroot'',
      ''COPY --from=builder /src/target/release/'' @ binary @ '' /usr/local/bin/'' @ binary,
      ''USER nonroot:nonroot'',
      ''ENTRYPOINT [\"/usr/local/bin/'' @ binary @ ''\"]'']"

definition kubernetes_text :: "string \<Rightarrow> string \<Rightarrow> 16 word \<Rightarrow> string" where
  "kubernetes_text name img port = lines_text
     [''apiVersion: apps/v1'', ''kind: Deployment'', ''metadata:'', ''  name: '' @ name,
      ''spec:'', ''  replicas: 2'', ''  selector:'', ''    matchLabels:'', ''      app: '' @ name,
      ''  template:'', ''    metadata:'', ''      labels:'', ''        app: '' @ name,
      ''    spec:'', ''      containers:'', ''        - name: '' @ name, ''          image: '' @ img,
      ''          ports:'', ''            - name: http'', ''              containerPort: '' @ show_nat (unat port),
      ''          readinessProbe:'', ''            httpGet:'', ''              path: /healthz'', ''              port: http'',
      ''          livenessProbe:'', ''            httpGet:'', ''              path: /healthz'', ''              port: http'',
      ''          resources:'', ''            requests:'', ''              cpu: 100m'', ''              memory: 128Mi'',
      ''            limits:'', ''              cpu: \"1\"'', ''              memory: 512Mi'',
      ''---'',
      ''apiVersion: v1'', ''kind: Service'', ''metadata:'', ''  name: '' @ name,
      ''spec:'', ''  selector:'', ''    app: '' @ name, ''  ports:'', ''    - name: http'',
      ''      port: '' @ show_nat (unat port), ''      targetPort: http'']"

section \<open>Commands\<close>

record new_args =
  na_name :: string
  na_dir :: "string option"
  na_force :: bool

record proto_args =
  pa_proto :: string
  pa_out :: string
  pa_force :: bool

record openapi_args =
  oa_spec :: string
  oa_out :: string
  oa_force :: bool

record docker_args =
  da_binary :: string
  da_out :: string
  da_force :: bool

record kubernetes_args =
  ka_name :: string
  ka_image :: string
  ka_port :: "16 word"
  ka_out :: string
  ka_force :: bool

datatype cli_command =
    NewCommand new_args
  | ProtoCommand proto_args
  | OpenapiCommand openapi_args
  | DockerCommand docker_args
  | KubernetesCommand kubernetes_args

text \<open>A command returns its error or the line it prints, and the file system.\<close>

definition create_project :: "cli_os \<Rightarrow> new_args \<Rightarrow> cli_fs \<Rightarrow> (string + string) \<times> cli_fs" where
  "create_project os a fs =
     (case validate_name (na_name a) of
        Inl e \<Rightarrow> (Inl e, fs)
      | Inr _ \<Rightarrow>
          (let root = (case na_dir a of None \<Rightarrow> na_name a | Some d \<Rightarrow> d);
               package = map (\<lambda>ch. if ch = CHR ''_'' then CHR ''-'' else ch) (na_name a) in
           fs_then (write_generated os (path_join root ''Cargo.toml'') (cargo_text package) (na_force a) fs) (\<lambda>fs.
           fs_then (write_generated os (path_join root ''src/main.rs'') main_text (na_force a) fs) (\<lambda>fs.
           fs_then (write_generated os (path_join root ''.gitignore'') (lines_text [''/target'', ''.env'']) (na_force a) fs) (\<lambda>fs.
           (Inr (''created '' @ root), fs))))))"

definition create_proto_scaffold :: "cli_os \<Rightarrow> proto_args \<Rightarrow> cli_fs \<Rightarrow> (string + string) \<times> cli_fs" where
  "create_proto_scaffold os a fs =
     (case file_name (pa_proto a) of
        None \<Rightarrow> (Inl ''proto path must name a file'', fs)
      | Some n \<Rightarrow>
          if file_extension (pa_proto a) \<noteq> Some ''proto'' then (Inl ''proto input must have a .proto extension'', fs)
          else case os_read os fs (pa_proto a) of
            Inl e \<Rightarrow> (Inl e, fs)
          | Inr contents \<Rightarrow>
              fs_then (write_generated os (path_join (path_join (pa_out a) ''proto'') n) contents (pa_force a) fs) (\<lambda>fs.
              fs_then (write_generated os (path_join (pa_out a) ''build.rs'') (build_text n) (pa_force a) fs) (\<lambda>fs.
              fs_then (write_generated os (path_join (pa_out a) ''PROTO_DEPENDENCIES.toml'') dependencies_text (pa_force a) fs) (\<lambda>fs.
              (Inr (''generated protobuf scaffold in '' @ pa_out a), fs)))))"

text \<open>The escapes of \<open>{:?}\<close> on a string; a character beyond ASCII is kept, as the printable ones are.\<close>

definition hex_digit :: "nat \<Rightarrow> char" where
  "hex_digit d = char_of (if d < 10 then 48 + d else 87 + d)"

definition debug_char :: "char \<Rightarrow> string" where
  "debug_char ch =
     (let b = of_char ch :: nat in
      if b = 0 then [CHR 0x5C, CHR ''0'']
      else if b = 9 then [CHR 0x5C, CHR ''t'']
      else if b = 10 then [CHR 0x5C, CHR ''n'']
      else if b = 13 then [CHR 0x5C, CHR ''r'']
      else if b = 34 \<or> b = 92 then [CHR 0x5C, ch]
      else if b < 16 then [CHR 0x5C, CHR ''u'', CHR 0x7B, hex_digit b, CHR 0x7D]
      else if b < 32 \<or> b = 127 then [CHR 0x5C, CHR ''u'', CHR 0x7B, hex_digit (b div 16), hex_digit (b mod 16), CHR 0x7D]
      else [ch])"

definition debug_text :: "string \<Rightarrow> string" where
  "debug_text s = CHR 0x22 # concat (map debug_char s) @ [CHR 0x22]"

fun json_str :: "json \<Rightarrow> string option" where
  "json_str (JString s) = Some s"
| "json_str _ = None"

fun json_obj :: "json \<Rightarrow> (string \<times> json) list option" where
  "json_obj (JObject kvs) = Some kvs"
| "json_obj _ = None"

definition json_field :: "string \<Rightarrow> json \<Rightarrow> json option" where
  "json_field k j = Option.bind (json_obj j) (\<lambda>kvs. map_of kvs k)"

definition openapi_methods :: "string list" where
  "openapi_methods = [''get'', ''post'', ''put'', ''patch'', ''delete'', ''head'', ''options'']"

type_synonym operation = "string \<times> string \<times> string"

definition operation_name :: "string \<Rightarrow> string \<Rightarrow> json \<Rightarrow> string" where
  "operation_name path method operation =
     (case Option.bind (json_field ''operationId'' operation) json_str of
        Some i \<Rightarrow> rust_identifier i
      | None \<Rightarrow> rust_identifier (method @ ''_'' @ path))"

definition path_operations :: "string \<Rightarrow> json \<Rightarrow> operation list" where
  "path_operations path item =
     (case json_obj item of
        None \<Rightarrow> []
      | Some methods \<Rightarrow>
          List.map_filter (\<lambda>m. map_option (\<lambda>operation. (path, m, operation_name path m operation)) (map_of methods m))
            openapi_methods)"

definition openapi_operations :: "(string \<times> json) list \<Rightarrow> operation list" where
  "openapi_operations paths = sort (concat (map (\<lambda>(path, item). path_operations path item) paths))"

definition route_line :: "operation \<Rightarrow> string" where
  "route_line = (\<lambda>(path, method, name).
     ''    routes.route('' @ debug_text path @ '', web::'' @ method @ ''().to('' @ name @ ''));'' @ [CHR 0x0A])"

definition stub_text :: "operation \<Rightarrow> string" where
  "stub_text = (\<lambda>(path, method, name).
     lines_text [''async fn '' @ name @ ''() -> HttpResponse {'', ''    HttpResponse::NotImplemented().finish()'', ''}'', []])"

definition routes_text :: "operation list \<Rightarrow> string" where
  "routes_text operations =
     lines_text [''// Generated by rust-zero openapi. Business logic is intentionally left as stubs.'',
       ''use actix_web::{web, HttpResponse};'', [],
       ''pub fn configure(routes: &mut web::ServiceConfig) {''] @
     concat (map route_line operations) @ lines_text [''}'', []] @ concat (map stub_text operations)"

definition openapi_document ::
  "(string \<Rightarrow> string + json) \<Rightarrow> (string \<Rightarrow> string + json) \<Rightarrow> string \<Rightarrow> string \<Rightarrow> string + json" where
  "openapi_document from_json from_yaml spec source =
     (case file_extension spec of
        Some x \<Rightarrow>
          if x = ''json'' then from_json source
          else if x = ''yaml'' \<or> x = ''yml'' then from_yaml source
          else Inl ''OpenAPI input must be JSON, YAML, or YML''
      | None \<Rightarrow> Inl ''OpenAPI input must be JSON, YAML, or YML'')"

definition openapi_paths :: "json \<Rightarrow> string + (string \<times> json) list" where
  "openapi_paths document =
     (if \<not> (case Option.bind (json_field ''openapi'' document) json_str of None \<Rightarrow> False | Some v \<Rightarrow> take 1 v = ''3'')
      then Inl ''only OpenAPI 3.x documents are supported''
      else case Option.bind (json_field ''paths'' document) json_obj of
        None \<Rightarrow> Inl ''OpenAPI document must contain a paths object''
      | Some paths \<Rightarrow> Inr paths)"

definition generate_openapi ::
  "(string \<Rightarrow> string + json) \<Rightarrow> (string \<Rightarrow> string + json) \<Rightarrow> cli_os \<Rightarrow> openapi_args \<Rightarrow> cli_fs \<Rightarrow> (string + string) \<times> cli_fs" where
  "generate_openapi from_json from_yaml os a fs =
     (case and_then (os_read os fs (oa_spec a)) (\<lambda>source.
             and_then (openapi_document from_json from_yaml (oa_spec a) source) openapi_paths) of
        Inl e \<Rightarrow> (Inl e, fs)
      | Inr paths \<Rightarrow>
          (let operations = openapi_operations paths in
           fs_then (write_generated os (oa_out a) (routes_text operations) (oa_force a) fs) (\<lambda>fs.
           (Inr (''generated '' @ show_nat (length operations) @ '' route stubs in '' @ oa_out a), fs))))"

definition generate_dockerfile :: "cli_os \<Rightarrow> docker_args \<Rightarrow> cli_fs \<Rightarrow> (string + string) \<times> cli_fs" where
  "generate_dockerfile os a fs =
     (case validate_name (da_binary a) of
        Inl e \<Rightarrow> (Inl e, fs)
      | Inr _ \<Rightarrow>
          fs_then (write_generated os (da_out a) (docker_text (da_binary a)) (da_force a) fs) (\<lambda>fs.
          (Inr (''generated '' @ da_out a), fs)))"

text \<open>\<open>image.contains(char::is_whitespace)\<close>, on the bytes of the text.\<close>

fun leading_white :: "nat list \<Rightarrow> bool" where
  "leading_white (a # b # c # bs) \<longleftrightarrow>
     blank_bytes [a] \<or> blank_bytes [a, b] \<and> a = 194 \<or> blank_bytes [a, b, c] \<and> (a = 225 \<or> a = 226 \<or> a = 227)"
| "leading_white [a, b] \<longleftrightarrow> blank_bytes [a] \<or> blank_bytes [a, b] \<and> a = 194"
| "leading_white [a] \<longleftrightarrow> blank_bytes [a]"
| "leading_white [] \<longleftrightarrow> False"

fun any_white :: "nat list \<Rightarrow> bool" where
  "any_white [] \<longleftrightarrow> False"
| "any_white (b # bs) \<longleftrightarrow> leading_white (b # bs) \<or> any_white bs"

definition generate_kubernetes :: "cli_os \<Rightarrow> kubernetes_args \<Rightarrow> cli_fs \<Rightarrow> (string + string) \<times> cli_fs" where
  "generate_kubernetes os a fs =
     (case validate_dns_name (ka_name a) of
        Inl e \<Rightarrow> (Inl e, fs)
      | Inr _ \<Rightarrow>
          if is_blank (ka_image a) \<or> any_white (map of_char (ka_image a))
          then (Inl ''image must be a non-empty container reference'', fs)
          else
            fs_then (write_generated os (ka_out a) (kubernetes_text (ka_name a) (ka_image a) (ka_port a)) (ka_force a) fs) (\<lambda>fs.
            (Inr (''generated '' @ ka_out a), fs)))"

fun cli_run ::
  "(string \<Rightarrow> string + json) \<Rightarrow> (string \<Rightarrow> string + json) \<Rightarrow> cli_os \<Rightarrow> cli_command \<Rightarrow> cli_fs \<Rightarrow> (string + string) \<times> cli_fs" where
  "cli_run from_json from_yaml os (NewCommand a) fs = create_project os a fs"
| "cli_run from_json from_yaml os (ProtoCommand a) fs = create_proto_scaffold os a fs"
| "cli_run from_json from_yaml os (OpenapiCommand a) fs = generate_openapi from_json from_yaml os a fs"
| "cli_run from_json from_yaml os (DockerCommand a) fs = generate_dockerfile os a fs"
| "cli_run from_json from_yaml os (KubernetesCommand a) fs = generate_kubernetes os a fs"

text \<open>\<open>main\<close>: the exit status, with what is printed.\<close>

fun cli_main :: "(string + string) \<times> cli_fs \<Rightarrow> nat \<times> string" where
  "cli_main (Inl e, fs) = (2, ''error: '' @ e @ [CHR 0x0A])"
| "cli_main (Inr printed, fs) = (0, printed @ [CHR 0x0A])"

section \<open>Properties\<close>

fun command_force :: "cli_command \<Rightarrow> bool" where
  "command_force (NewCommand a) = na_force a"
| "command_force (ProtoCommand a) = pa_force a"
| "command_force (OpenapiCommand a) = oa_force a"
| "command_force (DockerCommand a) = da_force a"
| "command_force (KubernetesCommand a) = ka_force a"

lemma add_dirs_files [simp]: "fs_files (add_dirs k n fs) = fs_files fs"
  by (simp add: add_dirs_def)

lemma create_dir_all_files [simp]: "fs_files (snd (create_dir_all os k fs)) = fs_files fs"
  by (simp add: create_dir_all_def split: mkdir_answer.split)

lemma step_cases:
  fixes r :: "(string + unit) \<times> cli_fs"
  obtains (failed) e fs where "r = (Inl e, fs)" | (returned) fs where "r = (Inr (), fs)"
  by (cases r; cases "fst r") auto

lemma fs_then_ok: "fs_then r f = (Inr x, fs') \<longleftrightarrow> (\<exists>fs. r = (Inr (), fs) \<and> f fs = (Inr x, fs'))"
  by (cases r rule: step_cases) auto

lemma fs_write_other:
  "path_key p \<noteq> k \<Longrightarrow> fs_files (snd (fs_write os p contents fs)) k = fs_files fs k"
  by (auto simp: fs_write_def split: write_answer.split option.split)

text \<open>Whatever the operating system answers, a file that exists keeps its text when \<open>--force\<close> is absent.\<close>

definition keeps_files :: "cli_fs \<Rightarrow> cli_fs \<Rightarrow> bool" where
  "keeps_files fs fs' \<longleftrightarrow> fs_files fs \<subseteq>\<^sub>m fs_files fs'"

lemma keeps_files_refl [simp]: "keeps_files fs fs"
  by (simp add: keeps_files_def)

lemma keeps_files_trans: "keeps_files a b \<Longrightarrow> keeps_files b c \<Longrightarrow> keeps_files a c"
  unfolding keeps_files_def by (rule map_le_trans)

lemma fs_then_keeps:
  assumes "keeps_files fs (snd r)" "\<And>fs'. keeps_files fs fs' \<Longrightarrow> keeps_files fs (snd (f fs'))"
  shows "keeps_files fs (snd (fs_then r f))"
  using assms by (cases r rule: step_cases) auto

lemma write_generated_keeps:
  assumes "keeps_files fs fs'"
  shows "keeps_files fs (snd (write_generated os p contents False fs'))"
proof (cases "path_exists fs' p")
  case True
  with assms show ?thesis by (simp add: write_generated_def)
next
  case False
  have fresh: "fs_files fs' (path_key p) = None"
    using False by (simp add: path_exists_def)
  let ?made = "case key_parent (path_key p) of None \<Rightarrow> (Inr (), fs') | Some k \<Rightarrow> create_dir_all os k fs'"
  have made: "fs_files (snd ?made) = fs_files fs'"
    by (simp split: option.split)
  have "keeps_files fs' (snd (fs_write os p contents fs''))" if "fs_files fs'' = fs_files fs'" for fs''
    using fresh that by (auto simp: keeps_files_def map_le_def fs_write_def split: write_answer.split option.split)
  then have "keeps_files fs' (snd (fs_then ?made (fs_write os p contents)))"
    using made by (cases ?made rule: step_cases) (auto simp: keeps_files_def)
  with False assms show ?thesis
    by (auto simp: write_generated_def intro: keeps_files_trans)
qed

lemma one_write_keeps: "keeps_files fs (snd (fs_then (write_generated os p c False fs) (Pair r)))"
  by (rule fs_then_keeps) (simp_all add: write_generated_keeps)

lemma three_writes_keep:
  "keeps_files fs (snd (fs_then (write_generated os p1 c1 False fs) (\<lambda>fs1.
     fs_then (write_generated os p2 c2 False fs1) (\<lambda>fs2. fs_then (write_generated os p3 c3 False fs2) (Pair r)))))"
  by (intro fs_then_keeps) (simp_all add: write_generated_keeps)

lemma create_project_keeps: "\<not> na_force a \<Longrightarrow> keeps_files fs (snd (create_project os a fs))"
  by (simp add: create_project_def Let_def three_writes_keep split: sum.split)

lemma create_proto_scaffold_keeps: "\<not> pa_force a \<Longrightarrow> keeps_files fs (snd (create_proto_scaffold os a fs))"
  by (simp add: create_proto_scaffold_def three_writes_keep split: sum.split option.split)

lemma generate_openapi_keeps: "\<not> oa_force a \<Longrightarrow> keeps_files fs (snd (generate_openapi from_json from_yaml os a fs))"
  by (simp add: generate_openapi_def Let_def one_write_keeps split: sum.split)

lemma generate_dockerfile_keeps: "\<not> da_force a \<Longrightarrow> keeps_files fs (snd (generate_dockerfile os a fs))"
  by (simp add: generate_dockerfile_def one_write_keeps split: sum.split)

lemma generate_kubernetes_keeps: "\<not> ka_force a \<Longrightarrow> keeps_files fs (snd (generate_kubernetes os a fs))"
  by (simp add: generate_kubernetes_def one_write_keeps split: sum.split)

lemmas commands_keep = create_project_keeps create_proto_scaffold_keeps generate_openapi_keeps
  generate_dockerfile_keeps generate_kubernetes_keeps

text \<open>
  Without \<open>--force\<close> no command changes the text of a file that exists, whatever the operating system
  answers and wherever the command stops.
\<close>

theorem cli_keeps_existing_files:
  assumes "\<not> command_force cmd" "fs_files fs k = Some text"
  shows "fs_files (snd (cli_run from_json from_yaml os cmd fs)) k = Some text"
proof -
  have "keeps_files fs (snd (cli_run from_json from_yaml os cmd fs))"
    using assms(1)
    by (cases cmd) (simp_all add: commands_keep)
  with assms(2) show ?thesis unfolding keeps_files_def by (metis domI map_le_def)
qed

theorem cli_keeps_existing_files_witness:
  "fs_files (snd (cli_run Inl Inl \<lparr>os_read = (\<lambda>_ _. Inl []), os_mkdir = (\<lambda>_ _. Made), os_write = (\<lambda>_ _ _. Written)\<rparr>
      (DockerCommand \<lparr>da_binary = ''api'', da_out = ''Dockerfile'', da_force = False\<rparr>)
      \<lparr>fs_files = [path_key ''Dockerfile'' \<mapsto> ''mine''], fs_dirs = (\<lambda>_. False)\<rparr>)) (path_key ''Dockerfile'') = Some ''mine''"
  by (rule cli_keeps_existing_files) simp_all

text \<open>A write that returns has written the text and changed no other file.\<close>

lemma fs_write_ok:
  "fs_write os p contents fs = (Inr u, fs') \<Longrightarrow> fs_files fs' = (fs_files fs)(path_key p \<mapsto> contents)"
  by (auto simp: fs_write_def split: write_answer.splits option.splits)

lemma write_generated_ok:
  assumes "write_generated os p contents force fs = (Inr u, fs')"
  shows "fs_files fs' = (fs_files fs)(path_key p \<mapsto> contents)" "force \<or> \<not> path_exists fs p"
proof -
  let ?made = "case key_parent (path_key p) of None \<Rightarrow> (Inr (), fs) | Some k \<Rightarrow> create_dir_all os k fs"
  have made: "fs_files (snd ?made) = fs_files fs"
    by (simp split: option.split)
  from assms show ok: "force \<or> \<not> path_exists fs p"
    by (auto simp only: write_generated_def prod.inject sum.distinct split: if_splits)
  then have "write_generated os p contents force fs = fs_then ?made (fs_write os p contents)"
    unfolding write_generated_def by (simp only: if_not_P de_Morgan_conj not_not disj_commute)
  then obtain fs1 where fs1: "?made = (Inr (), fs1)" "fs_write os p contents fs1 = (Inr u, fs')"
    using assms fs_then_ok by metis
  then show "fs_files fs' = (fs_files fs)(path_key p \<mapsto> contents)"
    using made fs_write_ok [OF fs1(2)] by simp
qed

text \<open>
  A project that is created holds exactly the three files of the scaffold, in place of what was there.
\<close>

theorem create_project_files:
  assumes "create_project os a fs = (Inr line, fs')"
  defines "base \<equiv> (case na_dir a of None \<Rightarrow> na_name a | Some d \<Rightarrow> d)"
  shows "fs_files fs' = (fs_files fs)
      (path_key (path_join base ''Cargo.toml'') \<mapsto> cargo_text (map (\<lambda>ch. if ch = CHR ''_'' then CHR ''-'' else ch) (na_name a)),
       path_key (path_join base ''src/main.rs'') \<mapsto> main_text,
       path_key (path_join base ''.gitignore'') \<mapsto> lines_text [''/target'', ''.env''])"
proof -
  note simps = create_project_def Let_def base_def [symmetric]
  from assms(1) obtain f1 f2 where
    w: "write_generated os (path_join base ''Cargo.toml'')
          (cargo_text (map (\<lambda>ch. if ch = CHR ''_'' then CHR ''-'' else ch) (na_name a))) (na_force a) fs = (Inr (), f1)"
       "write_generated os (path_join base ''src/main.rs'') main_text (na_force a) f1 = (Inr (), f2)"
       "write_generated os (path_join base ''.gitignore'') (lines_text [''/target'', ''.env'']) (na_force a) f2 = (Inr (), fs')"
    by (auto simp: simps fs_then_ok split: sum.splits)
  show ?thesis
    by (simp add: write_generated_ok(1) [OF w(1)] write_generated_ok(1) [OF w(2)] write_generated_ok(1) [OF w(3)])
qed

text \<open>Identifiers: never empty, made of lower-case letters, digits and underscores, and not opened by a digit.\<close>

definition is_identifier :: "string \<Rightarrow> bool" where
  "is_identifier s \<longleftrightarrow> s \<noteq> [] \<and> list_all (\<lambda>ch. is_lower ch \<or> is_digit ch \<or> ch = CHR ''_'') s \<and> \<not> is_digit (hd s)"

definition identifier_part :: "string \<Rightarrow> bool" where
  "identifier_part s \<longleftrightarrow> s = [] \<or> is_identifier s \<and> (\<exists>ch \<in> set s. ch \<noteq> CHR ''_'')"

lemma lower_of_alphanumeric:
  assumes "is_alphanumeric ch"
  shows "is_lower (Static_Assets.ascii_lower ch) \<and> \<not> is_digit (Static_Assets.ascii_lower ch) \<and> \<not> is_digit ch
    \<or> is_digit ch \<and> Static_Assets.ascii_lower ch = ch" "Static_Assets.ascii_lower ch \<noteq> CHR ''_''"
  using assms
  by (auto simp: is_alphanumeric_def is_lower_def is_upper_def is_digit_def Static_Assets.ascii_lower_def Let_def
      dest!: arg_cong [of _ "CHR ''_''" "of_char :: char \<Rightarrow> nat"])

lemma identifier_scan_part: "identifier_part out \<Longrightarrow> identifier_part (identifier_scan s out sep)"
proof (induction s out sep rule: identifier_scan.induct)
  case (2 ch cs out sep)
  have "identifier_part ((if out = [] \<and> is_digit ch then ''_'' else out) @ [Static_Assets.ascii_lower ch])"
    if "is_alphanumeric ch"
    using 2(4) lower_of_alphanumeric [OF that]
    by (auto simp: identifier_part_def is_identifier_def is_digit_def [of "CHR ''_''"])
  moreover have "identifier_part (out @ ''_'')" if "out \<noteq> []"
    using 2(4) that by (auto simp: identifier_part_def is_identifier_def)
  ultimately show ?case using 2 by simp
qed (simp add: identifier_part_def)

lemma dropWhile_rev_part:
  assumes "identifier_part s"
  shows "identifier_part (rev (dropWhile (\<lambda>ch. ch = CHR ''_'') (rev s)))"
proof -
  let ?t = "rev (dropWhile (\<lambda>ch. ch = CHR ''_'') (rev s))"
  have s: "s = ?t @ rev (takeWhile (\<lambda>ch. ch = CHR ''_'') (rev s))"
    by (metis rev_append rev_rev_ident takeWhile_dropWhile_id)
  have sub: "set ?t \<subseteq> set s" by (subst (2) s) auto
  show ?thesis
  proof (cases "?t = []")
    case False
    then have "hd ?t = hd s" by (subst (2) s) simp
    moreover have "last ?t \<noteq> CHR ''_''"
      using False hd_dropWhile [of "\<lambda>ch. ch = CHR ''_''" "rev s"] by (simp add: last_rev)
    ultimately show ?thesis
      using assms False sub last_in_set [OF False]
      by (fastforce simp: identifier_part_def is_identifier_def list_all_iff)
  qed (simp add: identifier_part_def)
qed

lemma operation_identifier: "is_identifier ''operation''"
  by (simp add: is_identifier_def is_lower_def is_digit_def)

theorem rust_identifier_valid: "is_identifier (rust_identifier s)"
  using dropWhile_rev_part [OF identifier_scan_part [of "[]" s False]]
  unfolding rust_identifier_def Let_def identifier_part_def [of "rev _"]
  by (simp add: operation_identifier identifier_part_def [of "[]"]) blast

text \<open>
  The mapping to identifiers is not injective and knows no keywords: two operations of a document may get the
  same stub, or one that does not compile.
\<close>

lemma identifiers_collide:
  "rust_identifier ''get-user'' = rust_identifier ''get_user''" "rust_identifier ''match'' = ''match''"
  by code_simp+

text \<open>A name of digits is a valid DNS label, and the manifest holds it unquoted, where YAML reads a number.\<close>

lemma numeric_name_accepted: "validate_dns_name ''123'' = Inr ()"
  by code_simp

text \<open>The literal of a path closes at its last character only: a path cannot leave the string it is quoted in.\<close>

fun literal_rest :: "string \<Rightarrow> string option" where
  "literal_rest [] = None"
| "literal_rest (ch # cs) =
     (if ch = CHR 0x22 then Some cs
      else if ch = CHR 0x5C then (case cs of [] \<Rightarrow> None | _ # ds \<Rightarrow> literal_rest ds)
      else literal_rest cs)"

lemma hex_digit_plain: "d < 16 \<Longrightarrow> hex_digit d \<noteq> CHR 0x22 \<and> hex_digit d \<noteq> CHR 0x5C"
  by (auto simp: hex_digit_def dest!: arg_cong [of _ "CHR 0x22" "of_char :: char \<Rightarrow> nat"]
      arg_cong [of _ "CHR 0x5C" "of_char :: char \<Rightarrow> nat"])

lemma literal_rest_char: "literal_rest (debug_char ch @ cs) = literal_rest cs"
  using hex_digit_plain [of "of_char ch"] hex_digit_plain [of "of_char ch div 16"] hex_digit_plain [of "of_char ch mod 16"]
  by (auto simp: debug_char_def Let_def)

theorem path_literal_closed: "literal_rest (tl (debug_text s) @ rest) = Some rest"
  by (induction s) (simp_all add: debug_text_def literal_rest_char)

text \<open>The routes do not depend on the order in which the document lists its paths.\<close>

theorem openapi_order_irrelevant:
  assumes "mset paths = mset paths'"
  shows "routes_text (openapi_operations paths) = routes_text (openapi_operations paths')"
proof -
  have "mset (concat (map (\<lambda>(path, item). path_operations path item) paths)) =
        mset (concat (map (\<lambda>(path, item). path_operations path item) paths'))"
    by (simp add: mset_concat assms flip: sum_mset_sum_list)
  then show ?thesis
    unfolding openapi_operations_def by (metis properties_for_sort mset_sort sorted_sort)
qed

end
