(* ===== verification/Telemetry.thy ===== *)
theory Telemetry
  imports Http_Client Binary64
begin

text \<open>
  \<open>core/src/telemetry.rs\<close>, and the layers of \<open>rest/src/trace.rs\<close> and \<open>rpc/src/trace.rs\<close> that record spans:
  configuration, the provider that is installed, and the life of a span around a call. The OpenTelemetry library
  is an argument: how it builds exporters, reads a \<open>traceparent\<close> and names a new span.
\<close>

section \<open>Configuration\<close>

datatype otlp_transport = OtlpGrpc | OtlpHttpBinary

record telemetry_config =
  tl_service_name :: string
  tl_endpoint :: string
  tl_transport :: otlp_transport
  tl_sample_ratio :: f64
  tl_export_timeout :: nat

definition telemetry_config_new :: "string \<Rightarrow> string \<Rightarrow> otlp_transport \<Rightarrow> telemetry_config" where
  "telemetry_config_new service_name endpoint transport =
     \<lparr>tl_service_name = service_name, tl_endpoint = endpoint, tl_transport = transport, tl_sample_ratio = Fin 1,
      tl_export_timeout = 10 * nanos_per_sec\<rparr>"

definition with_sample_ratio :: "f64 \<Rightarrow> telemetry_config \<Rightarrow> telemetry_config" where
  "with_sample_ratio ratio c = c\<lparr>tl_sample_ratio := ratio\<rparr>"

definition with_export_timeout :: "nat \<Rightarrow> telemetry_config \<Rightarrow> telemetry_config" where
  "with_export_timeout timeout c = c\<lparr>tl_export_timeout := timeout\<rparr>"

datatype telemetry_error =
    EmptyTelemetryService | EmptyEndpoint | InvalidSampleRatio | InvalidExportTimeout
  | ExporterError string | FlushError string | ShutdownError string

fun telemetry_error_display :: "telemetry_error \<Rightarrow> string" where
  "telemetry_error_display EmptyTelemetryService = ''telemetry service name cannot be empty''"
| "telemetry_error_display EmptyEndpoint = ''telemetry endpoint cannot be empty''"
| "telemetry_error_display InvalidSampleRatio = ''telemetry sample ratio must be between zero and one''"
| "telemetry_error_display InvalidExportTimeout = ''telemetry export timeout must be greater than zero''"
| "telemetry_error_display (ExporterError e) = ''telemetry exporter error: '' @ e"
| "telemetry_error_display (FlushError e) = ''telemetry flush error: '' @ e"
| "telemetry_error_display (ShutdownError e) = ''telemetry shutdown error: '' @ e"

fun f_is_finite :: "f64 \<Rightarrow> bool" where
  "f_is_finite (Fin _) = True"
| "f_is_finite _ = False"

definition validate_service_and_ratio :: "string \<Rightarrow> f64 \<Rightarrow> telemetry_error + unit" where
  "validate_service_and_ratio service_name ratio =
     (if is_blank service_name then Inl EmptyTelemetryService
      else if \<not> (f_le (Fin 0) ratio \<and> f_le ratio (Fin 1)) \<or> \<not> f_is_finite ratio then Inl InvalidSampleRatio
      else Inr ())"

definition telemetry_validate_config :: "telemetry_config \<Rightarrow> telemetry_error + unit" where
  "telemetry_validate_config c =
     and_then (validate_service_and_ratio (tl_service_name c) (tl_sample_ratio c)) (\<lambda>_.
       if is_blank (tl_endpoint c) then Inl EmptyEndpoint
       else if tl_export_timeout c = 0 then Inl InvalidExportTimeout
       else Inr ())"

text \<open>The provider, and the globals it is installed as.\<close>

record 'e provider =
  pv_sample_ratio :: f64
  pv_service_name :: string
  pv_exporter :: "'e option"

record 'e otel_globals =
  og_trace_context_propagator :: bool
  og_provider :: "'e provider option"

definition telemetry_install :: "string \<Rightarrow> f64 \<Rightarrow> 'e option \<Rightarrow> 'e otel_globals \<Rightarrow> 'e provider \<times> 'e otel_globals" where
  "telemetry_install service_name ratio exporter g =
     (let p = \<lparr>pv_sample_ratio = ratio, pv_service_name = service_name, pv_exporter = exporter\<rparr> in
      (p, g\<lparr>og_trace_context_propagator := True, og_provider := Some p\<rparr>))"

definition telemetry_init ::
  "(otlp_transport \<Rightarrow> string \<Rightarrow> nat \<Rightarrow> string + 'e) \<Rightarrow> telemetry_config \<Rightarrow> 'e otel_globals \<Rightarrow> (telemetry_error + 'e provider) \<times> 'e otel_globals" where
  "telemetry_init build c g =
     (case telemetry_validate_config c of
        Inl e \<Rightarrow> (Inl e, g)
      | Inr _ \<Rightarrow>
          (case build (tl_transport c) (tl_endpoint c) (tl_export_timeout c) of
             Inl e \<Rightarrow> (Inl (ExporterError e), g)
           | Inr x \<Rightarrow> (case telemetry_install (tl_service_name c) (tl_sample_ratio c) (Some x) g of (p, g') \<Rightarrow> (Inr p, g'))))"

definition telemetry_local :: "string \<Rightarrow> f64 \<Rightarrow> 'e otel_globals \<Rightarrow> (telemetry_error + 'e provider) \<times> 'e otel_globals" where
  "telemetry_local service_name ratio g =
     (case validate_service_and_ratio service_name ratio of
        Inl e \<Rightarrow> (Inl e, g)
      | Inr _ \<Rightarrow> (case telemetry_install service_name ratio None g of (p, g') \<Rightarrow> (Inr p, g')))"

section \<open>Spans\<close>

datatype span_kind = ClientSpan | ServerSpan | InternalSpan | ProducerSpan | ConsumerSpan

record span_context =
  sx_trace_id :: "8 word list"
  sx_span_id :: "8 word list"
  sx_flags :: "8 word"

definition sx_valid :: "span_context \<Rightarrow> bool" where
  "sx_valid x \<longleftrightarrow> \<not> all_zero (sx_trace_id x) \<and> \<not> all_zero (sx_span_id x)"

text \<open>
  The library: \<open>ot_extract\<close> reads the header of a parent, \<open>ot_start\<close> names a new span under it. \<open>ends\<close> of a span
  is how often it was told to end.
\<close>

record otel =
  ot_extract :: "string \<Rightarrow> span_context option"
  ot_start :: "span_context option \<Rightarrow> span_context"

record telemetry_span =
  ts_name :: string
  ts_kind :: span_kind
  ts_attributes :: "(string \<times> string) list"
  ts_error :: "string option"
  ts_trace_context :: "trace_context option"
  ts_ended :: bool
  ts_ends :: nat

definition carrier_get :: "string \<Rightarrow> string \<Rightarrow> string option" where
  "carrier_get header key = (if map ascii_lower key = ''traceparent'' then Some header else None)"

definition parent_otel_context :: "otel \<Rightarrow> trace_context \<Rightarrow> span_context option" where
  "parent_otel_context ot parent = Option.bind (carrier_get (traceparent parent) ''traceparent'') (ot_extract ot)"

definition context_text :: "span_context \<Rightarrow> string" where
  "context_text x = ''00-'' @ encode_hex (sx_trace_id x) @ ''-'' @ encode_hex (sx_span_id x) @ ''-'' @ encode_byte (sx_flags x)"

text \<open>The outer \<open>None\<close> of the parser, a panic, does not occur on these texts (\<open>context_text_total\<close>).\<close>

definition to_rust_zero_context :: "span_context \<Rightarrow> trace_context option" where
  "to_rust_zero_context x =
     (if \<not> sx_valid x then None
      else case trace_parse (context_text x) of Some (Inr c) \<Rightarrow> Some c | _ \<Rightarrow> None)"

definition span_start :: "otel \<Rightarrow> string \<Rightarrow> span_kind \<Rightarrow> trace_context option \<Rightarrow> (string \<times> string) list \<Rightarrow> telemetry_span" where
  "span_start ot name kind parent attributes =
     \<lparr>ts_name = name, ts_kind = kind, ts_attributes = attributes, ts_error = None,
      ts_trace_context = to_rust_zero_context (ot_start ot (Option.bind parent (parent_otel_context ot))),
      ts_ended = False, ts_ends = 0\<rparr>"

definition span_set_attribute :: "string \<Rightarrow> string \<Rightarrow> telemetry_span \<Rightarrow> telemetry_span" where
  "span_set_attribute k v s = s\<lparr>ts_attributes := ts_attributes s @ [(k, v)]\<rparr>"

definition span_set_error :: "string \<Rightarrow> telemetry_span \<Rightarrow> telemetry_span" where
  "span_set_error description s = s\<lparr>ts_error := Some description\<rparr>"

definition span_finish :: "telemetry_span \<Rightarrow> telemetry_span" where
  "span_finish s = (if ts_ended s then s else s\<lparr>ts_ends := Suc (ts_ends s), ts_ended := True\<rparr>)"

text \<open>\<open>end\<close> takes the span, so its destructor runs after it.\<close>

definition span_drop :: "telemetry_span \<Rightarrow> telemetry_span" where
  "span_drop s = span_finish s"

definition span_end :: "telemetry_span \<Rightarrow> telemetry_span" where
  "span_end s = span_drop (span_finish s)"

section \<open>The layers\<close>

text \<open>\<open>None\<close> is a future that is dropped before it completes; an error of the service has its text.\<close>

definition header_context :: "string option \<Rightarrow> trace_context option" where
  "header_context header =
     (case Option.bind header to_str of
        None \<Rightarrow> None
      | Some v \<Rightarrow> (case trace_parse v of Some (Inr c) \<Rightarrow> Some c | _ \<Rightarrow> None))"

definition otel_service_call ::
  "otel \<Rightarrow> fresh_ids \<Rightarrow> (trace_context \<Rightarrow> call_result option) \<Rightarrow> string \<Rightarrow> string \<Rightarrow> string \<Rightarrow> headers \<Rightarrow> call_result option \<times> telemetry_span" where
  "otel_service_call ot ids inner verb path host hs =
     (let sp = span_start ot (verb @ '' '' @ path) ServerSpan (header_context (header_first ''traceparent'' hs))
            [(''http.request.method'', verb), (''url.path'', path), (''server.address'', host)];
          context = (case ts_trace_context sp of None \<Rightarrow> sampled_root ids | Some c \<Rightarrow> c) in
      case inner context of
        Some (Responded resp) \<Rightarrow>
          let s1 = span_set_attribute ''http.response.status_code'' (show_nat (hs_status resp)) sp;
              s2 = (if 500 \<le> hs_status resp then span_set_error (''HTTP '' @ show_nat (hs_status resp)) s1 else s1) in
          (Some (Responded (resp\<lparr>hs_headers := header_insert ''traceparent'' (traceparent context) (hs_headers resp)\<rparr>)), span_end s2)
      | Some (Errored status text) \<Rightarrow> (Some (Errored status text), span_end (span_set_error text sp))
      | other \<Rightarrow> (other, span_drop sp))"

datatype rpc_telemetry_mode = TelemetryClient | TelemetryServer

text \<open>A gRPC response as the layer sees it: the status and headers, and the trailers that follow the body.\<close>

record rpc_reply =
  rp_status :: nat
  rp_headers :: headers
  rp_trailers :: headers

datatype rpc_outcome = RpcReplied rpc_reply | RpcErrored string | RpcDropped

definition rpc_telemetry_request ::
  "rpc_telemetry_mode \<Rightarrow> telemetry_span \<Rightarrow> headers \<Rightarrow> trace_context option \<Rightarrow> headers \<times> trace_context option" where
  "rpc_telemetry_request mode sp hs ext =
     (case ts_trace_context sp of
        None \<Rightarrow> (hs, ext)
      | Some c \<Rightarrow> (if mode = TelemetryClient then header_insert ''traceparent'' (traceparent c) hs else hs, Some c))"

definition rpc_telemetry_finish :: "rpc_outcome \<Rightarrow> telemetry_span \<Rightarrow> telemetry_span" where
  "rpc_telemetry_finish outcome sp =
     (case outcome of
        RpcReplied r \<Rightarrow>
          let s1 = span_set_attribute ''http.response.status_code'' (show_nat (rp_status r)) sp in
          (case Option.bind (header_first ''grpc-status'' (rp_headers r)) to_str of
             None \<Rightarrow> span_end s1
           | Some status \<Rightarrow>
               let s2 = span_set_attribute ''rpc.grpc.status_code'' status s1 in
               span_end (if status \<noteq> ''0'' then span_set_error (''gRPC status '' @ status) s2 else s2))
      | RpcErrored e \<Rightarrow> span_end (span_set_error e sp)
      | RpcDropped \<Rightarrow> span_drop sp)"

definition rpc_telemetry_call ::
  "otel \<Rightarrow> rpc_telemetry_mode \<Rightarrow> (headers \<Rightarrow> trace_context option \<Rightarrow> rpc_outcome) \<Rightarrow> string \<Rightarrow> headers \<Rightarrow> trace_context option \<Rightarrow>
   rpc_outcome \<times> telemetry_span" where
  "rpc_telemetry_call ot mode inner path hs ext =
     (let parent = (case ext of Some c \<Rightarrow> Some c | None \<Rightarrow> header_context (header_first ''traceparent'' hs));
          sp = span_start ot path (case mode of TelemetryClient \<Rightarrow> ClientSpan | TelemetryServer \<Rightarrow> ServerSpan) parent
            [(''rpc.system'', ''grpc''), (''rpc.method'', path)];
          (hs', ext') = rpc_telemetry_request mode sp hs ext;
          outcome = inner hs' ext' in
      (outcome, rpc_telemetry_finish outcome sp))"

section \<open>Properties\<close>

text \<open>A ratio that passes is a number from zero to one: infinities and NaN are refused.\<close>

lemma ratio_accepted:
  "telemetry_validate_config c = Inr () \<longleftrightarrow>
     \<not> is_blank (tl_service_name c) \<and> (\<exists>x. tl_sample_ratio c = Fin x \<and> 0 \<le> x \<and> x \<le> 1) \<and>
     \<not> is_blank (tl_endpoint c) \<and> 0 < tl_export_timeout c"
  by (cases "tl_sample_ratio c")
    (auto simp: telemetry_validate_config_def validate_service_and_ratio_def f_le_def and_then_Inr split: if_splits)

text \<open>A provider that is returned is the installed one; an error leaves the installed provider alone.\<close>

theorem telemetry_init_installs:
  assumes "telemetry_init build c g = (r, g')"
  shows "(\<exists>e. r = Inl e) \<and> g' = g \<or>
    (\<exists>p. r = Inr p \<and> og_provider g' = Some p \<and> og_trace_context_propagator g' \<and> pv_sample_ratio p = tl_sample_ratio c \<and>
      telemetry_validate_config c = Inr ())"
  using assms
  by (auto simp: telemetry_init_def telemetry_install_def Let_def split: sum.splits)

text \<open>Whatever happens to a call, its span ends exactly once.\<close>

lemma span_ends [simp]:
  "\<not> ts_ended s \<Longrightarrow> ts_ends (span_end s) = Suc (ts_ends s)" "\<not> ts_ended s \<Longrightarrow> ts_ends (span_drop s) = Suc (ts_ends s)"
  "ts_ended (span_end s)" "ts_ended (span_drop s)"
  by (simp_all add: span_end_def span_drop_def span_finish_def)

lemma span_marks [simp]:
  "ts_ended (span_set_error e s) = ts_ended s" "ts_ends (span_set_error e s) = ts_ends s"
  "ts_ended (span_set_attribute k v s) = ts_ended s" "ts_ends (span_set_attribute k v s) = ts_ends s"
  "ts_error (span_end s) = ts_error s" "ts_error (span_drop s) = ts_error s"
  "ts_error (span_set_error e s) = Some e" "ts_error (span_set_attribute k v s) = ts_error s"
  by (simp_all add: span_set_error_def span_set_attribute_def span_end_def span_drop_def span_finish_def)

lemma span_start_open [simp]:
  "\<not> ts_ended (span_start ot n k p as)" "ts_ends (span_start ot n k p as) = 0" "ts_error (span_start ot n k p as) = None"
  by (simp_all add: span_start_def)

theorem http_span_ends_once: "ts_ends (snd (otel_service_call ot ids inner verb path host hs)) = 1"
  by (auto simp: otel_service_call_def Let_def split: option.split call_result.split)

theorem rpc_span_ends_once: "ts_ends (snd (rpc_telemetry_call ot mode inner path hs ext)) = 1"
  by (auto simp: rpc_telemetry_call_def rpc_telemetry_finish_def Let_def split: option.split rpc_outcome.split prod.split)

text \<open>The span of a request is an error exactly when the service failed or answered with a status from 500 on.\<close>

theorem http_span_error_iff:
  assumes "otel_service_call ot ids inner verb path host hs = (Some result, sp)"
  shows "ts_error sp \<noteq> None \<longleftrightarrow>
    (case result of Responded resp \<Rightarrow> 500 \<le> hs_status resp | Errored status text \<Rightarrow> True | Panicked \<Rightarrow> False)"
  using assms
  by (auto simp: otel_service_call_def Let_def split: option.splits call_result.splits if_splits)

text \<open>
  The trailers are not looked at: a call whose status comes after its messages, as every failing call that has
  sent a message does, leaves a span without an error and without a status.
\<close>

theorem trailer_status_ignored:
  assumes "header_first ''grpc-status'' (rp_headers r) = None"
  shows "rpc_telemetry_finish (RpcReplied r) sp =
      span_end (span_set_attribute ''http.response.status_code'' (show_nat (rp_status r)) sp)"
  using assms by (simp add: rpc_telemetry_finish_def)

text \<open>
  What the library documents: it reads back the header of a valid context, and a span under a valid parent is valid
  and belongs to the parent's trace.
\<close>

definition context_of :: "span_context \<Rightarrow> trace_context" where
  "context_of x = \<lparr>tc_trace_id = sx_trace_id x, tc_span_id = sx_span_id x, tc_parent_span_id = None, tc_flags = TraceFlags (sx_flags x)\<rparr>"

definition sx_of :: "trace_context \<Rightarrow> span_context" where
  "sx_of c = \<lparr>sx_trace_id = tc_trace_id c, sx_span_id = tc_span_id c, sx_flags = flag_bits (tc_flags c)\<rparr>"

definition otel_documented :: "otel \<Rightarrow> bool" where
  "otel_documented ot \<longleftrightarrow>
     (\<forall>c. trace_ok c \<longrightarrow> ot_extract ot (traceparent c) = Some (sx_of c)) \<and>
     (\<forall>p. sx_valid p \<longrightarrow> sx_trace_id (ot_start ot (Some p)) = sx_trace_id p \<and> sx_valid (ot_start ot (Some p)) \<and>
        length (sx_span_id (ot_start ot (Some p))) = 8)"

lemma context_text_traceparent: "context_text x = traceparent (context_of x)"
  by (simp add: context_text_def context_of_def traceparent_def)

lemma context_text_total: "trace_parse (context_text x) \<noteq> None"
  by (simp add: context_text_traceparent trace_parse_total visible_traceparent del: not_None_eq)

lemma to_rust_zero_context_valid:
  assumes "sx_valid x" "length (sx_trace_id x) = 16" "length (sx_span_id x) = 8"
  shows "to_rust_zero_context x = Some (context_of x)"
proof -
  have "trace_ok (context_of x)" using assms by (simp add: trace_ok_def context_of_def sx_valid_def)
  from parse_traceparent [OF this] show ?thesis
    using assms(1) by (simp add: to_rust_zero_context_def context_text_traceparent context_of_def)
qed

lemma span_start_continues:
  assumes "otel_documented ot" "trace_ok c"
  shows "\<exists>ctx. ts_trace_context (span_start ot n k (Some c) as) = Some ctx \<and> tc_trace_id ctx = tc_trace_id c \<and> trace_ok ctx"
proof -
  let ?x = "ot_start ot (Some (sx_of c))"
  have valid: "sx_valid (sx_of c)" "length (tc_trace_id c) = 16"
    using assms(2) by (simp_all add: sx_valid_def sx_of_def trace_ok_def)
  then have x: "sx_trace_id ?x = tc_trace_id c" "sx_valid ?x" "length (sx_span_id ?x) = 8"
    using assms(1) by (auto simp: otel_documented_def sx_of_def)
  have "ts_trace_context (span_start ot n k (Some c) as) = to_rust_zero_context ?x"
    using assms by (simp add: span_start_def parent_otel_context_def carrier_get_def ascii_lower_def otel_documented_def)
  also have "\<dots> = Some (context_of ?x)"
    using x valid by (simp add: to_rust_zero_context_valid)
  finally show ?thesis
    using x valid by (auto simp: context_of_def trace_ok_def sx_valid_def)
qed

lemma header_context_traceparent:
  "trace_ok c \<Longrightarrow> header_context (Some (traceparent c)) = Some (c\<lparr>tc_parent_span_id := None\<rparr>)"
  using parse_traceparent [of c] by (simp add: header_context_def to_str_visible visible_traceparent)

text \<open>
  Over a library that does what it documents, a request that names a trace is served in that trace, and its
  response names it: the trace of the caller continues.
\<close>

theorem telemetry_trace_continues:
  assumes "otel_documented ot" "trace_ok c" "header_first ''traceparent'' hs = Some (traceparent c)"
  shows "\<exists>ctx. tc_trace_id ctx = tc_trace_id c \<and> trace_ok ctx \<and>
    (\<forall>resp. inner ctx = Some (Responded resp) \<longrightarrow>
      (\<exists>out. fst (otel_service_call ot ids inner verb path host hs) = Some (Responded out) \<and> hs_status out = hs_status resp \<and>
        header_first ''traceparent'' (hs_headers out) = Some (traceparent ctx)))"
proof -
  let ?parent = "c\<lparr>tc_parent_span_id := None\<rparr>"
  have parent: "header_context (header_first ''traceparent'' hs) = Some ?parent" "trace_ok ?parent"
    using assms(2,3) by (simp_all add: header_context_traceparent trace_ok_def)
  obtain ctx where ctx: "ts_trace_context (span_start ot (verb @ '' '' @ path) ServerSpan (Some ?parent)
        [(''http.request.method'', verb), (''url.path'', path), (''server.address'', host)]) = Some ctx"
      "tc_trace_id ctx = tc_trace_id c" "trace_ok ctx"
    using span_start_continues [OF assms(1) parent(2)] by fastforce
  then show ?thesis
    by (intro exI [of _ ctx]) (auto simp: otel_service_call_def Let_def parent(1) header_first_insert)
qed

text \<open>The client side: the header that is sent names the trace of the caller.\<close>

theorem rpc_client_injects:
  assumes "otel_documented ot" "trace_ok c"
  shows "\<exists>ctx. tc_trace_id ctx = tc_trace_id c \<and> trace_ok ctx \<and>
    fst (rpc_telemetry_call ot TelemetryClient inner path hs (Some c)) =
      inner (header_insert ''traceparent'' (traceparent ctx) hs) (Some ctx)"
proof -
  obtain ctx where ctx: "ts_trace_context (span_start ot path ClientSpan (Some c) [(''rpc.system'', ''grpc''), (''rpc.method'', path)]) = Some ctx"
      "tc_trace_id ctx = tc_trace_id c" "trace_ok ctx"
    using span_start_continues [OF assms] by blast
  then show ?thesis
    by (intro exI [of _ ctx]) (simp add: rpc_telemetry_call_def rpc_telemetry_request_def Let_def)
qed

end
