(* ===== verification/Profiler.thy ===== *)
theory Profiler
  imports Load
begin

text \<open>
  \<open>core/src/continuous_profile.rs\<close>: the monitor that starts a profiling agent when the process uses much CPU and
  stops it after one window. The agent of the Pyroscope library is an argument: what building, starting and
  stopping it answer. One round of the loop is one step over what it observes.
\<close>

section \<open>Configuration\<close>

record profile_config =
  pc_server_address :: string
  pc_application_name :: string
  pc_auth_user :: "string option"
  pc_auth_password :: "string option"
  pc_tags :: "(string \<times> string) list"
  pc_sample_rate :: nat
  pc_check_interval_ms :: nat
  pc_profiling_duration_ms :: nat
  pc_cpu_threshold :: f64

definition profile_config_new :: "string \<Rightarrow> string \<Rightarrow> profile_config" where
  "profile_config_new server_address application_name =
     \<lparr>pc_server_address = server_address, pc_application_name = application_name, pc_auth_user = None,
      pc_auth_password = None, pc_tags = [], pc_sample_rate = 100, pc_check_interval_ms = 10000,
      pc_profiling_duration_ms = 120000, pc_cpu_threshold = mk (7 / 10)\<rparr>"

datatype profile_error = InvalidConfig string | AgentError string | SpawnError string | WorkerPanicked

fun profile_error_display :: "profile_error \<Rightarrow> string" where
  "profile_error_display (InvalidConfig m) = ''invalid profiling config: '' @ m"
| "profile_error_display (AgentError e) = ''Pyroscope agent failed: '' @ e"
| "profile_error_display (SpawnError e) = ''failed to spawn profiling worker: '' @ e"
| "profile_error_display WorkerPanicked = ''profiling worker panicked''"

definition has_prefix :: "string \<Rightarrow> string \<Rightarrow> bool" where
  "has_prefix p s \<longleftrightarrow> take (length p) s = p"

definition profile_validate :: "profile_config \<Rightarrow> profile_error + unit" where
  "profile_validate c =
     (if is_blank (pc_server_address c) then Inl (InvalidConfig ''server_address cannot be empty'')
      else if \<not> (has_prefix ''http://'' (pc_server_address c) \<or> has_prefix ''https://'' (pc_server_address c))
        then Inl (InvalidConfig ''server_address must use http:// or https://'')
      else if is_blank (pc_application_name c) then Inl (InvalidConfig ''application_name cannot be empty'')
      else if pc_sample_rate c = 0 then Inl (InvalidConfig ''sample_rate must be greater than zero'')
      else if pc_check_interval_ms c = 0 then Inl (InvalidConfig ''check_interval_ms must be greater than zero'')
      else if pc_profiling_duration_ms c = 0 then Inl (InvalidConfig ''profiling_duration_ms must be greater than zero'')
      else if \<not> (f_le (Fin 0) (pc_cpu_threshold c) \<and> f_le (pc_cpu_threshold c) (Fin 1))
        then Inl (InvalidConfig ''cpu_threshold must be between zero and one'')
      else if (pc_auth_user c \<noteq> None) \<noteq> (pc_auth_password c \<noteq> None)
        then Inl (InvalidConfig ''auth_user and auth_password must be configured together'')
      else if list_ex (\<lambda>(k, _). is_blank k) (pc_tags c) then Inl (InvalidConfig ''profile tag keys cannot be empty'')
      else Inr ())"

text \<open>What an agent is built from.\<close>

record agent_settings =
  ag_server :: string
  ag_application :: string
  ag_sample_rate :: nat
  ag_basic_auth :: "(string \<times> string) option"
  ag_tags :: "(string \<times> string) list"

definition build_agent :: "profile_config \<Rightarrow> agent_settings" where
  "build_agent c =
     \<lparr>ag_server = pc_server_address c, ag_application = pc_application_name c, ag_sample_rate = pc_sample_rate c,
      ag_basic_auth = (case (pc_auth_user c, pc_auth_password c) of (Some u, Some p) \<Rightarrow> Some (u, p) | _ \<Rightarrow> None),
      ag_tags = pc_tags c\<rparr>"

section \<open>The worker\<close>

text \<open>
  The agents started and stopped so far, the running one with its start, and how the worker ended. A round sees
  the answer of the channel, the time, the CPU usage, and what the agent library answers if it is asked; the
  second time is the one read after the agent has started.
\<close>

datatype signal = StopSignal | ChannelClosed | IntervalElapsed

record observation =
  ob_signal :: signal
  ob_now :: nat
  ob_usage :: f64
  ob_build :: "string option"
  ob_start :: "string option"
  ob_started :: nat
  ob_stop :: "string option"

record profiler =
  pf_running :: "nat option"
  pf_started :: nat
  pf_stopped :: nat
  pf_result :: "(profile_error + unit) option"

definition profiler_new :: profiler where
  "profiler_new = \<lparr>pf_running = None, pf_started = 0, pf_stopped = 0, pf_result = None\<rparr>"

text \<open>An agent that is told to stop is gone whether or not it says that it failed.\<close>

definition stop_agent :: "string option \<Rightarrow> profiler \<Rightarrow> profiler" where
  "stop_agent answer p =
     (let p' = p\<lparr>pf_running := None, pf_stopped := Suc (pf_stopped p)\<rparr> in
      case answer of None \<Rightarrow> p' | Some e \<Rightarrow> p'\<lparr>pf_result := Some (Inl (AgentError e))\<rparr>)"

definition worker_finish :: "observation \<Rightarrow> profiler \<Rightarrow> profiler" where
  "worker_finish ob p =
     (let p' = (if pf_running p = None then p else stop_agent (ob_stop ob) p) in
      if pf_result p' = None then p'\<lparr>pf_result := Some (Inr ())\<rparr> else p')"

definition worker_check :: "profile_config \<Rightarrow> observation \<Rightarrow> profiler \<Rightarrow> profiler" where
  "worker_check c ob p =
     (case pf_running p of
        None \<Rightarrow>
          if f_le (pc_cpu_threshold c) (ob_usage ob)
          then case ob_build ob of
            Some e \<Rightarrow> p\<lparr>pf_result := Some (Inl (AgentError e))\<rparr>
          | None \<Rightarrow>
              (case ob_start ob of
                 Some e \<Rightarrow> p\<lparr>pf_result := Some (Inl (AgentError e))\<rparr>
               | None \<Rightarrow> p\<lparr>pf_running := Some (ob_started ob), pf_started := Suc (pf_started p)\<rparr>)
          else p
      | Some started_at \<Rightarrow>
          if duration_from_millis (pc_profiling_duration_ms c) \<le> ob_now ob - started_at then stop_agent (ob_stop ob) p else p)"

definition worker_round :: "profile_config \<Rightarrow> observation \<Rightarrow> profiler \<Rightarrow> profiler" where
  "worker_round c ob p =
     (if pf_result p \<noteq> None then p
      else case ob_signal ob of
        IntervalElapsed \<Rightarrow> worker_check c ob p
      | _ \<Rightarrow> worker_finish ob p)"

fun worker_run :: "profile_config \<Rightarrow> observation list \<Rightarrow> profiler \<Rightarrow> profiler" where
  "worker_run c [] p = p"
| "worker_run c (ob # obs) p = worker_run c obs (worker_round c ob p)"

text \<open>\<open>start\<close>: the configuration is validated before the worker is spawned.\<close>

definition profiler_start :: "string option \<Rightarrow> profile_config \<Rightarrow> profile_error + profiler" where
  "profiler_start spawn_error c =
     and_then (profile_validate c) (\<lambda>_. case spawn_error of Some e \<Rightarrow> Inl (SpawnError e) | None \<Rightarrow> Inr profiler_new)"

text \<open>\<open>join_worker\<close>: the result of the worker once; \<open>None\<close> is a worker that panicked.\<close>

fun join_worker :: "(profile_error + unit) option option \<Rightarrow> (profile_error + unit) \<times> (profile_error + unit) option option" where
  "join_worker None = (Inr (), None)"
| "join_worker (Some None) = (Inl WorkerPanicked, None)"
| "join_worker (Some (Some r)) = (r, None)"

section \<open>Properties\<close>

text \<open>At most one agent runs: the started and the stopped ones differ by the running one.\<close>

definition profiler_ok :: "profiler \<Rightarrow> bool" where
  "profiler_ok p \<longleftrightarrow> pf_started p = pf_stopped p + (if pf_running p = None then 0 else 1)"

lemma profiler_ok_new [simp]: "profiler_ok profiler_new"
  by (simp add: profiler_ok_def profiler_new_def)

lemma stop_agent_ok: "profiler_ok p \<Longrightarrow> pf_running p \<noteq> None \<Longrightarrow> profiler_ok (stop_agent answer p)"
  by (auto simp: profiler_ok_def stop_agent_def Let_def split: option.split)

lemma worker_round_ok: "profiler_ok p \<Longrightarrow> profiler_ok (worker_round c ob p)"
proof -
  assume ok: "profiler_ok p"
  have "profiler_ok (worker_finish ob p)"
    using ok stop_agent_ok [OF ok, of "ob_stop ob"] by (auto simp: worker_finish_def Let_def profiler_ok_def)
  moreover have "profiler_ok (worker_check c ob p)"
    using ok stop_agent_ok [OF ok, of "ob_stop ob"] by (auto simp: worker_check_def profiler_ok_def split: option.split)
  ultimately show ?thesis
    using ok by (simp add: worker_round_def split: signal.split)
qed

theorem profiler_one_agent: "profiler_ok p \<Longrightarrow> profiler_ok (worker_run c obs p)"
  by (induction obs arbitrary: p) (simp_all add: worker_round_ok)

text \<open>After a stop or the end of the handle no agent is left running, and the worker has a result.\<close>

lemma worker_finish_ends: "pf_running (worker_finish ob p) = None" "pf_result (worker_finish ob p) \<noteq> None"
  by (simp_all add: worker_finish_def stop_agent_def Let_def split: option.split)

lemma worker_run_ended: "pf_result p \<noteq> None \<Longrightarrow> worker_run c obs p = p"
  by (induction obs) (simp_all add: worker_round_def)

lemma result_not_running:
  "pf_result p = None \<Longrightarrow> pf_result (worker_round c ob p) \<noteq> None \<Longrightarrow> pf_running (worker_round c ob p) = None"
  by (auto simp: worker_round_def worker_finish_ends worker_check_def stop_agent_def Let_def split: signal.splits option.splits if_splits)

lemma worker_run_result_idle:
  assumes "pf_result p = None" "pf_result (worker_run c obs p) \<noteq> None"
  shows "pf_running (worker_run c obs p) = None"
  using assms
proof (induction obs arbitrary: p)
  case (Cons ob obs)
  then show ?case
    by (cases "pf_result (worker_round c ob p)") (auto simp: worker_run_ended result_not_running)
qed simp

theorem profiler_stops:
  assumes "ob_signal ob \<noteq> IntervalElapsed" "pf_result p = None"
  shows "pf_running (worker_run c (obs @ ob # rest) p) = None \<and> pf_result (worker_run c (obs @ ob # rest) p) \<noteq> None"
proof -
  have app: "worker_run c (xs @ ys) q = worker_run c ys (worker_run c xs q)" for xs ys q
    by (induction xs arbitrary: q) simp_all
  let ?q = "worker_round c ob (worker_run c obs p)"
  have "pf_result ?q \<noteq> None"
    using assms(1) worker_finish_ends by (auto simp: worker_round_def split: signal.split)
  then have "pf_result (worker_run c (obs @ ob # rest) p) \<noteq> None"
    by (simp add: app worker_run_ended)
  then show ?thesis using worker_run_result_idle [OF assms(2)] by blast
qed

text \<open>
  An agent starts only at the threshold, and every round that comes at least one window after the start, while the
  agent runs, stops it.
\<close>

theorem agent_starts_at_threshold:
  assumes "pf_running p = None" "pf_running (worker_round c ob p) = Some t"
  shows "f_le (pc_cpu_threshold c) (ob_usage ob) \<and> ob_signal ob = IntervalElapsed \<and> t = ob_started ob"
  using assms
  by (auto simp: worker_round_def worker_finish_def worker_check_def stop_agent_def Let_def split: signal.splits option.splits if_splits)

theorem agent_stops_after_window:
  assumes "pf_running p = Some t" "pf_result p = None" "duration_from_millis (pc_profiling_duration_ms c) \<le> ob_now ob - t"
  shows "pf_running (worker_round c ob p) = None"
  using assms
  by (auto simp: worker_round_def worker_finish_ends worker_check_def stop_agent_def Let_def split: signal.splits option.splits)

text \<open>
  One failure of the agent ends the monitor: a server that cannot be reached while an agent starts or stops leaves
  profiling off for the rest of the process, and the error is seen only at the shutdown.
\<close>

theorem agent_failure_is_final:
  assumes "pf_running p = None" "pf_result p = None" "ob_signal ob = IntervalElapsed"
    and "f_le (pc_cpu_threshold c) (ob_usage ob)" "ob_build ob = None" "ob_start ob = Some e"
  shows "worker_run c (ob # obs) p = p\<lparr>pf_result := Some (Inl (AgentError e))\<rparr>"
  using assms by (simp add: worker_round_def worker_check_def worker_run_ended)

text \<open>A configuration passes exactly when all of its parts do; credentials come together or not at all.\<close>

lemma profile_validate_iff:
  "profile_validate c = Inr () \<longleftrightarrow>
     \<not> is_blank (pc_server_address c) \<and>
     (has_prefix ''http://'' (pc_server_address c) \<or> has_prefix ''https://'' (pc_server_address c)) \<and>
     \<not> is_blank (pc_application_name c) \<and> 0 < pc_sample_rate c \<and> 0 < pc_check_interval_ms c \<and>
     0 < pc_profiling_duration_ms c \<and> (\<exists>x. pc_cpu_threshold c = Fin x \<and> 0 \<le> x \<and> x \<le> 1) \<and>
     (pc_auth_user c = None \<longleftrightarrow> pc_auth_password c = None) \<and> (\<forall>(k, v) \<in> set (pc_tags c). \<not> is_blank k)"
  by (cases "pc_cpu_threshold c") (auto simp: profile_validate_def f_le_def list_ex_iff split: if_splits)

lemma build_agent_auth:
  assumes "profile_validate c = Inr ()"
  shows "ag_basic_auth (build_agent c) = None \<longleftrightarrow> pc_auth_user c = None"
  using assms by (auto simp: profile_validate_iff build_agent_def split: option.split)

end
