(* ===== verification/Gateway_Server.thy ===== *)
theory Gateway_Server
  imports Gateway Rpc_Config
begin

text \<open>
  \<open>gateway/src/lib.rs\<close>, the server: how it is built from a configuration with HTTP routes and gRPC upstreams, and
  the services it mounts. Connections, the file system, the parser of descriptor sets and the TLS settings of an
  upstream are arguments.
\<close>

section \<open>Construction\<close>

datatype server_error =
    ConfigError gateway_config_error
  | RpcConfigError rpc_config_error
  | RpcConnectError string
  | EtcdConnectError string
  | DescriptorIo string
  | TranscodeError transcode_error

text \<open>What a descriptor set holds: the pool, and the rule of every annotated method by its name.\<close>

type_synonym descriptors = "pool \<times> (string \<times> http_rule) list"

record 'ch gateway_libs =
  gl_tls :: "grpc_upstream \<Rightarrow> client_tls option"
  gl_connect :: "rpc_client_config \<Rightarrow> string + 'ch"
  gl_etcd :: "etcd_discovery \<Rightarrow> rpc_client_config \<Rightarrow> string + 'ch"
  gl_static :: "string list \<Rightarrow> rpc_client_config \<Rightarrow> 'ch"
  gl_read :: "string \<Rightarrow> string + string"
  gl_descriptor_set :: "string \<Rightarrow> transcode_error + descriptors"
  gl_reflect :: "'ch \<Rightarrow> transcode_error + descriptors"
  gl_metadata :: "string \<Rightarrow> bool"

definition representative_uri :: "client_tls option \<Rightarrow> grpc_upstream \<Rightarrow> string" where
  "representative_uri tls u =
     (case gu_endpoints u of
        e # _ \<Rightarrow> e
      | [] \<Rightarrow> if tls \<noteq> None then ''https://discovery.invalid'' else ''http://discovery.invalid'')"

text \<open>The settings of the client; a timeout of zero panics.\<close>

definition upstream_client_config :: "client_tls option \<Rightarrow> duration \<Rightarrow> grpc_upstream \<Rightarrow> rpc_client_config option" where
  "upstream_client_config tls timeout u =
     map_option (\<lambda>c. case tls of None \<Rightarrow> c | Some t \<Rightarrow> client_with_tls t c)
       (client_with_request_timeout timeout (rpc_client_config_new (representative_uri tls u)))"

definition upstream_channel :: "'ch gateway_libs \<Rightarrow> grpc_upstream \<Rightarrow> rpc_client_config \<Rightarrow> server_error + 'ch" where
  "upstream_channel l u c =
     (case gu_discovery u of
        Some d \<Rightarrow> map_sum EtcdConnectError id (gl_etcd l d c)
      | None \<Rightarrow>
          if length (gu_endpoints u) = 1 then map_sum RpcConnectError id (gl_connect l c)
          else Inr (gl_static l (gu_endpoints u) c))"

definition upstream_descriptors :: "'ch gateway_libs \<Rightarrow> grpc_upstream \<Rightarrow> 'ch \<Rightarrow> server_error + descriptors" where
  "upstream_descriptors l u ch =
     (case gu_descriptor_set u of
        Some path \<Rightarrow>
          and_then (map_sum DescriptorIo id (gl_read l path)) (\<lambda>bytes. map_sum TranscodeError id (gl_descriptor_set l bytes))
      | None \<Rightarrow> map_sum TranscodeError id (gl_reflect l ch))"

definition upstream_bindings :: "grpc_upstream \<Rightarrow> descriptors \<Rightarrow> http_binding list" where
  "upstream_bindings u d =
     (if gu_annotated_bindings u then concat (map (\<lambda>(rpc, rule). collect_http_rules rpc rule) (snd d)) else []) @ gu_bindings u"

definition upstream_authorization :: "'ch gateway_libs \<Rightarrow> grpc_upstream \<Rightarrow> server_error + string option" where
  "upstream_authorization l u =
     (case gu_bearer_token u of
        None \<Rightarrow> Inr None
      | Some t \<Rightarrow>
          if gl_metadata l (''Bearer '' @ t) then Inr (Some (''Bearer '' @ t)) else Inl (TranscodeError InvalidAuthorization))"

definition build_upstream :: "'ch gateway_libs \<Rightarrow> duration \<Rightarrow> grpc_upstream \<Rightarrow> (server_error + string \<times> transcoder) option" where
  "build_upstream l timeout u =
     map_option (\<lambda>c.
       and_then (map_sum RpcConfigError id (rpc_client_validate c)) (\<lambda>_.
       and_then (upstream_channel l u c) (\<lambda>ch.
       and_then (upstream_descriptors l u ch) (\<lambda>d.
       and_then (upstream_authorization l u) (\<lambda>a.
       and_then (map_sum TranscodeError id (build (fst d) (upstream_bindings u d) a)) (\<lambda>t.
       Inr (gu_prefix u, t)))))))
     (upstream_client_config (gl_tls l u) timeout u)"

fun build_upstreams :: "'ch gateway_libs \<Rightarrow> duration \<Rightarrow> grpc_upstream list \<Rightarrow> (server_error + (string \<times> transcoder) list) option" where
  "build_upstreams l timeout [] = Some (Inr [])"
| "build_upstreams l timeout (u # us) =
     (case build_upstream l timeout u of
        None \<Rightarrow> None
      | Some (Inl e) \<Rightarrow> Some (Inl e)
      | Some (Inr t) \<Rightarrow> map_option (map_sum id (Cons t)) (build_upstreams l timeout us))"

record gateway_server =
  gs_config :: gateway_config
  gs_proxy :: proxy
  gs_grpc :: "(string \<times> transcoder) list"

text \<open>\<open>rest\<close> is what \<open>RestServer::new\<close> reports for the settings of the gateway, with \<open>None\<close> for success.\<close>

definition gateway_server_new ::
  "http_libs \<Rightarrow> (string \<Rightarrow> (string \<times> bool) option) \<Rightarrow> (router \<Rightarrow> router) \<Rightarrow> (server_config \<Rightarrow> server_config_error option) \<Rightarrow>
   gateway_config \<Rightarrow> (server_error + gateway_server) option" where
  "gateway_server_new h url srt rest g =
     (case gateway_config_validate h url srt g of
        Inl e \<Rightarrow> Some (Inl (ConfigError e))
      | Inr _ \<Rightarrow>
          if gc_grpc g \<noteq> []
          then Some (Inl (ConfigError (GatewayInvalid ''gRPC gateway routes require the asynchronous from_config constructor'')))
          else map_option (\<lambda>r.
            and_then (map_sum ConfigError id r) (\<lambda>p.
              case rest (gateway_rest_config g) of
                Some e \<Rightarrow> Inl (ConfigError (RestError e))
              | None \<Rightarrow> Inr \<lparr>gs_config = g, gs_proxy = p, gs_grpc = []\<rparr>)) (gateway_proxy srt g))"

definition gateway_from_config ::
  "http_libs \<Rightarrow> (string \<Rightarrow> (string \<times> bool) option) \<Rightarrow> (router \<Rightarrow> router) \<Rightarrow>
   ((string \<times> transcoder) list \<Rightarrow> (string \<times> transcoder) list) \<Rightarrow> (server_config \<Rightarrow> server_config_error option) \<Rightarrow>
   'ch gateway_libs \<Rightarrow> gateway_config \<Rightarrow> (server_error + gateway_server) option" where
  "gateway_from_config h url srt grpc_sort rest l g =
     (case gateway_config_validate h url srt g of
        Inl e \<Rightarrow> Some (Inl (ConfigError e))
      | Inr _ \<Rightarrow>
          (case gateway_proxy srt g of
             None \<Rightarrow> None
           | Some (Inl e) \<Rightarrow> Some (Inl (ConfigError e))
           | Some (Inr p) \<Rightarrow>
               map_option (\<lambda>r. and_then r (\<lambda>ts.
                   case rest (gateway_rest_config g) of
                     Some e \<Rightarrow> Inl (ConfigError (RestError e))
                   | None \<Rightarrow> Inr \<lparr>gs_config = g, gs_proxy = p, gs_grpc = grpc_sort ts\<rparr>))
                 (build_upstreams l (duration_from_millis (gc_request_timeout_ms g)) (gc_grpc g))))"

definition server_with_middleware ::
  "string \<Rightarrow> (upstream_request \<Rightarrow> upstream_handler \<Rightarrow> http_response) \<Rightarrow> gateway_server \<Rightarrow> gateway_config_error + gateway_server" where
  "server_with_middleware name m s = map_sum id (\<lambda>p. s\<lparr>gs_proxy := p\<rparr>) (with_upstream_middleware name m (gs_proxy s))"

text \<open>The services in the order in which they are registered.\<close>

datatype mount = GrpcScope string transcoder | ProxyResource string

definition http_mounts :: "string \<Rightarrow> mount list" where
  "http_mounts prefix =
     (if prefix = ''/'' then [ProxyResource ''/{tail:.*}'']
      else [ProxyResource prefix, ProxyResource (prefix @ ''/{tail:.*}'')])"

definition gateway_mounts :: "gateway_server \<Rightarrow> mount list" where
  "gateway_mounts s =
     map (\<lambda>(prefix, t). GrpcScope prefix t) (gs_grpc s) @
     concat (map (\<lambda>r. http_mounts (gr_prefix r)) (gc_routes (gs_config s)))"

definition gateway_run_on :: "gateway_server \<Rightarrow> gateway_config_error + mount list" where
  "gateway_run_on s = and_then (validate_middleware (gs_proxy s)) (\<lambda>_. Inr (gateway_mounts s))"

section \<open>Properties\<close>

lemma map_sum_Inr: "map_sum f id r = Inr x \<longleftrightarrow> r = Inr x"
  by (cases r) auto

text \<open>An upstream is built from its own settings: its bindings over its own descriptors, with its own token.\<close>

definition upstream_built :: "'ch gateway_libs \<Rightarrow> duration \<Rightarrow> grpc_upstream \<Rightarrow> string \<times> transcoder \<Rightarrow> bool" where
  "upstream_built l timeout u t \<longleftrightarrow>
     fst t = gu_prefix u \<and> tr_authorization (snd t) = map_option (\<lambda>b. ''Bearer '' @ b) (gu_bearer_token u) \<and>
     (\<exists>c ch d. upstream_channel l u c = Inr ch \<and> cc_request_timeout c = Some timeout \<and> cc_tls c = gl_tls l u \<and>
        upstream_descriptors l u ch = Inr d \<and>
        build (fst d) (upstream_bindings u d) (tr_authorization (snd t)) = Inr (snd t))"

lemma client_config_fields:
  "upstream_client_config tls timeout u = Some c \<Longrightarrow> cc_request_timeout c = Some timeout \<and> cc_tls c = tls"
  by (auto simp: upstream_client_config_def client_with_request_timeout_def client_with_tls_def rpc_client_config_new_def
      split: if_splits option.splits)

lemma build_upstream_ok:
  assumes "build_upstream l timeout u = Some (Inr t)"
  shows "upstream_built l timeout u t"
proof -
  obtain c ch d a where c: "upstream_client_config (gl_tls l u) timeout u = Some c"
    and ch: "upstream_channel l u c = Inr ch" and d: "upstream_descriptors l u ch = Inr d"
    and a: "upstream_authorization l u = Inr a"
    and t: "build (fst d) (upstream_bindings u d) a = Inr (snd t)" "fst t = gu_prefix u"
    using assms by (auto simp: build_upstream_def and_then_Inr map_sum_Inr)
  have auth: "a = map_option (\<lambda>b. ''Bearer '' @ b) (gu_bearer_token u)"
    using a by (auto simp: upstream_authorization_def split: option.splits if_splits)
  have "tr_authorization (snd t) = a"
    using t(1) by (auto simp: build_def and_then_Inr dest!: sym [of _ "snd t"])
  then show ?thesis
    unfolding upstream_built_def using client_config_fields [OF c] ch d t auth by blast
qed

lemma build_upstreams_ok:
  "build_upstreams l timeout us = Some (Inr ts) \<Longrightarrow> list_all2 (upstream_built l timeout) us ts"
proof (induction us arbitrary: ts)
  case (Cons u us)
  then obtain t r where t: "build_upstream l timeout u = Some (Inr t)"
    and r: "build_upstreams l timeout us = Some r" "map_sum id (Cons t) r = Inr ts"
    by (auto split: option.splits sum.splits)
  then obtain ts' where "r = Inr ts'" "ts = t # ts'" by (cases r) auto
  then show ?case using Cons.IH r(1) build_upstream_ok [OF t] by simp
qed simp

text \<open>
  A server that is built serves every gRPC upstream of its configuration and nothing else: its transcoders are
  those of the upstreams, the longest prefix first, each from the upstream's own endpoints, descriptors, bindings
  and token; all of them are mounted before the HTTP routes.
\<close>

theorem gateway_serves_upstreams:
  assumes "gateway_from_config h url srt grpc_sort rest l g = Some (Inr s)"
    and "\<And>ts. mset (grpc_sort ts) = mset ts" "\<And>ts. sorted_wrt (\<ge>) (map (length \<circ> fst) (grpc_sort ts))"
  shows "gs_config s = g \<and> gateway_config_validate h url srt g = Inr () \<and>
    (\<exists>ts. list_all2 (upstream_built l (duration_from_millis (gc_request_timeout_ms g))) (gc_grpc g) ts \<and> mset (gs_grpc s) = mset ts) \<and>
    sorted_wrt (\<ge>) (map (length \<circ> fst) (gs_grpc s))"
proof -
  obtain ts where ts: "build_upstreams l (duration_from_millis (gc_request_timeout_ms g)) (gc_grpc g) = Some (Inr ts)"
    and s: "gs_grpc s = grpc_sort ts" "gs_config s = g" "gateway_config_validate h url srt g = Inr ()"
    using assms(1) by (auto simp: gateway_from_config_def and_then_Inr split: sum.splits option.splits)
  then show ?thesis using build_upstreams_ok [OF ts] assms(2,3) by auto
qed

text \<open>The first upstream that cannot be built decides the error, whatever follows it.\<close>

lemma first_failing_upstream:
  assumes "build_upstreams l timeout us = Some (Inr ts)" "build_upstream l timeout u = Some (Inl e)"
  shows "build_upstreams l timeout (us @ u # rest) = Some (Inl e)"
  using assms
proof (induction us arbitrary: ts)
  case (Cons v us)
  then obtain t r where "build_upstream l timeout v = Some (Inr t)" "build_upstreams l timeout us = Some r"
      "map_sum id (Cons t) r = Inr ts"
    by (auto split: option.splits sum.splits)
  then show ?case using Cons by (cases r) auto
qed simp

text \<open>A gateway with gRPC upstreams cannot be built synchronously.\<close>

lemma synchronous_http_only:
  "gateway_server_new h url srt rest g = Some (Inr s) \<Longrightarrow> gc_grpc g = [] \<and> gs_grpc s = []"
  by (auto simp: gateway_server_new_def and_then_Inr split: sum.splits if_splits option.splits)

text \<open>A valid configuration does not panic: the limits and the timeout it is built with are positive.\<close>

theorem gateway_build_total:
  assumes "gateway_config_validate h url srt g = Inr ()"
  shows "gateway_from_config h url srt grpc_sort rest l g \<noteq> None"
proof -
  have pos: "0 < gc_request_timeout_ms g" "0 < gc_request_body_limit g" "0 < gc_response_body_limit g"
    using assms by (auto simp: gateway_config_validate_def and_then_Inr check_def split: if_splits)
  have timeout: "0 < duration_from_millis (gc_request_timeout_ms g)"
    using pos(1) by (simp add: duration_from_millis_def)
  have up: "build_upstream l (duration_from_millis (gc_request_timeout_ms g)) u \<noteq> None" for u
    using timeout by (simp add: build_upstream_def upstream_client_config_def client_with_request_timeout_def)
  have ups: "build_upstreams l (duration_from_millis (gc_request_timeout_ms g)) us \<noteq> None" for us
  proof (induction us)
    case (Cons u us)
    then show ?case using up [of u] by (auto split: option.split sum.split)
  qed simp
  have "gateway_proxy srt g \<noteq> None"
    using pos timeout
    by (auto simp: gateway_proxy_def with_request_body_limit_def with_response_body_limit_def with_timeout_def split: sum.split)
  then show ?thesis
    using assms ups by (auto simp: gateway_from_config_def split: option.split sum.split)
qed

end
