(* ===== verification/Spec2Isabelle.thy ===== *)
theory Spec2Isabelle
  imports Rolling Breaker Limit Load Bloom Hash_Ring Single_Flight Retry Config Executor Discov Balancer Trace Gateway
    Response Queue Map_Reduce Service_Group Diagnostics Pubsub Validation Mcp_Http Rpc_Client Redis_Cache Redis_Subscription Mongo_Store Log_Files Kubernetes Http_Client Sse Static_Assets Extract
    Http_Log Cli Telemetry Profiler Gateway_Server
begin

text \<open>
  A verification of rust-zero, a library and a set of programs for services: resilience (circuit breakers,
  rate limiters, load shedding, retries), in-process data structures (rolling windows, caches, bloom
  filters, hash rings), coordination (single flight, executors, queues, service groups, discovery, load
  balancing), stores (Redis, SQL, MongoDB), logging, the REST server, the gRPC server and client, the HTTP
  gateway with its transcoder, and the Model Context Protocol server. The core crate is what the others
  are built from: a REST route or a gRPC call passes authentication, a limiter, a shedder and a breaker of
  the core crate; the gRPC client resolves its endpoints with the core's discovery and picks among them
  with the core's balancer or hash ring; the stores guard their calls with the core's breaker and share
  their loads with its single flight.

  \<^bold>\<open>Conventions.\<close> A struct is a record, an enum a datatype, an operation a function from the old state to
  the new state and its result. A clock reading, a random draw or the answer of another process is an
  argument, so a run is a sequence of operations with what they read. An operation that holds one lock for
  its whole body is one step; where the source releases a lock or uses several atomic accesses the model
  has several steps, and a run interleaves them. A panic is the value \<open>None\<close>, an error a left injection.
  Durations and instants are natural numbers of nanoseconds with the saturation of the source written
  out; machine integers whose wrap-around or saturation matters are words or numbers with the limit
  written out; floating point numbers are the rationals of IEEE binary64 with rounding to nearest even, in
  \<open>Binary64\<close>. Strings are lists of bytes. Code that is not in the repository is an argument, and what
  a theorem assumes of it is one of its hypotheses.

  \<^bold>\<open>Shared theories.\<close>
  \<^item> \<open>Prelude\<close>: time, saturating arithmetic, the locale \<open>kv_map\<close> of finite maps with its interpretations
    for hash maps and ordered maps, strings. \<open>Binary64\<close>: floating point. \<open>Broadcast\<close>: the broadcast
    channel of the runtime, with lagging receivers.
  \<^item> \<open>Bucket_Ring\<close>: the locales \<open>bucket_ring\<close> and \<open>bucket_counter\<close> of time-bucketed rings, which the
    rolling window and the rolling breaker interpret.

  \<^bold>\<open>Core: resilience and data structures.\<close>
  \<^item> \<open>Rolling\<close> (\<open>core/src/rolling.rs\<close>): a snapshot is what a sliding window of the recorded values is.
  \<^item> \<open>Breaker\<close> (\<open>core/src/breaker.rs\<close>): consecutive-failure and rolling breakers, permits, guards. The
    circuit opens exactly at its threshold, rejects while open, never gets stuck, and the rolling policy
    drops at a bounded ratio and still probes.
  \<^item> \<open>Limit\<close> (\<open>core/src/limit.rs\<close>): token bucket, fixed windows behind the locales \<open>fixed_window\<close> and
    \<open>exact_window\<close>, the bounded rescue limiter and the monitor that switches between Redis and it.
  \<^item> \<open>Load\<close> (\<open>core/src/load.rs\<close>): the adaptive shedder as an interleaved protocol; never more than the
    configured number of permits is out.
  \<^item> \<open>Bloom\<close>, \<open>Hash_Ring\<close> (\<open>core/src/bloom.rs\<close>, \<open>hash.rs\<close>): no false negatives; a membership change
    moves only the keys it has to.
  \<^item> \<open>Cache\<close>, \<open>Single_Flight\<close> (\<open>core/src/cache.rs\<close>, \<open>singleflight.rs\<close>): expiring caches behind the
    locales \<open>expiring_cache\<close> and \<open>unbounded_cache\<close>, the bounded cache refining a list-based LRU
    specification, one leader per key, read-through.
  \<^item> \<open>Retry\<close>, \<open>Executor\<close> (\<open>core/src/fx.rs\<close>, \<open>executor.rs\<close>): the schedule of retries; batching workers
    behind the locale \<open>batching\<close>, throttled, delayed and periodic executors.
  \<^item> \<open>Config\<close>, \<open>Validation\<close> (\<open>core/src/config.rs\<close>, \<open>config_center.rs\<close>, \<open>validation.rs\<close>): environment
    expansion, dynamic configuration, accumulated violations.
  \<^item> \<open>Queue\<close>, \<open>Pubsub\<close>, \<open>Map_Reduce\<close>, \<open>Service_Group\<close> (\<open>core/src/queue.rs\<close>, \<open>pubsub.rs\<close>,
    \<open>mapreduce/src/mapreduce.rs\<close>, \<open>core/src/service.rs\<close>): the supervised queue delivers in order, at
    most once and drains within a bound that is part of its theorem; topics; the concurrent executor
    equals the sequential one; supervision of services.
  \<^item> \<open>Diagnostics\<close> (\<open>core/src/health.rs\<close>, \<open>profile.rs\<close>, \<open>rest/src/devserver.rs\<close>): probes, profile
    counters and the endpoints of the development server with their guards.

  \<^bold>\<open>Core: discovery, stores, logging.\<close>
  \<^item> \<open>Discov\<close>, \<open>Etcd\<close>, \<open>Kubernetes\<close>, \<open>Balancer\<close> (\<open>core/src/discov.rs\<close>, \<open>etcd.rs\<close>, \<open>kubernetes.rs\<close>,
    \<open>balancer.rs\<close>): reference-counted leases, subscriptions that converge, watches that follow the
    server through broken streams, power-of-two-choices with exact accounting.
  \<^item> \<open>Redis_Store\<close>, \<open>Redis_Lock\<close>, \<open>Redis_Cache\<close>, \<open>Redis_Subscription\<close> (\<open>core/src/stores_redis.rs\<close>): every
    operation as the command it sends, which names only keys under the store's prefix; the lock, exclusive
    on any server that satisfies the locale \<open>redis_server\<close> of documented laws, which a server with
    expiring keys interprets; the read-through model cache; subscriptions that account for every message.
  \<^item> \<open>Sql_Store\<close>, \<open>Mongo_Store\<close> (\<open>core/src/stores_sql.rs\<close>, \<open>stores_mongo.rs\<close>): the cached store stays
    coherent under every interleaving the theorem names, batches of bulk inserts, invalidation.
  \<^item> \<open>Log\<close>, \<open>Civil_Date\<close>, \<open>Log_Files\<close> (\<open>core/src/log.rs\<close>): levels, sampling, records, the writer thread;
    the date computation agrees with the Gregorian calendar; rotation keeps the newest records.
  \<^item> \<open>Metrics\<close> (\<open>core/src/metric.rs\<close>): the registry; its text exposition reads back as what was
    recorded, counters never decrease, buckets are cumulative, numbers are printed so that they round back.

  \<^bold>\<open>Servers and clients.\<close>
  \<^item> \<open>Trace\<close>, \<open>Auth\<close>, \<open>Route\<close> (\<open>core/src/trace.rs\<close>, \<open>core/src/auth.rs\<close>, \<open>rest/src/auth.rs\<close>,
    \<open>rest/src/route.rs\<close>): header round trips, tokens and signatures, and that declared authentication
    is enforced on every declared route.
  \<^item> \<open>Rest_Middleware\<close>, \<open>Content_Encryption\<close>, \<open>Rest_Server\<close>, \<open>Response\<close> (\<open>rest/src/middleware.rs\<close>,
    \<open>resilience.rs\<close>, \<open>recovery.rs\<close>, \<open>security.rs\<close>, \<open>content_encryption.rs\<close>, \<open>server.rs\<close>, \<open>response.rs\<close>):
    each layer as a function from the inner service to the outer one, the stack as their composition in the
    order of the source; a request that is refused spends nothing, encrypted content round trips and is
    authentic.
  \<^item> \<open>Extract\<close>, \<open>Sse\<close>, \<open>Static_Assets\<close> (\<open>rest/src/extract.rs\<close>, \<open>sse.rs\<close>, \<open>static_assets.rs\<close>): a form is
    accepted exactly when it is within its limits, events arrive as they were sent, no request leaves the
    root of the files.
  \<^item> \<open>Call_Metrics\<close>, \<open>Http_Client\<close> (\<open>rest/src/metrics.rs\<close>, \<open>rpc/src/metrics.rs\<close>, \<open>rest/src/client.rs\<close>,
    \<open>rest/src/trace.rs\<close>, \<open>rpc/src/trace.rs\<close>): the gauge of calls in flight and the counters of outcomes are
    exact under every interleaving; the HTTP client; a trace continues from caller to callee.
  \<^item> \<open>Http_Log\<close> (\<open>rest/src/log.rs\<close>, with the logger of \<open>core/src/log.rs\<close>): one record for every request, with
    all its fields, whatever the sink; logging does not change the response.
  \<^item> \<open>Telemetry\<close>, \<open>Profiler\<close> (\<open>core/src/telemetry.rs\<close>, \<open>continuous_profile.rs\<close>, the OpenTelemetry layers of
    \<open>rest/src/trace.rs\<close> and \<open>rpc/src/trace.rs\<close>): every span ends once and continues the caller's trace; at
    most one profiling agent runs, and none after the shutdown.
  \<^item> \<open>Cli\<close> (\<open>cli/src/main.rs\<close>): the scaffolding tool; without force no file that exists is changed, identifiers
    and literals of the generated routes are well formed.
  \<^item> \<open>Gateway\<close>, \<open>Gateway_Server\<close>, \<open>Transcode\<close> (\<open>gateway/src/lib.rs\<close>, \<open>transcode.rs\<close>): route selection by the
    longest prefix to a healthy upstream, the server built from its configuration with the transcoders of
    its upstreams, templates with their round trip and precedence.
  \<^item> \<open>Mcp\<close>, \<open>Mcp_Http\<close> (\<open>mcp/src/lib.rs\<close>): registry, sessions, event streams that resume, guards of the
    HTTP handlers.
  \<^item> \<open>Rpc_Config\<close>, \<open>Rpc_Stack\<close>, \<open>Rpc_Client\<close> (\<open>rpc/src/lib.rs\<close>, \<open>stack.rs\<close>, \<open>auth.rs\<close>,
    \<open>resilience.rs\<close>): settings that are well formed whatever the builders do, every admitted call settled
    exactly once, discovered channels that serve what discovery reports, affinity of the hashed channel.

  \<^bold>\<open>Bounds and fuel.\<close> Loops over data are structural. The few loops that wait (reconnecting, polling, the
  workers) are step relations or functions over the list of what they observe, so no result depends on a
  chosen bound; where termination is claimed, the theorem gives the number of steps.

  \<^bold>\<open>Not modelled.\<close> Socket and file system calls, TLS, the runtimes of tokio, axum, tonic and sqlx (what the
  code relies on of them is an argument); the
  programs in \<open>benchmarks\<close>, \<open>demo\<close> and \<open>examples\<close>; the libraries that export spans and profiles to other
  processes.
\<close>

end
